(* ===== verification/OdbPrelude.thy ===== *)
theory OdbPrelude imports Main "HOL-Library.Word" "HOL-Library.Signed_Division" begin

text \<open>
  What the components share: the named collections of rewrite rules, the machine ranges of
  the C types, error results, and generic facts on lists, options and words.

  The program is C++.  Its \<open>int\<close> coordinates are modelled as HOL integers and the lemmas
  on \<open>in_int32\<close> say when an operation leaves the 32-bit range (signed overflow is
  undefined behaviour in C++, so an operation that overflows has no value to model).
  \<open>unsigned char\<close> and the hash values, whose wrap-around the code uses, are words.
  \<open>assert\<close> and \<open>ZASSERT\<close> are modelled as in a build without \<open>NDEBUG\<close>: a failed one is
  an error value.
\<close>

named_theorems geom_defs "unfolding rules of the geometry operations"
named_theorems enc_defs "unfolding rules of the wire encoder"
named_theorems dec_defs "unfolding rules of the wire decoder"

type_synonym u8 = "8 word"
type_synonym u32 = "32 word"

section \<open>Machine ranges\<close>

definition in_int32 :: "int \<Rightarrow> bool" where
  "in_int32 x \<longleftrightarrow> - (2 ^ 31) \<le> x \<and> x < 2 ^ 31"

definition in_int64 :: "int \<Rightarrow> bool" where
  "in_int64 x \<longleftrightarrow> - (2 ^ 63) \<le> x \<and> x < 2 ^ 63"

text \<open>A checked 32-bit operation: \<open>None\<close> where the C++ expression overflows.\<close>

definition chk32 :: "int \<Rightarrow> int option" where
  "chk32 x = (if in_int32 x then Some x else None)"

definition chk64 :: "int \<Rightarrow> int option" where
  "chk64 x = (if in_int64 x then Some x else None)"

lemma chk32_Some [simp]: "chk32 x = Some y \<longleftrightarrow> in_int32 x \<and> y = x"
  by (auto simp: chk32_def)

lemma chk64_Some [simp]: "chk64 x = Some y \<longleftrightarrow> in_int64 x \<and> y = x"
  by (auto simp: chk64_def)

lemma in_int64_nonneg: "0 \<le> x \<Longrightarrow> x < 2 ^ 63 \<Longrightarrow> in_int64 x"
  by (simp add: in_int64_def)

text \<open>Halving as C++ does it: the quotient is truncated towards zero.\<close>

lemma sdiv_two_bounds:
  fixes a :: int
  shows "a - 1 \<le> 2 * (a sdiv 2) \<and> 2 * (a sdiv 2) \<le> a + 1"
  by (cases "0 \<le> a") (auto simp: signed_divide_int_def sgn_if abs_if)

lemma sdiv_two_between:
  fixes lo hi :: int
  assumes "lo \<le> hi"
  shows "lo \<le> (lo + hi) sdiv 2 \<and> (lo + hi) sdiv 2 \<le> hi"
  using assms sdiv_two_bounds [of "lo + hi"]
  by (cases "lo = hi") (auto simp: signed_divide_int_def sgn_if abs_if)

section \<open>Error results\<close>

text \<open>Sequencing of operations that may fail: the first error is the result.\<close>

definition sum_bind :: "'e + 'a \<Rightarrow> ('a \<Rightarrow> 'e + 'b) \<Rightarrow> 'e + 'b" where
  "sum_bind r f = (case r of Inl e \<Rightarrow> Inl e | Inr a \<Rightarrow> f a)"

lemma sum_bind_simps [simp]:
  "sum_bind (Inl e) f = Inl e"
  "sum_bind (Inr a) f = f a"
  by (simp_all add: sum_bind_def)

lemma sum_bind_Inr_iff: "sum_bind r f = Inr b \<longleftrightarrow> (\<exists>a. r = Inr a \<and> f a = Inr b)"
  by (cases r) auto

lemma sum_bind_cong [fundef_cong]:
  "r = r' \<Longrightarrow> (\<And>a. r' = Inr a \<Longrightarrow> f a = g a) \<Longrightarrow> sum_bind r f = sum_bind r' g"
  by (cases r') auto

section \<open>Lists\<close>

lemma nth_append_prefix: "i < length xs \<Longrightarrow> (xs @ ys) ! i = xs ! i"
  by (simp add: nth_append)

lemma drop_length_append: "drop (length xs) (xs @ ys) = ys"
  by simp

end
