(* ===== verification/OdbGeom.thy ===== *)
theory OdbGeom imports OdbPrelude begin

text \<open>
  The geometry of the database: \<open>isotropy.h\<close> (directions and orientations as small
  enumerations computed with bit tricks) and \<open>geom.h\<close> (\<open>Point\<close>, \<open>Rect\<close>, \<open>Oct\<close>, \<open>Line\<close>).
  Every operation is translated branch by branch; the lemmas give each its geometric
  meaning over the set of points a rectangle covers.
\<close>

section \<open>isotropy.h: directions and orientations\<close>

datatype Direction1D = Low | High
datatype Orientation2D = Horizontal | Vertical
datatype Direction2D = West | East | South | North
datatype Direction3D = D2 Direction2D | Down | Up

text \<open>The numeric values of the enumerators, which the code's bit arithmetic uses.\<close>

fun dir1_val :: "Direction1D \<Rightarrow> nat" where
  "dir1_val Low = 0"
| "dir1_val High = 1"

fun orient2_val :: "Orientation2D \<Rightarrow> nat" where
  "orient2_val Horizontal = 0"
| "orient2_val Vertical = 1"

fun dir2_val :: "Direction2D \<Rightarrow> nat" where
  "dir2_val West = 0"
| "dir2_val East = 1"
| "dir2_val South = 2"
| "dir2_val North = 3"

fun dir3_val :: "Direction3D \<Rightarrow> nat" where
  "dir3_val (D2 d) = dir2_val d"
| "dir3_val Down = 4"
| "dir3_val Up = 5"

text \<open>The casts \<open>Value(n)\<close> back from a number (the code only casts values in range).\<close>

definition dir1_of :: "nat \<Rightarrow> Direction1D" where
  "dir1_of n = (if n = 0 then Low else High)"

definition orient2_of :: "nat \<Rightarrow> Orientation2D" where
  "orient2_of n = (if n = 0 then Horizontal else Vertical)"

definition dir2_of :: "nat \<Rightarrow> Direction2D" where
  "dir2_of n = (if n = 0 then West else if n = 1 then East else if n = 2 then South else North)"

definition dir3_of :: "nat \<Rightarrow> Direction3D" where
  "dir3_of n = (if n < 4 then D2 (dir2_of n) else if n = 4 then Down else Up)"

unbundle bit_operations_syntax

definition dir1_flipped :: "Direction1D \<Rightarrow> Direction1D" where
  "dir1_flipped d = dir1_of (dir1_val d XOR 1)"

definition orient2_turn_90 :: "Orientation2D \<Rightarrow> Orientation2D" where
  "orient2_turn_90 r = orient2_of (orient2_val r XOR 1)"

definition dir2_flipped :: "Direction2D \<Rightarrow> Direction2D" where
  "dir2_flipped d = dir2_of (dir2_val d XOR 1)"

definition dir2_turn :: "Direction2D \<Rightarrow> Direction1D \<Rightarrow> Direction2D" where
  "dir2_turn d t =
     dir2_of (((dir2_val d XOR 3) XOR (drop_bit 1 (dir2_val d))) XOR dir1_val t)"

definition dir2_left :: "Direction2D \<Rightarrow> Direction2D" where
  "dir2_left d = dir2_turn d High"

definition dir2_right :: "Direction2D \<Rightarrow> Direction2D" where
  "dir2_right d = dir2_turn d Low"

definition dir2_is_positive :: "Direction2D \<Rightarrow> bool" where
  "dir2_is_positive d \<longleftrightarrow> dir2_val d AND 1 \<noteq> 0"

definition dir2_to_dir1 :: "Direction2D \<Rightarrow> Direction1D" where
  "dir2_to_dir1 d = dir1_of (dir2_val d AND 1)"

definition dir2_to_orient2 :: "Direction2D \<Rightarrow> Orientation2D" where
  "dir2_to_orient2 d = orient2_of (drop_bit 1 (dir2_val d))"

definition orient2_getDirection :: "Orientation2D \<Rightarrow> Direction1D \<Rightarrow> Direction2D" where
  "orient2_getDirection r d = dir2_of (push_bit 1 (orient2_val r) + dir1_val d)"

definition dir3_flipped :: "Direction3D \<Rightarrow> Direction3D" where
  "dir3_flipped d = dir3_of (dir3_val d XOR 1)"

definition dir3_is_positive :: "Direction3D \<Rightarrow> bool" where
  "dir3_is_positive d \<longleftrightarrow> dir3_val d AND 1 \<noteq> 0"

lemmas iso_defs = dir1_of_def orient2_of_def dir2_of_def dir3_of_def dir1_flipped_def
  orient2_turn_90_def dir2_flipped_def dir2_turn_def dir2_left_def dir2_right_def
  dir2_is_positive_def dir2_to_dir1_def dir2_to_orient2_def orient2_getDirection_def
  dir3_flipped_def dir3_is_positive_def

text \<open>The unit vector a direction stands for.\<close>

fun dir2_vec :: "Direction2D \<Rightarrow> int \<times> int" where
  "dir2_vec West = (-1, 0)"
| "dir2_vec East = (1, 0)"
| "dir2_vec South = (0, -1)"
| "dir2_vec North = (0, 1)"

lemma dir2_left_rotates: "dir2_vec (dir2_left d) = (- snd (dir2_vec d), fst (dir2_vec d))"
  by (cases d) (simp_all add: iso_defs)

lemma dir2_right_rotates: "dir2_vec (dir2_right d) = (snd (dir2_vec d), - fst (dir2_vec d))"
  by (cases d) (simp_all add: iso_defs)

lemma dir2_flipped_negates: "dir2_vec (dir2_flipped d) = (- fst (dir2_vec d), - snd (dir2_vec d))"
  by (cases d) (simp_all add: iso_defs)

lemma dir2_positive_iff: "dir2_is_positive d \<longleftrightarrow> 0 < fst (dir2_vec d) + snd (dir2_vec d)"
  by (cases d) (simp_all add: iso_defs)

lemma dir2_split: "orient2_getDirection (dir2_to_orient2 d) (dir2_to_dir1 d) = d"
  by (cases d) (simp_all add: iso_defs)

lemma dir2_join: "dir2_to_orient2 (orient2_getDirection r t) = r \<and>
    dir2_to_dir1 (orient2_getDirection r t) = t"
  by (cases r; cases t) (simp_all add: iso_defs)

lemma dir3_flipped_invol: "dir3_flipped (dir3_flipped d) = d"
proof (cases d)
  case (D2 e)
  then show ?thesis by (cases e) (simp_all add: iso_defs)
qed (simp_all add: iso_defs)

lemma dir3_flipped_positive: "dir3_is_positive (dir3_flipped d) \<longleftrightarrow> \<not> dir3_is_positive d"
proof (cases d)
  case (D2 e)
  then show ?thesis by (cases e) (simp_all add: iso_defs)
qed (simp_all add: iso_defs)

section \<open>Point\<close>

datatype Point = Point (pt_x: int) (pt_y: int)

text \<open>\<open>operator<\<close> compares the pair \<open>(x, y)\<close> lexicographically, as \<open>std::tie\<close> does.\<close>

definition point_less :: "Point \<Rightarrow> Point \<Rightarrow> bool" where
  "point_less p q \<longleftrightarrow> pt_x p < pt_x q \<or> (pt_x p = pt_x q \<and> pt_y p < pt_y q)"

instantiation Point :: linorder
begin

definition less_Point :: "Point \<Rightarrow> Point \<Rightarrow> bool" where
  "p < q \<longleftrightarrow> point_less p q"

definition less_eq_Point :: "Point \<Rightarrow> Point \<Rightarrow> bool" where
  "p \<le> q \<longleftrightarrow> p < q \<or> p = (q :: Point)"

instance
  by standard (auto simp: point_less_def less_Point_def less_eq_Point_def intro: Point.expand)

end

definition point_get :: "Point \<Rightarrow> Orientation2D \<Rightarrow> int" where
  "point_get p orient = (if orient = Horizontal then pt_x p else pt_y p)"

definition point_set :: "Point \<Rightarrow> Orientation2D \<Rightarrow> int \<Rightarrow> Point" where
  "point_set p orient v =
     (if orient = Horizontal then Point v (pt_y p) else Point (pt_x p) v)"

definition rotate90 :: "Point \<Rightarrow> Point" where
  "rotate90 p = (let xp = - pt_y p; yp = pt_x p in Point xp yp)"

definition rotate180 :: "Point \<Rightarrow> Point" where
  "rotate180 p = (let xp = - pt_x p; yp = - pt_y p in Point xp yp)"

definition rotate270 :: "Point \<Rightarrow> Point" where
  "rotate270 p = (let xp = pt_y p; yp = - pt_x p in Point xp yp)"

text \<open>
  The distances subtract in \<open>int\<close> and only then widen to \<open>int64_t\<close>; the result is \<open>None\<close>
  where a step overflows.
\<close>

definition squaredDistance :: "Point \<Rightarrow> Point \<Rightarrow> int option" where
  "squaredDistance p0 p1 =
     (case (chk32 (pt_x p1 - pt_x p0), chk32 (pt_y p1 - pt_y p0)) of
        (Some dx, Some dy) \<Rightarrow> chk64 (dx * dx + dy * dy)
      | _ \<Rightarrow> None)"

definition abs32 :: "int \<Rightarrow> int option" where
  "abs32 v = chk32 \<bar>v\<bar>"

definition point_manhattanDistance :: "Point \<Rightarrow> Point \<Rightarrow> int option" where
  "point_manhattanDistance p0 p1 =
     (case (Option.bind (chk32 (pt_x p1 - pt_x p0)) abs32,
            Option.bind (chk32 (pt_y p1 - pt_y p0)) abs32) of
        (Some dx, Some dy) \<Rightarrow> Some (dx + dy)
      | _ \<Rightarrow> None)"

lemmas point_defs [geom_defs] = point_get_def point_set_def rotate90_def rotate180_def
  rotate270_def Let_def

lemma rotate_compose:
  "rotate90 (rotate90 p) = rotate180 p"
  "rotate90 (rotate180 p) = rotate270 p"
  "rotate90 (rotate270 p) = p"
  "rotate180 (rotate180 p) = p"
  by (simp_all add: geom_defs)

text \<open>Within half the coordinate range no distance overflows.\<close>

definition half_range :: "Point \<Rightarrow> bool" where
  "half_range p \<longleftrightarrow> \<bar>pt_x p\<bar> < 2 ^ 30 \<and> \<bar>pt_y p\<bar> < 2 ^ 30"

lemma squaredDistance_half_range:
  assumes "half_range p" and "half_range q"
  shows "squaredDistance p q = Some ((pt_x q - pt_x p)\<^sup>2 + (pt_y q - pt_y p)\<^sup>2)"
proof -
  let ?dx = "pt_x q - pt_x p" and ?dy = "pt_y q - pt_y p"
  have dx: "\<bar>?dx\<bar> \<le> 2 ^ 31 - 2" and dy: "\<bar>?dy\<bar> \<le> 2 ^ 31 - 2"
    using assms by (auto simp: half_range_def abs_if split: if_splits)
  have "?dx\<^sup>2 \<le> (2 ^ 31 - 2)\<^sup>2" "?dy\<^sup>2 \<le> (2 ^ 31 - 2)\<^sup>2"
    using power_mono [OF dx abs_ge_zero, of 2] power_mono [OF dy abs_ge_zero, of 2]
    by simp_all
  then have "in_int64 (?dx * ?dx + ?dy * ?dy)"
    by (intro in_int64_nonneg) (simp_all add: power2_eq_square)
  moreover have "in_int32 ?dx" "in_int32 ?dy"
    using dx dy by (auto simp: in_int32_def)
  ultimately show ?thesis
    by (simp add: squaredDistance_def chk32_def chk64_def power2_eq_square)
qed

section \<open>Rect\<close>

record Rect =
  xlo :: int
  ylo :: int
  xhi :: int
  yhi :: int

abbreviation mk_rect :: "int \<Rightarrow> int \<Rightarrow> int \<Rightarrow> int \<Rightarrow> Rect" where
  "mk_rect a b c d \<equiv> \<lparr>xlo = a, ylo = b, xhi = c, yhi = d\<rparr>"

text \<open>\<open>reset\<close> takes the corners as they are, \<open>init\<close> orders them (\<open>std::minmax\<close>).\<close>

definition rect_reset :: "int \<Rightarrow> int \<Rightarrow> int \<Rightarrow> int \<Rightarrow> Rect" where
  "rect_reset x1 y1 x2 y2 = mk_rect x1 y1 x2 y2"

definition rect_init :: "int \<Rightarrow> int \<Rightarrow> int \<Rightarrow> int \<Rightarrow> Rect" where
  "rect_init x1 y1 x2 y2 = mk_rect (min x1 x2) (min y1 y2) (max x1 x2) (max y1 y2)"

definition rect_of_points :: "Point \<Rightarrow> Point \<Rightarrow> Rect" where
  "rect_of_points p1 p2 = rect_init (pt_x p1) (pt_y p1) (pt_x p2) (pt_y p2)"

definition rect_less :: "Rect \<Rightarrow> Rect \<Rightarrow> bool" where
  "rect_less a b \<longleftrightarrow>
     xlo a < xlo b \<or> (xlo a = xlo b \<and>
       (ylo a < ylo b \<or> (ylo a = ylo b \<and>
         (xhi a < xhi b \<or> (xhi a = xhi b \<and> yhi a < yhi b)))))"

definition rect_dx :: "Rect \<Rightarrow> int" where
  "rect_dx r = xhi r - xlo r"

definition rect_dy :: "Rect \<Rightarrow> int" where
  "rect_dy r = yhi r - ylo r"

definition xCenter :: "Rect \<Rightarrow> int" where
  "xCenter r = (xlo r + xhi r) sdiv 2"

definition yCenter :: "Rect \<Rightarrow> int" where
  "yCenter r = (ylo r + yhi r) sdiv 2"

definition minDXDY :: "Rect \<Rightarrow> int" where
  "minDXDY r = min (rect_dx r) (rect_dy r)"

definition maxDXDY :: "Rect \<Rightarrow> int" where
  "maxDXDY r = max (rect_dx r) (rect_dy r)"

definition rect_getDir :: "Rect \<Rightarrow> int" where
  "rect_getDir r = (let DX = rect_dx r; DY = rect_dy r in
     if DX < DY then 0 else if DX > DY then 1 else -1)"

definition moveTo :: "Rect \<Rightarrow> int \<Rightarrow> int \<Rightarrow> Rect" where
  "moveTo r x y = (let DX = rect_dx r; DY = rect_dy r in mk_rect x y (x + DX) (y + DY))"

definition moveDelta :: "Rect \<Rightarrow> int \<Rightarrow> int \<Rightarrow> Rect" where
  "moveDelta r dx dy = mk_rect (xlo r + dx) (ylo r + dy) (xhi r + dx) (yhi r + dy)"

definition rect_ll :: "Rect \<Rightarrow> Point" where "rect_ll r = Point (xlo r) (ylo r)"

definition rect_ul :: "Rect \<Rightarrow> Point" where "rect_ul r = Point (xlo r) (yhi r)"

definition rect_ur :: "Rect \<Rightarrow> Point" where "rect_ur r = Point (xhi r) (yhi r)"

definition rect_lr :: "Rect \<Rightarrow> Point" where "rect_lr r = Point (xhi r) (ylo r)"

definition rect_center :: "Rect \<Rightarrow> Point" where
  "rect_center r = Point (xCenter r) (yCenter r)"

definition rect_getPoints :: "Rect \<Rightarrow> Point list" where
  "rect_getPoints r = [rect_ll r, rect_lr r, rect_ur r, rect_ul r, rect_ll r]"

definition rect_low :: "Rect \<Rightarrow> Orientation2D \<Rightarrow> int" where
  "rect_low r orient = (if orient = Horizontal then xlo r else ylo r)"

definition rect_high :: "Rect \<Rightarrow> Orientation2D \<Rightarrow> int" where
  "rect_high r orient = (if orient = Horizontal then xhi r else yhi r)"

definition rect_get :: "Rect \<Rightarrow> Orientation2D \<Rightarrow> Direction1D \<Rightarrow> int" where
  "rect_get r orient dir = (if dir = Low then rect_low r orient else rect_high r orient)"

definition rect_set :: "Rect \<Rightarrow> Orientation2D \<Rightarrow> Direction1D \<Rightarrow> int \<Rightarrow> Rect" where
  "rect_set r orient dir v =
     (if dir = Low
      then if orient = Horizontal then r\<lparr>xlo := v\<rparr> else r\<lparr>ylo := v\<rparr>
      else if orient = Horizontal then r\<lparr>xhi := v\<rparr> else r\<lparr>yhi := v\<rparr>)"

definition intersects_pt :: "Rect \<Rightarrow> Point \<Rightarrow> bool" where
  "intersects_pt r p \<longleftrightarrow>
     pt_x p \<ge> xlo r \<and> pt_x p \<le> xhi r \<and> pt_y p \<ge> ylo r \<and> pt_y p \<le> yhi r"

definition intersects :: "Rect \<Rightarrow> Rect \<Rightarrow> bool" where
  "intersects a r \<longleftrightarrow> xhi r \<ge> xlo a \<and> xlo r \<le> xhi a \<and> yhi r \<ge> ylo a \<and> ylo r \<le> yhi a"

definition overlaps_pt :: "Rect \<Rightarrow> Point \<Rightarrow> bool" where
  "overlaps_pt r p \<longleftrightarrow>
     pt_x p > xlo r \<and> pt_x p < xhi r \<and> pt_y p > ylo r \<and> pt_y p < yhi r"

definition overlaps :: "Rect \<Rightarrow> Rect \<Rightarrow> bool" where
  "overlaps a r \<longleftrightarrow> xhi r > xlo a \<and> xlo r < xhi a \<and> yhi r > ylo a \<and> ylo r < yhi a"

definition contains :: "Rect \<Rightarrow> Rect \<Rightarrow> bool" where
  "contains a r \<longleftrightarrow> xlo a \<le> xlo r \<and> ylo a \<le> ylo r \<and> xhi a \<ge> xhi r \<and> yhi a \<ge> yhi r"

definition inside :: "Rect \<Rightarrow> Rect \<Rightarrow> bool" where
  "inside a r \<longleftrightarrow> xlo a < xlo r \<and> ylo a < ylo r \<and> xhi a > xhi r \<and> yhi a > yhi r"

definition closestPtInside :: "Rect \<Rightarrow> Point \<Rightarrow> Point" where
  "closestPtInside r p =
     Point (min (max (pt_x p) (xlo r)) (xhi r)) (min (max (pt_y p) (ylo r)) (yhi r))"

definition merge_pt :: "Rect \<Rightarrow> Point \<Rightarrow> Rect" where
  "merge_pt r p = mk_rect (min (xlo r) (pt_x p)) (min (ylo r) (pt_y p))
                          (max (xhi r) (pt_x p)) (max (yhi r) (pt_y p))"

definition merge :: "Rect \<Rightarrow> Rect \<Rightarrow> Rect" where
  "merge a r = mk_rect (min (xlo a) (xlo r)) (min (ylo a) (ylo r))
                       (max (xhi a) (xhi r)) (max (yhi a) (yhi r))"

definition rect_bloat :: "Rect \<Rightarrow> int \<Rightarrow> Rect" where
  "rect_bloat r margin =
     mk_rect (xlo r - margin) (ylo r - margin) (xhi r + margin) (yhi r + margin)"

definition rect_bloat_orient :: "Rect \<Rightarrow> int \<Rightarrow> Orientation2D \<Rightarrow> Rect" where
  "rect_bloat_orient r margin orient =
     (if orient = Horizontal
      then mk_rect (xlo r - margin) (ylo r) (xhi r + margin) (yhi r)
      else mk_rect (xlo r) (ylo r - margin) (xhi r) (yhi r + margin))"

definition intersection :: "Rect \<Rightarrow> Rect \<Rightarrow> Rect" where
  "intersection a r =
     (if \<not> intersects a r then mk_rect 0 0 0 0
      else mk_rect (max (xlo a) (xlo r)) (max (ylo a) (ylo r))
                   (min (xhi a) (xhi r)) (min (yhi a) (yhi r)))"

text \<open>\<open>intersect\<close> asserts that the two rectangles meet.\<close>

definition rect_intersect :: "Rect \<Rightarrow> Rect \<Rightarrow> Rect option" where
  "rect_intersect a r =
     (if intersects a r
      then Some (mk_rect (max (xlo a) (xlo r)) (max (ylo a) (ylo r))
                         (min (xhi a) (xhi r)) (min (yhi a) (yhi r)))
      else None)"

text \<open>\<open>area\<close> subtracts in \<open>int\<close> and multiplies in \<open>int64_t\<close>; \<open>margin\<close> is the perimeter.\<close>

definition rect_area :: "Rect \<Rightarrow> int option" where
  "rect_area r =
     (case (chk32 (rect_dx r), chk32 (rect_dy r)) of
        (Some dx, Some dy) \<Rightarrow> chk64 (dx * dy) | _ \<Rightarrow> None)"

definition rect_margin :: "Rect \<Rightarrow> int option" where
  "rect_margin r =
     (case (chk32 (rect_dx r), chk32 (rect_dy r)) of
        (Some DX, Some DY) \<Rightarrow> chk64 (DX + DX + DY + DY) | _ \<Rightarrow> None)"

definition mergeInit :: "Rect" where
  "mergeInit = mk_rect (2 ^ 31 - 1) (2 ^ 31 - 1) (- (2 ^ 31)) (- (2 ^ 31))"

definition isInverted :: "Rect \<Rightarrow> bool" where
  "isInverted r \<longleftrightarrow> xlo r > xhi r \<or> ylo r > yhi r"

definition rect_manhattanDistance :: "Rect \<Rightarrow> Point \<Rightarrow> int" where
  "rect_manhattanDistance r p =
     (let x = pt_x p; y = pt_y p;
          dx = \<bar>x - (if x < xlo r then xlo r else if xhi r < x then xhi r else x)\<bar>;
          dy = \<bar>y - (if y < ylo r then ylo r else if yhi r < y then yhi r else y)\<bar>
      in dx + dy)"

lemmas rect_defs [geom_defs] = rect_reset_def rect_init_def rect_of_points_def rect_dx_def
  rect_dy_def rect_getDir_def moveTo_def moveDelta_def rect_ll_def rect_ul_def rect_ur_def
  rect_lr_def rect_low_def rect_high_def rect_get_def rect_set_def intersects_pt_def
  intersects_def overlaps_pt_def overlaps_def contains_def inside_def closestPtInside_def
  merge_pt_def merge_def rect_bloat_def rect_bloat_orient_def isInverted_def mergeInit_def

section \<open>What the rectangle operations mean\<close>

text \<open>
  The region a rectangle stands for is the set of points it intersects.  A rectangle is
  proper when it is not inverted, and then its region is not empty.
\<close>

definition region :: "Rect \<Rightarrow> Point set" where
  "region r = {p. intersects_pt r p}"

definition interior :: "Rect \<Rightarrow> Point set" where
  "interior r = {p. overlaps_pt r p}"

lemma in_region: "p \<in> region r \<longleftrightarrow>
    xlo r \<le> pt_x p \<and> pt_x p \<le> xhi r \<and> ylo r \<le> pt_y p \<and> pt_y p \<le> yhi r"
  by (auto simp: region_def intersects_pt_def)

lemma Point_in_region [simp]: "Point x y \<in> region r \<longleftrightarrow>
    xlo r \<le> x \<and> x \<le> xhi r \<and> ylo r \<le> y \<and> y \<le> yhi r"
  by (simp add: in_region)

lemma region_empty_iff: "region r = {} \<longleftrightarrow> isInverted r"
proof
  assume "region r = {}"
  then have "Point (xlo r) (ylo r) \<notin> region r" by blast
  then show "isInverted r" by (auto simp: isInverted_def)
qed (auto simp: isInverted_def in_region)

lemma rect_init_proper: "\<not> isInverted (rect_init x1 y1 x2 y2)"
  by (auto simp: geom_defs)

lemma rect_init_idem: "\<not> isInverted r \<Longrightarrow> rect_init (xlo r) (ylo r) (xhi r) (yhi r) = r"
  by (cases r) (simp add: geom_defs)

lemma contains_region: "\<not> isInverted r \<Longrightarrow> contains a r \<longleftrightarrow> region r \<subseteq> region a"
proof
  assume ok: "\<not> isInverted r" and sub: "region r \<subseteq> region a"
  from ok have "rect_ll r \<in> region r" "rect_ur r \<in> region r"
    by (auto simp: isInverted_def rect_ll_def rect_ur_def)
  with sub have "rect_ll r \<in> region a" "rect_ur r \<in> region a" by auto
  then show "contains a r" by (auto simp: contains_def rect_ll_def rect_ur_def)
qed (auto simp: contains_def in_region)

lemma contains_refl: "contains r r"
  by (simp add: contains_def)

lemma contains_trans: "contains a b \<Longrightarrow> contains b c \<Longrightarrow> contains a c"
  by (auto simp: contains_def)

lemma contains_antisym: "contains a b \<Longrightarrow> contains b a \<Longrightarrow> a = (b :: Rect)"
  by (cases a; cases b) (auto simp: contains_def)

text \<open>
  \<open>merge\<close> is the least rectangle that contains both, for any rectangles; starting from
  \<open>mergeInit\<close> a run of merges is the bounding box of what was merged.
\<close>

lemma merge_upper: "contains (merge a b) a" "contains (merge a b) b"
  by (auto simp: geom_defs)

lemma merge_least: "contains c a \<Longrightarrow> contains c b \<Longrightarrow> contains c (merge a b)"
  by (auto simp: geom_defs)

lemma merge_commute: "merge a b = merge b a"
  by (simp add: merge_def min.commute max.commute)

lemma merge_assoc: "merge (merge a b) c = merge a (merge b c)"
  by (simp add: merge_def min.assoc max.assoc)

lemma merge_pt_as_merge: "merge_pt r p = merge r (rect_of_points p p)"
  by (simp add: geom_defs)

text \<open>Two proper rectangles meet exactly when they share a point, and then the
  intersection is the set of shared points.\<close>

lemma intersects_commute: "intersects a b \<longleftrightarrow> intersects b a"
  by (auto simp: geom_defs)

lemma intersection_region:
  "intersects a b \<Longrightarrow> region (intersection a b) = region a \<inter> region b"
  by (auto simp: intersection_def in_region)

lemma intersects_iff:
  assumes "\<not> isInverted a" and "\<not> isInverted b"
  shows "intersects a b \<longleftrightarrow> region a \<inter> region b \<noteq> {}"
proof
  assume m: "intersects a b"
  have "Point (max (xlo a) (xlo b)) (max (ylo a) (ylo b)) \<in> region a \<inter> region b"
    using assms m by (auto simp: isInverted_def intersects_def)
  then show "region a \<inter> region b \<noteq> {}" by blast
qed (auto simp: in_region intersects_def)

lemma overlaps_imp_intersects: "overlaps a b \<Longrightarrow> intersects a b"
  by (auto simp: geom_defs)

lemma rect_intersect_some:
  "intersects a b \<Longrightarrow> rect_intersect a b = Some (intersection a b)"
  by (simp add: rect_intersect_def intersection_def)

text \<open>\<open>closestPtInside\<close> clamps: no point of the rectangle is nearer, and the distance of
  \<open>manhattanDistance(rect, p)\<close> is the distance to that point.\<close>

definition manhattan :: "Point \<Rightarrow> Point \<Rightarrow> int" where
  "manhattan p q = \<bar>pt_x q - pt_x p\<bar> + \<bar>pt_y q - pt_y p\<bar>"

lemma closestPtInside_in: "\<not> isInverted r \<Longrightarrow> closestPtInside r p \<in> region r"
  by (auto simp: closestPtInside_def isInverted_def)

lemma clamp_nearest:
  fixes lo hi x y :: int
  shows "lo \<le> y \<Longrightarrow> y \<le> hi \<Longrightarrow> \<bar>x - min (max x lo) hi\<bar> \<le> \<bar>x - y\<bar>"
  by (auto simp: abs_if min_def max_def)

lemma closestPtInside_min:
  assumes "q \<in> region r"
  shows "manhattan (closestPtInside r p) p \<le> manhattan q p"
  using assms clamp_nearest [of "xlo r" "pt_x q" "xhi r" "pt_x p"]
    clamp_nearest [of "ylo r" "pt_y q" "yhi r" "pt_y p"]
  by (auto simp: manhattan_def closestPtInside_def in_region)

lemma rect_manhattanDistance_closest:
  "\<not> isInverted r \<Longrightarrow> rect_manhattanDistance r p = manhattan (closestPtInside r p) p"
  by (auto simp: rect_manhattanDistance_def manhattan_def closestPtInside_def isInverted_def
      Let_def min_def max_def)

section \<open>Bounding boxes: mergeInit and Polygon::getEnclosingRect\<close>

definition point_in_int32 :: "Point \<Rightarrow> bool" where
  "point_in_int32 p \<longleftrightarrow> in_int32 (pt_x p) \<and> in_int32 (pt_y p)"

text \<open>The loop merges the degenerate rectangle of every point into an empty box.\<close>

fun enclosing_loop :: "Rect \<Rightarrow> Point list \<Rightarrow> Rect" where
  "enclosing_loop rect [] = rect"
| "enclosing_loop rect (pt # pts) = enclosing_loop (merge rect (rect_of_points pt pt)) pts"

definition polygon_getEnclosingRect :: "Point list \<Rightarrow> Rect" where
  "polygon_getEnclosingRect points = enclosing_loop mergeInit points"

lemma merge_mergeInit:
  assumes "in_int32 (xlo r)" "in_int32 (ylo r)" "in_int32 (xhi r)" "in_int32 (yhi r)"
  shows "merge mergeInit r = r"
  using assms by (cases r) (auto simp: geom_defs in_int32_def)

lemma enclosing_loop_contains_acc: "contains (enclosing_loop r pts) r"
proof (induction pts arbitrary: r)
  case (Cons p pts)
  then show ?case
    using contains_trans merge_upper(1) by (metis enclosing_loop.simps(2))
qed (simp add: contains_refl)

lemma enclosing_loop_contains: "p \<in> set pts \<Longrightarrow> contains (enclosing_loop r pts) (rect_of_points p p)"
proof (induction pts arbitrary: r)
  case (Cons q pts)
  show ?case
  proof (cases "p = q")
    case True
    then show ?thesis
      using contains_trans [OF enclosing_loop_contains_acc merge_upper(2)] by simp
  next
    case False
    with Cons show ?thesis by simp
  qed
qed simp

lemma enclosing_loop_least:
  assumes "contains c r" and "\<forall>p \<in> set pts. contains c (rect_of_points p p)"
  shows "contains c (enclosing_loop r pts)"
  using assms by (induction pts arbitrary: r) (auto intro: merge_least)

lemma contains_point: "contains c (rect_of_points p p) \<longleftrightarrow> p \<in> region c"
  by (auto simp: geom_defs in_region)

lemma enclosing_first:
  assumes "point_in_int32 p"
  shows "polygon_getEnclosingRect (p # pts) = enclosing_loop (rect_of_points p p) pts"
  using assms unfolding polygon_getEnclosingRect_def enclosing_loop.simps
  by (subst merge_mergeInit) (auto simp: point_in_int32_def rect_of_points_def rect_init_def)

section \<open>Oct: 45-degree segments\<close>

datatype OCT_DIR = RIGHT | LEFT | UNKNOWN

record Oct =
  center_high :: Point
  center_low :: Point
  oct_A :: int

definition oct_init :: "Point \<Rightarrow> Point \<Rightarrow> int \<Rightarrow> Oct" where
  "oct_init p1 p2 width =
     (if pt_y p1 > pt_y p2
      then \<lparr>center_high = p1, center_low = p2, oct_A = width sdiv 2\<rparr>
      else \<lparr>center_high = p2, center_low = p1, oct_A = width sdiv 2\<rparr>)"

definition oct_getDir :: "Oct \<Rightarrow> OCT_DIR" where
  "oct_getDir r =
     (if center_low r = center_high r then UNKNOWN
      else if pt_x (center_high r) > pt_x (center_low r) then RIGHT else LEFT)"

definition oct_getWidth :: "Oct \<Rightarrow> int" where
  "oct_getWidth r = oct_A r * 2"

definition oct_dx :: "Oct \<Rightarrow> int" where
  "oct_dx r = (case oct_getDir r of
     RIGHT \<Rightarrow> \<bar>pt_x (center_high r) + oct_A r - pt_x (center_low r) + oct_A r\<bar>
   | LEFT \<Rightarrow> \<bar>pt_x (center_low r) + oct_A r - pt_x (center_high r) + oct_A r\<bar>
   | UNKNOWN \<Rightarrow> 0)"

definition oct_dy :: "Oct \<Rightarrow> int" where
  "oct_dy r = \<bar>pt_y (center_high r) + oct_A r - pt_y (center_low r) + oct_A r\<bar>"

definition oct_xMin :: "Oct \<Rightarrow> int" where
  "oct_xMin r = (case oct_getDir r of
     RIGHT \<Rightarrow> pt_x (center_low r) - oct_A r
   | LEFT \<Rightarrow> pt_x (center_high r) - oct_A r
   | UNKNOWN \<Rightarrow> 0)"

definition oct_yMin :: "Oct \<Rightarrow> int" where
  "oct_yMin r = pt_y (center_low r) - oct_A r"

definition oct_xMax :: "Oct \<Rightarrow> int" where
  "oct_xMax r = (case oct_getDir r of
     RIGHT \<Rightarrow> pt_x (center_high r) + oct_A r
   | LEFT \<Rightarrow> pt_x (center_low r) + oct_A r
   | UNKNOWN \<Rightarrow> 0)"

definition oct_yMax :: "Oct \<Rightarrow> int" where
  "oct_yMax r = pt_y (center_high r) + oct_A r"

definition oct_bloat :: "Oct \<Rightarrow> int \<Rightarrow> Oct" where
  "oct_bloat r margin = oct_init (center_low r) (center_high r) (2 * (oct_A r + margin))"

definition oct_getEnclosingRect :: "Oct \<Rightarrow> Rect" where
  "oct_getEnclosingRect r = rect_init (oct_xMin r) (oct_yMin r) (oct_xMax r) (oct_yMax r)"

definition merge_oct :: "Rect \<Rightarrow> Oct \<Rightarrow> Rect" where
  "merge_oct r o' = mk_rect (min (xlo r) (oct_xMin o')) (min (ylo r) (oct_yMin o'))
                            (max (xhi r) (oct_xMax o')) (max (yhi r) (oct_yMax o'))"

lemmas oct_defs = oct_init_def oct_getDir_def oct_getWidth_def oct_dx_def oct_dy_def
  oct_xMin_def oct_yMin_def oct_xMax_def oct_yMax_def oct_bloat_def
  oct_getEnclosingRect_def merge_oct_def

lemma oct_init_ordered: "pt_y (center_low (oct_init p q w)) \<le> pt_y (center_high (oct_init p q w))"
  by (simp add: oct_init_def)

text \<open>The square of half-width \<open>A\<close> around a center, which encloses its octagon.\<close>

definition oct_square :: "Point \<Rightarrow> int \<Rightarrow> Rect" where
  "oct_square c a = mk_rect (pt_x c - a) (pt_y c - a) (pt_x c + a) (pt_y c + a)"

lemma oct_enclosing_rect:
  assumes "0 \<le> oct_A r" and "pt_y (center_low r) \<le> pt_y (center_high r)"
    and "center_low r \<noteq> center_high r"
  shows "oct_getEnclosingRect r
    = merge (oct_square (center_low r) (oct_A r)) (oct_square (center_high r) (oct_A r))"
  using assms
  by (auto simp: oct_defs oct_square_def merge_def rect_init_def min_def max_def)

lemma oct_enclosing_dims:
  assumes "0 \<le> oct_A r" and "pt_y (center_low r) \<le> pt_y (center_high r)"
    and "center_low r \<noteq> center_high r"
  shows "rect_dx (oct_getEnclosingRect r) = oct_dx r \<and> rect_dy (oct_getEnclosingRect r) = oct_dy r"
  using assms
  by (auto simp: oct_defs rect_init_def rect_dx_def rect_dy_def min_def max_def abs_if)

lemma oct_bloat_width:
  "oct_getWidth (oct_bloat r m) = oct_getWidth r + 2 * m"
  by (simp add: oct_defs signed_divide_int_def sgn_if abs_if)

section \<open>Line\<close>

record Line =
  line_pt0 :: Point
  line_pt1 :: Point

definition mk_line :: "int \<Rightarrow> int \<Rightarrow> int \<Rightarrow> int \<Rightarrow> Line" where
  "mk_line x0 y0 x1 y1 = \<lparr>line_pt0 = Point x0 y0, line_pt1 = Point x1 y1\<rparr>"

definition line_less :: "Line \<Rightarrow> Line \<Rightarrow> bool" where
  "line_less a b \<longleftrightarrow>
     line_pt0 a < line_pt0 b \<or> (line_pt0 a = line_pt0 b \<and> line_pt1 a < line_pt1 b)"

definition line_getPoints :: "Line \<Rightarrow> Point list" where
  "line_getPoints l = [line_pt0 l, line_pt1 l]"

section \<open>Properties\<close>

text \<open>
  The bounding box of a polygon.  For a polygon with at least one point, all in the \<open>int\<close>
  range, \<open>getEnclosingRect\<close> (a run of \<open>merge\<close> from \<open>mergeInit\<close>) contains every point and is
  contained in every rectangle that contains every point.
\<close>

theorem polygon_enclosing_least:
  assumes "pts \<noteq> []" "list_all point_in_int32 pts"
  shows "set pts \<subseteq> region (polygon_getEnclosingRect pts) \<and>
    (\<forall>c. set pts \<subseteq> region c \<longrightarrow> contains c (polygon_getEnclosingRect pts))"
proof -
  obtain p ps where pts: "pts = p # ps" using assms(1) by (cases pts) auto
  have e: "polygon_getEnclosingRect pts = enclosing_loop (rect_of_points p p) ps"
    using assms(2) by (simp add: pts enclosing_first)
  have "q \<in> region (polygon_getEnclosingRect pts)" if "q \<in> set pts" for q
    using that enclosing_loop_contains [of q ps] enclosing_loop_contains_acc [of "rect_of_points p p" ps]
    unfolding e by (auto simp: pts simp flip: contains_point)
  moreover have "contains c (polygon_getEnclosingRect pts)" if "set pts \<subseteq> region c" for c
    using that unfolding e by (intro enclosing_loop_least) (auto simp: pts contains_point)
  ultimately show ?thesis by blast
qed

theorem polygon_enclosing_least_witness:
  "set [Point 1 5, Point 3 2] \<subseteq> region (polygon_getEnclosingRect [Point 1 5, Point 3 2]) \<and>
    contains (mk_rect 1 2 3 5) (polygon_getEnclosingRect [Point 1 5, Point 3 2])"
proof -
  have "[Point 1 5, Point 3 2] \<noteq> []" "list_all point_in_int32 [Point 1 5, Point 3 2]"
    by (simp_all add: point_in_int32_def in_int32_def)
  note least = polygon_enclosing_least [OF this]
  have "set [Point 1 5, Point 3 2] \<subseteq> region (mk_rect 1 2 3 5)" by simp
  with least show ?thesis by blast
qed

text \<open>
  Intersection of rectangles.  For two proper rectangles, \<open>intersects\<close> says whether they share
  a point; if they do, \<open>intersect\<close> and \<open>intersection\<close> give the rectangle of the shared points, and
  if not, \<open>intersect\<close> fails its assertion and \<open>intersection\<close> is the point at the origin.
\<close>

theorem intersection_is_common:
  assumes "\<not> isInverted a" "\<not> isInverted b"
  shows "if region a \<inter> region b \<noteq> {}
    then intersects a b \<and> rect_intersect a b = Some (intersection a b) \<and>
         region (intersection a b) = region a \<inter> region b
    else \<not> intersects a b \<and> rect_intersect a b = None \<and> intersection a b = mk_rect 0 0 0 0"
  using assms intersects_iff [OF assms] intersection_region [of a b] rect_intersect_some [of a b]
  by (auto simp: intersection_def rect_intersect_def)

theorem intersection_is_common_witness:
  "region (intersection (mk_rect 0 0 4 4) (mk_rect 2 3 9 9)) = region (mk_rect 0 0 4 4) \<inter> region (mk_rect 2 3 9 9)"
proof -
  have "Point 2 3 \<in> region (mk_rect 0 0 4 4) \<inter> region (mk_rect 2 3 9 9)" by simp
  then have ne: "region (mk_rect 0 0 4 4) \<inter> region (mk_rect 2 3 9 9) \<noteq> {}" by blast
  have "\<not> isInverted (mk_rect 0 0 4 4)" "\<not> isInverted (mk_rect 2 3 9 9)" by (simp_all add: isInverted_def)
  from intersection_is_common [OF this] show ?thesis by (simp only: ne if_True simp_thms)
qed

text \<open>
  The nearest point.  \<open>closestPtInside\<close> of a proper rectangle lies in it, no point of the
  rectangle is nearer in Manhattan distance, and \<open>manhattanDistance(rect, p)\<close> is that distance.
\<close>

theorem closest_point_nearest:
  assumes "\<not> isInverted r"
  shows "closestPtInside r p \<in> region r \<and>
    (\<forall>q \<in> region r. manhattan (closestPtInside r p) p \<le> manhattan q p) \<and>
    rect_manhattanDistance r p = manhattan (closestPtInside r p) p"
  using assms by (simp add: closestPtInside_in closestPtInside_min rect_manhattanDistance_closest)

theorem closest_point_nearest_witness:
  "closestPtInside (mk_rect 0 0 4 4) (Point 9 (- 2)) \<in> region (mk_rect 0 0 4 4) \<and>
    rect_manhattanDistance (mk_rect 0 0 4 4) (Point 9 (- 2)) = 7"
  using closest_point_nearest [of "mk_rect 0 0 4 4" "Point 9 (- 2)"]
  by (simp add: isInverted_def manhattan_def closestPtInside_def)

text \<open>
  Distances overflow only outside half the range.  Within it \<open>squaredDistance\<close> is the exact
  square; outside, the differences are taken in \<open>int\<close> before they are widened: for two points
  on the axis \<open>2 ^ 31\<close> apart the subtraction overflows, though the square fits 64 bits.
\<close>

theorem squaredDistance_range:
  "(\<forall>p q. half_range p \<longrightarrow> half_range q \<longrightarrow>
      squaredDistance p q = Some ((pt_x q - pt_x p)\<^sup>2 + (pt_y q - pt_y p)\<^sup>2)) \<and>
   point_in_int32 (Point (- 1) 0) \<and> point_in_int32 (Point (2 ^ 31 - 1) 0) \<and>
   in_int64 ((2 ^ 31)\<^sup>2 + 0\<^sup>2) \<and> squaredDistance (Point (- 1) 0) (Point (2 ^ 31 - 1) 0) = None"
  using squaredDistance_half_range
  by (auto simp: squaredDistance_def chk32_def in_int32_def in_int64_def point_in_int32_def)

theorem squaredDistance_range_witness:
  "squaredDistance (Point 1 2) (Point 4 6) = Some 25"
  using conjunct1 [OF squaredDistance_range, rule_format, of "Point 1 2" "Point 4 6"]
  by (simp add: half_range_def)

text \<open>
  The enclosing rectangle of a 45-degree segment.  For an \<open>Oct\<close> whose centers differ it is the
  union of the squares around the two centers; for one whose centers coincide the \<open>x\<close> range is
  dropped (\<open>xMin\<close> and \<open>xMax\<close> are 0 in the \<open>UNKNOWN\<close> direction), so the octagon around
  \<open>(100, 200)\<close> of width 20 gets a rectangle that does not contain its center.
\<close>

theorem oct_enclosing:
  "(\<forall>r. 0 \<le> oct_A r \<longrightarrow> pt_y (center_low r) \<le> pt_y (center_high r) \<longrightarrow> center_low r \<noteq> center_high r \<longrightarrow>
      oct_getEnclosingRect r = merge (oct_square (center_low r) (oct_A r)) (oct_square (center_high r) (oct_A r))) \<and>
   (let r = oct_init (Point 100 200) (Point 100 200) 20
    in oct_getEnclosingRect r = mk_rect 0 190 0 210 \<and> Point 100 200 \<notin> region (oct_getEnclosingRect r))"
  using oct_enclosing_rect by (simp add: oct_defs rect_init_def Let_def)

theorem oct_enclosing_witness:
  "oct_getEnclosingRect (oct_init (Point 0 0) (Point 30 30) 10) = mk_rect (- 5) (- 5) 35 35"
  using conjunct1 [OF oct_enclosing, rule_format, of "oct_init (Point 0 0) (Point 30 30) 10"]
  by (simp add: oct_init_def oct_square_def merge_def)

end
