(* ===== verification/OdbTypes.thy ===== *)
theory OdbTypes imports OdbPrelude begin

text \<open>
  The enumerated types of the database, \<open>dbTypes.h\<close> and \<open>dbTypes.cpp\<close>.  Each class wraps an
  enum; its constructor from a C string is a chain of \<open>strcasecmp\<close> tests with a fallback
  value, \<open>getString\<close> prints the value, and the classification predicates are switches.
  A chain of tests is written as the list of its (literal, value) pairs in source order,
  searched from the front; \<open>X_default\<close> is the value of the argument-less constructor.
\<close>

section \<open>strcasecmp and the test chains\<close>

text \<open>\<open>tolower\<close> in the C locale, and \<open>strcasecmp(a, b) == 0\<close>.\<close>

definition char_lower :: "char \<Rightarrow> char" where
  "char_lower c = (let n = (of_char c :: nat) in if 65 \<le> n \<and> n \<le> 90 then char_of (n + 32) else c)"

definition strcaseeq :: "string \<Rightarrow> string \<Rightarrow> bool" where
  "strcaseeq a b \<longleftrightarrow> map char_lower a = map char_lower b"

fun name_find :: "(string \<times> 'v) list \<Rightarrow> string \<Rightarrow> 'v option" where
  "name_find [] value = None"
| "name_find ((n, v) # rest) value = (if strcaseeq value n then Some v else name_find rest value)"

definition name_lookup :: "(string \<times> 'v) list \<Rightarrow> 'v \<Rightarrow> string \<Rightarrow> 'v" where
  "name_lookup tbl fallback value =
     (case name_find tbl value of Some v \<Rightarrow> v | None \<Rightarrow> fallback)"

lemma strcaseeq_cong: "strcaseeq a b \<Longrightarrow> strcaseeq a n \<longleftrightarrow> strcaseeq b n"
  by (simp add: strcaseeq_def)

lemma name_find_cong: "strcaseeq a b \<Longrightarrow> name_find tbl a = name_find tbl b"
  by (induction tbl a rule: name_find.induct) (auto dest: strcaseeq_cong)

lemma name_lookup_cong: "strcaseeq a b \<Longrightarrow> name_lookup tbl d a = name_lookup tbl d b"
  by (simp add: name_lookup_def name_find_cong)

lemma name_find_Some_in: "name_find tbl s = Some v \<Longrightarrow> \<exists>n. (n, v) \<in> set tbl \<and> strcaseeq s n"
  by (induction tbl s rule: name_find.induct) (auto split: if_splits)

text \<open>
  On strings without lower-case letters the test is equality, so a chain whose literals
  have none is a plain association list there.
\<close>

definition char_no_lower :: "char \<Rightarrow> bool" where
  "char_no_lower c \<longleftrightarrow> (let n = (of_char c :: nat) in \<not> (97 \<le> n \<and> n \<le> 122))"

definition no_lower :: "string \<Rightarrow> bool" where
  "no_lower s \<longleftrightarrow> list_all char_no_lower s"

lemma char_lower_inj:
  assumes "char_no_lower a" and "char_no_lower b" and eq: "char_lower a = char_lower b"
  shows "a = b"
proof -
  have low: "of_char (char_lower c) = (if 65 \<le> (of_char c :: nat) \<and> of_char c \<le> (90 :: nat)
      then of_char c + 32 else of_char c :: nat)" for c
    by (auto simp: char_lower_def Let_def of_char_of)
  have "(of_char a :: nat) = of_char b"
    using assms(1,2) arg_cong [OF eq, of "of_char :: char \<Rightarrow> nat"]
    by (auto simp: low char_no_lower_def Let_def split: if_splits)
  then show ?thesis by simp
qed

lemma strcaseeq_upper: "no_lower s \<Longrightarrow> no_lower t \<Longrightarrow> strcaseeq s t \<longleftrightarrow> s = t"
proof (induction s arbitrary: t)
  case (Cons a s)
  then show ?case
    by (cases t) (auto simp: strcaseeq_def no_lower_def dest: char_lower_inj)
qed (auto simp: strcaseeq_def)

lemma name_find_map_of:
  "list_all (\<lambda>e. no_lower (fst e)) tbl \<Longrightarrow> no_lower s \<Longrightarrow> name_find tbl s = map_of tbl s"
  by (induction tbl s rule: name_find.induct) (auto simp: strcaseeq_upper)

text \<open>Printing then parsing, for a chain given by its table.\<close>

lemma lookup_roundtrip:
  assumes "list_all (\<lambda>e. no_lower (fst e)) tbl" and "no_lower s" and "map_of tbl s = Some v"
  shows "name_lookup tbl d s = v"
  using assms by (simp add: name_lookup_def name_find_map_of)

section \<open>The types\<close>

datatype dbOrientType =
    OrientType_R0
  | OrientType_R90
  | OrientType_R180
  | OrientType_R270
  | OrientType_MY
  | OrientType_MYR90
  | OrientType_MX
  | OrientType_MXR90

definition dbOrientType_fromString :: "string \<Rightarrow> dbOrientType option" where
  "dbOrientType_fromString value = name_find
     [(''R0'', OrientType_R0),
      (''R90'', OrientType_R90),
      (''R180'', OrientType_R180),
      (''R270'', OrientType_R270),
      (''MY'', OrientType_MY),
      (''MYR90'', OrientType_MYR90),
      (''MX'', OrientType_MX),
      (''MXR90'', OrientType_MXR90),
      (''N'', OrientType_R0),
      (''W'', OrientType_R90),
      (''S'', OrientType_R180),
      (''E'', OrientType_R270),
      (''FN'', OrientType_MY),
      (''FE'', OrientType_MYR90),
      (''FS'', OrientType_MX),
      (''FW'', OrientType_MXR90)] value"

definition dbOrientType_of_string :: "string \<Rightarrow> dbOrientType" where
  "dbOrientType_of_string value =
     (case dbOrientType_fromString value of Some v \<Rightarrow> v | None \<Rightarrow> OrientType_R0)"

definition dbOrientType_default :: dbOrientType where
  "dbOrientType_default = OrientType_R0"

primrec dbOrientType_getString :: "dbOrientType \<Rightarrow> string" where
    "dbOrientType_getString OrientType_R0 = ''R0''"
  | "dbOrientType_getString OrientType_R90 = ''R90''"
  | "dbOrientType_getString OrientType_R180 = ''R180''"
  | "dbOrientType_getString OrientType_R270 = ''R270''"
  | "dbOrientType_getString OrientType_MY = ''MY''"
  | "dbOrientType_getString OrientType_MYR90 = ''MYR90''"
  | "dbOrientType_getString OrientType_MX = ''MX''"
  | "dbOrientType_getString OrientType_MXR90 = ''MXR90''"

primrec dbOrientType_isRightAngleRotation :: "dbOrientType \<Rightarrow> bool" where
    "dbOrientType_isRightAngleRotation OrientType_R90 = True"
  | "dbOrientType_isRightAngleRotation OrientType_R270 = True"
  | "dbOrientType_isRightAngleRotation OrientType_MYR90 = True"
  | "dbOrientType_isRightAngleRotation OrientType_MXR90 = True"
  | "dbOrientType_isRightAngleRotation OrientType_R0 = False"
  | "dbOrientType_isRightAngleRotation OrientType_R180 = False"
  | "dbOrientType_isRightAngleRotation OrientType_MY = False"
  | "dbOrientType_isRightAngleRotation OrientType_MX = False"

datatype dbGroupType =
    GroupType_PHYSICAL_CLUSTER
  | GroupType_VOLTAGE_DOMAIN
  | GroupType_POWER_DOMAIN

definition dbGroupType_of_string :: "string \<Rightarrow> dbGroupType" where
  "dbGroupType_of_string value = name_lookup
     [(''PHYSICAL_CLUSTER'', GroupType_PHYSICAL_CLUSTER),
      (''VOLTAGE_DOMAIN'', GroupType_VOLTAGE_DOMAIN),
      (''POWER_DOMAIN'', GroupType_POWER_DOMAIN)] GroupType_PHYSICAL_CLUSTER value"

definition dbGroupType_default :: dbGroupType where
  "dbGroupType_default = GroupType_PHYSICAL_CLUSTER"

primrec dbGroupType_getString :: "dbGroupType \<Rightarrow> string" where
    "dbGroupType_getString GroupType_PHYSICAL_CLUSTER = ''PHYSICAL_CLUSTER''"
  | "dbGroupType_getString GroupType_VOLTAGE_DOMAIN = ''VOLTAGE_DOMAIN''"
  | "dbGroupType_getString GroupType_POWER_DOMAIN = ''POWER_DOMAIN''"

datatype dbSigType =
    SigType_SIGNAL
  | SigType_POWER
  | SigType_GROUND
  | SigType_CLOCK
  | SigType_ANALOG
  | SigType_RESET
  | SigType_SCAN
  | SigType_TIEOFF

definition dbSigType_of_string :: "string \<Rightarrow> dbSigType" where
  "dbSigType_of_string value = name_lookup
     [(''SIGNAL'', SigType_SIGNAL),
      (''POWER'', SigType_POWER),
      (''GROUND'', SigType_GROUND),
      (''CLOCK'', SigType_CLOCK),
      (''ANALOG'', SigType_ANALOG),
      (''RESET'', SigType_RESET),
      (''SCAN'', SigType_SCAN),
      (''TIEOFF'', SigType_TIEOFF)] SigType_SIGNAL value"

definition dbSigType_default :: dbSigType where
  "dbSigType_default = SigType_SIGNAL"

primrec dbSigType_getString :: "dbSigType \<Rightarrow> string" where
    "dbSigType_getString SigType_SIGNAL = ''SIGNAL''"
  | "dbSigType_getString SigType_POWER = ''POWER''"
  | "dbSigType_getString SigType_GROUND = ''GROUND''"
  | "dbSigType_getString SigType_CLOCK = ''CLOCK''"
  | "dbSigType_getString SigType_ANALOG = ''ANALOG''"
  | "dbSigType_getString SigType_RESET = ''RESET''"
  | "dbSigType_getString SigType_SCAN = ''SCAN''"
  | "dbSigType_getString SigType_TIEOFF = ''TIEOFF''"

primrec dbSigType_isSupply :: "dbSigType \<Rightarrow> bool" where
    "dbSigType_isSupply SigType_POWER = True"
  | "dbSigType_isSupply SigType_GROUND = True"
  | "dbSigType_isSupply SigType_SIGNAL = False"
  | "dbSigType_isSupply SigType_CLOCK = False"
  | "dbSigType_isSupply SigType_ANALOG = False"
  | "dbSigType_isSupply SigType_RESET = False"
  | "dbSigType_isSupply SigType_SCAN = False"
  | "dbSigType_isSupply SigType_TIEOFF = False"

datatype dbIoType =
    IoType_INPUT
  | IoType_OUTPUT
  | IoType_INOUT
  | IoType_FEEDTHRU

definition dbIoType_of_string :: "string \<Rightarrow> dbIoType" where
  "dbIoType_of_string value = name_lookup
     [(''INPUT'', IoType_INPUT),
      (''OUTPUT'', IoType_OUTPUT),
      (''INOUT'', IoType_INOUT),
      (''FEEDTHRU'', IoType_FEEDTHRU)] IoType_INPUT value"

definition dbIoType_default :: dbIoType where
  "dbIoType_default = IoType_INPUT"

primrec dbIoType_getString :: "dbIoType \<Rightarrow> string" where
    "dbIoType_getString IoType_INPUT = ''INPUT''"
  | "dbIoType_getString IoType_OUTPUT = ''OUTPUT''"
  | "dbIoType_getString IoType_INOUT = ''INOUT''"
  | "dbIoType_getString IoType_FEEDTHRU = ''FEEDTHRU''"

datatype dbPlacementStatus =
    PlacementStatus_NONE
  | PlacementStatus_UNPLACED
  | PlacementStatus_SUGGESTED
  | PlacementStatus_PLACED
  | PlacementStatus_LOCKED
  | PlacementStatus_FIRM
  | PlacementStatus_COVER

definition dbPlacementStatus_of_string :: "string \<Rightarrow> dbPlacementStatus" where
  "dbPlacementStatus_of_string value = name_lookup
     [(''NONE'', PlacementStatus_NONE),
      (''UNPLACED'', PlacementStatus_UNPLACED),
      (''SUGGESTED'', PlacementStatus_SUGGESTED),
      (''PLACED'', PlacementStatus_PLACED),
      (''LOCKED'', PlacementStatus_LOCKED),
      (''FIRM'', PlacementStatus_FIRM),
      (''COVER'', PlacementStatus_COVER)] PlacementStatus_NONE value"

definition dbPlacementStatus_default :: dbPlacementStatus where
  "dbPlacementStatus_default = PlacementStatus_NONE"

primrec dbPlacementStatus_getString :: "dbPlacementStatus \<Rightarrow> string" where
    "dbPlacementStatus_getString PlacementStatus_NONE = ''NONE''"
  | "dbPlacementStatus_getString PlacementStatus_UNPLACED = ''UNPLACED''"
  | "dbPlacementStatus_getString PlacementStatus_SUGGESTED = ''SUGGESTED''"
  | "dbPlacementStatus_getString PlacementStatus_PLACED = ''PLACED''"
  | "dbPlacementStatus_getString PlacementStatus_LOCKED = ''LOCKED''"
  | "dbPlacementStatus_getString PlacementStatus_FIRM = ''FIRM''"
  | "dbPlacementStatus_getString PlacementStatus_COVER = ''COVER''"

primrec dbPlacementStatus_isPlaced :: "dbPlacementStatus \<Rightarrow> bool" where
    "dbPlacementStatus_isPlaced PlacementStatus_NONE = False"
  | "dbPlacementStatus_isPlaced PlacementStatus_UNPLACED = False"
  | "dbPlacementStatus_isPlaced PlacementStatus_SUGGESTED = False"
  | "dbPlacementStatus_isPlaced PlacementStatus_PLACED = True"
  | "dbPlacementStatus_isPlaced PlacementStatus_LOCKED = True"
  | "dbPlacementStatus_isPlaced PlacementStatus_FIRM = True"
  | "dbPlacementStatus_isPlaced PlacementStatus_COVER = True"

primrec dbPlacementStatus_isFixed :: "dbPlacementStatus \<Rightarrow> bool" where
    "dbPlacementStatus_isFixed PlacementStatus_NONE = False"
  | "dbPlacementStatus_isFixed PlacementStatus_UNPLACED = False"
  | "dbPlacementStatus_isFixed PlacementStatus_SUGGESTED = False"
  | "dbPlacementStatus_isFixed PlacementStatus_PLACED = False"
  | "dbPlacementStatus_isFixed PlacementStatus_LOCKED = True"
  | "dbPlacementStatus_isFixed PlacementStatus_FIRM = True"
  | "dbPlacementStatus_isFixed PlacementStatus_COVER = True"

datatype dbMasterType =
    MasterType_COVER
  | MasterType_COVER_BUMP
  | MasterType_RING
  | MasterType_BLOCK
  | MasterType_BLOCK_BLACKBOX
  | MasterType_BLOCK_SOFT
  | MasterType_PAD
  | MasterType_PAD_INPUT
  | MasterType_PAD_OUTPUT
  | MasterType_PAD_INOUT
  | MasterType_PAD_POWER
  | MasterType_PAD_SPACER
  | MasterType_PAD_AREAIO
  | MasterType_CORE
  | MasterType_CORE_FEEDTHRU
  | MasterType_CORE_TIEHIGH
  | MasterType_CORE_TIELOW
  | MasterType_CORE_SPACER
  | MasterType_CORE_ANTENNACELL
  | MasterType_CORE_WELLTAP
  | MasterType_ENDCAP
  | MasterType_ENDCAP_PRE
  | MasterType_ENDCAP_POST
  | MasterType_ENDCAP_TOPLEFT
  | MasterType_ENDCAP_TOPRIGHT
  | MasterType_ENDCAP_BOTTOMLEFT
  | MasterType_ENDCAP_BOTTOMRIGHT
  | MasterType_ENDCAP_LEF58_BOTTOMEDGE
  | MasterType_ENDCAP_LEF58_TOPEDGE
  | MasterType_ENDCAP_LEF58_LEFTEDGE
  | MasterType_ENDCAP_LEF58_RIGHTEDGE
  | MasterType_ENDCAP_LEF58_RIGHTBOTTOMEDGE
  | MasterType_ENDCAP_LEF58_LEFTBOTTOMEDGE
  | MasterType_ENDCAP_LEF58_RIGHTTOPEDGE
  | MasterType_ENDCAP_LEF58_LEFTTOPEDGE
  | MasterType_ENDCAP_LEF58_RIGHTBOTTOMCORNER
  | MasterType_ENDCAP_LEF58_LEFTBOTTOMCORNER
  | MasterType_ENDCAP_LEF58_RIGHTTOPCORNER
  | MasterType_ENDCAP_LEF58_LEFTTOPCORNER

definition dbMasterType_of_string :: "string \<Rightarrow> dbMasterType" where
  "dbMasterType_of_string value = name_lookup
     [(''COVER'', MasterType_COVER),
      (''COVER BUMP'', MasterType_COVER_BUMP),
      (''RING'', MasterType_RING),
      (''BLOCK'', MasterType_BLOCK),
      (''BLOCK BLACKBOX'', MasterType_BLOCK_BLACKBOX),
      (''BLOCK SOFT'', MasterType_BLOCK_SOFT),
      (''PAD'', MasterType_PAD),
      (''PAD INPUT'', MasterType_PAD_INPUT),
      (''PAD OUTPUT'', MasterType_PAD_OUTPUT),
      (''PAD INOUT'', MasterType_PAD_INOUT),
      (''PAD POWER'', MasterType_PAD_POWER),
      (''PAD SPACER'', MasterType_PAD_SPACER),
      (''PAD AREAIO'', MasterType_PAD_AREAIO),
      (''CORE'', MasterType_CORE),
      (''CORE FEEDTHRU'', MasterType_CORE_FEEDTHRU),
      (''CORE TIEHIGH'', MasterType_CORE_TIEHIGH),
      (''CORE TIELOW'', MasterType_CORE_TIELOW),
      (''CORE SPACER'', MasterType_CORE_SPACER),
      (''CORE ANTENNACELL'', MasterType_CORE_ANTENNACELL),
      (''CORE WELLTAP'', MasterType_CORE_WELLTAP),
      (''ENDCAP'', MasterType_ENDCAP),
      (''ENDCAP PRE'', MasterType_ENDCAP_PRE),
      (''ENDCAP POST'', MasterType_ENDCAP_POST),
      (''ENDCAP TOPLEFT'', MasterType_ENDCAP_TOPLEFT),
      (''ENDCAP TOPRIGHT'', MasterType_ENDCAP_TOPRIGHT),
      (''ENDCAP BOTTOMLEFT'', MasterType_ENDCAP_BOTTOMLEFT),
      (''ENDCAP BOTTOMRIGHT'', MasterType_ENDCAP_BOTTOMRIGHT),
      (''ENDCAP BOTTOMEDGE'', MasterType_ENDCAP_LEF58_BOTTOMEDGE),
      (''ENDCAP TOPEDGE'', MasterType_ENDCAP_LEF58_TOPEDGE),
      (''ENDCAP RIGHTEDGE'', MasterType_ENDCAP_LEF58_RIGHTEDGE),
      (''ENDCAP LEFTEDGE'', MasterType_ENDCAP_LEF58_LEFTEDGE),
      (''ENDCAP RIGHTBOTTOMEDGE'', MasterType_ENDCAP_LEF58_RIGHTBOTTOMEDGE),
      (''ENDCAP LEFTBOTTOMEDGE'', MasterType_ENDCAP_LEF58_LEFTBOTTOMEDGE),
      (''ENDCAP RIGHTTOPEDGE'', MasterType_ENDCAP_LEF58_RIGHTTOPEDGE),
      (''ENDCAP LEFTTOPEDGE'', MasterType_ENDCAP_LEF58_LEFTTOPEDGE),
      (''ENDCAP RIGHTBOTTOMCORNER'', MasterType_ENDCAP_LEF58_RIGHTBOTTOMCORNER),
      (''ENDCAP LEFTBOTTOMCORNER'', MasterType_ENDCAP_LEF58_LEFTBOTTOMCORNER),
      (''ENDCAP RIGHTTOPCORNER'', MasterType_ENDCAP_LEF58_RIGHTTOPCORNER),
      (''ENDCAP LEFTTOPCORNER'', MasterType_ENDCAP_LEF58_LEFTTOPCORNER)] MasterType_CORE value"

definition dbMasterType_default :: dbMasterType where
  "dbMasterType_default = MasterType_CORE"

primrec dbMasterType_getString :: "dbMasterType \<Rightarrow> string" where
    "dbMasterType_getString MasterType_COVER = ''COVER''"
  | "dbMasterType_getString MasterType_COVER_BUMP = ''COVER BUMP''"
  | "dbMasterType_getString MasterType_RING = ''RING''"
  | "dbMasterType_getString MasterType_BLOCK = ''BLOCK''"
  | "dbMasterType_getString MasterType_BLOCK_BLACKBOX = ''BLOCK BLACKBOX''"
  | "dbMasterType_getString MasterType_BLOCK_SOFT = ''BLOCK SOFT''"
  | "dbMasterType_getString MasterType_PAD = ''PAD''"
  | "dbMasterType_getString MasterType_PAD_INPUT = ''PAD INPUT''"
  | "dbMasterType_getString MasterType_PAD_OUTPUT = ''PAD OUTPUT''"
  | "dbMasterType_getString MasterType_PAD_INOUT = ''PAD INOUT''"
  | "dbMasterType_getString MasterType_PAD_POWER = ''PAD POWER''"
  | "dbMasterType_getString MasterType_PAD_SPACER = ''PAD SPACER''"
  | "dbMasterType_getString MasterType_PAD_AREAIO = ''PAD AREAIO''"
  | "dbMasterType_getString MasterType_CORE = ''CORE''"
  | "dbMasterType_getString MasterType_CORE_FEEDTHRU = ''CORE FEEDTHRU''"
  | "dbMasterType_getString MasterType_CORE_TIEHIGH = ''CORE TIEHIGH''"
  | "dbMasterType_getString MasterType_CORE_TIELOW = ''CORE TIELOW''"
  | "dbMasterType_getString MasterType_CORE_SPACER = ''CORE SPACER''"
  | "dbMasterType_getString MasterType_CORE_ANTENNACELL = ''CORE ANTENNACELL''"
  | "dbMasterType_getString MasterType_CORE_WELLTAP = ''CORE WELLTAP''"
  | "dbMasterType_getString MasterType_ENDCAP = ''ENDCAP''"
  | "dbMasterType_getString MasterType_ENDCAP_PRE = ''ENDCAP PRE''"
  | "dbMasterType_getString MasterType_ENDCAP_POST = ''ENDCAP POST''"
  | "dbMasterType_getString MasterType_ENDCAP_TOPLEFT = ''ENDCAP TOPLEFT''"
  | "dbMasterType_getString MasterType_ENDCAP_TOPRIGHT = ''ENDCAP TOPRIGHT''"
  | "dbMasterType_getString MasterType_ENDCAP_BOTTOMLEFT = ''ENDCAP BOTTOMLEFT''"
  | "dbMasterType_getString MasterType_ENDCAP_BOTTOMRIGHT = ''ENDCAP BOTTOMRIGHT''"
  | "dbMasterType_getString MasterType_ENDCAP_LEF58_BOTTOMEDGE = ''ENDCAP BOTTOMEDGE''"
  | "dbMasterType_getString MasterType_ENDCAP_LEF58_TOPEDGE = ''ENDCAP TOPEDGE''"
  | "dbMasterType_getString MasterType_ENDCAP_LEF58_RIGHTEDGE = ''ENDCAP RIGHTEDGE''"
  | "dbMasterType_getString MasterType_ENDCAP_LEF58_LEFTEDGE = ''ENDCAP LEFTEDGE''"
  | "dbMasterType_getString MasterType_ENDCAP_LEF58_RIGHTBOTTOMEDGE = ''ENDCAP RIGHTBOTTOMEDGE''"
  | "dbMasterType_getString MasterType_ENDCAP_LEF58_LEFTBOTTOMEDGE = ''ENDCAP LEFTBOTTOMEDGE''"
  | "dbMasterType_getString MasterType_ENDCAP_LEF58_RIGHTTOPEDGE = ''ENDCAP RIGHTTOPEDGE''"
  | "dbMasterType_getString MasterType_ENDCAP_LEF58_LEFTTOPEDGE = ''ENDCAP LEFTTOPEDGE''"
  | "dbMasterType_getString MasterType_ENDCAP_LEF58_RIGHTBOTTOMCORNER = ''ENDCAP RIGHTBOTTOMCORNER''"
  | "dbMasterType_getString MasterType_ENDCAP_LEF58_LEFTBOTTOMCORNER = ''ENDCAP LEFTBOTTOMCORNER''"
  | "dbMasterType_getString MasterType_ENDCAP_LEF58_RIGHTTOPCORNER = ''ENDCAP RIGHTTOPCORNER''"
  | "dbMasterType_getString MasterType_ENDCAP_LEF58_LEFTTOPCORNER = ''ENDCAP LEFTTOPCORNER''"

primrec dbMasterType_isBlock :: "dbMasterType \<Rightarrow> bool" where
    "dbMasterType_isBlock MasterType_BLOCK = True"
  | "dbMasterType_isBlock MasterType_BLOCK_BLACKBOX = True"
  | "dbMasterType_isBlock MasterType_BLOCK_SOFT = True"
  | "dbMasterType_isBlock MasterType_COVER = False"
  | "dbMasterType_isBlock MasterType_COVER_BUMP = False"
  | "dbMasterType_isBlock MasterType_RING = False"
  | "dbMasterType_isBlock MasterType_PAD = False"
  | "dbMasterType_isBlock MasterType_PAD_INPUT = False"
  | "dbMasterType_isBlock MasterType_PAD_OUTPUT = False"
  | "dbMasterType_isBlock MasterType_PAD_INOUT = False"
  | "dbMasterType_isBlock MasterType_PAD_POWER = False"
  | "dbMasterType_isBlock MasterType_PAD_SPACER = False"
  | "dbMasterType_isBlock MasterType_PAD_AREAIO = False"
  | "dbMasterType_isBlock MasterType_CORE = False"
  | "dbMasterType_isBlock MasterType_CORE_FEEDTHRU = False"
  | "dbMasterType_isBlock MasterType_CORE_TIEHIGH = False"
  | "dbMasterType_isBlock MasterType_CORE_TIELOW = False"
  | "dbMasterType_isBlock MasterType_CORE_SPACER = False"
  | "dbMasterType_isBlock MasterType_CORE_ANTENNACELL = False"
  | "dbMasterType_isBlock MasterType_CORE_WELLTAP = False"
  | "dbMasterType_isBlock MasterType_ENDCAP = False"
  | "dbMasterType_isBlock MasterType_ENDCAP_PRE = False"
  | "dbMasterType_isBlock MasterType_ENDCAP_POST = False"
  | "dbMasterType_isBlock MasterType_ENDCAP_TOPLEFT = False"
  | "dbMasterType_isBlock MasterType_ENDCAP_TOPRIGHT = False"
  | "dbMasterType_isBlock MasterType_ENDCAP_BOTTOMLEFT = False"
  | "dbMasterType_isBlock MasterType_ENDCAP_BOTTOMRIGHT = False"
  | "dbMasterType_isBlock MasterType_ENDCAP_LEF58_BOTTOMEDGE = False"
  | "dbMasterType_isBlock MasterType_ENDCAP_LEF58_TOPEDGE = False"
  | "dbMasterType_isBlock MasterType_ENDCAP_LEF58_RIGHTEDGE = False"
  | "dbMasterType_isBlock MasterType_ENDCAP_LEF58_LEFTEDGE = False"
  | "dbMasterType_isBlock MasterType_ENDCAP_LEF58_RIGHTBOTTOMEDGE = False"
  | "dbMasterType_isBlock MasterType_ENDCAP_LEF58_LEFTBOTTOMEDGE = False"
  | "dbMasterType_isBlock MasterType_ENDCAP_LEF58_RIGHTTOPEDGE = False"
  | "dbMasterType_isBlock MasterType_ENDCAP_LEF58_LEFTTOPEDGE = False"
  | "dbMasterType_isBlock MasterType_ENDCAP_LEF58_RIGHTBOTTOMCORNER = False"
  | "dbMasterType_isBlock MasterType_ENDCAP_LEF58_LEFTBOTTOMCORNER = False"
  | "dbMasterType_isBlock MasterType_ENDCAP_LEF58_RIGHTTOPCORNER = False"
  | "dbMasterType_isBlock MasterType_ENDCAP_LEF58_LEFTTOPCORNER = False"

primrec dbMasterType_isCore :: "dbMasterType \<Rightarrow> bool" where
    "dbMasterType_isCore MasterType_CORE = True"
  | "dbMasterType_isCore MasterType_CORE_FEEDTHRU = True"
  | "dbMasterType_isCore MasterType_CORE_TIEHIGH = True"
  | "dbMasterType_isCore MasterType_CORE_TIELOW = True"
  | "dbMasterType_isCore MasterType_CORE_SPACER = True"
  | "dbMasterType_isCore MasterType_CORE_ANTENNACELL = True"
  | "dbMasterType_isCore MasterType_CORE_WELLTAP = True"
  | "dbMasterType_isCore MasterType_COVER = False"
  | "dbMasterType_isCore MasterType_COVER_BUMP = False"
  | "dbMasterType_isCore MasterType_RING = False"
  | "dbMasterType_isCore MasterType_BLOCK = False"
  | "dbMasterType_isCore MasterType_BLOCK_BLACKBOX = False"
  | "dbMasterType_isCore MasterType_BLOCK_SOFT = False"
  | "dbMasterType_isCore MasterType_PAD = False"
  | "dbMasterType_isCore MasterType_PAD_INPUT = False"
  | "dbMasterType_isCore MasterType_PAD_OUTPUT = False"
  | "dbMasterType_isCore MasterType_PAD_INOUT = False"
  | "dbMasterType_isCore MasterType_PAD_POWER = False"
  | "dbMasterType_isCore MasterType_PAD_SPACER = False"
  | "dbMasterType_isCore MasterType_PAD_AREAIO = False"
  | "dbMasterType_isCore MasterType_ENDCAP = False"
  | "dbMasterType_isCore MasterType_ENDCAP_PRE = False"
  | "dbMasterType_isCore MasterType_ENDCAP_POST = False"
  | "dbMasterType_isCore MasterType_ENDCAP_TOPLEFT = False"
  | "dbMasterType_isCore MasterType_ENDCAP_TOPRIGHT = False"
  | "dbMasterType_isCore MasterType_ENDCAP_BOTTOMLEFT = False"
  | "dbMasterType_isCore MasterType_ENDCAP_BOTTOMRIGHT = False"
  | "dbMasterType_isCore MasterType_ENDCAP_LEF58_BOTTOMEDGE = False"
  | "dbMasterType_isCore MasterType_ENDCAP_LEF58_TOPEDGE = False"
  | "dbMasterType_isCore MasterType_ENDCAP_LEF58_RIGHTEDGE = False"
  | "dbMasterType_isCore MasterType_ENDCAP_LEF58_LEFTEDGE = False"
  | "dbMasterType_isCore MasterType_ENDCAP_LEF58_RIGHTBOTTOMEDGE = False"
  | "dbMasterType_isCore MasterType_ENDCAP_LEF58_LEFTBOTTOMEDGE = False"
  | "dbMasterType_isCore MasterType_ENDCAP_LEF58_RIGHTTOPEDGE = False"
  | "dbMasterType_isCore MasterType_ENDCAP_LEF58_LEFTTOPEDGE = False"
  | "dbMasterType_isCore MasterType_ENDCAP_LEF58_RIGHTBOTTOMCORNER = False"
  | "dbMasterType_isCore MasterType_ENDCAP_LEF58_LEFTBOTTOMCORNER = False"
  | "dbMasterType_isCore MasterType_ENDCAP_LEF58_RIGHTTOPCORNER = False"
  | "dbMasterType_isCore MasterType_ENDCAP_LEF58_LEFTTOPCORNER = False"

primrec dbMasterType_isPad :: "dbMasterType \<Rightarrow> bool" where
    "dbMasterType_isPad MasterType_PAD = True"
  | "dbMasterType_isPad MasterType_PAD_INPUT = True"
  | "dbMasterType_isPad MasterType_PAD_OUTPUT = True"
  | "dbMasterType_isPad MasterType_PAD_INOUT = True"
  | "dbMasterType_isPad MasterType_PAD_POWER = True"
  | "dbMasterType_isPad MasterType_PAD_SPACER = True"
  | "dbMasterType_isPad MasterType_PAD_AREAIO = True"
  | "dbMasterType_isPad MasterType_COVER = False"
  | "dbMasterType_isPad MasterType_COVER_BUMP = False"
  | "dbMasterType_isPad MasterType_RING = False"
  | "dbMasterType_isPad MasterType_BLOCK = False"
  | "dbMasterType_isPad MasterType_BLOCK_BLACKBOX = False"
  | "dbMasterType_isPad MasterType_BLOCK_SOFT = False"
  | "dbMasterType_isPad MasterType_CORE = False"
  | "dbMasterType_isPad MasterType_CORE_FEEDTHRU = False"
  | "dbMasterType_isPad MasterType_CORE_TIEHIGH = False"
  | "dbMasterType_isPad MasterType_CORE_TIELOW = False"
  | "dbMasterType_isPad MasterType_CORE_SPACER = False"
  | "dbMasterType_isPad MasterType_CORE_ANTENNACELL = False"
  | "dbMasterType_isPad MasterType_CORE_WELLTAP = False"
  | "dbMasterType_isPad MasterType_ENDCAP = False"
  | "dbMasterType_isPad MasterType_ENDCAP_PRE = False"
  | "dbMasterType_isPad MasterType_ENDCAP_POST = False"
  | "dbMasterType_isPad MasterType_ENDCAP_TOPLEFT = False"
  | "dbMasterType_isPad MasterType_ENDCAP_TOPRIGHT = False"
  | "dbMasterType_isPad MasterType_ENDCAP_BOTTOMLEFT = False"
  | "dbMasterType_isPad MasterType_ENDCAP_BOTTOMRIGHT = False"
  | "dbMasterType_isPad MasterType_ENDCAP_LEF58_BOTTOMEDGE = False"
  | "dbMasterType_isPad MasterType_ENDCAP_LEF58_TOPEDGE = False"
  | "dbMasterType_isPad MasterType_ENDCAP_LEF58_RIGHTEDGE = False"
  | "dbMasterType_isPad MasterType_ENDCAP_LEF58_LEFTEDGE = False"
  | "dbMasterType_isPad MasterType_ENDCAP_LEF58_RIGHTBOTTOMEDGE = False"
  | "dbMasterType_isPad MasterType_ENDCAP_LEF58_LEFTBOTTOMEDGE = False"
  | "dbMasterType_isPad MasterType_ENDCAP_LEF58_RIGHTTOPEDGE = False"
  | "dbMasterType_isPad MasterType_ENDCAP_LEF58_LEFTTOPEDGE = False"
  | "dbMasterType_isPad MasterType_ENDCAP_LEF58_RIGHTBOTTOMCORNER = False"
  | "dbMasterType_isPad MasterType_ENDCAP_LEF58_LEFTBOTTOMCORNER = False"
  | "dbMasterType_isPad MasterType_ENDCAP_LEF58_RIGHTTOPCORNER = False"
  | "dbMasterType_isPad MasterType_ENDCAP_LEF58_LEFTTOPCORNER = False"

primrec dbMasterType_isEndCap :: "dbMasterType \<Rightarrow> bool" where
    "dbMasterType_isEndCap MasterType_ENDCAP = True"
  | "dbMasterType_isEndCap MasterType_ENDCAP_PRE = True"
  | "dbMasterType_isEndCap MasterType_ENDCAP_POST = True"
  | "dbMasterType_isEndCap MasterType_ENDCAP_TOPLEFT = True"
  | "dbMasterType_isEndCap MasterType_ENDCAP_TOPRIGHT = True"
  | "dbMasterType_isEndCap MasterType_ENDCAP_BOTTOMLEFT = True"
  | "dbMasterType_isEndCap MasterType_ENDCAP_BOTTOMRIGHT = True"
  | "dbMasterType_isEndCap MasterType_ENDCAP_LEF58_BOTTOMEDGE = True"
  | "dbMasterType_isEndCap MasterType_ENDCAP_LEF58_TOPEDGE = True"
  | "dbMasterType_isEndCap MasterType_ENDCAP_LEF58_RIGHTEDGE = True"
  | "dbMasterType_isEndCap MasterType_ENDCAP_LEF58_LEFTEDGE = True"
  | "dbMasterType_isEndCap MasterType_ENDCAP_LEF58_RIGHTBOTTOMEDGE = True"
  | "dbMasterType_isEndCap MasterType_ENDCAP_LEF58_LEFTBOTTOMEDGE = True"
  | "dbMasterType_isEndCap MasterType_ENDCAP_LEF58_RIGHTTOPEDGE = True"
  | "dbMasterType_isEndCap MasterType_ENDCAP_LEF58_LEFTTOPEDGE = True"
  | "dbMasterType_isEndCap MasterType_ENDCAP_LEF58_RIGHTBOTTOMCORNER = True"
  | "dbMasterType_isEndCap MasterType_ENDCAP_LEF58_LEFTBOTTOMCORNER = True"
  | "dbMasterType_isEndCap MasterType_ENDCAP_LEF58_RIGHTTOPCORNER = True"
  | "dbMasterType_isEndCap MasterType_ENDCAP_LEF58_LEFTTOPCORNER = True"
  | "dbMasterType_isEndCap MasterType_COVER = False"
  | "dbMasterType_isEndCap MasterType_COVER_BUMP = False"
  | "dbMasterType_isEndCap MasterType_RING = False"
  | "dbMasterType_isEndCap MasterType_BLOCK = False"
  | "dbMasterType_isEndCap MasterType_BLOCK_BLACKBOX = False"
  | "dbMasterType_isEndCap MasterType_BLOCK_SOFT = False"
  | "dbMasterType_isEndCap MasterType_PAD = False"
  | "dbMasterType_isEndCap MasterType_PAD_INPUT = False"
  | "dbMasterType_isEndCap MasterType_PAD_OUTPUT = False"
  | "dbMasterType_isEndCap MasterType_PAD_INOUT = False"
  | "dbMasterType_isEndCap MasterType_PAD_POWER = False"
  | "dbMasterType_isEndCap MasterType_PAD_SPACER = False"
  | "dbMasterType_isEndCap MasterType_PAD_AREAIO = False"
  | "dbMasterType_isEndCap MasterType_CORE = False"
  | "dbMasterType_isEndCap MasterType_CORE_FEEDTHRU = False"
  | "dbMasterType_isEndCap MasterType_CORE_TIEHIGH = False"
  | "dbMasterType_isEndCap MasterType_CORE_TIELOW = False"
  | "dbMasterType_isEndCap MasterType_CORE_SPACER = False"
  | "dbMasterType_isEndCap MasterType_CORE_ANTENNACELL = False"
  | "dbMasterType_isEndCap MasterType_CORE_WELLTAP = False"

primrec dbMasterType_isCover :: "dbMasterType \<Rightarrow> bool" where
    "dbMasterType_isCover MasterType_COVER = True"
  | "dbMasterType_isCover MasterType_COVER_BUMP = True"
  | "dbMasterType_isCover MasterType_RING = False"
  | "dbMasterType_isCover MasterType_BLOCK = False"
  | "dbMasterType_isCover MasterType_BLOCK_BLACKBOX = False"
  | "dbMasterType_isCover MasterType_BLOCK_SOFT = False"
  | "dbMasterType_isCover MasterType_PAD = False"
  | "dbMasterType_isCover MasterType_PAD_INPUT = False"
  | "dbMasterType_isCover MasterType_PAD_OUTPUT = False"
  | "dbMasterType_isCover MasterType_PAD_INOUT = False"
  | "dbMasterType_isCover MasterType_PAD_POWER = False"
  | "dbMasterType_isCover MasterType_PAD_SPACER = False"
  | "dbMasterType_isCover MasterType_PAD_AREAIO = False"
  | "dbMasterType_isCover MasterType_CORE = False"
  | "dbMasterType_isCover MasterType_CORE_FEEDTHRU = False"
  | "dbMasterType_isCover MasterType_CORE_TIEHIGH = False"
  | "dbMasterType_isCover MasterType_CORE_TIELOW = False"
  | "dbMasterType_isCover MasterType_CORE_SPACER = False"
  | "dbMasterType_isCover MasterType_CORE_ANTENNACELL = False"
  | "dbMasterType_isCover MasterType_CORE_WELLTAP = False"
  | "dbMasterType_isCover MasterType_ENDCAP = False"
  | "dbMasterType_isCover MasterType_ENDCAP_PRE = False"
  | "dbMasterType_isCover MasterType_ENDCAP_POST = False"
  | "dbMasterType_isCover MasterType_ENDCAP_TOPLEFT = False"
  | "dbMasterType_isCover MasterType_ENDCAP_TOPRIGHT = False"
  | "dbMasterType_isCover MasterType_ENDCAP_BOTTOMLEFT = False"
  | "dbMasterType_isCover MasterType_ENDCAP_BOTTOMRIGHT = False"
  | "dbMasterType_isCover MasterType_ENDCAP_LEF58_BOTTOMEDGE = False"
  | "dbMasterType_isCover MasterType_ENDCAP_LEF58_TOPEDGE = False"
  | "dbMasterType_isCover MasterType_ENDCAP_LEF58_RIGHTEDGE = False"
  | "dbMasterType_isCover MasterType_ENDCAP_LEF58_LEFTEDGE = False"
  | "dbMasterType_isCover MasterType_ENDCAP_LEF58_RIGHTBOTTOMEDGE = False"
  | "dbMasterType_isCover MasterType_ENDCAP_LEF58_LEFTBOTTOMEDGE = False"
  | "dbMasterType_isCover MasterType_ENDCAP_LEF58_RIGHTTOPEDGE = False"
  | "dbMasterType_isCover MasterType_ENDCAP_LEF58_LEFTTOPEDGE = False"
  | "dbMasterType_isCover MasterType_ENDCAP_LEF58_RIGHTBOTTOMCORNER = False"
  | "dbMasterType_isCover MasterType_ENDCAP_LEF58_LEFTBOTTOMCORNER = False"
  | "dbMasterType_isCover MasterType_ENDCAP_LEF58_RIGHTTOPCORNER = False"
  | "dbMasterType_isCover MasterType_ENDCAP_LEF58_LEFTTOPCORNER = False"

datatype dbTechLayerType =
    TechLayerType_ROUTING
  | TechLayerType_CUT
  | TechLayerType_MASTERSLICE
  | TechLayerType_OVERLAP
  | TechLayerType_IMPLANT
  | TechLayerType_NONE

definition dbTechLayerType_fromString :: "string \<Rightarrow> dbTechLayerType option" where
  "dbTechLayerType_fromString value = name_find
     [(''ROUTING'', TechLayerType_ROUTING),
      (''CUT'', TechLayerType_CUT),
      (''MASTERSLICE'', TechLayerType_MASTERSLICE),
      (''OVERLAP'', TechLayerType_OVERLAP),
      (''IMPLANT'', TechLayerType_IMPLANT)] value"

definition dbTechLayerType_of_string :: "string \<Rightarrow> dbTechLayerType" where
  "dbTechLayerType_of_string value =
     (case dbTechLayerType_fromString value of Some v \<Rightarrow> v | None \<Rightarrow> TechLayerType_ROUTING)"

definition dbTechLayerType_default :: dbTechLayerType where
  "dbTechLayerType_default = TechLayerType_ROUTING"

primrec dbTechLayerType_getString :: "dbTechLayerType \<Rightarrow> string" where
    "dbTechLayerType_getString TechLayerType_NONE = ''NONE''"
  | "dbTechLayerType_getString TechLayerType_ROUTING = ''ROUTING''"
  | "dbTechLayerType_getString TechLayerType_CUT = ''CUT''"
  | "dbTechLayerType_getString TechLayerType_MASTERSLICE = ''MASTERSLICE''"
  | "dbTechLayerType_getString TechLayerType_OVERLAP = ''OVERLAP''"
  | "dbTechLayerType_getString TechLayerType_IMPLANT = ''IMPLANT''"

datatype dbTechLayerDir =
    TechLayerDir_NONE
  | TechLayerDir_HORIZONTAL
  | TechLayerDir_VERTICAL

definition dbTechLayerDir_of_string :: "string \<Rightarrow> dbTechLayerDir" where
  "dbTechLayerDir_of_string value = name_lookup
     [(''NONE'', TechLayerDir_NONE),
      (''HORIZONTAL'', TechLayerDir_HORIZONTAL),
      (''VERTICAL'', TechLayerDir_VERTICAL)] TechLayerDir_NONE value"

definition dbTechLayerDir_default :: dbTechLayerDir where
  "dbTechLayerDir_default = TechLayerDir_NONE"

primrec dbTechLayerDir_getString :: "dbTechLayerDir \<Rightarrow> string" where
    "dbTechLayerDir_getString TechLayerDir_NONE = ''NONE''"
  | "dbTechLayerDir_getString TechLayerDir_HORIZONTAL = ''HORIZONTAL''"
  | "dbTechLayerDir_getString TechLayerDir_VERTICAL = ''VERTICAL''"

datatype dbTechLayerMinStepType =
    TechLayerMinStepType_INSIDE_CORNER
  | TechLayerMinStepType_OUTSIDE_CORNER
  | TechLayerMinStepType_STEP

definition dbTechLayerMinStepType_of_string :: "string \<Rightarrow> dbTechLayerMinStepType" where
  "dbTechLayerMinStepType_of_string value = name_lookup
     [(''INSIDECORNER'', TechLayerMinStepType_INSIDE_CORNER),
      (''OUTSIDECORNER'', TechLayerMinStepType_OUTSIDE_CORNER),
      (''STEP'', TechLayerMinStepType_STEP)] TechLayerMinStepType_OUTSIDE_CORNER value"

definition dbTechLayerMinStepType_default :: dbTechLayerMinStepType where
  "dbTechLayerMinStepType_default = TechLayerMinStepType_OUTSIDE_CORNER"

primrec dbTechLayerMinStepType_getString :: "dbTechLayerMinStepType \<Rightarrow> string" where
    "dbTechLayerMinStepType_getString TechLayerMinStepType_INSIDE_CORNER = ''INSIDECORNER''"
  | "dbTechLayerMinStepType_getString TechLayerMinStepType_OUTSIDE_CORNER = ''OUTSIDECORNER''"
  | "dbTechLayerMinStepType_getString TechLayerMinStepType_STEP = ''STEP''"

datatype dbBoxOwner =
    BoxOwner_UNKNOWN
  | BoxOwner_BLOCK
  | BoxOwner_INST
  | BoxOwner_BTERM
  | BoxOwner_VIA
  | BoxOwner_OBSTRUCTION
  | BoxOwner_SWIRE
  | BoxOwner_BLOCKAGE
  | BoxOwner_MASTER
  | BoxOwner_MPIN
  | BoxOwner_TECH_VIA
  | BoxOwner_REGION
  | BoxOwner_BPIN
  | BoxOwner_PBOX

definition dbBoxOwner_of_string :: "string \<Rightarrow> dbBoxOwner" where
  "dbBoxOwner_of_string value = name_lookup
     [(''UNKNOWN'', BoxOwner_UNKNOWN),
      (''BLOCK'', BoxOwner_BLOCK),
      (''INST'', BoxOwner_INST),
      (''BTERM'', BoxOwner_BTERM),
      (''BPIN'', BoxOwner_BPIN),
      (''VIA'', BoxOwner_VIA),
      (''OBSTRUCTION'', BoxOwner_OBSTRUCTION),
      (''BLOCKAGE'', BoxOwner_BLOCKAGE),
      (''MASTER'', BoxOwner_MASTER),
      (''MPIN'', BoxOwner_MPIN),
      (''TECH VIA'', BoxOwner_TECH_VIA),
      (''SWIRE'', BoxOwner_SWIRE),
      (''REGION'', BoxOwner_REGION),
      (''PBOX'', BoxOwner_PBOX)] BoxOwner_UNKNOWN value"

definition dbBoxOwner_default :: dbBoxOwner where
  "dbBoxOwner_default = BoxOwner_BLOCK"

primrec dbBoxOwner_getString :: "dbBoxOwner \<Rightarrow> string" where
    "dbBoxOwner_getString BoxOwner_UNKNOWN = ''UNKNOWN''"
  | "dbBoxOwner_getString BoxOwner_BLOCK = ''BLOCK''"
  | "dbBoxOwner_getString BoxOwner_INST = ''INST''"
  | "dbBoxOwner_getString BoxOwner_BTERM = ''BTERM''"
  | "dbBoxOwner_getString BoxOwner_BPIN = ''BPIN''"
  | "dbBoxOwner_getString BoxOwner_VIA = ''VIA''"
  | "dbBoxOwner_getString BoxOwner_OBSTRUCTION = ''OBSTRUCTION''"
  | "dbBoxOwner_getString BoxOwner_BLOCKAGE = ''BLOCKAGE''"
  | "dbBoxOwner_getString BoxOwner_MASTER = ''MASTER''"
  | "dbBoxOwner_getString BoxOwner_MPIN = ''MPIN''"
  | "dbBoxOwner_getString BoxOwner_TECH_VIA = ''TECH VIA''"
  | "dbBoxOwner_getString BoxOwner_SWIRE = ''SWIRE''"
  | "dbBoxOwner_getString BoxOwner_REGION = ''REGION''"
  | "dbBoxOwner_getString BoxOwner_PBOX = ''PBOX''"

datatype dbPolygonOwner =
    PolygonOwner_UNKNOWN
  | PolygonOwner_BPIN
  | PolygonOwner_OBSTRUCTION
  | PolygonOwner_SWIRE

definition dbPolygonOwner_of_string :: "string \<Rightarrow> dbPolygonOwner" where
  "dbPolygonOwner_of_string value = name_lookup
     [(''UNKNOWN'', PolygonOwner_UNKNOWN),
      (''BPIN'', PolygonOwner_BPIN),
      (''OBSTRUCTION'', PolygonOwner_OBSTRUCTION),
      (''SWIRE'', PolygonOwner_SWIRE)] PolygonOwner_UNKNOWN value"

definition dbPolygonOwner_default :: dbPolygonOwner where
  "dbPolygonOwner_default = PolygonOwner_UNKNOWN"

primrec dbPolygonOwner_getString :: "dbPolygonOwner \<Rightarrow> string" where
    "dbPolygonOwner_getString PolygonOwner_UNKNOWN = ''UNKNOWN''"
  | "dbPolygonOwner_getString PolygonOwner_BPIN = ''BPIN''"
  | "dbPolygonOwner_getString PolygonOwner_OBSTRUCTION = ''OBSTRUCTION''"
  | "dbPolygonOwner_getString PolygonOwner_SWIRE = ''SWIRE''"

datatype dbWireType =
    WireType_NONE
  | WireType_COVER
  | WireType_FIXED
  | WireType_ROUTED
  | WireType_SHIELD
  | WireType_NOSHIELD

definition dbWireType_of_string :: "string \<Rightarrow> dbWireType" where
  "dbWireType_of_string value = name_lookup
     [(''NONE'', WireType_NONE),
      (''COVER'', WireType_COVER),
      (''FIXED'', WireType_FIXED),
      (''ROUTED'', WireType_ROUTED),
      (''SHIELD'', WireType_SHIELD),
      (''NOSHIELD'', WireType_NOSHIELD)] WireType_NONE value"

definition dbWireType_default :: dbWireType where
  "dbWireType_default = WireType_NONE"

primrec dbWireType_getString :: "dbWireType \<Rightarrow> string" where
    "dbWireType_getString WireType_NONE = ''NONE''"
  | "dbWireType_getString WireType_COVER = ''COVER''"
  | "dbWireType_getString WireType_FIXED = ''FIXED''"
  | "dbWireType_getString WireType_ROUTED = ''ROUTED''"
  | "dbWireType_getString WireType_SHIELD = ''SHIELD''"
  | "dbWireType_getString WireType_NOSHIELD = ''NOSHIELD''"

datatype dbWireShapeType =
    WireShapeType_NONE
  | WireShapeType_RING
  | WireShapeType_PADRING
  | WireShapeType_BLOCKRING
  | WireShapeType_STRIPE
  | WireShapeType_FOLLOWPIN
  | WireShapeType_IOWIRE
  | WireShapeType_COREWIRE
  | WireShapeType_BLOCKWIRE
  | WireShapeType_BLOCKAGEWIRE
  | WireShapeType_FILLWIRE
  | WireShapeType_DRCFILL

definition dbWireShapeType_of_string :: "string \<Rightarrow> dbWireShapeType" where
  "dbWireShapeType_of_string value = name_lookup
     [(''NONE'', WireShapeType_NONE),
      (''RING'', WireShapeType_RING),
      (''PADRING'', WireShapeType_PADRING),
      (''BLOCKRING'', WireShapeType_BLOCKRING),
      (''STRIPE'', WireShapeType_STRIPE),
      (''FOLLOWPIN'', WireShapeType_FOLLOWPIN),
      (''IOWIRE'', WireShapeType_IOWIRE),
      (''COREWIRE'', WireShapeType_COREWIRE),
      (''BLOCKWIRE'', WireShapeType_BLOCKWIRE),
      (''BLOCKAGEWIRE'', WireShapeType_BLOCKAGEWIRE),
      (''FILLWIRE'', WireShapeType_FILLWIRE),
      (''DRCFILL'', WireShapeType_DRCFILL)] WireShapeType_NONE value"

definition dbWireShapeType_default :: dbWireShapeType where
  "dbWireShapeType_default = WireShapeType_NONE"

primrec dbWireShapeType_getString :: "dbWireShapeType \<Rightarrow> string" where
    "dbWireShapeType_getString WireShapeType_NONE = ''NONE''"
  | "dbWireShapeType_getString WireShapeType_RING = ''RING''"
  | "dbWireShapeType_getString WireShapeType_PADRING = ''PADRING''"
  | "dbWireShapeType_getString WireShapeType_BLOCKRING = ''BLOCKRING''"
  | "dbWireShapeType_getString WireShapeType_STRIPE = ''STRIPE''"
  | "dbWireShapeType_getString WireShapeType_FOLLOWPIN = ''FOLLOWPIN''"
  | "dbWireShapeType_getString WireShapeType_IOWIRE = ''IOWIRE''"
  | "dbWireShapeType_getString WireShapeType_COREWIRE = ''COREWIRE''"
  | "dbWireShapeType_getString WireShapeType_BLOCKWIRE = ''BLOCKWIRE''"
  | "dbWireShapeType_getString WireShapeType_BLOCKAGEWIRE = ''BLOCKAGEWIRE''"
  | "dbWireShapeType_getString WireShapeType_FILLWIRE = ''FILLWIRE''"
  | "dbWireShapeType_getString WireShapeType_DRCFILL = ''DRCFILL''"

datatype dbSiteClass =
    SiteClass_NONE
  | SiteClass_PAD
  | SiteClass_CORE

definition dbSiteClass_of_string :: "string \<Rightarrow> dbSiteClass" where
  "dbSiteClass_of_string value = name_lookup
     [(''NONE'', SiteClass_NONE),
      (''PAD'', SiteClass_PAD),
      (''CORE'', SiteClass_CORE)] SiteClass_NONE value"

definition dbSiteClass_default :: dbSiteClass where
  "dbSiteClass_default = SiteClass_NONE"

primrec dbSiteClass_getString :: "dbSiteClass \<Rightarrow> string" where
    "dbSiteClass_getString SiteClass_NONE = ''NONE''"
  | "dbSiteClass_getString SiteClass_PAD = ''PAD''"
  | "dbSiteClass_getString SiteClass_CORE = ''CORE''"

datatype dbOnOffType =
    OnOffType_OFF
  | OnOffType_ON

definition dbOnOffType_of_string :: "string \<Rightarrow> dbOnOffType" where
  "dbOnOffType_of_string value = name_lookup
     [(''ON'', OnOffType_ON),
      (''OFF'', OnOffType_OFF)] OnOffType_OFF value"

definition dbOnOffType_default :: dbOnOffType where
  "dbOnOffType_default = OnOffType_OFF"

primrec dbOnOffType_getString :: "dbOnOffType \<Rightarrow> string" where
    "dbOnOffType_getString OnOffType_OFF = ''OFF''"
  | "dbOnOffType_getString OnOffType_ON = ''ON''"

datatype dbClMeasureType =
    ClMeasureType_EUCLIDEAN
  | ClMeasureType_MAXXY

definition dbClMeasureType_of_string :: "string \<Rightarrow> dbClMeasureType" where
  "dbClMeasureType_of_string value = name_lookup
     [(''MAXXY'', ClMeasureType_MAXXY),
      (''EUCLIDEAN'', ClMeasureType_EUCLIDEAN)] ClMeasureType_EUCLIDEAN value"

definition dbClMeasureType_default :: dbClMeasureType where
  "dbClMeasureType_default = ClMeasureType_EUCLIDEAN"

primrec dbClMeasureType_getString :: "dbClMeasureType \<Rightarrow> string" where
    "dbClMeasureType_getString ClMeasureType_EUCLIDEAN = ''EUCLIDEAN''"
  | "dbClMeasureType_getString ClMeasureType_MAXXY = ''MAXXY''"

datatype dbRowDir =
    RowDir_HORIZONTAL
  | RowDir_VERTICAL

definition dbRowDir_of_string :: "string \<Rightarrow> dbRowDir" where
  "dbRowDir_of_string value = name_lookup
     [(''HORIZONTAL'', RowDir_HORIZONTAL),
      (''VERTICAL'', RowDir_VERTICAL)] RowDir_VERTICAL value"

definition dbRowDir_default :: dbRowDir where
  "dbRowDir_default = RowDir_HORIZONTAL"

primrec dbRowDir_getString :: "dbRowDir \<Rightarrow> string" where
    "dbRowDir_getString RowDir_HORIZONTAL = ''HORIZONTAL''"
  | "dbRowDir_getString RowDir_VERTICAL = ''VERTICAL''"

datatype dbRegionType =
    RegionType_INCLUSIVE
  | RegionType_EXCLUSIVE
  | RegionType_SUGGESTED

definition dbRegionType_of_string :: "string \<Rightarrow> dbRegionType" where
  "dbRegionType_of_string value = name_lookup
     [(''INCLUSIVE'', RegionType_INCLUSIVE),
      (''EXCLUSIVE'', RegionType_EXCLUSIVE),
      (''SUGGESTED'', RegionType_SUGGESTED)] RegionType_INCLUSIVE value"

definition dbRegionType_default :: dbRegionType where
  "dbRegionType_default = RegionType_INCLUSIVE"

primrec dbRegionType_getString :: "dbRegionType \<Rightarrow> string" where
    "dbRegionType_getString RegionType_INCLUSIVE = ''INCLUSIVE''"
  | "dbRegionType_getString RegionType_EXCLUSIVE = ''EXCLUSIVE''"
  | "dbRegionType_getString RegionType_SUGGESTED = ''SUGGESTED''"

datatype dbSourceType =
    SourceType_NONE
  | SourceType_NETLIST
  | SourceType_DIST
  | SourceType_USER
  | SourceType_TIMING
  | SourceType_TEST

definition dbSourceType_of_string :: "string \<Rightarrow> dbSourceType" where
  "dbSourceType_of_string value = name_lookup
     [(''NETLIST'', SourceType_NETLIST),
      (''DIST'', SourceType_DIST),
      (''USER'', SourceType_USER),
      (''TIMING'', SourceType_TIMING),
      (''TEST'', SourceType_TEST),
      (''NONE'', SourceType_NONE)] SourceType_NETLIST value"

definition dbSourceType_default :: dbSourceType where
  "dbSourceType_default = SourceType_NONE"

primrec dbSourceType_getString :: "dbSourceType \<Rightarrow> string" where
    "dbSourceType_getString SourceType_NONE = ''NONE''"
  | "dbSourceType_getString SourceType_NETLIST = ''NETLIST''"
  | "dbSourceType_getString SourceType_DIST = ''DIST''"
  | "dbSourceType_getString SourceType_USER = ''USER''"
  | "dbSourceType_getString SourceType_TIMING = ''TIMING''"
  | "dbSourceType_getString SourceType_TEST = ''TEST''"

datatype dbJournalEntryType =
    JournalEntryType_NONE
  | JournalEntryType_OWNER
  | JournalEntryType_ADD
  | JournalEntryType_DESTROY

definition dbJournalEntryType_of_string :: "string \<Rightarrow> dbJournalEntryType" where
  "dbJournalEntryType_of_string value = name_lookup
     [(''NONE'', JournalEntryType_NONE),
      (''OWNER'', JournalEntryType_OWNER),
      (''ADD'', JournalEntryType_ADD),
      (''DESTROY'', JournalEntryType_DESTROY)] JournalEntryType_NONE value"

definition dbJournalEntryType_default :: dbJournalEntryType where
  "dbJournalEntryType_default = JournalEntryType_NONE"

primrec dbJournalEntryType_getString :: "dbJournalEntryType \<Rightarrow> string" where
    "dbJournalEntryType_getString JournalEntryType_NONE = ''NONE''"
  | "dbJournalEntryType_getString JournalEntryType_OWNER = ''OWNER''"
  | "dbJournalEntryType_getString JournalEntryType_ADD = ''ADD''"
  | "dbJournalEntryType_getString JournalEntryType_DESTROY = ''DESTROY''"

datatype dbDirection =
    Direction_NONE
  | Direction_NORTH
  | Direction_EAST
  | Direction_SOUTH
  | Direction_WEST
  | Direction_UP
  | Direction_DOWN

definition dbDirection_of_string :: "string \<Rightarrow> dbDirection" where
  "dbDirection_of_string value = name_lookup
     [(''NONE'', Direction_NONE),
      (''NORTH'', Direction_NORTH),
      (''EAST'', Direction_EAST),
      (''SOUTH'', Direction_SOUTH),
      (''WEST'', Direction_WEST),
      (''UP'', Direction_UP),
      (''DOWN'', Direction_DOWN)] Direction_NONE value"

definition dbDirection_default :: dbDirection where
  "dbDirection_default = Direction_NONE"

primrec dbDirection_getString :: "dbDirection \<Rightarrow> string" where
    "dbDirection_getString Direction_NONE = ''NONE''"
  | "dbDirection_getString Direction_NORTH = ''NORTH''"
  | "dbDirection_getString Direction_EAST = ''EAST''"
  | "dbDirection_getString Direction_SOUTH = ''SOUTH''"
  | "dbDirection_getString Direction_WEST = ''WEST''"
  | "dbDirection_getString Direction_UP = ''UP''"
  | "dbDirection_getString Direction_DOWN = ''DOWN''"

datatype dbMTermShapeType =
    MTermShapeType_NONE
  | MTermShapeType_RING
  | MTermShapeType_FEEDTHRU
  | MTermShapeType_ABUTMENT

definition dbMTermShapeType_of_string :: "string \<Rightarrow> dbMTermShapeType" where
  "dbMTermShapeType_of_string value = name_lookup
     [(''NONE'', MTermShapeType_NONE),
      (''RING'', MTermShapeType_RING),
      (''ABUTMENT'', MTermShapeType_ABUTMENT),
      (''FEEDTHRU'', MTermShapeType_FEEDTHRU)] MTermShapeType_NONE value"

definition dbMTermShapeType_default :: dbMTermShapeType where
  "dbMTermShapeType_default = MTermShapeType_NONE"

primrec dbMTermShapeType_getString :: "dbMTermShapeType \<Rightarrow> string" where
    "dbMTermShapeType_getString MTermShapeType_NONE = ''NONE''"
  | "dbMTermShapeType_getString MTermShapeType_RING = ''RING''"
  | "dbMTermShapeType_getString MTermShapeType_FEEDTHRU = ''FEEDTHRU''"
  | "dbMTermShapeType_getString MTermShapeType_ABUTMENT = ''ABUTMENT''"

datatype dbAccessType =
    AccessType_OnGrid
  | AccessType_HalfGrid
  | AccessType_Center
  | AccessType_EncOpt
  | AccessType_NearbyGrid

definition dbAccessType_of_string :: "string \<Rightarrow> dbAccessType" where
  "dbAccessType_of_string value = name_lookup
     [(''OnGrid'', AccessType_OnGrid),
      (''HalfGrid'', AccessType_HalfGrid),
      (''Center'', AccessType_Center),
      (''EncOpt'', AccessType_EncOpt),
      (''NearbyGrid'', AccessType_NearbyGrid)] AccessType_OnGrid value"

definition dbAccessType_default :: dbAccessType where
  "dbAccessType_default = AccessType_OnGrid"

primrec dbAccessType_getString :: "dbAccessType \<Rightarrow> string" where
    "dbAccessType_getString AccessType_OnGrid = ''OnGrid''"
  | "dbAccessType_getString AccessType_HalfGrid = ''HalfGrid''"
  | "dbAccessType_getString AccessType_Center = ''Center''"
  | "dbAccessType_getString AccessType_EncOpt = ''EncOpt''"
  | "dbAccessType_getString AccessType_NearbyGrid = ''NearbyGrid''"

section \<open>Flips, OnOff conversions and GDS text presentation\<close>

primrec dbOrientType_flipX :: "dbOrientType \<Rightarrow> dbOrientType" where
    "dbOrientType_flipX OrientType_R0 = OrientType_MX"
  | "dbOrientType_flipX OrientType_R90 = OrientType_MYR90"
  | "dbOrientType_flipX OrientType_R180 = OrientType_MY"
  | "dbOrientType_flipX OrientType_R270 = OrientType_MXR90"
  | "dbOrientType_flipX OrientType_MY = OrientType_R180"
  | "dbOrientType_flipX OrientType_MYR90 = OrientType_R90"
  | "dbOrientType_flipX OrientType_MX = OrientType_R0"
  | "dbOrientType_flipX OrientType_MXR90 = OrientType_R270"

primrec dbOrientType_flipY :: "dbOrientType \<Rightarrow> dbOrientType" where
    "dbOrientType_flipY OrientType_R0 = OrientType_MY"
  | "dbOrientType_flipY OrientType_R90 = OrientType_MXR90"
  | "dbOrientType_flipY OrientType_R180 = OrientType_MX"
  | "dbOrientType_flipY OrientType_R270 = OrientType_MYR90"
  | "dbOrientType_flipY OrientType_MY = OrientType_R0"
  | "dbOrientType_flipY OrientType_MYR90 = OrientType_R270"
  | "dbOrientType_flipY OrientType_MX = OrientType_R180"
  | "dbOrientType_flipY OrientType_MXR90 = OrientType_R90"

definition dbOnOffType_of_int :: "int \<Rightarrow> dbOnOffType" where
  "dbOnOffType_of_int innum = (if innum = 0 then OnOffType_OFF else OnOffType_ON)"

definition dbOnOffType_of_bool :: "bool \<Rightarrow> dbOnOffType" where
  "dbOnOffType_of_bool insw = (if insw then OnOffType_ON else OnOffType_OFF)"

definition dbOnOffType_getAsInt :: "dbOnOffType \<Rightarrow> int" where
  "dbOnOffType_getAsInt v = (if v = OnOffType_ON then 1 else 0)"

definition dbOnOffType_isSet :: "dbOnOffType \<Rightarrow> bool" where
  "dbOnOffType_isSet v \<longleftrightarrow> v = OnOffType_ON"

datatype VPres = VP_TOP | VP_MIDDLE | VP_BOTTOM
datatype HPres = HP_LEFT | HP_CENTER | HP_RIGHT

record dbGDSTextPres =
  vPres :: VPres
  hPres :: HPres

definition dbGDSTextPres_to_string :: "dbGDSTextPres \<Rightarrow> string" where
  "dbGDSTextPres_to_string t =
     ''FONT '' @ (if vPres t = VP_TOP then ''TOP '' else ''BOTTOM '')
              @ (if hPres t = HP_LEFT then ''LEFT '' else ''RIGHT '')"

section \<open>Printing and parsing\<close>

text \<open>The string a value prints as is read back as that value.\<close>

lemmas name_eval = name_lookup_def strcaseeq_def char_lower_def Let_def

lemma dbOrientType_roundtrip [simp]: "dbOrientType_fromString (dbOrientType_getString v) = Some v"
  unfolding dbOrientType_fromString_def
  by (subst name_find_map_of) (simp add: no_lower_def char_no_lower_def,
    (cases v; simp add: no_lower_def char_no_lower_def), (cases v; simp))

lemma dbTechLayerType_roundtrip:
  "v \<noteq> TechLayerType_NONE \<Longrightarrow> dbTechLayerType_fromString (dbTechLayerType_getString v) = Some v"
  unfolding dbTechLayerType_fromString_def
  by (subst name_find_map_of) (simp add: no_lower_def char_no_lower_def,
    (cases v; simp add: no_lower_def char_no_lower_def), (cases v; simp))

lemma dbGroupType_roundtrip [simp]: "dbGroupType_of_string (dbGroupType_getString v) = v"
  unfolding dbGroupType_of_string_def
  by (rule lookup_roundtrip) (simp add: no_lower_def char_no_lower_def,
    (cases v; simp add: no_lower_def char_no_lower_def), (cases v; simp))

lemma dbSigType_roundtrip [simp]: "dbSigType_of_string (dbSigType_getString v) = v"
  unfolding dbSigType_of_string_def
  by (rule lookup_roundtrip) (simp add: no_lower_def char_no_lower_def,
    (cases v; simp add: no_lower_def char_no_lower_def), (cases v; simp))

lemma dbIoType_roundtrip [simp]: "dbIoType_of_string (dbIoType_getString v) = v"
  unfolding dbIoType_of_string_def
  by (rule lookup_roundtrip) (simp add: no_lower_def char_no_lower_def,
    (cases v; simp add: no_lower_def char_no_lower_def), (cases v; simp))

lemma dbPlacementStatus_roundtrip [simp]: "dbPlacementStatus_of_string (dbPlacementStatus_getString v) = v"
  unfolding dbPlacementStatus_of_string_def
  by (rule lookup_roundtrip) (simp add: no_lower_def char_no_lower_def,
    (cases v; simp add: no_lower_def char_no_lower_def), (cases v; simp))

lemma dbMasterType_roundtrip [simp]: "dbMasterType_of_string (dbMasterType_getString v) = v"
  unfolding dbMasterType_of_string_def
  by (rule lookup_roundtrip) (simp add: no_lower_def char_no_lower_def,
    (cases v; simp add: no_lower_def char_no_lower_def), (cases v; simp))

lemma dbTechLayerDir_roundtrip [simp]: "dbTechLayerDir_of_string (dbTechLayerDir_getString v) = v"
  unfolding dbTechLayerDir_of_string_def
  by (rule lookup_roundtrip) (simp add: no_lower_def char_no_lower_def,
    (cases v; simp add: no_lower_def char_no_lower_def), (cases v; simp))

lemma dbTechLayerMinStepType_roundtrip [simp]: "dbTechLayerMinStepType_of_string (dbTechLayerMinStepType_getString v) = v"
  unfolding dbTechLayerMinStepType_of_string_def
  by (rule lookup_roundtrip) (simp add: no_lower_def char_no_lower_def,
    (cases v; simp add: no_lower_def char_no_lower_def), (cases v; simp))

lemma dbBoxOwner_roundtrip [simp]: "dbBoxOwner_of_string (dbBoxOwner_getString v) = v"
  unfolding dbBoxOwner_of_string_def
  by (rule lookup_roundtrip) (simp add: no_lower_def char_no_lower_def,
    (cases v; simp add: no_lower_def char_no_lower_def), (cases v; simp))

lemma dbPolygonOwner_roundtrip [simp]: "dbPolygonOwner_of_string (dbPolygonOwner_getString v) = v"
  unfolding dbPolygonOwner_of_string_def
  by (rule lookup_roundtrip) (simp add: no_lower_def char_no_lower_def,
    (cases v; simp add: no_lower_def char_no_lower_def), (cases v; simp))

lemma dbWireType_roundtrip [simp]: "dbWireType_of_string (dbWireType_getString v) = v"
  unfolding dbWireType_of_string_def
  by (rule lookup_roundtrip) (simp add: no_lower_def char_no_lower_def,
    (cases v; simp add: no_lower_def char_no_lower_def), (cases v; simp))

lemma dbWireShapeType_roundtrip [simp]: "dbWireShapeType_of_string (dbWireShapeType_getString v) = v"
  unfolding dbWireShapeType_of_string_def
  by (rule lookup_roundtrip) (simp add: no_lower_def char_no_lower_def,
    (cases v; simp add: no_lower_def char_no_lower_def), (cases v; simp))

lemma dbSiteClass_roundtrip [simp]: "dbSiteClass_of_string (dbSiteClass_getString v) = v"
  unfolding dbSiteClass_of_string_def
  by (rule lookup_roundtrip) (simp add: no_lower_def char_no_lower_def,
    (cases v; simp add: no_lower_def char_no_lower_def), (cases v; simp))

lemma dbOnOffType_roundtrip [simp]: "dbOnOffType_of_string (dbOnOffType_getString v) = v"
  unfolding dbOnOffType_of_string_def
  by (rule lookup_roundtrip) (simp add: no_lower_def char_no_lower_def,
    (cases v; simp add: no_lower_def char_no_lower_def), (cases v; simp))

lemma dbClMeasureType_roundtrip [simp]: "dbClMeasureType_of_string (dbClMeasureType_getString v) = v"
  unfolding dbClMeasureType_of_string_def
  by (rule lookup_roundtrip) (simp add: no_lower_def char_no_lower_def,
    (cases v; simp add: no_lower_def char_no_lower_def), (cases v; simp))

lemma dbRowDir_roundtrip [simp]: "dbRowDir_of_string (dbRowDir_getString v) = v"
  unfolding dbRowDir_of_string_def
  by (rule lookup_roundtrip) (simp add: no_lower_def char_no_lower_def,
    (cases v; simp add: no_lower_def char_no_lower_def), (cases v; simp))

lemma dbRegionType_roundtrip [simp]: "dbRegionType_of_string (dbRegionType_getString v) = v"
  unfolding dbRegionType_of_string_def
  by (rule lookup_roundtrip) (simp add: no_lower_def char_no_lower_def,
    (cases v; simp add: no_lower_def char_no_lower_def), (cases v; simp))

lemma dbSourceType_roundtrip [simp]: "dbSourceType_of_string (dbSourceType_getString v) = v"
  unfolding dbSourceType_of_string_def
  by (rule lookup_roundtrip) (simp add: no_lower_def char_no_lower_def,
    (cases v; simp add: no_lower_def char_no_lower_def), (cases v; simp))

lemma dbJournalEntryType_roundtrip [simp]: "dbJournalEntryType_of_string (dbJournalEntryType_getString v) = v"
  unfolding dbJournalEntryType_of_string_def
  by (rule lookup_roundtrip) (simp add: no_lower_def char_no_lower_def,
    (cases v; simp add: no_lower_def char_no_lower_def), (cases v; simp))

lemma dbDirection_roundtrip [simp]: "dbDirection_of_string (dbDirection_getString v) = v"
  unfolding dbDirection_of_string_def
  by (rule lookup_roundtrip) (simp add: no_lower_def char_no_lower_def,
    (cases v; simp add: no_lower_def char_no_lower_def), (cases v; simp))

lemma dbMTermShapeType_roundtrip [simp]: "dbMTermShapeType_of_string (dbMTermShapeType_getString v) = v"
  unfolding dbMTermShapeType_of_string_def
  by (rule lookup_roundtrip) (simp add: no_lower_def char_no_lower_def,
    (cases v; simp add: no_lower_def char_no_lower_def), (cases v; simp))

lemma dbAccessType_roundtrip [simp]: "dbAccessType_of_string (dbAccessType_getString v) = v"
  by (induct v; code_simp)

section \<open>Properties\<close>

text \<open>
  Enumeration values survive printing and parsing.  For each of these types the constructor
  from a string reads back what \<open>getString\<close> prints.
\<close>

theorem types_roundtrip:
  "dbOrientType_fromString (dbOrientType_getString o1) = Some o1 \<and>
   dbPlacementStatus_of_string (dbPlacementStatus_getString ps) = ps \<and>
   dbSigType_of_string (dbSigType_getString sg) = sg \<and>
   dbIoType_of_string (dbIoType_getString io) = io \<and>
   dbMasterType_of_string (dbMasterType_getString mt) = mt \<and>
   dbTechLayerDir_of_string (dbTechLayerDir_getString ld) = ld \<and>
   dbWireType_of_string (dbWireType_getString wt) = wt \<and>
   dbWireShapeType_of_string (dbWireShapeType_getString ws) = ws \<and>
   dbSourceType_of_string (dbSourceType_getString so) = so \<and>
   dbRowDir_of_string (dbRowDir_getString rd) = rd \<and>
   dbRegionType_of_string (dbRegionType_getString rt) = rt \<and>
   dbGroupType_of_string (dbGroupType_getString gt) = gt \<and>
   dbBoxOwner_of_string (dbBoxOwner_getString bo) = bo \<and>
   dbSiteClass_of_string (dbSiteClass_getString sc) = sc \<and>
   dbJournalEntryType_of_string (dbJournalEntryType_getString je) = je \<and>
   dbMTermShapeType_of_string (dbMTermShapeType_getString ms) = ms \<and>
   dbAccessType_of_string (dbAccessType_getString ac) = ac"
  by simp

text \<open>
  Names are read without regard to case.  Two strings equal up to ASCII case give the same
  orientation, placement status, signal type and source type; a string that no name matches
  gives the default (\<open>R0\<close>, \<open>NONE\<close>).
\<close>

theorem names_ignore_case:
  assumes "strcaseeq a b"
  shows "dbOrientType_of_string a = dbOrientType_of_string b \<and>
    dbPlacementStatus_of_string a = dbPlacementStatus_of_string b \<and>
    dbSigType_of_string a = dbSigType_of_string b \<and> dbSourceType_of_string a = dbSourceType_of_string b"
  unfolding dbOrientType_of_string_def dbOrientType_fromString_def dbPlacementStatus_of_string_def
    dbSigType_of_string_def dbSourceType_of_string_def
  by (simp only: name_lookup_cong [OF assms] name_find_cong [OF assms] simp_thms)

theorem names_ignore_case_witness:
  "dbOrientType_of_string ''mxr90'' = OrientType_MXR90 \<and> dbOrientType_of_string ''270'' = OrientType_R0"
proof -
  have "strcaseeq ''mxr90'' ''MXR90''" by code_simp
  note same = names_ignore_case [OF this, THEN conjunct1]
  have "dbOrientType_of_string ''MXR90'' = OrientType_MXR90" "dbOrientType_of_string ''270'' = OrientType_R0"
    by code_simp+
  then show ?thesis by (simp only: same simp_thms)
qed

end
