(* ===== verification/OdbTransform.thy ===== *)
theory OdbTransform imports OdbTypes OdbGeom begin

text \<open>
  \<open>dbTransform\<close>: an orientation followed by an offset, the placement of a cell in its
  parent.  Application to points and rectangles, composition by the table \<open>orientMul\<close>,
  inversion, and its clients: the transform of an instance seen from the top of the
  hierarchy (\<open>dbInst::getHierTransform\<close>) and the stack of \<open>dbHierInstShapeItr\<close>.
\<close>

section \<open>The operations\<close>

record dbTransform =
  orient :: dbOrientType
  offset :: Point

definition transform_default :: dbTransform where
  "transform_default = \<lparr>orient = OrientType_R0, offset = Point 0 0\<rparr>"

text \<open>The table, row by row; the columns are in the order of the enumeration.\<close>

definition orient_index :: "dbOrientType \<Rightarrow> nat" where
  "orient_index v = (case v of
     OrientType_R0 \<Rightarrow> 0 | OrientType_R90 \<Rightarrow> 1 | OrientType_R180 \<Rightarrow> 2 | OrientType_R270 \<Rightarrow> 3
   | OrientType_MY \<Rightarrow> 4 | OrientType_MYR90 \<Rightarrow> 5 | OrientType_MX \<Rightarrow> 6 | OrientType_MXR90 \<Rightarrow> 7)"

definition orientMul :: "dbOrientType list list" where
  "orientMul =
    [[OrientType_R0, OrientType_R90, OrientType_R180, OrientType_R270,
      OrientType_MY, OrientType_MYR90, OrientType_MX, OrientType_MXR90],
     [OrientType_R90, OrientType_R180, OrientType_R270, OrientType_R0,
      OrientType_MXR90, OrientType_MY, OrientType_MYR90, OrientType_MX],
     [OrientType_R180, OrientType_R270, OrientType_R0, OrientType_R90,
      OrientType_MX, OrientType_MXR90, OrientType_MY, OrientType_MYR90],
     [OrientType_R270, OrientType_R0, OrientType_R90, OrientType_R180,
      OrientType_MYR90, OrientType_MX, OrientType_MXR90, OrientType_MY],
     [OrientType_MY, OrientType_MYR90, OrientType_MX, OrientType_MXR90,
      OrientType_R0, OrientType_R90, OrientType_R180, OrientType_R270],
     [OrientType_MYR90, OrientType_MX, OrientType_MXR90, OrientType_MY,
      OrientType_R270, OrientType_R0, OrientType_R90, OrientType_R180],
     [OrientType_MX, OrientType_MXR90, OrientType_MY, OrientType_MYR90,
      OrientType_R180, OrientType_R270, OrientType_R0, OrientType_R90],
     [OrientType_MXR90, OrientType_MY, OrientType_MYR90, OrientType_MX,
      OrientType_R90, OrientType_R180, OrientType_R270, OrientType_R0]]"

definition orient_mul :: "dbOrientType \<Rightarrow> dbOrientType \<Rightarrow> dbOrientType" where
  "orient_mul a b = orientMul ! orient_index a ! orient_index b"

text \<open>The effect of an orientation on a point, the switch of \<open>apply(Point&)\<close>.\<close>

primrec orient_point :: "dbOrientType \<Rightarrow> Point \<Rightarrow> Point" where
  "orient_point OrientType_R0 p = p"
| "orient_point OrientType_R90 p = rotate90 p"
| "orient_point OrientType_R180 p = rotate180 p"
| "orient_point OrientType_R270 p = rotate270 p"
| "orient_point OrientType_MY p = Point (- pt_x p) (pt_y p)"
| "orient_point OrientType_MYR90 p = rotate90 (Point (- pt_x p) (pt_y p))"
| "orient_point OrientType_MX p = Point (pt_x p) (- pt_y p)"
| "orient_point OrientType_MXR90 p = rotate90 (Point (pt_x p) (- pt_y p))"

definition transform_apply :: "dbTransform \<Rightarrow> Point \<Rightarrow> Point" where
  "transform_apply t p =
     (let q = orient_point (orient t) p
      in Point (pt_x q + pt_x (offset t)) (pt_y q + pt_y (offset t)))"

definition transform_apply_rect :: "dbTransform \<Rightarrow> Rect \<Rightarrow> Rect" where
  "transform_apply_rect t r =
     (let ll = transform_apply t (rect_ll r); ur = transform_apply t (rect_ur r)
      in rect_init (pt_x ll) (pt_y ll) (pt_x ur) (pt_y ur))"

text \<open>
  \<open>apply(Polygon&)\<close> maps the points and stores them with \<open>Polygon::setPoints\<close>, which hands
  them to \<open>boost::geometry::correct\<close>; that function is not part of the repository and is
  the parameter \<open>correct\<close>.
\<close>

definition transform_apply_polygon ::
    "(Point list \<Rightarrow> Point list) \<Rightarrow> dbTransform \<Rightarrow> Point list \<Rightarrow> Point list" where
  "transform_apply_polygon correct t points = correct (map (transform_apply t) points)"

text \<open>\<open>a.concat(b)\<close>: first \<open>a\<close>, then \<open>b\<close>.\<close>

definition transform_concat :: "dbTransform \<Rightarrow> dbTransform \<Rightarrow> dbTransform" where
  "transform_concat s t =
     \<lparr>orient = orient_mul (orient s) (orient t), offset = transform_apply t (offset s)\<rparr>"

primrec orient_inv :: "dbOrientType \<Rightarrow> Point \<Rightarrow> dbOrientType \<times> Point" where
  "orient_inv OrientType_R0 off = (OrientType_R0, off)"
| "orient_inv OrientType_R90 off = (OrientType_R270, rotate270 off)"
| "orient_inv OrientType_R180 off = (OrientType_R180, rotate180 off)"
| "orient_inv OrientType_R270 off = (OrientType_R90, rotate90 off)"
| "orient_inv OrientType_MY off = (OrientType_MY, Point (- pt_x off) (pt_y off))"
| "orient_inv OrientType_MYR90 off = (OrientType_MYR90, rotate90 (Point (- pt_x off) (pt_y off)))"
| "orient_inv OrientType_MX off = (OrientType_MX, Point (pt_x off) (- pt_y off))"
| "orient_inv OrientType_MXR90 off = (OrientType_MXR90, rotate90 (Point (pt_x off) (- pt_y off)))"

definition transform_invert :: "dbTransform \<Rightarrow> dbTransform" where
  "transform_invert t =
     (let off = Point (- pt_x (offset t)) (- pt_y (offset t));
          r = orient_inv (orient t) off
      in \<lparr>orient = fst r, offset = snd r\<rparr>)"

section \<open>The interface: transforms act on points\<close>

text \<open>
  What the clients rely on: \<open>concat\<close> composes, \<open>invert\<close> undoes, and a transform is
  determined by what it does to points.  Everything a group action gives follows.
\<close>

locale point_action =
  fixes act :: "'t \<Rightarrow> 'p \<Rightarrow> 'p"
    and cat :: "'t \<Rightarrow> 't \<Rightarrow> 't"
    and unit :: 't
    and inv :: "'t \<Rightarrow> 't"
  assumes act_cat: "act (cat s t) p = act t (act s p)"
    and act_unit: "act unit p = p"
    and act_inv: "act (inv t) (act t p) = p"
    and faithful: "(\<And>p. act s p = act t p) \<Longrightarrow> s = t"
begin

lemma cat_assoc: "cat (cat r s) t = cat r (cat s t)"
  by (rule faithful) (simp add: act_cat)

lemma cat_unit_left: "cat unit t = t"
  by (rule faithful) (simp add: act_cat act_unit)

lemma cat_unit_right: "cat t unit = t"
  by (rule faithful) (simp add: act_cat act_unit)

lemma cat_inv_right: "cat t (inv t) = unit"
  by (rule faithful) (simp add: act_cat act_unit act_inv)

lemma act_inv_right: "act t (act (inv t) p) = p"
proof -
  have "cat (inv t) (inv (inv t)) = unit" by (rule cat_inv_right)
  then have "cat (inv t) t = unit"
    by (metis cat_assoc cat_inv_right cat_unit_left cat_unit_right)
  then show ?thesis by (metis act_cat act_unit)
qed

lemma cat_inv_left: "cat (inv t) t = unit"
  by (rule faithful) (simp add: act_cat act_unit act_inv_right)

lemma inv_inv: "inv (inv t) = t"
  by (rule faithful) (metis act_inv act_inv_right)

lemma inv_cat: "inv (cat s t) = cat (inv t) (inv s)"
  by (rule faithful) (metis act_cat act_inv act_inv_right)

lemma cat_cancel: "cat s t = cat s u \<Longrightarrow> t = u"
  by (metis cat_assoc cat_inv_left cat_unit_left)

lemma act_fold: "act (fold (\<lambda>t acc. cat acc t) ts s) p = fold act ts (act s p)"
  by (induction ts arbitrary: s) (simp_all add: act_cat)

lemma act_inj: "act t p = act t q \<longleftrightarrow> p = q"
  by (metis act_inv)

end

lemma orient_mul_point: "orient_point (orient_mul a b) p = orient_point b (orient_point a p)"
  by (cases a; cases b) (simp_all add: orient_mul_def orientMul_def orient_index_def geom_defs)

lemma orient_point_linear:
  "orient_point b (Point (pt_x p + pt_x q) (pt_y p + pt_y q)) =
     Point (pt_x (orient_point b p) + pt_x (orient_point b q))
           (pt_y (orient_point b p) + pt_y (orient_point b q))"
  by (cases b) (simp_all add: geom_defs)

lemma orient_inv_point:
  "orient_point (fst (orient_inv a off)) (orient_point a p) = p"
  by (cases a) (simp_all add: geom_defs)

lemma orient_inv_offset:
  "snd (orient_inv a off) = orient_point (fst (orient_inv a off)) off"
  by (cases a) (simp_all add: geom_defs)

lemma transform_apply_concat:
  "transform_apply (transform_concat s t) p = transform_apply t (transform_apply s p)"
  by (simp add: transform_apply_def transform_concat_def orient_mul_point orient_point_linear Let_def)

lemma transform_apply_invert:
  "transform_apply (transform_invert t) (transform_apply t p) = p"
proof -
  let ?o = "Point (- pt_x (offset t)) (- pt_y (offset t))"
  let ?q = "orient_point (orient t) p"
  let ?b = "fst (orient_inv (orient t) ?o)"
  have "transform_apply (transform_invert t) (transform_apply t p)
      = (let z = orient_point ?b (Point (pt_x ?q + pt_x (offset t)) (pt_y ?q + pt_y (offset t)))
         in Point (pt_x z + pt_x (orient_point ?b ?o)) (pt_y z + pt_y (orient_point ?b ?o)))"
    by (simp add: transform_apply_def transform_invert_def orient_inv_offset Let_def)
  also have "\<dots> = orient_point ?b (Point (pt_x (transform_apply t p) + pt_x ?o)
      (pt_y (transform_apply t p) + pt_y ?o))"
    by (simp only: orient_point_linear [of ?b "transform_apply t p" ?o])
      (simp add: transform_apply_def Let_def)
  also have "\<dots> = orient_point ?b ?q"
    by (simp add: transform_apply_def Let_def)
  also have "\<dots> = p" by (rule orient_inv_point)
  finally show ?thesis .
qed

lemma orient_faithful:
  assumes "orient_point a (Point 1 0) = orient_point b (Point 1 0)"
    and "orient_point a (Point 0 1) = orient_point b (Point 0 1)"
  shows "a = b"
  using assms by (cases a; cases b) (simp_all add: geom_defs)

lemma orient_point_origin [simp]: "orient_point a (Point 0 0) = Point 0 0"
  by (cases a) (simp_all add: geom_defs)

lemma transform_faithful:
  assumes eq: "\<And>p. transform_apply s p = transform_apply t p"
  shows "s = t"
proof -
  have off: "offset s = offset t"
    using eq [of "Point 0 0"] by (simp add: transform_apply_def Let_def Point.expand)
  have "orient_point (orient s) p = orient_point (orient t) p" for p
    using eq [of p] off by (simp add: transform_apply_def Let_def Point.expand)
  then have "orient s = orient t" by (intro orient_faithful)
  with off show ?thesis by (cases s; cases t) simp
qed

interpretation xform: point_action transform_apply transform_concat transform_default
    transform_invert
proof unfold_locales
  show "transform_apply transform_default p = p" for p
    by (cases p) (simp add: transform_apply_def transform_default_def)
qed (auto simp: transform_apply_concat transform_apply_invert intro: transform_faithful)

section \<open>Rectangles under a transform\<close>

lemmas xform_defs = transform_apply_def transform_apply_rect_def rect_init_def rect_ll_def
  rect_ur_def rotate90_def rotate180_def rotate270_def Let_def

lemma transform_rect_mem:
  assumes "\<not> isInverted r"
  shows "transform_apply t p \<in> region (transform_apply_rect t r) \<longleftrightarrow> p \<in> region r"
  using assms
  by (cases "orient t") (auto simp: xform_defs in_region isInverted_def min_def max_def)

lemma transform_rect_proper: "\<not> isInverted (transform_apply_rect t r)"
  by (simp add: transform_apply_rect_def rect_init_proper Let_def)

lemma transform_rect_region:
  assumes "\<not> isInverted r"
  shows "region (transform_apply_rect t r) = transform_apply t ` region r"
proof (intro set_eqI iffI)
  fix q assume q: "q \<in> region (transform_apply_rect t r)"
  let ?p = "transform_apply (transform_invert t) q"
  have "transform_apply t ?p = q" by (rule xform.act_inv_right)
  moreover from this q have "?p \<in> region r"
    using transform_rect_mem [OF assms, of t ?p] by simp
  ultimately show "q \<in> transform_apply t ` region r" by (metis image_eqI)
qed (auto simp: transform_rect_mem [OF assms])

lemma transform_rect_dims:
  assumes "\<not> isInverted r"
  shows "rect_dx (transform_apply_rect t r) =
      (if dbOrientType_isRightAngleRotation (orient t) then rect_dy r else rect_dx r) \<and>
    rect_dy (transform_apply_rect t r) =
      (if dbOrientType_isRightAngleRotation (orient t) then rect_dx r else rect_dy r)"
  using assms
  by (cases "orient t")
    (auto simp: xform_defs isInverted_def rect_dx_def rect_dy_def min_def max_def)

lemma transform_rect_area:
  "\<not> isInverted r \<Longrightarrow> rect_area (transform_apply_rect t r) = rect_area r"
  using transform_rect_dims [of r t]
  by (auto simp: rect_area_def chk32_def mult.commute)

lemma transform_rect_contains:
  assumes "\<not> isInverted a" and "\<not> isInverted b"
  shows "contains (transform_apply_rect t a) (transform_apply_rect t b) \<longleftrightarrow> contains a b"
proof -
  have "inj (transform_apply t)" by (rule injI) (simp add: xform.act_inj)
  with assms show ?thesis
    by (simp add: contains_region transform_rect_proper transform_rect_region inj_image_subset_iff)
qed

lemma transform_rect_intersects:
  assumes "\<not> isInverted a" and "\<not> isInverted b"
  shows "intersects (transform_apply_rect t a) (transform_apply_rect t b) \<longleftrightarrow> intersects a b"
proof -
  have "inj (transform_apply t)" by (rule injI) (simp add: xform.act_inj)
  with assms show ?thesis
    by (simp add: intersects_iff transform_rect_proper transform_rect_region image_Int [symmetric])
qed

lemma transform_rect_concat:
  assumes "\<not> isInverted r"
  shows "transform_apply_rect (transform_concat s t) r
    = transform_apply_rect t (transform_apply_rect s r)"
proof (rule contains_antisym)
  have "region (transform_apply_rect (transform_concat s t) r)
      = region (transform_apply_rect t (transform_apply_rect s r))"
    using assms
    by (simp add: transform_rect_region transform_rect_proper image_image transform_apply_concat)
  then show "contains (transform_apply_rect (transform_concat s t) r)
        (transform_apply_rect t (transform_apply_rect s r))"
    and "contains (transform_apply_rect t (transform_apply_rect s r))
        (transform_apply_rect (transform_concat s t) r)"
    by (simp_all add: contains_region transform_rect_proper)
qed

section \<open>Flips are compositions\<close>

lemma flipX_is_mul_MX: "dbOrientType_flipX a = orient_mul a OrientType_MX"
  by (cases a) (simp_all add: orient_mul_def orientMul_def orient_index_def)

lemma flipY_is_mul_MY: "dbOrientType_flipY a = orient_mul a OrientType_MY"
  by (cases a) (simp_all add: orient_mul_def orientMul_def orient_index_def)

section \<open>Hierarchical transforms\<close>

text \<open>
  \<open>getParentTransform\<close> climbs the chain of parent instances; the list holds the transforms
  of the parents, nearest first (empty at the top, where \<open>getParent\<close> is null).
\<close>

fun getParentTransform :: "dbTransform list \<Rightarrow> dbTransform" where
  "getParentTransform [] = transform_default"
| "getParentTransform (parent # outer) =
     (let t = getParentTransform outer in transform_concat parent t)"

definition getHierTransform :: "dbTransform \<Rightarrow> dbTransform list \<Rightarrow> dbTransform" where
  "getHierTransform inst parents =
     (let t = getParentTransform parents in transform_concat inst t)"

text \<open>
  \<open>dbHierInstShapeItr\<close> keeps a stack of transforms while it walks down the hierarchy, the
  current one at the back; \<open>iterate\<close> starts it with the identity.
\<close>

definition shape_itr_start :: "dbTransform list" where
  "shape_itr_start = [transform_default]"

definition push_transform :: "dbTransform list \<Rightarrow> dbTransform \<Rightarrow> dbTransform list" where
  "push_transform ts t = ts @ [transform_concat (last ts) t]"

definition shape_itr_apply :: "dbTransform list \<Rightarrow> Rect \<Rightarrow> Rect" where
  "shape_itr_apply ts r = transform_apply_rect (last ts) r"

lemma parent_transform_fold:
  "transform_apply (getParentTransform ps) p = fold transform_apply ps p"
  by (induction ps arbitrary: p) (simp_all add: xform.act_unit xform.act_cat Let_def)

lemma last_push_transform [simp]: "last (push_transform ts t) = transform_concat (last ts) t"
  by (simp add: push_transform_def)

lemma push_all_last:
  "transform_apply (last (foldl push_transform ts path)) p
    = fold transform_apply path (transform_apply (last ts) p)"
  by (induction path arbitrary: ts) (simp_all add: xform.act_cat)

section \<open>Properties\<close>

text \<open>
  C31: Transforms form a group acting on points.  Concatenation by the table \<open>orientMul\<close> is
  composition (first the left one), it is associative with the default transform as unit, and
  \<open>invert\<close> undoes a transform on both sides and reverses concatenations.
\<close>

theorem transform_group:
  "transform_apply (transform_concat s t) p = transform_apply t (transform_apply s p) \<and>
   transform_concat (transform_concat r s) t = transform_concat r (transform_concat s t) \<and>
   transform_concat transform_default t = t \<and> transform_concat t transform_default = t \<and>
   transform_concat t (transform_invert t) = transform_default \<and>
   transform_concat (transform_invert t) t = transform_default \<and>
   transform_invert (transform_concat s t) = transform_concat (transform_invert t) (transform_invert s)"
  by (intro conjI xform.act_cat xform.cat_assoc xform.cat_unit_left xform.cat_unit_right
      xform.cat_inv_right xform.cat_inv_left xform.inv_cat)

text \<open>
  A transform maps rectangles exactly.  The transformed rectangle is proper and consists of
  the images of the points of the rectangle; its sides are swapped just for the right-angle
  rotations, its area is unchanged, and containment and intersection are preserved.
\<close>

theorem transform_rect_image:
  assumes "\<not> isInverted r" "\<not> isInverted r'"
  shows "region (transform_apply_rect t r) = transform_apply t ` region r \<and>
    \<not> isInverted (transform_apply_rect t r) \<and>
    rect_dx (transform_apply_rect t r) =
      (if dbOrientType_isRightAngleRotation (orient t) then rect_dy r else rect_dx r) \<and>
    rect_area (transform_apply_rect t r) = rect_area r \<and>
    (contains (transform_apply_rect t r) (transform_apply_rect t r') \<longleftrightarrow> contains r r') \<and>
    (intersects (transform_apply_rect t r) (transform_apply_rect t r') \<longleftrightarrow> intersects r r')"
  using assms by (simp add: transform_rect_region transform_rect_proper transform_rect_dims
      transform_rect_area transform_rect_contains transform_rect_intersects)

theorem transform_rect_image_witness:
  "rect_dx (transform_apply_rect \<lparr>orient = OrientType_MXR90, offset = Point 7 8\<rparr> (mk_rect 0 0 30 20)) = 20"
  using transform_rect_image [of "mk_rect 0 0 30 20" "mk_rect 0 0 30 20" "\<lparr>orient = OrientType_MXR90, offset = Point 7 8\<rparr>"]
  by (simp add: isInverted_def rect_dy_def)

text \<open>
  The transform of an instance from the top of the hierarchy.  \<open>getHierTransform\<close> applies the
  transform of the instance first and then those of its parents, from the nearest to the
  outermost.
\<close>

theorem hier_transform_path:
  "transform_apply (getHierTransform inst parents) p = fold transform_apply (inst # parents) p"
  by (simp add: getHierTransform_def parent_transform_fold xform.act_cat Let_def)

text \<open>
  The shape iterator composes in the other order.  \<open>dbHierInstShapeItr\<close> pushes the transform of
  each instance on the way down behind the current one, so a shape is moved by the outermost
  instance first; for an instance inside a rotated instance the rectangle it reports differs
  from that of \<open>getHierTransform\<close>.
\<close>

theorem shape_itr_order:
  "(\<forall>path p. transform_apply (last (foldl push_transform shape_itr_start path)) p = fold transform_apply path p) \<and>
   (let outer = \<lparr>orient = OrientType_R90, offset = Point 0 0\<rparr>;
        inner = \<lparr>orient = OrientType_R0, offset = Point 100 0\<rparr>; r = mk_rect 0 0 10 20
    in transform_apply_rect (getHierTransform inner [outer]) r = mk_rect (- 20) 100 0 110 \<and>
       shape_itr_apply (foldl push_transform shape_itr_start [outer, inner]) r = mk_rect 80 0 100 10)"
proof -
  have "transform_apply (last (foldl push_transform shape_itr_start path)) p = fold transform_apply path p" for path p
    by (simp add: push_all_last shape_itr_start_def xform.act_unit)
  then show ?thesis
    by (simp add: getHierTransform_def shape_itr_apply_def shape_itr_start_def transform_concat_def
        transform_default_def orient_mul_def orientMul_def orient_index_def xform_defs)
qed

end
