(* ===== verification/OdbWire.thy ===== *)
theory OdbWire imports OdbTypes begin

text \<open>
  The encoding of routed wires, \<open>dbWireOpcode.h\<close>: a wire is two parallel arrays, opcode
  bytes (a 5-bit code and 3 flag bits) and integer operands.  \<open>getPrevPoint\<close> walks the
  arrays backwards from an index, through junctions, to the coordinates and the layer that
  hold there; the encoder and the decoder both use it to start a branch.

  Database objects appear by their object id.  \<open>wire_env\<close> is the part of the technology and
  of the block the codec reads: the layers below and above a via.
\<close>

unbundle bit_operations_syntax

section \<open>Opcodes\<close>

abbreviation WOP_PATH :: u8 where "WOP_PATH \<equiv> 0"
abbreviation WOP_SHORT :: u8 where "WOP_SHORT \<equiv> 1"
abbreviation WOP_JUNCTION :: u8 where "WOP_JUNCTION \<equiv> 2"
abbreviation WOP_RULE :: u8 where "WOP_RULE \<equiv> 3"
abbreviation WOP_X :: u8 where "WOP_X \<equiv> 4"
abbreviation WOP_Y :: u8 where "WOP_Y \<equiv> 5"
abbreviation WOP_COLINEAR :: u8 where "WOP_COLINEAR \<equiv> 6"
abbreviation WOP_VIA :: u8 where "WOP_VIA \<equiv> 7"
abbreviation WOP_TECH_VIA :: u8 where "WOP_TECH_VIA \<equiv> 8"
abbreviation WOP_ITERM :: u8 where "WOP_ITERM \<equiv> 9"
abbreviation WOP_BTERM :: u8 where "WOP_BTERM \<equiv> 10"
abbreviation WOP_OPERAND :: u8 where "WOP_OPERAND \<equiv> 11"
abbreviation WOP_PROPERTY :: u8 where "WOP_PROPERTY \<equiv> 12"
abbreviation WOP_VWIRE :: u8 where "WOP_VWIRE \<equiv> 13"
abbreviation WOP_RECT :: u8 where "WOP_RECT \<equiv> 14"
abbreviation WOP_NOP :: u8 where "WOP_NOP \<equiv> 15"
abbreviation WOP_COLOR :: u8 where "WOP_COLOR \<equiv> 16"
abbreviation WOP_VIACOLOR :: u8 where "WOP_VIACOLOR \<equiv> 17"

abbreviation WOP_VIA_EXIT_TOP :: u8 where "WOP_VIA_EXIT_TOP \<equiv> 0x80"
abbreviation WOP_DEFAULT_WIDTH :: u8 where "WOP_DEFAULT_WIDTH \<equiv> 0x40"
abbreviation WOP_EXTENSION :: u8 where "WOP_EXTENSION \<equiv> 0x80"
abbreviation WOP_BLOCK_RULE :: u8 where "WOP_BLOCK_RULE \<equiv> 0x80"

abbreviation WOP_NONE :: u8 where "WOP_NONE \<equiv> 0x00"
abbreviation WOP_COVER :: u8 where "WOP_COVER \<equiv> 0x20"
abbreviation WOP_FIXED :: u8 where "WOP_FIXED \<equiv> 0x40"
abbreviation WOP_ROUTED :: u8 where "WOP_ROUTED \<equiv> 0x60"
abbreviation WOP_NOSHIELD :: u8 where "WOP_NOSHIELD \<equiv> 0x80"

text \<open>\<open>opcode & WOP_OPCODE_MASK\<close>, \<open>opcode & WOP_WIRE_TYPE_MASK\<close> and the flag test.\<close>

definition op_code :: "u8 \<Rightarrow> u8" where
  "op_code opc = opc AND 0x1F"

definition op_wire_type :: "u8 \<Rightarrow> u8" where
  "op_wire_type opc = opc AND 0xE0"

definition op_flag :: "u8 \<Rightarrow> u8 \<Rightarrow> bool" where
  "op_flag opc flag \<longleftrightarrow> opc AND flag \<noteq> 0"

lemma op_evaluate [simp]:
  "op_code 0 = 0" "op_code 1 = 1" "op_code (numeral k) = numeral k AND 0x1F"
  "op_wire_type 0 = 0" "op_wire_type (numeral k) = numeral k AND 0xE0"
  "op_flag 0 g \<longleftrightarrow> False" "op_flag (numeral k) (numeral f) \<longleftrightarrow> numeral k AND (numeral f :: u8) \<noteq> 0"
  by (simp_all add: op_code_def op_wire_type_def op_flag_def)

text \<open>\<open>WOP_NON_DEFAULT_WIDTH_POINT_CNT - 1\<close> as a mask on the point count.\<close>

definition rule_due :: "nat \<Rightarrow> bool" where
  "rule_due cnt \<longleftrightarrow> cnt \<noteq> 0 \<and> cnt AND (16 - 1) = 0"

lemma rule_due_iff: "rule_due cnt \<longleftrightarrow> cnt \<noteq> 0 \<and> 16 dvd cnt"
proof -
  have "cnt AND (16 - 1) = take_bit 4 cnt"
    by (simp add: take_bit_eq_mask mask_eq_exp_minus_1)
  then show ?thesis by (auto simp: rule_due_def take_bit_eq_mod dvd_eq_mod_eq_0)
qed

lemma rule_due_small [simp]: "n < 16 \<Longrightarrow> \<not> rule_due n"
  by (auto simp: rule_due_iff dest: dvd_imp_le)

section \<open>Wires, their environment, errors\<close>

record wire =
  w_data :: "int list"
  w_opcodes :: "u8 list"

record wire_env =
  via_top :: "int \<Rightarrow> int"
  via_bottom :: "int \<Rightarrow> int"
  techvia_top :: "int \<Rightarrow> int"
  techvia_bottom :: "int \<Rightarrow> int"

text \<open>
  A failed assertion, an index outside an array, a mask colour that is rejected
  (\<open>logger->error\<close> throws), or a walk that does not end.
\<close>

datatype wire_error =
    NegativeIndex
  | OutOfBounds
  | NonOrthogonalSegment
  | ColinearExtRule1
  | ColinearExtRule2
  | NoPointYet
  | InvalidViaLayer
  | BadJunction
  | InvalidOpcode
  | InvalidOpcodeSequence
  | WrongOpcode
  | MaskColorError u8
  | ViaMaskColorError u8
  | NoReturn

section \<open>getPrevPoint\<close>

record WirePoint =
  wp_x :: int
  wp_y :: int
  wp_layer :: int

definition wp_zero :: WirePoint where
  "wp_zero = \<lparr>wp_x = 0, wp_y = 0, wp_layer = 0\<rparr>"

text \<open>
  One turn of the walk, with the flags \<open>look_for_x\<close>, \<open>look_for_y\<close> and \<open>get_layer\<close> as
  arguments: it reads one opcode, may record a value and return, and goes on one position
  lower, or at the position a junction names.
\<close>

datatype walk_step =
    Return "wire_error + WirePoint"
  | PrevOpCode int bool bool bool WirePoint

definition prev_layer :: "int \<Rightarrow> int \<Rightarrow> bool \<Rightarrow> bool \<Rightarrow> bool \<Rightarrow> WirePoint \<Rightarrow> walk_step" where
  "prev_layer layer idx get_layer look_x look_y pnt =
     (if get_layer
      then if \<not> look_x \<and> \<not> look_y then Return (Inr (pnt\<lparr>wp_layer := layer\<rparr>))
           else PrevOpCode (idx - 1) False look_x look_y (pnt\<lparr>wp_layer := layer\<rparr>)
      else PrevOpCode (idx - 1) get_layer look_x look_y pnt)"

definition prev_step ::
    "wire_env \<Rightarrow> u8 list \<Rightarrow> int list \<Rightarrow> int \<Rightarrow> bool \<Rightarrow> bool \<Rightarrow> bool \<Rightarrow> WirePoint \<Rightarrow> walk_step" where
  "prev_step E opcodes data idx get_layer look_x look_y pnt =
     (if idx < 0 then Return (Inl NegativeIndex)
      else if int (length opcodes) \<le> idx \<or> int (length data) \<le> idx then Return (Inl OutOfBounds)
      else
        (let opcode = opcodes ! nat idx; operand = data ! nat idx in
         if op_code opcode = WOP_PATH \<or> op_code opcode = WOP_SHORT
         then prev_layer operand idx get_layer look_x look_y pnt
         else if op_code opcode = WOP_JUNCTION then PrevOpCode operand get_layer look_x look_y pnt
         else if op_code opcode = WOP_X then
           (if look_x
            then if \<not> look_y \<and> \<not> get_layer then Return (Inr (pnt\<lparr>wp_x := operand\<rparr>))
                 else PrevOpCode (idx - 1) get_layer False look_y (pnt\<lparr>wp_x := operand\<rparr>)
            else PrevOpCode (idx - 1) get_layer look_x look_y pnt)
         else if op_code opcode = WOP_Y then
           (if look_y
            then if \<not> look_x \<and> \<not> get_layer then Return (Inr (pnt\<lparr>wp_y := operand\<rparr>))
                 else PrevOpCode (idx - 1) get_layer look_x False (pnt\<lparr>wp_y := operand\<rparr>)
            else PrevOpCode (idx - 1) get_layer look_x look_y pnt)
         else if op_code opcode = WOP_VIA then
           prev_layer (if op_flag opcode WOP_VIA_EXIT_TOP then via_top E operand
                       else via_bottom E operand)
             idx get_layer look_x look_y pnt
         else if op_code opcode = WOP_TECH_VIA then
           prev_layer (if op_flag opcode WOP_VIA_EXIT_TOP then techvia_top E operand
                       else techvia_bottom E operand)
             idx get_layer look_x look_y pnt
         else PrevOpCode (idx - 1) get_layer look_x look_y pnt))"

text \<open>The loop; \<open>None\<close> is a walk that never ends.\<close>

partial_function (option) prevWalk ::
    "wire_env \<Rightarrow> u8 list \<Rightarrow> int list \<Rightarrow> int \<Rightarrow> bool \<Rightarrow> bool \<Rightarrow> bool \<Rightarrow> WirePoint
      \<Rightarrow> (wire_error + WirePoint) option" where
  "prevWalk E opcodes data idx get_layer look_x look_y pnt =
     (case prev_step E opcodes data idx get_layer look_x look_y pnt of
        Return r \<Rightarrow> Some r
      | PrevOpCode idx' get_layer' look_x' look_y' pnt' \<Rightarrow>
          prevWalk E opcodes data idx' get_layer' look_x' look_y' pnt')"

definition getPrevPoint ::
    "wire_env \<Rightarrow> u8 list \<Rightarrow> int list \<Rightarrow> int \<Rightarrow> bool \<Rightarrow> wire_error + WirePoint" where
  "getPrevPoint E opcodes data idx get_layer =
     (case prevWalk E opcodes data idx get_layer True True wp_zero of
        None \<Rightarrow> Inl NoReturn
      | Some r \<Rightarrow> r)"

section \<open>The walk on longer arrays, and its end\<close>

lemma prev_step_append:
  assumes "length opcodes = length data"
      and "prev_step E opcodes data idx gl lx ly pnt \<noteq> Return (Inl OutOfBounds)"
  shows "prev_step E (opcodes @ ops') (data @ data') idx gl lx ly pnt
         = prev_step E opcodes data idx gl lx ly pnt"
proof (cases "0 \<le> idx \<and> idx < int (length opcodes)")
  case True
  then have "nat idx < length opcodes" "nat idx < length data" using assms(1) by auto
  then have "(opcodes @ ops') ! nat idx = opcodes ! nat idx" "(data @ data') ! nat idx = data ! nat idx"
    by (simp_all add: nth_append)
  with True assms(1) show ?thesis by (simp add: prev_step_def)
next
  case False
  with assms show ?thesis by (auto simp: prev_step_def)
qed

lemma prevWalk_append:
  assumes "prevWalk E opcodes data idx gl lx ly pnt = Some r" "r \<noteq> Inl OutOfBounds"
      and "length opcodes = length data"
  shows "prevWalk E (opcodes @ ops') (data @ data') idx gl lx ly pnt = Some r"
proof -
  have "r \<noteq> Inl OutOfBounds \<longrightarrow> length opcodes = length data \<longrightarrow>
        prevWalk E (opcodes @ ops') (data @ data') idx gl lx ly pnt = Some r"
  proof (rule prevWalk.raw_induct [where P = "\<lambda>E opcodes data idx gl lx ly pnt r.
      r \<noteq> Inl OutOfBounds \<longrightarrow> length opcodes = length data \<longrightarrow>
      prevWalk E (opcodes @ ops') (data @ data') idx gl lx ly pnt = Some r", OF _ assms(1)])
    fix walk E opcodes data idx gl lx ly pnt r
    assume ih: "\<And>E opcodes data idx gl lx ly pnt r. walk E opcodes data idx gl lx ly pnt = Some r \<Longrightarrow>
        r \<noteq> Inl OutOfBounds \<longrightarrow> length opcodes = length data \<longrightarrow>
        prevWalk E (opcodes @ ops') (data @ data') idx gl lx ly pnt = Some r"
      and step: "(case prev_step E opcodes data idx gl lx ly pnt of Return r \<Rightarrow> Some r
        | PrevOpCode i g x y p \<Rightarrow> walk E opcodes data i g x y p) = Some r"
    show "r \<noteq> Inl OutOfBounds \<longrightarrow> length opcodes = length data \<longrightarrow>
        prevWalk E (opcodes @ ops') (data @ data') idx gl lx ly pnt = Some r"
      using step prev_step_append [of opcodes data E idx gl lx ly pnt ops' data']
      by (subst prevWalk.simps) (auto split: walk_step.splits dest!: ih)
  qed
  with assms show ?thesis by blast
qed

lemma getPrevPoint_append:
  assumes "getPrevPoint E opcodes data idx gl = Inr p" "length opcodes = length data"
  shows "getPrevPoint E (opcodes @ ops') (data @ data') idx gl = Inr p"
  using assms prevWalk_append [of E opcodes data idx gl True True wp_zero "Inr p" ops' data']
  by (auto simp: getPrevPoint_def split: option.splits)

text \<open>Junctions that point backwards, which the encoder guarantees, make every walk end.\<close>

definition junctions_back :: "u8 list \<Rightarrow> int list \<Rightarrow> bool" where
  "junctions_back opcodes data \<longleftrightarrow>
     (\<forall>i < length opcodes. op_code (opcodes ! i) = WOP_JUNCTION \<longrightarrow>
        0 \<le> data ! i \<and> data ! i < int i)"

lemma prev_step_lower:
  assumes "junctions_back opcodes data"
      and "prev_step E opcodes data idx gl lx ly pnt = PrevOpCode i g x y p"
  shows "0 \<le> idx \<and> idx < int (length opcodes) \<and> i < idx \<and> - 1 \<le> i"
proof -
  have b: "0 \<le> idx" "idx < int (length opcodes)"
    using assms(2) by (auto simp: prev_step_def split: if_splits)
  then have "op_code (opcodes ! nat idx) = WOP_JUNCTION \<longrightarrow> 0 \<le> data ! nat idx \<and> data ! nat idx < idx"
    using assms(1) unfolding junctions_back_def by (metis nat_0_le nat_less_iff)
  with assms(2) b show ?thesis
    by (auto simp: prev_step_def prev_layer_def Let_def split: if_splits)
qed

lemma prevWalk_returns:
  assumes "junctions_back opcodes data"
  shows "\<exists>r. prevWalk E opcodes data idx gl lx ly pnt = Some r"
proof (induction "nat (idx + 1)" arbitrary: idx gl lx ly pnt rule: less_induct)
  case less
  show ?case
  proof (cases "prev_step E opcodes data idx gl lx ly pnt")
    case (Return r)
    then show ?thesis by (subst prevWalk.simps) simp
  next
    case (PrevOpCode i g x y p)
    with prev_step_lower [OF assms PrevOpCode] less [of i g x y p] show ?thesis
      by (subst prevWalk.simps) simp
  qed
qed

lemma prevWalk_no_NoReturn:
  assumes "prevWalk E opcodes data idx gl lx ly pnt = Some r"
  shows "r \<noteq> Inl NoReturn"
proof (rule prevWalk.raw_induct [where P = "\<lambda>E opcodes data idx gl lx ly pnt r. r \<noteq> Inl NoReturn", OF _ assms])
  fix walk E opcodes data idx gl lx ly pnt r
  assume "\<And>E opcodes data idx gl lx ly pnt r.
            walk E opcodes data idx gl lx ly pnt = Some r \<Longrightarrow> r \<noteq> Inl NoReturn"
    and "(case prev_step E opcodes data idx gl lx ly pnt of Return r \<Rightarrow> Some r
        | PrevOpCode i g x y p \<Rightarrow> walk E opcodes data i g x y p) = Some r"
  then show "r \<noteq> Inl NoReturn"
    by (auto simp: prev_step_def prev_layer_def Let_def split: walk_step.splits if_splits)
qed

lemma getPrevPoint_returns:
  "junctions_back opcodes data \<Longrightarrow> getPrevPoint E opcodes data idx gl \<noteq> Inl NoReturn"
  using prevWalk_returns [of opcodes data E idx gl True True wp_zero]
  by (auto simp: getPrevPoint_def dest: prevWalk_no_NoReturn)

lemma junctions_back_append:
  assumes "junctions_back ops data" "length ops = length data"
  shows "junctions_back (ops @ [opc]) (data @ [v]) \<longleftrightarrow>
         (op_code opc = WOP_JUNCTION \<longrightarrow> 0 \<le> v \<and> v < int (length ops))"
  using assms by (auto simp: junctions_back_def nth_append less_Suc_eq)

end
