(* ===== verification/OdbWireEncoder.thy ===== *)
theory OdbWireEncoder imports OdbWire begin

text \<open>
  \<open>dbWireEncoder\<close> (\<open>dbWireCodec.cpp\<close>): the encoder's fields as a record and one definition
  per member function.  A failed \<open>ZASSERT\<close> and a rejected mask colour are the error values
  of \<open>wire_error\<close>; a function that returns a junction id returns it beside the new state.
  Layers, vias, terminals and rules are their object ids, the null layer is 0.
\<close>

section \<open>State\<close>

record layer_rule =
  rule_oid :: int
  is_block_rule :: bool

record encoder =
  enc_data :: "int list"
  enc_opcodes :: "u8 list"
  enc_layer :: int
  enc_idx :: int
  enc_x :: int
  enc_y :: int
  enc_non_default_rule :: int
  enc_point_cnt :: nat
  enc_via_cnt :: nat
  enc_prev_ext :: bool
  enc_wire_type :: u8
  enc_rule_opcode :: u8

definition enc_new :: encoder where [enc_defs]:
  "enc_new = \<lparr>enc_data = [], enc_opcodes = [], enc_layer = 0, enc_idx = 0, enc_x = 0, enc_y = 0,
     enc_non_default_rule = 0, enc_point_cnt = 0, enc_via_cnt = 0, enc_prev_ext = False,
     enc_wire_type = 0, enc_rule_opcode = 0\<rparr>"

definition addOp :: "u8 \<Rightarrow> int \<Rightarrow> encoder \<Rightarrow> encoder" where [enc_defs]:
  "addOp opc v e = e\<lparr>enc_data := enc_data e @ [v], enc_opcodes := enc_opcodes e @ [opc],
     enc_idx := enc_idx e + 1\<rparr>"

text \<open>The default branch (\<open>SHIELD\<close>) assigns the member \<open>_wire_type\<close>, not the local.\<close>

definition enc_getWireType :: "dbWireType \<Rightarrow> encoder \<Rightarrow> encoder \<times> u8" where [enc_defs]:
  "enc_getWireType type e = (case type of
       WireType_NONE \<Rightarrow> (e, WOP_NONE)
     | WireType_COVER \<Rightarrow> (e, WOP_COVER)
     | WireType_FIXED \<Rightarrow> (e, WOP_FIXED)
     | WireType_ROUTED \<Rightarrow> (e, WOP_ROUTED)
     | WireType_NOSHIELD \<Rightarrow> (e, WOP_NOSHIELD)
     | WireType_SHIELD \<Rightarrow> (e\<lparr>enc_wire_type := WOP_NONE\<rparr>, 0))"

definition initPath :: "int \<Rightarrow> u8 \<Rightarrow> encoder \<Rightarrow> encoder" where [enc_defs]:
  "initPath layer wire_type e = e\<lparr>enc_wire_type := wire_type, enc_point_cnt := 0, enc_via_cnt := 0,
     enc_layer := layer, enc_non_default_rule := 0, enc_rule_opcode := 0, enc_prev_ext := False\<rparr>"

definition initPath_rule :: "int \<Rightarrow> u8 \<Rightarrow> layer_rule \<Rightarrow> encoder \<Rightarrow> encoder" where [enc_defs]:
  "initPath_rule layer wire_type rule e = e\<lparr>enc_wire_type := wire_type, enc_point_cnt := 0,
     enc_via_cnt := 0, enc_layer := layer, enc_non_default_rule := rule_oid rule,
     enc_rule_opcode := (if is_block_rule rule then WOP_RULE OR WOP_BLOCK_RULE else WOP_RULE),
     enc_prev_ext := False, enc_x := 0, enc_y := 0\<rparr>"

definition initPath_type :: "int \<Rightarrow> dbWireType \<Rightarrow> encoder \<Rightarrow> encoder" where [enc_defs]:
  "initPath_type layer type e = (let (e, bits) = enc_getWireType type e in initPath layer bits e)"

definition initPath_type_rule :: "int \<Rightarrow> dbWireType \<Rightarrow> layer_rule \<Rightarrow> encoder \<Rightarrow> encoder" where [enc_defs]:
  "initPath_type_rule layer type rule e =
     (let (e, bits) = enc_getWireType type e in initPath_rule layer bits rule e)"

definition enc_clear :: "encoder \<Rightarrow> encoder" where [enc_defs]:
  "enc_clear e = e\<lparr>enc_data := [], enc_opcodes := [], enc_layer := 0, enc_idx := 0, enc_x := 0,
     enc_y := 0, enc_non_default_rule := 0, enc_rule_opcode := 0, enc_point_cnt := 0,
     enc_via_cnt := 0, enc_prev_ext := False\<rparr>"

text \<open>The wire, its block and its technology are the parameter \<open>wire_env\<close> of the operations.\<close>

definition enc_begin :: "encoder \<Rightarrow> encoder" where [enc_defs]:
  "enc_begin e = enc_clear e"

definition enc_append :: "wire \<Rightarrow> encoder \<Rightarrow> encoder" where [enc_defs]:
  "enc_append w e = e\<lparr>enc_data := w_data w, enc_opcodes := w_opcodes w, enc_layer := 0,
     enc_idx := int (length (w_data w)), enc_x := 0, enc_y := 0, enc_non_default_rule := 0,
     enc_rule_opcode := 0, enc_point_cnt := 0, enc_via_cnt := 0, enc_prev_ext := False\<rparr>"

text \<open>\<open>end\<close> stores the arrays in the wire, unless nothing was encoded.\<close>

definition enc_end :: "wire \<Rightarrow> encoder \<Rightarrow> wire \<times> encoder" where [enc_defs]:
  "enc_end w e = (if enc_opcodes e = [] then (w, e)
     else (w\<lparr>w_data := enc_data e, w_opcodes := enc_opcodes e\<rparr>, e\<lparr>enc_point_cnt := 0\<rparr>))"

section \<open>Points\<close>

text \<open>
  The two halves of \<open>addPoint\<close> differ in the flag \<open>WOP_DEFAULT_WIDTH\<close> of the opcodes, the
  argument \<open>width\<close> here, and in the rule opcode the second half adds.
\<close>

definition point_ops :: "u8 \<Rightarrow> int \<Rightarrow> int \<Rightarrow> int \<Rightarrow> encoder \<Rightarrow> wire_error + int \<times> encoder" where [enc_defs]:
  "point_ops width x y jct_id e =
     (if enc_point_cnt e = 0 then
        Inr (jct_id + 1,
          (addOp (WOP_Y OR width) y (addOp (WOP_X OR width) x e))
            \<lparr>enc_x := x, enc_y := y, enc_point_cnt := enc_point_cnt e + 1\<rparr>)
      else if enc_x e = x \<and> enc_y e = y then Inr (jct_id, addOp (WOP_COLINEAR OR width) 0 e)
      else if enc_y e = y then
        Inr (jct_id, (addOp (WOP_X OR width) x e)\<lparr>enc_x := x, enc_point_cnt := enc_point_cnt e + 1\<rparr>)
      else if enc_x e = x then
        Inr (jct_id, (addOp (WOP_Y OR width) y e)\<lparr>enc_y := y, enc_point_cnt := enc_point_cnt e + 1\<rparr>)
      else Inl NonOrthogonalSegment)"

definition add_rule_if_due :: "encoder \<Rightarrow> encoder" where [enc_defs]:
  "add_rule_if_due e =
     (if rule_due (enc_point_cnt e) then addOp (enc_rule_opcode e) (enc_non_default_rule e) e else e)"

definition add_property :: "int \<Rightarrow> encoder \<Rightarrow> encoder" where [enc_defs]:
  "add_property property e =
     (if enc_point_cnt e \<noteq> 1 then addOp WOP_PROPERTY property e else e)"

definition addPoint :: "int \<Rightarrow> int \<Rightarrow> int \<Rightarrow> encoder \<Rightarrow> wire_error + int \<times> encoder" where [enc_defs]:
  "addPoint x y property e =
     sum_bind
       (if enc_non_default_rule e = 0 then point_ops WOP_DEFAULT_WIDTH x y (enc_idx e) e
        else sum_bind (point_ops 0 x y (enc_idx e) e) (\<lambda>(jct_id, e). Inr (jct_id, add_rule_if_due e)))
       (\<lambda>(jct_id, e). Inr (jct_id, (add_property property e)\<lparr>enc_prev_ext := False\<rparr>))"

definition colinear_ext_rule_1 :: "encoder \<Rightarrow> bool" where [enc_defs]:
  "colinear_ext_rule_1 e \<longleftrightarrow> enc_point_cnt e > 1 \<or> (enc_point_cnt e > 0 \<and> enc_via_cnt e > 0)"

definition colinear_ext_rule_2 :: "encoder \<Rightarrow> bool" where [enc_defs]:
  "colinear_ext_rule_2 e \<longleftrightarrow> \<not> enc_prev_ext e"

definition point_ext_ops ::
    "u8 \<Rightarrow> int \<Rightarrow> int \<Rightarrow> int \<Rightarrow> int \<Rightarrow> encoder \<Rightarrow> wire_error + int \<times> encoder" where [enc_defs]:
  "point_ext_ops width x y ext jct_id e =
     (if enc_point_cnt e = 0 then
        Inr (jct_id + 1,
          (addOp WOP_OPERAND ext
            (addOp (WOP_Y OR WOP_EXTENSION OR width) y (addOp (WOP_X OR width) x e)))
            \<lparr>enc_x := x, enc_y := y, enc_point_cnt := enc_point_cnt e + 1, enc_prev_ext := False\<rparr>)
      else if enc_x e = x \<and> enc_y e = y then
        (if \<not> colinear_ext_rule_1 e then Inl ColinearExtRule1
         else if \<not> colinear_ext_rule_2 e then Inl ColinearExtRule2
         else Inr (jct_id,
           (addOp (WOP_COLINEAR OR WOP_EXTENSION OR width) ext e)\<lparr>enc_prev_ext := True\<rparr>))
      else if enc_y e = y then
        Inr (jct_id, (addOp WOP_OPERAND ext (addOp (WOP_X OR WOP_EXTENSION OR width) x e))
          \<lparr>enc_x := x, enc_point_cnt := enc_point_cnt e + 1, enc_prev_ext := False\<rparr>)
      else if enc_x e = x then
        Inr (jct_id, (addOp WOP_OPERAND ext (addOp (WOP_Y OR WOP_EXTENSION OR width) y e))
          \<lparr>enc_y := y, enc_point_cnt := enc_point_cnt e + 1, enc_prev_ext := False\<rparr>)
      else Inl NonOrthogonalSegment)"

definition addPointExt ::
    "int \<Rightarrow> int \<Rightarrow> int \<Rightarrow> int \<Rightarrow> encoder \<Rightarrow> wire_error + int \<times> encoder" where [enc_defs]:
  "addPointExt x y ext property e =
     sum_bind
       (if enc_non_default_rule e = 0 then point_ext_ops WOP_DEFAULT_WIDTH x y ext (enc_idx e) e
        else sum_bind (point_ext_ops 0 x y ext (enc_idx e) e)
               (\<lambda>(jct_id, e). Inr (jct_id, add_rule_if_due e)))
       (\<lambda>(jct_id, e). Inr (jct_id, add_property property e))"

section \<open>Colours, vias, rectangles, terminals\<close>

definition setColor :: "u8 \<Rightarrow> encoder \<Rightarrow> wire_error + encoder" where [enc_defs]:
  "setColor mask_color e = (if mask_color < 1 \<or> mask_color > 3 then Inl (MaskColorError mask_color)
     else Inr (addOp WOP_COLOR (uint mask_color) e))"

definition clearColor :: "encoder \<Rightarrow> encoder" where [enc_defs]:
  "clearColor e = addOp WOP_COLOR 0 e"

definition pack_via_color :: "u8 \<Rightarrow> u8 \<Rightarrow> u8 \<Rightarrow> u8" where [enc_defs]:
  "pack_via_color bottom_color cut_color top_color =
     push_bit 4 bottom_color OR push_bit 2 cut_color OR top_color"

definition setViaColor :: "u8 \<Rightarrow> u8 \<Rightarrow> u8 \<Rightarrow> encoder \<Rightarrow> wire_error + encoder" where [enc_defs]:
  "setViaColor bottom_color cut_color top_color e =
     (case find (\<lambda>color. color > 3) [bottom_color, cut_color, top_color] of
        Some color \<Rightarrow> Inl (ViaMaskColorError color)
      | None \<Rightarrow> Inr (addOp WOP_VIACOLOR (uint (pack_via_color bottom_color cut_color top_color)) e))"

definition clearViaColor :: "encoder \<Rightarrow> encoder" where [enc_defs]:
  "clearViaColor e = addOp WOP_VIACOLOR 0 e"

definition addVia :: "wire_env \<Rightarrow> int \<Rightarrow> encoder \<Rightarrow> wire_error + int \<times> encoder" where [enc_defs]:
  "addVia E via e =
     (if enc_point_cnt e = 0 then Inl NoPointYet
      else if via_top E via = enc_layer e then
        Inr (enc_idx e, (addOp WOP_VIA via e)
          \<lparr>enc_layer := via_bottom E via, enc_via_cnt := enc_via_cnt e + 1\<rparr>)
      else if via_bottom E via = enc_layer e then
        Inr (enc_idx e, (addOp (WOP_VIA OR WOP_VIA_EXIT_TOP) via e)
          \<lparr>enc_layer := via_top E via, enc_via_cnt := enc_via_cnt e + 1\<rparr>)
      else Inl InvalidViaLayer)"

definition addTechVia :: "wire_env \<Rightarrow> int \<Rightarrow> encoder \<Rightarrow> wire_error + int \<times> encoder" where [enc_defs]:
  "addTechVia E via e =
     (if enc_point_cnt e = 0 then Inl NoPointYet
      else if techvia_top E via = enc_layer e then
        Inr (enc_idx e, (clearColor (addOp WOP_TECH_VIA via e))
          \<lparr>enc_layer := techvia_bottom E via, enc_via_cnt := enc_via_cnt e + 1\<rparr>)
      else if techvia_bottom E via = enc_layer e then
        Inr (enc_idx e, (clearColor (addOp (WOP_TECH_VIA OR WOP_VIA_EXIT_TOP) via e))
          \<lparr>enc_layer := techvia_top E via, enc_via_cnt := enc_via_cnt e + 1\<rparr>)
      else Inl InvalidViaLayer)"

definition addRect :: "int \<Rightarrow> int \<Rightarrow> int \<Rightarrow> int \<Rightarrow> encoder \<Rightarrow> wire_error + encoder" where [enc_defs]:
  "addRect deltaX1 deltaY1 deltaX2 deltaY2 e =
     (if enc_point_cnt e = 0 then Inl NoPointYet
      else Inr (addOp WOP_OPERAND deltaY2 (addOp WOP_OPERAND deltaX2
             (addOp WOP_OPERAND deltaY1 (addOp WOP_RECT deltaX1 e)))))"

definition enc_addITerm :: "int \<Rightarrow> encoder \<Rightarrow> wire_error + encoder" where [enc_defs]:
  "enc_addITerm iterm e =
     (if enc_point_cnt e = 0 then Inl NoPointYet else Inr (addOp WOP_ITERM iterm e))"

definition enc_addBTerm :: "int \<Rightarrow> encoder \<Rightarrow> wire_error + encoder" where [enc_defs]:
  "enc_addBTerm bterm e =
     (if enc_point_cnt e = 0 then Inl NoPointYet else Inr (addOp WOP_BTERM bterm e))"

section \<open>New paths\<close>

definition newPath :: "int \<Rightarrow> dbWireType \<Rightarrow> encoder \<Rightarrow> encoder" where [enc_defs]:
  "newPath layer type e =
     (let e = initPath_type layer type e in addOp (WOP_PATH OR enc_wire_type e) layer e)"

definition newPath_rule :: "int \<Rightarrow> dbWireType \<Rightarrow> layer_rule \<Rightarrow> encoder \<Rightarrow> encoder" where [enc_defs]:
  "newPath_rule layer type rule e =
     (let e = initPath_type_rule layer type rule e;
          e = addOp (WOP_PATH OR enc_wire_type e) layer e
      in addOp (enc_rule_opcode e) (enc_non_default_rule e) e)"

text \<open>What every branch from a junction does first: check the id, walk back to its point.\<close>

definition junction_point :: "wire_env \<Rightarrow> int \<Rightarrow> encoder \<Rightarrow> wire_error + WirePoint" where [enc_defs]:
  "junction_point E jct_id e =
     (if \<not> (0 \<le> jct_id \<and> jct_id < enc_idx e) then Inl BadJunction
      else getPrevPoint E (enc_opcodes e) (enc_data e) jct_id True)"

definition at_point :: "WirePoint \<Rightarrow> encoder \<Rightarrow> encoder" where [enc_defs]:
  "at_point pnt e = e\<lparr>enc_x := wp_x pnt, enc_y := wp_y pnt, enc_point_cnt := 1\<rparr>"

definition newPath_jct :: "wire_env \<Rightarrow> int \<Rightarrow> encoder \<Rightarrow> wire_error + encoder" where [enc_defs]:
  "newPath_jct E jct_id e = sum_bind (junction_point E jct_id e) (\<lambda>pnt.
     let e = at_point pnt (initPath (wp_layer pnt) (enc_wire_type e) e);
         e = addOp (WOP_JUNCTION OR enc_wire_type e) jct_id e
     in Inr (addOp (WOP_COLINEAR OR WOP_DEFAULT_WIDTH) 0 e))"

definition newPath_jct_type :: "wire_env \<Rightarrow> int \<Rightarrow> dbWireType \<Rightarrow> encoder \<Rightarrow> wire_error + encoder" where [enc_defs]:
  "newPath_jct_type E jct_id type e = sum_bind (junction_point E jct_id e) (\<lambda>pnt.
     let e = at_point pnt (initPath_type (wp_layer pnt) type e);
         e = addOp (WOP_JUNCTION OR enc_wire_type e) jct_id e
     in Inr (addOp (WOP_COLINEAR OR WOP_DEFAULT_WIDTH) 0 e))"

definition newPathExt :: "wire_env \<Rightarrow> int \<Rightarrow> int \<Rightarrow> encoder \<Rightarrow> wire_error + encoder" where [enc_defs]:
  "newPathExt E jct_id ext e = sum_bind (junction_point E jct_id e) (\<lambda>pnt.
     let e = at_point pnt (initPath (wp_layer pnt) (enc_wire_type e) e);
         e = addOp (WOP_JUNCTION OR enc_wire_type e) jct_id e
     in Inr (addOp (WOP_COLINEAR OR WOP_EXTENSION OR WOP_DEFAULT_WIDTH) ext e))"

definition newPathExt_type ::
    "wire_env \<Rightarrow> int \<Rightarrow> int \<Rightarrow> dbWireType \<Rightarrow> encoder \<Rightarrow> wire_error + encoder" where [enc_defs]:
  "newPathExt_type E jct_id ext type e = sum_bind (junction_point E jct_id e) (\<lambda>pnt.
     let e = at_point pnt (initPath_type (wp_layer pnt) type e);
         e = addOp (WOP_JUNCTION OR enc_wire_type e) jct_id e
     in Inr (addOp (WOP_COLINEAR OR WOP_EXTENSION OR WOP_DEFAULT_WIDTH) ext e))"

definition newPath_jct_rule ::
    "wire_env \<Rightarrow> int \<Rightarrow> layer_rule \<Rightarrow> encoder \<Rightarrow> wire_error + encoder" where [enc_defs]:
  "newPath_jct_rule E jct_id rule e = sum_bind (junction_point E jct_id e) (\<lambda>pnt.
     let e = at_point pnt (initPath_rule (wp_layer pnt) (enc_wire_type e) rule e);
         e = addOp (WOP_JUNCTION OR enc_wire_type e) jct_id e;
         e = addOp (enc_rule_opcode e) (enc_non_default_rule e) e
     in Inr (addOp WOP_COLINEAR 0 e))"

definition newPath_jct_type_rule ::
    "wire_env \<Rightarrow> int \<Rightarrow> dbWireType \<Rightarrow> layer_rule \<Rightarrow> encoder \<Rightarrow> wire_error + encoder" where [enc_defs]:
  "newPath_jct_type_rule E jct_id type rule e = sum_bind (junction_point E jct_id e) (\<lambda>pnt.
     let e = at_point pnt (initPath_type_rule (wp_layer pnt) type rule e);
         e = addOp (WOP_JUNCTION OR enc_wire_type e) jct_id e;
         e = addOp (enc_rule_opcode e) (enc_non_default_rule e) e
     in Inr (addOp WOP_COLINEAR 0 e))"

definition newPathExt_rule ::
    "wire_env \<Rightarrow> int \<Rightarrow> int \<Rightarrow> layer_rule \<Rightarrow> encoder \<Rightarrow> wire_error + encoder" where [enc_defs]:
  "newPathExt_rule E jct_id ext rule e = sum_bind (junction_point E jct_id e) (\<lambda>pnt.
     let e = at_point pnt (initPath_rule (wp_layer pnt) (enc_wire_type e) rule e);
         e = addOp (WOP_JUNCTION OR enc_wire_type e) jct_id e;
         e = addOp (enc_rule_opcode e) (enc_non_default_rule e) e
     in Inr (addOp (WOP_COLINEAR OR WOP_EXTENSION) ext e))"

definition newPathExt_type_rule ::
    "wire_env \<Rightarrow> int \<Rightarrow> int \<Rightarrow> dbWireType \<Rightarrow> layer_rule \<Rightarrow> encoder \<Rightarrow> wire_error + encoder" where [enc_defs]:
  "newPathExt_type_rule E jct_id ext type rule e = sum_bind (junction_point E jct_id e) (\<lambda>pnt.
     let e = at_point pnt (initPath_type_rule (wp_layer pnt) type rule e);
         e = addOp (WOP_JUNCTION OR enc_wire_type e) jct_id e;
         e = addOp (enc_rule_opcode e) (enc_non_default_rule e) e
     in Inr (addOp (WOP_COLINEAR OR WOP_EXTENSION) ext e))"

definition newPathShort :: "int \<Rightarrow> int \<Rightarrow> dbWireType \<Rightarrow> encoder \<Rightarrow> wire_error + encoder" where [enc_defs]:
  "newPathShort jct_id layer type e =
     (if \<not> (0 \<le> jct_id \<and> jct_id < enc_idx e) then Inl BadJunction
      else let e = initPath_type layer type e;
               e = addOp (WOP_SHORT OR enc_wire_type e) layer e
           in Inr (addOp WOP_OPERAND jct_id e))"

definition newPathVirtualWire ::
    "int \<Rightarrow> int \<Rightarrow> dbWireType \<Rightarrow> encoder \<Rightarrow> wire_error + encoder" where [enc_defs]:
  "newPathVirtualWire jct_id layer type e =
     (if \<not> (0 \<le> jct_id \<and> jct_id < enc_idx e) then Inl BadJunction
      else let e = initPath_type layer type e;
               e = addOp (WOP_VWIRE OR enc_wire_type e) layer e
           in Inr (addOp WOP_OPERAND jct_id e))"

definition newPathShort_rule ::
    "int \<Rightarrow> int \<Rightarrow> dbWireType \<Rightarrow> layer_rule \<Rightarrow> encoder \<Rightarrow> wire_error + encoder" where [enc_defs]:
  "newPathShort_rule jct_id layer type rule e =
     (if \<not> (0 \<le> jct_id \<and> jct_id < enc_idx e) then Inl BadJunction
      else let e = initPath_type_rule layer type rule e;
               e = addOp (WOP_SHORT OR enc_wire_type e) layer e;
               e = addOp WOP_OPERAND jct_id e
           in Inr (addOp (enc_rule_opcode e) (enc_non_default_rule e) e))"

definition newPathVirtualWire_rule ::
    "int \<Rightarrow> int \<Rightarrow> dbWireType \<Rightarrow> layer_rule \<Rightarrow> encoder \<Rightarrow> wire_error + encoder" where [enc_defs]:
  "newPathVirtualWire_rule jct_id layer type rule e =
     (if \<not> (0 \<le> jct_id \<and> jct_id < enc_idx e) then Inl BadJunction
      else let e = initPath_type_rule layer type rule e;
               e = addOp (WOP_VWIRE OR enc_wire_type e) layer e;
               e = addOp WOP_OPERAND jct_id e
           in Inr (addOp (enc_rule_opcode e) (enc_non_default_rule e) e))"

section \<open>Commands\<close>

text \<open>One constructor per family of calls; the optional arguments select the overload.\<close>

datatype wire_cmd =
    NewPath int dbWireType "layer_rule option"
  | NewPathJct int "int option" "dbWireType option" "layer_rule option"
  | NewPathShort int int dbWireType "layer_rule option"
  | NewPathVirtualWire int int dbWireType "layer_rule option"
  | AddPoint int int int
  | AddPointExt int int int int
  | AddVia int
  | AddTechVia int
  | AddRect int int int int
  | AddITerm int
  | AddBTerm int
  | SetColor u8
  | ClearColor
  | SetViaColor u8 u8 u8
  | ClearViaColor

fun enc_step :: "wire_env \<Rightarrow> wire_cmd \<Rightarrow> encoder \<Rightarrow> wire_error + int option \<times> encoder" where
  "enc_step E (NewPath layer type None) e = Inr (None, newPath layer type e)"
| "enc_step E (NewPath layer type (Some rule)) e = Inr (None, newPath_rule layer type rule e)"
| "enc_step E (NewPathJct jct ext type rule) e = sum_bind
     (case (ext, type, rule) of
        (None, None, None) \<Rightarrow> newPath_jct E jct e
      | (None, Some t, None) \<Rightarrow> newPath_jct_type E jct t e
      | (None, None, Some r) \<Rightarrow> newPath_jct_rule E jct r e
      | (None, Some t, Some r) \<Rightarrow> newPath_jct_type_rule E jct t r e
      | (Some x, None, None) \<Rightarrow> newPathExt E jct x e
      | (Some x, Some t, None) \<Rightarrow> newPathExt_type E jct x t e
      | (Some x, None, Some r) \<Rightarrow> newPathExt_rule E jct x r e
      | (Some x, Some t, Some r) \<Rightarrow> newPathExt_type_rule E jct x t r e)
     (\<lambda>e. Inr (None, e))"
| "enc_step E (NewPathShort jct layer type rule) e = sum_bind
     (case rule of None \<Rightarrow> newPathShort jct layer type e
      | Some r \<Rightarrow> newPathShort_rule jct layer type r e) (\<lambda>e. Inr (None, e))"
| "enc_step E (NewPathVirtualWire jct layer type rule) e = sum_bind
     (case rule of None \<Rightarrow> newPathVirtualWire jct layer type e
      | Some r \<Rightarrow> newPathVirtualWire_rule jct layer type r e) (\<lambda>e. Inr (None, e))"
| "enc_step E (AddPoint x y property) e =
     sum_bind (addPoint x y property e) (\<lambda>(jct, e). Inr (Some jct, e))"
| "enc_step E (AddPointExt x y ext property) e =
     sum_bind (addPointExt x y ext property e) (\<lambda>(jct, e). Inr (Some jct, e))"
| "enc_step E (AddVia via) e = sum_bind (addVia E via e) (\<lambda>(jct, e). Inr (Some jct, e))"
| "enc_step E (AddTechVia via) e = sum_bind (addTechVia E via e) (\<lambda>(jct, e). Inr (Some jct, e))"
| "enc_step E (AddRect a b c d) e = sum_bind (addRect a b c d e) (\<lambda>e. Inr (None, e))"
| "enc_step E (AddITerm i) e = sum_bind (enc_addITerm i e) (\<lambda>e. Inr (None, e))"
| "enc_step E (AddBTerm i) e = sum_bind (enc_addBTerm i e) (\<lambda>e. Inr (None, e))"
| "enc_step E (SetColor m) e = sum_bind (setColor m e) (\<lambda>e. Inr (None, e))"
| "enc_step E ClearColor e = Inr (None, clearColor e)"
| "enc_step E (SetViaColor b c t) e = sum_bind (setViaColor b c t e) (\<lambda>e. Inr (None, e))"
| "enc_step E ClearViaColor e = Inr (None, clearViaColor e)"

primrec enc_run :: "wire_env \<Rightarrow> wire_cmd list \<Rightarrow> encoder \<Rightarrow> wire_error + encoder" where
  "enc_run E [] e = Inr e"
| "enc_run E (c # cs) e = sum_bind (enc_step E c e) (\<lambda>(_, e'). enc_run E cs e')"

end
