(* ===== verification/OdbWireDecoder.thy ===== *)
theory OdbWireDecoder imports OdbWire begin

text \<open>
  \<open>dbWireDecoder\<close> (\<open>dbWireCodec.cpp\<close>): \<open>next\<close> reads opcodes until one of them is an element
  of the path, updating the position, the layer, the point, the wire type and the mask
  colours; the getters, guarded by \<open>ZASSERT\<close>s on the last opcode, read its value.
\<close>

section \<open>State\<close>

datatype dec_op =
    PATH | JUNCTION | SHORT | VWIRE | POINT | POINT_EXT | VIA | TECH_VIA
  | RECT | ITERM | BTERM | RULE | END_DECODE

record ViaColor =
  bottom_color :: u8
  cut_color :: u8
  top_color :: u8

record decoder =
  d_x :: int
  d_y :: int
  d_default_width :: bool
  d_block_rule :: bool
  d_layer :: int
  d_operand :: int
  d_operand2 :: int
  d_idx :: nat
  d_jct_id :: int
  d_wire_type :: dbWireType
  d_point_cnt :: nat
  d_opcode :: dec_op
  d_property :: int
  d_deltaX1 :: int
  d_deltaY1 :: int
  d_deltaX2 :: int
  d_deltaY2 :: int
  d_color :: "u8 option"
  d_viacolor :: "ViaColor option"

text \<open>\<open>begin\<close>: the members it does not name keep their value, the colours among them.\<close>

definition dec_begin :: "decoder \<Rightarrow> decoder" where [dec_defs]:
  "dec_begin d = d\<lparr>d_x := 0, d_y := 0, d_default_width := True, d_layer := 0, d_idx := 0,
     d_jct_id := - 1, d_opcode := END_DECODE, d_wire_type := WireType_NONE, d_point_cnt := 0,
     d_property := 0, d_deltaX1 := 0, d_deltaY1 := 0, d_deltaX2 := 0, d_deltaY2 := 0\<rparr>"

section \<open>Reading\<close>

definition w_length :: "wire \<Rightarrow> nat" where [dec_defs]:
  "w_length w = length (w_opcodes w)"

definition nextOp :: "wire \<Rightarrow> decoder \<Rightarrow> wire_error + u8 \<times> int \<times> decoder" where [dec_defs]:
  "nextOp w d =
     (if d_idx d < w_length w \<and> d_idx d < length (w_data w)
      then Inr (w_opcodes w ! d_idx d, w_data w ! d_idx d, d\<lparr>d_idx := d_idx d + 1\<rparr>)
      else Inl OutOfBounds)"

definition flushRule :: "wire \<Rightarrow> decoder \<Rightarrow> decoder" where [dec_defs]:
  "flushRule w d =
     (if d_idx d \<noteq> w_length w \<and> op_code (w_opcodes w ! d_idx d) = WOP_RULE
      then d\<lparr>d_idx := d_idx d + 1\<rparr> else d)"

text \<open>The switch on \<open>opcode & WOP_WIRE_TYPE_MASK\<close>; other bits leave the type as it is.\<close>

definition set_wire_type :: "u8 \<Rightarrow> decoder \<Rightarrow> decoder" where [dec_defs]:
  "set_wire_type opcode d =
     (if op_wire_type opcode = WOP_NONE then d\<lparr>d_wire_type := WireType_NONE\<rparr>
      else if op_wire_type opcode = WOP_COVER then d\<lparr>d_wire_type := WireType_COVER\<rparr>
      else if op_wire_type opcode = WOP_FIXED then d\<lparr>d_wire_type := WireType_FIXED\<rparr>
      else if op_wire_type opcode = WOP_ROUTED then d\<lparr>d_wire_type := WireType_ROUTED\<rparr>
      else if op_wire_type opcode = WOP_NOSHIELD then d\<lparr>d_wire_type := WireType_NOSHIELD\<rparr>
      else d)"

definition start_path :: "u8 \<Rightarrow> int \<Rightarrow> decoder \<Rightarrow> decoder" where [dec_defs]:
  "start_path opcode layer d =
     set_wire_type opcode (d\<lparr>d_layer := layer, d_point_cnt := 0, d_default_width := True\<rparr>)"

text \<open>The last lines of a point: its extension, if any, the property, the rule that may follow.\<close>

definition read_ext :: "u8 \<Rightarrow> wire \<Rightarrow> decoder \<Rightarrow> wire_error + decoder" where [dec_defs]:
  "read_ext opcode w d =
     (if op_flag opcode WOP_EXTENSION
      then sum_bind (nextOp w d) (\<lambda>(_, v, d). Inr (d\<lparr>d_operand2 := v, d_opcode := POINT_EXT\<rparr>))
      else Inr (d\<lparr>d_opcode := POINT\<rparr>))"

definition end_point :: "wire \<Rightarrow> decoder \<Rightarrow> wire_error + decoder \<times> dec_op option" where [dec_defs]:
  "end_point w d = (let d = flushRule w (d\<lparr>d_property := 0\<rparr>) in Inr (d, Some (d_opcode d)))"

definition unpack_via_color :: "u8 \<Rightarrow> ViaColor" where [dec_defs]:
  "unpack_via_color viacolor = \<lparr>bottom_color = drop_bit 4 (viacolor AND 0x30),
     cut_color = drop_bit 2 (viacolor AND 0x0c), top_color = viacolor AND 0x03\<rparr>"

text \<open>
  One pass through \<open>nextOpCode\<close>: \<open>Some op\<close> is a \<open>return\<close>, \<open>None\<close> a \<open>goto nextOpCode\<close>.
\<close>

definition dec_step :: "wire_env \<Rightarrow> wire \<Rightarrow> decoder \<Rightarrow> wire_error + decoder \<times> dec_op option" where
  "dec_step E w d =
     (if d_idx d = w_length w then Inr (d, Some END_DECODE)
      else
        (let jct = int (d_idx d) in
         sum_bind (nextOp w d) (\<lambda>(opcode, operand, d).
           let d = d\<lparr>d_jct_id := jct, d_operand := operand\<rparr>;
               ret = (\<lambda>op d. Inr (d\<lparr>d_opcode := op\<rparr>, Some op))
           in
           if op_code opcode = WOP_PATH then ret PATH (start_path opcode operand d)
           else if op_code opcode = WOP_SHORT then
             sum_bind (nextOp w (start_path opcode operand d))
               (\<lambda>(_, v, d). ret SHORT (d\<lparr>d_operand2 := v\<rparr>))
           else if op_code opcode = WOP_JUNCTION then
             sum_bind (getPrevPoint E (w_opcodes w) (w_data w) operand True)
               (\<lambda>pnt. ret JUNCTION (start_path opcode (wp_layer pnt)
                        (d\<lparr>d_x := wp_x pnt, d_y := wp_y pnt\<rparr>)))
           else if op_code opcode = WOP_RULE then
             ret RULE (d\<lparr>d_default_width := False, d_block_rule := op_flag opcode WOP_BLOCK_RULE\<rparr>)
           else if op_code opcode = WOP_X then
             (if d_point_cnt d = 0 then
                sum_bind (nextOp w d) (\<lambda>(opcode, v, d').
                  sum_bind (read_ext opcode w
                      (d'\<lparr>d_x := operand, d_jct_id := int (d_idx d), d_y := v, d_point_cnt := 1\<rparr>))
                    (\<lambda>d. Inr (d, Some (d_opcode d))))
              else
                sum_bind (read_ext opcode w (d\<lparr>d_x := operand, d_point_cnt := d_point_cnt d + 1\<rparr>))
                  (end_point w))
           else if op_code opcode = WOP_Y then
             (if d_point_cnt d = 0 then Inl NoPointYet
              else
                sum_bind (read_ext opcode w (d\<lparr>d_y := operand, d_point_cnt := d_point_cnt d + 1\<rparr>))
                  (end_point w))
           else if op_code opcode = WOP_COLINEAR then
             end_point w
               (if op_flag opcode WOP_EXTENSION
                then d\<lparr>d_point_cnt := d_point_cnt d + 1, d_operand2 := operand, d_opcode := POINT_EXT\<rparr>
                else d\<lparr>d_point_cnt := d_point_cnt d + 1, d_opcode := POINT\<rparr>)
           else if op_code opcode = WOP_VIA then
             ret VIA (d\<lparr>d_layer := (if op_flag opcode WOP_VIA_EXIT_TOP then via_top E operand
                                    else via_bottom E operand)\<rparr>)
           else if op_code opcode = WOP_TECH_VIA then
             ret TECH_VIA (d\<lparr>d_layer := (if op_flag opcode WOP_VIA_EXIT_TOP then techvia_top E operand
                                         else techvia_bottom E operand)\<rparr>)
           else if op_code opcode = WOP_RECT then
             sum_bind (nextOp w (d\<lparr>d_deltaX1 := operand\<rparr>)) (\<lambda>(_, y1, d).
             sum_bind (nextOp w (d\<lparr>d_deltaY1 := y1\<rparr>)) (\<lambda>(_, x2, d).
             sum_bind (nextOp w (d\<lparr>d_deltaX2 := x2\<rparr>)) (\<lambda>(_, y2, d).
               ret RECT (d\<lparr>d_deltaY2 := y2\<rparr>))))
           else if op_code opcode = WOP_ITERM then ret ITERM d
           else if op_code opcode = WOP_BTERM then ret BTERM d
           else if op_code opcode = WOP_OPERAND then Inl InvalidOpcodeSequence
           else if op_code opcode = WOP_PROPERTY then Inr (d, None)
           else if op_code opcode = WOP_VWIRE then
             sum_bind (nextOp w (start_path opcode operand d))
               (\<lambda>(_, v, d). ret VWIRE (d\<lparr>d_operand2 := v\<rparr>))
           else if op_code opcode = WOP_NOP then Inr (d, None)
           else if op_code opcode = WOP_COLOR then
             Inr (d\<lparr>d_color := (if word_of_int operand = (0::u8) then None
                                else Some (word_of_int operand))\<rparr>, None)
           else if op_code opcode = WOP_VIACOLOR then
             Inr (d\<lparr>d_viacolor := (if word_of_int operand = (0::u8) then None
                                   else Some (unpack_via_color (word_of_int operand)))\<rparr>, None)
           else Inl InvalidOpcode)))"

section \<open>Progress and next\<close>

lemma nextOp_Inr:
  "nextOp w d = Inr (opcode, v, d') \<longleftrightarrow>
     d_idx d < w_length w \<and> d_idx d < length (w_data w) \<and>
     opcode = w_opcodes w ! d_idx d \<and> v = w_data w ! d_idx d \<and> d' = d\<lparr>d_idx := d_idx d + 1\<rparr>"
  by (auto simp: nextOp_def)

lemma idx_simps [simp]:
  "d_idx (start_path opc l d) = d_idx d"
  "d_idx (set_wire_type opc d) = d_idx d"
  by (simp_all add: start_path_def set_wire_type_def)

lemma flushRule_idx: "d_idx d \<le> w_length w \<Longrightarrow>
    d_idx d \<le> d_idx (flushRule w d) \<and> d_idx (flushRule w d) \<le> w_length w"
  by (auto simp: flushRule_def)

lemma flushRule_opcode [simp]: "d_opcode (flushRule w d) = d_opcode d"
  by (simp add: flushRule_def)

lemma read_ext_Inr: "read_ext opc w d = Inr d' \<Longrightarrow> d_idx d \<le> w_length w \<Longrightarrow>
    d_idx d \<le> d_idx d' \<and> d_idx d' \<le> w_length w \<and> d_opcode d' \<in> {POINT, POINT_EXT}"
  by (auto simp: read_ext_def sum_bind_Inr_iff nextOp_Inr split: if_splits)

lemma end_point_Inr: "end_point w d = Inr out \<Longrightarrow> d_idx d \<le> w_length w \<Longrightarrow>
    d_idx d \<le> d_idx (fst out) \<and> d_idx (fst out) \<le> w_length w \<and> snd out = Some (d_opcode d)"
  using flushRule_idx [of "d\<lparr>d_property := 0\<rparr>" w] by (auto simp: end_point_def)

definition dec_advances :: "wire \<Rightarrow> decoder \<Rightarrow> decoder \<times> dec_op option \<Rightarrow> bool" where
  "dec_advances w d out \<longleftrightarrow>
     d_idx d < d_idx (fst out) \<and> d_idx (fst out) \<le> w_length w \<and> snd out \<noteq> Some END_DECODE"

lemma dec_step_advances:
  assumes "dec_step E w d = Inr out" "d_idx d \<noteq> w_length w"
  shows "dec_advances w d out"
  using assms
  by (auto simp: dec_step_def dec_advances_def Let_def sum_bind_Inr_iff nextOp_Inr
           dest!: read_ext_Inr end_point_Inr split: if_splits)

lemma dec_step_at_end: "d_idx d = w_length w \<Longrightarrow> dec_step E w d = Inr (d, Some END_DECODE)"
  by (simp add: dec_step_def)

text \<open>\<open>next\<close> itself.\<close>

function dec_next :: "wire_env \<Rightarrow> wire \<Rightarrow> decoder \<Rightarrow> wire_error + dec_op \<times> decoder" where
  "dec_next E w d =
     (case dec_step E w d of
        Inl err \<Rightarrow> Inl err
      | Inr (d', Some op) \<Rightarrow> Inr (op, d')
      | Inr (d', None) \<Rightarrow> dec_next E w d')"
  by pat_completeness auto
termination
proof (relation "measure (\<lambda>(E, w, d). w_length w - d_idx d)")
  fix E :: wire_env and w :: wire and d out d' r
  assume *: "dec_step E w d = Inr out" "(d', r) = out" "r = None"
  then have "d_idx d \<noteq> w_length w" by (auto simp: dec_step_def)
  from dec_step_advances [OF *(1) this] *
  show "((E, w, d'), E, w, d) \<in> measure (\<lambda>(E, w, d). w_length w - d_idx d)"
    by (auto simp: dec_advances_def)
qed simp

declare dec_next.simps [simp del]

lemma dec_next_skip: "dec_step E w d = Inr (d', None) \<Longrightarrow> dec_next E w d = dec_next E w d'"
  by (subst dec_next.simps) simp

lemma dec_next_return: "dec_step E w d = Inr (d', Some op) \<Longrightarrow> dec_next E w d = Inr (op, d')"
  by (subst dec_next.simps) simp

lemma dec_next_advances:
  assumes "dec_next E w d = Inr (op, d')" "d_idx d \<le> w_length w"
  shows "(op = END_DECODE \<and> d_idx d' = w_length w) \<or> (op \<noteq> END_DECODE \<and> d_idx d < d_idx d' \<and> d_idx d' \<le> w_length w)"
  using assms
proof (induction E w d rule: dec_next.induct)
  case (1 E w d)
  show ?case
  proof (cases "d_idx d = w_length w")
    case True
    with 1(2) show ?thesis by (simp add: dec_next_return [OF dec_step_at_end])
  next
    case False
    obtain out where out: "dec_step E w d = Inr out"
      using 1(2) by (subst (asm) dec_next.simps) (auto split: sum.splits)
    from dec_step_advances [OF out False] have adv: "dec_advances w d out" .
    obtain d1 r where o: "out = (d1, r)" by (cases out)
    show ?thesis
    proof (cases r)
      case None
      with out o have "dec_step E w d = Inr (d1, None)" by simp
      then have eq: "dec_next E w d = dec_next E w d1" by (rule dec_next_skip)
      have less: "d_idx d < d_idx d1" "d_idx d1 \<le> w_length w" using adv o by (auto simp: dec_advances_def)
      from 1(1) [OF out o [symmetric] None] eq 1(2) less(2)
      have "(op = END_DECODE \<and> d_idx d' = w_length w) \<or>
            (op \<noteq> END_DECODE \<and> d_idx d1 < d_idx d' \<and> d_idx d' \<le> w_length w)" by simp
      with less show ?thesis by auto
    next
      case (Some op')
      with adv o out 1(2) show ?thesis
        by (auto simp: dec_next_return dec_advances_def)
    qed
  qed
qed

section \<open>peek\<close>

text \<open>
  The element an opcode announces, \<open>None\<close> for the opcodes \<open>peek\<close> passes over.  Only the
  opcode at the position is looked at, so for the first point of a path, whose extension
  flag is on its second opcode, the element announced is \<open>POINT\<close>.
\<close>

definition peek_op :: "u8 \<Rightarrow> dec_op option" where
  "peek_op opcode =
     (if op_code opcode = WOP_PATH then Some PATH
      else if op_code opcode = WOP_SHORT then Some SHORT
      else if op_code opcode = WOP_JUNCTION then Some JUNCTION
      else if op_code opcode = WOP_RULE then Some RULE
      else if op_code opcode = WOP_X \<or> op_code opcode = WOP_Y \<or> op_code opcode = WOP_COLINEAR then
        Some (if op_flag opcode WOP_EXTENSION then POINT_EXT else POINT)
      else if op_code opcode = WOP_VIA then Some VIA
      else if op_code opcode = WOP_TECH_VIA then Some TECH_VIA
      else if op_code opcode = WOP_ITERM then Some ITERM
      else if op_code opcode = WOP_BTERM then Some BTERM
      else if op_code opcode = WOP_RECT then Some RECT
      else if op_code opcode = WOP_VWIRE then Some VWIRE
      else None)"

primrec peek_list :: "u8 list \<Rightarrow> dec_op" where
  "peek_list [] = END_DECODE"
| "peek_list (opcode # rest) =
     (case peek_op opcode of Some op \<Rightarrow> op | None \<Rightarrow> peek_list rest)"

definition dec_peek :: "wire \<Rightarrow> decoder \<Rightarrow> dec_op" where
  "dec_peek w d = peek_list (drop (d_idx d) (w_opcodes w))"

section \<open>Getters\<close>

definition getLayer :: "decoder \<Rightarrow> int" where
  "getLayer d = d_layer d"

definition getRule :: "decoder \<Rightarrow> wire_error + bool \<times> int" where
  "getRule d = (if d_opcode d = RULE then Inr (d_block_rule d, d_operand d) else Inl WrongOpcode)"

definition getPoint :: "decoder \<Rightarrow> wire_error + int \<times> int" where
  "getPoint d = (if d_opcode d = POINT then Inr (d_x d, d_y d) else Inl WrongOpcode)"

definition getPointExt :: "decoder \<Rightarrow> wire_error + int \<times> int \<times> int" where
  "getPointExt d =
     (if d_opcode d = POINT_EXT then Inr (d_x d, d_y d, d_operand2 d) else Inl WrongOpcode)"

definition dec_getProperty :: "decoder \<Rightarrow> wire_error + int" where
  "dec_getProperty d =
     (if (d_opcode d = POINT \<or> d_opcode d = POINT_EXT) \<and> d_point_cnt d > 1
      then Inr (d_property d) else Inl WrongOpcode)"

definition dec_getVia :: "decoder \<Rightarrow> wire_error + int" where
  "dec_getVia d = (if d_opcode d = VIA then Inr (d_operand d) else Inl WrongOpcode)"

definition dec_getTechVia :: "decoder \<Rightarrow> wire_error + int" where
  "dec_getTechVia d = (if d_opcode d = TECH_VIA then Inr (d_operand d) else Inl WrongOpcode)"

definition getColor :: "decoder \<Rightarrow> u8 option" where
  "getColor d = d_color d"

definition getViaColor :: "decoder \<Rightarrow> ViaColor option" where
  "getViaColor d = d_viacolor d"

definition dec_getRect :: "decoder \<Rightarrow> wire_error + int \<times> int \<times> int \<times> int" where
  "dec_getRect d =
     (if d_opcode d = RECT then Inr (d_deltaX1 d, d_deltaY1 d, d_deltaX2 d, d_deltaY2 d)
      else Inl WrongOpcode)"

definition dec_getITerm :: "decoder \<Rightarrow> wire_error + int" where
  "dec_getITerm d = (if d_opcode d = ITERM then Inr (d_operand d) else Inl WrongOpcode)"

definition dec_getBTerm :: "decoder \<Rightarrow> wire_error + int" where
  "dec_getBTerm d = (if d_opcode d = BTERM then Inr (d_operand d) else Inl WrongOpcode)"

definition dec_getWireType :: "decoder \<Rightarrow> wire_error + dbWireType" where
  "dec_getWireType d =
     (if d_opcode d \<in> {PATH, JUNCTION, SHORT, VWIRE} then Inr (d_wire_type d) else Inl WrongOpcode)"

definition getJunctionId :: "decoder \<Rightarrow> int" where
  "getJunctionId d = d_jct_id d"

definition getJunctionValue :: "decoder \<Rightarrow> wire_error + int" where
  "getJunctionValue d =
     (if d_opcode d = SHORT \<or> d_opcode d = VWIRE then Inr (d_operand2 d)
      else if d_opcode d = JUNCTION then Inr (d_operand d)
      else Inl WrongOpcode)"

lemmas getter_defs = getLayer_def getRule_def getPoint_def getPointExt_def dec_getProperty_def
  dec_getVia_def dec_getTechVia_def getColor_def getViaColor_def dec_getRect_def
  dec_getITerm_def dec_getBTerm_def dec_getWireType_def getJunctionId_def getJunctionValue_def

section \<open>What a client sees\<close>

text \<open>
  An element of a decoded wire: its opcode with the values the getters return for it, and
  the layer, the junction id and the mask colours in force, which every client reads.
\<close>

datatype wire_event =
    EPath dbWireType
  | EJunction int dbWireType
  | EShort int dbWireType
  | EVWire int dbWireType
  | EPoint int int
  | EPointExt int int int
  | EVia int
  | ETechVia int
  | ERect int int int int
  | EITerm int
  | EBTerm int
  | ERule bool int

record wire_item =
  it_event :: wire_event
  it_layer :: int
  it_jct :: int
  it_color :: "u8 option"
  it_viacolor :: "ViaColor option"

definition dec_event :: "dec_op \<Rightarrow> decoder \<Rightarrow> wire_error + wire_event" where
  "dec_event op d = (case op of
       PATH \<Rightarrow> sum_bind (dec_getWireType d) (\<lambda>t. Inr (EPath t))
     | JUNCTION \<Rightarrow> sum_bind (dec_getWireType d) (\<lambda>t.
                     sum_bind (getJunctionValue d) (\<lambda>j. Inr (EJunction j t)))
     | SHORT \<Rightarrow> sum_bind (dec_getWireType d) (\<lambda>t.
                  sum_bind (getJunctionValue d) (\<lambda>j. Inr (EShort j t)))
     | VWIRE \<Rightarrow> sum_bind (dec_getWireType d) (\<lambda>t.
                  sum_bind (getJunctionValue d) (\<lambda>j. Inr (EVWire j t)))
     | POINT \<Rightarrow> sum_bind (getPoint d) (\<lambda>(x, y). Inr (EPoint x y))
     | POINT_EXT \<Rightarrow> sum_bind (getPointExt d) (\<lambda>(x, y, ext). Inr (EPointExt x y ext))
     | VIA \<Rightarrow> sum_bind (dec_getVia d) (\<lambda>v. Inr (EVia v))
     | TECH_VIA \<Rightarrow> sum_bind (dec_getTechVia d) (\<lambda>v. Inr (ETechVia v))
     | RECT \<Rightarrow> sum_bind (dec_getRect d) (\<lambda>(a, b, c, e). Inr (ERect a b c e))
     | ITERM \<Rightarrow> sum_bind (dec_getITerm d) (\<lambda>i. Inr (EITerm i))
     | BTERM \<Rightarrow> sum_bind (dec_getBTerm d) (\<lambda>i. Inr (EBTerm i))
     | RULE \<Rightarrow> sum_bind (getRule d) (\<lambda>(b, i). Inr (ERule b i))
     | END_DECODE \<Rightarrow> Inl WrongOpcode)"

definition dec_item :: "decoder \<Rightarrow> wire_event \<Rightarrow> wire_item" where
  "dec_item d ev = \<lparr>it_event = ev, it_layer = getLayer d, it_jct = getJunctionId d,
     it_color = getColor d, it_viacolor = getViaColor d\<rparr>"

text \<open>
  The client's loop \<open>while ((op = decoder.next()) != END_DECODE)\<close>: the elements, and the
  error that stopped it, if any.
\<close>

function dec_run :: "wire_env \<Rightarrow> wire \<Rightarrow> decoder \<Rightarrow> wire_item list \<times> wire_error option" where
  "dec_run E w d =
     (if d_idx d > w_length w then ([], Some OutOfBounds)
      else case dec_next E w d of
        Inl err \<Rightarrow> ([], Some err)
      | Inr (op, d') \<Rightarrow>
          (if op = END_DECODE then ([], None)
           else case dec_event op d' of
               Inl err \<Rightarrow> ([], Some err)
             | Inr ev \<Rightarrow> (let (items, r) = dec_run E w d' in (dec_item d' ev # items, r))))"
  by pat_completeness auto
termination
  by (relation "measure (\<lambda>(E, w, d). w_length w - d_idx d)") (auto dest!: dec_next_advances)

declare dec_run.simps [simp del]

lemma dec_run_skip:
  assumes "dec_step E w d = Inr (d', None)" "d_idx d \<le> w_length w"
  shows "dec_run E w d = dec_run E w d'"
proof -
  from assms have "d_idx d \<noteq> w_length w" by (auto simp: dec_step_def)
  with dec_step_advances [OF assms(1) this] have "d_idx d' \<le> w_length w"
    by (simp add: dec_advances_def)
  with assms show ?thesis
    by (subst (1 2) dec_run.simps) (simp add: dec_next_skip)
qed

lemma dec_run_event:
  assumes "dec_step E w d = Inr (d', Some op)" "d_idx d < w_length w" "dec_event op d' = Inr ev"
  shows "dec_run E w d = (dec_item d' ev # fst (dec_run E w d'), snd (dec_run E w d'))"
proof -
  have "op \<noteq> END_DECODE" using dec_step_advances [OF assms(1)] assms(2) by (auto simp: dec_advances_def)
  with assms show ?thesis
    by (subst dec_run.simps) (simp add: dec_next_return split: prod.splits)
qed

lemma dec_run_end: "d_idx d = w_length w \<Longrightarrow> dec_run E w d = ([], None)"
  by (subst dec_run.simps) (simp add: dec_next_return [OF dec_step_at_end])

section \<open>peek and next\<close>


text \<open>
  \<open>peek\<close> announces what \<open>next\<close> returns, except that it may take a first point for one without
  an extension.
\<close>

definition peek_agrees :: "decoder \<Rightarrow> dec_op \<Rightarrow> dec_op \<Rightarrow> bool" where
  "peek_agrees d seen op \<longleftrightarrow>
     seen = op \<or> d_point_cnt d = 0 \<and> {seen, op} \<subseteq> {POINT, POINT_EXT}"

lemma read_ext_opcode:
  "read_ext opc w d = Inr d' \<Longrightarrow> d_opcode d' = (if op_flag opc WOP_EXTENSION then POINT_EXT else POINT)"
  by (auto simp: read_ext_def sum_bind_Inr_iff)

lemma end_point_opcode: "end_point w d = Inr (d', r) \<Longrightarrow> r = Some (d_opcode d)"
  by (auto simp: end_point_def Let_def)

lemma dec_step_peek:
  assumes "dec_step E w d = Inr (d', r)" "d_idx d \<noteq> w_length w"
  shows "case r of
      None \<Rightarrow> peek_op (w_opcodes w ! d_idx d) = None \<and> d_idx d' = Suc (d_idx d) \<and> d_point_cnt d' = d_point_cnt d
    | Some op \<Rightarrow> \<exists>seen. peek_op (w_opcodes w ! d_idx d) = Some seen \<and> peek_agrees d seen op"
  using assms
  by (auto simp: dec_step_def Let_def sum_bind_Inr_iff nextOp_Inr peek_op_def peek_agrees_def
      dest!: read_ext_opcode end_point_opcode split: if_splits)

lemma dec_peek_step:
  assumes "d_idx d < w_length w"
  shows "dec_peek w d = (case peek_op (w_opcodes w ! d_idx d) of
           Some op \<Rightarrow> op | None \<Rightarrow> dec_peek w (d\<lparr>d_idx := Suc (d_idx d)\<rparr>))"
  using assms by (simp add: dec_peek_def w_length_def Cons_nth_drop_Suc [symmetric] split: option.split)

lemma dec_peek_idx: "d_idx d = d_idx d' \<Longrightarrow> dec_peek w d = dec_peek w d'"
  by (simp add: dec_peek_def)

lemma next_peek:
  assumes "dec_next E w d = Inr (op, d')" "d_idx d \<le> w_length w"
  shows "peek_agrees d (dec_peek w d) op"
  using assms
proof (induction E w d rule: dec_next.induct)
  case (1 E w d)
  show ?case
  proof (cases "d_idx d = w_length w")
    case True
    with 1(2) show ?thesis
      by (simp add: dec_next_return [OF dec_step_at_end] dec_peek_def w_length_def peek_agrees_def)
  next
    case False
    then have less: "d_idx d < w_length w" using 1(3) by simp
    obtain out where out: "dec_step E w d = Inr out"
      using 1(2) by (subst (asm) dec_next.simps) (auto split: sum.splits)
    obtain d1 r where o: "out = (d1, r)" by (cases out)
    note st = dec_step_peek [OF out [unfolded o] False]
    show ?thesis
    proof (cases r)
      case None
      with st have d1: "peek_op (w_opcodes w ! d_idx d) = None" "d_idx d1 = Suc (d_idx d)"
        "d_point_cnt d1 = d_point_cnt d" by auto
      have "dec_next E w d1 = Inr (op, d')" using 1(2) dec_next_skip [of E w d d1] out o None by simp
      with 1(1) [OF out o [symmetric] None] d1 less
      have "peek_agrees d1 (dec_peek w d1) op" by simp
      moreover have "dec_peek w d = dec_peek w d1"
        using d1 dec_peek_idx [of d1 "d\<lparr>d_idx := Suc (d_idx d)\<rparr>" w] by (simp add: dec_peek_step [OF less])
      ultimately show ?thesis using d1(3) by (simp add: peek_agrees_def)
    next
      case (Some op')
      with st o out 1(2) show ?thesis
        by (auto simp: dec_next_return dec_peek_step [OF less])
    qed
  qed
qed

end
