(* ===== verification/OdbWireCodec.thy ===== *)
theory OdbWireCodec imports OdbWireEncoder OdbWireDecoder begin

text \<open>
  Encoder against decoder.  A relation between an encoder that has written a wire up to some
  position and a decoder that has read it up to there is kept by every command: decoding
  what the command wrote yields exactly the elements the command stands for, with their
  layer, junction id and mask colours.
\<close>

section \<open>Bits of the opcodes\<close>

definition wire_bits :: "u8 set" where
  "wire_bits = {WOP_NONE, WOP_COVER, WOP_FIXED, WOP_ROUTED, WOP_NOSHIELD}"

definition rule_codes :: "u8 set" where
  "rule_codes = {WOP_RULE, WOP_RULE OR WOP_BLOCK_RULE}"

definition widths :: "u8 set" where
  "widths = {0, WOP_DEFAULT_WIDTH}"

lemma path_opcodes:
  assumes "b \<in> wire_bits"
  shows "op_code (WOP_PATH OR b) = WOP_PATH" "op_code (WOP_SHORT OR b) = WOP_SHORT"
    "op_code (WOP_JUNCTION OR b) = WOP_JUNCTION" "op_code (WOP_VWIRE OR b) = WOP_VWIRE"
    "op_wire_type (WOP_PATH OR b) = b" "op_wire_type (WOP_SHORT OR b) = b"
    "op_wire_type (WOP_JUNCTION OR b) = b" "op_wire_type (WOP_VWIRE OR b) = b"
  using assms by (auto simp: wire_bits_def op_code_def op_wire_type_def)

lemma point_opcodes:
  assumes "b \<in> widths"
  shows "op_code (WOP_X OR b) = WOP_X" "op_code (WOP_Y OR b) = WOP_Y"
    "op_code (WOP_COLINEAR OR b) = WOP_COLINEAR"
    "op_code (WOP_X OR WOP_EXTENSION OR b) = WOP_X" "op_code (WOP_Y OR WOP_EXTENSION OR b) = WOP_Y"
    "op_code (WOP_COLINEAR OR WOP_EXTENSION OR b) = WOP_COLINEAR"
    "\<not> op_flag (WOP_X OR b) WOP_EXTENSION" "\<not> op_flag (WOP_Y OR b) WOP_EXTENSION"
    "\<not> op_flag (WOP_COLINEAR OR b) WOP_EXTENSION"
    "op_flag (WOP_X OR WOP_EXTENSION OR b) WOP_EXTENSION"
    "op_flag (WOP_Y OR WOP_EXTENSION OR b) WOP_EXTENSION"
    "op_flag (WOP_COLINEAR OR WOP_EXTENSION OR b) WOP_EXTENSION"
  using assms by (auto simp: widths_def op_code_def op_flag_def)

lemma rule_opcodes: "r \<in> rule_codes \<Longrightarrow> op_code r = WOP_RULE"
  by (auto simp: rule_codes_def op_code_def)

text \<open>Three 2-bit colours fit a byte and come back from it.\<close>

lemma pack_unpack_via_color:
  assumes "b \<le> 3" "c \<le> 3" "t \<le> 3"
  shows "unpack_via_color (pack_via_color b c t) = \<lparr>bottom_color = b, cut_color = c, top_color = t\<rparr>"
proof -
  have "b \<in> {0, 1, 2, 3}" "c \<in> {0, 1, 2, 3}" "t \<in> {0, 1, 2, 3}"
    using assms by (auto simp: word_le_nat_alt) (unat_arith, unat_arith, unat_arith)
  then show ?thesis
    by (auto simp: unpack_via_color_def pack_via_color_def)
qed

lemma pack_via_color_zero:
  assumes "b \<le> 3" "c \<le> 3" "t \<le> 3"
  shows "pack_via_color b c t = 0 \<longleftrightarrow> b = 0 \<and> c = 0 \<and> t = 0"
proof
  assume "pack_via_color b c t = 0"
  with pack_unpack_via_color [OF assms]
  have "\<lparr>bottom_color = b, cut_color = c, top_color = t\<rparr> = unpack_via_color 0" by simp
  then show "b = 0 \<and> c = 0 \<and> t = 0" by (simp add: unpack_via_color_def)
qed (simp add: pack_via_color_def)

section \<open>Decoding one opcode\<close>

text \<open>What is left of a wire from a position on.\<close>

definition wtail :: "wire \<Rightarrow> nat \<Rightarrow> (u8 \<times> int) list" where
  "wtail w i = drop i (zip (w_opcodes w) (w_data w))"

definition wire_ok :: "wire \<Rightarrow> bool" where
  "wire_ok w \<longleftrightarrow> length (w_opcodes w) = length (w_data w)"

lemma wtail_Cons:
  assumes "wtail w i = (opc, v) # rest"
  shows "i < w_length w" "i < length (w_data w)" "w_opcodes w ! i = opc" "w_data w ! i = v"
    "wtail w (Suc i) = rest"
proof -
  have i: "i < length (zip (w_opcodes w) (w_data w))"
    using assms unfolding wtail_def by (metis drop_eq_Nil leI list.distinct(1))
  then show "i < w_length w" "i < length (w_data w)" by (auto simp: w_length_def)
  have "zip (w_opcodes w) (w_data w) ! i = (opc, v)"
    using assms i unfolding wtail_def by (simp add: Cons_nth_drop_Suc [symmetric])
  then show "w_opcodes w ! i = opc" "w_data w ! i = v" using i by auto
  show "wtail w (Suc i) = rest"
    using assms i unfolding wtail_def by (simp add: Cons_nth_drop_Suc [symmetric])
qed

lemma wtail_append:
  assumes "wtail w i = ops @ rest"
  shows "wtail w (i + length ops) = rest"
proof -
  have "drop (length ops) (wtail w i) = wtail w (length ops + i)" by (simp add: wtail_def)
  with assms show ?thesis by (simp add: add.commute)
qed

lemma wtail_Nil: "wire_ok w \<Longrightarrow> i \<le> w_length w \<Longrightarrow> wtail w i = [] \<longleftrightarrow> i = w_length w"
  by (auto simp: wtail_def wire_ok_def w_length_def)

lemma nextOp_wtail:
  assumes "wtail w (d_idx d) = (opc, v) # rest"
  shows "nextOp w d = Inr (opc, v, d\<lparr>d_idx := Suc (d_idx d)\<rparr>)"
  using wtail_Cons [OF assms] by (simp add: nextOp_def)

definition no_rule :: "(u8 \<times> int) list \<Rightarrow> bool" where
  "no_rule rest \<longleftrightarrow> (case rest of [] \<Rightarrow> True | (opc, _) # _ \<Rightarrow> op_code opc \<noteq> WOP_RULE)"

lemma flushRule_none:
  assumes "wtail w (d_idx d) = rest" "no_rule rest" "wire_ok w" "d_idx d \<le> w_length w"
  shows "flushRule w d = d"
proof (cases rest)
  case Nil
  then show ?thesis using assms wtail_Nil [of w "d_idx d"] by (simp add: flushRule_def)
next
  case (Cons p ps)
  obtain opc v where "p = (opc, v)" by (cases p)
  with Cons assms wtail_Cons [of w "d_idx d" opc v ps] show ?thesis
    by (auto simp: flushRule_def no_rule_def)
qed

lemma flushRule_rule:
  assumes "wtail w (d_idx d) = (r, v) # rest" "op_code r = WOP_RULE"
  shows "flushRule w d = d\<lparr>d_idx := Suc (d_idx d)\<rparr>"
  using wtail_Cons [OF assms(1)] assms(2) by (simp add: flushRule_def)

text \<open>The decoder yields \<open>items\<close> on the way from \<open>d\<close> to \<open>d'\<close>.\<close>

definition emits :: "wire_env \<Rightarrow> wire \<Rightarrow> decoder \<Rightarrow> wire_item list \<Rightarrow> decoder \<Rightarrow> bool" where
  "emits E w d items d' \<longleftrightarrow>
     d_idx d' \<le> w_length w \<and>
     dec_run E w d = (items @ fst (dec_run E w d'), snd (dec_run E w d'))"

lemma emits_refl: "d_idx d \<le> w_length w \<Longrightarrow> emits E w d [] d"
  by (simp add: emits_def)

lemma emits_trans: "emits E w d xs d' \<Longrightarrow> emits E w d' ys d'' \<Longrightarrow> emits E w d (xs @ ys) d''"
  by (simp add: emits_def)

lemma emits_event:
  assumes "dec_step E w d = Inr (d', Some op)" "d_idx d < w_length w" "dec_event op d' = Inr ev"
  shows "emits E w d [dec_item d' ev] d'"
proof -
  have "d_idx d' \<le> w_length w"
    using dec_step_advances [OF assms(1)] assms(2) by (simp add: dec_advances_def)
  with dec_run_event [OF assms] show ?thesis by (simp add: emits_def)
qed

lemma emits_skip:
  assumes "dec_step E w d = Inr (d', None)" "d_idx d < w_length w"
  shows "emits E w d [] d'"
proof -
  have "d_idx d' \<le> w_length w"
    using dec_step_advances [OF assms(1)] assms(2) by (simp add: dec_advances_def)
  with dec_run_skip [OF assms(1)] assms(2) show ?thesis by (simp add: emits_def)
qed

text \<open>The decoder after the common first lines of \<open>next\<close>.\<close>

definition fetched :: "int \<Rightarrow> decoder \<Rightarrow> decoder" where
  "fetched v d = d\<lparr>d_idx := Suc (d_idx d), d_jct_id := int (d_idx d), d_operand := v\<rparr>"

lemma dec_step_fetch:
  assumes "wtail w (d_idx d) = (opc, v) # rest"
  shows "d_idx d \<noteq> w_length w" "d_idx d < w_length w"
    "nextOp w d = Inr (opc, v, d\<lparr>d_idx := Suc (d_idx d)\<rparr>)"
  using wtail_Cons [OF assms] nextOp_wtail [OF assms] by auto

definition type_of_bits :: "u8 \<Rightarrow> dbWireType" where
  "type_of_bits b =
     (if b = WOP_COVER then WireType_COVER else if b = WOP_FIXED then WireType_FIXED
      else if b = WOP_ROUTED then WireType_ROUTED else if b = WOP_NOSHIELD then WireType_NOSHIELD
      else WireType_NONE)"

lemma start_path_bits:
  assumes "op_wire_type opc = b" "b \<in> wire_bits"
  shows "start_path opc layer d = d\<lparr>d_layer := layer, d_point_cnt := 0, d_default_width := True,
           d_wire_type := type_of_bits b\<rparr>"
  using assms by (auto simp: start_path_def set_wire_type_def type_of_bits_def wire_bits_def)

abbreviation item :: "wire_event \<Rightarrow> int \<Rightarrow> int \<Rightarrow> u8 option \<Rightarrow> ViaColor option \<Rightarrow> wire_item" where
  "item ev layer jct col vcol \<equiv>
     \<lparr>it_event = ev, it_layer = layer, it_jct = jct, it_color = col, it_viacolor = vcol\<rparr>"

lemma emits_item:
  assumes "dec_step E w d = Inr (d', Some op)" "d_idx d < w_length w" "dec_event op d' = Inr ev"
      and "d_layer d' = layer" "d_jct_id d' = jct" "d_color d' = col" "d_viacolor d' = vcol"
  shows "emits E w d [item ev layer jct col vcol] d'"
  using emits_event [OF assms(1-3)] assms(4-) by (simp add: dec_item_def getter_defs)

lemma emits_path:
  assumes "wtail w (d_idx d) = (opc, v) # rest" "op_code opc = WOP_PATH" "op_wire_type opc = b" "b \<in> wire_bits"
  shows "emits E w d [item (EPath (type_of_bits b)) v (int (d_idx d)) (d_color d) (d_viacolor d)]
           ((fetched v d)\<lparr>d_layer := v, d_point_cnt := 0, d_default_width := True,
              d_wire_type := type_of_bits b, d_opcode := PATH\<rparr>)"
  by (rule emits_item [where op = PATH])
     (simp_all add: dec_step_def Let_def dec_step_fetch [OF assms(1)] assms(2)
        start_path_bits [OF assms(3,4)] fetched_def dec_event_def getter_defs)

lemma emits_short:
  assumes "wtail w (d_idx d) = (opc, v) # (opc', j) # rest" "op_code opc = WOP_SHORT" "op_wire_type opc = b" "b \<in> wire_bits"
  shows "emits E w d [item (EShort j (type_of_bits b)) v (int (d_idx d)) (d_color d) (d_viacolor d)]
           ((fetched v d)\<lparr>d_idx := d_idx d + 2, d_layer := v, d_point_cnt := 0, d_default_width := True,
              d_wire_type := type_of_bits b, d_operand2 := j, d_opcode := SHORT\<rparr>)"
proof -
  have "nextOp w (d\<lparr>d_idx := Suc (d_idx d), d_jct_id := int (d_idx d), d_operand := v, d_layer := v,
      d_point_cnt := 0, d_default_width := True, d_wire_type := type_of_bits b\<rparr>)
    = Inr (opc', j, d\<lparr>d_idx := d_idx d + 2, d_jct_id := int (d_idx d), d_operand := v, d_layer := v,
      d_point_cnt := 0, d_default_width := True, d_wire_type := type_of_bits b\<rparr>)"
    by (subst nextOp_wtail [of _ _ opc' j rest]) (simp_all add: wtail_Cons(5) [OF assms(1)])
  then show ?thesis
    by (intro emits_item [where op = SHORT])
       (simp_all add: dec_step_def Let_def dec_step_fetch [OF assms(1)] assms(2)
          start_path_bits [OF assms(3,4)] fetched_def dec_event_def getter_defs)
qed

lemma emits_vwire:
  assumes "wtail w (d_idx d) = (opc, v) # (opc', j) # rest" "op_code opc = WOP_VWIRE" "op_wire_type opc = b" "b \<in> wire_bits"
  shows "emits E w d [item (EVWire j (type_of_bits b)) v (int (d_idx d)) (d_color d) (d_viacolor d)]
           ((fetched v d)\<lparr>d_idx := d_idx d + 2, d_layer := v, d_point_cnt := 0, d_default_width := True,
              d_wire_type := type_of_bits b, d_operand2 := j, d_opcode := VWIRE\<rparr>)"
proof -
  have "nextOp w (d\<lparr>d_idx := Suc (d_idx d), d_jct_id := int (d_idx d), d_operand := v, d_layer := v,
      d_point_cnt := 0, d_default_width := True, d_wire_type := type_of_bits b\<rparr>)
    = Inr (opc', j, d\<lparr>d_idx := d_idx d + 2, d_jct_id := int (d_idx d), d_operand := v, d_layer := v,
      d_point_cnt := 0, d_default_width := True, d_wire_type := type_of_bits b\<rparr>)"
    by (subst nextOp_wtail [of _ _ opc' j rest]) (simp_all add: wtail_Cons(5) [OF assms(1)])
  then show ?thesis
    by (intro emits_item [where op = VWIRE])
       (simp_all add: dec_step_def Let_def dec_step_fetch [OF assms(1)] assms(2)
          start_path_bits [OF assms(3,4)] fetched_def dec_event_def getter_defs)
qed

lemma emits_junction:
  assumes "wtail w (d_idx d) = (opc, j) # rest" "op_code opc = WOP_JUNCTION" "op_wire_type opc = b" "b \<in> wire_bits"
      and "getPrevPoint E (w_opcodes w) (w_data w) j True = Inr pnt"
  shows "emits E w d
           [item (EJunction j (type_of_bits b)) (wp_layer pnt) (int (d_idx d)) (d_color d) (d_viacolor d)]
           ((fetched j d)\<lparr>d_x := wp_x pnt, d_y := wp_y pnt, d_layer := wp_layer pnt, d_point_cnt := 0,
              d_default_width := True, d_wire_type := type_of_bits b, d_opcode := JUNCTION\<rparr>)"
  by (rule emits_item [where op = JUNCTION])
     (simp_all add: dec_step_def Let_def dec_step_fetch [OF assms(1)] assms(2)
        start_path_bits [OF assms(3,4)] fetched_def dec_event_def getter_defs assms(5))

lemma emits_rule:
  assumes "wtail w (d_idx d) = (r, v) # rest" "op_code r = WOP_RULE"
  shows "emits E w d
           [item (ERule (op_flag r WOP_BLOCK_RULE) v) (d_layer d) (int (d_idx d)) (d_color d) (d_viacolor d)]
           ((fetched v d)\<lparr>d_default_width := False, d_block_rule := op_flag r WOP_BLOCK_RULE,
              d_opcode := RULE\<rparr>)"
  by (rule emits_item [where op = RULE])
     (simp_all add: dec_step_def Let_def dec_step_fetch [OF assms(1)] assms(2)
        fetched_def dec_event_def getter_defs)

lemma flushRule_fields [simp]:
  "d_x (flushRule w d) = d_x d" "d_y (flushRule w d) = d_y d" "d_layer (flushRule w d) = d_layer d"
  "d_jct_id (flushRule w d) = d_jct_id d" "d_point_cnt (flushRule w d) = d_point_cnt d"
  "d_color (flushRule w d) = d_color d" "d_viacolor (flushRule w d) = d_viacolor d"
  "d_operand (flushRule w d) = d_operand d" "d_operand2 (flushRule w d) = d_operand2 d"
  by (simp_all add: flushRule_def)

lemma emits_first_point:
  assumes "wtail w (d_idx d) = (ox, x) # (oy, y) # rest" "op_code ox = WOP_X"
      and "\<not> op_flag oy WOP_EXTENSION" "d_point_cnt d = 0"
  shows "emits E w d [item (EPoint x y) (d_layer d) (int (d_idx d) + 1) (d_color d) (d_viacolor d)]
           ((fetched x d)\<lparr>d_idx := d_idx d + 2, d_x := x, d_y := y, d_jct_id := int (d_idx d) + 1,
              d_point_cnt := 1, d_opcode := POINT\<rparr>)"
proof -
  have "nextOp w (d\<lparr>d_idx := Suc (d_idx d), d_jct_id := int (d_idx d), d_operand := x\<rparr>)
    = Inr (oy, y, d\<lparr>d_idx := d_idx d + 2, d_jct_id := int (d_idx d), d_operand := x\<rparr>)"
    by (subst nextOp_wtail [of _ _ oy y rest]) (simp_all add: wtail_Cons(5) [OF assms(1)])
  with assms(2-) show ?thesis
    by (intro emits_item [where op = POINT])
       (simp_all add: dec_step_def Let_def dec_step_fetch [OF assms(1)] read_ext_def
          fetched_def dec_event_def getter_defs)
qed

lemma emits_first_point_ext:
  assumes "wtail w (d_idx d) = (ox, x) # (oy, y) # (oe, ext) # rest" "op_code ox = WOP_X"
      and "op_flag oy WOP_EXTENSION" "d_point_cnt d = 0"
  shows "emits E w d [item (EPointExt x y ext) (d_layer d) (int (d_idx d) + 1) (d_color d) (d_viacolor d)]
           ((fetched x d)\<lparr>d_idx := d_idx d + 3, d_x := x, d_y := y, d_jct_id := int (d_idx d) + 1,
              d_point_cnt := 1, d_operand2 := ext, d_opcode := POINT_EXT\<rparr>)"
proof -
  note t1 = wtail_Cons(5) [OF assms(1)]
  have n1: "nextOp w (d\<lparr>d_idx := Suc (d_idx d), d_jct_id := int (d_idx d), d_operand := x\<rparr>)
    = Inr (oy, y, d\<lparr>d_idx := d_idx d + 2, d_jct_id := int (d_idx d), d_operand := x\<rparr>)"
    by (subst nextOp_wtail [of _ _ oy y "(oe, ext) # rest"]) (simp_all add: t1)
  have n2: "\<And>d'. d_idx d' = Suc (Suc (d_idx d)) \<Longrightarrow>
      nextOp w d' = Inr (oe, ext, d'\<lparr>d_idx := d_idx d + 3\<rparr>)"
    by (subst nextOp_wtail [of _ _ oe ext rest]) (simp_all add: wtail_Cons(5) [OF t1])
  from assms(2-) n1 show ?thesis
    by (intro emits_item [where op = POINT_EXT])
       (simp_all add: dec_step_def Let_def dec_step_fetch [OF assms(1)] read_ext_def n2
          fetched_def dec_event_def getter_defs)
qed

lemma emits_x:
  assumes "wtail w (d_idx d) = (ox, x) # rest" "op_code ox = WOP_X"
      and "\<not> op_flag ox WOP_EXTENSION" "d_point_cnt d \<noteq> 0"
  shows "emits E w d [item (EPoint x (d_y d)) (d_layer d) (int (d_idx d)) (d_color d) (d_viacolor d)]
           (flushRule w ((fetched x d)\<lparr>d_x := x, d_point_cnt := d_point_cnt d + 1,
              d_opcode := POINT, d_property := 0\<rparr>))"
  using assms(2-)
  by (intro emits_item [where op = POINT])
     (simp_all add: dec_step_def Let_def dec_step_fetch [OF assms(1)] read_ext_def end_point_def
        fetched_def dec_event_def getter_defs)

lemma emits_y:
  assumes "wtail w (d_idx d) = (oy, y) # rest" "op_code oy = WOP_Y"
      and "\<not> op_flag oy WOP_EXTENSION" "d_point_cnt d \<noteq> 0"
  shows "emits E w d [item (EPoint (d_x d) y) (d_layer d) (int (d_idx d)) (d_color d) (d_viacolor d)]
           (flushRule w ((fetched y d)\<lparr>d_y := y, d_point_cnt := d_point_cnt d + 1,
              d_opcode := POINT, d_property := 0\<rparr>))"
  using assms(2-)
  by (intro emits_item [where op = POINT])
     (simp_all add: dec_step_def Let_def dec_step_fetch [OF assms(1)] read_ext_def end_point_def
        fetched_def dec_event_def getter_defs)

lemma nextOp_second:
  assumes "wtail w (d_idx d) = p # (opc, v) # rest" "d_idx d' = Suc (d_idx d)"
  shows "nextOp w d' = Inr (opc, v, d'\<lparr>d_idx := d_idx d + 2\<rparr>)"
proof -
  obtain a b where "p = (a, b)" by (cases p)
  with assms wtail_Cons(5) [of w "d_idx d" a b "(opc, v) # rest"]
  have "wtail w (d_idx d') = (opc, v) # rest" by simp
  from nextOp_wtail [OF this] assms(2) show ?thesis by simp
qed

lemma emits_x_ext:
  assumes "wtail w (d_idx d) = (ox, x) # (oe, ext) # rest" "op_code ox = WOP_X"
      and "op_flag ox WOP_EXTENSION" "d_point_cnt d \<noteq> 0"
  shows "emits E w d [item (EPointExt x (d_y d) ext) (d_layer d) (int (d_idx d)) (d_color d) (d_viacolor d)]
           (flushRule w ((fetched x d)\<lparr>d_x := x, d_point_cnt := d_point_cnt d + 1, d_idx := d_idx d + 2,
              d_operand2 := ext, d_opcode := POINT_EXT, d_property := 0\<rparr>))"
  using assms(2-)
  by (intro emits_item [where op = POINT_EXT])
     (simp_all add: dec_step_def Let_def dec_step_fetch [OF assms(1)] read_ext_def end_point_def
        nextOp_second [OF assms(1)] fetched_def dec_event_def getter_defs)

lemma emits_y_ext:
  assumes "wtail w (d_idx d) = (oy, y) # (oe, ext) # rest" "op_code oy = WOP_Y"
      and "op_flag oy WOP_EXTENSION" "d_point_cnt d \<noteq> 0"
  shows "emits E w d [item (EPointExt (d_x d) y ext) (d_layer d) (int (d_idx d)) (d_color d) (d_viacolor d)]
           (flushRule w ((fetched y d)\<lparr>d_y := y, d_point_cnt := d_point_cnt d + 1, d_idx := d_idx d + 2,
              d_operand2 := ext, d_opcode := POINT_EXT, d_property := 0\<rparr>))"
  using assms(2-)
  by (intro emits_item [where op = POINT_EXT])
     (simp_all add: dec_step_def Let_def dec_step_fetch [OF assms(1)] read_ext_def end_point_def
        nextOp_second [OF assms(1)] fetched_def dec_event_def getter_defs)

lemma emits_colinear:
  assumes "wtail w (d_idx d) = (oc, v) # rest" "op_code oc = WOP_COLINEAR" "\<not> op_flag oc WOP_EXTENSION"
  shows "emits E w d [item (EPoint (d_x d) (d_y d)) (d_layer d) (int (d_idx d)) (d_color d) (d_viacolor d)]
           (flushRule w ((fetched v d)\<lparr>d_point_cnt := d_point_cnt d + 1, d_opcode := POINT,
              d_property := 0\<rparr>))"
  using assms(2-)
  by (intro emits_item [where op = POINT])
     (simp_all add: dec_step_def Let_def dec_step_fetch [OF assms(1)] end_point_def
        fetched_def dec_event_def getter_defs)

lemma emits_colinear_ext:
  assumes "wtail w (d_idx d) = (oc, ext) # rest" "op_code oc = WOP_COLINEAR" "op_flag oc WOP_EXTENSION"
  shows "emits E w d
           [item (EPointExt (d_x d) (d_y d) ext) (d_layer d) (int (d_idx d)) (d_color d) (d_viacolor d)]
           (flushRule w ((fetched ext d)\<lparr>d_point_cnt := d_point_cnt d + 1, d_operand2 := ext,
              d_opcode := POINT_EXT, d_property := 0\<rparr>))"
  using assms(2-)
  by (intro emits_item [where op = POINT_EXT])
     (simp_all add: dec_step_def Let_def dec_step_fetch [OF assms(1)] end_point_def
        fetched_def dec_event_def getter_defs)

lemma emits_via:
  assumes "wtail w (d_idx d) = (opc, v) # rest" "op_code opc = WOP_VIA"
      and "layer = (if op_flag opc WOP_VIA_EXIT_TOP then via_top E v else via_bottom E v)"
  shows "emits E w d [item (EVia v) layer (int (d_idx d)) (d_color d) (d_viacolor d)]
           ((fetched v d)\<lparr>d_layer := layer, d_opcode := VIA\<rparr>)"
  using assms(2-)
  by (intro emits_item [where op = VIA])
     (simp_all add: dec_step_def Let_def dec_step_fetch [OF assms(1)]
        fetched_def dec_event_def getter_defs)

lemma emits_tech_via:
  assumes "wtail w (d_idx d) = (opc, v) # rest" "op_code opc = WOP_TECH_VIA"
      and "layer = (if op_flag opc WOP_VIA_EXIT_TOP then techvia_top E v else techvia_bottom E v)"
  shows "emits E w d [item (ETechVia v) layer (int (d_idx d)) (d_color d) (d_viacolor d)]
           ((fetched v d)\<lparr>d_layer := layer, d_opcode := TECH_VIA\<rparr>)"
  using assms(2-)
  by (intro emits_item [where op = TECH_VIA])
     (simp_all add: dec_step_def Let_def dec_step_fetch [OF assms(1)]
        fetched_def dec_event_def getter_defs)

lemma emits_iterm:
  assumes "wtail w (d_idx d) = (opc, v) # rest" "op_code opc = WOP_ITERM"
  shows "emits E w d [item (EITerm v) (d_layer d) (int (d_idx d)) (d_color d) (d_viacolor d)]
           ((fetched v d)\<lparr>d_opcode := ITERM\<rparr>)"
  using assms(2-)
  by (intro emits_item [where op = ITERM])
     (simp_all add: dec_step_def Let_def dec_step_fetch [OF assms(1)]
        fetched_def dec_event_def getter_defs)

lemma emits_bterm:
  assumes "wtail w (d_idx d) = (opc, v) # rest" "op_code opc = WOP_BTERM"
  shows "emits E w d [item (EBTerm v) (d_layer d) (int (d_idx d)) (d_color d) (d_viacolor d)]
           ((fetched v d)\<lparr>d_opcode := BTERM\<rparr>)"
  using assms(2-)
  by (intro emits_item [where op = BTERM])
     (simp_all add: dec_step_def Let_def dec_step_fetch [OF assms(1)]
        fetched_def dec_event_def getter_defs)

lemma emits_rect:
  assumes "wtail w (d_idx d) = (opc, x1) # (o1, y1) # (o2, x2) # (o3, y2) # rest"
      and "op_code opc = WOP_RECT"
  shows "emits E w d [item (ERect x1 y1 x2 y2) (d_layer d) (int (d_idx d)) (d_color d) (d_viacolor d)]
           ((fetched x1 d)\<lparr>d_idx := d_idx d + 4, d_deltaX1 := x1, d_deltaY1 := y1, d_deltaX2 := x2,
              d_deltaY2 := y2, d_opcode := RECT\<rparr>)"
proof -
  note t1 = wtail_Cons(5) [OF assms(1)]
  note t2 = wtail_Cons(5) [OF t1]
  note t3 = wtail_Cons(5) [OF t2]
  have n1: "\<And>d'. d_idx d' = Suc (d_idx d) \<Longrightarrow> nextOp w d' = Inr (o1, y1, d'\<lparr>d_idx := d_idx d + 2\<rparr>)"
    by (subst nextOp_wtail [of _ _ o1 y1 "(o2, x2) # (o3, y2) # rest"]) (simp_all add: t1)
  have n2: "\<And>d'. d_idx d' = Suc (Suc (d_idx d)) \<Longrightarrow>
      nextOp w d' = Inr (o2, x2, d'\<lparr>d_idx := d_idx d + 3\<rparr>)"
    by (subst nextOp_wtail [of _ _ o2 x2 "(o3, y2) # rest"]) (simp_all add: t2)
  have n3: "\<And>d'. d_idx d' = d_idx d + 3 \<Longrightarrow> nextOp w d' = Inr (o3, y2, d'\<lparr>d_idx := d_idx d + 4\<rparr>)"
    by (subst nextOp_wtail [of _ _ o3 y2 rest]) (simp_all add: t3 numeral_3_eq_3)
  show ?thesis using assms(2)
    by (intro emits_item [where op = RECT])
       (simp_all add: dec_step_def Let_def dec_step_fetch [OF assms(1)] n1 n2 n3
          fetched_def dec_event_def getter_defs)
qed

lemma emits_property:
  assumes "wtail w (d_idx d) = (opc, v) # rest" "op_code opc = WOP_PROPERTY"
  shows "emits E w d [] (fetched v d)"
  using assms(2)
  by (intro emits_skip) (simp_all add: dec_step_def Let_def dec_step_fetch [OF assms(1)] fetched_def)

lemma emits_color:
  assumes "wtail w (d_idx d) = (opc, v) # rest" "op_code opc = WOP_COLOR"
  shows "emits E w d [] ((fetched v d)\<lparr>d_color :=
           (if word_of_int v = (0::u8) then None else Some (word_of_int v))\<rparr>)"
  using assms(2)
  by (intro emits_skip) (simp_all add: dec_step_def Let_def dec_step_fetch [OF assms(1)] fetched_def)

lemma emits_viacolor:
  assumes "wtail w (d_idx d) = (opc, v) # rest" "op_code opc = WOP_VIACOLOR"
  shows "emits E w d [] ((fetched v d)\<lparr>d_viacolor :=
           (if word_of_int v = (0::u8) then None else Some (unpack_via_color (word_of_int v)))\<rparr>)"
  using assms(2)
  by (intro emits_skip) (simp_all add: dec_step_def Let_def dec_step_fetch [OF assms(1)] fetched_def)

section \<open>What the encoder keeps\<close>

definition enc_ok :: "encoder \<Rightarrow> bool" where
  "enc_ok e \<longleftrightarrow>
     length (enc_opcodes e) = length (enc_data e) \<and> enc_idx e = int (length (enc_opcodes e)) \<and>
     enc_wire_type e \<in> wire_bits \<and>
     (enc_non_default_rule e \<noteq> 0 \<longrightarrow> enc_rule_opcode e \<in> rule_codes) \<and>
     junctions_back (enc_opcodes e) (enc_data e)"

text \<open>The wire holds what the encoder wrote, followed by \<open>post\<close>.\<close>

definition extends :: "wire \<Rightarrow> encoder \<Rightarrow> (u8 \<times> int) list \<Rightarrow> bool" where
  "extends w e post \<longleftrightarrow>
     w_opcodes w = enc_opcodes e @ map fst post \<and> w_data w = enc_data e @ map snd post"

lemma extends_addOp [simp]: "extends w (addOp opc v e) post \<longleftrightarrow> extends w e ((opc, v) # post)"
  by (simp add: extends_def addOp_def)

lemma extends_updates [simp]:
  "extends w (e\<lparr>enc_layer := a\<rparr>) post = extends w e post"
  "extends w (e\<lparr>enc_x := a\<rparr>) post = extends w e post"
  "extends w (e\<lparr>enc_y := a\<rparr>) post = extends w e post"
  "extends w (e\<lparr>enc_non_default_rule := a\<rparr>) post = extends w e post"
  "extends w (e\<lparr>enc_point_cnt := n\<rparr>) post = extends w e post"
  "extends w (e\<lparr>enc_via_cnt := n\<rparr>) post = extends w e post"
  "extends w (e\<lparr>enc_prev_ext := q\<rparr>) post = extends w e post"
  "extends w (e\<lparr>enc_wire_type := u\<rparr>) post = extends w e post"
  "extends w (e\<lparr>enc_rule_opcode := u\<rparr>) post = extends w e post"
  by (simp_all add: extends_def)

lemma addOp_fields [simp]:
  "enc_layer (addOp opc v e) = enc_layer e" "enc_x (addOp opc v e) = enc_x e"
  "enc_y (addOp opc v e) = enc_y e" "enc_non_default_rule (addOp opc v e) = enc_non_default_rule e"
  "enc_point_cnt (addOp opc v e) = enc_point_cnt e" "enc_via_cnt (addOp opc v e) = enc_via_cnt e"
  "enc_prev_ext (addOp opc v e) = enc_prev_ext e" "enc_wire_type (addOp opc v e) = enc_wire_type e"
  "enc_rule_opcode (addOp opc v e) = enc_rule_opcode e"
  "enc_idx (addOp opc v e) = enc_idx e + 1"
  "enc_opcodes (addOp opc v e) = enc_opcodes e @ [opc]"
  "enc_data (addOp opc v e) = enc_data e @ [v]"
  by (simp_all add: addOp_def)

definition wire_bits_of :: "dbWireType \<Rightarrow> u8" where
  "wire_bits_of type = (case type of
       WireType_NONE \<Rightarrow> WOP_NONE | WireType_COVER \<Rightarrow> WOP_COVER | WireType_FIXED \<Rightarrow> WOP_FIXED
     | WireType_ROUTED \<Rightarrow> WOP_ROUTED | WireType_NOSHIELD \<Rightarrow> WOP_NOSHIELD | WireType_SHIELD \<Rightarrow> WOP_NONE)"

text \<open>The wire type a decoder reports: \<open>SHIELD\<close> comes back as \<open>NONE\<close>.\<close>

definition shown_type :: "dbWireType \<Rightarrow> dbWireType" where
  "shown_type type = (if type = WireType_SHIELD then WireType_NONE else type)"

lemma wire_bits_of_in [simp]: "wire_bits_of type \<in> wire_bits"
  by (cases type) (simp_all add: wire_bits_of_def wire_bits_def)

lemma type_of_wire_bits [simp]: "type_of_bits (wire_bits_of type) = shown_type type"
  by (cases type) (simp_all add: wire_bits_of_def type_of_bits_def shown_type_def)

lemma initPath_type_eq: "initPath_type layer type e = initPath layer (wire_bits_of type) e"
  by (cases type) (simp_all add: initPath_type_def enc_getWireType_def wire_bits_of_def initPath_def)

lemma initPath_type_rule_eq:
  "initPath_type_rule layer type rule e = initPath_rule layer (wire_bits_of type) rule e"
  by (cases type)
     (simp_all add: initPath_type_rule_def enc_getWireType_def wire_bits_of_def initPath_rule_def)

lemma rule_code_in: "(if is_block_rule rule then WOP_RULE OR WOP_BLOCK_RULE else WOP_RULE) \<in> rule_codes"
  by (simp add: rule_codes_def)

text \<open>
  The eight branches from a junction as one: width flag, rule and extension are options.
\<close>

definition jct_path ::
    "int \<Rightarrow> int option \<Rightarrow> dbWireType option \<Rightarrow> layer_rule option \<Rightarrow> WirePoint \<Rightarrow> encoder \<Rightarrow> encoder" where
  "jct_path jct ext type rule pnt e =
     (let bits = (case type of None \<Rightarrow> enc_wire_type e | Some t \<Rightarrow> wire_bits_of t);
          e = at_point pnt (case rule of None \<Rightarrow> initPath (wp_layer pnt) bits e
                            | Some r \<Rightarrow> initPath_rule (wp_layer pnt) bits r e);
          e = addOp (WOP_JUNCTION OR bits) jct e;
          e = (case rule of None \<Rightarrow> e | Some r \<Rightarrow> addOp (enc_rule_opcode e) (enc_non_default_rule e) e);
          width = (if rule = None then WOP_DEFAULT_WIDTH else 0)
      in (case ext of None \<Rightarrow> addOp (WOP_COLINEAR OR width) 0 e
          | Some x \<Rightarrow> addOp (WOP_COLINEAR OR WOP_EXTENSION OR width) x e))"

lemma enc_step_jct:
  "enc_step E (NewPathJct jct ext type rule) e =
     sum_bind (junction_point E jct e) (\<lambda>pnt. Inr (None, jct_path jct ext type rule pnt e))"
  by (cases ext; cases type; cases rule; cases "junction_point E jct e")
     (simp_all add: newPath_jct_def newPath_jct_type_def newPath_jct_rule_def newPath_jct_type_rule_def
        newPathExt_def newPathExt_type_def newPathExt_rule_def newPathExt_type_rule_def
        jct_path_def Let_def initPath_type_eq initPath_type_rule_eq
        at_point_def initPath_def initPath_rule_def)

declare enc_step.simps(3) [simp del]
declare enc_step_jct [simp]

text \<open>\<open>enc_ok\<close> through the building blocks.\<close>

lemma enc_ok_addOp:
  assumes "enc_ok e" "op_code opc = WOP_JUNCTION \<longrightarrow> 0 \<le> v \<and> v < enc_idx e"
  shows "enc_ok (addOp opc v e)"
  using assms by (simp add: enc_ok_def junctions_back_append)

lemma enc_ok_updates [simp]:
  "enc_ok (e\<lparr>enc_layer := a\<rparr>) = enc_ok e"
  "enc_ok (e\<lparr>enc_x := a\<rparr>) = enc_ok e"
  "enc_ok (e\<lparr>enc_y := a\<rparr>) = enc_ok e"
  "enc_ok (e\<lparr>enc_point_cnt := n\<rparr>) = enc_ok e"
  "enc_ok (e\<lparr>enc_via_cnt := n\<rparr>) = enc_ok e"
  "enc_ok (e\<lparr>enc_prev_ext := q\<rparr>) = enc_ok e"
  by (simp_all add: enc_ok_def)

lemma enc_ok_initPath: "enc_ok e \<Longrightarrow> b \<in> wire_bits \<Longrightarrow> enc_ok (initPath layer b e)"
  by (simp add: enc_ok_def initPath_def)

lemma enc_ok_initPath_rule: "enc_ok e \<Longrightarrow> b \<in> wire_bits \<Longrightarrow> enc_ok (initPath_rule layer b rule e)"
  using rule_code_in [of rule] by (simp add: enc_ok_def initPath_rule_def)

lemma initPath_fields [simp]:
  "enc_wire_type (initPath layer b e) = b" "enc_idx (initPath layer b e) = enc_idx e"
  "enc_layer (initPath layer b e) = layer" "enc_point_cnt (initPath layer b e) = 0"
  "enc_wire_type (initPath_rule layer b rule e) = b" "enc_idx (initPath_rule layer b rule e) = enc_idx e"
  "enc_layer (initPath_rule layer b rule e) = layer" "enc_point_cnt (initPath_rule layer b rule e) = 0"
  "enc_non_default_rule (initPath_rule layer b rule e) = rule_oid rule"
  "enc_rule_opcode (initPath_rule layer b rule e)
     = (if is_block_rule rule then WOP_RULE OR WOP_BLOCK_RULE else WOP_RULE)"
  "extends w (initPath layer b e) post = extends w e post"
  "extends w (initPath_rule layer b rule e) post = extends w e post"
  by (simp_all add: initPath_def initPath_rule_def extends_def)

lemma at_point_fields [simp]:
  "enc_x (at_point pnt e) = wp_x pnt" "enc_y (at_point pnt e) = wp_y pnt"
  "enc_point_cnt (at_point pnt e) = 1" "enc_layer (at_point pnt e) = enc_layer e"
  "enc_idx (at_point pnt e) = enc_idx e" "enc_wire_type (at_point pnt e) = enc_wire_type e"
  "enc_rule_opcode (at_point pnt e) = enc_rule_opcode e"
  "enc_non_default_rule (at_point pnt e) = enc_non_default_rule e"
  "enc_ok (at_point pnt e) = enc_ok e" "extends w (at_point pnt e) post = extends w e post"
  by (simp_all add: at_point_def)

lemma op_code_rule_if:
  "op_code (if q then WOP_RULE OR WOP_BLOCK_RULE else WOP_RULE) = WOP_RULE"
  by (simp add: op_code_def)

lemma enc_ok_newPath: "enc_ok e \<Longrightarrow> enc_ok (newPath layer type e)"
  by (simp add: newPath_def Let_def initPath_type_eq enc_ok_addOp enc_ok_initPath path_opcodes
        del: or.left_neutral)

lemma enc_ok_newPath_rule: "enc_ok e \<Longrightarrow> enc_ok (newPath_rule layer type rule e)"
  by (simp add: newPath_rule_def Let_def initPath_type_rule_eq enc_ok_addOp enc_ok_initPath_rule
        path_opcodes op_code_rule_if del: or.left_neutral or_numerals)

lemma widths_in [simp]: "0 \<in> widths" "WOP_DEFAULT_WIDTH \<in> widths"
  by (simp_all add: widths_def)

lemma enc_ok_jct_path:
  assumes "enc_ok e" "0 \<le> jct" "jct < enc_idx e"
  shows "enc_ok (jct_path jct ext type rule pnt e)"
proof -
  define bits where "bits = (case type of None \<Rightarrow> enc_wire_type e | Some t \<Rightarrow> wire_bits_of t)"
  have b: "bits \<in> wire_bits" using assms(1) by (auto simp: bits_def enc_ok_def split: option.splits)
  define e1 where "e1 = at_point pnt (case rule of None \<Rightarrow> initPath (wp_layer pnt) bits e
                            | Some r \<Rightarrow> initPath_rule (wp_layer pnt) bits r e)"
  have "enc_ok e1" "enc_idx e1 = enc_idx e"
    using assms(1) b by (auto simp: e1_def enc_ok_initPath enc_ok_initPath_rule split: option.splits)
  then have e2: "enc_ok (addOp (WOP_JUNCTION OR bits) jct e1)" using assms by (simp add: enc_ok_addOp)
  define e3 where "e3 = (case rule of None \<Rightarrow> addOp (WOP_JUNCTION OR bits) jct e1
      | Some r \<Rightarrow> addOp (enc_rule_opcode e1) (enc_non_default_rule e1) (addOp (WOP_JUNCTION OR bits) jct e1))"
  have e3: "enc_ok e3"
    using e2 by (auto simp: e3_def e1_def op_code_rule_if intro!: enc_ok_addOp split: option.splits)
  have "jct_path jct ext type rule pnt e =
      (case ext of None \<Rightarrow> addOp (WOP_COLINEAR OR (if rule = None then WOP_DEFAULT_WIDTH else 0)) 0 e3
       | Some x \<Rightarrow> addOp (WOP_COLINEAR OR WOP_EXTENSION OR (if rule = None then WOP_DEFAULT_WIDTH else 0)) x e3)"
    unfolding jct_path_def Let_def e3_def e1_def bits_def by (simp split: option.splits)
  moreover have "(if rule = None then WOP_DEFAULT_WIDTH else 0) \<in> widths" by simp
  ultimately show ?thesis
    using e3 by (auto simp: point_opcodes intro!: enc_ok_addOp split: option.splits)
qed

lemma enc_ok_add_property: "enc_ok e \<Longrightarrow> enc_ok (add_property v e)"
  by (simp add: add_property_def enc_ok_addOp)

lemma enc_ok_add_rule: "enc_ok e \<Longrightarrow> enc_non_default_rule e \<noteq> 0 \<Longrightarrow> enc_ok (add_rule_if_due e)"
  by (auto simp: add_rule_if_due_def enc_ok_def rule_opcodes junctions_back_append)

lemma enc_ok_point_ops:
  "enc_ok e \<Longrightarrow> width \<in> widths \<Longrightarrow> point_ops width x y j e = Inr (j', e') \<Longrightarrow>
   enc_ok e' \<and> enc_non_default_rule e' = enc_non_default_rule e"
  by (auto simp: point_ops_def point_opcodes enc_ok_addOp split: if_splits)

lemma enc_ok_point_ext_ops:
  "enc_ok e \<Longrightarrow> width \<in> widths \<Longrightarrow> point_ext_ops width x y ext j e = Inr (j', e') \<Longrightarrow>
   enc_ok e' \<and> enc_non_default_rule e' = enc_non_default_rule e"
  by (auto simp: point_ext_ops_def point_opcodes enc_ok_addOp split: if_splits)

lemma enc_ok_addPoint: "enc_ok e \<Longrightarrow> addPoint x y p e = Inr (j, e') \<Longrightarrow> enc_ok e'"
  by (auto simp: addPoint_def sum_bind_Inr_iff split: if_splits
        dest!: enc_ok_point_ops [rotated 2] intro!: enc_ok_add_property enc_ok_add_rule)

lemma enc_ok_addPointExt: "enc_ok e \<Longrightarrow> addPointExt x y ext p e = Inr (j, e') \<Longrightarrow> enc_ok e'"
  by (auto simp: addPointExt_def sum_bind_Inr_iff split: if_splits
        dest!: enc_ok_point_ext_ops [rotated 2] intro!: enc_ok_add_property enc_ok_add_rule)

lemma enc_ok_short:
  assumes "enc_ok e" "0 \<le> jct" "jct < enc_idx e"
  shows "newPathShort jct layer type e = Inr e' \<Longrightarrow> enc_ok e'"
    "newPathShort_rule jct layer type rule e = Inr e' \<Longrightarrow> enc_ok e'"
    "newPathVirtualWire jct layer type e = Inr e' \<Longrightarrow> enc_ok e'"
    "newPathVirtualWire_rule jct layer type rule e = Inr e' \<Longrightarrow> enc_ok e'"
  using assms
  by (auto simp: newPathShort_def newPathShort_rule_def newPathVirtualWire_def Let_def
        newPathVirtualWire_rule_def initPath_type_eq initPath_type_rule_eq path_opcodes
        enc_ok_addOp enc_ok_initPath enc_ok_initPath_rule simp del: or.left_neutral)

text \<open>Every command keeps the invariant.\<close>

lemma enc_ok_step:
  assumes "enc_step E c e = Inr (r, e')" "enc_ok e"
  shows "enc_ok e'"
proof (cases c)
  case (NewPath layer type rule)
  with assms show ?thesis
    by (cases rule) (auto simp: enc_ok_newPath enc_ok_newPath_rule)
next
  case (NewPathJct jct ext type rule)
  with assms show ?thesis
    by (auto simp: enc_step_jct sum_bind_Inr_iff junction_point_def split: if_splits
          intro!: enc_ok_jct_path)
next
  case (NewPathShort jct layer type rule)
  have "0 \<le> jct \<and> jct < enc_idx e"
    using assms NewPathShort
    by (cases rule) (auto simp: newPathShort_def newPathShort_rule_def split: if_splits)
  with assms NewPathShort show ?thesis
    by (cases rule) (auto simp: sum_bind_Inr_iff dest: enc_ok_short)
next
  case (NewPathVirtualWire jct layer type rule)
  have "0 \<le> jct \<and> jct < enc_idx e"
    using assms NewPathVirtualWire
    by (cases rule) (auto simp: newPathVirtualWire_def newPathVirtualWire_rule_def split: if_splits)
  with assms NewPathVirtualWire show ?thesis
    by (cases rule) (auto simp: sum_bind_Inr_iff dest: enc_ok_short)
next
  case (AddPoint x y p)
  with assms show ?thesis by (auto simp: sum_bind_Inr_iff dest: enc_ok_addPoint)
next
  case (AddPointExt x y ext p)
  with assms show ?thesis by (auto simp: sum_bind_Inr_iff dest: enc_ok_addPointExt)
qed (use assms in \<open>auto simp: sum_bind_Inr_iff addVia_def addTechVia_def addRect_def enc_addITerm_def
        enc_addBTerm_def setColor_def clearColor_def setViaColor_def clearViaColor_def enc_ok_addOp
        split: if_splits option.splits\<close>)

lemma enc_ok_run: "enc_run E cs e = Inr e' \<Longrightarrow> enc_ok e \<Longrightarrow> enc_ok e'"
  by (induction cs arbitrary: e) (auto simp: sum_bind_Inr_iff intro: enc_ok_step)

lemma enc_ok_begin: "enc_wire_type e \<in> wire_bits \<Longrightarrow> enc_ok (enc_begin e)"
  by (simp add: enc_ok_def enc_begin_def enc_clear_def junctions_back_def)


section \<open>What a command decodes to\<close>

primrec next_color :: "wire_cmd \<Rightarrow> u8 option \<Rightarrow> u8 option" where
  "next_color (NewPath layer type rule) col = col"
| "next_color (NewPathJct jct ext type rule) col = col"
| "next_color (NewPathShort jct layer type rule) col = col"
| "next_color (NewPathVirtualWire jct layer type rule) col = col"
| "next_color (AddPoint x y p) col = col"
| "next_color (AddPointExt x y ext p) col = col"
| "next_color (AddVia v) col = col"
| "next_color (AddTechVia v) col = None"
| "next_color (AddRect x1 y1 x2 y2) col = col"
| "next_color (AddITerm i) col = col"
| "next_color (AddBTerm i) col = col"
| "next_color (SetColor m) col = Some m"
| "next_color ClearColor col = None"
| "next_color (SetViaColor b c t) col = col"
| "next_color ClearViaColor col = col"

definition next_viacolor :: "wire_cmd \<Rightarrow> ViaColor option \<Rightarrow> ViaColor option" where
  "next_viacolor cmd vcol = (case cmd of
       SetViaColor b c t \<Rightarrow> (if b = 0 \<and> c = 0 \<and> t = 0 then None
                            else Some \<lparr>bottom_color = b, cut_color = c, top_color = t\<rparr>)
     | ClearViaColor \<Rightarrow> None
     | _ \<Rightarrow> vcol)"

definition rule_items ::
    "layer_rule option \<Rightarrow> int \<Rightarrow> int \<Rightarrow> u8 option \<Rightarrow> ViaColor option \<Rightarrow> wire_item list" where
  "rule_items rule layer jct col vcol = (case rule of
       None \<Rightarrow> []
     | Some r \<Rightarrow> [item (ERule (is_block_rule r) (rule_oid r)) layer jct col vcol])"

definition first_jct :: "encoder \<Rightarrow> int" where
  "first_jct e = (if enc_point_cnt e = 0 then enc_idx e + 1 else enc_idx e)"

text \<open>
  The elements of a command, from the encoder state before (\<open>e\<close>) and after (\<open>e'\<close>) it.
\<close>

primrec expected ::
    "wire_cmd \<Rightarrow> encoder \<Rightarrow> encoder \<Rightarrow> u8 option \<Rightarrow> ViaColor option \<Rightarrow> wire_item list" where
  "expected (NewPath layer type rule) e e' col vcol =
     item (EPath (shown_type type)) layer (enc_idx e) col vcol
     # rule_items rule layer (enc_idx e + 1) col vcol"
| "expected (NewPathJct jct ext type rule) e e' col vcol =
     item (EJunction jct (case type of None \<Rightarrow> type_of_bits (enc_wire_type e) | Some t \<Rightarrow> shown_type t))
       (enc_layer e') (enc_idx e) col vcol
     # rule_items rule (enc_layer e') (enc_idx e + 1) col vcol
     @ [item (case ext of None \<Rightarrow> EPoint (enc_x e') (enc_y e')
              | Some x \<Rightarrow> EPointExt (enc_x e') (enc_y e') x)
         (enc_layer e') (enc_idx e + (if rule = None then 1 else 2)) col vcol]"
| "expected (NewPathShort jct layer type rule) e e' col vcol =
     item (EShort jct (shown_type type)) layer (enc_idx e) col vcol
     # rule_items rule layer (enc_idx e + 2) col vcol"
| "expected (NewPathVirtualWire jct layer type rule) e e' col vcol =
     item (EVWire jct (shown_type type)) layer (enc_idx e) col vcol
     # rule_items rule layer (enc_idx e + 2) col vcol"
| "expected (AddPoint x y p) e e' col vcol =
     [item (EPoint x y) (enc_layer e) (first_jct e) col vcol]"
| "expected (AddPointExt x y ext p) e e' col vcol =
     [item (EPointExt x y ext) (enc_layer e) (first_jct e) col vcol]"
| "expected (AddVia v) e e' col vcol = [item (EVia v) (enc_layer e') (enc_idx e) col vcol]"
| "expected (AddTechVia v) e e' col vcol = [item (ETechVia v) (enc_layer e') (enc_idx e) col vcol]"
| "expected (AddRect x1 y1 x2 y2) e e' col vcol =
     [item (ERect x1 y1 x2 y2) (enc_layer e) (enc_idx e) col vcol]"
| "expected (AddITerm i) e e' col vcol = [item (EITerm i) (enc_layer e) (enc_idx e) col vcol]"
| "expected (AddBTerm i) e e' col vcol = [item (EBTerm i) (enc_layer e) (enc_idx e) col vcol]"
| "expected (SetColor m) e e' col vcol = []"
| "expected ClearColor e e' col vcol = []"
| "expected (SetViaColor b c t) e e' col vcol = []"
| "expected ClearViaColor e e' col vcol = []"

section \<open>The simulation\<close>

definition synced :: "encoder \<Rightarrow> decoder \<Rightarrow> bool" where
  "synced e d \<longleftrightarrow>
     d_idx d = length (enc_opcodes e) \<and> (d_point_cnt d = 0 \<longleftrightarrow> enc_point_cnt e = 0) \<and>
     (enc_point_cnt e \<noteq> 0 \<longrightarrow> d_x d = enc_x e \<and> d_y d = enc_y e) \<and> d_layer d = enc_layer e"

lemma wtail_extends:
  assumes "enc_ok e" "extends w e post" "synced e d"
  shows "wtail w (d_idx d) = post" "wire_ok w" "d_idx d \<le> w_length w" "int (d_idx d) = enc_idx e"
proof -
  have len: "length (enc_opcodes e) = length (enc_data e)" "enc_idx e = int (length (enc_opcodes e))"
    using assms(1) by (simp_all add: enc_ok_def)
  have "zip (w_opcodes w) (w_data w) = zip (enc_opcodes e) (enc_data e) @ post"
    using assms(2) len by (simp add: extends_def zip_map_fst_snd)
  then show "wtail w (d_idx d) = post" using assms(3) len by (simp add: wtail_def synced_def)
  show "wire_ok w" "d_idx d \<le> w_length w" "int (d_idx d) = enc_idx e"
    using assms len by (simp_all add: extends_def wire_ok_def synced_def w_length_def)
qed

definition simulated :: "wire_env \<Rightarrow> wire \<Rightarrow> wire_cmd \<Rightarrow> encoder \<Rightarrow> encoder \<Rightarrow> decoder \<Rightarrow> bool" where
  "simulated E w c e e' d \<longleftrightarrow>
     (\<exists>d'. synced e' d' \<and> d_color d' = next_color c (d_color d) \<and>
        d_viacolor d' = next_viacolor c (d_viacolor d) \<and>
        emits E w d (expected c e e' (d_color d) (d_viacolor d)) d')"

lemma simulatedI:
  assumes "emits E w d items d'" "items = expected c e e' (d_color d) (d_viacolor d)"
      and "synced e' d'" "d_color d' = next_color c (d_color d)"
      and "d_viacolor d' = next_viacolor c (d_viacolor d)"
  shows "simulated E w c e e' d"
  using assms by (auto simp: simulated_def)

definition same_pos :: "decoder \<Rightarrow> decoder \<Rightarrow> bool" where
  "same_pos d d' \<longleftrightarrow> d_x d' = d_x d \<and> d_y d' = d_y d \<and> d_layer d' = d_layer d \<and>
     d_point_cnt d' = d_point_cnt d \<and> d_color d' = d_color d \<and> d_viacolor d' = d_viacolor d"

definition rule_ops :: "layer_rule option \<Rightarrow> (u8 \<times> int) list" where
  "rule_ops rule = (case rule of None \<Rightarrow> []
     | Some r \<Rightarrow> [(if is_block_rule r then WOP_RULE OR WOP_BLOCK_RULE else WOP_RULE, rule_oid r)])"

lemma emits_rule_items:
  assumes "wtail w (d_idx d) = rule_ops rule @ rest" "d_idx d \<le> w_length w"
  obtains d' where
    "emits E w d (rule_items rule (d_layer d) (int (d_idx d)) (d_color d) (d_viacolor d)) d'"
    "wtail w (d_idx d') = rest" "d_idx d' = d_idx d + length (rule_ops rule)" "same_pos d d'"
proof (cases rule)
  case None
  with assms that [of d] show ?thesis
    by (simp add: rule_ops_def rule_items_def same_pos_def emits_refl)
next
  case (Some r)
  define rc where "rc = (if is_block_rule r then WOP_RULE OR WOP_BLOCK_RULE else WOP_RULE)"
  have rc: "op_code rc = WOP_RULE" "op_flag rc WOP_BLOCK_RULE = is_block_rule r"
    by (simp_all add: rc_def)
  have t: "wtail w (d_idx d) = (rc, rule_oid r) # rest" using assms Some by (simp add: rule_ops_def rc_def)
  show ?thesis
  proof (rule that)
    show "emits E w d (rule_items rule (d_layer d) (int (d_idx d)) (d_color d) (d_viacolor d))
        ((fetched (rule_oid r) d)\<lparr>d_default_width := False, d_block_rule := is_block_rule r,
           d_opcode := RULE\<rparr>)"
      using emits_rule [OF t rc(1), of E] by (simp add: rule_items_def Some rc(2))
  qed (use wtail_Cons(5) [OF t] Some in \<open>simp_all add: rule_ops_def same_pos_def fetched_def\<close>)
qed

lemma sim_NewPath:
  assumes "enc_ok e" "synced e d" "enc_step E (NewPath layer type rule) e = Inr (r, e')" "extends w e' post"
  shows "simulated E w (NewPath layer type rule) e e' d"
proof -
  let ?b = "wire_bits_of type"
  have ext: "extends w e ((WOP_PATH OR ?b, layer) # rule_ops rule @ post)"
    using assms(3,4) by (cases rule) (auto simp: newPath_def newPath_rule_def Let_def initPath_type_eq
        initPath_type_rule_eq rule_ops_def simp del: or.left_neutral)
  note t = wtail_extends [OF assms(1) ext assms(2)]
  note pb = path_opcodes [OF wire_bits_of_in [of type]]
  note em = emits_path [OF t(1) pb(1,5) wire_bits_of_in, of E]
  let ?d1 = "(fetched layer d)\<lparr>d_layer := layer, d_point_cnt := 0, d_default_width := True,
              d_wire_type := type_of_bits ?b, d_opcode := PATH\<rparr>"
  have "wtail w (d_idx ?d1) = rule_ops rule @ post" "d_idx ?d1 \<le> w_length w"
    using wtail_Cons [OF t(1)] by (simp_all add: fetched_def)
  from emits_rule_items [OF this, of E] obtain d' where d':
    "emits E w ?d1 (rule_items rule (d_layer ?d1) (int (d_idx ?d1)) (d_color ?d1) (d_viacolor ?d1)) d'"
    "d_idx d' = d_idx ?d1 + length (rule_ops rule)" "same_pos ?d1 d'" by blast
  show ?thesis
  proof (rule simulatedI [OF emits_trans [OF em d'(1)]])
    show "synced e' d'"
      using assms(2,3) d'(2,3)
      by (cases rule) (auto simp: synced_def same_pos_def fetched_def newPath_def newPath_rule_def Let_def
          initPath_type_eq initPath_type_rule_eq rule_ops_def initPath_def initPath_rule_def)
  qed (use d'(3) t(4) in \<open>simp_all add: same_pos_def fetched_def next_viacolor_def add.commute\<close>)
qed

lemma sim_NewPathShort:
  assumes "enc_ok e" "synced e d" "enc_step E (NewPathShort jct layer type rule) e = Inr (r, e')"
      and "extends w e' post"
  shows "simulated E w (NewPathShort jct layer type rule) e e' d"
proof -
  let ?b = "wire_bits_of type"
  have ext: "extends w e ((WOP_SHORT OR ?b, layer) # (WOP_OPERAND, jct) # rule_ops rule @ post)"
    using assms(3,4) by (cases rule) (auto simp: newPathShort_def newPathShort_rule_def Let_def
        initPath_type_eq initPath_type_rule_eq rule_ops_def split: if_splits)
  note t = wtail_extends [OF assms(1) ext assms(2)]
  note pb = path_opcodes [OF wire_bits_of_in [of type]]
  note em = emits_short [OF t(1) pb(2,6) wire_bits_of_in, of E]
  let ?d1 = "(fetched layer d)\<lparr>d_idx := d_idx d + 2, d_layer := layer, d_point_cnt := 0,
      d_default_width := True, d_wire_type := type_of_bits ?b, d_operand2 := jct, d_opcode := SHORT\<rparr>"
  have "wtail w (d_idx ?d1) = rule_ops rule @ post" "d_idx ?d1 \<le> w_length w"
    using wtail_Cons [OF wtail_Cons(5) [OF t(1)]] by (simp_all add: fetched_def)
  from emits_rule_items [OF this, of E] obtain d' where d':
    "emits E w ?d1 (rule_items rule (d_layer ?d1) (int (d_idx ?d1)) (d_color ?d1) (d_viacolor ?d1)) d'"
    "d_idx d' = d_idx ?d1 + length (rule_ops rule)" "same_pos ?d1 d'" by blast
  show ?thesis
  proof (rule simulatedI [OF emits_trans [OF em d'(1)]])
    show "synced e' d'"
      using assms(2,3) d'(2,3)
      by (cases rule) (auto simp: synced_def same_pos_def fetched_def newPathShort_def
          newPathShort_rule_def Let_def initPath_type_eq initPath_type_rule_eq rule_ops_def initPath_def
          initPath_rule_def split: if_splits)
  qed (use d'(3) t(4) in \<open>simp_all add: same_pos_def fetched_def next_viacolor_def add.commute\<close>)
qed

lemma sim_NewPathVirtualWire:
  assumes "enc_ok e" "synced e d" "enc_step E (NewPathVirtualWire jct layer type rule) e = Inr (r, e')"
      and "extends w e' post"
  shows "simulated E w (NewPathVirtualWire jct layer type rule) e e' d"
proof -
  let ?b = "wire_bits_of type"
  have ext: "extends w e ((WOP_VWIRE OR ?b, layer) # (WOP_OPERAND, jct) # rule_ops rule @ post)"
    using assms(3,4) by (cases rule) (auto simp: newPathVirtualWire_def newPathVirtualWire_rule_def Let_def
        initPath_type_eq initPath_type_rule_eq rule_ops_def split: if_splits)
  note t = wtail_extends [OF assms(1) ext assms(2)]
  note pb = path_opcodes [OF wire_bits_of_in [of type]]
  note em = emits_vwire [OF t(1) pb(4,8) wire_bits_of_in, of E]
  let ?d1 = "(fetched layer d)\<lparr>d_idx := d_idx d + 2, d_layer := layer, d_point_cnt := 0,
      d_default_width := True, d_wire_type := type_of_bits ?b, d_operand2 := jct, d_opcode := VWIRE\<rparr>"
  have "wtail w (d_idx ?d1) = rule_ops rule @ post" "d_idx ?d1 \<le> w_length w"
    using wtail_Cons [OF wtail_Cons(5) [OF t(1)]] by (simp_all add: fetched_def)
  from emits_rule_items [OF this, of E] obtain d' where d':
    "emits E w ?d1 (rule_items rule (d_layer ?d1) (int (d_idx ?d1)) (d_color ?d1) (d_viacolor ?d1)) d'"
    "d_idx d' = d_idx ?d1 + length (rule_ops rule)" "same_pos ?d1 d'" by blast
  show ?thesis
  proof (rule simulatedI [OF emits_trans [OF em d'(1)]])
    show "synced e' d'"
      using assms(2,3) d'(2,3)
      by (cases rule) (auto simp: synced_def same_pos_def fetched_def newPathVirtualWire_def
          newPathVirtualWire_rule_def Let_def initPath_type_eq initPath_type_rule_eq rule_ops_def
          initPath_def initPath_rule_def split: if_splits)
  qed (use d'(3) t(4) in \<open>simp_all add: same_pos_def fetched_def next_viacolor_def add.commute\<close>)
qed

text \<open>A branch: the decoder walks back over the longer wire to the same point.\<close>

lemma junction_point_extends:
  assumes "junction_point E jct e = Inr pnt" "enc_ok e" "extends w e post"
  shows "getPrevPoint E (w_opcodes w) (w_data w) jct True = Inr pnt"
  using assms getPrevPoint_append [of E "enc_opcodes e" "enc_data e" jct True pnt]
  by (auto simp: junction_point_def extends_def enc_ok_def split: if_splits)

definition flushed :: "(u8 \<times> int) list \<Rightarrow> (u8 \<times> int) list \<Rightarrow> bool" where
  "flushed ops rest \<longleftrightarrow> ops = [] \<and> no_rule rest \<or> (\<exists>r v. ops = [(r, v)] \<and> op_code r = WOP_RULE)"

lemma flushRule_flushed:
  assumes "wtail w (d_idx d) = ops @ rest" "flushed ops rest" "wire_ok w" "d_idx d \<le> w_length w"
  shows "d_idx (flushRule w d) = d_idx d + length ops"
proof (cases "ops = []")
  case True
  with assms show ?thesis by (simp add: flushed_def flushRule_none)
next
  case False
  with assms(2) obtain r v where "ops = [(r, v)]" "op_code r = WOP_RULE" by (auto simp: flushed_def)
  with assms(1) flushRule_rule [of w d r v rest] show ?thesis by simp
qed

lemma flushRule_same_pos [simp]: "same_pos d (flushRule w d') = same_pos d d'"
  by (simp add: same_pos_def)

lemma emits_colinear_opt:
  assumes "wtail w (d_idx d) = (oc, v) # rest" "no_rule rest" "wire_ok w" "op_code oc = WOP_COLINEAR"
      and "op_flag oc WOP_EXTENSION = (ext \<noteq> None)" "ext \<noteq> None \<longrightarrow> ext = Some v"
  obtains d' where
    "emits E w d [item (case ext of None \<Rightarrow> EPoint (d_x d) (d_y d) | Some x \<Rightarrow> EPointExt (d_x d) (d_y d) x)
       (d_layer d) (int (d_idx d)) (d_color d) (d_viacolor d)] d'"
    "d_idx d' = Suc (d_idx d)" "same_pos (d\<lparr>d_point_cnt := d_point_cnt d + 1\<rparr>) d'"
proof -
  have fl: "d_idx (flushRule w d') = Suc (d_idx d)" if "d_idx d' = Suc (d_idx d)" for d'
    using flushRule_flushed [of w d' "[]" rest] that assms(2,3) wtail_Cons [OF assms(1)]
    by (simp add: flushed_def)
  show ?thesis
  proof (cases ext)
    case None
    then show ?thesis
      using emits_colinear [OF assms(1,4), of E] assms(5)
      by (intro that [of "flushRule w ((fetched v d)\<lparr>d_point_cnt := d_point_cnt d + 1,
             d_opcode := POINT, d_property := 0\<rparr>)"]) (simp_all add: fl fetched_def same_pos_def)
  next
    case (Some x)
    then have "v = x" using assms(6) by simp
    with Some show ?thesis
      using emits_colinear_ext [OF assms(1,4), of E] assms(5)
      by (intro that [of "flushRule w ((fetched v d)\<lparr>d_point_cnt := d_point_cnt d + 1, d_operand2 := v,
             d_opcode := POINT_EXT, d_property := 0\<rparr>)"]) (simp_all add: fl fetched_def same_pos_def)
  qed
qed

lemma sim_NewPathJct:
  assumes "enc_ok e" "synced e d" "enc_step E (NewPathJct jct ext type rule) e = Inr (r, e')"
      and "extends w e' post" "no_rule post"
  shows "simulated E w (NewPathJct jct ext type rule) e e' d"
proof -
  define b where "b = (case type of None \<Rightarrow> enc_wire_type e | Some t \<Rightarrow> wire_bits_of t)"
  have b: "b \<in> wire_bits" using assms(1) by (auto simp: b_def enc_ok_def split: option.splits)
  obtain pnt where pnt: "junction_point E jct e = Inr pnt" and e': "e' = jct_path jct ext type rule pnt e"
    using assms(3) by (auto simp: sum_bind_Inr_iff)
  define oc where "oc = (case ext of None \<Rightarrow> WOP_COLINEAR OR (if rule = None then WOP_DEFAULT_WIDTH else 0)
      | Some x \<Rightarrow> WOP_COLINEAR OR WOP_EXTENSION OR (if rule = None then WOP_DEFAULT_WIDTH else 0))"
  define v where "v = (case ext of None \<Rightarrow> 0 | Some x \<Rightarrow> x)"
  have oc: "op_code oc = WOP_COLINEAR" "op_flag oc WOP_EXTENSION = (ext \<noteq> None)"
    "ext \<noteq> None \<longrightarrow> ext = Some v"
    by (cases rule; cases ext; simp add: oc_def v_def)+
  have fields: "enc_opcodes e' = enc_opcodes e @ (WOP_JUNCTION OR b) # map fst (rule_ops rule) @ [oc]"
    "enc_data e' = enc_data e @ jct # map snd (rule_ops rule) @ [v]"
    "enc_x e' = wp_x pnt" "enc_y e' = wp_y pnt" "enc_layer e' = wp_layer pnt" "enc_point_cnt e' = 1"
    unfolding e' jct_path_def Let_def b_def oc_def v_def
    by (cases rule; cases ext; simp add: rule_ops_def at_point_def initPath_def initPath_rule_def)+
  have ext: "extends w e ((WOP_JUNCTION OR b, jct) # rule_ops rule @ (oc, v) # post)"
    using assms(4) by (simp add: extends_def fields)
  note t = wtail_extends [OF assms(1) ext assms(2)]
  note pb = path_opcodes [OF b]
  note em = emits_junction [OF t(1) pb(3,7) b junction_point_extends [OF pnt assms(1) ext]]
  let ?d1 = "(fetched jct d)\<lparr>d_x := wp_x pnt, d_y := wp_y pnt, d_layer := wp_layer pnt, d_point_cnt := 0,
              d_default_width := True, d_wire_type := type_of_bits b, d_opcode := JUNCTION\<rparr>"
  have "wtail w (d_idx ?d1) = rule_ops rule @ (oc, v) # post" "d_idx ?d1 \<le> w_length w"
    using wtail_Cons [OF t(1)] by (simp_all add: fetched_def)
  from emits_rule_items [OF this, of E] obtain d2 where d2:
    "emits E w ?d1 (rule_items rule (d_layer ?d1) (int (d_idx ?d1)) (d_color ?d1) (d_viacolor ?d1)) d2"
    "wtail w (d_idx d2) = (oc, v) # post" "d_idx d2 = d_idx ?d1 + length (rule_ops rule)"
    "same_pos ?d1 d2" by blast
  from emits_colinear_opt [OF d2(2) assms(5) t(2) oc, of E] obtain d3 where d3:
    "emits E w d2 [item (case ext of None \<Rightarrow> EPoint (d_x d2) (d_y d2) | Some x \<Rightarrow> EPointExt (d_x d2) (d_y d2) x)
       (d_layer d2) (int (d_idx d2)) (d_color d2) (d_viacolor d2)] d3"
    "d_idx d3 = Suc (d_idx d2)" "same_pos (d2\<lparr>d_point_cnt := d_point_cnt d2 + 1\<rparr>) d3" by blast
  show ?thesis
  proof (rule simulatedI [OF emits_trans [OF em emits_trans [OF d2(1) d3(1)]]])
    show "synced e' d3"
      using assms(2) d2(3,4) d3(2,3) by (simp add: synced_def same_pos_def fetched_def fields)
  qed (use d2(3,4) d3(2,3) t(4) fields in \<open>auto simp: same_pos_def fetched_def next_viacolor_def
         b_def rule_ops_def rule_items_def add.commute split: option.splits\<close>)
qed

text \<open>What may follow the opcodes of a point: the rule, then the property.\<close>

definition rule_part :: "encoder \<Rightarrow> (u8 \<times> int) list" where
  "rule_part e = (if enc_non_default_rule e \<noteq> 0 \<and> rule_due (enc_point_cnt e)
     then [(enc_rule_opcode e, enc_non_default_rule e)] else [])"

definition prop_part :: "int \<Rightarrow> encoder \<Rightarrow> (u8 \<times> int) list" where
  "prop_part p e = (if enc_point_cnt e \<noteq> 1 then [(WOP_PROPERTY, p)] else [])"

definition point_done :: "int \<Rightarrow> encoder \<Rightarrow> encoder \<Rightarrow> bool" where
  "point_done p e e' \<longleftrightarrow>
     enc_opcodes e' = enc_opcodes e @ map fst (rule_part e @ prop_part p e) \<and>
     enc_data e' = enc_data e @ map snd (rule_part e @ prop_part p e) \<and>
     enc_point_cnt e' = enc_point_cnt e \<and> enc_x e' = enc_x e \<and> enc_y e' = enc_y e \<and>
     enc_layer e' = enc_layer e"

lemma addPoint_done:
  assumes "addPoint x y p e = Inr (j, e')"
  obtains width e1 where "width \<in> widths" "point_ops width x y (enc_idx e) e = Inr (j, e1)"
    "point_done p e1 e'"
proof -
  define width where "width = (if enc_non_default_rule e = 0 then WOP_DEFAULT_WIDTH else 0)"
  have w: "width \<in> widths" by (simp add: width_def)
  obtain e1 where e1: "point_ops width x y (enc_idx e) e = Inr (j, e1)"
      and e': "e' = (add_property p (if enc_non_default_rule e = 0 then e1 else add_rule_if_due e1))
                \<lparr>enc_prev_ext := False\<rparr>"
    using assms by (cases "enc_non_default_rule e = 0")
      (auto simp: addPoint_def sum_bind_Inr_iff width_def)
  have "enc_non_default_rule e1 = enc_non_default_rule e"
    using e1 by (auto simp: point_ops_def split: if_splits)
  with e' have "point_done p e1 e'"
    by (auto simp: point_done_def add_property_def add_rule_if_due_def rule_part_def prop_part_def)
  from that [OF w e1 this] show ?thesis .
qed

lemma addPointExt_done:
  assumes "addPointExt x y ext p e = Inr (j, e')"
  obtains width e1 where "width \<in> widths" "point_ext_ops width x y ext (enc_idx e) e = Inr (j, e1)"
    "point_done p e1 e'"
proof -
  define width where "width = (if enc_non_default_rule e = 0 then WOP_DEFAULT_WIDTH else 0)"
  have w: "width \<in> widths" by (simp add: width_def)
  obtain e1 where e1: "point_ext_ops width x y ext (enc_idx e) e = Inr (j, e1)"
      and e': "e' = add_property p (if enc_non_default_rule e = 0 then e1 else add_rule_if_due e1)"
    using assms by (cases "enc_non_default_rule e = 0")
      (auto simp: addPointExt_def sum_bind_Inr_iff width_def)
  have "enc_non_default_rule e1 = enc_non_default_rule e"
    using e1 by (auto simp: point_ext_ops_def split: if_splits)
  with e' have "point_done p e1 e'"
    by (auto simp: point_done_def add_property_def add_rule_if_due_def rule_part_def prop_part_def)
  from that [OF w e1 this] show ?thesis .
qed

lemma emits_point_tail:
  assumes "wtail w (d_idx d) = rule_part e @ prop_part p e @ post" "enc_ok e"
      and "no_rule post" "wire_ok w" "d_idx d \<le> w_length w"
  obtains d' where "emits E w (flushRule w d) [] d'" "same_pos d d'"
    "d_idx d' = d_idx d + length (rule_part e) + length (prop_part p e)"
proof -
  have "flushed (rule_part e) (prop_part p e @ post)"
    using assms(2,3) by (auto simp: flushed_def rule_part_def prop_part_def no_rule_def enc_ok_def rule_opcodes)
  from flushRule_flushed [OF assms(1) this assms(4,5)]
  have fi: "d_idx (flushRule w d) = d_idx d + length (rule_part e)" .
  have ft: "wtail w (d_idx (flushRule w d)) = prop_part p e @ post"
    using wtail_append [OF assms(1)] by (simp add: fi)
  have fl: "d_idx (flushRule w d) \<le> w_length w" using flushRule_idx [OF assms(5)] by simp
  show ?thesis
  proof (cases "enc_point_cnt e = 1")
    case True
    then show ?thesis using that [of "flushRule w d"] emits_refl [OF fl] fi
      by (simp add: prop_part_def same_pos_def)
  next
    case False
    then have "wtail w (d_idx (flushRule w d)) = (WOP_PROPERTY, p) # post" using ft by (simp add: prop_part_def)
    from emits_property [OF this, of E] False fi show ?thesis
      by (intro that [of "fetched p (flushRule w d)"]) (simp_all add: prop_part_def same_pos_def fetched_def)
  qed
qed

lemma extends_done:
  "point_done p e1 e' \<Longrightarrow> extends w e' post \<Longrightarrow> extends w e1 (rule_part e1 @ prop_part p e1 @ post)"
  by (auto simp: point_done_def extends_def)

lemma synced_done:
  assumes "point_done p e1 e'" "synced e1 d1" "same_pos d1 d'"
      and "d_idx d' = d_idx d1 + length (rule_part e1) + length (prop_part p e1)"
  shows "synced e' d'"
  using assms by (auto simp: point_done_def synced_def same_pos_def)

lemma first_point_parts: "enc_point_cnt e = 1 \<Longrightarrow> rule_part e = [] \<and> prop_part p e = []"
  by (simp add: rule_part_def prop_part_def rule_due_def)

text \<open>A point of a path under way, once its own opcodes are decoded up to the flush.\<close>

lemma sim_point:
  assumes "emits E w d [it] (flushRule w d1)" "synced e1 d1" "enc_ok e1" "point_done p e1 e'"
      and "extends w e' post" "no_rule post" "d_color d1 = d_color d" "d_viacolor d1 = d_viacolor d"
      and "expected c e e' (d_color d) (d_viacolor d) = [it]"
      and "next_color c (d_color d) = d_color d" "next_viacolor c (d_viacolor d) = d_viacolor d"
  shows "simulated E w c e e' d"
proof -
  note ext = extends_done [OF assms(4,5)]
  note t = wtail_extends [OF assms(3) ext assms(2)]
  from emits_point_tail [OF t(1) assms(3,6) t(2,3), of E] obtain d' where d':
    "emits E w (flushRule w d1) [] d'" "same_pos d1 d'"
    "d_idx d' = d_idx d1 + length (rule_part e1) + length (prop_part p e1)" by blast
  show ?thesis
    by (rule simulatedI [OF emits_trans [OF assms(1) d'(1)]])
       (use assms d' synced_done [OF assms(4,2) d'(2,3)] in \<open>simp_all add: same_pos_def\<close>)
qed

lemma sim_AddPoint:
  assumes "enc_ok e" "synced e d" "enc_step E (AddPoint x y p) e = Inr (r, e')"
      and "extends w e' post" "no_rule post"
  shows "simulated E w (AddPoint x y p) e e' d"
proof -
  obtain j where "addPoint x y p e = Inr (j, e')" using assms(3) by (auto simp: sum_bind_Inr_iff)
  then obtain width e1 where wd: "width \<in> widths" and e1: "point_ops width x y (enc_idx e) e = Inr (j, e1)"
      and dn: "point_done p e1 e'" by (rule addPoint_done)
  note pw = point_opcodes [OF wd]
  have ok1: "enc_ok e1" using enc_ok_point_ops [OF assms(1) wd e1] by simp
  note ext1 = extends_done [OF dn assms(4)]
  consider (first) "enc_point_cnt e = 0"
    | (same) "enc_point_cnt e \<noteq> 0" "enc_x e = x" "enc_y e = y"
    | (x) "enc_point_cnt e \<noteq> 0" "enc_x e \<noteq> x" "enc_y e = y"
    | (y) "enc_point_cnt e \<noteq> 0" "enc_x e = x" "enc_y e \<noteq> y"
    using e1 by (auto simp: point_ops_def split: if_splits)
  then show ?thesis
  proof cases
    case first
    with e1 have e1': "e1 = (addOp (WOP_Y OR width) y (addOp (WOP_X OR width) x e))
        \<lparr>enc_x := x, enc_y := y, enc_point_cnt := 1\<rparr>" by (simp add: point_ops_def)
    have none: "rule_part e1 = []" "prop_part p e1 = []" by (simp_all add: e1' first_point_parts)
    from ext1 none have "extends w e ((WOP_X OR width, x) # (WOP_Y OR width, y) # post)" by (simp add: e1')
    note t = wtail_extends [OF assms(1) this assms(2)]
    have "d_point_cnt d = 0" using assms(2) first by (simp add: synced_def)
    from emits_first_point [OF t(1) pw(1,8) this, of E] show ?thesis
      by (rule simulatedI)
         (use assms(2) first dn none t(4) in \<open>simp_all add: e1' first_jct_def next_viacolor_def synced_def
            fetched_def point_done_def\<close>)
  next
    case same
    with e1 have e1': "e1 = addOp (WOP_COLINEAR OR width) 0 e" by (simp add: point_ops_def)
    note t = wtail_extends [OF assms(1) ext1 [unfolded e1' extends_addOp] assms(2)]
    show ?thesis
      by (rule sim_point [OF emits_colinear [OF t(1) pw(3,9)] _ ok1 dn assms(4,5)])
         (use assms(2) same t(4) in \<open>auto simp: e1' first_jct_def next_viacolor_def synced_def fetched_def\<close>)
  next
    case x
    with e1 have e1': "e1 = (addOp (WOP_X OR width) x e)\<lparr>enc_x := x, enc_point_cnt := enc_point_cnt e + 1\<rparr>"
      by (simp add: point_ops_def)
    note t = wtail_extends [OF assms(1) ext1 [unfolded e1' extends_addOp extends_updates] assms(2)]
    have "d_point_cnt d \<noteq> 0" using assms(2) x by (simp add: synced_def)
    from emits_x [OF t(1) pw(1,7) this] show ?thesis
      by (rule sim_point [OF _ _ ok1 dn assms(4,5)])
         (use assms(2) x t(4) in \<open>auto simp: e1' first_jct_def next_viacolor_def synced_def fetched_def\<close>)
  next
    case y
    with e1 have e1': "e1 = (addOp (WOP_Y OR width) y e)\<lparr>enc_y := y, enc_point_cnt := enc_point_cnt e + 1\<rparr>"
      by (simp add: point_ops_def)
    note t = wtail_extends [OF assms(1) ext1 [unfolded e1' extends_addOp extends_updates] assms(2)]
    have "d_point_cnt d \<noteq> 0" using assms(2) y by (simp add: synced_def)
    from emits_y [OF t(1) pw(2,8) this] show ?thesis
      by (rule sim_point [OF _ _ ok1 dn assms(4,5)])
         (use assms(2) y t(4) in \<open>auto simp: e1' first_jct_def next_viacolor_def synced_def fetched_def\<close>)
  qed
qed

lemma sim_AddPointExt:
  assumes "enc_ok e" "synced e d" "enc_step E (AddPointExt x y ext p) e = Inr (r, e')"
      and "extends w e' post" "no_rule post"
  shows "simulated E w (AddPointExt x y ext p) e e' d"
proof -
  obtain j where "addPointExt x y ext p e = Inr (j, e')" using assms(3) by (auto simp: sum_bind_Inr_iff)
  then obtain width e1 where wd: "width \<in> widths"
      and e1: "point_ext_ops width x y ext (enc_idx e) e = Inr (j, e1)"
      and dn: "point_done p e1 e'" by (rule addPointExt_done)
  note pw = point_opcodes [OF wd]
  have ok1: "enc_ok e1" using enc_ok_point_ext_ops [OF assms(1) wd e1] by simp
  note ext1 = extends_done [OF dn assms(4)]
  consider (first) "enc_point_cnt e = 0"
    | (same) "enc_point_cnt e \<noteq> 0" "enc_x e = x" "enc_y e = y"
    | (x) "enc_point_cnt e \<noteq> 0" "enc_x e \<noteq> x" "enc_y e = y"
    | (y) "enc_point_cnt e \<noteq> 0" "enc_x e = x" "enc_y e \<noteq> y"
    using e1 by (auto simp: point_ext_ops_def split: if_splits)
  then show ?thesis
  proof cases
    case first
    with e1 have e1': "e1 = (addOp WOP_OPERAND ext
            (addOp (WOP_Y OR WOP_EXTENSION OR width) y (addOp (WOP_X OR width) x e)))
        \<lparr>enc_x := x, enc_y := y, enc_point_cnt := 1, enc_prev_ext := False\<rparr>"
      by (simp add: point_ext_ops_def)
    have none: "rule_part e1 = []" "prop_part p e1 = []" by (simp_all add: e1' first_point_parts)
    from ext1 none have "extends w e ((WOP_X OR width, x) # (WOP_Y OR WOP_EXTENSION OR width, y)
        # (WOP_OPERAND, ext) # post)" by (simp add: e1')
    note t = wtail_extends [OF assms(1) this assms(2)]
    have "d_point_cnt d = 0" using assms(2) first by (simp add: synced_def)
    from emits_first_point_ext [OF t(1) pw(1,11) this, of E] show ?thesis
      by (rule simulatedI)
         (use assms(2) first dn none t(4) in \<open>simp_all add: e1' first_jct_def next_viacolor_def synced_def
            fetched_def point_done_def\<close>)
  next
    case same
    with e1 have e1': "e1 = (addOp (WOP_COLINEAR OR WOP_EXTENSION OR width) ext e)\<lparr>enc_prev_ext := True\<rparr>"
      by (auto simp: point_ext_ops_def split: if_splits)
    note t = wtail_extends [OF assms(1) ext1 [unfolded e1' extends_addOp extends_updates] assms(2)]
    show ?thesis
      by (rule sim_point [OF emits_colinear_ext [OF t(1) pw(6,12)] _ ok1 dn assms(4,5)])
         (use assms(2) same t(4) in \<open>auto simp: e1' first_jct_def next_viacolor_def synced_def fetched_def\<close>)
  next
    case x
    with e1 have e1': "e1 = (addOp WOP_OPERAND ext (addOp (WOP_X OR WOP_EXTENSION OR width) x e))
          \<lparr>enc_x := x, enc_point_cnt := enc_point_cnt e + 1, enc_prev_ext := False\<rparr>"
      by (simp add: point_ext_ops_def)
    note t = wtail_extends [OF assms(1) ext1 [unfolded e1' extends_addOp extends_updates] assms(2)]
    have "d_point_cnt d \<noteq> 0" using assms(2) x by (simp add: synced_def)
    from emits_x_ext [OF t(1) pw(4,10) this] show ?thesis
      by (rule sim_point [OF _ _ ok1 dn assms(4,5)])
         (use assms(2) x t(4) in \<open>auto simp: e1' first_jct_def next_viacolor_def synced_def fetched_def\<close>)
  next
    case y
    with e1 have e1': "e1 = (addOp WOP_OPERAND ext (addOp (WOP_Y OR WOP_EXTENSION OR width) y e))
          \<lparr>enc_y := y, enc_point_cnt := enc_point_cnt e + 1, enc_prev_ext := False\<rparr>"
      by (simp add: point_ext_ops_def)
    note t = wtail_extends [OF assms(1) ext1 [unfolded e1' extends_addOp extends_updates] assms(2)]
    have "d_point_cnt d \<noteq> 0" using assms(2) y by (simp add: synced_def)
    from emits_y_ext [OF t(1) pw(5,11) this] show ?thesis
      by (rule sim_point [OF _ _ ok1 dn assms(4,5)])
         (use assms(2) y t(4) in \<open>auto simp: e1' first_jct_def next_viacolor_def synced_def fetched_def\<close>)
  qed
qed

lemma sim_AddVia:
  assumes "enc_ok e" "synced e d" "enc_step E (AddVia v) e = Inr (r, e')" "extends w e' post"
  shows "simulated E w (AddVia v) e e' d"
proof -
  obtain opc layer where opc: "op_code opc = WOP_VIA"
      "layer = (if op_flag opc WOP_VIA_EXIT_TOP then via_top E v else via_bottom E v)"
      and e': "e' = (addOp opc v e)\<lparr>enc_layer := layer, enc_via_cnt := enc_via_cnt e + 1\<rparr>"
      and cnt: "enc_point_cnt e \<noteq> 0"
  proof (cases "via_top E v = enc_layer e")
    case True
    with assms(3) that [of WOP_VIA "via_bottom E v"] show ?thesis
      by (auto simp: addVia_def split: if_splits)
  next
    case False
    with assms(3) that [of "WOP_VIA OR WOP_VIA_EXIT_TOP" "via_top E v"] show ?thesis
      by (auto simp: addVia_def split: if_splits)
  qed
  note t = wtail_extends [OF assms(1) assms(4) [unfolded e' extends_addOp extends_updates] assms(2)]
  from emits_via [OF t(1) opc] show ?thesis
    by (rule simulatedI)
       (use assms(2) t(4) cnt in \<open>auto simp: e' next_viacolor_def synced_def fetched_def\<close>)
qed

lemma sim_AddTechVia:
  assumes "enc_ok e" "synced e d" "enc_step E (AddTechVia v) e = Inr (r, e')" "extends w e' post"
  shows "simulated E w (AddTechVia v) e e' d"
proof -
  obtain opc layer where opc: "op_code opc = WOP_TECH_VIA"
      "layer = (if op_flag opc WOP_VIA_EXIT_TOP then techvia_top E v else techvia_bottom E v)"
      and e': "e' = (clearColor (addOp opc v e))\<lparr>enc_layer := layer, enc_via_cnt := enc_via_cnt e + 1\<rparr>"
      and cnt: "enc_point_cnt e \<noteq> 0"
  proof (cases "techvia_top E v = enc_layer e")
    case True
    with assms(3) that [of WOP_TECH_VIA "techvia_bottom E v"] show ?thesis
      by (auto simp: addTechVia_def clearColor_def split: if_splits)
  next
    case False
    with assms(3) that [of "WOP_TECH_VIA OR WOP_VIA_EXIT_TOP" "techvia_top E v"] show ?thesis
      by (auto simp: addTechVia_def clearColor_def split: if_splits)
  qed
  note t = wtail_extends [OF assms(1) assms(4) [unfolded e' clearColor_def extends_addOp extends_updates] assms(2)]
  note em1 = emits_tech_via [OF t(1) opc]
  have "wtail w (d_idx ((fetched v d)\<lparr>d_layer := layer, d_opcode := TECH_VIA\<rparr>)) = (WOP_COLOR, 0) # post"
    using wtail_Cons(5) [OF t(1)] by (simp add: fetched_def)
  note em2 = emits_color [OF this, of E]
  from emits_trans [OF em1 em2] show ?thesis
    by (rule simulatedI)
       (use assms(2) t(4) cnt in \<open>auto simp: e' clearColor_def next_viacolor_def synced_def fetched_def\<close>)
qed

lemma sim_AddRect:
  assumes "enc_ok e" "synced e d" "enc_step E (AddRect x1 y1 x2 y2) e = Inr (r, e')" "extends w e' post"
  shows "simulated E w (AddRect x1 y1 x2 y2) e e' d"
proof -
  have e': "e' = addOp WOP_OPERAND y2 (addOp WOP_OPERAND x2 (addOp WOP_OPERAND y1 (addOp WOP_RECT x1 e)))"
    using assms(3) by (auto simp: addRect_def split: if_splits)
  note t = wtail_extends [OF assms(1) assms(4) [unfolded e' extends_addOp] assms(2)]
  have "op_code WOP_RECT = WOP_RECT" by simp
  from emits_rect [OF t(1) this] show ?thesis
    by (rule simulatedI) (use assms(2) t(4) in \<open>auto simp: e' next_viacolor_def synced_def fetched_def\<close>)
qed

lemma sim_terms:
  assumes "enc_ok e" "synced e d" "extends w e' post"
  shows "enc_step E (AddITerm i) e = Inr (r, e') \<Longrightarrow> simulated E w (AddITerm i) e e' d"
    "enc_step E (AddBTerm i) e = Inr (r, e') \<Longrightarrow> simulated E w (AddBTerm i) e e' d"
proof -
  assume "enc_step E (AddITerm i) e = Inr (r, e')"
  then have e': "e' = addOp WOP_ITERM i e" by (auto simp: enc_addITerm_def split: if_splits)
  note t = wtail_extends [OF assms(1) assms(3) [unfolded e' extends_addOp] assms(2)]
  have "op_code WOP_ITERM = WOP_ITERM" by simp
  from emits_iterm [OF t(1) this] show "simulated E w (AddITerm i) e e' d"
    by (rule simulatedI) (use assms(2) t(4) in \<open>auto simp: e' next_viacolor_def synced_def fetched_def\<close>)
next
  assume "enc_step E (AddBTerm i) e = Inr (r, e')"
  then have e': "e' = addOp WOP_BTERM i e" by (auto simp: enc_addBTerm_def split: if_splits)
  note t = wtail_extends [OF assms(1) assms(3) [unfolded e' extends_addOp] assms(2)]
  have "op_code WOP_BTERM = WOP_BTERM" by simp
  from emits_bterm [OF t(1) this] show "simulated E w (AddBTerm i) e e' d"
    by (rule simulatedI) (use assms(2) t(4) in \<open>auto simp: e' next_viacolor_def synced_def fetched_def\<close>)
qed

lemma sim_color_op:
  assumes "enc_ok e" "synced e d" "e' = addOp opc v e" "extends w e' post" "op_code opc = WOP_COLOR"
      and "expected c e e' (d_color d) (d_viacolor d) = []" "next_viacolor c (d_viacolor d) = d_viacolor d"
      and "next_color c (d_color d) = (if word_of_int v = (0::u8) then None else Some (word_of_int v))"
  shows "simulated E w c e e' d"
proof -
  note t = wtail_extends [OF assms(1) assms(4) [unfolded assms(3) extends_addOp] assms(2)]
  from emits_color [OF t(1) assms(5)] show ?thesis
    by (rule simulatedI) (use assms in \<open>auto simp: synced_def fetched_def\<close>)
qed

lemma sim_viacolor_op:
  assumes "enc_ok e" "synced e d" "e' = addOp opc v e" "extends w e' post" "op_code opc = WOP_VIACOLOR"
      and "expected c e e' (d_color d) (d_viacolor d) = []" "next_color c (d_color d) = d_color d"
      and "next_viacolor c (d_viacolor d)
        = (if word_of_int v = (0::u8) then None else Some (unpack_via_color (word_of_int v)))"
  shows "simulated E w c e e' d"
proof -
  note t = wtail_extends [OF assms(1) assms(4) [unfolded assms(3) extends_addOp] assms(2)]
  from emits_viacolor [OF t(1) assms(5)] show ?thesis
    by (rule simulatedI) (use assms in \<open>auto simp: synced_def fetched_def\<close>)
qed

lemma sim_colors:
  assumes "enc_ok e" "synced e d" "extends w e' post"
  shows "enc_step E (SetColor m) e = Inr (r, e') \<Longrightarrow> simulated E w (SetColor m) e e' d"
    "enc_step E ClearColor e = Inr (r, e') \<Longrightarrow> simulated E w ClearColor e e' d"
    "enc_step E (SetViaColor b c t) e = Inr (r, e') \<Longrightarrow> simulated E w (SetViaColor b c t) e e' d"
    "enc_step E ClearViaColor e = Inr (r, e') \<Longrightarrow> simulated E w ClearViaColor e e' d"
proof -
  assume "enc_step E (SetColor m) e = Inr (r, e')"
  then have "e' = addOp WOP_COLOR (uint m) e" "m \<noteq> 0"
    by (auto simp: setColor_def split: if_splits)
  then show "simulated E w (SetColor m) e e' d"
    by (intro sim_color_op [OF assms(1,2) _ assms(3)]) (auto simp: next_viacolor_def)
next
  assume "enc_step E ClearColor e = Inr (r, e')"
  then show "simulated E w ClearColor e e' d"
    by (intro sim_color_op [OF assms(1,2) _ assms(3)]) (auto simp: clearColor_def next_viacolor_def)
next
  assume "enc_step E (SetViaColor b c t) e = Inr (r, e')"
  then have e': "e' = addOp WOP_VIACOLOR (uint (pack_via_color b c t)) e"
      and le: "b \<le> 3" "c \<le> 3" "t \<le> 3"
    by (auto simp: setViaColor_def not_less split: option.splits if_splits)
  from pack_unpack_via_color [OF le] pack_via_color_zero [OF le] e'
  show "simulated E w (SetViaColor b c t) e e' d"
    by (intro sim_viacolor_op [OF assms(1,2) _ assms(3)]) (auto simp: next_viacolor_def)
next
  assume "enc_step E ClearViaColor e = Inr (r, e')"
  then show "simulated E w ClearViaColor e e' d"
    by (intro sim_viacolor_op [OF assms(1,2) _ assms(3)]) (auto simp: clearViaColor_def next_viacolor_def)
qed

text \<open>Every command is simulated.\<close>

lemma sim_step:
  assumes "enc_step E c e = Inr (r, e')" "enc_ok e" "synced e d" "extends w e' post" "no_rule post"
  shows "simulated E w c e e' d"
  using assms
  by (cases c)
     (blast intro: sim_NewPath sim_NewPathJct sim_NewPathShort sim_NewPathVirtualWire sim_AddPoint
        sim_AddPointExt sim_AddVia sim_AddTechVia sim_AddRect sim_terms sim_colors)+

section \<open>Whole wires\<close>

text \<open>Each command writes at least one opcode, and its first one is not a rule.\<close>

lemma opens_intro: "extends w e ((opc, v) # rest) \<Longrightarrow> op_code opc \<noteq> WOP_RULE \<Longrightarrow>
    \<exists>rest. rest \<noteq> [] \<and> no_rule rest \<and> extends w e rest"
  by (intro exI [of _ "(opc, v) # rest"]) (simp add: no_rule_def)

lemma point_ops_opens:
  assumes "point_ops width x y j e = Inr (j', e1)" "width \<in> widths" "extends w e1 post"
  shows "\<exists>rest. rest \<noteq> [] \<and> no_rule rest \<and> extends w e rest"
  using assms by (auto simp: point_ops_def point_opcodes split: if_splits intro: opens_intro)

lemma point_ext_ops_opens:
  assumes "point_ext_ops width x y ext j e = Inr (j', e1)" "width \<in> widths" "extends w e1 post"
  shows "\<exists>rest. rest \<noteq> [] \<and> no_rule rest \<and> extends w e rest"
  using assms by (auto simp: point_ext_ops_def point_opcodes split: if_splits intro: opens_intro)

lemma path_opens:
  assumes "extends w e' post" "enc_ok e"
  shows "enc_step E (NewPath layer type rule) e = Inr (r, e') \<Longrightarrow>
      \<exists>rest. rest \<noteq> [] \<and> no_rule rest \<and> extends w e rest"
    "enc_step E (NewPathShort jct layer type rule) e = Inr (r, e') \<Longrightarrow>
      \<exists>rest. rest \<noteq> [] \<and> no_rule rest \<and> extends w e rest"
    "enc_step E (NewPathVirtualWire jct layer type rule) e = Inr (r, e') \<Longrightarrow>
      \<exists>rest. rest \<noteq> [] \<and> no_rule rest \<and> extends w e rest"
    "enc_step E (NewPathJct jct ext type' rule) e = Inr (r, e') \<Longrightarrow>
      \<exists>rest. rest \<noteq> [] \<and> no_rule rest \<and> extends w e rest"
proof -
  note po = path_opcodes [OF wire_bits_of_in [of type]]
  show "enc_step E (NewPath layer type rule) e = Inr (r, e') \<Longrightarrow>
      \<exists>rest. rest \<noteq> [] \<and> no_rule rest \<and> extends w e rest"
    using assms(1) po by (cases rule) (auto simp: newPath_def newPath_rule_def Let_def initPath_type_eq
        initPath_type_rule_eq simp del: or.left_neutral intro: opens_intro)
  show "enc_step E (NewPathShort jct layer type rule) e = Inr (r, e') \<Longrightarrow>
      \<exists>rest. rest \<noteq> [] \<and> no_rule rest \<and> extends w e rest"
    using assms(1) po by (cases rule) (auto simp: newPathShort_def newPathShort_rule_def Let_def
        initPath_type_eq initPath_type_rule_eq split: if_splits intro: opens_intro)
  show "enc_step E (NewPathVirtualWire jct layer type rule) e = Inr (r, e') \<Longrightarrow>
      \<exists>rest. rest \<noteq> [] \<and> no_rule rest \<and> extends w e rest"
    using assms(1) po by (cases rule) (auto simp: newPathVirtualWire_def newPathVirtualWire_rule_def Let_def
        initPath_type_eq initPath_type_rule_eq split: if_splits intro: opens_intro)
  have pj: "op_code (WOP_JUNCTION OR (case type' of None \<Rightarrow> enc_wire_type e | Some t \<Rightarrow> wire_bits_of t))
      = WOP_JUNCTION"
    using assms(2) by (intro path_opcodes) (auto simp: enc_ok_def split: option.splits)
  show "enc_step E (NewPathJct jct ext type' rule) e = Inr (r, e') \<Longrightarrow>
      \<exists>rest. rest \<noteq> [] \<and> no_rule rest \<and> extends w e rest"
    using assms(1) pj by (cases rule; cases ext) (auto simp: sum_bind_Inr_iff jct_path_def Let_def
        intro!: opens_intro)
qed

lemma enc_step_opens:
  assumes "enc_step E c e = Inr (r, e')" "enc_ok e" "extends w e' post"
  shows "\<exists>rest. rest \<noteq> [] \<and> no_rule rest \<and> extends w e rest"
proof (cases c)
  case (AddPoint x y p)
  with assms(1) obtain j where "addPoint x y p e = Inr (j, e')" by (auto simp: sum_bind_Inr_iff)
  then obtain width e1 where e1: "width \<in> widths" "point_ops width x y (enc_idx e) e = Inr (j, e1)"
      "point_done p e1 e'" by (rule addPoint_done)
  from point_ops_opens [OF e1(2,1) extends_done [OF e1(3) assms(3)]] show ?thesis .
next
  case (AddPointExt x y ext p)
  with assms(1) obtain j where "addPointExt x y ext p e = Inr (j, e')" by (auto simp: sum_bind_Inr_iff)
  then obtain width e1 where e1: "width \<in> widths" "point_ext_ops width x y ext (enc_idx e) e = Inr (j, e1)"
      "point_done p e1 e'" by (rule addPointExt_done)
  from point_ext_ops_opens [OF e1(2,1) extends_done [OF e1(3) assms(3)]] show ?thesis .
next
  case (NewPath layer type rule)
  with assms path_opens(1) show ?thesis by blast
next
  case (NewPathJct jct ext type rule)
  with assms path_opens(4) show ?thesis by blast
next
  case (NewPathShort jct layer type rule)
  with assms path_opens(2) show ?thesis by blast
next
  case (NewPathVirtualWire jct layer type rule)
  with assms path_opens(3) show ?thesis by blast
qed (use assms in \<open>auto simp: sum_bind_Inr_iff addVia_def addTechVia_def addRect_def enc_addITerm_def
        enc_addBTerm_def setColor_def clearColor_def setViaColor_def clearViaColor_def
        split: if_splits option.splits intro: opens_intro\<close>)

lemma enc_run_opens:
  assumes "enc_run E cs e = Inr e'" "enc_ok e" "extends w e' post" "no_rule post"
  shows "\<exists>rest. (cs \<noteq> [] \<longrightarrow> rest \<noteq> []) \<and> no_rule rest \<and> extends w e rest"
  using assms
proof (induction cs arbitrary: e)
  case (Cons c cs)
  then obtain r e1 where s: "enc_step E c e = Inr (r, e1)" "enc_run E cs e1 = Inr e'"
    by (auto simp: sum_bind_Inr_iff)
  from Cons.IH [OF s(2) enc_ok_step [OF s(1) Cons.prems(2)] Cons.prems(3,4)]
  obtain rest where "extends w e1 rest" by blast
  from enc_step_opens [OF s(1) Cons.prems(2) this] show ?case by auto
qed auto

primrec expected_run ::
    "wire_env \<Rightarrow> wire_cmd list \<Rightarrow> encoder \<Rightarrow> u8 option \<Rightarrow> ViaColor option \<Rightarrow> wire_item list" where
  "expected_run E [] e col vcol = []"
| "expected_run E (c # cs) e col vcol = (case enc_step E c e of
       Inl _ \<Rightarrow> []
     | Inr (_, e') \<Rightarrow> expected c e e' col vcol
         @ expected_run E cs e' (next_color c col) (next_viacolor c vcol))"

lemma sim_run:
  assumes "enc_run E cs e = Inr e'" "enc_ok e" "synced e d" "extends w e' post" "no_rule post"
  shows "\<exists>d'. synced e' d' \<and> emits E w d (expected_run E cs e (d_color d) (d_viacolor d)) d'"
  using assms
proof (induction cs arbitrary: e d)
  case Nil
  then have "d_idx d \<le> w_length w" using wtail_extends(3) by auto
  with Nil emits_refl show ?case by auto
next
  case (Cons c cs)
  then obtain r e1 where s: "enc_step E c e = Inr (r, e1)" "enc_run E cs e1 = Inr e'"
    by (auto simp: sum_bind_Inr_iff)
  note ok1 = enc_ok_step [OF s(1) Cons.prems(2)]
  obtain rest where rest: "no_rule rest" "extends w e1 rest"
    using enc_run_opens [OF s(2) ok1 Cons.prems(4,5)] by blast
  from sim_step [OF s(1) Cons.prems(2,3) rest(2,1)] obtain d1 where d1:
    "synced e1 d1" "d_color d1 = next_color c (d_color d)" "d_viacolor d1 = next_viacolor c (d_viacolor d)"
    "emits E w d (expected c e e1 (d_color d) (d_viacolor d)) d1" by (auto simp: simulated_def)
  from Cons.IH [OF s(2) ok1 d1(1) Cons.prems(4,5)] obtain d' where
    "synced e' d'" "emits E w d1 (expected_run E cs e1 (d_color d1) (d_viacolor d1)) d'" by blast
  with emits_trans [OF d1(4)] d1(2,3) s(1) show ?case by auto
qed

lemma encoded_wire_decodes:
  assumes "enc_run E cs (enc_begin e0) = Inr e" "enc_wire_type e0 \<in> wire_bits" "cs \<noteq> []"
  shows "dec_run E (fst (enc_end w0 e)) (dec_begin d0)
         = (expected_run E cs (enc_begin e0) (d_color d0) (d_viacolor d0), None)"
proof -
  define w where "w = fst (enc_end w0 e)"
  note ok0 = enc_ok_begin [OF assms(2)]
  have sy: "synced (enc_begin e0) (dec_begin d0)"
    by (simp add: synced_def enc_begin_def enc_clear_def dec_begin_def)
  have nr: "no_rule []" by (simp add: no_rule_def)
  have "extends (w0\<lparr>w_data := enc_data e, w_opcodes := enc_opcodes e\<rparr>) e []" by (simp add: extends_def)
  from enc_run_opens [OF assms(1) ok0 this nr] assms(3) have "enc_opcodes e \<noteq> []"
    by (auto simp: extends_def enc_begin_def enc_clear_def)
  then have ext: "extends w e []" by (simp add: w_def enc_end_def extends_def)
  from sim_run [OF assms(1) ok0 sy ext nr] obtain d' where d': "synced e d'"
    "emits E w (dec_begin d0) (expected_run E cs (enc_begin e0) (d_color d0) (d_viacolor d0)) d'"
    by (auto simp: dec_begin_def)
  have "d_idx d' = w_length w" using d'(1) ext by (simp add: synced_def extends_def w_length_def)
  with d'(2) show ?thesis by (simp add: emits_def dec_run_end w_def)
qed

text \<open>
  C1: The codec round trip.  What a client encodes between \<open>begin\<close> and \<open>end\<close>, any sequence of
  calls of the encoder that passes its assertions, is what a decoder of the stored wire
  returns, in order and without an error: every path, point, extension, via, rectangle,
  terminal and rule, each with its layer, its junction id and the mask colours in force.
  The colours start as the decoder had them before, since its \<open>begin\<close> does not clear them.
\<close>

theorem decode_encode:
  assumes "enc_run E cs (enc_begin e0) = Inr e" "enc_wire_type e0 \<in> wire_bits" "cs \<noteq> []"
  shows "dec_run E (fst (enc_end w0 e)) (dec_begin d0)
         = (expected_run E cs (enc_begin e0) (d_color d0) (d_viacolor d0), None)"
  using assms by (rule encoded_wire_decodes)

section \<open>A concrete wire\<close>

definition demo_env :: wire_env where
  "demo_env = \<lparr>via_top = (\<lambda>v. 3), via_bottom = (\<lambda>v. 2),
     techvia_top = (\<lambda>v. v + 1), techvia_bottom = (\<lambda>v. v)\<rparr>"

definition demo_cmds :: "wire_cmd list" where
  "demo_cmds = [NewPath 1 WireType_ROUTED None, AddPoint 0 0 7, AddPoint 10 0 7, AddTechVia 1,
     SetColor 2, AddPointExt 10 20 5 0]"

definition demo_later :: "wire_cmd list" where
  "demo_later = [NewPathJct 3 None None (Some \<lparr>rule_oid = 4, is_block_rule = True\<rparr>),
     AddPoint 10 30 0, AddRect 1 2 3 4]"

definition demo_decoder :: decoder where
  "demo_decoder = \<lparr>d_x = 0, d_y = 0, d_default_width = True, d_block_rule = False, d_layer = 0,
     d_operand = 0, d_operand2 = 0, d_idx = 0, d_jct_id = 0, d_wire_type = WireType_NONE,
     d_point_cnt = 0, d_opcode = END_DECODE, d_property = 0, d_deltaX1 = 0, d_deltaY1 = 0,
     d_deltaX2 = 0, d_deltaY2 = 0, d_color = None, d_viacolor = None\<rparr>"

definition empty_wire :: wire where
  "empty_wire = \<lparr>w_data = [], w_opcodes = []\<rparr>"

definition demo_encoder :: encoder where
  "demo_encoder = \<lparr>
     enc_data = [1, 0, 0, 10, 7, 1, 0, 2, 20, 5, 0, 3, 4, 0, 30, 0, 1, 2, 3, 4],
     enc_opcodes = [0x60, 0x44, 0x45, 0x44, 12, 0x88, 16, 16, 0xC5, 11, 12, 0x62, 0x83, 6, 5, 12,
       14, 11, 11, 11],
     enc_layer = 1, enc_idx = 20, enc_x = 10, enc_y = 30, enc_non_default_rule = 4,
     enc_point_cnt = 2, enc_via_cnt = 0, enc_prev_ext = False, enc_wire_type = 0x60,
     enc_rule_opcode = 0x83\<rparr>"

lemmas demo_simps = demo_env_def enc_defs getPrevPoint_def prevWalk.simps prev_step_def
  prev_layer_def wp_zero_def jct_path_def

lemma demo_run: "enc_run demo_env (demo_cmds @ demo_later) (enc_begin enc_new) = Inr demo_encoder"
  by (simp add: demo_simps demo_cmds_def demo_later_def demo_encoder_def)

lemma decode_encode_witness:
  "dec_run demo_env (fst (enc_end empty_wire demo_encoder)) (dec_begin demo_decoder)
   = ([item (EPath WireType_ROUTED) 1 0 None None, item (EPoint 0 0) 1 2 None None,
       item (EPoint 10 0) 1 3 None None, item (ETechVia 1) 2 5 None None,
       item (EPointExt 10 20 5) 2 8 (Some 2) None, item (EJunction 3 WireType_ROUTED) 1 11 (Some 2) None,
       item (ERule True 4) 1 12 (Some 2) None, item (EPoint 10 0) 1 13 (Some 2) None,
       item (EPoint 10 30) 1 14 (Some 2) None, item (ERect 1 2 3 4) 1 16 (Some 2) None], None)"
  using decode_encode [OF demo_run, of empty_wire demo_decoder]
  by (simp add: demo_simps demo_cmds_def demo_later_def first_jct_def rule_items_def shown_type_def
       next_viacolor_def type_of_bits_def wire_bits_def demo_decoder_def)

text \<open>
  The arrays of an encoder stay parallel and its index is their length, every junction it
  writes points backwards, and so \<open>getPrevPoint\<close> returns from every index of every wire it
  has written: the walk backwards cannot run forever.
\<close>

theorem encoder_wires_walk:
  assumes "enc_run E cs (enc_begin e0) = Inr e" "enc_wire_type e0 \<in> wire_bits"
  shows "length (enc_opcodes e) = length (enc_data e) \<and> enc_idx e = int (length (enc_opcodes e))
       \<and> junctions_back (enc_opcodes e) (enc_data e)
       \<and> getPrevPoint E (enc_opcodes e) (enc_data e) i gl \<noteq> Inl NoReturn"
  using enc_ok_run [OF assms(1) enc_ok_begin [OF assms(2)]] getPrevPoint_returns
  by (simp add: enc_ok_def)

lemma encoder_wires_walk_witness:
  "getPrevPoint demo_env (enc_opcodes demo_encoder) (enc_data demo_encoder) 18 True \<noteq> Inl NoReturn"
  using encoder_wires_walk [OF demo_run, of 18 True] by (simp add: wire_bits_def enc_new_def)

text \<open>
  A decoder that has decoded another wire before keeps that wire's mask colour: after
  \<open>begin\<close>, the same uncoloured wire decodes differently than with a new decoder.
\<close>

theorem decoder_color_leak:
  "dec_run demo_env \<lparr>w_data = [1, 0, 0], w_opcodes = [0x60, 0x44, 0x45]\<rparr>
         (dec_begin (demo_decoder\<lparr>d_color := c\<rparr>))
   = ([item (EPath WireType_ROUTED) 1 0 c None, item (EPoint 0 0) 1 2 c None], None)"
proof -
  let ?e = "\<lparr>enc_data = [1, 0, 0], enc_opcodes = [0x60, 0x44, 0x45], enc_layer = 1, enc_idx = 3,
     enc_x = 0, enc_y = 0, enc_non_default_rule = 0, enc_point_cnt = 1, enc_via_cnt = 0,
     enc_prev_ext = False, enc_wire_type = 0x60, enc_rule_opcode = 0\<rparr>"
  have "enc_run demo_env [NewPath 1 WireType_ROUTED None, AddPoint 0 0 0] (enc_begin enc_new) = Inr ?e"
    by (simp add: enc_defs)
  from encoded_wire_decodes [OF this, of empty_wire "demo_decoder\<lparr>d_color := c\<rparr>"] show ?thesis
    by (simp add: enc_defs first_jct_def rule_items_def shown_type_def next_viacolor_def
         wire_bits_def demo_decoder_def empty_wire_def)
qed

end
