(* ===== verification/OdbWireJunction.thy ===== *)
theory OdbWireJunction imports OdbWireCodec begin

text \<open>
  Junction ids.  \<open>addPoint\<close>, \<open>addVia\<close> and \<open>addTechVia\<close> return the index of an opcode; a later
  \<open>newPath\<close> from that id walks back from it to find where the branch starts.  The invariant
  \<open>tracked\<close> says that the walk from the end of the wire finds the encoder's own position and
  layer; from it every returned id resolves to the point it was returned for, however far
  the wire has grown since.
\<close>

section \<open>Partial walks\<close>

definition fill :: "bool \<Rightarrow> bool \<Rightarrow> bool \<Rightarrow> WirePoint \<Rightarrow> WirePoint \<Rightarrow> WirePoint" where
  "fill gl lx ly q pnt = \<lparr>wp_x = (if lx then wp_x q else wp_x pnt),
     wp_y = (if ly then wp_y q else wp_y pnt), wp_layer = (if gl then wp_layer q else wp_layer pnt)\<rparr>"

text \<open>What one opcode does to a walk, whatever the walk looks for.\<close>

datatype visit = Goto int | SeeLayer int | SeeX int | SeeY int

definition visit_step ::
    "visit \<Rightarrow> int \<Rightarrow> bool \<Rightarrow> bool \<Rightarrow> bool \<Rightarrow> WirePoint \<Rightarrow> walk_step" where
  "visit_step k idx gl lx ly pnt = (case k of
       Goto i \<Rightarrow> PrevOpCode i gl lx ly pnt
     | SeeLayer l \<Rightarrow> prev_layer l idx gl lx ly pnt
     | SeeX v \<Rightarrow> (if lx then if \<not> ly \<and> \<not> gl then Return (Inr (pnt\<lparr>wp_x := v\<rparr>))
                         else PrevOpCode (idx - 1) gl False ly (pnt\<lparr>wp_x := v\<rparr>)
                 else PrevOpCode (idx - 1) gl lx ly pnt)
     | SeeY v \<Rightarrow> (if ly then if \<not> lx \<and> \<not> gl then Return (Inr (pnt\<lparr>wp_y := v\<rparr>))
                         else PrevOpCode (idx - 1) gl lx False (pnt\<lparr>wp_y := v\<rparr>)
                 else PrevOpCode (idx - 1) gl lx ly pnt))"

definition visit_of :: "wire_env \<Rightarrow> u8 \<Rightarrow> int \<Rightarrow> int \<Rightarrow> visit" where
  "visit_of E opcode operand idx =
     (if op_code opcode = WOP_PATH \<or> op_code opcode = WOP_SHORT then SeeLayer operand
      else if op_code opcode = WOP_JUNCTION then Goto operand
      else if op_code opcode = WOP_X then SeeX operand
      else if op_code opcode = WOP_Y then SeeY operand
      else if op_code opcode = WOP_VIA then
        SeeLayer (if op_flag opcode WOP_VIA_EXIT_TOP then via_top E operand else via_bottom E operand)
      else if op_code opcode = WOP_TECH_VIA then
        SeeLayer (if op_flag opcode WOP_VIA_EXIT_TOP then techvia_top E operand else techvia_bottom E operand)
      else Goto (idx - 1))"

lemma prev_step_visit:
  assumes "0 \<le> idx" "idx < int (length opcodes)" "length opcodes = length data"
  shows "prev_step E opcodes data idx gl lx ly pnt
         = visit_step (visit_of E (opcodes ! nat idx) (data ! nat idx) idx) idx gl lx ly pnt"
  using assms by (simp add: prev_step_def visit_of_def visit_step_def Let_def)

lemma prev_step_Inr_bounds:
  "prev_step E opcodes data idx gl lx ly pnt \<noteq> Return (Inl NegativeIndex) \<Longrightarrow>
   prev_step E opcodes data idx gl lx ly pnt \<noteq> Return (Inl OutOfBounds) \<Longrightarrow>
   0 \<le> idx \<and> idx < int (length opcodes)"
  by (auto simp: prev_step_def split: if_splits)

text \<open>A walk that looks for less takes the same way and finds the same.\<close>

definition walk_sub :: "wire_env \<Rightarrow> u8 list \<Rightarrow> int list \<Rightarrow> int \<Rightarrow> bool \<Rightarrow> bool \<Rightarrow> bool \<Rightarrow>
    WirePoint \<Rightarrow> WirePoint \<Rightarrow> bool" where
  "walk_sub E opcodes data idx gl lx ly pnt q \<longleftrightarrow>
     (\<not> gl \<longrightarrow> wp_layer q = wp_layer pnt) \<and> (\<not> lx \<longrightarrow> wp_x q = wp_x pnt) \<and> (\<not> ly \<longrightarrow> wp_y q = wp_y pnt) \<and>
     (\<forall>gl' lx' ly' pnt'. (gl' \<longrightarrow> gl) \<and> (lx' \<longrightarrow> lx) \<and> (ly' \<longrightarrow> ly) \<and> (gl' \<or> lx' \<or> ly') \<longrightarrow>
        prevWalk E opcodes data idx gl' lx' ly' pnt' = Some (Inr (fill gl' lx' ly' q pnt')))"

lemma walk_subD:
  assumes "walk_sub E opcodes data idx gl lx ly pnt q"
  shows "gl' \<or> lx' \<or> ly' \<Longrightarrow> gl' \<longrightarrow> gl \<Longrightarrow> lx' \<longrightarrow> lx \<Longrightarrow> ly' \<longrightarrow> ly \<Longrightarrow>
      prevWalk E opcodes data idx gl' lx' ly' p = Some (Inr (fill gl' lx' ly' q p))"
    "\<not> gl \<Longrightarrow> wp_layer q = wp_layer pnt" "\<not> lx \<Longrightarrow> wp_x q = wp_x pnt" "\<not> ly \<Longrightarrow> wp_y q = wp_y pnt"
  using assms by (auto simp: walk_sub_def)

lemma walk_subI:
  assumes "\<And>gl' lx' ly' p. gl' \<or> lx' \<or> ly' \<Longrightarrow> gl' \<longrightarrow> gl \<Longrightarrow> lx' \<longrightarrow> lx \<Longrightarrow> ly' \<longrightarrow> ly \<Longrightarrow>
      prevWalk E opcodes data idx gl' lx' ly' p = Some (Inr (fill gl' lx' ly' q p))"
    and "\<not> gl \<Longrightarrow> wp_layer q = wp_layer pnt" "\<not> lx \<Longrightarrow> wp_x q = wp_x pnt" "\<not> ly \<Longrightarrow> wp_y q = wp_y pnt"
  shows "walk_sub E opcodes data idx gl lx ly pnt q"
  using assms by (simp add: walk_sub_def)

lemma walk_sub_step:
  assumes step: "\<And>gl lx ly pnt. prev_step E opcodes data idx gl lx ly pnt = visit_step k idx gl lx ly pnt"
      and ih: "\<And>i g x y p. visit_step k idx gl lx ly pnt = PrevOpCode i g x y p \<Longrightarrow>
                 walk_sub E opcodes data i g x y p q"
      and ret: "\<And>r. visit_step k idx gl lx ly pnt = Return r \<Longrightarrow> r = Inr q"
  shows "walk_sub E opcodes data idx gl lx ly pnt q"
proof -
  have unfold: "\<And>gl lx ly pnt. prevWalk E opcodes data idx gl lx ly pnt =
      (case visit_step k idx gl lx ly pnt of Return r \<Rightarrow> Some r
       | PrevOpCode i g x y p \<Rightarrow> prevWalk E opcodes data i g x y p)"
    by (subst prevWalk.simps) (simp add: step)
  show ?thesis
  proof (cases k)
    case (Goto i)
    with ih have "walk_sub E opcodes data i gl lx ly pnt q" by (simp add: visit_step_def)
    with Goto unfold show ?thesis by (simp add: walk_sub_def visit_step_def)
  next
    case (SeeLayer l)
    have more: "walk_sub E opcodes data (idx - 1) False lx ly (pnt\<lparr>wp_layer := l\<rparr>) q" if gl "lx \<or> ly"
      by (rule ih) (use that SeeLayer in \<open>auto simp: visit_step_def prev_layer_def\<close>)
    have past: "walk_sub E opcodes data (idx - 1) gl lx ly pnt q" if "\<not> gl"
      by (rule ih) (use that SeeLayer in \<open>auto simp: visit_step_def prev_layer_def\<close>)
    have found: "q = pnt\<lparr>wp_layer := l\<rparr>" if gl "\<not> lx" "\<not> ly"
      using ret that SeeLayer by (auto simp: visit_step_def prev_layer_def)
    note u = unfold [unfolded SeeLayer visit_step_def prev_layer_def, simplified]
    consider "\<not> gl" | "gl" "lx \<or> ly" | "gl" "\<not> lx" "\<not> ly" by blast
    then show ?thesis
    proof cases
      case 1
      with walk_subD [OF past] show ?thesis by (intro walk_subI) (auto simp: u)
    next
      case 2
      with walk_subD(1) [OF more, where gl' = False] walk_subD(2-) [OF more] show ?thesis
        by (intro walk_subI) (auto simp: u fill_def)
    next
      case 3
      with found show ?thesis by (intro walk_subI) (auto simp: u fill_def)
    qed
  next
    case (SeeX v)
    have more: "walk_sub E opcodes data (idx - 1) gl False ly (pnt\<lparr>wp_x := v\<rparr>) q" if lx "gl \<or> ly"
      by (rule ih) (use that SeeX in \<open>auto simp: visit_step_def\<close>)
    have past: "walk_sub E opcodes data (idx - 1) gl lx ly pnt q" if "\<not> lx"
      by (rule ih) (use that SeeX in \<open>auto simp: visit_step_def\<close>)
    have found: "q = pnt\<lparr>wp_x := v\<rparr>" if lx "\<not> gl" "\<not> ly"
      using ret that SeeX by (auto simp: visit_step_def)
    note u = unfold [unfolded SeeX visit_step_def, simplified]
    consider "\<not> lx" | "lx" "gl \<or> ly" | "lx" "\<not> gl" "\<not> ly" by blast
    then show ?thesis
    proof cases
      case 1
      with walk_subD [OF past] show ?thesis by (intro walk_subI) (auto simp: u)
    next
      case 2
      with walk_subD(1) [OF more, where lx' = False] walk_subD(2-) [OF more] show ?thesis
        by (intro walk_subI) (auto simp: u fill_def)
    next
      case 3
      with found show ?thesis by (intro walk_subI) (auto simp: u fill_def)
    qed
  next
    case (SeeY v)
    have more: "walk_sub E opcodes data (idx - 1) gl lx False (pnt\<lparr>wp_y := v\<rparr>) q" if ly "gl \<or> lx"
      by (rule ih) (use that SeeY in \<open>auto simp: visit_step_def\<close>)
    have past: "walk_sub E opcodes data (idx - 1) gl lx ly pnt q" if "\<not> ly"
      by (rule ih) (use that SeeY in \<open>auto simp: visit_step_def\<close>)
    have found: "q = pnt\<lparr>wp_y := v\<rparr>" if ly "\<not> gl" "\<not> lx"
      using ret that SeeY by (auto simp: visit_step_def)
    note u = unfold [unfolded SeeY visit_step_def, simplified]
    consider "\<not> ly" | "ly" "gl \<or> lx" | "ly" "\<not> gl" "\<not> lx" by blast
    then show ?thesis
    proof cases
      case 1
      with walk_subD [OF past] show ?thesis by (intro walk_subI) (auto simp: u)
    next
      case 2
      with walk_subD(1) [OF more, where ly' = False] walk_subD(2-) [OF more] show ?thesis
        by (intro walk_subI) (auto simp: u fill_def)
    next
      case 3
      with found show ?thesis by (intro walk_subI) (auto simp: u fill_def)
    qed
  qed
qed

lemma prevWalk_sub:
  assumes "prevWalk E opcodes data idx gl lx ly pnt = Some (Inr q)" "length opcodes = length data"
  shows "walk_sub E opcodes data idx gl lx ly pnt q"
proof -
  have "\<forall>q. r = Inr q \<longrightarrow> length opcodes = length data \<longrightarrow> walk_sub E opcodes data idx gl lx ly pnt q"
    if "prevWalk E opcodes data idx gl lx ly pnt = Some r" for r
  proof (rule prevWalk.raw_induct [where P = "\<lambda>E opcodes data idx gl lx ly pnt r.
      \<forall>q. r = Inr q \<longrightarrow> length opcodes = length data \<longrightarrow> walk_sub E opcodes data idx gl lx ly pnt q", OF _ that])
    fix walk E opcodes data idx gl lx ly pnt r
    assume ih: "\<And>E opcodes data idx gl lx ly pnt r. walk E opcodes data idx gl lx ly pnt = Some r \<Longrightarrow>
        \<forall>q. r = Inr q \<longrightarrow> length opcodes = length data \<longrightarrow> walk_sub E opcodes data idx gl lx ly pnt q"
      and step: "(case prev_step E opcodes data idx gl lx ly pnt of Return r \<Rightarrow> Some r
        | PrevOpCode i g x y p \<Rightarrow> walk E opcodes data i g x y p) = Some r"
    show "\<forall>q. r = Inr q \<longrightarrow> length opcodes = length data \<longrightarrow> walk_sub E opcodes data idx gl lx ly pnt q"
    proof (intro allI impI)
      fix q assume r: "r = Inr q" and len: "length opcodes = length data"
      have b: "0 \<le> idx" "idx < int (length opcodes)"
        using prev_step_Inr_bounds [of E opcodes data idx gl lx ly pnt] step r
        by (auto split: walk_step.splits)
      note vs = prev_step_visit [OF b len]
      show "walk_sub E opcodes data idx gl lx ly pnt q"
        by (rule walk_sub_step [OF vs]) (use step r ih len in \<open>auto simp: vs split: walk_step.splits\<close>)
    qed
  qed
  with assms show ?thesis by blast
qed

section \<open>What a walk from a position finds\<close>

definition resolves :: "wire_env \<Rightarrow> u8 list \<Rightarrow> int list \<Rightarrow> int \<Rightarrow> WirePoint \<Rightarrow> bool" where
  "resolves E opcodes data idx q \<longleftrightarrow> (\<forall>gl lx ly pnt. gl \<or> lx \<or> ly \<longrightarrow>
     prevWalk E opcodes data idx gl lx ly pnt = Some (Inr (fill gl lx ly q pnt)))"

definition layer_at :: "wire_env \<Rightarrow> u8 list \<Rightarrow> int list \<Rightarrow> int \<Rightarrow> int \<Rightarrow> bool" where
  "layer_at E opcodes data idx l \<longleftrightarrow> (\<forall>pnt.
     prevWalk E opcodes data idx True False False pnt = Some (Inr (pnt\<lparr>wp_layer := l\<rparr>)))"

lemma resolves_layer: "resolves E opcodes data idx q \<Longrightarrow> layer_at E opcodes data idx (wp_layer q)"
  by (simp add: resolves_def layer_at_def fill_def)

lemma getPrevPoint_resolves:
  assumes "length opcodes = length data"
  shows "getPrevPoint E opcodes data idx True = Inr q \<longleftrightarrow> resolves E opcodes data idx q"
proof
  assume "getPrevPoint E opcodes data idx True = Inr q"
  then have "prevWalk E opcodes data idx True True True wp_zero = Some (Inr q)"
    by (simp add: getPrevPoint_def split: option.splits)
  from walk_subD(1) [OF prevWalk_sub [OF this assms]]
  show "resolves E opcodes data idx q" by (simp add: resolves_def)
next
  assume "resolves E opcodes data idx q"
  then show "getPrevPoint E opcodes data idx True = Inr q"
    by (simp add: resolves_def getPrevPoint_def fill_def)
qed

lemma resolves_append:
  assumes "resolves E opcodes data idx q" "length opcodes = length data"
  shows "resolves E (opcodes @ ops') (data @ data') idx q"
  using assms prevWalk_append [of E opcodes data idx] by (simp add: resolves_def)

lemma layer_at_append:
  assumes "layer_at E opcodes data idx l" "length opcodes = length data"
  shows "layer_at E (opcodes @ ops') (data @ data') idx l"
  using assms prevWalk_append [of E opcodes data idx] by (simp add: layer_at_def)

text \<open>One more opcode at the end.\<close>

lemma prevWalk_last:
  assumes "length opcodes = length data"
  shows "prevWalk E (opcodes @ [opc]) (data @ [v]) (int (length opcodes)) gl lx ly pnt
    = (case visit_step (visit_of E opc v (int (length opcodes))) (int (length opcodes)) gl lx ly pnt of
         Return r \<Rightarrow> Some r
       | PrevOpCode i g x y p \<Rightarrow> prevWalk E (opcodes @ [opc]) (data @ [v]) i g x y p)"
  using assms prev_step_visit [of "int (length opcodes)" "opcodes @ [opc]" "data @ [v]"]
  by (subst prevWalk.simps) (simp add: nth_append)

definition tail_point :: "wire_env \<Rightarrow> encoder \<Rightarrow> WirePoint \<Rightarrow> bool" where
  "tail_point E e q \<longleftrightarrow> resolves E (enc_opcodes e) (enc_data e) (int (length (enc_opcodes e)) - 1) q"

definition tail_layer :: "wire_env \<Rightarrow> encoder \<Rightarrow> int \<Rightarrow> bool" where
  "tail_layer E e l \<longleftrightarrow> layer_at E (enc_opcodes e) (enc_data e) (int (length (enc_opcodes e)) - 1) l"

definition parallel :: "encoder \<Rightarrow> bool" where
  "parallel e \<longleftrightarrow> length (enc_opcodes e) = length (enc_data e)"

lemma parallel_addOp [simp]: "parallel (addOp opc v e) = parallel e"
  by (simp add: parallel_def)

lemma tail_walk:
  assumes "parallel e"
  shows "prevWalk E (enc_opcodes (addOp opc v e)) (enc_data (addOp opc v e))
      (int (length (enc_opcodes (addOp opc v e))) - 1) gl lx ly pnt
   = (case visit_step (visit_of E opc v (int (length (enc_opcodes e)))) (int (length (enc_opcodes e)))
             gl lx ly pnt of
         Return r \<Rightarrow> Some r
       | PrevOpCode i g x y p \<Rightarrow>
           prevWalk E (enc_opcodes (addOp opc v e)) (enc_data (addOp opc v e)) i g x y p)"
  using prevWalk_last [of "enc_opcodes e" "enc_data e"] assms
  by (simp add: parallel_def split: walk_step.split)

lemma old_point:
  assumes "parallel e" "resolves E (enc_opcodes e) (enc_data e) i q" "gl \<or> lx \<or> ly"
  shows "prevWalk E (enc_opcodes (addOp opc v e)) (enc_data (addOp opc v e)) i gl lx ly p
         = Some (Inr (fill gl lx ly q p))"
  using resolves_append [OF assms(2), of "[opc]" "[v]"] assms(1,3)
  by (auto simp: parallel_def resolves_def)

lemma old_layer:
  assumes "parallel e" "layer_at E (enc_opcodes e) (enc_data e) i l"
  shows "prevWalk E (enc_opcodes (addOp opc v e)) (enc_data (addOp opc v e)) i True False False p
         = Some (Inr (p\<lparr>wp_layer := l\<rparr>))"
  using layer_at_append [OF assms(2), of "[opc]" "[v]"] assms(1) by (simp add: parallel_def layer_at_def)

text \<open>Opcodes a walk passes over.\<close>

definition passed_op :: "u8 \<Rightarrow> bool" where
  "passed_op opc \<longleftrightarrow> op_code opc \<notin>
     {WOP_PATH, WOP_SHORT, WOP_JUNCTION, WOP_X, WOP_Y, WOP_VIA, WOP_TECH_VIA}"

lemma visit_passive: "passed_op opc \<Longrightarrow> visit_of E opc v idx = Goto (idx - 1)"
  by (simp add: passed_op_def visit_of_def)

lemma tail_point_passive: "parallel e \<Longrightarrow> passed_op opc \<Longrightarrow> tail_point E e q \<Longrightarrow> tail_point E (addOp opc v e) q"
  using old_point [of e E "int (length (enc_opcodes e)) - 1" q]
  unfolding tail_point_def resolves_def tail_walk by (simp add: visit_passive visit_step_def)

lemma tail_layer_passive: "parallel e \<Longrightarrow> passed_op opc \<Longrightarrow> tail_layer E e l \<Longrightarrow> tail_layer E (addOp opc v e) l"
  using old_layer [of e E "int (length (enc_opcodes e)) - 1" l]
  unfolding tail_layer_def layer_at_def tail_walk by (simp add: visit_passive visit_step_def)

lemma tail_layer_see:
  "parallel e \<Longrightarrow> visit_of E opc v (int (length (enc_opcodes e))) = SeeLayer l \<Longrightarrow>
   tail_layer E (addOp opc v e) l"
  unfolding tail_layer_def layer_at_def tail_walk by (simp add: visit_step_def prev_layer_def)

lemma tail_point_layer:
  assumes "parallel e" "visit_of E opc v (int (length (enc_opcodes e))) = SeeLayer l" "tail_point E e q"
  shows "tail_point E (addOp opc v e) (q\<lparr>wp_layer := l\<rparr>)"
  unfolding tail_point_def resolves_def tail_walk [OF assms(1)] assms(2)
  using old_point [OF assms(1) assms(3) [unfolded tail_point_def]]
  by (auto simp: visit_step_def prev_layer_def fill_def)

lemma tail_point_x:
  assumes "parallel e" "op_code opc = WOP_X" "tail_point E e q"
  shows "tail_point E (addOp opc v e) (q\<lparr>wp_x := v\<rparr>)"
proof -
  have "visit_of E opc v (int (length (enc_opcodes e))) = SeeX v" using assms(2) by (simp add: visit_of_def)
  then show ?thesis
    unfolding tail_point_def resolves_def tail_walk [OF assms(1)]
    using old_point [OF assms(1) assms(3) [unfolded tail_point_def]]
    by (auto simp: visit_step_def fill_def)
qed

lemma tail_point_y:
  assumes "parallel e" "op_code opc = WOP_Y" "tail_point E e q"
  shows "tail_point E (addOp opc v e) (q\<lparr>wp_y := v\<rparr>)"
proof -
  have "visit_of E opc v (int (length (enc_opcodes e))) = SeeY v" using assms(2) by (simp add: visit_of_def)
  then show ?thesis
    unfolding tail_point_def resolves_def tail_walk [OF assms(1)]
    using old_point [OF assms(1) assms(3) [unfolded tail_point_def]]
    by (auto simp: visit_step_def fill_def)
qed

lemma tail_point_junction:
  assumes "parallel e" "op_code opc = WOP_JUNCTION" "resolves E (enc_opcodes e) (enc_data e) j q"
  shows "tail_point E (addOp opc j e) q"
proof -
  have "visit_of E opc j (int (length (enc_opcodes e))) = Goto j" using assms(2) by (simp add: visit_of_def)
  then show ?thesis
    unfolding tail_point_def resolves_def tail_walk [OF assms(1)]
    using old_point [OF assms(1,3)] by (auto simp: visit_step_def)
qed

text \<open>The first point of a path: its two opcodes give the position, the walk goes on to the layer.\<close>

lemma tail_point_first:
  assumes "parallel e" "op_code ox = WOP_X" "op_code oy = WOP_Y" "tail_layer E e l"
  shows "tail_point E (addOp oy y (addOp ox x e)) \<lparr>wp_x = x, wp_y = y, wp_layer = l\<rparr>"
proof -
  have vx: "visit_of E ox x (int (length (enc_opcodes e))) = SeeX x" using assms(2) by (simp add: visit_of_def)
  have vy: "visit_of E oy y (int (length (enc_opcodes (addOp ox x e)))) = SeeY y"
    using assms(3) by (simp add: visit_of_def)
  have par: "parallel (addOp ox x e)" using assms(1) by simp
  have after_x: "prevWalk E (enc_opcodes (addOp ox x e)) (enc_data (addOp ox x e))
      (int (length (enc_opcodes (addOp ox x e))) - 1) gl lx False p
    = Some (Inr (fill gl lx False \<lparr>wp_x = x, wp_y = y, wp_layer = l\<rparr> p))" if "gl \<or> lx" for gl lx p
    using old_layer [OF assms(1) assms(4) [unfolded tail_layer_def]] that
    unfolding tail_walk [OF assms(1)] vx by (cases gl; cases lx) (auto simp: visit_step_def fill_def)
  have after_x': "prevWalk E (enc_opcodes (addOp oy y (addOp ox x e))) (enc_data (addOp oy y (addOp ox x e)))
      (int (length (enc_opcodes (addOp ox x e))) - 1) gl lx False p
    = Some (Inr (fill gl lx False \<lparr>wp_x = x, wp_y = y, wp_layer = l\<rparr> p))" if "gl \<or> lx" for gl lx p
    using prevWalk_append [OF after_x [OF that], where ops' = "[oy]" and data' = "[y]"] par
    by (simp add: parallel_def)
  show ?thesis
    unfolding tail_point_def resolves_def tail_walk [OF par] vy
    using after_x' by (auto simp: visit_step_def fill_def)
qed

section \<open>The invariant\<close>

lemma tail_cong:
  assumes "enc_opcodes e' = enc_opcodes e" "enc_data e' = enc_data e"
  shows "tail_point E e' q = tail_point E e q" "tail_layer E e' l = tail_layer E e l"
  using assms by (simp_all add: tail_point_def tail_layer_def)

lemma tail_updates [simp]:
  "tail_point E (e\<lparr>enc_layer := a\<rparr>) q = tail_point E e q"
  "tail_point E (e\<lparr>enc_x := a\<rparr>) q = tail_point E e q"
  "tail_point E (e\<lparr>enc_y := a\<rparr>) q = tail_point E e q"
  "tail_point E (e\<lparr>enc_point_cnt := n\<rparr>) q = tail_point E e q"
  "tail_point E (e\<lparr>enc_via_cnt := n\<rparr>) q = tail_point E e q"
  "tail_point E (e\<lparr>enc_prev_ext := u\<rparr>) q = tail_point E e q"
  "tail_layer E (e\<lparr>enc_layer := a\<rparr>) l = tail_layer E e l"
  "tail_layer E (e\<lparr>enc_x := a\<rparr>) l = tail_layer E e l"
  "tail_layer E (e\<lparr>enc_y := a\<rparr>) l = tail_layer E e l"
  "tail_layer E (e\<lparr>enc_point_cnt := n\<rparr>) l = tail_layer E e l"
  "tail_layer E (e\<lparr>enc_via_cnt := n\<rparr>) l = tail_layer E e l"
  "tail_layer E (e\<lparr>enc_prev_ext := u\<rparr>) l = tail_layer E e l"
  by (simp_all add: tail_point_def tail_layer_def)

lemma passed_ops:
  assumes "\<forall>(opc, v) \<in> set ops. passed_op opc" "parallel e"
      and "enc_opcodes e' = enc_opcodes e @ map fst ops" "enc_data e' = enc_data e @ map snd ops"
  shows "(tail_point E e q \<longrightarrow> tail_point E e' q) \<and> (tail_layer E e l \<longrightarrow> tail_layer E e' l)"
  using assms
proof (induction ops arbitrary: e)
  case Nil
  then show ?case by (simp add: tail_cong [of e' e])
next
  case (Cons p ops)
  obtain opc v where p: "p = (opc, v)" by (cases p)
  from Cons.prems p Cons.IH [of "addOp opc v e"] show ?case
    using tail_point_passive [of e opc E q v] tail_layer_passive [of e opc E l v] by auto
qed

definition tracked :: "wire_env \<Rightarrow> encoder \<Rightarrow> bool" where
  "tracked E e \<longleftrightarrow> tail_layer E e (enc_layer e) \<and>
     (enc_point_cnt e \<noteq> 0 \<longrightarrow>
        tail_point E e \<lparr>wp_x = enc_x e, wp_y = enc_y e, wp_layer = enc_layer e\<rparr>)"

lemma tracked_point:
  assumes "tail_point E e \<lparr>wp_x = enc_x e, wp_y = enc_y e, wp_layer = enc_layer e\<rparr>"
  shows "tracked E e"
  using assms resolves_layer by (fastforce simp: tracked_def tail_point_def tail_layer_def)

lemma tracked_passed:
  assumes "tracked E e" "parallel e" "\<forall>(opc, v) \<in> set ops. passed_op opc"
      and "enc_opcodes e' = enc_opcodes e @ map fst ops" "enc_data e' = enc_data e @ map snd ops"
      and "enc_point_cnt e' = enc_point_cnt e" "enc_x e' = enc_x e" "enc_y e' = enc_y e"
      and "enc_layer e' = enc_layer e"
  shows "tracked E e'"
  using assms(1,6-) passed_ops [OF assms(3,2,4,5)] by (simp add: tracked_def)

lemma passed_op_numerals [simp]:
  "passed_op WOP_OPERAND" "passed_op WOP_PROPERTY" "passed_op WOP_RECT" "passed_op WOP_COLOR"
  "passed_op WOP_VIACOLOR" "passed_op WOP_ITERM" "passed_op WOP_BTERM" "passed_op WOP_RULE"
  "passed_op 131"
  by (simp_all add: passed_op_def)

lemma passed_rule: "r \<in> rule_codes \<Longrightarrow> passed_op r"
  by (simp add: passed_op_def rule_opcodes)

lemma enc_ok_parallel: "enc_ok e \<Longrightarrow> parallel e"
  by (simp add: enc_ok_def parallel_def)

lemma tracked_done:
  assumes "point_done p e1 e'" "tracked E e1" "enc_ok e1"
  shows "tracked E e'"
  using assms(1) assms(3) passed_rule
  by (intro tracked_passed [OF assms(2) enc_ok_parallel [OF assms(3)], of "rule_part e1 @ prop_part p e1"])
     (auto simp: point_done_def rule_part_def prop_part_def enc_ok_def)

lemma tracked_point_ops:
  assumes "point_ops width x y j e = Inr (j', e1)" "width \<in> widths" "tracked E e" "enc_ok e"
  shows "tracked E e1"
proof -
  note pw = point_opcodes [OF assms(2)]
  note par = enc_ok_parallel [OF assms(4)]
  have cp: "passed_op (WOP_COLINEAR OR width)" using pw(3) by (simp add: passed_op_def)
  consider (first) "enc_point_cnt e = 0"
    | (same) "enc_point_cnt e \<noteq> 0" "enc_x e = x" "enc_y e = y"
    | (x) "enc_point_cnt e \<noteq> 0" "enc_x e \<noteq> x" "enc_y e = y"
    | (y) "enc_point_cnt e \<noteq> 0" "enc_x e = x" "enc_y e \<noteq> y"
    using assms(1) by (auto simp: point_ops_def split: if_splits)
  then show ?thesis
  proof cases
    case first
    with assms(1,3) tail_point_first [OF par pw(1,2), of E "enc_layer e" y x] show ?thesis
      by (intro tracked_point) (auto simp: point_ops_def tracked_def)
  next
    case same
    with assms(1,3) tail_point_passive [OF par cp, of E _ 0] show ?thesis
      by (intro tracked_point) (auto simp: point_ops_def tracked_def)
  next
    case x
    with assms(1,3) tail_point_x [OF par pw(1), of E _ x] show ?thesis
      by (intro tracked_point) (fastforce simp: point_ops_def tracked_def)
  next
    case y
    with assms(1,3) tail_point_y [OF par pw(2), of E _ y] show ?thesis
      by (intro tracked_point) (fastforce simp: point_ops_def tracked_def)
  qed
qed

lemma tracked_point_ext_ops:
  assumes "point_ext_ops width x y ext j e = Inr (j', e1)" "width \<in> widths" "tracked E e" "enc_ok e"
  shows "tracked E e1"
proof -
  note pw = point_opcodes [OF assms(2)]
  note par = enc_ok_parallel [OF assms(4)]
  have cp: "passed_op (WOP_COLINEAR OR WOP_EXTENSION OR width)" using pw(6) by (simp add: passed_op_def)
  have ext: "tail_point E e2 q \<Longrightarrow> parallel e2 \<Longrightarrow> tail_point E (addOp WOP_OPERAND ext e2) q" for e2 q
    by (rule tail_point_passive) simp_all
  consider (first) "enc_point_cnt e = 0"
    | (same) "enc_point_cnt e \<noteq> 0" "enc_x e = x" "enc_y e = y"
    | (x) "enc_point_cnt e \<noteq> 0" "enc_x e \<noteq> x" "enc_y e = y"
    | (y) "enc_point_cnt e \<noteq> 0" "enc_x e = x" "enc_y e \<noteq> y"
    using assms(1) by (auto simp: point_ext_ops_def split: if_splits)
  then show ?thesis
  proof cases
    case first
    with assms(1,3) ext [OF tail_point_first [OF par pw(1,5), of E "enc_layer e" y x]] par show ?thesis
      by (intro tracked_point) (auto simp: point_ext_ops_def tracked_def)
  next
    case same
    with assms(1,3) tail_point_passive [OF par cp, of E _ ext] show ?thesis
      by (intro tracked_point) (auto simp: point_ext_ops_def tracked_def split: if_splits)
  next
    case x
    with assms(1,3) ext [OF tail_point_x [OF par pw(4), of E _ x]] par show ?thesis
      by (intro tracked_point) (fastforce simp: point_ext_ops_def tracked_def)
  next
    case y
    with assms(1,3) ext [OF tail_point_y [OF par pw(5), of E _ y]] par show ?thesis
      by (intro tracked_point) (fastforce simp: point_ext_ops_def tracked_def)
  qed
qed

lemma tracked_jct_path:
  assumes "junction_point E jct e = Inr pnt" "enc_ok e"
  shows "tracked E (jct_path jct ext type rule pnt e)"
proof -
  define b where "b = (case type of None \<Rightarrow> enc_wire_type e | Some t \<Rightarrow> wire_bits_of t)"
  have b: "b \<in> wire_bits" using assms(2) by (auto simp: b_def enc_ok_def split: option.splits)
  define oc where "oc = (case ext of None \<Rightarrow> WOP_COLINEAR OR (if rule = None then WOP_DEFAULT_WIDTH else 0)
      | Some x \<Rightarrow> WOP_COLINEAR OR WOP_EXTENSION OR (if rule = None then WOP_DEFAULT_WIDTH else 0))"
  define v where "v = (case ext of None \<Rightarrow> 0 | Some x \<Rightarrow> x)"
  let ?e = "jct_path jct ext type rule pnt e"
  have oc: "passed_op oc" by (cases rule; cases ext; simp add: oc_def passed_op_def)
  have fields: "enc_opcodes ?e = enc_opcodes (addOp (WOP_JUNCTION OR b) jct e) @ map fst (rule_ops rule @ [(oc, v)])"
    "enc_data ?e = enc_data (addOp (WOP_JUNCTION OR b) jct e) @ map snd (rule_ops rule @ [(oc, v)])"
    "enc_x ?e = wp_x pnt" "enc_y ?e = wp_y pnt" "enc_layer ?e = wp_layer pnt"
    unfolding jct_path_def Let_def b_def oc_def v_def
    by (cases rule; cases ext; simp add: rule_ops_def at_point_def initPath_def initPath_rule_def)+
  note par = enc_ok_parallel [OF assms(2)]
  have "resolves E (enc_opcodes e) (enc_data e) jct pnt"
    using assms(1) par getPrevPoint_resolves [of "enc_opcodes e" "enc_data e" E jct pnt]
    by (simp add: junction_point_def parallel_def split: if_splits)
  from tail_point_junction [OF par path_opcodes(3) [OF b] this]
  have "tail_point E (addOp (WOP_JUNCTION OR b) jct e) pnt" .
  moreover have "\<forall>(opc, v) \<in> set (rule_ops rule @ [(oc, v)]). passed_op opc"
    using oc passed_rule [OF rule_code_in] by (auto simp: rule_ops_def split: option.splits)
  ultimately have "tail_point E ?e pnt"
    using passed_ops [of "rule_ops rule @ [(oc, v)]" "addOp (WOP_JUNCTION OR b) jct e" ?e E pnt] par fields(1,2)
    by simp
  moreover have "\<lparr>wp_x = wp_x pnt, wp_y = wp_y pnt, wp_layer = wp_layer pnt\<rparr> = pnt"
    by (cases pnt) simp
  ultimately show ?thesis by (intro tracked_point) (simp only: fields)
qed

lemma tracked_opened:
  assumes "parallel e" "op_code opc = WOP_PATH \<or> op_code opc = WOP_SHORT"
      and "\<forall>(opc, v) \<in> set ops. passed_op opc"
      and "enc_opcodes e' = enc_opcodes e @ opc # map fst ops" "enc_data e' = enc_data e @ layer # map snd ops"
      and "enc_layer e' = layer" "enc_point_cnt e' = 0"
  shows "tracked E e'"
proof -
  have "tail_layer E (addOp opc layer e) layer"
    using assms(2) by (intro tail_layer_see [OF assms(1)]) (auto simp: visit_of_def)
  with passed_ops [OF assms(3), of "addOp opc layer e" e' E _ layer] assms show ?thesis
    by (simp add: tracked_def)
qed

lemma tracked_NewPath:
  assumes "enc_step E (NewPath layer type rule) e = Inr (r, e')" "enc_ok e"
  shows "tracked E e'"
proof (rule tracked_opened [OF enc_ok_parallel [OF assms(2)]])
  show "op_code (WOP_PATH OR wire_bits_of type) = WOP_PATH \<or> op_code (WOP_PATH OR wire_bits_of type) = WOP_SHORT"
    using path_opcodes(1) [OF wire_bits_of_in] by blast
  show "\<forall>(opc, v) \<in> set (rule_ops rule). passed_op opc"
    by (cases rule) (auto simp: rule_ops_def split: if_splits)
qed (use assms(1) in \<open>cases rule; auto simp: newPath_def newPath_rule_def Let_def initPath_type_eq
       initPath_type_rule_eq rule_ops_def initPath_def initPath_rule_def simp del: or.left_neutral\<close>)+

lemma tracked_NewPathShort:
  assumes "enc_step E (NewPathShort jct layer type rule) e = Inr (r, e')" "enc_ok e"
  shows "tracked E e'"
proof (rule tracked_opened [OF enc_ok_parallel [OF assms(2)]])
  show "op_code (WOP_SHORT OR wire_bits_of type) = WOP_PATH \<or> op_code (WOP_SHORT OR wire_bits_of type) = WOP_SHORT"
    using path_opcodes(2) [OF wire_bits_of_in] by blast
  show "\<forall>(opc, v) \<in> set ((WOP_OPERAND, jct) # rule_ops rule). passed_op opc"
    by (cases rule) (auto simp: rule_ops_def split: if_splits)
qed (use assms(1) in \<open>cases rule; auto simp: newPathShort_def newPathShort_rule_def Let_def initPath_type_eq
       initPath_type_rule_eq rule_ops_def initPath_def initPath_rule_def split: if_splits\<close>)+

lemma tracked_via:
  assumes "visit_of E opc v (int (length (enc_opcodes e))) = SeeLayer l" "tracked E e" "parallel e"
      and "enc_point_cnt e \<noteq> 0"
  shows "tail_point E (addOp opc v e) \<lparr>wp_x = enc_x e, wp_y = enc_y e, wp_layer = l\<rparr>"
  using tail_point_layer [OF assms(3,1)] assms(2,4) by (fastforce simp: tracked_def)

lemma visit_via [simp]:
  "visit_of E WOP_VIA v i = SeeLayer (via_bottom E v)" "visit_of E 135 v i = SeeLayer (via_top E v)"
  "visit_of E WOP_TECH_VIA v i = SeeLayer (techvia_bottom E v)"
  "visit_of E 136 v i = SeeLayer (techvia_top E v)"
  by (simp_all add: visit_of_def)

lemma tracked_addVia:
  assumes "addVia E v e = Inr (j, e')" "tracked E e" "parallel e"
  shows "tracked E e'"
  using assms(1) tracked_via [of E WOP_VIA v e, OF _ assms(2,3)] tracked_via [of E 135 v e, OF _ assms(2,3)]
  by (intro tracked_point) (auto simp: addVia_def split: if_splits)

lemma tracked_addTechVia:
  assumes "addTechVia E v e = Inr (j, e')" "tracked E e" "parallel e"
  shows "tracked E e'"
  using assms(1,3) tracked_via [of E WOP_TECH_VIA v e, OF _ assms(2,3)]
    tracked_via [of E 136 v e, OF _ assms(2,3)]
  by (intro tracked_point)
     (auto simp: addTechVia_def clearColor_def split: if_splits intro!: tail_point_passive)

text \<open>A command that does not start a virtual wire.\<close>

definition no_vwire :: "wire_cmd \<Rightarrow> bool" where
  "no_vwire c = (case c of NewPathVirtualWire _ _ _ _ \<Rightarrow> False | _ \<Rightarrow> True)"

definition opens_path :: "wire_cmd \<Rightarrow> bool" where
  "opens_path c = (case c of NewPath _ _ _ \<Rightarrow> True | NewPathShort _ _ _ _ \<Rightarrow> True
     | NewPathJct _ _ _ _ \<Rightarrow> True | _ \<Rightarrow> False)"

lemma tracked_opens:
  assumes "enc_step E c e = Inr (r, e')" "enc_ok e" "opens_path c"
  shows "tracked E e'"
  using assms tracked_NewPath tracked_NewPathShort tracked_jct_path
  by (cases c) (auto simp: opens_path_def sum_bind_Inr_iff simp del: enc_step.simps(1,2,4))

lemma tracked_simple:
  assumes "tracked E e" "enc_ok e" "passed_op opc"
  shows "tracked E (addOp opc v e)"
  by (rule tracked_passed [OF assms(1) enc_ok_parallel [OF assms(2)], of "[(opc, v)]"])
     (use assms(3) in simp_all)

lemma tracked_step:
  assumes "enc_step E c e = Inr (r, e')" "enc_ok e" "tracked E e" "no_vwire c"
  shows "tracked E e'"
proof (cases "opens_path c")
  case True
  with assms show ?thesis using tracked_opens by blast
next
  case False
  note par = enc_ok_parallel [OF assms(2)]
  show ?thesis
  proof (cases c)
    case (AddPoint x y p)
    with assms(1) obtain j where "addPoint x y p e = Inr (j, e')" by (auto simp: sum_bind_Inr_iff)
    then obtain width e1 where e1: "width \<in> widths" "point_ops width x y (enc_idx e) e = Inr (j, e1)"
        "point_done p e1 e'" by (rule addPoint_done)
    from tracked_done [OF e1(3) tracked_point_ops [OF e1(2,1) assms(3,2)]]
      enc_ok_point_ops [OF assms(2) e1(1,2)] show ?thesis by simp
  next
    case (AddPointExt x y ext p)
    with assms(1) obtain j where "addPointExt x y ext p e = Inr (j, e')" by (auto simp: sum_bind_Inr_iff)
    then obtain width e1 where e1: "width \<in> widths" "point_ext_ops width x y ext (enc_idx e) e = Inr (j, e1)"
        "point_done p e1 e'" by (rule addPointExt_done)
    from tracked_done [OF e1(3) tracked_point_ext_ops [OF e1(2,1) assms(3,2)]]
      enc_ok_point_ext_ops [OF assms(2) e1(1,2)] show ?thesis by simp
  next
    case (AddRect x1 y1 x2 y2)
    with assms(1) have "e' = addOp WOP_OPERAND y2 (addOp WOP_OPERAND x2
        (addOp WOP_OPERAND y1 (addOp WOP_RECT x1 e)))" by (auto simp: addRect_def split: if_splits)
    then show ?thesis
      by (intro tracked_passed [OF assms(3) par, of "[(WOP_RECT, x1), (WOP_OPERAND, y1), (WOP_OPERAND, x2),
            (WOP_OPERAND, y2)]"]) simp_all
  qed (use assms False par in \<open>auto simp: opens_path_def no_vwire_def sum_bind_Inr_iff
        enc_addITerm_def enc_addBTerm_def setColor_def clearColor_def setViaColor_def clearViaColor_def
        split: if_splits option.splits intro: tracked_simple tracked_addVia tracked_addTechVia\<close>)
qed

section \<open>Returned ids resolve\<close>

definition enc_point :: "encoder \<Rightarrow> WirePoint" where
  "enc_point e = \<lparr>wp_x = enc_x e, wp_y = enc_y e, wp_layer = enc_layer e\<rparr>"

definition enc_resolves :: "wire_env \<Rightarrow> encoder \<Rightarrow> int \<Rightarrow> WirePoint \<Rightarrow> bool" where
  "enc_resolves E e j q \<longleftrightarrow> resolves E (enc_opcodes e) (enc_data e) j q"

lemma enc_resolves_addOp:
  "enc_resolves E e j q \<Longrightarrow> parallel e \<Longrightarrow> enc_resolves E (addOp opc v e) j q"
  using resolves_append [of E "enc_opcodes e" "enc_data e" j q "[opc]" "[v]"]
  by (simp add: enc_resolves_def parallel_def)

lemma enc_resolves_tail:
  "tail_point E e q \<Longrightarrow> j = int (length (enc_opcodes e)) - 1 \<Longrightarrow> enc_resolves E e j q"
  by (simp add: enc_resolves_def tail_point_def)

lemma enc_resolves_updates [simp]:
  "enc_resolves E (e\<lparr>enc_layer := a\<rparr>) j q = enc_resolves E e j q"
  "enc_resolves E (e\<lparr>enc_x := a\<rparr>) j q = enc_resolves E e j q"
  "enc_resolves E (e\<lparr>enc_y := a\<rparr>) j q = enc_resolves E e j q"
  "enc_resolves E (e\<lparr>enc_point_cnt := n\<rparr>) j q = enc_resolves E e j q"
  "enc_resolves E (e\<lparr>enc_via_cnt := n\<rparr>) j q = enc_resolves E e j q"
  "enc_resolves E (e\<lparr>enc_prev_ext := u\<rparr>) j q = enc_resolves E e j q"
  by (simp_all add: enc_resolves_def)

lemma point_ops_resolves:
  assumes "point_ops width x y (enc_idx e) e = Inr (j, e1)" "width \<in> widths" "tracked E e" "enc_ok e"
  shows "enc_resolves E e1 j (enc_point e1)" "enc_x e1 = x" "enc_y e1 = y" "enc_layer e1 = enc_layer e"
proof -
  have "tracked E e1" "enc_ok e1"
    using tracked_point_ops [OF assms] enc_ok_point_ops [OF assms(4,2,1)] by simp_all
  moreover have "j = enc_idx e1 - 1" "enc_point_cnt e1 \<noteq> 0"
    using assms(1) by (auto simp: point_ops_def split: if_splits)
  ultimately show "enc_resolves E e1 j (enc_point e1)"
    by (auto simp: tracked_def enc_point_def enc_ok_def intro: enc_resolves_tail)
  show "enc_x e1 = x" "enc_y e1 = y" "enc_layer e1 = enc_layer e"
    using assms(1) by (auto simp: point_ops_def split: if_splits)
qed

lemma point_ext_ops_resolves:
  assumes "point_ext_ops width x y ext (enc_idx e) e = Inr (j, e1)" "width \<in> widths" "tracked E e" "enc_ok e"
  shows "enc_resolves E e1 j (enc_point e1)" "enc_x e1 = x" "enc_y e1 = y" "enc_layer e1 = enc_layer e"
proof -
  note pw = point_opcodes [OF assms(2)]
  note par = enc_ok_parallel [OF assms(4)]
  have idx: "enc_idx e = int (length (enc_opcodes e))" using assms(4) by (simp add: enc_ok_def)
  have ext: "tail_point E e2 q \<Longrightarrow> parallel e2 \<Longrightarrow> i = int (length (enc_opcodes e2)) - 1 \<Longrightarrow>
      enc_resolves E (addOp WOP_OPERAND ext e2) i q" for e2 q i
    by (intro enc_resolves_addOp enc_resolves_tail)
  have trk: "tracked E e1" using tracked_point_ext_ops [OF assms] .
  consider (first) "enc_point_cnt e = 0"
    | (same) "enc_point_cnt e \<noteq> 0" "enc_x e = x" "enc_y e = y"
    | (x) "enc_point_cnt e \<noteq> 0" "enc_x e \<noteq> x" "enc_y e = y"
    | (y) "enc_point_cnt e \<noteq> 0" "enc_x e = x" "enc_y e \<noteq> y"
    using assms(1) by (auto simp: point_ext_ops_def split: if_splits)
  then show "enc_resolves E e1 j (enc_point e1)"
  proof cases
    case first
    with assms(1,3) ext [OF tail_point_first [OF par pw(1,5), of E "enc_layer e" y x]] par idx show ?thesis
      by (auto simp: point_ext_ops_def tracked_def enc_point_def add.commute)
  next
    case same
    with assms(1) trk idx show ?thesis
      by (auto simp: point_ext_ops_def tracked_def enc_point_def split: if_splits intro!: enc_resolves_tail)
  next
    case x
    with assms(1,3) ext [OF tail_point_x [OF par pw(4), of E _ x]] par idx show ?thesis
      by (fastforce simp: point_ext_ops_def tracked_def enc_point_def)
  next
    case y
    with assms(1,3) ext [OF tail_point_y [OF par pw(5), of E _ y]] par idx show ?thesis
      by (fastforce simp: point_ext_ops_def tracked_def enc_point_def)
  qed
  show "enc_x e1 = x" "enc_y e1 = y" "enc_layer e1 = enc_layer e"
    using assms(1) by (auto simp: point_ext_ops_def split: if_splits)
qed

lemma enc_resolves_done:
  assumes "enc_resolves E e1 j q" "point_done p e1 e'" "enc_ok e1"
  shows "enc_resolves E e' j q"
  using resolves_append [OF assms(1) [unfolded enc_resolves_def]] assms(2,3)
  by (simp add: enc_resolves_def point_done_def enc_ok_def)

text \<open>The id a command returns resolves to the encoder's position after the command.\<close>

lemma returned_resolves:
  assumes "enc_step E c e = Inr (Some j, e')" "enc_ok e" "tracked E e"
  shows "enc_resolves E e' j (enc_point e')"
proof (cases c)
  case (AddPoint x y p)
  with assms(1) have "addPoint x y p e = Inr (j, e')" by (auto simp: sum_bind_Inr_iff)
  then obtain width e1 where e1: "width \<in> widths" "point_ops width x y (enc_idx e) e = Inr (j, e1)"
      "point_done p e1 e'" by (rule addPoint_done)
  from enc_resolves_done [OF point_ops_resolves(1) [OF e1(2,1) assms(3,2)] e1(3)]
    enc_ok_point_ops [OF assms(2) e1(1,2)] e1(3) show ?thesis
    by (simp add: point_done_def enc_point_def)
next
  case (AddPointExt x y ext p)
  with assms(1) have "addPointExt x y ext p e = Inr (j, e')" by (auto simp: sum_bind_Inr_iff)
  then obtain width e1 where e1: "width \<in> widths" "point_ext_ops width x y ext (enc_idx e) e = Inr (j, e1)"
      "point_done p e1 e'" by (rule addPointExt_done)
  from enc_resolves_done [OF point_ext_ops_resolves(1) [OF e1(2,1) assms(3,2)] e1(3)]
    enc_ok_point_ext_ops [OF assms(2) e1(1,2)] e1(3) show ?thesis
    by (simp add: point_done_def enc_point_def)
next
  case (AddVia v)
  note par = enc_ok_parallel [OF assms(2)]
  from AddVia assms tracked_via [of E WOP_VIA v e, OF _ assms(3) par] tracked_via [of E 135 v e, OF _ assms(3) par]
  show ?thesis
    by (auto simp: addVia_def enc_point_def enc_ok_def sum_bind_Inr_iff split: if_splits
          intro!: enc_resolves_tail)
next
  case (AddTechVia v)
  note par = enc_ok_parallel [OF assms(2)]
  from AddTechVia assms par tracked_via [of E WOP_TECH_VIA v e, OF _ assms(3) par]
    tracked_via [of E 136 v e, OF _ assms(3) par]
  show ?thesis
    by (auto simp: addTechVia_def clearColor_def enc_point_def enc_ok_def sum_bind_Inr_iff split: if_splits
          intro!: enc_resolves_addOp [OF enc_resolves_tail])
next
  case (NewPath layer type rule)
  with assms(1) show ?thesis by (cases rule) auto
qed (use assms in \<open>auto simp: sum_bind_Inr_iff\<close>)

lemma enc_resolves_run:
  assumes "enc_run E cs e = Inr e'" "enc_ok e" "enc_resolves E e j q"
  shows "enc_resolves E e' j q"
proof -
  have "extends \<lparr>w_data = enc_data e', w_opcodes = enc_opcodes e'\<rparr> e' []" by (simp add: extends_def)
  from enc_run_opens [OF assms(1,2) this] obtain rest where
    "extends \<lparr>w_data = enc_data e', w_opcodes = enc_opcodes e'\<rparr> e rest" by (auto simp: no_rule_def)
  then show ?thesis
    using resolves_append [OF assms(3) [unfolded enc_resolves_def]] assms(2)
    by (simp add: extends_def enc_resolves_def enc_ok_def)
qed

lemma tracked_run:
  assumes "enc_run E cs e = Inr e'" "enc_ok e" "tracked E e" "list_all no_vwire cs"
  shows "tracked E e'"
  using assms
  by (induction cs arbitrary: e) (auto simp: sum_bind_Inr_iff intro: tracked_step enc_ok_step)

text \<open>
  C28: Junction ids resolve.  In an encoding that starts with a path and has no virtual wire
  before a call that returns a junction id, the walk from that id finds the position and the
  layer the encoder had after the call, whatever is encoded afterwards, so that a branch
  from the id starts where the client added the point or the via.
\<close>

theorem junction_resolves:
  assumes "enc_run E (c0 # cs) (enc_begin e0) = Inr e" "enc_wire_type e0 \<in> wire_bits"
      and "opens_path c0" "list_all no_vwire cs"
      and "enc_step E c e = Inr (Some j, e1)" "enc_run E later e1 = Inr e2"
  shows "getPrevPoint E (enc_opcodes e2) (enc_data e2) j True = Inr (enc_point e1)"
proof -
  note ok0 = enc_ok_begin [OF assms(2)]
  obtain r e' where s: "enc_step E c0 (enc_begin e0) = Inr (r, e')" "enc_run E cs e' = Inr e"
    using assms(1) by (auto simp: sum_bind_Inr_iff)
  note ok' = enc_ok_step [OF s(1) ok0]
  note ok = enc_ok_run [OF s(2) ok']
  note trk = tracked_run [OF s(2) ok' tracked_opens [OF s(1) ok0 assms(3)] assms(4)]
  note ok1 = enc_ok_step [OF assms(5) ok]
  from enc_resolves_run [OF assms(6) ok1 returned_resolves [OF assms(5) ok trk]]
  have "enc_resolves E e2 j (enc_point e1)" .
  moreover have "length (enc_opcodes e2) = length (enc_data e2)"
    using enc_ok_run [OF assms(6) ok1] by (simp add: enc_ok_def)
  ultimately show ?thesis by (simp add: getPrevPoint_resolves enc_resolves_def)
qed

definition demo_before :: encoder where
  "demo_before = \<lparr>enc_data = [1, 0, 0, 10, 7, 1, 0, 2],
     enc_opcodes = [0x60, 0x44, 0x45, 0x44, 12, 0x88, 16, 16], enc_layer = 2, enc_idx = 8,
     enc_x = 10, enc_y = 0, enc_non_default_rule = 0, enc_point_cnt = 2, enc_via_cnt = 1,
     enc_prev_ext = False, enc_wire_type = 0x60, enc_rule_opcode = 0\<rparr>"

definition demo_after :: encoder where
  "demo_after = \<lparr>enc_data = [1, 0, 0, 10, 7, 1, 0, 2, 20, 5, 0],
     enc_opcodes = [0x60, 0x44, 0x45, 0x44, 12, 0x88, 16, 16, 0xC5, 11, 12], enc_layer = 2, enc_idx = 11,
     enc_x = 10, enc_y = 20, enc_non_default_rule = 0, enc_point_cnt = 3, enc_via_cnt = 1,
     enc_prev_ext = False, enc_wire_type = 0x60, enc_rule_opcode = 0\<rparr>"

lemma demo_steps:
  "enc_run demo_env (NewPath 1 WireType_ROUTED None # [AddPoint 0 0 7, AddPoint 10 0 7, AddTechVia 1,
     SetColor 2]) (enc_begin enc_new) = Inr demo_before"
  "enc_step demo_env (AddPointExt 10 20 5 0) demo_before = Inr (Some 8, demo_after)"
  "enc_run demo_env demo_later demo_after = Inr demo_encoder"
  by (simp_all add: demo_simps demo_later_def demo_encoder_def demo_before_def demo_after_def)

lemma junction_resolves_witness:
  "getPrevPoint demo_env (enc_opcodes demo_encoder) (enc_data demo_encoder) 8 True
   = Inr \<lparr>wp_x = 10, wp_y = 20, wp_layer = 2\<rparr>"
  using junction_resolves [OF demo_steps(1) _ _ _ demo_steps(2,3)]
  by (simp add: wire_bits_def enc_new_def opens_path_def no_vwire_def enc_point_def demo_after_def)

text \<open>
  \<open>getPrevPoint\<close> passes over the opcode of a virtual wire.  A path drawn on layer 5 from a
  virtual wire has its point at (7, 8) on layer 5 in the encoder, but a branch from the id of
  that point (6) is placed on layer 1, the layer of the path before it.
\<close>

theorem vwire_branch_layer:
  "\<exists>e. enc_run demo_env [NewPath 1 WireType_ROUTED None, AddPoint 0 0 0,
            NewPathVirtualWire 2 5 WireType_ROUTED None, AddPoint 7 8 0] (enc_begin enc_new) = Inr e
     \<and> enc_point e = \<lparr>wp_x = 7, wp_y = 8, wp_layer = 5\<rparr>
     \<and> getPrevPoint demo_env (enc_opcodes e) (enc_data e) 6 True
       = Inr \<lparr>wp_x = 7, wp_y = 8, wp_layer = 1\<rparr>"
proof (intro exI conjI)
  let ?e = "\<lparr>enc_data = [1, 0, 0, 5, 2, 7, 8], enc_opcodes = [0x60, 0x44, 0x45, 0x6D, 11, 0x44, 0x45],
     enc_layer = 5, enc_idx = 7, enc_x = 7, enc_y = 8, enc_non_default_rule = 0, enc_point_cnt = 1,
     enc_via_cnt = 0, enc_prev_ext = False, enc_wire_type = 0x60, enc_rule_opcode = 0\<rparr>"
  show "enc_run demo_env [NewPath 1 WireType_ROUTED None, AddPoint 0 0 0,
            NewPathVirtualWire 2 5 WireType_ROUTED None, AddPoint 7 8 0] (enc_begin enc_new) = Inr ?e"
    by (simp add: enc_defs)
  show "enc_point ?e = \<lparr>wp_x = 7, wp_y = 8, wp_layer = 5\<rparr>" by (simp add: enc_point_def)
  show "getPrevPoint demo_env (enc_opcodes ?e) (enc_data ?e) 6 True
      = Inr \<lparr>wp_x = 7, wp_y = 8, wp_layer = 1\<rparr>" by (simp add: demo_simps)
qed

text \<open>
  \<open>peek\<close> announces the element \<open>next\<close> then returns, from every state of the decoder, with
  one exception: before the first point of a path it may take a point with an extension for
  one without.
\<close>

theorem peek_next:
  assumes "dec_next E w d = Inr (op, d')" "d_idx d \<le> w_length w"
  shows "peek_agrees d (dec_peek w d) op"
  using assms by (rule next_peek)

definition demo_in_path :: decoder where
  "demo_in_path = demo_decoder\<lparr>d_idx := 1, d_jct_id := 0, d_operand := 1, d_layer := 1,
     d_wire_type := WireType_ROUTED, d_opcode := PATH\<rparr>"

definition ext_wire :: wire where
  "ext_wire = \<lparr>w_data = [1, 0, 0, 9], w_opcodes = [0x60, 0x44, 0xC5, 11]\<rparr>"

lemma ext_wire_next:
  "dec_next demo_env ext_wire demo_decoder = Inr (PATH, demo_in_path)"
  "dec_next demo_env ext_wire (dec_begin demo_decoder) = Inr (PATH, demo_in_path\<lparr>d_jct_id := 0\<rparr>)"
  by (rule dec_next_return; simp add: dec_step_def dec_defs demo_decoder_def demo_in_path_def ext_wire_def)+

lemma peek_next_witness: "peek_agrees demo_decoder (dec_peek ext_wire demo_decoder) PATH"
  using peek_next [OF ext_wire_next(1)] by (simp add: demo_decoder_def w_length_def)

text \<open>
  The exception is real: the wire of a path whose first point has an extension is
  announced as \<open>POINT\<close> and returned as \<open>POINT_EXT\<close>.
\<close>

theorem peek_first_point_ext:
  "dec_next demo_env ext_wire (dec_begin demo_decoder) = Inr (PATH, demo_in_path)
   \<and> dec_peek ext_wire demo_in_path = POINT
   \<and> (\<exists>d'. dec_next demo_env ext_wire demo_in_path = Inr (POINT_EXT, d'))"
proof (intro conjI exI)
  show "dec_next demo_env ext_wire (dec_begin demo_decoder) = Inr (PATH, demo_in_path)"
    using ext_wire_next(2) by (simp add: demo_in_path_def)
  show "dec_peek ext_wire demo_in_path = POINT"
    by (simp add: dec_peek_def peek_op_def ext_wire_def demo_in_path_def)
  show "dec_next demo_env ext_wire demo_in_path = Inr (POINT_EXT, demo_in_path
      \<lparr>d_jct_id := 2, d_operand := 0, d_x := 0, d_y := 0, d_point_cnt := 1, d_idx := 4,
       d_operand2 := 9, d_opcode := POINT_EXT\<rparr>)"
    by (rule dec_next_return)
       (simp add: dec_step_def dec_defs demo_decoder_def demo_in_path_def ext_wire_def)
qed

end
