(* ===== verification/OdbPagedVector.thy ===== *)
theory OdbPagedVector imports OdbPrelude begin

text \<open>
  \<open>dbPagedVector.h\<close>: a vector kept as a table of pages of \<open>2 ^ page_shift\<close> objects, so that it
  grows without moving its objects.  The indices are 32-bit words and are split with masks and
  shifts as the code does; the abstraction \<open>pv_elems\<close> is the list of the elements.

  The locale \<open>sequence\<close> is what the clients (the journal's log) rely on.
\<close>

unbundle bit_operations_syntax

section \<open>State and operations\<close>

text \<open>
  The page table, whose unused slots are null; its length is \<open>_page_tbl_size\<close>.
  \<open>P\<close> and \<open>S\<close> are the template's \<open>page_size\<close> and \<open>page_shift\<close>.
\<close>

record 'a paged =
  pv_pages :: "'a list option list"
  pv_page_cnt :: nat
  pv_next_idx :: u32

definition pv_new :: "'a paged" where
  "pv_new = \<lparr>pv_pages = [], pv_page_cnt = 0, pv_next_idx = 0\<rparr>"

definition pv_page :: "u32 \<Rightarrow> nat \<Rightarrow> u32 \<Rightarrow> u32" where
  "pv_page P S idx = drop_bit S (idx AND NOT (P - 1))"

definition pv_offset :: "u32 \<Rightarrow> u32 \<Rightarrow> u32" where
  "pv_offset P idx = idx AND (P - 1)"

definition pv_size :: "'a paged \<Rightarrow> u32" where
  "pv_size pv = pv_next_idx pv"

definition pv_clear :: "'a paged \<Rightarrow> 'a paged" where
  "pv_clear pv = pv\<lparr>pv_pages := [], pv_page_cnt := 0, pv_next_idx := 0\<rparr>"

text \<open>The table grows from 1 to 2, and by half from then on; the new slots are null.\<close>

definition resizePageTbl :: "'a paged \<Rightarrow> 'a paged" where
  "resizePageTbl pv =
     (let old = length (pv_pages pv);
          new = (if old = 1 then old + 1 else old + old div 2)
      in pv\<lparr>pv_pages := pv_pages pv @ replicate (new - old) None\<rparr>)"

text \<open>\<open>new T[P]\<close> leaves the objects uninitialised; \<open>junk\<close> is what they hold.\<close>

definition newPage :: "u32 \<Rightarrow> 'a \<Rightarrow> 'a paged \<Rightarrow> 'a paged" where
  "newPage P junk pv =
     (let pv1 = (if length (pv_pages pv) = 0 then pv\<lparr>pv_pages := [None]\<rparr>
                 else if length (pv_pages pv) = pv_page_cnt pv then resizePageTbl pv
                 else pv)
      in pv1\<lparr>pv_pages := (pv_pages pv1)[pv_page_cnt pv1 := Some (replicate (unat P) junk)],
             pv_page_cnt := pv_page_cnt pv1 + 1\<rparr>)"

definition pv_push_back :: "u32 \<Rightarrow> nat \<Rightarrow> 'a \<Rightarrow> 'a \<Rightarrow> 'a paged \<Rightarrow> 'a paged" where
  "pv_push_back P S junk item pv =
     (let page = unat (pv_page P S (pv_next_idx pv));
          pv1 = (if page = pv_page_cnt pv then newPage P junk pv else pv);
          offset = unat (pv_offset P (pv_next_idx pv1));
          pv2 = pv1\<lparr>pv_next_idx := pv_next_idx pv1 + 1\<rparr>
      in pv2\<lparr>pv_pages := (pv_pages pv2)[page := map_option (\<lambda>objects. objects[offset := item])
                                                   (pv_pages pv2 ! page)]\<rparr>)"

text \<open>\<open>push_back(cnt, item)\<close> returns the index of the first of the \<open>cnt\<close> copies.\<close>

definition pv_push_back_n :: "u32 \<Rightarrow> nat \<Rightarrow> 'a \<Rightarrow> nat \<Rightarrow> 'a \<Rightarrow> 'a paged \<Rightarrow> u32 \<times> 'a paged" where
  "pv_push_back_n P S junk cnt item pv = (pv_next_idx pv, (pv_push_back P S junk item ^^ cnt) pv)"

text \<open>\<open>operator[]\<close>: \<open>None\<close> is the failed \<open>ZASSERT(id < _next_idx)\<close>, or a null page.\<close>

definition pv_index :: "u32 \<Rightarrow> nat \<Rightarrow> 'a paged \<Rightarrow> u32 \<Rightarrow> 'a option" where
  "pv_index P S pv i =
     (if i < pv_next_idx pv
      then map_option (\<lambda>objects. objects ! unat (pv_offset P i)) (pv_pages pv ! unat (pv_page P S i))
      else None)"

text \<open>The copy constructor, \<open>operator==\<close> and the two stream operators, element by element.\<close>

definition pv_copy :: "u32 \<Rightarrow> nat \<Rightarrow> 'a \<Rightarrow> 'a paged \<Rightarrow> 'a paged" where
  "pv_copy P S junk V =
     fold (\<lambda>i pv. pv_push_back P S junk (the (pv_index P S V (of_nat i))) pv)
       [0..<unat (pv_size V)] pv_new"

definition pv_eq :: "u32 \<Rightarrow> nat \<Rightarrow> 'a paged \<Rightarrow> 'a paged \<Rightarrow> bool" where
  "pv_eq P S lhs rhs \<longleftrightarrow> pv_size lhs = pv_size rhs \<and>
     (\<forall>i \<in> set [0..<unat (pv_size lhs)]. pv_index P S lhs (of_nat i) = pv_index P S rhs (of_nat i))"

definition pv_write :: "u32 \<Rightarrow> nat \<Rightarrow> 'a paged \<Rightarrow> u32 \<times> 'a list" where
  "pv_write P S v = (pv_size v, map (\<lambda>i. the (pv_index P S v (of_nat i))) [0..<unat (pv_size v)])"

definition pv_read :: "u32 \<Rightarrow> nat \<Rightarrow> 'a \<Rightarrow> u32 \<times> 'a list \<Rightarrow> 'a paged \<Rightarrow> 'a paged" where
  "pv_read P S junk input v =
     fold (pv_push_back P S junk) (take (unat (fst input)) (snd input)) (pv_clear v)"

section \<open>Invariant and abstraction\<close>

definition pv_ok :: "u32 \<Rightarrow> nat \<Rightarrow> 'a paged \<Rightarrow> bool" where
  "pv_ok P S pv \<longleftrightarrow> S < 32 \<and> P = 2 ^ S \<and> pv_page_cnt pv \<le> length (pv_pages pv) \<and>
     (\<forall>i < pv_page_cnt pv. \<exists>objects. pv_pages pv ! i = Some objects \<and> length objects = 2 ^ S) \<and>
     unat (pv_next_idx pv) \<le> pv_page_cnt pv * 2 ^ S \<and>
     pv_page_cnt pv * 2 ^ S < unat (pv_next_idx pv) + 2 ^ S"

definition pv_get :: "nat \<Rightarrow> 'a paged \<Rightarrow> nat \<Rightarrow> 'a" where
  "pv_get S pv i = the (pv_pages pv ! (i div 2 ^ S)) ! (i mod 2 ^ S)"

definition pv_elems :: "nat \<Rightarrow> 'a paged \<Rightarrow> 'a list" where
  "pv_elems S pv = map (pv_get S pv) [0..<unat (pv_next_idx pv)]"

lemma length_pv_elems [simp]: "length (pv_elems S pv) = unat (pv_next_idx pv)"
  by (simp add: pv_elems_def)

lemma pv_page_offset:
  assumes "S < 32" "P = 2 ^ S"
  shows "unat (pv_page P S i) = unat i div 2 ^ S" "unat (pv_offset P i) = unat i mod 2 ^ S"
proof -
  have m: "P - 1 = mask S" using assms(2) by (simp add: mask_eq_decr_exp)
  have "drop_bit S (i AND NOT (mask S)) = drop_bit S i"
    by (rule bit_eqI) (auto simp: bit_simps dest: bit_imp_le_length)
  then have "unat (pv_page P S i) = drop_bit S (unat i)"
    by (simp add: pv_page_def m unat_drop_bit_eq)
  then show "unat (pv_page P S i) = unat i div 2 ^ S" by (simp add: drop_bit_eq_div)
  have "pv_offset P i = take_bit S i" by (simp add: pv_offset_def m take_bit_eq_mask)
  then have "unat (pv_offset P i) = take_bit S (unat i)" by (simp only: unsigned_take_bit_eq)
  then show "unat (pv_offset P i) = unat i mod 2 ^ S" by (simp add: take_bit_eq_mod)
qed

lemma unat_page_size:
  assumes "S < 32"
  shows "unat (2 ^ S :: u32) = 2 ^ S"
proof -
  have "(2 :: nat) ^ S < 2 ^ 32" using assms by (intro power_strict_increasing) auto
  then have "unat (of_nat (2 ^ S) :: u32) = 2 ^ S" using assms by (subst unsigned_of_nat) (simp add: take_bit_nat_eq_self)
  then show ?thesis by simp
qed

lemma pv_new_ok: "S < 32 \<Longrightarrow> pv_ok (2 ^ S) S pv_new"
  by (simp add: pv_ok_def pv_new_def)

lemma pv_clear_ok: "pv_ok P S pv \<Longrightarrow> pv_ok P S (pv_clear pv) \<and> pv_elems S (pv_clear pv) = []"
  by (simp add: pv_ok_def pv_clear_def pv_elems_def)

section \<open>push_back appends\<close>

lemma newPage_facts:
  assumes "pv_page_cnt pv \<le> length (pv_pages pv)"
  shows "pv_page_cnt (newPage P junk pv) = pv_page_cnt pv + 1"
    "pv_next_idx (newPage P junk pv) = pv_next_idx pv"
    "pv_page_cnt pv + 1 \<le> length (pv_pages (newPage P junk pv))"
    "i < pv_page_cnt pv \<Longrightarrow> pv_pages (newPage P junk pv) ! i = pv_pages pv ! i"
    "pv_pages (newPage P junk pv) ! pv_page_cnt pv = Some (replicate (unat P) junk)"
proof -
  have grow: "length (pv_pages pv) < length (pv_pages (resizePageTbl pv))" if "length (pv_pages pv) \<noteq> 0"
  proof (cases "length (pv_pages pv) = 1")
    case False
    with that have "2 \<le> length (pv_pages pv)" by linarith
    with False show ?thesis by (simp add: resizePageTbl_def Let_def)
  qed (simp add: resizePageTbl_def Let_def)
  show "pv_page_cnt (newPage P junk pv) = pv_page_cnt pv + 1"
    "pv_next_idx (newPage P junk pv) = pv_next_idx pv"
    by (simp_all add: newPage_def resizePageTbl_def Let_def)
  show "pv_page_cnt pv + 1 \<le> length (pv_pages (newPage P junk pv))"
    using assms grow by (auto simp: newPage_def Let_def resizePageTbl_def)
  show "i < pv_page_cnt pv \<Longrightarrow> pv_pages (newPage P junk pv) ! i = pv_pages pv ! i"
    using assms by (auto simp: newPage_def Let_def resizePageTbl_def nth_append)
  show "pv_pages (newPage P junk pv) ! pv_page_cnt pv = Some (replicate (unat P) junk)"
    using assms grow by (auto simp: newPage_def Let_def resizePageTbl_def)
qed

text \<open>The page a push writes to is allocated, and the pages before it are untouched.
  There is room below the largest 32-bit size.\<close>

definition pv_room :: "'a paged \<Rightarrow> bool" where
  "pv_room pv \<longleftrightarrow> unat (pv_next_idx pv) < 4294967295"

lemma div_pow_bounds:
  fixes n :: nat
  assumes "n \<le> c * 2 ^ S" "c * 2 ^ S < n + 2 ^ S"
  shows "n div 2 ^ S = c \<and> n = c * 2 ^ S \<or> n div 2 ^ S < c \<and> n < c * 2 ^ S"
proof (cases "n = c * 2 ^ S")
  case False
  with assms have "n < c * 2 ^ S" by simp
  then show ?thesis by (simp add: less_mult_imp_div_less)
qed simp

lemma pv_push_prepared:
  assumes "pv_ok P S pv" "pv_room pv"
  obtains pv1 objects where
    "pv1 = (if unat (pv_page P S (pv_next_idx pv)) = pv_page_cnt pv then newPage P junk pv else pv)"
    "pv_pages pv1 ! (unat (pv_next_idx pv) div 2 ^ S) = Some objects" "length objects = 2 ^ S"
    "unat (pv_next_idx pv) div 2 ^ S < pv_page_cnt pv1" "pv_page_cnt pv1 \<le> length (pv_pages pv1)"
    "pv_next_idx pv1 = pv_next_idx pv"
    "\<forall>i < pv_page_cnt pv1. \<exists>objects. pv_pages pv1 ! i = Some objects \<and> length objects = 2 ^ S"
    "unat (pv_next_idx pv) < pv_page_cnt pv1 * 2 ^ S"
    "pv_page_cnt pv1 * 2 ^ S < unat (pv_next_idx pv) + 1 + 2 ^ S"
    "\<forall>i < unat (pv_next_idx pv). pv_pages pv1 ! (i div 2 ^ S) = pv_pages pv ! (i div 2 ^ S)"
proof -
  let ?n = "unat (pv_next_idx pv)"
  have ok: "S < 32" "P = 2 ^ S" "pv_page_cnt pv \<le> length (pv_pages pv)"
    "\<And>i. i < pv_page_cnt pv \<Longrightarrow> \<exists>objects. pv_pages pv ! i = Some objects \<and> length objects = 2 ^ S"
    "?n \<le> pv_page_cnt pv * 2 ^ S" "pv_page_cnt pv * 2 ^ S < ?n + 2 ^ S"
    using assms(1) by (auto simp: pv_ok_def)
  have page: "unat (pv_page P S (pv_next_idx pv)) = ?n div 2 ^ S" using pv_page_offset ok by blast
  have P: "unat P = 2 ^ S" using ok by (simp add: unat_page_size)
  note facts = newPage_facts [OF ok(3), where P = P and junk = junk]
  from div_pow_bounds [OF ok(5,6)] show ?thesis
  proof
    assume full: "?n div 2 ^ S = pv_page_cnt pv \<and> ?n = pv_page_cnt pv * 2 ^ S"
    show ?thesis
    proof (rule that [of "newPage P junk pv" "replicate (unat P) junk"])
      show "\<forall>i < pv_page_cnt (newPage P junk pv). \<exists>objects. pv_pages (newPage P junk pv) ! i = Some objects \<and>
          length objects = 2 ^ S"
        using facts P ok(4) by (auto simp: less_Suc_eq)
      show "\<forall>i < ?n. pv_pages (newPage P junk pv) ! (i div 2 ^ S) = pv_pages pv ! (i div 2 ^ S)"
        using facts(4) full by (auto intro: less_mult_imp_div_less)
    qed (use full facts P page in \<open>simp_all\<close>)
  next
    assume part: "?n div 2 ^ S < pv_page_cnt pv \<and> ?n < pv_page_cnt pv * 2 ^ S"
    with ok(4) obtain objects where "pv_pages pv ! (?n div 2 ^ S) = Some objects" "length objects = 2 ^ S"
      by blast
    then show ?thesis using part page ok by (intro that [of pv objects]) auto
  qed
qed

lemma unat_next: "pv_room pv \<Longrightarrow> unat (pv_next_idx pv + 1) = unat (pv_next_idx pv) + 1"
  using unat_add_lem [of "pv_next_idx pv" 1] by (simp add: pv_room_def)

lemma pv_push_back_elems:
  assumes "pv_ok P S pv" "pv_room pv"
  shows "pv_ok P S (pv_push_back P S junk item pv)"
    "pv_elems S (pv_push_back P S junk item pv) = pv_elems S pv @ [item]"
    "pv_next_idx (pv_push_back P S junk item pv) = pv_next_idx pv + 1"
proof -
  let ?n = "unat (pv_next_idx pv)" and ?pv' = "pv_push_back P S junk item pv"
  obtain pv1 objects where p:
    "pv1 = (if unat (pv_page P S (pv_next_idx pv)) = pv_page_cnt pv then newPage P junk pv else pv)"
    "pv_pages pv1 ! (?n div 2 ^ S) = Some objects" "length objects = 2 ^ S"
    "?n div 2 ^ S < pv_page_cnt pv1" "pv_page_cnt pv1 \<le> length (pv_pages pv1)"
    "pv_next_idx pv1 = pv_next_idx pv"
    "\<forall>i < pv_page_cnt pv1. \<exists>objects. pv_pages pv1 ! i = Some objects \<and> length objects = 2 ^ S"
    "?n < pv_page_cnt pv1 * 2 ^ S" "pv_page_cnt pv1 * 2 ^ S < ?n + 1 + 2 ^ S"
    "\<forall>i < ?n. pv_pages pv1 ! (i div 2 ^ S) = pv_pages pv ! (i div 2 ^ S)"
    by (rule pv_push_prepared [OF assms, where junk = junk])
  have SP: "S < 32" "P = 2 ^ S" using assms(1) by (simp_all add: pv_ok_def)
  note po = pv_page_offset [OF SP]
  have pv': "?pv' = pv1\<lparr>pv_next_idx := pv_next_idx pv + 1,
      pv_pages := (pv_pages pv1)[?n div 2 ^ S := Some (objects[?n mod 2 ^ S := item])]\<rparr>"
    using p(1,2,6) by (simp add: pv_push_back_def Let_def po)
  show nxt: "pv_next_idx ?pv' = pv_next_idx pv + 1" by (simp add: pv')
  show "pv_ok P S ?pv'"
    unfolding pv_ok_def pv' using p(2-9) SP unat_next [OF assms(2)] by (auto simp: nth_list_update)
  have old: "pv_get S ?pv' i = pv_get S pv i" if "i < ?n" for i
  proof (cases "i div 2 ^ S = ?n div 2 ^ S")
    case True
    with that have "i mod 2 ^ S \<noteq> ?n mod 2 ^ S"
      by (metis div_mult_mod_eq less_irrefl)
    moreover have "pv_pages pv ! (?n div 2 ^ S) = Some objects"
      using p(2) p(10) [rule_format, OF that] True by simp
    ultimately show ?thesis using True p(4,5) by (simp add: pv_get_def pv')
  next
    case False
    with p(10) that show ?thesis by (simp add: pv_get_def pv')
  qed
  have new: "pv_get S ?pv' ?n = item" using p(3,4,5) by (simp add: pv_get_def pv')
  show "pv_elems S ?pv' = pv_elems S pv @ [item]"
    using old new by (simp add: pv_elems_def nxt unat_next [OF assms(2)])
qed

lemma pv_index_nth:
  assumes "pv_ok P S pv"
  shows "pv_index P S pv i = (if unat i < length (pv_elems S pv) then Some (pv_elems S pv ! unat i) else None)"
proof (cases "i < pv_next_idx pv")
  case True
  then have less: "unat i < unat (pv_next_idx pv)" by (simp add: word_less_nat_alt)
  have ok: "S < 32" "P = 2 ^ S" "unat (pv_next_idx pv) \<le> pv_page_cnt pv * 2 ^ S"
    using assms by (simp_all add: pv_ok_def)
  from less ok(3) have "unat i div 2 ^ S < pv_page_cnt pv"
    by (intro less_mult_imp_div_less) simp
  with assms obtain objects where "pv_pages pv ! (unat i div 2 ^ S) = Some objects"
    by (auto simp: pv_ok_def)
  with True less show ?thesis
    by (simp add: pv_index_def pv_page_offset [OF ok(1,2)] pv_elems_def pv_get_def)
qed (simp add: pv_index_def word_less_nat_alt)

section \<open>The interface\<close>

text \<open>
  What a client of an append-only sequence may rely on: the state stands for a list, an append
  within the capacity adds an element at its end, reading gives the element.
\<close>

locale sequence =
  fixes ok :: "'s \<Rightarrow> bool" and elems :: "'s \<Rightarrow> 'a list" and capacity :: nat
    and push :: "'a \<Rightarrow> 's \<Rightarrow> 's" and get :: "'s \<Rightarrow> nat \<Rightarrow> 'a option"
  assumes push_ok: "ok s \<Longrightarrow> length (elems s) < capacity \<Longrightarrow> ok (push x s)"
    and push_elems: "ok s \<Longrightarrow> length (elems s) < capacity \<Longrightarrow> elems (push x s) = elems s @ [x]"
    and get_elems: "ok s \<Longrightarrow> i \<le> capacity \<Longrightarrow>
          get s i = (if i < length (elems s) then Some (elems s ! i) else None)"
begin

lemma pushes:
  "ok s \<Longrightarrow> length (elems s) + length xs \<le> capacity \<Longrightarrow>
   ok (fold push xs s) \<and> elems (fold push xs s) = elems s @ xs"
  by (induction xs arbitrary: s) (simp_all add: push_ok push_elems)

lemma get_pushed:
  assumes "ok s" "length (elems s) + length xs \<le> capacity" "i < length xs"
  shows "get (fold push xs s) (length (elems s) + i) = Some (xs ! i)"
  using pushes [OF assms(1,2)] assms(2,3) get_elems by (simp add: nth_append)

lemma get_before:
  assumes "ok s" "length (elems s) + length xs \<le> capacity" "i < length (elems s)"
  shows "get (fold push xs s) i = get s i"
  using pushes [OF assms(1,2)] assms get_elems by (simp add: nth_append)

lemma pushes_replicate:
  assumes "ok s" "length (elems s) + n \<le> capacity"
  shows "ok ((push x ^^ n) s) \<and> elems ((push x ^^ n) s) = elems s @ replicate n x"
proof -
  have "fold push (replicate n x) s = (push x ^^ n) s"
  proof (induction n arbitrary: s)
    case (Suc n)
    have "(push x ^^ Suc n) s = (push x ^^ n) (push x s)" by (simp only: funpow_Suc_right o_apply)
    with Suc show ?case by simp
  qed simp
  with pushes [OF assms(1), of "replicate n x"] assms(2) show ?thesis by simp
qed

end

text \<open>The paged vector provides it, for every page size, up to the largest 32-bit size.\<close>

interpretation pv: sequence "pv_ok P S" "pv_elems S" 4294967295 "pv_push_back P S junk"
    "\<lambda>pv i. pv_index P S pv (of_nat i)" for P S junk
proof
  fix s :: "'a paged" and x and i :: nat
  assume ok: "pv_ok P S s"
  have room: "pv_room s" if "length (pv_elems S s) < 4294967295"
    using that by (simp add: pv_room_def)
  show "length (pv_elems S s) < 4294967295 \<Longrightarrow> pv_ok P S (pv_push_back P S junk x s)"
    by (rule pv_push_back_elems(1) [OF ok room])
  show "length (pv_elems S s) < 4294967295 \<Longrightarrow>
      pv_elems S (pv_push_back P S junk x s) = pv_elems S s @ [x]"
    by (rule pv_push_back_elems(2) [OF ok room])
  show "i \<le> 4294967295 \<Longrightarrow> pv_index P S s (of_nat i)
      = (if i < length (pv_elems S s) then Some (pv_elems S s ! i) else None)"
  proof -
    assume "i \<le> 4294967295"
    then have "unat (of_nat i :: u32) = i"
      by (subst unsigned_of_nat) (simp add: take_bit_nat_eq_self)
    then show ?thesis using pv_index_nth [OF ok, of "of_nat i"] by simp
  qed
qed

section \<open>Copies, comparison, streams\<close>

lemma unat_u32_le: "unat (x :: u32) \<le> 4294967295"
  using unsigned_less [of x, where 'a = nat] by simp

lemma pv_at:
  assumes "pv_ok P S pv" "i < length (pv_elems S pv)"
  shows "pv_index P S pv (of_nat i) = Some (pv_elems S pv ! i)"
  using pv.get_elems [OF assms(1), of i] assms(2) unat_u32_le [of "pv_next_idx pv"] by simp

lemma pv_values:
  assumes "pv_ok P S pv"
  shows "map (\<lambda>i. the (pv_index P S pv (of_nat i))) [0..<unat (pv_size pv)] = pv_elems S pv"
  by (rule nth_equalityI) (simp_all add: pv_size_def pv_at [OF assms])

lemma pv_fold_new:
  assumes "S < 32" "length xs \<le> 4294967295"
  shows "pv_ok (2 ^ S) S (fold (pv_push_back (2 ^ S) S junk) xs pv_new)"
    "pv_elems S (fold (pv_push_back (2 ^ S) S junk) xs pv_new) = xs"
  using pv.pushes [OF pv_new_ok [OF assms(1)], of xs junk] assms(2)
  by (simp_all add: pv_elems_def pv_new_def)

lemma pv_copy_elems:
  assumes "pv_ok P S V"
  shows "pv_ok P S (pv_copy P S junk V)" "pv_elems S (pv_copy P S junk V) = pv_elems S V"
proof -
  have SP: "S < 32" "P = 2 ^ S" using assms by (simp_all add: pv_ok_def)
  have "pv_copy P S junk V = fold (pv_push_back P S junk)
      (map (\<lambda>i. the (pv_index P S V (of_nat i))) [0..<unat (pv_size V)]) pv_new"
    by (simp add: pv_copy_def fold_map o_def)
  also have "\<dots> = fold (pv_push_back P S junk) (pv_elems S V) pv_new" by (simp add: pv_values [OF assms])
  finally show "pv_ok P S (pv_copy P S junk V)" "pv_elems S (pv_copy P S junk V) = pv_elems S V"
    using pv_fold_new [OF SP(1), of "pv_elems S V" junk] SP(2) unat_u32_le by simp_all
qed

text \<open>
  \<open>dbPagedVector\<close> is a vector.  Below the largest 32-bit size, \<open>push_back\<close> keeps the page
  table well formed and appends exactly one element to the sequence the pages hold, at
  the index \<open>size()\<close>; every earlier element keeps its place.
\<close>

theorem push_back_appends:
  assumes "pv_ok P S pv" "unat (pv_size pv) < 4294967295"
  shows "pv_ok P S (pv_push_back P S junk item pv)
       \<and> pv_elems S (pv_push_back P S junk item pv) = pv_elems S pv @ [item]
       \<and> pv_index P S (pv_push_back P S junk item pv) (pv_size pv) = Some item"
  using pv_push_back_elems [OF assms(1), of junk item] assms(2)
    pv_index_nth [OF pv_push_back_elems(1) [OF assms(1)], of junk item "pv_size pv"]
  by (simp add: pv_room_def pv_size_def nth_append)

lemma push_back_appends_witness:
  "pv_elems 7 (pv_push_back 128 7 0 (5 :: u8) pv_new) = [5]"
  using push_back_appends [of 128 7 "pv_new :: u8 paged" 0 5] pv_new_ok [of 7, where 'a = u8]
  by (simp add: pv_size_def pv_new_def pv_elems_def)

text \<open>
  \<open>operator==\<close> on paged vectors is equality of the sequences they hold, whatever the
  tables' spare slots; a copy compares equal to its original; reading back what
  \<open>operator<<\<close> wrote, into any vector, gives a vector that compares equal.
\<close>

theorem paged_eq_copy_stream:
  assumes "pv_ok P S V" "pv_ok P S W"
  shows "(pv_eq P S V W \<longleftrightarrow> pv_elems S V = pv_elems S W)
       \<and> pv_eq P S (pv_copy P S junk V) V \<and> pv_eq P S (pv_read P S junk (pv_write P S V) W) V"
proof -
  have eq: "pv_eq P S A B \<longleftrightarrow> pv_elems S A = pv_elems S B" if "pv_ok P S A" "pv_ok P S B" for A B :: "'a paged"
  proof
    assume *: "pv_eq P S A B"
    then have "map (\<lambda>i. the (pv_index P S A (of_nat i))) [0..<unat (pv_size A)]
        = map (\<lambda>i. the (pv_index P S B (of_nat i))) [0..<unat (pv_size B)]"
      by (simp add: pv_eq_def)
    then show "pv_elems S A = pv_elems S B" by (simp add: pv_values that)
  next
    assume *: "pv_elems S A = pv_elems S B"
    then have "pv_size A = pv_size B"
      by (metis length_pv_elems pv_size_def word_unat_eq_iff)
    with * show "pv_eq P S A B" using that by (auto simp: pv_eq_def pv_at pv_size_def)
  qed
  have SP: "S < 32" "P = 2 ^ S" using assms(1) by (simp_all add: pv_ok_def)
  have "pv_clear W = pv_new" by (simp add: pv_clear_def pv_new_def)
  then have rd: "pv_read P S junk (pv_write P S V) W = fold (pv_push_back P S junk) (pv_elems S V) pv_new"
    using pv_values [OF assms(1)] by (simp add: pv_read_def pv_write_def pv_size_def)
  have "pv_ok P S (pv_read P S junk (pv_write P S V) W)"
    "pv_elems S (pv_read P S junk (pv_write P S V) W) = pv_elems S V"
    using pv_fold_new [OF SP(1), of "pv_elems S V" junk] unat_u32_le
    unfolding rd by (simp_all add: SP(2))
  with eq assms pv_copy_elems [OF assms(1)] show ?thesis by simp
qed

lemma paged_eq_copy_stream_witness:
  "pv_eq 128 7 (pv_copy 128 7 0 (pv_push_back 128 7 0 (5 :: u8) pv_new)) (pv_push_back 128 7 0 5 pv_new)"
proof -
  have "pv_ok 128 7 (pv_push_back 128 7 0 (5 :: u8) pv_new)"
    using pv_push_back_elems(1) [OF pv_new_ok [of 7, where 'a = u8], of 0 5]
    by (simp add: pv_room_def pv_new_def)
  from paged_eq_copy_stream [OF this this] show ?thesis by blast
qed

end
