(* ===== verification/OdbTable.thy ===== *)
theory OdbTable imports OdbPagedVector begin

text \<open>
  \<open>dbTable.h\<close>, \<open>dbTable.hpp\<close>: the table every kind of database object lives in.  Objects sit in
  pages of \<open>2 ^ _page_shift\<close> slots and are named by a 32-bit id, page number and offset packed
  together; id 0 is null.  A slot that holds no object is a node of a doubly linked free list.
  The table keeps the least and the largest allocated id, which bound its iteration.

  The abstraction is the finite map \<open>tb_objs\<close> from ids to objects.  The invariant \<open>tb_ok\<close> says
  that the free list holds exactly the free slots, and that the counters and the two bounds are
  those of the map.  The locale \<open>object_store\<close> is what clients rely on.
\<close>

unbundle bit_operations_syntax

section \<open>State\<close>

text \<open>
  A slot: the \<open>DB_ALLOC_BIT\<close> of \<open>_oid\<close> is the constructor, and \<open>_next\<close>, \<open>_prev\<close> are the fields
  of \<open>_dbFreeObject\<close>.  The rest of \<open>_oid\<close> is the object's offset in its page, which here is its
  position.
\<close>

datatype 'a dbslot = FreeSlot (slot_next: u32) (slot_prev: u32) | AllocSlot (slot_obj: 'a)

definition is_alloc :: "'a dbslot \<Rightarrow> bool" where
  "is_alloc s = (case s of AllocSlot x \<Rightarrow> True | FreeSlot n p \<Rightarrow> False)"

record 'a dbpage =
  page_addr :: u32
  page_alloccnt :: u32
  page_objects :: "'a dbslot list"

text \<open>The page table's length is \<open>_page_tbl_size\<close>; its unused entries are null.\<close>

record 'a dbtable =
  tb_page_mask :: u32
  tb_page_shift :: u32
  tb_top_idx :: u32
  tb_bottom_idx :: u32
  tb_page_cnt :: u32
  tb_alloc_cnt :: u32
  tb_free_list :: u32
  tb_pages :: "'a dbpage option list"

definition valid_page :: "'a dbpage \<Rightarrow> bool" where
  "valid_page p \<longleftrightarrow> page_alloccnt p \<noteq> 0"

definition tb_new :: "u32 \<Rightarrow> u32 \<Rightarrow> 'a dbtable" where
  "tb_new page_size page_shift =
     \<lparr>tb_page_mask = page_size - 1, tb_page_shift = page_shift, tb_top_idx = 0, tb_bottom_idx = 0,
      tb_page_cnt = 0, tb_alloc_cnt = 0, tb_free_list = 0, tb_pages = []\<rparr>"

definition tb_clear :: "'a dbtable \<Rightarrow> 'a dbtable" where
  "tb_clear t = t\<lparr>tb_bottom_idx := 0, tb_top_idx := 0, tb_page_cnt := 0, tb_alloc_cnt := 0,
                  tb_free_list := 0, tb_pages := []\<rparr>"

definition tb_pageSize :: "'a dbtable \<Rightarrow> nat" where
  "tb_pageSize t = unat (tb_page_mask t + 1)"

definition tb_page_of :: "'a dbtable \<Rightarrow> u32 \<Rightarrow> nat" where
  "tb_page_of t i = unat (drop_bit (unat (tb_page_shift t)) i)"

definition tb_offset_of :: "'a dbtable \<Rightarrow> u32 \<Rightarrow> nat" where
  "tb_offset_of t i = unat (i AND tb_page_mask t)"

definition tb_page :: "'a dbtable \<Rightarrow> nat \<Rightarrow> 'a dbpage" where
  "tb_page t p = the (tb_pages t ! p)"

section \<open>Access\<close>

text \<open>The slot an id names; \<open>None\<close> is a page the table does not have.\<close>

definition tb_slot :: "'a dbtable \<Rightarrow> u32 \<Rightarrow> 'a dbslot option" where
  "tb_slot t i =
     (if tb_page_of t i < unat (tb_page_cnt t)
      then map_option (\<lambda>p. page_objects p ! tb_offset_of t i) (tb_pages t ! tb_page_of t i)
      else None)"

text \<open>\<open>None\<close> is a failed assertion.\<close>

definition tb_getFreeObj :: "'a dbtable \<Rightarrow> u32 \<Rightarrow> (u32 \<times> u32) option" where
  "tb_getFreeObj t i =
     (if i = 0 then None
      else (case tb_slot t i of Some (FreeSlot nx pv) \<Rightarrow> Some (nx, pv) | _ \<Rightarrow> None))"

definition tb_getPtr :: "'a dbtable \<Rightarrow> u32 \<Rightarrow> 'a option" where
  "tb_getPtr t i =
     (if i = 0 then None
      else (case tb_slot t i of Some (AllocSlot x) \<Rightarrow> Some x | _ \<Rightarrow> None))"

definition tb_validId :: "'a dbtable \<Rightarrow> u32 \<Rightarrow> bool" where
  "tb_validId t i = (i \<noteq> 0 \<and> (case tb_slot t i of Some s \<Rightarrow> is_alloc s | None \<Rightarrow> False))"

text \<open>A write to a slot, and to the object a valid id names.\<close>

definition tb_put :: "u32 \<Rightarrow> 'a dbslot \<Rightarrow> 'a dbtable \<Rightarrow> 'a dbtable" where
  "tb_put i s t = t\<lparr>tb_pages := (tb_pages t)[tb_page_of t i :=
     map_option (\<lambda>p. p\<lparr>page_objects := (page_objects p)[tb_offset_of t i := s]\<rparr>)
       (tb_pages t ! tb_page_of t i)]\<rparr>"

definition tb_modify :: "u32 \<Rightarrow> ('a \<Rightarrow> 'a) \<Rightarrow> 'a dbtable \<Rightarrow> 'a dbtable option" where
  "tb_modify i f t = map_option (\<lambda>x. tb_put i (AllocSlot (f x)) t) (tb_getPtr t i)"

text \<open>\<open>_dbObject::getOID\<close>: the page's address with the offset.\<close>

definition tb_getOID :: "'a dbtable \<Rightarrow> u32 \<Rightarrow> u32" where
  "tb_getOID t i = page_addr (tb_page t (tb_page_of t i)) OR of_nat (tb_offset_of t i)"

section \<open>The free list\<close>

definition tb_pushQ :: "u32 \<Rightarrow> 'a dbtable \<Rightarrow> 'a dbtable option" where
  "tb_pushQ e t =
     (let Q = tb_free_list t;
          t1 = tb_put e (FreeSlot Q 0) t;
          head_id = tb_getOID t1 e
      in map_option (\<lambda>t2. t2\<lparr>tb_free_list := head_id\<rparr>)
           (if Q \<noteq> 0
            then map_option (\<lambda>(nx, pv). tb_put Q (FreeSlot nx head_id) t1) (tb_getFreeObj t1 Q)
            else Some t1))"

definition tb_popQ :: "'a dbtable \<Rightarrow> (u32 \<times> 'a dbtable) option" where
  "tb_popQ t =
     Option.bind (tb_getFreeObj t (tb_free_list t)) (\<lambda>(Q, _).
       let t1 = t\<lparr>tb_free_list := Q\<rparr>
       in map_option (\<lambda>t2. (tb_free_list t, t2))
            (if Q \<noteq> 0
             then map_option (\<lambda>(nx, pv). tb_put Q (FreeSlot nx 0) t1) (tb_getFreeObj t1 Q)
             else Some t1))"

section \<open>Allocation\<close>

definition tb_resizePageTbl :: "'a dbtable \<Rightarrow> 'a dbtable" where
  "tb_resizePageTbl t =
     t\<lparr>tb_pages := tb_pages t @ replicate (2 * length (tb_pages t) - length (tb_pages t)) None\<rparr>"

text \<open>
  The loop that puts the objects of a new page on the free list, last object first.  The zero
  object of page 0 is not linked.
\<close>

primrec tb_link :: "bool \<Rightarrow> u32 \<Rightarrow> nat \<Rightarrow> 'a dbtable \<Rightarrow> 'a dbtable option" where
  "tb_link zero addr 0 t = Some t"
| "tb_link zero addr (Suc k) t =
     (if zero \<and> k = 0 then Some t
      else Option.bind (tb_pushQ (addr OR of_nat k) t) (tb_link zero addr k))"

definition tb_newPage :: "'a dbtable \<Rightarrow> 'a dbtable option" where
  "tb_newPage t =
     (let page_id = unat (tb_page_cnt t);
          t1 = (if length (tb_pages t) = 0 then t\<lparr>tb_pages := [None]\<rparr>
                else if length (tb_pages t) = page_id then tb_resizePageTbl t
                else t);
          addr = push_bit (unat (tb_page_shift t)) (of_nat page_id);
          page = \<lparr>page_addr = addr, page_alloccnt = 0,
                  page_objects = replicate (tb_pageSize t) (FreeSlot 0 0)\<rparr>;
          t2 = t1\<lparr>tb_page_cnt := tb_page_cnt t + 1, tb_pages := (tb_pages t1)[page_id := Some page]\<rparr>
      in tb_link (page_id = 0) addr (tb_pageSize t) t2)"

definition tb_count :: "(u32 \<Rightarrow> u32) \<Rightarrow> u32 \<Rightarrow> 'a dbtable \<Rightarrow> 'a dbtable" where
  "tb_count f i t = t\<lparr>tb_pages := (tb_pages t)[tb_page_of t i :=
     map_option (\<lambda>p. p\<lparr>page_alloccnt := f (page_alloccnt p)\<rparr>) (tb_pages t ! tb_page_of t i)]\<rparr>"

text \<open>\<open>x\<close> is the object the constructor \<open>T(_db)\<close> makes.\<close>

definition tb_create :: "'a \<Rightarrow> 'a dbtable \<Rightarrow> (u32 \<times> 'a dbtable) option" where
  "tb_create x t =
     (let t1 = t\<lparr>tb_alloc_cnt := tb_alloc_cnt t + 1\<rparr>
      in Option.bind (if tb_free_list t1 = 0 then tb_newPage t1 else Some t1) (\<lambda>t2.
         Option.bind (tb_popQ t2) (\<lambda>(o_id, t3).
           let t4 = tb_count (\<lambda>c. c + 1) o_id (tb_put o_id (AllocSlot x) t3);
               oid = tb_getOID t4 o_id;
               t5 = (if oid > tb_top_idx t4 then t4\<lparr>tb_top_idx := oid\<rparr> else t4);
               t6 = (if tb_bottom_idx t5 = 0 \<or> oid < tb_bottom_idx t5
                     then t5\<lparr>tb_bottom_idx := oid\<rparr> else t5)
           in Some (oid, t6))))"

section \<open>Release\<close>

text \<open>The id of offset \<open>j\<close> in page \<open>p\<close>, as the searches compute it.\<close>

definition tb_id :: "'a dbtable \<Rightarrow> nat \<Rightarrow> nat \<Rightarrow> u32" where
  "tb_id t p j = push_bit (unat (tb_page_shift t)) (of_nat p) + of_nat j"

definition tb_alloc_at :: "'a dbtable \<Rightarrow> nat \<Rightarrow> nat \<Rightarrow> bool" where
  "tb_alloc_at t p j = is_alloc (page_objects (tb_page t p) ! j)"

text \<open>
  The searches for the new least and largest id.  \<open>None\<close> is a failed assertion, or in \<open>findTop\<close>
  a read before the page: the index \<open>offset - 1\<close> of the code is unsigned.
\<close>

definition tb_findBottom :: "'a dbtable \<Rightarrow> 'a dbtable option" where
  "tb_findBottom t =
     (if tb_alloc_cnt t = 0 then Some (t\<lparr>tb_bottom_idx := 0\<rparr>)
      else
        let page_id = tb_page_of t (tb_bottom_idx t);
            offset = tb_offset_of t (tb_bottom_idx t)
        in if valid_page (tb_page t page_id)
           then map_option (\<lambda>j. t\<lparr>tb_bottom_idx := tb_id t page_id j\<rparr>)
                  (find (tb_alloc_at t page_id) [offset + 1..<tb_pageSize t])
           else Option.bind (find (\<lambda>p. valid_page (tb_page t p)) [page_id + 1..<unat (tb_page_cnt t)])
                  (\<lambda>p. map_option (\<lambda>j. t\<lparr>tb_bottom_idx := tb_id t p j\<rparr>)
                         (find (tb_alloc_at t p) [0..<tb_pageSize t])))"

definition tb_findTop :: "'a dbtable \<Rightarrow> 'a dbtable option" where
  "tb_findTop t =
     (if tb_alloc_cnt t = 0 then Some (t\<lparr>tb_top_idx := 0\<rparr>)
      else
        let page_id = tb_page_of t (tb_top_idx t);
            offset = tb_offset_of t (tb_top_idx t)
        in if valid_page (tb_page t page_id)
           then (if offset = 0 then None
                 else map_option (\<lambda>j. t\<lparr>tb_top_idx := tb_id t page_id j\<rparr>)
                        (find (tb_alloc_at t page_id) (rev [0..<offset])))
           else Option.bind (find (\<lambda>p. valid_page (tb_page t p)) (rev [0..<page_id]))
                  (\<lambda>p. map_option (\<lambda>j. t\<lparr>tb_top_idx := tb_id t p j\<rparr>)
                         (find (tb_alloc_at t p) (rev [0..<tb_pageSize t]))))"

definition tb_destroy :: "u32 \<Rightarrow> 'a dbtable \<Rightarrow> 'a dbtable option" where
  "tb_destroy i t =
     (let t1 = t\<lparr>tb_alloc_cnt := tb_alloc_cnt t - 1\<rparr>
      in if \<not> tb_validId t1 i then None
         else
           let t2 = tb_count (\<lambda>c. c - 1) i t1;
               oid = page_addr (tb_page t2 (tb_page_of t2 i)) + of_nat (tb_offset_of t2 i)
           in Option.bind (tb_pushQ i t2) (\<lambda>t3.
              Option.bind (if oid = tb_bottom_idx t3 then tb_findBottom t3 else Some t3) (\<lambda>t4.
                if oid = tb_top_idx t4 then tb_findTop t4 else Some t4)))"

section \<open>Iteration\<close>

definition tb_begin :: "'a dbtable \<Rightarrow> u32" where
  "tb_begin t = tb_bottom_idx t"

definition tb_end :: "'a dbtable \<Rightarrow> u32" where
  "tb_end t = 0"

definition tb_size :: "'a dbtable \<Rightarrow> u32" where
  "tb_size t = tb_alloc_cnt t"

text \<open>The label \<open>next_obj\<close>: the rest of a page from an offset, then the pages after it.\<close>

function tb_next_obj :: "'a dbtable \<Rightarrow> nat \<Rightarrow> nat \<Rightarrow> u32 option" where
  "tb_next_obj t page_id offset =
     (case find (tb_alloc_at t page_id) [offset..<tb_pageSize t] of
        Some j \<Rightarrow> if tb_id t page_id j \<le> tb_top_idx t then Some (tb_id t page_id j) else None
      | None \<Rightarrow>
          (case find (\<lambda>p. valid_page (tb_page t p)) [page_id + 1..<unat (tb_page_cnt t)] of
             Some p \<Rightarrow> tb_next_obj t p 0
           | None \<Rightarrow> Some 0))"
  by pat_completeness auto

termination
  by (relation "measure (\<lambda>(t, p, j). unat (tb_page_cnt t) - p)")
    (auto simp: find_Some_iff)

declare tb_next_obj.simps [simp del]

definition tb_next :: "'a dbtable \<Rightarrow> u32 \<Rightarrow> u32 option" where
  "tb_next t i =
     (if i = 0 then None
      else if i + 1 > tb_top_idx t then Some 0
      else tb_next_obj t (tb_page_of t (i + 1)) (tb_offset_of t (i + 1)))"

text \<open>A \<open>dbSet\<close> over the table: from \<open>begin\<close>, \<open>next\<close> until \<open>end\<close>.\<close>

partial_function (option) tb_iterate :: "'a dbtable \<Rightarrow> u32 \<Rightarrow> u32 list option" where
  "tb_iterate t i =
     (if i = tb_end t then Some []
      else Option.bind (tb_next t i) (\<lambda>n. Option.bind (tb_iterate t n) (\<lambda>rest. Some (i # rest))))"

section \<open>Comparison and streams\<close>

text \<open>\<open>eq\<close> is the object's \<open>operator==\<close>; \<open>None\<close> is a failed assertion.\<close>

definition tb_eq :: "('a \<Rightarrow> 'a \<Rightarrow> bool) \<Rightarrow> 'a dbtable \<Rightarrow> 'a dbtable \<Rightarrow> bool option" where
  "tb_eq eq lhs rhs =
     (if tb_page_mask lhs \<noteq> tb_page_mask rhs \<or> tb_page_shift lhs \<noteq> tb_page_shift rhs then None
      else if tb_page_cnt lhs = 0 \<and> tb_page_cnt rhs = 0 then Some True
      else if tb_page_cnt lhs \<noteq> tb_page_cnt rhs then Some False
      else if tb_bottom_idx lhs \<noteq> tb_bottom_idx rhs then Some False
      else if tb_top_idx lhs \<noteq> tb_top_idx rhs then Some False
      else if tb_alloc_cnt lhs \<noteq> tb_alloc_cnt rhs then Some False
      else Some (\<forall>i \<in> set [unat (tb_bottom_idx lhs)..<unat (tb_top_idx lhs) + 1].
             (case (tb_getPtr lhs (of_nat i), tb_getPtr rhs (of_nat i)) of
                (Some l, Some r) \<Rightarrow> eq l r
              | (None, None) \<Rightarrow> True
              | _ \<Rightarrow> False)))"

text \<open>What the streams carry: an unsigned field, a flag byte, an object.\<close>

datatype 'a tbtok = TUint u32 | TFlag u8 | TObj 'a

definition tb_writeSlot :: "'a dbslot \<Rightarrow> 'a tbtok list" where
  "tb_writeSlot s = (case s of AllocSlot x \<Rightarrow> [TFlag 1, TObj x]
                             | FreeSlot nx pv \<Rightarrow> [TFlag 0, TUint nx, TUint pv])"

definition tb_writePage :: "'a dbpage \<Rightarrow> 'a tbtok list" where
  "tb_writePage p = concat (map tb_writeSlot (page_objects p))"

definition tb_write :: "'a dbtable \<Rightarrow> 'a tbtok list" where
  "tb_write t =
     [TUint (tb_page_mask t), TUint (tb_page_shift t), TUint (tb_top_idx t), TUint (tb_bottom_idx t),
      TUint (tb_page_cnt t), TUint (of_nat (length (tb_pages t))), TUint (tb_alloc_cnt t),
      TUint (tb_free_list t)]
     @ concat (map (\<lambda>i. tb_writePage (tb_page t i)) [0..<unat (tb_page_cnt t)])"

fun tb_readSlot :: "'a tbtok list \<Rightarrow> ('a dbslot \<times> 'a tbtok list) option" where
  "tb_readSlot (TFlag f # ts) =
     (if f = 0 then (case ts of TUint nx # TUint pv # us \<Rightarrow> Some (FreeSlot nx pv, us) | _ \<Rightarrow> None)
      else (case ts of TObj x # us \<Rightarrow> Some (AllocSlot x, us) | _ \<Rightarrow> None))"
| "tb_readSlot _ = None"

primrec tb_readSlots :: "nat \<Rightarrow> 'a tbtok list \<Rightarrow> ('a dbslot list \<times> 'a tbtok list) option" where
  "tb_readSlots 0 ts = Some ([], ts)"
| "tb_readSlots (Suc n) ts =
     Option.bind (tb_readSlot ts) (\<lambda>(s, us).
       map_option (\<lambda>(ss, vs). (s # ss, vs)) (tb_readSlots n us))"

text \<open>\<open>readPage\<close>, which counts the allocated objects as it reads them.\<close>

definition tb_readPage :: "u32 \<Rightarrow> nat \<Rightarrow> 'a tbtok list \<Rightarrow> ('a dbpage \<times> 'a tbtok list) option" where
  "tb_readPage addr n ts =
     map_option (\<lambda>(ss, us).
         (\<lparr>page_addr = addr, page_alloccnt = fold (\<lambda>s c. if is_alloc s then c + 1 else c) ss 0,
           page_objects = ss\<rparr>, us))
       (tb_readSlots n ts)"

primrec tb_readPages :: "u32 \<Rightarrow> nat \<Rightarrow> nat \<Rightarrow> nat \<Rightarrow> 'a tbtok list \<Rightarrow>
    ('a dbpage list \<times> 'a tbtok list) option" where
  "tb_readPages shift sz i 0 ts = Some ([], ts)"
| "tb_readPages shift sz i (Suc n) ts =
     Option.bind (tb_readPage (push_bit (unat shift) (of_nat i)) sz ts) (\<lambda>(p, us).
       map_option (\<lambda>(ps, vs). (p # ps, vs)) (tb_readPages shift sz (i + 1) n us))"

definition tb_read :: "'a tbtok list \<Rightarrow> ('a dbtable \<times> 'a tbtok list) option" where
  "tb_read input =
     (case input of
        TUint msk # TUint shift # TUint top_i # TUint bottom_i # TUint cnt # TUint tsize #
        TUint alloc # TUint free # ts \<Rightarrow>
          map_option (\<lambda>(ps, us).
              (\<lparr>tb_page_mask = msk, tb_page_shift = shift, tb_top_idx = top_i, tb_bottom_idx = bottom_i,
                tb_page_cnt = cnt, tb_alloc_cnt = alloc, tb_free_list = free,
                tb_pages = map Some ps @ replicate (unat tsize - unat cnt) None\<rparr>, us))
            (tb_readPages shift (unat (msk + 1)) 0 (unat cnt) ts)
      | _ \<Rightarrow> None)"

section \<open>Pages, offsets and ids\<close>

text \<open>
  The shape of a table, without its contents: the page size is a power of two, there are at most
  \<open>2 ^ 31\<close> slots, and exactly the first \<open>_page_cnt\<close> entries of the page table hold pages.
\<close>

definition tb_pow :: "'a dbtable \<Rightarrow> nat" where
  "tb_pow t = 2 ^ unat (tb_page_shift t)"

definition tb_cap :: "'a dbtable \<Rightarrow> nat" where
  "tb_cap t = unat (tb_page_cnt t) * tb_pow t"

definition tb_shape :: "'a dbtable \<Rightarrow> bool" where
  "tb_shape t \<longleftrightarrow>
     1 \<le> unat (tb_page_shift t) \<and> unat (tb_page_shift t) < 32 \<and>
     tb_page_mask t = 2 ^ unat (tb_page_shift t) - 1 \<and> tb_cap t \<le> 2147483648 \<and>
     unat (tb_page_cnt t) \<le> length (tb_pages t) \<and> length (tb_pages t) \<le> 2 * unat (tb_page_cnt t) \<and>
     (\<forall>p < length (tb_pages t). if p < unat (tb_page_cnt t)
        then \<exists>pg. tb_pages t ! p = Some pg \<and> length (page_objects pg) = tb_pow t \<and>
                  page_addr pg = push_bit (unat (tb_page_shift t)) (of_nat p)
        else tb_pages t ! p = None)"

text \<open>The slot of a flat index, whatever it holds.\<close>

definition tb_at :: "'a dbtable \<Rightarrow> nat \<Rightarrow> 'a dbslot" where
  "tb_at t n = page_objects (tb_page t (n div tb_pow t)) ! (n mod tb_pow t)"

lemma tb_pow_pos [simp]: "0 < tb_pow t"
  by (simp add: tb_pow_def)

lemma tb_shapeD:
  assumes "tb_shape t"
  shows "unat (tb_page_shift t) < 32" "1 \<le> unat (tb_page_shift t)" "tb_page_mask t + 1 = 2 ^ unat (tb_page_shift t)"
    "tb_cap t \<le> 2147483648" "tb_page_mask t = 2 ^ unat (tb_page_shift t) - 1"
    "unat (tb_page_cnt t) \<le> length (tb_pages t)"
  using assms by (simp_all add: tb_shape_def)

lemma tb_shape_page:
  assumes "tb_shape t" "p < unat (tb_page_cnt t)"
  shows "tb_pages t ! p = Some (tb_page t p)" "length (page_objects (tb_page t p)) = tb_pow t"
    "page_addr (tb_page t p) = push_bit (unat (tb_page_shift t)) (of_nat p)"
proof -
  from assms obtain pg where "tb_pages t ! p = Some pg" "length (page_objects pg) = tb_pow t"
    "page_addr pg = push_bit (unat (tb_page_shift t)) (of_nat p)"
    unfolding tb_shape_def by (meson less_le_trans)
  then show "tb_pages t ! p = Some (tb_page t p)" "length (page_objects (tb_page t p)) = tb_pow t"
    "page_addr (tb_page t p) = push_bit (unat (tb_page_shift t)) (of_nat p)"
    by (simp_all add: tb_page_def)
qed

lemma tb_pageSize_pow: "tb_shape t \<Longrightarrow> tb_pageSize t = tb_pow t"
  by (simp add: tb_pageSize_def tb_shapeD unat_page_size tb_pow_def)

lemma tb_page_offset:
  assumes "tb_shape t"
  shows "tb_page_of t i = unat i div tb_pow t" "tb_offset_of t i = unat i mod tb_pow t"
proof -
  have "unat (i AND tb_page_mask t) = unat i mod tb_pow t"
    using pv_page_offset(2) [OF tb_shapeD(1) [OF assms] refl, of i] tb_shapeD(5) [OF assms]
    by (simp add: pv_offset_def tb_pow_def)
  then show "tb_offset_of t i = unat i mod tb_pow t" by (simp add: tb_offset_of_def)
  show "tb_page_of t i = unat i div tb_pow t"
    unfolding tb_page_of_def tb_pow_def unat_drop_bit_eq by (rule drop_bit_eq_div)
qed

lemma div_tb_pow_less: "n div tb_pow t < unat (tb_page_cnt t) \<longleftrightarrow> n < tb_cap t"
  by (simp add: tb_cap_def div_less_iff_less_mult)

lemma tb_slot_at:
  assumes "tb_shape t"
  shows "tb_slot t i = (if unat i < tb_cap t then Some (tb_at t (unat i)) else None)"
proof (cases "unat i < tb_cap t")
  case True
  with tb_shape_page(1) [OF assms, of "unat i div tb_pow t"] show ?thesis
    by (simp add: tb_slot_def tb_page_offset [OF assms] div_tb_pow_less tb_at_def)
qed (simp add: tb_slot_def tb_page_offset [OF assms] div_tb_pow_less)

lemma flat_less:
  assumes "p < unat (tb_page_cnt t)" "j < tb_pow t"
  shows "p * tb_pow t + j < tb_cap t"
proof -
  have "p * tb_pow t + j < (p + 1) * tb_pow t" using assms by simp
  also have "\<dots> \<le> unat (tb_page_cnt t) * tb_pow t" using assms by (intro mult_right_mono) auto
  finally show ?thesis by (simp add: tb_cap_def)
qed

lemma unat_flat:
  assumes "tb_shape t" "n < tb_cap t"
  shows "unat (of_nat n :: u32) = n"
  using assms tb_shapeD(4) [OF assms(1)] by (subst unsigned_of_nat) (simp add: take_bit_nat_eq_self)

lemma tb_id_flat: "tb_id t p j = of_nat (p * tb_pow t + j)"
  by (simp add: tb_id_def push_bit_eq_mult tb_pow_def mult.commute)

lemma tb_alloc_at_flat: "j < tb_pow t \<Longrightarrow> tb_alloc_at t p j = is_alloc (tb_at t (p * tb_pow t + j))"
  by (simp add: tb_alloc_at_def tb_at_def div_add1_eq)

lemma push_or_take: "push_bit n (drop_bit n i) OR take_bit n i = (i :: u32)"
  by (rule bit_eqI) (auto simp: bit_simps)

lemma tb_getOID_id:
  assumes "tb_shape t" "unat i < tb_cap t"
  shows "tb_getOID t i = i" "page_addr (tb_page t (tb_page_of t i)) + of_nat (tb_offset_of t i) = i"
proof -
  let ?S = "unat (tb_page_shift t)"
  have "tb_page_of t i < unat (tb_page_cnt t)"
    using assms by (simp add: tb_page_offset div_tb_pow_less)
  then have addr: "page_addr (tb_page t (tb_page_of t i)) = push_bit ?S (drop_bit ?S i)"
    using tb_shape_page(3) [OF assms(1)] by (simp add: tb_page_of_def)
  have "tb_page_mask t = mask ?S" using tb_shapeD(5) [OF assms(1)] by (simp add: mask_eq_decr_exp)
  then have off: "of_nat (tb_offset_of t i) = take_bit ?S i"
    by (simp add: tb_offset_of_def take_bit_eq_mask)
  show "tb_getOID t i = i" by (simp add: tb_getOID_def addr off push_or_take)
  show "page_addr (tb_page t (tb_page_of t i)) + of_nat (tb_offset_of t i) = i"
    unfolding addr off by (simp add: bits_ident)
qed

section \<open>Writes\<close>

text \<open>Two tables that differ in the contents of their slots and the head of the free list only.\<close>

definition page_frame :: "'a dbpage option \<Rightarrow> 'a dbpage option \<Rightarrow> bool" where
  "page_frame a b \<longleftrightarrow> rel_option (\<lambda>p q. page_addr q = page_addr p \<and> page_alloccnt q = page_alloccnt p \<and>
     length (page_objects q) = length (page_objects p)) a b"

definition tb_frame :: "'a dbtable \<Rightarrow> 'a dbtable \<Rightarrow> bool" where
  "tb_frame t t' \<longleftrightarrow> tb_page_mask t' = tb_page_mask t \<and> tb_page_shift t' = tb_page_shift t \<and>
     tb_top_idx t' = tb_top_idx t \<and> tb_bottom_idx t' = tb_bottom_idx t \<and>
     tb_page_cnt t' = tb_page_cnt t \<and> tb_alloc_cnt t' = tb_alloc_cnt t \<and>
     list_all2 page_frame (tb_pages t) (tb_pages t')"

lemma page_frame_refl [simp]: "page_frame a a"
  by (cases a) (simp_all add: page_frame_def)

lemma page_frame_trans: "page_frame a b \<Longrightarrow> page_frame b c \<Longrightarrow> page_frame a c"
  by (cases a; cases b; cases c) (simp_all add: page_frame_def)

lemma tb_frame_refl [simp]: "tb_frame t t"
  by (simp add: tb_frame_def list.rel_refl)

lemma tb_frame_trans [trans]: "tb_frame t u \<Longrightarrow> tb_frame u v \<Longrightarrow> tb_frame t v"
  unfolding tb_frame_def using list_all2_trans [of page_frame page_frame page_frame] page_frame_trans
  by fastforce

lemma tb_frame_free_list [simp]: "tb_frame t (u\<lparr>tb_free_list := q\<rparr>) \<longleftrightarrow> tb_frame t u"
  "tb_frame (t\<lparr>tb_free_list := q\<rparr>) u \<longleftrightarrow> tb_frame t u"
  by (simp_all add: tb_frame_def)

lemma tb_frame_put [simp]: "tb_frame t (tb_put i s t)"
proof -
  have "list_all2 page_frame (tb_pages t) (tb_pages (tb_put i s t))"
    unfolding list_all2_conv_all_nth
  proof (intro conjI allI impI)
    fix p assume "p < length (tb_pages t)"
    then show "page_frame (tb_pages t ! p) (tb_pages (tb_put i s t) ! p)"
      by (cases "tb_pages t ! p"; cases "tb_page_of t i = p") (simp_all add: tb_put_def page_frame_def)
  qed (simp add: tb_put_def)
  then show ?thesis by (simp add: tb_frame_def tb_put_def)
qed

lemma tb_frame_pow: "tb_frame t t' \<Longrightarrow> tb_pow t' = tb_pow t \<and> tb_cap t' = tb_cap t"
  by (simp add: tb_frame_def tb_pow_def tb_cap_def)

lemma tb_frame_shape:
  assumes "tb_shape t" "tb_frame t t'"
  shows "tb_shape t'"
proof -
  have len: "length (tb_pages t') = length (tb_pages t)"
    using assms(2) by (auto simp: tb_frame_def dest: list_all2_lengthD)
  have rel: "page_frame (tb_pages t ! p) (tb_pages t' ! p)" if "p < length (tb_pages t)" for p
    using assms(2) that by (simp add: tb_frame_def list_all2_nthD)
  have pages: "\<forall>p < length (tb_pages t). if p < unat (tb_page_cnt t)
        then \<exists>pg. tb_pages t' ! p = Some pg \<and> length (page_objects pg) = tb_pow t \<and>
                  page_addr pg = push_bit (unat (tb_page_shift t)) (of_nat p)
        else tb_pages t' ! p = None"
  proof (intro allI impI)
    fix p assume p: "p < length (tb_pages t)"
    with assms(1) have "if p < unat (tb_page_cnt t)
        then \<exists>pg. tb_pages t ! p = Some pg \<and> length (page_objects pg) = tb_pow t \<and>
                  page_addr pg = push_bit (unat (tb_page_shift t)) (of_nat p)
        else tb_pages t ! p = None" by (simp add: tb_shape_def)
    with rel [OF p] show "if p < unat (tb_page_cnt t)
        then \<exists>pg. tb_pages t' ! p = Some pg \<and> length (page_objects pg) = tb_pow t \<and>
                  page_addr pg = push_bit (unat (tb_page_shift t)) (of_nat p)
        else tb_pages t' ! p = None"
      by (cases "tb_pages t' ! p") (auto simp: page_frame_def option_rel_Some2 split: if_splits)
  qed
  have fields: "tb_page_mask t' = tb_page_mask t" "tb_page_shift t' = tb_page_shift t"
    "tb_page_cnt t' = tb_page_cnt t" using assms(2) by (simp_all add: tb_frame_def)
  show ?thesis
    using assms(1) pages unfolding tb_shape_def fields len
    by (simp only: tb_frame_pow [OF assms(2)] simp_thms)
qed

lemma tb_frame_page:
  assumes "tb_shape t" "tb_frame t t'" "p < unat (tb_page_cnt t)"
  shows "page_alloccnt (tb_page t' p) = page_alloccnt (tb_page t p)"
proof -
  have "page_frame (tb_pages t ! p) (tb_pages t' ! p)"
    using assms tb_shapeD(6) [OF assms(1)] by (simp add: tb_frame_def list_all2_nthD)
  moreover obtain pg where "tb_pages t ! p = Some pg" using tb_shape_page(1) [OF assms(1,3)] by blast
  ultimately show ?thesis by (cases "tb_pages t' ! p") (auto simp: page_frame_def tb_page_def)
qed

lemma tb_put_pages:
  assumes "tb_shape t" "unat i < tb_cap t" "p < unat (tb_page_cnt t)"
  shows "page_objects (tb_page (tb_put i s t) p) =
    (if p = unat i div tb_pow t then (page_objects (tb_page t p))[unat i mod tb_pow t := s]
     else page_objects (tb_page t p))"
proof -
  have "p < length (tb_pages t)" using assms(3) tb_shapeD(6) [OF assms(1)] by simp
  moreover obtain pg where "tb_pages t ! p = Some pg" using tb_shape_page(1) [OF assms(1,3)] by blast
  ultimately show ?thesis
    by (auto simp: tb_put_def tb_page_def tb_page_offset [OF assms(1)] nth_list_update)
qed

lemma tb_put_at:
  assumes "tb_shape t" "unat i < tb_cap t" "n < tb_cap t"
  shows "tb_at (tb_put i s t) n = (if n = unat i then s else tb_at t n)"
proof -
  have pow: "tb_pow (tb_put i s t) = tb_pow t" by (simp add: tb_put_def tb_pow_def)
  have p: "n div tb_pow t < unat (tb_page_cnt t)" using assms(3) by (simp add: div_tb_pow_less)
  have "n = unat i \<longleftrightarrow> n div tb_pow t = unat i div tb_pow t \<and> n mod tb_pow t = unat i mod tb_pow t"
    by (metis div_mult_mod_eq)
  with tb_shape_page(2) [OF assms(1) p] show ?thesis
    by (auto simp: tb_at_def pow tb_put_pages [OF assms(1,2) p])
qed

lemma tb_slot_put:
  assumes "tb_shape t" "tb_slot t i \<noteq> None"
  shows "tb_slot (tb_put i s t) = (tb_slot t)(i \<mapsto> s)"
proof
  fix k
  note sh = tb_frame_shape [OF assms(1) tb_frame_put]
  have cap: "tb_cap (tb_put i s t) = tb_cap t" using tb_frame_pow tb_frame_put by blast
  have i: "unat i < tb_cap t" using assms by (auto simp: tb_slot_at split: if_splits)
  show "tb_slot (tb_put i s t) k = ((tb_slot t)(i \<mapsto> s)) k"
  proof (cases "k = i")
    case False
    then have "unat k \<noteq> unat i" by (metis unsigned_word_eqI)
    with False i tb_put_at [OF assms(1) i, of "unat k" s] show ?thesis
      by (auto simp: tb_slot_at [OF sh] tb_slot_at [OF assms(1)] cap)
  qed (use i tb_put_at [OF assms(1) i i, of s] in \<open>simp add: tb_slot_at [OF sh] cap\<close>)
qed

lemma tb_slot_free_list [simp]: "tb_slot (t\<lparr>tb_free_list := q\<rparr>) = tb_slot t"
  by (simp add: fun_eq_iff tb_slot_def tb_page_of_def tb_offset_of_def)

section \<open>The free list is a doubly linked list\<close>

text \<open>
  From a head whose predecessor is \<open>p\<close>, the free slots \<open>xs\<close> in order, ended by null: each names
  its neighbours.
\<close>

fun free_dll :: "(u32 \<Rightarrow> 'a dbslot option) \<Rightarrow> u32 \<Rightarrow> u32 \<Rightarrow> u32 list \<Rightarrow> bool" where
  "free_dll m p h [] \<longleftrightarrow> h = 0"
| "free_dll m p h (x # xs) \<longleftrightarrow> h = x \<and> x \<noteq> 0 \<and> (\<exists>nx. m x = Some (FreeSlot nx p) \<and> free_dll m x nx xs)"

lemma free_dll_frame:
  "free_dll m p h xs \<Longrightarrow> (\<And>x. x \<in> set xs \<Longrightarrow> m' x = m x) \<Longrightarrow> free_dll m' p h xs"
  by (induction xs arbitrary: p h) auto

lemma free_dll_free: "free_dll m p h xs \<Longrightarrow> x \<in> set xs \<Longrightarrow> x \<noteq> 0 \<and> (\<exists>nx pv. m x = Some (FreeSlot nx pv))"
  by (induction xs arbitrary: p h) auto

lemma free_dll_null: "free_dll m p h xs \<Longrightarrow> h = 0 \<longleftrightarrow> xs = []"
  by (cases xs) auto

lemma free_dll_head:
  assumes "free_dll m p h (x # xs)" "distinct (x # xs)"
  obtains nx where "m x = Some (FreeSlot nx p)" "free_dll (m(x \<mapsto> FreeSlot nx q)) q h (x # xs)"
proof -
  from assms(1) obtain nx where nx: "h = x" "x \<noteq> 0" "m x = Some (FreeSlot nx p)" "free_dll m x nx xs"
    by auto
  from assms(2) have "free_dll (m(x \<mapsto> FreeSlot nx q)) x nx xs"
    by (intro free_dll_frame [OF nx(4)]) auto
  with nx that show ?thesis by simp
qed

text \<open>The free list of a table, first node first.\<close>

definition tb_free :: "'a dbtable \<Rightarrow> u32 list \<Rightarrow> bool" where
  "tb_free t xs \<longleftrightarrow> free_dll (tb_slot t) 0 (tb_free_list t) xs \<and> distinct xs"

lemma tb_getFreeObj_Some:
  "tb_getFreeObj t i = Some (nx, pv) \<longleftrightarrow> i \<noteq> 0 \<and> tb_slot t i = Some (FreeSlot nx pv)"
  by (auto simp: tb_getFreeObj_def split: option.splits dbslot.splits)

lemma tb_pushQ_ok:
  assumes "tb_shape t" "tb_free t xs" "tb_slot t e \<noteq> None" "e \<noteq> 0" "e \<notin> set xs"
  obtains t' where "tb_pushQ e t = Some t'" "tb_frame t t'" "tb_free t' (e # xs)"
    "tb_free_list t' = e" "\<And>i. i \<notin> set (e # xs) \<Longrightarrow> tb_slot t' i = tb_slot t i"
proof -
  let ?t1 = "tb_put e (FreeSlot (tb_free_list t) 0) t"
  have sh: "tb_shape ?t1" by (rule tb_frame_shape [OF assms(1) tb_frame_put])
  have e: "e \<noteq> 0" "unat e < tb_cap t" using assms(1,3,4) by (auto simp: tb_slot_at split: if_splits)
  then have oid: "tb_getOID ?t1 e = e"
    using tb_getOID_id(1) [OF sh, of e] by (simp add: tb_frame_pow [OF tb_frame_put])
  have s1: "tb_slot ?t1 = (tb_slot t)(e \<mapsto> FreeSlot (tb_free_list t) 0)"
    by (rule tb_slot_put [OF assms(1,3)])
  have dll: "free_dll (tb_slot t) 0 (tb_free_list t) xs" "distinct xs"
    using assms(2) by (simp_all add: tb_free_def)
  show ?thesis
  proof (cases xs)
    case Nil
    with dll have Q: "tb_free_list t = 0" by simp
    show ?thesis
      by (rule that [of "?t1\<lparr>tb_free_list := e\<rparr>"])
        (use Q Nil e in \<open>simp_all add: tb_pushQ_def oid [unfolded Q] Let_def tb_free_def s1 [unfolded Q]\<close>)
  next
    case (Cons q qs)
    then have Q: "tb_free_list t = q" "q \<noteq> 0" "q \<noteq> e" using dll assms(5) by auto
    let ?m1 = "tb_slot ?t1"
    have "free_dll ?m1 0 q xs"
      unfolding s1 using assms(5) dll(1) Q(1) by (auto intro: free_dll_frame)
    with Cons dll(2) obtain nx where nx: "?m1 q = Some (FreeSlot nx 0)"
      "free_dll (?m1(q \<mapsto> FreeSlot nx e)) e q xs"
      using free_dll_head by metis
    let ?t2 = "tb_put q (FreeSlot nx e) ?t1"
    have s2: "tb_slot ?t2 = ?m1(q \<mapsto> FreeSlot nx e)"
      using nx(1) by (intro tb_slot_put [OF sh]) simp
    show ?thesis
    proof (rule that [of "?t2\<lparr>tb_free_list := e\<rparr>"])
      show "tb_pushQ e t = Some (?t2\<lparr>tb_free_list := e\<rparr>)"
        using Q nx(1) by (simp add: tb_pushQ_def oid [unfolded Q(1)] Let_def tb_getFreeObj_Some [THEN iffD2])
      show "tb_frame t (?t2\<lparr>tb_free_list := e\<rparr>)"
        using tb_frame_trans [OF tb_frame_put tb_frame_put] by simp
      show "tb_free (?t2\<lparr>tb_free_list := e\<rparr>) (e # xs)"
        using nx(2) Q e assms(5) dll(2) by (simp add: tb_free_def s2 [unfolded Q(1)] s1 [unfolded Q(1)])
    qed (use Cons in \<open>auto simp: s2 s1\<close>)
  qed
qed

lemma tb_popQ_ok:
  assumes "tb_shape t" "tb_free t (e # xs)"
  obtains t' where "tb_popQ t = Some (e, t')" "tb_frame t t'" "tb_free t' xs" 
    "\<And>i. i \<notin> set xs \<Longrightarrow> tb_slot t' i = tb_slot t i"
proof -
  have Q: "tb_free_list t = e" "distinct (e # xs)" "e \<noteq> 0" using assms(2) by (auto simp: tb_free_def)
  obtain nx where nx: "tb_slot t e = Some (FreeSlot nx 0)" "free_dll (tb_slot t) e nx xs"
    using assms(2) by (auto simp: tb_free_def)
  show ?thesis
  proof (cases xs)
    case Nil
    then have "nx = 0" using nx(2) by simp
    with nx Q Nil show ?thesis
      by (intro that [of "t\<lparr>tb_free_list := 0\<rparr>"])
        (simp_all add: tb_popQ_def tb_getFreeObj_Some [THEN iffD2] tb_free_def Let_def)
  next
    case (Cons q qs)
    have nq: "nx = q" "q \<noteq> 0" using nx(2) Cons by auto
    from nx(2) Cons Q(2) obtain ny where ny: "tb_slot t q = Some (FreeSlot ny e)"
      "free_dll ((tb_slot t)(q \<mapsto> FreeSlot ny 0)) 0 q xs"
      using free_dll_head nq by (metis distinct.simps(2))
    let ?t1 = "t\<lparr>tb_free_list := q\<rparr>"
    have sh: "tb_shape ?t1" by (rule tb_frame_shape [OF assms(1)]) simp
    have s: "tb_slot (tb_put q (FreeSlot ny 0) ?t1) = (tb_slot t)(q \<mapsto> FreeSlot ny 0)"
      using tb_slot_put [OF sh] ny(1) by simp
    show ?thesis
    proof (rule that [of "tb_put q (FreeSlot ny 0) ?t1"])
      show "tb_popQ t = Some (e, tb_put q (FreeSlot ny 0) ?t1)"
        using Q(1,3) nx(1) nq ny(1) by (simp add: tb_popQ_def tb_getFreeObj_Some [THEN iffD2] Let_def)
      show "tb_frame t (tb_put q (FreeSlot ny 0) ?t1)"
        by (rule tb_frame_trans [OF _ tb_frame_put]) simp
      show "tb_free (tb_put q (FreeSlot ny 0) ?t1) xs"
        using ny(2) Q(2) by (simp add: tb_free_def s) (simp add: tb_put_def)
    qed (use Cons in \<open>auto simp: s\<close>)
  qed
qed

section \<open>Invariant\<close>

text \<open>
  The ids of the objects, and per page the offsets of its objects.  \<open>tb_base\<close> is the invariant
  between the steps of an operation: the page counters count the objects, the zero object is
  not one, and the free list \<open>xs\<close> holds every other free slot.
\<close>

abbreviation tb_ids :: "'a dbtable \<Rightarrow> u32 set" where
  "tb_ids t \<equiv> dom (tb_getPtr t)"

definition tb_page_ids :: "'a dbtable \<Rightarrow> nat \<Rightarrow> nat set" where
  "tb_page_ids t p = {j. j < tb_pow t \<and> tb_id t p j \<in> tb_ids t}"

definition tb_counts :: "'a dbtable \<Rightarrow> bool" where
  "tb_counts t \<longleftrightarrow>
     (\<forall>p < unat (tb_page_cnt t). unat (page_alloccnt (tb_page t p)) = card (tb_page_ids t p))"

definition tb_base :: "'a dbtable \<Rightarrow> u32 list \<Rightarrow> bool" where
  "tb_base t xs \<longleftrightarrow> tb_shape t \<and> tb_counts t \<and> (\<forall>x. tb_slot t 0 \<noteq> Some (AllocSlot x)) \<and>
     tb_free t xs \<and> set xs = {i. i \<noteq> 0 \<and> (\<exists>nx pv. tb_slot t i = Some (FreeSlot nx pv))}"

definition tb_ok :: "'a dbtable \<Rightarrow> bool" where
  "tb_ok t \<longleftrightarrow> (\<exists>xs. tb_base t xs) \<and> unat (tb_alloc_cnt t) = card (tb_ids t) \<and>
     tb_bottom_idx t = (if tb_ids t = {} then 0 else Min (tb_ids t)) \<and>
     tb_top_idx t = (if tb_ids t = {} then 0 else Max (tb_ids t))"

lemma tb_getPtr_Some: "tb_getPtr t i = Some x \<longleftrightarrow> i \<noteq> 0 \<and> tb_slot t i = Some (AllocSlot x)"
  by (auto simp: tb_getPtr_def split: option.splits dbslot.splits)

lemma tb_validId_dom: "tb_validId t i \<longleftrightarrow> i \<in> tb_ids t"
  by (auto simp: tb_validId_def tb_getPtr_def is_alloc_def split: option.splits dbslot.splits)

lemma tb_ids_less: "tb_shape t \<Longrightarrow> i \<in> tb_ids t \<Longrightarrow> i \<noteq> 0 \<and> unat i < tb_cap t"
  by (auto simp: tb_getPtr_Some tb_slot_at split: if_splits)

lemma finite_u32 [simp]: "finite (A :: u32 set)"
  by (rule finite_subset [OF subset_UNIV]) simp

text \<open>Bookkeeping fields do not matter to the slots.\<close>

lemma tb_slot_fields [simp]:
  "tb_slot (t\<lparr>tb_alloc_cnt := c\<rparr>) = tb_slot t" "tb_slot (t\<lparr>tb_top_idx := c\<rparr>) = tb_slot t"
  "tb_slot (t\<lparr>tb_bottom_idx := c\<rparr>) = tb_slot t"
  by (simp_all add: fun_eq_iff tb_slot_def tb_page_of_def tb_offset_of_def)

lemma tb_getPtr_cong: "tb_slot t' = tb_slot t \<Longrightarrow> tb_getPtr t' = tb_getPtr t"
  by (simp add: fun_eq_iff tb_getPtr_def)

lemma tb_getPtr_fields [simp]:
  "tb_getPtr (t\<lparr>tb_alloc_cnt := c\<rparr>) = tb_getPtr t" "tb_getPtr (t\<lparr>tb_top_idx := c\<rparr>) = tb_getPtr t"
  "tb_getPtr (t\<lparr>tb_bottom_idx := c\<rparr>) = tb_getPtr t" "tb_getPtr (t\<lparr>tb_free_list := c\<rparr>) = tb_getPtr t"
  by (rule tb_getPtr_cong, simp)+

lemma tb_base_fields [simp]:
  "tb_base (t\<lparr>tb_alloc_cnt := c\<rparr>) xs = tb_base t xs" "tb_base (t\<lparr>tb_top_idx := c\<rparr>) xs = tb_base t xs"
  "tb_base (t\<lparr>tb_bottom_idx := c\<rparr>) xs = tb_base t xs"
  by (simp_all add: tb_base_def tb_shape_def tb_cap_def tb_pow_def tb_counts_def tb_page_def
      tb_page_ids_def tb_id_def tb_free_def)

lemma unat_tb_id:
  assumes "tb_shape t" "p < unat (tb_page_cnt t)" "j < tb_pow t"
  shows "unat (tb_id t p j) = p * tb_pow t + j"
  unfolding tb_id_flat by (rule unat_flat [OF assms(1) flat_less [OF assms(2,3)]])

lemma tb_id_page_offset:
  assumes "tb_shape t" "p < unat (tb_page_cnt t)" "j < tb_pow t"
  shows "tb_page_of t (tb_id t p j) = p" "tb_offset_of t (tb_id t p j) = j"
  using assms(3) by (simp_all add: tb_page_offset [OF assms(1)] unat_tb_id [OF assms])

lemma tb_id_inj:
  assumes "tb_shape t" "p < unat (tb_page_cnt t)" "j < tb_pow t" "unat i < tb_cap t"
  shows "tb_id t p j = i \<longleftrightarrow> p = unat i div tb_pow t \<and> j = unat i mod tb_pow t"
proof -
  have "tb_id t p j = i \<longleftrightarrow> p * tb_pow t + j = unat i"
    using unat_tb_id [OF assms(1-3)] by (metis unsigned_word_eqI)
  moreover have "(p * tb_pow t + j) div tb_pow t = p" "(p * tb_pow t + j) mod tb_pow t = j"
    using assms(3) by simp_all
  ultimately show ?thesis by (metis div_mult_mod_eq)
qed

lemma tb_alloc_at_ids:
  assumes "tb_base t xs" "p < unat (tb_page_cnt t)" "j < tb_pow t"
  shows "tb_alloc_at t p j \<longleftrightarrow> tb_id t p j \<in> tb_ids t"
proof -
  have sh: "tb_shape t" and zero: "tb_slot t 0 \<noteq> Some (AllocSlot x)" for x
    using assms(1) by (auto simp: tb_base_def)
  have "tb_slot t (tb_id t p j) = Some (tb_at t (p * tb_pow t + j))"
    by (simp add: tb_slot_at [OF sh] unat_tb_id [OF sh assms(2,3)] flat_less [OF assms(2,3)])
  then show ?thesis
    using zero by (auto simp: tb_alloc_at_flat [OF assms(3)] dom_def tb_getPtr_Some is_alloc_def
        split: dbslot.splits)
qed

lemma tb_valid_page:
  assumes "tb_base t xs" "p < unat (tb_page_cnt t)"
  shows "valid_page (tb_page t p) \<longleftrightarrow> (\<exists>j < tb_pow t. tb_id t p j \<in> tb_ids t)"
proof -
  have "unat (page_alloccnt (tb_page t p)) = card (tb_page_ids t p)"
    using assms by (simp add: tb_base_def tb_counts_def)
  moreover have "card (tb_page_ids t p) = 0 \<longleftrightarrow> tb_page_ids t p = {}"
    by (simp add: tb_page_ids_def)
  ultimately have "valid_page (tb_page t p) \<longleftrightarrow> tb_page_ids t p \<noteq> {}"
    by (metis valid_page_def unat_eq_zero)
  then show ?thesis by (auto simp: tb_page_ids_def)
qed

section \<open>Counting\<close>

lemma tb_count_simps [simp]:
  "tb_page_shift (tb_count f i t) = tb_page_shift t" "tb_page_mask (tb_count f i t) = tb_page_mask t"
  "tb_page_cnt (tb_count f i t) = tb_page_cnt t" "tb_free_list (tb_count f i t) = tb_free_list t"
  "tb_alloc_cnt (tb_count f i t) = tb_alloc_cnt t" "tb_top_idx (tb_count f i t) = tb_top_idx t"
  "tb_bottom_idx (tb_count f i t) = tb_bottom_idx t" "tb_pow (tb_count f i t) = tb_pow t"
  "tb_cap (tb_count f i t) = tb_cap t" "tb_id (tb_count f i t) = tb_id t"
  "tb_page_of (tb_count f i t) = tb_page_of t" "tb_offset_of (tb_count f i t) = tb_offset_of t"
  by (simp_all add: tb_count_def tb_pow_def tb_cap_def tb_id_def tb_page_of_def tb_offset_of_def fun_eq_iff)

lemma tb_count_page:
  assumes "tb_shape t" "p < unat (tb_page_cnt t)"
  shows "tb_pages (tb_count f i t) ! p = Some ((tb_page t p)\<lparr>page_alloccnt :=
      if p = tb_page_of t i then f (page_alloccnt (tb_page t p)) else page_alloccnt (tb_page t p)\<rparr>)"
proof -
  have "p < length (tb_pages t)" using assms(2) tb_shapeD(6) [OF assms(1)] by simp
  with tb_shape_page(1) [OF assms] show ?thesis
    by (cases "p = tb_page_of t i") (simp_all add: tb_count_def)
qed

lemma tb_count_alloccnt:
  "tb_shape t \<Longrightarrow> p < unat (tb_page_cnt t) \<Longrightarrow> page_alloccnt (tb_page (tb_count f i t) p) =
     (if p = tb_page_of t i then f (page_alloccnt (tb_page t p)) else page_alloccnt (tb_page t p))"
  by (simp add: tb_page_def [of "tb_count f i t"] tb_count_page)

lemma tb_count_shape:
  assumes "tb_shape t"
  shows "tb_shape (tb_count f i t)"
proof -
  have "tb_pages (tb_count f i t) ! p = None" if "p < length (tb_pages t)" "\<not> p < unat (tb_page_cnt t)" for p
    using that assms by (cases "p = tb_page_of t i") (simp_all add: tb_count_def tb_shape_def)
  moreover have "length (tb_pages (tb_count f i t)) = length (tb_pages t)" by (simp add: tb_count_def)
  ultimately show ?thesis
    using assms tb_count_page [OF assms] tb_shape_page [OF assms] unfolding tb_shape_def by simp
qed

lemma tb_count_slot:
  assumes "tb_shape t"
  shows "tb_slot (tb_count f i t) = tb_slot t"
proof
  fix k
  show "tb_slot (tb_count f i t) k = tb_slot t k"
  proof (cases "tb_page_of t k < unat (tb_page_cnt t)")
    case True
    with tb_count_page [OF assms True] tb_shape_page(1) [OF assms True] show ?thesis
      by (simp add: tb_slot_def)
  qed (simp add: tb_slot_def)
qed

lemma tb_page_ids_finite [simp]: "finite (tb_page_ids t p)" "card (tb_page_ids t p) \<le> tb_pow t"
proof -
  have sub: "tb_page_ids t p \<subseteq> {..<tb_pow t}" by (auto simp: tb_page_ids_def)
  then show "finite (tb_page_ids t p)" by (rule finite_subset) simp
  show "card (tb_page_ids t p) \<le> tb_pow t" using card_mono [OF _ sub] by simp
qed

lemma tb_page_ids_insert:
  assumes "tb_shape t" "p < unat (tb_page_cnt t)" "unat e < tb_cap t" "tb_frame t t'"
    "tb_ids t' = insert e (tb_ids t)"
  shows "tb_page_ids t' p = (if p = tb_page_of t e then insert (tb_offset_of t e) (tb_page_ids t p)
                             else tb_page_ids t p)"
proof -
  have eq: "tb_id t' = tb_id t" "tb_pow t' = tb_pow t"
    using assms(4) by (simp_all add: tb_id_def tb_frame_def fun_eq_iff tb_pow_def)
  have "tb_offset_of t e < tb_pow t" by (simp add: tb_page_offset [OF assms(1)])
  with assms(5) show ?thesis
    using tb_id_inj [OF assms(1,2) _ assms(3)] by (auto simp: tb_page_ids_def eq tb_page_offset [OF assms(1)])
qed

text \<open>A counter step at \<open>e\<close> and a change of the set of ids at \<open>e\<close> go together.\<close>

lemma tb_counts_insert:
  assumes "tb_shape t" "tb_counts t" "unat e < tb_cap t" "e \<notin> tb_ids t" "tb_frame t t'"
    "tb_ids t' = insert e (tb_ids t)"
  shows "tb_counts (tb_count (\<lambda>c. c + 1) e t')"
  unfolding tb_counts_def
proof (intro allI impI)
  fix p
  assume "p < unat (tb_page_cnt (tb_count (\<lambda>c. c + 1) e t'))"
  then have p: "p < unat (tb_page_cnt t)" using assms(5) by (simp add: tb_frame_def)
  note sh' = tb_frame_shape [OF assms(1,5)]
  have same: "tb_page_of t' e = tb_page_of t e" "unat (tb_page_cnt t') = unat (tb_page_cnt t)"
    using assms(5) by (simp_all add: tb_frame_def tb_page_of_def)
  let ?c = "page_alloccnt (tb_page t p)"
  have c: "unat ?c = card (tb_page_ids t p)" using assms(2) p by (simp add: tb_counts_def)
  have page: "page_alloccnt (tb_page (tb_count (\<lambda>c. c + 1) e t') p) = (if p = tb_page_of t e then ?c + 1 else ?c)"
    unfolding tb_count_alloccnt [OF sh' p [folded same(2)]] same tb_frame_page [OF assms(1,5) p] by (rule refl)
  have ids: "tb_page_ids (tb_count (\<lambda>c. c + 1) e t') p = tb_page_ids t' p"
    using tb_getPtr_cong [OF tb_count_slot [OF sh']] by (simp add: tb_page_ids_def)
  have "tb_id t (tb_page_of t e) (tb_offset_of t e) = e"
    using assms(3) tb_id_inj [OF assms(1) _ _ assms(3)]
    by (simp add: tb_page_offset [OF assms(1)] div_tb_pow_less)
  with assms(4) have new: "tb_offset_of t e \<notin> tb_page_ids t p" if "p = tb_page_of t e"
    using that by (auto simp: tb_page_ids_def)
  have "tb_pow t \<le> 2 ^ 31" using tb_shapeD(1) [OF assms(1)] unfolding tb_pow_def
    by (intro power_increasing) auto
  then have "tb_pow t \<le> 2147483648" by simp
  then have "unat ?c + 1 < 2 ^ 32" using le_trans [OF tb_page_ids_finite(2) [of t p]] c by fastforce
  then have "unat (?c + 1) = unat ?c + 1" using unat_add_lem [of ?c 1] by simp
  then show "unat (page_alloccnt (tb_page (tb_count (\<lambda>c. c + 1) e t') p)) =
      card (tb_page_ids (tb_count (\<lambda>c. c + 1) e t') p)"
    using new c unfolding page ids tb_page_ids_insert [OF assms(1) p assms(3,5,6)]
    by (cases "p = tb_page_of t e") simp_all
qed

lemma tb_counts_remove:
  assumes "tb_shape t" "tb_counts t" "e \<in> tb_ids t" "tb_frame (tb_count (\<lambda>c. c - 1) e t) t'"
    "tb_ids t' = tb_ids t - {e}"
  shows "tb_counts t'"
  unfolding tb_counts_def
proof (intro allI impI)
  fix p
  assume "p < unat (tb_page_cnt t')"
  then have p: "p < unat (tb_page_cnt t)" using assms(4) by (simp add: tb_frame_def)
  note sh1 = tb_count_shape [OF assms(1)]
  have e: "unat e < tb_cap t" using tb_ids_less [OF assms(1,3)] by simp
  let ?c = "page_alloccnt (tb_page t p)"
  have c: "unat ?c = card (tb_page_ids t p)" using assms(2) p by (simp add: tb_counts_def)
  have page: "page_alloccnt (tb_page t' p) = (if p = tb_page_of t e then ?c - 1 else ?c)"
    using tb_frame_page [OF sh1 assms(4), of p] tb_count_alloccnt [OF assms(1) p] p by simp
  have eq: "tb_id t' = tb_id t" "tb_pow t' = tb_pow t"
    using assms(4) by (simp_all add: tb_id_def tb_frame_def fun_eq_iff tb_pow_def)
  have ids: "tb_page_ids t' p = (if p = tb_page_of t e then tb_page_ids t p - {tb_offset_of t e}
                                 else tb_page_ids t p)"
    using tb_id_inj [OF assms(1) p _ e] assms(5)
    by (auto simp: tb_page_ids_def eq tb_page_offset [OF assms(1)])
  have "tb_id t (tb_page_of t e) (tb_offset_of t e) = e"
    using e tb_id_inj [OF assms(1) _ _ e] by (simp add: tb_page_offset [OF assms(1)] div_tb_pow_less)
  with assms(3) have old: "tb_offset_of t e \<in> tb_page_ids t p" if "p = tb_page_of t e"
    using that by (simp add: tb_page_ids_def tb_page_offset [OF assms(1)])
  show "unat (page_alloccnt (tb_page t' p)) = card (tb_page_ids t' p)"
  proof (cases "p = tb_page_of t e")
    case True
    with old have "0 < card (tb_page_ids t p)" by (auto simp: card_gt_0_iff)
    with c have "1 \<le> unat ?c" by simp
    then have "unat (?c - 1) = unat ?c - 1" using unat_sub [of 1 ?c] by (simp add: word_le_nat_alt)
    with True old c show ?thesis unfolding page ids by simp
  qed (use c in \<open>simp add: page ids\<close>)
qed

section \<open>create\<close>

lemma tb_base_cap: "tb_base t xs \<Longrightarrow> i \<in> tb_ids t \<or> i \<in> set xs \<longleftrightarrow> i \<noteq> 0 \<and> unat i < tb_cap t"
proof -
  assume b: "tb_base t xs"
  then have sh: "tb_shape t" and fr: "set xs = {i. i \<noteq> 0 \<and> (\<exists>nx pv. tb_slot t i = Some (FreeSlot nx pv))}"
    by (simp_all add: tb_base_def)
  show ?thesis
    unfolding fr using tb_slot_at [OF sh, of i]
    by (cases "tb_at t (unat i)") (auto simp: dom_def tb_getPtr_Some split: if_splits)
qed

text \<open>The first free slot becomes the object.\<close>

lemma tb_create_step:
  assumes "tb_base t (e # xs)"
  obtains t3 where "tb_popQ t = Some (e, t3)"
    "tb_base (tb_count (\<lambda>c. c + 1) e (tb_put e (AllocSlot x) t3)) xs"
    "tb_getPtr (tb_count (\<lambda>c. c + 1) e (tb_put e (AllocSlot x) t3)) = (tb_getPtr t)(e \<mapsto> x)"
    "tb_frame t t3" "e \<notin> tb_ids t" "e \<noteq> 0" "unat e < tb_cap t"
proof -
  have b: "tb_shape t" "tb_counts t" "tb_slot t 0 \<noteq> Some (AllocSlot y)" "tb_free t (e # xs)"
    "set (e # xs) = {i. i \<noteq> 0 \<and> (\<exists>nx pv. tb_slot t i = Some (FreeSlot nx pv))}" for y
    using assms by (simp_all only: tb_base_def simp_thms) 
  obtain t3 where t3: "tb_popQ t = Some (e, t3)" "tb_frame t t3" "tb_free t3 xs"
    "\<And>i. i \<notin> set xs \<Longrightarrow> tb_slot t3 i = tb_slot t i"
    using tb_popQ_ok [OF b(1,4)] by blast
  let ?u = "tb_put e (AllocSlot x) t3" let ?v = "tb_count (\<lambda>c. c + 1) e ?u"
  have e: "e \<noteq> 0" "unat e < tb_cap t" using tb_base_cap [OF assms, of e] by simp_all
  have dist: "e \<notin> set xs" "distinct xs" using b(4) by (simp_all add: tb_free_def)
  have free: "\<exists>nx pv. tb_slot t i = Some (FreeSlot nx pv)" "i \<noteq> 0" if "i \<in> set (e # xs)" for i
    using that b(5) by blast+
  have free3: "\<exists>nx pv. tb_slot t3 i = Some (FreeSlot nx pv)" if "i \<in> set xs" for i
    using t3(3) that free_dll_free [of "tb_slot t3" 0 "tb_free_list t3" xs i] by (simp add: tb_free_def)
  have sh3: "tb_shape t3" by (rule tb_frame_shape [OF b(1) t3(2)])
  have fru: "tb_frame t ?u" using t3(2) tb_frame_put tb_frame_trans by blast
  have shu: "tb_shape ?u" by (rule tb_frame_shape [OF b(1) fru])
  have "tb_slot t3 e \<noteq> None" using t3(4) [OF dist(1)] free(1) [of e] by auto
  then have su: "tb_slot ?u = (tb_slot t3)(e \<mapsto> AllocSlot x)" by (rule tb_slot_put [OF sh3])
  have sv: "tb_slot ?v = tb_slot ?u" by (rule tb_count_slot [OF shu])
  have getu: "tb_getPtr ?u = (tb_getPtr t)(e \<mapsto> x)"
  proof
    fix i show "tb_getPtr ?u i = ((tb_getPtr t)(e \<mapsto> x)) i"
      using t3(4) [of i] free3 [of i] free [of i] e by (cases "i \<in> set xs") (auto simp: tb_getPtr_def su)
  qed
  have new: "e \<notin> tb_ids t" using free(1) [of e] by (auto simp: dom_def tb_getPtr_Some)
  have "tb_counts ?v"
    by (rule tb_counts_insert [OF b(1,2) e(2) new fru]) (simp add: getu)
  moreover have "tb_free ?v xs"
    using t3(3) dist unfolding tb_free_def sv su
    by (auto intro: free_dll_frame simp: tb_put_def)
  moreover have "set xs = {i. i \<noteq> 0 \<and> (\<exists>nx pv. tb_slot ?v i = Some (FreeSlot nx pv))}"
  proof -
    have "i \<in> set xs \<longleftrightarrow> i \<noteq> 0 \<and> (\<exists>nx pv. tb_slot ?v i = Some (FreeSlot nx pv))" for i
      using t3(4) [of i] free3 [of i] free [of i] b(5) dist by (cases "i \<in> set xs") (auto simp: sv su)
    then show ?thesis by blast
  qed
  moreover have "tb_slot ?v 0 \<noteq> Some (AllocSlot y)" for y
  proof -
    have "tb_slot t3 0 = tb_slot t 0" using t3(4) [of 0] free(2) [of 0] by auto
    then show ?thesis using b(3) e by (simp add: sv su)
  qed
  ultimately have "tb_base ?v xs" using tb_count_shape [OF shu] by (simp add: tb_base_def)
  moreover have "tb_getPtr ?v = (tb_getPtr t)(e \<mapsto> x)" using tb_getPtr_cong [OF sv] getu by simp
  ultimately show ?thesis using that t3 new e by blast
qed

text \<open>A new page's objects go on the free list so that they come off it low to high.\<close>

lemma tb_link_ok:
  assumes "tb_shape t" "tb_free t xs" "z = (if zero then 1 else 0)"
    "\<And>j. z \<le> j \<Longrightarrow> j < k \<Longrightarrow> tb_slot t (addr OR of_nat j) \<noteq> None \<and> addr OR of_nat j \<noteq> 0"
    "distinct (map (\<lambda>j. addr OR of_nat j) [z..<k] @ xs)"
  shows "\<exists>t'. tb_link zero addr k t = Some t' \<and> tb_frame t t' \<and>
    tb_free t' (map (\<lambda>j. addr OR of_nat j) [z..<k] @ xs) \<and>
    (\<forall>i. i \<notin> set (map (\<lambda>j. addr OR of_nat j) [z..<k] @ xs) \<longrightarrow> tb_slot t' i = tb_slot t i)"
  using assms
proof (induction k arbitrary: t xs)
  case (Suc k)
  let ?f = "\<lambda>j. addr OR of_nat j :: u32"
  show ?case
  proof (cases "zero \<and> k = 0")
    case True
    with Suc.prems show ?thesis by (intro exI [of _ t]) simp
  next
    case False
    then have z: "z \<le> k" using Suc.prems(3) by auto
    then have split: "[z..<Suc k] = [z..<k] @ [k]" by simp
    have dist: "distinct (map ?f [z..<k] @ ?f k # xs)" using Suc.prems(5) unfolding split by simp
    then have e: "tb_slot t (?f k) \<noteq> None" "?f k \<noteq> 0" "?f k \<notin> set xs"
      using Suc.prems(4) [OF z] by simp_all
    obtain t1 where t1: "tb_pushQ (?f k) t = Some t1" "tb_frame t t1" "tb_free t1 (?f k # xs)"
      "\<And>i. i \<notin> set (?f k # xs) \<Longrightarrow> tb_slot t1 i = tb_slot t i"
      using tb_pushQ_ok [OF Suc.prems(1,2) e] by blast
    have "\<exists>t'. tb_link zero addr k t1 = Some t' \<and> tb_frame t1 t' \<and>
      tb_free t' (map ?f [z..<k] @ ?f k # xs) \<and>
      (\<forall>i. i \<notin> set (map ?f [z..<k] @ ?f k # xs) \<longrightarrow> tb_slot t' i = tb_slot t1 i)"
    proof (rule Suc.IH)
      show "tb_shape t1" by (rule tb_frame_shape [OF Suc.prems(1) t1(2)])
      show "distinct (map ?f [z..<k] @ ?f k # xs)" by (rule dist)
      fix j assume j: "z \<le> j" "j < k"
      then have "?f j \<in> set (map ?f [z..<k])" by auto
      with dist have "?f j \<notin> set (?f k # xs)" by (metis disjoint_iff distinct_append)
      with t1(4) Suc.prems(4) [of j] j show "tb_slot t1 (?f j) \<noteq> None \<and> ?f j \<noteq> 0" by simp
    qed (use t1 Suc.prems(3) in auto)
    then obtain t' where t': "tb_link zero addr k t1 = Some t'" "tb_frame t1 t'"
      "tb_free t' (map ?f [z..<k] @ ?f k # xs)"
      "\<And>i. i \<notin> set (map ?f [z..<k] @ ?f k # xs) \<Longrightarrow> tb_slot t' i = tb_slot t1 i" by blast
    have link: "tb_link zero addr (Suc k) t = Some t'" using False t1(1) t'(1) by auto
    have slots: "\<forall>i. i \<notin> set (map ?f [z..<Suc k] @ xs) \<longrightarrow> tb_slot t' i = tb_slot t i"
      unfolding split using t'(4) t1(4) by simp
    show ?thesis
      by (intro exI [of _ t'] conjI link slots tb_frame_trans [OF t1(2) t'(2)])
        (unfold split, use t'(3) in simp)
  qed
qed (simp add: exI [of _ t])

text \<open>The table before its new page is linked.\<close>

definition tb_grown :: "'a dbtable \<Rightarrow> 'a dbtable" where
  "tb_grown t =
     (let page_id = unat (tb_page_cnt t);
          t1 = (if length (tb_pages t) = 0 then t\<lparr>tb_pages := [None]\<rparr>
                else if length (tb_pages t) = page_id then tb_resizePageTbl t
                else t);
          page = \<lparr>page_addr = push_bit (unat (tb_page_shift t)) (of_nat page_id), page_alloccnt = 0,
                  page_objects = replicate (tb_pageSize t) (FreeSlot 0 0)\<rparr>
      in t1\<lparr>tb_page_cnt := tb_page_cnt t + 1, tb_pages := (tb_pages t1)[page_id := Some page]\<rparr>)"

lemma tb_newPage_grown:
  "tb_newPage t = tb_link (tb_page_cnt t = 0)
     (push_bit (unat (tb_page_shift t)) (of_nat (unat (tb_page_cnt t)))) (tb_pageSize t) (tb_grown t)"
  by (simp add: tb_newPage_def tb_grown_def Let_def unat_eq_zero)

definition tb_room :: "'a dbtable \<Rightarrow> bool" where
  "tb_room t \<longleftrightarrow> tb_free_list t \<noteq> 0 \<or> tb_cap t + tb_pow t \<le> 2147483648"

lemma tb_grown_pages:
  assumes "tb_shape t" "tb_cap t + tb_pow t \<le> 2147483648"
  shows "unat (tb_page_cnt (tb_grown t)) = unat (tb_page_cnt t) + 1"
    "length (tb_pages (tb_grown t)) = (if length (tb_pages t) = 0 then 1
       else if length (tb_pages t) = unat (tb_page_cnt t) then 2 * length (tb_pages t) else length (tb_pages t))"
    "p < length (tb_pages (tb_grown t)) \<Longrightarrow> tb_pages (tb_grown t) ! p =
       (if p < unat (tb_page_cnt t) then tb_pages t ! p
        else if p = unat (tb_page_cnt t)
        then Some \<lparr>page_addr = push_bit (unat (tb_page_shift t)) (of_nat p), page_alloccnt = 0,
                   page_objects = replicate (tb_pow t) (FreeSlot 0 0)\<rparr>
        else None)"
proof -
  have "tb_pow t = 1 * tb_pow t" by simp
  then have "unat (tb_page_cnt t) + 1 \<le> tb_cap t + tb_pow t"
    unfolding tb_cap_def by (metis add_mult_distrib mult.right_neutral mult_le_mono2 tb_pow_pos
      One_nat_def Suc_leI)
  with assms(2) have "unat (tb_page_cnt t) + unat (1 :: u32) < 2 ^ 32" by simp
  then show "unat (tb_page_cnt (tb_grown t)) = unat (tb_page_cnt t) + 1"
    using unat_add_lem [of "tb_page_cnt t" 1] by (simp add: tb_grown_def Let_def)
  show "length (tb_pages (tb_grown t)) = (if length (tb_pages t) = 0 then 1
       else if length (tb_pages t) = unat (tb_page_cnt t) then 2 * length (tb_pages t) else length (tb_pages t))"
    by (simp add: tb_grown_def Let_def tb_resizePageTbl_def)
  have none: "tb_pages t ! p = None" if "unat (tb_page_cnt t) \<le> p" "p < length (tb_pages t)" for p
    using assms(1) that by (auto simp: tb_shape_def)
  have le: "unat (tb_page_cnt t) \<le> length (tb_pages t)" by (rule tb_shapeD(6) [OF assms(1)])
  show "p < length (tb_pages (tb_grown t)) \<Longrightarrow> tb_pages (tb_grown t) ! p =
       (if p < unat (tb_page_cnt t) then tb_pages t ! p
        else if p = unat (tb_page_cnt t)
        then Some \<lparr>page_addr = push_bit (unat (tb_page_shift t)) (of_nat p), page_alloccnt = 0,
                   page_objects = replicate (tb_pow t) (FreeSlot 0 0)\<rparr>
        else None)"
    using none [of p] le tb_pageSize_pow [OF assms(1)]
    by (auto simp: tb_grown_def Let_def tb_resizePageTbl_def nth_append nth_list_update)
qed

lemma tb_grown_fields [simp]:
  "tb_page_shift (tb_grown t) = tb_page_shift t" "tb_page_mask (tb_grown t) = tb_page_mask t"
  "tb_pow (tb_grown t) = tb_pow t" "tb_free_list (tb_grown t) = tb_free_list t"
  "tb_alloc_cnt (tb_grown t) = tb_alloc_cnt t" "tb_top_idx (tb_grown t) = tb_top_idx t"
  "tb_bottom_idx (tb_grown t) = tb_bottom_idx t" "tb_id (tb_grown t) = tb_id t"
  by (simp_all add: tb_grown_def Let_def tb_resizePageTbl_def tb_pow_def tb_id_def fun_eq_iff)

lemma tb_grown_shape:
  assumes "tb_shape t" "tb_cap t + tb_pow t \<le> 2147483648"
  shows "tb_shape (tb_grown t)" "tb_cap (tb_grown t) = tb_cap t + tb_pow t"
    "tb_slot (tb_grown t) i = (if unat i < tb_cap t then tb_slot t i
       else if unat i < tb_cap t + tb_pow t then Some (FreeSlot 0 0) else None)"
    "p < unat (tb_page_cnt t) \<Longrightarrow> tb_page (tb_grown t) p = tb_page t p"
    "page_alloccnt (tb_page (tb_grown t) (unat (tb_page_cnt t))) = 0"
    "page_addr (tb_page (tb_grown t) (unat (tb_page_cnt t))) =
       push_bit (unat (tb_page_shift t)) (of_nat (unat (tb_page_cnt t)))"
proof -
  let ?G = "tb_grown t" and ?c = "unat (tb_page_cnt t)"
  note g = tb_grown_pages [OF assms]
  show cap: "tb_cap ?G = tb_cap t + tb_pow t" by (simp add: tb_cap_def g(1))
  have len: "?c + 1 \<le> length (tb_pages ?G)" "length (tb_pages ?G) \<le> 2 * (?c + 1)"
  proof -
    have "1 \<le> length (tb_pages t)" if "tb_pages t \<noteq> []" using that by (cases "tb_pages t") simp_all
    then show "?c + 1 \<le> length (tb_pages ?G)" "length (tb_pages ?G) \<le> 2 * (?c + 1)"
      using assms(1) by (auto simp: g(2) tb_shape_def)
  qed
  have old: "tb_pages t ! p = Some (tb_page t p)" "length (page_objects (tb_page t p)) = tb_pow t"
    "page_addr (tb_page t p) = push_bit (unat (tb_page_shift t)) (of_nat p)" if "p < ?c" for p
    using tb_shape_page [OF assms(1) that] by simp_all
  show "p < ?c \<Longrightarrow> tb_page ?G p = tb_page t p" for p
    using len by (simp add: tb_page_def g(3))
  have new: "tb_page ?G ?c = \<lparr>page_addr = push_bit (unat (tb_page_shift t)) (of_nat ?c), page_alloccnt = 0,
                   page_objects = replicate (tb_pow t) (FreeSlot 0 0)\<rparr>"
    using len by (simp add: tb_page_def g(3))
  then show "page_alloccnt (tb_page ?G ?c) = 0"
    "page_addr (tb_page ?G ?c) = push_bit (unat (tb_page_shift t)) (of_nat ?c)" by simp_all
  show sh: "tb_shape ?G"
    unfolding tb_shape_def tb_grown_fields cap g(1)
  proof (intro conjI allI impI)
    fix p assume "p < length (tb_pages ?G)"
    then show "if p < ?c + 1 then \<exists>pg. tb_pages ?G ! p = Some pg \<and> length (page_objects pg) = tb_pow t \<and>
        page_addr pg = push_bit (unat (tb_page_shift t)) (of_nat p) else tb_pages ?G ! p = None"
      using old [of p] by (auto simp: g(3) less_Suc_eq)
  qed (use len assms tb_shapeD [OF assms(1)] in auto)
  have at_old: "tb_at ?G n = tb_at t n" if "n < tb_cap t" for n
    using that len by (simp add: tb_at_def tb_page_def g(3) div_tb_pow_less [symmetric])
  have at_new: "tb_at ?G n = FreeSlot 0 0" if "\<not> n < tb_cap t" "n < tb_cap t + tb_pow t" for n
  proof -
    have "n div tb_pow t < ?c + 1" "\<not> n div tb_pow t < ?c"
      using that by (simp_all add: div_less_iff_less_mult tb_cap_def)
    then have "n div tb_pow t = ?c" by simp
    then show ?thesis by (simp add: tb_at_def new)
  qed
  show "tb_slot ?G i = (if unat i < tb_cap t then tb_slot t i
       else if unat i < tb_cap t + tb_pow t then Some (FreeSlot 0 0) else None)"
    using at_old at_new by (simp add: tb_slot_at [OF sh] tb_slot_at [OF assms(1)] cap)
qed

lemma tb_newPage_ok:
  assumes "tb_base t []" "tb_cap t + tb_pow t \<le> 2147483648"
  obtains t2 where "tb_newPage t = Some t2" "tb_getPtr t2 = tb_getPtr t" "tb_frame (tb_grown t) t2"
    "tb_base t2 (map (\<lambda>j. of_nat (tb_cap t + j)) [(if tb_page_cnt t = 0 then 1 else 0)..<tb_pow t])"
proof -
  let ?G = "tb_grown t" and ?c = "unat (tb_page_cnt t)" and ?z = "if tb_page_cnt t = 0 then 1 else 0 :: nat"
  let ?addr = "push_bit (unat (tb_page_shift t)) (of_nat ?c) :: u32"
  let ?ys = "map (\<lambda>j. of_nat (tb_cap t + j)) [?z..<tb_pow t] :: u32 list"
  have b: "tb_shape t" "tb_counts t" "\<And>x. tb_slot t 0 \<noteq> Some (AllocSlot x)" "tb_free_list t = 0"
    "\<And>i nx pv. tb_slot t i = Some (FreeSlot nx pv) \<Longrightarrow> i = 0"
    using assms(1) unfolding tb_base_def by (auto simp: tb_free_def)
  note g = tb_grown_shape [OF b(1) assms(2)]
  have u: "unat (of_nat (tb_cap t + j) :: u32) = tb_cap t + j" if "j < tb_pow t" for j
    using unat_flat [OF g(1), of "tb_cap t + j"] that by (simp add: g(2))
  have idx: "?addr OR of_nat j = of_nat (tb_cap t + j)" if "j < tb_pow t" for j
  proof -
    have "tb_page_of ?G (of_nat (tb_cap t + j)) = ?c" "tb_offset_of ?G (of_nat (tb_cap t + j)) = j"
      using u [OF that] that by (simp_all add: tb_page_offset [OF g(1)] tb_cap_def del: of_nat_add)
    with tb_getOID_id(1) [OF g(1), of "of_nat (tb_cap t + j)"] u [OF that] that show ?thesis
      by (simp add: tb_getOID_def g(6) g(2))
  qed
  have ys: "map (\<lambda>j. ?addr OR of_nat j) [?z..<tb_pow t] = ?ys"
    by (rule map_cong [OF refl], rule idx) simp
  have nz: "(of_nat (tb_cap t + j) :: u32) \<noteq> 0" if "?z \<le> j" "j < tb_pow t" for j
  proof -
    have "tb_cap t + j \<noteq> 0" using that by (auto simp: tb_cap_def unat_eq_zero split: if_splits)
    with u [OF that(2)] show ?thesis by (metis unsigned_0)
  qed
  have "\<exists>t'. tb_link (tb_page_cnt t = 0) ?addr (tb_pow t) ?G = Some t' \<and> tb_frame ?G t' \<and>
      tb_free t' (map (\<lambda>j. ?addr OR of_nat j) [?z..<tb_pow t] @ []) \<and>
      (\<forall>i. i \<notin> set (map (\<lambda>j. ?addr OR of_nat j) [?z..<tb_pow t] @ []) \<longrightarrow> tb_slot t' i = tb_slot ?G i)"
  proof (rule tb_link_ok [OF g(1)])
    show "tb_free ?G []" using b(4) by (simp add: tb_free_def)
    show "tb_slot ?G (?addr OR of_nat j) \<noteq> None \<and> ?addr OR of_nat j \<noteq> 0"
      if "?z \<le> j" "j < tb_pow t" for j
      unfolding idx [OF that(2)] using nz [OF that] u [OF that(2)] that(2)
      by (simp add: g(3) del: of_nat_add)
    have "inj_on (\<lambda>j. of_nat (tb_cap t + j) :: u32) {?z..<tb_pow t}"
    proof (rule inj_onI)
      fix j k assume "j \<in> {?z..<tb_pow t}" "k \<in> {?z..<tb_pow t}"
        "(of_nat (tb_cap t + j) :: u32) = of_nat (tb_cap t + k)"
      with u [of j] u [of k] show "j = k" by (metis add_left_cancel atLeastLessThan_iff)
    qed
    then show "distinct (map (\<lambda>j. ?addr OR of_nat j) [?z..<tb_pow t] @ [])"
      unfolding ys append_Nil2 by (simp only: distinct_map distinct_upt set_upt simp_thms)
  qed simp
  then obtain t2 where t2: "tb_link (tb_page_cnt t = 0) ?addr (tb_pow t) ?G = Some t2" "tb_frame ?G t2"
    "tb_free t2 ?ys" "\<And>i. i \<notin> set ?ys \<Longrightarrow> tb_slot t2 i = tb_slot ?G i"
    unfolding ys append_Nil2 by blast
  have free2: "\<exists>nx pv. tb_slot t2 i = Some (FreeSlot nx pv)" if "i \<in> set ?ys" for i
    using t2(3) that free_dll_free [of "tb_slot t2" 0 "tb_free_list t2" ?ys i] by (simp add: tb_free_def)
  have inys: "i \<in> set ?ys \<longleftrightarrow> i \<noteq> 0 \<and> tb_cap t \<le> unat i \<and> unat i < tb_cap t + tb_pow t" for i
  proof
    assume "i \<in> set ?ys"
    then obtain j where "?z \<le> j" "j < tb_pow t" "i = of_nat (tb_cap t + j)" by auto
    with u nz show "i \<noteq> 0 \<and> tb_cap t \<le> unat i \<and> unat i < tb_cap t + tb_pow t"
      by (simp del: of_nat_add)
  next
    assume i: "i \<noteq> 0 \<and> tb_cap t \<le> unat i \<and> unat i < tb_cap t + tb_pow t"
    then have "i = of_nat (tb_cap t + (unat i - tb_cap t))" by simp
    moreover have "unat i - tb_cap t \<in> set [?z..<tb_pow t]"
      using i by (auto simp: tb_cap_def unat_eq_zero unat_gt_0 Suc_le_eq)
    ultimately show "i \<in> set ?ys" unfolding set_map by blast
  qed
  have slot2: "tb_slot t2 i = tb_slot t i" if "i \<notin> set ?ys" "i \<noteq> 0" for i
    using t2(4) [OF that(1)] that inys [of i] by (auto simp: g(3) tb_slot_at [OF b(1)])
  show ?thesis
  proof (rule that)
    show "tb_newPage t = Some t2"
      unfolding tb_newPage_grown tb_pageSize_pow [OF b(1)] by (rule t2(1))
    show get: "tb_getPtr t2 = tb_getPtr t"
    proof
      fix i
      have "tb_slot t i = None" if "i \<in> set ?ys" using that inys [of i] by (simp add: tb_slot_at [OF b(1)])
      then show "tb_getPtr t2 i = tb_getPtr t i"
        using free2 [of i] slot2 [of i] by (cases "i \<in> set ?ys") (auto simp: tb_getPtr_def)
    qed
    show "tb_frame ?G t2" by (rule t2(2))
    have sh2: "tb_shape t2" by (rule tb_frame_shape [OF g(1) t2(2)])
    have "tb_slot t2 0 \<noteq> Some (AllocSlot x)" for x
      using t2(4) [of 0] inys [of 0] b(3) [of x] by (auto simp: g(3))
    moreover have "set ?ys = {i. i \<noteq> 0 \<and> (\<exists>nx pv. tb_slot t2 i = Some (FreeSlot nx pv))}"
    proof -
      have "i \<in> set ?ys \<longleftrightarrow> i \<noteq> 0 \<and> (\<exists>nx pv. tb_slot t2 i = Some (FreeSlot nx pv))" for i
      proof (cases "i \<in> set ?ys")
        case True
        with free2 [of i] inys [of i] show ?thesis by blast
      next
        case False
        with slot2 [of i] b(5) [of i] show ?thesis by metis
      qed
      then show ?thesis by blast
    qed
    moreover have "tb_counts t2"
      unfolding tb_counts_def
    proof (intro allI impI)
      fix p assume "p < unat (tb_page_cnt t2)"
      then have p: "p < ?c + 1" using t2(2) tb_grown_pages(1) [OF b(1) assms(2)] by (simp add: tb_frame_def)
      then have p': "p < unat (tb_page_cnt ?G)" using tb_grown_pages(1) [OF b(1) assms(2)] by simp
      have eq: "tb_page_ids t2 p = tb_page_ids t p"
        using t2(2) by (simp add: tb_page_ids_def get tb_frame_pow tb_id_def tb_frame_def)
          (simp add: tb_pow_def tb_frame_def)
      have "tb_page_ids t p = {}" if "p = ?c"
      proof -
        have "tb_id t p j \<notin> tb_ids t" if "j < tb_pow t" for j
          using tb_ids_less [OF b(1), of "tb_id t p j"] unat_tb_id [OF g(1) p'] that \<open>p = ?c\<close>
          by (auto simp: tb_cap_def)
        then show ?thesis by (auto simp: tb_page_ids_def)
      qed
      then show "unat (page_alloccnt (tb_page t2 p)) = card (tb_page_ids t2 p)"
        using p b(2) tb_frame_page [OF g(1) t2(2) p'] g(4) [of p] g(5) eq
        by (cases "p = ?c") (auto simp: tb_counts_def)
    qed
    ultimately show "tb_base t2 ?ys" using sh2 t2(3) by (simp only: tb_base_def simp_thms)
  qed
qed

lemma tb_okD:
  assumes "tb_ok t"
  obtains xs where "tb_base t xs" "tb_shape t" "unat (tb_alloc_cnt t) = card (tb_ids t)"
  using assms by (auto simp: tb_ok_def tb_base_def)

lemma tb_ids_card: "tb_base t xs \<Longrightarrow> card (tb_ids t) < tb_cap t \<or> tb_ids t = {}"
proof (rule disjCI)
  assume b: "tb_base t xs" and ne: "tb_ids t \<noteq> {}"
  have sh: "tb_shape t" using b by (simp add: tb_base_def)
  have "unat ` tb_ids t \<subseteq> {1..<tb_cap t}"
    using tb_ids_less [OF sh] by (fastforce simp: unat_gt_0 Suc_le_eq)
  from card_mono [OF _ this] have "card (unat ` tb_ids t) \<le> tb_cap t - 1" by simp
  moreover have "card (unat ` tb_ids t) = card (tb_ids t)"
    by (intro card_image inj_onI unsigned_word_eqI) auto
  moreover obtain i where "i \<in> tb_ids t" using ne by blast
  then have "unat i < tb_cap t" using tb_ids_less [OF sh] by blast
  ultimately show "card (tb_ids t) < tb_cap t" by linarith
qed

text \<open>What \<open>create\<close> does from either kind of table, before the bounds are updated.\<close>

lemma tb_create_base:
  assumes "tb_base t xs" "tb_room t"
  obtains e t4 ys where
    "tb_create x t = Some (e,
       (let t5 = (if e > tb_top_idx t then t4\<lparr>tb_top_idx := e\<rparr> else t4)
        in if tb_bottom_idx t = 0 \<or> e < tb_bottom_idx t then t5\<lparr>tb_bottom_idx := e\<rparr> else t5))"
    "tb_base t4 ys" "tb_getPtr t4 = (tb_getPtr t)(e \<mapsto> x)" "e \<notin> tb_ids t" "e \<noteq> 0"
    "tb_alloc_cnt t4 = tb_alloc_cnt t + 1" "tb_top_idx t4 = tb_top_idx t" "tb_bottom_idx t4 = tb_bottom_idx t"
    "tb_free_list t \<noteq> 0 \<Longrightarrow> e = hd xs \<and> ys = tl xs"
    "tb_free_list t = 0 \<Longrightarrow> e = (if tb_page_cnt t = 0 then 1 else of_nat (tb_cap t))"
proof -
  let ?t1 = "t\<lparr>tb_alloc_cnt := tb_alloc_cnt t + 1\<rparr>"
  have b: "tb_base ?t1 xs" "tb_shape t" using assms(1) by (simp_all add: tb_base_def [of t])
  have head: "tb_free_list t = 0 \<longleftrightarrow> xs = []"
    using assms(1) free_dll_null by (auto simp: tb_base_def tb_free_def)
  have ex: "\<exists>t2 e ys. (if tb_free_list ?t1 = 0 then tb_newPage ?t1 else Some ?t1) = Some t2 \<and>
      tb_base t2 (e # ys) \<and> tb_getPtr t2 = tb_getPtr t \<and> tb_alloc_cnt t2 = tb_alloc_cnt t + 1 \<and>
      tb_top_idx t2 = tb_top_idx t \<and> tb_bottom_idx t2 = tb_bottom_idx t \<and>
      (tb_free_list t \<noteq> 0 \<longrightarrow> e = hd xs \<and> ys = tl xs) \<and>
      (tb_free_list t = 0 \<longrightarrow> e = (if tb_page_cnt t = 0 then 1 else of_nat (tb_cap t)))"
  proof (cases xs)
    case (Cons e ys)
    with head b show ?thesis by (intro exI [of _ ?t1] exI [of _ e] exI [of _ ys]) simp
  next
    case Nil
    with head assms(2) have cap: "tb_cap ?t1 + tb_pow ?t1 \<le> 2147483648"
      by (simp add: tb_room_def tb_cap_def tb_pow_def)
    obtain t2 where t2: "tb_newPage ?t1 = Some t2" "tb_getPtr t2 = tb_getPtr ?t1" "tb_frame (tb_grown ?t1) t2"
      "tb_base t2 (map (\<lambda>j. of_nat (tb_cap ?t1 + j)) [(if tb_page_cnt ?t1 = 0 then 1 else 0)..<tb_pow ?t1])"
      using tb_newPage_ok [OF b(1) [unfolded Nil] cap] by blast
    have "2 ^ 1 \<le> tb_pow t" unfolding tb_pow_def using tb_shapeD(2) [OF b(2)] by (intro power_increasing) auto
    then have "[(if tb_page_cnt t = 0 then 1 else 0)..<tb_pow t] =
        (if tb_page_cnt t = 0 then 1 else 0) # [(if tb_page_cnt t = 0 then 2 else 1)..<tb_pow t]"
      by (simp add: upt_conv_Cons numeral_2_eq_2)
    then obtain ys where ys: "map (\<lambda>j. of_nat (tb_cap ?t1 + j)) [(if tb_page_cnt ?t1 = 0 then 1 else 0)..<tb_pow ?t1]
       = (if tb_page_cnt t = 0 then 1 else of_nat (tb_cap t) :: u32) # ys"
      by (simp add: tb_cap_def tb_pow_def)
    show ?thesis
      using t2 head Nil unfolding ys
      by (intro exI [of _ t2] exI [of _ "if tb_page_cnt t = 0 then 1 else of_nat (tb_cap t)"] exI [of _ ys])
        (simp add: tb_frame_def)
  qed
  then obtain t2 e ys where t2:
    "(if tb_free_list ?t1 = 0 then tb_newPage ?t1 else Some ?t1) = Some t2"
    "tb_base t2 (e # ys)" "tb_getPtr t2 = tb_getPtr t" "tb_alloc_cnt t2 = tb_alloc_cnt t + 1"
    "tb_top_idx t2 = tb_top_idx t" "tb_bottom_idx t2 = tb_bottom_idx t"
    "tb_free_list t \<noteq> 0 \<longrightarrow> e = hd xs \<and> ys = tl xs"
    "tb_free_list t = 0 \<longrightarrow> e = (if tb_page_cnt t = 0 then 1 else of_nat (tb_cap t))"
    by blast
  obtain t3 where t3: "tb_popQ t2 = Some (e, t3)"
    "tb_base (tb_count (\<lambda>c. c + 1) e (tb_put e (AllocSlot x) t3)) ys"
    "tb_getPtr (tb_count (\<lambda>c. c + 1) e (tb_put e (AllocSlot x) t3)) = (tb_getPtr t2)(e \<mapsto> x)"
    "tb_frame t2 t3" "e \<notin> tb_ids t2" "e \<noteq> 0" "unat e < tb_cap t2"
    using tb_create_step [OF t2(2)] by blast
  let ?t4 = "tb_count (\<lambda>c. c + 1) e (tb_put e (AllocSlot x) t3)"
  have fr: "tb_frame t2 (tb_put e (AllocSlot x) t3)" using t3(4) tb_frame_put tb_frame_trans by blast
  have sh4: "tb_shape ?t4" using t3(2) by (simp add: tb_base_def)
  have oid: "tb_getOID ?t4 e = e"
    using tb_getOID_id(1) [OF sh4] t3(7) tb_frame_pow [OF fr] by simp
  have fields: "tb_alloc_cnt ?t4 = tb_alloc_cnt t + 1" "tb_top_idx ?t4 = tb_top_idx t"
    "tb_bottom_idx ?t4 = tb_bottom_idx t"
    using fr t2 by (simp_all add: tb_frame_def)
  show ?thesis
  proof (rule that)
    show "tb_create x t = Some (e,
       (let t5 = (if e > tb_top_idx t then ?t4\<lparr>tb_top_idx := e\<rparr> else ?t4)
        in if tb_bottom_idx t = 0 \<or> e < tb_bottom_idx t then t5\<lparr>tb_bottom_idx := e\<rparr> else t5))"
      unfolding tb_create_def Let_def t2(1) t3(1) bind.bind_lunit prod.case oid
      by (simp add: fields [simplified])
    show "tb_base ?t4 ys" by (rule t3(2))
  qed (use t2(3,7,8) t3(3,5,6) fields in simp_all)
qed

lemma Min_Max_insert:
  fixes A :: "u32 set"
  assumes "A \<noteq> {}"
  shows "Min (insert e A) = (if e < Min A then e else Min A)"
    "Max (insert e A) = (if Max A < e then e else Max A)"
  unfolding Min_insert [OF finite_u32 assms] Max_insert [OF finite_u32 assms] min_def max_def
  by (meson order_le_less linorder_not_le)+

theorem tb_create_adds:
  assumes "tb_ok t" "tb_room t"
  shows "\<exists>e t'. tb_create x t = Some (e, t') \<and> tb_ok t' \<and> tb_getPtr t e = None \<and> e \<noteq> 0 \<and>
    tb_getPtr t' = (tb_getPtr t)(e \<mapsto> x)"
proof -
  obtain xs where b: "tb_base t xs" "tb_shape t" "unat (tb_alloc_cnt t) = card (tb_ids t)"
    using tb_okD [OF assms(1)] .
  have bounds: "tb_bottom_idx t = (if tb_ids t = {} then 0 else Min (tb_ids t))"
    "tb_top_idx t = (if tb_ids t = {} then 0 else Max (tb_ids t))"
    using assms(1) by (simp_all add: tb_ok_def)
  obtain e t4 ys where c:
    "tb_create x t = Some (e,
       (let t5 = (if e > tb_top_idx t then t4\<lparr>tb_top_idx := e\<rparr> else t4)
        in if tb_bottom_idx t = 0 \<or> e < tb_bottom_idx t then t5\<lparr>tb_bottom_idx := e\<rparr> else t5))"
    "tb_base t4 ys" "tb_getPtr t4 = (tb_getPtr t)(e \<mapsto> x)" "e \<notin> tb_ids t" "e \<noteq> 0"
    "tb_alloc_cnt t4 = tb_alloc_cnt t + 1" "tb_top_idx t4 = tb_top_idx t" "tb_bottom_idx t4 = tb_bottom_idx t"
    using tb_create_base [OF b(1) assms(2)] by metis
  let ?t' = "let t5 = (if e > tb_top_idx t then t4\<lparr>tb_top_idx := e\<rparr> else t4)
        in if tb_bottom_idx t = 0 \<or> e < tb_bottom_idx t then t5\<lparr>tb_bottom_idx := e\<rparr> else t5"
  have get: "tb_getPtr ?t' = (tb_getPtr t)(e \<mapsto> x)" using c(3) by (simp add: Let_def)
  then have ids: "tb_ids ?t' = insert e (tb_ids t)" by simp
  have base: "tb_base ?t' ys" using c(2) by (simp add: Let_def)
  have cnt: "card (tb_ids t) + 1 < 2 ^ 32"
    using tb_ids_card [OF b(1)] tb_shapeD(4) [OF b(2)] by fastforce
  have "unat (tb_alloc_cnt ?t') = card (tb_ids ?t')"
  proof -
    have "unat (tb_alloc_cnt t + 1) = card (tb_ids t) + 1"
      using unat_add_lem [of "tb_alloc_cnt t" 1] cnt b(3) by simp
    with c(4,6) show ?thesis unfolding ids by (simp add: Let_def)
  qed
  moreover have "tb_bottom_idx ?t' = Min (tb_ids ?t') \<and> tb_top_idx ?t' = Max (tb_ids ?t')"
  proof (cases "tb_ids t = {}")
    case True
    with bounds c(5) show ?thesis unfolding ids by (simp add: Let_def word_gt_0)
  next
    case False
    then have "Min (tb_ids t) \<noteq> 0" using tb_ids_less [OF b(2)] Min_in [of "tb_ids t"] by auto
    with False bounds c(7,8) show ?thesis
      unfolding ids Min_Max_insert [OF False] by (simp add: Let_def del: Min_gr_iff Max_less_iff)
  qed
  ultimately have "tb_ok ?t'" using base unfolding tb_ok_def ids by auto
  with c(1,4,5) get show ?thesis by (intro exI conjI) auto
qed

section \<open>Searches\<close>

lemma find_upt_Some:
  "find P [a..<b] = Some j \<longleftrightarrow> a \<le> j \<and> j < b \<and> P j \<and> (\<forall>k. a \<le> k \<and> k < j \<longrightarrow> \<not> P k)"
proof
  assume "find P [a..<b] = Some j"
  then obtain i where i: "i < b - a" "P (a + i)" "j = a + i" "\<And>k. k < i \<Longrightarrow> \<not> P (a + k)"
    by (auto simp: find_Some_iff)
  have "\<not> P k" if "a \<le> k" "k < j" for k
    using i(4) [of "k - a"] that i(3) by simp
  with i show "a \<le> j \<and> j < b \<and> P j \<and> (\<forall>k. a \<le> k \<and> k < j \<longrightarrow> \<not> P k)" by auto
next
  assume "a \<le> j \<and> j < b \<and> P j \<and> (\<forall>k. a \<le> k \<and> k < j \<longrightarrow> \<not> P k)"
  then show "find P [a..<b] = Some j"
    unfolding find_Some_iff by (intro exI [of _ "j - a"]) auto
qed

lemma find_rev_upt_Some:
  "find P (rev [a..<b]) = Some j \<longleftrightarrow> a \<le> j \<and> j < b \<and> P j \<and> (\<forall>k. j < k \<and> k < b \<longrightarrow> \<not> P k)"
proof
  assume "find P (rev [a..<b]) = Some j"
  then obtain i where i: "i < b - a" "P (b - Suc i)" "j = b - Suc i" "\<And>k. k < i \<Longrightarrow> \<not> P (b - Suc k)"
    by (auto simp: find_Some_iff rev_nth)
  have "\<not> P k" if "j < k" "k < b" for k
    using i(4) [of "b - Suc k"] that i(1,3) by simp
  with i show "a \<le> j \<and> j < b \<and> P j \<and> (\<forall>k. j < k \<and> k < b \<longrightarrow> \<not> P k)" by auto
next
  assume "a \<le> j \<and> j < b \<and> P j \<and> (\<forall>k. j < k \<and> k < b \<longrightarrow> \<not> P k)"
  then show "find P (rev [a..<b]) = Some j"
    unfolding find_Some_iff by (intro exI [of _ "b - Suc j"]) (auto simp: rev_nth)
qed

lemma flat_le:
  assumes "j < n" "k < n"
  shows "p * n + j \<le> q * n + k \<longleftrightarrow> p < q \<or> p = q \<and> j \<le> (k :: nat)"
proof (cases p q rule: linorder_cases)
  case less
  then have "(p + 1) * n \<le> q * n" by (intro mult_right_mono) auto
  with less assms show ?thesis by simp
next
  case greater
  then have "(q + 1) * n \<le> p * n" by (intro mult_right_mono) auto
  with greater assms show ?thesis by simp
qed simp

text \<open>The page and offset of an object, and the order of the ids as pages and offsets.\<close>

lemma tb_id_split:
  assumes "tb_base t xs" "i \<in> tb_ids t"
  shows "tb_page_of t i < unat (tb_page_cnt t)" "tb_offset_of t i < tb_pow t"
    "tb_id t (tb_page_of t i) (tb_offset_of t i) = i" "tb_alloc_at t (tb_page_of t i) (tb_offset_of t i)"
    "valid_page (tb_page t (tb_page_of t i))"
proof -
  have sh: "tb_shape t" using assms(1) by (simp add: tb_base_def)
  have less: "unat i < tb_cap t" using tb_ids_less [OF sh assms(2)] by simp
  show p: "tb_page_of t i < unat (tb_page_cnt t)" and j: "tb_offset_of t i < tb_pow t"
    using less by (simp_all add: tb_page_offset [OF sh] div_tb_pow_less)
  show eq: "tb_id t (tb_page_of t i) (tb_offset_of t i) = i"
    using tb_id_inj [OF sh p j less] by (simp add: tb_page_offset [OF sh])
  show "tb_alloc_at t (tb_page_of t i) (tb_offset_of t i)"
    using tb_alloc_at_ids [OF assms(1) p j] eq assms(2) by simp
  show "valid_page (tb_page t (tb_page_of t i))"
    using tb_valid_page [OF assms(1) p] eq assms(2) j by metis
qed

lemma tb_id_le:
  assumes "tb_shape t" "p < unat (tb_page_cnt t)" "j < tb_pow t" "q < unat (tb_page_cnt t)" "k < tb_pow t"
  shows "tb_id t p j \<le> tb_id t q k \<longleftrightarrow> p < q \<or> p = q \<and> j \<le> k"
  unfolding word_le_nat_alt unat_tb_id [OF assms(1-3)] unat_tb_id [OF assms(1,4,5)]
  by (rule flat_le [OF assms(3,5)])

text \<open>\<open>m\<close> is the least object at or after page \<open>p\<close>, offset \<open>j\<close>.\<close>

definition tb_first :: "'a dbtable \<Rightarrow> nat \<Rightarrow> nat \<Rightarrow> u32 \<Rightarrow> bool" where
  "tb_first t p j m \<longleftrightarrow> m \<in> tb_ids t \<and>
     (p < tb_page_of t m \<or> p = tb_page_of t m \<and> j \<le> tb_offset_of t m) \<and>
     (\<forall>i \<in> tb_ids t. p < tb_page_of t i \<or> p = tb_page_of t i \<and> j \<le> tb_offset_of t i \<longrightarrow> m \<le> i)"

lemma tb_first_page:
  assumes "tb_base t xs" "tb_first t p j m"
  shows "tb_page_of t m = p \<Longrightarrow> find (tb_alloc_at t p) [j..<tb_pow t] = Some (tb_offset_of t m)"
    "tb_page_of t m \<noteq> p \<Longrightarrow> find (tb_alloc_at t p) [j..<tb_pow t] = None"
    "tb_page_of t m \<noteq> p \<Longrightarrow>
       find (\<lambda>p. valid_page (tb_page t p)) [p + 1..<unat (tb_page_cnt t)] = Some (tb_page_of t m)"
    "tb_page_of t m \<noteq> p \<Longrightarrow> tb_first t (tb_page_of t m) 0 m"
proof -
  have sh: "tb_shape t" using assms(1) by (simp add: tb_base_def)
  have m: "m \<in> tb_ids t" "p < tb_page_of t m \<or> p = tb_page_of t m \<and> j \<le> tb_offset_of t m"
    "\<And>i. i \<in> tb_ids t \<Longrightarrow> p < tb_page_of t i \<or> p = tb_page_of t i \<and> j \<le> tb_offset_of t i \<Longrightarrow> m \<le> i"
    using assms(2) by (auto simp: tb_first_def)
  note sm = tb_id_split [OF assms(1) m(1)]
  have le: "tb_page_of t m < q \<or> tb_page_of t m = q \<and> tb_offset_of t m \<le> k"
    if "q < unat (tb_page_cnt t)" "k < tb_pow t" "tb_id t q k \<in> tb_ids t" "p < q \<or> p = q \<and> j \<le> k" for q k
  proof -
    have "tb_id t (tb_page_of t m) (tb_offset_of t m) \<le> tb_id t q k"
      using m(3) [OF that(3)] that(4) sm(3) tb_id_page_offset [OF sh that(1,2)] by simp
    then show ?thesis using tb_id_le [OF sh sm(1,2) that(1,2)] by blast
  qed
  have alloc: "tb_alloc_at t q k \<longleftrightarrow> tb_id t q k \<in> tb_ids t" if "q < unat (tb_page_cnt t)" "k < tb_pow t" for q k
    by (rule tb_alloc_at_ids [OF assms(1) that])
  show "find (tb_alloc_at t p) [j..<tb_pow t] = Some (tb_offset_of t m)" if eq: "tb_page_of t m = p"
  proof -
    have "\<not> tb_alloc_at t p k" if k: "j \<le> k" "k < tb_offset_of t m" for k
      using le [of p k] alloc [of p k] k sm(1,2) eq by auto
    then show ?thesis unfolding find_upt_Some using m(2) sm eq by auto
  qed
  assume ne: "tb_page_of t m \<noteq> p"
  then have lt: "p < tb_page_of t m" using m(2) by simp
  show "find (tb_alloc_at t p) [j..<tb_pow t] = None"
    unfolding find_None_iff using le [of p] alloc [of p] lt sm(1) by fastforce
  have "\<not> valid_page (tb_page t q)" if q: "p < q" "q < tb_page_of t m" for q
  proof -
    have less: "q < unat (tb_page_cnt t)" using q sm(1) by simp
    with le [of q] q show ?thesis unfolding tb_valid_page [OF assms(1) less] by fastforce
  qed
  then show "find (\<lambda>p. valid_page (tb_page t p)) [p + 1..<unat (tb_page_cnt t)] = Some (tb_page_of t m)"
    unfolding find_upt_Some using lt sm by auto
  show "tb_first t (tb_page_of t m) 0 m" using m lt by (auto simp: tb_first_def)
qed

lemma tb_findBottom_min:
  assumes "tb_base t xs" "unat (tb_alloc_cnt t) = card (tb_ids t)" "unat (tb_bottom_idx t) < tb_cap t"
    "\<And>i. i \<in> tb_ids t \<Longrightarrow> tb_bottom_idx t < i"
  shows "tb_findBottom t = Some (t\<lparr>tb_bottom_idx := if tb_ids t = {} then 0 else Min (tb_ids t)\<rparr>)"
proof (cases "tb_ids t = {}")
  case True
  with assms(2) show ?thesis by (simp add: tb_findBottom_def unat_eq_zero)
next
  case False
  have sh: "tb_shape t" using assms(1) by (simp add: tb_base_def)
  let ?m = "Min (tb_ids t)" and ?p = "tb_page_of t (tb_bottom_idx t)" and ?j = "tb_offset_of t (tb_bottom_idx t)"
  have m: "?m \<in> tb_ids t" using False by simp
  note sm = tb_id_split [OF assms(1) m]
  have p: "?p < unat (tb_page_cnt t)" and j: "?j < tb_pow t"
    using assms(3) by (simp_all add: tb_page_offset [OF sh] div_tb_pow_less)
  have b: "tb_id t ?p ?j = tb_bottom_idx t"
    using tb_id_inj [OF sh p j assms(3)] by (simp add: tb_page_offset [OF sh])
  have after: "?p < tb_page_of t i \<or> ?p = tb_page_of t i \<and> ?j + 1 \<le> tb_offset_of t i" if "i \<in> tb_ids t" for i
  proof -
    note si = tb_id_split [OF assms(1) that]
    have "\<not> i \<le> tb_bottom_idx t" using assms(4) [OF that] by simp
    then have "\<not> (tb_page_of t i < ?p \<or> tb_page_of t i = ?p \<and> tb_offset_of t i \<le> ?j)"
      using tb_id_le [OF sh si(1,2) p j] si(3) b by simp
    then show ?thesis by auto
  qed
  have first: "tb_first t ?p (?j + 1) ?m" using m after by (simp add: tb_first_def)
  have ne: "tb_alloc_cnt t \<noteq> 0"
  proof
    assume "tb_alloc_cnt t = 0"
    with assms(2) False show False by simp
  qed
  show ?thesis
  proof (cases "tb_page_of t ?m = ?p")
    case True
    with sm(5) tb_first_page(1) [OF assms(1) first True] ne False show ?thesis
      by (simp add: tb_findBottom_def Let_def tb_pageSize_pow [OF sh] sm(3) [unfolded True])
  next
    case neq: False
    have "\<not> valid_page (tb_page t ?p)"
    proof
      assume "valid_page (tb_page t ?p)"
      then obtain k where k: "k < tb_pow t" "tb_id t ?p k \<in> tb_ids t"
        unfolding tb_valid_page [OF assms(1) p] by blast
      with after [OF k(2)] have "tb_alloc_at t ?p k" "?j + 1 \<le> k"
        using tb_alloc_at_ids [OF assms(1) p k(1)] tb_id_page_offset [OF sh p k(1)] by auto
      with tb_first_page(2) [OF assms(1) first neq] k(1) show False by (auto simp: find_None_iff)
    qed
    with tb_first_page(3,4) [OF assms(1) first neq] ne False show ?thesis
      using tb_first_page(1) [OF assms(1) tb_first_page(4) [OF assms(1) first neq] refl]
      by (simp add: tb_findBottom_def Let_def tb_pageSize_pow [OF sh] sm(3))
  qed
qed

text \<open>The search downwards: its first read is below the released slot, never below the page.\<close>

lemma tb_findTop_max:
  assumes "tb_base t xs" "unat (tb_alloc_cnt t) = card (tb_ids t)" "unat (tb_top_idx t) < tb_cap t"
    "\<And>i. i \<in> tb_ids t \<Longrightarrow> i < tb_top_idx t"
  shows "tb_findTop t = Some (t\<lparr>tb_top_idx := if tb_ids t = {} then 0 else Max (tb_ids t)\<rparr>)"
proof (cases "tb_ids t = {}")
  case True
  with assms(2) show ?thesis by (simp add: tb_findTop_def unat_eq_zero)
next
  case False
  have sh: "tb_shape t" using assms(1) by (simp add: tb_base_def)
  let ?m = "Max (tb_ids t)" and ?p = "tb_page_of t (tb_top_idx t)" and ?j = "tb_offset_of t (tb_top_idx t)"
  have m: "?m \<in> tb_ids t" using False by simp
  note sm = tb_id_split [OF assms(1) m]
  have p: "?p < unat (tb_page_cnt t)" and j: "?j < tb_pow t"
    using assms(3) by (simp_all add: tb_page_offset [OF sh] div_tb_pow_less)
  have b: "tb_id t ?p ?j = tb_top_idx t"
    using tb_id_inj [OF sh p j assms(3)] by (simp add: tb_page_offset [OF sh])
  have before: "tb_page_of t i < ?p \<or> tb_page_of t i = ?p \<and> tb_offset_of t i < ?j" if "i \<in> tb_ids t" for i
  proof -
    note si = tb_id_split [OF assms(1) that]
    have "\<not> tb_top_idx t \<le> i" using assms(4) [OF that] by simp
    then have "\<not> (?p < tb_page_of t i \<or> ?p = tb_page_of t i \<and> ?j \<le> tb_offset_of t i)"
      using tb_id_le [OF sh p j si(1,2)] si(3) b by simp
    then show ?thesis by auto
  qed
  have le: "q < tb_page_of t ?m \<or> q = tb_page_of t ?m \<and> k \<le> tb_offset_of t ?m"
    if "q < unat (tb_page_cnt t)" "k < tb_pow t" "tb_id t q k \<in> tb_ids t" for q k
    using tb_id_le [OF sh that(1,2) sm(1,2)] sm(3) that(3) by simp
  have alloc: "tb_alloc_at t q k \<longleftrightarrow> tb_id t q k \<in> tb_ids t" if "q < unat (tb_page_cnt t)" "k < tb_pow t" for q k
    by (rule tb_alloc_at_ids [OF assms(1) that])
  have invalid: "\<not> valid_page (tb_page t q)" if "tb_page_of t ?m < q" "q < unat (tb_page_cnt t)" for q
    unfolding tb_valid_page [OF assms(1) that(2)] using le [of q] that by fastforce
  have last: "find (tb_alloc_at t (tb_page_of t ?m)) (rev [0..<n]) = Some (tb_offset_of t ?m)"
    if "tb_offset_of t ?m < n" "n \<le> tb_pow t" for n
  proof -
    have "\<not> tb_alloc_at t (tb_page_of t ?m) k" if "tb_offset_of t ?m < k" "k < n" for k
      using le [OF sm(1), of k] alloc [OF sm(1), of k] that \<open>n \<le> _\<close> by auto
    with that sm(4) show ?thesis unfolding find_rev_upt_Some by auto
  qed
  have ne: "tb_alloc_cnt t \<noteq> 0"
  proof
    assume "tb_alloc_cnt t = 0"
    with assms(2) False show False by simp
  qed
  show ?thesis
  proof (cases "tb_page_of t ?m = ?p")
    case True
    with before [OF m] have "tb_offset_of t ?m < ?j" by simp
    with last [of ?j] j sm(5) ne False show ?thesis
      by (simp add: tb_findTop_def Let_def True sm(3) [unfolded True])
  next
    case neq: False
    with before [OF m] have lt: "tb_page_of t ?m < ?p" by simp
    have "find (\<lambda>p. valid_page (tb_page t p)) (rev [0..<?p]) = Some (tb_page_of t ?m)"
      unfolding find_rev_upt_Some using invalid lt sm(5) p by auto
    with invalid [OF lt p] last [of "tb_pow t"] sm(2) ne False show ?thesis
      by (simp add: tb_findTop_def Let_def tb_pageSize_pow [OF sh] sm(3))
  qed
qed

section \<open>destroy\<close>

lemma tb_destroy_step:
  assumes "tb_base t xs" "i \<in> tb_ids t"
  obtains t3 where "tb_pushQ i (tb_count (\<lambda>c. c - 1) i t) = Some t3" "tb_base t3 (i # xs)"
    "tb_getPtr t3 = (tb_getPtr t)(i := None)" "tb_frame (tb_count (\<lambda>c. c - 1) i t) t3"
proof -
  let ?u = "tb_count (\<lambda>c. c - 1) i t"
  have b: "tb_shape t" "tb_counts t" "tb_slot t 0 \<noteq> Some (AllocSlot y)" "tb_free t xs"
    "set xs = {i. i \<noteq> 0 \<and> (\<exists>nx pv. tb_slot t i = Some (FreeSlot nx pv))}" for y
    using assms(1) by (simp_all only: tb_base_def simp_thms)
  note shu = tb_count_shape [OF b(1)]
  have su: "tb_slot ?u = tb_slot t" by (rule tb_count_slot [OF b(1)])
  obtain y where y: "i \<noteq> 0" "tb_slot t i = Some (AllocSlot y)" using assms(2) by (auto simp: tb_getPtr_Some)
  then have new: "i \<notin> set xs" by (simp add: b(5))
  have fu: "tb_free ?u xs" using b(4) by (simp add: tb_free_def su)
  have "tb_slot ?u i \<noteq> None" using y by (simp add: su)
  obtain t3 where t3: "tb_pushQ i ?u = Some t3" "tb_frame ?u t3"
    "tb_free t3 (i # xs)" "tb_free_list t3 = i" "\<And>k. k \<notin> set (i # xs) \<Longrightarrow> tb_slot t3 k = tb_slot ?u k"
    using tb_pushQ_ok [OF shu fu \<open>tb_slot ?u i \<noteq> None\<close> y(1) new] by blast
  note t3 = t3(1,2,3,5) [unfolded su]
  have free: "\<exists>nx pv. tb_slot t3 k = Some (FreeSlot nx pv)" if "k \<in> set (i # xs)" for k
    using free_dll_free [of "tb_slot t3" 0 "tb_free_list t3" "i # xs" k] t3(3) that by (simp add: tb_free_def)
  have get: "tb_getPtr t3 = (tb_getPtr t)(i := None)"
  proof
    fix k show "tb_getPtr t3 k = ((tb_getPtr t)(i := None)) k"
    proof (cases "k \<in> set (i # xs)")
      case True
      then obtain nx pv where "tb_slot t3 k = Some (FreeSlot nx pv)" using free by blast
      moreover have "k \<noteq> i \<Longrightarrow> \<exists>nx pv. tb_slot t k = Some (FreeSlot nx pv)"
        using True unfolding set_simps(2) b(5) by blast
      ultimately show ?thesis by (auto simp: tb_getPtr_def)
    next
      case False
      then show ?thesis using t3(4) [OF False] by (simp add: tb_getPtr_def)
    qed
  qed
  have eq: "k \<in> set (i # xs) \<longleftrightarrow> k \<noteq> 0 \<and> (\<exists>nx pv. tb_slot t3 k = Some (FreeSlot nx pv))" for k
  proof (cases "k \<in> set (i # xs)")
    case True
    moreover have "k \<noteq> 0" using y(1) b(5) True by auto
    ultimately show ?thesis using free [of k] by blast
  next
    case False
    with t3(4) [of k] b(5) show ?thesis by auto
  qed
  have "tb_counts t3"
    by (rule tb_counts_remove [OF b(1,2) assms(2) t3(2)]) (simp add: get)
  moreover have "tb_slot t3 0 \<noteq> Some (AllocSlot z)" for z
    using t3(4) [of 0] b(3,5) y(1) by simp
  moreover have "set (i # xs) = {k. k \<noteq> 0 \<and> (\<exists>nx pv. tb_slot t3 k = Some (FreeSlot nx pv))}" using eq by blast
  ultimately have "tb_base t3 (i # xs)"
    using tb_frame_shape [OF shu t3(2)] t3(3) by (simp only: tb_base_def simp_thms)
  with t3 get show ?thesis using that by blast
qed

lemma Min_remove_other:
  fixes A :: "u32 set"
  assumes "i \<in> A" "i \<noteq> Min A" shows "Min (A - {i}) = Min A"
proof (rule Min_eqI)
  have "A \<noteq> {}" using assms(1) by auto
  with assms show "Min A \<in> A - {i}" using Min_in [of A] by simp
qed auto

lemma Max_remove_other:
  fixes A :: "u32 set"
  assumes "i \<in> A" "i \<noteq> Max A" shows "Max (A - {i}) = Max A"
proof (rule Max_eqI)
  have "A \<noteq> {}" using assms(1) by auto
  with assms show "Max A \<in> A - {i}" using Max_in [of A] by simp
qed auto

text \<open>The two bounds after a release.\<close>

lemma tb_bottom_after:
  assumes "tb_base t xs" "unat (tb_alloc_cnt t) = card (tb_ids t)" "tb_ids t = D - {i}" "i \<in> D"
    "tb_bottom_idx t = Min D" "unat i < tb_cap t"
  shows "(if i = tb_bottom_idx t then tb_findBottom t else Some t) =
    Some (t\<lparr>tb_bottom_idx := if D - {i} = {} then 0 else Min (D - {i})\<rparr>)"
proof (cases "i = tb_bottom_idx t")
  case True
  have "tb_bottom_idx t < k" if "k \<in> tb_ids t" for k
    using that True assms(3,5) Min_le [of D k] by (auto simp: less_le)
  from tb_findBottom_min [OF assms(1,2) _ this] True assms(3,6) show ?thesis by simp
next
  case False
  with assms(4,5) have ne: "D - {i} \<noteq> {}" by (metis Diff_eq_empty_iff Min_singleton subset_singletonD empty_iff)
  from Min_remove_other [OF assms(4)] False assms(5) have "Min (D - {i}) = tb_bottom_idx t" by simp
  with ne False show ?thesis by simp
qed

lemma tb_top_after:
  assumes "tb_base t xs" "unat (tb_alloc_cnt t) = card (tb_ids t)" "tb_ids t = D - {i}" "i \<in> D"
    "tb_top_idx t = Max D" "unat i < tb_cap t"
  shows "(if i = tb_top_idx t then tb_findTop t else Some t) =
    Some (t\<lparr>tb_top_idx := if D - {i} = {} then 0 else Max (D - {i})\<rparr>)"
proof (cases "i = tb_top_idx t")
  case True
  have "k < tb_top_idx t" if "k \<in> tb_ids t" for k
    using that True assms(3,5) Max_ge [of D k] by (auto simp: less_le)
  from tb_findTop_max [OF assms(1,2) _ this] True assms(3,6) show ?thesis by simp
next
  case False
  with assms(4,5) have ne: "D - {i} \<noteq> {}" by (metis Diff_eq_empty_iff Max_singleton subset_singletonD empty_iff)
  from Max_remove_other [OF assms(4)] False assms(5) have "Max (D - {i}) = tb_top_idx t" by simp
  with ne False show ?thesis by simp
qed

lemma tb_destroy_removes:
  assumes "tb_ok t" "i \<in> tb_ids t"
  shows "\<exists>t'. tb_destroy i t = Some t' \<and> tb_ok t' \<and> tb_getPtr t' = (tb_getPtr t)(i := None) \<and>
    tb_free_list t' = i"
proof -
  let ?D = "tb_ids t" and ?t1 = "t\<lparr>tb_alloc_cnt := tb_alloc_cnt t - 1\<rparr>"
  let ?u = "tb_count (\<lambda>c. c - 1) i ?t1"
  obtain xs where b: "tb_base t xs" "tb_shape t" "unat (tb_alloc_cnt t) = card ?D"
    using tb_okD [OF assms(1)] .
  have bounds: "tb_bottom_idx t = Min ?D" "tb_top_idx t = Max ?D"
    using assms by (auto simp: tb_ok_def)
  have b1: "tb_base ?t1 xs" using b(1) by simp
  then have sh1: "tb_shape ?t1" unfolding tb_base_def [of ?t1] by blast
  have i1: "i \<in> tb_ids ?t1" using assms(2) by simp
  obtain t3 where t3: "tb_pushQ i ?u = Some t3" "tb_base t3 (i # xs)"
    "tb_getPtr t3 = (tb_getPtr ?t1)(i := None)" "tb_frame ?u t3"
    by (rule tb_destroy_step [OF b1 i1])
  have i: "i \<noteq> 0" "unat i < tb_cap t" using tb_ids_less [OF b(2) assms(2)] by simp_all
  have cap3: "tb_cap t3 = tb_cap t" using t3(4) by (simp add: tb_cap_def tb_pow_def tb_frame_def)
  have ids3: "tb_ids t3 = ?D - {i}" unfolding t3(3) by auto
  have fields: "tb_alloc_cnt t3 = tb_alloc_cnt t - 1" "tb_bottom_idx t3 = Min ?D" "tb_top_idx t3 = Max ?D"
    using t3(4) bounds by (simp_all add: tb_frame_def)
  have "0 < card ?D" using assms(2) by (auto simp: card_gt_0_iff)
  then have "1 \<le> unat (tb_alloc_cnt t)" using b(3) by simp
  then have "unat (tb_alloc_cnt t - 1) = card ?D - 1"
    using unat_sub [of 1 "tb_alloc_cnt t"] b(3) by (simp add: word_le_nat_alt)
  then have cnt: "unat (tb_alloc_cnt t3) = card (tb_ids t3)"
    using assms(2) unfolding fields(1) ids3 by simp
  let ?bot = "if ?D - {i} = {} then 0 else Min (?D - {i})" and ?top = "if ?D - {i} = {} then 0 else Max (?D - {i})"
  let ?t4 = "t3\<lparr>tb_bottom_idx := ?bot\<rparr>" let ?t5 = "?t4\<lparr>tb_top_idx := ?top\<rparr>"
  have s4: "(if i = tb_bottom_idx t3 then tb_findBottom t3 else Some t3) = Some ?t4"
    by (rule tb_bottom_after [OF t3(2) cnt ids3 assms(2) fields(2)]) (simp add: cap3 i)
  have b4: "tb_base ?t4 (i # xs)" using t3(2) by (simp del: if_cancel)
  have "tb_cap ?t4 = tb_cap t" using cap3 by (simp add: tb_cap_def tb_pow_def)
  then have s5: "(if i = tb_top_idx ?t4 then tb_findTop ?t4 else Some ?t4) = Some ?t5"
    using cnt ids3 fields(3) i(2) by (intro tb_top_after [OF b4 _ _ assms(2)]) simp_all
  have oid: "page_addr (tb_page ?u (tb_page_of ?u i)) + of_nat (tb_offset_of ?u i) = i"
    using tb_getOID_id(2) [OF tb_count_shape [OF sh1], of i] i(2) by (simp add: tb_cap_def tb_pow_def)
  have "tb_validId ?t1 i" using i1 tb_validId_dom by blast
  then have "tb_destroy i t = Some ?t5"
    unfolding tb_destroy_def Let_def oid using t3(1) s4 s5 by (simp only: bind.bind_lunit if_False simp_thms)
  moreover have "tb_getPtr ?t5 = (tb_getPtr t)(i := None)" using t3(3) by simp
  moreover have "tb_ok ?t5"
  proof -
    have base5: "tb_base ?t5 (i # xs)" using t3(2) by (simp only: tb_base_fields)
    have ids5: "tb_ids ?t5 = ?D - {i}" using ids3 by (simp only: tb_getPtr_fields)
    have "unat (tb_alloc_cnt ?t5) = card (?D - {i})" using cnt ids3 by simp
    then show ?thesis unfolding tb_ok_def ids5 using base5
      by (intro conjI exI [of _ "i # xs"]) (simp_all del: Diff_eq_empty_iff)
  qed
  moreover have "tb_free_list ?t5 = i"
    using t3(2) by (simp add: tb_base_def tb_free_def)
  ultimately show ?thesis by blast
qed

section \<open>Iteration\<close>

lemma tb_next_obj_first:
  assumes "tb_base t xs" "tb_first t p j m" "m \<le> tb_top_idx t"
  shows "tb_next_obj t p j = Some m"
proof -
  have sh: "tb_shape t" and m: "m \<in> tb_ids t" using assms(1,2) by (simp_all add: tb_base_def tb_first_def)
  note sm = tb_id_split [OF assms(1) m] and ps = tb_pageSize_pow [OF sh]
  have here: "tb_next_obj t (tb_page_of t m) k = Some m" if "tb_first t (tb_page_of t m) k m" for k
    using tb_first_page(1) [OF assms(1) that refl] assms(3) sm(3) by (subst tb_next_obj.simps) (simp add: ps)
  show ?thesis
  proof (cases "tb_page_of t m = p")
    case True
    with here assms(2) show ?thesis by blast
  next
    case False
    show ?thesis
      using tb_first_page(2,3) [OF assms(1,2) False] here [OF tb_first_page(4) [OF assms(1,2) False]]
      by (subst tb_next_obj.simps) (simp add: ps)
  qed
qed

lemma tb_next_above:
  assumes "tb_ok t" "i \<in> tb_ids t"
  shows "tb_next t i = Some (if {k \<in> tb_ids t. i < k} = {} then 0 else Min {k \<in> tb_ids t. i < k})"
proof -
  obtain xs where b: "tb_base t xs" "tb_shape t" using tb_okD [OF assms(1)] by metis
  have top: "tb_top_idx t = Max (tb_ids t)" using assms by (auto simp: tb_ok_def)
  have i: "i \<noteq> 0" "unat i < tb_cap t" using tb_ids_less [OF b(2) assms(2)] by simp_all
  then have suc: "unat (i + 1) = unat i + 1"
    using unat_add_lem [of i 1] tb_shapeD(4) [OF b(2)] by simp
  have above: "i < k \<longleftrightarrow> i + 1 \<le> k" for k
    unfolding word_le_nat_alt word_less_nat_alt suc by auto
  let ?A = "{k \<in> tb_ids t. i < k}"
  have empty: "?A = {} \<longleftrightarrow> tb_top_idx t < i + 1"
  proof -
    have "?A = {} \<longleftrightarrow> (\<forall>k \<in> tb_ids t. k \<le> i)" by (auto simp: not_less)
    also have "\<dots> \<longleftrightarrow> tb_top_idx t \<le> i"
    proof -
      have ne: "tb_ids t \<noteq> {}" using assms(2) by blast
      show ?thesis unfolding top by (rule Max_le_iff [OF finite_u32 ne, symmetric])
    qed
    also have "\<dots> \<longleftrightarrow> tb_top_idx t < i + 1" using above by (metis not_le)
    finally show ?thesis .
  qed
  show ?thesis
  proof (cases "?A = {}")
    case True
    with empty i show ?thesis by (simp add: tb_next_def)
  next
    case False
    let ?p = "tb_page_of t (i + 1)" and ?j = "tb_offset_of t (i + 1)"
    have m: "Min ?A \<in> tb_ids t" "i < Min ?A" using Min_in [OF _ False] by auto
    have le: "Min ?A \<le> tb_top_idx t" using m(1) top by simp
    have "i + 1 \<le> Min ?A" using m(2) above by simp
    then have less: "unat (i + 1) < tb_cap t"
      using tb_ids_less [OF b(2) m(1)] by (auto simp: word_le_nat_alt)
    have p: "?p < unat (tb_page_cnt t)" and j: "?j < tb_pow t"
      using less by (simp_all add: tb_page_offset [OF b(2)] div_tb_pow_less)
    have id1: "tb_id t ?p ?j = i + 1"
      using tb_id_inj [OF b(2) p j less] by (simp add: tb_page_offset [OF b(2)])
    have order: "(?p < tb_page_of t k \<or> ?p = tb_page_of t k \<and> ?j \<le> tb_offset_of t k) \<longleftrightarrow> i < k"
      if "k \<in> tb_ids t" for k
      using tb_id_le [OF b(2) p j tb_id_split(1,2) [OF b(1) that]] tb_id_split(3) [OF b(1) that] id1 above
      by simp
    have "tb_first t ?p ?j (Min ?A)"
      unfolding tb_first_def using m order by auto
    from tb_next_obj_first [OF b(1) this le] False empty i(1) show ?thesis
      by (simp add: tb_next_def)
  qed
qed

lemma tb_iterate_from:
  assumes "tb_ok t" "i \<in> tb_ids t"
  shows "tb_iterate t i = Some (sorted_list_of_set {k \<in> tb_ids t. i \<le> k})"
  using assms(2)
proof (induction "card {k \<in> tb_ids t. i \<le> k}" arbitrary: i rule: less_induct)
  case less
  let ?A = "{k \<in> tb_ids t. i < k}" and ?B = "{k \<in> tb_ids t. i \<le> k}"
  have i: "i \<noteq> 0" using tb_ids_less less.prems assms(1) by (auto elim: tb_okD)
  have "?B = insert i ?A" using less.prems by auto
  moreover have "Min ?B = i" using less.prems by (intro Min_eqI) auto
  ultimately have split: "sorted_list_of_set ?B = i # sorted_list_of_set ?A"
    using sorted_list_of_set_nonempty [of ?B] by simp
  have nx: "tb_next t i = Some (if ?A = {} then 0 else Min ?A)" by (rule tb_next_above [OF assms(1) less.prems])
  show ?case
  proof (cases "?A = {}")
    case True
    have "tb_iterate t 0 = Some []" by (subst tb_iterate.simps) (simp add: tb_end_def)
    moreover have "tb_next t i = Some 0" using nx unfolding True by simp
    ultimately show ?thesis
      using i unfolding split True by (subst tb_iterate.simps) (simp add: tb_end_def)
  next
    case False
    have m: "Min ?A \<in> ?A" using False by (intro Min_in) auto
    have "{k \<in> tb_ids t. Min ?A \<le> k} = ?A"
    proof
      show "{k \<in> tb_ids t. Min ?A \<le> k} \<subseteq> ?A" using m by (auto intro: less_le_trans)
      have "Min ?A \<le> k" if "k \<in> ?A" for k using that by (rule Min_le [OF finite_u32])
      then show "?A \<subseteq> {k \<in> tb_ids t. Min ?A \<le> k}" by blast
    qed
    moreover have "card ?A < card ?B" using less.prems by (intro psubset_card_mono) auto
    ultimately have "tb_iterate t (Min ?A) = Some (sorted_list_of_set ?A)"
      using less.hyps [of "Min ?A"] m by simp
    moreover have "tb_next t i = Some (Min ?A)" using nx False by (simp only: if_False)
    ultimately show ?thesis using i unfolding split by (subst tb_iterate.simps) (simp add: tb_end_def)
  qed
qed

lemma tb_iterate_all: 
  assumes "tb_ok t"
  shows "tb_iterate t (tb_begin t) = Some (sorted_list_of_set (tb_ids t))"
proof (cases "tb_ids t = {}")
  case True
  with assms show ?thesis by (subst tb_iterate.simps) (simp add: tb_ok_def tb_end_def tb_begin_def)
next
  case False
  then have m: "Min (tb_ids t) \<in> tb_ids t" by simp
  have "tb_begin t = Min (tb_ids t)" using assms False by (simp add: tb_ok_def tb_begin_def)
  moreover have "{k \<in> tb_ids t. Min (tb_ids t) \<le> k} = tb_ids t"
  proof -
    have "Min (tb_ids t) \<le> k" if "k \<in> tb_ids t" for k using that by (rule Min_le [OF finite_u32])
    then show ?thesis by blast
  qed
  ultimately show ?thesis using tb_iterate_from [OF assms m] by simp
qed

section \<open>Streams\<close>

lemma tb_readSlot_write: "tb_readSlot (tb_writeSlot s @ rest) = Some (s, rest)"
  by (cases s) (simp_all add: tb_writeSlot_def)

lemma tb_readSlots_write:
  "tb_readSlots (length ss) (concat (map tb_writeSlot ss) @ rest) = Some (ss, rest)"
  by (induction ss) (simp_all add: tb_readSlot_write)

lemma fold_count_alloc:
  "fold (\<lambda>s c. if is_alloc s then c + 1 else c) ss (c :: u32) = c + of_nat (length (filter is_alloc ss))"
  by (induction ss arbitrary: c) simp_all

lemma tb_readPage_write:
  assumes "tb_base t xs" "p < unat (tb_page_cnt t)"
  shows "tb_readPage (push_bit (unat (tb_page_shift t)) (of_nat p)) (tb_pow t)
    (tb_writePage (tb_page t p) @ rest) = Some (tb_page t p, rest)"
proof -
  have sh: "tb_shape t" using assms(1) by (simp add: tb_base_def)
  note pg = tb_shape_page [OF sh assms(2)]
  let ?ss = "page_objects (tb_page t p)"
  have "length (filter is_alloc ?ss) = card {j. j < length ?ss \<and> is_alloc (?ss ! j)}"
    by (rule length_filter_conv_card)
  also have "{j. j < length ?ss \<and> is_alloc (?ss ! j)} = tb_page_ids t p"
    using tb_alloc_at_ids [OF assms] pg(2) by (auto simp: tb_page_ids_def tb_alloc_at_def)
  also have "card (tb_page_ids t p) = unat (page_alloccnt (tb_page t p))"
    using assms by (simp add: tb_base_def tb_counts_def)
  finally have "of_nat (length (filter is_alloc ?ss)) = page_alloccnt (tb_page t p)" by simp
  with pg show ?thesis
    using tb_readSlots_write [of ?ss rest]
    by (simp add: tb_readPage_def tb_writePage_def fold_count_alloc)
qed

lemma tb_readPages_write:
  assumes "tb_base t xs" "i + n \<le> unat (tb_page_cnt t)"
  shows "tb_readPages (tb_page_shift t) (tb_pow t) i n
    (concat (map (\<lambda>p. tb_writePage (tb_page t p)) [i..<i + n]) @ rest) = Some (map (tb_page t) [i..<i + n], rest)"
  using assms(2)
proof (induction n arbitrary: i)
  case (Suc n)
  have split: "[i..<i + Suc n] = i # [i + 1..<(i + 1) + n]" by (simp add: upt_conv_Cons)
  show ?case
    using Suc.IH [of "i + 1"] Suc.prems tb_readPage_write [OF assms(1), of i]
    unfolding split by (simp add: append_assoc)
qed simp

lemma tb_read_write:
  assumes "tb_ok t"
  shows "tb_read (tb_write t @ rest) = Some (t, rest)"
proof -
  obtain xs where b: "tb_base t xs" "tb_shape t" using tb_okD [OF assms] by metis
  let ?c = "unat (tb_page_cnt t)" and ?l = "length (tb_pages t)"
  have "2 ^ 1 \<le> tb_pow t" unfolding tb_pow_def using tb_shapeD(2) [OF b(2)] by (intro power_increasing) auto
  then have "?c * 2 \<le> tb_cap t" unfolding tb_cap_def by (intro mult_le_mono) auto
  with tb_shapeD(4) [OF b(2)] b(2) have l: "?l \<le> 2147483648" by (simp add: tb_shape_def)
  then have ul: "unat (of_nat ?l :: u32) = ?l" by (subst unsigned_of_nat) (simp add: take_bit_nat_eq_self)
  have pages: "map Some (map (tb_page t) [0..<?c]) @ replicate (?l - ?c) None = tb_pages t"
  proof (rule nth_equalityI)
    show len: "length (map Some (map (tb_page t) [0..<?c]) @ replicate (?l - ?c) None) = ?l"
      using tb_shapeD(6) [OF b(2)] by simp
    fix p assume "p < length (map Some (map (tb_page t) [0..<?c]) @ replicate (?l - ?c) None)"
    then have p: "p < ?l" using len by simp
    show "(map Some (map (tb_page t) [0..<?c]) @ replicate (?l - ?c) None) ! p = tb_pages t ! p"
    proof (cases "p < ?c")
      case True
      with tb_shape_page(1) [OF b(2) True] show ?thesis by (simp add: nth_append)
    next
      case False
      with p b(2) show ?thesis by (simp add: nth_append tb_shape_def)
    qed
  qed
  have size: "unat (tb_page_mask t + 1) = tb_pow t" using tb_pageSize_pow [OF b(2)] by (simp add: tb_pageSize_def)
  show ?thesis
    using tb_readPages_write [OF b(1), of 0 ?c rest] pages ul
    by (simp add: tb_write_def tb_read_def size)
qed

section \<open>Comparison\<close>

lemma tb_eq_content:
  assumes "tb_ok lhs" "tb_ok rhs" "tb_page_shift lhs = tb_page_shift rhs"
  shows "tb_eq eq lhs rhs = Some (tb_page_cnt lhs = tb_page_cnt rhs \<and>
           (\<forall>i. rel_option eq (tb_getPtr lhs i) (tb_getPtr rhs i)))"
proof -
  obtain xs ys where b: "tb_base lhs xs" "tb_shape lhs" "tb_base rhs ys" "tb_shape rhs"
    using tb_okD [OF assms(1)] tb_okD [OF assms(2)] by metis
  have masks: "tb_page_mask lhs = tb_page_mask rhs"
    using tb_shapeD(5) [OF b(2)] tb_shapeD(5) [OF b(4)] assms(3) by simp
  let ?same = "\<forall>i. rel_option eq (tb_getPtr lhs i) (tb_getPtr rhs i)"
  have ids: "tb_ids lhs = tb_ids rhs" if ?same
  proof -
    have "tb_getPtr lhs i = None \<longleftrightarrow> tb_getPtr rhs i = None" for i
      using that [rule_format, of i] by (auto elim: option.rel_cases)
    then show ?thesis by (auto simp: dom_def)
  qed
  have fields: "tb_bottom_idx lhs = tb_bottom_idx rhs" "tb_top_idx lhs = tb_top_idx rhs"
    "tb_alloc_cnt lhs = tb_alloc_cnt rhs" if ?same
  proof -
    have "unat (tb_alloc_cnt lhs) = unat (tb_alloc_cnt rhs)" using ids [OF that] assms(1,2) by (simp add: tb_ok_def)
    then show "tb_alloc_cnt lhs = tb_alloc_cnt rhs" by (rule unsigned_word_eqI)
    show "tb_bottom_idx lhs = tb_bottom_idx rhs" "tb_top_idx lhs = tb_top_idx rhs"
      using ids [OF that] assms(1,2) by (simp_all add: tb_ok_def)
  qed
  have empty: "?same" if "tb_page_cnt lhs = 0" "tb_page_cnt rhs = 0"
    using that tb_slot_at [OF b(2)] tb_slot_at [OF b(4)] by (simp add: tb_getPtr_def tb_cap_def)
  let ?r = "\<forall>i \<in> set [unat (tb_bottom_idx lhs)..<unat (tb_top_idx lhs) + 1].
             (case (tb_getPtr lhs (of_nat i), tb_getPtr rhs (of_nat i)) of
                (Some l, Some r) \<Rightarrow> eq l r | (None, None) \<Rightarrow> True | _ \<Rightarrow> False)"
  have range: "?r \<longleftrightarrow> ?same" if eqs: "tb_bottom_idx lhs = tb_bottom_idx rhs" "tb_top_idx lhs = tb_top_idx rhs"
  proof -
    have case_rel: "(case (a, b) of (Some l, Some r) \<Rightarrow> eq l r | (None, None) \<Rightarrow> True | _ \<Rightarrow> False)
        \<longleftrightarrow> rel_option eq a b" for a b by (cases a; cases b) simp_all
    have out: "tb_getPtr t i = None" if "tb_ok t" "i < tb_bottom_idx t \<or> tb_top_idx t < i" for t :: "'a dbtable" and i
    proof (rule ccontr)
      assume "tb_getPtr t i \<noteq> None"
      then have "i \<in> tb_ids t" by blast
      with that(1) have "tb_bottom_idx t \<le> i" "i \<le> tb_top_idx t" by (auto simp: tb_ok_def)
      with that(2) show False by (auto dest: leD)
    qed
    show ?thesis unfolding case_rel
    proof (intro iffI allI ballI)
      fix i assume all: "\<forall>i \<in> set [unat (tb_bottom_idx lhs)..<unat (tb_top_idx lhs) + 1].
          rel_option eq (tb_getPtr lhs (of_nat i)) (tb_getPtr rhs (of_nat i))"
      show "rel_option eq (tb_getPtr lhs i) (tb_getPtr rhs i)"
      proof (cases "i < tb_bottom_idx lhs \<or> tb_top_idx lhs < i")
        case True
        with out [OF assms(1)] out [OF assms(2)] eqs show ?thesis by simp
      next
        case False
        then have "unat i \<in> set [unat (tb_bottom_idx lhs)..<unat (tb_top_idx lhs) + 1]"
          by (auto simp: word_less_nat_alt)
        with all have "rel_option eq (tb_getPtr lhs (of_nat (unat i))) (tb_getPtr rhs (of_nat (unat i)))" by blast
        then show ?thesis by simp
      qed
    qed blast
  qed
  show ?thesis
    unfolding tb_eq_def using masks assms(3) fields empty range by (auto simp del: set_upt)
qed

section \<open>The interface\<close>

lemma tb_new_ok:
  assumes "1 \<le> unat s" "unat s < 32"
  shows "tb_ok (tb_new (2 ^ unat s) s :: 'a dbtable)"
    "tb_getPtr (tb_new (2 ^ unat s) s :: 'a dbtable) = Map.empty"
    "tb_room (tb_new (2 ^ unat s) s :: 'a dbtable)"
proof -
  let ?t = "tb_new (2 ^ unat s) s :: 'a dbtable"
  have slot: "tb_slot ?t i = None" for i by (simp add: tb_slot_def tb_new_def)
  then show get: "tb_getPtr ?t = Map.empty" by (simp add: tb_getPtr_def fun_eq_iff)
  have "(2 :: nat) ^ unat s \<le> 2 ^ 31" using assms by (intro power_increasing) auto
  then show "tb_room ?t" by (simp add: tb_room_def tb_cap_def tb_pow_def tb_new_def)
  have "tb_shape ?t" using assms by (simp add: tb_shape_def tb_new_def tb_cap_def)
  then have "tb_base ?t []"
    by (simp add: tb_base_def slot) (simp add: tb_counts_def tb_free_def tb_new_def)
  then show "tb_ok ?t" unfolding tb_ok_def get by (auto simp: tb_new_def)
qed

lemma tb_new_128:
  "tb_ok (tb_new 128 7)" "tb_getPtr (tb_new 128 7) = Map.empty" "tb_room (tb_new 128 7)"
  using tb_new_ok [of 7] by simp_all

lemma tb_clear_ok:
  assumes "tb_ok t"
  shows "tb_ok (tb_clear t)" "tb_getPtr (tb_clear t) = Map.empty"
proof -
  obtain xs where b: "tb_base t xs" "tb_shape t" using tb_okD [OF assms] by metis
  have "tb_clear t = tb_new (2 ^ unat (tb_page_shift t)) (tb_page_shift t)"
    using tb_shapeD(5) [OF b(2)] by (simp add: tb_clear_def tb_new_def)
  with tb_new_ok [OF tb_shapeD(2,1) [OF b(2)]]
  show "tb_ok (tb_clear t)" "tb_getPtr (tb_clear t) = Map.empty" by simp_all
qed

lemma tb_modify_updates:
  assumes "tb_ok t" "tb_getPtr t i = Some x"
  shows "\<exists>t'. tb_modify i f t = Some t' \<and> tb_ok t' \<and> tb_getPtr t' = (tb_getPtr t)(i \<mapsto> f x)"
proof -
  let ?u = "tb_put i (AllocSlot (f x)) t"
  obtain xs where b: "tb_base t xs" "tb_shape t" using tb_okD [OF assms(1)] by metis
  have i: "i \<noteq> 0" "tb_slot t i = Some (AllocSlot x)" using assms(2) by (auto simp: tb_getPtr_Some)
  have su: "tb_slot ?u = (tb_slot t)(i \<mapsto> AllocSlot (f x))" using i by (intro tb_slot_put [OF b(2)]) simp
  have get: "tb_getPtr ?u = (tb_getPtr t)(i \<mapsto> f x)"
    using i(1) by (auto simp: tb_getPtr_def su fun_eq_iff)
  have ids: "tb_ids ?u = tb_ids t" using assms(2) unfolding get by auto
  have fr: "tb_frame t ?u" by simp
  have notin: "i \<notin> set xs" using b(1) i(2) by (simp add: tb_base_def)
  have "tb_counts ?u"
    unfolding tb_counts_def
  proof (intro allI impI)
    fix p assume "p < unat (tb_page_cnt ?u)"
    then have p: "p < unat (tb_page_cnt t)" by (simp add: tb_put_def)
    have "tb_id ?u = tb_id t" "tb_pow ?u = tb_pow t" by (simp_all add: tb_put_def tb_id_def fun_eq_iff tb_pow_def)
    then have "tb_page_ids ?u p = tb_page_ids t p" by (simp add: tb_page_ids_def ids)
    with b(1) p tb_frame_page [OF b(2) fr p] show "unat (page_alloccnt (tb_page ?u p)) = card (tb_page_ids ?u p)"
      by (simp add: tb_base_def tb_counts_def)
  qed
  moreover have "tb_free ?u xs"
  proof -
    have "free_dll (tb_slot t) 0 (tb_free_list t) xs" using b(1) by (simp add: tb_base_def tb_free_def)
    then have "free_dll (tb_slot ?u) 0 (tb_free_list t) xs"
      by (rule free_dll_frame) (use notin in \<open>auto simp: su\<close>)
    then show ?thesis using b(1) by (simp add: tb_base_def tb_free_def) (simp add: tb_put_def)
  qed
  moreover have "{k. k \<noteq> 0 \<and> (\<exists>nx pv. tb_slot ?u k = Some (FreeSlot nx pv))}
      = {k. k \<noteq> 0 \<and> (\<exists>nx pv. tb_slot t k = Some (FreeSlot nx pv))}"
    using i by (auto simp: su)
  ultimately have "tb_base ?u xs"
    using b i tb_frame_shape [OF b(2) fr] by (simp add: tb_base_def su)
  then have "tb_ok ?u" using assms(1) ids unfolding tb_ok_def by (auto simp: tb_put_def)
  with get assms(2) show ?thesis by (simp add: tb_modify_def)
qed

text \<open>
  What the owner of a table may rely on: while there is room a create returns a new id, a
  destroy forgets exactly its id, a write through the pointer changes exactly its object.
\<close>

locale object_store =
  fixes ok :: "'s \<Rightarrow> bool" and room :: "'s \<Rightarrow> bool" and objs :: "'s \<Rightarrow> u32 \<Rightarrow> 'a option"
    and create :: "'a \<Rightarrow> 's \<Rightarrow> (u32 \<times> 's) option" and destroy :: "u32 \<Rightarrow> 's \<Rightarrow> 's option"
    and modify :: "u32 \<Rightarrow> ('a \<Rightarrow> 'a) \<Rightarrow> 's \<Rightarrow> 's option"
  assumes create_law: "ok s \<Longrightarrow> room s \<Longrightarrow>
      \<exists>e s'. create x s = Some (e, s') \<and> ok s' \<and> objs s e = None \<and> e \<noteq> 0 \<and> objs s' = (objs s)(e \<mapsto> x)"
    and destroy_law: "ok s \<Longrightarrow> objs s i = Some y \<Longrightarrow>
      \<exists>s'. destroy i s = Some s' \<and> ok s' \<and> objs s' = (objs s)(i := None)"
    and modify_law: "ok s \<Longrightarrow> objs s i = Some y \<Longrightarrow>
      \<exists>s'. modify i f s = Some s' \<and> ok s' \<and> objs s' = (objs s)(i \<mapsto> f y)"
begin

lemma create_ok:
  assumes "ok s" "room s" "create x s = Some (e, s')"
  shows "ok s'" "objs s e = None" "e \<noteq> 0" "objs s' = (objs s)(e \<mapsto> x)"
  using create_law [OF assms(1,2), of x] assms(3) by auto

lemma create_keeps:
  "ok s \<Longrightarrow> room s \<Longrightarrow> create x s = Some (e, s') \<Longrightarrow> objs s i = Some y \<Longrightarrow> objs s' i = Some y"
  using create_ok [of s x e s'] by auto

lemma create_destroy:
  assumes "ok s" "room s" "create x s = Some (e, s')"
  shows "\<exists>s''. destroy e s' = Some s'' \<and> ok s'' \<and> objs s'' = objs s"
proof -
  note c = create_ok [OF assms]
  have "objs s' e = Some x" by (simp add: c(4))
  moreover have "(objs s')(e := None) = objs s" using c(2,4) by (simp add: fun_upd_idem_iff)
  ultimately show ?thesis using destroy_law [OF c(1)] by metis
qed

end

interpretation tb: object_store tb_ok tb_room tb_getPtr tb_create tb_destroy tb_modify
proof
  fix s :: "'a dbtable" and x y :: 'a and i f
  assume ok: "tb_ok s"
  show "tb_room s \<Longrightarrow> \<exists>e s'. tb_create x s = Some (e, s') \<and> tb_ok s' \<and> tb_getPtr s e = None \<and> e \<noteq> 0 \<and>
      tb_getPtr s' = (tb_getPtr s)(e \<mapsto> x)"
    by (rule tb_create_adds [OF ok])
  show "\<exists>s'. tb_destroy i s = Some s' \<and> tb_ok s' \<and> tb_getPtr s' = (tb_getPtr s)(i := None)"
    if "tb_getPtr s i = Some y" using tb_destroy_removes [OF ok, of i] that by blast
  show "\<exists>s'. tb_modify i f s = Some s' \<and> tb_ok s' \<and> tb_getPtr s' = (tb_getPtr s)(i \<mapsto> f y)"
    if "tb_getPtr s i = Some y" by (rule tb_modify_updates [OF ok that])
qed

section \<open>Reachable tables\<close>

inductive tb_reach :: "'a dbtable \<Rightarrow> bool" where
  new: "1 \<le> unat s \<Longrightarrow> unat s < 32 \<Longrightarrow> tb_reach (tb_new (2 ^ unat s) s)"
| create: "tb_reach t \<Longrightarrow> tb_room t \<Longrightarrow> tb_create x t = Some (i, t') \<Longrightarrow> tb_reach t'"
| destroy: "tb_reach t \<Longrightarrow> tb_destroy i t = Some t' \<Longrightarrow> tb_reach t'"
| modify: "tb_reach t \<Longrightarrow> tb_modify i f t = Some t' \<Longrightarrow> tb_reach t'"
| clear: "tb_reach t \<Longrightarrow> tb_reach (tb_clear t)"
| reload: "tb_reach t \<Longrightarrow> tb_read (tb_write t) = Some (t', []) \<Longrightarrow> tb_reach t'"

lemma tb_destroy_valid: "tb_destroy i t = Some t' \<Longrightarrow> i \<in> tb_ids t"
  using tb_validId_dom [of "t\<lparr>tb_alloc_cnt := tb_alloc_cnt t - 1\<rparr>" i]
  by (simp add: tb_destroy_def Let_def split: if_splits)

lemma tb_reach_ok: "tb_reach t \<Longrightarrow> tb_ok t"
proof (induction rule: tb_reach.induct)
  case (new s)
  then show ?case by (rule tb_new_ok)
next
  case (create t x i t')
  then show ?case using tb.create_ok(1) [OF create.IH create.hyps(2,3)] by blast
next
  case (destroy t i t')
  then show ?case using tb_destroy_removes [OF destroy.IH tb_destroy_valid [OF destroy.hyps(2)]] by auto
next
  case (modify t i f t')
  then obtain x where "tb_getPtr t i = Some x" by (auto simp: tb_modify_def)
  with tb_modify_updates [OF modify.IH this, of f] modify.hyps(2) show ?case by auto
next
  case (clear t)
  then show ?case by (simp add: tb_clear_ok)
next
  case (reload t t')
  then show ?case using tb_read_write [OF reload.IH, of "[]"] by simp
qed

lemma tb_demo:
  "\<exists>e t. tb_create (5 :: nat) (tb_new 128 7) = Some (e, t) \<and> tb_ok t \<and> tb_getPtr t = Map.empty(e \<mapsto> 5)"
  using tb_create_adds [OF tb_new_128(1,3), of "5 :: nat"] by (auto simp: tb_new_128(2))

section \<open>Properties\<close>

text \<open>C30: Every table that creates, destroys, writes through pointers, clears and reloads can
  produce keeps its books: the allocation counter is the number of valid ids, the two bounds are
  the least and the largest valid id, and id 0 is never valid.\<close>

theorem table_books_kept:
  assumes "tb_reach t"
  shows "unat (tb_size t) = card {i. tb_validId t i} \<and> \<not> tb_validId t 0 \<and>
    (if tb_size t = 0 then tb_bottom_idx t = 0 \<and> tb_top_idx t = 0
     else tb_validId t (tb_bottom_idx t) \<and> tb_validId t (tb_top_idx t) \<and>
          {i. tb_validId t i} \<subseteq> {tb_bottom_idx t..tb_top_idx t})"
proof -
  have ok: "tb_ok t" by (rule tb_reach_ok [OF assms])
  then have cnt: "unat (tb_alloc_cnt t) = card (tb_ids t)" by (simp add: tb_ok_def)
  have "tb_alloc_cnt t = 0 \<longleftrightarrow> unat (tb_alloc_cnt t) = 0" by (simp add: unat_eq_zero)
  also have "\<dots> \<longleftrightarrow> tb_ids t = {}" by (simp only: cnt card_0_eq [OF finite_u32])
  finally have zero: "tb_alloc_cnt t = 0 \<longleftrightarrow> tb_ids t = {}" .
  have "0 \<notin> tb_ids t" by (auto simp: tb_getPtr_Some)
  moreover have "Min (tb_ids t) \<in> tb_ids t" "Max (tb_ids t) \<in> tb_ids t" if "tb_ids t \<noteq> {}"
    using that by (simp_all only: Min_in Max_in finite_u32 simp_thms)
  moreover have "tb_ids t \<subseteq> {Min (tb_ids t)..Max (tb_ids t)}"
    using Min_le [OF finite_u32] Max_ge [OF finite_u32] by (meson atLeastAtMost_iff subsetI)
  ultimately show ?thesis
    using ok cnt unfolding tb_size_def tb_validId_dom zero tb_ok_def Collect_mem_eq by simp
qed

theorem table_books_kept_witness:
  "\<exists>t :: nat dbtable. unat (tb_size t) = card {i. tb_validId t i} \<and> tb_size t = 1"
proof -
  let ?n = "tb_new 128 7 :: nat dbtable"
  note ok = tb_new_128(1,3,2)
  obtain e t where t: "tb_create 5 ?n = Some (e, t)" "tb_ok t" "tb_getPtr t = Map.empty(e \<mapsto> 5)"
    using tb_demo by blast
  have "tb_reach ?n" using tb_reach.new [of 7] by simp
  from tb_reach.create [OF this ok(2) t(1)] have "tb_reach t" .
  note books = table_books_kept [OF this]
  have "{i. tb_validId t i} = {e}" by (simp add: tb_validId_dom t(3))
  with books have "unat (tb_size t) = 1" by simp
  then have "tb_size t = 1" by (metis unsigned_1 unsigned_word_eqI)
  with books show ?thesis by blast
qed

text \<open>A create on a table with room succeeds, without a failed assertion, and returns an id
  that was not valid and is not null; the new object is found at that id, and every other id
  gives what it gave before.\<close>

theorem table_create_fresh:
  assumes "tb_ok t" "tb_room t"
  shows "\<exists>e t'. tb_create x t = Some (e, t') \<and> tb_ok t' \<and> \<not> tb_validId t e \<and> e \<noteq> 0 \<and>
    tb_getPtr t' = (tb_getPtr t)(e \<mapsto> x)"
  using tb.create_law [OF assms, of x] by (auto simp: tb_validId_dom)

theorem table_create_fresh_witness:
  "\<exists>e t'. tb_create (5 :: nat) (tb_new 128 7) = Some (e, t') \<and> tb_getPtr t' e = Some 5"
  using table_create_fresh [OF tb_new_128(1,3), of "5 :: nat"] by auto

text \<open>C29: Destroying a valid id succeeds: the searches for the new bounds hit no failed assertion
  and read no object outside a page.  Exactly that id is forgotten, and it is the id the next
  create returns.\<close>

theorem table_destroy_reuses:
  assumes "tb_ok t" "tb_validId t i"
  shows "\<exists>t1. tb_destroy i t = Some t1 \<and> tb_ok t1 \<and> tb_getPtr t1 = (tb_getPtr t)(i := None) \<and>
    (\<exists>t2. tb_create x t1 = Some (i, t2) \<and> tb_getPtr t2 = (tb_getPtr t)(i \<mapsto> x))"
proof -
  obtain t1 where t1: "tb_destroy i t = Some t1" "tb_ok t1" "tb_getPtr t1 = (tb_getPtr t)(i := None)"
    "tb_free_list t1 = i"
    using tb_destroy_removes [OF assms(1) assms(2) [unfolded tb_validId_dom]] by blast
  obtain xs where b: "tb_base t1 xs" using tb_okD [OF t1(2)] by metis
  have i: "i \<noteq> 0" using assms(2) by (simp add: tb_validId_def)
  with b t1(4) have hd: "hd xs = i" by (cases xs) (auto simp: tb_base_def tb_free_def)
  have room: "tb_room t1" using i t1(4) by (simp add: tb_room_def)
  obtain e t2 where c: "tb_create x t1 = Some (e, t2)" "tb_getPtr t2 = (tb_getPtr t1)(e \<mapsto> x)"
    using tb.create_law [OF t1(2) room, of x] by blast
  have "e = i"
    using tb_create_base [OF b room, of x] c(1) i t1(4) hd by (metis Pair_inject option.inject)
  with t1 c show ?thesis by auto
qed

theorem table_destroy_reuses_witness:
  "\<exists>e t t1 t2. tb_create (5 :: nat) (tb_new 128 7) = Some (e, t) \<and> tb_destroy e t = Some t1 \<and>
     tb_create 6 t1 = Some (e, t2)"
proof -
  obtain e t where t: "tb_create (5 :: nat) (tb_new 128 7) = Some (e, t)" "tb_ok t" "tb_getPtr t = Map.empty(e \<mapsto> 5)"
    using tb_demo by blast
  then have "tb_validId t e" by (simp add: tb_validId_dom)
  from table_destroy_reuses [OF t(2) this, of 6] t(1) show ?thesis by blast
qed

text \<open>A set over a table visits exactly its valid ids, in increasing order, and ends:
  starting at \<open>begin\<close> and stepping with \<open>next\<close> reaches \<open>end\<close>, across the pages that hold no
  object.\<close>

theorem table_iterates_all:
  assumes "tb_ok t"
  shows "tb_iterate t (tb_begin t) = Some (sorted_list_of_set {i. tb_validId t i})"
  unfolding tb_validId_dom Collect_mem_eq by (rule tb_iterate_all [OF assms])

theorem table_iterates_all_witness:
  "\<exists>e t. tb_create (5 :: nat) (tb_new 128 7) = Some (e, t) \<and> tb_iterate t (tb_begin t) = Some [e]"
proof -
  obtain e t where t: "tb_create (5 :: nat) (tb_new 128 7) = Some (e, t)" "tb_ok t" "tb_getPtr t = Map.empty(e \<mapsto> 5)"
    using tb_demo by blast
  then have "{i. tb_validId t i} = {e}" by (simp add: tb_validId_dom)
  with table_iterates_all [OF t(2)] t(1) show ?thesis by simp
qed

text \<open>What a table writes to a stream is read back as the same table, free list, counters
  and page addresses included, and nothing after it is consumed.\<close>

theorem table_stream_roundtrip:
  assumes "tb_ok t"
  shows "tb_read (tb_write t @ rest) = Some (t, rest)"
  by (rule tb_read_write [OF assms])

theorem table_stream_roundtrip_witness:
  "\<exists>e t. tb_create (5 :: nat) (tb_new 128 7) = Some (e, t) \<and> tb_read (tb_write t @ [TObj 3]) = Some (t, [TObj 3])"
proof -
  obtain e t where t: "tb_create (5 :: nat) (tb_new 128 7) = Some (e, t)" "tb_ok t"
    using tb_demo by blast
  with table_stream_roundtrip [OF t(2)] show ?thesis by blast
qed

text \<open>Two tables of one page size compare equal exactly when they have equal objects at
  equal ids and the same number of pages: a table that once grew further differs from one with
  the same contents that did not.\<close>

theorem table_eq_iff:
  assumes "tb_ok lhs" "tb_ok rhs" "tb_page_shift lhs = tb_page_shift rhs"
  shows "tb_eq eq lhs rhs = Some (tb_page_cnt lhs = tb_page_cnt rhs \<and>
           (\<forall>i. rel_option eq (tb_getPtr lhs i) (tb_getPtr rhs i)))"
  by (rule tb_eq_content [OF assms])

theorem table_eq_iff_witness:
  "\<exists>e t. tb_create (5 :: nat) (tb_new 128 7) = Some (e, t) \<and> tb_eq (=) t t = Some True"
proof -
  obtain e t where t: "tb_create (5 :: nat) (tb_new 128 7) = Some (e, t)" "tb_ok t"
    using tb_demo by blast
  with table_eq_iff [OF t(2) t(2) refl, of "(=)"] show ?thesis by (auto simp: option.rel_eq)
qed

end
