(* ===== verification/OdbHash.thy ===== *)
theory OdbHash imports OdbTable "HOL-Library.Multiset" begin

text \<open>
  \<open>dbHashTable.hpp\<close>, \<open>dbIntHashTable.hpp\<close>, \<open>dbNameCache.cpp\<close>: the hash tables through which the
  database finds its objects by name or by number, and the counted cache of names.

  The two templates differ in the key and the hash function only, so the operations are defined
  once over a hash function and instantiated with \<open>hash_string\<close> and \<open>hash_int\<close>.  A table is a
  vector of ids; the objects of a bucket are linked through their own \<open>_next_entry\<close> fields, which
  live in the object table of \<open>OdbTable\<close>.

  The abstraction gives for every key the stack of the objects with that key, latest first.
  Lookup, insertion, removal, and above all the growing and shrinking of the table are shown
  against it.
\<close>

unbundle bit_operations_syntax

section \<open>Hash functions\<close>

text \<open>A C string is the list of its characters before the terminating null.\<close>

type_synonym cname = "u8 list"

definition hash_string :: "cname \<Rightarrow> u32" where
  "hash_string str =
     fold (\<lambda>c hash. ucast c + push_bit 6 hash + push_bit 16 hash - hash) str 0"

definition hash_int :: "u32 \<Rightarrow> u32" where
  "hash_int i =
     (let key = i;
          key = key + NOT (push_bit 15 key);
          key = key XOR drop_bit 10 key;
          key = key + push_bit 3 key;
          key = key XOR drop_bit 6 key;
          key = key + NOT (push_bit 11 key);
          key = key XOR drop_bit 16 key
      in key)"

section \<open>State and operations\<close>

text \<open>An object with a key (\<open>_name\<close> or \<open>_id\<close>) and the link of its bucket.\<close>

record 'k hentry =
  he_key :: 'k
  he_next :: u32

record hashtab =
  ht_tbl :: "u32 list"
  ht_num :: u32

definition ht_new :: hashtab where
  "ht_new = \<lparr>ht_tbl = [], ht_num = 0\<rparr>"

definition chain_length :: nat where
  "chain_length = 4"

type_synonym ('k, 'z) objtab = "('k, 'z) hentry_scheme dbtable"

text \<open>The vector's checked read; \<open>None\<close> is its failed assertion.\<close>

definition bucket :: "u32 list \<Rightarrow> u32 \<Rightarrow> u32 option" where
  "bucket tbl hid = (if unat hid < length tbl then Some (tbl ! unat hid) else None)"

text \<open>A bucket's objects, moved one by one to the front of the list \<open>entries\<close>.\<close>

partial_function (option) unlink_chain ::
    "('k, 'z) objtab \<Rightarrow> u32 \<Rightarrow> u32 \<Rightarrow> (('k, 'z) objtab \<times> u32) option" where
  "unlink_chain obj cur entries =
     (if cur = 0 then Some (obj, entries)
      else Option.bind (tb_getPtr obj cur) (\<lambda>entry.
           Option.bind (tb_modify cur (\<lambda>e. e\<lparr>he_next := entries\<rparr>) obj) (\<lambda>obj'.
             unlink_chain obj' (he_next entry) cur)))"

fun unlink_all :: "('k, 'z) objtab \<Rightarrow> u32 list \<Rightarrow> u32 \<Rightarrow> (('k, 'z) objtab \<times> u32) option" where
  "unlink_all obj [] entries = Some (obj, entries)"
| "unlink_all obj (b # bs) entries =
     Option.bind (unlink_chain obj b entries) (\<lambda>(obj', entries'). unlink_all obj' bs entries')"

text \<open>The list's objects, each put at the front of its bucket; \<open>sz\<close> is the mask.\<close>

partial_function (option) reinsert ::
    "('k \<Rightarrow> u32) \<Rightarrow> u32 \<Rightarrow> ('k, 'z) objtab \<Rightarrow> u32 list \<Rightarrow> u32 \<Rightarrow>
     (('k, 'z) objtab \<times> u32 list) option" where
  "reinsert hf sz obj tbl cur =
     (if cur = 0 then Some (obj, tbl)
      else Option.bind (tb_getPtr obj cur) (\<lambda>entry.
           Option.bind (bucket tbl (hf (he_key entry) AND sz)) (\<lambda>e.
           Option.bind (tb_modify cur (\<lambda>en. en\<lparr>he_next := e\<rparr>) obj) (\<lambda>obj'.
             reinsert hf sz obj' (tbl[unat (hf (he_key entry) AND sz) := cur]) (he_next entry)))))"

definition growTable :: "('k \<Rightarrow> u32) \<Rightarrow> ('k, 'z) objtab \<Rightarrow> hashtab \<Rightarrow> (('k, 'z) objtab \<times> hashtab) option" where
  "growTable hf obj h =
     (let sz = length (ht_tbl h)
      in Option.bind (unlink_all obj (ht_tbl h) 0) (\<lambda>(obj1, entries).
           let tbl = replicate sz 0 @ replicate sz 0
           in map_option (\<lambda>(obj2, tbl'). (obj2, h\<lparr>ht_tbl := tbl'\<rparr>))
                (reinsert hf (of_nat (length tbl) - 1) obj1 tbl entries)))"

definition shrinkTable :: "('k \<Rightarrow> u32) \<Rightarrow> ('k, 'z) objtab \<Rightarrow> hashtab \<Rightarrow> (('k, 'z) objtab \<times> hashtab) option" where
  "shrinkTable hf obj h =
     (let sz = length (ht_tbl h)
      in Option.bind (unlink_all obj (ht_tbl h) 0) (\<lambda>(obj1, entries).
           let tbl = replicate (sz div 2) 0
           in map_option (\<lambda>(obj2, tbl'). (obj2, h\<lparr>ht_tbl := tbl'\<rparr>))
                (reinsert hf (of_nat (sz div 2) - 1) obj1 tbl entries)))"

definition ht_insert :: "('k \<Rightarrow> u32) \<Rightarrow> u32 \<Rightarrow> ('k, 'z) objtab \<Rightarrow> hashtab \<Rightarrow>
    (('k, 'z) objtab \<times> hashtab) option" where
  "ht_insert hf object obj h =
     (let h1 = h\<lparr>ht_num := ht_num h + 1\<rparr>;
          sz = length (ht_tbl h1)
      in Option.bind
           (if sz = 0 then Some (obj, h1\<lparr>ht_tbl := [0]\<rparr>)
            else if unat (ht_num h1 div of_nat sz) > chain_length then growTable hf obj h1
            else Some (obj, h1))
           (\<lambda>(obj2, h2).
             Option.bind (tb_getPtr obj2 object) (\<lambda>ob.
               let hid = hf (he_key ob) AND (of_nat (length (ht_tbl h2)) - 1)
               in Option.bind (bucket (ht_tbl h2) hid) (\<lambda>e.
                  map_option (\<lambda>obj3. (obj3, h2\<lparr>ht_tbl := (ht_tbl h2)[unat hid := object]\<rparr>))
                    (tb_modify object (\<lambda>en. en\<lparr>he_next := e\<rparr>) obj2)))))"

text \<open>\<open>find\<close> gives the id of the object, 0 for null; \<open>None\<close> is a failed assertion or a loop.\<close>

partial_function (option) find_chain :: "('k, 'z) objtab \<Rightarrow> 'k \<Rightarrow> u32 \<Rightarrow> u32 option" where
  "find_chain obj k cur =
     (if cur = 0 then Some 0
      else Option.bind (tb_getPtr obj cur) (\<lambda>entry.
             if he_key entry = k then Some cur else find_chain obj k (he_next entry)))"

definition ht_find :: "('k \<Rightarrow> u32) \<Rightarrow> 'k \<Rightarrow> ('k, 'z) objtab \<Rightarrow> hashtab \<Rightarrow> u32 option" where
  "ht_find hf k obj h =
     (let sz = length (ht_tbl h)
      in if sz = 0 then Some 0
         else Option.bind (bucket (ht_tbl h) (hf k AND (of_nat sz - 1))) (find_chain obj k))"

definition ht_hasMember :: "('k \<Rightarrow> u32) \<Rightarrow> 'k \<Rightarrow> ('k, 'z) objtab \<Rightarrow> hashtab \<Rightarrow> bool option" where
  "ht_hasMember hf k obj h =
     (let sz = length (ht_tbl h)
      in if sz = 0 then Some False
         else Option.bind (bucket (ht_tbl h) (hf k AND (of_nat sz - 1)))
                (\<lambda>cur. map_option (\<lambda>i. i \<noteq> 0) (find_chain obj k cur)))"

text \<open>
  The loop of \<open>remove\<close>: the bucket's head or the predecessor's link is set past the object.
  \<open>Some None\<close> is the end of the bucket without having found it.
\<close>

partial_function (option) remove_chain ::
    "u32 \<Rightarrow> u32 \<Rightarrow> u32 \<Rightarrow> u32 \<Rightarrow> ('k, 'z) objtab \<Rightarrow> u32 list \<Rightarrow>
     (('k, 'z) objtab \<times> u32 list) option option" where
  "remove_chain object hid cur prev obj tbl =
     (if cur = 0 then Some None
      else Option.bind (tb_getPtr obj cur) (\<lambda>entry.
             if cur = object
             then (if prev = 0 then Some (Some (obj, tbl[unat hid := he_next entry]))
                   else map_option (\<lambda>obj'. Some (obj', tbl))
                          (tb_modify prev (\<lambda>p. p\<lparr>he_next := he_next entry\<rparr>) obj))
             else remove_chain object hid (he_next entry) cur obj tbl))"

definition ht_remove :: "('k \<Rightarrow> u32) \<Rightarrow> u32 \<Rightarrow> ('k, 'z) objtab \<Rightarrow> hashtab \<Rightarrow>
    (('k, 'z) objtab \<times> hashtab) option" where
  "ht_remove hf object obj h =
     Option.bind (tb_getPtr obj object) (\<lambda>ob.
       let sz = length (ht_tbl h);
           hid = hf (he_key ob) AND (of_nat sz - 1)
       in Option.bind (bucket (ht_tbl h) hid) (\<lambda>cur.
          Option.bind (remove_chain object hid cur 0 obj (ht_tbl h)) (\<lambda>res.
            case res of
              None \<Rightarrow> Some (obj, h)
            | Some (obj1, tbl) \<Rightarrow>
                let h1 = h\<lparr>ht_tbl := tbl, ht_num := ht_num h - 1\<rparr>;
                    r = (ht_num h1 + ht_num h1 div 10) div of_nat sz
                in if unat r < chain_length div 2 \<and> sz > 1 then shrinkTable hf obj1 h1
                   else Some (obj1, h1))))"

definition ht_eq :: "hashtab \<Rightarrow> hashtab \<Rightarrow> bool" where
  "ht_eq lhs rhs \<longleftrightarrow> ht_num lhs = ht_num rhs \<and> ht_tbl lhs = ht_tbl rhs"

section \<open>The name cache\<close>

record nament = "cname hentry" +
  ref_cnt :: u32

record namecache =
  name_tbl :: "nament dbtable"
  name_hash :: hashtab

definition new_name :: nament where
  "new_name = \<lparr>he_key = [], he_next = 0, ref_cnt = 0\<rparr>"

definition nc_new :: namecache where
  "nc_new = \<lparr>name_tbl = tb_new 128 7, name_hash = ht_new\<rparr>"

definition findName :: "cname \<Rightarrow> namecache \<Rightarrow> u32 option" where
  "findName name nc = ht_find hash_string name (name_tbl nc) (name_hash nc)"

definition addName :: "cname \<Rightarrow> namecache \<Rightarrow> (u32 \<times> namecache) option" where
  "addName name nc =
     Option.bind (ht_find hash_string name (name_tbl nc) (name_hash nc)) (\<lambda>n.
     Option.bind
       (if n = 0
        then Option.bind (tb_create new_name (name_tbl nc)) (\<lambda>(n', t1).
             Option.bind (tb_modify n' (\<lambda>o'. o'\<lparr>he_key := name\<rparr>) t1) (\<lambda>t2.
             map_option (\<lambda>(t3, h). (n', nc\<lparr>name_tbl := t3, name_hash := h\<rparr>))
               (ht_insert hash_string n' t2 (name_hash nc))))
        else Some (n, nc))
       (\<lambda>(n, nc1).
         map_option (\<lambda>t. (n, nc1\<lparr>name_tbl := t\<rparr>))
           (tb_modify n (\<lambda>o'. o'\<lparr>ref_cnt := ref_cnt o' + 1\<rparr>) (name_tbl nc1))))"

definition removeName :: "u32 \<Rightarrow> namecache \<Rightarrow> namecache option" where
  "removeName i nc =
     Option.bind (tb_modify i (\<lambda>o'. o'\<lparr>ref_cnt := ref_cnt o' - 1\<rparr>) (name_tbl nc)) (\<lambda>t1.
     Option.bind (tb_getPtr t1 i) (\<lambda>n.
       if ref_cnt n = 0
       then Option.bind (ht_remove hash_string i t1 (name_hash nc)) (\<lambda>(t2, h).
            map_option (\<lambda>t3. nc\<lparr>name_tbl := t3, name_hash := h\<rparr>) (tb_destroy i t2))
       else Some (nc\<lparr>name_tbl := t1\<rparr>)))"

definition getName :: "u32 \<Rightarrow> namecache \<Rightarrow> cname option" where
  "getName i nc = map_option he_key (tb_getPtr (name_tbl nc) i)"

section \<open>Chains\<close>

text \<open>The objects of a bucket, or of the list the growing table collects, from its head.\<close>

fun hchain :: "(u32 \<Rightarrow> ('k, 'z) hentry_scheme option) \<Rightarrow> u32 \<Rightarrow> u32 list \<Rightarrow> bool" where
  "hchain m cur [] \<longleftrightarrow> cur = 0"
| "hchain m cur (x # xs) \<longleftrightarrow> cur = x \<and> x \<noteq> 0 \<and> (\<exists>e. m x = Some e \<and> hchain m (he_next e) xs)"

lemma hchain_frame: "hchain m cur xs \<Longrightarrow> (\<And>x. x \<in> set xs \<Longrightarrow> m' x = m x) \<Longrightarrow> hchain m' cur xs"
  by (induction xs arbitrary: cur) auto

lemma hchain_member: "hchain m cur xs \<Longrightarrow> x \<in> set xs \<Longrightarrow> x \<noteq> 0 \<and> (\<exists>e. m x = Some e)"
  by (induction xs arbitrary: cur) auto

text \<open>Heaps that differ in the links only.\<close>

definition hkeep :: "(u32 \<Rightarrow> ('k, 'z) hentry_scheme option) \<Rightarrow> (u32 \<Rightarrow> ('k, 'z) hentry_scheme option) \<Rightarrow> bool" where
  "hkeep m m' \<longleftrightarrow> (\<forall>x. map_option (\<lambda>e. e\<lparr>he_next := 0\<rparr>) (m' x) = map_option (\<lambda>e. e\<lparr>he_next := 0\<rparr>) (m x))"

lemma hkeep_refl [simp]: "hkeep m m"
  by (simp add: hkeep_def)

lemma hkeep_trans: "hkeep m m' \<Longrightarrow> hkeep m' m'' \<Longrightarrow> hkeep m m''"
  by (simp add: hkeep_def)

lemma hkeep_link: "m i = Some e \<Longrightarrow> hkeep m (m(i \<mapsto> e\<lparr>he_next := n\<rparr>))"
  by (simp add: hkeep_def)

definition key_of :: "(u32 \<Rightarrow> ('k, 'z) hentry_scheme option) \<Rightarrow> u32 \<Rightarrow> 'k option" where
  "key_of m x = map_option he_key (m x)"

lemma hkeep_key: "hkeep m m' \<Longrightarrow> key_of m' x = key_of m x"
proof -
  assume "hkeep m m'"
  then have "map_option (\<lambda>e. he_key (e\<lparr>he_next := 0\<rparr>)) (m' x) = map_option (\<lambda>e. he_key (e\<lparr>he_next := 0\<rparr>)) (m x)"
    unfolding hkeep_def by (metis (no_types) option.map_comp comp_apply option.map_cong0)
  then show ?thesis by (simp add: key_of_def)
qed

lemma hkeep_key_fun: "hkeep m m' \<Longrightarrow> key_of m' = key_of m"
  by (rule ext) (rule hkeep_key)

lemma link_ok:
  assumes "tb_ok obj" "tb_getPtr obj i = Some e"
  obtains obj' where "tb_modify i f obj = Some obj'" "tb_ok obj'" "tb_getPtr obj' = (tb_getPtr obj)(i \<mapsto> f e)"
  using tb.modify_law [OF assms, of f] by blast

lemma unlink_chain_ok:
  assumes "tb_ok obj" "hchain (tb_getPtr obj) cur xs" "hchain (tb_getPtr obj) entries ys" "distinct (xs @ ys)"
  shows "\<exists>obj' r. unlink_chain obj cur entries = Some (obj', r) \<and> tb_ok obj' \<and>
    hchain (tb_getPtr obj') r (rev xs @ ys) \<and> hkeep (tb_getPtr obj) (tb_getPtr obj') \<and>
    (\<forall>x. x \<notin> set xs \<longrightarrow> tb_getPtr obj' x = tb_getPtr obj x)"
  using assms
proof (induction xs arbitrary: obj cur entries ys)
  case Nil
  then show ?case by (subst unlink_chain.simps) simp
next
  case (Cons x xs)
  let ?m = "tb_getPtr obj"
  from Cons.prems(2) obtain e where e: "cur = x" "x \<noteq> 0" "?m x = Some e" "hchain ?m (he_next e) xs" by auto
  obtain obj1 where o1: "tb_modify x (\<lambda>e. e\<lparr>he_next := entries\<rparr>) obj = Some obj1" "tb_ok obj1"
    "tb_getPtr obj1 = ?m(x \<mapsto> e\<lparr>he_next := entries\<rparr>)"
    using link_ok [OF Cons.prems(1) e(3)] by blast
  have ch: "hchain (tb_getPtr obj1) (he_next e) xs" "hchain (tb_getPtr obj1) x (x # ys)"
    using Cons.prems(3,4) e o1(3) by (auto intro: hchain_frame)
  obtain obj' r where r: "unlink_chain obj1 (he_next e) x = Some (obj', r)" "tb_ok obj'"
    "hchain (tb_getPtr obj') r (rev xs @ x # ys)" "hkeep (tb_getPtr obj1) (tb_getPtr obj')"
    "\<And>y. y \<notin> set xs \<Longrightarrow> tb_getPtr obj' y = tb_getPtr obj1 y"
    using Cons.IH [OF o1(2) ch] Cons.prems(4) by fastforce
  have "unlink_chain obj cur entries = Some (obj', r)"
    using e o1(1) r(1) by (subst unlink_chain.simps) simp
  moreover have "hkeep ?m (tb_getPtr obj')"
    using hkeep_trans [OF hkeep_link [of ?m x e entries] r(4) [unfolded o1(3)]] e(3) by simp
  ultimately show ?case using r(2,3,5) o1(3) by auto
qed

lemma unlink_all_ok:
  assumes "tb_ok obj" "list_all2 (hchain (tb_getPtr obj)) bs cs" "hchain (tb_getPtr obj) entries ys"
    "distinct (concat cs @ ys)"
  shows "\<exists>obj' r. unlink_all obj bs entries = Some (obj', r) \<and> tb_ok obj' \<and>
    hchain (tb_getPtr obj') r (rev (concat cs) @ ys) \<and> hkeep (tb_getPtr obj) (tb_getPtr obj')"
  using assms
proof (induction cs arbitrary: obj bs entries ys)
  case (Cons xs cs)
  from Cons.prems(2) obtain b bs' where bs: "bs = b # bs'" "hchain (tb_getPtr obj) b xs"
    "list_all2 (hchain (tb_getPtr obj)) bs' cs" by (auto simp: list_all2_Cons2)
  obtain obj1 r where o1: "unlink_chain obj b entries = Some (obj1, r)" "tb_ok obj1"
    "hchain (tb_getPtr obj1) r (rev xs @ ys)" "hkeep (tb_getPtr obj) (tb_getPtr obj1)"
    "\<And>x. x \<notin> set xs \<Longrightarrow> tb_getPtr obj1 x = tb_getPtr obj x"
  proof -
    have "distinct (xs @ ys)" using Cons.prems(4) by auto
    from unlink_chain_ok [OF Cons.prems(1) bs(2) Cons.prems(3) this] that show ?thesis by blast
  qed
  have rest: "list_all2 (hchain (tb_getPtr obj1)) bs' cs"
    using bs(3)
  proof (rule list.rel_mono_strong)
    fix c zs assume "c \<in> set bs'" "zs \<in> set cs" "hchain (tb_getPtr obj) c zs"
    have "set zs \<inter> set xs = {}" using Cons.prems(4) \<open>zs \<in> set cs\<close> by auto
    then have "tb_getPtr obj1 x = tb_getPtr obj x" if "x \<in> set zs" for x
      using o1(5) [of x] that by blast
    with \<open>hchain (tb_getPtr obj) c zs\<close> show "hchain (tb_getPtr obj1) c zs" by (rule hchain_frame)
  qed
  have "distinct (concat cs @ rev xs @ ys)" using Cons.prems(4) by auto
  from Cons.IH [OF o1(2) rest o1(3) this] obtain obj' r' where
    "unlink_all obj1 bs' r = Some (obj', r')" "tb_ok obj'"
    "hchain (tb_getPtr obj') r' (rev (concat cs) @ rev xs @ ys)" "hkeep (tb_getPtr obj1) (tb_getPtr obj')" by blast
  with o1(1,4) bs(1) show ?case using hkeep_trans by auto
qed simp

lemma mset_concat_push: "j < length cs \<Longrightarrow> mset (concat (cs[j := x # cs ! j])) = add_mset x (mset (concat cs))"
proof (induction cs arbitrary: j)
  case (Cons c cs)
  then show ?case by (cases j) simp_all
qed simp

text \<open>Putting each object at the front of its bucket, in the order of the list.\<close>

lemma reinsert_ok:
  assumes "tb_ok obj" "hchain (tb_getPtr obj) cur xs" "list_all2 (hchain (tb_getPtr obj)) tbl cs"
    "distinct (xs @ concat cs)"
    "\<And>x k. x \<in> set xs \<Longrightarrow> key_of (tb_getPtr obj) x = Some k \<Longrightarrow> unat (hf k AND sz) < length tbl"
  shows "\<exists>obj' tbl' cs'. reinsert hf sz obj tbl cur = Some (obj', tbl') \<and> tb_ok obj' \<and>
    list_all2 (hchain (tb_getPtr obj')) tbl' cs' \<and> hkeep (tb_getPtr obj) (tb_getPtr obj') \<and>
    length cs' = length cs \<and>
    (\<forall>j < length cs. cs' ! j =
       rev (filter (\<lambda>x. map_option (\<lambda>k. unat (hf k AND sz)) (key_of (tb_getPtr obj) x) = Some j) xs) @ cs ! j)"
  using assms
proof (induction xs arbitrary: obj cur tbl cs)
  case Nil
  then show ?case by (subst reinsert.simps) auto
next
  case (Cons x xs)
  let ?m = "tb_getPtr obj"
  from Cons.prems(2) obtain e where e: "cur = x" "x \<noteq> 0" "?m x = Some e" "hchain ?m (he_next e) xs" by auto
  let ?hid = "hf (he_key e) AND sz" let ?j = "unat ?hid"
  have key: "key_of ?m x = Some (he_key e)" using e(3) by (simp add: key_of_def)
  have len: "length tbl = length cs" using Cons.prems(3) by (rule list_all2_lengthD)
  have j: "?j < length cs" using Cons.prems(5) [of x] key len by simp
  obtain obj1 where o1: "tb_modify x (\<lambda>en. en\<lparr>he_next := tbl ! ?j\<rparr>) obj = Some obj1" "tb_ok obj1"
    "tb_getPtr obj1 = ?m(x \<mapsto> e\<lparr>he_next := tbl ! ?j\<rparr>)"
    using link_ok [OF Cons.prems(1) e(3)] by blast
  let ?tbl = "tbl[?j := x]" and ?cs = "cs[?j := x # cs ! ?j]"
  have keep1: "hkeep ?m (tb_getPtr obj1)" using hkeep_link [of ?m x e] e(3) o1(3) by simp
  note keys1 = hkeep_key_fun [OF keep1]
  have notin: "x \<notin> set xs" "\<And>c. c \<in> set cs \<Longrightarrow> x \<notin> set c" using Cons.prems(4) by auto
  have ch: "hchain (tb_getPtr obj1) (he_next e) xs"
    using e(4) by (rule hchain_frame) (use notin(1) in \<open>auto simp: o1(3)\<close>)
  have each: "hchain (tb_getPtr obj1) (tbl ! k) (cs ! k)" if "k < length cs" for k
  proof -
    have "hchain ?m (tbl ! k) (cs ! k)" using Cons.prems(3) that len by (simp add: list_all2_conv_all_nth)
    then show ?thesis by (rule hchain_frame) (use notin(2) [of "cs ! k"] that in \<open>auto simp: o1(3)\<close>)
  qed
  have tbls: "list_all2 (hchain (tb_getPtr obj1)) ?tbl ?cs"
    unfolding list_all2_conv_all_nth
  proof (intro conjI allI impI)
    fix k assume "k < length ?tbl"
    then show "hchain (tb_getPtr obj1) (?tbl ! k) (?cs ! k)"
      using each [of k] e(2) len by (cases "k = ?j") (simp_all add: o1(3))
  qed (simp add: len)
  have "mset (concat ?cs) = add_mset x (mset (concat cs))" by (rule mset_concat_push [OF j])
  then have "mset (xs @ concat ?cs) = mset ((x # xs) @ concat cs)" by simp
  then have dist: "distinct (xs @ concat ?cs)" using Cons.prems(4) by (metis mset_eq_imp_distinct_iff)
  have bound: "unat (hf k AND sz) < length ?tbl"
    if "y \<in> set xs" "key_of (tb_getPtr obj1) y = Some k" for y k
    using Cons.prems(5) [of y k] that by (simp add: keys1)
  have "\<exists>obj' tbl' cs'. reinsert hf sz obj1 ?tbl (he_next e) = Some (obj', tbl') \<and> tb_ok obj' \<and>
    list_all2 (hchain (tb_getPtr obj')) tbl' cs' \<and> hkeep (tb_getPtr obj1) (tb_getPtr obj') \<and>
    length cs' = length ?cs \<and> (\<forall>j < length ?cs. cs' ! j =
       rev (filter (\<lambda>x. map_option (\<lambda>k. unat (hf k AND sz)) (key_of (tb_getPtr obj1) x) = Some j) xs) @ ?cs ! j)"
    by (rule Cons.IH [OF o1(2) ch tbls dist]) (rule bound)
  then obtain obj' tbl' cs' where r:
    "reinsert hf sz obj1 ?tbl (he_next e) = Some (obj', tbl')" "tb_ok obj'"
    "list_all2 (hchain (tb_getPtr obj')) tbl' cs'" "hkeep (tb_getPtr obj1) (tb_getPtr obj')"
    "length cs' = length ?cs"
    "\<And>j. j < length ?cs \<Longrightarrow> cs' ! j =
       rev (filter (\<lambda>x. map_option (\<lambda>k. unat (hf k AND sz)) (key_of ?m x) = Some j) xs) @ ?cs ! j"
    unfolding keys1 by blast
  have "reinsert hf sz obj tbl cur = Some (obj', tbl')"
    using e j len o1(1) r(1) by (subst reinsert.simps) (simp add: bucket_def)
  moreover have "cs' ! k = rev (filter (\<lambda>x. map_option (\<lambda>k. unat (hf k AND sz)) (key_of ?m x) = Some k) (x # xs)) @ cs ! k"
    if "k < length cs" for k
    using r(6) [of k] that key by (cases "k = ?j") simp_all
  ultimately show ?case
    using r(2-5) hkeep_trans [OF keep1 r(4)] by (intro exI [of _ obj'] exI [of _ tbl'] exI [of _ cs']) simp
qed

section \<open>Buckets\<close>

definition slot_of :: "('k \<Rightarrow> u32) \<Rightarrow> nat \<Rightarrow> 'k \<Rightarrow> nat" where
  "slot_of hf n k = unat (hf k AND (of_nat n - 1))"

lemma slot_of_pow: "i < 32 \<Longrightarrow> slot_of hf (2 ^ i) k = unat (hf k) mod 2 ^ i"
  using pv_page_offset(2) [of i "2 ^ i" "hf k"] by (simp add: slot_of_def pv_offset_def)

lemma slot_of_less: "i < 32 \<Longrightarrow> slot_of hf (2 ^ i) k < 2 ^ i"
  by (simp add: slot_of_pow)

definition ht_size_ok :: "nat \<Rightarrow> bool" where
  "ht_size_ok n \<longleftrightarrow> (\<exists>i \<le> 30. n = 2 ^ i)"

lemma slot_of_size: "ht_size_ok n \<Longrightarrow> slot_of hf n k < n"
  by (auto simp: ht_size_ok_def slot_of_less)

text \<open>A list dealt out into \<open>n\<close> buckets.\<close>

definition deal :: "nat \<Rightarrow> ('a \<Rightarrow> nat option) \<Rightarrow> 'a list \<Rightarrow> 'a list list" where
  "deal n g xs = map (\<lambda>j. filter (\<lambda>x. g x = Some j) xs) [0..<n]"

lemma deal_nth: "j < n \<Longrightarrow> deal n g xs ! j = filter (\<lambda>x. g x = Some j) xs"
  by (simp add: deal_def)

lemma deal_mset:
  assumes "\<And>x. x \<in> set xs \<Longrightarrow> \<exists>j < n. g x = Some j"
  shows "mset (concat (deal n g xs)) = mset xs"
  using assms
proof (induction xs)
  case Nil
  then show ?case by (simp add: deal_def concat_eq_Nil_conv [THEN iffD2])
next
  case (Cons x xs)
  obtain j where j: "j < n" "g x = Some j" using Cons.prems [of x] by auto
  have "deal n g (x # xs) = (deal n g xs)[j := x # deal n g xs ! j]"
    using j by (intro nth_equalityI) (auto simp: deal_def nth_list_update)
  moreover have "j < length (deal n g xs)" using j by (simp add: deal_def)
  ultimately show ?case using mset_concat_push [of j "deal n g xs" x] Cons by simp
qed

lemma concat_only:
  "j < length cs \<Longrightarrow> (\<And>i. i < length cs \<Longrightarrow> i \<noteq> j \<Longrightarrow> f (cs ! i) = []) \<Longrightarrow> concat (map f cs) = f (cs ! j)"
proof (induction cs arbitrary: j)
  case (Cons c cs)
  show ?case
  proof (cases j)
    case 0
    have "f (cs ! i) = []" if "i < length cs" for i using Cons.prems(2) [of "Suc i"] that 0 by simp
    then have "\<forall>c \<in> set cs. f c = []" by (auto simp: in_set_conv_nth)
    with 0 show ?thesis by simp
  next
    case (Suc k)
    have "f c = []" using Cons.prems(2) [of 0] Suc by simp
    moreover have "concat (map f cs) = f (cs ! k)"
    proof (rule Cons.IH)
      show "k < length cs" using Cons.prems(1) Suc by simp
      show "f (cs ! i) = []" if "i < length cs" "i \<noteq> k" for i
        using Cons.prems(2) [of "Suc i"] that Suc by simp
    qed
    ultimately show ?thesis using Suc by simp
  qed
qed simp

section \<open>Representation\<close>

text \<open>
  \<open>cs\<close> are the buckets of a table over the heap \<open>m\<close>: every object sits in the bucket of its key,
  once, the counter is their number, and on average a bucket holds fewer than five.
\<close>

definition bucketed :: "('k \<Rightarrow> u32) \<Rightarrow> (u32 \<Rightarrow> 'k option) \<Rightarrow> u32 list list \<Rightarrow> bool" where
  "bucketed hf key cs \<longleftrightarrow>
     (\<forall>j < length cs. \<forall>x \<in> set (cs ! j). map_option (slot_of hf (length cs)) (key x) = Some j)"

definition ht_rep :: "('k \<Rightarrow> u32) \<Rightarrow> (u32 \<Rightarrow> ('k, 'z) hentry_scheme option) \<Rightarrow> hashtab \<Rightarrow> u32 list list \<Rightarrow> bool" where
  "ht_rep hf m h cs \<longleftrightarrow>
     list_all2 (hchain m) (ht_tbl h) cs \<and> distinct (concat cs) \<and>
     unat (ht_num h) = length (concat cs) \<and> bucketed hf (key_of m) cs \<and>
     (cs = [] \<or> ht_size_ok (length cs) \<and> length (concat cs) < 5 * length cs)"

text \<open>The objects with a key, latest first.\<close>

definition ht_stack :: "(u32 \<Rightarrow> ('k, 'z) hentry_scheme option) \<Rightarrow> u32 list list \<Rightarrow> 'k \<Rightarrow> u32 list" where
  "ht_stack m cs k = filter (\<lambda>x. key_of m x = Some k) (concat cs)"

definition ht_abs :: "('k \<Rightarrow> u32) \<Rightarrow> ('k, 'z) objtab \<Rightarrow> hashtab \<Rightarrow> ('k \<Rightarrow> u32 list) \<Rightarrow> bool" where
  "ht_abs hf obj h A \<longleftrightarrow> (\<exists>cs. ht_rep hf (tb_getPtr obj) h cs \<and> A = ht_stack (tb_getPtr obj) cs)"

lemma bucket_stack:
  assumes "bucketed hf (key_of m) cs" "ht_size_ok (length cs)"
  shows "ht_stack m cs k = filter (\<lambda>x. key_of m x = Some k) (cs ! slot_of hf (length cs) k)"
  unfolding ht_stack_def filter_concat
proof (rule concat_only)
  show "slot_of hf (length cs) k < length cs" by (rule slot_of_size [OF assms(2)])
  fix i assume i: "i < length cs" "i \<noteq> slot_of hf (length cs) k"
  have "key_of m x \<noteq> Some k" if "x \<in> set (cs ! i)" for x
    using assms(1) i that unfolding bucketed_def by fastforce
  then show "filter (\<lambda>x. key_of m x = Some k) (cs ! i) = []" by simp
qed

text \<open>Unlinking every bucket and dealing the objects out again into \<open>n\<close> buckets.\<close>

lemma rehash_ok:
  fixes obj :: "('k, 'z) objtab"
  assumes "tb_ok obj" "list_all2 (hchain (tb_getPtr obj)) tbl cs" "distinct (concat cs)" "ht_size_ok n"
    "\<And>x. x \<in> set (concat cs) \<Longrightarrow> key_of (tb_getPtr obj) x \<noteq> None"
  obtains obj1 r obj' tbl' cs' where
    "unlink_all obj tbl 0 = Some (obj1, r)"
    "reinsert hf (of_nat n - 1) obj1 (replicate n 0) r = Some (obj', tbl')" "tb_ok obj'"
    "list_all2 (hchain (tb_getPtr obj')) tbl' cs'" "hkeep (tb_getPtr obj) (tb_getPtr obj')"
    "length cs' = n" "bucketed hf (key_of (tb_getPtr obj')) cs'" "mset (concat cs') = mset (concat cs)"
    "ht_stack (tb_getPtr obj') cs' = ht_stack (tb_getPtr obj) cs"
proof -
  let ?m = "tb_getPtr obj" let ?g = "\<lambda>x. map_option (slot_of hf n) (key_of ?m x)"
  obtain obj1 r where o1: "unlink_all obj tbl 0 = Some (obj1, r)" "tb_ok obj1"
    "hchain (tb_getPtr obj1) r (rev (concat cs))" "hkeep ?m (tb_getPtr obj1)"
    using unlink_all_ok [OF assms(1,2), of 0 "[]"] assms(3) by auto
  note keys1 = hkeep_key_fun [OF o1(4)]
  have empty: "list_all2 (hchain (tb_getPtr obj1)) (replicate n 0) (replicate n [])"
    by (simp add: list_all2_conv_all_nth)
  have "concat (replicate n []) = ([] :: u32 list)" by (simp add: concat_eq_Nil_conv)
  then have dist: "distinct (rev (concat cs) @ concat (replicate n []))" using assms(3) by simp
  have "\<exists>obj' tbl' cs'. reinsert hf (of_nat n - 1) obj1 (replicate n 0) r = Some (obj', tbl') \<and> tb_ok obj' \<and>
    list_all2 (hchain (tb_getPtr obj')) tbl' cs' \<and> hkeep (tb_getPtr obj1) (tb_getPtr obj') \<and>
    length cs' = length (replicate n [] :: u32 list list) \<and>
    (\<forall>j < length (replicate n [] :: u32 list list). cs' ! j = rev (filter (\<lambda>x. map_option (\<lambda>k. unat (hf k AND (of_nat n - 1)))
       (key_of (tb_getPtr obj1) x) = Some j) (rev (concat cs))) @ replicate n [] ! j)"
    by (rule reinsert_ok [OF o1(2,3) empty dist])
      (use slot_of_size [OF assms(4), of hf] in \<open>simp add: slot_of_def\<close>)
  then obtain obj' tbl' cs' where r: "reinsert hf (of_nat n - 1) obj1 (replicate n 0) r = Some (obj', tbl')"
    "tb_ok obj'" "list_all2 (hchain (tb_getPtr obj')) tbl' cs'" "hkeep (tb_getPtr obj1) (tb_getPtr obj')"
    "length cs' = n" "\<And>j. j < n \<Longrightarrow> cs' ! j = filter (\<lambda>x. ?g x = Some j) (concat cs)"
    unfolding keys1 slot_of_def by (auto simp: rev_filter)
  have keep: "hkeep ?m (tb_getPtr obj')" by (rule hkeep_trans [OF o1(4) r(4)])
  note keys = hkeep_key_fun [OF keep]
  have cs': "cs' = deal n ?g (concat cs)"
    using r(5,6) by (intro nth_equalityI) (simp_all add: deal_nth, simp add: deal_def)
  have slot: "\<exists>j < n. ?g x = Some j" if "x \<in> set (concat cs)" for x
    using assms(5) [OF that] slot_of_size [OF assms(4)] by auto
  have b: "bucketed hf (key_of (tb_getPtr obj')) cs'"
    unfolding bucketed_def keys using r(5,6) by auto
  have "ht_stack (tb_getPtr obj') cs' k = ht_stack ?m cs k" for k
  proof -
    have n: "ht_size_ok (length cs')" "slot_of hf n k < n" using assms(4) r(5) slot_of_size by auto
    have "ht_stack (tb_getPtr obj') cs' k
        = filter (\<lambda>x. key_of ?m x = Some k) (filter (\<lambda>x. ?g x = Some (slot_of hf n k)) (concat cs))"
      using bucket_stack [OF b n(1), of k] r(6) [OF n(2)] by (simp add: keys r(5))
    also have "\<dots> = ht_stack ?m cs k"
      unfolding ht_stack_def filter_filter by (rule filter_cong) auto
    finally show ?thesis .
  qed
  with o1(1) r(1,2,3,5) keep b deal_mset [of "concat cs" n ?g, OF slot] show ?thesis
    by (intro that [of obj1 r obj' tbl' cs']) (auto simp: cs')
qed

section \<open>find\<close>

definition top_of :: "u32 list \<Rightarrow> u32" where
  "top_of xs = (case xs of [] \<Rightarrow> 0 | x # ys \<Rightarrow> x)"

lemma find_chain_ok:
  "hchain (tb_getPtr obj) cur xs \<Longrightarrow>
     find_chain obj k cur = Some (top_of (filter (\<lambda>x. key_of (tb_getPtr obj) x = Some k) xs))"
proof (induction xs arbitrary: cur)
  case Nil
  then show ?case by (subst find_chain.simps) (simp add: top_of_def)
next
  case (Cons x xs)
  then obtain e where e: "cur = x" "x \<noteq> 0" "tb_getPtr obj x = Some e" "hchain (tb_getPtr obj) (he_next e) xs"
    by auto
  then show ?case
    using Cons.IH [OF e(4)] by (subst find_chain.simps) (simp add: top_of_def key_of_def)
qed

lemma ht_lookup:
  assumes "ht_rep hf (tb_getPtr obj) h cs" "cs \<noteq> []"
  shows "ht_size_ok (length cs)" "length (ht_tbl h) = length cs"
    "bucket (ht_tbl h) (hf k AND (of_nat (length (ht_tbl h)) - 1)) = Some (ht_tbl h ! slot_of hf (length cs) k)"
    "hchain (tb_getPtr obj) (ht_tbl h ! slot_of hf (length cs) k) (cs ! slot_of hf (length cs) k)"
    "slot_of hf (length cs) k < length cs"
proof -
  show n: "ht_size_ok (length cs)" using assms by (simp add: ht_rep_def)
  have l2: "list_all2 (hchain (tb_getPtr obj)) (ht_tbl h) cs" using assms(1) by (simp add: ht_rep_def)
  then show len: "length (ht_tbl h) = length cs" by (rule list_all2_lengthD)
  show less: "slot_of hf (length cs) k < length cs" by (rule slot_of_size [OF n])
  then show "bucket (ht_tbl h) (hf k AND (of_nat (length (ht_tbl h)) - 1)) = Some (ht_tbl h ! slot_of hf (length cs) k)"
    by (simp add: bucket_def len slot_of_def)
  show "hchain (tb_getPtr obj) (ht_tbl h ! slot_of hf (length cs) k) (cs ! slot_of hf (length cs) k)"
    using l2 less len by (simp add: list_all2_conv_all_nth)
qed

lemma ht_find_ok:
  assumes "ht_rep hf (tb_getPtr obj) h cs"
  shows "ht_find hf k obj h = Some (top_of (ht_stack (tb_getPtr obj) cs k))"
proof (cases "cs = []")
  case True
  then have "ht_tbl h = []" using assms by (simp add: ht_rep_def)
  with True show ?thesis by (simp add: ht_find_def ht_stack_def top_of_def)
next
  case False
  note l = ht_lookup(1,2) [OF assms False] and lk = ht_lookup(3-5) [OF assms False, of k]
  have b: "bucketed hf (key_of (tb_getPtr obj)) cs" using assms by (simp add: ht_rep_def)
  show ?thesis
    using l(2) lk(1) False find_chain_ok [OF lk(2), of k] bucket_stack [OF b l(1), of k]
    by (auto simp: ht_find_def Let_def)
qed

lemma ht_hasMember_find: "ht_hasMember hf k obj h = map_option (\<lambda>i. i \<noteq> 0) (ht_find hf k obj h)"
  by (cases "bucket (ht_tbl h) (hf k AND (of_nat (length (ht_tbl h)) - 1))")
    (simp_all add: ht_hasMember_def ht_find_def Let_def)

section \<open>insert\<close>

lemma ht_count_bound:
  assumes "tb_ok obj" "distinct xs" "\<And>x. x \<in> set xs \<Longrightarrow> x \<in> tb_ids obj"
  shows "length xs < 2147483648"
proof -
  obtain fl where b: "tb_base obj fl" "tb_shape obj" using tb_okD [OF assms(1)] by metis
  have "length xs = card (set xs)" using assms(2) by (simp add: distinct_card)
  also have "\<dots> \<le> card (tb_ids obj)" using assms(3) by (intro card_mono) auto
  finally have le: "length xs \<le> card (tb_ids obj)" .
  from tb_ids_card [OF b(1)] show ?thesis
  proof
    assume "card (tb_ids obj) < tb_cap obj"
    with le tb_shapeD(4) [OF b(2)] show ?thesis by linarith
  qed (use le in simp)
qed

lemma ht_rep_members:
  assumes "ht_rep hf m h cs" "x \<in> set (concat cs)"
  shows "x \<noteq> 0" "\<exists>e. m x = Some e" "key_of m x \<noteq> None"
proof -
  obtain j where j: "j < length cs" "x \<in> set (cs ! j)"
    using assms(2) by (auto simp: in_set_conv_nth [of _ cs])
  then have "hchain m (ht_tbl h ! j) (cs ! j)" using assms(1) by (simp add: ht_rep_def list_all2_conv_all_nth)
  from hchain_member [OF this j(2)] show "x \<noteq> 0" "\<exists>e. m x = Some e" "key_of m x \<noteq> None"
    by (auto simp: key_of_def)
qed

text \<open>The object becomes the head of the bucket of its key.\<close>

lemma ht_push_ok:
  assumes "tb_ok obj" "list_all2 (hchain (tb_getPtr obj)) tbl cs" "distinct (concat cs)"
    "bucketed hf (key_of (tb_getPtr obj)) cs" "ht_size_ok (length cs)"
    "tb_getPtr obj i = Some e" "i \<notin> set (concat cs)"
  obtains obj' where
    "tb_modify i (\<lambda>en. en\<lparr>he_next := tbl ! slot_of hf (length cs) (he_key e)\<rparr>) obj = Some obj'" "tb_ok obj'"
    "hkeep (tb_getPtr obj) (tb_getPtr obj')"
    "list_all2 (hchain (tb_getPtr obj')) (tbl[slot_of hf (length cs) (he_key e) := i])
       (cs[slot_of hf (length cs) (he_key e) := i # cs ! slot_of hf (length cs) (he_key e)])"
    "bucketed hf (key_of (tb_getPtr obj')) (cs[slot_of hf (length cs) (he_key e) := i # cs ! slot_of hf (length cs) (he_key e)])"
    "ht_stack (tb_getPtr obj') (cs[slot_of hf (length cs) (he_key e) := i # cs ! slot_of hf (length cs) (he_key e)])
       = (ht_stack (tb_getPtr obj) cs)(he_key e := i # ht_stack (tb_getPtr obj) cs (he_key e))"
proof -
  let ?m = "tb_getPtr obj" let ?j = "slot_of hf (length cs) (he_key e)" let ?cs = "cs[?j := i # cs ! ?j]"
  have j: "?j < length cs" by (rule slot_of_size [OF assms(5)])
  have len: "length tbl = length cs" using assms(2) by (rule list_all2_lengthD)
  obtain obj' where o': "tb_modify i (\<lambda>en. en\<lparr>he_next := tbl ! ?j\<rparr>) obj = Some obj'" "tb_ok obj'"
    "tb_getPtr obj' = ?m(i \<mapsto> e\<lparr>he_next := tbl ! ?j\<rparr>)"
    using link_ok [OF assms(1,6)] by blast
  have keep: "hkeep ?m (tb_getPtr obj')" using hkeep_link [of ?m i e] assms(6) o'(3) by simp
  note keys = hkeep_key_fun [OF keep]
  have i0: "i \<noteq> 0" using assms(6) by (auto simp: tb_getPtr_Some)
  have key: "key_of ?m i = Some (he_key e)" using assms(6) by (simp add: key_of_def)
  have each: "hchain (tb_getPtr obj') (tbl ! k) (cs ! k)" if "k < length cs" for k
  proof -
    have "hchain ?m (tbl ! k) (cs ! k)" using assms(2) that len by (simp add: list_all2_conv_all_nth)
    then show ?thesis by (rule hchain_frame) (use assms(7) that in \<open>auto simp: o'(3)\<close>)
  qed
  have l2: "list_all2 (hchain (tb_getPtr obj')) (tbl[?j := i]) ?cs"
    unfolding list_all2_conv_all_nth
  proof (intro conjI allI impI)
    fix k assume "k < length (tbl[?j := i])"
    then show "hchain (tb_getPtr obj') (tbl[?j := i] ! k) (?cs ! k)"
      using each [of k] i0 len by (cases "k = ?j") (simp_all add: o'(3))
  qed (simp add: len)
  have b: "bucketed hf (key_of (tb_getPtr obj')) ?cs"
    unfolding bucketed_def keys
  proof (intro allI impI ballI)
    fix k x assume "k < length ?cs" "x \<in> set (?cs ! k)"
    then show "map_option (slot_of hf (length ?cs)) (key_of ?m x) = Some k"
      using assms(4) key j unfolding bucketed_def by (cases "k = ?j") auto
  qed
  have n: "ht_size_ok (length ?cs)" using assms(5) by simp
  have "ht_stack (tb_getPtr obj') ?cs k = ((ht_stack ?m cs)(he_key e := i # ht_stack ?m cs (he_key e))) k" for k
  proof (cases "k = he_key e")
    case True
    then show ?thesis
      using bucket_stack [OF b n, of k] bucket_stack [OF assms(4,5), of k] j key by (simp add: keys)
  next
    case False
    then have "filter (\<lambda>x. key_of ?m x = Some k) (?cs ! slot_of hf (length cs) k)
        = filter (\<lambda>x. key_of ?m x = Some k) (cs ! slot_of hf (length cs) k)"
      using j key by (cases "slot_of hf (length cs) k = ?j") simp_all
    with False show ?thesis
      using bucket_stack [OF b n, of k] bucket_stack [OF assms(4,5), of k] by (simp add: keys)
  qed
  with o'(1,2) keep l2 b show ?thesis using that by blast
qed

text \<open>A table ready for one more object.\<close>

lemma ht_prepare_ok:
  fixes obj :: "('k, 'z) objtab"
  assumes "tb_ok obj" "ht_rep hf (tb_getPtr obj) h cs" "length (concat cs) + 1 < 2147483648"
  obtains obj2 h2 cs2 where
    "(if length (ht_tbl h) = 0 then Some (obj, h\<lparr>ht_num := ht_num h + 1, ht_tbl := [0]\<rparr>)
      else if unat ((ht_num h + 1) div of_nat (length (ht_tbl h))) > chain_length
           then growTable hf obj (h\<lparr>ht_num := ht_num h + 1\<rparr>)
      else Some (obj, h\<lparr>ht_num := ht_num h + 1\<rparr>)) = Some (obj2, h2)"
    "tb_ok obj2" "list_all2 (hchain (tb_getPtr obj2)) (ht_tbl h2) cs2" "mset (concat cs2) = mset (concat cs)"
    "bucketed hf (key_of (tb_getPtr obj2)) cs2" "ht_size_ok (length cs2)"
    "length (concat cs) + 1 < 5 * length cs2" "hkeep (tb_getPtr obj) (tb_getPtr obj2)"
    "ht_stack (tb_getPtr obj2) cs2 = ht_stack (tb_getPtr obj) cs" "unat (ht_num h2) = length (concat cs) + 1"
proof -
  let ?m = "tb_getPtr obj" and ?h1 = "h\<lparr>ht_num := ht_num h + 1\<rparr>" and ?sz = "length (ht_tbl h)"
  have rep: "list_all2 (hchain ?m) (ht_tbl h) cs" "distinct (concat cs)" "unat (ht_num h) = length (concat cs)"
    "bucketed hf (key_of ?m) cs" "cs = [] \<or> ht_size_ok (length cs) \<and> length (concat cs) < 5 * length cs"
    using assms(2) by (simp_all only: ht_rep_def)
  have num: "unat (ht_num h + 1) = length (concat cs) + 1"
    using unat_add_lem [of "ht_num h" 1] rep(3) assms(3) by simp
  have len: "?sz = length cs" using rep(1) by (rule list_all2_lengthD)
  show ?thesis
  proof (cases "cs = []")
    case True
    show ?thesis
      by (rule that [of obj "?h1\<lparr>ht_tbl := [0]\<rparr>" "[[]]"])
        (use True assms(1) len num in \<open>simp_all add: bucketed_def ht_size_ok_def exI [of _ 0] ht_stack_def fun_eq_iff\<close>)
  next
    case False
    with rep(5) have n: "ht_size_ok ?sz" "length (concat cs) < 5 * ?sz" unfolding len by simp_all
    then obtain i where i: "?sz = 2 ^ i" "i \<le> 30" by (auto simp: ht_size_ok_def)
    have "(2 :: nat) ^ i \<le> 2 ^ 30" using i(2) by (intro power_increasing) auto
    then have "unat (of_nat ?sz :: u32) = ?sz"
      using i by (subst unsigned_of_nat) (simp add: take_bit_nat_eq_self)
    then have q: "unat ((ht_num h + 1) div of_nat ?sz) = (length (concat cs) + 1) div ?sz"
      by (simp only: unat_div num)
    have pos: "0 < ?sz" using i(1) by simp
    show ?thesis
    proof (cases "chain_length < (length (concat cs) + 1) div ?sz")
      case fits: False
      then have "(length (concat cs) + 1) div ?sz < 5" by (simp add: chain_length_def)
      then have "length (concat cs) + 1 < 5 * ?sz" using pos by (simp add: div_less_iff_less_mult)
      with False fits show ?thesis
        using rep(1,4) n assms(1) num len
        by (intro that [of obj ?h1 cs]) (simp_all add: q [unfolded len])
    next
      case grow: True
      then have "5 \<le> (length (concat cs) + 1) div ?sz" by (simp add: chain_length_def)
      then have "5 * ?sz \<le> length (concat cs) + 1" using pos by (simp add: less_eq_div_iff_mult_less_eq)
      with n(2) have five: "length (concat cs) + 1 = 5 * ?sz" by simp
      have "i < 30"
      proof (rule ccontr)
        assume "\<not> i < 30"
        with i(2) have "i = 30" by simp
        with five i(1) assms(3) show False by simp
      qed
      then have n2: "ht_size_ok (2 * ?sz)"
        unfolding ht_size_ok_def i(1) by (intro exI [of _ "Suc i"]) simp
      have keys: "key_of ?m x \<noteq> None" if "x \<in> set (concat cs)" for x
        using ht_rep_members(3) [OF assms(2) that] .
      obtain obj1 r obj' tbl' cs' where r:
        "unlink_all obj (ht_tbl h) 0 = Some (obj1, r)"
        "reinsert hf (of_nat (2 * ?sz) - 1) obj1 (replicate (2 * ?sz) 0) r = Some (obj', tbl')" "tb_ok obj'"
        "list_all2 (hchain (tb_getPtr obj')) tbl' cs'" "hkeep ?m (tb_getPtr obj')"
        "length cs' = 2 * ?sz" "bucketed hf (key_of (tb_getPtr obj')) cs'" "mset (concat cs') = mset (concat cs)"
        "ht_stack (tb_getPtr obj') cs' = ht_stack ?m cs"
        by (rule rehash_ok [OF assms(1) rep(1,2) n2 keys]) 
      have "replicate ?sz 0 @ replicate ?sz 0 = (replicate (2 * ?sz) 0 :: u32 list)"
        by (simp only: replicate_add [symmetric] mult_2)
      then have "growTable hf obj ?h1 = Some (obj', ?h1\<lparr>ht_tbl := tbl'\<rparr>)"
        using r(1,2) by (simp add: growTable_def Let_def del: replicate_add)
      with grow pos r(3-9) five n2 num show ?thesis
        by (intro that [of obj' "?h1\<lparr>ht_tbl := tbl'\<rparr>" cs']) (simp_all add: q)
    qed
  qed
qed

lemma ht_insert_ok:
  assumes "tb_ok obj" "ht_rep hf (tb_getPtr obj) h cs" "tb_getPtr obj i = Some e" "i \<notin> set (concat cs)"
  obtains obj' h' cs' where "ht_insert hf i obj h = Some (obj', h')" "tb_ok obj'"
    "hkeep (tb_getPtr obj) (tb_getPtr obj')" "ht_rep hf (tb_getPtr obj') h' cs'"
    "ht_stack (tb_getPtr obj') cs' = (ht_stack (tb_getPtr obj) cs)(he_key e := i # ht_stack (tb_getPtr obj) cs (he_key e))"
    "set (concat cs') = insert i (set (concat cs))"
proof -
  have dist: "distinct (concat cs)" using assms(2) by (simp add: ht_rep_def)
  have "length (i # concat cs) < 2147483648"
    by (rule ht_count_bound [OF assms(1)])
      (use dist assms(3,4) ht_rep_members(2) [OF assms(2)] in auto)
  then have room: "length (concat cs) + 1 < 2147483648" by simp
  obtain obj2 h2 cs2 where p:
    "(if length (ht_tbl h) = 0 then Some (obj, h\<lparr>ht_num := ht_num h + 1, ht_tbl := [0]\<rparr>)
      else if unat ((ht_num h + 1) div of_nat (length (ht_tbl h))) > chain_length
           then growTable hf obj (h\<lparr>ht_num := ht_num h + 1\<rparr>)
      else Some (obj, h\<lparr>ht_num := ht_num h + 1\<rparr>)) = Some (obj2, h2)"
    "tb_ok obj2" "list_all2 (hchain (tb_getPtr obj2)) (ht_tbl h2) cs2" "mset (concat cs2) = mset (concat cs)"
    "bucketed hf (key_of (tb_getPtr obj2)) cs2" "ht_size_ok (length cs2)"
    "length (concat cs) + 1 < 5 * length cs2" "hkeep (tb_getPtr obj) (tb_getPtr obj2)"
    "ht_stack (tb_getPtr obj2) cs2 = ht_stack (tb_getPtr obj) cs" "unat (ht_num h2) = length (concat cs) + 1"
    by (rule ht_prepare_ok [OF assms(1,2) room])
  have "key_of (tb_getPtr obj2) i = Some (he_key e)"
    using hkeep_key [OF p(8)] assms(3) by (simp add: key_of_def)
  then obtain e2 where e2: "tb_getPtr obj2 i = Some e2" "he_key e2 = he_key e" by (auto simp: key_of_def)
  have set2: "set (concat cs2) = set (concat cs)" using p(4) by (metis set_mset_mset)
  have dist2: "distinct (concat cs2)" using p(4) dist by (metis mset_eq_imp_distinct_iff)
  have new2: "i \<notin> set (concat cs2)" using assms(4) set2 by simp
  let ?j = "slot_of hf (length cs2) (he_key e2)"
  let ?cs = "cs2[?j := i # cs2 ! ?j]" and ?h = "h2\<lparr>ht_tbl := (ht_tbl h2)[?j := i]\<rparr>"
  have j: "?j < length cs2" by (rule slot_of_size [OF p(6)])
  have len: "length (ht_tbl h2) = length cs2" using p(3) by (rule list_all2_lengthD)
  obtain obj' where o': "tb_modify i (\<lambda>en. en\<lparr>he_next := ht_tbl h2 ! ?j\<rparr>) obj2 = Some obj'" "tb_ok obj'"
    "hkeep (tb_getPtr obj2) (tb_getPtr obj')" "list_all2 (hchain (tb_getPtr obj')) ((ht_tbl h2)[?j := i]) ?cs"
    "bucketed hf (key_of (tb_getPtr obj')) ?cs"
    "ht_stack (tb_getPtr obj') ?cs = (ht_stack (tb_getPtr obj2) cs2)(he_key e2 := i # ht_stack (tb_getPtr obj2) cs2 (he_key e2))"
    by (rule ht_push_ok [OF p(2,3) dist2 p(5,6) e2(1) new2])
  have ms: "mset (concat ?cs) = add_mset i (mset (concat cs))" using mset_concat_push [OF j] p(4) by simp
  have mask: "hf (he_key e2) AND (of_nat (length (ht_tbl h2)) - 1) = hf (he_key e2) AND (of_nat (length cs2) - 1)"
    by (simp add: len)
  have "ht_insert hf i obj h = Some (obj', ?h)"
  proof -
    have "(if length (ht_tbl (h\<lparr>ht_num := ht_num h + 1\<rparr>)) = 0 then Some (obj, h\<lparr>ht_num := ht_num h + 1, ht_tbl := [0]\<rparr>)
      else if unat (ht_num (h\<lparr>ht_num := ht_num h + 1\<rparr>) div of_nat (length (ht_tbl (h\<lparr>ht_num := ht_num h + 1\<rparr>)))) > chain_length
           then growTable hf obj (h\<lparr>ht_num := ht_num h + 1\<rparr>)
      else Some (obj, h\<lparr>ht_num := ht_num h + 1\<rparr>)) = Some (obj2, h2)"
      using p(1) by (auto split: if_splits)
    from this e2(1) o'(1) j show ?thesis
      unfolding ht_insert_def Let_def by (simp only: bind.bind_lunit prod.case)
        (simp add: bucket_def slot_of_def len)
  qed
  moreover have "ht_rep hf (tb_getPtr obj') ?h ?cs"
  proof -
    have "length (concat ?cs) = length (concat cs) + 1" using arg_cong [OF ms, of size] by simp
    moreover have "distinct (concat ?cs)"
      using ms dist assms(4) by (metis mset.simps(2) mset_eq_imp_distinct_iff distinct.simps(2))
    ultimately show ?thesis using o'(4,5) p(6,7,10) by (simp add: ht_rep_def del: length_concat)
  qed
  moreover have "set (concat ?cs) = insert i (set (concat cs))"
    using arg_cong [OF ms, of set_mset] by simp
  ultimately show ?thesis
    using that [of obj' ?h ?cs] o'(2,6) hkeep_trans [OF p(8) o'(3)] p(9) e2(2) by simp
qed

section \<open>remove\<close>

lemma hchain_splice:
  assumes "hchain m c (qs @ p # x # rest)" "distinct (qs @ p # x # rest)" "m p = Some ep" "m x = Some ex"
  shows "hchain (m(p \<mapsto> ep\<lparr>he_next := he_next ex\<rparr>)) c (qs @ p # rest)"
  using assms
proof (induction qs arbitrary: c)
  case Nil
  then have "hchain m (he_next ex) rest" by auto
  then have "hchain (m(p \<mapsto> ep\<lparr>he_next := he_next ex\<rparr>)) (he_next ex) rest"
    by (rule hchain_frame) (use Nil.prems(2) in auto)
  with Nil.prems show ?case by (auto simp del: fun_upd_apply simp add: fun_upd_same)
next
  case (Cons q qs)
  then show ?case by auto
qed

lemma remove_chain_absent:
  "hchain (tb_getPtr obj) cur xs \<Longrightarrow> i \<notin> set xs \<Longrightarrow> remove_chain i hid cur prev obj tbl = Some None"
proof (induction xs arbitrary: cur prev)
  case Nil
  then show ?case by (subst remove_chain.simps) simp
next
  case (Cons x xs)
  then obtain e where e: "cur = x" "x \<noteq> 0" "tb_getPtr obj x = Some e" "hchain (tb_getPtr obj) (he_next e) xs"
    by auto
  moreover have "x \<noteq> i" "i \<notin> set xs" using Cons.prems(2) by auto
  ultimately show ?case using Cons.IH [OF e(4)] by (subst remove_chain.simps) simp
qed

lemma remove_chain_ok:
  assumes "tb_ok obj" "hchain (tb_getPtr obj) (tbl ! unat hid) (ps @ xs)" "hchain (tb_getPtr obj) cur xs"
    "distinct (ps @ xs)" "i \<in> set xs" "prev = (if ps = [] then 0 else last ps)" "unat hid < length tbl"
  shows "\<exists>obj' c. remove_chain i hid cur prev obj tbl = Some (Some (obj', tbl[unat hid := c])) \<and> tb_ok obj' \<and>
    hchain (tb_getPtr obj') c (ps @ remove1 i xs) \<and> hkeep (tb_getPtr obj) (tb_getPtr obj') \<and>
    (\<forall>x. x \<notin> set (ps @ xs) \<longrightarrow> tb_getPtr obj' x = tb_getPtr obj x)"
  using assms
proof (induction xs arbitrary: ps cur prev)
  case (Cons x xs)
  let ?m = "tb_getPtr obj"
  from Cons.prems(3) obtain e where e: "cur = x" "x \<noteq> 0" "?m x = Some e" "hchain ?m (he_next e) xs" by auto
  show ?case
  proof (cases "x = i")
    case True
    show ?thesis
    proof (cases ps rule: rev_cases)
      case Nil
      then have "remove_chain i hid cur prev obj tbl = Some (Some (obj, tbl[unat hid := he_next e]))"
        using e True Cons.prems(6) by (subst remove_chain.simps) simp
      then show ?thesis using Cons.prems(1) e(4) True Nil
        by (intro exI [of _ obj] exI [of _ "he_next e"]) simp
    next
      case (snoc qs p)
      have "p \<in> set (ps @ x # xs)" using snoc by simp
      from hchain_member [OF Cons.prems(2) this] obtain ep where ep: "p \<noteq> 0" "?m p = Some ep" by blast
      obtain obj' where o': "tb_modify p (\<lambda>p. p\<lparr>he_next := he_next e\<rparr>) obj = Some obj'" "tb_ok obj'"
        "tb_getPtr obj' = ?m(p \<mapsto> ep\<lparr>he_next := he_next e\<rparr>)"
        using link_ok [OF Cons.prems(1) ep(2)] by blast
      have "remove_chain i hid cur prev obj tbl = Some (Some (obj', tbl[unat hid := tbl ! unat hid]))"
        using e True Cons.prems(6) snoc ep o'(1) by (subst remove_chain.simps) simp
      moreover have "hchain (tb_getPtr obj') (tbl ! unat hid) (ps @ xs)"
        using hchain_splice [of ?m _ qs p x xs ep e] Cons.prems(2,4) snoc ep(2) e(3) o'(3) by simp
      moreover have "hkeep ?m (tb_getPtr obj')" using hkeep_link [of ?m p ep] ep(2) o'(3) by simp
      moreover have "\<forall>y. y \<notin> set (ps @ x # xs) \<longrightarrow> tb_getPtr obj' y = ?m y" using o'(3) snoc by simp
      ultimately show ?thesis using True o'(2)
        by (intro exI [of _ obj'] exI [of _ "tbl ! unat hid"]) simp
    qed
  next
    case False
    have "hchain ?m (tbl ! unat hid) ((ps @ [x]) @ xs)" "distinct ((ps @ [x]) @ xs)" using Cons.prems(2,4) by simp_all
    from Cons.IH [OF Cons.prems(1) this(1) e(4) this(2) _ refl Cons.prems(7)] Cons.prems(5) False
    obtain obj' c where r: "remove_chain i hid (he_next e) x obj tbl = Some (Some (obj', tbl[unat hid := c]))"
      "tb_ok obj'" "hchain (tb_getPtr obj') c (ps @ x # remove1 i xs)" "hkeep ?m (tb_getPtr obj')"
      "\<And>y. y \<notin> set ((ps @ [x]) @ xs) \<Longrightarrow> tb_getPtr obj' y = ?m y" by auto
    have "remove_chain i hid cur prev obj tbl = Some (Some (obj', tbl[unat hid := c]))"
      using e False r(1) by (subst remove_chain.simps) simp
    with r(2-5) False show ?thesis by (intro exI [of _ obj'] exI [of _ c]) auto
  qed
qed simp

lemma mset_concat_remove:
  "j < length cs \<Longrightarrow> x \<in> set (cs ! j) \<Longrightarrow>
     add_mset x (mset (concat (cs[j := remove1 x (cs ! j)]))) = mset (concat cs)"
proof (induction cs arbitrary: j)
  case (Cons c cs)
  then show ?case by (cases j) (simp_all add: insert_DiffM)
qed simp

text \<open>The object leaves its bucket, before the table is shrunk.\<close>

lemma ht_pull_ok:
  assumes "tb_ok obj" "ht_rep hf (tb_getPtr obj) h cs" "tb_getPtr obj i = Some e" "i \<in> set (concat cs)"
  obtains obj1 c cs1 where
    "length cs = length (ht_tbl h)" "cs \<noteq> []" "ht_size_ok (length cs)"
    "remove_chain i (hf (he_key e) AND (of_nat (length (ht_tbl h)) - 1))
       (ht_tbl h ! slot_of hf (length cs) (he_key e)) 0 obj (ht_tbl h)
       = Some (Some (obj1, (ht_tbl h)[slot_of hf (length cs) (he_key e) := c]))"
    "bucket (ht_tbl h) (hf (he_key e) AND (of_nat (length (ht_tbl h)) - 1))
       = Some (ht_tbl h ! slot_of hf (length cs) (he_key e))"
    "tb_ok obj1" "hkeep (tb_getPtr obj) (tb_getPtr obj1)" "length cs1 = length cs"
    "list_all2 (hchain (tb_getPtr obj1)) ((ht_tbl h)[slot_of hf (length cs) (he_key e) := c]) cs1"
    "bucketed hf (key_of (tb_getPtr obj1)) cs1" "add_mset i (mset (concat cs1)) = mset (concat cs)"
    "ht_stack (tb_getPtr obj1) cs1
       = (ht_stack (tb_getPtr obj) cs)(he_key e := remove1 i (ht_stack (tb_getPtr obj) cs (he_key e)))"
proof -
  let ?m = "tb_getPtr obj" and ?j = "slot_of hf (length cs) (he_key e)"
  have ne: "cs \<noteq> []" using assms(4) by auto
  have rep: "list_all2 (hchain ?m) (ht_tbl h) cs" "distinct (concat cs)" "bucketed hf (key_of ?m) cs"
    using assms(2) by (simp_all add: ht_rep_def)
  note l = ht_lookup(1,2) [OF assms(2) ne] and lk = ht_lookup(3-5) [OF assms(2) ne, of "he_key e"]
  have key: "key_of ?m i = Some (he_key e)" using assms(3) by (simp add: key_of_def)
  obtain k where k: "k < length cs" "i \<in> set (cs ! k)" using assms(4) by (auto simp: in_set_conv_nth [of _ cs])
  with rep(3) key have "k = ?j" unfolding bucketed_def by fastforce
  with k have i: "i \<in> set (cs ! ?j)" by simp
  have dist: "distinct (cs ! k)" if "k < length cs" for k
    using rep(2) that by (auto simp: distinct_concat_iff)
  let ?hid = "hf (he_key e) AND (of_nat (length (ht_tbl h)) - 1)"
  have hid: "unat ?hid = ?j" by (simp add: l(2) slot_of_def)
  have "\<exists>obj' c. remove_chain i ?hid (ht_tbl h ! ?j) 0 obj (ht_tbl h) = Some (Some (obj', (ht_tbl h)[unat ?hid := c])) \<and>
    tb_ok obj' \<and> hchain (tb_getPtr obj') c ([] @ remove1 i (cs ! ?j)) \<and> hkeep ?m (tb_getPtr obj') \<and>
    (\<forall>x. x \<notin> set ([] @ cs ! ?j) \<longrightarrow> tb_getPtr obj' x = ?m x)"
    using lk(2,3) i dist l(2) by (intro remove_chain_ok [OF assms(1)]) (simp_all add: hid [unfolded l(2)])
  then obtain obj1 c where o1: "remove_chain i ?hid (ht_tbl h ! ?j) 0 obj (ht_tbl h) = Some (Some (obj1, (ht_tbl h)[?j := c]))"
    "tb_ok obj1" "hchain (tb_getPtr obj1) c (remove1 i (cs ! ?j))" "hkeep ?m (tb_getPtr obj1)"
    "\<And>x. x \<notin> set (cs ! ?j) \<Longrightarrow> tb_getPtr obj1 x = ?m x"
    unfolding hid by auto
  note keys = hkeep_key_fun [OF o1(4)]
  let ?cs = "cs[?j := remove1 i (cs ! ?j)]"
  have l2: "list_all2 (hchain (tb_getPtr obj1)) ((ht_tbl h)[?j := c]) ?cs"
    unfolding list_all2_conv_all_nth
  proof (intro conjI allI impI)
    fix k assume "k < length ((ht_tbl h)[?j := c])"
    then have k: "k < length cs" by (simp add: l(2))
    show "hchain (tb_getPtr obj1) ((ht_tbl h)[?j := c] ! k) (?cs ! k)"
    proof (cases "k = ?j")
      case True
      with k o1(3) show ?thesis by (simp add: l(2))
    next
      case False
      have "hchain ?m (ht_tbl h ! k) (cs ! k)" using rep(1) k l(2) by (simp add: list_all2_conv_all_nth)
      moreover have "x \<notin> set (cs ! ?j)" if "x \<in> set (cs ! k)" for x
      proof
        assume "x \<in> set (cs ! ?j)"
        with rep(3) lk(3) have "map_option (slot_of hf (length cs)) (key_of ?m x) = Some ?j"
          unfolding bucketed_def by blast
        moreover have "map_option (slot_of hf (length cs)) (key_of ?m x) = Some k"
          using rep(3) k that unfolding bucketed_def by blast
        ultimately show False using False by simp
      qed
      then have "tb_getPtr obj1 x = ?m x" if "x \<in> set (cs ! k)" for x using o1(5) that by blast
      ultimately have "hchain (tb_getPtr obj1) (ht_tbl h ! k) (cs ! k)" by (rule hchain_frame)
      with False show ?thesis by simp
    qed
  qed (simp add: l(2))
  have b: "bucketed hf (key_of (tb_getPtr obj1)) ?cs"
    unfolding bucketed_def keys
  proof (intro allI impI ballI)
    fix k x assume "k < length ?cs" "x \<in> set (?cs ! k)"
    moreover from this have "x \<in> set (cs ! k)"
      using set_remove1_subset [of i "cs ! ?j"] lk(3) by (cases "k = ?j") auto
    ultimately show "map_option (slot_of hf (length ?cs)) (key_of ?m x) = Some k"
      using rep(3) unfolding bucketed_def by simp
  qed
  have n: "ht_size_ok (length ?cs)" using l(1) by simp
  have "ht_stack (tb_getPtr obj1) ?cs k = ((ht_stack ?m cs)(he_key e := remove1 i (ht_stack ?m cs (he_key e)))) k" for k
  proof (cases "slot_of hf (length cs) k = ?j")
    case True
    have "filter (\<lambda>x. key_of ?m x = Some k) (remove1 i (cs ! ?j))
        = (if k = he_key e then remove1 i (filter (\<lambda>x. key_of ?m x = Some k) (cs ! ?j))
           else filter (\<lambda>x. key_of ?m x = Some k) (cs ! ?j))"
      using key by (simp add: filter_remove1 remove1_idem)
    with True show ?thesis
      using bucket_stack [OF b n, of k] bucket_stack [OF rep(3) l(1), of k] lk(3)
        bucket_stack [OF rep(3) l(1), of "he_key e"] by (simp add: keys)
  next
    case False
    then have "k \<noteq> he_key e" by auto
    with False show ?thesis
      using bucket_stack [OF b n, of k] bucket_stack [OF rep(3) l(1), of k] by (simp add: keys)
  qed
  then have st: "ht_stack (tb_getPtr obj1) ?cs = (ht_stack ?m cs)(he_key e := remove1 i (ht_stack ?m cs (he_key e)))" by blast
  have ms: "add_mset i (mset (concat ?cs)) = mset (concat cs)" by (rule mset_concat_remove [OF lk(3) i])
  show ?thesis
    by (rule that [OF l(2) [symmetric] ne l(1) o1(1) lk(1) o1(2,4) _ l2 b ms st]) simp
qed

lemma ht_remove_ok:
  assumes "tb_ok obj" "ht_rep hf (tb_getPtr obj) h cs" "tb_getPtr obj i = Some e" "i \<in> set (concat cs)"
  obtains obj' h' cs' where "ht_remove hf i obj h = Some (obj', h')" "tb_ok obj'"
    "hkeep (tb_getPtr obj) (tb_getPtr obj')" "ht_rep hf (tb_getPtr obj') h' cs'"
    "ht_stack (tb_getPtr obj') cs' = (ht_stack (tb_getPtr obj) cs)(he_key e := remove1 i (ht_stack (tb_getPtr obj) cs (he_key e)))"
    "set (concat cs') = set (concat cs) - {i}"
proof -
  let ?sz = "length (ht_tbl h)"
  obtain obj1 c cs1 where p: "length cs = ?sz" "cs \<noteq> []" "ht_size_ok (length cs)"
    "remove_chain i (hf (he_key e) AND (of_nat ?sz - 1))
       (ht_tbl h ! slot_of hf (length cs) (he_key e)) 0 obj (ht_tbl h)
       = Some (Some (obj1, (ht_tbl h)[slot_of hf (length cs) (he_key e) := c]))"
    "bucket (ht_tbl h) (hf (he_key e) AND (of_nat ?sz - 1)) = Some (ht_tbl h ! slot_of hf (length cs) (he_key e))"
    "tb_ok obj1" "hkeep (tb_getPtr obj) (tb_getPtr obj1)" "length cs1 = length cs"
    "list_all2 (hchain (tb_getPtr obj1)) ((ht_tbl h)[slot_of hf (length cs) (he_key e) := c]) cs1"
    "bucketed hf (key_of (tb_getPtr obj1)) cs1" "add_mset i (mset (concat cs1)) = mset (concat cs)"
    "ht_stack (tb_getPtr obj1) cs1
       = (ht_stack (tb_getPtr obj) cs)(he_key e := remove1 i (ht_stack (tb_getPtr obj) cs (he_key e)))"
    by (rule ht_pull_ok [OF assms])
  let ?tbl = "(ht_tbl h)[slot_of hf (length cs) (he_key e) := c]"
  let ?h1 = "h\<lparr>ht_tbl := ?tbl, ht_num := ht_num h - 1\<rparr>" let ?len = "length (concat cs1)"
  have rep: "distinct (concat cs)" "unat (ht_num h) = length (concat cs)" "length (concat cs) < 5 * length cs"
    using assms(2) p(2) by (simp_all add: ht_rep_def del: length_concat)
  have len: "length (concat cs) = ?len + 1" using arg_cong [OF p(11), of size] by simp
  have dist1: "distinct (concat cs1)" and i1: "i \<notin> set (concat cs1)"
    using p(11) rep(1) by (metis mset.simps(2) mset_eq_imp_distinct_iff distinct.simps(2))+
  have set1: "set (concat cs1) = set (concat cs) - {i}"
    using arg_cong [OF p(11), of set_mset] i1 by auto
  have "1 \<le> unat (ht_num h)" using rep(2) len by simp
  then have num: "unat (ht_num h - 1) = ?len"
    using unat_sub [of 1 "ht_num h"] rep(2) len by (simp add: word_le_nat_alt)
  have "length (concat cs) < 2147483648"
    by (rule ht_count_bound [OF assms(1) rep(1)]) (use ht_rep_members(2) [OF assms(2)] in auto)
  then have small: "?len < 2147483648" using len by simp
  obtain k where k: "?sz = 2 ^ k" "k \<le> 30" using p(1,3) by (auto simp: ht_size_ok_def)
  have "(2 :: nat) ^ k \<le> 2 ^ 30" using k(2) by (intro power_increasing) auto
  then have usz: "unat (of_nat ?sz :: u32) = ?sz"
    using k by (subst unsigned_of_nat) (simp add: take_bit_nat_eq_self)
  have "unat (ht_num h - 1) + unat ((ht_num h - 1) div 10) < 2 ^ 32"
    using num small by (simp add: unat_div)
  then have "unat (ht_num h - 1 + (ht_num h - 1) div 10) = ?len + ?len div 10"
    using unat_add_lem [of "ht_num h - 1" "(ht_num h - 1) div 10"] num by (simp add: unat_div)
  then have r: "unat ((ht_num h - 1 + (ht_num h - 1) div 10) div of_nat ?sz) = (?len + ?len div 10) div ?sz"
    by (simp only: unat_div usz)
  have rem: "ht_remove hf i obj h =
      (if (?len + ?len div 10) div ?sz < chain_length div 2 \<and> ?sz > 1 then shrinkTable hf obj1 ?h1 else Some (obj1, ?h1))"
    unfolding ht_remove_def Let_def assms(3) bind.bind_lunit p(4,5)
    by (simp add: r)
  show ?thesis
  proof (cases "(?len + ?len div 10) div ?sz < chain_length div 2 \<and> ?sz > 1")
    case False
    have "ht_rep hf (tb_getPtr obj1) ?h1 cs1"
      using p(1,3,8,9,10) dist1 num rep(3) len p(2) by (simp add: ht_rep_def del: length_concat)
    moreover have "ht_remove hf i obj h = Some (obj1, ?h1)" unfolding rem using False by (simp only: if_False)
    ultimately show ?thesis using that [OF _ p(6,7) _ p(12) set1] by blast
  next
    case True
    then obtain k' where k': "k = Suc k'" using k(1) by (cases k) auto
    then have half: "?sz div 2 = 2 ^ k'" "?sz = 2 * (?sz div 2)" using k(1) by simp_all
    have n2: "ht_size_ok (?sz div 2)" unfolding ht_size_ok_def using half(1) k' k(2) by auto
    have pos: "0 < ?sz" using k(1) by simp
    have "(?len + ?len div 10) div ?sz < 2" using True by (simp add: chain_length_def)
    then have "?len + ?len div 10 < 2 * ?sz" using pos by (simp add: div_less_iff_less_mult)
    then have fits: "?len < 5 * (?sz div 2)" using half(2) pos by linarith
    have keys: "key_of (tb_getPtr obj1) x \<noteq> None" if "x \<in> set (concat cs1)" for x
    proof -
      have "x \<in> set (concat cs)" using that set1 by blast
      from ht_rep_members(3) [OF assms(2) this] show ?thesis by (simp only: hkeep_key [OF p(7)] not_False_eq_True)
    qed
    obtain obj2 q obj' tbl' cs' where s: "unlink_all obj1 ?tbl 0 = Some (obj2, q)"
      "reinsert hf (of_nat (?sz div 2) - 1) obj2 (replicate (?sz div 2) 0) q = Some (obj', tbl')" "tb_ok obj'"
      "list_all2 (hchain (tb_getPtr obj')) tbl' cs'" "hkeep (tb_getPtr obj1) (tb_getPtr obj')"
      "length cs' = ?sz div 2" "bucketed hf (key_of (tb_getPtr obj')) cs'" "mset (concat cs') = mset (concat cs1)"
      "ht_stack (tb_getPtr obj') cs' = ht_stack (tb_getPtr obj1) cs1"
      by (rule rehash_ok [OF p(6,9) dist1 n2 keys])
    have shrink: "shrinkTable hf obj1 ?h1 = Some (obj', ?h1\<lparr>ht_tbl := tbl'\<rparr>)"
      using s(1,2) by (simp add: shrinkTable_def Let_def)
    have "distinct (concat cs')" using s(8) dist1 by (metis mset_eq_imp_distinct_iff)
    moreover have "length (concat cs') = ?len" using s(8) by (metis size_mset)
    ultimately have "ht_rep hf (tb_getPtr obj') (?h1\<lparr>ht_tbl := tbl'\<rparr>) cs'"
      using s(4,6,7) n2 fits num by (simp add: ht_rep_def del: length_concat)
    moreover have "set (concat cs') = set (concat cs) - {i}" using s(8) set1 by (metis set_mset_mset)
    moreover have "ht_remove hf i obj h = Some (obj', ?h1\<lparr>ht_tbl := tbl'\<rparr>)" using rem True shrink by simp
    moreover have "hkeep (tb_getPtr obj) (tb_getPtr obj')" by (rule hkeep_trans [OF p(7) s(5)])
    ultimately show ?thesis using that s(3,9) p(12) by metis
  qed
qed

section \<open>The name cache keeps counted names\<close>

definition name_view :: "(u32 \<Rightarrow> nament option) \<Rightarrow> u32 \<Rightarrow> (cname \<times> u32) option" where
  "name_view m i = map_option (\<lambda>e. (he_key e, ref_cnt e)) (m i)"

text \<open>
  \<open>M\<close> gives the id and the count of every cached name: all objects are in the hash table, no two
  have one name, and no count is zero.
\<close>

definition nc_rep :: "namecache \<Rightarrow> (cname \<rightharpoonup> u32 \<times> u32) \<Rightarrow> bool" where
  "nc_rep nc M \<longleftrightarrow> tb_ok (name_tbl nc) \<and>
     (\<exists>cs. ht_rep hash_string (tb_getPtr (name_tbl nc)) (name_hash nc) cs \<and>
           set (concat cs) = tb_ids (name_tbl nc)) \<and>
     (\<forall>i k c. name_view (tb_getPtr (name_tbl nc)) i = Some (k, c) \<longleftrightarrow> M k = Some (i, c)) \<and>
     (\<forall>i k. M k \<noteq> Some (i, 0))"

lemma hkeep_view:
  assumes "hkeep m m'"
  shows "name_view m' = name_view m"
proof
  fix x
  have x: "map_option (\<lambda>e. e\<lparr>he_next := 0\<rparr>) (m' x) = map_option (\<lambda>e. e\<lparr>he_next := 0\<rparr>) (m x)"
    using assms by (simp add: hkeep_def)
  show "name_view m' x = name_view m x"
  proof (cases "m x")
    case None
    with x show ?thesis by (simp add: name_view_def)
  next
    case (Some e)
    with x obtain e' where e': "m' x = Some e'" "e'\<lparr>he_next := 0\<rparr> = e\<lparr>he_next := 0\<rparr>" by auto
    have "he_key e' = he_key e" "ref_cnt e' = ref_cnt e"
      using arg_cong [OF e'(2), of he_key] arg_cong [OF e'(2), of ref_cnt] by simp_all
    with Some e'(1) show ?thesis by (simp add: name_view_def)
  qed
qed

lemma view_dom: "dom (name_view m) = dom m"
  by (auto simp: name_view_def dom_def)

lemma view_key: "key_of m x = map_option fst (name_view m x)"
  by (simp add: key_of_def name_view_def option.map_comp o_def)

lemma hchain_cong:
  "hchain m cur xs \<Longrightarrow> (\<And>x. x \<in> set xs \<Longrightarrow> map_option he_next (m' x) = map_option he_next (m x)) \<Longrightarrow> hchain m' cur xs"
proof (induction xs arbitrary: cur)
  case (Cons x xs)
  then obtain e where e: "cur = x" "x \<noteq> 0" "m x = Some e" "hchain m (he_next e) xs" by auto
  moreover obtain e' where "m' x = Some e'" "he_next e' = he_next e" using Cons.prems(2) [of x] e(3) by auto
  moreover have "hchain m' (he_next e) xs" using Cons.IH [OF e(4)] Cons.prems(2) by simp
  ultimately show ?case by simp
qed simp

text \<open>A table does not notice changes outside its objects, nor of fields it does not use.\<close>

lemma ht_rep_cong:
  assumes "ht_rep hf m h cs"
    "\<And>x. x \<in> set (concat cs) \<Longrightarrow> map_option he_next (m' x) = map_option he_next (m x) \<and> key_of m' x = key_of m x"
  shows "ht_rep hf m' h cs" "ht_stack m' cs = ht_stack m cs"
proof -
  have l2: "list_all2 (hchain m) (ht_tbl h) cs" using assms(1) by (simp add: ht_rep_def)
  have "list_all2 (hchain m') (ht_tbl h) cs"
    using l2
  proof (rule list.rel_mono_strong)
    fix b c assume "b \<in> set (ht_tbl h)" "c \<in> set cs" "hchain m b c"
    then show "hchain m' b c" using assms(2) by (auto intro: hchain_cong)
  qed
  moreover have "bucketed hf (key_of m') cs"
    unfolding bucketed_def
  proof (intro allI impI ballI)
    fix j x assume j: "j < length cs" "x \<in> set (cs ! j)"
    then have "x \<in> set (concat cs)" by auto
    with assms j show "map_option (slot_of hf (length cs)) (key_of m' x) = Some j"
      by (simp add: ht_rep_def bucketed_def)
  qed
  ultimately show "ht_rep hf m' h cs" using assms(1) by (simp add: ht_rep_def)
  show "ht_stack m' cs = ht_stack m cs"
    unfolding ht_stack_def by (intro ext filter_cong) (simp_all add: assms(2))
qed

lemma nc_stack:
  assumes "ht_rep hash_string m h cs" "set (concat cs) = dom m"
    "\<And>i k c. name_view m i = Some (k, c) \<longleftrightarrow> M k = Some (i, c)"
  shows "ht_stack m cs k = (case M k of None \<Rightarrow> [] | Some (i, c) \<Rightarrow> [i])"
proof -
  have dist: "distinct (ht_stack m cs k)" using assms(1) by (simp add: ht_rep_def ht_stack_def)
  have mem: "x \<in> set (ht_stack m cs k) \<longleftrightarrow> (\<exists>c. M k = Some (x, c))" for x
    using assms(3) [of x k, symmetric] by (auto simp: ht_stack_def assms(2) [simplified] view_key name_view_def dom_def)
  show ?thesis
  proof (cases "M k")
    case None
    then have "x \<notin> set (ht_stack m cs k)" for x using mem by simp
    then have "ht_stack m cs k = []" by (cases "ht_stack m cs k") auto
    with None show ?thesis by simp
  next
    case (Some p)
    obtain i c where p: "p = (i, c)" by (cases p)
    with Some have "set (ht_stack m cs k) = {i}" using mem by auto
    with dist have "ht_stack m cs k = [i]"
      by (metis card.empty card_insert_if distinct_card empty_iff finite.emptyI length_0_conv length_Suc_conv
          list.set_intros(1) singletonD)
    with Some p show ?thesis by simp
  qed
qed

lemma nc_new_ok: "nc_rep nc_new Map.empty"
  by (simp add: nc_rep_def nc_new_def tb_new_128 ht_rep_def ht_new_def name_view_def bucketed_def
      exI [of _ "[]"])

lemma findName_ok:
  assumes "nc_rep nc M"
  shows "findName name nc = Some (case M name of None \<Rightarrow> 0 | Some (i, c) \<Rightarrow> i)"
proof -
  obtain cs where cs: "ht_rep hash_string (tb_getPtr (name_tbl nc)) (name_hash nc) cs"
    "set (concat cs) = tb_ids (name_tbl nc)"
    "\<And>i k c. name_view (tb_getPtr (name_tbl nc)) i = Some (k, c) \<longleftrightarrow> M k = Some (i, c)"
    using assms by (auto simp: nc_rep_def)
  show ?thesis
    using ht_find_ok [OF cs(1), of name] nc_stack [OF cs, of name]
    by (auto simp: findName_def top_of_def split: option.splits)
qed

text \<open>A write to the count of a name.\<close>

lemma nc_recount:
  assumes "tb_ok t" "ht_rep hash_string (tb_getPtr t) h cs" "tb_getPtr t i = Some e"
  obtains t' where "tb_modify i (\<lambda>o'. o'\<lparr>ref_cnt := f (ref_cnt o')\<rparr>) t = Some t'" "tb_ok t'"
    "tb_getPtr t' = (tb_getPtr t)(i \<mapsto> e\<lparr>ref_cnt := f (ref_cnt e)\<rparr>)"
    "ht_rep hash_string (tb_getPtr t') h cs" "ht_stack (tb_getPtr t') cs = ht_stack (tb_getPtr t) cs"
    "tb_ids t' = tb_ids t"
    "name_view (tb_getPtr t') = (name_view (tb_getPtr t))(i \<mapsto> (he_key e, f (ref_cnt e)))"
proof -
  obtain t' where t': "tb_modify i (\<lambda>o'. o'\<lparr>ref_cnt := f (ref_cnt o')\<rparr>) t = Some t'" "tb_ok t'"
    "tb_getPtr t' = (tb_getPtr t)(i \<mapsto> e\<lparr>ref_cnt := f (ref_cnt e)\<rparr>)"
    using link_ok [OF assms(1,3)] by blast
  have cong: "map_option he_next (tb_getPtr t' x) = map_option he_next (tb_getPtr t x) \<and>
      key_of (tb_getPtr t') x = key_of (tb_getPtr t) x" for x
    using assms(3) by (simp add: t'(3) key_of_def)
  have ids: "tb_ids t' = tb_ids t" using assms(3) unfolding t'(3) by auto
  have view: "name_view (tb_getPtr t') = (name_view (tb_getPtr t))(i \<mapsto> (he_key e, f (ref_cnt e)))"
    by (simp add: fun_eq_iff t'(3) name_view_def)
  show ?thesis
    by (rule that [OF t' ht_rep_cong [OF assms(2) cong] ids view])
qed

lemma nc_map_update:
  assumes "\<And>i k c. v i = Some (k, c) \<longleftrightarrow> M k = Some (i, c)" "M name = None \<and> v j = None \<or> (\<exists>c. M name = Some (j, c))"
  shows "(v(j \<mapsto> (name, d))) i = Some (k, c) \<longleftrightarrow> (M(name \<mapsto> (j, d))) k = Some (i, c)"
proof -
  have k: "k = name" if v: "v j = Some (k, c')" for c'
  proof -
    obtain c where "M name = Some (j, c)" using assms(2) v by auto
    then have "v j = Some (name, c)" using assms(1) [of j name c] by blast
    with v show ?thesis by simp
  qed
  have i': "i = j" if "M name = Some (i, c')" for c'
  proof -
    have "v i = Some (name, c')" using assms(1) [of i name c'] that by blast
    with assms(2) that show ?thesis by auto
  qed
  show ?thesis
  proof (cases "i = j")
    case True
    with k [of c] assms(1) [of i k c] show ?thesis by auto
  next
    case False
    with i' [of c] assms(1) [of i k c] show ?thesis by auto
  qed
qed

lemma addName_ok:
  assumes "nc_rep nc M" "tb_room (name_tbl nc)"
    "\<And>i c. M name = Some (i, c) \<Longrightarrow> c + 1 \<noteq> 0"
  shows "\<exists>i nc'. addName name nc = Some (i, nc') \<and>
    (case M name of Some (j, c) \<Rightarrow> i = j \<and> nc_rep nc' (M(name \<mapsto> (i, c + 1)))
     | None \<Rightarrow> i \<noteq> 0 \<and> \<not> tb_validId (name_tbl nc) i \<and> nc_rep nc' (M(name \<mapsto> (i, 1))))"
proof -
  let ?t = "name_tbl nc" let ?m = "tb_getPtr ?t"
  obtain cs where r: "tb_ok ?t" "ht_rep hash_string ?m (name_hash nc) cs" "set (concat cs) = tb_ids ?t"
    "\<And>i k c. name_view ?m i = Some (k, c) \<longleftrightarrow> M k = Some (i, c)" "\<And>i k. M k \<noteq> Some (i, 0)"
    using assms(1) by (auto simp: nc_rep_def)
  note find = findName_ok [OF assms(1), of name, unfolded findName_def]
  show ?thesis
  proof (cases "M name")
    case (Some p)
    obtain i c where p: "p = (i, c)" by (cases p)
    with Some r(4) have "name_view ?m i = Some (name, c)" by simp
    then obtain e where e: "?m i = Some e" "he_key e = name" "ref_cnt e = c" by (auto simp: name_view_def)
    have i0: "i \<noteq> 0" using e(1) by (auto simp: tb_getPtr_Some)
    obtain t' where t': "tb_modify i (\<lambda>o'. o'\<lparr>ref_cnt := ref_cnt o' + 1\<rparr>) ?t = Some t'" "tb_ok t'"
      "ht_rep hash_string (tb_getPtr t') (name_hash nc) cs" "tb_ids t' = tb_ids ?t"
      "name_view (tb_getPtr t') = (name_view ?m)(i \<mapsto> (he_key e, ref_cnt e + 1))"
      by (rule nc_recount [OF r(1,2) e(1), of "\<lambda>c. c + 1"])
    have "addName name nc = Some (i, nc\<lparr>name_tbl := t'\<rparr>)"
      using find i0 t'(1) Some p by (simp add: addName_def)
    moreover have "nc_rep (nc\<lparr>name_tbl := t'\<rparr>) (M(name \<mapsto> (i, c + 1)))"
    proof -
      have "(M(name \<mapsto> (i, c + 1))) k \<noteq> Some (j, 0)" for k j using r(5) assms(3) Some p by simp
      moreover have "name_view (tb_getPtr t') j = Some (k, d) \<longleftrightarrow> (M(name \<mapsto> (i, c + 1))) k = Some (j, d)" for j k d
        unfolding t'(5) e(2,3) using Some p by (intro nc_map_update [OF r(4)]) simp
      ultimately show ?thesis using t'(2,3,4) r(3) by (auto simp: nc_rep_def simp del: set_concat fun_upd_apply)
    qed
    ultimately show ?thesis using Some p by auto
  next
    case None
    obtain i t1 where t1: "tb_create new_name ?t = Some (i, t1)" "tb_ok t1" "?m i = None" "i \<noteq> 0"
      "tb_getPtr t1 = ?m(i \<mapsto> new_name)"
      using tb.create_law [OF r(1) assms(2), of new_name] by blast
    have "tb_getPtr t1 i = Some new_name" by (simp add: t1(5))
    then obtain t2 where t2: "tb_modify i (\<lambda>o'. o'\<lparr>he_key := name\<rparr>) t1 = Some t2" "tb_ok t2"
      "tb_getPtr t2 = ?m(i \<mapsto> new_name\<lparr>he_key := name\<rparr>)"
      using link_ok [OF t1(2)] t1(5) by (metis fun_upd_upd)
    have new: "i \<notin> set (concat cs)" using t1(3) r(3) by (metis domIff)
    have cong: "map_option he_next (tb_getPtr t2 x) = map_option he_next (?m x) \<and> key_of (tb_getPtr t2) x = key_of ?m x"
      if "x \<in> set (concat cs)" for x using that new by (auto simp: t2(3) key_of_def)
    have rep2: "ht_rep hash_string (tb_getPtr t2) (name_hash nc) cs" by (rule ht_rep_cong(1) [OF r(2) cong])
    have at2: "tb_getPtr t2 i = Some (new_name\<lparr>he_key := name\<rparr>)" by (simp add: t2(3))
    obtain t3 h' cs' where t3: "ht_insert hash_string i t2 (name_hash nc) = Some (t3, h')" "tb_ok t3"
      "hkeep (tb_getPtr t2) (tb_getPtr t3)" "ht_rep hash_string (tb_getPtr t3) h' cs'"
      "set (concat cs') = insert i (set (concat cs))"
      by (rule ht_insert_ok [OF t2(2) rep2 at2 new])
    have view3: "name_view (tb_getPtr t3) = (name_view ?m)(i \<mapsto> (name, 0))"
      unfolding hkeep_view [OF t3(3)] by (simp add: fun_eq_iff t2(3) name_view_def new_name_def)
    then have "name_view (tb_getPtr t3) i = Some (name, 0)" by simp
    then obtain e where e: "tb_getPtr t3 i = Some e" "he_key e = name" "ref_cnt e = 0" by (auto simp: name_view_def)
    have "tb_ids t3 = dom ((name_view ?m)(i \<mapsto> (name, 0)))" by (simp only: view_dom [symmetric] view3)
    then have ids3: "tb_ids t3 = insert i (tb_ids ?t)" by (simp add: view_dom)
    obtain t4 where t4: "tb_modify i (\<lambda>o'. o'\<lparr>ref_cnt := ref_cnt o' + 1\<rparr>) t3 = Some t4" "tb_ok t4"
      "ht_rep hash_string (tb_getPtr t4) h' cs'" "tb_ids t4 = tb_ids t3"
      "name_view (tb_getPtr t4) = (name_view (tb_getPtr t3))(i \<mapsto> (he_key e, ref_cnt e + 1))"
      by (rule nc_recount [OF t3(2,4) e(1), of "\<lambda>c. c + 1"])
    have "addName name nc = Some (i, nc\<lparr>name_tbl := t4, name_hash := h'\<rparr>)"
      using find None t1(1) t2(1) t3(1) t4(1) by (simp add: addName_def)
    moreover have "nc_rep (nc\<lparr>name_tbl := t4, name_hash := h'\<rparr>) (M(name \<mapsto> (i, 1)))"
    proof -
      have "(M(name \<mapsto> (i, 1))) k \<noteq> Some (j, 0)" for k j using r(5) by simp
      moreover have "name_view (tb_getPtr t4) j = Some (k, d) \<longleftrightarrow> (M(name \<mapsto> (i, 1))) k = Some (j, d)" for j k d
      proof -
        have v4: "name_view (tb_getPtr t4) = (name_view ?m)(i \<mapsto> (name, 1))" by (simp add: t4(5) view3 e)
        have "name_view ?m i = None" using t1(3) by (simp add: name_view_def)
        with None show ?thesis unfolding v4 by (intro nc_map_update [OF r(4)]) simp
      qed
      moreover have "set (concat cs') = tb_ids t4" using t3(5) t4(4) ids3 r(3) by simp
      ultimately show ?thesis using t4(2,3) by (auto simp: nc_rep_def simp del: set_concat fun_upd_apply)
    qed
    ultimately show ?thesis using None t1(3,4) by (auto simp: tb_validId_dom)
  qed
qed

lemma removeName_ok:
  assumes "nc_rep nc M" "M name = Some (i, c)"
  shows "\<exists>nc'. removeName i nc = Some nc' \<and>
    nc_rep nc' (if c = 1 then M(name := None) else M(name \<mapsto> (i, c - 1)))"
proof -
  let ?t = "name_tbl nc" let ?m = "tb_getPtr ?t"
  obtain cs where r: "tb_ok ?t" "ht_rep hash_string ?m (name_hash nc) cs" "set (concat cs) = tb_ids ?t"
    "\<And>i k c. name_view ?m i = Some (k, c) \<longleftrightarrow> M k = Some (i, c)" "\<And>i k. M k \<noteq> Some (i, 0)"
    using assms(1) by (auto simp: nc_rep_def)
  have "name_view ?m i = Some (name, c)" using r(4) assms(2) by simp
  then obtain e where e: "?m i = Some e" "he_key e = name" "ref_cnt e = c" by (auto simp: name_view_def)
  obtain t1 where t1: "tb_modify i (\<lambda>o'. o'\<lparr>ref_cnt := ref_cnt o' - 1\<rparr>) ?t = Some t1" "tb_ok t1"
    "tb_getPtr t1 = ?m(i \<mapsto> e\<lparr>ref_cnt := ref_cnt e - 1\<rparr>)"
    "ht_rep hash_string (tb_getPtr t1) (name_hash nc) cs" "tb_ids t1 = tb_ids ?t"
    "name_view (tb_getPtr t1) = (name_view ?m)(i \<mapsto> (he_key e, ref_cnt e - 1))"
    by (rule nc_recount [OF r(1,2) e(1), of "\<lambda>c. c - 1"])
  have at1: "tb_getPtr t1 i = Some (e\<lparr>ref_cnt := c - 1\<rparr>)" using t1(3) e(3) by simp
  have upd: "((name_view ?m)(i \<mapsto> (name, d))) j = Some (k, d') \<longleftrightarrow> (M(name \<mapsto> (i, d))) k = Some (j, d')" for d j k d'
    using assms(2) by (intro nc_map_update [OF r(4)]) simp
  show ?thesis
  proof (cases "c = 1")
    case False
    have "removeName i nc = Some (nc\<lparr>name_tbl := t1\<rparr>)"
      using t1(1) at1 False by (simp add: removeName_def)
    moreover have "nc_rep (nc\<lparr>name_tbl := t1\<rparr>) (M(name \<mapsto> (i, c - 1)))"
    proof -
      have "(M(name \<mapsto> (i, c - 1))) k \<noteq> Some (j, 0)" for k j using r(5) False by simp
      moreover have "name_view (tb_getPtr t1) j = Some (k, d) \<longleftrightarrow> (M(name \<mapsto> (i, c - 1))) k = Some (j, d)" for j k d
        unfolding t1(6) e(2,3) by (rule upd)
      ultimately show ?thesis using t1(2,4,5) r(3) by (auto simp: nc_rep_def simp del: set_concat fun_upd_apply)
    qed
    ultimately show ?thesis using False by auto
  next
    case True
    have mem: "i \<in> set (concat cs)" using r(3) e(1) by (metis domI)
    obtain t2 h' cs' where t2: "ht_remove hash_string i t1 (name_hash nc) = Some (t2, h')" "tb_ok t2"
      "hkeep (tb_getPtr t1) (tb_getPtr t2)" "ht_rep hash_string (tb_getPtr t2) h' cs'"
      "set (concat cs') = set (concat cs) - {i}"
      by (rule ht_remove_ok [OF t1(2,4) at1 mem])
    note view2 = hkeep_view [OF t2(3)]
    have ids2: "tb_ids t2 = tb_ids t1" by (simp only: view_dom [symmetric] view2)
    have "i \<in> tb_ids t2" using ids2 at1 by (metis domI)
    then obtain y where "tb_getPtr t2 i = Some y" by blast
    from tb.destroy_law [OF t2(2) this] obtain t3 where t3: "tb_destroy i t2 = Some t3" "tb_ok t3"
      "tb_getPtr t3 = (tb_getPtr t2)(i := None)" by blast
    have "removeName i nc = Some (nc\<lparr>name_tbl := t3, name_hash := h'\<rparr>)"
      using t1(1) at1 True t2(1) t3(1) by (simp add: removeName_def)
    moreover have "nc_rep (nc\<lparr>name_tbl := t3, name_hash := h'\<rparr>) (M(name := None))"
    proof -
      have cong: "map_option he_next (tb_getPtr t3 x) = map_option he_next (tb_getPtr t2 x) \<and>
          key_of (tb_getPtr t3) x = key_of (tb_getPtr t2) x" if "x \<in> set (concat cs')" for x
      proof -
        have "x \<noteq> i" using that t2(5) by blast
        then show ?thesis by (simp add: t3(3) key_of_def)
      qed
      have rep3: "ht_rep hash_string (tb_getPtr t3) h' cs'" by (rule ht_rep_cong(1) [OF t2(4) cong])
      have "set (concat cs') = tb_ids t3"
        using t2(5) r(3) t1(5) ids2 unfolding t3(3) by auto
      moreover have "name_view (tb_getPtr t3) j = Some (k, d) \<longleftrightarrow> (M(name := None)) k = Some (j, d)" for j k d
      proof -
        have "name_view (tb_getPtr t3) = (name_view (tb_getPtr t2))(i := None)"
          by (simp add: fun_eq_iff t3(3) name_view_def)
        then have v3: "name_view (tb_getPtr t3) = (name_view ?m)(i := None)"
          by (simp add: view2 t1(6))
        show ?thesis
          unfolding v3 using r(4) [of j k d] r(4) [of i k d] r(4) [of j name d] assms(2) r(4) [of i name c] by auto
      qed
      ultimately show ?thesis using t3(2) rep3 r(5) by (auto simp: nc_rep_def simp del: set_concat)
    qed
    ultimately show ?thesis using True by auto
  qed
qed

section \<open>Properties of the hash tables\<close>

lemma ht_stack_member: "x \<in> set (ht_stack m cs k) \<longleftrightarrow> x \<in> set (concat cs) \<and> key_of m x = Some k"
  by (auto simp: ht_stack_def)

lemma ht_new_abs: "ht_abs hf obj ht_new (\<lambda>_. [])"
  unfolding ht_abs_def
  by (intro exI [of _ "[]"]) (simp add: ht_rep_def ht_new_def bucketed_def ht_stack_def fun_eq_iff)

lemma hash_demo_object:
  "\<exists>i (obj :: (u32, unit) objtab). tb_ok obj \<and> tb_getPtr obj i = Some \<lparr>he_key = 7, he_next = 0\<rparr>"
  using tb.create_law [OF tb_new_128(1,3), of "\<lparr>he_key = 7, he_next = 0\<rparr> :: u32 hentry"] by fastforce

lemma hash_demo:
  "\<exists>i (obj :: (u32, unit) objtab) h e. tb_ok obj \<and> tb_getPtr obj i = Some e \<and> he_key e = 7 \<and>
     ht_abs hash_int obj h ((\<lambda>_. [])(7 := [i]))"
proof -
  obtain i and obj :: "(u32, unit) objtab" where o1: "tb_ok obj" "tb_getPtr obj i = Some \<lparr>he_key = 7, he_next = 0\<rparr>"
    using hash_demo_object by blast
  have rep: "ht_rep hash_int (tb_getPtr obj) ht_new []" by (simp add: ht_rep_def ht_new_def bucketed_def)
  have new: "i \<notin> set (concat [])" by simp
  obtain obj' h' cs' where r: "tb_ok obj'" "hkeep (tb_getPtr obj) (tb_getPtr obj')" "ht_rep hash_int (tb_getPtr obj') h' cs'"
    "ht_stack (tb_getPtr obj') cs' = (ht_stack (tb_getPtr obj) [])(7 := i # ht_stack (tb_getPtr obj) [] 7)"
    using ht_insert_ok [OF o1(1) rep o1(2) new] by (metis hentry.select_convs(1))
  have "ht_abs hash_int obj' h' ((\<lambda>_. [])(7 := [i]))"
    using r(3,4) unfolding ht_abs_def by (intro exI [of _ cs']) (simp add: ht_stack_def fun_eq_iff)
  moreover have "key_of (tb_getPtr obj') i = Some 7" using hkeep_key [OF r(2), of i] o1(2) by (simp add: key_of_def)
  then have "\<exists>e. tb_getPtr obj' i = Some e \<and> he_key e = 7" by (auto simp: key_of_def)
  ultimately show ?thesis using r(1) by blast
qed

text \<open>Looking a key up in a hash table gives the object inserted last with that key, or null
  when there is none; it ends, and no assertion fails on the way.  \<open>hasMember\<close> agrees with it.\<close>

theorem hash_find_latest:
  assumes "ht_abs hf obj h A"
  shows "ht_find hf k obj h = Some (top_of (A k)) \<and> ht_hasMember hf k obj h = Some (A k \<noteq> [])"
proof -
  obtain cs where cs: "ht_rep hf (tb_getPtr obj) h cs" "A = ht_stack (tb_getPtr obj) cs"
    using assms by (auto simp: ht_abs_def)
  have "top_of (A k) \<noteq> 0 \<longleftrightarrow> A k \<noteq> []"
  proof (cases "A k")
    case (Cons x xs)
    then have "x \<in> set (A k)" by simp
    then have "x \<in> set (concat cs)" by (simp only: cs(2) ht_stack_member)
    with Cons ht_rep_members(1) [OF cs(1)] show ?thesis by (simp add: top_of_def)
  qed (simp add: top_of_def)
  then show ?thesis using ht_find_ok [OF cs(1), of k] by (simp add: ht_hasMember_find cs(2))
qed

theorem hash_find_latest_witness:
  "\<exists>i (obj :: (u32, unit) objtab) h. tb_validId obj i \<and> ht_find hash_int 7 obj h = Some i \<and>
     ht_hasMember hash_int 8 obj h = Some False"
proof -
  obtain i and obj :: "(u32, unit) objtab" and h e where d: "tb_getPtr obj i = Some e"
    "ht_abs hash_int obj h ((\<lambda>_. [])(7 := [i]))" using hash_demo by blast
  then have "tb_validId obj i" by (auto simp: tb_validId_dom)
  with hash_find_latest [OF d(2), of 7] hash_find_latest [OF d(2), of 8] show ?thesis
    by (auto simp: top_of_def)
qed

text \<open>C33: Inserting an object puts it on top of the objects with its key and changes no other
  key, also when the insertion doubles the table and relinks every object.  Only the links of
  objects change.\<close>

theorem hash_insert_pushes:
  assumes "tb_ok obj" "ht_abs hf obj h A" "tb_getPtr obj i = Some e" "i \<notin> set (A (he_key e))"
  shows "\<exists>obj' h'. ht_insert hf i obj h = Some (obj', h') \<and> tb_ok obj' \<and>
    hkeep (tb_getPtr obj) (tb_getPtr obj') \<and> ht_abs hf obj' h' (A(he_key e := i # A (he_key e)))"
proof -
  obtain cs where cs: "ht_rep hf (tb_getPtr obj) h cs" "A = ht_stack (tb_getPtr obj) cs"
    using assms(2) by (auto simp: ht_abs_def)
  have new: "i \<notin> set (concat cs)"
    using assms(3,4) by (auto simp: cs(2) ht_stack_member key_of_def)
  from ht_insert_ok [OF assms(1) cs(1) assms(3) new] show ?thesis
    unfolding ht_abs_def cs(2) by metis
qed

theorem hash_insert_pushes_witness:
  "\<exists>i (obj :: (u32, unit) objtab) obj' h'. ht_insert hash_int i obj ht_new = Some (obj', h') \<and>
     ht_abs hash_int obj' h' ((\<lambda>_. [])(7 := [i]))"
proof -
  obtain i and obj :: "(u32, unit) objtab" where o1: "tb_ok obj" "tb_getPtr obj i = Some \<lparr>he_key = 7, he_next = 0\<rparr>"
    using hash_demo_object by blast
  from hash_insert_pushes [OF o1(1) ht_new_abs o1(2), of hash_int] show ?thesis by (simp del: fun_upd_apply) blast
qed

text \<open>C34: Removing an object takes exactly it out of the objects with its key and keeps the order
  of the others, also when the removal halves the table.  Only the links of objects change.\<close>

theorem hash_remove_pulls:
  assumes "tb_ok obj" "ht_abs hf obj h A" "tb_getPtr obj i = Some e" "i \<in> set (A (he_key e))"
  shows "\<exists>obj' h'. ht_remove hf i obj h = Some (obj', h') \<and> tb_ok obj' \<and>
    hkeep (tb_getPtr obj) (tb_getPtr obj') \<and> ht_abs hf obj' h' (A(he_key e := remove1 i (A (he_key e))))"
proof -
  obtain cs where cs: "ht_rep hf (tb_getPtr obj) h cs" "A = ht_stack (tb_getPtr obj) cs"
    using assms(2) by (auto simp: ht_abs_def)
  have old: "i \<in> set (concat cs)" using assms(4) by (simp only: cs(2) ht_stack_member)
  from ht_remove_ok [OF assms(1) cs(1) assms(3) old] show ?thesis
    unfolding ht_abs_def cs(2) by metis
qed

theorem hash_remove_pulls_witness:
  "\<exists>i (obj :: (u32, unit) objtab) h obj' h'. ht_remove hash_int i obj h = Some (obj', h') \<and>
     tb_validId obj i \<and> ht_abs hash_int obj' h' (\<lambda>_. [])"
proof -
  obtain i and obj :: "(u32, unit) objtab" and h e where d: "tb_ok obj" "tb_getPtr obj i = Some e" "he_key e = 7"
    "ht_abs hash_int obj h ((\<lambda>_. [])(7 := [i]))" using hash_demo by blast
  have v: "tb_validId obj i" using d(2) by (auto simp: tb_validId_dom)
  have mem: "i \<in> set (((\<lambda>_. [])(7 := [i])) (he_key e))" by (simp add: d(3))
  have eq: "((\<lambda>_. [])(7 := [i]))(he_key e := remove1 i (((\<lambda>_. [])(7 := [i])) (he_key e))) = (\<lambda>_. [])"
    by (simp add: d(3) fun_eq_iff)
  from hash_remove_pulls [OF d(1,4,2) mem] v show ?thesis unfolding eq by blast
qed

text \<open>C35: The name cache interns: adding a name that is cached returns the id it has and raises
  its count; adding a new one returns a new id with count one.  Afterwards the name is found under
  that id, and the id gives the name back.  Every other name keeps its id and its count.\<close>

theorem name_cache_interns:
  assumes "nc_rep nc M" "tb_room (name_tbl nc)" "\<And>i c. M name = Some (i, c) \<Longrightarrow> c + 1 \<noteq> 0"
  shows "\<exists>i c nc'. addName name nc = Some (i, nc') \<and> nc_rep nc' (M(name \<mapsto> (i, c))) \<and>
    c = (case M name of Some (j, d) \<Rightarrow> d + 1 | None \<Rightarrow> 1) \<and>
    (case M name of Some (j, d) \<Rightarrow> i = j | None \<Rightarrow> \<not> tb_validId (name_tbl nc) i) \<and>
    findName name nc' = Some i \<and> getName i nc' = Some name"
proof -
  have "\<exists>i nc'. addName name nc = Some (i, nc') \<and>
    (case M name of Some (j, c) \<Rightarrow> i = j \<and> nc_rep nc' (M(name \<mapsto> (i, c + 1)))
     | None \<Rightarrow> i \<noteq> 0 \<and> \<not> tb_validId (name_tbl nc) i \<and> nc_rep nc' (M(name \<mapsto> (i, 1))))"
    by (rule addName_ok [OF assms(1,2)]) (rule assms(3))
  then obtain i nc' where a: "addName name nc = Some (i, nc')"
    "(case M name of Some (j, c) \<Rightarrow> i = j \<and> nc_rep nc' (M(name \<mapsto> (i, c + 1)))
     | None \<Rightarrow> i \<noteq> 0 \<and> \<not> tb_validId (name_tbl nc) i \<and> nc_rep nc' (M(name \<mapsto> (i, 1))))" by blast
  let ?c = "case M name of Some (j, d) \<Rightarrow> d + 1 | None \<Rightarrow> 1"
  have rep: "nc_rep nc' (M(name \<mapsto> (i, ?c)))" using a(2) by (auto split: option.splits)
  then have "name_view (tb_getPtr (name_tbl nc')) i = Some (name, ?c)" by (simp add: nc_rep_def)
  then have "getName i nc' = Some name" by (auto simp: getName_def name_view_def)
  moreover have "findName name nc' = Some i" using findName_ok [OF rep, of name] by simp
  moreover have "case M name of Some (j, d) \<Rightarrow> i = j | None \<Rightarrow> \<not> tb_validId (name_tbl nc) i"
    using a(2) by (auto split: option.splits)
  ultimately show ?thesis using a(1) rep by blast
qed

theorem name_cache_interns_witness:
  "\<exists>i nc'. addName [97, 98] nc_new = Some (i, nc') \<and> findName [97, 98] nc' = Some i \<and>
     getName i nc' = Some [97, 98]"
proof -
  have "tb_room (name_tbl nc_new)" by (simp add: nc_new_def tb_new_128)
  from name_cache_interns [OF nc_new_ok this, of "[97, 98]"] show ?thesis by auto
qed

text \<open>Releasing an id lowers its name's count, and with the last reference the name leaves the
  cache: it is no longer found, its object is destroyed, and no other name is affected.\<close>

theorem name_cache_releases:
  assumes "nc_rep nc M" "M name = Some (i, c)"
  shows "\<exists>nc'. removeName i nc = Some nc' \<and>
    nc_rep nc' (if c = 1 then M(name := None) else M(name \<mapsto> (i, c - 1))) \<and>
    findName name nc' = Some (if c = 1 then 0 else i) \<and> (c = 1 \<longrightarrow> \<not> tb_validId (name_tbl nc') i)"
proof -
  from removeName_ok [OF assms] obtain nc' where r: "removeName i nc = Some nc'"
    "nc_rep nc' (if c = 1 then M(name := None) else M(name \<mapsto> (i, c - 1)))" by blast
  have "findName name nc' = Some (if c = 1 then 0 else i)"
    using findName_ok [OF r(2), of name] by (simp split: if_splits)
  moreover have "\<not> tb_validId (name_tbl nc') i" if "c = 1"
  proof
    assume "tb_validId (name_tbl nc') i"
    then obtain k d where v: "name_view (tb_getPtr (name_tbl nc')) i = Some (k, d)"
      by (auto simp: tb_validId_dom name_view_def)
    then have "k \<noteq> name" "M k = Some (i, d)" using r(2) that by (auto simp: nc_rep_def split: if_splits)
    then have "name_view (tb_getPtr (name_tbl nc)) i = Some (k, d)" using assms(1) by (simp add: nc_rep_def)
    moreover have "name_view (tb_getPtr (name_tbl nc)) i = Some (name, c)" using assms by (simp add: nc_rep_def)
    ultimately show False using \<open>k \<noteq> name\<close> by simp
  qed
  ultimately show ?thesis using r by blast
qed

theorem name_cache_releases_witness:
  "\<exists>i nc' nc''. addName [97] nc_new = Some (i, nc') \<and> removeName i nc' = Some nc'' \<and>
     findName [97] nc'' = Some 0"
proof -
  have "tb_room (name_tbl nc_new)" by (simp add: nc_new_def tb_new_128)
  from addName_ok [OF nc_new_ok this, of "[97]"] obtain i nc' where
    "addName [97] nc_new = Some (i, nc')" "nc_rep nc' (Map.empty([97] \<mapsto> (i, 1)))" by auto
  with name_cache_releases [of nc' _ "[97]" i 1] show ?thesis by fastforce
qed

end
