(* ===== verification/OdbJournalLog.thy ===== *)
theory OdbJournalLog imports OdbPagedVector begin

text \<open>
  \<open>dbJournalLog.cpp\<close>: the byte log under the ECO journal.  Values are pushed at the end as
  their bytes, and popped at a read position; in debug mode each value is preceded by a
  byte for its type, which a pop checks.  Floats and doubles are their bit patterns.
\<close>

section \<open>State\<close>

datatype log_type =
  LOG_BOOL | LOG_CHAR | LOG_UCHAR | LOG_INT | LOG_UINT | LOG_FLOAT | LOG_DOUBLE | LOG_STRING

primrec log_code :: "log_type \<Rightarrow> u8" where
  "log_code LOG_BOOL = 0" | "log_code LOG_CHAR = 1" | "log_code LOG_UCHAR = 2" | "log_code LOG_INT = 3"
| "log_code LOG_UINT = 4" | "log_code LOG_FLOAT = 5" | "log_code LOG_DOUBLE = 6" | "log_code LOG_STRING = 7"

text \<open>
  A read past the end (\<open>ZASSERT\<close> in the vector's \<open>operator[]\<close>), the journal's critical
  messages, and a length no string can have.
\<close>

datatype journal_error =
    LogIndex
  | LogTypeMismatch log_type u8
  | LogBadLength
  | NestedAction
  | ExpectedEndAction
  | UnexpectedEndAction
  | UnsupportedUndo
  | JournalNoReturn
  | MovedFixedInst
  | NoSuchObject
  | InvalidEnum
  | IntOverflow
  | NullNet
  | DontTouchInst
  | DontTouchNet

record jlog =
  jl_data :: "u8 paged"
  jl_idx :: int
  jl_debug :: bool

definition jl_new :: "bool \<Rightarrow> jlog" where
  "jl_new debug = \<lparr>jl_data = pv_new, jl_idx = 0, jl_debug = debug\<rparr>"

definition jl_push_byte :: "u8 \<Rightarrow> jlog \<Rightarrow> jlog" where
  "jl_push_byte b l = l\<lparr>jl_data := pv_push_back 128 7 0 b (jl_data l)\<rparr>"

definition jl_clear :: "jlog \<Rightarrow> jlog" where
  "jl_clear l = l\<lparr>jl_data := pv_clear (jl_data l), jl_idx := 0\<rparr>"

definition jl_size :: "jlog \<Rightarrow> u32" where
  "jl_size l = pv_size (jl_data l)"

definition jl_empty :: "jlog \<Rightarrow> bool" where
  "jl_empty l \<longleftrightarrow> pv_size (jl_data l) = 0"

definition jl_begin :: "jlog \<Rightarrow> jlog" where
  "jl_begin l = l\<lparr>jl_idx := 0\<rparr>"

definition jl_end :: "jlog \<Rightarrow> bool" where
  "jl_end l \<longleftrightarrow> jl_idx l = sint (jl_size l)"

definition jl_set :: "u32 \<Rightarrow> jlog \<Rightarrow> jlog" where
  "jl_set idx l = l\<lparr>jl_idx := sint idx\<rparr>"

definition moveBackOneInt :: "jlog \<Rightarrow> jlog" where
  "moveBackOneInt l = l\<lparr>jl_idx := jl_idx l - 4 - (if jl_debug l then 1 else 0)\<rparr>"

definition moveToEnd :: "jlog \<Rightarrow> jlog" where
  "moveToEnd l = l\<lparr>jl_idx := sint (jl_size l)\<rparr>"

section \<open>Bytes of the machine types\<close>

text \<open>The object representation of 32-bit and 64-bit values on a little-endian machine.\<close>

definition bytes4 :: "u32 \<Rightarrow> u8 list" where
  "bytes4 v = [ucast v, ucast (drop_bit 8 v), ucast (drop_bit 16 v), ucast (drop_bit 24 v)]"

definition word4 :: "u8 \<Rightarrow> u8 \<Rightarrow> u8 \<Rightarrow> u8 \<Rightarrow> u32" where
  "word4 b0 b1 b2 b3 =
     ucast b0 OR push_bit 8 (ucast b1) OR push_bit 16 (ucast b2) OR push_bit 24 (ucast b3)"

lemma length_bytes4 [simp]: "length (bytes4 v) = 4"
  by (simp add: bytes4_def)

lemma word4_bytes4:
  "word4 (ucast v) (ucast (drop_bit 8 v)) (ucast (drop_bit 16 v)) (ucast (drop_bit 24 v)) = v"
proof (rule bit_eqI)
  fix n assume "possible_bit TYPE(u32) n"
  then have n: "n < 32" by simp
  consider "n < 8" | "8 \<le> n" "n < 16" | "16 \<le> n" "n < 24" | "24 \<le> n" by linarith
  then show "bit (word4 (ucast v) (ucast (drop_bit 8 v)) (ucast (drop_bit 16 v)) (ucast (drop_bit 24 v))) n
      = bit v n"
    using n by cases (auto simp: word4_def bit_simps)
qed

type_synonym u64 = "64 word"

definition bytes8 :: "u64 \<Rightarrow> u8 list" where
  "bytes8 v = bytes4 (ucast v) @ bytes4 (ucast (drop_bit 32 v))"

lemma length_bytes8 [simp]: "length (bytes8 v) = 8"
  by (simp add: bytes8_def)

definition word8 :: "u32 \<Rightarrow> u32 \<Rightarrow> u64" where
  "word8 lo hi = ucast lo OR push_bit 32 (ucast hi)"

lemma word8_halves: "word8 (ucast v) (ucast (drop_bit 32 v)) = v"
proof (rule bit_eqI)
  fix n assume "possible_bit TYPE(u64) n"
  then have n: "n < 64" by simp
  consider "n < 32" | "32 \<le> n" by linarith
  then show "bit (word8 (ucast v) (ucast (drop_bit 32 v))) n = bit v n"
    using n by cases (auto simp: word8_def bit_simps)
qed

section \<open>Pushing\<close>

definition set_type :: "log_type \<Rightarrow> jlog \<Rightarrow> jlog" where
  "set_type type l = (if jl_debug l then jl_push_byte (log_code type) l else l)"

definition push_bytes :: "u8 list \<Rightarrow> jlog \<Rightarrow> jlog" where
  "push_bytes bs l = fold jl_push_byte bs l"

definition jl_push_bool :: "bool \<Rightarrow> jlog \<Rightarrow> jlog" where
  "jl_push_bool v l = jl_push_byte (if v then 1 else 0) (set_type LOG_BOOL l)"

definition jl_push_char :: "u8 \<Rightarrow> jlog \<Rightarrow> jlog" where
  "jl_push_char v l = jl_push_byte v (set_type LOG_CHAR l)"

definition jl_push_uchar :: "u8 \<Rightarrow> jlog \<Rightarrow> jlog" where
  "jl_push_uchar v l = jl_push_byte v (set_type LOG_UCHAR l)"

definition jl_push_int :: "u32 \<Rightarrow> jlog \<Rightarrow> jlog" where
  "jl_push_int v l = push_bytes (bytes4 v) (set_type LOG_INT l)"

definition jl_push_uint :: "u32 \<Rightarrow> jlog \<Rightarrow> jlog" where
  "jl_push_uint v l = push_bytes (bytes4 v) (set_type LOG_UINT l)"

definition jl_push_float :: "u32 \<Rightarrow> jlog \<Rightarrow> jlog" where
  "jl_push_float v l = push_bytes (bytes4 v) (set_type LOG_FLOAT l)"

definition jl_push_double :: "u64 \<Rightarrow> jlog \<Rightarrow> jlog" where
  "jl_push_double v l = push_bytes (bytes8 v) (set_type LOG_DOUBLE l)"

text \<open>A C string: \<open>None\<close> is the null pointer, the bytes do not include the terminator.\<close>

definition jl_push_string :: "u8 list option \<Rightarrow> jlog \<Rightarrow> jlog" where
  "jl_push_string v l = (let l = set_type LOG_STRING l in
     case v of None \<Rightarrow> jl_push_int (- 1) l
     | Some s \<Rightarrow> push_bytes s (jl_push_int (of_nat (length s)) l))"

section \<open>Popping\<close>

definition jl_next :: "jlog \<Rightarrow> journal_error + u8 \<times> jlog" where
  "jl_next l = (case pv_index 128 7 (jl_data l) (word_of_int (jl_idx l)) of
       None \<Rightarrow> Inl LogIndex
     | Some b \<Rightarrow> Inr (b, l\<lparr>jl_idx := jl_idx l + 1\<rparr>))"

definition check_type :: "log_type \<Rightarrow> jlog \<Rightarrow> journal_error + jlog" where
  "check_type expected l =
     (if jl_debug l
      then sum_bind (jl_next l) (\<lambda>(type, l).
        if type \<noteq> log_code expected then Inl (LogTypeMismatch expected type) else Inr l)
      else Inr l)"

definition jl_pop_bool :: "jlog \<Rightarrow> journal_error + bool \<times> jlog" where
  "jl_pop_bool l = sum_bind (check_type LOG_BOOL l) (\<lambda>l.
     sum_bind (jl_next l) (\<lambda>(b, l). Inr (b = 1, l)))"

definition jl_pop_char :: "jlog \<Rightarrow> journal_error + u8 \<times> jlog" where
  "jl_pop_char l = sum_bind (check_type LOG_CHAR l) jl_next"

definition jl_pop_uchar :: "jlog \<Rightarrow> journal_error + u8 \<times> jlog" where
  "jl_pop_uchar l = sum_bind (check_type LOG_UCHAR l) jl_next"

definition next4 :: "jlog \<Rightarrow> journal_error + u32 \<times> jlog" where
  "next4 l = sum_bind (jl_next l) (\<lambda>(v0, l). sum_bind (jl_next l) (\<lambda>(v1, l).
     sum_bind (jl_next l) (\<lambda>(v2, l). sum_bind (jl_next l) (\<lambda>(v3, l). Inr (word4 v0 v1 v2 v3, l)))))"

definition jl_pop_int :: "jlog \<Rightarrow> journal_error + u32 \<times> jlog" where
  "jl_pop_int l = sum_bind (check_type LOG_INT l) next4"

definition jl_pop_uint :: "jlog \<Rightarrow> journal_error + u32 \<times> jlog" where
  "jl_pop_uint l = sum_bind (check_type LOG_UINT l) next4"

definition jl_pop_float :: "jlog \<Rightarrow> journal_error + u32 \<times> jlog" where
  "jl_pop_float l = sum_bind (check_type LOG_FLOAT l) next4"

definition jl_pop_double :: "jlog \<Rightarrow> journal_error + u64 \<times> jlog" where
  "jl_pop_double l = sum_bind (check_type LOG_DOUBLE l) (\<lambda>l.
     sum_bind (next4 l) (\<lambda>(lo, l). sum_bind (next4 l) (\<lambda>(hi, l). Inr (word8 lo hi, l))))"

primrec next_n :: "nat \<Rightarrow> jlog \<Rightarrow> journal_error + u8 list \<times> jlog" where
  "next_n 0 l = Inr ([], l)"
| "next_n (Suc n) l = sum_bind (jl_next l) (\<lambda>(b, l).
     sum_bind (next_n n l) (\<lambda>(bs, l). Inr (b # bs, l)))"

text \<open>
  \<open>pop(char*&)\<close> gives the null pointer for length -1, \<open>pop(std::string&)\<close> the empty string.
  Any other negative length cannot be allocated.
\<close>

definition jl_pop_cstr :: "jlog \<Rightarrow> journal_error + u8 list option \<times> jlog" where
  "jl_pop_cstr l = sum_bind (check_type LOG_STRING l) (\<lambda>l.
     sum_bind (jl_pop_int l) (\<lambda>(len, l).
       if len = - 1 then Inr (None, l)
       else if sint len < 0 then Inl LogBadLength
       else sum_bind (next_n (unat len) l) (\<lambda>(s, l). Inr (Some s, l))))"

definition jl_pop_string :: "jlog \<Rightarrow> journal_error + u8 list \<times> jlog" where
  "jl_pop_string l = sum_bind (check_type LOG_STRING l) (\<lambda>l.
     sum_bind (jl_pop_int l) (\<lambda>(len, l).
       if len = - 1 then Inr ([], l)
       else if sint len < 0 then Inl LogBadLength
       else next_n (unat len) l))"

section \<open>Typed values\<close>

datatype jval =
    JBool bool
  | JChar u8
  | JUChar u8
  | JInt u32
  | JUInt u32
  | JFloat u32
  | JDouble u64
  | JString "u8 list option"

primrec jval_type :: "jval \<Rightarrow> log_type" where
  "jval_type (JBool v) = LOG_BOOL" | "jval_type (JChar v) = LOG_CHAR" | "jval_type (JUChar v) = LOG_UCHAR"
| "jval_type (JInt v) = LOG_INT" | "jval_type (JUInt v) = LOG_UINT" | "jval_type (JFloat v) = LOG_FLOAT"
| "jval_type (JDouble v) = LOG_DOUBLE" | "jval_type (JString v) = LOG_STRING"

primrec jl_push :: "jval \<Rightarrow> jlog \<Rightarrow> jlog" where
  "jl_push (JBool v) l = jl_push_bool v l"
| "jl_push (JChar v) l = jl_push_char v l"
| "jl_push (JUChar v) l = jl_push_uchar v l"
| "jl_push (JInt v) l = jl_push_int v l"
| "jl_push (JUInt v) l = jl_push_uint v l"
| "jl_push (JFloat v) l = jl_push_float v l"
| "jl_push (JDouble v) l = jl_push_double v l"
| "jl_push (JString v) l = jl_push_string v l"

definition jl_pop :: "log_type \<Rightarrow> jlog \<Rightarrow> journal_error + jval \<times> jlog" where
  "jl_pop type l = (case type of
       LOG_BOOL \<Rightarrow> sum_bind (jl_pop_bool l) (\<lambda>(v, l). Inr (JBool v, l))
     | LOG_CHAR \<Rightarrow> sum_bind (jl_pop_char l) (\<lambda>(v, l). Inr (JChar v, l))
     | LOG_UCHAR \<Rightarrow> sum_bind (jl_pop_uchar l) (\<lambda>(v, l). Inr (JUChar v, l))
     | LOG_INT \<Rightarrow> sum_bind (jl_pop_int l) (\<lambda>(v, l). Inr (JInt v, l))
     | LOG_UINT \<Rightarrow> sum_bind (jl_pop_uint l) (\<lambda>(v, l). Inr (JUInt v, l))
     | LOG_FLOAT \<Rightarrow> sum_bind (jl_pop_float l) (\<lambda>(v, l). Inr (JFloat v, l))
     | LOG_DOUBLE \<Rightarrow> sum_bind (jl_pop_double l) (\<lambda>(v, l). Inr (JDouble v, l))
     | LOG_STRING \<Rightarrow> sum_bind (jl_pop_cstr l) (\<lambda>(v, l). Inr (JString v, l)))"

text \<open>What a value adds to the log.\<close>

definition tag :: "bool \<Rightarrow> log_type \<Rightarrow> u8 list" where
  "tag debug type = (if debug then [log_code type] else [])"

primrec jval_bytes :: "bool \<Rightarrow> jval \<Rightarrow> u8 list" where
  "jval_bytes debug (JBool v) = tag debug LOG_BOOL @ [if v then 1 else 0]"
| "jval_bytes debug (JChar v) = tag debug LOG_CHAR @ [v]"
| "jval_bytes debug (JUChar v) = tag debug LOG_UCHAR @ [v]"
| "jval_bytes debug (JInt v) = tag debug LOG_INT @ bytes4 v"
| "jval_bytes debug (JUInt v) = tag debug LOG_UINT @ bytes4 v"
| "jval_bytes debug (JFloat v) = tag debug LOG_FLOAT @ bytes4 v"
| "jval_bytes debug (JDouble v) = tag debug LOG_DOUBLE @ bytes8 v"
| "jval_bytes debug (JString v) = tag debug LOG_STRING @ (case v of
      None \<Rightarrow> tag debug LOG_INT @ bytes4 (- 1)
    | Some s \<Rightarrow> tag debug LOG_INT @ bytes4 (of_nat (length s)) @ s)"

section \<open>The log as a list of bytes\<close>

definition jl_ok :: "jlog \<Rightarrow> bool" where
  "jl_ok l \<longleftrightarrow> pv_ok 128 7 (jl_data l) \<and> length (pv_elems 7 (jl_data l)) < 2 ^ 31"

definition jl_bytes :: "jlog \<Rightarrow> u8 list" where
  "jl_bytes l = pv_elems 7 (jl_data l)"

lemma jl_idx_update [simp]:
  "jl_ok (l\<lparr>jl_idx := i\<rparr>) = jl_ok l" "jl_bytes (l\<lparr>jl_idx := i\<rparr>) = jl_bytes l"
  by (simp_all add: jl_ok_def jl_bytes_def)

lemma jl_ok_length: "jl_ok l \<Longrightarrow> length (jl_bytes l) < 2 ^ 31"
  by (simp add: jl_ok_def jl_bytes_def)

text \<open>There is room for \<open>n\<close> more bytes: positions in the log are \<open>int\<close>s.\<close>

definition jl_room :: "nat \<Rightarrow> jlog \<Rightarrow> bool" where
  "jl_room n l \<longleftrightarrow> jl_ok l \<and> length (jl_bytes l) + n < 2 ^ 31"

text \<open>The log after the bytes \<open>bs\<close> have been appended.\<close>

definition appended :: "u8 list \<Rightarrow> jlog \<Rightarrow> jlog \<Rightarrow> bool" where
  "appended bs l l' \<longleftrightarrow> jl_ok l' \<and> jl_bytes l' = jl_bytes l @ bs \<and>
     jl_debug l' = jl_debug l \<and> jl_idx l' = jl_idx l"

lemma appended_refl: "jl_ok l \<Longrightarrow> appended [] l l"
  by (simp add: appended_def)

lemma appended_trans: "appended xs l l1 \<Longrightarrow> appended ys l1 l2 \<Longrightarrow> appended (xs @ ys) l l2"
  by (simp add: appended_def)

lemma appended_room: "appended xs l l1 \<Longrightarrow> jl_room (length xs + n) l \<Longrightarrow> jl_room n l1"
  by (simp add: appended_def jl_room_def)

lemma appended_push_byte:
  assumes "jl_room 1 l"
  shows "appended [b] l (jl_push_byte b l)"
proof -
  have ok: "pv_ok 128 7 (jl_data l)" "length (pv_elems 7 (jl_data l)) < 4294967295"
    "length (pv_elems 7 (jl_data l)) + 1 < 2 ^ 31"
    using assms by (simp_all add: jl_room_def jl_ok_def jl_bytes_def)
  show ?thesis
    using pv.push_ok [OF ok(1,2), of 0 b] pv.push_elems [OF ok(1,2), of 0 b] ok(3)
    by (simp add: appended_def jl_ok_def jl_bytes_def jl_push_byte_def del: length_pv_elems)
qed

lemma appended_push_bytes: "jl_room (length bs) l \<Longrightarrow> appended bs l (push_bytes bs l)"
proof (induction bs arbitrary: l)
  case Nil
  then show ?case by (simp add: push_bytes_def appended_refl jl_room_def)
next
  case (Cons b bs)
  have "jl_room 1 l" using Cons.prems by (simp add: jl_room_def)
  note p = appended_push_byte [OF this, of b]
  have "jl_room (length bs) (jl_push_byte b l)" using appended_room [OF p] Cons.prems by simp
  from appended_trans [OF p Cons.IH [OF this]] show ?case by (simp add: push_bytes_def)
qed

lemma appended_set_type: "jl_room 1 l \<Longrightarrow> appended (tag (jl_debug l) type) l (set_type type l)"
  by (auto simp: set_type_def tag_def appended_push_byte appended_refl jl_room_def)

lemma appended_typed:
  assumes "jl_room (length (tag (jl_debug l) type @ bs)) l"
  shows "appended (tag (jl_debug l) type @ bs) l (push_bytes bs (set_type type l))"
proof (cases "jl_debug l")
  case True
  then have "jl_room 1 l" using assms by (simp add: jl_room_def tag_def)
  note p = appended_set_type [OF this, of type]
  show ?thesis
    using appended_trans [OF p appended_push_bytes [OF appended_room [OF p]]] assms by simp
next
  case False
  with assms show ?thesis by (simp add: tag_def set_type_def appended_push_bytes)
qed

lemma push_bytes_single: "push_bytes [b] l = jl_push_byte b l"
  by (simp add: push_bytes_def)

text \<open>Pushing a value appends its bytes.\<close>

lemma appended_push:
  assumes "jl_room (length (jval_bytes (jl_debug l) v)) l"
  shows "appended (jval_bytes (jl_debug l) v) l (jl_push v l)"
proof (cases v)
  case (JString s)
  let ?n = "case s of None \<Rightarrow> - 1 | Some cs \<Rightarrow> of_nat (length cs)"
  have split: "jval_bytes (jl_debug l) v = tag (jl_debug l) LOG_STRING @
      (tag (jl_debug l) LOG_INT @ bytes4 ?n) @ (case s of None \<Rightarrow> [] | Some cs \<Rightarrow> cs)"
    by (simp add: JString split: option.split)
  have r1: "jl_room (length (tag (jl_debug l) LOG_STRING @ [])) l"
    using assms unfolding split by (simp add: jl_room_def)
  note p1 = appended_typed [OF r1]
  let ?l1 = "set_type LOG_STRING l"
  have p1': "appended (tag (jl_debug l) LOG_STRING) l ?l1" using p1 by (simp add: push_bytes_def)
  have d1: "jl_debug ?l1 = jl_debug l" using p1' by (simp add: appended_def)
  have r2: "jl_room (length (tag (jl_debug ?l1) LOG_INT @ bytes4 ?n)) ?l1"
    using p1' assms unfolding split d1 by (simp add: jl_room_def appended_def)
  note p2 = appended_typed [OF r2, unfolded d1]
  have r3: "jl_room (length (case s of None \<Rightarrow> [] | Some cs \<Rightarrow> cs)) (jl_push_int ?n ?l1)"
    using p1' p2 assms unfolding split by (simp add: jl_room_def appended_def jl_push_int_def)
  show ?thesis
    using appended_trans [OF p1' appended_trans [OF p2 appended_push_bytes [OF r3, unfolded jl_push_int_def]]]
    unfolding split by (cases s) (simp_all add: JString jl_push_string_def jl_push_int_def push_bytes_def)
qed (use assms in \<open>auto simp: jl_push_bool_def jl_push_char_def jl_push_uchar_def jl_push_int_def
       jl_push_uint_def jl_push_float_def jl_push_double_def push_bytes_single [symmetric]
       intro!: appended_typed\<close>)

section \<open>What a pop reads\<close>

text \<open>The bytes from the read position on.\<close>

definition jl_rest :: "jlog \<Rightarrow> u8 list" where
  "jl_rest l = drop (nat (jl_idx l)) (jl_bytes l)"

definition advance :: "nat \<Rightarrow> jlog \<Rightarrow> jlog" where
  "advance n l = l\<lparr>jl_idx := jl_idx l + int n\<rparr>"

definition readable :: "jlog \<Rightarrow> u8 list \<Rightarrow> bool" where
  "readable l bs \<longleftrightarrow> jl_ok l \<and> 0 \<le> jl_idx l \<and> jl_rest l = bs"

lemma readable_advance:
  assumes "readable l (xs @ ys)"
  shows "readable (advance (length xs) l) ys"
proof -
  have "0 \<le> jl_idx l" "drop (nat (jl_idx l)) (jl_bytes l) = xs @ ys"
    using assms by (simp_all add: readable_def jl_rest_def)
  then have "drop (nat (jl_idx l + int (length xs))) (jl_bytes l) = ys"
    by (metis add.commute append_eq_conv_conj drop_drop nat_add_distrib nat_int of_nat_0_le_iff)
  with assms show ?thesis
    by (simp add: readable_def jl_rest_def advance_def jl_ok_def jl_bytes_def)
qed

lemma jl_next_readable:
  assumes "readable l (b # bs)"
  shows "jl_next l = Inr (b, advance 1 l)"
proof -
  let ?n = "nat (jl_idx l)"
  have ok: "pv_ok 128 7 (jl_data l)" "0 \<le> jl_idx l" "drop ?n (pv_elems 7 (jl_data l)) = b # bs"
    using assms by (simp_all add: readable_def jl_ok_def jl_rest_def jl_bytes_def)
  have n: "?n < length (pv_elems 7 (jl_data l))"
    using ok(3) by (metis drop_eq_Nil leI list.distinct(1))
  have "pv_elems 7 (jl_data l) ! ?n = b" using ok(3) n by (metis nth_via_drop)
  moreover have "word_of_int (jl_idx l) = (of_nat ?n :: u32)" using ok(2) by simp
  ultimately show ?thesis using pv_at [OF ok(1) n] by (simp add: jl_next_def advance_def)
qed

lemma jl_debug_advance [simp]: "jl_debug (advance n l) = jl_debug l"
  by (simp add: advance_def)

lemma advance_add [simp]: "advance m (advance n l) = advance (n + m) l"
  by (simp add: advance_def)

lemma advance_0 [simp]: "advance 0 l = l"
  by (simp add: advance_def)

lemma check_type_readable:
  assumes "readable l (tag (jl_debug l) type @ bs)"
  shows "check_type type l = Inr (advance (length (tag (jl_debug l) type)) l)"
    "readable (advance (length (tag (jl_debug l) type)) l) bs"
  using assms readable_advance [OF assms] jl_next_readable [of l "log_code type" bs]
  by (auto simp: check_type_def tag_def)

lemma check_type_mismatch:
  assumes "readable l (tag True found @ bs)" "jl_debug l" "found \<noteq> type"
  shows "check_type type l = Inl (LogTypeMismatch type (log_code found))"
  using assms jl_next_readable [of l "log_code found" bs]
  by (cases found; cases type) (simp_all add: check_type_def tag_def)

lemma next4_readable:
  assumes "readable l (bytes4 v @ bs)"
  shows "next4 l = Inr (v, advance 4 l)" "readable (advance 4 l) bs"
proof -
  let ?b = "\<lambda>n. ucast (drop_bit n v) :: u8"
  have r0: "readable l (?b 0 # ?b 8 # ?b 16 # ?b 24 # bs)" using assms by (simp add: bytes4_def)
  have step: "readable (advance n l) (b # xs) \<Longrightarrow> readable (advance (Suc n) l) xs" for n b xs
    using readable_advance [of "advance n l" "[b]" xs] by simp
  have r1: "readable (advance 1 l) (?b 8 # ?b 16 # ?b 24 # bs)" using step [of 0] r0 by simp
  have r2: "readable (advance 2 l) (?b 16 # ?b 24 # bs)" using step [OF r1] by (simp add: eval_nat_numeral)
  have r3: "readable (advance 3 l) (?b 24 # bs)" using step [OF r2] by (simp add: eval_nat_numeral)
  have j1: "jl_next (advance 1 l) = Inr (?b 8, advance 2 l)"
    using jl_next_readable [OF r1] by (simp add: numeral_2_eq_2)
  show "readable (advance 4 l) bs" using step [OF r3] by (simp add: eval_nat_numeral)
  show "next4 l = Inr (v, advance 4 l)"
    using jl_next_readable [OF r0] j1 jl_next_readable [OF r2] jl_next_readable [OF r3]
    by (simp add: next4_def word4_bytes4)
qed

lemma typed_byte:
  assumes "readable l (tag (jl_debug l) type @ b # bs)"
  shows "check_type type l = Inr (advance (length (tag (jl_debug l) type)) l)"
    "jl_next (advance (length (tag (jl_debug l) type)) l)
       = Inr (b, advance (Suc (length (tag (jl_debug l) type))) l)"
  using check_type_readable [OF assms] jl_next_readable [OF check_type_readable(2) [OF assms]] by simp_all

lemma typed_word:
  assumes "readable l (tag (jl_debug l) type @ bytes4 v @ bs)"
  shows "check_type type l = Inr (advance (length (tag (jl_debug l) type)) l)"
    "next4 (advance (length (tag (jl_debug l) type)) l)
       = Inr (v, advance (length (tag (jl_debug l) type) + 4) l)"
  using check_type_readable [OF assms] next4_readable(1) [OF check_type_readable(2) [OF assms]] by simp_all

lemma next_n_readable:
  "readable l (s @ bs) \<Longrightarrow> next_n (length s) l = Inr (s, advance (length s) l)"
proof (induction s arbitrary: l)
  case (Cons b s)
  from jl_next_readable [of l b "s @ bs"] Cons.prems have n: "jl_next l = Inr (b, advance 1 l)" by simp
  from readable_advance [of l "[b]" "s @ bs"] Cons.prems have "readable (advance 1 l) (s @ bs)" by simp
  from Cons.IH [OF this] n show ?case by simp
qed simp

text \<open>A string fits an \<open>int\<close> length.\<close>

definition jval_ok :: "jval \<Rightarrow> bool" where
  "jval_ok v \<longleftrightarrow> (case v of JString (Some s) \<Rightarrow> length s < 2 ^ 31 | _ \<Rightarrow> True)"

lemma string_length_word:
  assumes "length s < 2 ^ 31"
  shows "unat (of_nat (length s) :: u32) = length s" "sint (of_nat (length s) :: u32) = int (length s)"
    "(of_nat (length s) :: u32) \<noteq> - 1"
proof -
  show u: "unat (of_nat (length s) :: u32) = length s"
    using assms by (subst unsigned_of_nat) (simp add: take_bit_nat_eq_self)
  show i: "sint (of_nat (length s) :: u32) = int (length s)"
    using assms by (simp add: signed_of_nat signed_take_bit_int_eq_self)
  show "(of_nat (length s) :: u32) \<noteq> - 1"
  proof
    assume "(of_nat (length s) :: u32) = - 1"
    then have "int (length s) = - 1" using i by simp
    then show False by simp
  qed
qed

text \<open>Popping reads back the value whose bytes are at the read position.\<close>

lemma jl_pop_readable:
  assumes "readable l (jval_bytes (jl_debug l) v @ bs)" "jval_ok v"
  shows "jl_pop (jval_type v) l = Inr (v, advance (length (jval_bytes (jl_debug l) v)) l)"
proof -
  note ct = check_type_readable
  show ?thesis
  proof (cases v)
    case (JString s)
    have r: "readable l (tag (jl_debug l) LOG_STRING @ (case s of
        None \<Rightarrow> tag (jl_debug l) LOG_INT @ bytes4 (- 1)
      | Some s \<Rightarrow> tag (jl_debug l) LOG_INT @ bytes4 (of_nat (length s)) @ s) @ bs)"
      using assms(1) by (simp add: JString)
    let ?l1 = "advance (length (tag (jl_debug l) LOG_STRING)) l"
    let ?l2 = "advance (length (tag (jl_debug l) LOG_INT)) ?l1"
    let ?n = "case s of None \<Rightarrow> - 1 | Some cs \<Rightarrow> of_nat (length cs)"
    let ?cs = "case s of None \<Rightarrow> [] | Some cs \<Rightarrow> cs"
    have r1: "readable ?l1 (tag (jl_debug ?l1) LOG_INT @ bytes4 ?n @ ?cs @ bs)"
      using ct(2) [OF r] by (cases s) simp_all
    have r2: "readable ?l2 (bytes4 ?n @ ?cs @ bs)" using ct(2) [OF r1] by simp
    have pi: "jl_pop_int ?l1 = Inr (?n, advance 4 ?l2)"
      using ct(1) [OF r1] next4_readable(1) [OF r2] by (simp add: jl_pop_int_def)
    note nn = next_n_readable [OF next4_readable(2) [OF r2]]
    show ?thesis
    proof (cases s)
      case None
      with ct(1) [OF r] pi show ?thesis
        by (simp add: JString jl_pop_def jl_pop_cstr_def add.assoc)
    next
      case (Some cs)
      with assms(2) have "length cs < 2 ^ 31" by (simp add: JString jval_ok_def)
      note len = string_length_word [OF this]
      from Some ct(1) [OF r] pi nn len show ?thesis
        by (simp add: JString jl_pop_def jl_pop_cstr_def add.assoc)
    qed
  next
    case (JDouble d)
    let ?l1 = "advance (length (tag (jl_debug l) LOG_DOUBLE)) l"
    have r: "readable l (tag (jl_debug l) LOG_DOUBLE @ bytes4 (ucast d) @ bytes4 (ucast (drop_bit 32 d)) @ bs)"
      using assms(1) by (simp add: JDouble bytes8_def)
    note n4 = next4_readable [OF ct(2) [OF r]]
    show ?thesis
      using ct(1) [OF r] n4(1) next4_readable(1) [OF n4(2)]
      by (simp add: JDouble jl_pop_def jl_pop_double_def word8_halves add.assoc)
  next
    case (JBool q)
    then show ?thesis using assms(1) typed_byte [of l LOG_BOOL "if q then 1 else 0" bs]
      by (simp add: jl_pop_def jl_pop_bool_def)
  next
    case (JChar q)
    then show ?thesis using assms(1) typed_byte [of l LOG_CHAR q bs]
      by (simp add: jl_pop_def jl_pop_char_def)
  next
    case (JUChar q)
    then show ?thesis using assms(1) typed_byte [of l LOG_UCHAR q bs]
      by (simp add: jl_pop_def jl_pop_uchar_def)
  next
    case (JInt q)
    then show ?thesis using assms(1) typed_word [of l LOG_INT q bs]
      by (simp add: jl_pop_def jl_pop_int_def)
  next
    case (JUInt q)
    then show ?thesis using assms(1) typed_word [of l LOG_UINT q bs]
      by (simp add: jl_pop_def jl_pop_uint_def)
  next
    case (JFloat q)
    then show ?thesis using assms(1) typed_word [of l LOG_FLOAT q bs]
      by (simp add: jl_pop_def jl_pop_float_def)
  qed
qed

text \<open>The same for each pop of its own, as the journal's handlers use them.\<close>

definition skip :: "jval \<Rightarrow> jlog \<Rightarrow> jlog" where
  "skip v l = advance (length (jval_bytes (jl_debug l) v)) l"

lemma jl_debug_skip [simp]: "jl_debug (skip v l) = jl_debug l"
  by (simp add: skip_def)

definition vals_bytes :: "bool \<Rightarrow> jval list \<Rightarrow> u8 list" where
  "vals_bytes debug vs = concat (map (jval_bytes debug) vs)"

lemma vals_bytes_simps [simp]:
  "vals_bytes debug [] = []" "vals_bytes debug (v # vs) = jval_bytes debug v @ vals_bytes debug vs"
  "vals_bytes debug (vs @ ws) = vals_bytes debug vs @ vals_bytes debug ws"
  by (simp_all add: vals_bytes_def)

lemma readable_skip:
  assumes "readable l (vals_bytes (jl_debug l) (v # vs) @ bs)"
  shows "readable (skip v l) (vals_bytes (jl_debug (skip v l)) vs @ bs)"
  using readable_advance [of l "jval_bytes (jl_debug l) v" "vals_bytes (jl_debug l) vs @ bs"] assms
  by (simp add: skip_def)

lemma pop_readable:
  assumes "readable l (vals_bytes (jl_debug l) (v # vs) @ bs)" "jval_ok v"
  shows "jl_pop (jval_type v) l = Inr (v, skip v l)"
  using jl_pop_readable [of l v "vals_bytes (jl_debug l) vs @ bs"] assms by (simp add: skip_def)

lemma pop_uchar_readable:
  "readable l (vals_bytes (jl_debug l) (JUChar v # vs) @ bs) \<Longrightarrow> jl_pop_uchar l = Inr (v, skip (JUChar v) l)"
  using pop_readable [of l "JUChar v" vs bs] by (cases "jl_pop_uchar l") (auto simp: jl_pop_def jval_ok_def)

lemma pop_int_readable:
  "readable l (vals_bytes (jl_debug l) (JInt v # vs) @ bs) \<Longrightarrow> jl_pop_int l = Inr (v, skip (JInt v) l)"
  using pop_readable [of l "JInt v" vs bs] by (cases "jl_pop_int l") (auto simp: jl_pop_def jval_ok_def)

lemma pop_uint_readable:
  "readable l (vals_bytes (jl_debug l) (JUInt v # vs) @ bs) \<Longrightarrow> jl_pop_uint l = Inr (v, skip (JUInt v) l)"
  using pop_readable [of l "JUInt v" vs bs] by (cases "jl_pop_uint l") (auto simp: jl_pop_def jval_ok_def)

text \<open>Behind a list of values.\<close>

definition skips :: "jval list \<Rightarrow> jlog \<Rightarrow> jlog" where
  "skips vs l = advance (length (vals_bytes (jl_debug l) vs)) l"

lemma skips_simps [simp]: "skips [] l = l" "skips (v # vs) l = skips vs (skip v l)"
  by (simp_all add: skips_def skip_def)

lemma skips_append: "skips (vs @ ws) l = skips ws (skips vs l)"
  by (induction vs arbitrary: l) simp_all

lemma jl_debug_skips [simp]: "jl_debug (skips vs l) = jl_debug l"
  by (simp add: skips_def)

lemma readable_skips:
  "readable l (vals_bytes (jl_debug l) (vs @ ws) @ bs) \<Longrightarrow>
   readable (skips vs l) (vals_bytes (jl_debug (skips vs l)) ws @ bs)"
proof (induction vs arbitrary: l)
  case (Cons v vs)
  have "readable l (vals_bytes (jl_debug l) (v # (vs @ ws)) @ bs)" using Cons.prems by simp
  from Cons.IH [OF readable_skip [OF this]] show ?case by simp
qed simp

primrec pop_all :: "log_type list \<Rightarrow> jlog \<Rightarrow> journal_error + jval list \<times> jlog" where
  "pop_all [] l = Inr ([], l)"
| "pop_all (t # ts) l = sum_bind (jl_pop t l) (\<lambda>(v, l).
     sum_bind (pop_all ts l) (\<lambda>(vs, l). Inr (v # vs, l)))"

lemma appended_pushes:
  "jl_room (length (vals_bytes (jl_debug l) vs)) l \<Longrightarrow>
   appended (vals_bytes (jl_debug l) vs) l (fold jl_push vs l)"
proof (induction vs arbitrary: l)
  case Nil
  then show ?case by (simp add: appended_refl jl_room_def)
next
  case (Cons v vs)
  have "jl_room (length (jval_bytes (jl_debug l) v)) l" using Cons.prems by (simp add: jl_room_def)
  note p = appended_push [OF this]
  have d: "jl_debug (jl_push v l) = jl_debug l" using p by (simp add: appended_def)
  have "jl_room (length (vals_bytes (jl_debug (jl_push v l)) vs)) (jl_push v l)"
    using appended_room [OF p] Cons.prems by (simp add: d)
  from appended_trans [OF p Cons.IH [OF this, unfolded d]] show ?case by simp
qed

lemma pop_all_readable:
  "readable l (vals_bytes (jl_debug l) vs @ bs) \<Longrightarrow> list_all jval_ok vs \<Longrightarrow>
   pop_all (map jval_type vs) l = Inr (vs, advance (length (vals_bytes (jl_debug l) vs)) l)"
proof (induction vs arbitrary: l)
  case (Cons v vs)
  have r: "readable l (jval_bytes (jl_debug l) v @ vals_bytes (jl_debug l) vs @ bs)" using Cons.prems by simp
  let ?l' = "advance (length (jval_bytes (jl_debug l) v)) l"
  have "readable ?l' (vals_bytes (jl_debug ?l') vs @ bs)" using readable_advance [OF r] by simp
  from Cons.IH [OF this] jl_pop_readable [OF r] Cons.prems(2) show ?case by simp
qed simp

lemma readable_appended:
  assumes "appended bs l l'" "jl_idx l = int (length (jl_bytes l))"
  shows "readable l' bs"
  using assms by (simp add: appended_def readable_def jl_rest_def)

lemma sint_jl_size:
  assumes "jl_ok l"
  shows "sint (jl_size l) = int (length (jl_bytes l))"
proof -
  have n: "unat (jl_size l) = length (jl_bytes l)" "length (jl_bytes l) < 2 ^ 31"
    using assms by (simp_all add: jl_ok_def jl_size_def pv_size_def jl_bytes_def)
  have "jl_size l = of_nat (unat (jl_size l))" by simp
  with n have "jl_size l = of_nat (length (jl_bytes l))" by simp
  with string_length_word(2) [OF n(2)] show ?thesis by simp
qed

text \<open>The position a log had before values were pushed is where they are read.\<close>

lemma readable_at_size:
  assumes "jl_ok l" "appended bs l l'"
  shows "readable (jl_set (jl_size l) l') bs"
  using assms sint_jl_size [OF assms(1)]
  by (simp add: readable_def appended_def jl_rest_def jl_set_def)

text \<open>
  C32: The log returns what was pushed.  Values of any types pushed onto a log, while it stays
  below the largest \<open>int\<close> size, are read back in order, from the position where they were
  pushed, by pops of the same types, in debug mode and without it; strings include the null
  pointer.  The read position ends behind the last byte.
\<close>

theorem log_roundtrip:
  assumes "jl_ok l" "length (jl_bytes l) + length (vals_bytes (jl_debug l) vs) < 2 ^ 31"
      and "list_all jval_ok vs"
  shows "\<exists>l'. pop_all (map jval_type vs) (jl_set (jl_size l) (fold jl_push vs l)) = Inr (vs, l') \<and> jl_end l'"
proof -
  have room: "jl_room (length (vals_bytes (jl_debug l) vs)) l" using assms by (simp add: jl_room_def)
  note p = appended_pushes [OF room]
  have ok': "jl_ok (fold jl_push vs l)" using p by (simp add: appended_def)
  let ?l1 = "jl_set (jl_size l) (fold jl_push vs l)"
  have r: "readable ?l1 (vals_bytes (jl_debug ?l1) vs @ [])"
    using readable_at_size [OF assms(1) p] p by (simp add: appended_def jl_set_def)
  from pop_all_readable [OF r assms(3)] p sint_jl_size [OF assms(1)] sint_jl_size [OF ok']
  show ?thesis
    by (auto simp: jl_end_def appended_def advance_def jl_set_def jl_size_def)
qed

theorem log_roundtrip_witness:
  "\<exists>l'. pop_all [LOG_INT, LOG_STRING, LOG_BOOL]
     (jl_set (jl_size (jl_new True)) (fold jl_push [JInt 7, JString (Some [104, 105]), JBool True] (jl_new True)))
     = Inr ([JInt 7, JString (Some [104, 105]), JBool True], l') \<and> jl_end l'"
proof -
  have "jl_ok (jl_new True)"
    using pv_new_ok [of 7, where 'a = u8] by (simp add: jl_new_def jl_ok_def pv_elems_def pv_new_def)
  from log_roundtrip [OF this, of "[JInt 7, JString (Some [104, 105]), JBool True]"] show ?thesis
    by (simp add: jval_ok_def tag_def jl_new_def jl_bytes_def pv_elems_def pv_new_def)
qed

text \<open>
  Debug mode detects a reader out of step.  When the byte at the read position is the type
  tag of a pushed value, popping a value of another type is the journal's type error, naming
  the tag found, whatever follows; without debug mode there is no check.
\<close>

theorem pop_detects_mismatch:
  assumes "readable l (jval_bytes True v @ bs)" "jl_debug l" "jval_type v \<noteq> type"
  shows "jl_pop type l = Inl (LogTypeMismatch type (log_code (jval_type v)))"
proof -
  obtain bs' where "jval_bytes True v = tag True (jval_type v) @ bs'" by (cases v) simp_all
  then have "check_type type l = Inl (LogTypeMismatch type (log_code (jval_type v)))"
    using assms by (intro check_type_mismatch [of _ _ "bs' @ bs"]) simp_all
  then show ?thesis
    by (cases type) (simp_all add: jl_pop_def jl_pop_bool_def jl_pop_char_def jl_pop_uchar_def jl_pop_int_def
        jl_pop_uint_def jl_pop_float_def jl_pop_double_def jl_pop_cstr_def)
qed

theorem pop_detects_mismatch_witness:
  "jl_pop LOG_INT (jl_set 0 (jl_push (JUInt 7) (jl_new True))) = Inl (LogTypeMismatch LOG_INT 4)"
proof -
  have ok: "jl_ok (jl_new True)"
    using pv_new_ok [of 7, where 'a = u8] by (simp add: jl_new_def jl_ok_def pv_elems_def pv_new_def)
  have e: "jl_bytes (jl_new True) = []" "jl_debug (jl_new True)" "jl_size (jl_new True) = 0"
    by (simp_all add: jl_new_def jl_bytes_def pv_elems_def pv_new_def jl_size_def pv_size_def)
  have "jl_room (length (jval_bytes True (JUInt 7))) (jl_new True)"
    using ok by (simp add: jl_room_def e tag_def)
  then have a: "appended (jval_bytes True (JUInt 7)) (jl_new True) (jl_push (JUInt 7) (jl_new True))"
    using appended_push [of "jl_new True" "JUInt 7"] e(2) by simp
  have "readable (jl_set 0 (jl_push (JUInt 7) (jl_new True))) (jval_bytes True (JUInt 7) @ [])"
    using readable_at_size [OF ok a] by (simp add: e(3))
  moreover have "jl_debug (jl_set 0 (jl_push (JUInt 7) (jl_new True)))"
    using a e(2) by (simp add: appended_def jl_set_def)
  ultimately show ?thesis using pop_detects_mismatch [of _ "JUInt 7" "[]" LOG_INT] by simp
qed

end
