(* ===== verification/OdbJournal.thy ===== *)
theory OdbJournal imports OdbJournalLog begin

text \<open>
  \<open>dbJournal.cpp\<close>: the recording of actions in the byte log, and the loops that replay the
  log forwards (\<open>redo\<close>) and backwards (\<open>undo\<close>).  An action is its code, its parameters, the
  code \<open>END_ACTION\<close> and the position where it starts, which lets the log be scanned
  backwards.  The two loops take the switch over the actions as a parameter here;
  \<open>OdbInst\<close> has the switches for the fields of instances and nets.
\<close>

section \<open>Recording\<close>

abbreviation CREATE_OBJECT :: u8 where "CREATE_OBJECT \<equiv> 0"
abbreviation DELETE_OBJECT :: u8 where "DELETE_OBJECT \<equiv> 1"
abbreviation CONNECT_OBJECT :: u8 where "CONNECT_OBJECT \<equiv> 2"
abbreviation DISCONNECT_OBJECT :: u8 where "DISCONNECT_OBJECT \<equiv> 3"
abbreviation SWAP_OBJECT :: u8 where "SWAP_OBJECT \<equiv> 4"
abbreviation UPDATE_FIELD :: u8 where "UPDATE_FIELD \<equiv> 5"
abbreviation END_ACTION :: u8 where "END_ACTION \<equiv> 6"

record journal =
  j_log :: jlog
  start_action :: bool
  action_idx :: u32
  cur_action :: u8

definition journal_new :: "bool \<Rightarrow> journal" where
  "journal_new debug = \<lparr>j_log = jl_new debug, start_action = False, action_idx = 0, cur_action = 0\<rparr>"

definition journal_clear :: "journal \<Rightarrow> journal" where
  "journal_clear j = j\<lparr>j_log := jl_clear (j_log j), start_action := False\<rparr>"

definition journal_size :: "journal \<Rightarrow> int" where
  "journal_size j = sint (jl_size (j_log j))"

definition journal_empty :: "journal \<Rightarrow> bool" where
  "journal_empty j = jl_empty (j_log j)"

definition beginAction :: "u8 \<Rightarrow> journal \<Rightarrow> journal_error + journal" where
  "beginAction action j =
     (if start_action j then Inl NestedAction
      else Inr (j\<lparr>start_action := True, action_idx := jl_size (j_log j),
                  j_log := jl_push_uchar action (j_log j)\<rparr>))"

definition pushParam :: "jval \<Rightarrow> journal \<Rightarrow> journal" where
  "pushParam v j = j\<lparr>j_log := jl_push v (j_log j)\<rparr>"

definition endAction :: "journal \<Rightarrow> journal" where
  "endAction j = j\<lparr>start_action := False,
     j_log := jl_push_uint (action_idx j) (jl_push_uchar END_ACTION (j_log j))\<rparr>"

text \<open>
  \<open>updateField\<close>: the field's old and new value under the object's type and id.  The value
  type is that of the overload.
\<close>

definition updateField :: "u32 \<Rightarrow> u32 \<Rightarrow> u32 \<Rightarrow> jval \<Rightarrow> jval \<Rightarrow> journal \<Rightarrow> journal_error + journal" where
  "updateField obj_type obj_id field_id prev new j =
     sum_bind (beginAction UPDATE_FIELD j) (\<lambda>j.
       Inr (endAction (fold pushParam [JInt obj_type, JUInt obj_id, JInt field_id, prev, new] j)))"

text \<open>An action as the setters write it: the code and the parameters between the two calls.\<close>

definition record_action :: "u8 \<Rightarrow> jval list \<Rightarrow> journal \<Rightarrow> journal_error + journal" where
  "record_action action params j =
     sum_bind (beginAction action j) (\<lambda>j. Inr (endAction (fold pushParam params j)))"

lemma updateField_record:
  "updateField t i f p n = record_action UPDATE_FIELD [JInt t, JUInt i, JInt f, p, n]"
  by (rule ext) (simp add: updateField_def record_action_def)

section \<open>Replaying\<close>

definition popObjectType :: "jlog \<Rightarrow> journal_error + u32 \<times> jlog" where
  "popObjectType l = jl_pop_int l"

type_synonym 's switch = "u8 \<Rightarrow> jlog \<Rightarrow> 's \<Rightarrow> journal_error + jlog \<times> 's"

text \<open>\<open>None\<close> would be a loop that does not end.\<close>

partial_function (option) redo_loop ::
    "'s switch \<Rightarrow> journal \<Rightarrow> 's \<Rightarrow> (journal_error + journal \<times> 's) option" where
  "redo_loop switch j s =
     (if jl_end (j_log j) then Some (Inr (j, s))
      else case jl_pop_uchar (j_log j) of Inl e \<Rightarrow> Some (Inl e) | Inr (a, l) \<Rightarrow>
        (case (if a = END_ACTION then Inl UnexpectedEndAction else switch a l s) of
           Inl e \<Rightarrow> Some (Inl e)
         | Inr (l, s') \<Rightarrow>
            (case jl_pop_uchar l of Inl e \<Rightarrow> Some (Inl e) | Inr (end_action, l) \<Rightarrow>
               (case jl_pop_uint l of Inl e \<Rightarrow> Some (Inl e) | Inr (idx, l) \<Rightarrow>
                  if end_action \<noteq> END_ACTION \<or> idx \<noteq> word_of_int (jl_idx (j_log j))
                  then Some (Inl ExpectedEndAction)
                  else redo_loop switch (j\<lparr>j_log := l, cur_action := a\<rparr>) s'))))"

definition redo :: "'s switch \<Rightarrow> journal \<Rightarrow> 's \<Rightarrow> (journal_error + journal \<times> 's) option" where
  "redo switch j s = redo_loop switch (j\<lparr>j_log := jl_begin (j_log j)\<rparr>) s"

partial_function (option) undo_loop ::
    "'s switch \<Rightarrow> journal \<Rightarrow> 's \<Rightarrow> (journal_error + journal \<times> 's) option" where
  "undo_loop switch j s =
     (case jl_pop_uint (j_log j) of Inl e \<Rightarrow> Some (Inl e) | Inr (idx, l) \<Rightarrow>
        (case jl_pop_uchar (jl_set idx l) of Inl e \<Rightarrow> Some (Inl e) | Inr (a, l) \<Rightarrow>
           (case (if a = END_ACTION then Inr (l, s) else switch a l s) of
              Inl e \<Rightarrow> Some (Inl e)
            | Inr (l, s') \<Rightarrow>
               if idx = 0 then Some (Inr (j\<lparr>j_log := l, cur_action := a\<rparr>, s'))
               else undo_loop switch
                      (j\<lparr>j_log := moveBackOneInt (jl_set idx l), cur_action := a\<rparr>) s')))"

definition undo :: "'s switch \<Rightarrow> journal \<Rightarrow> 's \<Rightarrow> (journal_error + journal \<times> 's) option" where
  "undo switch j s =
     (if jl_empty (j_log j) then Some (Inr (j, s))
      else undo_loop switch (j\<lparr>j_log := moveBackOneInt (moveToEnd (j_log j))\<rparr>) s)"

section \<open>What a journal holds\<close>

type_synonym action = "u8 \<times> jval list"

definition action_vals :: "nat \<Rightarrow> action \<Rightarrow> jval list" where
  "action_vals pos a = JUChar (fst a) # snd a @ [JUChar END_ACTION, JUInt (of_nat pos)]"

fun actions_bytes :: "bool \<Rightarrow> nat \<Rightarrow> action list \<Rightarrow> u8 list" where
  "actions_bytes debug pos [] = []"
| "actions_bytes debug pos (a # as) =
     (let bs = vals_bytes debug (action_vals pos a) in bs @ actions_bytes debug (pos + length bs) as)"

lemma actions_bytes_append:
  "actions_bytes debug pos (as @ bs) =
     actions_bytes debug pos as @ actions_bytes debug (pos + length (actions_bytes debug pos as)) bs"
  by (induction as arbitrary: pos) (simp_all add: Let_def add.assoc)

lemma actions_bytes_single:
  "actions_bytes debug pos [a] = vals_bytes debug (action_vals pos a)"
  by simp

lemma actions_bytes_Nil_iff: "actions_bytes debug pos as = [] \<longleftrightarrow> as = []"
  by (cases as) (simp_all add: action_vals_def Let_def)

text \<open>The journal holds exactly these actions, none of them open.\<close>

definition journal_holds :: "journal \<Rightarrow> action list \<Rightarrow> bool" where
  "journal_holds j as \<longleftrightarrow> jl_ok (j_log j) \<and> \<not> start_action j \<and>
     jl_bytes (j_log j) = actions_bytes (jl_debug (j_log j)) 0 as"

lemma journal_new_holds: "journal_holds (journal_new debug) []"
  using pv_new_ok [of 7, where 'a = u8]
  by (simp add: journal_holds_def journal_new_def jl_new_def jl_ok_def jl_bytes_def pv_elems_def pv_new_def)

lemma fold_pushParam: "fold pushParam vs j = j\<lparr>j_log := fold jl_push vs (j_log j)\<rparr>"
  by (induction vs arbitrary: j) (simp_all add: pushParam_def)

lemma jl_size_of_nat:
  assumes "jl_ok l"
  shows "jl_size l = of_nat (length (jl_bytes l))" "sint (jl_size l) = int (length (jl_bytes l))"
proof -
  have "unat (jl_size l) = length (jl_bytes l)"
    using assms by (simp add: jl_ok_def jl_size_def pv_size_def jl_bytes_def)
  moreover have "jl_size l = of_nat (unat (jl_size l))" by simp
  ultimately show "jl_size l = of_nat (length (jl_bytes l))" by simp
qed (rule sint_jl_size [OF assms])

text \<open>Recording an action adds it to what the journal holds.\<close>

lemma record_action_holds:
  assumes "journal_holds j as"
      and "length (jl_bytes (j_log j)) +
        length (vals_bytes (jl_debug (j_log j)) (action_vals (length (jl_bytes (j_log j))) (a, ps))) < 2 ^ 31"
  shows "\<exists>j'. record_action a ps j = Inr j' \<and> journal_holds j' (as @ [(a, ps)]) \<and>
    jl_debug (j_log j') = jl_debug (j_log j) \<and> jl_bytes (j_log j') = jl_bytes (j_log j) @
      vals_bytes (jl_debug (j_log j)) (action_vals (length (jl_bytes (j_log j))) (a, ps))"
proof -
  have ok: "jl_ok (j_log j)" "\<not> start_action j"
    "jl_bytes (j_log j) = actions_bytes (jl_debug (j_log j)) 0 as"
    using assms(1) by (simp_all add: journal_holds_def)
  let ?vs = "action_vals (length (jl_bytes (j_log j))) (a, ps)"
  have "jl_room (length (vals_bytes (jl_debug (j_log j)) ?vs)) (j_log j)"
    using assms(2) ok(1) by (simp add: jl_room_def)
  note p = appended_pushes [OF this]
  have r: "record_action a ps j = Inr (j\<lparr>start_action := False, action_idx := jl_size (j_log j),
      j_log := fold jl_push ?vs (j_log j)\<rparr>)"
    using ok(2) jl_size_of_nat(1) [OF ok(1)]
    by (simp add: record_action_def beginAction_def endAction_def fold_pushParam action_vals_def)
  show ?thesis
    using p ok unfolding r by (simp add: journal_holds_def appended_def actions_bytes_append)
qed

section \<open>The interface of the switches\<close>

text \<open>
  What replaying relies on: for an abstract action, recorded as \<open>enc a\<close>, the switch reads the
  parameters to their end and has the effect \<open>eff a\<close> on the state, or its error.  It may do so in
  some of the log's debug modes only, \<open>modes a\<close>.
\<close>

primrec eff_all :: "('a \<Rightarrow> 's \<Rightarrow> journal_error + 's) \<Rightarrow> 'a list \<Rightarrow> 's \<Rightarrow> journal_error + 's" where
  "eff_all eff [] s = Inr s"
| "eff_all eff (a # as) s = sum_bind (eff a s) (eff_all eff as)"

lemma eff_all_append: "eff_all eff (as @ bs) s = sum_bind (eff_all eff as s) (eff_all eff bs)"
proof (induction as arbitrary: s)
  case (Cons a as)
  then show ?case by (cases "eff a s") simp_all
qed simp

text \<open>Two results of a replay agree: the same error, or the same state.\<close>

definition replays :: "(journal_error + journal \<times> 's) option \<Rightarrow> journal_error + 's \<Rightarrow> bool" where
  "replays r t \<longleftrightarrow> (case t of Inl e \<Rightarrow> r = Some (Inl e) | Inr s \<Rightarrow> \<exists>j. r = Some (Inr (j, s)))"

locale journal_switch =
  fixes enc :: "'a \<Rightarrow> action"
    and switch :: "'s switch"
    and eff :: "'a \<Rightarrow> 's \<Rightarrow> journal_error + 's"
    and modes :: "'a \<Rightarrow> bool set"
  assumes params_ok: "list_all jval_ok (snd (enc a))"
    and proper: "fst (enc a) \<noteq> END_ACTION"
    and switch_eff: "jl_debug l \<in> modes a \<Longrightarrow> readable l (vals_bytes (jl_debug l) (snd (enc a)) @ bs) \<Longrightarrow>
      switch (fst (enc a)) l s = sum_bind (eff a s) (\<lambda>s. Inr (skips (snd (enc a)) l, s))"
begin

lemma redo_loop_replays:
  assumes "jl_ok (j_log j)"
      and "jl_bytes (j_log j) = pre @ actions_bytes (jl_debug (j_log j)) (length pre) (map enc as)"
      and "jl_idx (j_log j) = int (length pre)"
      and "\<forall>a \<in> set as. jl_debug (j_log j) \<in> modes a"
  shows "replays (redo_loop switch j s) (eff_all eff as s)"
  using assms
proof (induction as arbitrary: j pre s)
  case Nil
  then have "jl_end (j_log j)" by (simp add: jl_end_def sint_jl_size)
  then show ?case by (subst redo_loop.simps) (simp add: replays_def)
next
  case (Cons a as)
  let ?l = "j_log j" and ?d = "jl_debug (j_log j)"
  let ?vs = "action_vals (length pre) (enc a)"
  let ?rest = "actions_bytes ?d (length pre + length (vals_bytes ?d ?vs)) (map enc as)"
  have bytes: "jl_bytes ?l = pre @ vals_bytes ?d ?vs @ ?rest"
    using Cons.prems(2) by (simp add: Let_def)
  have r: "readable ?l (vals_bytes ?d ?vs @ ?rest)"
    using Cons.prems(1,3) bytes by (simp add: readable_def jl_rest_def)
  have open_end: "\<not> jl_end ?l"
    using Cons.prems(1,3) bytes by (simp add: jl_end_def sint_jl_size action_vals_def)
  let ?l1 = "skip (JUChar (fst (enc a))) ?l"
  have p1: "jl_pop_uchar ?l = Inr (fst (enc a), ?l1)"
    by (rule pop_uchar_readable) (use r in \<open>simp add: action_vals_def\<close>)
  have r1: "readable ?l1 (vals_bytes (jl_debug ?l1)
      (snd (enc a) @ [JUChar END_ACTION, JUInt (of_nat (length pre))]) @ ?rest)"
    by (rule readable_skip) (use r in \<open>simp add: action_vals_def\<close>)
  let ?l2 = "skips (snd (enc a)) ?l1"
  have sw: "switch (fst (enc a)) ?l1 s = sum_bind (eff a s) (\<lambda>s. Inr (?l2, s))"
    by (rule switch_eff) (use r1 Cons.prems(4) in simp_all)
  have r2: "readable ?l2 (vals_bytes (jl_debug ?l2)
      [JUChar END_ACTION, JUInt (of_nat (length pre))] @ ?rest)"
    by (rule readable_skips [OF r1])
  let ?l3 = "skip (JUChar END_ACTION) ?l2" let ?l4 = "skip (JUInt (of_nat (length pre))) ?l3"
  have p2: "jl_pop_uchar ?l2 = Inr (END_ACTION, ?l3)" by (rule pop_uchar_readable [OF r2])
  have p3: "jl_pop_uint ?l3 = Inr (of_nat (length pre), ?l4)"
    by (rule pop_uint_readable [OF readable_skip [OF r2]])
  have l4: "?l4 = skips ?vs ?l" by (simp add: action_vals_def skips_append)
  have idx: "word_of_int (jl_idx ?l) = (of_nat (length pre) :: u32)" using Cons.prems(3) by simp
  show ?case
  proof (cases "eff a s")
    case (Inl e)
    then show ?thesis using open_end p1 sw proper by (subst redo_loop.simps) (simp add: replays_def)
  next
    case (Inr s')
    have "redo_loop switch j s = redo_loop switch (j\<lparr>j_log := ?l4, cur_action := fst (enc a)\<rparr>) s'"
      using open_end p1 sw proper Inr p2 p3 idx by (subst redo_loop.simps) simp
    moreover have "replays (redo_loop switch (j\<lparr>j_log := ?l4, cur_action := fst (enc a)\<rparr>) s')
        (eff_all eff as s')"
      unfolding l4
      by (rule Cons.IH [where pre = "pre @ vals_bytes ?d ?vs"])
        (use Cons.prems(1,3,4) bytes in \<open>simp_all add: skips_def advance_def Let_def\<close>)
    ultimately show ?thesis using Inr by simp
  qed
qed

text \<open>Redoing a journal has the effects of its actions in order, up to the first error.\<close>

lemma redo_replays:
  assumes "journal_holds j (map enc as)" "\<forall>a \<in> set as. jl_debug (j_log j) \<in> modes a"
  shows "replays (redo switch j s) (eff_all eff as s)"
  unfolding redo_def
  by (rule redo_loop_replays [where pre = "[]"])
    (use assms in \<open>simp_all add: journal_holds_def jl_begin_def\<close>)

text \<open>
  One round of the undo loop, for an action behind the bytes \<open>pre\<close>: the position where the
  action starts is read back, and the round ends in front of the position of the one before.
\<close>

lemma undo_loop_round:
  assumes "jl_ok (j_log j)"
      and "jl_bytes (j_log j) =
             pre @ vals_bytes (jl_debug (j_log j)) (action_vals (length pre) (enc a)) @ post"
      and "jl_idx (moveBackOneInt (j_log j\<lparr>jl_idx := int (length pre) +
             int (length (vals_bytes (jl_debug (j_log j)) (action_vals (length pre) (enc a))))\<rparr>)) = jl_idx (j_log j)"
      and "jl_debug (j_log j) \<in> modes a"
  shows "undo_loop switch j s = (case eff a s of Inl e \<Rightarrow> Some (Inl e) | Inr s' \<Rightarrow>
     if pre = [] then Some (Inr (j\<lparr>j_log := skips (JUChar (fst (enc a)) # snd (enc a))
         (j_log j\<lparr>jl_idx := int (length pre)\<rparr>), cur_action := fst (enc a)\<rparr>, s'))
     else undo_loop switch (j\<lparr>j_log := moveBackOneInt (j_log j\<lparr>jl_idx := int (length pre)\<rparr>),
         cur_action := fst (enc a)\<rparr>) s')"
proof -
  let ?l = "j_log j" and ?d = "jl_debug (j_log j)" and ?n = "length pre"
  let ?act = "JUChar (fst (enc a)) # snd (enc a)"
  let ?tail = "[JUChar END_ACTION, JUInt (of_nat ?n)]"
  have bytes: "jl_bytes ?l = (pre @ vals_bytes ?d (?act @ [JUChar END_ACTION])) @
      vals_bytes ?d [JUInt (of_nat ?n)] @ post"
    using assms(2) by (simp add: action_vals_def)
  have idx: "jl_idx ?l = int (length (pre @ vals_bytes ?d (?act @ [JUChar END_ACTION])))"
    using assms(3) by (simp add: action_vals_def moveBackOneInt_def tag_def split: if_splits)
  have n: "?n < 2 ^ 31" using jl_ok_length [OF assms(1)] bytes by simp
  let ?m = "?l\<lparr>jl_idx := int ?n\<rparr>"
  have rest: "jl_rest ?l = vals_bytes ?d [JUInt (of_nat ?n)] @ post"
    unfolding jl_rest_def bytes idx nat_int by (rule drop_length_append)
  have r: "readable ?l (vals_bytes ?d [JUInt (of_nat ?n)] @ post)"
    unfolding readable_def rest using assms(1) by (simp only: idx) simp
  have p1: "jl_pop_uint ?l = Inr (of_nat ?n, skip (JUInt (of_nat ?n)) ?l)"
    by (rule pop_uint_readable [OF r])
  have set0: "jl_set (of_nat ?n) (skip v ?l) = ?m" "jl_set (of_nat ?n) (skips vs ?m) = ?m" for v vs
    using string_length_word(2) [OF n] by (simp_all add: jl_set_def skip_def skips_def advance_def)
  have r0: "readable ?m (vals_bytes (jl_debug ?m) (JUChar (fst (enc a)) # (snd (enc a) @ ?tail)) @ post)"
    using assms(1) bytes by (simp add: readable_def jl_rest_def)
  let ?l1 = "skip (JUChar (fst (enc a))) ?m"
  have p2: "jl_pop_uchar ?m = Inr (fst (enc a), ?l1)" by (rule pop_uchar_readable [OF r0])
  have sw: "switch (fst (enc a)) ?l1 s = sum_bind (eff a s) (\<lambda>s. Inr (skips (snd (enc a)) ?l1, s))"
    by (rule switch_eff) (use readable_skip [OF r0] assms(4) in simp_all)
  have z: "(of_nat ?n :: u32) = 0 \<longleftrightarrow> pre = []"
    using string_length_word(1) [OF n] by (auto simp flip: length_0_conv)
  have b: "jl_set (of_nat ?n) (skips (snd (enc a)) ?l1) = ?m"
    using set0(2) [of "?act"] by simp
  show ?thesis
  proof (cases "eff a s")
    case (Inl e)
    then show ?thesis using p1 set0(1) p2 sw proper by (subst undo_loop.simps) simp
  next
    case (Inr s')
    then show ?thesis using p1 set0(1) p2 sw proper z b by (subst undo_loop.simps) simp
  qed
qed

text \<open>Undoing has the effects in the opposite order.\<close>

lemma undo_loop_replays:
  assumes "jl_ok (j_log j)" "as \<noteq> []"
      and "jl_bytes (j_log j) = actions_bytes (jl_debug (j_log j)) 0 (map enc as) @ post"
      and "jl_idx (moveBackOneInt (j_log j\<lparr>jl_idx :=
             int (length (actions_bytes (jl_debug (j_log j)) 0 (map enc as)))\<rparr>)) = jl_idx (j_log j)"
      and "\<forall>a \<in> set as. jl_debug (j_log j) \<in> modes a"
  shows "replays (undo_loop switch j s) (eff_all eff (rev as) s)"
  using assms
proof (induction as arbitrary: j post s rule: rev_induct)
  case (snoc a as)
  let ?d = "jl_debug (j_log j)"
  let ?pre = "actions_bytes ?d 0 (map enc as)"
  let ?j = "j\<lparr>j_log := moveBackOneInt (j_log j\<lparr>jl_idx := int (length ?pre)\<rparr>), cur_action := fst (enc a)\<rparr>"
  have bytes: "actions_bytes ?d 0 (map enc (as @ [a])) = ?pre @ vals_bytes ?d (action_vals (length ?pre) (enc a))"
    by (simp add: actions_bytes_append)
  note round = undo_loop_round [of j ?pre a post s]
  have next_round: "replays (undo_loop switch ?j s') (eff_all eff (rev as) s')" if "as \<noteq> []" for s'
    by (rule snoc.IH [where post = "vals_bytes ?d (action_vals (length ?pre) (enc a)) @ post"])
      (use that snoc.prems(1,3,5) bytes in \<open>simp_all add: moveBackOneInt_def\<close>)
  show ?case
    using round next_round snoc.prems bytes
    by (cases "eff a s"; cases "as = []") (simp_all add: replays_def actions_bytes_Nil_iff)
qed simp

lemma undo_replays:
  assumes "journal_holds j (map enc as)" "\<forall>a \<in> set as. jl_debug (j_log j) \<in> modes a"
  shows "replays (undo switch j s) (eff_all eff (rev as) s)"
proof (cases "as = []")
  case True
  with assms jl_size_of_nat(1) [of "j_log j"] have "jl_empty (j_log j)"
    by (simp add: journal_holds_def jl_empty_def flip: jl_size_def)
  with True show ?thesis by (simp add: undo_def replays_def)
next
  case False
  have ok: "jl_ok (j_log j)" "jl_bytes (j_log j) = actions_bytes (jl_debug (j_log j)) 0 (map enc as)"
    using assms by (simp_all add: journal_holds_def)
  have "jl_bytes (j_log j) \<noteq> []" using False by (simp add: ok(2) actions_bytes_Nil_iff)
  then have "\<not> jl_empty (j_log j)" using ok(1) jl_size_of_nat(2) [OF ok(1)]
    by (auto simp: jl_empty_def jl_size_def)
  moreover have "replays (undo_loop switch (j\<lparr>j_log := moveBackOneInt (moveToEnd (j_log j))\<rparr>) s)
      (eff_all eff (rev as) s)"
    by (rule undo_loop_replays [where post = "[]"])
      (use False ok assms(2) sint_jl_size [OF ok(1)] in \<open>simp_all add: moveBackOneInt_def moveToEnd_def\<close>)
  ultimately show ?thesis by (simp add: undo_def)
qed

end

end
