(* ===== verification/OdbInst.thy ===== *)
theory OdbInst imports OdbTransform OdbJournal begin

text \<open>
  \<open>dbInst.cpp\<close>: the placement of the instances of a block (origin, orientation, status, user
  flags and the cached bounding boxes), recorded in the block's journal; \<open>dbJournal.cpp\<close>:
  redo and undo of the fields of instances; \<open>dbDatabase.cpp\<close>: the ECO operations.
\<close>

section \<open>Bit-fields\<close>

text \<open>
  \<open>struct _dbInstFlags\<close> and the 32-bit word \<open>flagsToUInt\<close> copies it to.  The compilers the
  program is built with allocate bit-fields from the least significant bit on.
\<close>

record instFlags =
  f_orient :: dbOrientType
  f_status :: dbPlacementStatus
  f_user_flag_1 :: bool
  f_user_flag_2 :: bool
  f_user_flag_3 :: bool
  f_physical_only :: bool
  f_dont_touch :: bool
  f_source :: dbSourceType
  f_eco_create :: bool
  f_eco_destroy :: bool
  f_eco_modify :: bool
  f_level :: "11 word"

definition orientations :: "dbOrientType list" where
  "orientations = [OrientType_R0, OrientType_R90, OrientType_R180, OrientType_R270,
     OrientType_MY, OrientType_MYR90, OrientType_MX, OrientType_MXR90]"

definition placement_statuses :: "dbPlacementStatus list" where
  "placement_statuses = [PlacementStatus_NONE, PlacementStatus_UNPLACED, PlacementStatus_SUGGESTED,
     PlacementStatus_PLACED, PlacementStatus_LOCKED, PlacementStatus_FIRM, PlacementStatus_COVER]"

definition source_types :: "dbSourceType list" where
  "source_types = [SourceType_NONE, SourceType_NETLIST, SourceType_DIST, SourceType_USER,
     SourceType_TIMING, SourceType_TEST]"

fun index_in :: "'a list \<Rightarrow> 'a \<Rightarrow> nat" where
  "index_in [] v = 0"
| "index_in (x # xs) v = (if v = x then 0 else Suc (index_in xs v))"

definition enum_at :: "'a list \<Rightarrow> u32 \<Rightarrow> 'a option" where
  "enum_at vs w = (if unat w < length vs then Some (vs ! unat w) else None)"

primrec pack_fields :: "(nat \<times> u32) list \<Rightarrow> u32" where
  "pack_fields [] = 0"
| "pack_fields (f # fs) = take_bit (fst f) (snd f) OR push_bit (fst f) (pack_fields fs)"

primrec unpack_fields :: "nat list \<Rightarrow> u32 \<Rightarrow> u32 list" where
  "unpack_fields [] v = []"
| "unpack_fields (w # ws) v = take_bit w v # unpack_fields ws (drop_bit w v)"

definition flag_widths :: "nat list" where
  "flag_widths = [4, 4, 1, 1, 1, 1, 1, 4, 1, 1, 1, 11]"

definition flag_fields :: "instFlags \<Rightarrow> u32 list" where
  "flag_fields f =
    [of_nat (index_in orientations (f_orient f)), of_nat (index_in placement_statuses (f_status f)),
     of_bool (f_user_flag_1 f), of_bool (f_user_flag_2 f), of_bool (f_user_flag_3 f),
     of_bool (f_physical_only f), of_bool (f_dont_touch f), of_nat (index_in source_types (f_source f)),
     of_bool (f_eco_create f), of_bool (f_eco_destroy f), of_bool (f_eco_modify f), ucast (f_level f)]"

definition flagsToUInt :: "instFlags \<Rightarrow> u32" where
  "flagsToUInt f = pack_fields (zip flag_widths (flag_fields f))"

text \<open>Reading a word as the flags: \<open>None\<close> for a value that no enumerator has.\<close>

definition uintToFlags :: "u32 \<Rightarrow> instFlags option" where
  "uintToFlags v = (case unpack_fields flag_widths v of
     [ori, st, u1, u2, u3, phys, dt, src, ec, ed, em, lv] \<Rightarrow>
       (case (enum_at orientations ori, enum_at placement_statuses st, enum_at source_types src) of
          (Some ori, Some st, Some src) \<Rightarrow> Some
            \<lparr>f_orient = ori, f_status = st, f_user_flag_1 = (u1 = 1), f_user_flag_2 = (u2 = 1),
             f_user_flag_3 = (u3 = 1), f_physical_only = (phys = 1), f_dont_touch = (dt = 1),
             f_source = src, f_eco_create = (ec = 1), f_eco_destroy = (ed = 1),
             f_eco_modify = (em = 1), f_level = ucast lv\<rparr>
        | _ \<Rightarrow> None)
   | _ \<Rightarrow> None)"

lemma bit_pack_fields: "bit (pack_fields fs) n \<Longrightarrow> n < sum_list (map fst fs)"
proof (induction fs arbitrary: n)
  case (Cons f fs)
  then have "n < fst f \<or> fst f \<le> n \<and> bit (pack_fields fs) (n - fst f)" by (auto simp: bit_simps)
  with Cons.IH [of "n - fst f"] show ?case by auto
qed simp

lemma unpack_pack:
  "sum_list (map fst fs) \<le> 32 \<Longrightarrow>
   unpack_fields (map fst fs) (pack_fields fs) = map (\<lambda>f. take_bit (fst f) (snd f)) fs"
proof (induction fs)
  case (Cons f fs)
  have "drop_bit (fst f) (push_bit (fst f) (pack_fields fs)) = pack_fields fs"
    using Cons.prems bit_pack_fields [of fs] by (intro bit_eqI) (fastforce simp: bit_simps)
  moreover have "drop_bit (fst f) (take_bit (fst f) (snd f)) = 0" by (simp add: drop_bit_take_bit)
  ultimately show ?case using Cons by (simp add: take_bit_push_bit)
qed simp

text \<open>The word determines the flags.\<close>

lemma uintToFlags_flagsToUInt: "uintToFlags (flagsToUInt f) = Some f"
proof -
  have "length (flag_fields f) = length flag_widths" by (simp add: flag_widths_def flag_fields_def)
  then have "unpack_fields flag_widths (flagsToUInt f)
      = map (\<lambda>f. take_bit (fst f) (snd f)) (zip flag_widths (flag_fields f))"
    using unpack_pack [of "zip flag_widths (flag_fields f)"]
    by (simp add: flagsToUInt_def) (simp add: flag_widths_def)
  moreover have "enum_at orientations (take_bit 4 (of_nat (index_in orientations a))) = Some a" for a
    by (cases a) (simp_all add: orientations_def enum_at_def)
  moreover have "enum_at placement_statuses (take_bit 4 (of_nat (index_in placement_statuses b))) = Some b" for b
    by (cases b) (simp_all add: placement_statuses_def enum_at_def)
  moreover have "enum_at source_types (take_bit 4 (of_nat (index_in source_types c))) = Some c" for c
    by (cases c) (simp_all add: source_types_def enum_at_def)
  moreover have "take_bit (Suc 0) (of_bool d :: u32) = of_bool d" for d by (cases d) simp_all
  moreover have "(ucast (take_bit 11 (ucast (v :: 11 word) :: u32)) :: 11 word) = v" for v
    by (intro bit_eqI) (auto simp: bit_simps)
  ultimately show ?thesis
    by (simp add: uintToFlags_def flag_widths_def flag_fields_def)
qed

section \<open>State\<close>

text \<open>
  What of \<open>dbMaster\<close> the placement reads, an instance, and a block.  The tables are lists
  indexed by the object ids, with \<open>None\<close> where there is no object.  \<open>b_others\<close> are the
  rectangles that \<open>ComputeBBox\<close> merges besides the instances (placed pins, obstructions,
  special wires and wires), and \<open>b_events\<close> the notifications sent to the block's
  callbacks.
\<close>

record dbMaster =
  m_width :: int
  m_height :: int
  m_x :: int
  m_y :: int

record dbInst =
  i_flags :: instFlags
  i_x :: int
  i_y :: int
  i_weight :: int
  i_bbox :: Rect
  i_master :: dbMaster
  i_iterms :: "nat list"

datatype block_event =
    InDbPreMoveInst u32
  | InDbPostMoveInst u32
  | InDbInstPlacementStatusBefore u32 dbPlacementStatus

record block =
  b_insts :: "dbInst option list"
  b_aps :: "(nat \<times> nat) list list"
  b_others :: "Rect list"
  b_bbox :: Rect
  b_valid_bbox :: bool
  b_events :: "block_event list"
  b_journal :: "journal option"
  b_journal_pending :: "journal option"

type_synonym 'a result = "journal_error + 'a"

definition getInst :: "u32 \<Rightarrow> block \<Rightarrow> dbInst result" where
  "getInst oid b = (if unat oid < length (b_insts b)
     then (case b_insts b ! unat oid of None \<Rightarrow> Inl NoSuchObject | Some i \<Rightarrow> Inr i)
     else Inl NoSuchObject)"

definition putInst :: "u32 \<Rightarrow> dbInst \<Rightarrow> block \<Rightarrow> block" where
  "putInst oid i b = b\<lparr>b_insts := (b_insts b)[unat oid := Some i]\<rparr>"

definition notify :: "block_event \<Rightarrow> block \<Rightarrow> block" where
  "notify e b = b\<lparr>b_events := b_events b @ [e]\<rparr>"

definition journaling :: "(journal \<Rightarrow> journal result) \<Rightarrow> block \<Rightarrow> block result" where
  "journaling rec b = (case b_journal b of
       None \<Rightarrow> Inr b
     | Some j \<Rightarrow> sum_bind (rec j) (\<lambda>j. Inr (b\<lparr>b_journal := Some j\<rparr>)))"

section \<open>Bounding boxes\<close>

definition getPlacementBoundary :: "dbMaster \<Rightarrow> Rect" where
  "getPlacementBoundary m =
     transform_apply_rect \<lparr>orient = OrientType_R0, offset = Point (- m_x m) (- m_y m)\<rparr>
       (rect_init 0 0 (m_width m) (m_height m))"

definition add_rect :: "Rect \<Rightarrow> block \<Rightarrow> block" where
  "add_rect r b = (if b_valid_bbox b then b\<lparr>b_bbox := merge (b_bbox b) r\<rparr> else b)"

definition remove_rect :: "Rect \<Rightarrow> block \<Rightarrow> block" where
  "remove_rect r b = (if b_valid_bbox b then b\<lparr>b_valid_bbox := inside (b_bbox b) r\<rparr> else b)"

definition inst_box :: "dbInst \<Rightarrow> Rect" where
  "inst_box i = transform_apply_rect
     \<lparr>orient = f_orient (i_flags i), offset = Point (i_x i) (i_y i)\<rparr> (getPlacementBoundary (i_master i))"

definition setInstBBox :: "u32 \<Rightarrow> block \<Rightarrow> block result" where
  "setInstBBox oid b = sum_bind (getInst oid b) (\<lambda>i.
     let b = remove_rect (i_bbox i) b;
         b = putInst oid (i\<lparr>i_bbox := inst_box i\<rparr>) b
     in Inr (add_rect (inst_box i) b))"

definition isPlaced :: "dbInst \<Rightarrow> bool" where
  "isPlaced i = dbPlacementStatus_isPlaced (f_status (i_flags i))"

definition isFixed :: "dbInst \<Rightarrow> bool" where
  "isFixed i = dbPlacementStatus_isFixed (f_status (i_flags i))"

definition computed_bbox :: "block \<Rightarrow> Rect" where
  "computed_bbox b =
     (let boxes = map i_bbox (filter isPlaced (map the (filter (\<lambda>i. i \<noteq> None) (b_insts b))));
          r = fold (\<lambda>r acc. merge acc r) (boxes @ b_others b) mergeInit
      in if xlo r = 2147483647 then rect_reset 0 0 0 0 else r)"

definition ComputeBBox :: "block \<Rightarrow> block" where
  "ComputeBBox b = b\<lparr>b_bbox := computed_bbox b, b_valid_bbox := True\<rparr>"

definition block_getBBox :: "block \<Rightarrow> Rect \<times> block" where
  "block_getBBox b = (let b = (if b_valid_bbox b then b else ComputeBBox b) in (b_bbox b, b))"

section \<open>The setters of an instance\<close>

abbreviation dbInstObj :: u32 where "dbInstObj \<equiv> 5"
abbreviation field_FLAGS :: u32 where "field_FLAGS \<equiv> 0"
abbreviation field_ORIGIN :: u32 where "field_ORIGIN \<equiv> 1"

definition clearPrefAccessPoints :: "nat \<Rightarrow> block \<Rightarrow> block" where
  "clearPrefAccessPoints iterm b = b\<lparr>b_aps := (b_aps b)[iterm := []]\<rparr>"

text \<open>The end of a move: the access points, the block's box and the callbacks.\<close>

definition moved :: "u32 \<Rightarrow> block \<Rightarrow> block result" where
  "moved oid b = sum_bind (getInst oid b) (\<lambda>i.
     Inr (notify (InDbPostMoveInst oid)
       ((fold clearPrefAccessPoints (i_iterms i) b)\<lparr>b_valid_bbox := False\<rparr>)))"

definition setOrigin :: "u32 \<Rightarrow> int \<Rightarrow> int \<Rightarrow> block \<Rightarrow> block result" where
  "setOrigin oid x y b = sum_bind (getInst oid b) (\<lambda>i.
     if isPlaced i \<and> i_x i = x \<and> i_y i = y then Inr b
     else if isFixed i then Inl MovedFixedInst
     else
       let b = notify (InDbPreMoveInst oid) b;
           b = putInst oid (i\<lparr>i_x := x, i_y := y\<rparr>) b
       in sum_bind (setInstBBox oid b) (\<lambda>b.
            sum_bind (journaling (record_action UPDATE_FIELD
                [JInt dbInstObj, JUInt oid, JInt field_ORIGIN,
                 JInt (word_of_int (i_x i)), JInt (word_of_int (i_y i)),
                 JInt (word_of_int x), JInt (word_of_int y)]) b) (moved oid)))"

definition journal_flags :: "u32 \<Rightarrow> instFlags \<Rightarrow> instFlags \<Rightarrow> block \<Rightarrow> block result" where
  "journal_flags oid prev new =
     journaling (updateField dbInstObj oid field_FLAGS (JUInt (flagsToUInt prev)) (JUInt (flagsToUInt new)))"

definition setOrient :: "u32 \<Rightarrow> dbOrientType \<Rightarrow> block \<Rightarrow> block result" where
  "setOrient oid ori b = sum_bind (getInst oid b) (\<lambda>i.
     if ori = f_orient (i_flags i) then Inr b
     else if isFixed i then Inl MovedFixedInst
     else
       let b = notify (InDbPreMoveInst oid) b;
           f = (i_flags i)\<lparr>f_orient := ori\<rparr>;
           b = putInst oid (i\<lparr>i_flags := f\<rparr>) b
       in sum_bind (setInstBBox oid b) (\<lambda>b.
            sum_bind (journal_flags oid (i_flags i) f b) (moved oid)))"

definition setPlacementStatus :: "u32 \<Rightarrow> dbPlacementStatus \<Rightarrow> block \<Rightarrow> block result" where
  "setPlacementStatus oid status b = sum_bind (getInst oid b) (\<lambda>i.
     if f_status (i_flags i) = status then Inr b
     else
       let b = notify (InDbInstPlacementStatusBefore oid status) b;
           f = (i_flags i)\<lparr>f_status := status\<rparr>;
           b = (putInst oid (i\<lparr>i_flags := f\<rparr>) b)\<lparr>b_valid_bbox := False\<rparr>
       in journal_flags oid (i_flags i) f b)"

text \<open>The lower left corner of the bounding box, and placing it.\<close>

definition getLocation :: "u32 \<Rightarrow> block \<Rightarrow> (int \<times> int) result" where
  "getLocation oid b = sum_bind (getInst oid b) (\<lambda>i. Inr (xlo (i_bbox i), ylo (i_bbox i)))"

definition setLocation :: "u32 \<Rightarrow> int \<Rightarrow> int \<Rightarrow> block \<Rightarrow> block result" where
  "setLocation oid x y b = sum_bind (getInst oid b) (\<lambda>i.
     let box = transform_apply_rect \<lparr>orient = f_orient (i_flags i), offset = Point 0 0\<rparr>
                 (getPlacementBoundary (i_master i))
     in (case (chk32 (x - xlo box), chk32 (y - ylo box)) of
           (Some ox, Some oy) \<Rightarrow> setOrigin oid ox oy b
         | _ \<Rightarrow> Inl IntOverflow))"

definition setLocationOrient :: "u32 \<Rightarrow> dbOrientType \<Rightarrow> block \<Rightarrow> block result" where
  "setLocationOrient oid ori b = sum_bind (getLocation oid b) (\<lambda>(x, y).
     sum_bind (setOrient oid ori b) (setLocation oid x y))"

definition inst_getTransform :: "u32 \<Rightarrow> block \<Rightarrow> dbTransform result" where
  "inst_getTransform oid b = sum_bind (getInst oid b) (\<lambda>i.
     Inr \<lparr>orient = f_orient (i_flags i), offset = Point (i_x i) (i_y i)\<rparr>)"

definition setTransform :: "u32 \<Rightarrow> dbTransform \<Rightarrow> block \<Rightarrow> block result" where
  "setTransform oid t b = sum_bind (setOrient oid (orient t) b)
     (setOrigin oid (pt_x (offset t)) (pt_y (offset t)))"

text \<open>The user flags are journaled; the flags below them and the weight are not.\<close>

definition setUserFlag :: "(instFlags \<Rightarrow> instFlags) \<Rightarrow> u32 \<Rightarrow> block \<Rightarrow> block result" where
  "setUserFlag upd oid b = sum_bind (getInst oid b) (\<lambda>i.
     journal_flags oid (i_flags i) (upd (i_flags i)) (putInst oid (i\<lparr>i_flags := upd (i_flags i)\<rparr>) b))"

definition setUserFlag1 :: "u32 \<Rightarrow> block \<Rightarrow> block result" where
  "setUserFlag1 = setUserFlag (\<lambda>f. f\<lparr>f_user_flag_1 := True\<rparr>)"
definition clearUserFlag1 :: "u32 \<Rightarrow> block \<Rightarrow> block result" where
  "clearUserFlag1 = setUserFlag (\<lambda>f. f\<lparr>f_user_flag_1 := False\<rparr>)"
definition setUserFlag2 :: "u32 \<Rightarrow> block \<Rightarrow> block result" where
  "setUserFlag2 = setUserFlag (\<lambda>f. f\<lparr>f_user_flag_2 := True\<rparr>)"
definition clearUserFlag2 :: "u32 \<Rightarrow> block \<Rightarrow> block result" where
  "clearUserFlag2 = setUserFlag (\<lambda>f. f\<lparr>f_user_flag_2 := False\<rparr>)"
definition setUserFlag3 :: "u32 \<Rightarrow> block \<Rightarrow> block result" where
  "setUserFlag3 = setUserFlag (\<lambda>f. f\<lparr>f_user_flag_3 := True\<rparr>)"
definition clearUserFlag3 :: "u32 \<Rightarrow> block \<Rightarrow> block result" where
  "clearUserFlag3 = setUserFlag (\<lambda>f. f\<lparr>f_user_flag_3 := False\<rparr>)"

definition setInstField :: "(dbInst \<Rightarrow> dbInst) \<Rightarrow> u32 \<Rightarrow> block \<Rightarrow> block result" where
  "setInstField upd oid b = sum_bind (getInst oid b) (\<lambda>i. Inr (putInst oid (upd i) b))"

definition setDoNotTouch :: "bool \<Rightarrow> u32 \<Rightarrow> block \<Rightarrow> block result" where
  "setDoNotTouch v = setInstField (\<lambda>i. i\<lparr>i_flags := (i_flags i)\<lparr>f_dont_touch := v\<rparr>\<rparr>)"
definition setEcoCreate :: "bool \<Rightarrow> u32 \<Rightarrow> block \<Rightarrow> block result" where
  "setEcoCreate v = setInstField (\<lambda>i. i\<lparr>i_flags := (i_flags i)\<lparr>f_eco_create := v\<rparr>\<rparr>)"
definition setEcoDestroy :: "bool \<Rightarrow> u32 \<Rightarrow> block \<Rightarrow> block result" where
  "setEcoDestroy v = setInstField (\<lambda>i. i\<lparr>i_flags := (i_flags i)\<lparr>f_eco_destroy := v\<rparr>\<rparr>)"
definition setEcoModify :: "bool \<Rightarrow> u32 \<Rightarrow> block \<Rightarrow> block result" where
  "setEcoModify v = setInstField (\<lambda>i. i\<lparr>i_flags := (i_flags i)\<lparr>f_eco_modify := v\<rparr>\<rparr>)"
definition setSourceType :: "dbSourceType \<Rightarrow> u32 \<Rightarrow> block \<Rightarrow> block result" where
  "setSourceType v = setInstField (\<lambda>i. i\<lparr>i_flags := (i_flags i)\<lparr>f_source := v\<rparr>\<rparr>)"
definition setWeight :: "int \<Rightarrow> u32 \<Rightarrow> block \<Rightarrow> block result" where
  "setWeight v = setInstField (\<lambda>i. i\<lparr>i_weight := v\<rparr>)"

section \<open>Undo and redo of the fields of instances\<close>

text \<open>
  Writing a saved flags word over the flags; \<open>other\<close> is the other word of the action.  A
  changed orientation updates the cached bounding box.
\<close>

definition restore_flags :: "u32 \<Rightarrow> u32 \<Rightarrow> u32 \<Rightarrow> block \<Rightarrow> block result" where
  "restore_flags oid value other b = sum_bind (getInst oid b) (\<lambda>i.
     case (uintToFlags value, uintToFlags other) of
       (Some f, Some g) \<Rightarrow>
         let b = putInst oid (i\<lparr>i_flags := f\<rparr>) b
         in if f_orient f \<noteq> f_orient g then setInstBBox oid b else Inr b
     | _ \<Rightarrow> Inl InvalidEnum)"

definition undo_updateInstField :: "jlog \<Rightarrow> block \<Rightarrow> (jlog \<times> block) result" where
  "undo_updateInstField l b =
     sum_bind (jl_pop_uint l) (\<lambda>(oid, l). sum_bind (getInst oid b) (\<lambda>_.
     sum_bind (jl_pop_int l) (\<lambda>(field, l).
       if field = field_FLAGS then
         sum_bind (jl_pop_uint l) (\<lambda>(prev, l). sum_bind (jl_pop_uint l) (\<lambda>(new, l).
           sum_bind (restore_flags oid prev new b) (\<lambda>b. Inr (l, b))))
       else if field = field_ORIGIN then
         sum_bind (jl_pop_int l) (\<lambda>(prev_x, l). sum_bind (jl_pop_int l) (\<lambda>(prev_y, l).
         sum_bind (jl_pop_int l) (\<lambda>(cur_x, l). sum_bind (jl_pop_int l) (\<lambda>(cur_y, l).
           sum_bind (setOrigin oid (sint prev_x) (sint prev_y) b) (\<lambda>b. Inr (l, b))))))
       else Inl UnsupportedUndo)))"

definition redo_updateInstField :: "jlog \<Rightarrow> block \<Rightarrow> (jlog \<times> block) result" where
  "redo_updateInstField l b =
     sum_bind (jl_pop_uint l) (\<lambda>(oid, l). sum_bind (getInst oid b) (\<lambda>_.
     sum_bind (jl_pop_int l) (\<lambda>(field, l).
       if field = field_FLAGS then
         sum_bind (jl_pop_uint l) (\<lambda>(prev, l). sum_bind (jl_pop_uint l) (\<lambda>(new, l).
           sum_bind (restore_flags oid new prev b) (\<lambda>b. Inr (l, b))))
       else if field = field_ORIGIN then
         sum_bind (jl_pop_int l) (\<lambda>(prev_x, l). sum_bind (jl_pop_int l) (\<lambda>(prev_y, l).
         sum_bind (jl_pop_int l) (\<lambda>(cur_x, l). sum_bind (jl_pop_int l) (\<lambda>(cur_y, l).
           sum_bind (setOrigin oid (sint cur_x) (sint cur_y) b) (\<lambda>b. Inr (l, b))))))
       else Inr (l, b))))"

text \<open>
  The switches over the actions and over the object types of \<open>UPDATE_FIELD\<close>.  The cases of
  the other actions and of the other object types are the two parameters.
\<close>

record handlers =
  h_action :: "block switch"
  h_field :: "u32 \<Rightarrow> jlog \<Rightarrow> block \<Rightarrow> (jlog \<times> block) result"

definition undo_updateField :: "handlers \<Rightarrow> jlog \<Rightarrow> block \<Rightarrow> (jlog \<times> block) result" where
  "undo_updateField h l b = sum_bind (popObjectType l) (\<lambda>(t, l).
     if t = dbInstObj then undo_updateInstField l b else h_field h t l b)"

definition redo_updateField :: "handlers \<Rightarrow> jlog \<Rightarrow> block \<Rightarrow> (jlog \<times> block) result" where
  "redo_updateField h l b = sum_bind (popObjectType l) (\<lambda>(t, l).
     if t = dbInstObj then redo_updateInstField l b else h_field h t l b)"

definition undo_switch :: "handlers \<Rightarrow> block switch" where
  "undo_switch h a l b = (if a = UPDATE_FIELD then undo_updateField h l b else h_action h a l b)"

definition redo_switch :: "handlers \<Rightarrow> block switch" where
  "redo_switch h a l b = (if a = UPDATE_FIELD then redo_updateField h l b else h_action h a l b)"

section \<open>The ECO operations\<close>

definition beginEco :: "bool \<Rightarrow> block \<Rightarrow> block" where
  "beginEco debug b = b\<lparr>b_journal := Some (journal_new debug)\<rparr>"

definition endEco :: "block \<Rightarrow> block" where
  "endEco b = b\<lparr>b_journal := None, b_journal_pending := b_journal b\<rparr>"

definition ecoEmpty :: "block \<Rightarrow> bool" where
  "ecoEmpty b = (case b_journal b of None \<Rightarrow> False | Some j \<Rightarrow> journal_empty j)"

definition checkEco :: "block \<Rightarrow> int" where
  "checkEco b = (case b_journal b of None \<Rightarrow> 0 | Some j \<Rightarrow> journal_size j)"

definition commitEco :: "handlers \<Rightarrow> block \<Rightarrow> block result option" where
  "commitEco h b = (case b_journal_pending b of
       None \<Rightarrow> Some (Inr b)
     | Some j \<Rightarrow> map_option (\<lambda>r. sum_bind r (\<lambda>(j, b). Inr (b\<lparr>b_journal_pending := None\<rparr>)))
                   (redo (redo_switch h) j b))"

definition undoEco :: "handlers \<Rightarrow> block \<Rightarrow> block result option" where
  "undoEco h b = (case b_journal_pending b of
       None \<Rightarrow> Some (Inr b)
     | Some j \<Rightarrow> map_option (\<lambda>r. sum_bind r (\<lambda>(j, b). Inr (b\<lparr>b_journal_pending := None\<rparr>)))
                   (undo (undo_switch h) j b))"

text \<open>The calls between \<open>beginEco\<close> and \<open>endEco\<close>.\<close>

datatype inst_cmd =
    SetOrigin u32 int int
  | SetOrient u32 dbOrientType
  | SetPlacementStatus u32 dbPlacementStatus
  | SetLocation u32 int int
  | SetLocationOrient u32 dbOrientType
  | SetTransform u32 dbTransform
  | SetUserFlag1 u32 | ClearUserFlag1 u32
  | SetUserFlag2 u32 | ClearUserFlag2 u32
  | SetUserFlag3 u32 | ClearUserFlag3 u32
  | SetDoNotTouch u32 bool
  | SetEcoCreate u32 bool
  | SetEcoDestroy u32 bool
  | SetEcoModify u32 bool
  | SetSourceType u32 dbSourceType
  | SetWeight u32 int
  | GetBlockBBox

fun cmd_step :: "inst_cmd \<Rightarrow> block \<Rightarrow> block result" where
  "cmd_step (SetOrigin oid x y) b = setOrigin oid x y b"
| "cmd_step (SetOrient oid ori) b = setOrient oid ori b"
| "cmd_step (SetPlacementStatus oid st) b = setPlacementStatus oid st b"
| "cmd_step (SetLocation oid x y) b = setLocation oid x y b"
| "cmd_step (SetLocationOrient oid ori) b = setLocationOrient oid ori b"
| "cmd_step (SetTransform oid t) b = setTransform oid t b"
| "cmd_step (SetUserFlag1 oid) b = setUserFlag1 oid b"
| "cmd_step (ClearUserFlag1 oid) b = clearUserFlag1 oid b"
| "cmd_step (SetUserFlag2 oid) b = setUserFlag2 oid b"
| "cmd_step (ClearUserFlag2 oid) b = clearUserFlag2 oid b"
| "cmd_step (SetUserFlag3 oid) b = setUserFlag3 oid b"
| "cmd_step (ClearUserFlag3 oid) b = clearUserFlag3 oid b"
| "cmd_step (SetDoNotTouch oid v) b = setDoNotTouch v oid b"
| "cmd_step (SetEcoCreate oid v) b = setEcoCreate v oid b"
| "cmd_step (SetEcoDestroy oid v) b = setEcoDestroy v oid b"
| "cmd_step (SetEcoModify oid v) b = setEcoModify v oid b"
| "cmd_step (SetSourceType oid v) b = setSourceType v oid b"
| "cmd_step (SetWeight oid v) b = setWeight v oid b"
| "cmd_step GetBlockBBox b = Inr (snd (block_getBBox b))"

primrec cmds_run :: "inst_cmd list \<Rightarrow> block \<Rightarrow> block result" where
  "cmds_run [] b = Inr b"
| "cmds_run (c # cs) b = sum_bind (cmd_step c b) (cmds_run cs)"

section \<open>The journal's switches on the fields of instances\<close>

text \<open>An action on a field, the form in which it is recorded, and its effects.\<close>

datatype inst_action =
    FlagsAction u32 u32 u32
  | OriginAction u32 u32 u32 u32 u32

primrec inst_enc :: "inst_action \<Rightarrow> action" where
  "inst_enc (FlagsAction oid p n) =
     (UPDATE_FIELD, [JInt dbInstObj, JUInt oid, JInt field_FLAGS, JUInt p, JUInt n])"
| "inst_enc (OriginAction oid px py cx cy) =
     (UPDATE_FIELD, [JInt dbInstObj, JUInt oid, JInt field_ORIGIN, JInt px, JInt py, JInt cx, JInt cy])"

primrec undo_eff :: "inst_action \<Rightarrow> block \<Rightarrow> block result" where
  "undo_eff (FlagsAction oid p n) b = restore_flags oid p n b"
| "undo_eff (OriginAction oid px py cx cy) b = setOrigin oid (sint px) (sint py) b"

primrec redo_eff :: "inst_action \<Rightarrow> block \<Rightarrow> block result" where
  "redo_eff (FlagsAction oid p n) b = restore_flags oid n p b"
| "redo_eff (OriginAction oid px py cx cy) b = setOrigin oid (sint cx) (sint cy) b"

lemma inst_enc_params: "list_all jval_ok (snd (inst_enc a))" "fst (inst_enc a) \<noteq> END_ACTION"
  by (cases a; simp add: jval_ok_def)+

lemma getInst_error: "getInst oid b = Inl e \<Longrightarrow> setOrigin oid x y b = Inl e \<and> restore_flags oid v w b = Inl e"
  by (simp add: setOrigin_def restore_flags_def)

lemma flags_pops:
  assumes "readable l (vals_bytes (jl_debug l) (snd (inst_enc (FlagsAction oid p n))) @ bs)"
  shows "undo_updateField h l b = sum_bind (restore_flags oid p n b)
           (\<lambda>b. Inr (skips (snd (inst_enc (FlagsAction oid p n))) l, b))"
    and "redo_updateField h l b = sum_bind (restore_flags oid n p b)
           (\<lambda>b. Inr (skips (snd (inst_enc (FlagsAction oid p n))) l, b))"
proof -
  note r0 = assms [unfolded inst_enc.simps snd_conv]
  note r1 = readable_skip [OF r0] note r2 = readable_skip [OF r1]
  note r3 = readable_skip [OF r2] note r4 = readable_skip [OF r3]
  note pops = pop_int_readable [OF r0] pop_uint_readable [OF r1] pop_int_readable [OF r2]
    pop_uint_readable [OF r3] pop_uint_readable [OF r4]
  show "undo_updateField h l b = sum_bind (restore_flags oid p n b)
      (\<lambda>b. Inr (skips (snd (inst_enc (FlagsAction oid p n))) l, b))"
    by (cases "getInst oid b")
      (simp_all add: undo_updateField_def popObjectType_def undo_updateInstField_def pops getInst_error)
  show "redo_updateField h l b = sum_bind (restore_flags oid n p b)
      (\<lambda>b. Inr (skips (snd (inst_enc (FlagsAction oid p n))) l, b))"
    by (cases "getInst oid b")
      (simp_all add: redo_updateField_def popObjectType_def redo_updateInstField_def pops getInst_error)
qed

lemma origin_pops:
  assumes "readable l (vals_bytes (jl_debug l) (snd (inst_enc (OriginAction oid px py cx cy))) @ bs)"
  shows "undo_updateField h l b = sum_bind (setOrigin oid (sint px) (sint py) b)
           (\<lambda>b. Inr (skips (snd (inst_enc (OriginAction oid px py cx cy))) l, b))"
    and "redo_updateField h l b = sum_bind (setOrigin oid (sint cx) (sint cy) b)
           (\<lambda>b. Inr (skips (snd (inst_enc (OriginAction oid px py cx cy))) l, b))"
proof -
  note r0 = assms [unfolded inst_enc.simps snd_conv]
  note r1 = readable_skip [OF r0] note r2 = readable_skip [OF r1]
  note r3 = readable_skip [OF r2] note r4 = readable_skip [OF r3]
  note r5 = readable_skip [OF r4] note r6 = readable_skip [OF r5]
  note pops = pop_int_readable [OF r0] pop_uint_readable [OF r1] pop_int_readable [OF r2]
    pop_int_readable [OF r3] pop_int_readable [OF r4] pop_int_readable [OF r5] pop_int_readable [OF r6]
  show "undo_updateField h l b = sum_bind (setOrigin oid (sint px) (sint py) b)
      (\<lambda>b. Inr (skips (snd (inst_enc (OriginAction oid px py cx cy))) l, b))"
    by (cases "getInst oid b")
      (simp_all add: undo_updateField_def popObjectType_def undo_updateInstField_def pops getInst_error)
  show "redo_updateField h l b = sum_bind (setOrigin oid (sint cx) (sint cy) b)
      (\<lambda>b. Inr (skips (snd (inst_enc (OriginAction oid px py cx cy))) l, b))"
    by (cases "getInst oid b")
      (simp_all add: redo_updateField_def popObjectType_def redo_updateInstField_def pops getInst_error)
qed

lemma undo_switch_eff:
  assumes "readable l (vals_bytes (jl_debug l) (snd (inst_enc a)) @ bs)"
  shows "undo_switch h (fst (inst_enc a)) l b =
    sum_bind (undo_eff a b) (\<lambda>b. Inr (skips (snd (inst_enc a)) l, b))"
  using assms by (cases a) (simp_all only: undo_switch_def inst_enc.simps fst_conv if_True simp_thms undo_eff.simps
      flags_pops(1) [unfolded inst_enc.simps] origin_pops(1) [unfolded inst_enc.simps])

lemma redo_switch_eff:
  assumes "readable l (vals_bytes (jl_debug l) (snd (inst_enc a)) @ bs)"
  shows "redo_switch h (fst (inst_enc a)) l b =
    sum_bind (redo_eff a b) (\<lambda>b. Inr (skips (snd (inst_enc a)) l, b))"
  using assms by (cases a) (simp_all only: redo_switch_def inst_enc.simps fst_conv if_True simp_thms redo_eff.simps
      flags_pops(2) [unfolded inst_enc.simps] origin_pops(2) [unfolded inst_enc.simps])

lemma any_mode: "\<forall>a \<in> X. d \<in> UNIV"
  by simp

interpretation undoing: journal_switch inst_enc "undo_switch h" undo_eff "\<lambda>_. UNIV" for h
  by unfold_locales (simp_all only: inst_enc_params undo_switch_eff not_False_eq_True)

interpretation redoing: journal_switch inst_enc "redo_switch h" redo_eff "\<lambda>_. UNIV" for h
  by unfold_locales (simp_all only: inst_enc_params redo_switch_eff not_False_eq_True)

section \<open>What the journal keeps of an instance\<close>

text \<open>
  The journaled part of a block: of each instance everything but the flags and the weight that
  the setters change without an entry in the journal.
\<close>

definition inst_view :: "dbInst \<Rightarrow> dbInst" where
  "inst_view i = i\<lparr>i_weight := 0, i_flags := (i_flags i)\<lparr>f_dont_touch := False,
     f_physical_only := False, f_source := SourceType_NONE, f_eco_create := False,
     f_eco_destroy := False, f_eco_modify := False, f_level := 0\<rparr>\<rparr>"

definition block_view :: "block \<Rightarrow> dbInst option list" where
  "block_view b = map (map_option inst_view) (b_insts b)"

text \<open>
  Every instance has its origin in the \<open>int\<close> range and its bounding box where its master,
  orientation and origin put it.
\<close>

definition inst_ok :: "dbInst \<Rightarrow> bool" where
  "inst_ok i \<longleftrightarrow> in_int32 (i_x i) \<and> in_int32 (i_y i) \<and> i_bbox i = inst_box i"

definition block_ok :: "block \<Rightarrow> bool" where
  "block_ok b \<longleftrightarrow> list_all (\<lambda>s. case s of None \<Rightarrow> True | Some i \<Rightarrow> inst_ok i) (b_insts b)"

section \<open>The effect of the setters\<close>

definition rebox :: "dbInst \<Rightarrow> dbInst" where
  "rebox i = i\<lparr>i_bbox := inst_box i\<rparr>"

lemma getInst_Inr:
  "getInst oid b = Inr i \<longleftrightarrow> unat oid < length (b_insts b) \<and> b_insts b ! unat oid = Some i"
  by (auto simp: getInst_def split: option.splits)

lemma rebox_inst_ok: "in_int32 (i_x i) \<Longrightarrow> in_int32 (i_y i) \<Longrightarrow> inst_ok (rebox i)"
  by (simp add: inst_ok_def rebox_def inst_box_def)

lemma getInst_update_other:
  assumes "b_insts b' = (b_insts b)[unat oid := v]" "o' \<noteq> oid"
  shows "getInst o' b' = getInst o' b"
proof -
  have "unat oid \<noteq> unat o'" using assms(2) by (metis unsigned_word_eqI)
  then show ?thesis using assms(1) by (simp add: getInst_def)
qed

lemma block_ok_iff: "block_ok b \<longleftrightarrow> (\<forall>i. Some i \<in> set (b_insts b) \<longrightarrow> inst_ok i)"
  by (auto simp: block_ok_def list_all_iff split: option.splits)

lemma block_ok_getInst: "block_ok b \<Longrightarrow> getInst oid b = Inr i \<Longrightarrow> inst_ok i"
  by (metis block_ok_iff getInst_Inr nth_mem)

lemma block_ok_update:
  assumes "block_ok b" "inst_ok i" "b_insts b' = (b_insts b)[unat oid := Some i]"
  shows "block_ok b'"
  using assms set_update_subset_insert [of "b_insts b" "unat oid" "Some i"] by (auto simp: block_ok_iff)

text \<open>The journal of \<open>b'\<close> is that of \<open>b\<close> after \<open>rec\<close>, where there is one.\<close>

definition journaled_by :: "(journal \<Rightarrow> journal result) \<Rightarrow> block \<Rightarrow> block \<Rightarrow> bool" where
  "journaled_by rec b b' \<longleftrightarrow> (case b_journal b of
       None \<Rightarrow> b_journal b' = None
     | Some j \<Rightarrow> \<exists>j'. rec j = Inr j' \<and> b_journal b' = Some j')"

lemma journaling_Inr:
  "journaling rec b = Inr b' \<longleftrightarrow> b' = b\<lparr>b_journal := b_journal b'\<rparr> \<and> journaled_by rec b b'"
  by (auto simp: journaling_def journaled_by_def sum_bind_Inr_iff split: option.splits)

lemma journaling_quiet: "b_journal b = None \<Longrightarrow> journaling rec b = Inr b"
  by (simp add: journaling_def)

lemma notify_simps [simp]: "b_insts (notify e b) = b_insts b" "b_journal (notify e b) = b_journal b"
  "getInst oid (notify e b) = getInst oid b"
  by (simp_all add: notify_def getInst_def)

lemma putInst_simps [simp]: "b_insts (putInst oid i b) = (b_insts b)[unat oid := Some i]"
  "b_journal (putInst oid i b) = b_journal b"
  by (simp_all add: putInst_def)

lemma getInst_putInst [simp]: "unat oid < length (b_insts b) \<Longrightarrow> getInst oid (putInst oid i b) = Inr i"
  by (simp add: getInst_Inr)

lemma rect_simps [simp]: "b_insts (add_rect r b) = b_insts b" "b_journal (add_rect r b) = b_journal b"
  "b_insts (remove_rect r b) = b_insts b" "b_journal (remove_rect r b) = b_journal b"
  by (simp_all add: add_rect_def remove_rect_def)

lemma setInstBBox_Inr:
  assumes "getInst oid b = Inr i"
  obtains b' where "setInstBBox oid b = Inr b'" "b_insts b' = (b_insts b)[unat oid := Some (rebox i)]"
    "b_journal b' = b_journal b"
  using assms by (simp add: setInstBBox_def Let_def rebox_def)

lemma fold_clear: "b_insts (fold clearPrefAccessPoints ts b) = b_insts b"
  "b_journal (fold clearPrefAccessPoints ts b) = b_journal b"
  by (induction ts arbitrary: b) (simp_all add: clearPrefAccessPoints_def)

lemma moved_Inr:
  assumes "getInst oid b = Inr i"
  obtains b' where "moved oid b = Inr b'" "b_insts b' = b_insts b" "b_journal b' = b_journal b"
  using assms by (simp add: moved_def fold_clear)

text \<open>
  Both moving setters end alike: the new instance is put in the table, its box is updated, the
  action is journaled and the move is announced.
\<close>

definition move_inst :: "u32 \<Rightarrow> dbInst \<Rightarrow> (journal \<Rightarrow> journal result) \<Rightarrow> block \<Rightarrow> block result" where
  "move_inst oid i rec b =
     sum_bind (setInstBBox oid (putInst oid i (notify (InDbPreMoveInst oid) b))) (\<lambda>b.
       sum_bind (journaling rec b) (moved oid))"

lemma move_inst_Inr:
  assumes "move_inst oid i rec b = Inr b'" "unat oid < length (b_insts b)"
  shows "b_insts b' = (b_insts b)[unat oid := Some (rebox i)]" "journaled_by rec b b'"
proof -
  let ?b = "putInst oid i (notify (InDbPreMoveInst oid) b)"
  have "getInst oid ?b = Inr i" using assms(2) by simp
  then obtain b1 where b1: "setInstBBox oid ?b = Inr b1"
      "b_insts b1 = (b_insts b)[unat oid := Some (rebox i)]" "b_journal b1 = b_journal b"
    by (rule setInstBBox_Inr) simp
  from assms(1) b1(1) obtain b2 where b2: "journaling rec b1 = Inr b2" "moved oid b2 = Inr b'"
    by (auto simp: move_inst_def sum_bind_Inr_iff)
  from b2(1) have j: "b2 = b1\<lparr>b_journal := b_journal b2\<rparr>" "journaled_by rec b1 b2"
    by (simp_all add: journaling_Inr)
  have i2: "b_insts b2 = b_insts b1" by (subst j(1)) simp
  then have "getInst oid b2 = Inr (rebox i)" using assms(2) b1(2) by (simp add: getInst_Inr)
  then obtain b3 where b3: "moved oid b2 = Inr b3" "b_insts b3 = b_insts b2" "b_journal b3 = b_journal b2"
    by (rule moved_Inr)
  then have "b3 = b'" using b2(2) by simp
  then show "b_insts b' = (b_insts b)[unat oid := Some (rebox i)]" "journaled_by rec b b'"
    using b3 i2 b1 j(2) by (simp_all add: journaled_by_def split: option.splits)
qed

lemma move_inst_quiet:
  assumes "unat oid < length (b_insts b)" "b_journal b = None"
  obtains b' where "move_inst oid i rec b = Inr b'"
proof -
  let ?b = "putInst oid i (notify (InDbPreMoveInst oid) b)"
  have "getInst oid ?b = Inr i" using assms(1) by simp
  then obtain b1 where b1: "setInstBBox oid ?b = Inr b1"
      "b_insts b1 = (b_insts b)[unat oid := Some (rebox i)]" "b_journal b1 = b_journal b"
    by (rule setInstBBox_Inr) simp
  have "getInst oid b1 = Inr (rebox i)" using assms(1) b1(2) by (simp add: getInst_Inr)
  then obtain b2 where "moved oid b1 = Inr b2" by (rule moved_Inr)
  with b1 assms(2) that show ?thesis by (simp add: move_inst_def journaling_quiet)
qed

abbreviation (input) origin_rec :: "u32 \<Rightarrow> dbInst \<Rightarrow> int \<Rightarrow> int \<Rightarrow> journal \<Rightarrow> journal result" where
  "origin_rec oid i x y \<equiv> record_action UPDATE_FIELD
     [JInt dbInstObj, JUInt oid, JInt field_ORIGIN, JInt (word_of_int (i_x i)), JInt (word_of_int (i_y i)),
      JInt (word_of_int x), JInt (word_of_int y)]"

abbreviation (input) flags_rec :: "u32 \<Rightarrow> instFlags \<Rightarrow> instFlags \<Rightarrow> journal \<Rightarrow> journal result" where
  "flags_rec oid f g \<equiv> record_action UPDATE_FIELD
     [JInt dbInstObj, JUInt oid, JInt field_FLAGS, JUInt (flagsToUInt f), JUInt (flagsToUInt g)]"

lemma setOrigin_eq:
  "setOrigin oid x y b = sum_bind (getInst oid b) (\<lambda>i.
     if isPlaced i \<and> i_x i = x \<and> i_y i = y then Inr b
     else if isFixed i then Inl MovedFixedInst
     else move_inst oid (i\<lparr>i_x := x, i_y := y\<rparr>) (origin_rec oid i x y) b)"
  unfolding setOrigin_def move_inst_def Let_def by (rule refl)

lemma setOrient_eq:
  "setOrient oid ori b = sum_bind (getInst oid b) (\<lambda>i.
     if ori = f_orient (i_flags i) then Inr b
     else if isFixed i then Inl MovedFixedInst
     else move_inst oid (i\<lparr>i_flags := (i_flags i)\<lparr>f_orient := ori\<rparr>\<rparr>)
            (flags_rec oid (i_flags i) ((i_flags i)\<lparr>f_orient := ori\<rparr>)) b)"
  unfolding setOrient_def move_inst_def journal_flags_def updateField_record Let_def by (rule refl)

section \<open>Undoing and redoing one change\<close>

text \<open>The change of one instance that an action records.\<close>

fun change :: "inst_action \<Rightarrow> u32 \<Rightarrow> dbInst \<Rightarrow> dbInst \<Rightarrow> bool" where
  "change (FlagsAction oid' p n) oid i u \<longleftrightarrow> oid' = oid \<and> p = flagsToUInt (i_flags i) \<and>
     n = flagsToUInt (i_flags u) \<and> u = rebox (i\<lparr>i_flags := i_flags u\<rparr>)"
| "change (OriginAction oid' px py cx cy) oid i u \<longleftrightarrow> oid' = oid \<and>
     i_x i = sint px \<and> i_y i = sint py \<and> i_x u = sint cx \<and> i_y u = sint cy \<and> \<not> isFixed i \<and>
     u = rebox (i\<lparr>i_x := i_x u, i_y := i_y u\<rparr>)"

definition quiet :: "block \<Rightarrow> bool" where
  "quiet b \<longleftrightarrow> block_ok b \<and> b_journal b = None"

lemma rebox_ok: "inst_ok i \<Longrightarrow> rebox i = i"
  by (cases i) (simp add: inst_ok_def rebox_def)

lemma inst_view_rebox: "inst_view (rebox i) = rebox (inst_view i)"
  by (simp add: inst_view_def rebox_def inst_box_def)

lemma inst_view_proj:
  assumes "inst_view i = inst_view u"
  shows "i_x i = i_x u" "i_y i = i_y u" "i_bbox i = i_bbox u" "i_master i = i_master u"
    "i_iterms i = i_iterms u" "f_orient (i_flags i) = f_orient (i_flags u)"
    "f_status (i_flags i) = f_status (i_flags u)"
proof -
  show "i_x i = i_x u" using arg_cong [OF assms, of i_x] by (simp add: inst_view_def)
  show "i_y i = i_y u" using arg_cong [OF assms, of i_y] by (simp add: inst_view_def)
  show "i_bbox i = i_bbox u" using arg_cong [OF assms, of i_bbox] by (simp add: inst_view_def)
  show "i_master i = i_master u" using arg_cong [OF assms, of i_master] by (simp add: inst_view_def)
  show "i_iterms i = i_iterms u" using arg_cong [OF assms, of i_iterms] by (simp add: inst_view_def)
  show "f_orient (i_flags i) = f_orient (i_flags u)"
    using arg_cong [OF assms, of "\<lambda>i. f_orient (i_flags i)"] by (simp add: inst_view_def)
  show "f_status (i_flags i) = f_status (i_flags u)"
    using arg_cong [OF assms, of "\<lambda>i. f_status (i_flags i)"] by (simp add: inst_view_def)
qed

text \<open>Writing back the flags an instance had: all of the other fields are unchanged by the action.\<close>

lemma restore_flags_quiet:
  assumes "quiet c" "getInst oid c = Inr ic" "f_orient (i_flags ic) = f_orient g"
  obtains c' where "restore_flags oid (flagsToUInt f) (flagsToUInt g) c = Inr c'" "b_journal c' = None"
    "b_insts c' = (b_insts c)[unat oid := Some (rebox (ic\<lparr>i_flags := f\<rparr>))]"
proof (cases "f_orient f = f_orient g")
  case True
  have "inst_ok ic" using assms by (auto simp: quiet_def dest: block_ok_getInst)
  then have "rebox (ic\<lparr>i_flags := f\<rparr>) = ic\<lparr>i_flags := f\<rparr>"
    using True assms(3) by (simp add: inst_ok_def rebox_def inst_box_def)
  with that True assms show ?thesis
    by (simp add: restore_flags_def uintToFlags_flagsToUInt quiet_def Let_def)
next
  case False
  have "getInst oid (putInst oid (ic\<lparr>i_flags := f\<rparr>) c) = Inr (ic\<lparr>i_flags := f\<rparr>)"
    using assms(2) by (simp add: getInst_Inr)
  then obtain c' where "setInstBBox oid (putInst oid (ic\<lparr>i_flags := f\<rparr>) c) = Inr c'"
      "b_insts c' = (b_insts c)[unat oid := Some (rebox (ic\<lparr>i_flags := f\<rparr>))]" "b_journal c' = b_journal c"
    by (rule setInstBBox_Inr) simp
  with that False assms show ?thesis
    by (simp add: restore_flags_def uintToFlags_flagsToUInt quiet_def Let_def)
qed

lemma setOrigin_quiet:
  assumes "quiet c" "getInst oid c = Inr ic" "\<not> isFixed ic"
  obtains c' where "setOrigin oid x y c = Inr c'" "b_journal c' = None"
    "b_insts c' = (b_insts c)[unat oid := Some (rebox (ic\<lparr>i_x := x, i_y := y\<rparr>))]"
proof (cases "isPlaced ic \<and> i_x ic = x \<and> i_y ic = y")
  case True
  have "inst_ok ic" using assms by (auto simp: quiet_def dest: block_ok_getInst)
  moreover have "ic\<lparr>i_x := x, i_y := y\<rparr> = ic" using True by (cases ic) simp
  ultimately have "rebox (ic\<lparr>i_x := x, i_y := y\<rparr>) = ic" by (simp only: rebox_ok)
  moreover have "(b_insts c)[unat oid := Some ic] = b_insts c"
    using assms(2) by (simp add: getInst_Inr list_update_same_conv)
  ultimately show ?thesis using that True assms by (simp add: setOrigin_eq quiet_def)
next
  case False
  have len: "unat oid < length (b_insts c)" and j: "b_journal c = None"
    using assms by (simp_all add: getInst_Inr quiet_def)
  obtain c' where c': "move_inst oid (ic\<lparr>i_x := x, i_y := y\<rparr>) (origin_rec oid ic x y) c = Inr c'"
    by (rule move_inst_quiet [OF len j])
  have "setOrigin oid x y c = Inr c'" using False assms c' by (auto simp: setOrigin_eq)
  moreover have "b_journal c' = None" using move_inst_Inr(2) [OF c' len] j by (simp add: journaled_by_def)
  ultimately show ?thesis using that move_inst_Inr(1) [OF c' len] by blast
qed

text \<open>
  Undoing a change on a block whose instance looks like the new one, and redoing it on a block
  whose instance looks like the old one.
\<close>

lemma undo_change:
  assumes "change a oid i u" "quiet c" "getInst oid c = Inr ic" "inst_view ic = inst_view u" "inst_ok i"
  obtains c' uc where "undo_eff a c = Inr c'" "b_journal c' = None"
    "b_insts c' = (b_insts c)[unat oid := Some uc]" "inst_view uc = inst_view i" "inst_ok uc"
proof (cases a)
  case (FlagsAction oid' p n)
  note v = inst_view_proj [OF assms(4)]
  have u: "u = rebox (i\<lparr>i_flags := i_flags u\<rparr>)" using assms(1) FlagsAction by simp
  have xy: "i_x u = i_x i" "i_y u = i_y i" "i_master u = i_master i" "i_iterms u = i_iterms i"
    by (subst u; simp add: rebox_def)+
  obtain c' where c': "restore_flags oid (flagsToUInt (i_flags i)) (flagsToUInt (i_flags u)) c = Inr c'"
      "b_journal c' = None"
      "b_insts c' = (b_insts c)[unat oid := Some (rebox (ic\<lparr>i_flags := i_flags i\<rparr>))]"
    by (rule restore_flags_quiet [OF assms(2,3) v(6)])
  have "inst_view (rebox (ic\<lparr>i_flags := i_flags i\<rparr>)) = inst_view (rebox i)"
    using v xy by (simp add: inst_view_def rebox_def inst_box_def)
  moreover have "inst_ok (rebox (ic\<lparr>i_flags := i_flags i\<rparr>))"
    using assms(5) v xy by (intro rebox_inst_ok) (simp_all add: inst_ok_def)
  ultimately show ?thesis
    using that [of c' "rebox (ic\<lparr>i_flags := i_flags i\<rparr>)"] c' assms(1,5) FlagsAction by (simp add: rebox_ok)
next
  case (OriginAction oid' px py cx cy)
  note v = inst_view_proj [OF assms(4)]
  have u: "u = rebox (i\<lparr>i_x := i_x u, i_y := i_y u\<rparr>)"
    using assms(1) unfolding OriginAction change.simps by (elim conjE)
  have fl: "i_flags u = i_flags i" "i_master u = i_master i" "i_iterms u = i_iterms i"
    by (subst u; simp add: rebox_def)+
  have "\<not> isFixed ic" using assms(1) OriginAction v(7) fl by (simp add: isFixed_def)
  then obtain c' where c': "setOrigin oid (i_x i) (i_y i) c = Inr c'" "b_journal c' = None"
      "b_insts c' = (b_insts c)[unat oid := Some (rebox (ic\<lparr>i_x := i_x i, i_y := i_y i\<rparr>))]"
    by (rule setOrigin_quiet [OF assms(2,3)])
  let ?uc = "rebox (ic\<lparr>i_x := i_x i, i_y := i_y i\<rparr>)"
  have xy: "inst_view (z\<lparr>i_x := i_x i, i_y := i_y i\<rparr>) = (inst_view z)\<lparr>i_x := i_x i, i_y := i_y i\<rparr>" for z
    by (simp add: inst_view_def)
  have "inst_view ?uc = inst_view (rebox (u\<lparr>i_x := i_x i, i_y := i_y i\<rparr>))"
    by (simp only: inst_view_rebox xy assms(4))
  also have "rebox (u\<lparr>i_x := i_x i, i_y := i_y i\<rparr>) = rebox i"
    by (subst u) (simp add: rebox_def inst_box_def)
  finally have "inst_view ?uc = inst_view i" using assms(5) by (simp only: rebox_ok)
  moreover have "inst_ok ?uc" using assms(5) by (intro rebox_inst_ok) (simp_all add: inst_ok_def)
  ultimately show ?thesis
    using that [of c' ?uc] c' assms(1,5) OriginAction by (simp add: rebox_ok)
qed

text \<open>Redoing an action is undoing the opposite one.\<close>

primrec opposite :: "inst_action \<Rightarrow> inst_action" where
  "opposite (FlagsAction oid p n) = FlagsAction oid n p"
| "opposite (OriginAction oid px py cx cy) = OriginAction oid cx cy px py"

lemma redo_eff_opposite: "redo_eff a = undo_eff (opposite a)"
  by (rule ext) (cases a; simp)

lemma change_opposite:
  assumes "change a oid i u" "inst_ok i"
  shows "change (opposite a) oid u i"
proof (cases a)
  case (FlagsAction oid' p n)
  have u: "u = rebox (i\<lparr>i_flags := i_flags u\<rparr>)"
    using assms(1) unfolding FlagsAction change.simps by (elim conjE)
  have "rebox (u\<lparr>i_flags := i_flags i\<rparr>) = rebox i"
    by (subst u) (simp add: rebox_def inst_box_def)
  then have "i = rebox (u\<lparr>i_flags := i_flags i\<rparr>)" by (simp only: rebox_ok [OF assms(2)])
  with assms(1) show ?thesis unfolding FlagsAction opposite.simps change.simps by (elim conjE) (intro conjI)
next
  case (OriginAction oid' px py cx cy)
  have u: "u = rebox (i\<lparr>i_x := i_x u, i_y := i_y u\<rparr>)"
    using assms(1) unfolding OriginAction change.simps by (elim conjE)
  have "rebox (u\<lparr>i_x := i_x i, i_y := i_y i\<rparr>) = rebox i"
    by (subst u) (simp add: rebox_def inst_box_def)
  then have "i = rebox (u\<lparr>i_x := i_x i, i_y := i_y i\<rparr>)" by (simp only: rebox_ok [OF assms(2)])
  moreover have "i_flags u = i_flags i" by (subst u) (simp add: rebox_def)
  then have "isFixed u = isFixed i" by (simp add: isFixed_def)
  ultimately show ?thesis
    using assms(1) unfolding OriginAction opposite.simps change.simps by (elim conjE) (intro conjI; simp)
qed

section \<open>Undoing and redoing a sequence of changes\<close>

lemma sum_bind_eff_Nil [simp]: "sum_bind r (eff_all eff []) = r"
  by (cases r) simp_all

definition reverts :: "inst_action list \<Rightarrow> block \<Rightarrow> block \<Rightarrow> bool" where
  "reverts as b b' \<longleftrightarrow>
     (\<forall>c. quiet c \<longrightarrow> block_view c = block_view b' \<longrightarrow>
       (\<exists>c'. eff_all undo_eff (rev as) c = Inr c' \<and> quiet c' \<and> block_view c' = block_view b))"

definition reapplies :: "inst_action list \<Rightarrow> block \<Rightarrow> block \<Rightarrow> bool" where
  "reapplies as b b' \<longleftrightarrow>
     (\<forall>c. quiet c \<longrightarrow> block_view c = block_view b \<longrightarrow>
       (\<exists>c'. eff_all redo_eff as c = Inr c' \<and> quiet c' \<and> block_view c' = block_view b'))"

text \<open>The journal of \<open>b'\<close> holds \<open>as\<close> behind what that of \<open>b\<close> holds, in at most \<open>n\<close> bytes.\<close>

definition recorded :: "nat \<Rightarrow> inst_action list \<Rightarrow> block \<Rightarrow> block \<Rightarrow> bool" where
  "recorded n as b b' \<longleftrightarrow>
     (\<forall>j as0. b_journal b = Some j \<longrightarrow> journal_holds j (map inst_enc as0) \<longrightarrow>
        length (jl_bytes (j_log j)) + n < 2 ^ 31 \<longrightarrow>
        (\<exists>j'. b_journal b' = Some j' \<and> journal_holds j' (map inst_enc (as0 @ as)) \<and>
           length (jl_bytes (j_log j')) \<le> length (jl_bytes (j_log j)) + n))"

definition logged :: "nat \<Rightarrow> inst_action list \<Rightarrow> block \<Rightarrow> block \<Rightarrow> bool" where
  "logged n as b b' \<longleftrightarrow> block_ok b' \<and> reverts as b b' \<and> reapplies as b b' \<and> recorded n as b b'"

lemma logged_same:
  "block_ok b' \<Longrightarrow> block_view b' = block_view b \<Longrightarrow> b_journal b' = b_journal b \<Longrightarrow> logged 0 [] b b'"
  by (simp add: logged_def reverts_def reapplies_def recorded_def)

lemma logged_trans:
  assumes "logged n as b b1" "logged m bs b1 b2"
  shows "logged (n + m) (as @ bs) b b2"
proof -
  have "reverts (as @ bs) b b2"
    using assms by (fastforce simp: logged_def reverts_def eff_all_append)
  moreover have "reapplies (as @ bs) b b2"
    using assms by (fastforce simp: logged_def reapplies_def eff_all_append)
  moreover have "recorded (n + m) (as @ bs) b b2"
    unfolding recorded_def
  proof (intro allI impI)
    fix j as0
    assume j: "b_journal b = Some j" "journal_holds j (map inst_enc as0)"
      and len: "length (jl_bytes (j_log j)) + (n + m) < 2 ^ 31"
    from assms(1) j len obtain j1 where j1: "b_journal b1 = Some j1"
        "journal_holds j1 (map inst_enc (as0 @ as))"
        "length (jl_bytes (j_log j1)) \<le> length (jl_bytes (j_log j)) + n"
      by (auto simp: logged_def recorded_def)
    moreover from this len have "length (jl_bytes (j_log j1)) + m < 2 ^ 31" by linarith
    ultimately obtain j2 where "b_journal b2 = Some j2" "journal_holds j2 (map inst_enc ((as0 @ as) @ bs))"
        "length (jl_bytes (j_log j2)) \<le> length (jl_bytes (j_log j1)) + m"
      using assms(2) by (auto simp: logged_def recorded_def simp del: map_append)
    with j1 show "\<exists>j'. b_journal b2 = Some j' \<and> journal_holds j' (map inst_enc (as0 @ as @ bs)) \<and>
        length (jl_bytes (j_log j')) \<le> length (jl_bytes (j_log j)) + (n + m)"
      by (intro exI [of _ j2]) (simp add: append_assoc)
  qed
  ultimately show ?thesis using assms(2) by (simp add: logged_def)
qed

lemma block_view_nth:
  assumes "block_view c = block_view b" "getInst oid b = Inr u"
  obtains ic where "getInst oid c = Inr ic" "inst_view ic = inst_view u"
proof -
  have len: "length (b_insts c) = length (b_insts b)"
    using arg_cong [OF assms(1), of length] by (simp add: block_view_def)
  have n: "unat oid < length (b_insts b)" "b_insts b ! unat oid = Some u"
    using assms(2) by (simp_all add: getInst_Inr)
  have "block_view c ! unat oid = block_view b ! unat oid" using assms(1) by simp
  then have "map_option inst_view (b_insts c ! unat oid) = Some (inst_view u)"
    using n len by (simp add: block_view_def)
  with that n len show ?thesis by (auto simp: getInst_Inr)
qed

lemma block_view_update:
  "b_insts c' = (b_insts c)[unat oid := Some u] \<Longrightarrow>
   block_view c' = (block_view c)[unat oid := Some (inst_view u)]"
  by (simp add: block_view_def map_update)

text \<open>A change of one instance together with its journal entry.\<close>

lemma logged_change:
  assumes b: "block_ok b" "getInst oid b = Inr i"
      and ch: "change a oid i u" "inst_ok u" "b_insts b' = (b_insts b)[unat oid := Some u]"
      and rec: "journaled_by (record_action (fst (inst_enc a)) (snd (inst_enc a))) b b'"
  shows "logged 44 [a] b b'"
proof -
  have i: "inst_ok i" by (rule block_ok_getInst [OF b])
  have n: "unat oid < length (b_insts b)" "b_insts b ! unat oid = Some i" using b by (simp_all add: getInst_Inr)
  have ok: "block_ok b'" by (rule block_ok_update [OF b(1) ch(2,3)])
  have u: "getInst oid b' = Inr u" using n ch(3) by (simp add: getInst_Inr)
  have view: "block_view b' = (block_view b)[unat oid := Some (inst_view u)]"
    by (rule block_view_update [OF ch(3)])
  have old: "(block_view b')[unat oid := Some (inst_view i)] = block_view b"
    using n unfolding view by (simp add: block_view_def list_update_same_conv)
  have "\<exists>c'. undo_eff a c = Inr c' \<and> quiet c' \<and> block_view c' = block_view b"
    if c: "quiet c" "block_view c = block_view b'" for c
  proof -
    obtain ic where ic: "getInst oid c = Inr ic" "inst_view ic = inst_view u"
      by (rule block_view_nth [OF c(2) u])
    obtain c' uc where c': "undo_eff a c = Inr c'" "b_journal c' = None"
        "b_insts c' = (b_insts c)[unat oid := Some uc]" "inst_view uc = inst_view i" "inst_ok uc"
      by (rule undo_change [OF ch(1) c(1) ic i])
    have "block_view c' = block_view b" using block_view_update [OF c'(3)] c'(4) c(2) old by simp
    moreover have "block_ok c'" using c(1) c'(3,5) block_ok_update by (auto simp: quiet_def)
    ultimately show ?thesis using c' by (simp add: quiet_def)
  qed
  then have "reverts [a] b b'" by (auto simp: reverts_def)
  moreover have "\<exists>c'. redo_eff a c = Inr c' \<and> quiet c' \<and> block_view c' = block_view b'"
    if c: "quiet c" "block_view c = block_view b" for c
  proof -
    obtain ic where ic: "getInst oid c = Inr ic" "inst_view ic = inst_view i"
      by (rule block_view_nth [OF c(2) b(2)])
    obtain c' uc where c': "undo_eff (opposite a) c = Inr c'" "b_journal c' = None"
        "b_insts c' = (b_insts c)[unat oid := Some uc]" "inst_view uc = inst_view u" "inst_ok uc"
      by (rule undo_change [OF change_opposite [OF ch(1) i] c(1) ic ch(2)])
    have "block_view c' = block_view b'" using block_view_update [OF c'(3)] c'(4) c(2) view by simp
    moreover have "block_ok c'" using c(1) c'(3,5) block_ok_update by (auto simp: quiet_def)
    ultimately show ?thesis using c' by (simp add: quiet_def redo_eff_opposite)
  qed
  then have "reapplies [a] b b'" by (auto simp: reapplies_def)
  moreover have "recorded 44 [a] b b'"
    unfolding recorded_def
  proof (intro allI impI)
    fix j as0
    assume j: "b_journal b = Some j" "journal_holds j (map inst_enc as0)"
      and len: "length (jl_bytes (j_log j)) + 44 < 2 ^ 31"
    let ?l = "j_log j"
    have small: "length (vals_bytes (jl_debug ?l) (action_vals k (inst_enc a))) \<le> 44" for k
      by (cases a) (simp_all add: action_vals_def tag_def)
    show "\<exists>j'. b_journal b' = Some j' \<and> journal_holds j' (map inst_enc (as0 @ [a])) \<and>
        length (jl_bytes (j_log j')) \<le> length (jl_bytes ?l) + 44"
      using record_action_holds [OF j(2), of "fst (inst_enc a)" "snd (inst_enc a)"]
        small [of "length (jl_bytes ?l)"] len rec j(1)
      by (auto simp: journaled_by_def)
  qed
  ultimately show ?thesis using ok by (simp add: logged_def)
qed

section \<open>Every setter is logged\<close>

lemma logged_mono: "logged n as b b' \<Longrightarrow> n \<le> m \<Longrightarrow> logged m as b b'"
  by (fastforce simp: logged_def recorded_def)

lemma sint_word_of_int32: "in_int32 x \<Longrightarrow> sint (word_of_int x :: u32) = x"
  by (simp add: in_int32_def signed_of_int signed_take_bit_int_eq_self)

lemma setOrigin_logged:
  assumes "setOrigin oid x y b = Inr b'" "block_ok b" "in_int32 x" "in_int32 y"
  shows "\<exists>as. logged 44 as b b'"
proof -
  obtain i where i: "getInst oid b = Inr i" using assms(1) by (auto simp: setOrigin_eq sum_bind_Inr_iff)
  have ok: "inst_ok i" by (rule block_ok_getInst [OF assms(2) i])
  show ?thesis
  proof (cases "isPlaced i \<and> i_x i = x \<and> i_y i = y")
    case True
    then have "b' = b" using assms(1) i by (simp add: setOrigin_eq)
    with assms(2) show ?thesis using logged_mono [OF logged_same] by blast
  next
    case False
    then have nf: "\<not> isFixed i"
      and m: "move_inst oid (i\<lparr>i_x := x, i_y := y\<rparr>) (origin_rec oid i x y) b = Inr b'"
      using assms(1) i by (auto simp: setOrigin_eq split: if_splits)
    let ?a = "OriginAction oid (word_of_int (i_x i)) (word_of_int (i_y i)) (word_of_int x) (word_of_int y)"
    let ?u = "rebox (i\<lparr>i_x := x, i_y := y\<rparr>)"
    have len: "unat oid < length (b_insts b)" using i by (simp add: getInst_Inr)
    have "change ?a oid i ?u"
      using ok nf assms(3,4) by (simp add: inst_ok_def sint_word_of_int32 rebox_def inst_box_def)
    moreover have "inst_ok ?u" using assms(3,4) by (intro rebox_inst_ok) simp_all
    moreover have "b_insts b' = (b_insts b)[unat oid := Some ?u]" by (rule move_inst_Inr(1) [OF m len])
    moreover have "journaled_by (record_action (fst (inst_enc ?a)) (snd (inst_enc ?a))) b b'"
      using move_inst_Inr(2) [OF m len] by simp
    ultimately have "logged 44 [?a] b b'" by (rule logged_change [OF assms(2) i])
    then show ?thesis ..
  qed
qed

lemma flags_logged:
  assumes "block_ok b" "getInst oid b = Inr i" "b_insts b' = (b_insts b)[unat oid := Some (rebox (i\<lparr>i_flags := f\<rparr>))]"
      and "journaled_by (flags_rec oid (i_flags i) f) b b'"
  shows "\<exists>as. logged 44 as b b'"
proof -
  have ok: "inst_ok i" by (rule block_ok_getInst [OF assms(1,2)])
  let ?u = "rebox (i\<lparr>i_flags := f\<rparr>)" and ?a = "FlagsAction oid (flagsToUInt (i_flags i)) (flagsToUInt f)"
  have "change ?a oid i ?u" by (simp add: rebox_def inst_box_def)
  moreover have "inst_ok ?u" using ok by (intro rebox_inst_ok) (simp_all add: inst_ok_def)
  ultimately have "logged 44 [?a] b b'"
    using assms(3,4) by (intro logged_change [OF assms(1,2)]) simp_all
  then show ?thesis ..
qed

lemma setOrient_logged:
  assumes "setOrient oid ori b = Inr b'" "block_ok b"
  shows "\<exists>as. logged 44 as b b'"
proof -
  obtain i where i: "getInst oid b = Inr i" using assms(1) by (auto simp: setOrient_eq sum_bind_Inr_iff)
  have len: "unat oid < length (b_insts b)" using i by (simp add: getInst_Inr)
  show ?thesis
  proof (cases "ori = f_orient (i_flags i)")
    case True
    then have "b' = b" using assms(1) i by (simp add: setOrient_eq)
    with assms(2) show ?thesis using logged_mono [OF logged_same] by blast
  next
    case False
    then have "move_inst oid (i\<lparr>i_flags := (i_flags i)\<lparr>f_orient := ori\<rparr>\<rparr>)
        (flags_rec oid (i_flags i) ((i_flags i)\<lparr>f_orient := ori\<rparr>)) b = Inr b'"
      using assms(1) i by (auto simp: setOrient_eq split: if_splits)
    note m = move_inst_Inr [OF this len]
    show ?thesis by (rule flags_logged [OF assms(2) i m])
  qed
qed

text \<open>The flags that leave the bounding box alone.\<close>

lemma same_orient_logged:
  assumes "block_ok b" "getInst oid b = Inr i" "f_orient f = f_orient (i_flags i)"
      and "b_insts c = (b_insts b)[unat oid := Some (i\<lparr>i_flags := f\<rparr>)]" "b_journal c = b_journal b"
      and "journal_flags oid (i_flags i) f c = Inr b'"
  shows "\<exists>as. logged 44 as b b'"
proof -
  have "inst_ok i" by (rule block_ok_getInst [OF assms(1,2)])
  then have r: "rebox (i\<lparr>i_flags := f\<rparr>) = i\<lparr>i_flags := f\<rparr>"
    using assms(3) by (simp add: inst_ok_def rebox_def inst_box_def)
  from assms(6) have j: "b' = c\<lparr>b_journal := b_journal b'\<rparr>" "journaled_by (flags_rec oid (i_flags i) f) c b'"
    by (simp_all add: journal_flags_def journaling_Inr updateField_record)
  have "b_insts b' = b_insts c" by (subst j(1)) simp
  with j(2) assms show ?thesis
    by (intro flags_logged [OF assms(1,2)]) (simp_all add: r journaled_by_def)
qed

lemma setPlacementStatus_logged:
  assumes "setPlacementStatus oid st b = Inr b'" "block_ok b"
  shows "\<exists>as. logged 44 as b b'"
proof -
  obtain i where i: "getInst oid b = Inr i"
    using assms(1) by (auto simp: setPlacementStatus_def sum_bind_Inr_iff)
  show ?thesis
  proof (cases "f_status (i_flags i) = st")
    case True
    then have "b' = b" using assms(1) i by (simp add: setPlacementStatus_def)
    with assms(2) show ?thesis using logged_mono [OF logged_same] by blast
  next
    case False
    let ?f = "(i_flags i)\<lparr>f_status := st\<rparr>"
    let ?c = "(putInst oid (i\<lparr>i_flags := ?f\<rparr>) (notify (InDbInstPlacementStatusBefore oid st) b))
        \<lparr>b_valid_bbox := False\<rparr>"
    have "journal_flags oid (i_flags i) ?f ?c = Inr b'"
      using assms(1) i False by (simp add: setPlacementStatus_def Let_def)
    then show ?thesis by (intro same_orient_logged [OF assms(2) i, of ?f ?c]) simp_all
  qed
qed

lemma setUserFlag_logged:
  assumes "setUserFlag upd oid b = Inr b'" "block_ok b" "\<And>f. f_orient (upd f) = f_orient f"
  shows "\<exists>as. logged 44 as b b'"
proof -
  obtain i where i: "getInst oid b = Inr i" using assms(1) by (auto simp: setUserFlag_def sum_bind_Inr_iff)
  have "journal_flags oid (i_flags i) (upd (i_flags i)) (putInst oid (i\<lparr>i_flags := upd (i_flags i)\<rparr>) b) = Inr b'"
    using assms(1) i by (simp add: setUserFlag_def)
  then show ?thesis
    by (intro same_orient_logged [OF assms(2) i, of "upd (i_flags i)"
          "putInst oid (i\<lparr>i_flags := upd (i_flags i)\<rparr>) b"]) (simp_all add: assms(3))
qed

lemma setInstField_logged:
  assumes "setInstField upd oid b = Inr b'" "block_ok b"
      and "\<And>i. inst_view (upd i) = inst_view i" "\<And>i. inst_ok (upd i) = inst_ok i"
  shows "\<exists>as. logged 44 as b b'"
proof -
  obtain i where i: "getInst oid b = Inr i" and b': "b' = putInst oid (upd i) b"
    using assms(1) by (auto simp: setInstField_def sum_bind_Inr_iff)
  have "block_ok b'"
    by (rule block_ok_update [OF assms(2), of "upd i"]) (use assms(4) block_ok_getInst [OF assms(2) i] b' in simp_all)
  moreover have "block_view b' = block_view b"
    using i by (simp add: b' block_view_def map_update assms(3) getInst_Inr list_update_same_conv)
  ultimately have "logged 0 [] b b'" by (rule logged_same) (simp add: b')
  then show ?thesis using logged_mono by blast
qed

lemma setLocation_logged:
  assumes "setLocation oid x y b = Inr b'" "block_ok b"
  shows "\<exists>as. logged 44 as b b'"
proof -
  obtain i ox oy where "getInst oid b = Inr i" "in_int32 ox" "in_int32 oy" "setOrigin oid ox oy b = Inr b'"
    using assms(1) by (auto simp: setLocation_def sum_bind_Inr_iff Let_def split: option.splits)
  with setOrigin_logged assms(2) show ?thesis by blast
qed

lemma logged_bind:
  assumes "sum_bind (f b) g = Inr b'" "block_ok b" "\<And>b1. f b = Inr b1 \<Longrightarrow> \<exists>as. logged n as b b1"
      and "\<And>b1. g b1 = Inr b' \<Longrightarrow> block_ok b1 \<Longrightarrow> \<exists>as. logged m as b1 b'"
  shows "\<exists>as. logged (n + m) as b b'"
proof -
  obtain b1 where b1: "f b = Inr b1" "g b1 = Inr b'" using assms(1) by (auto simp: sum_bind_Inr_iff)
  obtain as where as: "logged n as b b1" using assms(3) [OF b1(1)] by blast
  then have "block_ok b1" by (simp add: logged_def)
  then obtain bs where "logged m bs b1 b'" using assms(4) [OF b1(2)] by blast
  with as logged_trans show ?thesis by blast
qed

text \<open>The arguments of a command are \<open>int\<close>s.\<close>

fun cmd_ok :: "inst_cmd \<Rightarrow> bool" where
  "cmd_ok (SetOrigin oid x y) \<longleftrightarrow> in_int32 x \<and> in_int32 y"
| "cmd_ok (SetTransform oid t) \<longleftrightarrow> in_int32 (pt_x (offset t)) \<and> in_int32 (pt_y (offset t))"
| "cmd_ok _ \<longleftrightarrow> True"

lemma setLocationOrient_logged:
  assumes "setLocationOrient oid ori b = Inr b'" "block_ok b"
  shows "\<exists>as. logged 88 as b b'"
proof -
  obtain x y where "sum_bind (setOrient oid ori b) (setLocation oid x y) = Inr b'"
    using assms(1) by (auto simp: setLocationOrient_def sum_bind_Inr_iff)
  then have "\<exists>as. logged (44 + 44) as b b'"
    by (rule logged_bind [OF _ assms(2)]) (blast intro: setOrient_logged setLocation_logged assms(2))+
  then show ?thesis by simp
qed

lemma setTransform_logged:
  assumes "setTransform oid t b = Inr b'" "block_ok b" "cmd_ok (SetTransform oid t)"
  shows "\<exists>as. logged 88 as b b'"
proof -
  have "\<exists>as. logged (44 + 44) as b b'"
    using assms(1) unfolding setTransform_def
    by (rule logged_bind [OF _ assms(2)])
      (use assms(2,3) in \<open>auto intro: setOrient_logged setOrigin_logged\<close>)
  then show ?thesis by simp
qed

lemmas user_flag_defs = setUserFlag1_def clearUserFlag1_def setUserFlag2_def clearUserFlag2_def
  setUserFlag3_def clearUserFlag3_def

lemmas field_defs = setDoNotTouch_def setEcoCreate_def setEcoDestroy_def setEcoModify_def
  setSourceType_def setWeight_def

lemma cmd_step_logged:
  assumes "cmd_step c b = Inr b'" "block_ok b" "cmd_ok c"
  shows "\<exists>as. logged 88 as b b'"
proof -
  have small: "\<exists>as. logged 44 as b b' \<Longrightarrow> ?thesis" using logged_mono [of 44 _ b b' 88] by auto
  have uf: "setUserFlag upd oid b = Inr b' \<Longrightarrow> (\<And>f. f_orient (upd f) = f_orient f) \<Longrightarrow> ?thesis" for upd oid
    using setUserFlag_logged [OF _ assms(2)] small by blast
  have fd: "setInstField upd oid b = Inr b' \<Longrightarrow> (\<And>i. inst_view (upd i) = inst_view i) \<Longrightarrow>
      (\<And>i. inst_ok (upd i) = inst_ok i) \<Longrightarrow> ?thesis" for upd oid
    using setInstField_logged [OF _ assms(2)] small by blast
  show ?thesis
  proof (cases c)
    case (SetOrigin oid x y)
    with assms show ?thesis by (intro small setOrigin_logged [of oid x y]) simp_all
  next
    case (SetOrient oid ori)
    with assms show ?thesis by (intro small setOrient_logged) simp_all
  next
    case (SetPlacementStatus oid st)
    with assms show ?thesis by (intro small setPlacementStatus_logged) simp_all
  next
    case (SetLocation oid x y)
    with assms show ?thesis by (intro small setLocation_logged) simp_all
  next
    case (SetLocationOrient oid ori)
    with assms show ?thesis by (intro setLocationOrient_logged) simp_all
  next
    case (SetTransform oid t)
    with assms show ?thesis by (intro setTransform_logged) simp_all
  next
    case GetBlockBBox
    then have "b' = (if b_valid_bbox b then b else ComputeBBox b)"
      using assms(1) by (simp add: block_getBBox_def Let_def)
    then have "logged 0 [] b b'"
      using assms(2) by (intro logged_same) (simp_all add: ComputeBBox_def block_ok_def block_view_def)
    then show ?thesis using logged_mono by blast
  qed (use assms(1) uf fd in \<open>simp_all add: user_flag_defs field_defs inst_view_def inst_ok_def inst_box_def\<close>)
qed

lemma cmds_run_logged:
  "cmds_run cs b = Inr b' \<Longrightarrow> block_ok b \<Longrightarrow> list_all cmd_ok cs \<Longrightarrow> \<exists>as. logged (88 * length cs) as b b'"
proof (induction cs arbitrary: b)
  case Nil
  then show ?case by (auto intro!: exI [of _ "[]"] logged_same)
next
  case (Cons c cs)
  have "\<exists>as. logged (88 + 88 * length cs) as b b'"
    using Cons.prems(1) unfolding cmds_run.simps
    by (rule logged_bind [OF _ Cons.prems(2)])
      (use Cons.prems Cons.IH cmd_step_logged in auto)
  then show ?case by simp
qed

section \<open>When the setters return\<close>

text \<open>No journal, or one with no open action and room for another.\<close>

definition journal_ready :: "block \<Rightarrow> bool" where
  "journal_ready b \<longleftrightarrow> (case b_journal b of None \<Rightarrow> True
     | Some j \<Rightarrow> (\<exists>as. journal_holds j as) \<and> length (jl_bytes (j_log j)) + 44 < 2 ^ 31)"

lemma journaling_returns:
  assumes "journal_ready b" "\<And>d k. length (vals_bytes d (action_vals k (a, ps))) \<le> 44"
  obtains b' where "journaling (record_action a ps) b = Inr b'"
proof (cases "b_journal b")
  case (Some j)
  then obtain as where j: "journal_holds j as" "length (jl_bytes (j_log j)) + 44 < 2 ^ 31"
    using assms(1) by (auto simp: journal_ready_def)
  from record_action_holds [OF j(1), of a ps] j(2)
    assms(2) [of "jl_debug (j_log j)" "length (jl_bytes (j_log j))"]
  obtain j' where "record_action a ps j = Inr j'" by auto
  with that Some show ?thesis by (simp add: journaling_def)
qed (use that in \<open>simp add: journaling_def\<close>)

lemma rec_small:
  "length (vals_bytes d (action_vals k (UPDATE_FIELD,
     [JInt dbInstObj, JUInt oid, JInt field_ORIGIN, JInt px, JInt py, JInt cx, JInt cy]))) \<le> 44"
  "length (vals_bytes d (action_vals k (UPDATE_FIELD,
     [JInt dbInstObj, JUInt oid, JInt field_FLAGS, JUInt p, JUInt n]))) \<le> 44"
  by (simp_all add: action_vals_def tag_def)

lemma move_inst_returns:
  assumes "unat oid < length (b_insts b)" "journal_ready b"
      and "\<And>d k. length (vals_bytes d (action_vals k (a, ps))) \<le> 44"
  obtains b' where "move_inst oid i (record_action a ps) b = Inr b'"
proof -
  let ?b = "putInst oid i (notify (InDbPreMoveInst oid) b)"
  have "getInst oid ?b = Inr i" using assms(1) by simp
  then obtain b1 where b1: "setInstBBox oid ?b = Inr b1"
      "b_insts b1 = (b_insts b)[unat oid := Some (rebox i)]" "b_journal b1 = b_journal b"
    by (rule setInstBBox_Inr) simp
  have "journal_ready b1" using assms(2) b1(3) by (simp add: journal_ready_def)
  then obtain b2 where b2: "journaling (record_action a ps) b1 = Inr b2"
    by (rule journaling_returns [OF _ assms(3)])
  then have "b2 = b1\<lparr>b_journal := b_journal b2\<rparr>" by (simp add: journaling_Inr)
  then have "b_insts b2 = b_insts b1" by (metis block.select_convs(1) block.surjective block.update_convs(7))
  then have "getInst oid b2 = Inr (rebox i)" using assms(1) b1(2) by (simp add: getInst_Inr)
  then obtain b3 where "moved oid b2 = Inr b3" by (rule moved_Inr)
  with b1(1) b2 that show ?thesis by (simp add: move_inst_def)
qed

lemma setOrigin_returns:
  assumes "block_ok b" "journal_ready b" "getInst oid b = Inr i" "\<not> isFixed i"
  obtains b' where "setOrigin oid x y b = Inr b'"
    "b_insts b' = (b_insts b)[unat oid := Some (rebox (i\<lparr>i_x := x, i_y := y\<rparr>))]"
proof (cases "isPlaced i \<and> i_x i = x \<and> i_y i = y")
  case True
  have same: "b_insts b = (b_insts b)[unat oid := Some i]"
    using assms(3) by (intro nth_equalityI) (auto simp: getInst_Inr nth_list_update)
  from True have "i\<lparr>i_x := x, i_y := y\<rparr> = i" by (cases i) simp
  then have "rebox (i\<lparr>i_x := x, i_y := y\<rparr>) = i"
    using block_ok_getInst [OF assms(1,3)] by (simp only: rebox_ok)
  moreover have "b_insts b = (b_insts b)[unat oid := Some i]" by (rule same)
  ultimately show ?thesis using that [of b] True assms(3) by (simp add: setOrigin_eq)
next
  case False
  have len: "unat oid < length (b_insts b)" using assms(3) by (simp add: getInst_Inr)
  obtain b' where m: "move_inst oid (i\<lparr>i_x := x, i_y := y\<rparr>) (origin_rec oid i x y) b = Inr b'"
    by (rule move_inst_returns [OF len assms(2) rec_small(1)])
  have "setOrigin oid x y b = Inr b'" using False assms(3,4) m by (auto simp: setOrigin_eq)
  with that move_inst_Inr(1) [OF m len] show ?thesis by blast
qed

lemma setOrient_returns:
  assumes "block_ok b" "journal_ready b" "getInst oid b = Inr i" "\<not> isFixed i"
  obtains b' where "setOrient oid ori b = Inr b'"
    "b_insts b' = (b_insts b)[unat oid := Some (rebox (i\<lparr>i_flags := (i_flags i)\<lparr>f_orient := ori\<rparr>\<rparr>))]"
proof (cases "ori = f_orient (i_flags i)")
  case True
  have same: "b_insts b = (b_insts b)[unat oid := Some i]"
    using assms(3) by (intro nth_equalityI) (auto simp: getInst_Inr nth_list_update)
  from True have "i\<lparr>i_flags := (i_flags i)\<lparr>f_orient := ori\<rparr>\<rparr> = i" by (cases i; cases "i_flags i") simp
  then have "rebox (i\<lparr>i_flags := (i_flags i)\<lparr>f_orient := ori\<rparr>\<rparr>) = i"
    using block_ok_getInst [OF assms(1,3)] by (simp only: rebox_ok)
  moreover have "b_insts b = (b_insts b)[unat oid := Some i]" by (rule same)
  ultimately show ?thesis using that [of b] True assms(3) by (simp add: setOrient_eq)
next
  case False
  have len: "unat oid < length (b_insts b)" using assms(3) by (simp add: getInst_Inr)
  obtain b' where m: "move_inst oid (i\<lparr>i_flags := (i_flags i)\<lparr>f_orient := ori\<rparr>\<rparr>)
      (flags_rec oid (i_flags i) ((i_flags i)\<lparr>f_orient := ori\<rparr>)) b = Inr b'"
    by (rule move_inst_returns [OF len assms(2) rec_small(2)])
  have "setOrient oid ori b = Inr b'" using False assms(3,4) m by (auto simp: setOrient_eq)
  with that move_inst_Inr(1) [OF m len] show ?thesis by blast
qed

lemma record_first:
  assumes "\<And>d k. length (vals_bytes d (action_vals k (a, ps))) \<le> 44"
  obtains j where "record_action a ps (journal_new debug) = Inr j" "journal_holds j [(a, ps)]"
proof -
  have e: "jl_bytes (j_log (journal_new debug)) = []"
    using journal_new_holds [of debug] by (simp add: journal_holds_def)
  show ?thesis
    using record_action_holds [OF journal_new_holds [of debug], of a ps]
      assms [of "jl_debug (j_log (journal_new debug))" 0] that by (auto simp: e)
qed

text \<open>The bounding box moves with the origin.\<close>

lemma transform_rect_offset:
  "xlo (transform_apply_rect \<lparr>orient = ori, offset = Point x y\<rparr> r)
     = xlo (transform_apply_rect \<lparr>orient = ori, offset = Point 0 0\<rparr> r) + x"
  "ylo (transform_apply_rect \<lparr>orient = ori, offset = Point x y\<rparr> r)
     = ylo (transform_apply_rect \<lparr>orient = ori, offset = Point 0 0\<rparr> r) + y"
  by (simp_all add: transform_apply_rect_def transform_apply_def rect_init_def Let_def)

section \<open>Properties\<close>

definition demo_flags :: instFlags where
  "demo_flags = \<lparr>f_orient = OrientType_R0, f_status = PlacementStatus_NONE,
     f_user_flag_1 = False, f_user_flag_2 = False, f_user_flag_3 = False, f_physical_only = False,
     f_dont_touch = False, f_source = SourceType_NONE, f_eco_create = False, f_eco_destroy = False,
     f_eco_modify = False, f_level = 0\<rparr>"

definition demo_inst :: dbInst where
  "demo_inst = \<lparr>i_flags = demo_flags, i_x = 100, i_y = 200, i_weight = 0,
     i_bbox = rect_reset 100 200 130 220,
     i_master = \<lparr>m_width = 30, m_height = 20, m_x = 0, m_y = 0\<rparr>, i_iterms = [0]\<rparr>"

definition demo_block :: block where
  "demo_block = \<lparr>b_insts = [None, Some demo_inst], b_aps = [[(1, 2)]], b_others = [],
     b_bbox = rect_reset 0 0 0 0, b_valid_bbox = False, b_events = [], b_journal = None,
     b_journal_pending = None\<rparr>"

definition demo_handlers :: handlers where
  "demo_handlers = \<lparr>h_action = (\<lambda>a l b. Inl UnsupportedUndo), h_field = (\<lambda>t l b. Inl UnsupportedUndo)\<rparr>"

lemma demo_block_ok: "block_ok demo_block" "getInst 1 demo_block = Inr demo_inst" "\<not> isFixed demo_inst"
  "journal_ready demo_block"
  by (simp_all add: block_ok_def demo_block_def inst_ok_def inst_box_def getPlacementBoundary_def
      demo_inst_def demo_flags_def in_int32_def geom_defs transform_apply_rect_def transform_apply_def
      getInst_def isFixed_def journal_ready_def)

lemma demo_eco_ok: "block_ok (beginEco debug demo_block)" "journal_ready (beginEco debug demo_block)"
  "getInst 1 (beginEco debug demo_block) = Inr demo_inst"
proof -
  have "jl_bytes (j_log (journal_new debug)) = []"
    using journal_new_holds [of debug] by (simp add: journal_holds_def)
  then show "journal_ready (beginEco debug demo_block)"
    using journal_new_holds [of debug] by (auto simp: journal_ready_def beginEco_def)
  have "getInst oid (beginEco debug b) = getInst oid b" "block_ok (beginEco debug b) = block_ok b" for oid b
    by (simp_all add: beginEco_def block_ok_def getInst_def)
  then show "block_ok (beginEco debug demo_block)" "getInst 1 (beginEco debug demo_block) = Inr demo_inst"
    by (simp_all only: demo_block_ok)
qed

lemma eco_demo_run:
  obtains b' where "cmds_run [SetOrigin 1 7 8] (beginEco debug demo_block) = Inr b'"
proof -
  obtain b' where "setOrigin 1 7 8 (beginEco debug demo_block) = Inr b'"
    by (rule setOrigin_returns [OF demo_eco_ok demo_block_ok(3)])
  with that show ?thesis by simp
qed

text \<open>
  \<open>setLocation\<close> places the bounding box.  For an instance that is not fixed, whatever its
  orientation, with no open journal action and no overflow, \<open>setLocation(x, y)\<close> returns, the
  lower left corner of the bounding box (\<open>getLocation\<close>) is then \<open>(x, y)\<close>, orientation and
  status are unchanged, and so is every other instance.
\<close>

theorem setLocation_places:
  assumes "block_ok b" "journal_ready b" "getInst oid b = Inr i" "\<not> isFixed i"
      and "in_int32 (x - xlo (inst_box (i\<lparr>i_x := 0, i_y := 0\<rparr>)))"
      and "in_int32 (y - ylo (inst_box (i\<lparr>i_x := 0, i_y := 0\<rparr>)))"
  shows "\<exists>b' i'. setLocation oid x y b = Inr b' \<and> getLocation oid b' = Inr (x, y) \<and>
     getInst oid b' = Inr i' \<and> i_flags i' = i_flags i \<and>
     (\<forall>o'. o' \<noteq> oid \<longrightarrow> getInst o' b' = getInst o' b)"
proof -
  let ?box = "inst_box (i\<lparr>i_x := 0, i_y := 0\<rparr>)"
  let ?u = "rebox (i\<lparr>i_x := x - xlo ?box, i_y := y - ylo ?box\<rparr>)"
  obtain b' where b': "setOrigin oid (x - xlo ?box) (y - ylo ?box) b = Inr b'"
      "b_insts b' = (b_insts b)[unat oid := Some ?u]"
    by (rule setOrigin_returns [OF assms(1-4)])
  have "setLocation oid x y b = Inr b'"
    using assms(3,5,6) b'(1) by (simp add: setLocation_def inst_box_def chk32_def Let_def)
  moreover have u: "getInst oid b' = Inr ?u" using assms(3) b'(2) by (simp add: getInst_Inr)
  moreover have "xlo (i_bbox ?u) = x" "ylo (i_bbox ?u) = y"
    by (simp_all add: rebox_def inst_box_def transform_rect_offset [of _ "x - _"] transform_rect_offset(2) [of _ _ "y - _"])
  then have "getLocation oid b' = Inr (x, y)" using u by (simp add: getLocation_def)
  moreover have "i_flags ?u = i_flags i" by (simp add: rebox_def)
  moreover have "\<forall>o'. o' \<noteq> oid \<longrightarrow> getInst o' b' = getInst o' b"
    using getInst_update_other [OF b'(2)] by blast
  ultimately show ?thesis by blast
qed

theorem setLocation_places_witness:
  "\<exists>b'. setLocation 1 5 6 demo_block = Inr b' \<and> getLocation 1 b' = Inr (5, 6)"
proof -
  have "in_int32 (5 - xlo (inst_box (demo_inst\<lparr>i_x := 0, i_y := 0\<rparr>)))"
    "in_int32 (6 - ylo (inst_box (demo_inst\<lparr>i_x := 0, i_y := 0\<rparr>)))"
    by (simp_all add: inst_box_def getPlacementBoundary_def demo_inst_def demo_flags_def in_int32_def
        geom_defs transform_apply_rect_def transform_apply_def)
  from setLocation_places [OF demo_block_ok(1,4,2,3) this] show ?thesis by blast
qed

text \<open>After \<open>beginEco\<close> and a run of commands the journal holds the actions that the run logged.\<close>

lemma eco_journal:
  assumes "cmds_run cs (beginEco debug b) = Inr b'" "block_ok b" "list_all cmd_ok cs"
      and "88 * length cs < 2 ^ 31"
  obtains as j where "block_ok b'" "b_journal b' = Some j" "journal_holds j (map inst_enc as)"
    "reverts as b b'" "reapplies as b b'"
proof -
  let ?b = "beginEco debug b"
  have v: "block_ok ?b" "block_view ?b = block_view b" "b_journal ?b = Some (journal_new debug)"
    using assms(2) by (simp_all add: beginEco_def block_ok_def block_view_def)
  obtain as where as: "logged (88 * length cs) as ?b b'"
    using cmds_run_logged [OF assms(1) v(1) assms(3)] by blast
  have "jl_bytes (j_log (journal_new debug)) = []"
    using journal_new_holds [of debug] by (simp add: journal_holds_def)
  then obtain j where "b_journal b' = Some j" "journal_holds j (map inst_enc as)"
    using as journal_new_holds [of debug] assms(4) v(3) unfolding logged_def recorded_def
    by (metis add_0 append_Nil list.simps(8) list.size(3))
  with as that v(2) show ?thesis by (simp add: logged_def reverts_def reapplies_def)
qed

text \<open>
  C11: Undoing an ECO restores the placement.  Whatever the setters of instances did between
  \<open>beginEco\<close> and \<open>endEco\<close> (moves, orientations, placement statuses, user flags, changes that
  are not journaled, and queries of the block's box in between), \<open>undoEco\<close> replays the bytes
  of the journal backwards, returns without error, and every instance has the origin,
  orientation, status, user flags and bounding box it had before; no journal is left.
\<close>

theorem undoEco_restores:
  assumes "block_ok b" "list_all cmd_ok cs" "88 * length cs < 2 ^ 31"
      and "cmds_run cs (beginEco debug b) = Inr b'"
  shows "\<exists>b''. undoEco h (endEco b') = Some (Inr b'') \<and> block_view b'' = block_view b \<and> block_ok b'' \<and>
    b_journal b'' = None \<and> b_journal_pending b'' = None"
proof -
  obtain as j where aj: "block_ok b'" "b_journal b' = Some j" "journal_holds j (map inst_enc as)"
      "reverts as b b'"
    by (rule eco_journal [OF assms(4,1,2,3)])
  have "quiet (endEco b')" "block_view (endEco b') = block_view b'"
    using aj(1) by (simp_all add: quiet_def endEco_def block_ok_def block_view_def)
  then obtain c where c: "eff_all undo_eff (rev as) (endEco b') = Inr c" "quiet c" "block_view c = block_view b"
    using aj(4) by (auto simp: reverts_def)
  obtain j' where "undo (undo_switch h) j (endEco b') = Some (Inr (j', c))"
    using undoing.undo_replays [OF aj(3) any_mode, of h "endEco b'"] c(1) by (auto simp: replays_def)
  then have "undoEco h (endEco b') = Some (Inr (c\<lparr>b_journal_pending := None\<rparr>))"
    using aj(2) by (simp add: undoEco_def) (simp add: endEco_def)
  with c(2,3) show ?thesis by (simp add: quiet_def block_ok_def block_view_def)
qed

theorem undoEco_restores_witness:
  "\<exists>b' b''. cmds_run [SetOrigin 1 7 8] (beginEco True demo_block) = Inr b' \<and>
     undoEco demo_handlers (endEco b') = Some (Inr b'') \<and> block_view b'' = block_view demo_block"
proof -
  obtain b' where b': "cmds_run [SetOrigin 1 7 8] (beginEco True demo_block) = Inr b'" by (rule eco_demo_run)
  have "list_all cmd_ok [SetOrigin 1 7 8]" "88 * length [SetOrigin 1 7 8] < 2 ^ 31"
    by (simp_all add: in_int32_def)
  from undoEco_restores [OF demo_block_ok(1) this b'] b' show ?thesis by blast
qed

text \<open>
  Committing an ECO reapplies it.  On a block whose instances are placed as they were when
  the ECO began, \<open>commitEco\<close> of the recorded journal returns without error and every instance
  has the origin, orientation, status, user flags and bounding box the setters left.
\<close>

theorem commitEco_reapplies:
  assumes "block_ok b" "list_all cmd_ok cs" "88 * length cs < 2 ^ 31"
      and "cmds_run cs (beginEco debug b) = Inr b'"
      and "block_ok c" "b_journal c = None" "block_view c = block_view b"
  shows "\<exists>c'. commitEco h (c\<lparr>b_journal_pending := b_journal_pending (endEco b')\<rparr>) = Some (Inr c') \<and>
    block_view c' = block_view b' \<and> block_ok c' \<and> b_journal_pending c' = None"
proof -
  obtain as j where aj: "b_journal b' = Some j" "journal_holds j (map inst_enc as)" "reapplies as b b'"
    by (rule eco_journal [OF assms(4,1,2,3)])
  let ?c = "c\<lparr>b_journal_pending := b_journal_pending (endEco b')\<rparr>"
  have "quiet ?c" "block_view ?c = block_view b"
    using assms(5-7) by (simp_all add: quiet_def block_ok_def block_view_def)
  then obtain d where d: "eff_all redo_eff as ?c = Inr d" "quiet d" "block_view d = block_view b'"
    using aj(3) by (auto simp: reapplies_def)
  obtain j' where "redo (redo_switch h) j ?c = Some (Inr (j', d))"
    using redoing.redo_replays [OF aj(2) any_mode, of h ?c] d(1) by (auto simp: replays_def)
  then have "commitEco h ?c = Some (Inr (d\<lparr>b_journal_pending := None\<rparr>))"
    using aj(1) by (simp add: commitEco_def endEco_def)
  with d(2,3) show ?thesis by (simp add: quiet_def block_ok_def block_view_def)
qed

theorem commitEco_reapplies_witness:
  "\<exists>b' c'. cmds_run [SetOrigin 1 7 8] (beginEco False demo_block) = Inr b' \<and>
     commitEco demo_handlers (demo_block\<lparr>b_journal_pending := b_journal_pending (endEco b')\<rparr>) = Some (Inr c') \<and>
     block_view c' = block_view b'"
proof -
  obtain b' where b': "cmds_run [SetOrigin 1 7 8] (beginEco False demo_block) = Inr b'" by (rule eco_demo_run)
  have "list_all cmd_ok [SetOrigin 1 7 8]" "88 * length [SetOrigin 1 7 8] < 2 ^ 31"
    by (simp_all add: in_int32_def)
  moreover have "b_journal demo_block = None" by (simp add: demo_block_def)
  ultimately show ?thesis
    using commitEco_reapplies [OF demo_block_ok(1) _ _ b' demo_block_ok(1)] b' by blast
qed

text \<open>
  Undo leaves the block's bounding box stale.  \<open>setPlacementStatus\<close> invalidates the cached
  box of the block, but the undo of its journal entry writes the flags back without doing so.
  An unplaced instance is placed within an ECO, the block's box is asked for, and the ECO is
  undone: the instance is unplaced again and the block is empty, yet \<open>getBBox\<close> still answers
  with the box of the instance, where \<open>ComputeBBox\<close> would give the empty box.
\<close>

theorem undo_leaves_stale_bbox:
  "\<exists>b' b''. cmds_run [SetPlacementStatus 1 PlacementStatus_PLACED, GetBlockBBox] (beginEco False demo_block)
       = Inr b' \<and>
     undoEco demo_handlers (endEco b') = Some (Inr b'') \<and>
     fst (block_getBBox b'') = rect_reset 100 200 130 220 \<and> computed_bbox b'' = rect_reset 0 0 0 0"
proof -
  let ?f = "demo_flags\<lparr>f_status := PlacementStatus_PLACED\<rparr>"
  let ?a = "FlagsAction 1 (flagsToUInt demo_flags) (flagsToUInt ?f)"
  obtain j where j: "record_action UPDATE_FIELD [JInt dbInstObj, JUInt 1, JInt field_FLAGS,
        JUInt (flagsToUInt demo_flags), JUInt (flagsToUInt ?f)] (journal_new False) = Inr j"
      "journal_holds j [(UPDATE_FIELD, [JInt dbInstObj, JUInt 1, JInt field_FLAGS,
        JUInt (flagsToUInt demo_flags), JUInt (flagsToUInt ?f)])]"
    by (rule record_first [OF rec_small(2)])
  let ?i = "demo_inst\<lparr>i_flags := ?f\<rparr>"
  let ?b1 = "demo_block\<lparr>b_insts := [None, Some ?i], b_events := [InDbInstPlacementStatusBefore 1 PlacementStatus_PLACED],
      b_journal := Some j\<rparr>"
  let ?b2 = "?b1\<lparr>b_bbox := rect_reset 100 200 130 220, b_valid_bbox := True\<rparr>"
  have s1: "setPlacementStatus 1 PlacementStatus_PLACED (beginEco False demo_block) = Inr ?b1"
    using j(1) by (simp add: setPlacementStatus_def beginEco_def demo_block_def getInst_def demo_inst_def
        demo_flags_def journal_flags_def journaling_def updateField_record notify_def putInst_def Let_def)
  have c1: "computed_bbox ?b1 = rect_reset 100 200 130 220"
    by (simp add: computed_bbox_def demo_block_def demo_inst_def isPlaced_def geom_defs mergeInit_def)
  have s2: "snd (block_getBBox ?b1) = ?b2"
    using c1 by (simp add: block_getBBox_def ComputeBBox_def demo_block_def Let_def)
  let ?b3 = "(endEco ?b2)\<lparr>b_insts := [None, Some demo_inst]\<rparr>"
  have "restore_flags 1 (flagsToUInt demo_flags) (flagsToUInt ?f) (endEco ?b2) = Inr ?b3"
    by (simp add: restore_flags_def uintToFlags_flagsToUInt getInst_def endEco_def putInst_def demo_block_def
        demo_inst_def Let_def)
  then obtain j' where "undo (undo_switch demo_handlers) j (endEco ?b2) = Some (Inr (j', ?b3))"
    using undoing.undo_replays [OF _ any_mode, of j "[?a]" demo_handlers "endEco ?b2"] j(2) by (auto simp: replays_def)
  then have u: "undoEco demo_handlers (endEco ?b2) = Some (Inr (?b3\<lparr>b_journal_pending := None\<rparr>))"
    by (simp add: undoEco_def endEco_def)
  have "fst (block_getBBox (?b3\<lparr>b_journal_pending := None\<rparr>)) = rect_reset 100 200 130 220"
    by (simp add: block_getBBox_def endEco_def Let_def)
  moreover have "computed_bbox (?b3\<lparr>b_journal_pending := None\<rparr>) = rect_reset 0 0 0 0"
    by (simp add: computed_bbox_def demo_block_def demo_inst_def demo_flags_def isPlaced_def mergeInit_def
        endEco_def)
  ultimately show ?thesis using s1 s2 u by (intro exI [of _ ?b2] exI [of _ "?b3\<lparr>b_journal_pending := None\<rparr>"]) simp
qed

end
