(* ===== verification/OdbMembership.thy ===== *)
theory OdbMembership imports OdbPrelude begin

text \<open>
  The lists through which a net of the database knows its terminals.  Each terminal has the id
  of the net it is on and the ids of its neighbours in the net's list; the net has the id of the
  list's head; the id 0 is null.  The classes \<open>_dbITerm\<close>, \<open>_dbBTerm\<close>, \<open>_dbModITerm\<close> and
  \<open>_dbModBTerm\<close> repeat the same few statements for six such lists, so they are written here once
  over the fields that carry the list (\<open>membership\<close>); \<open>OdbNetlist\<close> gives the fields.

  Object tables are taken as partial maps from ids; \<open>OdbTable\<close> shows that the tables behave as
  such (\<open>create_law\<close>, \<open>modify_law\<close>, \<open>destroy_law\<close>).
\<close>

section \<open>The fields of a list and its operations\<close>

type_synonym 'a tab = "u32 \<rightharpoonup> 'a"

record ('t, 'n) membership =
  mb_own :: "'t \<Rightarrow> u32"
  mb_nxt :: "'t \<Rightarrow> u32"
  mb_prv :: "'t \<Rightarrow> u32"
  mb_head :: "'n \<Rightarrow> u32"
  mb_set_own :: "u32 \<Rightarrow> 't \<Rightarrow> 't"
  mb_set_nxt :: "u32 \<Rightarrow> 't \<Rightarrow> 't"
  mb_set_prv :: "u32 \<Rightarrow> 't \<Rightarrow> 't"
  mb_set_head :: "u32 \<Rightarrow> 'n \<Rightarrow> 'n"

text \<open>Writing through the pointer \<open>getPtr\<close> returns; \<open>None\<close> is its failed assertion.\<close>

definition wr :: "u32 \<Rightarrow> ('a \<Rightarrow> 'a) \<Rightarrow> 'a tab \<Rightarrow> 'a tab option" where
  "wr i f T = map_option (\<lambda>x. T(i \<mapsto> f x)) (T i)"

text \<open>
  Putting terminal \<open>t\<close> at the front of the list of net \<open>n\<close>.  \<open>dbITerm::connect\<close> to a flat net
  clears the previous link before it writes the old head's, the others after it.
\<close>

definition push_front :: "('t, 'n) membership \<Rightarrow> u32 \<Rightarrow> u32 \<Rightarrow> 't tab \<Rightarrow> 'n tab \<Rightarrow> ('t tab \<times> 'n tab) option" where
  "push_front F t n T N =
     Option.bind (N n) (\<lambda>net.
     Option.bind (wr t (mb_set_own F n) T) (\<lambda>T.
     Option.bind
       (if mb_head F net \<noteq> 0
        then Option.bind (wr t (mb_set_nxt F (mb_head F net)) T) (wr (mb_head F net) (mb_set_prv F t))
        else wr t (mb_set_nxt F 0) T) (\<lambda>T.
     Option.bind (wr t (mb_set_prv F 0) T) (\<lambda>T.
       map_option (\<lambda>N. (T, N)) (wr n (mb_set_head F t) N)))))"

definition push_front_clear :: "('t, 'n) membership \<Rightarrow> u32 \<Rightarrow> u32 \<Rightarrow> 't tab \<Rightarrow> 'n tab \<Rightarrow> ('t tab \<times> 'n tab) option" where
  "push_front_clear F t n T N =
     Option.bind (N n) (\<lambda>net.
     Option.bind (wr t (mb_set_own F n) T) (\<lambda>T.
     Option.bind
       (if mb_head F net \<noteq> 0
        then Option.bind (wr t (mb_set_nxt F (mb_head F net)) T) (\<lambda>T.
             Option.bind (wr t (mb_set_prv F 0) T) (wr (mb_head F net) (mb_set_prv F t)))
        else Option.bind (wr t (mb_set_nxt F 0) T) (wr t (mb_set_prv F 0))) (\<lambda>T.
       map_option (\<lambda>N. (T, N)) (wr n (mb_set_head F t) N))))"

text \<open>Taking a terminal out of the list of the net it is on, which must exist.\<close>

definition unlink :: "('t, 'n) membership \<Rightarrow> u32 \<Rightarrow> 't tab \<Rightarrow> 'n tab \<Rightarrow> ('t tab \<times> 'n tab) option" where
  "unlink F t T N =
     Option.bind (T t) (\<lambda>tm.
     Option.bind (N (mb_own F tm)) (\<lambda>net.
     Option.bind
       (if mb_head F net = t
        then Option.bind (wr (mb_own F tm) (mb_set_head F (mb_nxt F tm)) N) (\<lambda>N.
             if mb_nxt F tm \<noteq> 0
             then map_option (\<lambda>T. (T, N)) (wr (mb_nxt F tm) (mb_set_prv F 0) T)
             else Some (T, N))
        else Option.bind
               (if mb_nxt F tm \<noteq> 0 then wr (mb_nxt F tm) (mb_set_prv F (mb_prv F tm)) T else Some T) (\<lambda>T.
             Option.bind (T t) (\<lambda>tm.
             if mb_prv F tm \<noteq> 0
             then map_option (\<lambda>T. (T, N)) (wr (mb_prv F tm) (mb_set_nxt F (mb_nxt F tm)) T)
             else Some (T, N)))) (\<lambda>(T, N).
       map_option (\<lambda>T. (T, N)) (wr t (mb_set_own F 0) T))))"

text \<open>The variant of the hierarchical terminals, which goes by the previous link.\<close>

definition unlink_mod :: "('t, 'n) membership \<Rightarrow> u32 \<Rightarrow> 't tab \<Rightarrow> 'n tab \<Rightarrow> ('t tab \<times> 'n tab) option" where
  "unlink_mod F t T N =
     Option.bind (T t) (\<lambda>tm.
     Option.bind (N (mb_own F tm)) (\<lambda>net.
     Option.bind
       (if mb_prv F tm \<noteq> 0
        then map_option (\<lambda>T. (T, N)) (wr (mb_prv F tm) (mb_set_nxt F (mb_nxt F tm)) T)
        else map_option (\<lambda>N. (T, N)) (wr (mb_own F tm) (mb_set_head F (mb_nxt F tm)) N)) (\<lambda>(T, N).
     Option.bind
       (if mb_nxt F tm \<noteq> 0 then wr (mb_nxt F tm) (mb_set_prv F (mb_prv F tm)) T else Some T) (\<lambda>T.
       map_option (\<lambda>T. (T, N)) (wr t (mb_set_own F 0) T)))))"

text \<open>
  The iterators: a \<open>dbSet\<close> over the list, its size and its reversal.  \<open>None\<close> is also a list that
  does not end.
\<close>

partial_function (option) mb_iterate :: "('t, 'n) membership \<Rightarrow> 't tab \<Rightarrow> u32 \<Rightarrow> u32 list option" where
  "mb_iterate F T cur =
     (if cur = 0 then Some []
      else Option.bind (T cur) (\<lambda>x.
           Option.bind (mb_iterate F T (mb_nxt F x)) (\<lambda>xs. Some (cur # xs))))"

partial_function (option) mb_count :: "('t, 'n) membership \<Rightarrow> 't tab \<Rightarrow> u32 \<Rightarrow> u32 \<Rightarrow> u32 option" where
  "mb_count F T cur cnt =
     (if cur = 0 then Some cnt else Option.bind (T cur) (\<lambda>x. mb_count F T (mb_nxt F x) (cnt + 1)))"

partial_function (option) mb_turn :: "('t, 'n) membership \<Rightarrow> 't tab \<Rightarrow> u32 \<Rightarrow> u32 \<Rightarrow> ('t tab \<times> u32) option" where
  "mb_turn F T cur lst =
     (if cur = 0 then Some (T, lst)
      else Option.bind (T cur) (\<lambda>x.
           Option.bind (wr cur (mb_set_nxt F lst) T) (\<lambda>T. mb_turn F T (mb_nxt F x) cur)))"

partial_function (option) mb_reprev :: "('t, 'n) membership \<Rightarrow> 't tab \<Rightarrow> u32 \<Rightarrow> u32 \<Rightarrow> 't tab option" where
  "mb_reprev F T cur prev =
     (if cur = 0 then Some T
      else Option.bind (wr cur (mb_set_prv F prev) T) (\<lambda>T.
           Option.bind (T cur) (\<lambda>x. mb_reprev F T (mb_nxt F x) cur)))"

definition mb_reverse :: "('t, 'n) membership \<Rightarrow> u32 \<Rightarrow> 't tab \<Rightarrow> 'n tab \<Rightarrow> ('t tab \<times> 'n tab) option" where
  "mb_reverse F n T N =
     Option.bind (N n) (\<lambda>net.
     Option.bind (mb_turn F T (mb_head F net) 0) (\<lambda>(T, lst).
     Option.bind (mb_reprev F T lst 0) (\<lambda>T.
       map_option (\<lambda>N. (T, N)) (wr n (mb_set_head F lst) N))))"

definition mb_size :: "('t, 'n) membership \<Rightarrow> u32 \<Rightarrow> 't tab \<Rightarrow> 'n tab \<Rightarrow> u32 option" where
  "mb_size F n T N = Option.bind (N n) (\<lambda>net. mb_count F T (mb_head F net) 0)"

definition mb_elems :: "('t, 'n) membership \<Rightarrow> u32 \<Rightarrow> 't tab \<Rightarrow> 'n tab \<Rightarrow> u32 list option" where
  "mb_elems F n T N = Option.bind (N n) (\<lambda>net. mb_iterate F T (mb_head F net))"

section \<open>Doubly linked lists\<close>

text \<open>A terminal's links: its net, the next and the previous terminal.\<close>

type_synonym links = "u32 \<rightharpoonup> u32 \<times> u32 \<times> u32"

fun dll :: "links \<Rightarrow> u32 \<Rightarrow> u32 \<Rightarrow> u32 \<Rightarrow> u32 list \<Rightarrow> bool" where
  "dll v n p cur [] \<longleftrightarrow> cur = 0"
| "dll v n p cur (x # xs) \<longleftrightarrow> cur = x \<and> x \<noteq> 0 \<and> (\<exists>nx. v x = Some (n, nx, p) \<and> dll v n x nx xs)"

lemma dll_cong: "(\<And>x. x \<in> set xs \<Longrightarrow> v x = w x) \<Longrightarrow> dll v n p cur xs = dll w n p cur xs"
  by (induction xs arbitrary: p cur) auto

lemma dll_at:
  "dll v n p cur (xs @ t # ys) \<Longrightarrow> \<exists>nx. v t = Some (n, nx, last (p # xs)) \<and> t \<noteq> 0 \<and> dll v n t nx ys"
  by (induction xs arbitrary: p cur) auto

lemma dll_member: "dll v n p cur xs \<Longrightarrow> x \<in> set xs \<Longrightarrow> x \<noteq> 0 \<and> (\<exists>nx q. v x = Some (n, nx, q))"
  by (induction xs arbitrary: p cur) auto

lemma dll_head: "dll v n p cur xs \<Longrightarrow> cur = (case xs of [] \<Rightarrow> 0 | x # _ \<Rightarrow> x)"
  by (cases xs) auto

text \<open>The links after a terminal with the given neighbours has left, or has come to the front.\<close>

definition links_without :: "u32 \<Rightarrow> u32 \<Rightarrow> u32 \<Rightarrow> links \<Rightarrow> links" where
  "links_without t nx p v = (\<lambda>x.
     if x = t then map_option (\<lambda>(n, a, b). (0, a, b)) (v x)
     else if x = p \<and> p \<noteq> 0 then map_option (\<lambda>(n, a, b). (n, nx, b)) (v x)
     else if x = nx \<and> nx \<noteq> 0 then map_option (\<lambda>(n, a, b). (n, a, p)) (v x)
     else v x)"

definition links_pushed :: "u32 \<Rightarrow> u32 \<Rightarrow> u32 \<Rightarrow> links \<Rightarrow> links" where
  "links_pushed t n h v = (\<lambda>x.
     if x = t then Some (n, h, 0)
     else if x = h \<and> h \<noteq> 0 then map_option (\<lambda>(n, a, b). (n, a, t)) (v x)
     else v x)"

lemma dll_remove:
  assumes "dll v n p cur (xs @ t # ys)" "distinct (xs @ t # ys)" "p \<notin> set (xs @ t # ys)" "v t = Some (m, nx, q)"
  shows "dll (links_without t nx q v) n p (if xs = [] then nx else cur) (xs @ ys)"
  using assms
proof (induction xs arbitrary: p cur)
  case Nil
  then have q: "q = p" and ys: "dll v n t nx ys" by auto
  show ?case
  proof (cases ys)
    case (Cons y ys')
    with ys obtain ny where y: "nx = y" "y \<noteq> 0" "v y = Some (n, ny, t)" "dll v n y ny ys'" by auto
    have "dll (links_without t nx q v) n y ny ys' = dll v n y ny ys'"
      by (rule dll_cong) (use Nil.prems Cons y(1) q in \<open>auto simp: links_without_def\<close>)
    with y Nil.prems Cons q show ?thesis by (auto simp: links_without_def)
  qed (use ys in simp)
next
  case (Cons x xs)
  from Cons.prems obtain nx0 where x: "cur = x" "x \<noteq> 0" "v x = Some (n, nx0, p)" "dll v n x nx0 (xs @ t # ys)"
    by auto
  have rest: "dll (links_without t nx q v) n x (if xs = [] then nx else nx0) (xs @ ys)"
    by (rule Cons.IH) (use Cons.prems x in auto)
  from dll_at [OF x(4)] Cons.prems(4) have q: "q = last (x # xs)" and nx: "dll v n t nx ys" by auto
  have "x \<noteq> nx" using dll_head [OF nx] x(2) Cons.prems(2) by (cases ys) auto
  moreover have "x = q \<longleftrightarrow> xs = []"
    using q Cons.prems(2) last_in_set [of xs] by auto
  moreover have "x \<noteq> t" using Cons.prems(2) by simp
  ultimately show ?case using x rest by (auto simp: links_without_def)
qed

lemma dll_push:
  assumes "dll v n 0 h xs" "t \<noteq> 0" "t \<notin> set xs" "distinct xs" "v t \<noteq> None"
  shows "dll (links_pushed t n h v) n 0 t (t # xs)"
proof (cases xs)
  case (Cons y ys)
  with assms obtain ny where y: "h = y" "y \<noteq> 0" "v y = Some (n, ny, 0)" "dll v n y ny ys" by auto
  have "dll (links_pushed t n h v) n y ny ys = dll v n y ny ys"
    by (rule dll_cong) (use assms Cons y(1) in \<open>auto simp: links_pushed_def\<close>)
  with y assms Cons show ?thesis by (auto simp: links_pushed_def)
qed (use assms in \<open>simp add: links_pushed_def\<close>)

text \<open>
  The invariant: every net's list, from its head, is the list \<open>L n\<close>, and every terminal that
  names a net is in that net's list.
\<close>

definition linked :: "links \<Rightarrow> (u32 \<rightharpoonup> u32) \<Rightarrow> (u32 \<Rightarrow> u32 list) \<Rightarrow> bool" where
  "linked v h L \<longleftrightarrow> v 0 = None \<and> h 0 = None \<and>
     (\<forall>n. case h n of None \<Rightarrow> L n = [] | Some c \<Rightarrow> dll v n 0 c (L n) \<and> distinct (L n)) \<and>
     (\<forall>x n nx p. v x = Some (n, nx, p) \<longrightarrow> n \<noteq> 0 \<longrightarrow> x \<in> set (L n))"

lemma linkedD:
  assumes "linked v h L"
  shows "v 0 = None" "h 0 = None" "h n = None \<Longrightarrow> L n = []" "h n = Some c \<Longrightarrow> dll v n 0 c (L n)"
    "distinct (L n)" "v x = Some (n, nx, p) \<Longrightarrow> n \<noteq> 0 \<Longrightarrow> x \<in> set (L n)"
proof -
  have n: "case h n of None \<Rightarrow> L n = [] | Some c \<Rightarrow> dll v n 0 c (L n) \<and> distinct (L n)"
    using assms by (simp add: linked_def)
  show "v 0 = None" "h 0 = None" "v x = Some (n, nx, p) \<Longrightarrow> n \<noteq> 0 \<Longrightarrow> x \<in> set (L n)"
    using assms unfolding linked_def by blast+
  show "h n = None \<Longrightarrow> L n = []" "h n = Some c \<Longrightarrow> dll v n 0 c (L n)" "distinct (L n)"
    using n by (auto split: option.splits)
qed

lemma linked_member:
  assumes "linked v h L" "x \<in> set (L n)"
  shows "x \<noteq> 0" "\<exists>nx p. v x = Some (n, nx, p)" "n \<noteq> 0" "\<exists>c. h n = Some c"
proof -
  obtain c where c: "h n = Some c" using assms linkedD(3) [OF assms(1), of n] by (cases "h n") auto
  then show "\<exists>c. h n = Some c" by blast
  show "n \<noteq> 0" using c linkedD(2) [OF assms(1)] by auto
  show "x \<noteq> 0" "\<exists>nx p. v x = Some (n, nx, p)"
    using dll_member [OF linkedD(4) [OF assms(1) c] assms(2)] by auto
qed

lemma linked_mem_iff:
  "linked v h L \<Longrightarrow> x \<in> set (L n) \<longleftrightarrow> n \<noteq> 0 \<and> (\<exists>nx p. v x = Some (n, nx, p))"
  using linked_member [of v h L x n] linkedD(6) [of v h L x n] by blast

text \<open>The chain of the next links alone, and replacing a list by another of the same terminals.\<close>

fun sll :: "links \<Rightarrow> u32 \<Rightarrow> u32 \<Rightarrow> u32 list \<Rightarrow> bool" where
  "sll v n cur [] \<longleftrightarrow> cur = 0"
| "sll v n cur (x # xs) \<longleftrightarrow> cur = x \<and> x \<noteq> 0 \<and> (\<exists>nx p. v x = Some (n, nx, p) \<and> sll v n nx xs)"

lemma sll_cong: "(\<And>x. x \<in> set xs \<Longrightarrow> v x = w x) \<Longrightarrow> sll v n cur xs = sll w n cur xs"
  by (induction xs arbitrary: cur) auto

lemma sll_off: "sll v n cur xs \<Longrightarrow> x \<notin> set xs \<Longrightarrow> (\<And>y. y \<noteq> x \<Longrightarrow> w y = v y) \<Longrightarrow> sll w n cur xs"
  by (metis sll_cong)

lemma dll_sll: "dll v n p cur xs \<Longrightarrow> sll v n cur xs"
  by (induction xs arbitrary: p cur) auto

lemma linked_relist:
  assumes "linked v h L" "h n = Some c" "\<And>x. x \<notin> set (L n) \<Longrightarrow> w x = v x" "dll w n 0 d ys"
    "set ys = set (L n)" "distinct ys"
  shows "linked w (h(n \<mapsto> d)) (L(n := ys))"
proof -
  have frame: "dll w m 0 e (L m) = dll v m 0 e (L m)" if "m \<noteq> n" for m e
    by (rule dll_cong, rule assms(3)) (use that linked_mem_iff [OF assms(1)] in auto)
  have each: "case (h(n \<mapsto> d)) m of None \<Rightarrow> (L(n := ys)) m = []
      | Some e \<Rightarrow> dll w m 0 e ((L(n := ys)) m) \<and> distinct ((L(n := ys)) m)" for m
    using frame linkedD(3,4,5) [OF assms(1)] assms(4,6) by (auto split: option.splits)
  have own: "x \<in> set ((L(n := ys)) m)" if "w x = Some (m, nx, p)" "m \<noteq> 0" for x m nx p
  proof (cases "x \<in> set (L n)")
    case True
    then have "x \<in> set ys" by (simp add: assms(5))
    with dll_member [OF assms(4) this] that True assms(5) show ?thesis by auto
  next
    case False
    with that linkedD(6) [OF assms(1), of x m] assms(3) [OF False] show ?thesis by auto
  qed
  have "0 \<notin> set (L n)" using linked_member(1) [OF assms(1)] by blast
  then have "w 0 = None" "(h(n \<mapsto> d)) 0 = None"
    using linkedD(1,2) [OF assms(1)] assms(2,3) by auto
  then show ?thesis using each own unfolding linked_def by blast
qed

text \<open>The links of a terminal on no net do not matter.\<close>

lemma linked_idle:
  assumes "linked v h L" "v t = Some (0, a, b)"
  shows "linked (v(t \<mapsto> (0, c, d))) h L"
proof -
  have t: "t \<notin> set (L m)" for m using linked_mem_iff [OF assms(1)] assms(2) by auto
  have frame: "dll (v(t \<mapsto> (0, c, d))) m p e (L m) = dll v m p e (L m)" for m p e
    by (rule dll_cong) (use t in auto)
  have "(v(t \<mapsto> (0, c, d))) 0 = None" using linkedD(1) [OF assms(1)] assms(2) by auto
  moreover have "x \<in> set (L m)" if "(v(t \<mapsto> (0, c, d))) x = Some (m, nx, p)" "m \<noteq> 0" for x m nx p
    using that linkedD(6) [OF assms(1), of x m nx p] by (auto split: if_splits)
  moreover have "case h m of None \<Rightarrow> L m = [] | Some e \<Rightarrow> dll (v(t \<mapsto> (0, c, d))) m 0 e (L m) \<and> distinct (L m)" for m
    using linkedD(3,4,5) [OF assms(1), of m] by (simp add: frame split: option.split)
  ultimately show ?thesis unfolding linked_def using linkedD(2) [OF assms(1)] by blast
qed

text \<open>The lists are determined by the links.\<close>

lemma dll_unique: "dll v n p cur xs \<Longrightarrow> dll v n p cur ys \<Longrightarrow> xs = ys"
proof (induction xs arbitrary: p cur ys)
  case Nil
  then show ?case by (cases ys) auto
next
  case (Cons x xs)
  then show ?case by (cases ys) auto
qed

lemma linked_unique: "linked v h L \<Longrightarrow> linked v h M \<Longrightarrow> L = M"
proof (rule ext)
  fix n assume l: "linked v h L" "linked v h M"
  show "L n = M n"
    by (cases "h n") (use linkedD(3,4) [OF l(1), of n] linkedD(3,4) [OF l(2), of n] dll_unique in auto)
qed

lemma linked_push:
  assumes "linked v h L" "v t = Some (0, a, b)" "h n = Some c"
  shows "linked (links_pushed t n c v) (h(n \<mapsto> t)) (L(n := t # L n))"
proof -
  have t: "t \<noteq> 0" "t \<notin> set (L m)" for m using linkedD(1) [OF assms(1)] assms(2) linked_mem_iff [OF assms(1)] by auto
  have c: "c = 0 \<or> c \<in> set (L n)" using dll_head [OF linkedD(4) [OF assms(1,3)]] by (auto split: list.splits)
  have frame: "dll (links_pushed t n c v) m 0 d (L m) = dll v m 0 d (L m)" if "m \<noteq> n" for m d
    by (rule dll_cong) (use that t(2) c linked_mem_iff [OF assms(1)] in \<open>auto simp: links_pushed_def\<close>)
  have own: "x \<in> set ((L(n := t # L n)) m)" if "links_pushed t n c v x = Some (m, nx, p)" "m \<noteq> 0" for x m nx p
    using that linkedD(6) [OF assms(1), of x m] by (auto simp: links_pushed_def split: if_splits)
  have each: "case (h(n \<mapsto> t)) m of None \<Rightarrow> (L(n := t # L n)) m = []
      | Some d \<Rightarrow> dll (links_pushed t n c v) m 0 d ((L(n := t # L n)) m) \<and> distinct ((L(n := t # L n)) m)" for m
  proof (cases "m = n")
    case True
    then show ?thesis
      using dll_push [OF linkedD(4) [OF assms(1,3)] t linkedD(5) [OF assms(1)]] assms(2) t(2) linkedD(5) [OF assms(1)] by auto
  next
    case False
    then show ?thesis using frame linkedD(3,4,5) [OF assms(1)] by (auto split: option.splits)
  qed
  have "links_pushed t n c v 0 = None" "(h(n \<mapsto> t)) 0 = None"
    using t(1) linkedD(1,2) [OF assms(1)] assms(3) by (auto simp: links_pushed_def)
  then show ?thesis using each own unfolding linked_def by blast
qed

lemma linked_without:
  assumes "linked v h L" "v t = Some (n, nx, p)" "n \<noteq> 0" "h n = Some c"
  shows "linked (links_without t nx p v) (if c = t then h(n \<mapsto> nx) else h) (L(n := remove1 t (L n)))"
    (is "linked ?v ?h ?L")
proof -
  have mem: "t \<in> set (L n)" using linkedD(6) [OF assms(1,2,3)] .
  then obtain xs ys where split: "L n = xs @ t # ys" by (auto simp: in_set_conv_decomp)
  have dist: "distinct (xs @ t # ys)" using linkedD(5) [OF assms(1), of n] split by simp
  have d: "dll v n 0 c (xs @ t # ys)" using linkedD(4) [OF assms(1,4)] split by simp
  have z: "0 \<notin> set (L m)" for m using linked_member(1) [OF assms(1)] by blast
  have rem: "remove1 t (L n) = xs @ ys" using split dist by (simp add: remove1_append)
  have nbs: "p = last (0 # xs)" "dll v n t nx ys" using dll_at [OF d] assms(2) by auto
  have nb: "p = 0 \<or> p \<in> set (L n)" "nx = 0 \<or> nx \<in> set (L n)"
    using nbs(1) last_in_set [of xs] split dll_head [OF nbs(2)] by (auto split: list.splits)
  have hd: "c = t \<longleftrightarrow> xs = []" using dll_head [OF d] dist by (cases xs) auto
  have frame: "dll ?v m 0 e (L m) = dll v m 0 e (L m)" if "m \<noteq> n" for m e
    by (rule dll_cong) (use that nb mem linked_mem_iff [OF assms(1)] in \<open>auto simp: links_without_def\<close>)
  have "dll ?v n 0 (if xs = [] then nx else c) (xs @ ys)"
    by (rule dll_remove [OF d dist _ assms(2)]) (use z [of n] split in simp)
  then have at: "?h n = Some (if c = t then nx else c) \<and> dll ?v n 0 (if c = t then nx else c) (?L n) \<and> distinct (?L n)"
    using hd rem dist assms(4) by (auto split: if_splits)
  have each: "case ?h m of None \<Rightarrow> ?L m = [] | Some d \<Rightarrow> dll ?v m 0 d (?L m) \<and> distinct (?L m)" for m
  proof (cases "m = n")
    case False
    then have "?h m = h m" by simp
    then show ?thesis using False frame linkedD(3,4,5) [OF assms(1)] by (auto split: option.splits)
  qed (use at in simp)
  have own: "x \<in> set (?L m)" if "?v x = Some (m, a, b)" "m \<noteq> 0" for x m a b
  proof -
    have "x \<noteq> t" using that assms(2) by (auto simp: links_without_def)
    moreover have "\<exists>a b. v x = Some (m, a, b)" using that by (auto simp: links_without_def split: if_splits)
    ultimately show ?thesis using linkedD(6) [OF assms(1)] that(2) by auto
  qed
  have "?v 0 = None" "?h 0 = None"
    using linkedD(1,2) [OF assms(1)] assms(2,3,4) by (auto simp: links_without_def)
  then show ?thesis using each own unfolding linked_def by blast
qed

section \<open>What the operations do to the links\<close>

definition proj :: "('a \<Rightarrow> 'b) \<Rightarrow> 'a tab \<Rightarrow> (u32 \<rightharpoonup> 'b)" where
  "proj f T = (\<lambda>i. map_option f (T i))"

definition links_of :: "('t, 'n) membership \<Rightarrow> 't tab \<Rightarrow> links" where
  "links_of F = proj (\<lambda>x. (mb_own F x, mb_nxt F x, mb_prv F x))"

definition heads_of :: "('t, 'n) membership \<Rightarrow> 'n tab \<Rightarrow> (u32 \<rightharpoonup> u32)" where
  "heads_of F = proj (mb_head F)"

lemma linked_alone:
  "linked (links_of F T) h L \<Longrightarrow> T t = Some tm \<Longrightarrow> (\<And>m. t \<notin> set (L m)) \<Longrightarrow> mb_own F tm = 0"
  using linkedD(6) [of "links_of F T" h L t "mb_own F tm" "mb_nxt F tm" "mb_prv F tm"]
  by (auto simp: links_of_def proj_def)

lemma linked_owner:
  assumes "linked (links_of F T) h L" "T t = Some tm" "t \<in> set (L n)"
  shows "mb_own F tm = n" "mb_own F tm \<noteq> 0"
  using linked_member(2,3) [OF assms(1,3)] assms(2) by (auto simp: links_of_def proj_def)

lemma linked_own:
  "linked (links_of F T) h L \<Longrightarrow> T t = Some tm \<Longrightarrow> mb_own F tm \<noteq> 0 \<Longrightarrow> t \<in> set (L (mb_own F tm))"
  using linkedD(6) [of "links_of F T" h L t "mb_own F tm"] by (auto simp: links_of_def proj_def)

lemma linked_own_iff:
  "linked (links_of F T) h L \<Longrightarrow> T t = Some tm \<Longrightarrow> mb_own F tm = 0 \<longleftrightarrow> (\<forall>m. t \<notin> set (L m))"
  using linked_own linked_owner(2) by metis

lemma linked_net:
  "linked (links_of F T) (heads_of F N) L \<Longrightarrow> T t = Some tm \<Longrightarrow> mb_own F tm \<noteq> 0 \<Longrightarrow> \<exists>x. N (mb_own F tm) = Some x"
  using linked_own [of F T "heads_of F N" L t tm] linked_member(4) [of "links_of F T" "heads_of F N" L t "mb_own F tm"]
  by (auto simp: heads_of_def proj_def)

lemma wr_Some: "wr i f T = Some T' \<longleftrightarrow> (\<exists>x. T i = Some x \<and> T' = T(i \<mapsto> f x))"
  by (auto simp: wr_def)

lemma wr_at [simp]: "T i = Some x \<Longrightarrow> wr i f T = Some (T(i \<mapsto> f x))"
  by (simp add: wr_def)

text \<open>What an operation on one list leaves alone: every aspect its fields do not touch.\<close>

definition keeps :: "('t \<Rightarrow> 'a) \<Rightarrow> ('t, 'n) membership \<Rightarrow> bool" where
  "keeps P F \<longleftrightarrow> (\<forall>v x. P (mb_set_own F v x) = P x \<and> P (mb_set_nxt F v x) = P x \<and> P (mb_set_prv F v x) = P x)"

definition keeps_head :: "('n \<Rightarrow> 'a) \<Rightarrow> ('t, 'n) membership \<Rightarrow> bool" where
  "keeps_head Q F \<longleftrightarrow> (\<forall>v x. Q (mb_set_head F v x) = Q x)"

lemma proj_wr: "wr i f T = Some T' \<Longrightarrow> (\<And>x. P (f x) = P x) \<Longrightarrow> proj P T' = proj P T"
  by (auto simp: wr_Some proj_def fun_eq_iff)

lemma keeps_wr:
  assumes "keeps P F"
  shows "wr i (mb_set_own F v) T = Some T' \<Longrightarrow> proj P T' = proj P T"
    "wr i (mb_set_nxt F v) T = Some T' \<Longrightarrow> proj P T' = proj P T"
    "wr i (mb_set_prv F v) T = Some T' \<Longrightarrow> proj P T' = proj P T"
  using assms by (auto elim!: proj_wr simp: keeps_def)

lemma keeps_head_wr: "keeps_head Q F \<Longrightarrow> wr i (mb_set_head F v) N = Some N' \<Longrightarrow> proj Q N' = proj Q N"
  by (auto elim!: proj_wr simp: keeps_head_def)

lemmas op_splits = Option.bind_eq_Some_conv map_option_eq_Some

lemma push_front_keeps:
  assumes "push_front F t n T N = Some (T', N')"
  shows "keeps P F \<Longrightarrow> proj P T' = proj P T" "keeps_head Q F \<Longrightarrow> proj Q N' = proj Q N"
proof -
  assume k: "keeps P F"
  show "proj P T' = proj P T" using assms
    by (auto simp: push_front_def op_splits simp del: wr_at split: if_splits dest!: keeps_wr [OF k])
next
  assume k: "keeps_head Q F"
  show "proj Q N' = proj Q N" using assms
    by (auto simp: push_front_def op_splits simp del: wr_at split: if_splits dest!: keeps_head_wr [OF k])
qed

lemma unlink_keeps:
  assumes "unlink F t T N = Some (T', N')"
  shows "keeps P F \<Longrightarrow> proj P T' = proj P T" "keeps_head Q F \<Longrightarrow> proj Q N' = proj Q N"
proof -
  assume k: "keeps P F"
  show "proj P T' = proj P T" using assms
    by (auto simp: unlink_def op_splits simp del: wr_at split: if_splits dest!: keeps_wr [OF k])
next
  assume k: "keeps_head Q F"
  show "proj Q N' = proj Q N" using assms
    by (auto simp: unlink_def op_splits simp del: wr_at split: if_splits dest!: keeps_head_wr [OF k])
qed

lemma unlink_mod_keeps:
  assumes "unlink_mod F t T N = Some (T', N')"
  shows "keeps P F \<Longrightarrow> proj P T' = proj P T" "keeps_head Q F \<Longrightarrow> proj Q N' = proj Q N"
proof -
  assume k: "keeps P F"
  show "proj P T' = proj P T" using assms
    by (auto simp: unlink_mod_def op_splits simp del: wr_at split: if_splits dest!: keeps_wr [OF k])
next
  assume k: "keeps_head Q F"
  show "proj Q N' = proj Q N" using assms
    by (auto simp: unlink_mod_def op_splits simp del: wr_at split: if_splits dest!: keeps_head_wr [OF k])
qed

lemma mb_turn_keeps:
  assumes "keeps P F" "mb_turn F T cur lst = Some r"
  shows "proj P (fst r) = proj P T"
proof -
  have "keeps P F \<longrightarrow> proj P (fst r) = proj P T"
  proof (rule mb_turn.raw_induct [where P = "\<lambda>F T cur lst r. keeps P F \<longrightarrow> proj P (fst r) = proj P T", OF _ assms(2)])
    fix f F T cur lst r
    assume IH: "\<And>F T cur lst r. f F T cur lst = Some r \<Longrightarrow> keeps P F \<longrightarrow> proj P (fst r) = proj P T"
      and step: "(if cur = 0 then Some (T, lst)
        else Option.bind (T cur) (\<lambda>x. Option.bind (wr cur (mb_set_nxt F lst) T) (\<lambda>T. f F T (mb_nxt F x) cur))) = Some r"
    show "keeps P F \<longrightarrow> proj P (fst r) = proj P T"
    proof
      assume k: "keeps P F"
      show "proj P (fst r) = proj P T"
        using step by (auto simp: op_splits simp del: wr_at split: if_splits dest!: keeps_wr [OF k] IH [rule_format, OF _ k])
    qed
  qed
  with assms(1) show ?thesis by simp
qed

lemma mb_reprev_keeps:
  assumes "keeps P F" "mb_reprev F T cur q = Some T'"
  shows "proj P T' = proj P T"
proof -
  have "keeps P F \<longrightarrow> proj P T' = proj P T"
  proof (rule mb_reprev.raw_induct [where P = "\<lambda>F T cur q T'. keeps P F \<longrightarrow> proj P T' = proj P T", OF _ assms(2)])
    fix f F T cur q T'
    assume IH: "\<And>F T cur q T'. f F T cur q = Some T' \<Longrightarrow> keeps P F \<longrightarrow> proj P T' = proj P T"
      and step: "(if cur = 0 then Some T
        else Option.bind (wr cur (mb_set_prv F q) T) (\<lambda>T. Option.bind (T cur) (\<lambda>x. f F T (mb_nxt F x) cur))) = Some T'"
    show "keeps P F \<longrightarrow> proj P T' = proj P T"
    proof
      assume k: "keeps P F"
      show "proj P T' = proj P T"
        using step by (auto simp: op_splits simp del: wr_at split: if_splits dest!: keeps_wr [OF k] IH [rule_format, OF _ k])
    qed
  qed
  with assms(1) show ?thesis by simp
qed

lemma mb_reverse_keeps:
  assumes "mb_reverse F n T N = Some (T', N')"
  shows "keeps P F \<Longrightarrow> proj P T' = proj P T" "keeps_head Q F \<Longrightarrow> proj Q N' = proj Q N"
proof -
  assume k: "keeps P F"
  show "proj P T' = proj P T" using assms
    by (auto simp: mb_reverse_def op_splits simp del: wr_at dest!: mb_turn_keeps [OF k] mb_reprev_keeps [OF k])
next
  assume k: "keeps_head Q F"
  show "proj Q N' = proj Q N" using assms
    by (auto simp: mb_reverse_def op_splits simp del: wr_at dest!: keeps_head_wr [OF k])
qed

text \<open>All lists without a terminal, which is in at most one of them.\<close>

definition off :: "u32 \<Rightarrow> (u32 \<Rightarrow> u32 list) \<Rightarrow> u32 \<Rightarrow> u32 list" where
  "off t L = (\<lambda>m. remove1 t (L m))"

lemma off_alone: "(\<And>m. t \<notin> set (L m)) \<Longrightarrow> off t L = L"
  by (simp add: off_def remove1_idem fun_eq_iff)

lemma off_notin: "linked v h L \<Longrightarrow> t \<notin> set (off t L m)"
  using linkedD(5) [of v h L m] by (simp add: off_def)

lemma off_owner:
  assumes "linked v h L" "t \<in> set (L n)"
  shows "L(n := remove1 t (L n)) = off t L"
proof (rule ext)
  fix m
  have "t \<notin> set (L m)" if "m \<noteq> n" using linked_mem_iff [OF assms(1)] assms(2) that by auto
  then show "(L(n := remove1 t (L n))) m = off t L m" by (auto simp: off_def remove1_idem)
qed

definition joined :: "u32 \<Rightarrow> u32 \<Rightarrow> (u32 \<Rightarrow> u32 list) \<Rightarrow> u32 \<Rightarrow> u32 list" where
  "joined t n L = (off t L)(n := t # off t L n)"

text \<open>The interface: the fields are independent of each other.\<close>

locale term_list =
  fixes F :: "('t, 'n) membership"
  assumes own_set [simp]: "mb_own F (mb_set_own F v x) = v" "mb_own F (mb_set_nxt F v x) = mb_own F x"
      "mb_own F (mb_set_prv F v x) = mb_own F x"
    and nxt_set [simp]: "mb_nxt F (mb_set_own F v x) = mb_nxt F x" "mb_nxt F (mb_set_nxt F v x) = v"
      "mb_nxt F (mb_set_prv F v x) = mb_nxt F x"
    and prv_set [simp]: "mb_prv F (mb_set_own F v x) = mb_prv F x" "mb_prv F (mb_set_nxt F v x) = mb_prv F x"
      "mb_prv F (mb_set_prv F v x) = v"
    and head_set [simp]: "mb_head F (mb_set_head F v y) = v"
begin

lemma push_front_links:
  assumes "T t = Some tm" "N n = Some net" "mb_head F net \<noteq> t"
    "mb_head F net \<noteq> 0 \<Longrightarrow> \<exists>x. T (mb_head F net) = Some x"
  shows "\<exists>T' N'. push_front F t n T N = Some (T', N') \<and>
    links_of F T' = links_pushed t n (mb_head F net) (links_of F T) \<and> heads_of F N' = (heads_of F N)(n \<mapsto> t)"
proof (cases "mb_head F net = 0")
  case True
  with assms(1-3) show ?thesis
    by (simp add: push_front_def) (auto simp: links_of_def heads_of_def proj_def links_pushed_def)
next
  case False
  with assms obtain x where "T (mb_head F net) = Some x" by blast
  with False assms(1-3) show ?thesis
    by (simp add: push_front_def) (auto simp: links_of_def heads_of_def proj_def links_pushed_def fun_eq_iff)
qed

lemma push_front_clear_eq:
  assumes "N n = Some net" "mb_head F net \<noteq> t"
  shows "push_front_clear F t n T N = push_front F t n T N"
  using assms by (cases "T t"; cases "T (mb_head F net)")
    (auto simp: push_front_def push_front_clear_def wr_def fun_upd_twist)

lemma push_front_ok:
  assumes "linked (links_of F T) (heads_of F N) L" "T t = Some tm" "mb_own F tm = 0" "N n = Some net"
  shows "\<exists>T' N'. push_front F t n T N = Some (T', N') \<and> push_front_clear F t n T N = Some (T', N') \<and>
    linked (links_of F T') (heads_of F N') (L(n := t # L n))"
proof -
  have t: "links_of F T t = Some (0, mb_nxt F tm, mb_prv F tm)" using assms(2,3) by (simp add: links_of_def proj_def)
  have h: "heads_of F N n = Some (mb_head F net)" using assms(4) by (simp add: heads_of_def proj_def)
  have hd: "mb_head F net = 0 \<or> mb_head F net \<in> set (L n)"
    using dll_head [OF linkedD(4) [OF assms(1) h]] by (auto split: list.splits)
  have "mb_head F net \<noteq> t" "mb_head F net \<noteq> 0 \<Longrightarrow> \<exists>x. T (mb_head F net) = Some x"
    using hd t linkedD(1) [OF assms(1)] linked_mem_iff [OF assms(1)] by (auto simp: links_of_def proj_def)
  from push_front_links [where T = T and N = N, OF assms(2,4) this] push_front_clear_eq [where N = N, OF assms(4) this(1)]
    linked_push [OF assms(1) t h]
  show ?thesis by fastforce
qed

lemma unlink_links:
  assumes "T t = Some tm" "N (mb_own F tm) = Some net"
    and "mb_nxt F tm \<noteq> 0 \<Longrightarrow> \<exists>x. T (mb_nxt F tm) = Some x" "mb_prv F tm \<noteq> 0 \<Longrightarrow> \<exists>x. T (mb_prv F tm) = Some x"
    and "mb_nxt F tm \<noteq> t" "mb_prv F tm \<noteq> t" "mb_nxt F tm \<noteq> 0 \<Longrightarrow> mb_nxt F tm \<noteq> mb_prv F tm"
    and "mb_head F net = t \<longleftrightarrow> mb_prv F tm = 0"
  shows "\<exists>T' N'. unlink F t T N = Some (T', N') \<and> unlink_mod F t T N = Some (T', N') \<and>
    links_of F T' = links_without t (mb_nxt F tm) (mb_prv F tm) (links_of F T) \<and>
    heads_of F N' = (if mb_head F net = t then (heads_of F N)(mb_own F tm \<mapsto> mb_nxt F tm) else heads_of F N)"
proof (cases "mb_head F net = t")
  case True
  show ?thesis
  proof (cases "mb_nxt F tm = 0")
    case False
    then obtain y where "T (mb_nxt F tm) = Some y" using assms(3) by blast
    with True False assms(1,2,5,8) show ?thesis
      by (simp add: unlink_def unlink_mod_def)
        (auto simp: links_of_def heads_of_def proj_def links_without_def fun_eq_iff)
  qed (use True assms(1,2,8) in \<open>simp add: unlink_def unlink_mod_def,
    auto simp: links_of_def heads_of_def proj_def links_without_def fun_eq_iff\<close>)
next
  case head: False
  with assms(4,8) obtain p where p: "mb_prv F tm \<noteq> 0" "T (mb_prv F tm) = Some p" by auto
  show ?thesis
  proof (cases "mb_nxt F tm = 0")
    case False
    then obtain y where "T (mb_nxt F tm) = Some y" using assms(3) by blast
    with head p False assms(1,2,5-7) show ?thesis
      by (simp add: unlink_def unlink_mod_def)
        (auto simp: links_of_def heads_of_def proj_def links_without_def fun_eq_iff)
  qed (use head p assms(1,2,6) in \<open>simp add: unlink_def unlink_mod_def,
    auto simp: links_of_def heads_of_def proj_def links_without_def fun_eq_iff\<close>)
qed

lemma unlink_ok:
  assumes "linked (links_of F T) (heads_of F N) L" "T t = Some tm" "mb_own F tm \<noteq> 0"
  shows "\<exists>T' N'. unlink F t T N = Some (T', N') \<and> unlink_mod F t T N = Some (T', N') \<and>
    linked (links_of F T') (heads_of F N') (L(mb_own F tm := remove1 t (L (mb_own F tm))))"
proof -
  let ?n = "mb_own F tm"
  have t: "links_of F T t = Some (?n, mb_nxt F tm, mb_prv F tm)" using assms(2) by (simp add: links_of_def proj_def)
  have mem: "t \<in> set (L ?n)" using linkedD(6) [OF assms(1) t assms(3)] .
  obtain net where net: "N ?n = Some net" using linked_member(4) [OF assms(1) mem] by (auto simp: heads_of_def proj_def)
  have h: "heads_of F N ?n = Some (mb_head F net)" using net by (simp add: heads_of_def proj_def)
  obtain xs ys where split: "L ?n = xs @ t # ys" using mem by (auto simp: in_set_conv_decomp)
  have dist: "distinct (xs @ t # ys)" using linkedD(5) [OF assms(1), of ?n] split by simp
  have d: "dll (links_of F T) ?n 0 (mb_head F net) (xs @ t # ys)" using linkedD(4) [OF assms(1) h] split by simp
  have nbs: "mb_prv F tm = last (0 # xs)" "dll (links_of F T) ?n t (mb_nxt F tm) ys" "t \<noteq> 0"
    using dll_at [OF d] t by auto
  have p: "mb_prv F tm = 0 \<and> xs = [] \<or> mb_prv F tm \<in> set xs" using nbs(1) last_in_set [of xs] by auto
  have nx: "mb_nxt F tm = 0 \<and> ys = [] \<or> mb_nxt F tm \<in> set ys" using dll_head [OF nbs(2)] by (auto split: list.splits)
  have in_T: "\<exists>x. T y = Some x" if "y \<in> set xs \<union> set ys" for y
    using that linked_member(2) [OF assms(1), of y ?n] split by (auto simp: links_of_def proj_def)
  have z: "0 \<notin> set xs" using linked_member(1) [OF assms(1), of 0 ?n] split by auto
  have hd: "mb_head F net = t \<longleftrightarrow> mb_prv F tm = 0"
    using dll_head [OF d] dist p z by (cases xs) auto
  have "\<exists>T' N'. unlink F t T N = Some (T', N') \<and> unlink_mod F t T N = Some (T', N') \<and>
    links_of F T' = links_without t (mb_nxt F tm) (mb_prv F tm) (links_of F T) \<and>
    heads_of F N' = (if mb_head F net = t then (heads_of F N)(?n \<mapsto> mb_nxt F tm) else heads_of F N)"
  proof (rule unlink_links [where T = T and N = N, OF assms(2) net])
    show "mb_nxt F tm \<noteq> 0 \<Longrightarrow> \<exists>x. T (mb_nxt F tm) = Some x" by (rule in_T) (use nx in blast)
    show "mb_prv F tm \<noteq> 0 \<Longrightarrow> \<exists>x. T (mb_prv F tm) = Some x" by (rule in_T) (use p in blast)
    show "mb_nxt F tm \<noteq> t" "mb_prv F tm \<noteq> t" "mb_nxt F tm \<noteq> 0 \<Longrightarrow> mb_nxt F tm \<noteq> mb_prv F tm"
      using p nx dist nbs(3) by auto
  qed (rule hd)
  then obtain T' N' where r: "unlink F t T N = Some (T', N')" "unlink_mod F t T N = Some (T', N')"
    "links_of F T' = links_without t (mb_nxt F tm) (mb_prv F tm) (links_of F T)"
    "heads_of F N' = (if mb_head F net = t then (heads_of F N)(?n \<mapsto> mb_nxt F tm) else heads_of F N)" by blast
  have "linked (links_of F T') (heads_of F N') (L(?n := remove1 t (L ?n)))"
    unfolding r(3,4) by (rule linked_without [OF assms(1) t assms(3) h])
  with r(1,2) show ?thesis by blast
qed

text \<open>Iteration: the list's terminals in order, their number, and the reversal of the list.\<close>

lemma mb_iterate_ok: "dll (links_of F T) n p cur xs \<Longrightarrow> mb_iterate F T cur = Some xs"
proof (induction xs arbitrary: p cur)
  case (Cons x xs)
  then obtain tm where "T x = Some tm" "dll (links_of F T) n x (mb_nxt F tm) xs" "cur = x" "x \<noteq> 0"
    by (auto simp: links_of_def proj_def)
  with Cons.IH show ?case by (subst mb_iterate.simps) auto
qed (subst mb_iterate.simps, simp)

lemma mb_count_ok: "dll (links_of F T) n p cur xs \<Longrightarrow> mb_count F T cur c = Some (c + of_nat (length xs))"
proof (induction xs arbitrary: p cur c)
  case (Cons x xs)
  then obtain tm where "T x = Some tm" "dll (links_of F T) n x (mb_nxt F tm) xs" "cur = x" "x \<noteq> 0"
    by (auto simp: links_of_def proj_def)
  with Cons.IH [of x "mb_nxt F tm" "c + 1"] show ?case by (subst mb_count.simps) (simp add: add.assoc)
qed (subst mb_count.simps, simp)

lemma elems_ok:
  assumes "linked (links_of F T) (heads_of F N) L" "N n = Some net"
  shows "mb_elems F n T N = Some (L n)" "mb_size F n T N = Some (of_nat (length (L n)))"
proof -
  have h: "heads_of F N n = Some (mb_head F net)" using assms(2) by (simp add: heads_of_def proj_def)
  from linkedD(4) [OF assms(1) h] show "mb_elems F n T N = Some (L n)" "mb_size F n T N = Some (of_nat (length (L n)))"
    using mb_iterate_ok mb_count_ok by (auto simp: mb_elems_def mb_size_def assms(2))
qed

lemma mb_turn_ok:
  assumes "sll (links_of F T) n cur xs" "sll (links_of F T) n lst ys" "distinct (xs @ ys)"
  shows "\<exists>T' l. mb_turn F T cur lst = Some (T', l) \<and> sll (links_of F T') n l (rev xs @ ys) \<and>
    (\<forall>x. x \<notin> set xs \<longrightarrow> links_of F T' x = links_of F T x)"
  using assms
proof (induction xs arbitrary: T cur lst ys)
  case Nil
  then show ?case by (subst mb_turn.simps) auto
next
  case (Cons x xs)
  then obtain tm where x: "T x = Some tm" "sll (links_of F T) n (mb_nxt F tm) xs" "cur = x" "x \<noteq> 0" "mb_own F tm = n"
    by (auto simp: links_of_def proj_def)
  let ?T = "T(x \<mapsto> mb_set_nxt F lst tm)"
  have off: "links_of F ?T y = links_of F T y" if "y \<noteq> x" for y using that by (simp add: links_of_def proj_def)
  have "sll (links_of F ?T) n (mb_nxt F tm) xs" by (rule sll_off [where x = x, OF x(2) _ off]) (use Cons.prems(3) in auto)
  moreover have "sll (links_of F ?T) n lst ys" by (rule sll_off [where x = x, OF Cons.prems(2) _ off]) (use Cons.prems(3) in auto)
  then have "sll (links_of F ?T) n x (x # ys)" using x by (simp add: links_of_def proj_def)
  moreover have "distinct (xs @ x # ys)" using Cons.prems(3) by auto
  ultimately obtain T' l where r: "mb_turn F ?T (mb_nxt F tm) x = Some (T', l)" "sll (links_of F T') n l (rev xs @ x # ys)"
      "\<forall>y. y \<notin> set xs \<longrightarrow> links_of F T' y = links_of F ?T y" using Cons.IH by blast
  have "mb_turn F T cur lst = Some (T', l)" using x r(1) by (subst mb_turn.simps) simp
  moreover have "\<forall>y. y \<notin> set (x # xs) \<longrightarrow> links_of F T' y = links_of F T y" using r(3) off by simp
  ultimately show ?case using r(2) by simp
qed

lemma mb_reprev_ok:
  assumes "sll (links_of F T) n cur xs" "distinct xs"
  shows "\<exists>T'. mb_reprev F T cur p = Some T' \<and> dll (links_of F T') n p cur xs \<and>
    (\<forall>x. x \<notin> set xs \<longrightarrow> links_of F T' x = links_of F T x)"
  using assms
proof (induction xs arbitrary: T cur p)
  case Nil
  then show ?case by (subst mb_reprev.simps) auto
next
  case (Cons x xs)
  then obtain tm where x: "T x = Some tm" "sll (links_of F T) n (mb_nxt F tm) xs" "cur = x" "x \<noteq> 0" "mb_own F tm = n"
    by (auto simp: links_of_def proj_def)
  let ?T = "T(x \<mapsto> mb_set_prv F p tm)"
  have off: "links_of F ?T y = links_of F T y" if "y \<noteq> x" for y using that by (simp add: links_of_def proj_def)
  have "sll (links_of F ?T) n (mb_nxt F tm) xs" by (rule sll_off [where x = x, OF x(2) _ off]) (use Cons.prems(2) in auto)
  then obtain T' where r: "mb_reprev F ?T (mb_nxt F tm) x = Some T'" "dll (links_of F T') n x (mb_nxt F tm) xs"
      "\<forall>y. y \<notin> set xs \<longrightarrow> links_of F T' y = links_of F ?T y" using Cons.IH Cons.prems(2) by force
  have "mb_reprev F T cur p = Some T'" using x r(1) by (subst mb_reprev.simps) simp
  moreover have "\<forall>y. y \<notin> set (x # xs) \<longrightarrow> links_of F T' y = links_of F T y" using r(3) off by simp
  moreover have "links_of F T' x = Some (n, mb_nxt F tm, p)"
    using r(3) Cons.prems(2) x(5) by (simp add: links_of_def proj_def)
  ultimately show ?case using r(2) x(3,4) by simp
qed

lemma mb_reverse_ok:
  assumes "linked (links_of F T) (heads_of F N) L" "N n = Some net"
  shows "\<exists>T' N'. mb_reverse F n T N = Some (T', N') \<and> linked (links_of F T') (heads_of F N') (L(n := rev (L n)))"
proof -
  have h: "heads_of F N n = Some (mb_head F net)" using assms(2) by (simp add: heads_of_def proj_def)
  note d = linkedD(4) [OF assms(1) h] linkedD(5) [OF assms(1), of n]
  have "sll (links_of F T) n (mb_head F net) (L n)" using d(1) by (rule dll_sll)
  then obtain T1 l where t: "mb_turn F T (mb_head F net) 0 = Some (T1, l)" "sll (links_of F T1) n l (rev (L n))"
      "\<forall>x. x \<notin> set (L n) \<longrightarrow> links_of F T1 x = links_of F T x"
    using mb_turn_ok [of T n "mb_head F net" "L n" 0 "[]"] d(2) by auto
  obtain T2 where p: "mb_reprev F T1 l 0 = Some T2" "dll (links_of F T2) n 0 l (rev (L n))"
      "\<forall>x. x \<notin> set (rev (L n)) \<longrightarrow> links_of F T2 x = links_of F T1 x"
    using mb_reprev_ok [OF t(2)] d(2) by auto
  have "linked (links_of F T2) ((heads_of F N)(n \<mapsto> l)) (L(n := rev (L n)))"
    by (rule linked_relist [OF assms(1) h _ p(2)]) (use t(3) p(3) d(2) in auto)
  moreover have "heads_of F (N(n \<mapsto> mb_set_head F l net)) = (heads_of F N)(n \<mapsto> l)"
    by (auto simp: heads_of_def proj_def)
  ultimately show ?thesis using t(1) p(1) by (auto simp: mb_reverse_def assms(2))
qed

end

end
