(* ===== verification/OdbNetlist.thy ===== *)
theory OdbNetlist imports OdbMembership OdbJournal begin

text \<open>
  The connections of a block: instance terminals (\<open>dbITerm.cpp\<close>) and block terminals
  (\<open>dbBTerm.cpp\<close>) on flat nets (\<open>dbNet.cpp\<close>) and on the nets of the hierarchy
  (\<open>dbModNet.cpp\<close>), the terminals of module instances and of modules (\<open>dbModITerm.cpp\<close>,
  \<open>dbModBTerm.cpp\<close>) on the latter, and the iterators over all of them.

  Every operation is modelled with the errors it raises, the notifications to the callbacks of
  the block and the action it writes into the journal.  An error carries the state in which it
  leaves the block, since the exception is raised in the middle of the operation.

  Shown are the lists each operation leaves, that they stay consistent with the terminals under
  all operations in any order, and where the program breaks them.
\<close>

section \<open>State\<close>

record ninst =
  ni_dont_touch :: bool

record iterm =
  it_inst :: u32
  it_net :: u32
  it_mnet :: u32
  it_next_net :: u32
  it_prev_net :: u32
  it_next_mnet :: u32
  it_prev_mnet :: u32

record bterm =
  bt_net :: u32
  bt_mnet :: u32
  bt_next :: u32
  bt_prev :: u32
  bt_next_mnet :: u32
  bt_prev_mnet :: u32

record net =
  nt_dont_touch :: bool
  nt_iterms :: u32
  nt_bterms :: u32

record modnet =
  mn_moditerms :: u32
  mn_modbterms :: u32
  mn_iterms :: u32
  mn_bterms :: u32

record moditerm =
  mi_net :: u32
  mi_next :: u32
  mi_prev :: u32

record modbterm =
  mb_net :: u32
  mb_next :: u32
  mb_prev :: u32

datatype net_event =
    ItermPreConnect u32 u32
  | ItermPostConnect u32
  | ItermPreDisconnect u32
  | ItermPostDisconnect u32 u32
  | BtermPreConnect u32 u32
  | BtermPostConnect u32
  | BtermPreDisconnect u32
  | BtermPostDisconnect u32 u32
  | NetPreMerge u32 u32

record netlist =
  nl_insts :: "ninst tab"
  nl_iterms :: "iterm tab"
  nl_bterms :: "bterm tab"
  nl_nets :: "net tab"
  nl_modnets :: "modnet tab"
  nl_moditerms :: "moditerm tab"
  nl_modbterms :: "modbterm tab"
  nl_journal :: "journal option"
  nl_pending :: "journal option"
  nl_events :: "net_event list"

text \<open>The six lists.\<close>

definition iterm_net :: "(iterm, net) membership" where
  "iterm_net = \<lparr>mb_own = it_net, mb_nxt = it_next_net, mb_prv = it_prev_net, mb_head = nt_iterms,
     mb_set_own = (\<lambda>v x. x\<lparr>it_net := v\<rparr>), mb_set_nxt = (\<lambda>v x. x\<lparr>it_next_net := v\<rparr>),
     mb_set_prv = (\<lambda>v x. x\<lparr>it_prev_net := v\<rparr>), mb_set_head = (\<lambda>v x. x\<lparr>nt_iterms := v\<rparr>)\<rparr>"

definition iterm_mnet :: "(iterm, modnet) membership" where
  "iterm_mnet = \<lparr>mb_own = it_mnet, mb_nxt = it_next_mnet, mb_prv = it_prev_mnet, mb_head = mn_iterms,
     mb_set_own = (\<lambda>v x. x\<lparr>it_mnet := v\<rparr>), mb_set_nxt = (\<lambda>v x. x\<lparr>it_next_mnet := v\<rparr>),
     mb_set_prv = (\<lambda>v x. x\<lparr>it_prev_mnet := v\<rparr>), mb_set_head = (\<lambda>v x. x\<lparr>mn_iterms := v\<rparr>)\<rparr>"

definition bterm_net :: "(bterm, net) membership" where
  "bterm_net = \<lparr>mb_own = bt_net, mb_nxt = bt_next, mb_prv = bt_prev, mb_head = nt_bterms,
     mb_set_own = (\<lambda>v x. x\<lparr>bt_net := v\<rparr>), mb_set_nxt = (\<lambda>v x. x\<lparr>bt_next := v\<rparr>),
     mb_set_prv = (\<lambda>v x. x\<lparr>bt_prev := v\<rparr>), mb_set_head = (\<lambda>v x. x\<lparr>nt_bterms := v\<rparr>)\<rparr>"

definition bterm_mnet :: "(bterm, modnet) membership" where
  "bterm_mnet = \<lparr>mb_own = bt_mnet, mb_nxt = bt_next_mnet, mb_prv = bt_prev_mnet, mb_head = mn_bterms,
     mb_set_own = (\<lambda>v x. x\<lparr>bt_mnet := v\<rparr>), mb_set_nxt = (\<lambda>v x. x\<lparr>bt_next_mnet := v\<rparr>),
     mb_set_prv = (\<lambda>v x. x\<lparr>bt_prev_mnet := v\<rparr>), mb_set_head = (\<lambda>v x. x\<lparr>mn_bterms := v\<rparr>)\<rparr>"

definition moditerm_mnet :: "(moditerm, modnet) membership" where
  "moditerm_mnet = \<lparr>mb_own = mi_net, mb_nxt = mi_next, mb_prv = mi_prev, mb_head = mn_moditerms,
     mb_set_own = (\<lambda>v x. x\<lparr>mi_net := v\<rparr>), mb_set_nxt = (\<lambda>v x. x\<lparr>mi_next := v\<rparr>),
     mb_set_prv = (\<lambda>v x. x\<lparr>mi_prev := v\<rparr>), mb_set_head = (\<lambda>v x. x\<lparr>mn_moditerms := v\<rparr>)\<rparr>"

definition modbterm_mnet :: "(modbterm, modnet) membership" where
  "modbterm_mnet = \<lparr>mb_own = mb_net, mb_nxt = mb_next, mb_prv = mb_prev, mb_head = mn_modbterms,
     mb_set_own = (\<lambda>v x. x\<lparr>mb_net := v\<rparr>), mb_set_nxt = (\<lambda>v x. x\<lparr>mb_next := v\<rparr>),
     mb_set_prv = (\<lambda>v x. x\<lparr>mb_prev := v\<rparr>), mb_set_head = (\<lambda>v x. x\<lparr>mn_modbterms := v\<rparr>)\<rparr>"

interpretation itN: term_list iterm_net by unfold_locales (simp_all add: iterm_net_def)
interpretation itM: term_list iterm_mnet by unfold_locales (simp_all add: iterm_mnet_def)
interpretation btN: term_list bterm_net by unfold_locales (simp_all add: bterm_net_def)
interpretation btM: term_list bterm_mnet by unfold_locales (simp_all add: bterm_mnet_def)
interpretation miM: term_list moditerm_mnet by unfold_locales (simp_all add: moditerm_mnet_def)
interpretation mbM: term_list modbterm_mnet by unfold_locales (simp_all add: modbterm_mnet_def)

section \<open>Steps\<close>

text \<open>A step of an operation: the error it raises, if any, and the state it leaves.\<close>

type_synonym nl_step = "netlist \<Rightarrow> journal_error option \<times> netlist"

definition nl_skip :: nl_step where
  "nl_skip s = (None, s)"

definition raise :: "journal_error \<Rightarrow> nl_step" where
  "raise e s = (Some e, s)"

definition and_then :: "nl_step \<Rightarrow> nl_step \<Rightarrow> nl_step" where
  "and_then f g s = (case f s of (None, s') \<Rightarrow> g s' | (Some e, s') \<Rightarrow> (Some e, s'))"

text \<open>The object behind an id, which \<open>getPtr\<close> asserts to exist; the null id gives no object.\<close>

definition with_obj :: "(netlist \<Rightarrow> 'a tab) \<Rightarrow> u32 \<Rightarrow> ('a \<Rightarrow> nl_step) \<Rightarrow> nl_step" where
  "with_obj sel i k s = (case sel s i of None \<Rightarrow> (Some NoSuchObject, s) | Some x \<Rightarrow> k x s)"

definition with_opt :: "(netlist \<Rightarrow> 'a tab) \<Rightarrow> u32 \<Rightarrow> ('a option \<Rightarrow> nl_step) \<Rightarrow> nl_step" where
  "with_opt sel i k = (if i = 0 then k None else with_obj sel i (\<lambda>x. k (Some x)))"

definition put_lists :: "('t tab \<Rightarrow> 'n tab \<Rightarrow> netlist \<Rightarrow> netlist) \<Rightarrow> ('t tab \<times> 'n tab) option \<Rightarrow> nl_step" where
  "put_lists put r s = (case r of None \<Rightarrow> (Some NoSuchObject, s) | Some (T, N) \<Rightarrow> (None, put T N s))"

definition nl_notify :: "net_event \<Rightarrow> nl_step" where
  "nl_notify e s = (None, s\<lparr>nl_events := nl_events s @ [e]\<rparr>)"

definition nl_record :: "u8 \<Rightarrow> jval list \<Rightarrow> nl_step" where
  "nl_record a ps s = (case nl_journal s of
       None \<Rightarrow> (None, s)
     | Some j \<Rightarrow> (case record_action a ps j of
          Inl e \<Rightarrow> (Some e, s) | Inr j \<Rightarrow> (None, s\<lparr>nl_journal := Some j\<rparr>)))"

definition link_iterm_net :: "u32 \<Rightarrow> u32 \<Rightarrow> nl_step" where
  "link_iterm_net t n s = put_lists (\<lambda>T N s. s\<lparr>nl_iterms := T, nl_nets := N\<rparr>)
     (push_front_clear iterm_net t n (nl_iterms s) (nl_nets s)) s"
definition unlink_iterm_net :: "u32 \<Rightarrow> nl_step" where
  "unlink_iterm_net t s = put_lists (\<lambda>T N s. s\<lparr>nl_iterms := T, nl_nets := N\<rparr>)
     (unlink iterm_net t (nl_iterms s) (nl_nets s)) s"

definition link_iterm_mnet :: "u32 \<Rightarrow> u32 \<Rightarrow> nl_step" where
  "link_iterm_mnet t n s = put_lists (\<lambda>T N s. s\<lparr>nl_iterms := T, nl_modnets := N\<rparr>)
     (push_front iterm_mnet t n (nl_iterms s) (nl_modnets s)) s"
definition unlink_iterm_mnet :: "u32 \<Rightarrow> nl_step" where
  "unlink_iterm_mnet t s = put_lists (\<lambda>T N s. s\<lparr>nl_iterms := T, nl_modnets := N\<rparr>)
     (unlink iterm_mnet t (nl_iterms s) (nl_modnets s)) s"

definition link_bterm_net :: "u32 \<Rightarrow> u32 \<Rightarrow> nl_step" where
  "link_bterm_net t n s = put_lists (\<lambda>T N s. s\<lparr>nl_bterms := T, nl_nets := N\<rparr>)
     (push_front bterm_net t n (nl_bterms s) (nl_nets s)) s"
definition unlink_bterm_net :: "u32 \<Rightarrow> nl_step" where
  "unlink_bterm_net t s = put_lists (\<lambda>T N s. s\<lparr>nl_bterms := T, nl_nets := N\<rparr>)
     (unlink bterm_net t (nl_bterms s) (nl_nets s)) s"

definition link_bterm_mnet :: "u32 \<Rightarrow> u32 \<Rightarrow> nl_step" where
  "link_bterm_mnet t n s = put_lists (\<lambda>T N s. s\<lparr>nl_bterms := T, nl_modnets := N\<rparr>)
     (push_front bterm_mnet t n (nl_bterms s) (nl_modnets s)) s"
definition unlink_bterm_mnet :: "u32 \<Rightarrow> nl_step" where
  "unlink_bterm_mnet t s = put_lists (\<lambda>T N s. s\<lparr>nl_bterms := T, nl_modnets := N\<rparr>)
     (unlink bterm_mnet t (nl_bterms s) (nl_modnets s)) s"

definition link_moditerm :: "u32 \<Rightarrow> u32 \<Rightarrow> nl_step" where
  "link_moditerm t n s = put_lists (\<lambda>T N s. s\<lparr>nl_moditerms := T, nl_modnets := N\<rparr>)
     (push_front moditerm_mnet t n (nl_moditerms s) (nl_modnets s)) s"
definition unlink_moditerm :: "u32 \<Rightarrow> nl_step" where
  "unlink_moditerm t s = put_lists (\<lambda>T N s. s\<lparr>nl_moditerms := T, nl_modnets := N\<rparr>)
     (unlink_mod moditerm_mnet t (nl_moditerms s) (nl_modnets s)) s"

definition link_modbterm :: "u32 \<Rightarrow> u32 \<Rightarrow> nl_step" where
  "link_modbterm t n s = put_lists (\<lambda>T N s. s\<lparr>nl_modbterms := T, nl_modnets := N\<rparr>)
     (push_front modbterm_mnet t n (nl_modbterms s) (nl_modnets s)) s"
definition unlink_modbterm :: "u32 \<Rightarrow> nl_step" where
  "unlink_modbterm t s = put_lists (\<lambda>T N s. s\<lparr>nl_modbterms := T, nl_modnets := N\<rparr>)
     (unlink_mod modbterm_mnet t (nl_modbterms s) (nl_modnets s)) s"

abbreviation dbBTermObj :: u32 where "dbBTermObj \<equiv> 7"
abbreviation dbITermObj :: u32 where "dbITermObj \<equiv> 8"
abbreviation dbModBTermObj :: u32 where "dbModBTermObj \<equiv> 47"
abbreviation dbModITermObj :: u32 where "dbModITermObj \<equiv> 49"

section \<open>Instance terminals\<close>

text \<open>\<open>pushParam(0)\<close> writes a signed integer, \<open>pushParam(0U)\<close> an unsigned one.\<close>

definition iterm_disconnectDbNet :: "u32 \<Rightarrow> nl_step" where
  "iterm_disconnectDbNet t =
     with_obj nl_iterms t (\<lambda>tm.
       if it_net tm = 0 then nl_skip
       else with_obj nl_insts (it_inst tm) (\<lambda>inst.
         if ni_dont_touch inst then raise DontTouchInst
         else with_obj nl_nets (it_net tm) (\<lambda>net.
           if nt_dont_touch net then raise DontTouchNet
           else and_then (nl_notify (ItermPreDisconnect t))
             (and_then (nl_record DISCONNECT_OBJECT [JInt dbITermObj, JUInt t, JUInt (it_net tm), JInt 0])
             (and_then (unlink_iterm_net t)
               (nl_notify (ItermPostDisconnect t (it_net tm))))))))"

definition iterm_disconnectModNet :: "u32 \<Rightarrow> nl_step" where
  "iterm_disconnectModNet t =
     with_obj nl_iterms t (\<lambda>tm.
       if it_mnet tm \<noteq> 0
       then with_obj nl_modnets (it_mnet tm) (\<lambda>_.
              and_then (nl_record DISCONNECT_OBJECT [JInt dbITermObj, JUInt t, JInt 0, JUInt (it_mnet tm)])
                (unlink_iterm_mnet t))
       else nl_skip)"

definition iterm_connect_net :: "u32 \<Rightarrow> u32 \<Rightarrow> nl_step" where
  "iterm_connect_net t n =
     with_obj nl_iterms t (\<lambda>tm. with_obj nl_insts (it_inst tm) (\<lambda>inst.
       if n = 0 then raise NullNet
       else with_obj nl_nets n (\<lambda>net.
         if it_net tm = n then nl_skip
         else if ni_dont_touch inst then raise DontTouchInst
         else if nt_dont_touch net then raise DontTouchNet
         else and_then (if it_net tm \<noteq> 0 then iterm_disconnectDbNet t else nl_skip)
           (and_then (nl_notify (ItermPreConnect t n))
           (and_then (nl_record CONNECT_OBJECT [JInt dbITermObj, JUInt t, JUInt n, JInt 0])
           (and_then (link_iterm_net t n)
             (nl_notify (ItermPostConnect t))))))))"

definition set_iterm_mnet :: "u32 \<Rightarrow> u32 \<Rightarrow> nl_step" where
  "set_iterm_mnet t n s = (None, s\<lparr>nl_iterms := (nl_iterms s)(t := map_option (\<lambda>x. x\<lparr>it_mnet := n\<rparr>) (nl_iterms s t))\<rparr>)"

definition iterm_connect_mnet :: "u32 \<Rightarrow> u32 \<Rightarrow> nl_step" where
  "iterm_connect_mnet t n =
     with_obj nl_iterms t (\<lambda>tm. with_obj nl_insts (it_inst tm) (\<lambda>inst.
       with_obj nl_modnets n (\<lambda>_.
         if it_mnet tm = n then nl_skip
         else and_then (if it_mnet tm \<noteq> 0 then iterm_disconnectModNet t else nl_skip)
           (and_then (set_iterm_mnet t n)
             (if ni_dont_touch inst then raise DontTouchInst
              else and_then (nl_record CONNECT_OBJECT [JInt dbITermObj, JUInt t, JInt 0, JUInt n])
                (link_iterm_mnet t n))))))"

definition iterm_connect :: "u32 \<Rightarrow> u32 \<Rightarrow> u32 \<Rightarrow> nl_step" where
  "iterm_connect t n m = and_then (iterm_connect_net t n) (iterm_connect_mnet t m)"

definition iterm_disconnect :: "u32 \<Rightarrow> nl_step" where
  "iterm_disconnect t =
     with_obj nl_iterms t (\<lambda>tm.
       if it_net tm = 0 \<and> it_mnet tm = 0 then nl_skip
       else with_obj nl_insts (it_inst tm) (\<lambda>inst.
         if ni_dont_touch inst then raise DontTouchInst
         else with_opt nl_nets (it_net tm) (\<lambda>net. with_opt nl_modnets (it_mnet tm) (\<lambda>mod_net.
           if (case net of Some net \<Rightarrow> nt_dont_touch net | None \<Rightarrow> False) then raise DontTouchNet
           else and_then (nl_record DISCONNECT_OBJECT
                  [JInt dbITermObj, JUInt t, JUInt (it_net tm), JUInt (it_mnet tm)])
             (and_then (nl_notify (ItermPreDisconnect t))
             (and_then (if net \<noteq> None
                then and_then (unlink_iterm_net t) (nl_notify (ItermPostDisconnect t (it_net tm)))
                else nl_skip)
               (if mod_net \<noteq> None then unlink_iterm_mnet t else nl_skip)))))))"

section \<open>Block terminals\<close>

definition bterm_disconnectNet :: "u32 \<Rightarrow> nl_step" where
  "bterm_disconnectNet t =
     with_obj nl_bterms t (\<lambda>tm.
       if bt_net tm \<noteq> 0
       then with_obj nl_nets (bt_net tm) (\<lambda>_.
              and_then (nl_record DISCONNECT_OBJECT [JInt dbBTermObj, JUInt t, JUInt (bt_net tm), JUInt 0])
                (and_then (nl_notify (BtermPreDisconnect t))
                (and_then (unlink_bterm_net t) (nl_notify (BtermPostDisconnect t (bt_net tm))))))
       else nl_skip)"

definition bterm_disconnectModNet :: "u32 \<Rightarrow> nl_step" where
  "bterm_disconnectModNet t =
     with_obj nl_bterms t (\<lambda>tm.
       if bt_mnet tm \<noteq> 0
       then with_obj nl_modnets (bt_mnet tm) (\<lambda>_.
              and_then (nl_record DISCONNECT_OBJECT [JInt dbBTermObj, JUInt t, JUInt 0, JUInt (bt_mnet tm)])
                (unlink_bterm_mnet t))
       else nl_skip)"

definition bterm_connectNet :: "u32 \<Rightarrow> u32 \<Rightarrow> nl_step" where
  "bterm_connectNet t n =
     and_then (nl_record CONNECT_OBJECT [JInt dbBTermObj, JUInt t, JUInt n, JUInt 0])
       (and_then (nl_notify (BtermPreConnect t n))
       (and_then (link_bterm_net t n) (nl_notify (BtermPostConnect t))))"

definition set_bterm_mnet :: "u32 \<Rightarrow> u32 \<Rightarrow> nl_step" where
  "set_bterm_mnet t n s = (None, s\<lparr>nl_bterms := (nl_bterms s)(t := map_option (\<lambda>x. x\<lparr>bt_mnet := n\<rparr>) (nl_bterms s t))\<rparr>)"

definition bterm_connectModNet :: "u32 \<Rightarrow> u32 \<Rightarrow> nl_step" where
  "bterm_connectModNet t n =
     and_then (set_bterm_mnet t n)
       (and_then (nl_record CONNECT_OBJECT [JInt dbBTermObj, JUInt t, JUInt 0, JUInt n])
         (link_bterm_mnet t n))"

definition bterm_disconnectDbNet :: "u32 \<Rightarrow> nl_step" where
  "bterm_disconnectDbNet t =
     with_obj nl_bterms t (\<lambda>tm.
       if bt_net tm \<noteq> 0
       then with_obj nl_nets (bt_net tm) (\<lambda>net.
              if nt_dont_touch net then raise DontTouchNet else bterm_disconnectNet t)
       else nl_skip)"

definition bterm_disconnectDbModNet :: "u32 \<Rightarrow> nl_step" where
  "bterm_disconnectDbModNet t = bterm_disconnectModNet t"

definition bterm_connect_mnet :: "u32 \<Rightarrow> u32 \<Rightarrow> nl_step" where
  "bterm_connect_mnet t n =
     with_obj nl_modnets n (\<lambda>_. with_obj nl_bterms t (\<lambda>tm.
       if bt_mnet tm = n then nl_skip
       else and_then (if bt_mnet tm \<noteq> 0 then bterm_disconnectModNet t else nl_skip)
              (bterm_connectModNet t n)))"

definition bterm_connect_net :: "u32 \<Rightarrow> u32 \<Rightarrow> nl_step" where
  "bterm_connect_net t n =
     with_obj nl_bterms t (\<lambda>tm. with_obj nl_nets n (\<lambda>net.
       if nt_dont_touch net then raise DontTouchNet
       else and_then (if bt_net tm \<noteq> 0 then bterm_disconnectDbNet t else nl_skip)
              (bterm_connectNet t n)))"

definition bterm_disconnect :: "u32 \<Rightarrow> nl_step" where
  "bterm_disconnect t =
     with_obj nl_bterms t (\<lambda>tm.
       if bt_net tm \<noteq> 0
       then with_obj nl_nets (bt_net tm) (\<lambda>net.
              if nt_dont_touch net then raise DontTouchNet
              else and_then (bterm_disconnectNet t)
                     (if bt_mnet tm \<noteq> 0 then bterm_disconnectModNet t else nl_skip))
       else nl_skip)"

section \<open>Terminals of module instances and of modules\<close>

definition moditerm_connect :: "u32 \<Rightarrow> u32 \<Rightarrow> nl_step" where
  "moditerm_connect t n =
     with_obj nl_moditerms t (\<lambda>tm. with_obj nl_modnets n (\<lambda>_.
       if mi_net tm = n then nl_skip
       else and_then (link_moditerm t n)
              (nl_record CONNECT_OBJECT [JInt dbModITermObj, JUInt t, JUInt n])))"

definition moditerm_disconnect :: "u32 \<Rightarrow> nl_step" where
  "moditerm_disconnect t =
     with_obj nl_moditerms t (\<lambda>tm.
       if mi_net tm = 0 then nl_skip
       else with_obj nl_modnets (mi_net tm) (\<lambda>_.
         and_then (nl_record DISCONNECT_OBJECT [JInt dbModITermObj, JUInt t, JUInt (mi_net tm)])
           (unlink_moditerm t)))"

definition modbterm_connect :: "u32 \<Rightarrow> u32 \<Rightarrow> nl_step" where
  "modbterm_connect t n =
     with_obj nl_modbterms t (\<lambda>tm. with_obj nl_modnets n (\<lambda>_.
       if mb_net tm = n then nl_skip
       else and_then (link_modbterm t n)
              (nl_record CONNECT_OBJECT [JInt dbModBTermObj, JUInt t, JUInt n])))"

definition clear_modbterm :: "u32 \<Rightarrow> nl_step" where
  "clear_modbterm t s = (None, s\<lparr>nl_modbterms :=
     (nl_modbterms s)(t := map_option (\<lambda>x. x\<lparr>mb_next := 0, mb_prev := 0\<rparr>) (nl_modbterms s t))\<rparr>)"

definition modbterm_disconnect :: "u32 \<Rightarrow> nl_step" where
  "modbterm_disconnect t =
     with_obj nl_modbterms t (\<lambda>tm.
       if mb_net tm = 0 then nl_skip
       else with_obj nl_modnets (mb_net tm) (\<lambda>_.
         and_then (nl_record DISCONNECT_OBJECT [JInt dbModBTermObj, JUInt t, JUInt (mb_net tm)])
           (and_then (unlink_modbterm t) (clear_modbterm t))))"

section \<open>Iterators and merging\<close>

definition net_iterms :: "u32 \<Rightarrow> netlist \<Rightarrow> u32 list option" where
  "net_iterms n s = mb_elems iterm_net n (nl_iterms s) (nl_nets s)"
definition net_bterms :: "u32 \<Rightarrow> netlist \<Rightarrow> u32 list option" where
  "net_bterms n s = mb_elems bterm_net n (nl_bterms s) (nl_nets s)"
definition modnet_iterms :: "u32 \<Rightarrow> netlist \<Rightarrow> u32 list option" where
  "modnet_iterms n s = mb_elems iterm_mnet n (nl_iterms s) (nl_modnets s)"
definition modnet_bterms :: "u32 \<Rightarrow> netlist \<Rightarrow> u32 list option" where
  "modnet_bterms n s = mb_elems bterm_mnet n (nl_bterms s) (nl_modnets s)"
definition modnet_moditerms :: "u32 \<Rightarrow> netlist \<Rightarrow> u32 list option" where
  "modnet_moditerms n s = mb_elems moditerm_mnet n (nl_moditerms s) (nl_modnets s)"
definition modnet_modbterms :: "u32 \<Rightarrow> netlist \<Rightarrow> u32 list option" where
  "modnet_modbterms n s = mb_elems modbterm_mnet n (nl_modbterms s) (nl_modnets s)"

definition net_iterms_reverse :: "u32 \<Rightarrow> nl_step" where
  "net_iterms_reverse n s = put_lists (\<lambda>T N s. s\<lparr>nl_iterms := T, nl_nets := N\<rparr>)
     (mb_reverse iterm_net n (nl_iterms s) (nl_nets s)) s"
definition net_bterms_reverse :: "u32 \<Rightarrow> nl_step" where
  "net_bterms_reverse n s = put_lists (\<lambda>T N s. s\<lparr>nl_bterms := T, nl_nets := N\<rparr>)
     (mb_reverse bterm_net n (nl_bterms s) (nl_nets s)) s"

definition connectionCount :: "u32 \<Rightarrow> netlist \<Rightarrow> u32 option" where
  "connectionCount n s =
     Option.bind (mb_size iterm_mnet n (nl_iterms s) (nl_modnets s)) (\<lambda>a.
     Option.bind (mb_size bterm_mnet n (nl_bterms s) (nl_modnets s)) (\<lambda>b.
     map_option (\<lambda>c. a + b + c) (mb_size moditerm_mnet n (nl_moditerms s) (nl_modnets s))))"

primrec connect_all :: "u32 list \<Rightarrow> u32 \<Rightarrow> nl_step" where
  "connect_all [] n = nl_skip"
| "connect_all (t # ts) n = and_then (iterm_connect_net t n) (connect_all ts n)"

text \<open>\<open>None\<close> is a loop that does not end.\<close>

partial_function (option) merge_bterms :: "u32 \<Rightarrow> u32 \<Rightarrow> netlist \<Rightarrow> (journal_error option \<times> netlist) option" where
  "merge_bterms n cur s =
     (if cur = 0 then Some (None, s)
      else case bterm_connect_net cur n s of
          (Some e, s) \<Rightarrow> Some (Some e, s)
        | (None, s) \<Rightarrow> (case nl_bterms s cur of
              None \<Rightarrow> Some (Some NoSuchObject, s)
            | Some tm \<Rightarrow> merge_bterms n (bt_next tm) s))"

definition mergeNet :: "u32 \<Rightarrow> u32 \<Rightarrow> netlist \<Rightarrow> (journal_error option \<times> netlist) option" where
  "mergeNet n in_net s =
     Option.bind (net_iterms in_net s) (\<lambda>iterms.
       case and_then (nl_notify (NetPreMerge n in_net)) (connect_all iterms n) s of
         (Some e, s) \<Rightarrow> Some (Some e, s)
       | (None, s) \<Rightarrow> (case nl_nets s in_net of
             None \<Rightarrow> Some (Some NoSuchObject, s)
           | Some net \<Rightarrow> merge_bterms n (nt_bterms net) s))"

section \<open>What the lists hold\<close>

record conn =
  c_it :: "u32 \<Rightarrow> u32 list"
  c_itm :: "u32 \<Rightarrow> u32 list"
  c_bt :: "u32 \<Rightarrow> u32 list"
  c_btm :: "u32 \<Rightarrow> u32 list"
  c_mi :: "u32 \<Rightarrow> u32 list"
  c_mb :: "u32 \<Rightarrow> u32 list"

definition nl_abs :: "netlist \<Rightarrow> conn \<Rightarrow> bool" where
  "nl_abs s A \<longleftrightarrow>
     linked (links_of iterm_net (nl_iterms s)) (heads_of iterm_net (nl_nets s)) (c_it A) \<and>
     linked (links_of iterm_mnet (nl_iterms s)) (heads_of iterm_mnet (nl_modnets s)) (c_itm A) \<and>
     linked (links_of bterm_net (nl_bterms s)) (heads_of bterm_net (nl_nets s)) (c_bt A) \<and>
     linked (links_of bterm_mnet (nl_bterms s)) (heads_of bterm_mnet (nl_modnets s)) (c_btm A) \<and>
     linked (links_of moditerm_mnet (nl_moditerms s)) (heads_of moditerm_mnet (nl_modnets s)) (c_mi A) \<and>
     linked (links_of modbterm_mnet (nl_modbterms s)) (heads_of modbterm_mnet (nl_modnets s)) (c_mb A)"

text \<open>What no operation on the connections changes: which objects there are, and their flags.\<close>

definition nl_static :: "netlist \<Rightarrow> ninst tab \<times> (u32 \<rightharpoonup> u32) \<times> (u32 \<rightharpoonup> bool) \<times> (u32 \<rightharpoonup> unit) \<times> (u32 \<rightharpoonup> unit)
    \<times> (u32 \<rightharpoonup> unit) \<times> (u32 \<rightharpoonup> unit)" where
  "nl_static s = (nl_insts s, proj it_inst (nl_iterms s), proj nt_dont_touch (nl_nets s), proj (\<lambda>_. ()) (nl_modnets s),
     proj (\<lambda>_. ()) (nl_bterms s), proj (\<lambda>_. ()) (nl_moditerms s), proj (\<lambda>_. ()) (nl_modbterms s))"

lemmas field_defs = iterm_net_def iterm_mnet_def bterm_net_def bterm_mnet_def moditerm_mnet_def modbterm_mnet_def

lemma keeps_const [simp]: "keeps (\<lambda>_. c) F" "keeps_head (\<lambda>_. c) F"
  by (simp_all add: keeps_def keeps_head_def)

lemma keeps_fields [simp]:
  "keeps it_inst iterm_net" "keeps it_inst iterm_mnet"
  "keeps (\<lambda>x. (mb_own iterm_mnet x, mb_nxt iterm_mnet x, mb_prv iterm_mnet x)) iterm_net"
  "keeps (\<lambda>x. (mb_own iterm_net x, mb_nxt iterm_net x, mb_prv iterm_net x)) iterm_mnet"
  "keeps (\<lambda>x. (mb_own bterm_mnet x, mb_nxt bterm_mnet x, mb_prv bterm_mnet x)) bterm_net"
  "keeps (\<lambda>x. (mb_own bterm_net x, mb_nxt bterm_net x, mb_prv bterm_net x)) bterm_mnet"
  by (simp_all add: keeps_def field_defs)

lemma keeps_head_fields [simp]:
  "keeps_head nt_dont_touch iterm_net" "keeps_head nt_dont_touch bterm_net"
  "keeps_head (mb_head bterm_net) iterm_net" "keeps_head (mb_head iterm_net) bterm_net"
  "keeps_head (mb_head bterm_mnet) iterm_mnet" "keeps_head (mb_head moditerm_mnet) iterm_mnet"
  "keeps_head (mb_head modbterm_mnet) iterm_mnet" "keeps_head (mb_head iterm_mnet) bterm_mnet"
  "keeps_head (mb_head moditerm_mnet) bterm_mnet" "keeps_head (mb_head modbterm_mnet) bterm_mnet"
  "keeps_head (mb_head iterm_mnet) moditerm_mnet" "keeps_head (mb_head bterm_mnet) moditerm_mnet"
  "keeps_head (mb_head modbterm_mnet) moditerm_mnet" "keeps_head (mb_head iterm_mnet) modbterm_mnet"
  "keeps_head (mb_head bterm_mnet) modbterm_mnet" "keeps_head (mb_head moditerm_mnet) modbterm_mnet"
  by (simp_all add: keeps_head_def field_defs)

text \<open>The journal takes the recorded actions behind the ones it holds.\<close>

definition nl_open :: "netlist \<Rightarrow> bool" where
  "nl_open s \<longleftrightarrow> (case nl_journal s of None \<Rightarrow> True | Some j \<Rightarrow> \<not> start_action j)"

definition nl_logged :: "action list \<Rightarrow> netlist \<Rightarrow> netlist \<Rightarrow> bool" where
  "nl_logged as s s' \<longleftrightarrow> (nl_journal s = None \<longrightarrow> nl_journal s' = None) \<and>
     (\<forall>j bs. nl_journal s = Some j \<longrightarrow> journal_holds j bs \<longrightarrow>
        length (jl_bytes (j_log j)) + 40 * length as < 2 ^ 31 \<longrightarrow>
        (\<exists>j'. nl_journal s' = Some j' \<and> journal_holds j' (bs @ as) \<and> jl_debug (j_log j') = jl_debug (j_log j) \<and>
           length (jl_bytes (j_log j')) \<le> length (jl_bytes (j_log j)) + 40 * length as))"

definition nl_to :: "netlist \<Rightarrow> action list \<Rightarrow> conn \<Rightarrow> netlist \<Rightarrow> bool" where
  "nl_to s as A s' \<longleftrightarrow> nl_abs s' A \<and> nl_static s' = nl_static s \<and> nl_open s' \<and> nl_logged as s s'"

text \<open>The step ends without error, with these lists, having recorded these actions.\<close>

definition effect :: "nl_step \<Rightarrow> netlist \<Rightarrow> action list \<Rightarrow> conn \<Rightarrow> bool" where
  "effect f s as A \<longleftrightarrow> (\<exists>s'. f s = (None, s') \<and> nl_to s as A s')"

lemma nl_logged_same: "nl_journal s' = nl_journal s \<Longrightarrow> nl_logged [] s s'"
  by (simp add: nl_logged_def)

lemma nl_logged_trans:
  assumes "nl_logged as s s1" "nl_logged bs s1 s2"
  shows "nl_logged (as @ bs) s s2"
  unfolding nl_logged_def
proof (intro conjI allI impI)
  fix j cs
  assume j: "nl_journal s = Some j" "journal_holds j cs" "length (jl_bytes (j_log j)) + 40 * length (as @ bs) < 2 ^ 31"
  then obtain j1 where j1: "nl_journal s1 = Some j1" "journal_holds j1 (cs @ as)" "jl_debug (j_log j1) = jl_debug (j_log j)"
      "length (jl_bytes (j_log j1)) \<le> length (jl_bytes (j_log j)) + 40 * length as"
    using assms(1) by (auto simp: nl_logged_def)
  then have "length (jl_bytes (j_log j1)) + 40 * length bs < 2 ^ 31" using j(3) by simp
  then obtain j2 where j2: "nl_journal s2 = Some j2" "journal_holds j2 ((cs @ as) @ bs)" "jl_debug (j_log j2) = jl_debug (j_log j1)"
      "length (jl_bytes (j_log j2)) \<le> length (jl_bytes (j_log j1)) + 40 * length bs"
    using assms(2) j1(1,2) unfolding nl_logged_def by blast
  with j1 show "\<exists>j'. nl_journal s2 = Some j' \<and> journal_holds j' (cs @ as @ bs) \<and> jl_debug (j_log j') = jl_debug (j_log j) \<and>
      length (jl_bytes (j_log j')) \<le> length (jl_bytes (j_log j)) + 40 * length (as @ bs)"
    by (intro exI [of _ j2]) simp
qed (use assms in \<open>simp add: nl_logged_def\<close>)

lemma nl_to_trans: "nl_to s as A s1 \<Longrightarrow> nl_to s1 bs B s2 \<Longrightarrow> nl_to s (as @ bs) B s2"
  by (auto simp: nl_to_def intro: nl_logged_trans)

lemma effect_then:
  assumes "effect f s as A" "\<And>s1. nl_to s as A s1 \<Longrightarrow> effect g s1 bs B" "cs = as @ bs"
  shows "effect (and_then f g) s cs B"
  using assms nl_to_trans by (fastforce simp: effect_def and_then_def)

lemma effect_skip: "nl_abs s A \<Longrightarrow> nl_open s \<Longrightarrow> effect nl_skip s [] A"
  by (simp add: effect_def nl_skip_def nl_to_def nl_logged_same)

lemma nl_abs_other [simp]:
  "nl_abs (s\<lparr>nl_journal := j\<rparr>) A = nl_abs s A" "nl_abs (s\<lparr>nl_events := es\<rparr>) A = nl_abs s A"
  "nl_static (s\<lparr>nl_journal := j\<rparr>) = nl_static s" "nl_static (s\<lparr>nl_events := es\<rparr>) = nl_static s"
  by (simp_all add: nl_abs_def nl_static_def)

lemma effect_notify: "nl_abs s A \<Longrightarrow> nl_open s \<Longrightarrow> effect (nl_notify e) s [] A"
  by (simp add: effect_def nl_notify_def nl_to_def nl_logged_same nl_open_def)

text \<open>The actions of connections: at most one tagged byte, four words and the end.\<close>

definition words_only :: "jval list \<Rightarrow> bool" where
  "words_only ps \<longleftrightarrow> length ps \<le> 4 \<and> (\<forall>p \<in> set ps. (\<exists>w. p = JInt w) \<or> (\<exists>w. p = JUInt w))"

lemma effect_record:
  assumes "nl_abs s A" "nl_open s" "words_only ps"
  shows "effect (nl_record a ps) s [(a, ps)] A"
proof (cases "nl_journal s")
  case None
  with assms show ?thesis by (simp add: effect_def nl_record_def nl_to_def nl_logged_def)
next
  case (Some j)
  let ?b = "length (jl_bytes (j_log j))"
  have open_j: "\<not> start_action j" using assms(2) Some by (simp add: nl_open_def)
  obtain j' where j': "record_action a ps j = Inr j'" "\<not> start_action j'"
    using open_j by (simp add: record_action_def beginAction_def endAction_def)
  have small: "length (vals_bytes d ps) \<le> 5 * length ps" for d
    using assms(3) unfolding words_only_def
    by (induction ps) (auto simp: vals_bytes_simps tag_def length_bytes4)
  have size: "length (vals_bytes d (action_vals p (a, ps))) \<le> 40" for d p
    using small [of d] assms(3) by (auto simp: action_vals_def vals_bytes_simps words_only_def tag_def length_bytes4)
  have "nl_logged [(a, ps)] s (s\<lparr>nl_journal := Some j'\<rparr>)"
    unfolding nl_logged_def
  proof (intro conjI allI impI)
    fix k bs
    assume k: "nl_journal s = Some k" "journal_holds k bs" "length (jl_bytes (j_log k)) + 40 * length [(a, ps)] < 2 ^ 31"
    then have kj: "k = j" using Some by simp
    have "?b + length (vals_bytes (jl_debug (j_log j)) (action_vals ?b (a, ps))) < 2 ^ 31"
      using size [of "jl_debug (j_log j)" ?b] k(3) kj by simp
    from record_action_holds [OF k(2) [unfolded kj] this] j'(1) size [of "jl_debug (j_log j)" ?b]
    show "\<exists>j''. nl_journal (s\<lparr>nl_journal := Some j'\<rparr>) = Some j'' \<and> journal_holds j'' (bs @ [(a, ps)]) \<and>
        jl_debug (j_log j'') = jl_debug (j_log k) \<and>
        length (jl_bytes (j_log j'')) \<le> length (jl_bytes (j_log k)) + 40 * length [(a, ps)]"
      unfolding kj by simp
  qed (simp add: Some)
  then show ?thesis using assms(1) Some j' by (simp add: effect_def nl_record_def nl_to_def nl_open_def)
qed

text \<open>Linking and unlinking in each of the six lists.\<close>

lemma put_effect:
  assumes "r = Some (T, N)" "f s = put_lists put r s" "nl_open s" "nl_abs (put T N s) A"
    "nl_static (put T N s) = nl_static s" "nl_journal (put T N s) = nl_journal s"
  shows "effect f s [] A"
  using assms by (simp add: effect_def put_lists_def nl_to_def nl_logged_same nl_open_def)

lemma nl_absD:
  assumes "nl_abs s A"
  shows "linked (links_of iterm_net (nl_iterms s)) (heads_of iterm_net (nl_nets s)) (c_it A)"
    "linked (links_of iterm_mnet (nl_iterms s)) (heads_of iterm_mnet (nl_modnets s)) (c_itm A)"
    "linked (links_of bterm_net (nl_bterms s)) (heads_of bterm_net (nl_nets s)) (c_bt A)"
    "linked (links_of bterm_mnet (nl_bterms s)) (heads_of bterm_mnet (nl_modnets s)) (c_btm A)"
    "linked (links_of moditerm_mnet (nl_moditerms s)) (heads_of moditerm_mnet (nl_modnets s)) (c_mi A)"
    "linked (links_of modbterm_mnet (nl_modbterms s)) (heads_of modbterm_mnet (nl_modnets s)) (c_mb A)"
  using assms by (simp_all add: nl_abs_def)

text \<open>The fields of a terminal and the lists it is in.\<close>

lemma unconnected:
  assumes "nl_abs s A"
  shows "nl_iterms s t = Some it \<Longrightarrow> it_net it = 0 \<longleftrightarrow> (\<forall>m. t \<notin> set (c_it A m))"
    "nl_iterms s t = Some it \<Longrightarrow> it_mnet it = 0 \<longleftrightarrow> (\<forall>m. t \<notin> set (c_itm A m))"
    "nl_bterms s t = Some bt \<Longrightarrow> bt_net bt = 0 \<longleftrightarrow> (\<forall>m. t \<notin> set (c_bt A m))"
    "nl_bterms s t = Some bt \<Longrightarrow> bt_mnet bt = 0 \<longleftrightarrow> (\<forall>m. t \<notin> set (c_btm A m))"
    "nl_moditerms s t = Some mi \<Longrightarrow> mi_net mi = 0 \<longleftrightarrow> (\<forall>m. t \<notin> set (c_mi A m))"
    "nl_modbterms s t = Some mb \<Longrightarrow> mb_net mb = 0 \<longleftrightarrow> (\<forall>m. t \<notin> set (c_mb A m))"
  using linked_own_iff [OF nl_absD(1) [OF assms]] linked_own_iff [OF nl_absD(2) [OF assms]]
    linked_own_iff [OF nl_absD(3) [OF assms]] linked_own_iff [OF nl_absD(4) [OF assms]]
    linked_own_iff [OF nl_absD(5) [OF assms]] linked_own_iff [OF nl_absD(6) [OF assms]]
  by (simp_all add: field_defs)

lemmas put_defs = nl_abs_def nl_static_def links_of_def heads_of_def

lemma link_iterm_net_effect:
  assumes "nl_abs s A" "nl_open s" "nl_iterms s t = Some tm" "\<And>m. t \<notin> set (c_it A m)" "nl_nets s n = Some net"
  shows "effect (link_iterm_net t n) s [] (A\<lparr>c_it := (c_it A)(n := t # c_it A n)\<rparr>)"
proof -
  note l = nl_absD(1) [OF assms(1)]
  obtain T' N' where r: "push_front iterm_net t n (nl_iterms s) (nl_nets s) = Some (T', N')"
      "push_front_clear iterm_net t n (nl_iterms s) (nl_nets s) = Some (T', N')"
      "linked (links_of iterm_net T') (heads_of iterm_net N') ((c_it A)(n := t # c_it A n))"
    using itN.push_front_ok [OF l assms(3) linked_alone [OF l assms(3,4)] assms(5)] by blast
  show ?thesis
    by (rule put_effect [where f = "link_iterm_net t n" and s = s, OF r(2) link_iterm_net_def assms(2)])
      (use assms(1) r(3) in \<open>simp_all add: put_defs push_front_keeps [OF r(1)]\<close>)
qed

lemma unlink_iterm_net_effect:
  assumes "nl_abs s A" "nl_open s" "nl_iterms s t = Some tm" "it_net tm \<noteq> 0"
  shows "effect (unlink_iterm_net t) s [] (A\<lparr>c_it := off t (c_it A)\<rparr>)"
proof -
  note l = nl_absD(1) [OF assms(1)]
  have own: "mb_own iterm_net tm \<noteq> 0" using assms(4) by (simp add: iterm_net_def)
  note mem = off_owner [OF l linked_own [OF l assms(3) own]]
  obtain T' N' where r: "unlink iterm_net t (nl_iterms s) (nl_nets s) = Some (T', N')"
      "linked (links_of iterm_net T') (heads_of iterm_net N') (off t (c_it A))"
    using itN.unlink_ok [OF l assms(3) own] unfolding mem by blast
  show ?thesis
    by (rule put_effect [where f = "unlink_iterm_net t" and s = s, OF r(1) unlink_iterm_net_def assms(2)])
      (use assms(1) r(2) in \<open>simp_all add: put_defs unlink_keeps [OF r(1)]\<close>)
qed

lemma link_iterm_mnet_effect:
  assumes "nl_abs s A" "nl_open s" "nl_iterms s t = Some tm" "\<And>m. t \<notin> set (c_itm A m)" "nl_modnets s n = Some net"
  shows "effect (link_iterm_mnet t n) s [] (A\<lparr>c_itm := (c_itm A)(n := t # c_itm A n)\<rparr>)"
proof -
  note l = nl_absD(2) [OF assms(1)]
  obtain T' N' where r: "push_front iterm_mnet t n (nl_iterms s) (nl_modnets s) = Some (T', N')"
      "push_front_clear iterm_mnet t n (nl_iterms s) (nl_modnets s) = Some (T', N')"
      "linked (links_of iterm_mnet T') (heads_of iterm_mnet N') ((c_itm A)(n := t # c_itm A n))"
    using itM.push_front_ok [OF l assms(3) linked_alone [OF l assms(3,4)] assms(5)] by blast
  show ?thesis
    by (rule put_effect [where f = "link_iterm_mnet t n" and s = s, OF r(1) link_iterm_mnet_def assms(2)])
      (use assms(1) r(3) in \<open>simp_all add: put_defs push_front_keeps [OF r(1)]\<close>)
qed

lemma unlink_iterm_mnet_effect:
  assumes "nl_abs s A" "nl_open s" "nl_iterms s t = Some tm" "it_mnet tm \<noteq> 0"
  shows "effect (unlink_iterm_mnet t) s [] (A\<lparr>c_itm := off t (c_itm A)\<rparr>)"
proof -
  note l = nl_absD(2) [OF assms(1)]
  have own: "mb_own iterm_mnet tm \<noteq> 0" using assms(4) by (simp add: iterm_mnet_def)
  note mem = off_owner [OF l linked_own [OF l assms(3) own]]
  obtain T' N' where r: "unlink iterm_mnet t (nl_iterms s) (nl_modnets s) = Some (T', N')"
      "linked (links_of iterm_mnet T') (heads_of iterm_mnet N') (off t (c_itm A))"
    using itM.unlink_ok [OF l assms(3) own] unfolding mem by blast
  show ?thesis
    by (rule put_effect [where f = "unlink_iterm_mnet t" and s = s, OF r(1) unlink_iterm_mnet_def assms(2)])
      (use assms(1) r(2) in \<open>simp_all add: put_defs unlink_keeps [OF r(1)]\<close>)
qed

lemma link_bterm_net_effect:
  assumes "nl_abs s A" "nl_open s" "nl_bterms s t = Some tm" "\<And>m. t \<notin> set (c_bt A m)" "nl_nets s n = Some net"
  shows "effect (link_bterm_net t n) s [] (A\<lparr>c_bt := (c_bt A)(n := t # c_bt A n)\<rparr>)"
proof -
  note l = nl_absD(3) [OF assms(1)]
  obtain T' N' where r: "push_front bterm_net t n (nl_bterms s) (nl_nets s) = Some (T', N')"
      "push_front_clear bterm_net t n (nl_bterms s) (nl_nets s) = Some (T', N')"
      "linked (links_of bterm_net T') (heads_of bterm_net N') ((c_bt A)(n := t # c_bt A n))"
    using btN.push_front_ok [OF l assms(3) linked_alone [OF l assms(3,4)] assms(5)] by blast
  show ?thesis
    by (rule put_effect [where f = "link_bterm_net t n" and s = s, OF r(1) link_bterm_net_def assms(2)])
      (use assms(1) r(3) in \<open>simp_all add: put_defs push_front_keeps [OF r(1)]\<close>)
qed

lemma unlink_bterm_net_effect:
  assumes "nl_abs s A" "nl_open s" "nl_bterms s t = Some tm" "bt_net tm \<noteq> 0"
  shows "effect (unlink_bterm_net t) s [] (A\<lparr>c_bt := off t (c_bt A)\<rparr>)"
proof -
  note l = nl_absD(3) [OF assms(1)]
  have own: "mb_own bterm_net tm \<noteq> 0" using assms(4) by (simp add: bterm_net_def)
  note mem = off_owner [OF l linked_own [OF l assms(3) own]]
  obtain T' N' where r: "unlink bterm_net t (nl_bterms s) (nl_nets s) = Some (T', N')"
      "linked (links_of bterm_net T') (heads_of bterm_net N') (off t (c_bt A))"
    using btN.unlink_ok [OF l assms(3) own] unfolding mem by blast
  show ?thesis
    by (rule put_effect [where f = "unlink_bterm_net t" and s = s, OF r(1) unlink_bterm_net_def assms(2)])
      (use assms(1) r(2) in \<open>simp_all add: put_defs unlink_keeps [OF r(1)]\<close>)
qed

lemma link_bterm_mnet_effect:
  assumes "nl_abs s A" "nl_open s" "nl_bterms s t = Some tm" "\<And>m. t \<notin> set (c_btm A m)" "nl_modnets s n = Some net"
  shows "effect (link_bterm_mnet t n) s [] (A\<lparr>c_btm := (c_btm A)(n := t # c_btm A n)\<rparr>)"
proof -
  note l = nl_absD(4) [OF assms(1)]
  obtain T' N' where r: "push_front bterm_mnet t n (nl_bterms s) (nl_modnets s) = Some (T', N')"
      "push_front_clear bterm_mnet t n (nl_bterms s) (nl_modnets s) = Some (T', N')"
      "linked (links_of bterm_mnet T') (heads_of bterm_mnet N') ((c_btm A)(n := t # c_btm A n))"
    using btM.push_front_ok [OF l assms(3) linked_alone [OF l assms(3,4)] assms(5)] by blast
  show ?thesis
    by (rule put_effect [where f = "link_bterm_mnet t n" and s = s, OF r(1) link_bterm_mnet_def assms(2)])
      (use assms(1) r(3) in \<open>simp_all add: put_defs push_front_keeps [OF r(1)]\<close>)
qed

lemma unlink_bterm_mnet_effect:
  assumes "nl_abs s A" "nl_open s" "nl_bterms s t = Some tm" "bt_mnet tm \<noteq> 0"
  shows "effect (unlink_bterm_mnet t) s [] (A\<lparr>c_btm := off t (c_btm A)\<rparr>)"
proof -
  note l = nl_absD(4) [OF assms(1)]
  have own: "mb_own bterm_mnet tm \<noteq> 0" using assms(4) by (simp add: bterm_mnet_def)
  note mem = off_owner [OF l linked_own [OF l assms(3) own]]
  obtain T' N' where r: "unlink bterm_mnet t (nl_bterms s) (nl_modnets s) = Some (T', N')"
      "linked (links_of bterm_mnet T') (heads_of bterm_mnet N') (off t (c_btm A))"
    using btM.unlink_ok [OF l assms(3) own] unfolding mem by blast
  show ?thesis
    by (rule put_effect [where f = "unlink_bterm_mnet t" and s = s, OF r(1) unlink_bterm_mnet_def assms(2)])
      (use assms(1) r(2) in \<open>simp_all add: put_defs unlink_keeps [OF r(1)]\<close>)
qed

lemma link_moditerm_effect:
  assumes "nl_abs s A" "nl_open s" "nl_moditerms s t = Some tm" "\<And>m. t \<notin> set (c_mi A m)" "nl_modnets s n = Some net"
  shows "effect (link_moditerm t n) s [] (A\<lparr>c_mi := (c_mi A)(n := t # c_mi A n)\<rparr>)"
proof -
  note l = nl_absD(5) [OF assms(1)]
  obtain T' N' where r: "push_front moditerm_mnet t n (nl_moditerms s) (nl_modnets s) = Some (T', N')"
      "push_front_clear moditerm_mnet t n (nl_moditerms s) (nl_modnets s) = Some (T', N')"
      "linked (links_of moditerm_mnet T') (heads_of moditerm_mnet N') ((c_mi A)(n := t # c_mi A n))"
    using miM.push_front_ok [OF l assms(3) linked_alone [OF l assms(3,4)] assms(5)] by blast
  show ?thesis
    by (rule put_effect [where f = "link_moditerm t n" and s = s, OF r(1) link_moditerm_def assms(2)])
      (use assms(1) r(3) in \<open>simp_all add: put_defs push_front_keeps [OF r(1)]\<close>)
qed

lemma unlink_moditerm_effect:
  assumes "nl_abs s A" "nl_open s" "nl_moditerms s t = Some tm" "mi_net tm \<noteq> 0"
  shows "effect (unlink_moditerm t) s [] (A\<lparr>c_mi := off t (c_mi A)\<rparr>)"
proof -
  note l = nl_absD(5) [OF assms(1)]
  have own: "mb_own moditerm_mnet tm \<noteq> 0" using assms(4) by (simp add: moditerm_mnet_def)
  note mem = off_owner [OF l linked_own [OF l assms(3) own]]
  obtain T' N' where r: "unlink_mod moditerm_mnet t (nl_moditerms s) (nl_modnets s) = Some (T', N')"
      "linked (links_of moditerm_mnet T') (heads_of moditerm_mnet N') (off t (c_mi A))"
    using miM.unlink_ok [OF l assms(3) own] unfolding mem by blast
  show ?thesis
    by (rule put_effect [where f = "unlink_moditerm t" and s = s, OF r(1) unlink_moditerm_def assms(2)])
      (use assms(1) r(2) in \<open>simp_all add: put_defs unlink_mod_keeps [OF r(1)]\<close>)
qed

lemma link_modbterm_effect:
  assumes "nl_abs s A" "nl_open s" "nl_modbterms s t = Some tm" "\<And>m. t \<notin> set (c_mb A m)" "nl_modnets s n = Some net"
  shows "effect (link_modbterm t n) s [] (A\<lparr>c_mb := (c_mb A)(n := t # c_mb A n)\<rparr>)"
proof -
  note l = nl_absD(6) [OF assms(1)]
  obtain T' N' where r: "push_front modbterm_mnet t n (nl_modbterms s) (nl_modnets s) = Some (T', N')"
      "push_front_clear modbterm_mnet t n (nl_modbterms s) (nl_modnets s) = Some (T', N')"
      "linked (links_of modbterm_mnet T') (heads_of modbterm_mnet N') ((c_mb A)(n := t # c_mb A n))"
    using mbM.push_front_ok [OF l assms(3) linked_alone [OF l assms(3,4)] assms(5)] by blast
  show ?thesis
    by (rule put_effect [where f = "link_modbterm t n" and s = s, OF r(1) link_modbterm_def assms(2)])
      (use assms(1) r(3) in \<open>simp_all add: put_defs push_front_keeps [OF r(1)]\<close>)
qed

lemma unlink_modbterm_effect:
  assumes "nl_abs s A" "nl_open s" "nl_modbterms s t = Some tm" "mb_net tm \<noteq> 0"
  shows "effect (unlink_modbterm t) s [] (A\<lparr>c_mb := off t (c_mb A)\<rparr>)"
proof -
  note l = nl_absD(6) [OF assms(1)]
  have own: "mb_own modbterm_mnet tm \<noteq> 0" using assms(4) by (simp add: modbterm_mnet_def)
  note mem = off_owner [OF l linked_own [OF l assms(3) own]]
  obtain T' N' where r: "unlink_mod modbterm_mnet t (nl_modbterms s) (nl_modnets s) = Some (T', N')"
      "linked (links_of modbterm_mnet T') (heads_of modbterm_mnet N') (off t (c_mb A))"
    using mbM.unlink_ok [OF l assms(3) own] unfolding mem by blast
  show ?thesis
    by (rule put_effect [where f = "unlink_modbterm t" and s = s, OF r(1) unlink_modbterm_def assms(2)])
      (use assms(1) r(2) in \<open>simp_all add: put_defs unlink_mod_keeps [OF r(1)]\<close>)
qed

section \<open>What the operations do\<close>

text \<open>Recording and notifying leave the tables alone.\<close>

definition nl_tabs :: "netlist \<Rightarrow> ninst tab \<times> iterm tab \<times> bterm tab \<times> net tab \<times> modnet tab \<times> moditerm tab \<times> modbterm tab" where
  "nl_tabs s = (nl_insts s, nl_iterms s, nl_bterms s, nl_nets s, nl_modnets s, nl_moditerms s, nl_modbterms s)"

lemma effect_then_same:
  assumes "effect f s as A" "\<And>s1. nl_tabs (snd (f s)) = nl_tabs s"
    and "\<And>s1. nl_abs s1 A \<Longrightarrow> nl_open s1 \<Longrightarrow> nl_tabs s1 = nl_tabs s \<Longrightarrow> effect g s1 bs B"
  shows "effect (and_then f g) s (as @ bs) B"
  using assms nl_to_trans by (fastforce simp: effect_def and_then_def nl_to_def)

lemma effect_notify_then:
  assumes "nl_abs s A" "nl_open s"
    and "\<And>s1. nl_abs s1 A \<Longrightarrow> nl_open s1 \<Longrightarrow> nl_tabs s1 = nl_tabs s \<Longrightarrow> effect g s1 bs B"
  shows "effect (and_then (nl_notify e) g) s bs B"
  using effect_then_same [OF effect_notify [OF assms(1,2)] _ assms(3)] by (simp add: nl_notify_def nl_tabs_def)

lemma effect_record_then:
  assumes "nl_abs s A" "nl_open s" "words_only ps"
    and "\<And>s1. nl_abs s1 A \<Longrightarrow> nl_open s1 \<Longrightarrow> nl_tabs s1 = nl_tabs s \<Longrightarrow> effect g s1 bs B"
  shows "effect (and_then (nl_record a ps) g) s ((a, ps) # bs) B"
  using effect_then_same [OF effect_record [OF assms(1,2,3)] _ assms(4)]
  by (simp add: nl_record_def nl_tabs_def split: option.split sum.split)

lemma effect_then_notify: "effect f s as A \<Longrightarrow> effect (and_then f (nl_notify e)) s as A"
  by (erule effect_then [where bs = "[]"]) (simp_all add: nl_to_def effect_notify)

lemma effect_with_obj: "sel s i = Some x \<Longrightarrow> effect (with_obj sel i k) s as A = effect (k x) s as A"
  by (simp add: effect_def with_obj_def)

lemma words_only_simps [simp]:
  "words_only [JInt a, JUInt b, JUInt c]" "words_only [JInt a, JUInt b, JUInt c, JUInt d]"
  "words_only [JInt a, JUInt b, JUInt c, JInt d]" "words_only [JInt a, JUInt b, JInt c, JUInt d]"
  by (auto simp: words_only_def)

lemma own_exists:
  assumes "nl_abs s A"
  shows "nl_iterms s t = Some it \<Longrightarrow> it_net it \<noteq> 0 \<Longrightarrow> \<exists>x. nl_nets s (it_net it) = Some x"
    "nl_iterms s t = Some it \<Longrightarrow> it_mnet it \<noteq> 0 \<Longrightarrow> \<exists>x. nl_modnets s (it_mnet it) = Some x"
    "nl_bterms s t = Some bt \<Longrightarrow> bt_net bt \<noteq> 0 \<Longrightarrow> \<exists>x. nl_nets s (bt_net bt) = Some x"
    "nl_bterms s t = Some bt \<Longrightarrow> bt_mnet bt \<noteq> 0 \<Longrightarrow> \<exists>x. nl_modnets s (bt_mnet bt) = Some x"
    "nl_moditerms s t = Some mi \<Longrightarrow> mi_net mi \<noteq> 0 \<Longrightarrow> \<exists>x. nl_modnets s (mi_net mi) = Some x"
    "nl_modbterms s t = Some mb \<Longrightarrow> mb_net mb \<noteq> 0 \<Longrightarrow> \<exists>x. nl_modnets s (mb_net mb) = Some x"
  using linked_net [OF nl_absD(1) [OF assms]] linked_net [OF nl_absD(2) [OF assms]]
    linked_net [OF nl_absD(3) [OF assms]] linked_net [OF nl_absD(4) [OF assms]]
    linked_net [OF nl_absD(5) [OF assms]] linked_net [OF nl_absD(6) [OF assms]]
  by (simp_all add: field_defs)

lemma null_objects:
  assumes "nl_abs s A"
  shows "nl_nets s 0 = None" "nl_modnets s 0 = None" "nl_iterms s 0 = None" "nl_bterms s 0 = None"
    "nl_moditerms s 0 = None" "nl_modbterms s 0 = None"
  using linkedD(1,2) [OF nl_absD(1) [OF assms]] linkedD(1,2) [OF nl_absD(2) [OF assms]]
    linkedD(1,2) [OF nl_absD(3) [OF assms]] linkedD(1,2) [OF nl_absD(5) [OF assms]] linkedD(1,2) [OF nl_absD(6) [OF assms]]
  by (simp_all add: links_of_def heads_of_def proj_def)

lemma off_notins:
  assumes "nl_abs s A"
  shows "t \<notin> set (off t (c_it A) m)" "t \<notin> set (off t (c_itm A) m)" "t \<notin> set (off t (c_bt A) m)"
    "t \<notin> set (off t (c_btm A) m)" "t \<notin> set (off t (c_mi A) m)" "t \<notin> set (off t (c_mb A) m)"
  using nl_absD [OF assms] by (simp_all add: off_notin)

lemma nl_to_objects:
  assumes "nl_to s as A s1"
  shows "nl_insts s1 = nl_insts s"
    "nl_iterms s t = Some it \<Longrightarrow> \<exists>x. nl_iterms s1 t = Some x \<and> it_inst x = it_inst it"
    "nl_nets s n = Some net \<Longrightarrow> \<exists>x. nl_nets s1 n = Some x \<and> nt_dont_touch x = nt_dont_touch net"
    "nl_modnets s n = Some mn \<Longrightarrow> \<exists>x. nl_modnets s1 n = Some x"
    "nl_bterms s t = Some bt \<Longrightarrow> \<exists>x. nl_bterms s1 t = Some x"
    "nl_moditerms s t = Some mi \<Longrightarrow> \<exists>x. nl_moditerms s1 t = Some x"
    "nl_modbterms s t = Some mb \<Longrightarrow> \<exists>x. nl_modbterms s1 t = Some x"
proof -
  have "nl_insts s1 = nl_insts s" and p: "proj it_inst (nl_iterms s1) = proj it_inst (nl_iterms s)"
    "proj nt_dont_touch (nl_nets s1) = proj nt_dont_touch (nl_nets s)"
    "proj (\<lambda>_. ()) (nl_modnets s1) = proj (\<lambda>_. ()) (nl_modnets s)"
    "proj (\<lambda>_. ()) (nl_bterms s1) = proj (\<lambda>_. ()) (nl_bterms s)"
    "proj (\<lambda>_. ()) (nl_moditerms s1) = proj (\<lambda>_. ()) (nl_moditerms s)"
    "proj (\<lambda>_. ()) (nl_modbterms s1) = proj (\<lambda>_. ()) (nl_modbterms s)"
    using assms by (simp_all add: nl_to_def nl_static_def)
  then show "nl_insts s1 = nl_insts s" by simp
  note q = p [THEN fun_cong, unfolded proj_def]
  show "nl_iterms s t = Some it \<Longrightarrow> \<exists>x. nl_iterms s1 t = Some x \<and> it_inst x = it_inst it" using q(1) [of t] by auto
  show "nl_nets s n = Some net \<Longrightarrow> \<exists>x. nl_nets s1 n = Some x \<and> nt_dont_touch x = nt_dont_touch net"
    using q(2) [of n] by auto
  show "nl_modnets s n = Some mn \<Longrightarrow> \<exists>x. nl_modnets s1 n = Some x" using q(3) [of n] by auto
  show "nl_bterms s t = Some bt \<Longrightarrow> \<exists>x. nl_bterms s1 t = Some x" using q(4) [of t] by auto
  show "nl_moditerms s t = Some mi \<Longrightarrow> \<exists>x. nl_moditerms s1 t = Some x" using q(5) [of t] by auto
  show "nl_modbterms s t = Some mb \<Longrightarrow> \<exists>x. nl_modbterms s1 t = Some x" using q(6) [of t] by auto
qed

lemmas effect_intros = effect_notify_then effect_record_then effect_then_notify

text \<open>An instance terminal that may be moved: neither its instance nor its net is protected.\<close>

definition iterm_free :: "netlist \<Rightarrow> u32 \<Rightarrow> bool" where
  "iterm_free s t \<longleftrightarrow> (\<exists>tm i. nl_iterms s t = Some tm \<and> nl_insts s (it_inst tm) = Some i \<and> \<not> ni_dont_touch i \<and>
     (\<forall>net. nl_nets s (it_net tm) = Some net \<longrightarrow> \<not> nt_dont_touch net))"

lemma iterm_disconnectDbNet_effect:
  assumes "nl_abs s A" "nl_open s" "iterm_free s t" "nl_iterms s t = Some tm" "it_net tm \<noteq> 0"
  shows "effect (iterm_disconnectDbNet t) s
    [(DISCONNECT_OBJECT, [JInt dbITermObj, JUInt t, JUInt (it_net tm), JInt 0])] (A\<lparr>c_it := off t (c_it A)\<rparr>)"
proof -
  obtain net i where o': "nl_nets s (it_net tm) = Some net" "\<not> nt_dont_touch net" "nl_insts s (it_inst tm) = Some i"
      "\<not> ni_dont_touch i"
    using assms(3,4) own_exists(1) [OF assms(1,4,5)] by (auto simp: iterm_free_def)
  show ?thesis
    unfolding iterm_disconnectDbNet_def using assms o'
    by (simp add: effect_with_obj)
      (intro effect_intros unlink_iterm_net_effect; simp add: nl_tabs_def)
qed

lemma iterm_disconnectModNet_effect:
  assumes "nl_abs s A" "nl_open s" "nl_iterms s t = Some tm" "it_mnet tm \<noteq> 0"
  shows "effect (iterm_disconnectModNet t) s
    [(DISCONNECT_OBJECT, [JInt dbITermObj, JUInt t, JInt 0, JUInt (it_mnet tm)])] (A\<lparr>c_itm := off t (c_itm A)\<rparr>)"
proof -
  obtain mn where "nl_modnets s (it_mnet tm) = Some mn" using own_exists(2) [OF assms(1,3,4)] by blast
  then show ?thesis
    unfolding iterm_disconnectModNet_def using assms
    by (simp add: effect_with_obj) (intro effect_intros unlink_iterm_mnet_effect; simp add: nl_tabs_def)
qed

lemma same_lists:
  "c_it A = L \<Longrightarrow> A\<lparr>c_it := L\<rparr> = A" "c_itm A = L \<Longrightarrow> A\<lparr>c_itm := L\<rparr> = A" "c_bt A = L \<Longrightarrow> A\<lparr>c_bt := L\<rparr> = A"
  "c_btm A = L \<Longrightarrow> A\<lparr>c_btm := L\<rparr> = A" "c_mi A = L \<Longrightarrow> A\<lparr>c_mi := L\<rparr> = A" "c_mb A = L \<Longrightarrow> A\<lparr>c_mb := L\<rparr> = A"
  by auto

lemma iterm_leave_effect:
  assumes "nl_abs s A" "nl_open s" "iterm_free s t" "nl_iterms s t = Some tm"
  shows "effect (if it_net tm \<noteq> 0 then iterm_disconnectDbNet t else nl_skip) s
    (if it_net tm \<noteq> 0 then [(DISCONNECT_OBJECT, [JInt dbITermObj, JUInt t, JUInt (it_net tm), JInt 0])] else [])
    (A\<lparr>c_it := off t (c_it A)\<rparr>)"
proof (cases "it_net tm = 0")
  case True
  then have "A\<lparr>c_it := off t (c_it A)\<rparr> = A"
    using unconnected(1) [OF assms(1,4)] by (intro same_lists off_alone [symmetric]) simp
  with True effect_skip [OF assms(1,2)] show ?thesis by simp
qed (use iterm_disconnectDbNet_effect [OF assms] in simp)

lemma iterm_leave_mnet_effect:
  assumes "nl_abs s A" "nl_open s" "nl_iterms s t = Some tm"
  shows "effect (if it_mnet tm \<noteq> 0 then iterm_disconnectModNet t else nl_skip) s
    (if it_mnet tm \<noteq> 0 then [(DISCONNECT_OBJECT, [JInt dbITermObj, JUInt t, JInt 0, JUInt (it_mnet tm)])] else [])
    (A\<lparr>c_itm := off t (c_itm A)\<rparr>)"
proof (cases "it_mnet tm = 0")
  case True
  then have "A\<lparr>c_itm := off t (c_itm A)\<rparr> = A"
    using unconnected(2) [OF assms(1,3)] by (intro same_lists off_alone [symmetric]) simp
  with True effect_skip [OF assms(1,2)] show ?thesis by simp
qed (use iterm_disconnectModNet_effect [OF assms] in simp)

lemma iterm_connect_net_effect:
  assumes "nl_abs s A" "nl_open s" "iterm_free s t" "nl_iterms s t = Some tm" "nl_nets s n = Some net"
    "\<not> nt_dont_touch net" "it_net tm \<noteq> n"
  shows "effect (iterm_connect_net t n) s
    ((if it_net tm \<noteq> 0 then [(DISCONNECT_OBJECT, [JInt dbITermObj, JUInt t, JUInt (it_net tm), JInt 0])] else []) @
      [(CONNECT_OBJECT, [JInt dbITermObj, JUInt t, JUInt n, JInt 0])])
    (A\<lparr>c_it := joined t n (c_it A)\<rparr>)"
proof -
  have n: "n \<noteq> 0" using assms(5) null_objects(1) [OF assms(1)] by auto
  obtain i where i: "nl_insts s (it_inst tm) = Some i" "\<not> ni_dont_touch i" using assms(3,4) by (auto simp: iterm_free_def)
  have linking: "effect (and_then (nl_notify (ItermPreConnect t n))
      (and_then (nl_record CONNECT_OBJECT [JInt dbITermObj, JUInt t, JUInt n, JInt 0])
      (and_then (link_iterm_net t n) (nl_notify (ItermPostConnect t))))) s1
      [(CONNECT_OBJECT, [JInt dbITermObj, JUInt t, JUInt n, JInt 0])] (A\<lparr>c_it := joined t n (c_it A)\<rparr>)"
    if s1: "nl_to s as (A\<lparr>c_it := off t (c_it A)\<rparr>) s1" for s1 as
  proof -
    obtain tm1 net1 where o': "nl_iterms s1 t = Some tm1" "nl_nets s1 n = Some net1"
      using nl_to_objects(2,3) [OF s1] assms(4,5) by blast
    have a: "nl_abs s1 (A\<lparr>c_it := off t (c_it A)\<rparr>)" "nl_open s1" using s1 by (simp_all add: nl_to_def)
    have "effect (link_iterm_net t n) s2 [] (A\<lparr>c_it := joined t n (c_it A)\<rparr>)"
      if "nl_abs s2 (A\<lparr>c_it := off t (c_it A)\<rparr>)" "nl_open s2" "nl_tabs s2 = nl_tabs s1" for s2
      using link_iterm_net_effect [OF that(1,2), of t tm1 n net1] o' that(3) off_notins(1) [OF assms(1), of t]
      by (simp add: nl_tabs_def joined_def)
    then show ?thesis using a by (intro effect_intros) (auto simp: nl_tabs_def)
  qed
  from effect_then [OF iterm_leave_effect [OF assms(1-4)] linking refl] show ?thesis
    unfolding iterm_connect_net_def using assms(4-7) i n
    by (cases "it_net tm = 0") (simp_all add: effect_with_obj)
qed

text \<open>
  Writing the net of the hierarchy into the terminal ahead of the recording has no effect of its
  own when the recording succeeds: linking writes it again.
\<close>

lemma push_front_own_idem:
  assumes "\<And>x. mb_set_own F n (mb_set_own F n x) = mb_set_own F n x"
  shows "push_front F t n (T(t := map_option (mb_set_own F n) (T t))) N = push_front F t n T N"
  by (cases "T t") (simp_all add: push_front_def wr_def assms)

lemma set_iterm_mnet_effect:
  assumes "effect (and_then (nl_record a ps) (link_iterm_mnet t n)) s as A" "nl_open s"
  shows "effect (and_then (set_iterm_mnet t n) (and_then (nl_record a ps) (link_iterm_mnet t n))) s as A"
proof -
  have i: "push_front iterm_mnet t n (T(t := map_option (\<lambda>x. x\<lparr>it_mnet := n\<rparr>) (T t))) N = push_front iterm_mnet t n T N" for T N
    using push_front_own_idem [of iterm_mnet n t T N] by (simp add: iterm_mnet_def)
  have "and_then (nl_record a ps) (link_iterm_mnet t n) s =
      and_then (set_iterm_mnet t n) (and_then (nl_record a ps) (link_iterm_mnet t n)) s \<or>
      fst (and_then (nl_record a ps) (link_iterm_mnet t n) s) \<noteq> None"
    by (auto simp: and_then_def set_iterm_mnet_def nl_record_def link_iterm_mnet_def put_lists_def i
        split: option.split sum.split prod.split)
  with assms(1) show ?thesis by (auto simp: effect_def)
qed

lemma set_bterm_mnet_effect:
  assumes "effect (and_then (nl_record a ps) (link_bterm_mnet t n)) s as A" "nl_open s"
  shows "effect (and_then (set_bterm_mnet t n) (and_then (nl_record a ps) (link_bterm_mnet t n))) s as A"
proof -
  have i: "push_front bterm_mnet t n (T(t := map_option (\<lambda>x. x\<lparr>bt_mnet := n\<rparr>) (T t))) N = push_front bterm_mnet t n T N" for T N
    using push_front_own_idem [of bterm_mnet n t T N] by (simp add: bterm_mnet_def)
  have "and_then (nl_record a ps) (link_bterm_mnet t n) s =
      and_then (set_bterm_mnet t n) (and_then (nl_record a ps) (link_bterm_mnet t n)) s \<or>
      fst (and_then (nl_record a ps) (link_bterm_mnet t n) s) \<noteq> None"
    by (auto simp: and_then_def set_bterm_mnet_def nl_record_def link_bterm_mnet_def put_lists_def i
        split: option.split sum.split prod.split)
  with assms(1) show ?thesis by (auto simp: effect_def)
qed

lemma iterm_connect_mnet_effect:
  assumes "nl_abs s A" "nl_open s" "nl_iterms s t = Some tm" "nl_insts s (it_inst tm) = Some i" "\<not> ni_dont_touch i"
    "nl_modnets s n = Some mn" "it_mnet tm \<noteq> n"
  shows "effect (iterm_connect_mnet t n) s
    ((if it_mnet tm \<noteq> 0 then [(DISCONNECT_OBJECT, [JInt dbITermObj, JUInt t, JInt 0, JUInt (it_mnet tm)])] else []) @
      [(CONNECT_OBJECT, [JInt dbITermObj, JUInt t, JInt 0, JUInt n])])
    (A\<lparr>c_itm := joined t n (c_itm A)\<rparr>)"
proof -
  have linking: "effect (and_then (set_iterm_mnet t n)
      (and_then (nl_record CONNECT_OBJECT [JInt dbITermObj, JUInt t, JInt 0, JUInt n]) (link_iterm_mnet t n))) s1
      [(CONNECT_OBJECT, [JInt dbITermObj, JUInt t, JInt 0, JUInt n])] (A\<lparr>c_itm := joined t n (c_itm A)\<rparr>)"
    if s1: "nl_to s as (A\<lparr>c_itm := off t (c_itm A)\<rparr>) s1" for s1 as
  proof -
    obtain tm1 mn1 where o': "nl_iterms s1 t = Some tm1" "nl_modnets s1 n = Some mn1"
      using nl_to_objects(2,4) [OF s1] assms(3,6) by blast
    have a: "nl_abs s1 (A\<lparr>c_itm := off t (c_itm A)\<rparr>)" "nl_open s1" using s1 by (simp_all add: nl_to_def)
    have "effect (link_iterm_mnet t n) s2 [] (A\<lparr>c_itm := joined t n (c_itm A)\<rparr>)"
      if "nl_abs s2 (A\<lparr>c_itm := off t (c_itm A)\<rparr>)" "nl_open s2" "nl_tabs s2 = nl_tabs s1" for s2
      using link_iterm_mnet_effect [OF that(1,2), of t tm1 n mn1] o' that(3) off_notins(2) [OF assms(1), of t]
      by (simp add: nl_tabs_def joined_def)
    then show ?thesis using a by (intro set_iterm_mnet_effect effect_intros) auto
  qed
  from effect_then [OF iterm_leave_mnet_effect [OF assms(1-3)] linking refl] show ?thesis
    unfolding iterm_connect_mnet_def using assms(3-7)
    by (cases "it_mnet tm = 0") (simp_all add: effect_with_obj)
qed

lemma iterm_disconnect_effect:
  assumes "nl_abs s A" "nl_open s" "iterm_free s t" "nl_iterms s t = Some tm" "it_net tm \<noteq> 0 \<or> it_mnet tm \<noteq> 0"
  shows "effect (iterm_disconnect t) s
    [(DISCONNECT_OBJECT, [JInt dbITermObj, JUInt t, JUInt (it_net tm), JUInt (it_mnet tm)])]
    (A\<lparr>c_it := off t (c_it A), c_itm := off t (c_itm A)\<rparr>)"
proof -
  obtain i where i: "nl_insts s (it_inst tm) = Some i" "\<not> ni_dont_touch i" using assms(3,4) by (auto simp: iterm_free_def)
  have touch: "\<not> nt_dont_touch net" if "nl_nets s (it_net tm) = Some net" for net
    using that assms(3,4) by (auto simp: iterm_free_def)
  note none = unconnected(1,2) [OF assms(1,4)]
  define g1 where "g1 = (if it_net tm \<noteq> 0 then and_then (unlink_iterm_net t) (nl_notify (ItermPostDisconnect t (it_net tm))) else nl_skip)"
  define g2 where "g2 = (if it_mnet tm \<noteq> 0 then unlink_iterm_mnet t else nl_skip)"
  have e1: "effect g1 s1 [] (A\<lparr>c_it := off t (c_it A)\<rparr>)"
    if "nl_abs s1 A" "nl_open s1" "nl_tabs s1 = nl_tabs s" for s1
  proof (cases "it_net tm = 0")
    case True
    then have "A\<lparr>c_it := off t (c_it A)\<rparr> = A" using none(1) by (intro same_lists off_alone [symmetric]) simp
    with True effect_skip [OF that(1,2)] show ?thesis by (simp add: g1_def)
  next
    case False
    have "nl_iterms s1 t = Some tm" using that(3) assms(4) by (simp add: nl_tabs_def)
    with False show ?thesis unfolding g1_def
      by (simp add: effect_then_notify [OF unlink_iterm_net_effect [OF that(1,2)]])
  qed
  have e2: "effect g2 s1 [] (A\<lparr>c_it := off t (c_it A), c_itm := off t (c_itm A)\<rparr>)"
    if s1: "nl_to s2 as (A\<lparr>c_it := off t (c_it A)\<rparr>) s1" and s2: "nl_iterms s2 t = Some tm" for s1 s2 as
  proof -
    obtain tm1 where tm1: "nl_iterms s1 t = Some tm1" using nl_to_objects(2) [OF s1] s2 by blast
    have a: "nl_abs s1 (A\<lparr>c_it := off t (c_it A)\<rparr>)" "nl_open s1" using s1 by (simp_all add: nl_to_def)
    note n1 = unconnected(2) [OF a(1) tm1]
    show ?thesis
    proof (cases "it_mnet tm = 0")
      case True
      then have "A\<lparr>c_it := off t (c_it A), c_itm := off t (c_itm A)\<rparr> = A\<lparr>c_it := off t (c_it A)\<rparr>"
        using none(2) off_alone [of t "c_itm A"] by simp
      with True effect_skip [OF a] show ?thesis by (simp add: g2_def)
    next
      case False
      then have "it_mnet tm1 \<noteq> 0" using n1 none(2) by simp
      with False unlink_iterm_mnet_effect [OF a tm1] show ?thesis by (simp add: g2_def)
    qed
  qed
  have body: "effect (and_then (nl_record DISCONNECT_OBJECT [JInt dbITermObj, JUInt t, JUInt (it_net tm), JUInt (it_mnet tm)])
      (and_then (nl_notify (ItermPreDisconnect t)) (and_then g1 g2))) s
    [(DISCONNECT_OBJECT, [JInt dbITermObj, JUInt t, JUInt (it_net tm), JUInt (it_mnet tm)])]
    (A\<lparr>c_it := off t (c_it A), c_itm := off t (c_itm A)\<rparr>)"
  proof (rule effect_record_then [OF assms(1,2) words_only_simps(2)], rule effect_notify_then)
    fix s1 s2 assume s: "nl_abs s1 A" "nl_open s1" "nl_tabs s1 = nl_tabs s" "nl_abs s2 A" "nl_open s2" "nl_tabs s2 = nl_tabs s1"
    then have "nl_iterms s2 t = Some tm" using assms(4) by (simp add: nl_tabs_def)
    then show "effect (and_then g1 g2) s2 [] (A\<lparr>c_it := off t (c_it A), c_itm := off t (c_itm A)\<rparr>)"
      using e1 [of s2] s by (intro effect_then [where as = "[]" and bs = "[]", OF _ e2]) auto
  qed
  have "\<exists>net. nl_nets s (it_net tm) = Some net" if "it_net tm \<noteq> 0" using own_exists(1) [OF assms(1,4) that] .
  moreover have "\<exists>mn. nl_modnets s (it_mnet tm) = Some mn" if "it_mnet tm \<noteq> 0" using own_exists(2) [OF assms(1,4) that] .
  ultimately show ?thesis
    using body assms(4,5) i touch
    by (cases "it_net tm = 0"; cases "it_mnet tm = 0")
      (auto simp: iterm_disconnect_def effect_with_obj with_opt_def g1_def g2_def)
qed

lemma bterm_disconnectNet_effect:
  assumes "nl_abs s A" "nl_open s" "nl_bterms s t = Some tm" "bt_net tm \<noteq> 0"
  shows "effect (bterm_disconnectNet t) s
    [(DISCONNECT_OBJECT, [JInt dbBTermObj, JUInt t, JUInt (bt_net tm), JUInt 0])] (A\<lparr>c_bt := off t (c_bt A)\<rparr>)"
proof -
  obtain net where "nl_nets s (bt_net tm) = Some net" using own_exists(3) [OF assms(1,3,4)] by blast
  then show ?thesis
    unfolding bterm_disconnectNet_def using assms
    by (simp add: effect_with_obj) (intro effect_intros unlink_bterm_net_effect; simp add: nl_tabs_def)
qed

lemma bterm_disconnectModNet_effect:
  assumes "nl_abs s A" "nl_open s" "nl_bterms s t = Some tm" "bt_mnet tm \<noteq> 0"
  shows "effect (bterm_disconnectModNet t) s
    [(DISCONNECT_OBJECT, [JInt dbBTermObj, JUInt t, JUInt 0, JUInt (bt_mnet tm)])] (A\<lparr>c_btm := off t (c_btm A)\<rparr>)"
proof -
  obtain mn where "nl_modnets s (bt_mnet tm) = Some mn" using own_exists(4) [OF assms(1,3,4)] by blast
  then show ?thesis
    unfolding bterm_disconnectModNet_def using assms
    by (simp add: effect_with_obj) (intro effect_intros unlink_bterm_mnet_effect; simp add: nl_tabs_def)
qed

lemma bterm_connectNet_effect:
  assumes "nl_abs s A" "nl_open s" "nl_bterms s t = Some tm" "\<And>m. t \<notin> set (c_bt A m)" "nl_nets s n = Some net"
  shows "effect (bterm_connectNet t n) s
    [(CONNECT_OBJECT, [JInt dbBTermObj, JUInt t, JUInt n, JUInt 0])] (A\<lparr>c_bt := (c_bt A)(n := t # c_bt A n)\<rparr>)"
  unfolding bterm_connectNet_def using assms
  by (intro effect_intros link_bterm_net_effect; simp add: nl_tabs_def)

lemma bterm_connectModNet_effect:
  assumes "nl_abs s A" "nl_open s" "nl_bterms s t = Some tm" "\<And>m. t \<notin> set (c_btm A m)" "nl_modnets s n = Some mn"
  shows "effect (bterm_connectModNet t n) s
    [(CONNECT_OBJECT, [JInt dbBTermObj, JUInt t, JUInt 0, JUInt n])] (A\<lparr>c_btm := (c_btm A)(n := t # c_btm A n)\<rparr>)"
  unfolding bterm_connectModNet_def using assms
  by (intro set_bterm_mnet_effect effect_intros link_bterm_mnet_effect; simp add: nl_tabs_def)

text \<open>A block terminal on a net that is not protected.\<close>

definition bterm_free :: "netlist \<Rightarrow> u32 \<Rightarrow> bool" where
  "bterm_free s t \<longleftrightarrow> (\<exists>tm. nl_bterms s t = Some tm \<and>
     (\<forall>net. nl_nets s (bt_net tm) = Some net \<longrightarrow> \<not> nt_dont_touch net))"

lemma bterm_disconnectDbNet_effect:
  assumes "nl_abs s A" "nl_open s" "bterm_free s t" "nl_bterms s t = Some tm" "bt_net tm \<noteq> 0"
  shows "effect (bterm_disconnectDbNet t) s
    [(DISCONNECT_OBJECT, [JInt dbBTermObj, JUInt t, JUInt (bt_net tm), JUInt 0])] (A\<lparr>c_bt := off t (c_bt A)\<rparr>)"
proof -
  obtain net where "nl_nets s (bt_net tm) = Some net" "\<not> nt_dont_touch net"
    using own_exists(3) [OF assms(1,4,5)] assms(3,4) by (auto simp: bterm_free_def)
  then show ?thesis
    unfolding bterm_disconnectDbNet_def using assms bterm_disconnectNet_effect [OF assms(1,2,4,5)]
    by (simp add: effect_with_obj)
qed

lemma bterm_connect_net_effect:
  assumes "nl_abs s A" "nl_open s" "bterm_free s t" "nl_bterms s t = Some tm" "nl_nets s n = Some net"
    "\<not> nt_dont_touch net"
  shows "effect (bterm_connect_net t n) s
    ((if bt_net tm \<noteq> 0 then [(DISCONNECT_OBJECT, [JInt dbBTermObj, JUInt t, JUInt (bt_net tm), JUInt 0])] else []) @
      [(CONNECT_OBJECT, [JInt dbBTermObj, JUInt t, JUInt n, JUInt 0])])
    (A\<lparr>c_bt := joined t n (c_bt A)\<rparr>)"
proof -
  have leave: "effect (if bt_net tm \<noteq> 0 then bterm_disconnectDbNet t else nl_skip) s
      (if bt_net tm \<noteq> 0 then [(DISCONNECT_OBJECT, [JInt dbBTermObj, JUInt t, JUInt (bt_net tm), JUInt 0])] else [])
      (A\<lparr>c_bt := off t (c_bt A)\<rparr>)"
  proof (cases "bt_net tm = 0")
    case True
    then have "A\<lparr>c_bt := off t (c_bt A)\<rparr> = A"
      using unconnected(3) [OF assms(1,4)] by (intro same_lists off_alone [symmetric]) simp
    with True effect_skip [OF assms(1,2)] show ?thesis by simp
  qed (use bterm_disconnectDbNet_effect [OF assms(1-4)] in simp)
  have linking: "effect (bterm_connectNet t n) s1 [(CONNECT_OBJECT, [JInt dbBTermObj, JUInt t, JUInt n, JUInt 0])]
      (A\<lparr>c_bt := joined t n (c_bt A)\<rparr>)" if s1: "nl_to s as (A\<lparr>c_bt := off t (c_bt A)\<rparr>) s1" for s1 as
  proof -
    obtain tm1 net1 where o': "nl_bterms s1 t = Some tm1" "nl_nets s1 n = Some net1"
      using nl_to_objects(5,3) [OF s1] assms(4,5) by blast
    have a: "nl_abs s1 (A\<lparr>c_bt := off t (c_bt A)\<rparr>)" "nl_open s1" using s1 by (simp_all add: nl_to_def)
    show ?thesis
      using bterm_connectNet_effect [OF a o'(1) _ o'(2)] off_notins(3) [OF assms(1), of t] by (simp add: joined_def)
  qed
  from effect_then [OF leave linking refl] show ?thesis
    unfolding bterm_connect_net_def using assms(4-6)
    by (cases "bt_net tm = 0") (simp_all add: effect_with_obj)
qed

lemma bterm_connect_mnet_effect:
  assumes "nl_abs s A" "nl_open s" "nl_bterms s t = Some tm" "nl_modnets s n = Some mn" "bt_mnet tm \<noteq> n"
  shows "effect (bterm_connect_mnet t n) s
    ((if bt_mnet tm \<noteq> 0 then [(DISCONNECT_OBJECT, [JInt dbBTermObj, JUInt t, JUInt 0, JUInt (bt_mnet tm)])] else []) @
      [(CONNECT_OBJECT, [JInt dbBTermObj, JUInt t, JUInt 0, JUInt n])])
    (A\<lparr>c_btm := joined t n (c_btm A)\<rparr>)"
proof -
  have leave: "effect (if bt_mnet tm \<noteq> 0 then bterm_disconnectModNet t else nl_skip) s
      (if bt_mnet tm \<noteq> 0 then [(DISCONNECT_OBJECT, [JInt dbBTermObj, JUInt t, JUInt 0, JUInt (bt_mnet tm)])] else [])
      (A\<lparr>c_btm := off t (c_btm A)\<rparr>)"
  proof (cases "bt_mnet tm = 0")
    case True
    then have "A\<lparr>c_btm := off t (c_btm A)\<rparr> = A"
      using unconnected(4) [OF assms(1,3)] by (intro same_lists off_alone [symmetric]) simp
    with True effect_skip [OF assms(1,2)] show ?thesis by simp
  qed (use bterm_disconnectModNet_effect [OF assms(1-3)] in simp)
  have linking: "effect (bterm_connectModNet t n) s1 [(CONNECT_OBJECT, [JInt dbBTermObj, JUInt t, JUInt 0, JUInt n])]
      (A\<lparr>c_btm := joined t n (c_btm A)\<rparr>)" if s1: "nl_to s as (A\<lparr>c_btm := off t (c_btm A)\<rparr>) s1" for s1 as
  proof -
    obtain tm1 mn1 where o': "nl_bterms s1 t = Some tm1" "nl_modnets s1 n = Some mn1"
      using nl_to_objects(5,4) [OF s1] assms(3,4) by blast
    have a: "nl_abs s1 (A\<lparr>c_btm := off t (c_btm A)\<rparr>)" "nl_open s1" using s1 by (simp_all add: nl_to_def)
    show ?thesis
      using bterm_connectModNet_effect [OF a o'(1) _ o'(2)] off_notins(4) [OF assms(1), of t] by (simp add: joined_def)
  qed
  from effect_then [OF leave linking refl] show ?thesis
    unfolding bterm_connect_mnet_def using assms(3-5)
    by (cases "bt_mnet tm = 0") (simp_all add: effect_with_obj)
qed

lemma bterm_disconnect_effect:
  assumes "nl_abs s A" "nl_open s" "bterm_free s t" "nl_bterms s t = Some tm" "bt_net tm \<noteq> 0"
  shows "effect (bterm_disconnect t) s
    ([(DISCONNECT_OBJECT, [JInt dbBTermObj, JUInt t, JUInt (bt_net tm), JUInt 0])] @
      (if bt_mnet tm \<noteq> 0 then [(DISCONNECT_OBJECT, [JInt dbBTermObj, JUInt t, JUInt 0, JUInt (bt_mnet tm)])] else []))
    (A\<lparr>c_bt := off t (c_bt A), c_btm := off t (c_btm A)\<rparr>)"
proof -
  obtain net where net: "nl_nets s (bt_net tm) = Some net" "\<not> nt_dont_touch net"
    using own_exists(3) [OF assms(1,4,5)] assms(3,4) by (auto simp: bterm_free_def)
  note none = unconnected(4) [OF assms(1,4)]
  have rest: "effect (if bt_mnet tm \<noteq> 0 then bterm_disconnectModNet t else nl_skip) s1
      (if bt_mnet tm \<noteq> 0 then [(DISCONNECT_OBJECT, [JInt dbBTermObj, JUInt t, JUInt 0, JUInt (bt_mnet tm)])] else [])
      (A\<lparr>c_bt := off t (c_bt A), c_btm := off t (c_btm A)\<rparr>)"
    if s1: "bterm_disconnectNet t s = (None, s1)" "nl_to s as (A\<lparr>c_bt := off t (c_bt A)\<rparr>) s1" for s1 as
  proof -
    have a: "nl_abs s1 (A\<lparr>c_bt := off t (c_bt A)\<rparr>)" "nl_open s1" using s1 by (simp_all add: nl_to_def)
    have "proj bt_mnet (nl_bterms s1) = proj bt_mnet (nl_bterms s)"
      using s1(1) unlink_keeps(1) [where F = bterm_net and P = bt_mnet]
      by (auto simp: bterm_disconnectNet_def with_obj_def and_then_def nl_record_def nl_notify_def unlink_bterm_net_def
          put_lists_def nl_skip_def keeps_def bterm_net_def split: option.splits if_splits sum.splits prod.splits)
    then obtain tm1 where tm1: "nl_bterms s1 t = Some tm1" "bt_mnet tm1 = bt_mnet tm"
      using assms(4) by (auto simp: proj_def dest!: fun_cong [of _ _ t])
    show ?thesis
    proof (cases "bt_mnet tm = 0")
      case True
      then have "A\<lparr>c_bt := off t (c_bt A), c_btm := off t (c_btm A)\<rparr> = A\<lparr>c_bt := off t (c_bt A)\<rparr>"
        using none off_alone [of t "c_btm A"] by simp
      with True effect_skip [OF a] show ?thesis by simp
    next
      case False
      with bterm_disconnectModNet_effect [OF a tm1(1)] tm1(2) show ?thesis by simp
    qed
  qed
  obtain s1 where s1: "bterm_disconnectNet t s = (None, s1)"
      "nl_to s [(DISCONNECT_OBJECT, [JInt dbBTermObj, JUInt t, JUInt (bt_net tm), JUInt 0])] (A\<lparr>c_bt := off t (c_bt A)\<rparr>) s1"
    using bterm_disconnectNet_effect [OF assms(1,2,4,5)] by (auto simp: effect_def)
  obtain s2 where s2: "(if bt_mnet tm \<noteq> 0 then bterm_disconnectModNet t else nl_skip) s1 = (None, s2)"
      "nl_to s1 (if bt_mnet tm \<noteq> 0 then [(DISCONNECT_OBJECT, [JInt dbBTermObj, JUInt t, JUInt 0, JUInt (bt_mnet tm)])] else [])
        (A\<lparr>c_bt := off t (c_bt A), c_btm := off t (c_btm A)\<rparr>) s2"
    using rest [OF s1] by (auto simp: effect_def)
  have "bterm_disconnect t s = (None, s2)"
    using assms(4,5) net s1(1) s2(1) by (simp add: bterm_disconnect_def with_obj_def and_then_def)
  with nl_to_trans [OF s1(2) s2(2)] show ?thesis unfolding effect_def by blast
qed

lemma moditerm_connect_effect:
  assumes "nl_abs s A" "nl_open s" "nl_moditerms s t = Some tm" "nl_modnets s n = Some mn" "mi_net tm = 0"
  shows "effect (moditerm_connect t n) s [(CONNECT_OBJECT, [JInt dbModITermObj, JUInt t, JUInt n])]
    (A\<lparr>c_mi := joined t n (c_mi A)\<rparr>)"
proof -
  have n: "n \<noteq> 0" using assms(4) null_objects(2) [OF assms(1)] by auto
  have free: "\<And>m. t \<notin> set (c_mi A m)" using unconnected(5) [OF assms(1,3)] assms(5) by simp
  have "effect (and_then (link_moditerm t n) (nl_record CONNECT_OBJECT [JInt dbModITermObj, JUInt t, JUInt n])) s
    [(CONNECT_OBJECT, [JInt dbModITermObj, JUInt t, JUInt n])] (A\<lparr>c_mi := joined t n (c_mi A)\<rparr>)"
    by (rule effect_then [OF link_moditerm_effect [OF assms(1,2,3) free assms(4)]])
      (use free in \<open>simp_all add: nl_to_def joined_def off_alone effect_record\<close>)
  then show ?thesis unfolding moditerm_connect_def using assms n by (simp add: effect_with_obj)
qed

lemma moditerm_disconnect_effect:
  assumes "nl_abs s A" "nl_open s" "nl_moditerms s t = Some tm" "mi_net tm \<noteq> 0"
  shows "effect (moditerm_disconnect t) s [(DISCONNECT_OBJECT, [JInt dbModITermObj, JUInt t, JUInt (mi_net tm)])]
    (A\<lparr>c_mi := off t (c_mi A)\<rparr>)"
proof -
  obtain mn where "nl_modnets s (mi_net tm) = Some mn" using own_exists(5) [OF assms(1,3,4)] by blast
  then show ?thesis
    unfolding moditerm_disconnect_def using assms
    by (simp add: effect_with_obj) (intro effect_intros unlink_moditerm_effect; simp add: nl_tabs_def)
qed

lemma modbterm_connect_effect:
  assumes "nl_abs s A" "nl_open s" "nl_modbterms s t = Some tm" "nl_modnets s n = Some mn" "mb_net tm = 0"
  shows "effect (modbterm_connect t n) s [(CONNECT_OBJECT, [JInt dbModBTermObj, JUInt t, JUInt n])]
    (A\<lparr>c_mb := joined t n (c_mb A)\<rparr>)"
proof -
  have n: "n \<noteq> 0" using assms(4) null_objects(2) [OF assms(1)] by auto
  have free: "\<And>m. t \<notin> set (c_mb A m)" using unconnected(6) [OF assms(1,3)] assms(5) by simp
  have "effect (and_then (link_modbterm t n) (nl_record CONNECT_OBJECT [JInt dbModBTermObj, JUInt t, JUInt n])) s
    [(CONNECT_OBJECT, [JInt dbModBTermObj, JUInt t, JUInt n])] (A\<lparr>c_mb := joined t n (c_mb A)\<rparr>)"
    by (rule effect_then [OF link_modbterm_effect [OF assms(1,2,3) free assms(4)]])
      (use free in \<open>simp_all add: nl_to_def joined_def off_alone effect_record\<close>)
  then show ?thesis unfolding modbterm_connect_def using assms n by (simp add: effect_with_obj)
qed

lemma clear_modbterm_effect:
  assumes "nl_abs s A" "nl_open s" "nl_modbterms s t = Some tm" "\<And>m. t \<notin> set (c_mb A m)"
  shows "effect (clear_modbterm t) s [] A"
proof -
  let ?T = "(nl_modbterms s)(t := map_option (\<lambda>x. x\<lparr>mb_next := 0, mb_prev := 0\<rparr>) (nl_modbterms s t))"
  have "mb_net tm = 0" using unconnected(6) [OF assms(1,3)] assms(4) by simp
  then have "links_of modbterm_mnet (nl_modbterms s) t = Some (0, mb_next tm, mb_prev tm)"
    "links_of modbterm_mnet ?T = (links_of modbterm_mnet (nl_modbterms s))(t \<mapsto> (0, 0, 0))"
    using assms(3) by (auto simp: links_of_def proj_def modbterm_mnet_def)
  with linked_idle [OF nl_absD(6) [OF assms(1)]] have "nl_abs (s\<lparr>nl_modbterms := ?T\<rparr>) A"
    using assms(1) by (simp add: nl_abs_def)
  moreover have "nl_static (s\<lparr>nl_modbterms := ?T\<rparr>) = nl_static s"
    using assms(3) by (auto simp: nl_static_def proj_def fun_eq_iff)
  ultimately show ?thesis
    using assms(2) by (simp add: effect_def clear_modbterm_def nl_to_def nl_logged_same nl_open_def)
qed

lemma modbterm_disconnect_effect:
  assumes "nl_abs s A" "nl_open s" "nl_modbterms s t = Some tm" "mb_net tm \<noteq> 0"
  shows "effect (modbterm_disconnect t) s [(DISCONNECT_OBJECT, [JInt dbModBTermObj, JUInt t, JUInt (mb_net tm)])]
    (A\<lparr>c_mb := off t (c_mb A)\<rparr>)"
proof -
  obtain mn where mn: "nl_modnets s (mb_net tm) = Some mn" using own_exists(6) [OF assms(1,3,4)] by blast
  have "effect (and_then (unlink_modbterm t) (clear_modbterm t)) s1 [] (A\<lparr>c_mb := off t (c_mb A)\<rparr>)"
    if s1: "nl_abs s1 A" "nl_open s1" "nl_tabs s1 = nl_tabs s" for s1
  proof (rule effect_then [OF unlink_modbterm_effect [OF s1(1,2) _ assms(4)]])
    show "nl_modbterms s1 t = Some tm" using s1(3) assms(3) by (simp add: nl_tabs_def)
    fix s2 assume s2: "nl_to s1 [] (A\<lparr>c_mb := off t (c_mb A)\<rparr>) s2"
    then obtain tm2 where tm2: "nl_modbterms s2 t = Some tm2"
      using nl_to_objects(7) [OF s2] s1(3) assms(3) by (auto simp: nl_tabs_def)
    have "nl_abs s2 (A\<lparr>c_mb := off t (c_mb A)\<rparr>)" "nl_open s2" using s2 by (simp_all add: nl_to_def)
    from clear_modbterm_effect [OF this tm2]
    show "effect (clear_modbterm t) s2 [] (A\<lparr>c_mb := off t (c_mb A)\<rparr>)" using off_notins(6) [OF assms(1), of t] by simp
  qed simp
  then have "effect (and_then (nl_record DISCONNECT_OBJECT [JInt dbModBTermObj, JUInt t, JUInt (mb_net tm)])
      (and_then (unlink_modbterm t) (clear_modbterm t))) s
    [(DISCONNECT_OBJECT, [JInt dbModBTermObj, JUInt t, JUInt (mb_net tm)])] (A\<lparr>c_mb := off t (c_mb A)\<rparr>)"
    by (rule effect_record_then [OF assms(1,2) words_only_simps(1)])
  then show ?thesis
    unfolding modbterm_disconnect_def using assms mn by (simp add: effect_with_obj)
qed

end
