(* ===== verification/OdbConnections.thy ===== *)
theory OdbConnections imports OdbNetlist begin

text \<open>
  What the operations on the connections of a block guarantee, in any order: the six lists stay
  those of the terminals that name the net, an error leaves the netlist as it was, and each
  operation moves exactly the terminal it is about.  Then \<open>dbNet::mergeNet\<close>, and the operations
  that break the lists.
\<close>

section \<open>The operations as commands\<close>

datatype net_cmd =
    ItermConnect u32 u32
  | ItermConnectMod u32 u32
  | ItermDisconnect u32
  | ItermDisconnectNet u32
  | ItermDisconnectMod u32
  | BtermConnect u32 u32
  | BtermConnectMod u32 u32
  | BtermDisconnect u32
  | BtermDisconnectNet u32
  | BtermDisconnectMod u32
  | ModItermConnect u32 u32
  | ModItermDisconnect u32
  | ModBtermConnect u32 u32
  | ModBtermDisconnect u32
  | ReverseIterms u32
  | ReverseBterms u32

fun net_step :: "net_cmd \<Rightarrow> nl_step" where
  "net_step (ItermConnect t n) = iterm_connect_net t n"
| "net_step (ItermConnectMod t n) = iterm_connect_mnet t n"
| "net_step (ItermDisconnect t) = iterm_disconnect t"
| "net_step (ItermDisconnectNet t) = iterm_disconnectDbNet t"
| "net_step (ItermDisconnectMod t) = iterm_disconnectModNet t"
| "net_step (BtermConnect t n) = bterm_connect_net t n"
| "net_step (BtermConnectMod t n) = bterm_connect_mnet t n"
| "net_step (BtermDisconnect t) = bterm_disconnect t"
| "net_step (BtermDisconnectNet t) = bterm_disconnectDbNet t"
| "net_step (BtermDisconnectMod t) = bterm_disconnectDbModNet t"
| "net_step (ModItermConnect t n) = moditerm_connect t n"
| "net_step (ModItermDisconnect t) = moditerm_disconnect t"
| "net_step (ModBtermConnect t n) = modbterm_connect t n"
| "net_step (ModBtermDisconnect t) = modbterm_disconnect t"
| "net_step (ReverseIterms n) = net_iterms_reverse n"
| "net_step (ReverseBterms n) = net_bterms_reverse n"

text \<open>
  The calls that keep the lists intact: all but three kinds.  A terminal of a protected instance is not put on
  another net of the hierarchy, and a terminal of a module instance or of a module that is connected is
  disconnected before it is connected to another net.  The last section shows that each of these calls
  breaks the lists.
\<close>

fun net_cmd_ok :: "netlist \<Rightarrow> net_cmd \<Rightarrow> bool" where
  "net_cmd_ok s (ItermConnectMod t n) \<longleftrightarrow> (case nl_iterms s t of None \<Rightarrow> True
     | Some tm \<Rightarrow> (case nl_insts s (it_inst tm) of None \<Rightarrow> True
         | Some i \<Rightarrow> ni_dont_touch i \<longrightarrow> it_mnet tm = n \<or> nl_modnets s n = None))"
| "net_cmd_ok s (ModItermConnect t n) \<longleftrightarrow>
     (case nl_moditerms s t of None \<Rightarrow> True | Some tm \<Rightarrow> mi_net tm = 0 \<or> mi_net tm = n \<or> nl_modnets s n = None)"
| "net_cmd_ok s (ModBtermConnect t n) \<longleftrightarrow>
     (case nl_modbterms s t of None \<Rightarrow> True | Some tm \<Rightarrow> mb_net tm = 0 \<or> mb_net tm = n \<or> nl_modnets s n = None)"
| "net_cmd_ok s c \<longleftrightarrow> True"

definition nl_ok :: "netlist \<Rightarrow> bool" where
  "nl_ok s \<longleftrightarrow> (\<exists>A. nl_abs s A) \<and> nl_open s"

inductive nl_reach :: "netlist \<Rightarrow> netlist \<Rightarrow> bool" for s0 where
  nl_start: "nl_reach s0 s0"
| nl_call: "nl_reach s0 s \<Longrightarrow> net_cmd_ok s c \<Longrightarrow> nl_reach s0 (snd (net_step c s))"

section \<open>Every operation succeeds or leaves the netlist alone\<close>

text \<open>
  The specification of a command: the actions it records and the lists it leaves, as functions of
  the terminal's fields and of the lists before.
\<close>

datatype link_act =
    ItConn u32 u32
  | ItConnM u32 u32
  | ItDisc u32 u32 u32
  | ItDiscN u32 u32
  | ItDiscM u32 u32
  | BtConn u32 u32
  | BtConnM u32 u32
  | BtDisc u32 u32
  | BtDiscM u32 u32
  | MiConn u32 u32
  | MiDisc u32 u32
  | MbConn u32 u32
  | MbDisc u32 u32

fun link_enc :: "link_act \<Rightarrow> action" where
  "link_enc (ItConn t n) = (CONNECT_OBJECT, [JInt dbITermObj, JUInt t, JUInt n, JInt 0])"
| "link_enc (ItConnM t n) = (CONNECT_OBJECT, [JInt dbITermObj, JUInt t, JInt 0, JUInt n])"
| "link_enc (ItDisc t n m) = (DISCONNECT_OBJECT, [JInt dbITermObj, JUInt t, JUInt n, JUInt m])"
| "link_enc (ItDiscN t n) = (DISCONNECT_OBJECT, [JInt dbITermObj, JUInt t, JUInt n, JInt 0])"
| "link_enc (ItDiscM t n) = (DISCONNECT_OBJECT, [JInt dbITermObj, JUInt t, JInt 0, JUInt n])"
| "link_enc (BtConn t n) = (CONNECT_OBJECT, [JInt dbBTermObj, JUInt t, JUInt n, JUInt 0])"
| "link_enc (BtConnM t n) = (CONNECT_OBJECT, [JInt dbBTermObj, JUInt t, JUInt 0, JUInt n])"
| "link_enc (BtDisc t n) = (DISCONNECT_OBJECT, [JInt dbBTermObj, JUInt t, JUInt n, JUInt 0])"
| "link_enc (BtDiscM t n) = (DISCONNECT_OBJECT, [JInt dbBTermObj, JUInt t, JUInt 0, JUInt n])"
| "link_enc (MiConn t n) = (CONNECT_OBJECT, [JInt dbModITermObj, JUInt t, JUInt n])"
| "link_enc (MiDisc t n) = (DISCONNECT_OBJECT, [JInt dbModITermObj, JUInt t, JUInt n])"
| "link_enc (MbConn t n) = (CONNECT_OBJECT, [JInt dbModBTermObj, JUInt t, JUInt n])"
| "link_enc (MbDisc t n) = (DISCONNECT_OBJECT, [JInt dbModBTermObj, JUInt t, JUInt n])"

definition rehung :: "(u32 \<Rightarrow> link_act) \<Rightarrow> u32 \<Rightarrow> link_act \<Rightarrow> link_act list" where
  "rehung d n a = (if n \<noteq> 0 then [d n] else []) @ [a]"

definition dropped :: "(u32 \<Rightarrow> link_act) \<Rightarrow> u32 \<Rightarrow> link_act list" where
  "dropped d n = (if n \<noteq> 0 then [d n] else [])"

fun acts_of :: "netlist \<Rightarrow> net_cmd \<Rightarrow> link_act list" where
  "acts_of s (ItermConnect t n) = (case nl_iterms s t of None \<Rightarrow> []
     | Some tm \<Rightarrow> if it_net tm = n then [] else rehung (ItDiscN t) (it_net tm) (ItConn t n))"
| "acts_of s (ItermConnectMod t n) = (case nl_iterms s t of None \<Rightarrow> []
     | Some tm \<Rightarrow> if it_mnet tm = n then [] else rehung (ItDiscM t) (it_mnet tm) (ItConnM t n))"
| "acts_of s (ItermDisconnect t) = (case nl_iterms s t of None \<Rightarrow> []
     | Some tm \<Rightarrow> if it_net tm = 0 \<and> it_mnet tm = 0 then [] else [ItDisc t (it_net tm) (it_mnet tm)])"
| "acts_of s (ItermDisconnectNet t) = (case nl_iterms s t of None \<Rightarrow> [] | Some tm \<Rightarrow> dropped (ItDiscN t) (it_net tm))"
| "acts_of s (ItermDisconnectMod t) = (case nl_iterms s t of None \<Rightarrow> [] | Some tm \<Rightarrow> dropped (ItDiscM t) (it_mnet tm))"
| "acts_of s (BtermConnect t n) = (case nl_bterms s t of None \<Rightarrow> [] | Some tm \<Rightarrow> rehung (BtDisc t) (bt_net tm) (BtConn t n))"
| "acts_of s (BtermConnectMod t n) = (case nl_bterms s t of None \<Rightarrow> []
     | Some tm \<Rightarrow> if bt_mnet tm = n then [] else rehung (BtDiscM t) (bt_mnet tm) (BtConnM t n))"
| "acts_of s (BtermDisconnect t) = (case nl_bterms s t of None \<Rightarrow> []
     | Some tm \<Rightarrow> if bt_net tm = 0 then [] else BtDisc t (bt_net tm) # dropped (BtDiscM t) (bt_mnet tm))"
| "acts_of s (BtermDisconnectNet t) = (case nl_bterms s t of None \<Rightarrow> [] | Some tm \<Rightarrow> dropped (BtDisc t) (bt_net tm))"
| "acts_of s (BtermDisconnectMod t) = (case nl_bterms s t of None \<Rightarrow> [] | Some tm \<Rightarrow> dropped (BtDiscM t) (bt_mnet tm))"
| "acts_of s (ModItermConnect t n) = (case nl_moditerms s t of None \<Rightarrow> []
     | Some tm \<Rightarrow> if mi_net tm = n then [] else [MiConn t n])"
| "acts_of s (ModItermDisconnect t) = (case nl_moditerms s t of None \<Rightarrow> [] | Some tm \<Rightarrow> dropped (MiDisc t) (mi_net tm))"
| "acts_of s (ModBtermConnect t n) = (case nl_modbterms s t of None \<Rightarrow> []
     | Some tm \<Rightarrow> if mb_net tm = n then [] else [MbConn t n])"
| "acts_of s (ModBtermDisconnect t) = (case nl_modbterms s t of None \<Rightarrow> [] | Some tm \<Rightarrow> dropped (MbDisc t) (mb_net tm))"
| "acts_of s (ReverseIterms n) = []"
| "acts_of s (ReverseBterms n) = []"

fun lists_after :: "netlist \<Rightarrow> net_cmd \<Rightarrow> conn \<Rightarrow> conn" where
  "lists_after s (ItermConnect t n) A = (case nl_iterms s t of None \<Rightarrow> A
     | Some tm \<Rightarrow> if it_net tm = n then A else A\<lparr>c_it := joined t n (c_it A)\<rparr>)"
| "lists_after s (ItermConnectMod t n) A = (case nl_iterms s t of None \<Rightarrow> A
     | Some tm \<Rightarrow> if it_mnet tm = n then A else A\<lparr>c_itm := joined t n (c_itm A)\<rparr>)"
| "lists_after s (ItermDisconnect t) A = A\<lparr>c_it := off t (c_it A), c_itm := off t (c_itm A)\<rparr>"
| "lists_after s (ItermDisconnectNet t) A = A\<lparr>c_it := off t (c_it A)\<rparr>"
| "lists_after s (ItermDisconnectMod t) A = A\<lparr>c_itm := off t (c_itm A)\<rparr>"
| "lists_after s (BtermConnect t n) A = A\<lparr>c_bt := joined t n (c_bt A)\<rparr>"
| "lists_after s (BtermConnectMod t n) A = (case nl_bterms s t of None \<Rightarrow> A
     | Some tm \<Rightarrow> if bt_mnet tm = n then A else A\<lparr>c_btm := joined t n (c_btm A)\<rparr>)"
| "lists_after s (BtermDisconnect t) A = (case nl_bterms s t of None \<Rightarrow> A
     | Some tm \<Rightarrow> if bt_net tm = 0 then A else A\<lparr>c_bt := off t (c_bt A), c_btm := off t (c_btm A)\<rparr>)"
| "lists_after s (BtermDisconnectNet t) A = A\<lparr>c_bt := off t (c_bt A)\<rparr>"
| "lists_after s (BtermDisconnectMod t) A = A\<lparr>c_btm := off t (c_btm A)\<rparr>"
| "lists_after s (ModItermConnect t n) A = (case nl_moditerms s t of None \<Rightarrow> A
     | Some tm \<Rightarrow> if mi_net tm = n then A else A\<lparr>c_mi := joined t n (c_mi A)\<rparr>)"
| "lists_after s (ModItermDisconnect t) A = A\<lparr>c_mi := off t (c_mi A)\<rparr>"
| "lists_after s (ModBtermConnect t n) A = (case nl_modbterms s t of None \<Rightarrow> A
     | Some tm \<Rightarrow> if mb_net tm = n then A else A\<lparr>c_mb := joined t n (c_mb A)\<rparr>)"
| "lists_after s (ModBtermDisconnect t) A = A\<lparr>c_mb := off t (c_mb A)\<rparr>"
| "lists_after s (ReverseIterms n) A = A\<lparr>c_it := (c_it A)(n := rev (c_it A n))\<rparr>"
| "lists_after s (ReverseBterms n) A = A\<lparr>c_bt := (c_bt A)(n := rev (c_bt A n))\<rparr>"

definition outcome :: "nl_step \<Rightarrow> netlist \<Rightarrow> action list \<Rightarrow> conn \<Rightarrow> bool" where
  "outcome f s as A \<longleftrightarrow> (\<exists>e. f s = (Some e, s)) \<or> effect f s as A"

lemma outcome_raise [simp]: "outcome (raise e) s as A"
  by (simp add: outcome_def raise_def)

lemma outcome_skip: "nl_abs s A \<Longrightarrow> nl_open s \<Longrightarrow> as = [] \<Longrightarrow> B = A \<Longrightarrow> outcome nl_skip s as B"
  unfolding outcome_def using effect_skip by blast

lemma outcome_effect: "effect f s bs B \<Longrightarrow> as = bs \<Longrightarrow> A = B \<Longrightarrow> outcome f s as A"
  unfolding outcome_def by blast

lemma outcome_with_obj: "(\<And>x. sel s i = Some x \<Longrightarrow> outcome (k x) s as A) \<Longrightarrow> outcome (with_obj sel i k) s as A"
  by (cases "sel s i") (auto simp: outcome_def with_obj_def effect_def)

lemma outcome_if: "(P \<Longrightarrow> outcome f s as A) \<Longrightarrow> (\<not> P \<Longrightarrow> outcome g s as A) \<Longrightarrow> outcome (if P then f else g) s as A"
  by simp

lemma outcome_with_opt:
  "(i = 0 \<Longrightarrow> outcome (k None) s as A) \<Longrightarrow> (\<And>x. i \<noteq> 0 \<Longrightarrow> sel s i = Some x \<Longrightarrow> outcome (k (Some x)) s as A) \<Longrightarrow>
   outcome (with_opt sel i k) s as A"
  by (auto simp: with_opt_def intro: outcome_with_obj)

lemmas outcome_intros = outcome_with_obj outcome_with_opt outcome_if outcome_raise

lemma outcome_fails: "f s = (Some e, s) \<Longrightarrow> outcome (and_then f g) s as A"
  by (auto simp: outcome_def and_then_def)

definition meets :: "netlist \<Rightarrow> conn \<Rightarrow> net_cmd \<Rightarrow> bool" where
  "meets s A c \<longleftrightarrow> outcome (net_step c) s (map link_enc (acts_of s c)) (lists_after s c A)"

lemma meets_effect: "effect (net_step c) s as B \<Longrightarrow> map link_enc (acts_of s c) = as \<Longrightarrow> lists_after s c A = B \<Longrightarrow> meets s A c"
  by (simp add: meets_def outcome_def)

text \<open>A terminal that is on no list: taking it off changes nothing.\<close>

lemma off_unconnected:
  assumes "nl_abs s A"
  shows "nl_iterms s t = Some it \<Longrightarrow> it_net it = 0 \<Longrightarrow> off t (c_it A) = c_it A"
    "nl_iterms s t = Some it \<Longrightarrow> it_mnet it = 0 \<Longrightarrow> off t (c_itm A) = c_itm A"
    "nl_bterms s t = Some bt \<Longrightarrow> bt_net bt = 0 \<Longrightarrow> off t (c_bt A) = c_bt A"
    "nl_bterms s t = Some bt \<Longrightarrow> bt_mnet bt = 0 \<Longrightarrow> off t (c_btm A) = c_btm A"
    "nl_moditerms s t = Some mi \<Longrightarrow> mi_net mi = 0 \<Longrightarrow> off t (c_mi A) = c_mi A"
    "nl_modbterms s t = Some mb \<Longrightarrow> mb_net mb = 0 \<Longrightarrow> off t (c_mb A) = c_mb A"
  using unconnected [OF assms] by (simp_all add: off_alone)

section \<open>Every command meets its specification\<close>

text \<open>
  Under a consistent netlist a command raises an error and changes nothing, or has the specified
  effect.
\<close>

lemma touched:
  assumes "nl_abs s A" "nl_iterms s t = Some tm" "nl_insts s (it_inst tm) = Some i" "\<not> ni_dont_touch i" "\<not> iterm_free s t"
  shows "it_net tm \<noteq> 0" "iterm_disconnectDbNet t s = (Some DontTouchNet, s)"
proof -
  from assms obtain net where net: "nl_nets s (it_net tm) = Some net" "nt_dont_touch net" by (auto simp: iterm_free_def)
  with null_objects(1) [OF assms(1)] show n: "it_net tm \<noteq> 0" by auto
  show "iterm_disconnectDbNet t s = (Some DontTouchNet, s)"
    using assms net n by (simp add: iterm_disconnectDbNet_def with_obj_def raise_def)
qed

lemmas act_simps = rehung_def dropped_def if_distrib [where f = "map link_enc"]

lemmas meets_intros = outcome_intros outcome_skip

lemma iterm_disconnectDbNet_meets:
  assumes "nl_abs s A" "nl_open s"
  shows "meets s A (ItermDisconnectNet t)"
proof (cases "\<exists>tm. nl_iterms s t = Some tm \<and> it_net tm \<noteq> 0 \<and> iterm_free s t")
  case True
  then show ?thesis using iterm_disconnectDbNet_effect [OF assms(1,2)] unfolding meets_def outcome_def by (auto simp: act_simps cong: if_cong)
next
  case False
  show ?thesis unfolding meets_def net_step.simps iterm_disconnectDbNet_def
    by (intro outcome_intros outcome_skip [OF assms(1,2)]; use False off_unconnected [OF assms(1)] in \<open>force simp: act_simps iterm_free_def\<close>)
qed

lemma iterm_disconnectModNet_meets:
  assumes "nl_abs s A" "nl_open s"
  shows "meets s A (ItermDisconnectMod t)"
proof (cases "\<exists>tm. nl_iterms s t = Some tm \<and> it_mnet tm \<noteq> 0")
  case True
  then show ?thesis using iterm_disconnectModNet_effect [OF assms(1,2)] unfolding meets_def outcome_def by (auto simp: act_simps cong: if_cong)
next
  case False
  show ?thesis unfolding meets_def net_step.simps iterm_disconnectModNet_def
    by (intro outcome_intros outcome_skip [OF assms(1,2)]; use False off_unconnected [OF assms(1)] in \<open>force simp: act_simps\<close>)
qed

lemma iterm_connect_net_meets:
  assumes "nl_abs s A" "nl_open s"
  shows "meets s A (ItermConnect t n)"
proof (cases "\<exists>tm net. nl_iterms s t = Some tm \<and> nl_nets s n = Some net \<and> \<not> nt_dont_touch net \<and> it_net tm \<noteq> n \<and> iterm_free s t")
  case True
  then show ?thesis using iterm_connect_net_effect [OF assms(1,2)] unfolding meets_def outcome_def by (auto simp: act_simps cong: if_cong)
next
  case False
  show ?thesis unfolding meets_def net_step.simps iterm_connect_net_def
  proof (intro outcome_intros outcome_skip [OF assms(1,2)], goal_cases)
    case (3 tm i net)
    then have "it_net tm \<noteq> 0" "iterm_disconnectDbNet t s = (Some DontTouchNet, s)"
      using False touched [OF assms(1)] by blast+
    then show ?case by (simp add: outcome_fails)
  qed simp_all
qed

lemma iterm_connect_mnet_meets:
  assumes "nl_abs s A" "nl_open s" "net_cmd_ok s (ItermConnectMod t n)"
  shows "meets s A (ItermConnectMod t n)"
proof (cases "\<exists>tm mn i. nl_iterms s t = Some tm \<and> nl_modnets s n = Some mn \<and> it_mnet tm \<noteq> n \<and> nl_insts s (it_inst tm) = Some i")
  case True
  then show ?thesis using iterm_connect_mnet_effect [OF assms(1,2)] assms(3) unfolding meets_def outcome_def by (auto simp: act_simps cong: if_cong)
next
  case False
  show ?thesis unfolding meets_def net_step.simps iterm_connect_mnet_def
    by (intro outcome_intros outcome_skip [OF assms(1,2)]; use False off_unconnected [OF assms(1)] in \<open>force simp: act_simps\<close>)
qed

lemma iterm_disconnect_meets:
  assumes "nl_abs s A" "nl_open s"
  shows "meets s A (ItermDisconnect t)"
proof (cases "\<exists>tm. nl_iterms s t = Some tm \<and> (it_net tm \<noteq> 0 \<or> it_mnet tm \<noteq> 0) \<and> iterm_free s t")
  case True
  then show ?thesis using iterm_disconnect_effect [OF assms(1,2)] unfolding meets_def outcome_def by (auto simp: act_simps cong: if_cong)
next
  case False
  show ?thesis unfolding meets_def net_step.simps iterm_disconnect_def
  proof (intro outcome_intros outcome_skip [OF assms(1,2)], goal_cases)
    case (2 tm)
    then show ?case using off_unconnected [OF assms(1)] by (simp add: same_lists)
  qed (use False touched(1) [OF assms(1)] in \<open>force simp: act_simps iterm_free_def\<close>)+
qed

lemma bterm_disconnectDbNet_meets:
  assumes "nl_abs s A" "nl_open s"
  shows "meets s A (BtermDisconnectNet t)"
proof (cases "\<exists>tm. nl_bterms s t = Some tm \<and> bt_net tm \<noteq> 0 \<and> bterm_free s t")
  case True
  then show ?thesis using bterm_disconnectDbNet_effect [OF assms(1,2)] unfolding meets_def outcome_def by (auto simp: act_simps cong: if_cong)
next
  case False
  show ?thesis unfolding meets_def net_step.simps bterm_disconnectDbNet_def
    by (intro outcome_intros outcome_skip [OF assms(1,2)]; use False off_unconnected [OF assms(1)] in \<open>force simp: act_simps bterm_free_def\<close>)
qed

lemma bterm_disconnectModNet_meets:
  assumes "nl_abs s A" "nl_open s"
  shows "meets s A (BtermDisconnectMod t)"
proof (cases "\<exists>tm. nl_bterms s t = Some tm \<and> bt_mnet tm \<noteq> 0")
  case True
  then show ?thesis using bterm_disconnectModNet_effect [OF assms(1,2)] unfolding meets_def outcome_def by (auto simp: act_simps bterm_disconnectDbModNet_def cong: if_cong)
next
  case False
  show ?thesis unfolding meets_def net_step.simps bterm_disconnectDbModNet_def bterm_disconnectModNet_def
    by (intro outcome_intros outcome_skip [OF assms(1,2)]; use False off_unconnected [OF assms(1)] in \<open>force simp: act_simps\<close>)
qed

lemma bterm_connect_net_meets:
  assumes "nl_abs s A" "nl_open s"
  shows "meets s A (BtermConnect t n)"
proof (cases "\<exists>tm net. nl_bterms s t = Some tm \<and> nl_nets s n = Some net \<and> \<not> nt_dont_touch net \<and> bterm_free s t")
  case True
  then show ?thesis using bterm_connect_net_effect [OF assms(1,2)] unfolding meets_def outcome_def by (auto simp: act_simps cong: if_cong)
next
  case False
  show ?thesis unfolding meets_def net_step.simps bterm_connect_net_def
  proof (intro outcome_intros outcome_skip [OF assms(1,2)], goal_cases)
    case (1 tm net)
    then obtain old where old: "nl_nets s (bt_net tm) = Some old" "nt_dont_touch old" using False by (auto simp: bterm_free_def)
    then have n: "bt_net tm \<noteq> 0" using null_objects(1) [OF assms(1)] by auto
    then have "bterm_disconnectDbNet t s = (Some DontTouchNet, s)"
      using 1 old by (simp add: bterm_disconnectDbNet_def with_obj_def raise_def)
    with n show ?case by (simp add: outcome_fails)
  qed
qed

lemma bterm_connect_mnet_meets:
  assumes "nl_abs s A" "nl_open s"
  shows "meets s A (BtermConnectMod t n)"
proof (cases "\<exists>tm mn. nl_bterms s t = Some tm \<and> nl_modnets s n = Some mn \<and> bt_mnet tm \<noteq> n")
  case True
  then show ?thesis using bterm_connect_mnet_effect [OF assms(1,2)] unfolding meets_def outcome_def by (auto simp: act_simps cong: if_cong)
next
  case False
  show ?thesis unfolding meets_def net_step.simps bterm_connect_mnet_def
    by (intro outcome_intros outcome_skip [OF assms(1,2)]; use False off_unconnected [OF assms(1)] in \<open>force simp: act_simps\<close>)
qed

lemma bterm_disconnect_meets:
  assumes "nl_abs s A" "nl_open s"
  shows "meets s A (BtermDisconnect t)"
proof (cases "\<exists>tm. nl_bterms s t = Some tm \<and> bt_net tm \<noteq> 0 \<and> bterm_free s t")
  case True
  then show ?thesis using bterm_disconnect_effect [OF assms(1,2)] unfolding meets_def outcome_def by (auto simp: act_simps cong: if_cong)
next
  case False
  show ?thesis unfolding meets_def net_step.simps bterm_disconnect_def
    by (intro outcome_intros outcome_skip [OF assms(1,2)]; use False off_unconnected [OF assms(1)] in \<open>force simp: act_simps bterm_free_def\<close>)
qed

lemma moditerm_connect_meets:
  assumes "nl_abs s A" "nl_open s" "net_cmd_ok s (ModItermConnect t n)"
  shows "meets s A (ModItermConnect t n)"
proof (cases "\<exists>tm mn. nl_moditerms s t = Some tm \<and> nl_modnets s n = Some mn \<and> mi_net tm = 0 \<and> n \<noteq> 0")
  case True
  then show ?thesis using moditerm_connect_effect [OF assms(1,2)] assms(3) unfolding meets_def outcome_def by (auto simp: act_simps cong: if_cong)
next
  case False
  show ?thesis unfolding meets_def net_step.simps moditerm_connect_def
    by (intro outcome_intros outcome_skip [OF assms(1,2)];
      use False assms(3) null_objects(2) [OF assms(1)] in \<open>force simp: act_simps split: if_splits\<close>)
qed

lemma moditerm_disconnect_meets:
  assumes "nl_abs s A" "nl_open s"
  shows "meets s A (ModItermDisconnect t)"
proof (cases "\<exists>tm. nl_moditerms s t = Some tm \<and> mi_net tm \<noteq> 0")
  case True
  then show ?thesis using moditerm_disconnect_effect [OF assms(1,2)] unfolding meets_def outcome_def by (auto simp: act_simps cong: if_cong)
next
  case False
  show ?thesis unfolding meets_def net_step.simps moditerm_disconnect_def
    by (intro outcome_intros outcome_skip [OF assms(1,2)]; use False off_unconnected [OF assms(1)] in \<open>force simp: act_simps\<close>)
qed

lemma modbterm_connect_meets:
  assumes "nl_abs s A" "nl_open s" "net_cmd_ok s (ModBtermConnect t n)"
  shows "meets s A (ModBtermConnect t n)"
proof (cases "\<exists>tm mn. nl_modbterms s t = Some tm \<and> nl_modnets s n = Some mn \<and> mb_net tm = 0 \<and> n \<noteq> 0")
  case True
  then show ?thesis using modbterm_connect_effect [OF assms(1,2)] assms(3) unfolding meets_def outcome_def by (auto simp: act_simps cong: if_cong)
next
  case False
  show ?thesis unfolding meets_def net_step.simps modbterm_connect_def
    by (intro outcome_intros outcome_skip [OF assms(1,2)];
      use False assms(3) null_objects(2) [OF assms(1)] in \<open>force simp: act_simps split: if_splits\<close>)
qed

lemma modbterm_disconnect_meets:
  assumes "nl_abs s A" "nl_open s"
  shows "meets s A (ModBtermDisconnect t)"
proof (cases "\<exists>tm. nl_modbterms s t = Some tm \<and> mb_net tm \<noteq> 0")
  case True
  then show ?thesis using modbterm_disconnect_effect [OF assms(1,2)] unfolding meets_def outcome_def by (auto simp: act_simps cong: if_cong)
next
  case False
  show ?thesis unfolding meets_def net_step.simps modbterm_disconnect_def
    by (intro outcome_intros outcome_skip [OF assms(1,2)]; use False off_unconnected [OF assms(1)] in \<open>force simp: act_simps\<close>)
qed

lemma net_iterms_reverse_meets:
  assumes "nl_abs s A" "nl_open s"
  shows "meets s A (ReverseIterms n)"
proof (cases "nl_nets s n")
  case None
  then show ?thesis by (simp add: meets_def outcome_def net_iterms_reverse_def put_lists_def mb_reverse_def)
next
  case (Some net)
  then obtain T' N' where r: "mb_reverse iterm_net n (nl_iterms s) (nl_nets s) = Some (T', N')"
      "linked (links_of iterm_net T') (heads_of iterm_net N') ((c_it A)(n := rev (c_it A n)))"
    using itN.mb_reverse_ok [OF nl_absD(1) [OF assms(1)]] by blast
  have "effect (net_iterms_reverse n) s [] (A\<lparr>c_it := (c_it A)(n := rev (c_it A n))\<rparr>)"
    by (rule put_effect [where f = "net_iterms_reverse n" and s = s, OF r(1) net_iterms_reverse_def assms(2)])
      (use assms(1) r(2) in \<open>simp_all add: put_defs mb_reverse_keeps [OF r(1)]\<close>)
  then show ?thesis by (simp add: meets_def outcome_def)
qed

lemma net_bterms_reverse_meets:
  assumes "nl_abs s A" "nl_open s"
  shows "meets s A (ReverseBterms n)"
proof (cases "nl_nets s n")
  case None
  then show ?thesis by (simp add: meets_def outcome_def net_bterms_reverse_def put_lists_def mb_reverse_def)
next
  case (Some net)
  then obtain T' N' where r: "mb_reverse bterm_net n (nl_bterms s) (nl_nets s) = Some (T', N')"
      "linked (links_of bterm_net T') (heads_of bterm_net N') ((c_bt A)(n := rev (c_bt A n)))"
    using btN.mb_reverse_ok [OF nl_absD(3) [OF assms(1)]] by blast
  have "effect (net_bterms_reverse n) s [] (A\<lparr>c_bt := (c_bt A)(n := rev (c_bt A n))\<rparr>)"
    by (rule put_effect [where f = "net_bterms_reverse n" and s = s, OF r(1) net_bterms_reverse_def assms(2)])
      (use assms(1) r(2) in \<open>simp_all add: put_defs mb_reverse_keeps [OF r(1)]\<close>)
  then show ?thesis by (simp add: meets_def outcome_def)
qed

lemma net_step_meets:
  assumes "nl_abs s A" "nl_open s" "net_cmd_ok s c"
  shows "meets s A c"
  using assms(3)
  by (cases c) (simp_all only: iterm_connect_net_meets iterm_connect_mnet_meets iterm_disconnect_meets
      iterm_disconnectDbNet_meets iterm_disconnectModNet_meets bterm_connect_net_meets bterm_connect_mnet_meets
      bterm_disconnect_meets bterm_disconnectDbNet_meets bterm_disconnectModNet_meets moditerm_connect_meets
      moditerm_disconnect_meets modbterm_connect_meets modbterm_disconnect_meets net_iterms_reverse_meets
      net_bterms_reverse_meets assms)

section \<open>The lists as the iterators give them\<close>

definition lists :: "u32 list option \<Rightarrow> u32 set \<Rightarrow> bool" where
  "lists r X \<longleftrightarrow> (\<exists>L. r = Some L \<and> distinct L \<and> set L = X)"

lemma nl_lists:
  assumes "nl_abs s A"
  shows "nl_nets s n = Some net \<Longrightarrow> net_iterms n s = Some (c_it A n)"
    "nl_nets s n = Some net \<Longrightarrow> net_bterms n s = Some (c_bt A n)"
    "nl_modnets s n = Some mn \<Longrightarrow> modnet_iterms n s = Some (c_itm A n)"
    "nl_modnets s n = Some mn \<Longrightarrow> modnet_bterms n s = Some (c_btm A n)"
    "nl_modnets s n = Some mn \<Longrightarrow> modnet_moditerms n s = Some (c_mi A n)"
    "nl_modnets s n = Some mn \<Longrightarrow> modnet_modbterms n s = Some (c_mb A n)"
  using itN.elems_ok(1) [OF nl_absD(1) [OF assms]] btN.elems_ok(1) [OF nl_absD(3) [OF assms]]
    itM.elems_ok(1) [OF nl_absD(2) [OF assms]] btM.elems_ok(1) [OF nl_absD(4) [OF assms]]
    miM.elems_ok(1) [OF nl_absD(5) [OF assms]] mbM.elems_ok(1) [OF nl_absD(6) [OF assms]]
  by (simp_all add: net_iterms_def net_bterms_def modnet_iterms_def modnet_bterms_def modnet_moditerms_def
      modnet_modbterms_def)

lemma nl_members:
  assumes "nl_abs s A"
  shows "nl_nets s n = Some net \<Longrightarrow> set (c_it A n) = {t. \<exists>tm. nl_iterms s t = Some tm \<and> it_net tm = n}"
    "nl_nets s n = Some net \<Longrightarrow> set (c_bt A n) = {t. \<exists>tm. nl_bterms s t = Some tm \<and> bt_net tm = n}"
    "nl_modnets s n = Some mn \<Longrightarrow> set (c_itm A n) = {t. \<exists>tm. nl_iterms s t = Some tm \<and> it_mnet tm = n}"
    "nl_modnets s n = Some mn \<Longrightarrow> set (c_btm A n) = {t. \<exists>tm. nl_bterms s t = Some tm \<and> bt_mnet tm = n}"
    "nl_modnets s n = Some mn \<Longrightarrow> set (c_mi A n) = {t. \<exists>tm. nl_moditerms s t = Some tm \<and> mi_net tm = n}"
    "nl_modnets s n = Some mn \<Longrightarrow> set (c_mb A n) = {t. \<exists>tm. nl_modbterms s t = Some tm \<and> mb_net tm = n}"
proof -
  have n: "n \<noteq> 0" if "nl_nets s n = Some net" for net using that null_objects(1) [OF assms] by auto
  have m: "n \<noteq> 0" if "nl_modnets s n = Some mn" for mn using that null_objects(2) [OF assms] by auto
  show "nl_nets s n = Some net \<Longrightarrow> set (c_it A n) = {t. \<exists>tm. nl_iterms s t = Some tm \<and> it_net tm = n}"
    using linked_mem_iff [OF nl_absD(1) [OF assms]] n by (fastforce simp: links_of_def proj_def iterm_net_def)
  show "nl_nets s n = Some net \<Longrightarrow> set (c_bt A n) = {t. \<exists>tm. nl_bterms s t = Some tm \<and> bt_net tm = n}"
    using linked_mem_iff [OF nl_absD(3) [OF assms]] n by (fastforce simp: links_of_def proj_def bterm_net_def)
  show "nl_modnets s n = Some mn \<Longrightarrow> set (c_itm A n) = {t. \<exists>tm. nl_iterms s t = Some tm \<and> it_mnet tm = n}"
    using linked_mem_iff [OF nl_absD(2) [OF assms]] m by (fastforce simp: links_of_def proj_def iterm_mnet_def)
  show "nl_modnets s n = Some mn \<Longrightarrow> set (c_btm A n) = {t. \<exists>tm. nl_bterms s t = Some tm \<and> bt_mnet tm = n}"
    using linked_mem_iff [OF nl_absD(4) [OF assms]] m by (fastforce simp: links_of_def proj_def bterm_mnet_def)
  show "nl_modnets s n = Some mn \<Longrightarrow> set (c_mi A n) = {t. \<exists>tm. nl_moditerms s t = Some tm \<and> mi_net tm = n}"
    using linked_mem_iff [OF nl_absD(5) [OF assms]] m by (fastforce simp: links_of_def proj_def moditerm_mnet_def)
  show "nl_modnets s n = Some mn \<Longrightarrow> set (c_mb A n) = {t. \<exists>tm. nl_modbterms s t = Some tm \<and> mb_net tm = n}"
    using linked_mem_iff [OF nl_absD(6) [OF assms]] m by (fastforce simp: links_of_def proj_def modbterm_mnet_def)
qed

lemma nl_distinct:
  assumes "nl_abs s A"
  shows "distinct (c_it A n)" "distinct (c_bt A n)" "distinct (c_itm A n)" "distinct (c_btm A n)" "distinct (c_mi A n)"
    "distinct (c_mb A n)"
  using nl_absD [OF assms] by (simp_all add: linkedD(5))

lemma meets_ok: "meets s A c \<Longrightarrow> nl_ok s \<Longrightarrow> nl_ok (snd (net_step c s)) \<and> nl_static (snd (net_step c s)) = nl_static s"
  by (auto simp: meets_def outcome_def effect_def nl_to_def nl_ok_def)

lemma nl_reach_ok: "nl_reach s0 s \<Longrightarrow> nl_ok s0 \<Longrightarrow> nl_ok s \<and> nl_static s = nl_static s0"
proof (induction rule: nl_reach.induct)
  case (nl_call s c)
  then obtain A where "nl_abs s A" "nl_open s" by (auto simp: nl_ok_def)
  from meets_ok [OF net_step_meets [OF this nl_call.hyps(2)]] nl_call show ?case by simp
qed simp

section \<open>An empty netlist to start from\<close>

lemma linked_empty:
  assumes "v 0 = None" "h 0 = None" "\<And>x n a b. v x = Some (n, a, b) \<Longrightarrow> n = 0" "\<And>n c. h n = Some c \<Longrightarrow> c = 0"
  shows "linked v h (\<lambda>_. [])"
  unfolding linked_def using assms by (auto split: option.split)

definition demo_iterm :: iterm where
  "demo_iterm = \<lparr>it_inst = 1, it_net = 0, it_mnet = 0, it_next_net = 0, it_prev_net = 0, it_next_mnet = 0, it_prev_mnet = 0\<rparr>"

definition demo_bterm :: bterm where
  "demo_bterm = \<lparr>bt_net = 0, bt_mnet = 0, bt_next = 0, bt_prev = 0, bt_next_mnet = 0, bt_prev_mnet = 0\<rparr>"

definition demo_netlist :: netlist where
  "demo_netlist = \<lparr>nl_insts = [1 \<mapsto> \<lparr>ni_dont_touch = False\<rparr>, 2 \<mapsto> \<lparr>ni_dont_touch = True\<rparr>],
     nl_iterms = [1 \<mapsto> demo_iterm, 2 \<mapsto> demo_iterm, 3 \<mapsto> demo_iterm\<lparr>it_inst := 2\<rparr>],
     nl_bterms = [1 \<mapsto> demo_bterm, 2 \<mapsto> demo_bterm],
     nl_nets = [1 \<mapsto> \<lparr>nt_dont_touch = False, nt_iterms = 0, nt_bterms = 0\<rparr>,
                2 \<mapsto> \<lparr>nt_dont_touch = False, nt_iterms = 0, nt_bterms = 0\<rparr>],
     nl_modnets = [1 \<mapsto> \<lparr>mn_moditerms = 0, mn_modbterms = 0, mn_iterms = 0, mn_bterms = 0\<rparr>,
                   2 \<mapsto> \<lparr>mn_moditerms = 0, mn_modbterms = 0, mn_iterms = 0, mn_bterms = 0\<rparr>],
     nl_moditerms = [1 \<mapsto> \<lparr>mi_net = 0, mi_next = 0, mi_prev = 0\<rparr>, 2 \<mapsto> \<lparr>mi_net = 0, mi_next = 0, mi_prev = 0\<rparr>],
     nl_modbterms = [1 \<mapsto> \<lparr>mb_net = 0, mb_next = 0, mb_prev = 0\<rparr>],
     nl_journal = None, nl_pending = None, nl_events = []\<rparr>"

definition no_conn :: conn where
  "no_conn = \<lparr>c_it = (\<lambda>_. []), c_itm = (\<lambda>_. []), c_bt = (\<lambda>_. []), c_btm = (\<lambda>_. []), c_mi = (\<lambda>_. []), c_mb = (\<lambda>_. [])\<rparr>"

lemma demo_abs: "nl_abs demo_netlist no_conn" "nl_open demo_netlist"
  by (auto simp: nl_abs_def nl_open_def no_conn_def demo_netlist_def demo_iterm_def demo_bterm_def links_of_def heads_of_def
      proj_def field_defs intro!: linked_empty split: if_splits)

lemma demo_ok: "nl_ok demo_netlist"
  using demo_abs by (auto simp: nl_ok_def)

lemma demo_objects [simp]:
  "nl_iterms demo_netlist 1 = Some demo_iterm" "nl_iterms demo_netlist 2 = Some demo_iterm"
  "nl_iterms demo_netlist 3 = Some (demo_iterm\<lparr>it_inst := 2\<rparr>)"
  "nl_bterms demo_netlist 1 = Some demo_bterm" "nl_bterms demo_netlist 2 = Some demo_bterm"
  "nl_nets demo_netlist 1 = Some \<lparr>nt_dont_touch = False, nt_iterms = 0, nt_bterms = 0\<rparr>"
  "nl_nets demo_netlist 2 = Some \<lparr>nt_dont_touch = False, nt_iterms = 0, nt_bterms = 0\<rparr>"
  "nl_modnets demo_netlist 1 = Some \<lparr>mn_moditerms = 0, mn_modbterms = 0, mn_iterms = 0, mn_bterms = 0\<rparr>"
  "nl_modnets demo_netlist 2 = Some \<lparr>mn_moditerms = 0, mn_modbterms = 0, mn_iterms = 0, mn_bterms = 0\<rparr>"
  "nl_insts demo_netlist 1 = Some \<lparr>ni_dont_touch = False\<rparr>" "nl_insts demo_netlist 2 = Some \<lparr>ni_dont_touch = True\<rparr>"
  "nl_moditerms demo_netlist 1 = Some \<lparr>mi_net = 0, mi_next = 0, mi_prev = 0\<rparr>"
  "nl_moditerms demo_netlist 2 = Some \<lparr>mi_net = 0, mi_next = 0, mi_prev = 0\<rparr>"
  "nl_nets demo_netlist 0 = None"
  by (simp_all add: demo_netlist_def)

lemma demo_connected:
  "\<exists>s. net_step (ItermConnect 1 1) demo_netlist = (None, s) \<and> nl_abs s (no_conn\<lparr>c_it := joined 1 1 (c_it no_conn)\<rparr>) \<and>
     nl_static s = nl_static demo_netlist \<and> nl_open s"
proof -
  have "iterm_free demo_netlist 1" by (auto simp: iterm_free_def demo_iterm_def)
  from iterm_connect_net_effect [OF demo_abs this demo_objects(1,6)] show ?thesis
    by (auto simp: effect_def nl_to_def demo_iterm_def)
qed

section \<open>Merging nets\<close>

lemma iterm_own:
  assumes "nl_abs s A" "nl_iterms s t = Some tm" "t \<in> set (c_it A n)"
  shows "it_net tm = n"
  using linked_owner(1) [OF nl_absD(1) [OF assms(1)] assms(2,3)] by (simp add: iterm_net_def)

lemma bterm_own:
  assumes "nl_abs s A" "nl_bterms s t = Some tm" "t \<in> set (c_bt A n)"
  shows "bt_net tm = n"
  using linked_owner(1) [OF nl_absD(3) [OF assms(1)] assms(2,3)] by (simp add: bterm_net_def)

lemma iterm_free_on:
  assumes "nl_abs s A" "t \<in> set (c_it A n)" "nl_nets s n = Some net" "\<not> nt_dont_touch net"
    "nl_iterms s t = Some tm" "nl_insts s (it_inst tm) = Some i" "\<not> ni_dont_touch i"
  shows "iterm_free s t"
  using assms iterm_own [OF assms(1,5,2)] by (auto simp: iterm_free_def)

lemma bterm_free_on:
  assumes "nl_abs s A" "t \<in> set (c_bt A n)" "nl_nets s n = Some net" "\<not> nt_dont_touch net"
  shows "\<exists>tm. nl_bterms s t = Some tm \<and> bterm_free s t"
proof -
  obtain tm where tm: "nl_bterms s t = Some tm"
    using linked_member(2) [OF nl_absD(3) [OF assms(1)] assms(2)] by (auto simp: links_of_def proj_def)
  with bterm_own [OF assms(1) tm assms(2)] assms(3,4) show ?thesis by (auto simp: bterm_free_def)
qed

definition merged :: "u32 list \<Rightarrow> u32 \<Rightarrow> u32 \<Rightarrow> (u32 \<Rightarrow> u32 list) \<Rightarrow> u32 \<Rightarrow> u32 list" where
  "merged ts n i L = L(n := rev ts @ L n, i := filter (\<lambda>x. x \<notin> set ts) (L i))"

lemma joined_from:
  assumes "linked v h L" "t \<in> set (L i)" "n \<noteq> i"
  shows "joined t n L = L(n := t # L n, i := remove1 t (L i))"
proof -
  have "off t L = L(i := remove1 t (L i))" using off_owner [OF assms(1,2)] by simp
  with assms(3) show ?thesis by (simp add: joined_def fun_upd_twist)
qed

lemma connect_all_effect:
  assumes "nl_abs s A" "nl_open s" "distinct ts" "set ts \<subseteq> set (c_it A i)" "n \<noteq> i"
    "nl_nets s i = Some ni" "\<not> nt_dont_touch ni" "nl_nets s n = Some nn" "\<not> nt_dont_touch nn"
    "\<forall>t \<in> set ts. iterm_free s t"
  shows "\<exists>as. effect (connect_all ts n) s as (A\<lparr>c_it := merged ts n i (c_it A)\<rparr>)"
  using assms
proof (induction ts arbitrary: s A ni nn)
  case Nil
  then have "A\<lparr>c_it := merged [] n i (c_it A)\<rparr> = A" by (intro same_lists) (simp add: merged_def fun_eq_iff)
  then have "effect (connect_all [] n) s [] (A\<lparr>c_it := merged [] n i (c_it A)\<rparr>)"
    using effect_skip [OF Nil(1,2)] by simp
  then show ?case by blast
next
  case (Cons t ts)
  have mem: "t \<in> set (c_it A i)" "iterm_free s t" using Cons.prems by auto
  obtain tm where tm: "nl_iterms s t = Some tm" using mem(2) by (auto simp: iterm_free_def)
  have own: "it_net tm \<noteq> n" using iterm_own [OF Cons.prems(1) tm mem(1)] Cons.prems(5) by simp
  let ?L = "joined t n (c_it A)"
  have L: "?L = (c_it A)(n := t # c_it A n, i := remove1 t (c_it A i))"
    by (rule joined_from [OF nl_absD(1) [OF Cons.prems(1)] mem(1) Cons.prems(5)])
  obtain s1 as where s1: "iterm_connect_net t n s = (None, s1)" "nl_to s as (A\<lparr>c_it := ?L\<rparr>) s1"
    using iterm_connect_net_effect [OF Cons.prems(1,2) mem(2) tm Cons.prems(8,9) own] by (auto simp: effect_def)
  have A1: "nl_abs s1 (A\<lparr>c_it := ?L\<rparr>)" "nl_open s1" using s1(2) by (simp_all add: nl_to_def)
  obtain ni1 nn1 where nets: "nl_nets s1 i = Some ni1" "\<not> nt_dont_touch ni1" "nl_nets s1 n = Some nn1" "\<not> nt_dont_touch nn1"
    using nl_to_objects(3) [OF s1(2) Cons.prems(6)] nl_to_objects(3) [OF s1(2) Cons.prems(8)] Cons.prems(7,9) by auto
  have sub: "set ts \<subseteq> set (?L i)" using Cons.prems(3,4) by (auto simp: L) (metis in_set_remove1 subsetD)
  have free: "iterm_free s1 x" if "x \<in> set ts" for x
  proof -
    from that Cons.prems(10) obtain xm ix where x: "nl_iterms s x = Some xm" "nl_insts s (it_inst xm) = Some ix" "\<not> ni_dont_touch ix"
      by (auto simp: iterm_free_def)
    obtain x1 where "nl_iterms s1 x = Some x1" "it_inst x1 = it_inst xm" using nl_to_objects(2) [OF s1(2) x(1)] by blast
    with iterm_free_on [OF A1(1) _ nets(1,2)] sub that x nl_to_objects(1) [OF s1(2)] show ?thesis by auto
  qed
  obtain bs where rest: "effect (connect_all ts n) s1 bs (A\<lparr>c_it := merged ts n i ?L\<rparr>)"
    using Cons.IH [OF A1 _ _ Cons.prems(5) nets] Cons.prems(3) sub free by auto
  have "distinct (c_it A i)" using nl_distinct(1) [OF Cons.prems(1)] .
  then have "merged ts n i ?L = merged (t # ts) n i (c_it A)"
    using Cons.prems(5) by (auto simp: merged_def L fun_eq_iff distinct_remove1_removeAll removeAll_filter_not_eq intro!: filter_cong)
  with rest s1 nl_to_trans [OF s1(2)] have "effect (connect_all (t # ts) n) s (as @ bs) (A\<lparr>c_it := merged (t # ts) n i (c_it A)\<rparr>)"
    by (fastforce simp: effect_def and_then_def)
  then show ?case by blast
qed

text \<open>One round of the loop over the block terminals.\<close>

lemma bt_links:
  assumes "nl_abs s A" "nl_nets s n = Some net" "c_bt A n = x # xs"
  shows "\<exists>tm. nl_bterms s x = Some tm \<and> bt_next tm = (case xs of [] \<Rightarrow> 0 | y # _ \<Rightarrow> y)" "nt_bterms net = x" "x \<noteq> 0"
proof -
  have "heads_of bterm_net (nl_nets s) n = Some (nt_bterms net)"
    using assms(2) by (simp add: heads_of_def proj_def bterm_net_def)
  from linkedD(4) [OF nl_absD(3) [OF assms(1)] this] have d: "dll (links_of bterm_net (nl_bterms s)) n 0 (nt_bterms net) (x # xs)"
    by (simp add: assms(3))
  then show "nt_bterms net = x" "x \<noteq> 0" by auto
  from d obtain nx where nx: "links_of bterm_net (nl_bterms s) x = Some (n, nx, 0)" "dll (links_of bterm_net (nl_bterms s)) n x nx xs"
    by auto
  with dll_head [OF nx(2)] show "\<exists>tm. nl_bterms s x = Some tm \<and> bt_next tm = (case xs of [] \<Rightarrow> 0 | y # _ \<Rightarrow> y)"
    by (auto simp: links_of_def proj_def bterm_net_def)
qed

lemma merge_round:
  assumes "nl_abs s A" "nl_open s" "nl_nets s n = Some nn" "\<not> nt_dont_touch nn" "nl_nets s i = Some ni" "\<not> nt_dont_touch ni"
    "t \<in> set (c_bt A i)"
  obtains s1 tm1 where "bterm_connect_net t n s = (None, s1)" "nl_abs s1 (A\<lparr>c_bt := joined t n (c_bt A)\<rparr>)" "nl_open s1"
    "nl_static s1 = nl_static s" "nl_bterms s1 t = Some tm1" "t \<noteq> 0"
    "bt_next tm1 = (case off t (c_bt A) n of [] \<Rightarrow> 0 | y # _ \<Rightarrow> y)"
proof -
  obtain tm where tm: "nl_bterms s t = Some tm" "bterm_free s t" using bterm_free_on [OF assms(1,7,5,6)] by blast
  obtain s1 as where s1: "bterm_connect_net t n s = (None, s1)" "nl_to s as (A\<lparr>c_bt := joined t n (c_bt A)\<rparr>) s1"
    using bterm_connect_net_effect [OF assms(1,2) tm(2,1) assms(3,4)] by (auto simp: effect_def)
  obtain nn1 where nn1: "nl_nets s1 n = Some nn1" using nl_to_objects(3) [OF s1(2) assms(3)] by blast
  have a: "nl_abs s1 (A\<lparr>c_bt := joined t n (c_bt A)\<rparr>)" using s1(2) by (simp add: nl_to_def)
  have "c_bt (A\<lparr>c_bt := joined t n (c_bt A)\<rparr>) n = t # off t (c_bt A) n" by (simp add: joined_def)
  from bt_links [OF a nn1 this] show ?thesis using that s1 a by (auto simp: nl_to_def)
qed

text \<open>Two block terminals at the front of the surviving net change places forever.\<close>

definition spinning :: "u32 \<Rightarrow> u32 \<Rightarrow> netlist \<Rightarrow> bool" where
  "spinning n cur s \<longleftrightarrow> (\<exists>A x xs nn. nl_abs s A \<and> nl_open s \<and> nl_nets s n = Some nn \<and> \<not> nt_dont_touch nn \<and>
     c_bt A n = x # cur # xs)"

lemma spinning_step:
  assumes "spinning n cur s"
  shows "cur \<noteq> 0 \<and> (\<exists>s1 tm1. bterm_connect_net cur n s = (None, s1) \<and> nl_bterms s1 cur = Some tm1 \<and>
    spinning n (bt_next tm1) s1)"
proof -
  obtain A x xs nn where a: "nl_abs s A" "nl_open s" "nl_nets s n = Some nn" "\<not> nt_dont_touch nn" "c_bt A n = x # cur # xs"
    using assms unfolding spinning_def by blast
  have mem: "cur \<in> set (c_bt A n)" using a(5) by simp
  obtain s1 tm1 where s1: "bterm_connect_net cur n s = (None, s1)" "nl_abs s1 (A\<lparr>c_bt := joined cur n (c_bt A)\<rparr>)" "nl_open s1"
      "nl_static s1 = nl_static s" "nl_bterms s1 cur = Some tm1" "cur \<noteq> 0"
      "bt_next tm1 = (case off cur (c_bt A) n of [] \<Rightarrow> 0 | y # _ \<Rightarrow> y)"
    by (rule merge_round [OF a(1-4) a(3,4) mem])
  have "x \<noteq> cur" using nl_distinct(2) [OF a(1), of n] a(5) by auto
  then have off: "off cur (c_bt A) n = x # xs" using a(5) by (simp add: off_def)
  have "proj nt_dont_touch (nl_nets s1) n = proj nt_dont_touch (nl_nets s) n" using s1(4) by (simp add: nl_static_def)
  then obtain nn1 where "nl_nets s1 n = Some nn1" "\<not> nt_dont_touch nn1" using a(3,4) by (auto simp: proj_def)
  moreover have "c_bt (A\<lparr>c_bt := joined cur n (c_bt A)\<rparr>) n = cur # x # xs" by (simp add: joined_def off)
  ultimately have "spinning n x s1" unfolding spinning_def using s1(2,3) by blast
  with s1 off show ?thesis by simp
qed

lemma spinning_loops: "spinning n cur s \<Longrightarrow> merge_bterms n cur s = None"
proof (rule ccontr)
  assume spin: "spinning n cur s" and "merge_bterms n cur s \<noteq> None"
  then obtain r where r: "merge_bterms n cur s = Some r" by blast
  have "\<not> spinning n cur s"
  proof (rule merge_bterms.raw_induct [where P = "\<lambda>n cur s r. \<not> spinning n cur s", OF _ r])
    fix f n cur s r
    assume IH: "\<And>n cur s r. f n cur s = Some r \<Longrightarrow> \<not> spinning n cur s"
      and step: "(if cur = 0 then Some (None, s)
        else case bterm_connect_net cur n s of
            (None, s) \<Rightarrow> (case nl_bterms s cur of None \<Rightarrow> Some (Some NoSuchObject, s) | Some tm \<Rightarrow> f n (bt_next tm) s)
          | (Some e, s) \<Rightarrow> Some (Some e, s)) = Some r"
    show "\<not> spinning n cur s"
    proof
      assume "spinning n cur s"
      from spinning_step [OF this] obtain s1 tm1 where "cur \<noteq> 0" "bterm_connect_net cur n s = (None, s1)"
          "nl_bterms s1 cur = Some tm1" "spinning n (bt_next tm1) s1" by blast
      with IH step show False by auto
    qed
  qed
  with spin show False by simp
qed

lemma merge_bterms_from:
  assumes "nl_abs s A" "nl_open s" "nl_nets s n = Some nn" "\<not> nt_dont_touch nn" "nl_nets s i = Some ni" "\<not> nt_dont_touch ni"
    "n \<noteq> i" "c_bt A i = b # bs"
  shows "c_bt A n = [] \<Longrightarrow> \<exists>s'. merge_bterms n b s = Some (None, s') \<and> net_bterms n s' = Some [b] \<and> net_bterms i s' = Some bs"
    "c_bt A n \<noteq> [] \<Longrightarrow> merge_bterms n b s = None"
proof -
  have mem: "b \<in> set (c_bt A i)" using assms(8) by simp
  obtain s2 tm2 where s2: "bterm_connect_net b n s = (None, s2)" "nl_abs s2 (A\<lparr>c_bt := joined b n (c_bt A)\<rparr>)"
      "nl_open s2" "nl_static s2 = nl_static s" "nl_bterms s2 b = Some tm2" "b \<noteq> 0"
      "bt_next tm2 = (case off b (c_bt A) n of [] \<Rightarrow> 0 | y # _ \<Rightarrow> y)"
    by (rule merge_round [OF assms(1-6) mem])
  have j: "joined b n (c_bt A) = (c_bt A)(n := b # c_bt A n, i := bs)"
    using joined_from [OF nl_absD(3) [OF assms(1)] mem assms(7)] assms(8) by simp
  have "off b (c_bt A) = (c_bt A)(i := remove1 b (c_bt A i))" using off_owner [OF nl_absD(3) [OF assms(1)] mem] by simp
  then have off: "off b (c_bt A) n = c_bt A n" using assms(7) by simp
  have p: "proj nt_dont_touch (nl_nets s2) m = proj nt_dont_touch (nl_nets s) m" for m using s2(4) by (simp add: nl_static_def)
  obtain nn2 where nn2: "nl_nets s2 n = Some nn2" "\<not> nt_dont_touch nn2" using p [of n] assms(3,4) by (auto simp: proj_def)
  obtain ni2 where ni2: "nl_nets s2 i = Some ni2" using p [of i] assms(5) by (auto simp: proj_def)
  have step: "merge_bterms n b s = merge_bterms n (bt_next tm2) s2"
    using s2(1,5,6) by (subst merge_bterms.simps) simp
  show "\<exists>s'. merge_bterms n b s = Some (None, s') \<and> net_bterms n s' = Some [b] \<and> net_bterms i s' = Some bs" if "c_bt A n = []"
  proof -
    have "merge_bterms n b s = Some (None, s2)" unfolding step using s2(7) off that by (subst merge_bterms.simps) simp
    with nl_lists(2) [OF s2(2) nn2(1)] nl_lists(2) [OF s2(2) ni2] j assms(7) that show ?thesis by simp
  qed
  show "merge_bterms n b s = None" if "c_bt A n \<noteq> []"
  proof -
    have "spinning n (bt_next tm2) s2"
      unfolding spinning_def using s2(2,3,7) nn2 j off assms(7) that
      by (intro exI [of _ "A\<lparr>c_bt := joined b n (c_bt A)\<rparr>"]) (auto simp: neq_Nil_conv)
    then show ?thesis by (simp add: step spinning_loops)
  qed
qed

text \<open>The instance terminals move first; then the loop over the block terminals starts.\<close>

lemma mergeNet_run:
  assumes "nl_abs s A" "nl_open s" "n \<noteq> i" "nl_nets s n = Some nn" "\<not> nt_dont_touch nn" "nl_nets s i = Some ni"
    "\<not> nt_dont_touch ni" "list_all (iterm_free s) (c_it A i)"
  obtains s1 nn1 ni1 where "nl_abs s1 (A\<lparr>c_it := (c_it A)(n := rev (c_it A i) @ c_it A n, i := [])\<rparr>)" "nl_open s1"
    "nl_nets s1 n = Some nn1" "\<not> nt_dont_touch nn1" "nl_nets s1 i = Some ni1" "\<not> nt_dont_touch ni1"
    "mergeNet n i s = merge_bterms n (nt_bterms ni1) s1"
proof -
  obtain s0 where s0: "nl_notify (NetPreMerge n i) s = (None, s0)" "nl_abs s0 A" "nl_open s0" "nl_tabs s0 = nl_tabs s"
    using effect_notify [OF assms(1,2), of "NetPreMerge n i"] by (auto simp: effect_def nl_to_def nl_notify_def nl_tabs_def)
  have obj0: "nl_nets s0 = nl_nets s" "iterm_free s0 = iterm_free s"
    using s0(4) by (auto simp: nl_tabs_def iterm_free_def)
  have free: "\<forall>t \<in> set (c_it A i). iterm_free s0 t" using assms(8) obj0(2) by (simp add: list_all_iff)
  obtain as where "effect (connect_all (c_it A i) n) s0 as (A\<lparr>c_it := merged (c_it A i) n i (c_it A)\<rparr>)"
    using connect_all_effect [OF s0(2,3), of "c_it A i" i n ni nn] nl_distinct(1) [OF assms(1), of i] free assms(3-7) obj0(1) by auto
  then obtain s1 where s1: "connect_all (c_it A i) n s0 = (None, s1)" "nl_to s0 as (A\<lparr>c_it := merged (c_it A i) n i (c_it A)\<rparr>) s1"
    by (auto simp: effect_def)
  have m: "merged (c_it A i) n i (c_it A) = (c_it A)(n := rev (c_it A i) @ c_it A n, i := [])"
    by (simp add: merged_def filter_empty_conv)
  obtain nn1 ni1 where nets: "nl_nets s1 n = Some nn1" "\<not> nt_dont_touch nn1" "nl_nets s1 i = Some ni1" "\<not> nt_dont_touch ni1"
    using nl_to_objects(3) [OF s1(2), of n] nl_to_objects(3) [OF s1(2), of i] assms(4-7) obj0(1) by auto
  have "mergeNet n i s = merge_bterms n (nt_bterms ni1) s1"
    using nl_lists(1) [OF assms(1,6)] s0(1) s1(1) nets(3) by (simp add: mergeNet_def and_then_def)
  moreover have "nl_abs s1 (A\<lparr>c_it := (c_it A)(n := rev (c_it A i) @ c_it A n, i := [])\<rparr>)" "nl_open s1"
    using s1(2) by (simp_all only: nl_to_def m)
  ultimately show ?thesis using nets by (intro that)
qed

section \<open>The calls that break the lists\<close>

context term_list begin

lemma elems_heads: "mb_elems F n T N = Option.bind (heads_of F N n) (mb_iterate F T)"
  by (cases "N n") (simp_all add: mb_elems_def heads_of_def proj_def)

text \<open>An iterator runs along the next links whatever net the terminals name.\<close>

lemma iterate_prefix:
  assumes "dll (links_of F T) m p cur (xs @ t # ys)" "mb_iterate F T' t = Some zs"
    and "\<And>x a b c. x \<in> set xs \<Longrightarrow> links_of F T x = Some (a, b, c) \<Longrightarrow> \<exists>a' c'. links_of F T' x = Some (a', b, c')"
  shows "mb_iterate F T' cur = Some (xs @ zs)"
  using assms(1,3)
proof (induction xs arbitrary: p cur)
  case Nil
  then show ?case using assms(2) by simp
next
  case (Cons x xs)
  then obtain nx where x: "cur = x" "x \<noteq> 0" "links_of F T x = Some (m, nx, p)" "dll (links_of F T) m x nx (xs @ t # ys)" by auto
  obtain a' c' where "links_of F T' x = Some (a', nx, c')" using Cons.prems(2) [OF _ x(3)] by auto
  then obtain tm where "T' x = Some tm" "mb_nxt F tm = nx" by (auto simp: links_of_def proj_def)
  moreover have "mb_iterate F T' nx = Some (xs @ zs)" using Cons.IH [OF x(4)] Cons.prems(2) by simp
  ultimately show ?case using x(1,2) by (subst mb_iterate.simps) simp
qed

text \<open>A terminal put in front of another list while it is in one: the old list runs on into the new one.\<close>

lemma push_front_taken:
  assumes l: "linked (links_of F T) (heads_of F N) L" and tm: "T t = Some tm" "mb_own F tm = m" "m \<noteq> 0"
    and net: "N n = Some net" and ne: "m \<noteq> n"
  shows "\<exists>T' N' tm'. push_front F t n T N = Some (T', N') \<and> T' t = Some tm' \<and> mb_own F tm' = n
    \<and> mb_elems F n T' N' = Some (t # L n) \<and> mb_elems F m T' N' = Some (takeWhile (\<lambda>x. x \<noteq> t) (L m) @ t # L n)"
proof -
  have mem: "t \<in> set (L m)" using linked_own [OF l tm(1)] tm(2,3) by simp
  have h: "heads_of F N n = Some (mb_head F net)" using net by (simp add: heads_of_def proj_def)
  have v: "links_of F T t = Some (m, mb_nxt F tm, mb_prv F tm)" using tm by (simp add: links_of_def proj_def)
  have t: "t \<noteq> 0" "t \<notin> set (L n)" using linked_member(1) [OF l mem] linked_mem_iff [OF l] v ne by auto
  have d: "dll (links_of F T) n 0 (mb_head F net) (L n)" by (rule linkedD(4) [OF l h])
  have hd: "mb_head F net = 0 \<or> mb_head F net \<in> set (L n)" using dll_head [OF d] by (auto split: list.splits)
  then have "mb_head F net \<noteq> t" "mb_head F net \<noteq> 0 \<Longrightarrow> \<exists>x. T (mb_head F net) = Some x"
    using t linked_mem_iff [OF l] by (auto simp: links_of_def proj_def)
  from push_front_links [where T = T and N = N, OF tm(1) net this] obtain T' N' where
    P: "push_front F t n T N = Some (T', N')" "links_of F T' = links_pushed t n (mb_head F net) (links_of F T)"
      "heads_of F N' = (heads_of F N)(n \<mapsto> t)" by blast
  have "dll (links_of F T') n 0 t (t # L n)"
    unfolding P(2) using dll_push [OF d t linkedD(5) [OF l]] v by simp
  then have iter: "mb_iterate F T' t = Some (t # L n)" by (rule mb_iterate_ok)
  obtain xs ys where split: "L m = xs @ t # ys" "t \<notin> set xs" using split_list_first [OF mem] by blast
  then have tw: "takeWhile (\<lambda>x. x \<noteq> t) (L m) = xs" by (auto simp: takeWhile_append)
  obtain c where c: "heads_of F N m = Some c" using linked_member(4) [OF l mem] by blast
  have "mb_iterate F T' c = Some (xs @ t # L n)"
    by (rule iterate_prefix [OF linkedD(4) [OF l c, unfolded split(1)] iter])
      (use split(2) in \<open>auto simp: P(2) links_pushed_def\<close>)
  moreover have "links_of F T' t = Some (n, mb_head F net, 0)" by (simp add: P(2) links_pushed_def)
  then obtain tm' where "T' t = Some tm'" "mb_own F tm' = n" by (auto simp: links_of_def proj_def)
  ultimately show ?thesis using P iter tw c ne by (auto simp: elems_heads)
qed

text \<open>A terminal that names a net without being in its list.\<close>

lemma elems_set_own:
  assumes "linked (links_of F T) (heads_of F N) L" "N n = Some net" "t \<notin> set (L n)"
  shows "mb_elems F n (T(t := map_option (mb_set_own F k) (T t))) N = Some (L n)"
proof -
  let ?T = "T(t := map_option (mb_set_own F k) (T t))"
  have h: "heads_of F N n = Some (mb_head F net)" using assms(2) by (simp add: heads_of_def proj_def)
  have "dll (links_of F ?T) n 0 (mb_head F net) (L n) = dll (links_of F T) n 0 (mb_head F net) (L n)"
    by (rule dll_cong) (use assms(3) in \<open>auto simp: links_of_def proj_def\<close>)
  with linkedD(4) [OF assms(1) h] mb_iterate_ok show ?thesis by (simp add: elems_heads h)
qed

end

lemma iterm_connect_mnet_breaks:
  assumes "nl_abs s A" "nl_open s" "nl_iterms s t = Some tm" "nl_insts s (it_inst tm) = Some i" "ni_dont_touch i"
    "nl_modnets s n = Some mn" "it_mnet tm \<noteq> n"
  shows "\<exists>s' tm'. iterm_connect_mnet t n s = (Some DontTouchInst, s') \<and> nl_iterms s' t = Some tm' \<and> it_mnet tm' = n
    \<and> nl_modnets s' n \<noteq> None \<and> modnet_iterms n s' = modnet_iterms n s \<and> modnet_iterms n s = Some (c_itm A n) \<and> t \<notin> set (c_itm A n)"
proof -
  have off: "t \<notin> set (c_itm A n)" using nl_members(3) [OF assms(1,6)] assms(3,7) by simp
  then have same: "off t (c_itm A) n = c_itm A n" by (simp add: off_def remove1_idem)
  obtain s1 as where s1: "(if it_mnet tm \<noteq> 0 then iterm_disconnectModNet t else nl_skip) s = (None, s1)"
      "nl_to s as (A\<lparr>c_itm := off t (c_itm A)\<rparr>) s1"
  proof (cases "it_mnet tm = 0")
    case True
    then have "off t (c_itm A) = c_itm A" using off_unconnected(2) [OF assms(1,3)] by simp
    then show thesis using that [of s "[]"] True assms(1,2) by (simp add: nl_skip_def nl_to_def nl_logged_same)
  next
    case False
    then show thesis using that iterm_disconnectModNet_effect [OF assms(1,2,3) False] by (auto simp: effect_def)
  qed
  obtain tm1 mn1 where o1: "nl_iterms s1 t = Some tm1" "nl_modnets s1 n = Some mn1"
    using nl_to_objects(2) [OF s1(2) assms(3)] nl_to_objects(4) [OF s1(2) assms(6)] by blast
  have abs1: "linked (links_of iterm_mnet (nl_iterms s1)) (heads_of iterm_mnet (nl_modnets s1)) (off t (c_itm A))"
    using nl_absD(2) [of s1 "A\<lparr>c_itm := off t (c_itm A)\<rparr>"] s1(2) by (simp add: nl_to_def)
  let ?s' = "s1\<lparr>nl_iterms := (nl_iterms s1)(t := map_option (\<lambda>x. x\<lparr>it_mnet := n\<rparr>) (nl_iterms s1 t))\<rparr>"
  have "iterm_connect_mnet t n s = (Some DontTouchInst, ?s')"
    using assms(3-7) s1(1) by (simp add: iterm_connect_mnet_def with_obj_def and_then_def set_iterm_mnet_def raise_def)
  moreover have "modnet_iterms n ?s' = Some (c_itm A n)"
    using itM.elems_set_own [OF abs1 o1(2), of t n] same off by (simp add: modnet_iterms_def iterm_mnet_def)
  moreover have "modnet_iterms n s = Some (c_itm A n)" by (rule nl_lists(3) [OF assms(1,6)])
  ultimately show ?thesis using o1 off by (intro exI [of _ ?s']) simp
qed

lemma record_open: "nl_open s \<Longrightarrow> \<exists>j. nl_record a ps s = (None, s\<lparr>nl_journal := j\<rparr>)"
  by (cases "nl_journal s") (auto simp: nl_open_def nl_record_def record_action_def beginAction_def endAction_def intro: exI [of _ None])

lemma moditerm_connect_breaks:
  assumes "nl_abs s A" "nl_open s" "nl_moditerms s t = Some tm" "mi_net tm = m" "m \<noteq> 0" "m \<noteq> n" "nl_modnets s n = Some mn"
  shows "\<exists>s'. moditerm_connect t n s = (None, s') \<and> modnet_moditerms n s' = Some (t # c_mi A n)
    \<and> modnet_moditerms m s' = Some (takeWhile (\<lambda>x. x \<noteq> t) (c_mi A m) @ t # c_mi A n)"
proof -
  obtain T' N' where P: "push_front moditerm_mnet t n (nl_moditerms s) (nl_modnets s) = Some (T', N')"
      "mb_elems moditerm_mnet n T' N' = Some (t # c_mi A n)"
      "mb_elems moditerm_mnet m T' N' = Some (takeWhile (\<lambda>x. x \<noteq> t) (c_mi A m) @ t # c_mi A n)"
    using miM.push_front_taken [OF nl_absD(5) [OF assms(1)] assms(3) _ assms(5,7,6)] assms(4) by (auto simp: moditerm_mnet_def)
  let ?s1 = "s\<lparr>nl_moditerms := T', nl_modnets := N'\<rparr>"
  have "nl_open ?s1" using assms(2) by (simp add: nl_open_def)
  then obtain j where "nl_record CONNECT_OBJECT [JInt dbModITermObj, JUInt t, JUInt n] ?s1 = (None, ?s1\<lparr>nl_journal := j\<rparr>)"
    using record_open by blast
  then have "moditerm_connect t n s = (None, ?s1\<lparr>nl_journal := j\<rparr>)"
    using assms(3,4,6,7) P(1) by (simp add: moditerm_connect_def with_obj_def and_then_def link_moditerm_def put_lists_def)
  then show ?thesis using P(2,3) by (simp add: modnet_moditerms_def)
qed

lemma modbterm_connect_breaks:
  assumes "nl_abs s A" "nl_open s" "nl_modbterms s t = Some tm" "mb_net tm = m" "m \<noteq> 0" "m \<noteq> n" "nl_modnets s n = Some mn"
  shows "\<exists>s'. modbterm_connect t n s = (None, s') \<and> modnet_modbterms n s' = Some (t # c_mb A n)
    \<and> modnet_modbterms m s' = Some (takeWhile (\<lambda>x. x \<noteq> t) (c_mb A m) @ t # c_mb A n)"
proof -
  obtain T' N' where P: "push_front modbterm_mnet t n (nl_modbterms s) (nl_modnets s) = Some (T', N')"
      "mb_elems modbterm_mnet n T' N' = Some (t # c_mb A n)"
      "mb_elems modbterm_mnet m T' N' = Some (takeWhile (\<lambda>x. x \<noteq> t) (c_mb A m) @ t # c_mb A n)"
    using mbM.push_front_taken [OF nl_absD(6) [OF assms(1)] assms(3) _ assms(5,7,6)] assms(4) by (auto simp: modbterm_mnet_def)
  let ?s1 = "s\<lparr>nl_modbterms := T', nl_modnets := N'\<rparr>"
  have "nl_open ?s1" using assms(2) by (simp add: nl_open_def)
  then obtain j where "nl_record CONNECT_OBJECT [JInt dbModBTermObj, JUInt t, JUInt n] ?s1 = (None, ?s1\<lparr>nl_journal := j\<rparr>)"
    using record_open by blast
  then have "modbterm_connect t n s = (None, ?s1\<lparr>nl_journal := j\<rparr>)"
    using assms(3,4,6,7) P(1) by (simp add: modbterm_connect_def with_obj_def and_then_def link_modbterm_def put_lists_def)
  then show ?thesis using P(2,3) by (simp add: modnet_modbterms_def)
qed

text \<open>Lists like these are not those of any consistent netlist.\<close>

lemma not_listed:
  assumes "nl_iterms s t = Some tm" "it_mnet tm = n" "modnet_iterms n s = Some L" "t \<notin> set L"
  shows "\<not> nl_ok s"
proof
  assume "nl_ok s"
  then obtain A where A: "nl_abs s A" by (auto simp: nl_ok_def)
  from assms(3) obtain mn where "nl_modnets s n = Some mn" by (cases "nl_modnets s n") (auto simp: modnet_iterms_def mb_elems_def)
  with nl_lists(3) [OF A] nl_members(3) [OF A] assms show False by auto
qed

lemma listed_twice:
  assumes "m \<noteq> n" "t \<in> set K" "t \<in> set L"
    and "modnet_moditerms m s = Some K \<and> modnet_moditerms n s = Some L \<or> modnet_modbterms m s = Some K \<and> modnet_modbterms n s = Some L"
  shows "\<not> nl_ok s"
proof
  assume "nl_ok s"
  then obtain A where A: "nl_abs s A" by (auto simp: nl_ok_def)
  from assms(4) obtain x y where xy: "nl_modnets s m = Some x" "nl_modnets s n = Some y"
    by (cases "nl_modnets s m"; cases "nl_modnets s n") (auto simp: modnet_moditerms_def modnet_modbterms_def mb_elems_def)
  then show False
    using assms nl_lists(5,6) [OF A xy(1)] nl_lists(5,6) [OF A xy(2)] nl_members(5,6) [OF A xy(1)] nl_members(5,6) [OF A xy(2)] by auto
qed

section \<open>Properties\<close>

text \<open>C12: The lists and the terminals agree.  After any sequence of calls, those that raise included, every
  iterator over the terminals of a net ends, gives no terminal twice, and gives exactly the terminals that
  name the net; no object and no flag is changed.  Three kinds of call are left out (\<open>net_cmd_ok\<close>): connecting
  a terminal of a protected instance to another net of the hierarchy, and connecting a terminal of a module
  instance, or of a module, that is on one net of the hierarchy to another one.  Each of those breaks the
  lists, as the property on the breaking calls shows, so the sequences here are all that keep them.\<close>

theorem connections_consistent:
  assumes "nl_ok s0" "nl_reach s0 s"
  shows "nl_static s = nl_static s0 \<and>
    (\<forall>n net. nl_nets s n = Some net \<longrightarrow>
       lists (net_iterms n s) {t. \<exists>tm. nl_iterms s t = Some tm \<and> it_net tm = n} \<and>
       lists (net_bterms n s) {t. \<exists>tm. nl_bterms s t = Some tm \<and> bt_net tm = n}) \<and>
    (\<forall>n mn. nl_modnets s n = Some mn \<longrightarrow>
       lists (modnet_iterms n s) {t. \<exists>tm. nl_iterms s t = Some tm \<and> it_mnet tm = n} \<and>
       lists (modnet_bterms n s) {t. \<exists>tm. nl_bterms s t = Some tm \<and> bt_mnet tm = n} \<and>
       lists (modnet_moditerms n s) {t. \<exists>tm. nl_moditerms s t = Some tm \<and> mi_net tm = n} \<and>
       lists (modnet_modbterms n s) {t. \<exists>tm. nl_modbterms s t = Some tm \<and> mb_net tm = n})"
proof -
  from nl_reach_ok [OF assms(2,1)] obtain A where a: "nl_abs s A" "nl_static s = nl_static s0" by (auto simp: nl_ok_def)
  show ?thesis
    using a(2) by (simp add: lists_def nl_lists [OF a(1)] nl_members [OF a(1)] nl_distinct [OF a(1)])
qed

theorem connections_consistent_witness:
  "\<exists>s L. nl_reach demo_netlist s \<and> net_iterms 1 s = Some L \<and> set L = {t. \<exists>tm. nl_iterms s t = Some tm \<and> it_net tm = 1}"
proof -
  obtain s where s: "net_step (ItermConnect 1 1) demo_netlist = (None, s)" "nl_static s = nl_static demo_netlist"
    using demo_connected by blast
  have r: "nl_reach demo_netlist s" using nl_call [OF nl_start, of demo_netlist "ItermConnect 1 1"] s(1) by simp
  have "proj nt_dont_touch (nl_nets s) 1 = proj nt_dont_touch (nl_nets demo_netlist) 1" using s(2) by (simp add: nl_static_def)
  then obtain net where "nl_nets s 1 = Some net" by (auto simp: proj_def)
  with connections_consistent [OF demo_ok r] r show ?thesis unfolding lists_def by blast
qed

text \<open>C13: The commands refine their specification: every command but the three kinds that break the lists,
  when it raises no error, takes the lists to those the specification names, changes no object and no flag,
  and adds exactly the specified actions to the journal.  The commands left out are connecting a terminal of a
  protected instance to another net of the hierarchy, and connecting a terminal of a module instance or of a
  module that is on one net of the hierarchy to another.\<close>

theorem net_step_refines:
  assumes "nl_abs s A" "nl_open s" "net_cmd_ok s c" "net_step c s = (None, s')"
  shows "nl_abs s' (lists_after s c A) \<and> nl_open s' \<and> nl_static s' = nl_static s \<and>
    (\<forall>j as. nl_journal s = Some j \<longrightarrow> journal_holds j as \<longrightarrow>
       length (jl_bytes (j_log j)) + 40 * length (acts_of s c) < 2 ^ 31 \<longrightarrow>
       (\<exists>j'. nl_journal s' = Some j' \<and> journal_holds j' (as @ map link_enc (acts_of s c))))"
  using net_step_meets [OF assms(1-3)] assms(4)
  by (fastforce simp: meets_def outcome_def effect_def nl_to_def nl_logged_def)

theorem net_step_refines_witness:
  "\<exists>s. net_step (ItermConnect 1 1) demo_netlist = (None, s) \<and> nl_abs s (no_conn\<lparr>c_it := joined 1 1 (\<lambda>_. [])\<rparr>)"
proof -
  obtain s where "net_step (ItermConnect 1 1) demo_netlist = (None, s)" using demo_connected by blast
  with net_step_refines [OF demo_abs _ this] show ?thesis by (simp add: demo_iterm_def no_conn_def)
qed

text \<open>C15: An error leaves the netlist as it was, with one exception.  When an operation on connections raises, no
  table, no list, no callback and no journal entry has changed, unless the call connects a terminal of a
  protected instance to another net of the hierarchy: that call raises ODB-397 when the terminal already names
  the net, and has changed the netlist.\<close>

theorem net_call_atomic:
  assumes "nl_ok s" "net_step c s = (Some e, s')"
  shows "s' = s \<longleftrightarrow> (\<forall>t n tm i mn. c = ItermConnectMod t n \<longrightarrow> nl_iterms s t = Some tm \<longrightarrow>
    nl_insts s (it_inst tm) = Some i \<longrightarrow> nl_modnets s n = Some mn \<longrightarrow> ni_dont_touch i \<longrightarrow> it_mnet tm = n)"
proof -
  obtain A where A: "nl_abs s A" "nl_open s" using assms(1) by (auto simp: nl_ok_def)
  show ?thesis
  proof (cases "net_cmd_ok s c")
    case True
    from net_step_meets [OF A True] assms(2) have "s' = s" by (auto simp: meets_def outcome_def effect_def)
    with True show ?thesis by auto
  next
    case False
    have "\<exists>t n. c = ItermConnectMod t n"
    proof (cases c)
      case (ModItermConnect t n)
      with False obtain tm mn where "nl_moditerms s t = Some tm" "mi_net tm \<noteq> 0" "mi_net tm \<noteq> n" "nl_modnets s n = Some mn"
        by (auto split: option.splits)
      with moditerm_connect_breaks [OF A] assms(2) ModItermConnect show ?thesis by fastforce
    next
      case (ModBtermConnect t n)
      with False obtain tm mn where "nl_modbterms s t = Some tm" "mb_net tm \<noteq> 0" "mb_net tm \<noteq> n" "nl_modnets s n = Some mn"
        by (auto split: option.splits)
      with modbterm_connect_breaks [OF A] assms(2) ModBtermConnect show ?thesis by fastforce
    qed (use False in simp_all)
    then obtain t n where c: "c = ItermConnectMod t n" by blast
    with False obtain tm i mn where o': "nl_iterms s t = Some tm" "nl_insts s (it_inst tm) = Some i" "ni_dont_touch i"
        "nl_modnets s n = Some mn" "it_mnet tm \<noteq> n"
      by (auto split: option.splits)
    obtain s1 tm1 where "iterm_connect_mnet t n s = (Some DontTouchInst, s1)" "nl_iterms s1 t = Some tm1" "it_mnet tm1 = n"
      using iterm_connect_mnet_breaks [OF A o'] by blast
    with assms(2) c o' have "s' \<noteq> s" by auto
    with c o' show ?thesis by blast
  qed
qed

theorem net_call_atomic_witness:
  "\<exists>s' s''. net_step (ItermConnect 3 1) demo_netlist = (Some DontTouchInst, s') \<and> s' = demo_netlist
    \<and> net_step (ItermConnectMod 3 1) demo_netlist = (Some DontTouchInst, s'') \<and> s'' \<noteq> demo_netlist"
proof -
  have "net_step (ItermConnect 3 1) demo_netlist = (Some DontTouchInst, demo_netlist)"
    by (simp add: iterm_connect_net_def with_obj_def demo_iterm_def raise_def)
  moreover obtain s'' where r: "net_step (ItermConnectMod 3 1) demo_netlist = (Some DontTouchInst, s'')"
    using iterm_connect_mnet_breaks [OF demo_abs demo_objects(3) _ _ demo_objects(8), of "\<lparr>ni_dont_touch = True\<rparr>"]
    by (auto simp: demo_iterm_def)
  ultimately show ?thesis
    using net_call_atomic [OF demo_ok, of "ItermConnect 3 1"] net_call_atomic [OF demo_ok r] by (auto simp: demo_iterm_def)
qed

text \<open>Connecting an instance terminal to a net puts it in front of that net's terminals and takes
  it out of the net it was on; the order of all others, and every other list, is unchanged.\<close>

theorem iterm_connect_moves:
  assumes "nl_ok s" "nl_iterms s t = Some tm" "iterm_free s t" "nl_nets s n = Some net" "\<not> nt_dont_touch net"
    "it_net tm \<noteq> n"
  shows "\<exists>s'. iterm_connect_net t n s = (None, s') \<and> nl_ok s' \<and>
    net_iterms n s' = map_option (Cons t) (net_iterms n s) \<and>
    (\<forall>m net. m \<noteq> n \<longrightarrow> nl_nets s m = Some net \<longrightarrow> net_iterms m s' = map_option (remove1 t) (net_iterms m s)) \<and>
    (\<forall>m net. nl_nets s m = Some net \<longrightarrow> net_bterms m s' = net_bterms m s) \<and>
    (\<forall>m mn. nl_modnets s m = Some mn \<longrightarrow> modnet_iterms m s' = modnet_iterms m s \<and>
       modnet_bterms m s' = modnet_bterms m s \<and> modnet_moditerms m s' = modnet_moditerms m s \<and>
       modnet_modbterms m s' = modnet_modbterms m s)"
proof -
  obtain A where A: "nl_abs s A" "nl_open s" using assms(1) by (auto simp: nl_ok_def)
  obtain s' as where s': "iterm_connect_net t n s = (None, s')" "nl_to s as (A\<lparr>c_it := joined t n (c_it A)\<rparr>) s'"
    using iterm_connect_net_effect [OF A assms(3,2,4,5,6)] by (auto simp: effect_def)
  have B: "nl_abs s' (A\<lparr>c_it := joined t n (c_it A)\<rparr>)" "nl_open s'" using s'(2) by (simp_all add: nl_to_def)
  have "t \<notin> set (c_it A n)" using nl_members(1) [OF A(1) assms(4)] assms(2,6) by auto
  then have off: "off t (c_it A) n = c_it A n" by (simp add: off_def remove1_idem)
  have nets: "\<exists>y. nl_nets s' m = Some y" if "nl_nets s m = Some x" for m x using nl_to_objects(3) [OF s'(2) that] by blast
  have mods: "\<exists>y. nl_modnets s' m = Some y" if "nl_modnets s m = Some x" for m x using nl_to_objects(4) [OF s'(2) that] by blast
  have n: "net_iterms m s' = Some (joined t n (c_it A) m)" "net_bterms m s' = Some (c_bt A m)"
    if "nl_nets s m = Some x" for m x
    using nets [OF that] nl_lists(1,2) [OF B(1), of m] by auto
  have m: "modnet_iterms m s' = Some (c_itm A m)" "modnet_bterms m s' = Some (c_btm A m)"
      "modnet_moditerms m s' = Some (c_mi A m)" "modnet_modbterms m s' = Some (c_mb A m)"
    if "nl_modnets s m = Some x" for m x
    using mods [OF that] nl_lists(3-6) [OF B(1), of m] by auto
  show ?thesis
    using s'(1) B n m off assms(4) nl_lists [OF A(1)] by (auto simp: nl_ok_def joined_def off_def)
qed

theorem iterm_connect_moves_witness:
  "\<exists>s'. iterm_connect_net 1 2 demo_netlist = (None, s') \<and> net_iterms 2 s' = Some [1] \<and> net_iterms 1 s' = Some []"
proof -
  have f: "iterm_free demo_netlist 1" by (auto simp: iterm_free_def demo_iterm_def)
  have "net_iterms 1 demo_netlist = Some []" "net_iterms 2 demo_netlist = Some []"
    using nl_lists(1) [OF demo_abs(1) demo_objects(6)] nl_lists(1) [OF demo_abs(1) demo_objects(7)] by (simp_all add: no_conn_def)
  with iterm_connect_moves [OF demo_ok demo_objects(1) f demo_objects(7)] show ?thesis
    by (fastforce simp: demo_iterm_def)
qed

text \<open>C14: Merging nets.  When the net to be merged has instance terminals only, all of them end up in
  front of the surviving net's, and the merged net is empty.  With block terminals on it,
  \<open>mergeNet\<close> goes wrong, since \<open>connect\<close> changes the link its loop follows next: if the surviving
  net has none, only the first is moved and the others stay behind; if it has some, the loop
  never ends.\<close>

theorem merge_net:
  assumes "nl_ok s" "n \<noteq> i" "nl_nets s n = Some nn" "\<not> nt_dont_touch nn" "nl_nets s i = Some ni" "\<not> nt_dont_touch ni"
    "net_iterms i s = Some ts" "net_iterms n s = Some us" "list_all (iterm_free s) ts"
    "net_bterms i s = Some bs" "net_bterms n s = Some cs"
  shows "bs = [] \<and> (\<exists>s'. mergeNet n i s = Some (None, s') \<and> nl_ok s' \<and>
       net_iterms n s' = Some (rev ts @ us) \<and> net_iterms i s' = Some [] \<and> net_bterms n s' = Some cs) \<or>
    bs \<noteq> [] \<and> cs = [] \<and> (\<exists>s'. mergeNet n i s = Some (None, s') \<and>
       net_bterms n s' = Some [hd bs] \<and> net_bterms i s' = Some (tl bs)) \<or>
    bs \<noteq> [] \<and> cs \<noteq> [] \<and> mergeNet n i s = None"
proof -
  obtain A where A: "nl_abs s A" "nl_open s" using assms(1) by (auto simp: nl_ok_def)
  have eqs: "c_it A i = ts" "c_bt A i = bs" "c_it A n = us" "c_bt A n = cs"
    using nl_lists(1,2) [OF A(1) assms(5)] nl_lists(1,2) [OF A(1) assms(3)] assms(7,8,10,11) by simp_all
  let ?B = "A\<lparr>c_it := (c_it A)(n := rev (c_it A i) @ c_it A n, i := [])\<rparr>"
  obtain s1 nn1 ni1 where s1: "nl_abs s1 ?B" "nl_open s1" "nl_nets s1 n = Some nn1" "\<not> nt_dont_touch nn1"
      "nl_nets s1 i = Some ni1" "\<not> nt_dont_touch ni1" "mergeNet n i s = merge_bterms n (nt_bterms ni1) s1"
    by (rule mergeNet_run [OF A assms(2-6) assms(9) [folded eqs(1)]])
  show ?thesis
  proof (cases bs)
    case Nil
    have "heads_of bterm_net (nl_nets s1) i = Some (nt_bterms ni1)" using s1(5) by (simp add: heads_of_def proj_def bterm_net_def)
    from dll_head [OF linkedD(4) [OF nl_absD(3) [OF s1(1)] this]] have "nt_bterms ni1 = 0" using eqs(2) Nil by simp
    then have "mergeNet n i s = Some (None, s1)" unfolding s1(7) by (subst merge_bterms.simps) simp
    moreover have "nl_ok s1" using s1(1,2) by (auto simp: nl_ok_def)
    ultimately show ?thesis
      using Nil nl_lists(1,2) [OF s1(1,3)] nl_lists(1,2) [OF s1(1,5)] eqs assms(2) by simp
  next
    case (Cons b bs')
    then have bt: "c_bt ?B i = b # bs'" using eqs(2) by simp
    have head: "nt_bterms ni1 = b" by (rule bt_links(2) [OF s1(1,5) bt])
    show ?thesis
      using merge_bterms_from [OF s1(1-6) assms(2) bt] eqs(4) Cons by (cases "cs = []") (simp_all add: s1(7) head)
  qed
qed

lemma demo_bterms_connected:
  "\<exists>s. nl_abs s (no_conn\<lparr>c_bt := joined 2 2 (joined 1 1 (c_bt no_conn))\<rparr>) \<and> nl_open s \<and>
     nl_static s = nl_static demo_netlist"
proof -
  have "bterm_free demo_netlist 1" by (simp add: bterm_free_def demo_bterm_def)
  from bterm_connect_net_effect [OF demo_abs this demo_objects(4,6)] obtain s1 as where
    s1: "nl_to demo_netlist as (no_conn\<lparr>c_bt := joined 1 1 (c_bt no_conn)\<rparr>) s1" by (auto simp: effect_def)
  then have a: "nl_abs s1 (no_conn\<lparr>c_bt := joined 1 1 (c_bt no_conn)\<rparr>)" "nl_open s1" by (simp_all add: nl_to_def)
  obtain tm net where o': "nl_bterms s1 2 = Some tm" "nl_nets s1 2 = Some net" "\<not> nt_dont_touch net"
    using nl_to_objects(5) [OF s1 demo_objects(5)] nl_to_objects(3) [OF s1 demo_objects(7)] by auto
  have "bt_net tm = 0" using unconnected(3) [OF a(1) o'(1)] by (simp add: no_conn_def joined_def off_def)
  then have "bterm_free s1 2" using o'(1) null_objects(1) [OF a(1)] by (simp add: bterm_free_def)
  from bterm_connect_net_effect [OF a this o'] s1 show ?thesis by (auto simp: effect_def nl_to_def)
qed

theorem merge_net_witness:
  "\<exists>s. nl_ok s \<and> net_bterms 1 s = Some [1] \<and> net_bterms 2 s = Some [2] \<and> mergeNet 2 1 s = None"
proof -
  let ?A = "no_conn\<lparr>c_bt := joined 2 2 (joined 1 1 (c_bt no_conn))\<rparr>"
  obtain s where s: "nl_abs s ?A" "nl_open s" "nl_static s = nl_static demo_netlist" using demo_bterms_connected by blast
  have "proj nt_dont_touch (nl_nets s) m = proj nt_dont_touch (nl_nets demo_netlist) m" for m using s(3) by (simp add: nl_static_def)
  from this [of 1] this [of 2] obtain n1 n2 where n: "nl_nets s 1 = Some n1" "\<not> nt_dont_touch n1"
      "nl_nets s 2 = Some n2" "\<not> nt_dont_touch n2" by (auto simp: proj_def)
  have l: "net_iterms 1 s = Some []" "net_iterms 2 s = Some []" "net_bterms 1 s = Some [1]" "net_bterms 2 s = Some [2]"
    using nl_lists(1,2) [OF s(1) n(1)] nl_lists(1,2) [OF s(1) n(3)] by (simp_all add: no_conn_def joined_def off_def)
  have "nl_ok s" using s by (auto simp: nl_ok_def)
  from merge_net [OF this _ n(3,4,1,2) l(1,2) _ l(3,4)] this l show ?thesis by auto
qed

text \<open>C16: The calls that break the lists, which are exactly those that the consistency and the refinement leave out.  Connecting a terminal of a
  protected instance to another net of the hierarchy raises the error only after the terminal names the net,
  which does not have it in its list.  Connecting a terminal of a module instance, or of a module, to a net of
  the hierarchy while it is on another raises nothing and does not take it off there: the old net's iterator
  runs along the terminals before it, over it, and on along the new net's, and the terminals behind it are
  lost from their net.  After each of these calls the netlist is no longer consistent.\<close>

theorem netlist_breaking_calls:
  assumes "nl_ok s" "\<not> net_cmd_ok s c" "net_step c s = (r, s')"
  shows "\<not> nl_ok s' \<and> (case c of
      ItermConnectMod t n \<Rightarrow> r = Some DontTouchInst \<and> (\<exists>tm L. nl_iterms s' t = Some tm \<and> it_mnet tm = n
        \<and> modnet_iterms n s = Some L \<and> modnet_iterms n s' = Some L \<and> t \<notin> set L)
    | ModItermConnect t n \<Rightarrow> r = None \<and> (\<exists>tm K L. nl_moditerms s t = Some tm \<and> mi_net tm \<noteq> n
        \<and> modnet_moditerms (mi_net tm) s = Some K \<and> modnet_moditerms n s = Some L \<and> modnet_moditerms n s' = Some (t # L)
        \<and> modnet_moditerms (mi_net tm) s' = Some (takeWhile (\<lambda>x. x \<noteq> t) K @ t # L))
    | ModBtermConnect t n \<Rightarrow> r = None \<and> (\<exists>tm K L. nl_modbterms s t = Some tm \<and> mb_net tm \<noteq> n
        \<and> modnet_modbterms (mb_net tm) s = Some K \<and> modnet_modbterms n s = Some L \<and> modnet_modbterms n s' = Some (t # L)
        \<and> modnet_modbterms (mb_net tm) s' = Some (takeWhile (\<lambda>x. x \<noteq> t) K @ t # L))
    | _ \<Rightarrow> False)"
proof -
  obtain A where A: "nl_abs s A" "nl_open s" using assms(1) by (auto simp: nl_ok_def)
  show ?thesis
  proof (cases c)
    case (ItermConnectMod t n)
    with assms(2) obtain tm i mn where o': "nl_iterms s t = Some tm" "nl_insts s (it_inst tm) = Some i" "ni_dont_touch i"
        "nl_modnets s n = Some mn" "it_mnet tm \<noteq> n"
      by (auto split: option.splits)
    obtain tm' where x: "r = Some DontTouchInst" "nl_iterms s' t = Some tm'" "it_mnet tm' = n"
        "modnet_iterms n s' = modnet_iterms n s" "modnet_iterms n s = Some (c_itm A n)" "t \<notin> set (c_itm A n)"
      using iterm_connect_mnet_breaks [OF A o'] ItermConnectMod assms(3) by auto
    have "\<not> nl_ok s'" by (rule not_listed [OF x(2,3) _ x(6)]) (simp add: x(4,5))
    then show ?thesis using x ItermConnectMod by simp
  next
    case (ModItermConnect t n)
    with assms(2) obtain tm mn where o': "nl_moditerms s t = Some tm" "mi_net tm \<noteq> 0" "mi_net tm \<noteq> n" "nl_modnets s n = Some mn"
      by (auto split: option.splits)
    obtain old where "nl_modnets s (mi_net tm) = Some old" using own_exists(5) [OF A(1) o'(1,2)] by blast
    have x: "r = None" "modnet_moditerms n s' = Some (t # c_mi A n)"
        "modnet_moditerms (mi_net tm) s' = Some (takeWhile (\<lambda>x. x \<noteq> t) (c_mi A (mi_net tm)) @ t # c_mi A n)"
      using moditerm_connect_breaks [OF A o'(1) refl o'(2-4)] ModItermConnect assms(3) by auto
    have "\<not> nl_ok s'" by (rule listed_twice [OF o'(3), of t _ _ s', OF _ _ disjI1 [OF conjI [OF x(3,2)]]]) simp_all
    then show ?thesis
      using x o' ModItermConnect nl_lists(5) [OF A(1) \<open>nl_modnets s (mi_net tm) = Some old\<close>] nl_lists(5) [OF A(1) o'(4)] by simp
  next
    case (ModBtermConnect t n)
    with assms(2) obtain tm mn where o': "nl_modbterms s t = Some tm" "mb_net tm \<noteq> 0" "mb_net tm \<noteq> n" "nl_modnets s n = Some mn"
      by (auto split: option.splits)
    obtain old where "nl_modnets s (mb_net tm) = Some old" using own_exists(6) [OF A(1) o'(1,2)] by blast
    have x: "r = None" "modnet_modbterms n s' = Some (t # c_mb A n)"
        "modnet_modbterms (mb_net tm) s' = Some (takeWhile (\<lambda>x. x \<noteq> t) (c_mb A (mb_net tm)) @ t # c_mb A n)"
      using modbterm_connect_breaks [OF A o'(1) refl o'(2-4)] ModBtermConnect assms(3) by auto
    have "\<not> nl_ok s'" by (rule listed_twice [OF o'(3), of t _ _ s', OF _ _ disjI2 [OF conjI [OF x(3,2)]]]) simp_all
    then show ?thesis
      using x o' ModBtermConnect nl_lists(6) [OF A(1) \<open>nl_modnets s (mb_net tm) = Some old\<close>] nl_lists(6) [OF A(1) o'(4)] by simp
  qed (use assms(2) in simp_all)
qed

definition demo_two :: netlist where
  "demo_two = snd (net_step (ModItermConnect 2 1) (snd (net_step (ModItermConnect 1 1) demo_netlist)))"

lemma demo_two_run:
  "demo_two = demo_netlist\<lparr>
      nl_moditerms := [1 \<mapsto> \<lparr>mi_net = 1, mi_next = 0, mi_prev = 2\<rparr>, 2 \<mapsto> \<lparr>mi_net = 1, mi_next = 1, mi_prev = 0\<rparr>],
      nl_modnets := [1 \<mapsto> \<lparr>mn_moditerms = 2, mn_modbterms = 0, mn_iterms = 0, mn_bterms = 0\<rparr>,
        2 \<mapsto> \<lparr>mn_moditerms = 0, mn_modbterms = 0, mn_iterms = 0, mn_bterms = 0\<rparr>]\<rparr>"
  by (simp add: demo_two_def moditerm_connect_def link_moditerm_def with_obj_def and_then_def raise_def nl_skip_def nl_record_def
      put_lists_def push_front_def moditerm_mnet_def demo_netlist_def fun_upd_twist)

lemma demo_two_ok: "nl_ok demo_two"
proof -
  have 1: "nl_reach demo_netlist (snd (net_step (ModItermConnect 1 1) demo_netlist))"
    by (rule nl_call [OF nl_start]) simp
  have "net_cmd_ok (snd (net_step (ModItermConnect 1 1) demo_netlist)) (ModItermConnect 2 1)"
    by (simp add: moditerm_connect_def link_moditerm_def with_obj_def and_then_def raise_def nl_skip_def nl_record_def
      put_lists_def push_front_def moditerm_mnet_def demo_netlist_def)
  from nl_reach_ok [OF nl_call [OF 1 this] demo_ok] show ?thesis by (simp add: demo_two_def)
qed

theorem netlist_breaking_calls_witness:
  "(\<exists>s'. net_step (ItermConnectMod 3 1) demo_netlist = (Some DontTouchInst, s') \<and> \<not> nl_ok s')
    \<and> (\<exists>s'. net_step (ModItermConnect 2 2) demo_two = (None, s') \<and> \<not> nl_ok s' \<and> modnet_moditerms 1 s' = Some [2])"
proof -
  obtain r s' where "net_step (ItermConnectMod 3 1) demo_netlist = (r, s')" by fastforce
  with netlist_breaking_calls [OF demo_ok _ this]
  have "net_step (ItermConnectMod 3 1) demo_netlist = (Some DontTouchInst, s') \<and> \<not> nl_ok s'" by (simp add: demo_iterm_def)
  moreover have L: "modnet_moditerms 1 demo_two = Some [2, 1]" "modnet_moditerms 2 demo_two = Some []"
    by (simp_all add: demo_two_run modnet_moditerms_def mb_elems_def moditerm_mnet_def mb_iterate.simps)
  obtain r s'' where "net_step (ModItermConnect 2 2) demo_two = (r, s'')" by fastforce
  with netlist_breaking_calls [OF demo_two_ok _ this] L
  have "net_step (ModItermConnect 2 2) demo_two = (None, s'') \<and> \<not> nl_ok s'' \<and> modnet_moditerms 1 s'' = Some [2]"
    by (simp add: demo_two_run) 
  ultimately show ?thesis by blast
qed

end
