(* ===== verification/OdbNetlistEco.thy ===== *)
theory OdbNetlistEco imports OdbConnections begin

text \<open>
  Undo and redo of connections: the cases \<open>CONNECT_OBJECT\<close> and \<open>DISCONNECT_OBJECT\<close> of the
  switches of \<open>dbJournal.cpp\<close>, and \<open>beginEco\<close>, \<open>endEco\<close>, \<open>undoEco\<close> and \<open>commitEco\<close> of
  \<open>dbDatabase.cpp\<close> over the netlist.

  Shown are that \<open>undoEco\<close> puts every terminal back on its nets and \<open>commitEco\<close> repeats the
  changes, for the calls the journal can replay, and what goes wrong with the others.
\<close>

section \<open>The switches\<close>

text \<open>A call of an operation from the replay, where an exception ends it.\<close>

definition call :: "nl_step \<Rightarrow> netlist \<Rightarrow> journal_error + netlist" where
  "call f s = (case f s of (None, s') \<Rightarrow> Inr s' | (Some e, s') \<Rightarrow> Inl e)"

definition getObj :: "(netlist \<Rightarrow> 'a tab) \<Rightarrow> u32 \<Rightarrow> netlist \<Rightarrow> journal_error + 'a" where
  "getObj sel i s = (case sel s i of None \<Rightarrow> Inl NoSuchObject | Some x \<Rightarrow> Inr x)"

type_synonym nl_case = "jlog \<Rightarrow> netlist \<Rightarrow> journal_error + jlog \<times> netlist"

definition redo_connectObject :: nl_case where
  "redo_connectObject l s = sum_bind (popObjectType l) (\<lambda>(obj_type, l).
     if obj_type = dbITermObj then
       sum_bind (jl_pop_uint l) (\<lambda>(iterm_id, l). sum_bind (getObj nl_iterms iterm_id s) (\<lambda>_.
       sum_bind (jl_pop_uint l) (\<lambda>(net_id, l).
       sum_bind (if net_id \<noteq> 0 then sum_bind (getObj nl_nets net_id s) (\<lambda>_. call (iterm_connect_net iterm_id net_id) s) else Inr s) (\<lambda>s.
       sum_bind (jl_pop_uint l) (\<lambda>(mod_net_id, l).
       sum_bind (if mod_net_id \<noteq> 0 then sum_bind (getObj nl_modnets mod_net_id s) (\<lambda>_. call (iterm_connect_mnet iterm_id mod_net_id) s) else Inr s) (\<lambda>s.
         Inr (l, s)))))))
     else if obj_type = dbBTermObj then
       sum_bind (jl_pop_uint l) (\<lambda>(bterm_id, l). sum_bind (getObj nl_bterms bterm_id s) (\<lambda>_.
       sum_bind (jl_pop_uint l) (\<lambda>(net_id, l). sum_bind (getObj nl_nets net_id s) (\<lambda>_.
       sum_bind (call (bterm_connect_net bterm_id net_id) s) (\<lambda>s. Inr (l, s))))))
     else if obj_type = dbModBTermObj then
       sum_bind (jl_pop_uint l) (\<lambda>(modbterm_id, l). sum_bind (jl_pop_uint l) (\<lambda>(modnet_id, l).
       sum_bind (getObj nl_modbterms modbterm_id s) (\<lambda>_.
       sum_bind (if modnet_id \<noteq> 0 then sum_bind (getObj nl_modnets modnet_id s) (\<lambda>_. call (modbterm_connect modbterm_id modnet_id) s) else Inr s) (\<lambda>s.
         Inr (l, s)))))
     else if obj_type = dbModITermObj then
       sum_bind (jl_pop_uint l) (\<lambda>(moditerm_id, l). sum_bind (jl_pop_uint l) (\<lambda>(modnet_id, l).
       sum_bind (getObj nl_moditerms moditerm_id s) (\<lambda>_.
       sum_bind (if modnet_id \<noteq> 0 then sum_bind (getObj nl_modnets modnet_id s) (\<lambda>_. call (moditerm_connect moditerm_id modnet_id) s) else Inr s) (\<lambda>s.
         Inr (l, s)))))
     else Inl UnsupportedUndo)"

definition redo_disconnectObject :: nl_case where
  "redo_disconnectObject l s = sum_bind (popObjectType l) (\<lambda>(obj_type, l).
     if obj_type = dbITermObj then
       sum_bind (jl_pop_uint l) (\<lambda>(iterm_id, l). sum_bind (getObj nl_iterms iterm_id s) (\<lambda>_.
       sum_bind (jl_pop_uint l) (\<lambda>(net_id, l). sum_bind (jl_pop_uint l) (\<lambda>(mnet_id, l).
       sum_bind (if net_id \<noteq> 0 \<and> mnet_id \<noteq> 0 then call (iterm_disconnect iterm_id) s
         else if net_id \<noteq> 0 then call (iterm_disconnectDbNet iterm_id) s
         else if mnet_id \<noteq> 0 then call (iterm_disconnectModNet iterm_id) s
         else Inr s) (\<lambda>s. Inr (l, s))))))
     else if obj_type = dbBTermObj then
       sum_bind (jl_pop_uint l) (\<lambda>(bterm_id, l). sum_bind (getObj nl_bterms bterm_id s) (\<lambda>_.
       sum_bind (jl_pop_uint l) (\<lambda>(net_id, l).
       sum_bind (if net_id \<noteq> 0 then call (bterm_disconnectDbNet bterm_id) s else Inr s) (\<lambda>s.
       sum_bind (jl_pop_uint l) (\<lambda>(mnet_id, l).
       sum_bind (if mnet_id \<noteq> 0 then call (bterm_disconnectDbModNet bterm_id) s else Inr s) (\<lambda>s.
         Inr (l, s)))))))
     else if obj_type = dbModBTermObj then
       sum_bind (jl_pop_uint l) (\<lambda>(modbterm_id, l). sum_bind (jl_pop_uint l) (\<lambda>(modnet_id, l).
       sum_bind (getObj nl_modbterms modbterm_id s) (\<lambda>_.
       sum_bind (call (modbterm_disconnect modbterm_id) s) (\<lambda>s. Inr (l, s)))))
     else if obj_type = dbModITermObj then
       sum_bind (jl_pop_uint l) (\<lambda>(moditerm_id, l). sum_bind (jl_pop_uint l) (\<lambda>(modnet_id, l).
       sum_bind (getObj nl_moditerms moditerm_id s) (\<lambda>_.
       sum_bind (call (moditerm_disconnect moditerm_id) s) (\<lambda>s. Inr (l, s)))))
     else Inl UnsupportedUndo)"

definition undo_connectObject :: nl_case where
  "undo_connectObject l s = sum_bind (popObjectType l) (\<lambda>(obj_type, l).
     if obj_type = dbModITermObj then
       sum_bind (jl_pop_uint l) (\<lambda>(moditerm_id, l). sum_bind (getObj nl_moditerms moditerm_id s) (\<lambda>_.
       sum_bind (jl_pop_uint l) (\<lambda>(net_id, l).
       sum_bind (call (moditerm_disconnect moditerm_id) s) (\<lambda>s. Inr (l, s)))))
     else if obj_type = dbModBTermObj then
       sum_bind (jl_pop_uint l) (\<lambda>(modbterm_id, l). sum_bind (getObj nl_modbterms modbterm_id s) (\<lambda>_.
       sum_bind (jl_pop_uint l) (\<lambda>(net_id, l).
       sum_bind (call (modbterm_disconnect modbterm_id) s) (\<lambda>s. Inr (l, s)))))
     else if obj_type = dbITermObj then
       sum_bind (jl_pop_uint l) (\<lambda>(iterm_id, l). sum_bind (getObj nl_iterms iterm_id s) (\<lambda>_.
       sum_bind (jl_pop_uint l) (\<lambda>(net_id, l). sum_bind (jl_pop_uint l) (\<lambda>(mnet_id, l).
       sum_bind (if net_id \<noteq> 0 then call (iterm_disconnectDbNet iterm_id) s else Inr s) (\<lambda>s.
       sum_bind (if mnet_id \<noteq> 0 then call (iterm_disconnectModNet iterm_id) s else Inr s) (\<lambda>s.
         Inr (l, s)))))))
     else if obj_type = dbBTermObj then
       sum_bind (jl_pop_uint l) (\<lambda>(bterm_id, l). sum_bind (getObj nl_bterms bterm_id s) (\<lambda>_.
       sum_bind (jl_pop_uint l) (\<lambda>(net_id, l). sum_bind (jl_pop_uint l) (\<lambda>(mnet_id, l).
       sum_bind (call (bterm_disconnect bterm_id) s) (\<lambda>s. Inr (l, s))))))
     else Inl UnsupportedUndo)"

definition undo_disconnectObject :: nl_case where
  "undo_disconnectObject l s = sum_bind (popObjectType l) (\<lambda>(obj_type, l).
     if obj_type = dbITermObj then
       sum_bind (jl_pop_uint l) (\<lambda>(iterm_id, l). sum_bind (getObj nl_iterms iterm_id s) (\<lambda>_.
       sum_bind (jl_pop_uint l) (\<lambda>(net_id, l).
       sum_bind (if net_id \<noteq> 0 then sum_bind (getObj nl_nets net_id s) (\<lambda>_. call (iterm_connect_net iterm_id net_id) s) else Inr s) (\<lambda>s.
       sum_bind (jl_pop_uint l) (\<lambda>(mnet_id, l).
       sum_bind (if mnet_id \<noteq> 0 then sum_bind (getObj nl_modnets mnet_id s) (\<lambda>_. call (iterm_connect_mnet iterm_id mnet_id) s) else Inr s) (\<lambda>s.
         Inr (l, s)))))))
     else if obj_type = dbBTermObj then
       sum_bind (jl_pop_uint l) (\<lambda>(bterm_id, l). sum_bind (getObj nl_bterms bterm_id s) (\<lambda>_.
       sum_bind (jl_pop_uint l) (\<lambda>(net_id, l).
       sum_bind (if net_id \<noteq> 0 then sum_bind (getObj nl_nets net_id s) (\<lambda>_. call (bterm_connect_net bterm_id net_id) s) else Inr s) (\<lambda>s.
       sum_bind (jl_pop_uint l) (\<lambda>(mnet_id, l).
       sum_bind (if mnet_id \<noteq> 0 then sum_bind (getObj nl_modnets mnet_id s) (\<lambda>_. call (bterm_connect_mnet bterm_id mnet_id) s) else Inr s) (\<lambda>s.
         Inr (l, s)))))))
     else if obj_type = dbModBTermObj then
       sum_bind (jl_pop_uint l) (\<lambda>(modbterm_id, l). sum_bind (jl_pop_uint l) (\<lambda>(modnet_id, l).
       sum_bind (getObj nl_modbterms modbterm_id s) (\<lambda>_.
       sum_bind (if modnet_id \<noteq> 0 then sum_bind (getObj nl_modnets modnet_id s) (\<lambda>_. call (modbterm_connect modbterm_id modnet_id) s) else Inr s) (\<lambda>s.
         Inr (l, s)))))
     else if obj_type = dbModITermObj then
       sum_bind (jl_pop_uint l) (\<lambda>(moditerm_id, l). sum_bind (jl_pop_uint l) (\<lambda>(modnet_id, l).
       sum_bind (getObj nl_moditerms moditerm_id s) (\<lambda>_.
       sum_bind (if modnet_id \<noteq> 0 then sum_bind (getObj nl_modnets modnet_id s) (\<lambda>_. call (moditerm_connect moditerm_id modnet_id) s) else Inr s) (\<lambda>s.
         Inr (l, s)))))
     else Inl UnsupportedUndo)"

text \<open>The cases of the other actions are a parameter.\<close>

definition nl_undo_switch :: "netlist switch \<Rightarrow> netlist switch" where
  "nl_undo_switch h a l s = (if a = CONNECT_OBJECT then undo_connectObject l s
     else if a = DISCONNECT_OBJECT then undo_disconnectObject l s else h a l s)"

definition nl_redo_switch :: "netlist switch \<Rightarrow> netlist switch" where
  "nl_redo_switch h a l s = (if a = CONNECT_OBJECT then redo_connectObject l s
     else if a = DISCONNECT_OBJECT then redo_disconnectObject l s else h a l s)"

section \<open>The ECO operations\<close>

definition nl_beginEco :: "bool \<Rightarrow> netlist \<Rightarrow> netlist" where
  "nl_beginEco debug s = s\<lparr>nl_journal := Some (journal_new debug)\<rparr>"

definition nl_endEco :: "netlist \<Rightarrow> netlist" where
  "nl_endEco s = s\<lparr>nl_journal := None, nl_pending := nl_journal s\<rparr>"

definition nl_undoEco :: "netlist switch \<Rightarrow> netlist \<Rightarrow> (journal_error + netlist) option" where
  "nl_undoEco h s = (case nl_pending s of
       None \<Rightarrow> Some (Inr s)
     | Some j \<Rightarrow> map_option (\<lambda>r. sum_bind r (\<lambda>(j, s). Inr (s\<lparr>nl_pending := None\<rparr>)))
                   (undo (nl_undo_switch h) j s))"

definition nl_commitEco :: "netlist switch \<Rightarrow> netlist \<Rightarrow> (journal_error + netlist) option" where
  "nl_commitEco h s = (case nl_pending s of
       None \<Rightarrow> Some (Inr s)
     | Some j \<Rightarrow> map_option (\<lambda>r. sum_bind r (\<lambda>(j, s). Inr (s\<lparr>nl_pending := None\<rparr>)))
                   (redo (nl_redo_switch h) j s))"

section \<open>The effect of replaying an action\<close>

definition withObj :: "(netlist \<Rightarrow> 'a tab) \<Rightarrow> u32 \<Rightarrow> nl_step \<Rightarrow> netlist \<Rightarrow> journal_error + netlist" where
  "withObj sel i f s = sum_bind (getObj sel i s) (\<lambda>_. call f s)"

definition unlessNull :: "u32 \<Rightarrow> (netlist \<Rightarrow> journal_error + netlist) \<Rightarrow> netlist \<Rightarrow> journal_error + netlist" where
  "unlessNull n f s = (if n \<noteq> 0 then f s else Inr s)"

fun link_undo :: "link_act \<Rightarrow> netlist \<Rightarrow> journal_error + netlist" where
  "link_undo (ItConn t n) s = sum_bind (getObj nl_iterms t s) (\<lambda>_. unlessNull n (call (iterm_disconnectDbNet t)) s)"
| "link_undo (ItConnM t m) s = sum_bind (getObj nl_iterms t s) (\<lambda>_. unlessNull m (call (iterm_disconnectModNet t)) s)"
| "link_undo (ItDisc t n m) s = sum_bind (getObj nl_iterms t s) (\<lambda>_.
     sum_bind (unlessNull n (withObj nl_nets n (iterm_connect_net t n)) s)
       (unlessNull m (withObj nl_modnets m (iterm_connect_mnet t m))))"
| "link_undo (ItDiscN t n) s = sum_bind (getObj nl_iterms t s) (\<lambda>_.
     unlessNull n (withObj nl_nets n (iterm_connect_net t n)) s)"
| "link_undo (ItDiscM t m) s = sum_bind (getObj nl_iterms t s) (\<lambda>_.
     unlessNull m (withObj nl_modnets m (iterm_connect_mnet t m)) s)"
| "link_undo (BtConn t n) s = withObj nl_bterms t (bterm_disconnect t) s"
| "link_undo (BtConnM t m) s = withObj nl_bterms t (bterm_disconnect t) s"
| "link_undo (BtDisc t n) s = sum_bind (getObj nl_bterms t s) (\<lambda>_.
     unlessNull n (withObj nl_nets n (bterm_connect_net t n)) s)"
| "link_undo (BtDiscM t m) s = sum_bind (getObj nl_bterms t s) (\<lambda>_.
     unlessNull m (withObj nl_modnets m (bterm_connect_mnet t m)) s)"
| "link_undo (MiConn t n) s = withObj nl_moditerms t (moditerm_disconnect t) s"
| "link_undo (MiDisc t n) s = sum_bind (getObj nl_moditerms t s) (\<lambda>_.
     unlessNull n (withObj nl_modnets n (moditerm_connect t n)) s)"
| "link_undo (MbConn t n) s = withObj nl_modbterms t (modbterm_disconnect t) s"
| "link_undo (MbDisc t n) s = sum_bind (getObj nl_modbterms t s) (\<lambda>_.
     unlessNull n (withObj nl_modnets n (modbterm_connect t n)) s)"

text \<open>Redoing a connection of a block terminal is not an effect of the switch, see below.\<close>

fun link_redo :: "link_act \<Rightarrow> netlist \<Rightarrow> journal_error + netlist" where
  "link_redo (ItConn t n) s = sum_bind (getObj nl_iterms t s) (\<lambda>_.
     unlessNull n (withObj nl_nets n (iterm_connect_net t n)) s)"
| "link_redo (ItConnM t m) s = sum_bind (getObj nl_iterms t s) (\<lambda>_.
     unlessNull m (withObj nl_modnets m (iterm_connect_mnet t m)) s)"
| "link_redo (ItDisc t n m) s = sum_bind (getObj nl_iterms t s) (\<lambda>_.
     if n \<noteq> 0 \<and> m \<noteq> 0 then call (iterm_disconnect t) s
     else if n \<noteq> 0 then call (iterm_disconnectDbNet t) s
     else if m \<noteq> 0 then call (iterm_disconnectModNet t) s
     else Inr s)"
| "link_redo (ItDiscN t n) s = sum_bind (getObj nl_iterms t s) (\<lambda>_. unlessNull n (call (iterm_disconnectDbNet t)) s)"
| "link_redo (ItDiscM t m) s = sum_bind (getObj nl_iterms t s) (\<lambda>_. unlessNull m (call (iterm_disconnectModNet t)) s)"
| "link_redo (BtConn t n) s = Inl ExpectedEndAction"
| "link_redo (BtConnM t m) s = Inl ExpectedEndAction"
| "link_redo (BtDisc t n) s = sum_bind (getObj nl_bterms t s) (\<lambda>_. unlessNull n (call (bterm_disconnectDbNet t)) s)"
| "link_redo (BtDiscM t m) s = sum_bind (getObj nl_bterms t s) (\<lambda>_. unlessNull m (call (bterm_disconnectDbModNet t)) s)"
| "link_redo (MiConn t n) s = sum_bind (getObj nl_moditerms t s) (\<lambda>_.
     unlessNull n (withObj nl_modnets n (moditerm_connect t n)) s)"
| "link_redo (MiDisc t n) s = withObj nl_moditerms t (moditerm_disconnect t) s"
| "link_redo (MbConn t n) s = sum_bind (getObj nl_modbterms t s) (\<lambda>_.
     unlessNull n (withObj nl_modnets n (modbterm_connect t n)) s)"
| "link_redo (MbDisc t n) s = withObj nl_modbterms t (modbterm_disconnect t) s"

text \<open>
  The zero that stands for no net is written as a signed integer and read as an unsigned one,
  which the type tags of the debug mode tell apart.
\<close>

fun undo_modes :: "link_act \<Rightarrow> bool set" where
  "undo_modes (ItConn t n) = {False}"
| "undo_modes (ItConnM t n) = {False}"
| "undo_modes (ItDiscN t n) = {False}"
| "undo_modes (ItDiscM t n) = {False}"
| "undo_modes a = UNIV"

fun redo_modes :: "link_act \<Rightarrow> bool set" where
  "redo_modes (BtConn t n) = {}"
| "redo_modes (BtConnM t n) = {}"
| "redo_modes a = undo_modes a"

text \<open>Without tags a signed integer reads as an unsigned one.\<close>

lemma pop_uint_untagged:
  assumes "readable l (vals_bytes (jl_debug l) (JInt v # vs) @ bs)" "\<not> jl_debug l"
  shows "jl_pop_uint l = Inr (v, skip (JInt v) l)"
proof -
  have "readable l (vals_bytes (jl_debug l) (JUInt v # vs) @ bs)" using assms by (simp add: tag_def)
  from pop_uint_readable [OF this] show ?thesis using assms(2) by (simp add: skip_def tag_def)
qed

lemma link_enc_params: "list_all jval_ok (snd (link_enc a))" "fst (link_enc a) \<noteq> END_ACTION"
  by (cases a; simp add: jval_ok_def)+


definition reads_as :: "bool \<Rightarrow> jval \<Rightarrow> u32 \<Rightarrow> bool" where
  "reads_as debug v x \<longleftrightarrow> v = JUInt x \<or> v = JInt x \<and> \<not> debug"

lemma pop_word:
  assumes "readable l (vals_bytes (jl_debug l) (v # vs) @ bs)" "reads_as (jl_debug l) v x"
  shows "jl_pop_uint l = Inr (x, skip v l)"
  using assms pop_uint_readable pop_uint_untagged unfolding reads_as_def by blast

lemma link_pops:
  assumes "readable l (vals_bytes (jl_debug l) (JInt ty # JUInt t # v # vs) @ bs)" "reads_as (jl_debug l) v x"
  shows "popObjectType l = Inr (ty, skip (JInt ty) l)"
    "jl_pop_uint (skip (JInt ty) l) = Inr (t, skip (JUInt t) (skip (JInt ty) l))"
    "jl_pop_uint (skip (JUInt t) (skip (JInt ty) l)) = Inr (x, skip v (skip (JUInt t) (skip (JInt ty) l)))"
    "vs = [w] \<Longrightarrow> reads_as (jl_debug l) w y \<Longrightarrow> jl_pop_uint (skip v (skip (JUInt t) (skip (JInt ty) l))) =
       Inr (y, skip w (skip v (skip (JUInt t) (skip (JInt ty) l))))"
proof -
  note r1 = readable_skip [OF assms(1)] note r2 = readable_skip [OF r1] note r3 = readable_skip [OF r2]
  show "popObjectType l = Inr (ty, skip (JInt ty) l)" unfolding popObjectType_def by (rule pop_int_readable [OF assms(1)])
  show "jl_pop_uint (skip (JInt ty) l) = Inr (t, skip (JUInt t) (skip (JInt ty) l))" by (rule pop_uint_readable [OF r1])
  show "jl_pop_uint (skip (JUInt t) (skip (JInt ty) l)) = Inr (x, skip v (skip (JUInt t) (skip (JInt ty) l)))"
    by (rule pop_word [OF r2]) (simp add: assms(2))
  show "jl_pop_uint (skip v (skip (JUInt t) (skip (JInt ty) l))) = Inr (y, skip w (skip v (skip (JUInt t) (skip (JInt ty) l))))"
    if "vs = [w]" "reads_as (jl_debug l) w y"
    by (rule pop_word [OF r3 [unfolded that(1)]]) (simp add: that(2))
qed

lemma sum_bind_assoc: "sum_bind (sum_bind r f) g = sum_bind r (\<lambda>a. sum_bind (f a) g)"
  by (cases r) simp_all

lemmas case_defs = sum_bind_assoc undo_connectObject_def undo_disconnectObject_def redo_connectObject_def redo_disconnectObject_def
  nl_undo_switch_def nl_redo_switch_def withObj_def unlessNull_def

lemma iterm_cases:
  assumes "readable l (vals_bytes (jl_debug l) [JInt dbITermObj, JUInt t, v, w] @ bs)"
    "reads_as (jl_debug l) v x" "reads_as (jl_debug l) w y"
  shows "nl_undo_switch h CONNECT_OBJECT l s = sum_bind (getObj nl_iterms t s) (\<lambda>_.
      sum_bind (unlessNull x (call (iterm_disconnectDbNet t)) s) (\<lambda>s.
      sum_bind (unlessNull y (call (iterm_disconnectModNet t)) s) (\<lambda>s. Inr (skips [JInt dbITermObj, JUInt t, v, w] l, s))))"
    "nl_undo_switch h DISCONNECT_OBJECT l s = sum_bind (getObj nl_iterms t s) (\<lambda>_.
      sum_bind (unlessNull x (withObj nl_nets x (iterm_connect_net t x)) s) (\<lambda>s.
      sum_bind (unlessNull y (withObj nl_modnets y (iterm_connect_mnet t y)) s) (\<lambda>s.
        Inr (skips [JInt dbITermObj, JUInt t, v, w] l, s))))"
    "nl_redo_switch h CONNECT_OBJECT l s = sum_bind (getObj nl_iterms t s) (\<lambda>_.
      sum_bind (unlessNull x (withObj nl_nets x (iterm_connect_net t x)) s) (\<lambda>s.
      sum_bind (unlessNull y (withObj nl_modnets y (iterm_connect_mnet t y)) s) (\<lambda>s.
        Inr (skips [JInt dbITermObj, JUInt t, v, w] l, s))))"
    "nl_redo_switch h DISCONNECT_OBJECT l s = sum_bind (getObj nl_iterms t s) (\<lambda>_.
      sum_bind (if x \<noteq> 0 \<and> y \<noteq> 0 then call (iterm_disconnect t) s else if x \<noteq> 0 then call (iterm_disconnectDbNet t) s
        else if y \<noteq> 0 then call (iterm_disconnectModNet t) s else Inr s) (\<lambda>s.
        Inr (skips [JInt dbITermObj, JUInt t, v, w] l, s)))"
  using link_pops [OF assms(1,2)] assms(3) by (simp_all add: case_defs)

lemma bterm_cases:
  assumes "readable l (vals_bytes (jl_debug l) [JInt dbBTermObj, JUInt t, v, w] @ bs)"
    "reads_as (jl_debug l) v x" "reads_as (jl_debug l) w y"
  shows "nl_undo_switch h CONNECT_OBJECT l s = sum_bind (withObj nl_bterms t (bterm_disconnect t) s)
      (\<lambda>s. Inr (skips [JInt dbBTermObj, JUInt t, v, w] l, s))"
    "nl_undo_switch h DISCONNECT_OBJECT l s = sum_bind (getObj nl_bterms t s) (\<lambda>_.
      sum_bind (unlessNull x (withObj nl_nets x (bterm_connect_net t x)) s) (\<lambda>s.
      sum_bind (unlessNull y (withObj nl_modnets y (bterm_connect_mnet t y)) s) (\<lambda>s.
        Inr (skips [JInt dbBTermObj, JUInt t, v, w] l, s))))"
    "nl_redo_switch h DISCONNECT_OBJECT l s = sum_bind (getObj nl_bterms t s) (\<lambda>_.
      sum_bind (unlessNull x (call (bterm_disconnectDbNet t)) s) (\<lambda>s.
      sum_bind (unlessNull y (call (bterm_disconnectDbModNet t)) s) (\<lambda>s.
        Inr (skips [JInt dbBTermObj, JUInt t, v, w] l, s))))"
  using link_pops [OF assms(1,2)] assms(3) by (simp_all add: case_defs)

lemma moditerm_cases:
  assumes "readable l (vals_bytes (jl_debug l) [JInt dbModITermObj, JUInt t, JUInt x] @ bs)"
  shows "nl_undo_switch h CONNECT_OBJECT l s = sum_bind (withObj nl_moditerms t (moditerm_disconnect t) s)
      (\<lambda>s. Inr (skips [JInt dbModITermObj, JUInt t, JUInt x] l, s))"
    "nl_undo_switch h DISCONNECT_OBJECT l s = sum_bind (getObj nl_moditerms t s) (\<lambda>_.
      sum_bind (unlessNull x (withObj nl_modnets x (moditerm_connect t x)) s)
        (\<lambda>s. Inr (skips [JInt dbModITermObj, JUInt t, JUInt x] l, s)))"
    "nl_redo_switch h CONNECT_OBJECT l s = sum_bind (getObj nl_moditerms t s) (\<lambda>_.
      sum_bind (unlessNull x (withObj nl_modnets x (moditerm_connect t x)) s)
        (\<lambda>s. Inr (skips [JInt dbModITermObj, JUInt t, JUInt x] l, s)))"
    "nl_redo_switch h DISCONNECT_OBJECT l s = sum_bind (withObj nl_moditerms t (moditerm_disconnect t) s)
      (\<lambda>s. Inr (skips [JInt dbModITermObj, JUInt t, JUInt x] l, s))"
  using link_pops [OF assms, of x] by (simp_all add: case_defs reads_as_def)

lemma modbterm_cases:
  assumes "readable l (vals_bytes (jl_debug l) [JInt dbModBTermObj, JUInt t, JUInt x] @ bs)"
  shows "nl_undo_switch h CONNECT_OBJECT l s = sum_bind (withObj nl_modbterms t (modbterm_disconnect t) s)
      (\<lambda>s. Inr (skips [JInt dbModBTermObj, JUInt t, JUInt x] l, s))"
    "nl_undo_switch h DISCONNECT_OBJECT l s = sum_bind (getObj nl_modbterms t s) (\<lambda>_.
      sum_bind (unlessNull x (withObj nl_modnets x (modbterm_connect t x)) s)
        (\<lambda>s. Inr (skips [JInt dbModBTermObj, JUInt t, JUInt x] l, s)))"
    "nl_redo_switch h CONNECT_OBJECT l s = sum_bind (getObj nl_modbterms t s) (\<lambda>_.
      sum_bind (unlessNull x (withObj nl_modnets x (modbterm_connect t x)) s)
        (\<lambda>s. Inr (skips [JInt dbModBTermObj, JUInt t, JUInt x] l, s)))"
    "nl_redo_switch h DISCONNECT_OBJECT l s = sum_bind (withObj nl_modbterms t (modbterm_disconnect t) s)
      (\<lambda>s. Inr (skips [JInt dbModBTermObj, JUInt t, JUInt x] l, s))"
  using link_pops [OF assms, of x] by (simp_all add: case_defs reads_as_def)

lemmas eff_simps = reads_as_def unlessNull_def sum_bind_assoc

lemma nl_undo_switch_eff:
  assumes "jl_debug l \<in> undo_modes a" "readable l (vals_bytes (jl_debug l) (snd (link_enc a)) @ bs)"
  shows "nl_undo_switch h (fst (link_enc a)) l s = sum_bind (link_undo a s) (\<lambda>s. Inr (skips (snd (link_enc a)) l, s))"
proof (cases a)
  case (ItConn t n)
  then show ?thesis using assms iterm_cases(1) [of l t "JUInt n" "JInt 0" bs n 0] by (simp add: eff_simps)
next
  case (ItConnM t n)
  then show ?thesis using assms iterm_cases(1) [of l t "JInt 0" "JUInt n" bs 0 n] by (simp add: eff_simps)
next
  case (ItDisc t n m)
  then show ?thesis using assms iterm_cases(2) [of l t "JUInt n" "JUInt m" bs n m] by (simp add: eff_simps)
next
  case (ItDiscN t n)
  then show ?thesis using assms iterm_cases(2) [of l t "JUInt n" "JInt 0" bs n 0] by (simp add: eff_simps)
next
  case (ItDiscM t n)
  then show ?thesis using assms iterm_cases(2) [of l t "JInt 0" "JUInt n" bs 0 n] by (simp add: eff_simps)
next
  case (BtConn t n)
  then show ?thesis using assms bterm_cases(1) [of l t "JUInt n" "JUInt 0" bs n 0] by (simp add: eff_simps)
next
  case (BtConnM t n)
  then show ?thesis using assms bterm_cases(1) [of l t "JUInt 0" "JUInt n" bs 0 n] by (simp add: eff_simps)
next
  case (BtDisc t n)
  then show ?thesis using assms bterm_cases(2) [of l t "JUInt n" "JUInt 0" bs n 0] by (simp add: eff_simps)
next
  case (BtDiscM t n)
  then show ?thesis using assms bterm_cases(2) [of l t "JUInt 0" "JUInt n" bs 0 n] by (simp add: eff_simps)
next
  case (MiConn t n)
  then show ?thesis using assms moditerm_cases(1) [of l t n bs] by (simp add: eff_simps)
next
  case (MiDisc t n)
  then show ?thesis using assms moditerm_cases(2) [of l t n bs] by (simp add: eff_simps)
next
  case (MbConn t n)
  then show ?thesis using assms modbterm_cases(1) [of l t n bs] by (simp add: eff_simps)
next
  case (MbDisc t n)
  then show ?thesis using assms modbterm_cases(2) [of l t n bs] by (simp add: eff_simps)
qed

lemma nl_redo_switch_eff:
  assumes "jl_debug l \<in> redo_modes a" "readable l (vals_bytes (jl_debug l) (snd (link_enc a)) @ bs)"
  shows "nl_redo_switch h (fst (link_enc a)) l s = sum_bind (link_redo a s) (\<lambda>s. Inr (skips (snd (link_enc a)) l, s))"
proof (cases a)
  case (ItConn t n)
  then show ?thesis using assms iterm_cases(3) [of l t "JUInt n" "JInt 0" bs n 0] by (simp add: eff_simps)
next
  case (ItConnM t n)
  then show ?thesis using assms iterm_cases(3) [of l t "JInt 0" "JUInt n" bs 0 n] by (simp add: eff_simps)
next
  case (ItDisc t n m)
  then show ?thesis using assms iterm_cases(4) [of l t "JUInt n" "JUInt m" bs n m] by (simp add: eff_simps)
next
  case (ItDiscN t n)
  then show ?thesis using assms iterm_cases(4) [of l t "JUInt n" "JInt 0" bs n 0] by (simp add: eff_simps)
next
  case (ItDiscM t n)
  then show ?thesis using assms iterm_cases(4) [of l t "JInt 0" "JUInt n" bs 0 n] by (simp add: eff_simps)
next
  case (BtConn t n)
  then show ?thesis using assms(1) by simp
next
  case (BtConnM t n)
  then show ?thesis using assms(1) by simp
next
  case (BtDisc t n)
  then show ?thesis using assms bterm_cases(3) [of l t "JUInt n" "JUInt 0" bs n 0] by (simp add: eff_simps)
next
  case (BtDiscM t n)
  then show ?thesis using assms bterm_cases(3) [of l t "JUInt 0" "JUInt n" bs 0 n] by (simp add: eff_simps)
next
  case (MiConn t n)
  then show ?thesis using assms moditerm_cases(3) [of l t n bs] by (simp add: eff_simps)
next
  case (MiDisc t n)
  then show ?thesis using assms moditerm_cases(4) [of l t n bs] by (simp add: eff_simps)
next
  case (MbConn t n)
  then show ?thesis using assms modbterm_cases(3) [of l t n bs] by (simp add: eff_simps)
next
  case (MbDisc t n)
  then show ?thesis using assms modbterm_cases(4) [of l t n bs] by (simp add: eff_simps)
qed

interpretation nl_undoing: journal_switch link_enc "nl_undo_switch h" link_undo undo_modes for h
  by unfold_locales (simp_all only: link_enc_params nl_undo_switch_eff not_False_eq_True)

interpretation nl_redoing: journal_switch link_enc "nl_redo_switch h" link_redo redo_modes for h
  by unfold_locales (simp_all only: link_enc_params nl_redo_switch_eff not_False_eq_True)

section \<open>The nets of the terminals\<close>

text \<open>Which net each terminal names, by kind of terminal and of net; the order of the lists is left out.\<close>

datatype place = ItNet | ItMnet | BtNet | BtMnet | MiMnet | MbMnet

type_synonym owners = "place \<Rightarrow> u32 \<rightharpoonup> u32"

fun owner :: "netlist \<Rightarrow> owners" where
  "owner s ItNet = proj it_net (nl_iterms s)"
| "owner s ItMnet = proj it_mnet (nl_iterms s)"
| "owner s BtNet = proj bt_net (nl_bterms s)"
| "owner s BtMnet = proj bt_mnet (nl_bterms s)"
| "owner s MiMnet = proj mi_net (nl_moditerms s)"
| "owner s MbMnet = proj mb_net (nl_modbterms s)"

definition owns :: "links \<Rightarrow> u32 \<rightharpoonup> u32" where
  "owns v = (\<lambda>t. map_option fst (v t))"

text \<open>Lists in which every terminal but one is on the same net give the same owners but for that one.\<close>

lemma owns_other:
  assumes "linked v h L" "linked v' h' L'" "dom v' = dom v" "\<And>m. t \<in> set (L m) \<longleftrightarrow> t \<in> set (L' m)"
  shows "owns v' t = owns v t"
proof (cases "v t")
  case None
  have "v' t = None" using None assms(3) domIff [of t v] domIff [of t v'] by blast
  with None show ?thesis by (simp add: owns_def)
next
  case (Some x)
  obtain n a b where v: "v t = Some (n, a, b)" using Some by (cases x) auto
  obtain n' a' b' where v': "v' t = Some (n', a', b')"
  proof -
    have "t \<in> dom v'" using Some assms(3) by auto
    then show ?thesis using that by auto
  qed
  have "n' = n" using linked_mem_iff [OF assms(1), of t n] linked_mem_iff [OF assms(2), of t n]
      linked_mem_iff [OF assms(1), of t n'] linked_mem_iff [OF assms(2), of t n'] assms(4) v v' by auto
  with v v' show ?thesis by (simp add: owns_def)
qed

lemma owns_joined:
  assumes "linked v h L" "linked v' h' (joined t n L)" "dom v' = dom v" "n \<noteq> 0"
  shows "owns v' = (owns v)(t \<mapsto> n)"
proof (rule ext)
  fix u
  show "owns v' u = ((owns v)(t \<mapsto> n)) u"
  proof (cases "u = t")
    case True
    have "t \<in> set (joined t n L n)" by (simp add: joined_def)
    from linked_member(2) [OF assms(2) this] True show ?thesis by (auto simp: owns_def)
  next
    case False
    have "u \<in> set (L m) \<longleftrightarrow> u \<in> set (joined t n L m)" for m using False by (simp add: joined_def off_def in_set_remove1)
    from owns_other [OF assms(1-3) this] False show ?thesis by simp
  qed
qed

lemma owns_off:
  assumes "linked v h L" "linked v' h' (off t L)" "dom v' = dom v" "t \<in> dom v"
  shows "owns v' = (owns v)(t \<mapsto> 0)"
proof (rule ext)
  fix u
  show "owns v' u = ((owns v)(t \<mapsto> 0)) u"
  proof (cases "u = t")
    case True
    have "t \<in> dom v'" unfolding assms(3) by (rule assms(4))
    then obtain n a b where v': "v' t = Some (n, a, b)" by auto
    have "n = 0" using linked_mem_iff [OF assms(2), of t n] off_notin [OF assms(1), of t n] v' by auto
    with v' True show ?thesis by (simp add: owns_def)
  next
    case False
    have "u \<in> set (L m) \<longleftrightarrow> u \<in> set (off t L m)" for m using False by (simp add: off_def in_set_remove1)
    from owns_other [OF assms(1-3) this] False show ?thesis by simp
  qed
qed

lemma owner_owns:
  "owner s ItNet = owns (links_of iterm_net (nl_iterms s))" "owner s ItMnet = owns (links_of iterm_mnet (nl_iterms s))"
  "owner s BtNet = owns (links_of bterm_net (nl_bterms s))" "owner s BtMnet = owns (links_of bterm_mnet (nl_bterms s))"
  "owner s MiMnet = owns (links_of moditerm_mnet (nl_moditerms s))"
  "owner s MbMnet = owns (links_of modbterm_mnet (nl_modbterms s))"
  by (simp_all add: owns_def links_of_def proj_def field_defs option.map_comp comp_def)

lemma dom_links: "dom (links_of X T) = dom (proj f T)"
  by (auto simp: links_of_def proj_def dom_def)

lemma static_doms:
  assumes "nl_static s' = nl_static s"
  shows "dom (links_of F (nl_iterms s')) = dom (links_of F (nl_iterms s))"
    "dom (links_of G (nl_bterms s')) = dom (links_of G (nl_bterms s))"
    "dom (links_of H (nl_moditerms s')) = dom (links_of H (nl_moditerms s))"
    "dom (links_of K (nl_modbterms s')) = dom (links_of K (nl_modbterms s))"
  using assms unfolding dom_links [of F _ it_inst] dom_links [of G _ "\<lambda>_. ()"] dom_links [of H _ "\<lambda>_. ()"]
    dom_links [of K _ "\<lambda>_. ()"]
  by (simp_all add: nl_static_def)

text \<open>The six lists and their fields, by place.\<close>

fun links_at :: "netlist \<Rightarrow> place \<Rightarrow> links" where
  "links_at s ItNet = links_of iterm_net (nl_iterms s)"
| "links_at s ItMnet = links_of iterm_mnet (nl_iterms s)"
| "links_at s BtNet = links_of bterm_net (nl_bterms s)"
| "links_at s BtMnet = links_of bterm_mnet (nl_bterms s)"
| "links_at s MiMnet = links_of moditerm_mnet (nl_moditerms s)"
| "links_at s MbMnet = links_of modbterm_mnet (nl_modbterms s)"

fun heads_at :: "netlist \<Rightarrow> place \<Rightarrow> u32 \<rightharpoonup> u32" where
  "heads_at s ItNet = heads_of iterm_net (nl_nets s)"
| "heads_at s ItMnet = heads_of iterm_mnet (nl_modnets s)"
| "heads_at s BtNet = heads_of bterm_net (nl_nets s)"
| "heads_at s BtMnet = heads_of bterm_mnet (nl_modnets s)"
| "heads_at s MiMnet = heads_of moditerm_mnet (nl_modnets s)"
| "heads_at s MbMnet = heads_of modbterm_mnet (nl_modnets s)"

fun conn_at :: "conn \<Rightarrow> place \<Rightarrow> u32 \<Rightarrow> u32 list" where
  "conn_at A ItNet = c_it A"
| "conn_at A ItMnet = c_itm A"
| "conn_at A BtNet = c_bt A"
| "conn_at A BtMnet = c_btm A"
| "conn_at A MiMnet = c_mi A"
| "conn_at A MbMnet = c_mb A"

lemma nl_abs_at: "nl_abs s A \<Longrightarrow> linked (links_at s p) (heads_at s p) (conn_at A p)"
  by (cases p) (simp_all add: nl_absD)

lemma owner_at: "owner s p = owns (links_at s p)"
  by (cases p) (simp_all only: owner_owns links_at.simps)

lemma dom_at: "nl_static s' = nl_static s \<Longrightarrow> dom (links_at s' p) = dom (links_at s p)"
  by (cases p; simp only: links_at.simps; erule static_doms)

text \<open>Two states with the same objects.\<close>

definition moved_to :: "netlist \<Rightarrow> conn \<Rightarrow> netlist \<Rightarrow> conn \<Rightarrow> bool" where
  "moved_to s A s' A' \<longleftrightarrow> nl_abs s A \<and> nl_abs s' A' \<and> nl_static s' = nl_static s"

lemma owner_same:
  assumes "moved_to s A s' A'" "\<And>m. set (conn_at A' p m) = set (conn_at A p m)"
  shows "owner s' p = owner s p"
proof (rule ext)
  fix t
  have a: "nl_abs s A" "nl_abs s' A'" "nl_static s' = nl_static s" using assms(1) by (simp_all add: moved_to_def)
  show "owner s' p t = owner s p t"
    unfolding owner_at by (rule owns_other [OF nl_abs_at [OF a(1)] nl_abs_at [OF a(2)] dom_at [OF a(3)]]) (simp add: assms(2))
qed

lemma owner_joined:
  assumes "moved_to s A s' A'" "conn_at A' p = joined t n (conn_at A p)" "n \<noteq> 0"
  shows "owner s' p = (owner s p)(t \<mapsto> n)"
proof -
  have a: "nl_abs s A" "nl_abs s' A'" "nl_static s' = nl_static s" using assms(1) by (simp_all add: moved_to_def)
  show ?thesis
    unfolding owner_at
    by (rule owns_joined [OF nl_abs_at [OF a(1)] nl_abs_at [OF a(2), of p, unfolded assms(2)] dom_at [OF a(3)] assms(3)])
qed

lemma owner_off:
  assumes "moved_to s A s' A'" "conn_at A' p = off t (conn_at A p)" "owner s p t = Some x"
  shows "owner s' p = (owner s p)(t \<mapsto> 0)"
proof -
  have a: "nl_abs s A" "nl_abs s' A'" "nl_static s' = nl_static s" using assms(1) by (simp_all add: moved_to_def)
  have d: "t \<in> dom (links_at s p)" using assms(3) by (auto simp: owner_at owns_def)
  show ?thesis
    unfolding owner_at
    by (rule owns_off [OF nl_abs_at [OF a(1)] nl_abs_at [OF a(2), of p, unfolded assms(2)] dom_at [OF a(3)] d])
qed

section \<open>Operations during a replay\<close>

definition reown :: "place \<Rightarrow> u32 \<Rightarrow> u32 \<Rightarrow> owners \<Rightarrow> owners" where
  "reown p t n w = w(p := (w p)(t \<mapsto> n))"

text \<open>A netlist between \<open>endEco\<close> and the next \<open>beginEco\<close>.\<close>

definition nl_quiet :: "netlist \<Rightarrow> bool" where
  "nl_quiet s \<longleftrightarrow> nl_ok s \<and> nl_journal s = None"

definition settles :: "netlist \<Rightarrow> (journal_error + netlist) \<Rightarrow> owners \<Rightarrow> bool" where
  "settles s r w \<longleftrightarrow> (\<exists>s'. r = Inr s' \<and> nl_quiet s' \<and> nl_static s' = nl_static s \<and> owner s' = w)"

lemma settles_effect:
  assumes "effect f s as B" "nl_abs s A" "nl_journal s = None" "\<And>s'. moved_to s A s' B \<Longrightarrow> owner s' = w"
  shows "settles s (call f s) w"
proof -
  obtain s' where s': "f s = (None, s')" "nl_to s as B s'" using assms(1) by (auto simp: effect_def)
  then have "nl_quiet s'" "nl_static s' = nl_static s" "moved_to s A s' B"
    using assms(2,3) by (auto simp: nl_quiet_def nl_ok_def nl_to_def nl_logged_def moved_to_def)
  with s'(1) assms(4) show ?thesis by (simp add: settles_def call_def)
qed

lemma settles_joined:
  assumes "effect f s as B" "nl_abs s A" "nl_journal s = None" "conn_at B p = joined t n (conn_at A p)" "n \<noteq> 0"
    "\<And>q. q \<noteq> p \<Longrightarrow> conn_at B q = conn_at A q"
  shows "settles s (call f s) (reown p t n (owner s))"
proof (rule settles_effect [OF assms(1-3)], rule ext)
  fix s' q
  assume m: "moved_to s A s' B"
  show "owner s' q = reown p t n (owner s) q"
    using owner_joined [OF m assms(4,5)] owner_same [OF m, of q] assms(6) [of q] by (auto simp: reown_def)
qed

lemma settles_off:
  assumes "effect f s as B" "nl_abs s A" "nl_journal s = None" "conn_at B p = off t (conn_at A p)" "owner s p t = Some x"
    "\<And>q. q \<noteq> p \<Longrightarrow> conn_at B q = conn_at A q"
  shows "settles s (call f s) (reown p t 0 (owner s))"
proof (rule settles_effect [OF assms(1-3)], rule ext)
  fix s' q
  assume m: "moved_to s A s' B"
  show "owner s' q = reown p t 0 (owner s) q"
    using owner_off [OF m assms(4,5)] owner_same [OF m, of q] assms(6) [of q] by (auto simp: reown_def)
qed

text \<open>Terminals of instances and nets that are not protected, and nets of the hierarchy.\<close>

definition free_inst :: "netlist \<Rightarrow> u32 \<Rightarrow> bool" where
  "free_inst s t \<longleftrightarrow> (\<exists>tm i. nl_iterms s t = Some tm \<and> nl_insts s (it_inst tm) = Some i \<and> \<not> ni_dont_touch i)"

definition free_net :: "netlist \<Rightarrow> u32 \<Rightarrow> bool" where
  "free_net s n \<longleftrightarrow> (\<exists>net. nl_nets s n = Some net \<and> \<not> nt_dont_touch net)"

definition is_mnet :: "netlist \<Rightarrow> u32 \<Rightarrow> bool" where
  "is_mnet s n \<longleftrightarrow> nl_modnets s n \<noteq> None"

lemma static_free:
  assumes "nl_static s' = nl_static s"
  shows "free_inst s' = free_inst s" "free_net s' = free_net s" "is_mnet s' = is_mnet s"
proof -
  have p: "nl_insts s' = nl_insts s" "proj it_inst (nl_iterms s') t = proj it_inst (nl_iterms s) t"
    "proj nt_dont_touch (nl_nets s') t = proj nt_dont_touch (nl_nets s) t"
    "proj (\<lambda>_. ()) (nl_modnets s') t = proj (\<lambda>_. ()) (nl_modnets s) t" for t
    using assms by (simp_all add: nl_static_def)
  have "free_inst r t \<longleftrightarrow> (\<exists>k i. proj it_inst (nl_iterms r) t = Some k \<and> nl_insts r k = Some i \<and> \<not> ni_dont_touch i)"
    "free_net r t \<longleftrightarrow> proj nt_dont_touch (nl_nets r) t = Some False"
    "is_mnet r t \<longleftrightarrow> proj (\<lambda>_. ()) (nl_modnets r) t \<noteq> None" for r t
    by (auto simp: free_inst_def free_net_def is_mnet_def proj_def)
  with p show "free_inst s' = free_inst s" "free_net s' = free_net s" "is_mnet s' = is_mnet s"
    by (simp_all add: fun_eq_iff)
qed

lemma conn_at_other [simp]:
  "q \<noteq> ItNet \<Longrightarrow> conn_at (A\<lparr>c_it := L\<rparr>) q = conn_at A q"
  "q \<noteq> ItMnet \<Longrightarrow> conn_at (A\<lparr>c_itm := L\<rparr>) q = conn_at A q"
  "q \<noteq> BtNet \<Longrightarrow> conn_at (A\<lparr>c_bt := L\<rparr>) q = conn_at A q"
  "q \<noteq> BtMnet \<Longrightarrow> conn_at (A\<lparr>c_btm := L\<rparr>) q = conn_at A q"
  "q \<noteq> MiMnet \<Longrightarrow> conn_at (A\<lparr>c_mi := L\<rparr>) q = conn_at A q"
  "q \<noteq> MbMnet \<Longrightarrow> conn_at (A\<lparr>c_mb := L\<rparr>) q = conn_at A q"
  by (cases q; simp)+

lemma quiet_abs:
  assumes "nl_quiet s"
  obtains A where "nl_abs s A" "nl_open s" "nl_journal s = None"
  using assms by (auto simp: nl_quiet_def nl_ok_def)

lemma objects_not_null:
  assumes "nl_abs s A"
  shows "free_net s n \<Longrightarrow> n \<noteq> 0" "is_mnet s n \<Longrightarrow> n \<noteq> 0"
  using null_objects [OF assms] by (auto simp: free_net_def is_mnet_def)

lemma free_iterm:
  assumes "nl_abs s A" "free_inst s t" "owner s ItNet t = Some n" "n = 0 \<or> free_net s n"
  obtains tm i where "nl_iterms s t = Some tm" "it_net tm = n" "nl_insts s (it_inst tm) = Some i" "\<not> ni_dont_touch i" "iterm_free s t"
  using assms null_objects(1) [OF assms(1)] by (auto simp: free_inst_def iterm_free_def proj_def free_net_def)

lemma free_bterm:
  assumes "nl_abs s A" "owner s BtNet t = Some n" "n = 0 \<or> free_net s n"
  obtains tm where "nl_bterms s t = Some tm" "bt_net tm = n" "bterm_free s t"
  using assms null_objects(1) [OF assms(1)] by (auto simp: bterm_free_def proj_def free_net_def)

lemma replay_iterm_disconnectDbNet:
  assumes "nl_quiet s" "free_inst s t" "owner s ItNet t = Some n" "free_net s n"
  shows "settles s (call (iterm_disconnectDbNet t) s) (reown ItNet t 0 (owner s))"
proof -
  obtain A where A: "nl_abs s A" "nl_open s" "nl_journal s = None" by (rule quiet_abs [OF assms(1)])
  obtain tm where tm: "nl_iterms s t = Some tm" "it_net tm = n" "iterm_free s t"
    using free_iterm [OF A(1) assms(2,3) disjI2 [OF assms(4)]] by blast
  have "it_net tm \<noteq> 0" using objects_not_null(1) [OF A(1) assms(4)] tm(2) by simp
  from settles_off [OF iterm_disconnectDbNet_effect [OF A(1,2) tm(3,1) this] A(1,3), of ItNet t n] assms(3)
  show ?thesis by simp
qed

lemma replay_iterm_connect_net:
  assumes "nl_quiet s" "free_inst s t" "owner s ItNet t = Some 0" "free_net s n"
  shows "settles s (call (iterm_connect_net t n) s) (reown ItNet t n (owner s))"
proof -
  obtain A where A: "nl_abs s A" "nl_open s" "nl_journal s = None" by (rule quiet_abs [OF assms(1)])
  obtain tm where tm: "nl_iterms s t = Some tm" "it_net tm = 0" "iterm_free s t"
    using free_iterm [OF A(1) assms(2,3)] by blast
  obtain net where net: "nl_nets s n = Some net" "\<not> nt_dont_touch net" using assms(4) by (auto simp: free_net_def)
  have n: "n \<noteq> 0" by (rule objects_not_null(1) [OF A(1) assms(4)])
  from settles_joined [OF iterm_connect_net_effect [OF A(1,2) tm(3,1) net] A(1,3), of ItNet t n] n tm(2)
  show ?thesis by simp
qed

lemma replay_iterm_disconnectModNet:
  assumes "nl_quiet s" "owner s ItMnet t = Some n" "n \<noteq> 0"
  shows "settles s (call (iterm_disconnectModNet t) s) (reown ItMnet t 0 (owner s))"
proof -
  obtain A where A: "nl_abs s A" "nl_open s" "nl_journal s = None" by (rule quiet_abs [OF assms(1)])
  obtain tm where tm: "nl_iterms s t = Some tm" "it_mnet tm \<noteq> 0" using assms(2,3) by (auto simp: proj_def)
  from settles_off [OF iterm_disconnectModNet_effect [OF A(1,2) tm] A(1,3), of ItMnet t n] assms(2)
  show ?thesis by simp
qed

lemma replay_iterm_connect_mnet:
  assumes "nl_quiet s" "free_inst s t" "owner s ItMnet t = Some 0" "is_mnet s n"
  shows "settles s (call (iterm_connect_mnet t n) s) (reown ItMnet t n (owner s))"
proof -
  obtain A where A: "nl_abs s A" "nl_open s" "nl_journal s = None" by (rule quiet_abs [OF assms(1)])
  obtain tm i where tm: "nl_iterms s t = Some tm" "nl_insts s (it_inst tm) = Some i" "\<not> ni_dont_touch i"
    using assms(2) by (auto simp: free_inst_def)
  have "it_mnet tm = 0" using assms(3) tm(1) by (simp add: proj_def)
  obtain mn where mn: "nl_modnets s n = Some mn" using assms(4) by (auto simp: is_mnet_def)
  have n: "n \<noteq> 0" by (rule objects_not_null(2) [OF A(1) assms(4)])
  from settles_joined [OF iterm_connect_mnet_effect [OF A(1,2) tm mn] A(1,3), of ItMnet t n] n \<open>it_mnet tm = 0\<close>
  show ?thesis by simp
qed

lemma replay_bterm_connect_net:
  assumes "nl_quiet s" "owner s BtNet t = Some 0" "free_net s n"
  shows "settles s (call (bterm_connect_net t n) s) (reown BtNet t n (owner s))"
proof -
  obtain A where A: "nl_abs s A" "nl_open s" "nl_journal s = None" by (rule quiet_abs [OF assms(1)])
  obtain tm where tm: "nl_bterms s t = Some tm" "bt_net tm = 0" "bterm_free s t"
    using free_bterm [OF A(1) assms(2)] by blast
  obtain net where net: "nl_nets s n = Some net" "\<not> nt_dont_touch net" using assms(3) by (auto simp: free_net_def)
  have n: "n \<noteq> 0" by (rule objects_not_null(1) [OF A(1) assms(3)])
  from settles_joined [OF bterm_connect_net_effect [OF A(1,2) tm(3,1) net] A(1,3), of BtNet t n] n
  show ?thesis by simp
qed

lemma replay_bterm_disconnectDbNet:
  assumes "nl_quiet s" "owner s BtNet t = Some n" "free_net s n"
  shows "settles s (call (bterm_disconnectDbNet t) s) (reown BtNet t 0 (owner s))"
proof -
  obtain A where A: "nl_abs s A" "nl_open s" "nl_journal s = None" by (rule quiet_abs [OF assms(1)])
  obtain tm where tm: "nl_bterms s t = Some tm" "bt_net tm = n" "bterm_free s t"
    using free_bterm [OF A(1) assms(2) disjI2 [OF assms(3)]] by blast
  have "bt_net tm \<noteq> 0" using objects_not_null(1) [OF A(1) assms(3)] tm(2) by simp
  from settles_off [OF bterm_disconnectDbNet_effect [OF A(1,2) tm(3,1) this] A(1,3), of BtNet t n] assms(2)
  show ?thesis by simp
qed

lemma replay_bterm_disconnectDbModNet:
  assumes "nl_quiet s" "owner s BtMnet t = Some n" "n \<noteq> 0"
  shows "settles s (call (bterm_disconnectDbModNet t) s) (reown BtMnet t 0 (owner s))"
proof -
  obtain A where A: "nl_abs s A" "nl_open s" "nl_journal s = None" by (rule quiet_abs [OF assms(1)])
  obtain tm where tm: "nl_bterms s t = Some tm" "bt_mnet tm \<noteq> 0" using assms(2,3) by (auto simp: proj_def)
  from settles_off [OF bterm_disconnectModNet_effect [OF A(1,2) tm] A(1,3), of BtMnet t n] assms(2)
  show ?thesis by (simp add: bterm_disconnectDbModNet_def)
qed

lemma replay_bterm_connect_mnet:
  assumes "nl_quiet s" "owner s BtMnet t = Some 0" "is_mnet s n"
  shows "settles s (call (bterm_connect_mnet t n) s) (reown BtMnet t n (owner s))"
proof -
  obtain A where A: "nl_abs s A" "nl_open s" "nl_journal s = None" by (rule quiet_abs [OF assms(1)])
  obtain tm where tm: "nl_bterms s t = Some tm" "bt_mnet tm = 0" using assms(2) by (auto simp: proj_def)
  obtain mn where mn: "nl_modnets s n = Some mn" using assms(3) by (auto simp: is_mnet_def)
  have n: "n \<noteq> 0" by (rule objects_not_null(2) [OF A(1) assms(3)])
  from settles_joined [OF bterm_connect_mnet_effect [OF A(1,2) tm(1) mn] A(1,3), of BtMnet t n] n tm(2)
  show ?thesis by simp
qed

text \<open>The general disconnection of a block terminal that is on no net of the hierarchy.\<close>

lemma replay_bterm_disconnect:
  assumes "nl_quiet s" "owner s BtNet t = Some n" "free_net s n" "owner s BtMnet t = Some 0"
  shows "settles s (call (bterm_disconnect t) s) (reown BtNet t 0 (owner s))"
proof -
  obtain A where A: "nl_abs s A" "nl_open s" "nl_journal s = None" by (rule quiet_abs [OF assms(1)])
  obtain tm where tm: "nl_bterms s t = Some tm" "bt_net tm = n" "bterm_free s t"
    using free_bterm [OF A(1) assms(2) disjI2 [OF assms(3)]] by blast
  have n: "bt_net tm \<noteq> 0" using objects_not_null(1) [OF A(1) assms(3)] tm(2) by simp
  have "bt_mnet tm = 0" using assms(4) tm(1) by (simp add: proj_def)
  then have "A\<lparr>c_bt := off t (c_bt A), c_btm := off t (c_btm A)\<rparr> = A\<lparr>c_bt := off t (c_bt A)\<rparr>"
    using off_unconnected(4) [OF A(1) tm(1)] by simp
  from settles_off [OF bterm_disconnect_effect [OF A(1,2) tm(3,1) n, unfolded this] A(1,3), of BtNet t n] assms(2)
  show ?thesis by simp
qed

text \<open>The general disconnection of an instance terminal that is on a net of each kind.\<close>

lemma replay_iterm_disconnect:
  assumes "nl_quiet s" "free_inst s t" "owner s ItNet t = Some n" "free_net s n" "owner s ItMnet t = Some m"
  shows "settles s (call (iterm_disconnect t) s) (reown ItMnet t 0 (reown ItNet t 0 (owner s)))"
proof -
  obtain A where A: "nl_abs s A" "nl_open s" "nl_journal s = None" by (rule quiet_abs [OF assms(1)])
  obtain tm where tm: "nl_iterms s t = Some tm" "it_net tm = n" "iterm_free s t"
    using free_iterm [OF A(1) assms(2,3) disjI2 [OF assms(4)]] by blast
  have n: "it_net tm \<noteq> 0" using objects_not_null(1) [OF A(1) assms(4)] tm(2) by simp
  show ?thesis
  proof (rule settles_effect [OF iterm_disconnect_effect [OF A(1,2) tm(3,1) disjI1 [OF n]] A(1,3)], rule ext)
    fix s' q
    assume mv: "moved_to s A s' (A\<lparr>c_it := off t (c_it A), c_itm := off t (c_itm A)\<rparr>)"
    have "q = ItNet \<or> q = ItMnet \<or> conn_at (A\<lparr>c_it := off t (c_it A), c_itm := off t (c_itm A)\<rparr>) q = conn_at A q"
      by auto
    then show "owner s' q = reown ItMnet t 0 (reown ItNet t 0 (owner s)) q"
      using owner_off [OF mv, of ItNet t n] owner_off [OF mv, of ItMnet t m] owner_same [OF mv, of q] assms(3,5)
      by (cases q) (simp_all add: reown_def)
  qed
qed

lemma replay_moditerm_connect:
  assumes "nl_quiet s" "owner s MiMnet t = Some 0" "is_mnet s n"
  shows "settles s (call (moditerm_connect t n) s) (reown MiMnet t n (owner s))"
proof -
  obtain A where A: "nl_abs s A" "nl_open s" "nl_journal s = None" by (rule quiet_abs [OF assms(1)])
  obtain tm where tm: "nl_moditerms s t = Some tm" "mi_net tm = 0" using assms(2) by (auto simp: proj_def)
  obtain mn where mn: "nl_modnets s n = Some mn" using assms(3) by (auto simp: is_mnet_def)
  have n: "n \<noteq> 0" by (rule objects_not_null(2) [OF A(1) assms(3)])
  from settles_joined [OF moditerm_connect_effect [OF A(1,2) tm(1) mn tm(2)] A(1,3), of MiMnet t n] n
  show ?thesis by simp
qed

lemma replay_moditerm_disconnect:
  assumes "nl_quiet s" "owner s MiMnet t = Some n" "n \<noteq> 0"
  shows "settles s (call (moditerm_disconnect t) s) (reown MiMnet t 0 (owner s))"
proof -
  obtain A where A: "nl_abs s A" "nl_open s" "nl_journal s = None" by (rule quiet_abs [OF assms(1)])
  obtain tm where tm: "nl_moditerms s t = Some tm" "mi_net tm \<noteq> 0" using assms(2,3) by (auto simp: proj_def)
  from settles_off [OF moditerm_disconnect_effect [OF A(1,2) tm] A(1,3), of MiMnet t n] assms(2)
  show ?thesis by simp
qed

lemma replay_modbterm_connect:
  assumes "nl_quiet s" "owner s MbMnet t = Some 0" "is_mnet s n"
  shows "settles s (call (modbterm_connect t n) s) (reown MbMnet t n (owner s))"
proof -
  obtain A where A: "nl_abs s A" "nl_open s" "nl_journal s = None" by (rule quiet_abs [OF assms(1)])
  obtain tm where tm: "nl_modbterms s t = Some tm" "mb_net tm = 0" using assms(2) by (auto simp: proj_def)
  obtain mn where mn: "nl_modnets s n = Some mn" using assms(3) by (auto simp: is_mnet_def)
  have n: "n \<noteq> 0" by (rule objects_not_null(2) [OF A(1) assms(3)])
  from settles_joined [OF modbterm_connect_effect [OF A(1,2) tm(1) mn tm(2)] A(1,3), of MbMnet t n] n
  show ?thesis by simp
qed

lemma replay_modbterm_disconnect:
  assumes "nl_quiet s" "owner s MbMnet t = Some n" "n \<noteq> 0"
  shows "settles s (call (modbterm_disconnect t) s) (reown MbMnet t 0 (owner s))"
proof -
  obtain A where A: "nl_abs s A" "nl_open s" "nl_journal s = None" by (rule quiet_abs [OF assms(1)])
  obtain tm where tm: "nl_modbterms s t = Some tm" "mb_net tm \<noteq> 0" using assms(2,3) by (auto simp: proj_def)
  from settles_off [OF modbterm_disconnect_effect [OF A(1,2) tm] A(1,3), of MbMnet t n] assms(2)
  show ?thesis by simp
qed

section \<open>Replaying moves terminals back and forth\<close>

text \<open>
  What an action says of the terminals: which terminal left which net for which other.  Connecting
  a block terminal also says that it is on no net of the hierarchy, since its undo leaves that too.
\<close>

type_synonym shift = "place \<times> u32 \<times> u32 \<times> u32"

fun shifts :: "link_act \<Rightarrow> shift list" where
  "shifts (ItConn t n) = [(ItNet, t, 0, n)]"
| "shifts (ItConnM t m) = [(ItMnet, t, 0, m)]"
| "shifts (ItDisc t n m) = (if n \<noteq> 0 then [(ItNet, t, n, 0)] else []) @ (if m \<noteq> 0 then [(ItMnet, t, m, 0)] else [])"
| "shifts (ItDiscN t n) = [(ItNet, t, n, 0)]"
| "shifts (ItDiscM t m) = [(ItMnet, t, m, 0)]"
| "shifts (BtConn t n) = [(BtNet, t, 0, n), (BtMnet, t, 0, 0)]"
| "shifts (BtConnM t m) = [(BtMnet, t, 0, m)]"
| "shifts (BtDisc t n) = [(BtNet, t, n, 0)]"
| "shifts (BtDiscM t m) = [(BtMnet, t, m, 0)]"
| "shifts (MiConn t n) = [(MiMnet, t, 0, n)]"
| "shifts (MiDisc t n) = [(MiMnet, t, n, 0)]"
| "shifts (MbConn t n) = [(MbMnet, t, 0, n)]"
| "shifts (MbDisc t n) = [(MbMnet, t, n, 0)]"

fun shifted :: "shift list \<Rightarrow> owners \<Rightarrow> owners \<Rightarrow> bool" where
  "shifted [] w w' \<longleftrightarrow> w' = w"
| "shifted ((p, t, m, n) # xs) w w' \<longleftrightarrow> w p t = Some m \<and> shifted xs (reown p t n w) w'"

lemma shifted_append: "shifted (xs @ ys) w w'' \<longleftrightarrow> (\<exists>w'. shifted xs w w' \<and> shifted ys w' w'')"
  by (induction xs w w'' rule: shifted.induct) auto

lemma reown_twice [simp]: "reown p t n (reown p t m w) = reown p t n w"
  by (simp add: reown_def)

lemma reown_same: "w p t = Some n \<Longrightarrow> reown p t n w = w"
  by (simp add: reown_def fun_upd_idem)

lemma reown_at [simp]: "reown p t n w p t = Some n" "q \<noteq> p \<Longrightarrow> reown p t n w q = w q"
  by (simp_all add: reown_def)

lemma reown_commute: "p \<noteq> q \<Longrightarrow> reown p t m (reown q u n w) = reown q u n (reown p t m w)"
  by (simp add: reown_def fun_upd_twist)

text \<open>What the objects have to be for an action to be replayed in both directions.\<close>

fun may :: "netlist \<Rightarrow> link_act \<Rightarrow> bool" where
  "may s (ItConn t n) \<longleftrightarrow> free_inst s t \<and> free_net s n"
| "may s (ItConnM t m) \<longleftrightarrow> free_inst s t \<and> is_mnet s m"
| "may s (ItDisc t n m) \<longleftrightarrow> free_inst s t \<and> (n \<noteq> 0 \<longrightarrow> free_net s n) \<and> (m \<noteq> 0 \<longrightarrow> is_mnet s m)"
| "may s (ItDiscN t n) \<longleftrightarrow> free_inst s t \<and> free_net s n"
| "may s (ItDiscM t m) \<longleftrightarrow> free_inst s t \<and> is_mnet s m"
| "may s (BtConn t n) \<longleftrightarrow> free_net s n"
| "may s (BtConnM t m) \<longleftrightarrow> False"
| "may s (BtDisc t n) \<longleftrightarrow> free_net s n"
| "may s (BtDiscM t m) \<longleftrightarrow> is_mnet s m"
| "may s (MiConn t n) \<longleftrightarrow> is_mnet s n"
| "may s (MiDisc t n) \<longleftrightarrow> is_mnet s n"
| "may s (MbConn t n) \<longleftrightarrow> is_mnet s n"
| "may s (MbDisc t n) \<longleftrightarrow> is_mnet s n"

lemma may_static: "nl_static s' = nl_static s \<Longrightarrow> may s' a = may s a"
  by (cases a) (simp_all add: static_free [of s' s])

lemma settles_skip: "nl_quiet s \<Longrightarrow> owner s = w \<Longrightarrow> settles s (Inr s) w"
  by (simp add: settles_def)

lemma settles_getObj:
  "owner s ItNet t = Some x \<or> owner s ItMnet t = Some x \<Longrightarrow> settles s r w \<Longrightarrow> settles s (sum_bind (getObj nl_iterms t s) (\<lambda>_. r)) w"
  "owner s BtNet t = Some x \<or> owner s BtMnet t = Some x \<Longrightarrow> settles s r w \<Longrightarrow> settles s (sum_bind (getObj nl_bterms t s) (\<lambda>_. r)) w"
  "owner s MiMnet t = Some x \<Longrightarrow> settles s r w \<Longrightarrow> settles s (sum_bind (getObj nl_moditerms t s) (\<lambda>_. r)) w"
  "owner s MbMnet t = Some x \<Longrightarrow> settles s r w \<Longrightarrow> settles s (sum_bind (getObj nl_modbterms t s) (\<lambda>_. r)) w"
  "free_net s n \<Longrightarrow> settles s r w \<Longrightarrow> settles s (sum_bind (getObj nl_nets n s) (\<lambda>_. r)) w"
  "is_mnet s n \<Longrightarrow> settles s r w \<Longrightarrow> settles s (sum_bind (getObj nl_modnets n s) (\<lambda>_. r)) w"
  by (auto simp: getObj_def proj_def free_net_def is_mnet_def split: option.splits)

lemma settles_bind:
  assumes "settles s r v" "\<And>s'. nl_quiet s' \<Longrightarrow> nl_static s' = nl_static s \<Longrightarrow> owner s' = v \<Longrightarrow> settles s' (f s') w"
  shows "settles s (sum_bind r f) w"
proof -
  obtain s' where s': "r = Inr s'" "nl_quiet s'" "nl_static s' = nl_static s" "owner s' = v"
    using assms(1) by (auto simp: settles_def)
  from assms(2) [OF s'(2-4)] s'(1,3) show ?thesis by (simp add: settles_def)
qed

lemma settles_unless: "settles s (f s) w \<Longrightarrow> n \<noteq> 0 \<Longrightarrow> settles s (unlessNull n f s) w"
  by (simp add: unlessNull_def)

lemma settles_unless_null: "nl_quiet s \<Longrightarrow> owner s = w \<Longrightarrow> settles s (unlessNull 0 f s) w"
  by (simp add: unlessNull_def settles_skip)

declare owner.simps [simp del]

lemma settles_iterm: "free_inst s t \<Longrightarrow> settles s r w \<Longrightarrow> settles s (sum_bind (getObj nl_iterms t s) (\<lambda>_. r)) w"
  by (auto simp: getObj_def free_inst_def)

text \<open>Undoing an action takes the terminals back, redoing it takes them there again.\<close>

lemma link_undo_ok:
  assumes "nl_quiet s" "shifted (shifts a) w (owner s)" "may s a"
  shows "settles s (link_undo a s) w"
proof -
  obtain A where A: "nl_abs s A" by (rule quiet_abs [OF assms(1)])
  show ?thesis
  proof (cases a)
    case (ItConn t n)
    then have h: "owner s ItNet t = Some n" "w = reown ItNet t 0 (owner s)" "free_net s n" "free_inst s t"
      using assms(2,3) by (simp_all add: reown_same)
    have n: "n \<noteq> 0" by (rule objects_not_null(1) [OF A h(3)])
    show ?thesis unfolding ItConn link_undo.simps h(2) withObj_def
      by (rule settles_getObj(1) [OF disjI1 [OF h(1)]], rule settles_unless [OF _ n], rule replay_iterm_disconnectDbNet [OF assms(1) h(4,1,3)])
  next
    case (ItConnM t n)
    then have h: "owner s ItMnet t = Some n" "w = reown ItMnet t 0 (owner s)" "is_mnet s n" "free_inst s t"
      using assms(2,3) by (simp_all add: reown_same)
    have n: "n \<noteq> 0" by (rule objects_not_null(2) [OF A h(3)])
    show ?thesis unfolding ItConnM link_undo.simps h(2) withObj_def
      by (rule settles_getObj(1) [OF disjI2 [OF h(1)]], rule settles_unless [OF _ n], rule replay_iterm_disconnectModNet [OF assms(1) h(1) n])
  next
    case (ItDisc t n m)
    have both: "settles s (sum_bind (unlessNull n (withObj nl_nets n (iterm_connect_net t n)) s)
        (unlessNull m (withObj nl_modnets m (iterm_connect_mnet t m)))) w"
    proof (rule settles_bind)
      let ?v = "if n \<noteq> 0 then reown ItNet t n (owner s) else owner s"
      have h: "n \<noteq> 0 \<Longrightarrow> owner s ItNet t = Some 0" "n \<noteq> 0 \<Longrightarrow> free_net s n" "free_inst s t" "m \<noteq> 0 \<Longrightarrow> is_mnet s m"
        "m \<noteq> 0 \<Longrightarrow> ?v ItMnet t = Some 0" "w = (if m \<noteq> 0 then reown ItMnet t m ?v else ?v)"
        using assms(2,3) ItDisc by (auto simp: reown_same reown_commute [of ItNet ItMnet] split: if_splits)
      show "settles s (unlessNull n (withObj nl_nets n (iterm_connect_net t n)) s) ?v"
        using replay_iterm_connect_net [OF assms(1) h(3,1,2)] settles_getObj(5) [OF h(2)] settles_skip [OF assms(1) refl]
        by (simp add: unlessNull_def withObj_def)
      fix s'
      assume q: "nl_quiet s'" "nl_static s' = nl_static s" "owner s' = ?v"
      have f: "free_inst s' t" "m \<noteq> 0 \<Longrightarrow> is_mnet s' m" "m \<noteq> 0 \<Longrightarrow> owner s' ItMnet t = Some 0"
        using h(3-5) static_free [OF q(2)] q(3) by simp_all
      show "settles s' (unlessNull m (withObj nl_modnets m (iterm_connect_mnet t m)) s') w"
        using replay_iterm_connect_mnet [OF q(1) f(1,3,2)] settles_getObj(6) [OF f(2)] settles_skip [OF q(1) refl] h(6) q(3)
        by (simp add: unlessNull_def withObj_def)
    qed
    have i: "free_inst s t" using assms(3) ItDisc by simp
    show ?thesis unfolding ItDisc link_undo.simps by (rule settles_iterm [OF i both])
  next
    case (ItDiscN t n)
    then have h: "owner s ItNet t = Some 0" "w = reown ItNet t n (owner s)" "free_net s n" "free_inst s t"
      using assms(2,3) by (simp_all add: reown_same)
    have n: "n \<noteq> 0" by (rule objects_not_null(1) [OF A h(3)])
    show ?thesis unfolding ItDiscN link_undo.simps h(2) withObj_def
      by (rule settles_getObj(1) [OF disjI1 [OF h(1)]], rule settles_unless [OF _ n], rule settles_getObj(5) [OF h(3) replay_iterm_connect_net [OF assms(1) h(4,1,3)]])
  next
    case (ItDiscM t n)
    then have h: "owner s ItMnet t = Some 0" "w = reown ItMnet t n (owner s)" "is_mnet s n" "free_inst s t"
      using assms(2,3) by (simp_all add: reown_same)
    have n: "n \<noteq> 0" by (rule objects_not_null(2) [OF A h(3)])
    show ?thesis unfolding ItDiscM link_undo.simps h(2) withObj_def
      by (rule settles_getObj(1) [OF disjI2 [OF h(1)]], rule settles_unless [OF _ n], rule settles_getObj(6) [OF h(3) replay_iterm_connect_mnet [OF assms(1) h(4,1,3)]])
  next
    case (BtConn t n)
    then have h: "owner s BtNet t = Some n" "w = reown BtNet t 0 (owner s)" "free_net s n" "owner s BtMnet t = Some 0"
      using assms(2,3) by (simp_all add: reown_same)
    have n: "n \<noteq> 0" by (rule objects_not_null(1) [OF A h(3)])
    show ?thesis unfolding BtConn link_undo.simps h(2) withObj_def
      by (rule settles_getObj(2) [OF disjI1 [OF h(1)] replay_bterm_disconnect [OF assms(1) h(1,3,4)]])
  next
    case (BtConnM t n)
    then show ?thesis using assms(3) by simp
  next
    case (BtDisc t n)
    then have h: "owner s BtNet t = Some 0" "w = reown BtNet t n (owner s)" "free_net s n"
      using assms(2,3) by (simp_all add: reown_same)
    have n: "n \<noteq> 0" by (rule objects_not_null(1) [OF A h(3)])
    show ?thesis unfolding BtDisc link_undo.simps h(2) withObj_def
      by (rule settles_getObj(2) [OF disjI1 [OF h(1)]], rule settles_unless [OF _ n], rule settles_getObj(5) [OF h(3) replay_bterm_connect_net [OF assms(1) h(1,3)]])
  next
    case (BtDiscM t n)
    then have h: "owner s BtMnet t = Some 0" "w = reown BtMnet t n (owner s)" "is_mnet s n"
      using assms(2,3) by (simp_all add: reown_same)
    have n: "n \<noteq> 0" by (rule objects_not_null(2) [OF A h(3)])
    show ?thesis unfolding BtDiscM link_undo.simps h(2) withObj_def
      by (rule settles_getObj(2) [OF disjI2 [OF h(1)]], rule settles_unless [OF _ n], rule settles_getObj(6) [OF h(3) replay_bterm_connect_mnet [OF assms(1) h(1,3)]])
  next
    case (MiConn t n)
    then have h: "owner s MiMnet t = Some n" "w = reown MiMnet t 0 (owner s)" "is_mnet s n"
      using assms(2,3) by (simp_all add: reown_same)
    have n: "n \<noteq> 0" by (rule objects_not_null(2) [OF A h(3)])
    show ?thesis unfolding MiConn link_undo.simps h(2) withObj_def
      by (rule settles_getObj(3) [OF h(1) replay_moditerm_disconnect [OF assms(1) h(1) n]])
  next
    case (MiDisc t n)
    then have h: "owner s MiMnet t = Some 0" "w = reown MiMnet t n (owner s)" "is_mnet s n"
      using assms(2,3) by (simp_all add: reown_same)
    have n: "n \<noteq> 0" by (rule objects_not_null(2) [OF A h(3)])
    show ?thesis unfolding MiDisc link_undo.simps h(2) withObj_def
      by (rule settles_getObj(3) [OF h(1)], rule settles_unless [OF _ n], rule settles_getObj(6) [OF h(3) replay_moditerm_connect [OF assms(1) h(1,3)]])
  next
    case (MbConn t n)
    then have h: "owner s MbMnet t = Some n" "w = reown MbMnet t 0 (owner s)" "is_mnet s n"
      using assms(2,3) by (simp_all add: reown_same)
    have n: "n \<noteq> 0" by (rule objects_not_null(2) [OF A h(3)])
    show ?thesis unfolding MbConn link_undo.simps h(2) withObj_def
      by (rule settles_getObj(4) [OF h(1) replay_modbterm_disconnect [OF assms(1) h(1) n]])
  next
    case (MbDisc t n)
    then have h: "owner s MbMnet t = Some 0" "w = reown MbMnet t n (owner s)" "is_mnet s n"
      using assms(2,3) by (simp_all add: reown_same)
    have n: "n \<noteq> 0" by (rule objects_not_null(2) [OF A h(3)])
    show ?thesis unfolding MbDisc link_undo.simps h(2) withObj_def
      by (rule settles_getObj(4) [OF h(1)], rule settles_unless [OF _ n], rule settles_getObj(6) [OF h(3) replay_modbterm_connect [OF assms(1) h(1,3)]])
  qed
qed

lemma link_redo_ok:
  assumes "nl_quiet s" "shifted (shifts a) (owner s) w" "may s a" "redo_modes a \<noteq> {}"
  shows "settles s (link_redo a s) w"
proof -
  obtain A where A: "nl_abs s A" by (rule quiet_abs [OF assms(1)])
  show ?thesis
  proof (cases a)
    case (ItConn t n)
    then have h: "owner s ItNet t = Some 0" "w = reown ItNet t n (owner s)" "free_net s n" "free_inst s t"
      using assms(2,3) by (simp_all add: reown_same)
    have n: "n \<noteq> 0" by (rule objects_not_null(1) [OF A h(3)])
    show ?thesis unfolding ItConn link_redo.simps h(2) withObj_def
      by (rule settles_getObj(1) [OF disjI1 [OF h(1)]], rule settles_unless [OF _ n], rule settles_getObj(5) [OF h(3) replay_iterm_connect_net [OF assms(1) h(4,1,3)]])
  next
    case (ItConnM t n)
    then have h: "owner s ItMnet t = Some 0" "w = reown ItMnet t n (owner s)" "is_mnet s n" "free_inst s t"
      using assms(2,3) by (simp_all add: reown_same)
    have n: "n \<noteq> 0" by (rule objects_not_null(2) [OF A h(3)])
    show ?thesis unfolding ItConnM link_redo.simps h(2) withObj_def
      by (rule settles_getObj(1) [OF disjI2 [OF h(1)]], rule settles_unless [OF _ n], rule settles_getObj(6) [OF h(3) replay_iterm_connect_mnet [OF assms(1) h(4,1,3)]])
  next
    case (ItDisc t n m)
    have h: "n \<noteq> 0 \<Longrightarrow> owner s ItNet t = Some n" "n \<noteq> 0 \<Longrightarrow> free_net s n" "free_inst s t" "m \<noteq> 0 \<Longrightarrow> owner s ItMnet t = Some m"
      using assms(2,3) ItDisc by (auto split: if_splits)
    have w: "w = (if m \<noteq> 0 then reown ItMnet t 0 else (\<lambda>v. v)) ((if n \<noteq> 0 then reown ItNet t 0 else (\<lambda>v. v)) (owner s))"
      using assms(2) ItDisc by (auto split: if_splits)
    show ?thesis unfolding ItDisc link_redo.simps w
      using replay_iterm_disconnect [OF assms(1) h(3,1,2,4)] replay_iterm_disconnectDbNet [OF assms(1) h(3,1,2)]
        replay_iterm_disconnectModNet [OF assms(1) h(4)] settles_skip [OF assms(1) refl]
      by (intro settles_iterm [OF h(3)]) auto
  next
    case (ItDiscN t n)
    then have h: "owner s ItNet t = Some n" "w = reown ItNet t 0 (owner s)" "free_net s n" "free_inst s t"
      using assms(2,3) by (simp_all add: reown_same)
    have n: "n \<noteq> 0" by (rule objects_not_null(1) [OF A h(3)])
    show ?thesis unfolding ItDiscN link_redo.simps h(2) withObj_def
      by (rule settles_getObj(1) [OF disjI1 [OF h(1)]], rule settles_unless [OF _ n], rule replay_iterm_disconnectDbNet [OF assms(1) h(4,1,3)])
  next
    case (ItDiscM t n)
    then have h: "owner s ItMnet t = Some n" "w = reown ItMnet t 0 (owner s)" "is_mnet s n" "free_inst s t"
      using assms(2,3) by (simp_all add: reown_same)
    have n: "n \<noteq> 0" by (rule objects_not_null(2) [OF A h(3)])
    show ?thesis unfolding ItDiscM link_redo.simps h(2) withObj_def
      by (rule settles_getObj(1) [OF disjI2 [OF h(1)]], rule settles_unless [OF _ n], rule replay_iterm_disconnectModNet [OF assms(1) h(1) n])
  next
    case (BtConn t n)
    then show ?thesis using assms(4) by simp
  next
    case (BtConnM t n)
    then show ?thesis using assms(4) by simp
  next
    case (BtDisc t n)
    then have h: "owner s BtNet t = Some n" "w = reown BtNet t 0 (owner s)" "free_net s n"
      using assms(2,3) by (simp_all add: reown_same)
    have n: "n \<noteq> 0" by (rule objects_not_null(1) [OF A h(3)])
    show ?thesis unfolding BtDisc link_redo.simps h(2) withObj_def
      by (rule settles_getObj(2) [OF disjI1 [OF h(1)]], rule settles_unless [OF _ n], rule replay_bterm_disconnectDbNet [OF assms(1) h(1,3)])
  next
    case (BtDiscM t n)
    then have h: "owner s BtMnet t = Some n" "w = reown BtMnet t 0 (owner s)" "is_mnet s n"
      using assms(2,3) by (simp_all add: reown_same)
    have n: "n \<noteq> 0" by (rule objects_not_null(2) [OF A h(3)])
    show ?thesis unfolding BtDiscM link_redo.simps h(2) withObj_def
      by (rule settles_getObj(2) [OF disjI2 [OF h(1)]], rule settles_unless [OF _ n], rule replay_bterm_disconnectDbModNet [OF assms(1) h(1) n])
  next
    case (MiConn t n)
    then have h: "owner s MiMnet t = Some 0" "w = reown MiMnet t n (owner s)" "is_mnet s n"
      using assms(2,3) by (simp_all add: reown_same)
    have n: "n \<noteq> 0" by (rule objects_not_null(2) [OF A h(3)])
    show ?thesis unfolding MiConn link_redo.simps h(2) withObj_def
      by (rule settles_getObj(3) [OF h(1)], rule settles_unless [OF _ n], rule settles_getObj(6) [OF h(3) replay_moditerm_connect [OF assms(1) h(1,3)]])
  next
    case (MiDisc t n)
    then have h: "owner s MiMnet t = Some n" "w = reown MiMnet t 0 (owner s)" "is_mnet s n"
      using assms(2,3) by (simp_all add: reown_same)
    have n: "n \<noteq> 0" by (rule objects_not_null(2) [OF A h(3)])
    show ?thesis unfolding MiDisc link_redo.simps h(2) withObj_def
      by (rule settles_getObj(3) [OF h(1) replay_moditerm_disconnect [OF assms(1) h(1) n]])
  next
    case (MbConn t n)
    then have h: "owner s MbMnet t = Some 0" "w = reown MbMnet t n (owner s)" "is_mnet s n"
      using assms(2,3) by (simp_all add: reown_same)
    have n: "n \<noteq> 0" by (rule objects_not_null(2) [OF A h(3)])
    show ?thesis unfolding MbConn link_redo.simps h(2) withObj_def
      by (rule settles_getObj(4) [OF h(1)], rule settles_unless [OF _ n], rule settles_getObj(6) [OF h(3) replay_modbterm_connect [OF assms(1) h(1,3)]])
  next
    case (MbDisc t n)
    then have h: "owner s MbMnet t = Some n" "w = reown MbMnet t 0 (owner s)" "is_mnet s n"
      using assms(2,3) by (simp_all add: reown_same)
    have n: "n \<noteq> 0" by (rule objects_not_null(2) [OF A h(3)])
    show ?thesis unfolding MbDisc link_redo.simps h(2) withObj_def
      by (rule settles_getObj(4) [OF h(1) replay_modbterm_disconnect [OF assms(1) h(1) n]])
  qed
qed

section \<open>Replaying a journal of connections\<close>

definition shifts_all :: "link_act list \<Rightarrow> shift list" where
  "shifts_all as = concat (map shifts as)"

lemma shifts_all_simps [simp]:
  "shifts_all [] = []" "shifts_all (a # as) = shifts a @ shifts_all as" "shifts_all (as @ bs) = shifts_all as @ shifts_all bs"
  by (simp_all add: shifts_all_def)

lemma undo_all_ok:
  assumes "nl_quiet s" "shifted (shifts_all as) w (owner s)" "list_all (may s) as"
  shows "settles s (eff_all link_undo (rev as) s) w"
  using assms
proof (induction as arbitrary: s rule: rev_induct)
  case Nil
  then show ?case by (simp add: settles_skip)
next
  case (snoc a as)
  then obtain v where v: "shifted (shifts_all as) w v" "shifted (shifts a) v (owner s)" "may s a" "list_all (may s) as"
    by (auto simp: shifted_append)
  have "settles s (sum_bind (link_undo a s) (eff_all link_undo (rev as))) w"
  proof (rule settles_bind [OF link_undo_ok [OF snoc.prems(1) v(2,3)]])
    fix s'
    assume s': "nl_quiet s'" "nl_static s' = nl_static s" "owner s' = v"
    show "settles s' (eff_all link_undo (rev as) s') w"
      by (rule snoc.IH [OF s'(1)]) (use v(1,4) s'(3) may_static [OF s'(2)] in \<open>simp_all add: list_all_iff\<close>)
  qed
  then show ?case by simp
qed

lemma redo_all_ok:
  assumes "nl_quiet s" "shifted (shifts_all as) (owner s) w" "list_all (may s) as" "list_all (\<lambda>a. redo_modes a \<noteq> {}) as"
  shows "settles s (eff_all link_redo as s) w"
  using assms
proof (induction as arbitrary: s)
  case Nil
  then show ?case by (simp add: settles_skip)
next
  case (Cons a as)
  then obtain v where v: "shifted (shifts a) (owner s) v" "shifted (shifts_all as) v w" "may s a" "list_all (may s) as"
    "redo_modes a \<noteq> {}" "list_all (\<lambda>a. redo_modes a \<noteq> {}) as"
    by (auto simp: shifted_append)
  have "settles s (sum_bind (link_redo a s) (eff_all link_redo as)) w"
  proof (rule settles_bind [OF link_redo_ok [OF Cons.prems(1) v(1,3,5)]])
    fix s'
    assume s': "nl_quiet s'" "nl_static s' = nl_static s" "owner s' = v"
    show "settles s' (eff_all link_redo as s') w"
      by (rule Cons.IH [OF s'(1)]) (use v(2,4,6) s'(3) may_static [OF s'(2)] in \<open>simp_all add: list_all_iff\<close>)
  qed
  then show ?case by simp
qed

section \<open>The calls of an ECO\<close>

text \<open>An exception leaves the netlist as it was, and the client goes on.\<close>

primrec net_calls :: "net_cmd list \<Rightarrow> netlist \<Rightarrow> netlist" where
  "net_calls [] s = s"
| "net_calls (c # cs) s = net_calls cs (snd (net_step c s))"

text \<open>
  The calls that undo takes back: no block terminal goes on a net of the hierarchy, or from one on
  to a flat net, and no terminal of a protected instance is taken off a net of the hierarchy.
\<close>

fun undoable :: "netlist \<Rightarrow> net_cmd \<Rightarrow> bool" where
  "undoable s (ItermDisconnectMod t) \<longleftrightarrow> free_inst s t"
| "undoable s (BtermConnect t n) \<longleftrightarrow> owner s BtMnet t = Some 0"
| "undoable s (BtermConnectMod t n) \<longleftrightarrow> False"
| "undoable s c \<longleftrightarrow> net_cmd_ok s c"

primrec all_undoable :: "netlist \<Rightarrow> net_cmd list \<Rightarrow> bool" where
  "all_undoable s [] \<longleftrightarrow> True"
| "all_undoable s (c # cs) \<longleftrightarrow> undoable s c \<and> all_undoable (snd (net_step c s)) cs"

lemma undoable_ok: "undoable s c \<Longrightarrow> net_cmd_ok s c"
  by (cases c) simp_all

lemma moved_joined:
  assumes "moved_to s A s' B" "conn_at B p = joined t n (conn_at A p)" "n \<noteq> 0" "\<And>q. q \<noteq> p \<Longrightarrow> conn_at B q = conn_at A q"
  shows "owner s' = reown p t n (owner s)"
proof (rule ext)
  fix q
  show "owner s' q = reown p t n (owner s) q"
    using owner_joined [OF assms(1-3)] owner_same [OF assms(1), of q] assms(4) [of q] by (auto simp: reown_def)
qed

lemma moved_off:
  assumes "moved_to s A s' B" "conn_at B p = off t (conn_at A p)" "owner s p t = Some x" "\<And>q. q \<noteq> p \<Longrightarrow> conn_at B q = conn_at A q"
  shows "owner s' = reown p t 0 (owner s)"
proof (rule ext)
  fix q
  show "owner s' q = reown p t 0 (owner s) q"
    using owner_off [OF assms(1-3)] owner_same [OF assms(1), of q] assms(4) [of q] by (auto simp: reown_def)
qed

lemma moved_off2:
  assumes "moved_to s A s' B" "conn_at B p = off t (conn_at A p)" "owner s p t = Some x"
    "conn_at B r = off t (conn_at A r)" "owner s r t = Some y" "p \<noteq> r" "\<And>q. q \<noteq> p \<Longrightarrow> q \<noteq> r \<Longrightarrow> conn_at B q = conn_at A q"
  shows "owner s' = reown r t 0 (reown p t 0 (owner s))"
proof (rule ext)
  fix q
  show "owner s' q = reown r t 0 (reown p t 0 (owner s)) q"
    using owner_off [OF assms(1-3)] owner_off [OF assms(1,4,5)] owner_same [OF assms(1), of q] assms(6) assms(7) [of q]
    by (auto simp: reown_def)
qed

lemma moved_same:
  assumes "moved_to s A s' B" "\<And>q m. set (conn_at B q m) = set (conn_at A q m)"
  shows "owner s' = owner s"
  using owner_same [OF assms(1)] assms(2) by blast

text \<open>What an operation has found when it ends without error.\<close>

lemma and_thenD: "and_then f g s = (None, s') \<Longrightarrow> \<exists>s1. f s = (None, s1) \<and> g s1 = (None, s')"
  by (auto simp: and_then_def split: prod.splits option.splits)

lemma iterm_leaves:
  "iterm_disconnectDbNet t s = (None, s') \<Longrightarrow> nl_iterms s t = Some tm \<Longrightarrow> it_net tm \<noteq> 0 \<Longrightarrow>
     free_inst s t \<and> free_net s (it_net tm)"
  by (auto simp: iterm_disconnectDbNet_def with_obj_def raise_def free_inst_def free_net_def split: option.splits if_splits)

lemma iterm_connects:
  assumes "iterm_connect_net t n s = (None, s')" "nl_iterms s t = Some tm" "it_net tm \<noteq> n"
  shows "free_inst s t" "free_net s n" "it_net tm \<noteq> 0 \<Longrightarrow> free_net s (it_net tm)"
proof -
  show "free_inst s t" "free_net s n"
    using assms by (auto simp: iterm_connect_net_def with_obj_def raise_def free_inst_def free_net_def split: option.splits if_splits)
  assume n: "it_net tm \<noteq> 0"
  obtain s1 where "iterm_disconnectDbNet t s = (None, s1)"
    using assms n by (auto simp: iterm_connect_net_def with_obj_def raise_def split: option.splits if_splits dest!: and_thenD)
  from iterm_leaves [OF this assms(2) n] show "free_net s (it_net tm)" by simp
qed

lemma iterm_connects_mnet:
  assumes "iterm_connect_mnet t n s = (None, s')" "nl_iterms s t = Some tm" "it_mnet tm \<noteq> n"
  shows "free_inst s t" "is_mnet s n"
proof -
  show "is_mnet s n"
    using assms by (auto simp: iterm_connect_mnet_def with_obj_def is_mnet_def split: option.splits)
  show "free_inst s t"
    using assms by (auto simp: iterm_connect_mnet_def with_obj_def raise_def free_inst_def split: option.splits if_splits dest!: and_thenD)
qed

lemma iterm_disconnects:
  assumes "iterm_disconnect t s = (None, s')" "nl_iterms s t = Some tm" "it_net tm \<noteq> 0 \<or> it_mnet tm \<noteq> 0"
  shows "free_inst s t" "it_net tm \<noteq> 0 \<Longrightarrow> free_net s (it_net tm)"
  using assms
  by (auto simp: iterm_disconnect_def with_obj_def with_opt_def raise_def free_inst_def free_net_def split: option.splits if_splits)

lemma bterm_leaves:
  "bterm_disconnectDbNet t s = (None, s') \<Longrightarrow> nl_bterms s t = Some tm \<Longrightarrow> bt_net tm \<noteq> 0 \<Longrightarrow> free_net s (bt_net tm)"
  by (auto simp: bterm_disconnectDbNet_def with_obj_def raise_def free_net_def split: option.splits if_splits)

lemma bterm_connects:
  assumes "bterm_connect_net t n s = (None, s')" "nl_bterms s t = Some tm"
  shows "free_net s n" "bt_net tm \<noteq> 0 \<Longrightarrow> free_net s (bt_net tm)"
proof -
  show "free_net s n"
    using assms by (auto simp: bterm_connect_net_def with_obj_def raise_def free_net_def split: option.splits if_splits)
  assume n: "bt_net tm \<noteq> 0"
  obtain s1 where "bterm_disconnectDbNet t s = (None, s1)"
    using assms n by (auto simp: bterm_connect_net_def with_obj_def raise_def split: option.splits if_splits dest!: and_thenD)
  from bterm_leaves [OF this assms(2) n] show "free_net s (bt_net tm)" .
qed

lemma bterm_disconnects:
  "bterm_disconnect t s = (None, s') \<Longrightarrow> nl_bterms s t = Some tm \<Longrightarrow> bt_net tm \<noteq> 0 \<Longrightarrow> free_net s (bt_net tm)"
  by (auto simp: bterm_disconnect_def with_obj_def raise_def free_net_def split: option.splits if_splits)

lemma owner_of:
  "nl_iterms s t = Some it \<Longrightarrow> owner s ItNet t = Some (it_net it) \<and> owner s ItMnet t = Some (it_mnet it)"
  "nl_bterms s t = Some bt \<Longrightarrow> owner s BtNet t = Some (bt_net bt) \<and> owner s BtMnet t = Some (bt_mnet bt)"
  "nl_moditerms s t = Some mi \<Longrightarrow> owner s MiMnet t = Some (mi_net mi)"
  "nl_modbterms s t = Some mb \<Longrightarrow> owner s MbMnet t = Some (mb_net mb)"
  by (simp_all add: owner.simps proj_def)

lemma own_mnet:
  assumes "nl_abs s A"
  shows "nl_iterms s t = Some it \<Longrightarrow> it_mnet it \<noteq> 0 \<Longrightarrow> is_mnet s (it_mnet it)"
    "nl_bterms s t = Some bt \<Longrightarrow> bt_mnet bt \<noteq> 0 \<Longrightarrow> is_mnet s (bt_mnet bt)"
    "nl_moditerms s t = Some mi \<Longrightarrow> mi_net mi \<noteq> 0 \<Longrightarrow> is_mnet s (mi_net mi)"
    "nl_modbterms s t = Some mb \<Longrightarrow> mb_net mb \<noteq> 0 \<Longrightarrow> is_mnet s (mb_net mb)"
  using own_exists(2,4-6) [OF assms] by (auto simp: is_mnet_def)

text \<open>The shifts of a command are the change it makes.\<close>

definition explained :: "netlist \<Rightarrow> netlist \<Rightarrow> link_act list \<Rightarrow> bool" where
  "explained s s' as \<longleftrightarrow> shifted (shifts_all as) (owner s) (owner s') \<and> list_all (may s) as"

lemma explained_none:
  assumes "moved_to s A s' B" "\<And>q m. set (conn_at B q m) = set (conn_at A q m)"
  shows "explained s s' []"
  using moved_same [OF assms] by (simp add: explained_def)

lemma explained_conn:
  assumes "owner s' = reown p t n (owner s)" "owner s p t = Some m" "m \<noteq> 0 \<Longrightarrow> shifts (d m) = [(p, t, m, 0)]" "shifts a = [(p, t, 0, n)]"
    "may s a" "m \<noteq> 0 \<Longrightarrow> may s (d m)"
  shows "explained s s' (rehung d m a)"
  using assms by (simp add: explained_def rehung_def)

lemma explained_drop:
  assumes "owner s' = reown p t 0 (owner s)" "owner s p t = Some m" "m \<noteq> 0 \<Longrightarrow> shifts (d m) = [(p, t, m, 0)]" "m \<noteq> 0 \<Longrightarrow> may s (d m)"
  shows "explained s s' (dropped d m)"
  using assms by (simp add: explained_def dropped_def reown_same)

lemma iterm_connect_explained:
  assumes "nl_abs s A" "moved_to s A s' (lists_after s (ItermConnect t n) A)" "iterm_connect_net t n s = (None, s')"
  shows "explained s s' (acts_of s (ItermConnect t n))"
proof -
  obtain tm where tm: "nl_iterms s t = Some tm" using assms(3) by (auto simp: iterm_connect_net_def with_obj_def split: option.splits)
  show ?thesis
  proof (cases "it_net tm = n")
    case True
    with assms(2) tm show ?thesis by (auto intro: explained_none)
  next
    case False
    note c = iterm_connects [OF assms(3) tm False]
    have n: "n \<noteq> 0" by (rule objects_not_null(1) [OF assms(1) c(2)])
    have "owner s' = reown ItNet t n (owner s)" by (rule moved_joined [OF assms(2)]) (use tm False n in simp_all)
    from explained_conn [OF this, of "it_net tm" "ItDiscN t" "ItConn t n"] tm False c show ?thesis by (simp add: owner_of)
  qed
qed

lemma iterm_connect_mnet_explained:
  assumes "nl_abs s A" "moved_to s A s' (lists_after s (ItermConnectMod t n) A)" "iterm_connect_mnet t n s = (None, s')"
  shows "explained s s' (acts_of s (ItermConnectMod t n))"
proof -
  obtain tm where tm: "nl_iterms s t = Some tm" using assms(3) by (auto simp: iterm_connect_mnet_def with_obj_def split: option.splits)
  show ?thesis
  proof (cases "it_mnet tm = n")
    case True
    with assms(2) tm show ?thesis by (auto intro: explained_none)
  next
    case False
    note c = iterm_connects_mnet [OF assms(3) tm False]
    have n: "n \<noteq> 0" by (rule objects_not_null(2) [OF assms(1) c(2)])
    have "owner s' = reown ItMnet t n (owner s)" by (rule moved_joined [OF assms(2)]) (use tm False n in simp_all)
    from explained_conn [OF this, of "it_mnet tm" "ItDiscM t" "ItConnM t n"] tm False c own_mnet(1) [OF assms(1) tm]
    show ?thesis by (simp add: owner_of)
  qed
qed

lemma iterm_disconnect_explained:
  assumes "nl_abs s A" "moved_to s A s' (lists_after s (ItermDisconnect t) A)" "iterm_disconnect t s = (None, s')"
  shows "explained s s' (acts_of s (ItermDisconnect t))"
proof -
  obtain tm where tm: "nl_iterms s t = Some tm" using assms(3) by (auto simp: iterm_disconnect_def with_obj_def split: option.splits)
  have o': "owner s ItNet t = Some (it_net tm)" "owner s ItMnet t = Some (it_mnet tm)" using owner_of(1) [OF tm] by simp_all
  have w: "owner s' = reown ItMnet t 0 (reown ItNet t 0 (owner s))"
    by (rule moved_off2 [OF assms(2) _ o'(1) _ o'(2)]) simp_all
  show ?thesis
  proof (cases "it_net tm = 0 \<and> it_mnet tm = 0")
    case True
    with tm w o' show ?thesis by (simp add: explained_def reown_same)
  next
    case False
    then have "free_inst s t" "it_net tm \<noteq> 0 \<Longrightarrow> free_net s (it_net tm)" using iterm_disconnects [OF assms(3) tm] by blast+
    with False tm w o' own_mnet(1) [OF assms(1) tm] show ?thesis by (auto simp: explained_def reown_same)
  qed
qed

lemma iterm_disconnectDbNet_explained:
  assumes "moved_to s A s' (lists_after s (ItermDisconnectNet t) A)" "iterm_disconnectDbNet t s = (None, s')"
  shows "explained s s' (acts_of s (ItermDisconnectNet t))"
proof -
  obtain tm where tm: "nl_iterms s t = Some tm" using assms(2) by (auto simp: iterm_disconnectDbNet_def with_obj_def split: option.splits)
  have o': "owner s ItNet t = Some (it_net tm)" using owner_of(1) [OF tm] by simp
  have "owner s' = reown ItNet t 0 (owner s)" by (rule moved_off [OF assms(1) _ o']) simp_all
  from explained_drop [OF this o', of "ItDiscN t"] iterm_leaves [OF assms(2) tm] tm show ?thesis by simp
qed

lemma iterm_disconnectModNet_explained:
  assumes "nl_abs s A" "moved_to s A s' (lists_after s (ItermDisconnectMod t) A)" "iterm_disconnectModNet t s = (None, s')"
    "free_inst s t"
  shows "explained s s' (acts_of s (ItermDisconnectMod t))"
proof -
  obtain tm where tm: "nl_iterms s t = Some tm" using assms(3) by (auto simp: iterm_disconnectModNet_def with_obj_def split: option.splits)
  have o': "owner s ItMnet t = Some (it_mnet tm)" using owner_of(1) [OF tm] by simp
  have "owner s' = reown ItMnet t 0 (owner s)" by (rule moved_off [OF assms(2) _ o']) simp_all
  from explained_drop [OF this o', of "ItDiscM t"] own_mnet(1) [OF assms(1) tm] assms(4) tm show ?thesis by simp
qed

lemma bterm_connect_explained:
  assumes "nl_abs s A" "moved_to s A s' (lists_after s (BtermConnect t n) A)" "bterm_connect_net t n s = (None, s')"
    "owner s BtMnet t = Some 0"
  shows "explained s s' (acts_of s (BtermConnect t n))"
proof -
  obtain tm where tm: "nl_bterms s t = Some tm" using assms(3) by (auto simp: bterm_connect_net_def with_obj_def split: option.splits)
  note c = bterm_connects [OF assms(3) tm]
  have o': "owner s BtNet t = Some (bt_net tm)" using owner_of(2) [OF tm] by simp
  have n: "n \<noteq> 0" by (rule objects_not_null(1) [OF assms(1) c(1)])
  have "owner s' = reown BtNet t n (owner s)" by (rule moved_joined [OF assms(2)]) (use n in simp_all)
  with o' c tm assms(4) show ?thesis by (auto simp: explained_def rehung_def reown_same)
qed

lemma bterm_disconnect_explained:
  assumes "nl_abs s A" "moved_to s A s' (lists_after s (BtermDisconnect t) A)" "bterm_disconnect t s = (None, s')"
  shows "explained s s' (acts_of s (BtermDisconnect t))"
proof -
  obtain tm where tm: "nl_bterms s t = Some tm" using assms(3) by (auto simp: bterm_disconnect_def with_obj_def split: option.splits)
  have o': "owner s BtNet t = Some (bt_net tm)" "owner s BtMnet t = Some (bt_mnet tm)" using owner_of(2) [OF tm] by simp_all
  show ?thesis
  proof (cases "bt_net tm = 0")
    case True
    with assms(2) tm show ?thesis by (auto intro: explained_none)
  next
    case False
    have "owner s' = reown BtMnet t 0 (reown BtNet t 0 (owner s))"
      by (rule moved_off2 [OF assms(2) _ o'(1) _ o'(2)]) (use tm False in simp_all)
    with False tm o' own_mnet(2) [OF assms(1) tm] bterm_disconnects [OF assms(3) tm] show ?thesis
      by (auto simp: explained_def dropped_def reown_same)
  qed
qed

lemma bterm_disconnectDbNet_explained:
  assumes "moved_to s A s' (lists_after s (BtermDisconnectNet t) A)" "bterm_disconnectDbNet t s = (None, s')"
  shows "explained s s' (acts_of s (BtermDisconnectNet t))"
proof -
  obtain tm where tm: "nl_bterms s t = Some tm" using assms(2) by (auto simp: bterm_disconnectDbNet_def with_obj_def split: option.splits)
  have o': "owner s BtNet t = Some (bt_net tm)" using owner_of(2) [OF tm] by simp
  have "owner s' = reown BtNet t 0 (owner s)" by (rule moved_off [OF assms(1) _ o']) simp_all
  from explained_drop [OF this o', of "BtDisc t"] bterm_leaves [OF assms(2) tm] tm show ?thesis by simp
qed

lemma bterm_disconnectDbModNet_explained:
  assumes "nl_abs s A" "moved_to s A s' (lists_after s (BtermDisconnectMod t) A)" "bterm_disconnectDbModNet t s = (None, s')"
  shows "explained s s' (acts_of s (BtermDisconnectMod t))"
proof -
  obtain tm where tm: "nl_bterms s t = Some tm"
    using assms(3) by (auto simp: bterm_disconnectDbModNet_def bterm_disconnectModNet_def with_obj_def split: option.splits)
  have o': "owner s BtMnet t = Some (bt_mnet tm)" using owner_of(2) [OF tm] by simp
  have "owner s' = reown BtMnet t 0 (owner s)" by (rule moved_off [OF assms(2) _ o']) simp_all
  from explained_drop [OF this o', of "BtDiscM t"] own_mnet(2) [OF assms(1) tm] tm show ?thesis by simp
qed

lemma moditerm_connect_explained:
  assumes "nl_abs s A" "moved_to s A s' (lists_after s (ModItermConnect t n) A)" "moditerm_connect t n s = (None, s')" "net_cmd_ok s (ModItermConnect t n)"
  shows "explained s s' (acts_of s (ModItermConnect t n))"
proof -
  obtain tm where tm: "nl_moditerms s t = Some tm" using assms(3) by (auto simp: moditerm_connect_def with_obj_def split: option.splits)
  show ?thesis
  proof (cases "mi_net tm = n")
    case True
    with assms(2) tm show ?thesis by (auto intro: explained_none)
  next
    case False
    then have m: "is_mnet s n" "mi_net tm = 0" using assms(3,4) tm by (auto simp: moditerm_connect_def with_obj_def is_mnet_def split: option.splits)
    have n: "n \<noteq> 0" by (rule objects_not_null(2) [OF assms(1) m(1)])
    have o': "owner s MiMnet t = Some 0" using owner_of(3) [OF tm] m(2) by simp
    have "owner s' = reown MiMnet t n (owner s)" by (rule moved_joined [OF assms(2)]) (use tm False n in simp_all)
    with m o' tm False show ?thesis by (simp add: explained_def)
  qed
qed

lemma moditerm_disconnect_explained:
  assumes "nl_abs s A" "moved_to s A s' (lists_after s (ModItermDisconnect t) A)" "moditerm_disconnect t s = (None, s')"
  shows "explained s s' (acts_of s (ModItermDisconnect t))"
proof -
  obtain tm where tm: "nl_moditerms s t = Some tm" using assms(3) by (auto simp: moditerm_disconnect_def with_obj_def split: option.splits)
  have o': "owner s MiMnet t = Some (mi_net tm)" using owner_of(3) [OF tm] by simp
  have "owner s' = reown MiMnet t 0 (owner s)" by (rule moved_off [OF assms(2) _ o']) simp_all
  from explained_drop [OF this o', of "MiDisc t"] own_mnet(3) [OF assms(1) tm] tm show ?thesis by simp
qed

lemma modbterm_connect_explained:
  assumes "nl_abs s A" "moved_to s A s' (lists_after s (ModBtermConnect t n) A)" "modbterm_connect t n s = (None, s')" "net_cmd_ok s (ModBtermConnect t n)"
  shows "explained s s' (acts_of s (ModBtermConnect t n))"
proof -
  obtain tm where tm: "nl_modbterms s t = Some tm" using assms(3) by (auto simp: modbterm_connect_def with_obj_def split: option.splits)
  show ?thesis
  proof (cases "mb_net tm = n")
    case True
    with assms(2) tm show ?thesis by (auto intro: explained_none)
  next
    case False
    then have m: "is_mnet s n" "mb_net tm = 0" using assms(3,4) tm by (auto simp: modbterm_connect_def with_obj_def is_mnet_def split: option.splits)
    have n: "n \<noteq> 0" by (rule objects_not_null(2) [OF assms(1) m(1)])
    have o': "owner s MbMnet t = Some 0" using owner_of(4) [OF tm] m(2) by simp
    have "owner s' = reown MbMnet t n (owner s)" by (rule moved_joined [OF assms(2)]) (use tm False n in simp_all)
    with m o' tm False show ?thesis by (simp add: explained_def)
  qed
qed

lemma modbterm_disconnect_explained:
  assumes "nl_abs s A" "moved_to s A s' (lists_after s (ModBtermDisconnect t) A)" "modbterm_disconnect t s = (None, s')"
  shows "explained s s' (acts_of s (ModBtermDisconnect t))"
proof -
  obtain tm where tm: "nl_modbterms s t = Some tm" using assms(3) by (auto simp: modbterm_disconnect_def with_obj_def split: option.splits)
  have o': "owner s MbMnet t = Some (mb_net tm)" using owner_of(4) [OF tm] by simp
  have "owner s' = reown MbMnet t 0 (owner s)" by (rule moved_off [OF assms(2) _ o']) simp_all
  from explained_drop [OF this o', of "MbDisc t"] own_mnet(4) [OF assms(1) tm] tm show ?thesis by simp
qed

lemma net_step_explained:
  assumes "nl_abs s A" "moved_to s A s' (lists_after s c A)" "net_step c s = (None, s')" "undoable s c"
  shows "explained s s' (acts_of s c)"
proof (cases c)
  case (ReverseIterms n)
  show ?thesis unfolding ReverseIterms acts_of.simps
  proof (rule explained_none [OF assms(2)])
    fix q m
    show "set (conn_at (lists_after s c A) q m) = set (conn_at A q m)" unfolding ReverseIterms by (cases q) simp_all
  qed
next
  case (ReverseBterms n)
  show ?thesis unfolding ReverseBterms acts_of.simps
  proof (rule explained_none [OF assms(2)])
    fix q m
    show "set (conn_at (lists_after s c A) q m) = set (conn_at A q m)" unfolding ReverseBterms by (cases q) simp_all
  qed
qed (use assms iterm_connect_explained iterm_connect_mnet_explained iterm_disconnect_explained iterm_disconnectDbNet_explained
    iterm_disconnectModNet_explained bterm_connect_explained bterm_disconnect_explained bterm_disconnectDbNet_explained
    bterm_disconnectDbModNet_explained moditerm_connect_explained moditerm_disconnect_explained modbterm_connect_explained
    modbterm_disconnect_explained in \<open>simp_all only: net_step.simps undoable.simps\<close>)

lemma explained_append:
  assumes "explained s s1 as" "explained s1 s2 bs" "nl_static s1 = nl_static s"
  shows "explained s s2 (as @ bs)"
  using assms may_static [OF assms(3)] by (auto simp: explained_def shifted_append list_all_iff)

text \<open>The calls whose journal can be redone: no block terminal is connected.\<close>

fun redoable :: "net_cmd \<Rightarrow> bool" where
  "redoable (BtermConnect t n) \<longleftrightarrow> False"
| "redoable (BtermConnectMod t n) \<longleftrightarrow> False"
| "redoable c \<longleftrightarrow> True"

lemma redoable_acts: "redoable c \<Longrightarrow> list_all (\<lambda>a. redo_modes a \<noteq> {}) (acts_of s c)"
  by (cases c) (auto simp: rehung_def dropped_def split: option.splits)

lemma acts_length: "length (acts_of s c) \<le> 2"
  by (cases c) (auto simp: rehung_def dropped_def split: option.splits)

text \<open>What a run of calls leaves behind.\<close>

definition ran :: "netlist \<Rightarrow> link_act list \<Rightarrow> netlist \<Rightarrow> link_act list \<Rightarrow> bool" where
  "ran s as s' bs \<longleftrightarrow> nl_ok s' \<and> nl_static s' = nl_static s \<and> explained s s' bs \<and>
     (\<exists>j j'. nl_journal s = Some j \<and> nl_journal s' = Some j' \<and> journal_holds j' (map link_enc (as @ bs)) \<and>
        jl_debug (j_log j') = jl_debug (j_log j))"

lemma net_calls_run:
  assumes "nl_ok s" "all_undoable s cs" "nl_journal s = Some j" "journal_holds j (map link_enc as)"
    "length (jl_bytes (j_log j)) + 80 * length cs < 2 ^ 31"
  shows "\<exists>bs. ran s as (net_calls cs s) bs \<and> (list_all redoable cs \<longrightarrow> list_all (\<lambda>a. redo_modes a \<noteq> {}) bs)"
  using assms
proof (induction cs arbitrary: s j as)
  case Nil
  have "moved_to s A s A" if "nl_abs s A" for A using that by (simp add: moved_to_def)
  then have "explained s s []" using Nil.prems(1) by (auto simp: nl_ok_def intro: explained_none)
  then have "ran s as s []" using Nil.prems by (simp add: ran_def)
  then show ?case by (intro exI [of _ "[]"]) simp
next
  case (Cons c cs)
  obtain A where A: "nl_abs s A" "nl_open s" using Cons.prems(1) by (auto simp: nl_ok_def)
  have und: "undoable s c" "all_undoable (snd (net_step c s)) cs" using Cons.prems(2) by simp_all
  from net_step_meets [OF A undoable_ok [OF und(1)]]
  consider e where "net_step c s = (Some e, s)" | "effect (net_step c) s (map link_enc (acts_of s c)) (lists_after s c A)"
    by (auto simp: meets_def outcome_def)
  then show ?case
  proof cases
    case 1
    with Cons.IH [OF Cons.prems(1) _ Cons.prems(3,4)] und(2) Cons.prems(5) show ?thesis by auto
  next
    case 2
    then obtain s1 where s1: "net_step c s = (None, s1)" "nl_to s (map link_enc (acts_of s c)) (lists_after s c A) s1"
      by (auto simp: effect_def)
    have mv: "moved_to s A s1 (lists_after s c A)" "nl_static s1 = nl_static s" "nl_ok s1"
      using s1(2) A(1) by (auto simp: moved_to_def nl_to_def nl_ok_def)
    have len: "length (jl_bytes (j_log j)) + 40 * length (map link_enc (acts_of s c)) < 2 ^ 31"
      using acts_length [of s c] Cons.prems(5) by simp
    obtain j1 where j1: "nl_journal s1 = Some j1" "journal_holds j1 (map link_enc (as @ acts_of s c))"
        "jl_debug (j_log j1) = jl_debug (j_log j)" "length (jl_bytes (j_log j1)) \<le> length (jl_bytes (j_log j)) + 40 * length (acts_of s c)"
      using s1(2) Cons.prems(3,4) len unfolding nl_to_def nl_logged_def by fastforce
    have "length (jl_bytes (j_log j1)) + 80 * length cs < 2 ^ 31"
      using j1(4) acts_length [of s c] Cons.prems(5) by simp
    from Cons.IH [OF mv(3) _ j1(1,2) this] und(2) s1(1)
    obtain bs where bs: "ran s1 (as @ acts_of s c) (net_calls cs s1) bs"
        "list_all redoable cs \<longrightarrow> list_all (\<lambda>a. redo_modes a \<noteq> {}) bs" by auto
    have "ran s as (net_calls cs s1) (acts_of s c @ bs)"
      using bs(1) j1(1,3) Cons.prems(3) mv(2) explained_append [OF net_step_explained [OF A(1) mv(1) s1(1) und(1)] _ mv(2)]
      by (auto simp: ran_def)
    with bs(2) redoable_acts [of c s] s1(1) show ?thesis by (intro exI [of _ "acts_of s c @ bs"]) auto
  qed
qed

section \<open>The same terminals on every net\<close>

definition same_lists_sets :: "netlist \<Rightarrow> netlist \<Rightarrow> bool" where
  "same_lists_sets s s' \<longleftrightarrow>
    (\<forall>n net. nl_nets s n = Some net \<longrightarrow>
       (\<exists>X. lists (net_iterms n s) X \<and> lists (net_iterms n s') X) \<and>
       (\<exists>X. lists (net_bterms n s) X \<and> lists (net_bterms n s') X)) \<and>
    (\<forall>n mn. nl_modnets s n = Some mn \<longrightarrow>
       (\<exists>X. lists (modnet_iterms n s) X \<and> lists (modnet_iterms n s') X) \<and>
       (\<exists>X. lists (modnet_bterms n s) X \<and> lists (modnet_bterms n s') X) \<and>
       (\<exists>X. lists (modnet_moditerms n s) X \<and> lists (modnet_moditerms n s') X) \<and>
       (\<exists>X. lists (modnet_modbterms n s) X \<and> lists (modnet_modbterms n s') X))"

lemma same_owner_sets:
  assumes "nl_abs s A" "nl_abs s' B" "owner s' = owner s"
  shows "set (conn_at B p n) = set (conn_at A p n)"
proof -
  have "t \<in> set (conn_at C p n) \<longleftrightarrow> n \<noteq> 0 \<and> owner r p t = Some n" if "nl_abs r C" for r C t
    using linked_mem_iff [OF nl_abs_at [OF that], of t p n] by (auto simp: owner_at owns_def)
  with assms show ?thesis by (simp add: set_eq_iff)
qed

lemma same_owner_lists:
  assumes "nl_ok s" "nl_ok s'" "nl_static s' = nl_static s" "owner s' = owner s"
  shows "same_lists_sets s s'"
proof -
  obtain A B where ab: "nl_abs s A" "nl_abs s' B" using assms(1,2) by (auto simp: nl_ok_def)
  note eq = same_owner_sets [OF ab assms(4)]
  have p: "proj nt_dont_touch (nl_nets s') n = proj nt_dont_touch (nl_nets s) n"
    "proj (\<lambda>_. ()) (nl_modnets s') n = proj (\<lambda>_. ()) (nl_modnets s) n" for n
    using assms(3) by (simp_all add: nl_static_def)
  have objs: "\<exists>x. nl_nets s' n = Some x" if "nl_nets s n = Some net" for n net
    using p(1) [of n] that by (auto simp: proj_def)
  have mods: "\<exists>x. nl_modnets s' n = Some x" if "nl_modnets s n = Some mn" for n mn
    using p(2) [of n] that by (auto simp: proj_def)
  show ?thesis
    unfolding same_lists_sets_def
  proof (intro conjI allI impI)
    fix n net assume n: "nl_nets s n = Some net"
    obtain x where x: "nl_nets s' n = Some x" using objs [OF n] by blast
    show "\<exists>X. lists (net_iterms n s) X \<and> lists (net_iterms n s') X"
      using eq [of ItNet n] nl_distinct [OF ab(1)] nl_distinct [OF ab(2)] nl_lists [OF ab(1)] nl_lists [OF ab(2)] n x by (simp add: lists_def)
    show "\<exists>X. lists (net_bterms n s) X \<and> lists (net_bterms n s') X"
      using eq [of BtNet n] nl_distinct [OF ab(1)] nl_distinct [OF ab(2)] nl_lists [OF ab(1)] nl_lists [OF ab(2)] n x by (simp add: lists_def)
  next
    fix n mn assume n: "nl_modnets s n = Some mn"
    obtain x where x: "nl_modnets s' n = Some x" using mods [OF n] by blast
    note l = nl_distinct [OF ab(1)] nl_distinct [OF ab(2)] nl_lists [OF ab(1)] nl_lists [OF ab(2)] n x
    show "\<exists>X. lists (modnet_iterms n s) X \<and> lists (modnet_iterms n s') X"
      using eq [of ItMnet n] l by (simp add: lists_def)
    show "\<exists>X. lists (modnet_bterms n s) X \<and> lists (modnet_bterms n s') X"
      using eq [of BtMnet n] l by (simp add: lists_def)
    show "\<exists>X. lists (modnet_moditerms n s) X \<and> lists (modnet_moditerms n s') X"
      using eq [of MiMnet n] l by (simp add: lists_def)
    show "\<exists>X. lists (modnet_modbterms n s) X \<and> lists (modnet_modbterms n s') X"
      using eq [of MbMnet n] l by (simp add: lists_def)
  qed
qed

section \<open>Properties\<close>

lemma owner_frame [simp]: "owner (s\<lparr>nl_journal := j\<rparr>) = owner s" "owner (s\<lparr>nl_pending := j\<rparr>) = owner s"
proof -
  have "owner (s\<lparr>nl_journal := j\<rparr>) p = owner s p" "owner (s\<lparr>nl_pending := j\<rparr>) p = owner s p" for p
    by (cases p; simp add: owner.simps)+
  then show "owner (s\<lparr>nl_journal := j\<rparr>) = owner s" "owner (s\<lparr>nl_pending := j\<rparr>) = owner s" by (simp_all add: fun_eq_iff)
qed

lemma eco_frame [simp]:
  "nl_static (nl_beginEco d s) = nl_static s" "nl_static (nl_endEco s) = nl_static s" "nl_static (s\<lparr>nl_pending := j\<rparr>) = nl_static s"
  "owner (nl_beginEco d s) = owner s" "owner (nl_endEco s) = owner s"
  "nl_journal (nl_endEco s) = None" "nl_pending (nl_endEco s) = nl_journal s" "nl_journal (nl_beginEco d s) = Some (journal_new d)"
  by (simp_all add: nl_beginEco_def nl_endEco_def nl_static_def)

lemma eco_ok [simp]:
  assumes "nl_ok s"
  shows "nl_ok (nl_beginEco d s)" "nl_quiet (nl_endEco s)" "nl_quiet (s\<lparr>nl_journal := None, nl_pending := j\<rparr>)"
proof -
  obtain A where A: "nl_abs s A" using assms by (auto simp: nl_ok_def)
  have n: "nl_abs (nl_beginEco d s) A" "nl_abs (nl_endEco s) A" "nl_abs (s\<lparr>nl_journal := None, nl_pending := j\<rparr>) A"
    using A by (simp_all add: nl_beginEco_def nl_endEco_def nl_abs_def)
  then show "nl_ok (nl_beginEco d s)" "nl_quiet (nl_endEco s)" "nl_quiet (s\<lparr>nl_journal := None, nl_pending := j\<rparr>)"
    by (auto simp: nl_ok_def nl_quiet_def nl_open_def nl_beginEco_def nl_endEco_def journal_new_def)
qed

lemma quiet_pending:
  assumes "nl_quiet s"
  shows "nl_quiet (s\<lparr>nl_pending := j\<rparr>)"
proof -
  have "s\<lparr>nl_journal := None, nl_pending := j\<rparr> = s\<lparr>nl_pending := j\<rparr>" using assms by (cases s) (simp add: nl_quiet_def)
  with eco_ok(3) [of s j] assms show ?thesis by (simp add: nl_quiet_def)
qed

text \<open>A run of an ECO that starts from a fresh journal.\<close>

lemma eco_run:
  assumes "nl_ok s" "all_undoable (nl_beginEco False s) cs" "length cs < 2 ^ 24"
  obtains bs j where "nl_journal (net_calls cs (nl_beginEco False s)) = Some j" "journal_holds j (map link_enc bs)"
    "\<not> jl_debug (j_log j)" "nl_ok (net_calls cs (nl_beginEco False s))"
    "nl_static (net_calls cs (nl_beginEco False s)) = nl_static s" "explained s (net_calls cs (nl_beginEco False s)) bs"
    "list_all redoable cs \<longrightarrow> list_all (\<lambda>a. redo_modes a \<noteq> {}) bs"
proof -
  let ?s = "nl_beginEco False s"
  have new: "jl_bytes (j_log (journal_new False)) = []" "jl_debug (j_log (journal_new False)) = False"
    using journal_new_holds [of False] by (simp_all add: journal_holds_def journal_new_def jl_new_def)
  have "length (jl_bytes (j_log (journal_new False))) + 80 * length cs < 2 ^ 31" using assms(3) by (simp add: new)
  from net_calls_run [OF eco_ok(1) [OF assms(1)] assms(2) _ _ this, of "[]"] journal_new_holds [of False]
  obtain bs where bs: "ran ?s [] (net_calls cs ?s) bs" "list_all redoable cs \<longrightarrow> list_all (\<lambda>a. redo_modes a \<noteq> {}) bs"
    by auto
  have "explained s (net_calls cs ?s) bs"
    using bs(1) may_static [of ?s s] by (simp add: ran_def explained_def list_all_iff)
  with bs that new(2) show ?thesis by (auto simp: ran_def)
qed

lemma modes_untagged: "redo_modes a \<noteq> {} \<Longrightarrow> False \<in> redo_modes a" "False \<in> undo_modes a"
  by (cases a; simp)+

text \<open>The ECO of one connection, on a small netlist.\<close>

lemma demo_eco:
  "owner (net_calls [ItermConnect 1 1] (nl_beginEco False demo_netlist)) ItNet 1 = Some 1"
  "all_undoable (nl_beginEco False demo_netlist) [ItermConnect 1 1]"
proof -
  let ?b = "nl_beginEco False demo_netlist"
  have a: "nl_abs ?b no_conn" using demo_abs(1) by (simp add: nl_beginEco_def)
  have o': "nl_open ?b" by (simp add: nl_open_def nl_beginEco_def journal_new_def)
  have objs: "nl_iterms ?b 1 = Some demo_iterm" "nl_nets ?b 1 = Some \<lparr>nt_dont_touch = False, nt_iterms = 0, nt_bterms = 0\<rparr>"
    by (simp_all add: nl_beginEco_def)
  have "iterm_free ?b 1" by (auto simp: iterm_free_def nl_beginEco_def demo_iterm_def)
  from iterm_connect_net_effect [OF a o' this objs] obtain s as where
    s: "iterm_connect_net 1 1 ?b = (None, s)" "nl_to ?b as (no_conn\<lparr>c_it := joined 1 1 (c_it no_conn)\<rparr>) s"
    by (auto simp: effect_def demo_iterm_def)
  have "owner s = reown ItNet 1 1 (owner ?b)"
    by (rule moved_joined [where A = no_conn and B = "no_conn\<lparr>c_it := joined 1 1 (c_it no_conn)\<rparr>"])
      (use s(2) a in \<open>simp_all add: moved_to_def nl_to_def\<close>)
  then show "owner (net_calls [ItermConnect 1 1] ?b) ItNet 1 = Some 1" using s(1) by simp
  show "all_undoable ?b [ItermConnect 1 1]" by simp
qed

lemma demo_owner: "owner demo_netlist ItNet 1 = Some 0" "owner demo_netlist BtNet 1 = Some 0" "owner demo_netlist BtMnet 1 = Some 0"
  by (simp_all add: owner.simps proj_def demo_netlist_def demo_iterm_def demo_bterm_def)

text \<open>C17: Undoing an ECO of connections.  After any calls that connect and disconnect terminals, failing
  ones included, \<open>undoEco\<close> reads the journal back and puts every terminal on the nets it was on,
  so that every net lists the same terminals as before, though perhaps in another order.  Left
  out are the calls the journal cannot take back.\<close>

theorem undoEco_reconnects:
  assumes "nl_ok s" "all_undoable (nl_beginEco False s) cs" "length cs < 2 ^ 24"
  shows "\<exists>s'. nl_undoEco h (nl_endEco (net_calls cs (nl_beginEco False s))) = Some (Inr s') \<and>
    nl_ok s' \<and> nl_static s' = nl_static s \<and> owner s' = owner s \<and> same_lists_sets s s'"
proof -
  let ?s1 = "net_calls cs (nl_beginEco False s)"
  obtain bs j where run: "nl_journal ?s1 = Some j" "journal_holds j (map link_enc bs)" "\<not> jl_debug (j_log j)" "nl_ok ?s1"
      "nl_static ?s1 = nl_static s" "explained s ?s1 bs"
    by (rule eco_run [OF assms])
  have "settles (nl_endEco ?s1) (eff_all link_undo (rev bs) (nl_endEco ?s1)) (owner s)"
    using run(4-6) may_static [of "nl_endEco ?s1" s]
    by (intro undo_all_ok) (simp_all add: explained_def list_all_iff)
  then obtain s2 where s2: "eff_all link_undo (rev bs) (nl_endEco ?s1) = Inr s2" "nl_quiet s2" "nl_static s2 = nl_static s" "owner s2 = owner s"
    using run(5) by (auto simp: settles_def)
  obtain j' where "undo (nl_undo_switch h) j (nl_endEco ?s1) = Some (Inr (j', s2))"
    using nl_undoing.undo_replays [OF run(2), of h "nl_endEco ?s1"] run(3) modes_untagged(2) s2(1) by (auto simp: replays_def)
  then have "nl_undoEco h (nl_endEco ?s1) = Some (Inr (s2\<lparr>nl_pending := None\<rparr>))"
    using run(1) by (simp add: nl_undoEco_def)
  moreover have "nl_ok (s2\<lparr>nl_pending := None\<rparr>)" using quiet_pending [OF s2(2)] by (simp add: nl_quiet_def)
  ultimately show ?thesis using s2(3,4) same_owner_lists [OF assms(1), of "s2\<lparr>nl_pending := None\<rparr>"] by simp
qed

theorem undoEco_reconnects_witness:
  "\<exists>s'. nl_undoEco (\<lambda>a l s. Inl UnsupportedUndo) (nl_endEco (net_calls [ItermConnect 1 1] (nl_beginEco False demo_netlist))) = Some (Inr s') \<and>
     owner (net_calls [ItermConnect 1 1] (nl_beginEco False demo_netlist)) ItNet 1 = Some 1 \<and> owner s' ItNet 1 = Some 0"
  using undoEco_reconnects [OF demo_ok demo_eco(2), of "\<lambda>a l s. Inl UnsupportedUndo"] demo_eco(1) demo_owner(1) by auto

text \<open>C18: Committing an ECO of connections.  On a copy of the netlist as it was, or on the netlist after
  \<open>undoEco\<close>, \<open>commitEco\<close> of the recorded journal puts every terminal on the nets the calls had put
  it on.  Left out are the calls the journal cannot redo.\<close>

theorem commitEco_reconnects:
  assumes "nl_ok s" "all_undoable (nl_beginEco False s) cs" "length cs < 2 ^ 24" "list_all redoable cs"
    "nl_ok c" "nl_static c = nl_static s" "owner c = owner s"
  shows "\<exists>d. nl_commitEco h (c\<lparr>nl_journal := None, nl_pending := nl_journal (net_calls cs (nl_beginEco False s))\<rparr>) = Some (Inr d) \<and>
    nl_ok d \<and> owner d = owner (net_calls cs (nl_beginEco False s)) \<and> same_lists_sets (net_calls cs (nl_beginEco False s)) d"
proof -
  let ?s1 = "net_calls cs (nl_beginEco False s)" and ?c = "c\<lparr>nl_journal := None, nl_pending := nl_journal (net_calls cs (nl_beginEco False s))\<rparr>"
  obtain bs j where run: "nl_journal ?s1 = Some j" "journal_holds j (map link_enc bs)" "\<not> jl_debug (j_log j)" "nl_ok ?s1"
      "nl_static ?s1 = nl_static s" "explained s ?s1 bs" "list_all (\<lambda>a. redo_modes a \<noteq> {}) bs"
    by (rule eco_run [OF assms(1-3)]) (use assms(4) in blast)
  have c: "nl_static ?c = nl_static s" "owner ?c = owner s" using assms(6,7) by simp_all
  have "settles ?c (eff_all link_redo bs ?c) (owner ?s1)"
    using run(6,7) c may_static [OF c(1)] eco_ok(3) [OF assms(5)]
    by (intro redo_all_ok) (simp_all add: explained_def list_all_iff)
  then obtain d where d: "eff_all link_redo bs ?c = Inr d" "nl_quiet d" "nl_static d = nl_static s" "owner d = owner ?s1"
    using c(1) by (auto simp: settles_def)
  obtain j' where "redo (nl_redo_switch h) j ?c = Some (Inr (j', d))"
    using nl_redoing.redo_replays [OF run(2), of h ?c] run(3,7) modes_untagged(1) d(1) by (auto simp: replays_def list_all_iff)
  then have "nl_commitEco h ?c = Some (Inr (d\<lparr>nl_pending := None\<rparr>))"
    using run(1) by (simp add: nl_commitEco_def)
  moreover have "nl_ok (d\<lparr>nl_pending := None\<rparr>)" using quiet_pending [OF d(2)] by (simp add: nl_quiet_def)
  ultimately show ?thesis using d(3,4) run(5) same_owner_lists [OF run(4), of "d\<lparr>nl_pending := None\<rparr>"] by simp
qed

theorem commitEco_reconnects_witness:
  "\<exists>d. nl_commitEco (\<lambda>a l s. Inl UnsupportedUndo)
     (demo_netlist\<lparr>nl_journal := None, nl_pending := nl_journal (net_calls [ItermConnect 1 1] (nl_beginEco False demo_netlist))\<rparr>) =
     Some (Inr d) \<and> owner d ItNet 1 = Some 1"
  using commitEco_reconnects [OF demo_ok demo_eco(2) _ _ demo_ok refl refl, of "\<lambda>a l s. Inl UnsupportedUndo"] demo_eco(1) by auto

section \<open>What the journal cannot replay\<close>

text \<open>Behind the redone connection of a block terminal the unread zero is taken for the end of the action.\<close>

lemma redo_bterm_connect:
  assumes "journal_holds j (map link_enc (BtConn t n # as))" "\<not> jl_debug (j_log j)" "nl_quiet s" "owner s BtNet t = Some 0"
    "free_net s n"
  shows "redo (nl_redo_switch h) j s = Some (Inl ExpectedEndAction)"
proof -
  let ?j = "j\<lparr>j_log := jl_begin (j_log j)\<rparr>"
  let ?l = "jl_begin (j_log j)" and ?ps = "[JInt dbBTermObj, JUInt t, JUInt n, JUInt 0]"
  let ?tail = "[JUChar END_ACTION, JUInt (of_nat 0)]"
  obtain rest where rest: "jl_bytes (j_log j) = vals_bytes False (JUChar CONNECT_OBJECT # ?ps @ ?tail) @ rest" "jl_ok (j_log j)"
    using assms(1,2) by (auto simp: journal_holds_def Let_def action_vals_def)
  have d: "jl_debug ?l = False" using assms(2) by (simp add: jl_begin_def)
  have r: "readable ?l (vals_bytes (jl_debug ?l) (JUChar CONNECT_OBJECT # ?ps @ ?tail) @ rest)"
    using rest unfolding d by (simp add: readable_def jl_rest_def jl_begin_def)
  have "jl_bytes (j_log j) \<noteq> []" using rest by simp
  then have open_end: "\<not> jl_end ?l" using jl_size_of_nat(2) [OF rest(2)] by (simp add: jl_end_def jl_begin_def jl_size_def)
  let ?l1 = "skip (JUChar CONNECT_OBJECT) ?l"
  note r1 = readable_skip [OF r]
  have p1: "jl_pop_uchar ?l = Inr (CONNECT_OBJECT, ?l1)" by (rule pop_uchar_readable [OF r])
  have r1': "readable ?l1 (vals_bytes (jl_debug ?l1) (JInt dbBTermObj # JUInt t # JUInt n # (JUInt 0 # ?tail)) @ rest)"
    using r1 by simp
  note pops = link_pops [OF r1', of n]
  note r2 = readable_skip [OF r1'] note r3 = readable_skip [OF r2] note r4 = readable_skip [OF r3]
  let ?l4 = "skip (JUInt n) (skip (JUInt t) (skip (JInt dbBTermObj) ?l1))"
  obtain s' where s': "call (bterm_connect_net t n) s = Inr s'"
    using replay_bterm_connect_net [OF assms(3-5)] by (auto simp: settles_def)
  have bt: "\<exists>x. getObj nl_bterms t s = Inr x" "\<exists>x. getObj nl_nets n s = Inr x"
    using assms(4,5) by (auto simp: getObj_def owner.simps proj_def free_net_def)
  have sw: "nl_redo_switch h CONNECT_OBJECT ?l1 s = Inr (?l4, s')"
    using pops(1-3) s' bt by (auto simp: case_defs reads_as_def)
  have four: "readable ?l4 (vals_bytes (jl_debug ?l4) [JUChar 0, JUInt 100663296] @ vals_bytes False [JUInt 0] @ rest)"
  proof -
    have z: "bytes4 (0 :: u32) = [0, 0, 0, 0]" by (simp add: bytes4_def)
    have e: "bytes4 (100663296 :: u32) = [0, 0, 0, END_ACTION]" by (simp add: bytes4_def drop_bit_eq_div take_bit_eq_mod)
    have "vals_bytes False [JUChar 0, JUInt 100663296] @ vals_bytes False [JUInt 0] @ rest =
        vals_bytes False (JUInt 0 # ?tail) @ rest" by (simp add: z e tag_def)
    moreover have "readable ?l4 (vals_bytes False (JUInt 0 # ?tail) @ rest)" using r4 d by simp
    ultimately show ?thesis using d by simp
  qed
  have four': "readable ?l4 (vals_bytes (jl_debug ?l4) (JUChar 0 # [JUInt 100663296]) @ vals_bytes False [JUInt 0] @ rest)"
    using four by simp
  note p2 = pop_uchar_readable [OF four'] note p3 = pop_uint_readable [OF readable_skip [OF four']]
  show ?thesis unfolding redo_def
    using open_end p1 sw p2 p3 by (subst redo_loop.simps) simp
qed

text \<open>With type tags the signed zero of a connection of an instance terminal is refused.\<close>

abbreviation zero_tag_error :: journal_error where
  "zero_tag_error \<equiv> LogTypeMismatch LOG_UINT (log_code LOG_INT)"

lemma tagged_undo:
  assumes "jl_debug l" "readable l (vals_bytes (jl_debug l) [JInt dbITermObj, JUInt t, JUInt n, JInt 0] @ bs)"
  shows "nl_undo_switch h CONNECT_OBJECT l s = sum_bind (getObj nl_iterms t s) (\<lambda>_. Inl zero_tag_error)"
proof -
  note pops = link_pops [OF assms(2), of n]
  note r1 = readable_skip [OF assms(2)] note r2 = readable_skip [OF r1] note r3 = readable_skip [OF r2]
  let ?l = "skip (JUInt n) (skip (JUInt t) (skip (JInt dbITermObj) l))"
  have "readable ?l (tag True LOG_INT @ bytes4 0 @ bs)" using r3 assms(1) by simp
  from check_type_mismatch [OF this, of LOG_UINT] assms(1)
  have "jl_pop_uint ?l = Inl zero_tag_error" by (simp add: jl_pop_uint_def)
  with pops(1-3) show ?thesis by (simp add: case_defs reads_as_def)
qed

fun tagged_enc :: "u32 \<times> u32 \<Rightarrow> action" where
  "tagged_enc (t, n) = link_enc (ItConn t n)"

fun tagged_eff :: "u32 \<times> u32 \<Rightarrow> netlist \<Rightarrow> journal_error + netlist" where
  "tagged_eff (t, n) s = sum_bind (getObj nl_iterms t s) (\<lambda>_. Inl zero_tag_error)"

interpretation nl_tagged: journal_switch tagged_enc "nl_undo_switch h" tagged_eff "\<lambda>_. {True}" for h
proof unfold_locales
  fix a :: "u32 \<times> u32" and l bs s
  obtain t n where a: "a = (t, n)" by (cases a) auto
  show "list_all jval_ok (snd (tagged_enc a))" "fst (tagged_enc a) \<noteq> END_ACTION" by (simp_all add: a jval_ok_def)
  assume "jl_debug l \<in> {True}" "readable l (vals_bytes (jl_debug l) (snd (tagged_enc a)) @ bs)"
  with tagged_undo [of l t n bs h s] show "nl_undo_switch h (fst (tagged_enc a)) l s =
      sum_bind (tagged_eff a s) (\<lambda>s. Inr (skips (snd (tagged_enc a)) l, s))"
    by (simp only: a tagged_enc.simps link_enc.simps fst_conv snd_conv tagged_eff.simps sum_bind_assoc sum_bind_simps) simp
qed

text \<open>The state after one successful call.\<close>

lemma one_call:
  assumes "effect (net_step c) (nl_beginEco d s) [link_enc a] B" "nl_abs s A"
  obtains s1 j where "net_calls [c] (nl_beginEco d s) = s1" "nl_journal s1 = Some j" "journal_holds j [link_enc a]"
    "jl_debug (j_log j) = d" "moved_to s A s1 B" "nl_ok s1"
proof -
  obtain s1 where s1: "net_step c (nl_beginEco d s) = (None, s1)" "nl_to (nl_beginEco d s) [link_enc a] B s1"
    using assms(1) by (auto simp: effect_def)
  have new: "jl_bytes (j_log (journal_new d)) = []" "jl_debug (j_log (journal_new d)) = d"
    using journal_new_holds [of d] by (simp_all add: journal_holds_def journal_new_def jl_new_def)
  obtain j where j: "nl_journal s1 = Some j" "journal_holds j [link_enc a]" "jl_debug (j_log j) = d"
    using s1(2) journal_new_holds [of d] new unfolding nl_to_def nl_logged_def by fastforce
  have "moved_to s A s1 B" "nl_ok s1" using s1(2) assms(2) by (auto simp: moved_to_def nl_to_def nl_ok_def)
  with j s1(1) that show ?thesis by simp
qed

lemma tagged_undo_fails:
  assumes "nl_ok s" "free_inst s i" "owner s ItNet i = Some 0" "free_net s n"
  shows "nl_undoEco h (nl_endEco (net_calls [ItermConnect i n] (nl_beginEco True s))) = Some (Inl zero_tag_error)"
proof -
  let ?b = "nl_beginEco True s"
  obtain A where A: "nl_abs s A" using assms(1) by (auto simp: nl_ok_def)
  have b: "nl_abs ?b A" using A by (simp add: nl_beginEco_def)
  have o': "nl_open ?b" by (simp add: nl_open_def nl_beginEco_def journal_new_def)
  have f: "free_inst ?b i" "owner ?b ItNet i = Some 0" "free_net ?b n" using assms(2-4) static_free [of ?b s] by simp_all
  obtain tm where tm: "nl_iterms ?b i = Some tm" "it_net tm = 0" "iterm_free ?b i" using free_iterm [OF b f(1,2)] by blast
  obtain net where net: "nl_nets ?b n = Some net" "\<not> nt_dont_touch net" using f(3) by (auto simp: free_net_def)
  have n: "it_net tm \<noteq> n" using objects_not_null(1) [OF A assms(4)] tm(2) by simp
  from iterm_connect_net_effect [OF b o' tm(3,1) net n] tm(2)
  have e: "effect (net_step (ItermConnect i n)) ?b [link_enc (ItConn i n)] (A\<lparr>c_it := joined i n (c_it A)\<rparr>)" by simp
  obtain s1 j where s1: "net_calls [ItermConnect i n] ?b = s1" "nl_journal s1 = Some j" "journal_holds j [link_enc (ItConn i n)]"
      "jl_debug (j_log j) = True" "moved_to s A s1 (A\<lparr>c_it := joined i n (c_it A)\<rparr>)"
    by (rule one_call [OF e A])
  have "free_inst s1 i" using s1(5) assms(2) static_free(1) [of s1 s] by (simp add: moved_to_def)
  then have "tagged_eff (i, n) (nl_endEco s1) = Inl zero_tag_error" by (auto simp: getObj_def nl_endEco_def free_inst_def)
  then have "undo (nl_undo_switch h) j (nl_endEco s1) = Some (Inl zero_tag_error)"
    using nl_tagged.undo_replays [of j "[(i, n)]" h "nl_endEco s1"] s1(3,4) by (simp add: replays_def)
  with s1(1,2) show ?thesis by (simp add: nl_undoEco_def)
qed

lemma bterm_disconnect_both:
  assumes "nl_quiet s" "owner s BtNet t = Some n" "free_net s n" "owner s BtMnet t = Some m"
  shows "settles s (link_undo (BtConn t n) s) (reown BtMnet t 0 (reown BtNet t 0 (owner s)))"
proof -
  obtain A where A: "nl_abs s A" "nl_open s" "nl_journal s = None" by (rule quiet_abs [OF assms(1)])
  obtain tm where tm: "nl_bterms s t = Some tm" "bt_net tm = n" "bterm_free s t"
    using free_bterm [OF A(1) assms(2) disjI2 [OF assms(3)]] by blast
  have n: "bt_net tm \<noteq> 0" using objects_not_null(1) [OF A(1) assms(3)] tm(2) by simp
  have "settles s (call (bterm_disconnect t) s) (reown BtMnet t 0 (reown BtNet t 0 (owner s)))"
  proof (rule settles_effect [OF bterm_disconnect_effect [OF A(1,2) tm(3,1) n] A(1,3)])
    fix s'
    assume m: "moved_to s A s' (A\<lparr>c_bt := off t (c_bt A), c_btm := off t (c_btm A)\<rparr>)"
    show "owner s' = reown BtMnet t 0 (reown BtNet t 0 (owner s))"
      by (rule moved_off2 [OF m _ assms(2) _ assms(4)]) simp_all
  qed
  then show ?thesis using settles_getObj(2) [OF disjI1 [OF assms(2)]] by (simp add: withObj_def)
qed

text \<open>C19: Three connections the journal does not bring back.  Undoing the connection of a block terminal
  to a flat net also takes it off its net of the hierarchy.  Redoing such a connection ends in the
  critical error ODB-419, as the id of the hierarchical net is left unread.  With the type tags of
  the debug mode, undoing the connection of an instance terminal is an error, since the zero for
  no net was written as a signed integer.\<close>

theorem connections_not_replayed:
  assumes "nl_ok s" "owner s BtNet t = Some 0" "owner s BtMnet t = Some m" "free_net s n"
    "free_inst s i" "owner s ItNet i = Some 0"
  shows "(\<exists>s'. nl_undoEco h (nl_endEco (net_calls [BtermConnect t n] (nl_beginEco False s))) = Some (Inr s') \<and>
      owner s' BtMnet t = Some 0) \<and>
    nl_commitEco h (s\<lparr>nl_journal := None, nl_pending := nl_journal (net_calls [BtermConnect t n] (nl_beginEco False s))\<rparr>) =
      Some (Inl ExpectedEndAction) \<and>
    nl_undoEco h (nl_endEco (net_calls [ItermConnect i n] (nl_beginEco True s))) = Some (Inl (LogTypeMismatch LOG_UINT 3))"
proof -
  let ?b = "nl_beginEco False s"
  obtain A where A: "nl_abs s A" using assms(1) by (auto simp: nl_ok_def)
  have b: "nl_abs ?b A" using A by (simp add: nl_beginEco_def)
  have o': "nl_open ?b" by (simp add: nl_open_def nl_beginEco_def journal_new_def)
  have f: "owner ?b BtNet t = Some 0" "free_net ?b n" using assms(2,4) static_free [of ?b s] by simp_all
  obtain tm where tm: "nl_bterms ?b t = Some tm" "bt_net tm = 0" "bterm_free ?b t" using free_bterm [OF b f(1)] by blast
  obtain net where net: "nl_nets ?b n = Some net" "\<not> nt_dont_touch net" using f(2) by (auto simp: free_net_def)
  from bterm_connect_net_effect [OF b o' tm(3,1) net] tm(2)
  have e: "effect (net_step (BtermConnect t n)) ?b [link_enc (BtConn t n)] (A\<lparr>c_bt := joined t n (c_bt A)\<rparr>)" by simp
  obtain s1 j where s1: "net_calls [BtermConnect t n] ?b = s1" "nl_journal s1 = Some j" "journal_holds j [link_enc (BtConn t n)]"
      "jl_debug (j_log j) = False" "moved_to s A s1 (A\<lparr>c_bt := joined t n (c_bt A)\<rparr>)" "nl_ok s1"
    by (rule one_call [OF e A])
  have n: "n \<noteq> 0" by (rule objects_not_null(1) [OF A assms(4)])
  have w: "owner s1 = reown BtNet t n (owner s)" by (rule moved_joined [OF s1(5)]) (use n in simp_all)
  have fn: "free_net (nl_endEco s1) n" using s1(5) assms(4) static_free(2) [of "nl_endEco s1" s] by (simp add: moved_to_def)
  obtain s2 where s2: "link_undo (BtConn t n) (nl_endEco s1) = Inr s2" "owner s2 BtMnet t = Some 0"
    using bterm_disconnect_both [OF eco_ok(2) [OF s1(6)] _ fn, of t m] w assms(3) by (auto simp: settles_def)
  obtain j' where "undo (nl_undo_switch h) j (nl_endEco s1) = Some (Inr (j', s2))"
    using nl_undoing.undo_replays [of j "[BtConn t n]" h "nl_endEco s1"] s1(3,4) s2(1) by (auto simp: replays_def)
  then have undone: "nl_undoEco h (nl_endEco s1) = Some (Inr (s2\<lparr>nl_pending := None\<rparr>))"
    using s1(2) by (simp add: nl_undoEco_def)
  let ?s = "s\<lparr>nl_journal := None, nl_pending := Some j\<rparr>"
  have "nl_static ?s = nl_static s" by (simp add: nl_static_def)
  then have "free_net ?s n" using assms(4) static_free(2) [of ?s s] by simp
  then have "redo (nl_redo_switch h) j ?s = Some (Inl ExpectedEndAction)"
    using redo_bterm_connect [of j t n "[]" ?s h] s1(3,4) eco_ok(3) [OF assms(1)] assms(2) by simp
  with undone s2(2) s1(1,2) tagged_undo_fails [OF assms(1,5,6,4)] show ?thesis by (simp add: nl_commitEco_def)
qed

theorem connections_not_replayed_witness:
  "nl_commitEco (\<lambda>a l s. Inl UnsupportedUndo)
     (demo_netlist\<lparr>nl_journal := None, nl_pending := nl_journal (net_calls [BtermConnect 1 1] (nl_beginEco False demo_netlist))\<rparr>) =
   Some (Inl ExpectedEndAction)"
  using connections_not_replayed [OF demo_ok demo_owner(2,3), of 1 1 "\<lambda>a l s. Inl UnsupportedUndo"] demo_owner(1)
  by (simp add: free_net_def free_inst_def demo_iterm_def)

end
