(* ===== verification/ParVector.thy ===== *)
theory ParVector imports Main begin

text \<open>
  The vectors of the partitioner, \<open>src/par/src/Utilities.cpp\<close>: weights with one entry per
  dimension, and the comparisons on them.  \<open>float\<close> is a type \<open>'f\<close> with an order and arithmetic of
  which nothing is assumed by the definitions; a theorem about exact sums asks for a type where
  the ring laws hold, as they do in \<open>float\<close> while all sums stay below \<open>2 ^ 24\<close> times the unit of
  the weights.  NaN does not occur.  Ids are naturals where the code uses them as an index, and
  integers where it keeps \<open>-1\<close> for none.

  Three comparisons are in use.  \<open>operator<\<close> is defined in the namespace for vectors and compares
  componentwise.  There is no \<open>operator<=\<close> and no \<open>operator>\<close> for vectors, only one \<open>operator<=\<close>
  for matrices: \<open>a <= b\<close> and \<open>a > b\<close> on vectors are the templates of the standard library, which
  compare lexicographically.
\<close>

section \<open>Arithmetic\<close>

text \<open>Both operands have the same length, which the code asserts.\<close>

definition vec_add :: "'f::plus list \<Rightarrow> 'f list \<Rightarrow> 'f list" where
  "vec_add a b = map2 (+) a b"

definition vec_sub :: "'f::minus list \<Rightarrow> 'f list \<Rightarrow> 'f list" where
  "vec_sub a b = map2 (-) a b"

definition MultiplyFactor :: "'f::times list \<Rightarrow> 'f \<Rightarrow> 'f list" where
  "MultiplyFactor a factor = map (\<lambda>x. x * factor) a"

lemma length_vec_add [simp]: "length (vec_add a b) = min (length a) (length b)"
  by (simp add: vec_add_def)

lemma length_vec_sub [simp]: "length (vec_sub a b) = min (length a) (length b)"
  by (simp add: vec_sub_def)

lemma nth_vec_add [simp]: "i < length a \<Longrightarrow> i < length b \<Longrightarrow> vec_add a b ! i = a ! i + b ! i"
  by (simp add: vec_add_def)

lemma nth_vec_sub [simp]: "i < length a \<Longrightarrow> i < length b \<Longrightarrow> vec_sub a b ! i = a ! i - b ! i"
  by (simp add: vec_sub_def)

lemma vec_add_sub:
  fixes a :: "'f::ab_group_add list"
  shows "length a = length b \<Longrightarrow> vec_sub (vec_add a b) b = a"
    and "length a = length b \<Longrightarrow> vec_add (vec_sub a b) b = a"
  by (auto intro: nth_equalityI)

lemma vec_add_commute:
  fixes a :: "'f::ab_semigroup_add list"
  shows "length a = length b \<Longrightarrow> vec_add (vec_add a b) c = vec_add (vec_add a c) b"
  by (auto intro!: nth_equalityI simp: ac_simps)

section \<open>Comparisons\<close>

text \<open>\<open>operator<(const std::vector<float>&, const std::vector<float>&)\<close> of the namespace.\<close>

definition vec_less :: "'f::linorder list \<Rightarrow> 'f list \<Rightarrow> bool" where
  "vec_less a b \<longleftrightarrow> list_all (\<lambda>(x, y). \<not> x \<ge> y) (zip a b)"

text \<open>\<open>std::operator<\<close>, and \<open>std::operator<=\<close> and \<open>std::operator>\<close>, which are defined by it.\<close>

fun lex_less :: "'f::linorder list \<Rightarrow> 'f list \<Rightarrow> bool" where
  "lex_less _ [] \<longleftrightarrow> False"
| "lex_less [] (y # ys) \<longleftrightarrow> True"
| "lex_less (x # xs) (y # ys) \<longleftrightarrow> x < y \<or> \<not> y < x \<and> lex_less xs ys"

definition vec_le :: "'f::linorder list \<Rightarrow> 'f list \<Rightarrow> bool" where
  "vec_le a b \<longleftrightarrow> \<not> lex_less b a"

definition vec_gt :: "'f::linorder list \<Rightarrow> 'f list \<Rightarrow> bool" where
  "vec_gt a b \<longleftrightarrow> lex_less b a"

lemma vec_less_trans: "vec_less a b \<Longrightarrow> vec_less b c \<Longrightarrow> length a = length b \<Longrightarrow> length b = length c \<Longrightarrow> vec_less a c"
  by (fastforce simp: vec_less_def list_all_length)

text \<open>With one dimension the three agree with the order on numbers.\<close>

lemma singleton_compare [simp]:
  "vec_less [x] [y] \<longleftrightarrow> x < y"
  "vec_le [x] [y] \<longleftrightarrow> x \<le> y"
  "vec_gt [x] [y] \<longleftrightarrow> x > y"
  by (auto simp: vec_less_def vec_le_def vec_gt_def)

lemma one_dimension:
  assumes "length a = 1" "length b = 1"
  shows "vec_less a b \<longleftrightarrow> a ! 0 < b ! 0" "vec_le a b \<longleftrightarrow> a ! 0 \<le> b ! 0" "vec_gt a b \<longleftrightarrow> a ! 0 > b ! 0"
proof -
  obtain x y where "a = [x]" "b = [y]"
    using assms by (auto simp: length_Suc_conv)
  then show "vec_less a b \<longleftrightarrow> a ! 0 < b ! 0" "vec_le a b \<longleftrightarrow> a ! 0 \<le> b ! 0" "vec_gt a b \<longleftrightarrow> a ! 0 > b ! 0"
    by simp_all
qed

text \<open>With more, the first dimension decides.\<close>

lemma lex_less_first: "x < y \<Longrightarrow> lex_less (x # xs) (y # ys)"
  by simp

lemma vec_le_first: "x < y \<Longrightarrow> vec_le (x # xs) (y # ys)"
  by (simp add: vec_le_def)

end
