(* ===== verification/ParHeap.thy ===== *)
theory ParHeap imports ParVector begin

text \<open>
  \<open>src/par/src/PriorityQueue.cpp\<close>: the gain bucket of a block, a binary max heap of the gains of
  moving vertices into the block, with an array that gives each vertex's place in the heap.
\<close>

section \<open>The data\<close>

text \<open>
  \<open>VertexGain\<close>, the gain of moving a vertex; \<open>path_cost_\<close> maps path ids to the change of the
  path's cost, and is kept as its entries.  \<open>lowest\<close> stands for \<open>-FLT_MAX\<close>.
\<close>

record 'f gain_cell =
  gc_vertex :: int
  gc_src :: int
  gc_dst :: int
  gc_gain :: 'f
  gc_paths :: "(nat \<times> 'f) list"

definition dummy_cell :: "'f \<Rightarrow> 'f gain_cell" where
  "dummy_cell lowest = \<lparr>gc_vertex = -1, gc_src = -1, gc_dst = -1, gc_gain = lowest, gc_paths = []\<rparr>"

text \<open>\<open>pq_wts\<close> are the vertex weights of \<open>hypergraph_\<close>.\<close>

record 'f pqueue =
  pq_active :: bool
  pq_wts :: "'f list list"
  pq_verts :: "'f gain_cell list"
  pq_map :: "int list"
  pq_total :: nat
  pq_level :: nat

definition pq_new :: "nat \<Rightarrow> nat \<Rightarrow> 'f list list \<Rightarrow> 'f pqueue" where
  "pq_new total_elements maximum_traverse_level hypergraph =
    \<lparr>pq_active = False, pq_wts = hypergraph, pq_verts = [], pq_map = replicate total_elements (-1),
     pq_total = 0, pq_level = maximum_traverse_level\<rparr>"

definition Clear :: "'f pqueue \<Rightarrow> 'f pqueue" where
  "Clear q = q\<lparr>pq_active := False, pq_verts := [], pq_total := 0,
               pq_map := replicate (length (pq_map q)) (-1)\<rparr>"

definition SetActive :: "'f pqueue \<Rightarrow> 'f pqueue" where
  "SetActive q = q\<lparr>pq_active := True\<rparr>"

definition SetDeactive :: "'f pqueue \<Rightarrow> 'f pqueue" where
  "SetDeactive q = q\<lparr>pq_active := False\<rparr>"

definition GetMax :: "'f pqueue \<Rightarrow> 'f gain_cell" where
  "GetMax q = hd (pq_verts q)"

definition CheckIfVertexExists :: "'f pqueue \<Rightarrow> nat \<Rightarrow> bool" where
  "CheckIfVertexExists q v \<longleftrightarrow> pq_map q ! v > -1"

definition Parent :: "nat \<Rightarrow> nat" where
  "Parent element = (element - 1) div 2"

definition LeftChild :: "nat \<Rightarrow> nat" where
  "LeftChild element = 2 * element + 1"

definition RightChild :: "nat \<Rightarrow> nat" where
  "RightChild element = 2 * element + 2"

section \<open>Moving elements in the heap\<close>

definition weights_of :: "'f list list \<Rightarrow> 'f gain_cell \<Rightarrow> 'f list" where
  "weights_of wts c = wts ! nat (gc_vertex c)"

definition CompareElementLargeThan :: "'f::linorder pqueue \<Rightarrow> nat \<Rightarrow> nat \<Rightarrow> bool" where
  "CompareElementLargeThan q index_a index_b =
    (let a = pq_verts q ! index_a; b = pq_verts q ! index_b
     in if gc_gain a > gc_gain b then True
        else gc_gain a = gc_gain b \<and> vec_less (weights_of (pq_wts q) a) (weights_of (pq_wts q) b))"

text \<open>Two elements trade places: first the map, then the elements.\<close>

definition exchange :: "'f pqueue \<Rightarrow> nat \<Rightarrow> nat \<Rightarrow> 'f pqueue" where
  "exchange q i j =
    (let a = pq_verts q ! i; b = pq_verts q ! j
     in q\<lparr>pq_map := (pq_map q)[nat (gc_vertex a) := int j, nat (gc_vertex b) := int i],
          pq_verts := (pq_verts q)[i := b, j := a]\<rparr>)"

function HeapifyUp :: "'f::linorder pqueue \<Rightarrow> nat \<Rightarrow> 'f pqueue" where
  "HeapifyUp q index =
    (if index > 0 \<and> CompareElementLargeThan q index (Parent index)
     then HeapifyUp (exchange q index (Parent index)) (Parent index)
     else q)"
  by auto
termination
  by (relation "measure (\<lambda>(q, i). i)") (auto simp: Parent_def)

declare HeapifyUp.simps [simp del]

lemma pq_total_exchange [simp]: "pq_total (exchange q i j) = pq_total q"
  by (simp add: exchange_def Let_def)

definition max_child :: "'f::linorder pqueue \<Rightarrow> nat \<Rightarrow> nat" where
  "max_child q index =
    (let m = if LeftChild index < pq_total q \<and> CompareElementLargeThan q (LeftChild index) index
             then LeftChild index else index
     in if RightChild index < pq_total q \<and> CompareElementLargeThan q (RightChild index) m
        then RightChild index else m)"

lemma max_child_cases:
  "max_child q i = i \<or> max_child q i = LeftChild i \<and> LeftChild i < pq_total q
    \<or> max_child q i = RightChild i \<and> RightChild i < pq_total q"
  unfolding max_child_def Let_def by (simp split: if_split)

function HeapifyDown :: "'f::linorder pqueue \<Rightarrow> nat \<Rightarrow> 'f pqueue" where
  "HeapifyDown q index =
    (let max_index = max_child q index
     in if index = max_index then q else HeapifyDown (exchange q index max_index) max_index)"
  by auto
termination
proof (relation "measure (\<lambda>(q, i). pq_total q - i)", simp)
  fix q :: "'f::linorder pqueue" and i m
  assume "m = max_child q i" "i \<noteq> m"
  then show "((exchange q i m, m), q, i) \<in> measure (\<lambda>(q, i). pq_total q - i)"
    using max_child_cases [of q i] by (auto simp: LeftChild_def RightChild_def)
qed

declare HeapifyDown.simps [simp del]

section \<open>The operations\<close>

definition InsertIntoPQ :: "'f::linorder pqueue \<Rightarrow> 'f gain_cell \<Rightarrow> 'f pqueue" where
  "InsertIntoPQ q element =
    HeapifyUp (q\<lparr>pq_total := pq_total q + 1, pq_verts := pq_verts q @ [element],
                 pq_map := (pq_map q)[nat (gc_vertex element) := int (pq_total q)]\<rparr>) (pq_total q)"

text \<open>\<open>front()\<close> of an empty vector is undefined: there is no value to model.\<close>

definition ExtractMax :: "'f::linorder pqueue \<Rightarrow> ('f gain_cell \<times> 'f pqueue) option" where
  "ExtractMax q =
    (if pq_verts q = [] then None
     else let max_element = hd (pq_verts q);
              last_element = pq_verts q ! (pq_total q - 1);
              q1 = q\<lparr>pq_verts := butlast ((pq_verts q)[0 := last_element]),
                     pq_map := (pq_map q)[nat (gc_vertex last_element) := 0],
                     pq_total := pq_total q - 1\<rparr>;
              q2 = HeapifyDown q1 0
          in Some (max_element, q2\<lparr>pq_map := (pq_map q2)[nat (gc_vertex max_element) := -1]\<rparr>))"

definition Remove :: "'f::{linorder,plus,one} pqueue \<Rightarrow> nat \<Rightarrow> 'f pqueue option" where
  "Remove q vertex_id =
    (let index = pq_map q ! vertex_id
     in if index = -1 then Some q
        else let cell = pq_verts q ! nat index;
                 q1 = q\<lparr>pq_verts := (pq_verts q)[nat index := cell\<lparr>gc_gain := gc_gain (GetMax q) + 1\<rparr>]\<rparr>
             in case ExtractMax (HeapifyUp q1 (nat index)) of
                  None \<Rightarrow> None
                | Some (_, q2) \<Rightarrow> Some (if pq_total q2 \<le> 0 then SetDeactive q2 else q2))"

definition ChangePriority :: "'f::linorder pqueue \<Rightarrow> nat \<Rightarrow> 'f gain_cell \<Rightarrow> 'f pqueue" where
  "ChangePriority q vertex_id new_element =
    (let index = pq_map q ! vertex_id
     in if index = -1 then q
        else let old_priority = gc_gain (pq_verts q ! nat index);
                 q1 = q\<lparr>pq_verts := (pq_verts q)[nat index := new_element]\<rparr>
             in if gc_gain new_element > old_priority then HeapifyUp q1 (nat index)
                else HeapifyDown q1 (nat index))"

text \<open>
  \<open>GetBestCandidate\<close>.  The balance of a move is checked with \<open><\<close> against the upper bound, which
  is componentwise, and with \<open>>\<close> against the lower bound, which is lexicographic.
\<close>

definition CheckBalance ::
    "'f::{linorder,plus,minus} list list \<Rightarrow> 'f list list \<Rightarrow> 'f list list \<Rightarrow> 'f list list \<Rightarrow> 'f gain_cell \<Rightarrow> bool" where
  "CheckBalance cur upper lower wts c =
    (let w = weights_of wts c; to_pid = nat (gc_dst c); from_pid = nat (gc_src c)
     in vec_less (vec_add (cur ! to_pid) w) (upper ! to_pid)
        \<and> vec_gt (vec_sub (cur ! from_pid) w) (lower ! from_pid))"

text \<open>One turn of the search: the candidate among the children of \<open>index\<close>, if there is one.\<close>

definition candidate_child :: "'f::linorder pqueue \<Rightarrow> ('f gain_cell \<Rightarrow> bool) \<Rightarrow> nat \<Rightarrow> nat option" where
  "candidate_child q ok index =
    (let l = LeftChild index; r = RightChild index;
         cand = (if l < pq_total q \<and> ok (pq_verts q ! l) then Some l else None)
     in if r < pq_total q \<and> ok (pq_verts q ! r)
           \<and> (case cand of None \<Rightarrow> True | Some i \<Rightarrow> CompareElementLargeThan q r i)
        then Some r else cand)"

text \<open>The traversal, with the number of passes left.\<close>

primrec traverse :: "'f::linorder pqueue \<Rightarrow> ('f gain_cell \<Rightarrow> bool) \<Rightarrow> nat \<Rightarrow> nat \<Rightarrow> nat option" where
  "traverse q ok 0 index = None"
| "traverse q ok (Suc passes) index =
    (case candidate_child q ok index of
       Some i \<Rightarrow> Some i
     | None \<Rightarrow>
         if LeftChild index \<ge> pq_total q \<or> RightChild index \<ge> pq_total q then None
         else traverse q ok passes
                (if CompareElementLargeThan q (RightChild index) (LeftChild index)
                 then RightChild index else LeftChild index))"

definition GetBestCandidate ::
    "'f::{linorder,plus,minus} pqueue \<Rightarrow> 'f \<Rightarrow> 'f list list \<Rightarrow> 'f list list \<Rightarrow> 'f list list \<Rightarrow> 'f list list \<Rightarrow> 'f gain_cell" where
  "GetBestCandidate q lowest cur upper lower wts =
    (let ok = CheckBalance cur upper lower wts
     in if pq_total q \<le> 0 then dummy_cell lowest
        else if ok (pq_verts q ! 0) then pq_verts q ! 0
        else case traverse q ok (pq_level q) 0 of
               Some i \<Rightarrow> pq_verts q ! i
             | None \<Rightarrow> dummy_cell lowest)"

section \<open>The map of places\<close>

text \<open>
  Every element's vertex is mapped to the element's place, and every vertex outside \<open>X\<close> that is
  mapped to a place is the vertex of the element there.
\<close>

definition placed :: "'f pqueue \<Rightarrow> nat set \<Rightarrow> bool" where
  "placed q X \<longleftrightarrow> pq_total q = length (pq_verts q)
    \<and> (\<forall>i < length (pq_verts q).
          0 \<le> gc_vertex (pq_verts q ! i) \<and> nat (gc_vertex (pq_verts q ! i)) < length (pq_map q)
          \<and> pq_map q ! nat (gc_vertex (pq_verts q ! i)) = int i)
    \<and> (\<forall>v < length (pq_map q). v \<notin> X \<longrightarrow> pq_map q ! v \<noteq> -1 \<longrightarrow>
          0 \<le> pq_map q ! v \<and> nat (pq_map q ! v) < length (pq_verts q)
          \<and> gc_vertex (pq_verts q ! nat (pq_map q ! v)) = int v)"

lemma placedD:
  assumes "placed q X"
  shows "pq_total q = length (pq_verts q)"
    and "i < length (pq_verts q) \<Longrightarrow> 0 \<le> gc_vertex (pq_verts q ! i)"
    and "i < length (pq_verts q) \<Longrightarrow> nat (gc_vertex (pq_verts q ! i)) < length (pq_map q)"
    and "i < length (pq_verts q) \<Longrightarrow> pq_map q ! nat (gc_vertex (pq_verts q ! i)) = int i"
    and "v < length (pq_map q) \<Longrightarrow> v \<notin> X \<Longrightarrow> pq_map q ! v \<noteq> -1 \<Longrightarrow>
          0 \<le> pq_map q ! v \<and> nat (pq_map q ! v) < length (pq_verts q)
          \<and> gc_vertex (pq_verts q ! nat (pq_map q ! v)) = int v"
  using assms unfolding placed_def by simp_all

text \<open>Elements at different places have different vertices.\<close>

lemma placed_inj:
  assumes "placed q X" "i < length (pq_verts q)" "j < length (pq_verts q)"
    and "gc_vertex (pq_verts q ! i) = gc_vertex (pq_verts q ! j)"
  shows "i = j"
  using placedD(4) [OF assms(1,2)] placedD(4) [OF assms(1,3)] assms(4) by (metis of_nat_eq_iff)

lemma exchange_simps [simp]:
  "pq_active (exchange q i j) = pq_active q"
  "pq_wts (exchange q i j) = pq_wts q"
  "pq_level (exchange q i j) = pq_level q"
  "length (pq_verts (exchange q i j)) = length (pq_verts q)"
  "length (pq_map (exchange q i j)) = length (pq_map q)"
  by (simp_all add: exchange_def Let_def)

lemma exchange_verts: "pq_verts (exchange q i j) = (pq_verts q)[i := pq_verts q ! j, j := pq_verts q ! i]"
  by (simp add: exchange_def Let_def)

lemma nth_exchange:
  assumes "i < length (pq_verts q)" "j < length (pq_verts q)" "k < length (pq_verts q)"
  shows "pq_verts (exchange q i j) ! k
    = (if k = j then pq_verts q ! i else if k = i then pq_verts q ! j else pq_verts q ! k)"
  using assms by (simp add: exchange_verts nth_list_update)

lemma set_exchange [simp]:
  assumes "i < length (pq_verts q)" "j < length (pq_verts q)"
  shows "set (pq_verts (exchange q i j)) = set (pq_verts q)"
  using assms by (simp add: exchange_verts set_swap)

lemma placed_exchange:
  assumes P: "placed q X" and i: "i < length (pq_verts q)" and j: "j < length (pq_verts q)" and "i \<noteq> j"
  shows "placed (exchange q i j) X"
proof -
  let ?V = "pq_verts q" and ?M = "pq_map q"
  let ?a = "nat (gc_vertex (?V ! i))" and ?b = "nat (gc_vertex (?V ! j))"
  have M: "pq_map (exchange q i j) = ?M[?a := int j, ?b := int i]"
    by (simp add: exchange_def Let_def)
  have vert: "gc_vertex (?V ! k) = int v \<longleftrightarrow> v = nat (gc_vertex (?V ! k))" if "k < length ?V" for k v
    using placedD(2) [OF P that] by auto
  have diff: "nat (gc_vertex (?V ! k)) = nat (gc_vertex (?V ! l)) \<longleftrightarrow> k = l"
    if "k < length ?V" "l < length ?V" for k l
    using placedD(4) [OF P that(1)] placedD(4) [OF P that(2)] by (metis of_nat_eq_iff)
  have ab: "?a < length ?M" "?b < length ?M" "?a \<noteq> ?b"
    using placedD(3) [OF P i] placedD(3) [OF P j] diff [OF i j] \<open>i \<noteq> j\<close> by auto
  show ?thesis
    unfolding placed_def
  proof (intro conjI allI impI)
    show "pq_total (exchange q i j) = length (pq_verts (exchange q i j))"
      using placedD(1) [OF P] by simp
  next
    fix k assume k: "k < length (pq_verts (exchange q i j))"
    then have k: "k < length ?V" by simp
    show "0 \<le> gc_vertex (pq_verts (exchange q i j) ! k)"
      using i j k placedD(2) [OF P] by (simp add: nth_exchange)
    show "nat (gc_vertex (pq_verts (exchange q i j) ! k)) < length (pq_map (exchange q i j))"
      using i j k placedD(3) [OF P] by (simp add: nth_exchange)
    show "pq_map (exchange q i j) ! nat (gc_vertex (pq_verts (exchange q i j) ! k)) = int k"
      using i j k ab placedD(4) [OF P] diff \<open>i \<noteq> j\<close> by (auto simp: nth_exchange M nth_list_update)
  next
    fix v assume v: "v < length (pq_map (exchange q i j))" "v \<notin> X" "pq_map (exchange q i j) ! v \<noteq> -1"
    have "0 \<le> pq_map (exchange q i j) ! v \<and> nat (pq_map (exchange q i j) ! v) < length ?V
        \<and> gc_vertex (pq_verts (exchange q i j) ! nat (pq_map (exchange q i j) ! v)) = int v"
    proof (cases "v = ?a \<or> v = ?b")
      case True
      then show ?thesis
        using i j ab \<open>i \<noteq> j\<close> placedD(2) [OF P i] placedD(2) [OF P j]
        by (auto simp: M nth_list_update nth_exchange)
    next
      case False
      then have m: "pq_map (exchange q i j) ! v = ?M ! v" by (simp add: M nth_list_update)
      have v': "0 \<le> ?M ! v" "nat (?M ! v) < length ?V" "gc_vertex (?V ! nat (?M ! v)) = int v"
        using placedD(5) [OF P, of v] v m by auto
      then have "nat (?M ! v) \<noteq> i" "nat (?M ! v) \<noteq> j"
        using False vert [OF i] vert [OF j] by auto
      then show ?thesis using v' i j by (simp add: m nth_exchange)
    qed
    then show "0 \<le> pq_map (exchange q i j) ! v"
      "nat (pq_map (exchange q i j) ! v) < length (pq_verts (exchange q i j))"
      "gc_vertex (pq_verts (exchange q i j) ! nat (pq_map (exchange q i j) ! v)) = int v"
      by simp_all
  qed
qed

text \<open>What a bucket holds: the cell of each vertex.\<close>

definition pq_look :: "'f pqueue \<Rightarrow> nat \<Rightarrow> 'f gain_cell option" where
  "pq_look q v = (if v < length (pq_map q) \<and> CheckIfVertexExists q v
                  then Some (pq_verts q ! nat (pq_map q ! v)) else None)"

lemma pq_look_iff:
  assumes "placed q {}"
  shows "pq_look q v = Some c \<longleftrightarrow> c \<in> set (pq_verts q) \<and> gc_vertex c = int v"
proof
  assume "pq_look q v = Some c"
  then have v: "v < length (pq_map q)" "pq_map q ! v > -1" "c = pq_verts q ! nat (pq_map q ! v)"
    by (auto simp: pq_look_def CheckIfVertexExists_def split: if_splits)
  then show "c \<in> set (pq_verts q) \<and> gc_vertex c = int v"
    using placedD(5) [OF assms v(1)] by auto
next
  assume "c \<in> set (pq_verts q) \<and> gc_vertex c = int v"
  then obtain i where "i < length (pq_verts q)" "pq_verts q ! i = c" "gc_vertex c = int v"
    by (auto simp: in_set_conv_nth)
  then show "pq_look q v = Some c"
    using placedD(3,4) [OF assms, of i] by (auto simp: pq_look_def CheckIfVertexExists_def)
qed

lemma pq_look_cong:
  assumes "placed q {}" "placed q' {}" "set (pq_verts q') = set (pq_verts q)"
  shows "pq_look q' v = pq_look q v"
proof -
  have "pq_look q' v = Some c \<longleftrightarrow> pq_look q v = Some c" for c
    using assms by (simp add: pq_look_iff)
  then show ?thesis by (metis option.exhaust)
qed

text \<open>What moving elements keeps, whatever the order.\<close>

definition same_cells :: "'f pqueue \<Rightarrow> 'f pqueue \<Rightarrow> bool" where
  "same_cells q q' \<longleftrightarrow> set (pq_verts q') = set (pq_verts q) \<and> length (pq_verts q') = length (pq_verts q)
    \<and> length (pq_map q') = length (pq_map q) \<and> pq_active q' = pq_active q \<and> pq_wts q' = pq_wts q
    \<and> pq_level q' = pq_level q"

lemma same_cells_refl [simp]: "same_cells q q"
  by (simp add: same_cells_def)

lemma same_cells_trans: "same_cells q q' \<Longrightarrow> same_cells q' q'' \<Longrightarrow> same_cells q q''"
  by (simp add: same_cells_def)

lemma same_cells_exchange:
  "i < length (pq_verts q) \<Longrightarrow> j < length (pq_verts q) \<Longrightarrow> same_cells q (exchange q i j)"
  by (simp add: same_cells_def)

lemma HeapifyUp_keeps:
  assumes "placed q X" "i < length (pq_verts q)"
  shows "placed (HeapifyUp q i) X \<and> same_cells q (HeapifyUp q i)"
  using assms
proof (induction q i rule: HeapifyUp.induct)
  case (1 q i)
  show ?case
  proof (cases "i > 0 \<and> CompareElementLargeThan q i (Parent i)")
    case True
    then have p: "Parent i < length (pq_verts q)" "Parent i \<noteq> i"
      using 1(3) by (auto simp: Parent_def)
    have "placed (HeapifyUp (exchange q i (Parent i)) (Parent i)) X
        \<and> same_cells (exchange q i (Parent i)) (HeapifyUp (exchange q i (Parent i)) (Parent i))"
      using 1(1) [OF True] placed_exchange [OF 1(2,3) p(1)] p by simp
    then show ?thesis
      using True same_cells_exchange [OF 1(3) p(1)]
      by (subst (1 2) HeapifyUp.simps) (auto intro: same_cells_trans)
  next
    case False
    then show ?thesis using 1(2) by (subst (1 2) HeapifyUp.simps) auto
  qed
qed

lemma HeapifyDown_keeps:
  assumes "placed q X" "i < length (pq_verts q) \<or> pq_verts q = [] \<and> i = 0"
  shows "placed (HeapifyDown q i) X \<and> same_cells q (HeapifyDown q i)"
  using assms
proof (induction q i rule: HeapifyDown.induct)
  case (1 q i)
  let ?m = "max_child q i"
  show ?case
  proof (cases "i = ?m")
    case False
    then have m: "?m < length (pq_verts q)" "i < length (pq_verts q)"
      using 1(3) placedD(1) [OF 1(2)] max_child_cases [of q i] False by auto
    have "placed (HeapifyDown (exchange q i ?m) ?m) X
        \<and> same_cells (exchange q i ?m) (HeapifyDown (exchange q i ?m) ?m)"
      using 1(1) [OF refl False] placed_exchange [OF 1(2) m(2,1) False] m by simp
    then show ?thesis
      using False same_cells_exchange [OF m(2,1)]
      by (subst (1 2) HeapifyDown.simps) (auto simp: Let_def intro: same_cells_trans)
  next
    case True
    then show ?thesis using 1(2) by (subst (1 2) HeapifyDown.simps) (auto simp: Let_def)
  qed
qed

section \<open>The order of the gains\<close>

text \<open>
  The comparison refines the order of the gains, and its second part, on weights, is only a partial
  order when there are several dimensions: it is the gains that the heap keeps ordered.
\<close>

definition gain_at :: "'f pqueue \<Rightarrow> nat \<Rightarrow> 'f" where
  "gain_at q i = gc_gain (pq_verts q ! i)"

definition heap_order :: "'f::linorder pqueue \<Rightarrow> bool" where
  "heap_order q \<longleftrightarrow> (\<forall>j < length (pq_verts q). 0 < j \<longrightarrow> gain_at q j \<le> gain_at q (Parent j))"

text \<open>In order but for an element that may be larger than its parent, or smaller than a child.\<close>

definition around :: "'f::linorder pqueue \<Rightarrow> nat \<Rightarrow> bool" where
  "around q i \<longleftrightarrow> (\<forall>j < length (pq_verts q). 0 < j \<longrightarrow> 0 < i \<longrightarrow> Parent j = i \<longrightarrow> gain_at q j \<le> gain_at q (Parent i))"

definition order_but_up :: "'f::linorder pqueue \<Rightarrow> nat \<Rightarrow> bool" where
  "order_but_up q i \<longleftrightarrow> around q i
    \<and> (\<forall>j < length (pq_verts q). 0 < j \<longrightarrow> j \<noteq> i \<longrightarrow> gain_at q j \<le> gain_at q (Parent j))"

definition order_but_down :: "'f::linorder pqueue \<Rightarrow> nat \<Rightarrow> bool" where
  "order_but_down q i \<longleftrightarrow> around q i
    \<and> (\<forall>j < length (pq_verts q). 0 < j \<longrightarrow> Parent j \<noteq> i \<longrightarrow> gain_at q j \<le> gain_at q (Parent j))"

lemma heap_orderD: "heap_order q \<Longrightarrow> j < length (pq_verts q) \<Longrightarrow> 0 < j \<Longrightarrow> gain_at q j \<le> gain_at q (Parent j)"
  by (simp add: heap_order_def)

lemma larger_gain:
  "CompareElementLargeThan q a b \<Longrightarrow> gain_at q b \<le> gain_at q a"
  "\<not> CompareElementLargeThan q a b \<Longrightarrow> gain_at q a \<le> gain_at q b"
  by (auto simp: CompareElementLargeThan_def gain_at_def Let_def split: if_splits)

lemma gain_at_exchange:
  assumes "i < length (pq_verts q)" "j < length (pq_verts q)" "k < length (pq_verts q)"
  shows "gain_at (exchange q i j) k = (if k = j then gain_at q i else if k = i then gain_at q j else gain_at q k)"
  using assms by (simp add: gain_at_def nth_exchange)

lemma Parent_child: "0 < j \<Longrightarrow> Parent j = i \<longleftrightarrow> j = LeftChild i \<or> j = RightChild i"
  by (auto simp: Parent_def LeftChild_def RightChild_def)

lemma Parent_less: "0 < j \<Longrightarrow> Parent j < j"
  by (auto simp: Parent_def)

lemma up_step:
  assumes B: "order_but_up q i" and i: "i < length (pq_verts q)" "0 < i"
    and g: "gain_at q (Parent i) \<le> gain_at q i"
  shows "order_but_up (exchange q i (Parent i)) (Parent i)"
proof -
  let ?n = "length (pq_verts q)" and ?p = "Parent i" and ?g = "gain_at q"
  have p: "?p < ?n" "?p \<noteq> i" using i Parent_less [OF i(2)] by auto
  have up: "?g j \<le> ?g (Parent j)" if "j < ?n" "0 < j" "j \<noteq> i" for j
    using B that by (simp add: order_but_up_def)
  have below: "?g j \<le> ?g ?p" if "j < ?n" "0 < j" "Parent j = i" for j
    using B that i by (simp add: order_but_up_def around_def)
  have pj: "Parent j < ?n" if "j < ?n" "0 < j" for j
    using that Parent_less [of j] by simp
  have G: "gain_at (exchange q i ?p) k = (if k = ?p then ?g i else if k = i then ?g ?p else ?g k)" if "k < ?n" for k
    using gain_at_exchange [OF i(1) p(1) that] .
  have 1: "gain_at (exchange q i ?p) j \<le> gain_at (exchange q i ?p) (Parent j)" if "j < ?n" "0 < j" "j \<noteq> ?p" for j
    using that up [of j] below [of j] g p pj [OF that(1,2)] by (auto simp: G)
  have 2: "gain_at (exchange q i ?p) j \<le> gain_at (exchange q i ?p) (Parent ?p)"
    if "j < ?n" "0 < j" "0 < ?p" "Parent j = ?p" for j
    using that up [of j] up [OF p(1) that(3) p(2)] p pj [OF p(1) that(3)] Parent_less [OF that(3)]
      Parent_less [OF that(2)] Parent_less [OF i(2)]
    by (auto simp: G)
  show ?thesis using 1 2 by (simp add: order_but_up_def around_def)
qed

lemma HeapifyUp_order:
  assumes "order_but_up q i" "i < length (pq_verts q)"
  shows "heap_order (HeapifyUp q i)"
  using assms
proof (induction q i rule: HeapifyUp.induct)
  case (1 q i)
  show ?case
  proof (cases "i > 0 \<and> CompareElementLargeThan q i (Parent i)")
    case True
    then have "order_but_up (exchange q i (Parent i)) (Parent i)"
      using up_step [OF 1(2,3)] larger_gain(1) by blast
    moreover have "Parent i < length (pq_verts q)"
      using True 1(3) Parent_less [of i] by simp
    ultimately show ?thesis
      using 1(1) [OF True] True by (subst HeapifyUp.simps) simp
  next
    case False
    then have "i = 0 \<or> gain_at q i \<le> gain_at q (Parent i)"
      by (auto intro: larger_gain(2))
    then have "heap_order q"
      using 1(2) by (auto simp: order_but_up_def heap_order_def)
    then show ?thesis using False by (subst HeapifyUp.simps) auto
  qed
qed

lemma max_child_gain:
  assumes "pq_total q = length (pq_verts q)"
  shows "gain_at q i \<le> gain_at q (max_child q i)"
    and "j < length (pq_verts q) \<Longrightarrow> 0 < j \<Longrightarrow> Parent j = i \<Longrightarrow> gain_at q j \<le> gain_at q (max_child q i)"
    and "max_child q i \<noteq> i \<Longrightarrow> 0 < max_child q i \<and> Parent (max_child q i) = i \<and> max_child q i < length (pq_verts q)"
proof -
  let ?l = "LeftChild i" and ?r = "RightChild i"
  let ?m = "if ?l < pq_total q \<and> CompareElementLargeThan q ?l i then ?l else i"
  have m: "gain_at q i \<le> gain_at q ?m" "?l < pq_total q \<Longrightarrow> gain_at q ?l \<le> gain_at q ?m"
    using larger_gain by auto
  have r: "gain_at q ?m \<le> gain_at q (max_child q i)" "?r < pq_total q \<Longrightarrow> gain_at q ?r \<le> gain_at q (max_child q i)"
    using larger_gain [of q ?r ?m] unfolding max_child_def Let_def by auto
  show "gain_at q i \<le> gain_at q (max_child q i)"
    using m r by (rule_tac order_trans)
  show "gain_at q j \<le> gain_at q (max_child q i)" if "j < length (pq_verts q)" "0 < j" "Parent j = i"
    using that m r assms Parent_child [OF that(2), of i] by (auto intro: order_trans)
  show "0 < max_child q i \<and> Parent (max_child q i) = i \<and> max_child q i < length (pq_verts q)" if "max_child q i \<noteq> i"
    using that max_child_cases [of q i] assms by (auto simp: Parent_def LeftChild_def RightChild_def)
qed

lemma down_step:
  assumes B: "order_but_down q i" and i: "i < length (pq_verts q)" and T: "pq_total q = length (pq_verts q)"
    and m: "max_child q i \<noteq> i"
  shows "order_but_down (exchange q i (max_child q i)) (max_child q i)"
proof -
  let ?n = "length (pq_verts q)" and ?m = "max_child q i" and ?g = "gain_at q"
  note M = max_child_gain [OF T, of i]
  have kids: "?g j \<le> ?g ?m" if "j < ?n" "0 < j" "Parent j = i" for j
    using max_child_gain(2) [OF T that] .
  have m': "?m < ?n" "0 < ?m" "Parent ?m = i" using M(3) [OF m] by auto
  have up: "?g j \<le> ?g (Parent j)" if "j < ?n" "0 < j" "Parent j \<noteq> i" for j
    using B that by (simp add: order_but_down_def)
  have below: "?g ?m \<le> ?g (Parent i)" if "0 < i"
    using B that m' by (simp add: order_but_down_def around_def)
  have pj: "Parent j < j" "Parent j < ?n" if "j < ?n" "0 < j" for j
    using that Parent_less [of j] by simp_all
  have G: "gain_at (exchange q i ?m) k = (if k = ?m then ?g i else if k = i then ?g ?m else ?g k)" if "k < ?n" for k
    using gain_at_exchange [OF i m'(1) that] .
  have 1: "gain_at (exchange q i ?m) j \<le> gain_at (exchange q i ?m) (Parent j)"
    if "j < ?n" "0 < j" "Parent j \<noteq> ?m" for j
  proof (cases "j = i")
    case True
    then show ?thesis using that below pj [OF that(1,2)] m by (simp add: G)
  next
    case False
    then show ?thesis
      using that up [of j] M(1) kids [OF that(1,2)] m pj [OF that(1,2)] by (auto simp: G i m')
  qed
  have 2: "gain_at (exchange q i ?m) j \<le> gain_at (exchange q i ?m) (Parent ?m)"
    if "j < ?n" "0 < j" "Parent j = ?m" for j
  proof -
    have "j \<noteq> ?m" "j \<noteq> i" using pj [OF that(1,2)] pj(1) [OF m'(1,2)] that(3) m'(3) by auto
    then show ?thesis using that up [of j] m i m' by (simp add: G)
  qed
  show ?thesis using 1 2 by (simp add: order_but_down_def around_def)
qed

lemma HeapifyDown_order:
  assumes "order_but_down q i" "i < length (pq_verts q)" "pq_total q = length (pq_verts q)"
  shows "heap_order (HeapifyDown q i)"
  using assms
proof (induction q i rule: HeapifyDown.induct)
  case (1 q i)
  show ?case
  proof (cases "i = max_child q i")
    case False
    then have m: "max_child q i \<noteq> i" by simp
    show ?thesis
      using 1(1) [OF refl False] down_step [OF 1(2,3,4) m] max_child_gain(3) [OF 1(4) m] 1(4) False
      by (subst HeapifyDown.simps) (simp add: Let_def)
  next
    case True
    then have "heap_order q"
      using 1(2) max_child_gain(2) [OF 1(4)] by (metis heap_order_def order_but_down_def)
    then show ?thesis using True by (subst HeapifyDown.simps) (simp add: Let_def)
  qed
qed

lemma top_largest:
  assumes "heap_order q" "i < length (pq_verts q)"
  shows "gain_at q i \<le> gain_at q 0"
  using assms(2)
proof (induction i rule: less_induct)
  case (less i)
  show ?case
  proof (cases "i = 0")
    case False
    then have "gain_at q i \<le> gain_at q (Parent i)" "Parent i < i"
      using heap_orderD [OF assms(1) less(2)] Parent_less by auto
    then show ?thesis using less by (meson order_trans less_trans)
  qed simp
qed

section \<open>What the operations do\<close>

definition heap_ok :: "'f::linorder pqueue \<Rightarrow> bool" where
  "heap_ok q \<longleftrightarrow> placed q {} \<and> heap_order q"

text \<open>The fields that moving elements and changing the contents leave alone.\<close>

definition same_frame :: "'f pqueue \<Rightarrow> 'f pqueue \<Rightarrow> bool" where
  "same_frame q q' \<longleftrightarrow> length (pq_map q') = length (pq_map q) \<and> pq_wts q' = pq_wts q \<and> pq_level q' = pq_level q"

lemma same_cells_frame: "same_cells q q' \<Longrightarrow> same_frame q q' \<and> pq_active q' = pq_active q"
  by (simp add: same_cells_def same_frame_def)

lemma look_after:
  assumes "placed q {}" "placed q' {}"
    and "set (pq_verts q') = set (pq_verts q)"
  shows "pq_look q' = pq_look q"
  using pq_look_cong [OF assms] by blast

lemma heap_ok_total: "heap_ok q \<Longrightarrow> pq_total q = length (pq_verts q)"
  by (simp add: heap_ok_def placed_def)

lemma pq_look_None:
  assumes "placed q {}" "pq_look q v = None" "v < length (pq_map q)"
  shows "pq_map q ! v = -1"
  using assms(2,3) placedD(5) [OF assms(1) assms(3)]
  by (auto simp: pq_look_def CheckIfVertexExists_def split: if_splits)

lemma insert_books:
  assumes P: "placed q {}" and c: "0 \<le> gc_vertex c" "nat (gc_vertex c) < length (pq_map q)"
    and new: "pq_look q (nat (gc_vertex c)) = None"
  defines "q1 \<equiv> q\<lparr>pq_total := pq_total q + 1, pq_verts := pq_verts q @ [c],
                   pq_map := (pq_map q)[nat (gc_vertex c) := int (pq_total q)]\<rparr>"
  shows "placed q1 {}"
proof -
  let ?v = "nat (gc_vertex c)" and ?n = "length (pq_verts q)"
  note D = placedD [OF P]
  have free: "pq_map q ! ?v = -1" by (rule pq_look_None [OF P new c(2)])
  have F: "pq_verts q1 = pq_verts q @ [c]" "pq_map q1 = (pq_map q)[?v := int ?n]" "pq_total q1 = ?n + 1"
    using D(1) by (simp_all add: q1_def)
  show ?thesis
    unfolding placed_def F
  proof (intro conjI allI impI)
    show "?n + 1 = length (pq_verts q @ [c])" by simp
  next
    fix i assume "i < length (pq_verts q @ [c])"
    then have i: "i < ?n \<or> i = ?n" by auto
    have other: "nat (gc_vertex (pq_verts q ! i)) \<noteq> ?v" if "i < ?n"
      using D(4) [OF that] free by auto
    show "0 \<le> gc_vertex ((pq_verts q @ [c]) ! i)"
      using i c D(2) by (auto simp: nth_append)
    show "nat (gc_vertex ((pq_verts q @ [c]) ! i)) < length ((pq_map q)[?v := int ?n])"
      using i c D(3) by (auto simp: nth_append)
    show "(pq_map q)[?v := int ?n] ! nat (gc_vertex ((pq_verts q @ [c]) ! i)) = int i"
      using i c other D(4) by (auto simp: nth_append nth_list_update)
  next
    fix v assume v: "v < length ((pq_map q)[?v := int ?n])" "(pq_map q)[?v := int ?n] ! v \<noteq> -1"
    have "0 \<le> (pq_map q)[?v := int ?n] ! v \<and> nat ((pq_map q)[?v := int ?n] ! v) < ?n + 1
        \<and> gc_vertex ((pq_verts q @ [c]) ! nat ((pq_map q)[?v := int ?n] ! v)) = int v"
      using v c D(5) [of v] by (cases "v = ?v") (auto simp: nth_append)
    then show "0 \<le> (pq_map q)[?v := int ?n] ! v"
      "nat ((pq_map q)[?v := int ?n] ! v) < length (pq_verts q @ [c])"
      "gc_vertex ((pq_verts q @ [c]) ! nat ((pq_map q)[?v := int ?n] ! v)) = int v" by auto
  qed
qed

lemma InsertIntoPQ_ok:
  assumes ok: "heap_ok q" and c: "0 \<le> gc_vertex c" "nat (gc_vertex c) < length (pq_map q)"
    and new: "pq_look q (nat (gc_vertex c)) = None"
  shows "heap_ok (InsertIntoPQ q c) \<and> pq_look (InsertIntoPQ q c) = (pq_look q)(nat (gc_vertex c) \<mapsto> c)
    \<and> same_frame q (InsertIntoPQ q c) \<and> pq_active (InsertIntoPQ q c) = pq_active q"
proof -
  define q1 where "q1 = q\<lparr>pq_total := pq_total q + 1, pq_verts := pq_verts q @ [c],
                          pq_map := (pq_map q)[nat (gc_vertex c) := int (pq_total q)]\<rparr>"
  have P: "placed q {}" and H: "heap_order q" using ok by (simp_all add: heap_ok_def)
  have n: "pq_total q = length (pq_verts q)" by (rule placedD(1) [OF P])
  have P1: "placed q1 {}"
    unfolding q1_def by (rule insert_books [OF P c new])
  have len: "length (pq_verts q1) = Suc (pq_total q)" by (simp add: q1_def n)
  have par: "Parent j < pq_total q" if "j < length (pq_verts q1)" "0 < j" for j
    using that Parent_less [of j] len by simp
  have old: "gain_at q1 j = gain_at q j" if "j < pq_total q" for j
    using that by (simp add: gain_at_def q1_def nth_append n)
  have "gain_at q1 j \<le> gain_at q1 (Parent j)" if "j < length (pq_verts q1)" "0 < j" "j \<noteq> pq_total q" for j
    using that par [OF that(1,2)] len heap_orderD [OF H, of j] n by (simp add: old)
  moreover have "Parent j \<noteq> pq_total q" if "j < length (pq_verts q1)" "0 < j" for j
    using par [OF that] by simp
  ultimately have "order_but_up q1 (pq_total q)"
    unfolding order_but_up_def around_def by blast
  then have H2: "heap_order (HeapifyUp q1 (pq_total q))"
    by (rule HeapifyUp_order) (simp add: len)
  have K: "placed (HeapifyUp q1 (pq_total q)) {}" "same_cells q1 (HeapifyUp q1 (pq_total q))"
    using HeapifyUp_keeps [OF P1, of "pq_total q"] len by simp_all
  have I: "InsertIntoPQ q c = HeapifyUp q1 (pq_total q)"
    by (simp add: InsertIntoPQ_def q1_def)
  have "pq_look (InsertIntoPQ q c) v = ((pq_look q)(nat (gc_vertex c) \<mapsto> c)) v" for v
  proof -
    have iff: "pq_look (InsertIntoPQ q c) v = Some d \<longleftrightarrow> (d \<in> set (pq_verts q) \<or> d = c) \<and> gc_vertex d = int v" for d
      using pq_look_iff [OF K(1)] K(2) by (auto simp: I same_cells_def q1_def)
    show ?thesis
    proof (cases "v = nat (gc_vertex c)")
      case True
      then show ?thesis using iff [of c] c by simp
    next
      case False
      then have "pq_look (InsertIntoPQ q c) v = Some d \<longleftrightarrow> pq_look q v = Some d" for d
        using iff [of d] pq_look_iff [OF P, of v d] by auto
      then show ?thesis using False by (metis fun_upd_other option.exhaust)
    qed
  qed
  then show ?thesis
    using H2 K same_cells_frame [OF K(2)]
    by (auto simp: heap_ok_def I same_frame_def q1_def)
qed

text \<open>Taking the largest out.\<close>

lemma extract_books:
  assumes P: "placed q {}" and ne: "pq_verts q \<noteq> []"
  defines "last_element \<equiv> pq_verts q ! (pq_total q - 1)"
  defines "q1 \<equiv> q\<lparr>pq_verts := butlast ((pq_verts q)[0 := last_element]),
                   pq_map := (pq_map q)[nat (gc_vertex last_element) := 0],
                   pq_total := pq_total q - 1\<rparr>"
  shows "placed q1 {nat (gc_vertex (hd (pq_verts q)))}"
    and "set (pq_verts q1) = set (pq_verts q) - {hd (pq_verts q)}"
proof -
  let ?V = "pq_verts q" and ?n = "length (pq_verts q)" and ?M = "pq_map q"
  let ?l = "nat (gc_vertex last_element)" and ?h = "nat (gc_vertex (hd ?V))"
  note D = placedD [OF P]
  have n: "0 < ?n" "pq_total q = ?n" using ne D(1) by auto
  have hd: "hd ?V = ?V ! 0" using ne by (simp add: hd_conv_nth)
  have last: "last_element = ?V ! (?n - 1)" by (simp add: last_element_def n)
  have diff: "nat (gc_vertex (?V ! i)) = nat (gc_vertex (?V ! j)) \<longleftrightarrow> i = j" if "i < ?n" "j < ?n" for i j
    using D(4) [OF that(1)] D(4) [OF that(2)] by (metis of_nat_eq_iff)
  have F: "length (pq_verts q1) = ?n - 1" "pq_map q1 = ?M[?l := 0]" "pq_total q1 = ?n - 1"
    by (simp_all add: q1_def n)
  have V1: "pq_verts q1 ! i = (if i = 0 then ?V ! (?n - 1) else ?V ! i)" if "i < ?n - 1" for i
    using that n by (simp add: q1_def nth_butlast last nth_list_update)
  show "placed q1 {?h}"
    unfolding placed_def F
  proof (intro conjI allI impI)
    show "?n - 1 = ?n - 1" ..
  next
    fix i assume i: "i < ?n - 1"
    show "0 \<le> gc_vertex (pq_verts q1 ! i)" using i D(2) by (simp add: V1)
    show "nat (gc_vertex (pq_verts q1 ! i)) < length (?M[?l := 0])" using i D(3) by (simp add: V1)
    have i': "i < ?n" "?n - 1 < ?n" "i \<noteq> ?n - 1" using i n by auto
    then have "nat (gc_vertex (?V ! i)) \<noteq> ?l" using diff [OF i'(1,2)] by (simp add: last)
    then show "?M[?l := 0] ! nat (gc_vertex (pq_verts q1 ! i)) = int i"
      using i D(3) [OF i'(2)] D(4) [OF i'(1)] by (cases "i = 0") (simp_all add: V1 last)
  next
    fix v assume v: "v < length (?M[?l := 0])" "v \<notin> {?h}" "?M[?l := 0] ! v \<noteq> -1"
    have "0 \<le> ?M[?l := 0] ! v \<and> nat (?M[?l := 0] ! v) < ?n - 1
        \<and> gc_vertex (pq_verts q1 ! nat (?M[?l := 0] ! v)) = int v"
    proof (cases "v = ?l")
      case True
      then have "?n - 1 \<noteq> 0" using v hd last by auto
      then show ?thesis using True v D(2) [of "?n - 1"] n by (simp add: V1 last)
    next
      case False
      then have m: "?M[?l := 0] ! v = ?M ! v" by simp
      have v': "0 \<le> ?M ! v" "nat (?M ! v) < ?n" "gc_vertex (?V ! nat (?M ! v)) = int v"
        using D(5) [of v] v m by auto
      then have "nat (?M ! v) \<noteq> ?n - 1" "nat (?M ! v) \<noteq> 0"
        using False v(2) hd last by auto
      then show ?thesis using v' n by (simp add: m V1)
    qed
    then show "0 \<le> ?M[?l := 0] ! v" "nat (?M[?l := 0] ! v) < ?n - 1"
      "gc_vertex (pq_verts q1 ! nat (?M[?l := 0] ! v)) = int v" by simp_all
  qed
  have "c \<in> set (pq_verts q1) \<longleftrightarrow> (\<exists>i. 0 < i \<and> i < ?n \<and> ?V ! i = c)" for c
  proof -
    have "c \<in> set (pq_verts q1) \<longleftrightarrow> (\<exists>i < ?n - 1. (if i = 0 then ?V ! (?n - 1) else ?V ! i) = c)"
      unfolding in_set_conv_nth F(1) by (intro ex_cong1 conj_cong refl) (simp add: V1)
    also have "\<dots> \<longleftrightarrow> (\<exists>i. 0 < i \<and> i < ?n \<and> ?V ! i = c)"
    proof
      assume "\<exists>i < ?n - 1. (if i = 0 then ?V ! (?n - 1) else ?V ! i) = c"
      then obtain i where "i < ?n - 1" "(if i = 0 then ?V ! (?n - 1) else ?V ! i) = c" by blast
      then show "\<exists>i. 0 < i \<and> i < ?n \<and> ?V ! i = c"
        by (intro exI [of _ "if i = 0 then ?n - 1 else i"]) auto
    next
      assume "\<exists>i. 0 < i \<and> i < ?n \<and> ?V ! i = c"
      then obtain i where "0 < i" "i < ?n" "?V ! i = c" by blast
      then show "\<exists>i < ?n - 1. (if i = 0 then ?V ! (?n - 1) else ?V ! i) = c"
        by (intro exI [of _ "if i = ?n - 1 then 0 else i"]) auto
    qed
    finally show ?thesis .
  qed
  moreover have "c \<in> set ?V - {hd ?V} \<longleftrightarrow> (\<exists>i. 0 < i \<and> i < ?n \<and> ?V ! i = c)" for c
  proof -
    have "?V ! i \<noteq> ?V ! 0" if "0 < i" "i < ?n" for i
      using diff [OF that(2) n(1)] that by auto
    then show ?thesis by (auto simp: in_set_conv_nth hd) (metis gr0I)
  qed
  ultimately show "set (pq_verts q1) = set ?V - {hd ?V}" by blast
qed

text \<open>Striking a vertex without element off the map closes the books.\<close>

lemma placed_strike:
  assumes P: "placed q {v}" and out: "\<forall>c \<in> set (pq_verts q). gc_vertex c \<noteq> int v"
  shows "placed (q\<lparr>pq_map := (pq_map q)[v := -1]\<rparr>) {}"
proof -
  have ne: "v \<noteq> nat (gc_vertex (pq_verts q ! i))" if "i < length (pq_verts q)" for i
    using out placedD(2) [OF P that] nth_mem [OF that] by (metis nat_eq_iff2)
  have "0 \<le> (pq_map q)[v := -1] ! u \<and> nat ((pq_map q)[v := -1] ! u) < length (pq_verts q)
      \<and> gc_vertex (pq_verts q ! nat ((pq_map q)[v := -1] ! u)) = int u"
    if "u < length (pq_map q)" "(pq_map q)[v := -1] ! u \<noteq> -1" for u
    using that placedD(5) [OF P, of u] by (cases "u = v") auto
  then show ?thesis
    using placedD(1-4) [OF P] ne by (simp add: placed_def)
qed

text \<open>The largest comes out, and the rest stays.\<close>

lemma ExtractMax_ok:
  assumes ok: "heap_ok q" and ne: "pq_verts q \<noteq> []"
  obtains q' where "ExtractMax q = Some (hd (pq_verts q), q')" "heap_ok q'"
    "pq_look q' = (pq_look q)(nat (gc_vertex (hd (pq_verts q))) := None)"
    "pq_look q (nat (gc_vertex (hd (pq_verts q)))) = Some (hd (pq_verts q))"
    "same_frame q q'" "pq_active q' = pq_active q" "length (pq_verts q) = Suc (length (pq_verts q'))"
proof -
  have P: "placed q {}" and H: "heap_order q" using ok by (simp_all add: heap_ok_def)
  let ?h = "hd (pq_verts q)" and ?n = "length (pq_verts q)"
  let ?v = "nat (gc_vertex ?h)"
  define l where "l = pq_verts q ! (pq_total q - 1)"
  define q1 where "q1 = q\<lparr>pq_verts := butlast ((pq_verts q)[0 := l]),
                          pq_map := (pq_map q)[nat (gc_vertex l) := 0], pq_total := pq_total q - 1\<rparr>"
  define q2 where "q2 = HeapifyDown q1 0"
  define q' where "q' = q2\<lparr>pq_map := (pq_map q2)[?v := -1]\<rparr>"
  note D = placedD [OF P]
  have n: "0 < ?n" "pq_total q = ?n" using ne D(1) by auto
  have hd: "?h = pq_verts q ! 0" using ne by (simp add: hd_conv_nth)
  have v: "gc_vertex ?h = int ?v" using D(2) [OF n(1)] hd by simp
  have E: "ExtractMax q = Some (?h, q')"
    using ne by (simp add: ExtractMax_def Let_def q'_def q2_def q1_def l_def)
  have P1: "placed q1 {?v}" "set (pq_verts q1) = set (pq_verts q) - {?h}"
    using extract_books [OF P ne] by (simp_all add: q1_def l_def)
  have len: "length (pq_verts q1) = ?n - 1" by (simp add: q1_def)
  have dn: "0 < length (pq_verts q1) \<or> pq_verts q1 = [] \<and> (0::nat) = 0" by auto
  have K: "placed q2 {?v}" "same_cells q1 q2"
    using HeapifyDown_keeps [OF P1(1) dn] by (simp_all add: q2_def)
  have H2: "heap_order q2"
  proof (cases "pq_verts q1 = []")
    case True
    then show ?thesis using K(2) by (simp add: heap_order_def same_cells_def)
  next
    case False
    have g: "gain_at q1 j = gain_at q j" if "j < ?n - 1" "j \<noteq> 0" for j
      using that n by (simp add: gain_at_def q1_def nth_butlast)
    have "gain_at q1 j \<le> gain_at q1 (Parent j)" if "j < length (pq_verts q1)" "0 < j" "Parent j \<noteq> 0" for j
      using that len heap_orderD [OF H, of j] Parent_less [OF that(2)] by (simp add: g)
    then have "order_but_down q1 0" by (simp add: order_but_down_def around_def)
    then show ?thesis
      using HeapifyDown_order False placedD(1) [OF P1(1)] by (auto simp: q2_def)
  qed
  have rest: "set (pq_verts q2) = set (pq_verts q) - {?h}" using K(2) P1(2) by (simp add: same_cells_def)
  have uniq: "c = ?h" if "c \<in> set (pq_verts q)" "gc_vertex c = gc_vertex ?h" for c
    using that placed_inj [OF P] n(1) hd by (metis in_set_conv_nth)
  have P': "placed q' {}"
    using placed_strike [OF K(1)] rest uniq v unfolding q'_def by auto
  have look: "pq_look q' u = Some c \<longleftrightarrow> c \<in> set (pq_verts q) \<and> c \<noteq> ?h \<and> gc_vertex c = int u" for u c
    using pq_look_iff [OF P'] rest by (auto simp: q'_def)
  have "pq_look q' u = ((pq_look q)(?v := None)) u" for u
  proof (cases "u = ?v")
    case True
    then have "pq_look q' u \<noteq> Some c" for c using look [of u c] uniq v by auto
    then show ?thesis using True by (metis fun_upd_same option.exhaust)
  next
    case False
    then have "pq_look q' u = Some c \<longleftrightarrow> pq_look q u = Some c" for c
      using look [of u c] pq_look_iff [OF P, of u c] by auto
    then show ?thesis using False by (metis fun_upd_other option.exhaust)
  qed
  moreover have "pq_look q ?v = Some ?h" using pq_look_iff [OF P] ne v by auto
  moreover have "heap_ok q'" using P' H2 by (simp add: heap_ok_def q'_def heap_order_def gain_at_def)
  moreover have "same_frame q q'" "pq_active q' = pq_active q" "?n = Suc (length (pq_verts q'))"
    using K(2) n by (auto simp: same_cells_def same_frame_def q'_def q1_def)
  ultimately show thesis using E that by blast
qed

lemma hd_largest:
  assumes "heap_order q" "c \<in> set (pq_verts q)"
  shows "gc_gain c \<le> gc_gain (hd (pq_verts q))"
  using assms top_largest [OF assms(1)]
  by (metis gain_at_def hd_conv_nth in_set_conv_nth length_pos_if_in_set list.size(3) less_irrefl)

text \<open>Another cell for a vertex that has one.\<close>

lemma replace_cell:
  assumes P: "placed q {}" and l: "pq_look q v = Some d" and c: "gc_vertex c = int v"
  defines "i \<equiv> nat (pq_map q ! v)"
  defines "q1 \<equiv> q\<lparr>pq_verts := (pq_verts q)[i := c]\<rparr>"
  shows "i < length (pq_verts q)" "pq_verts q ! i = d" "pq_map q ! v = int i" "placed q1 {}"
    and "pq_look q1 = (pq_look q)(v \<mapsto> c)"
proof -
  note D = placedD [OF P]
  have v: "v < length (pq_map q)" "pq_map q ! v > -1" "d = pq_verts q ! i"
    using l by (auto simp: pq_look_def CheckIfVertexExists_def i_def split: if_splits)
  then have v': "i < length (pq_verts q)" "gc_vertex (pq_verts q ! i) = int v"
    using D(5) [of v] by (auto simp: i_def)
  then show "i < length (pq_verts q)" "pq_verts q ! i = d" "pq_map q ! v = int i"
    using v by (simp_all add: i_def)
  have vert: "gc_vertex (pq_verts q1 ! j) = gc_vertex (pq_verts q ! j)" if "j < length (pq_verts q)" for j
    using that v' c by (cases "i = j") (simp_all add: q1_def)
  have F: "length (pq_verts q1) = length (pq_verts q)" "pq_map q1 = pq_map q" "pq_total q1 = pq_total q"
    by (simp_all add: q1_def)
  show P1: "placed q1 {}"
    using P unfolding placed_def F by (simp add: vert)
  have "pq_look q1 u = ((pq_look q)(v \<mapsto> c)) u" for u
  proof (cases "u = v")
    case True
    then show ?thesis using v v' by (simp add: pq_look_def CheckIfVertexExists_def q1_def i_def)
  next
    case False
    have "i \<noteq> nat (pq_map q ! u)" if "u < length (pq_map q)" "pq_map q ! u > -1"
      using D(5) [OF that(1)] that(2) v'(2) False by auto
    then show ?thesis using False by (simp add: pq_look_def CheckIfVertexExists_def q1_def i_def)
  qed
  then show "pq_look q1 = (pq_look q)(v \<mapsto> c)" by blast
qed

lemma gain_at_replace:
  "j < length (pq_verts q) \<Longrightarrow> gain_at (q\<lparr>pq_verts := (pq_verts q)[i := c]\<rparr>) j = (if j = i then gc_gain c else gain_at q j)"
  by (simp add: gain_at_def nth_list_update)

lemma replace_up:
  assumes H: "heap_order q" and i: "i < length (pq_verts q)" and g: "gain_at q i \<le> gc_gain c"
  shows "order_but_up (q\<lparr>pq_verts := (pq_verts q)[i := c]\<rparr>) i"
proof -
  have le: "gain_at q j \<le> gain_at q (Parent j)" "Parent j < length (pq_verts q)" if "j < length (pq_verts q)" "0 < j" for j
    using that heap_orderD [OF H] Parent_less [of j] by auto
  have "gain_at q j \<le> gain_at q (Parent i)" if "j < length (pq_verts q)" "0 < j" "0 < i" "Parent j = i" for j
    using le(1) [OF that(1,2)] le(1) [OF i that(3)] that(4) by simp
  moreover have "gain_at q j \<le> gc_gain c" if "j < length (pq_verts q)" "0 < j" "Parent j = i" for j
    using le(1) [OF that(1,2)] that(3) g by simp
  moreover have "Parent i \<noteq> i" "Parent j \<noteq> j" if "0 < i" "0 < j" for j
    using Parent_less that by (metis less_irrefl)+
  ultimately show ?thesis
    using le i by (auto simp: order_but_up_def around_def gain_at_replace)
qed

lemma replace_down:
  assumes H: "heap_order q" and i: "i < length (pq_verts q)" and g: "gc_gain c \<le> gain_at q i"
  shows "order_but_down (q\<lparr>pq_verts := (pq_verts q)[i := c]\<rparr>) i"
proof -
  let ?q = "q\<lparr>pq_verts := (pq_verts q)[i := c]\<rparr>" and ?n = "length (pq_verts q)"
  have le: "gain_at q j \<le> gain_at q (Parent j)" "Parent j < ?n" "Parent j < j" if "j < ?n" "0 < j" for j
    using that heap_orderD [OF H] Parent_less [of j] by auto
  have 1: "gain_at ?q j \<le> gain_at ?q (Parent j)" if j: "j < ?n" "0 < j" "Parent j \<noteq> i" for j
    using le [OF j(1,2)] j g by (cases "j = i") (simp_all add: gain_at_replace)
  have 2: "gain_at ?q j \<le> gain_at ?q (Parent i)" if j: "j < ?n" "0 < j" "0 < i" "Parent j = i" for j
  proof -
    have "j \<noteq> i" "Parent i \<noteq> i" using le(3) [OF j(1,2)] le(3) [OF i j(3)] j(4) by auto
    moreover have "gain_at q j \<le> gain_at q (Parent i)"
      using le(1) [OF j(1,2)] le(1) [OF i j(3)] j(4) by (metis order_trans)
    ultimately show ?thesis using j(1) le(2) [OF i j(3)] by (simp add: gain_at_replace)
  qed
  show ?thesis using 1 2 by (simp add: order_but_down_def around_def)
qed

lemma ChangePriority_ok:
  assumes ok: "heap_ok q" and l: "pq_look q v = Some d" and c: "gc_vertex c = int v"
  shows "heap_ok (ChangePriority q v c) \<and> pq_look (ChangePriority q v c) = (pq_look q)(v \<mapsto> c)
    \<and> same_frame q (ChangePriority q v c) \<and> pq_active (ChangePriority q v c) = pq_active q"
proof -
  have P: "placed q {}" and H: "heap_order q" using ok by (simp_all add: heap_ok_def)
  define i where "i = nat (pq_map q ! v)"
  define q1 where "q1 = q\<lparr>pq_verts := (pq_verts q)[i := c]\<rparr>"
  note R = replace_cell [OF P l c, folded i_def, folded q1_def]
  have i1: "i < length (pq_verts q1)" "pq_total q1 = length (pq_verts q1)"
    using R(1) placedD(1) [OF P] by (simp_all add: q1_def)
  have old: "gain_at q i = gc_gain d" using R(2) by (simp add: gain_at_def)
  have E: "ChangePriority q v c = (if gc_gain c > gc_gain d then HeapifyUp q1 i else HeapifyDown q1 i)"
    using R(2,3) by (simp add: ChangePriority_def Let_def q1_def)
  have "\<exists>q'. ChangePriority q v c = q' \<and> placed q' {} \<and> same_cells q1 q' \<and> heap_order q'"
  proof (cases "gc_gain c > gc_gain d")
    case True
    then have "order_but_up q1 i" using replace_up [OF H R(1), of c] old by (simp add: q1_def)
    then show ?thesis
      using HeapifyUp_keeps [OF R(4) i1(1)] HeapifyUp_order [OF _ i1(1)] True by (simp add: E)
  next
    case False
    then have "order_but_down q1 i" using replace_down [OF H R(1), of c] old by (simp add: q1_def)
    then show ?thesis
      using HeapifyDown_keeps [OF R(4)] HeapifyDown_order [OF _ i1] i1(1) False by (simp add: E)
  qed
  then obtain q' where q': "ChangePriority q v c = q'" "placed q' {}" "same_cells q1 q'" "heap_order q'" by blast
  then have "pq_look q' = pq_look q1" using look_after [OF R(4) q'(2)] by (simp add: same_cells_def)
  then show ?thesis
    using q' R(5) by (simp add: heap_ok_def same_cells_def same_frame_def q1_def)
qed

lemma ChangePriority_absent:
  assumes "heap_ok q" "pq_look q v = None" "v < length (pq_map q)"
  shows "ChangePriority q v c = q"
  using pq_look_None [of q v] assms by (simp add: ChangePriority_def heap_ok_def Let_def)

lemma look_empty:
  assumes "placed q {}"
  shows "pq_verts q = [] \<longleftrightarrow> pq_look q = Map.empty"
proof
  assume "pq_verts q = []"
  then have "pq_look q v \<noteq> Some c" for v c using pq_look_iff [OF assms] by simp
  then show "pq_look q = Map.empty" by (metis ext option.exhaust)
next
  assume "pq_look q = Map.empty"
  then have "\<not> (c \<in> set (pq_verts q) \<and> gc_vertex c = int v)" for v c
    using pq_look_iff [OF assms] by (metis option.distinct(1))
  then show "pq_verts q = []"
    using placedD(2) [OF assms] by (metis in_set_conv_nth int_nat_eq last_in_set)
qed

lemma status_keeps [simp]:
  "heap_ok (SetActive q) \<longleftrightarrow> heap_ok q" "heap_ok (SetDeactive q) \<longleftrightarrow> heap_ok q"
  "pq_look (SetActive q) = pq_look q" "pq_look (SetDeactive q) = pq_look q"
  "pq_active (SetActive q)" "\<not> pq_active (SetDeactive q)"
  "pq_verts (SetActive q) = pq_verts q" "pq_verts (SetDeactive q) = pq_verts q"
  "pq_map (SetActive q) = pq_map q" "pq_map (SetDeactive q) = pq_map q"
  "same_frame q (SetDeactive q') \<longleftrightarrow> same_frame q q'"
  by (auto simp: SetActive_def SetDeactive_def heap_ok_def placed_def heap_order_def gain_at_def same_frame_def
      pq_look_def CheckIfVertexExists_def intro!: ext)

text \<open>
  \<open>Remove\<close> raises the gain above the largest, brings the element to the top and takes it out.  It
  needs the largest gain to be below itself plus one, which fails in \<open>float\<close> from \<open>2 ^ 24\<close> on.
\<close>

lemma Remove_ok:
  assumes ok: "heap_ok q" and l: "pq_look q v = Some d"
    and bump: "gc_gain (GetMax q) < gc_gain (GetMax q) + 1"
  obtains q' where "Remove q v = Some q'" "heap_ok q'" "pq_look q' = (pq_look q)(v := None)" "same_frame q q'"
    "pq_active q' \<longleftrightarrow> pq_active q \<and> pq_verts q' \<noteq> []"
proof -
  have P: "placed q {}" and H: "heap_order q" using ok by (simp_all add: heap_ok_def)
  define i where "i = nat (pq_map q ! v)"
  define c where "c = d\<lparr>gc_gain := gc_gain (GetMax q) + 1\<rparr>"
  define q1 where "q1 = q\<lparr>pq_verts := (pq_verts q)[i := c]\<rparr>"
  have d: "gc_vertex d = int v" "d \<in> set (pq_verts q)" using l pq_look_iff [OF P] by auto
  then have c: "gc_vertex c = int v" by (simp add: c_def)
  note R = replace_cell [OF P l c, folded i_def, folded q1_def]
  have i1: "i < length (pq_verts q1)" using R(1) by (simp add: q1_def)
  have top: "gc_gain e < gc_gain c" if "e \<in> set (pq_verts q)" for e
    using hd_largest [OF H that] bump by (simp add: c_def GetMax_def)
  have "order_but_up q1 i"
    using replace_up [OF H R(1), of c] top [OF d(2)] R(2) by (simp add: q1_def gain_at_def)
  then have H1: "heap_order (HeapifyUp q1 i)" using HeapifyUp_order i1 by blast
  have K: "placed (HeapifyUp q1 i) {}" "same_cells q1 (HeapifyUp q1 i)"
    using HeapifyUp_keeps [OF R(4) i1] by simp_all
  let ?u = "HeapifyUp q1 i"
  have S: "set (pq_verts ?u) = set ((pq_verts q)[i := c])" using K(2) by (simp add: same_cells_def q1_def)
  have cin: "c \<in> set (pq_verts ?u)" using S R(1) by (metis length_list_update nth_list_update_eq nth_mem)
  then have "gc_gain c \<le> gc_gain (hd (pq_verts ?u))" "hd (pq_verts ?u) \<in> set (pq_verts ?u)"
    using hd_largest [OF H1] by (auto intro: hd_in_set)
  then have h: "hd (pq_verts ?u) = c"
    using S top set_update_subset_insert [of "pq_verts q" i c] by (metis insert_iff leD subsetD)
  have ok1: "heap_ok ?u" using K H1 by (simp add: heap_ok_def)
  have ne: "pq_verts ?u \<noteq> []" using cin by auto
  obtain q2 where q2: "ExtractMax ?u = Some (c, q2)" "heap_ok q2" "pq_look q2 = (pq_look ?u)(v := None)"
      "same_frame ?u q2" "pq_active q2 = pq_active ?u"
    using ExtractMax_ok [OF ok1 ne] h c by (metis nat_int)
  have look: "pq_look q2 = (pq_look q)(v := None)"
    using q2(3) look_after [OF R(4) K(1)] K(2) R(5) by (simp add: same_cells_def)
  define q' where "q' = (if pq_total q2 \<le> 0 then SetDeactive q2 else q2)"
  have "Remove q v = Some q'"
    using R(2,3) q2(1) by (simp add: Remove_def Let_def q'_def q1_def c_def)
  moreover have "heap_ok q'" "pq_look q' = pq_look q2" using q2(2) by (simp_all add: q'_def)
  moreover have "same_frame q q'"
  proof -
    have "same_frame q q2" using q2(4) K(2) by (simp add: same_frame_def same_cells_def q1_def)
    then show ?thesis by (simp add: q'_def)
  qed
  moreover have "pq_active q' \<longleftrightarrow> pq_active q \<and> pq_verts q' \<noteq> []"
    using q2(5) K(2) heap_ok_total [OF q2(2)] by (simp add: q'_def same_cells_def q1_def)
  ultimately show thesis using look that by metis
qed

lemma Remove_absent:
  assumes "heap_ok q" "pq_look q v = None" "v < length (pq_map q)"
  shows "Remove q v = Some q"
  using pq_look_None [of q v] assms by (simp add: Remove_def heap_ok_def Let_def)

section \<open>The search for a legal move\<close>

lemma candidate_child_sound:
  assumes "pq_total q = length (pq_verts q)" "candidate_child q ok index = Some i"
  shows "i < length (pq_verts q) \<and> ok (pq_verts q ! i)"
  using assms by (auto simp: candidate_child_def Let_def split: if_splits)

lemma traverse_sound:
  assumes "pq_total q = length (pq_verts q)" "traverse q ok k index = Some i"
  shows "i < length (pq_verts q) \<and> ok (pq_verts q ! i)"
  using assms(2)
  by (induction k arbitrary: index)
    (auto split: option.splits if_splits intro: candidate_child_sound [OF assms(1), THEN conjunct1]
      candidate_child_sound [OF assms(1), THEN conjunct2])

text \<open>The move found is in the bucket and keeps the balance, as \<open>CheckBalance\<close> sees it.\<close>

lemma GetBestCandidate_sound:
  assumes "heap_ok q"
  shows "GetBestCandidate q lowest cur upper lower wts = dummy_cell lowest
    \<or> GetBestCandidate q lowest cur upper lower wts \<in> set (pq_verts q)
      \<and> CheckBalance cur upper lower wts (GetBestCandidate q lowest cur upper lower wts)"
proof (cases "pq_total q = 0 \<or> CheckBalance cur upper lower wts (pq_verts q ! 0)")
  case True
  then show ?thesis using heap_ok_total [OF assms] by (auto simp: GetBestCandidate_def Let_def)
next
  case False
  then have E: "GetBestCandidate q lowest cur upper lower wts
      = (case traverse q (CheckBalance cur upper lower wts) (pq_level q) 0 of
           Some i \<Rightarrow> pq_verts q ! i | None \<Rightarrow> dummy_cell lowest)"
    by (simp add: GetBestCandidate_def Let_def)
  show ?thesis
  proof (cases "traverse q (CheckBalance cur upper lower wts) (pq_level q) 0")
    case None
    then show ?thesis by (simp add: E)
  next
    case (Some i)
    then show ?thesis using traverse_sound [OF heap_ok_total [OF assms] Some] by (simp add: E)
  qed
qed

section \<open>The interface of a bucket\<close>

text \<open>
  What the refiners need of a bucket: it holds a cell for some of the vertices below \<open>room\<close>, and
  the operations change the cell of one vertex.
\<close>

locale gain_bucket =
  fixes ok :: "'q \<Rightarrow> bool" and look :: "'q \<Rightarrow> nat \<Rightarrow> 'c option" and room :: "'q \<Rightarrow> nat"
    and about :: "'c \<Rightarrow> nat \<Rightarrow> bool" and active :: "'q \<Rightarrow> bool"
    and has :: "'q \<Rightarrow> nat \<Rightarrow> bool" and insert_cell :: "'q \<Rightarrow> 'c \<Rightarrow> 'q" and change :: "'q \<Rightarrow> nat \<Rightarrow> 'c \<Rightarrow> 'q"
  assumes has: "ok q \<Longrightarrow> v < room q \<Longrightarrow> has q v \<longleftrightarrow> look q v \<noteq> None"
    and insert_cell: "ok q \<Longrightarrow> v < room q \<Longrightarrow> about c v \<Longrightarrow> look q v = None \<Longrightarrow>
      ok (insert_cell q c) \<and> look (insert_cell q c) = (look q)(v \<mapsto> c) \<and> room (insert_cell q c) = room q
      \<and> active (insert_cell q c) = active q"
    and change: "ok q \<Longrightarrow> v < room q \<Longrightarrow> about c v \<Longrightarrow> look q v \<noteq> None \<Longrightarrow>
      ok (change q v c) \<and> look (change q v c) = (look q)(v \<mapsto> c) \<and> room (change q v c) = room q
      \<and> active (change q v c) = active q"
begin

definition put :: "('q \<Rightarrow> nat \<Rightarrow> 'c \<Rightarrow> 'q)" where
  "put q v c = (if has q v then change q v c else insert_cell q c)"

lemma put:
  assumes "ok q" "v < room q" "about c v"
  shows "ok (put q v c) \<and> look (put q v c) = (look q)(v \<mapsto> c) \<and> room (put q v c) = room q
    \<and> active (put q v c) = active q"
  using assms has [of q v] insert_cell [of q v c] change [of q v c] unfolding put_def by auto

text \<open>Giving new cells to the vertices of a list, except those that are to be left out.\<close>

lemma fold_put:
  fixes skip :: "nat \<Rightarrow> bool"
  assumes "ok q" "\<forall>v \<in> set vs. v < room q" "\<forall>v \<in> set vs. about (cell v) v"
  defines "q' \<equiv> fold (\<lambda>v q. if skip v then q else put q v (cell v)) vs q"
  shows "ok q' \<and> room q' = room q \<and> active q' = active q
    \<and> look q' = (\<lambda>v. if v \<in> set vs \<and> \<not> skip v then Some (cell v) else look q v)"
  unfolding q'_def using assms(1-3)
proof (induction vs arbitrary: q)
  case (Cons u vs)
  let ?q = "if skip u then q else put q u (cell u)"
  have q: "ok ?q" "room ?q = room q" "active ?q = active q"
      "look ?q = (if skip u then look q else (look q)(u \<mapsto> cell u))"
    using put [of q u "cell u"] Cons.prems by auto
  have "\<forall>v \<in> set vs. v < room ?q" "\<forall>v \<in> set vs. about (cell v) v"
    using q(2) Cons.prems by auto
  from Cons.IH [OF q(1) this] q show ?case by (auto simp: fun_eq_iff)
qed auto

text \<open>Inserting the vertices of a list into a bucket that has none of them.\<close>

lemma fold_insert:
  fixes skip :: "nat \<Rightarrow> bool"
  assumes "ok q" "\<forall>v \<in> set vs. v < room q \<and> look q v = None" "\<forall>v \<in> set vs. about (cell v) v" "distinct vs"
  defines "q' \<equiv> fold (\<lambda>v q. if skip v then q else insert_cell q (cell v)) vs q"
  shows "ok q' \<and> room q' = room q \<and> active q' = active q
    \<and> look q' = (\<lambda>v. if v \<in> set vs \<and> \<not> skip v then Some (cell v) else look q v)"
  unfolding q'_def using assms(1-4)
proof (induction vs arbitrary: q)
  case (Cons u vs)
  let ?q = "if skip u then q else insert_cell q (cell u)"
  have q: "ok ?q" "room ?q = room q" "active ?q = active q"
      "look ?q = (if skip u then look q else (look q)(u \<mapsto> cell u))"
    using insert_cell [of q u "cell u"] Cons.prems by auto
  have "\<forall>v \<in> set vs. v < room ?q \<and> look ?q v = None" "\<forall>v \<in> set vs. about (cell v) v" "distinct vs"
    using q(2,4) Cons.prems by auto
  from Cons.IH [OF q(1) this] q show ?case by (auto simp: fun_eq_iff)
qed auto

end

interpretation bucket: gain_bucket heap_ok pq_look "\<lambda>q. length (pq_map q)" "\<lambda>c v. gc_vertex c = int v" pq_active
  CheckIfVertexExists InsertIntoPQ ChangePriority
proof
  fix q :: "'a::linorder pqueue" and v and c :: "'a gain_cell"
  assume q: "heap_ok q" "v < length (pq_map q)"
  show "CheckIfVertexExists q v \<longleftrightarrow> pq_look q v \<noteq> None" using q(2) by (simp add: pq_look_def)
  assume c: "gc_vertex c = int v"
  show "heap_ok (InsertIntoPQ q c) \<and> pq_look (InsertIntoPQ q c) = (pq_look q)(v \<mapsto> c)
      \<and> length (pq_map (InsertIntoPQ q c)) = length (pq_map q) \<and> pq_active (InsertIntoPQ q c) = pq_active q"
    if "pq_look q v = None"
    using InsertIntoPQ_ok [OF q(1), of c] q c that by (simp add: same_frame_def)
  show "heap_ok (ChangePriority q v c) \<and> pq_look (ChangePriority q v c) = (pq_look q)(v \<mapsto> c)
      \<and> length (pq_map (ChangePriority q v c)) = length (pq_map q) \<and> pq_active (ChangePriority q v c) = pq_active q"
    if "pq_look q v \<noteq> None"
    using ChangePriority_ok [OF q(1) _ c] that by (auto simp: same_frame_def)
qed

lemma pq_new_ok:
  "heap_ok (pq_new n level wts)" "pq_look (pq_new n level wts) = Map.empty" "length (pq_map (pq_new n level wts)) = n"
  "\<not> pq_active (pq_new n level wts)"
  by (auto simp: heap_ok_def placed_def heap_order_def pq_new_def pq_look_def CheckIfVertexExists_def)

lemma Clear_ok:
  "heap_ok (Clear q)" "pq_look (Clear q) = Map.empty" "length (pq_map (Clear q)) = length (pq_map q)"
  "\<not> pq_active (Clear q)"
  by (auto simp: heap_ok_def placed_def heap_order_def Clear_def pq_look_def CheckIfVertexExists_def)

section \<open>Any sequence of operations\<close>

text \<open>
  The buckets that the operations can produce, where a vertex is inserted only when the bucket has no
  cell for it, as the refiners do.
\<close>

inductive bucket_reach :: "nat \<Rightarrow> 'f::linordered_idom pqueue \<Rightarrow> bool" for n where
  reach_new: "bucket_reach n (pq_new n level wts)"
| reach_insert: "bucket_reach n q \<Longrightarrow> gc_vertex c = int v \<Longrightarrow> v < n \<Longrightarrow> \<not> CheckIfVertexExists q v \<Longrightarrow> bucket_reach n (InsertIntoPQ q c)"
| reach_change: "bucket_reach n q \<Longrightarrow> gc_vertex c = int v \<Longrightarrow> v < n \<Longrightarrow> bucket_reach n (ChangePriority q v c)"
| reach_remove: "bucket_reach n q \<Longrightarrow> v < n \<Longrightarrow> Remove q v = Some q' \<Longrightarrow> bucket_reach n q'"
| reach_extract: "bucket_reach n q \<Longrightarrow> ExtractMax q = Some (c, q') \<Longrightarrow> bucket_reach n q'"
| reach_clear: "bucket_reach n q \<Longrightarrow> bucket_reach n (Clear q)"
| reach_active: "bucket_reach n q \<Longrightarrow> bucket_reach n (SetActive q)"
| reach_deactive: "bucket_reach n q \<Longrightarrow> bucket_reach n (SetDeactive q)"

lemma Remove_total:
  fixes q :: "'f::linordered_idom pqueue"
  assumes "heap_ok q" "v < length (pq_map q)"
  obtains q' where "Remove q v = Some q'" "heap_ok q'" "pq_look q' = (pq_look q)(v := None)" "length (pq_map q') = length (pq_map q)"
    "pq_look q v \<noteq> None \<Longrightarrow> pq_active q' \<longleftrightarrow> pq_active q \<and> pq_verts q' \<noteq> []"
proof (cases "pq_look q v")
  case None
  then have "(pq_look q)(v := None) = pq_look q" by auto
  then show thesis using that [of q] Remove_absent [OF assms(1) None assms(2)] assms(1) None by simp
next
  case (Some d)
  obtain q' where q': "Remove q v = Some q'" "heap_ok q'" "pq_look q' = (pq_look q)(v := None)" "same_frame q q'"
      "pq_active q' \<longleftrightarrow> pq_active q \<and> pq_verts q' \<noteq> []"
    by (rule Remove_ok [OF assms(1) Some]) simp_all
  show thesis by (rule that [OF q'(1-3)]) (use q'(4,5) in \<open>simp_all add: same_frame_def\<close>)
qed

lemma reach_ok:
  assumes "bucket_reach n q"
  shows "heap_ok q \<and> length (pq_map q) = n"
  using assms
proof (induction rule: bucket_reach.induct)
  case (reach_insert q c v)
  then show ?case using bucket.insert_cell [of q v c] by (simp add: pq_look_def)
next
  case (reach_change q c v)
  then show ?case
    using bucket.change [of q v c] ChangePriority_absent [of q v c] by (cases "pq_look q v") auto
next
  case (reach_remove q v q')
  then show ?case using Remove_total [of q v] by (metis option.inject)
next
  case (reach_extract q c q')
  then have "pq_verts q \<noteq> []" by (auto simp: ExtractMax_def)
  then show ?case
    using ExtractMax_ok [of q] reach_extract by (metis option.inject prod.inject same_frame_def)
qed (simp_all add: pq_new_ok Clear_ok)

text \<open>C21: The gain buckets are heaps with a map of places.  After any operations on a new bucket of
  the partitioner, the count is the number of elements, the array of places gives every element's
  vertex the element's index and no other vertex an index, no element's gain exceeds that of its
  parent or of the element that \<open>GetMax\<close> returns, and \<open>Remove\<close> never takes from an empty heap.\<close>

theorem bucket_invariant:
  fixes q :: "'f::linordered_idom pqueue"
  assumes "bucket_reach n q"
  shows "pq_total q = length (pq_verts q) \<and> length (pq_map q) = n
    \<and> (\<forall>i < length (pq_verts q). pq_map q ! nat (gc_vertex (pq_verts q ! i)) = int i
          \<and> (0 < i \<longrightarrow> gc_gain (pq_verts q ! i) \<le> gc_gain (pq_verts q ! Parent i))
          \<and> gc_gain (pq_verts q ! i) \<le> gc_gain (GetMax q))
    \<and> (\<forall>v < n. CheckIfVertexExists q v \<longrightarrow> gc_vertex (pq_verts q ! nat (pq_map q ! v)) = int v)
    \<and> (\<forall>v < n. Remove q v \<noteq> None)"
proof -
  have ok: "heap_ok q" and n: "length (pq_map q) = n" using reach_ok [OF assms] by auto
  then have P: "placed q {}" and H: "heap_order q" by (simp_all add: heap_ok_def)
  note D = placedD [OF P]
  have "gc_gain (pq_verts q ! i) \<le> gc_gain (GetMax q)" if "i < length (pq_verts q)" for i
    using hd_largest [OF H nth_mem [OF that]] by (simp add: GetMax_def)
  moreover have "gc_vertex (pq_verts q ! nat (pq_map q ! v)) = int v" if "v < n" "CheckIfVertexExists q v" for v
    using D(5) [of v] that n by (simp add: CheckIfVertexExists_def)
  moreover have "Remove q v \<noteq> None" if "v < n" for v
    by (rule Remove_total [OF ok, of v]) (use that n in auto)
  ultimately show ?thesis using D(1,4) n heap_orderD [OF H] by (auto simp: gain_at_def)
qed

theorem bucket_invariant_witness:
  "Remove (InsertIntoPQ (pq_new 2 25 [[1], [1 :: int]])
     \<lparr>gc_vertex = 1, gc_src = 0, gc_dst = 1, gc_gain = 3, gc_paths = []\<rparr>) 1 \<noteq> None"
proof -
  have "bucket_reach 2 (InsertIntoPQ (pq_new 2 25 [[1], [1 :: int]]) \<lparr>gc_vertex = 1, gc_src = 0, gc_dst = 1, gc_gain = 3, gc_paths = []\<rparr>)"
    by (rule reach_insert [OF reach_new, where v = 1]) (simp_all add: CheckIfVertexExists_def pq_new_def)
  from bucket_invariant [OF this] show ?thesis by simp
qed

text \<open>C20: A gain bucket is a map from vertices to cells.  Inserting a cell for a vertex without one and
  changing the cell of a vertex that has one are updates of the map, removing a vertex deletes it,
  \<open>ExtractMax\<close> returns a cell of largest gain and deletes its vertex, and changing or removing a
  vertex that has no cell does nothing.\<close>

theorem bucket_refines_map:
  fixes q :: "'f::linordered_idom pqueue"
  assumes "bucket_reach n q" "v < n" "gc_vertex c = int v"
  shows "(pq_look q v = None \<longrightarrow> pq_look (InsertIntoPQ q c) = (pq_look q)(v \<mapsto> c) \<and> ChangePriority q v c = q \<and> Remove q v = Some q)
    \<and> (pq_look q v \<noteq> None \<longrightarrow> pq_look (ChangePriority q v c) = (pq_look q)(v \<mapsto> c))
    \<and> (\<exists>q'. Remove q v = Some q' \<and> pq_look q' = (pq_look q)(v := None))
    \<and> (pq_look q \<noteq> Map.empty \<longrightarrow> (\<exists>u d q'. ExtractMax q = Some (d, q') \<and> pq_look q u = Some d
          \<and> pq_look q' = (pq_look q)(u := None) \<and> (\<forall>w e. pq_look q w = Some e \<longrightarrow> gc_gain e \<le> gc_gain d)))"
proof (intro conjI impI)
  have ok: "heap_ok q" and n: "length (pq_map q) = n" using reach_ok [OF assms(1)] by auto
  then have P: "placed q {}" and H: "heap_order q" by (simp_all add: heap_ok_def)
  show "pq_look (InsertIntoPQ q c) = (pq_look q)(v \<mapsto> c)" "ChangePriority q v c = q" "Remove q v = Some q"
    if "pq_look q v = None"
    using bucket.insert_cell [of q v c] ChangePriority_absent [of q v c] Remove_absent [of q v] ok n assms(2,3) that by simp_all
  show "pq_look (ChangePriority q v c) = (pq_look q)(v \<mapsto> c)" if "pq_look q v \<noteq> None"
    using bucket.change [of q v c] ok n assms(2,3) that by simp
  show "\<exists>q'. Remove q v = Some q' \<and> pq_look q' = (pq_look q)(v := None)"
    by (rule Remove_total [OF ok, of v]) (use n assms(2) in auto)
  assume "pq_look q \<noteq> Map.empty"
  then have "pq_verts q \<noteq> []" using look_empty [OF P] by blast
  from ExtractMax_ok [OF ok this] obtain q' where q': "ExtractMax q = Some (hd (pq_verts q), q')"
      "pq_look q' = (pq_look q)(nat (gc_vertex (hd (pq_verts q))) := None)"
      "pq_look q (nat (gc_vertex (hd (pq_verts q)))) = Some (hd (pq_verts q))"
    by blast
  have "gc_gain e \<le> gc_gain (hd (pq_verts q))" if "pq_look q w = Some e" for w e
    using that hd_largest [OF H] by (simp add: pq_look_iff [OF P])
  then show "\<exists>u d q'. ExtractMax q = Some (d, q') \<and> pq_look q u = Some d
      \<and> pq_look q' = (pq_look q)(u := None) \<and> (\<forall>w e. pq_look q w = Some e \<longrightarrow> gc_gain e \<le> gc_gain d)"
    using q' by blast
qed

theorem bucket_refines_map_witness:
  "pq_look (InsertIntoPQ (pq_new 2 25 [[1], [1 :: int]]) \<lparr>gc_vertex = 1, gc_src = 0, gc_dst = 1, gc_gain = 3, gc_paths = []\<rparr>)
    = (pq_look (pq_new 2 25 [[1], [1]]))(1 \<mapsto> \<lparr>gc_vertex = 1, gc_src = 0, gc_dst = 1, gc_gain = 3, gc_paths = []\<rparr>)"
  using bucket_refines_map [OF reach_new [of 2 25 "[[1], [1 :: int]]"], of 1
      "\<lparr>gc_vertex = 1, gc_src = 0, gc_dst = 1, gc_gain = 3, gc_paths = []\<rparr>"]
  by (simp add: pq_new_ok(2))

end
