(* ===== verification/ParHypergraph.thy ===== *)
theory ParHypergraph imports ParVector begin

text \<open>
  \<open>src/par/src/Hypergraph.cpp\<close>: the hypergraph that is partitioned.  The vertices of the hyperedges
  are stored one hyperedge after the other with an array of offsets, and so are the hyperedges of
  the vertices, the timing paths through the vertices and the vertices of the timing paths.
\<close>

section \<open>Rows in one array\<close>

text \<open>
  \<open>pack\<close> is the loop that appends each row and records the length reached; \<open>slice\<close> is the range
  that an accessor returns.
\<close>

definition pack :: "nat list list \<Rightarrow> nat list \<times> nat list" where
  "pack rows = fold (\<lambda>row (ind, ptr). (ind @ row, ptr @ [length (ind @ row)])) rows ([], [0])"

definition slice :: "nat list \<times> nat list \<Rightarrow> nat \<Rightarrow> nat list" where
  "slice ip i = (case ip of (ind, ptr) \<Rightarrow> take (ptr ! Suc i - ptr ! i) (drop (ptr ! i) ind))"

lemma pack_snoc: "pack (rows @ [row]) = (case pack rows of (ind, ptr) \<Rightarrow> (ind @ row, ptr @ [length (ind @ row)]))"
  by (simp add: pack_def)

lemma pack_shape:
  "fst (pack rows) = concat rows \<and> length (snd (pack rows)) = Suc (length rows)
    \<and> (\<forall>i \<le> length rows. snd (pack rows) ! i = length (concat (take i rows)))"
proof (induction rows rule: rev_induct)
  case Nil
  then show ?case by (simp add: pack_def)
next
  case (snoc row rows)
  obtain ind ptr where p: "pack rows = (ind, ptr)" by (cases "pack rows")
  then show ?case
    using snoc by (auto simp: pack_snoc nth_append le_Suc_eq)
qed

lemma slice_pack [simp]:
  assumes "i < length rows"
  shows "slice (pack rows) i = rows ! i"
proof -
  have "snd (pack rows) ! i = length (concat (take i rows))"
    "snd (pack rows) ! Suc i = length (concat (take i rows)) + length (rows ! i)"
    using assms pack_shape [of rows] by (simp_all add: take_Suc_conv_app_nth)
  moreover have "concat rows = concat (take i rows) @ rows ! i @ concat (drop (Suc i) rows)"
    by (metis assms concat.simps(2) concat_append id_take_nth_drop)
  ultimately show ?thesis
    using pack_shape [of rows] by (simp add: slice_def split_beta)
qed

text \<open>Which rows a value is in, with a row once for each occurrence: the second loop.\<close>

definition incidence :: "nat \<Rightarrow> nat list list \<Rightarrow> nat list list" where
  "incidence n rows =
    fold (\<lambda>i inc. fold (\<lambda>v inc. inc[v := inc ! v @ [i]]) (rows ! i) inc) [0..<length rows] (replicate n [])"

lemma incidence_row:
  "length (fold (\<lambda>v inc. inc[v := inc ! v @ [i]]) row inc) = length inc"
  "v < length inc \<Longrightarrow> fold (\<lambda>v inc. inc[v := inc ! v @ [i]]) row inc ! v
    = inc ! v @ replicate (length (filter (\<lambda>u. u = v) row)) i"
proof (induction row arbitrary: inc)
  case (Cons u row)
  {
    case 1
    then show ?case using Cons.IH(1) [of "inc[u := inc ! u @ [i]]"] by simp
  next
    case 2
    then show ?case
      using Cons.IH(2) [of "inc[u := inc ! u @ [i]]"] by (cases "u = v") (simp_all add: replicate_app_Cons_same)
  }
qed simp_all

lemma incidence_nth:
  assumes "v < n"
  shows "length (incidence n rows) = n"
    and "incidence n rows ! v = concat (map (\<lambda>i. replicate (length (filter (\<lambda>u. u = v) (rows ! i))) i) [0..<length rows])"
proof -
  have "length (fold (\<lambda>i inc. fold (\<lambda>v inc. inc[v := inc ! v @ [i]]) (rows ! i) inc) is (replicate n [])) = n
    \<and> fold (\<lambda>i inc. fold (\<lambda>v inc. inc[v := inc ! v @ [i]]) (rows ! i) inc) is (replicate n []) ! v
      = concat (map (\<lambda>i. replicate (length (filter (\<lambda>u. u = v) (rows ! i))) i) is)" for "is"
    using assms by (induction "is" rule: rev_induct) (simp_all add: incidence_row)
  then show "length (incidence n rows) = n"
    "incidence n rows ! v = concat (map (\<lambda>i. replicate (length (filter (\<lambda>u. u = v) (rows ! i))) i) [0..<length rows])"
    by (simp_all add: incidence_def)
qed

lemma length_filter_count: "length (filter (\<lambda>u. u = v) row) = count_list row v"
  by (induction row) auto

lemma occurrences_distinct: "distinct row \<Longrightarrow> length (filter (\<lambda>u. u = v) row) = (if v \<in> set row then 1 else 0)"
  by (induction row) auto

lemma incidence_distinct:
  assumes "v < n" "\<forall>row \<in> set rows. distinct row"
  shows "incidence n rows ! v = filter (\<lambda>i. v \<in> set (rows ! i)) [0..<length rows]"
proof -
  have "concat (map (\<lambda>i. replicate (length (filter (\<lambda>u. u = v) (rows ! i))) i) is) = filter (\<lambda>i. v \<in> set (rows ! i)) is"
    if "set is \<subseteq> {0..<length rows}" for "is"
    using that
  proof (induction "is")
    case (Cons i "is")
    then have "distinct (rows ! i)" using assms(2) by simp
    then show ?case using Cons by (simp add: occurrences_distinct)
  qed simp
  from this [of "[0..<length rows]"] show ?thesis by (simp add: incidence_nth(2) [OF assms(1)])
qed

section \<open>The hypergraph\<close>

datatype VertexType = COMB_STD_CELL | SEQ_STD_CELL | MACRO | PORT

text \<open>A timing path: its vertices, its hyperedges, and its slack.\<close>

record 'f timing_path =
  tp_path :: "nat list"
  tp_arcs :: "nat list"
  tp_slack :: 'f

record 'f hgraph =
  hg_num_vertices :: nat
  hg_num_hyperedges :: nat
  hg_vertex_dims :: nat
  hg_edge_dims :: nat
  hg_vertex_weights :: "'f list list"
  hg_edge_weights :: "'f list list"
  hg_edges :: "nat list \<times> nat list"            \<comment> \<open>\<open>eind_\<close>, \<open>eptr_\<close>\<close>
  hg_vertices :: "nat list \<times> nat list"         \<comment> \<open>\<open>vind_\<close>, \<open>vptr_\<close>\<close>
  hg_fixed_flag :: bool
  hg_fixed_attr :: "int list"
  hg_community_flag :: bool
  hg_community_attr :: "int list"
  hg_placement_flag :: bool
  hg_placement_dims :: int
  hg_placement_attr :: "'f list list"
  hg_vertex_types :: "VertexType list"
  hg_timing_flag :: bool
  hg_num_paths :: nat
  hg_edge_timing_attr :: "'f list"
  hg_edge_timing_cost :: "'f list"
  hg_arc_set :: "nat set list"
  hg_paths_through :: "nat list \<times> nat list"    \<comment> \<open>\<open>pind_v_\<close>, \<open>pptr_v_\<close>\<close>
  hg_path_vertices :: "nat list \<times> nat list"    \<comment> \<open>\<open>vind_p_\<close>, \<open>vptr_p_\<close>\<close>
  hg_path_edges :: "nat list \<times> nat list"       \<comment> \<open>\<open>eind_p_\<close>, \<open>eptr_p_\<close>\<close>
  hg_path_attr :: "'f list"
  hg_path_cost :: "'f list"

text \<open>The first constructor; \<open>num_hyperedges_\<close> is the number of hyperedge weights.\<close>

definition Hypergraph_plain ::
    "nat \<Rightarrow> nat \<Rightarrow> int \<Rightarrow> nat list list \<Rightarrow> 'f list list \<Rightarrow> 'f list list \<Rightarrow> int list \<Rightarrow> int list \<Rightarrow> 'f list list
     \<Rightarrow> 'f hgraph" where
  "Hypergraph_plain vdims edims pdims hyperedges vertex_weights edge_weights fixed_attr community_attr placement_attr =
    (let n = length vertex_weights; m = length edge_weights;
         fixed = (length fixed_attr = n); community = (length community_attr = n);
         placement = (pdims > 0 \<and> length placement_attr = n)
     in \<lparr>hg_num_vertices = n, hg_num_hyperedges = m, hg_vertex_dims = vdims, hg_edge_dims = edims,
         hg_vertex_weights = vertex_weights, hg_edge_weights = edge_weights,
         hg_edges = pack hyperedges, hg_vertices = pack (incidence n (take m hyperedges)),
         hg_fixed_flag = fixed, hg_fixed_attr = (if fixed then fixed_attr else []),
         hg_community_flag = community, hg_community_attr = (if community then community_attr else []),
         hg_placement_flag = placement, hg_placement_dims = (if placement then pdims else 0),
         hg_placement_attr = (if placement then placement_attr else []),
         hg_vertex_types = [], hg_timing_flag = False, hg_num_paths = 0, hg_edge_timing_attr = [],
         hg_edge_timing_cost = [], hg_arc_set = [], hg_paths_through = ([], []), hg_path_vertices = ([], []),
         hg_path_edges = ([], []), hg_path_attr = [], hg_path_cost = []\<rparr>)"

text \<open>The second constructor calls the first and adds the timing paths.\<close>

definition Hypergraph_timed ::
    "nat \<Rightarrow> nat \<Rightarrow> int \<Rightarrow> nat list list \<Rightarrow> 'f list list \<Rightarrow> 'f list list \<Rightarrow> int list \<Rightarrow> int list \<Rightarrow> 'f list list
     \<Rightarrow> VertexType list \<Rightarrow> 'f list \<Rightarrow> nat set list \<Rightarrow> 'f timing_path list \<Rightarrow> 'f hgraph" where
  "Hypergraph_timed vdims edims pdims hyperedges vertex_weights edge_weights fixed_attr community_attr placement_attr
      vertex_types hyperedges_slack hyperedges_arc_set timing_paths =
    (let hg = (Hypergraph_plain vdims edims pdims hyperedges vertex_weights edge_weights fixed_attr community_attr
                 placement_attr)\<lparr>hg_vertex_types := vertex_types\<rparr>
     in if length hyperedges_slack = hg_num_hyperedges hg \<and> length hyperedges_arc_set = hg_num_hyperedges hg
        then hg\<lparr>hg_timing_flag := True, hg_num_paths := length timing_paths,
                hg_edge_timing_attr := hyperedges_slack, hg_arc_set := hyperedges_arc_set,
                hg_path_vertices := pack (map tp_path timing_paths),
                hg_path_edges := pack (map tp_arcs timing_paths),
                hg_path_attr := map tp_slack timing_paths,
                hg_paths_through := pack (incidence (hg_num_vertices hg) (map tp_path timing_paths))\<rparr>
        else hg)"

definition Vertices :: "'f hgraph \<Rightarrow> nat \<Rightarrow> nat list" where
  "Vertices hg edge_id = slice (hg_edges hg) edge_id"

definition Edges :: "'f hgraph \<Rightarrow> nat \<Rightarrow> nat list" where
  "Edges hg node_id = slice (hg_vertices hg) node_id"

definition TimingPathsThrough :: "'f hgraph \<Rightarrow> nat \<Rightarrow> nat list" where
  "TimingPathsThrough hg vertex_id = slice (hg_paths_through hg) vertex_id"

definition PathVertices :: "'f hgraph \<Rightarrow> nat \<Rightarrow> nat list" where
  "PathVertices hg path_id = slice (hg_path_vertices hg) path_id"

definition PathEdges :: "'f hgraph \<Rightarrow> nat \<Rightarrow> nat list" where
  "PathEdges hg path_id = slice (hg_path_edges hg) path_id"

definition GetVertexWeights :: "'f hgraph \<Rightarrow> nat \<Rightarrow> 'f list" where
  "GetVertexWeights hg v = hg_vertex_weights hg ! v"

definition SetHyperedgeTimingCost :: "'f hgraph \<Rightarrow> 'f list \<Rightarrow> 'f hgraph" where
  "SetHyperedgeTimingCost hg costs = hg\<lparr>hg_edge_timing_cost := costs\<rparr>"

definition ResetPathTimingCost :: "'f::zero hgraph \<Rightarrow> 'f hgraph" where
  "ResetPathTimingCost hg = hg\<lparr>hg_path_cost := replicate (hg_num_paths hg) 0\<rparr>"

definition SetPathTimingCost :: "'f hgraph \<Rightarrow> nat \<Rightarrow> 'f \<Rightarrow> 'f hgraph" where
  "SetPathTimingCost hg path_id value = hg\<lparr>hg_path_cost := (hg_path_cost hg)[path_id := value]\<rparr>"

definition GetTotalVertexWeights :: "'f::{plus,zero} hgraph \<Rightarrow> 'f list" where
  "GetTotalVertexWeights hg = fold (\<lambda>weight total. vec_add total weight) (hg_vertex_weights hg) (replicate (hg_vertex_dims hg) 0)"

text \<open>The bounds of a block's weight: the tolerance \<open>ub_factor * 0.01\<close> is the argument \<open>tolerance\<close>.\<close>

definition GetUpperVertexBalance :: "'f::{plus,times,zero} hgraph \<Rightarrow> nat \<Rightarrow> 'f \<Rightarrow> 'f list \<Rightarrow> 'f list list" where
  "GetUpperVertexBalance hg num_parts tolerance base_balance =
    (let balance = GetTotalVertexWeights hg; base = map (\<lambda>value. value + tolerance) base_balance
     in map (\<lambda>i. MultiplyFactor balance (base ! i)) [0..<num_parts])"

definition GetLowerVertexBalance :: "'f::{linorder,plus,minus,times,zero} hgraph \<Rightarrow> nat \<Rightarrow> 'f \<Rightarrow> 'f list \<Rightarrow> 'f list list" where
  "GetLowerVertexBalance hg num_parts tolerance base_balance =
    (let balance = GetTotalVertexWeights hg;
         base = map (\<lambda>value. let d = value - tolerance in if d \<le> 0 then 0 else d) base_balance
     in map (\<lambda>i. MultiplyFactor balance (base ! i)) [0..<num_parts])"

section \<open>What the constructors build\<close>

text \<open>
  The header's Rule 2: a hyperedge includes a vertex at most once.  A timing path may include a vertex more
  often, and is then as often among the paths through it.
\<close>

definition hg_ok :: "'f hgraph \<Rightarrow> bool" where
  "hg_ok hg \<longleftrightarrow> length (hg_vertex_weights hg) = hg_num_vertices hg
    \<and> (\<forall>v < hg_num_vertices hg. length (GetVertexWeights hg v) = hg_vertex_dims hg)
    \<and> (\<forall>e < hg_num_hyperedges hg. distinct (Vertices hg e) \<and> (\<forall>v \<in> set (Vertices hg e). v < hg_num_vertices hg))
    \<and> (\<forall>v < hg_num_vertices hg. Edges hg v = filter (\<lambda>e. v \<in> set (Vertices hg e)) [0..<hg_num_hyperedges hg])
    \<and> (\<forall>p < hg_num_paths hg. \<forall>v \<in> set (PathVertices hg p). v < hg_num_vertices hg)
    \<and> (hg_num_paths hg > 0 \<longrightarrow> (\<forall>v < hg_num_vertices hg.
          TimingPathsThrough hg v = concat (map (\<lambda>p. replicate (count_list (PathVertices hg p) v) p) [0..<hg_num_paths hg])))
    \<and> (hg_fixed_flag hg \<longrightarrow> length (hg_fixed_attr hg) = hg_num_vertices hg)"

lemma hg_okD:
  assumes "hg_ok hg"
  shows "length (hg_vertex_weights hg) = hg_num_vertices hg"
    and "v < hg_num_vertices hg \<Longrightarrow> length (GetVertexWeights hg v) = hg_vertex_dims hg"
    and "e < hg_num_hyperedges hg \<Longrightarrow> distinct (Vertices hg e)"
    and "e < hg_num_hyperedges hg \<Longrightarrow> v \<in> set (Vertices hg e) \<Longrightarrow> v < hg_num_vertices hg"
    and "v < hg_num_vertices hg \<Longrightarrow> Edges hg v = filter (\<lambda>e. v \<in> set (Vertices hg e)) [0..<hg_num_hyperedges hg]"
    and "p < hg_num_paths hg \<Longrightarrow> v \<in> set (PathVertices hg p) \<Longrightarrow> v < hg_num_vertices hg"
    and "hg_num_paths hg > 0 \<Longrightarrow> v < hg_num_vertices hg \<Longrightarrow>
          TimingPathsThrough hg v = concat (map (\<lambda>p. replicate (count_list (PathVertices hg p) v) p) [0..<hg_num_paths hg])"
    and "hg_fixed_flag hg \<Longrightarrow> length (hg_fixed_attr hg) = hg_num_vertices hg"
  using assms unfolding hg_ok_def by blast+

lemma plain_rows:
  fixes vdims edims :: nat and pdims :: int and hyperedges :: "nat list list"
    and vertex_weights edge_weights placement_attr :: "'f list list" and fixed_attr community_attr :: "int list"
  defines "hg \<equiv> Hypergraph_plain vdims edims pdims hyperedges vertex_weights edge_weights fixed_attr community_attr placement_attr"
  assumes "length edge_weights = length hyperedges"
    and "\<forall>h \<in> set hyperedges. distinct h"
  shows "e < length hyperedges \<Longrightarrow> Vertices hg e = hyperedges ! e"
    and "v < length vertex_weights \<Longrightarrow> Edges hg v = filter (\<lambda>e. v \<in> set (hyperedges ! e)) [0..<length hyperedges]"
    and "hg_num_vertices hg = length vertex_weights" "hg_num_hyperedges hg = length hyperedges"
  using assms(2,3) incidence_nth(1) [of _ "length vertex_weights" hyperedges]
  by (auto simp: hg_def Hypergraph_plain_def Let_def Vertices_def Edges_def incidence_distinct)

text \<open>The hyperedges and paths given are those the accessors return.\<close>

lemma hypergraph_built:
  fixes vdims edims :: nat and pdims :: int and hyperedges :: "nat list list"
    and vertex_weights edge_weights placement_attr :: "'f list list" and fixed_attr community_attr :: "int list"
    and vertex_types :: "VertexType list" and slacks :: "'f list" and arc_sets :: "nat set list"
    and timing_paths :: "'f timing_path list"
  defines "hg \<equiv> Hypergraph_timed vdims edims pdims hyperedges vertex_weights edge_weights fixed_attr community_attr
      placement_attr vertex_types slacks arc_sets timing_paths"
  assumes len: "length edge_weights = length hyperedges" "length slacks = length hyperedges" "length arc_sets = length hyperedges"
    and edges: "\<forall>h \<in> set hyperedges. distinct h \<and> (\<forall>v \<in> set h. v < length vertex_weights)"
    and paths: "\<forall>p \<in> set timing_paths. \<forall>v \<in> set (tp_path p). v < length vertex_weights"
    and dims: "\<forall>w \<in> set vertex_weights. length w = vdims"
  shows "hg_ok hg \<and> hg_num_paths hg = length timing_paths \<and> hg_num_hyperedges hg = length hyperedges
    \<and> (\<forall>e < length hyperedges. Vertices hg e = hyperedges ! e)
    \<and> (\<forall>p < length timing_paths. PathVertices hg p = tp_path (timing_paths ! p))"
proof -
  let ?h = "Hypergraph_plain vdims edims pdims hyperedges vertex_weights edge_weights fixed_attr community_attr placement_attr"
  let ?n = "length vertex_weights"
  have d: "\<forall>h \<in> set hyperedges. distinct h" using edges by blast
  note R = plain_rows [where vdims = vdims and edims = edims and pdims = pdims and vertex_weights = vertex_weights
      and fixed_attr = fixed_attr and community_attr = community_attr and placement_attr = placement_attr, OF len(1) d]
  have tl: "length (incidence ?n (map tp_path timing_paths)) = ?n" if "v < ?n" for v
    using incidence_nth(1) [OF that] .
  have V: "Vertices hg e = hyperedges ! e" if "e < length hyperedges" for e
    using R(1) [OF that] R(4) len by (simp add: hg_def Hypergraph_timed_def Let_def Vertices_def)
  have E: "Edges hg v = filter (\<lambda>e. v \<in> set (hyperedges ! e)) [0..<length hyperedges]" if "v < ?n" for v
    using R(2) [OF that] R(4) len by (simp add: hg_def Hypergraph_timed_def Let_def Edges_def)
  have P: "PathVertices hg p = tp_path (timing_paths ! p)" if "p < length timing_paths" for p
    using that R(4) len by (simp add: hg_def Hypergraph_timed_def Let_def PathVertices_def)
  have T: "TimingPathsThrough hg v = concat (map (\<lambda>p. replicate (count_list (tp_path (timing_paths ! p)) v) p) [0..<length timing_paths])"
    if "v < ?n" for v
  proof -
    have "TimingPathsThrough hg v = incidence ?n (map tp_path timing_paths) ! v"
      using that R(3,4) len tl by (simp add: hg_def Hypergraph_timed_def Let_def TimingPathsThrough_def)
    then show ?thesis
      using incidence_nth(2) [OF that, of "map tp_path timing_paths"]
      by (auto simp: length_filter_count intro!: arg_cong [of _ _ concat])
  qed
  have N: "hg_num_vertices hg = ?n" "hg_num_hyperedges hg = length hyperedges" "hg_num_paths hg = length timing_paths"
      "hg_vertex_weights hg = vertex_weights" "hg_vertex_dims hg = vdims"
      "hg_fixed_flag hg \<longrightarrow> length (hg_fixed_attr hg) = ?n"
    using R(3,4) len by (simp_all add: hg_def Hypergraph_timed_def Let_def Hypergraph_plain_def)
  have "hg_ok hg"
    unfolding hg_ok_def N GetVertexWeights_def
    using N(6) V E P T edges paths dims
    by (auto intro!: filter_cong arg_cong [of _ _ concat] simp: all_set_conv_all_nth)
  then show ?thesis using N V P by simp
qed

text \<open>The hypergraph stores what it is given.  When no hyperedge repeats a vertex, the offsets of
  the constructor make \<open>Vertices\<close> and \<open>PathVertices\<close> return the hyperedges and the paths it was called
  with, \<open>Edges\<close> returns, in increasing order and once each, the hyperedges a vertex is on, and
  \<open>TimingPathsThrough\<close> the paths, as often as the vertex is on them.\<close>

theorem hypergraph_incidence:
  fixes vertex_weights :: "'f list list"
  assumes "length edge_weights = length hyperedges" "length slacks = length hyperedges" "length arc_sets = length hyperedges"
    and "\<forall>h \<in> set hyperedges. distinct h \<and> (\<forall>v \<in> set h. v < length vertex_weights)"
    and "\<forall>p \<in> set timing_paths. \<forall>v \<in> set (tp_path p). v < length vertex_weights"
    and "\<forall>w \<in> set vertex_weights. length w = vdims"
  shows "let hg = Hypergraph_timed vdims edims pdims hyperedges vertex_weights edge_weights fixed_attr community_attr
        placement_attr vertex_types slacks arc_sets timing_paths
    in map (Vertices hg) [0..<length hyperedges] = hyperedges
      \<and> map (PathVertices hg) [0..<length timing_paths] = map tp_path timing_paths
      \<and> (\<forall>v < length vertex_weights.
            Edges hg v = filter (\<lambda>e. v \<in> set (hyperedges ! e)) [0..<length hyperedges]
            \<and> (timing_paths \<noteq> [] \<longrightarrow>
                 TimingPathsThrough hg v
                   = concat (map (\<lambda>p. replicate (count_list (tp_path (timing_paths ! p)) v) p) [0..<length timing_paths])))"
proof -
  define hg where "hg = Hypergraph_timed vdims edims pdims hyperedges vertex_weights edge_weights fixed_attr community_attr
        placement_attr vertex_types slacks arc_sets timing_paths"
  have B: "hg_ok hg" "hg_num_paths hg = length timing_paths" "hg_num_hyperedges hg = length hyperedges"
    "\<And>e. e < length hyperedges \<Longrightarrow> Vertices hg e = hyperedges ! e"
    "\<And>p. p < length timing_paths \<Longrightarrow> PathVertices hg p = tp_path (timing_paths ! p)"
    using hypergraph_built [OF assms, of edims pdims fixed_attr community_attr placement_attr vertex_types, folded hg_def] by simp_all
  have n: "hg_num_vertices hg = length vertex_weights"
    by (simp add: hg_def Hypergraph_timed_def Hypergraph_plain_def Let_def)
  have "map (Vertices hg) [0..<length hyperedges] = hyperedges"
    by (rule nth_equalityI) (simp_all add: B(4))
  moreover have "map (PathVertices hg) [0..<length timing_paths] = map tp_path timing_paths"
    by (rule nth_equalityI) (simp_all add: B(5))
  moreover have "Edges hg v = filter (\<lambda>e. v \<in> set (hyperedges ! e)) [0..<length hyperedges]" if "v < length vertex_weights" for v
    using hg_okD(5) [OF B(1), of v] that n B(3,4) by (auto intro: filter_cong)
  moreover have "TimingPathsThrough hg v
      = concat (map (\<lambda>p. replicate (count_list (tp_path (timing_paths ! p)) v) p) [0..<length timing_paths])"
    if "v < length vertex_weights" "timing_paths \<noteq> []" for v
    using hg_okD(7) [OF B(1), of v] that n B(2,5) by (auto intro!: arg_cong [of _ _ concat])
  ultimately show ?thesis by (simp add: Let_def hg_def)
qed

theorem hypergraph_incidence_witness:
  "Edges (Hypergraph_timed 1 1 0 [[0, 1], [1, 2]] [[1], [1], [1 :: int]] [[1], [1]] [] [] [] [] [0, 0] [{}, {}] []) 1 = [0, 1]"
  using hypergraph_incidence [of "[[1], [1]]" "[[0, 1], [1, 2]]" "[0, 0]" "[{}, {}]" "[[1], [1], [1 :: int]]" "[]" 1 1 0 "[]" "[]" "[]" "[]"]
  by (simp add: Let_def)

end
