(* ===== verification/ParEvaluator.thy ===== *)
theory ParEvaluator imports ParHypergraph begin

text \<open>
  \<open>src/par/src/Evaluator.cpp\<close>: the degrees of the hyperedges in the blocks, the weights of the blocks,
  the cost of a path and the cost of a solution.  A solution gives each vertex its block.
\<close>

section \<open>The evaluator\<close>

record 'f evaluator =
  ev_num_parts :: nat
  ev_e_wt_factors :: "'f list"
  ev_v_wt_factors :: "'f list"
  ev_net_timing_factor :: 'f
  ev_path_timing_factor :: 'f
  ev_path_snaking_factor :: 'f

text \<open>A count converted to \<open>float\<close>.\<close>

primrec of_count :: "nat \<Rightarrow> 'f::{zero,one,plus}" where
  "of_count 0 = 0"
| "of_count (Suc n) = of_count n + 1"

definition inner_product :: "'f::{plus,times} list \<Rightarrow> 'f list \<Rightarrow> 'f \<Rightarrow> 'f" where
  "inner_product a b init = fold (\<lambda>(x, y) acc. acc + x * y) (zip a b) init"

text \<open>\<open>net_degs\<close>: for each hyperedge, how many of its vertices are in each block.\<close>

definition GetNetDegrees :: "'f evaluator \<Rightarrow> 'f hgraph \<Rightarrow> nat list \<Rightarrow> int list list" where
  "GetNetDegrees ev hg solution =
    map (\<lambda>e. fold (\<lambda>v row. row[solution ! v := row ! (solution ! v) + 1]) (Vertices hg e) (replicate (ev_num_parts ev) 0))
      [0..<hg_num_hyperedges hg]"

definition GetBlockBalance :: "'f::{plus,zero} evaluator \<Rightarrow> 'f hgraph \<Rightarrow> nat list \<Rightarrow> 'f list list" where
  "GetBlockBalance ev hg solution =
    fold (\<lambda>v bal. bal[solution ! v := vec_add (bal ! (solution ! v)) (GetVertexWeights hg v)]) [0..<hg_num_vertices hg]
      (replicate (ev_num_parts ev) (replicate (hg_vertex_dims hg) 0))"

section \<open>Paths\<close>

text \<open>
  The sequence of blocks a path goes through, and how often it enters each block: \<open>block_counter\<close>
  is kept as its entries.
\<close>

fun count_block :: "nat \<Rightarrow> (nat \<times> nat) list \<Rightarrow> (nat \<times> nat) list" where
  "count_block b [] = [(b, 1)]"
| "count_block b ((c, n) # counter) = (if c = b then (c, n + 1) # counter else (c, n) # count_block b counter)"

definition walk_blocks :: "nat list \<Rightarrow> nat list \<times> (nat \<times> nat) list" where
  "walk_blocks blocks =
    fold (\<lambda>b (path, counter). if path = [] \<or> last path \<noteq> b then (path @ [b], count_block b counter) else (path, counter))
      blocks ([], [])"

definition snaking :: "(nat \<times> nat) list \<Rightarrow> nat" where
  "snaking counter = fold (\<lambda>(b, count) s. if count > s then count else s) counter 0"

text \<open>The cost of a path, given the blocks of its vertices and the two factors.\<close>

definition path_cost :: "'f::{zero,one,plus,minus,times} \<Rightarrow> 'f \<Rightarrow> 'f \<Rightarrow> nat list \<Rightarrow> 'f" where
  "path_cost path_factor snaking_factor weight blocks =
    (let (path, counter) = walk_blocks blocks
     in if length path \<le> 1 then 0
        else path_factor * of_count (length path - 1) * weight + snaking_factor * of_count (snaking counter - 1))"

definition EvCalculatePathCost :: "'f::{zero,one,plus,minus,times} evaluator \<Rightarrow> nat \<Rightarrow> 'f hgraph \<Rightarrow> nat list \<Rightarrow> 'f" where
  "EvCalculatePathCost ev path_id hg solution =
    (if hg_num_paths hg \<le> 0 \<or> length (hg_path_cost hg) < hg_num_paths hg \<or> path_id \<ge> hg_num_paths hg then 0
     else path_cost (ev_path_timing_factor ev) (ev_path_snaking_factor ev) (hg_path_cost hg ! path_id)
            (map (\<lambda>u. solution ! u) (PathVertices hg path_id)))"

definition GetPathsCost :: "'f::{zero,one,plus,minus,times} evaluator \<Rightarrow> 'f hgraph \<Rightarrow> nat list \<Rightarrow> 'f list" where
  "GetPathsCost ev hg solution =
    (if hg_num_paths hg \<le> 0 \<or> length (hg_path_cost hg) < hg_num_paths hg then []
     else map (\<lambda>path_id. EvCalculatePathCost ev path_id hg solution) [0..<hg_num_paths hg])"

section \<open>Hyperedges\<close>

definition CalculateHyperedgeCost :: "'f::{zero,plus,times} evaluator \<Rightarrow> nat \<Rightarrow> 'f hgraph \<Rightarrow> 'f" where
  "CalculateHyperedgeCost ev e hg =
    (let cost = inner_product (hg_edge_weights hg ! e) (ev_e_wt_factors ev) 0
     in if hg_timing_flag hg then cost + ev_net_timing_factor ev * (hg_edge_timing_cost hg ! e) else cost)"

definition GetVertexWeightNorm :: "'f::{zero,plus,times} evaluator \<Rightarrow> nat \<Rightarrow> 'f hgraph \<Rightarrow> 'f" where
  "GetVertexWeightNorm ev v hg = inner_product (GetVertexWeights hg v) (ev_v_wt_factors ev) 0"

definition CalculateHyperedgeVertexWtSum :: "'f::{zero,plus,times} evaluator \<Rightarrow> nat \<Rightarrow> 'f hgraph \<Rightarrow> 'f" where
  "CalculateHyperedgeVertexWtSum ev e hg = fold (\<lambda>v weight. weight + GetVertexWeightNorm ev v hg) (Vertices hg e) 0"

text \<open>The hyperedges that are cut; a hyperedge without vertices has no first vertex, and none occurs.\<close>

definition GetCutHyperedges :: "'f hgraph \<Rightarrow> nat list \<Rightarrow> nat list" where
  "GetCutHyperedges hg solution =
    filter (\<lambda>e. list_ex (\<lambda>v. solution ! v \<noteq> solution ! hd (Vertices hg e)) (tl (Vertices hg e))) [0..<hg_num_hyperedges hg]"

record 'f partition_token =
  pt_cost :: 'f
  pt_block_balance :: "'f list list"

definition CutEvaluator :: "'f::{zero,one,plus,minus,times} evaluator \<Rightarrow> 'f hgraph \<Rightarrow> nat list \<Rightarrow> 'f partition_token" where
  "CutEvaluator ev hg solution =
    (let edge_cost = fold (\<lambda>e cost. cost + CalculateHyperedgeCost ev e hg) (GetCutHyperedges hg solution) 0;
         path_cost = fold (\<lambda>p cost. cost + EvCalculatePathCost ev p hg solution) [0..<hg_num_paths hg] 0
     in \<lparr>pt_cost = edge_cost + path_cost, pt_block_balance = GetBlockBalance ev hg solution\<rparr>)"

text \<open>
  The constraints.  \<open>>\<close> and \<open><\<close> on the weights of the blocks are the lexicographic and the
  componentwise comparison.
\<close>

definition ConstraintAndCutEvaluator ::
    "'f::{linorder,zero,one,plus,minus,times} evaluator \<Rightarrow> 'f hgraph \<Rightarrow> nat list \<Rightarrow> 'f \<Rightarrow> 'f list \<Rightarrow> nat list list \<Rightarrow> bool" where
  "ConstraintAndCutEvaluator ev hg solution tolerance base_balance group_attr =
    (let balance = pt_block_balance (CutEvaluator ev hg solution);
         upper = GetUpperVertexBalance hg (ev_num_parts ev) tolerance base_balance;
         lower = GetLowerVertexBalance hg (ev_num_parts ev) tolerance base_balance
     in list_all (\<lambda>i. \<not> (vec_gt (balance ! i) (upper ! i) \<or> vec_less (balance ! i) (lower ! i))) [0..<ev_num_parts ev]
        \<and> list_all (\<lambda>grp. length grp \<le> 1 \<or> list_all (\<lambda>v. solution ! v = solution ! hd grp) grp) group_attr
        \<and> (length (hg_fixed_attr hg) = hg_num_vertices hg \<longrightarrow>
             list_all (\<lambda>v. \<not> (hg_fixed_attr hg ! v > -1 \<and> hg_fixed_attr hg ! v \<noteq> int (solution ! v))) [0..<hg_num_vertices hg]))"

text \<open>How strongly two blocks are connected: the cost of the hyperedges that have vertices in both.\<close>

definition GetMatchingConnectivity :: "'f::{zero,plus,times} evaluator \<Rightarrow> 'f hgraph \<Rightarrow> nat list \<Rightarrow> ((nat \<times> nat) \<times> 'f) list" where
  "GetMatchingConnectivity ev hg solution =
    concat (map (\<lambda>block_a. map (\<lambda>block_b.
      ((block_a, block_b),
       fold (\<lambda>e score. if list_ex (\<lambda>v. solution ! v = block_a) (Vertices hg e) \<and> list_ex (\<lambda>v. solution ! v = block_b) (Vertices hg e)
                       then score + CalculateHyperedgeCost ev e hg else score)
         [0..<hg_num_hyperedges hg] 0))
      [Suc block_a..<ev_num_parts ev]) [0..<ev_num_parts ev])"

section \<open>Groups of vertices\<close>

definition GetGroupFixedAttr :: "'f hgraph \<Rightarrow> nat list \<Rightarrow> int" where
  "GetGroupFixedAttr hg grp =
    (if \<not> hg_fixed_flag hg then -1 else fold (\<lambda>v attr. max attr (hg_fixed_attr hg ! v)) grp (-1))"

definition GetGroupCommunityAttr :: "'f hgraph \<Rightarrow> nat list \<Rightarrow> int" where
  "GetGroupCommunityAttr hg grp =
    (if \<not> hg_community_flag hg then -1 else fold (\<lambda>v attr. max attr (hg_community_attr hg ! v)) grp (-1))"

definition GetVertexWeightSum :: "'f::{plus,zero} hgraph \<Rightarrow> nat list \<Rightarrow> 'f list" where
  "GetVertexWeightSum hg grp =
    fold (\<lambda>v weight. vec_add weight (GetVertexWeights hg v)) grp (replicate (nat (hg_placement_dims hg)) 0)"

section \<open>What they compute\<close>

text \<open>A solution that gives every vertex one of the blocks.\<close>

definition solution_ok :: "'f evaluator \<Rightarrow> 'f hgraph \<Rightarrow> nat list \<Rightarrow> bool" where
  "solution_ok ev hg solution \<longleftrightarrow> length solution = hg_num_vertices hg \<and> (\<forall>v < hg_num_vertices hg. solution ! v < ev_num_parts ev)"

lemma length_GetNetDegrees [simp]: "length (GetNetDegrees ev hg solution) = hg_num_hyperedges hg"
  by (simp add: GetNetDegrees_def)

lemma count_row:
  "length (fold (\<lambda>v row. row[f v := row ! f v + 1]) vs row) = length (row :: int list)"
  "p < length row \<Longrightarrow> fold (\<lambda>v row. row[f v := row ! f v + 1]) vs row ! p = row ! p + int (length (filter (\<lambda>v. f v = p) vs))"
proof (induction vs arbitrary: row)
  case (Cons v vs)
  {
    case 1
    then show ?case using Cons.IH(1) [of "row[f v := row ! f v + 1]"] by simp
  next
    case 2
    then show ?case using Cons.IH(2) [of "row[f v := row ! f v + 1]"] by (cases "f v = p") simp_all
  }
qed simp_all

lemma GetNetDegrees_nth:
  assumes "e < hg_num_hyperedges hg"
  shows "length (GetNetDegrees ev hg solution ! e) = ev_num_parts ev"
    and "p < ev_num_parts ev \<Longrightarrow>
      GetNetDegrees ev hg solution ! e ! p = int (length (filter (\<lambda>v. solution ! v = p) (Vertices hg e)))"
  using assms by (simp_all add: GetNetDegrees_def count_row)

lemma GetBlockBalance_shape:
  assumes "hg_ok hg"
  shows "length (GetBlockBalance ev hg solution) = ev_num_parts ev
    \<and> (\<forall>p < ev_num_parts ev. length (GetBlockBalance ev hg solution ! p) = hg_vertex_dims hg)"
proof -
  have "length (fold (\<lambda>v bal. bal[solution ! v := vec_add (bal ! (solution ! v)) (GetVertexWeights hg v)]) vs bal) = length bal
    \<and> (\<forall>p < length bal. length (fold (\<lambda>v bal. bal[solution ! v := vec_add (bal ! (solution ! v)) (GetVertexWeights hg v)]) vs bal ! p)
          = hg_vertex_dims hg)"
    if "\<forall>p < length bal. length (bal ! p) = hg_vertex_dims hg" "\<forall>v \<in> set vs. v < hg_num_vertices hg" for vs bal
    using that
  proof (induction vs arbitrary: bal)
    case (Cons v vs)
    let ?b = "bal[solution ! v := vec_add (bal ! (solution ! v)) (GetVertexWeights hg v)]"
    have "length (?b ! p) = hg_vertex_dims hg" if "p < length ?b" for p
      using that Cons.prems hg_okD(2) [OF assms] by (cases "solution ! v = p") simp_all
    then have "\<forall>p < length ?b. length (?b ! p) = hg_vertex_dims hg" by blast
    then show ?case using Cons.IH [of ?b] Cons.prems(2) by simp
  qed simp
  from this [of "replicate (ev_num_parts ev) (replicate (hg_vertex_dims hg) 0)" "[0..<hg_num_vertices hg]"]
  show ?thesis by (simp add: GetBlockBalance_def)
qed

lemma GetBlockBalance_nth:
  fixes hg :: "'f::comm_monoid_add hgraph"
  assumes ok: "hg_ok hg" and "p < ev_num_parts ev" "d < hg_vertex_dims hg"
  shows "GetBlockBalance ev hg solution ! p ! d
    = (\<Sum>v | v < hg_num_vertices hg \<and> solution ! v = p. GetVertexWeights hg v ! d)"
proof -
  let ?add = "\<lambda>v bal. bal[solution ! v := vec_add (bal ! (solution ! v)) (GetVertexWeights hg v)]"
  have "length (fold ?add [0..<n] bal) = length bal
      \<and> length (fold ?add [0..<n] bal ! p) = hg_vertex_dims hg
      \<and> fold ?add [0..<n] bal ! p ! d = bal ! p ! d + (\<Sum>v | v < n \<and> solution ! v = p. GetVertexWeights hg v ! d)"
    if "p < length bal" "length (bal ! p) = hg_vertex_dims hg" "n \<le> hg_num_vertices hg" for n bal
    using that(3)
  proof (induction n)
    case 0
    then show ?case using that by simp
  next
    case (Suc n)
    then have IH: "length (fold ?add [0..<n] bal) = length bal" "length (fold ?add [0..<n] bal ! p) = hg_vertex_dims hg"
      "fold ?add [0..<n] bal ! p ! d = bal ! p ! d + (\<Sum>v | v < n \<and> solution ! v = p. GetVertexWeights hg v ! d)"
      by simp_all
    have w: "length (GetVertexWeights hg n) = hg_vertex_dims hg" using hg_okD(2) [OF ok] Suc.prems by simp
    have "{v. v < Suc n \<and> solution ! v = p} = (if solution ! n = p then insert n {v. v < n \<and> solution ! v = p}
        else {v. v < n \<and> solution ! v = p})"
      by (auto simp: less_Suc_eq)
    then show ?case using IH w that(1) assms(3) by (auto simp: ac_simps)
  qed
  from this [of "replicate (ev_num_parts ev) (replicate (hg_vertex_dims hg) 0)" "hg_num_vertices hg"]
  show ?thesis using assms by (simp add: GetBlockBalance_def)
qed

text \<open>A hyperedge is cut when it has vertices in different blocks.\<close>

definition is_cut :: "'f hgraph \<Rightarrow> nat list \<Rightarrow> nat \<Rightarrow> bool" where
  "is_cut hg solution e \<longleftrightarrow> (\<exists>u \<in> set (Vertices hg e). \<exists>v \<in> set (Vertices hg e). solution ! u \<noteq> solution ! v)"

lemma GetCutHyperedges_iff:
  "GetCutHyperedges hg solution = filter (is_cut hg solution) [0..<hg_num_hyperedges hg]"
proof -
  have "list_ex (\<lambda>v. solution ! v \<noteq> solution ! hd vs) (tl vs) \<longleftrightarrow> (\<exists>u \<in> set vs. \<exists>v \<in> set vs. solution ! u \<noteq> solution ! v)" for vs
  proof (cases vs)
    case (Cons a list)
    have "(\<exists>u \<in> set vs. \<exists>v \<in> set vs. solution ! u \<noteq> solution ! v) \<longleftrightarrow> (\<exists>v \<in> set list. solution ! v \<noteq> solution ! a)"
      using Cons by simp metis
    then show ?thesis using Cons by (simp add: list_ex_iff)
  qed simp
  then show ?thesis unfolding GetCutHyperedges_def is_cut_def by simp
qed

lemma fold_plus_sum:
  fixes f :: "'a \<Rightarrow> 'f::comm_monoid_add"
  assumes "distinct xs"
  shows "fold (\<lambda>x acc. acc + f x) xs a = a + (\<Sum>x \<in> set xs. f x)"
  using assms by (induction xs arbitrary: a) (auto simp: ac_simps)

lemma pt_cost_sums:
  fixes hg :: "'f::linordered_idom hgraph"
  shows "pt_cost (CutEvaluator ev hg solution)
    = (\<Sum>e | e < hg_num_hyperedges hg \<and> is_cut hg solution e. CalculateHyperedgeCost ev e hg)
      + (\<Sum>p < hg_num_paths hg. EvCalculatePathCost ev p hg solution)"
proof -
  have "{e. e < hg_num_hyperedges hg \<and> is_cut hg solution e} = set (filter (is_cut hg solution) [0..<hg_num_hyperedges hg])"
    by auto
  moreover have "{..<hg_num_paths hg} = set [0..<hg_num_paths hg]" by auto
  ultimately show ?thesis
    unfolding CutEvaluator_def Let_def GetCutHyperedges_iff
    by (simp only: fold_plus_sum distinct_filter distinct_upt partition_token.simps add_0)
qed

end
