(* ===== verification/ParRefiner.thy ===== *)
theory ParRefiner imports ParEvaluator ParHeap begin

text \<open>
  \<open>src/par/src/Refiner.cpp\<close>: what all refiners share.  A refiner improves a solution by moving
  vertices, or all vertices of a hyperedge, to another block, and keeps the degrees of the
  hyperedges, the weights of the blocks and the costs of the timing paths up to date as it goes.
\<close>

section \<open>The refiner and its state\<close>

record 'f refiner =
  rf_num_parts :: nat
  rf_refiner_iters :: nat
  rf_path_wt_factor :: 'f
  rf_snaking_wt_factor :: 'f
  rf_max_move :: nat
  rf_refiner_iters_default :: nat
  rf_max_move_default :: nat
  rf_evaluator :: "'f evaluator"

definition SetMaxMove :: "'f refiner \<Rightarrow> nat \<Rightarrow> 'f refiner" where
  "SetMaxMove rf max_move = rf\<lparr>rf_max_move := max_move\<rparr>"

definition SetRefineIters :: "'f refiner \<Rightarrow> nat \<Rightarrow> 'f refiner" where
  "SetRefineIters rf refiner_iters = rf\<lparr>rf_refiner_iters := refiner_iters\<rparr>"

definition RestoreDefaultParameters :: "'f refiner \<Rightarrow> 'f refiner" where
  "RestoreDefaultParameters rf =
    rf\<lparr>rf_max_move := rf_max_move_default rf, rf_refiner_iters := rf_refiner_iters_default rf\<rparr>"

text \<open>What a pass receives by reference and changes.\<close>

record 'f rstate =
  rs_visited :: "bool list"
  rs_solution :: "nat list"
  rs_paths :: "'f list"
  rs_balance :: "'f list list"
  rs_degs :: "int list list"

section \<open>Costs and neighbours\<close>

text \<open>The cost of a path after moving \<open>v\<close> to \<open>to_pid\<close>, or as it is when \<open>to_pid\<close> is \<open>-1\<close>.\<close>

definition CalculatePathCost ::
    "'f::{zero,one,plus,minus,times} refiner \<Rightarrow> nat \<Rightarrow> 'f hgraph \<Rightarrow> nat list \<Rightarrow> int \<Rightarrow> int \<Rightarrow> 'f" where
  "CalculatePathCost rf path_id hg solution v to_pid =
    (if hg_num_paths hg = 0 \<or> path_id \<ge> hg_num_paths hg then 0
     else path_cost (rf_path_wt_factor rf) (rf_snaking_wt_factor rf) (hg_path_cost hg ! path_id)
            (map (\<lambda>u. if to_pid \<noteq> -1 \<and> int u = v then nat to_pid else solution ! u) (PathVertices hg path_id)))"

definition spans_two :: "nat \<Rightarrow> int list \<Rightarrow> bool" where
  "spans_two num_parts row \<longleftrightarrow> length (filter (\<lambda>i. row ! i > 0) [0..<num_parts]) \<ge> 2"

definition boundary_of :: "'f hgraph \<Rightarrow> (nat \<Rightarrow> bool) \<Rightarrow> bool list \<Rightarrow> nat list" where
  "boundary_of hg boundary_net_flag visited =
    filter (\<lambda>v. \<not> visited ! v \<and> list_ex boundary_net_flag (Edges hg v)) [0..<hg_num_vertices hg]"

definition FindBoundaryVertices :: "'f refiner \<Rightarrow> 'f hgraph \<Rightarrow> int list list \<Rightarrow> bool list \<Rightarrow> nat list" where
  "FindBoundaryVertices rf hg net_degs visited = boundary_of hg (\<lambda>e. spans_two (rf_num_parts rf) (net_degs ! e)) visited"

text \<open>For a pair of blocks; the solution is a parameter of the function that it does not use.\<close>

definition FindBoundaryVerticesPair :: "'f hgraph \<Rightarrow> int list list \<Rightarrow> bool list \<Rightarrow> nat list \<Rightarrow> nat \<times> nat \<Rightarrow> nat list" where
  "FindBoundaryVerticesPair hg net_degs visited solution pair =
    boundary_of hg (\<lambda>e. net_degs ! e ! fst pair > 0 \<and> net_degs ! e ! snd pair > 0) visited"

definition FindNeighbors :: "'f hgraph \<Rightarrow> nat \<Rightarrow> bool list \<Rightarrow> nat list" where
  "FindNeighbors hg vertex_id visited =
    sort (remdups (filter (\<lambda>v. \<not> visited ! v) (concat (map (Vertices hg) (Edges hg vertex_id)))))"

definition FindNeighborsPair :: "'f hgraph \<Rightarrow> nat \<Rightarrow> bool list \<Rightarrow> nat list \<Rightarrow> nat \<times> nat \<Rightarrow> nat list" where
  "FindNeighborsPair hg vertex_id visited solution pair =
    sort (remdups (filter (\<lambda>v. \<not> visited ! v \<and> (solution ! v = fst pair \<or> solution ! v = snd pair))
      (concat (map (Vertices hg) (Edges hg vertex_id)))))"

section \<open>Moving a vertex\<close>

text \<open>Assignment in a \<open>std::map\<close>, whose entries are in the order of the keys.\<close>

fun map_assign :: "nat \<Rightarrow> 'f \<Rightarrow> (nat \<times> 'f) list \<Rightarrow> (nat \<times> 'f) list" where
  "map_assign k x [] = [(k, x)]"
| "map_assign k x ((k', x') # m) =
    (if k < k' then (k, x) # (k', x') # m else if k = k' then (k, x) # m else (k', x') # map_assign k x m)"

definition GetConnectivity :: "int list \<Rightarrow> nat" where
  "GetConnectivity row = length (filter (\<lambda>num_v. num_v > 0) row)"

text \<open>What a hyperedge with these degrees adds to the score of a move.\<close>

definition cut_term :: "int list \<Rightarrow> nat \<Rightarrow> nat \<Rightarrow> 'f::{plus,minus} \<Rightarrow> 'f \<Rightarrow> 'f" where
  "cut_term row from_pid to_pid e_score cut_score =
    (let connectivity = GetConnectivity row
     in if connectivity = 0 then cut_score
        else if connectivity = 1 \<and> row ! from_pid > 1 then cut_score - e_score
        else if connectivity = 2 \<and> row ! from_pid = 1 \<and> row ! to_pid > 0 then cut_score + e_score
        else cut_score)"

definition CalculateVertexGain ::
    "'f::{zero,one,plus,minus,times} refiner \<Rightarrow> nat \<Rightarrow> nat \<Rightarrow> nat \<Rightarrow> 'f hgraph \<Rightarrow> nat list \<Rightarrow> 'f list \<Rightarrow> int list list
     \<Rightarrow> 'f gain_cell" where
  "CalculateVertexGain rf v from_pid to_pid hg solution cur_paths_cost net_degs =
    (if from_pid = to_pid
     then \<lparr>gc_vertex = int v, gc_src = int from_pid, gc_dst = int to_pid, gc_gain = 0, gc_paths = []\<rparr>
     else
       let cut_score = fold (\<lambda>e score. cut_term (net_degs ! e) from_pid to_pid (CalculateHyperedgeCost (rf_evaluator rf) e hg) score)
             (Edges hg v) 0;
           (path_score, delta) =
             (if hg_num_paths hg > 0
              then fold (\<lambda>path_id (score, delta).
                     let cost = CalculatePathCost rf path_id hg solution (int v) (int to_pid)
                     in (score + (cur_paths_cost ! path_id - cost), map_assign path_id (cost - cur_paths_cost ! path_id) delta))
                   (TimingPathsThrough hg v) (0, [])
              else (0, []))
       in \<lparr>gc_vertex = int v, gc_src = int from_pid, gc_dst = int to_pid, gc_gain = cut_score + path_score, gc_paths = delta\<rparr>)"

text \<open>One vertex leaves a block and enters another, in all its hyperedges.\<close>

definition move_degs :: "nat list \<Rightarrow> nat \<Rightarrow> nat \<Rightarrow> int list list \<Rightarrow> int list list" where
  "move_degs edges from_pid to_pid degs =
    fold (\<lambda>he degs. let degs1 = degs[he := (degs ! he)[from_pid := degs ! he ! from_pid - 1]]
                    in degs1[he := (degs1 ! he)[to_pid := degs1 ! he ! to_pid + 1]]) edges degs"

definition AcceptVertexGain ::
    "'f::{plus,minus} gain_cell \<Rightarrow> 'f hgraph \<Rightarrow> 'f \<Rightarrow> 'f rstate \<Rightarrow> 'f \<times> 'f rstate" where
  "AcceptVertexGain c hg total_delta_gain st =
    (let v = nat (gc_vertex c); pre = nat (gc_src c); new = nat (gc_dst c);
         bal1 = (rs_balance st)[pre := vec_sub (rs_balance st ! pre) (GetVertexWeights hg v)];
         bal2 = bal1[new := vec_add (bal1 ! new) (GetVertexWeights hg v)]
     in (total_delta_gain + gc_gain c,
         \<lparr>rs_visited = (rs_visited st)[v := True],
          rs_solution = (rs_solution st)[v := new],
          rs_paths = fold (\<lambda>(p, d) cur. cur[p := cur ! p + d]) (gc_paths c) (rs_paths st),
          rs_balance = bal2,
          rs_degs = move_degs (Edges hg v) pre new (rs_degs st)\<rparr>))"

definition RollBackVertexGain :: "'f::{plus,minus} gain_cell \<Rightarrow> 'f hgraph \<Rightarrow> 'f rstate \<Rightarrow> 'f rstate" where
  "RollBackVertexGain c hg st =
    (let v = nat (gc_vertex c); pre = nat (gc_src c); new = nat (gc_dst c);
         bal1 = (rs_balance st)[pre := vec_add (rs_balance st ! pre) (GetVertexWeights hg v)];
         bal2 = bal1[new := vec_sub (bal1 ! new) (GetVertexWeights hg v)]
     in \<lparr>rs_visited = (rs_visited st)[v := False],
         rs_solution = (rs_solution st)[v := pre],
         rs_paths = fold (\<lambda>(p, d) cur. cur[p := cur ! p - d]) (gc_paths c) (rs_paths st),
         rs_balance = bal2,
         rs_degs = fold (\<lambda>he degs. let degs1 = degs[he := (degs ! he)[pre := degs ! he ! pre + 1]]
                                  in degs1[he := (degs1 ! he)[new := degs1 ! he ! new - 1]])
                     (Edges hg v) (rs_degs st)\<rparr>)"

text \<open>\<open><=\<close> on the weights is the lexicographic comparison of the standard library.\<close>

definition CheckVertexMoveLegality ::
    "nat \<Rightarrow> nat \<Rightarrow> nat \<Rightarrow> 'f::{linorder,plus,minus} hgraph \<Rightarrow> 'f list list \<Rightarrow> 'f list list \<Rightarrow> 'f list list \<Rightarrow> bool" where
  "CheckVertexMoveLegality v to_pid from_pid hg cur upper lower \<longleftrightarrow>
    vec_le (vec_add (cur ! to_pid) (GetVertexWeights hg v)) (upper ! to_pid)
    \<and> vec_le (lower ! from_pid) (vec_sub (cur ! from_pid) (GetVertexWeights hg v))"

section \<open>Moving a hyperedge\<close>

record 'f hyperedge_gain =
  hy_id :: nat
  hy_dst :: int
  hy_gain :: 'f
  hy_paths :: "(nat \<times> 'f) list"

text \<open>
  The vertices that are not in the block yet are moved one after the other, on copies of the
  degrees and of the solution; the code works on the solution itself and restores it.
\<close>

definition CalculateHyperedgeGain ::
    "'f::{zero,one,plus,minus,times} refiner \<Rightarrow> nat \<Rightarrow> nat \<Rightarrow> 'f hgraph \<Rightarrow> nat list \<Rightarrow> 'f list \<Rightarrow> int list list
     \<Rightarrow> 'f hyperedge_gain" where
  "CalculateHyperedgeGain rf hyperedge_id to_pid hg solution cur_paths_cost net_degs =
    (let vertices = map (\<lambda>v. (v, solution ! v)) (filter (\<lambda>v. solution ! v \<noteq> to_pid) (Vertices hg hyperedge_id))
     in if vertices = [] then \<lparr>hy_id = hyperedge_id, hy_dst = int to_pid, hy_gain = 0, hy_paths = []\<rparr>
        else
          let (cut_score, degs) =
                fold (\<lambda>(v, from_pid) acc.
                  fold (\<lambda>e (score, degs).
                      if GetConnectivity (degs ! e) = 0 then (score, degs)
                      else (cut_term (degs ! e) from_pid to_pid (CalculateHyperedgeCost (rf_evaluator rf) e hg) score,
                            move_degs [e] from_pid to_pid degs))
                    (Edges hg v) acc) vertices (0, net_degs);
              moved = fold (\<lambda>(v, _) sol. sol[v := to_pid]) vertices solution;
              (path_score, delta) =
                (if hg_num_paths hg > 0
                 then fold (\<lambda>(v, _) acc.
                        fold (\<lambda>path_id (score, delta).
                            if path_id \<in> fst ` set delta then (score, delta)
                            else let cost = CalculatePathCost rf path_id hg moved (int v) (int to_pid)
                                 in (score + (cur_paths_cost ! path_id - cost),
                                     map_assign path_id (cost - cur_paths_cost ! path_id) delta))
                          (TimingPathsThrough hg v) acc) vertices (0, [])
                 else (0, []))
          in \<lparr>hy_id = hyperedge_id, hy_dst = int to_pid, hy_gain = cut_score + path_score, hy_paths = delta\<rparr>)"

definition AcceptHyperedgeGain ::
    "'f::{plus,minus} hyperedge_gain \<Rightarrow> 'f hgraph \<Rightarrow> 'f \<Rightarrow> 'f rstate \<Rightarrow> 'f \<times> 'f rstate" where
  "AcceptHyperedgeGain g hg total_delta_gain st =
    (let new = nat (hy_dst g);
         st1 = st\<lparr>rs_paths := fold (\<lambda>(p, d) cur. cur[p := cur ! p + d]) (hy_paths g) (rs_paths st)\<rparr>
     in (total_delta_gain + hy_gain g,
         fold (\<lambda>v st.
             let pre = rs_solution st ! v
             in if pre = new then st
                else let bal1 = (rs_balance st)[pre := vec_sub (rs_balance st ! pre) (GetVertexWeights hg v)];
                         bal2 = bal1[new := vec_add (bal1 ! new) (GetVertexWeights hg v)]
                     in st\<lparr>rs_solution := (rs_solution st)[v := new], rs_balance := bal2,
                           rs_degs := move_degs (Edges hg v) pre new (rs_degs st)\<rparr>)
           (Vertices hg (hy_id g)) st1))"

definition CheckHyperedgeMoveLegality ::
    "'f::{linorder,plus,minus} refiner \<Rightarrow> nat \<Rightarrow> nat \<Rightarrow> 'f hgraph \<Rightarrow> nat list \<Rightarrow> 'f list list \<Rightarrow> 'f list list \<Rightarrow> 'f list list
     \<Rightarrow> bool" where
  "CheckHyperedgeMoveLegality rf e to_pid hg solution cur upper lower =
    (let update = fold (\<lambda>v bal.
           if solution ! v \<noteq> to_pid
           then let bal1 = bal[to_pid := vec_add (bal ! to_pid) (GetVertexWeights hg v)]
                in bal1[solution ! v := vec_sub (bal1 ! (solution ! v)) (GetVertexWeights hg v)]
           else bal) (Vertices hg e) cur
     in if list_ex (\<lambda>v. hg_fixed_flag hg \<and> hg_fixed_attr hg ! v \<noteq> int to_pid) (Vertices hg e) then False
        else if vec_less (upper ! to_pid) (update ! to_pid) then False
        else list_all (\<lambda>pid. pid \<noteq> to_pid \<longrightarrow> \<not> vec_less (update ! pid) (lower ! pid)) [0..<rf_num_parts rf])"

section \<open>The refinement loop\<close>

text \<open>
  \<open>Refine\<close> calls the virtual function \<open>Pass\<close> until it reports no gain.  A pass returns the gain and the
  state, or no value where it would read an element that does not exist.
\<close>

definition fixed_flags :: "'f hgraph \<Rightarrow> bool list" where
  "fixed_flags hg = map (\<lambda>v. hg_fixed_flag hg \<and> hg_fixed_attr hg ! v > -1) [0..<hg_num_vertices hg]"

primrec refine_loop ::
    "('f::{linorder,zero} rstate \<Rightarrow> ('f \<times> 'f rstate) option) \<Rightarrow> 'f hgraph \<Rightarrow> nat \<Rightarrow> 'f rstate \<Rightarrow> 'f rstate option" where
  "refine_loop pass hg 0 st = Some st"
| "refine_loop pass hg (Suc iters) st =
    (case pass (st\<lparr>rs_visited := fixed_flags hg\<rparr>) of
       None \<Rightarrow> None
     | Some (gain, st') \<Rightarrow> if gain \<le> 0 then Some st' else refine_loop pass hg iters st')"

definition Refine ::
    "('f::{linorder,zero,one,plus,minus,times} rstate \<Rightarrow> ('f \<times> 'f rstate) option) \<Rightarrow> 'f refiner \<Rightarrow> 'f hgraph \<Rightarrow> nat list
     \<Rightarrow> nat list option" where
  "Refine pass rf hg solution =
    (if rf_max_move rf \<le> 0 then Some solution
     else
       let st = \<lparr>rs_visited = [], rs_solution = solution,
                 rs_paths = (if hg_timing_flag hg then GetPathsCost (rf_evaluator rf) hg solution else []),
                 rs_balance = GetBlockBalance (rf_evaluator rf) hg solution,
                 rs_degs = GetNetDegrees (rf_evaluator rf) hg solution\<rparr>
       in map_option rs_solution (refine_loop pass hg (rf_refiner_iters rf) st))"

end
