(* ===== verification/ParMoves.thy ===== *)
theory ParMoves imports ParRefiner begin

text \<open>
  Moving vertices: the degrees, weights and path costs that a move updates are those of the new
  solution, taking a move back restores them, and the gain computed for a move is the decrease of
  the solution's cost.  Arithmetic is exact here.
\<close>

section \<open>Degrees\<close>

lemma move_degs_shape [simp]: "length (move_degs edges p q degs) = length degs"
  by (induction edges arbitrary: degs) (auto simp: move_degs_def Let_def)

lemma move_degs_Cons:
  "move_degs (e # edges) p q degs = move_degs edges p q (move_degs [e] p q degs)"
  by (simp add: move_degs_def)

definition move_row :: "nat \<Rightarrow> nat \<Rightarrow> int list \<Rightarrow> int list" where
  "move_row p q row = (let row1 = row[p := row ! p - 1] in row1[q := row1 ! q + 1])"

lemma length_move_row [simp]: "length (move_row p q row) = length row"
  by (simp add: move_row_def Let_def)

lemma move_row_nth:
  "p \<noteq> q \<Longrightarrow> b < length row \<Longrightarrow> move_row p q row ! b = row ! b + (if b = q then 1 else 0) - (if b = p then 1 else 0)"
  by (auto simp: move_row_def Let_def nth_list_update)

lemma move_degs_one: "e < length degs \<Longrightarrow> move_degs [e] p q degs = degs[e := move_row p q (degs ! e)]"
  by (simp add: move_degs_def move_row_def Let_def)

lemma move_degs_nth:
  assumes "distinct edges" "\<forall>e \<in> set edges. e < length degs" "e < length degs"
  shows "move_degs edges p q degs ! e = (if e \<in> set edges then move_row p q (degs ! e) else degs ! e)"
  using assms
proof (induction edges arbitrary: degs)
  case (Cons a edges)
  then have "move_degs [a] p q degs = degs[a := move_row p q (degs ! a)]" by (simp add: move_degs_one)
  then show ?case
    using Cons by (subst move_degs_Cons) (auto simp: nth_list_update)
qed (simp add: move_degs_def)

text \<open>The edges of a vertex, and the vertices of an edge.\<close>

lemma Edges_facts:
  assumes "hg_ok hg" "v < hg_num_vertices hg"
  shows "distinct (Edges hg v)"
    and "e \<in> set (Edges hg v) \<longleftrightarrow> e < hg_num_hyperedges hg \<and> v \<in> set (Vertices hg e)"
  using hg_okD(5) [OF assms] by auto

lemma solution_ok_update:
  assumes "solution_ok ev hg sol" "q < ev_num_parts ev"
  shows "solution_ok ev hg (sol[v := q])"
proof -
  have "(sol[v := q]) ! u < ev_num_parts ev" if "u < hg_num_vertices hg" for u
    using that assms by (cases "u = v") (auto simp: solution_ok_def)
  then show ?thesis using assms(1) by (simp add: solution_ok_def)
qed

lemma filter_change_none:
  "v \<notin> set vs \<Longrightarrow> filter (\<lambda>u. (sol[v := q]) ! u = b) vs = filter (\<lambda>u. sol ! u = b) vs"
proof (rule filter_cong)
  fix u assume "v \<notin> set vs" "u \<in> set vs"
  then have "v \<noteq> u" by blast
  then show "((sol[v := q]) ! u = b) = (sol ! u = b)" by simp
qed simp

lemma filter_change_one:
  assumes "distinct vs" "v < length sol"
  shows "int (length (filter (\<lambda>u. (sol[v := q]) ! u = b) vs))
    = int (length (filter (\<lambda>u. sol ! u = b) vs))
      + (if v \<in> set vs then (if b = q then 1 else 0) - (if b = sol ! v then 1 else 0) else 0)"
  using assms(1)
proof (induction vs)
  case (Cons a vs)
  then show ?case using assms(2) by (cases "a = v") (auto simp: filter_change_none)
qed simp

lemma degrees_of_move:
  assumes ok: "hg_ok hg" and sol: "solution_ok ev hg sol" and v: "v < hg_num_vertices hg" and q: "q < ev_num_parts ev"
    and ne: "sol ! v \<noteq> q"
  shows "move_degs (Edges hg v) (sol ! v) q (GetNetDegrees ev hg sol) = GetNetDegrees ev hg (sol[v := q])"
proof (rule nth_equalityI)
  let ?D = "GetNetDegrees ev hg"
  show "length (move_degs (Edges hg v) (sol ! v) q (?D sol)) = length (?D (sol[v := q]))" by simp
  fix e assume "e < length (move_degs (Edges hg v) (sol ! v) q (?D sol))"
  then have e: "e < hg_num_hyperedges hg" by simp
  note E = Edges_facts [OF ok v]
  have sv: "sol ! v < ev_num_parts ev" "v < length sol" using sol v by (auto simp: solution_ok_def)
  have M: "move_degs (Edges hg v) (sol ! v) q (?D sol) ! e
      = (if v \<in> set (Vertices hg e) then move_row (sol ! v) q (?D sol ! e) else ?D sol ! e)"
    using move_degs_nth [OF E(1), of "?D sol" e] E(2) e by auto
  have len: "length (?D s ! e) = ev_num_parts ev" for s using GetNetDegrees_nth(1) [OF e] .
  show "move_degs (Edges hg v) (sol ! v) q (?D sol) ! e = ?D (sol[v := q]) ! e"
  proof (rule nth_equalityI)
    show "length (move_degs (Edges hg v) (sol ! v) q (?D sol) ! e) = length (?D (sol[v := q]) ! e)" by (simp add: M len)
    fix b assume "b < length (move_degs (Edges hg v) (sol ! v) q (?D sol) ! e)"
    then have b: "b < ev_num_parts ev" by (simp add: M len split: if_splits)
    show "move_degs (Edges hg v) (sol ! v) q (?D sol) ! e ! b = ?D (sol[v := q]) ! e ! b"
      using filter_change_one [OF hg_okD(3) [OF ok e] sv(2), of q b] sv b ne
      by (auto simp: M GetNetDegrees_nth(2) [OF e b] move_row_nth len)
  qed
qed

text \<open>Taking the move back.\<close>

lemma degs_back:
  assumes "distinct edges" "\<forall>e \<in> set edges. e < length degs" "\<forall>e \<in> set edges. p < length (degs ! e) \<and> q < length (degs ! e)"
  shows "fold (\<lambda>he degs. let degs1 = degs[he := (degs ! he)[p := degs ! he ! p + 1]]
                         in degs1[he := (degs1 ! he)[q := degs1 ! he ! q - 1]]) edges (move_degs edges p q degs) = degs"
proof -
  have undo: "(let degs1 = ds[he := (ds ! he)[p := ds ! he ! p + 1]] in degs1[he := (degs1 ! he)[q := degs1 ! he ! q - 1]])
      = move_degs [he] q p ds" if "p < length (ds ! he)" "q < length (ds ! he)" "he < length ds" for ds he
  proof -
    have "(let row1 = row[p := row ! p + 1] in row1[q := row1 ! q - 1]) = move_row q p row"
      if "p < length row" "q < length row" for row :: "int list"
      using that by (intro nth_equalityI) (auto simp: move_row_def Let_def nth_list_update)
    from this [OF that(1,2)] show ?thesis using that by (simp add: move_degs_one Let_def)
  qed
  have B: "fold (\<lambda>he degs. let degs1 = degs[he := (degs ! he)[p := degs ! he ! p + 1]]
                         in degs1[he := (degs1 ! he)[q := degs1 ! he ! q - 1]]) es ds = move_degs es q p ds"
    if "\<forall>e \<in> set es. e < length ds \<and> p < length (ds ! e) \<and> q < length (ds ! e)" for es ds
    using that
  proof (induction es arbitrary: ds)
    case (Cons he es)
    have "\<forall>e \<in> set es. e < length (move_degs [he] q p ds) \<and> p < length (move_degs [he] q p ds ! e) \<and> q < length (move_degs [he] q p ds ! e)"
      using Cons.prems by (simp add: move_degs_one nth_list_update)
    from Cons.IH [OF this] show ?case
      using Cons.prems undo [of ds he] by (simp add: move_degs_Cons [of he es])
  qed (simp add: move_degs_def)
  have row: "move_row q p (move_row p q row) = row" if "p < length row" "q < length row" for row
    using that by (intro nth_equalityI) (auto simp: move_row_def Let_def nth_list_update)
  let ?D = "move_degs edges p q degs"
  have "\<forall>e \<in> set edges. e < length ?D \<and> p < length (?D ! e) \<and> q < length (?D ! e)"
    using assms by (simp add: move_degs_nth)
  from B [OF this] show ?thesis
    using assms row by (auto intro!: nth_equalityI simp: move_degs_nth)
qed

section \<open>Weights of the blocks\<close>

lemma balance_of_move:
  fixes hg :: "'f::linordered_idom hgraph"
  assumes ok: "hg_ok hg" and sol: "solution_ok ev hg sol" and v: "v < hg_num_vertices hg" and q: "q < ev_num_parts ev"
    and ne: "sol ! v \<noteq> q"
  defines "bal \<equiv> GetBlockBalance ev hg sol" and "w \<equiv> GetVertexWeights hg v"
  defines "bal1 \<equiv> bal[sol ! v := vec_sub (bal ! (sol ! v)) w]"
  shows "bal1[q := vec_add (bal1 ! q) w] = GetBlockBalance ev hg (sol[v := q])"
proof (rule nth_equalityI)
  let ?p = "sol ! v"
  have sv: "?p < ev_num_parts ev" "v < length sol" "length sol = hg_num_vertices hg"
    using sol v by (auto simp: solution_ok_def)
  note S = GetBlockBalance_shape [OF ok, of ev]
  show "length (bal1[q := vec_add (bal1 ! q) w]) = length (GetBlockBalance ev hg (sol[v := q]))"
    using S by (simp add: bal1_def bal_def)
  fix b assume "b < length (bal1[q := vec_add (bal1 ! q) w])"
  then have b: "b < ev_num_parts ev" using S by (simp add: bal1_def bal_def)
  have w: "length w = hg_vertex_dims hg" using hg_okD(2) [OF ok v] by (simp add: w_def)
  show "bal1[q := vec_add (bal1 ! q) w] ! b = GetBlockBalance ev hg (sol[v := q]) ! b"
  proof (rule nth_equalityI)
    show "length (bal1[q := vec_add (bal1 ! q) w] ! b) = length (GetBlockBalance ev hg (sol[v := q]) ! b)"
      using S b q sv w ne by (auto simp: bal1_def bal_def nth_list_update)
    fix d assume "d < length (bal1[q := vec_add (bal1 ! q) w] ! b)"
    then have d: "d < hg_vertex_dims hg"
      using S b q sv w ne by (auto simp: bal1_def bal_def nth_list_update split: if_splits)
    let ?W = "\<lambda>u. GetVertexWeights hg u ! d"
    let ?V = "\<lambda>s. {u. u < hg_num_vertices hg \<and> s ! u = b}"
    have B: "GetBlockBalance ev hg s ! b ! d = (\<Sum>u \<in> ?V s. ?W u)" for s
      using GetBlockBalance_nth [OF ok b d] .
    have "?V (sol[v := q]) = (if b = q then insert v (?V sol) else ?V sol - {v})"
      using v sv by (auto simp: nth_list_update)
    moreover have "v \<in> ?V sol \<longleftrightarrow> b = ?p" using v by auto
    moreover have "finite (?V sol)" by simp
    ultimately have "(\<Sum>u \<in> ?V (sol[v := q]). ?W u)
        = (\<Sum>u \<in> ?V sol. ?W u) + (if b = q then ?W v else 0) - (if b = ?p then ?W v else 0)"
      using ne by (auto simp: sum_diff1)
    moreover have "bal1[q := vec_add (bal1 ! q) w] ! b ! d
        = bal ! b ! d + (if b = q then ?W v else 0) - (if b = ?p then ?W v else 0)"
      using S b q sv w ne d by (auto simp: bal1_def bal_def nth_list_update w_def)
    ultimately show "bal1[q := vec_add (bal1 ! q) w] ! b ! d = GetBlockBalance ev hg (sol[v := q]) ! b ! d"
      by (simp add: bal_def B)
  qed
qed

section \<open>The gain of a hyperedge\<close>

lemma connectivity_blocks:
  assumes ok: "hg_ok hg" and sol: "solution_ok ev hg sol" and e: "e < hg_num_hyperedges hg"
  shows "GetConnectivity (GetNetDegrees ev hg sol ! e) = card ((\<lambda>u. sol ! u) ` set (Vertices hg e))"
proof -
  let ?row = "GetNetDegrees ev hg sol ! e"
  have "?row ! p > 0 \<longleftrightarrow> p \<in> (\<lambda>u. sol ! u) ` set (Vertices hg e)" if "p < ev_num_parts ev" for p
    using that by (auto simp: GetNetDegrees_nth(2) [OF e] filter_empty_conv)
  moreover have "sol ! u < ev_num_parts ev" if "u \<in> set (Vertices hg e)" for u
    using sol hg_okD(4) [OF ok e that] by (simp add: solution_ok_def)
  ultimately have "{p. p < length ?row \<and> ?row ! p > 0} = (\<lambda>u. sol ! u) ` set (Vertices hg e)"
    by (auto simp: GetNetDegrees_nth(1) [OF e])
  then show ?thesis by (simp add: GetConnectivity_def length_filter_conv_card)
qed

lemma degree_card:
  assumes "hg_ok hg" "e < hg_num_hyperedges hg" "p < ev_num_parts ev"
  shows "GetNetDegrees ev hg sol ! e ! p = int (card {u \<in> set (Vertices hg e). sol ! u = p})"
proof -
  have "distinct (filter (\<lambda>v. sol ! v = p) (Vertices hg e))" using hg_okD(3) [OF assms(1,2)] by simp
  from distinct_card [OF this] show ?thesis by (simp add: GetNetDegrees_nth(2) [OF assms(2,3)])
qed

text \<open>
  With \<open>B\<close> the blocks of the other vertices: the hyperedge is uncut before the move when \<open>B\<close> has no
  other block than the one left, and uncut after it when \<open>B\<close> has no other block than the one entered.
\<close>

lemma cut_term_exact:
  fixes s :: "'f::linordered_idom"
  assumes ok: "hg_ok hg" and sol: "solution_ok ev hg sol" and e: "e < hg_num_hyperedges hg"
    and v: "v \<in> set (Vertices hg e)" and q: "q < ev_num_parts ev" and ne: "sol ! v \<noteq> q"
  shows "cut_term (GetNetDegrees ev hg sol ! e) (sol ! v) q s acc
    = acc + (if is_cut hg sol e then s else 0) - (if is_cut hg (sol[v := q]) e then s else 0)"
proof -
  let ?V = "set (Vertices hg e)" and ?p = "sol ! v" and ?row = "GetNetDegrees ev hg sol ! e"
  define B where "B = (\<lambda>u. sol ! u) ` (?V - {v})"
  have vl: "v < length sol" "?p < ev_num_parts ev"
    using sol hg_okD(4) [OF ok e v] by (auto simp: solution_ok_def)
  have blocks: "(\<lambda>u. sol ! u) ` ?V = insert ?p B" using v by (auto simp: B_def)
  have blocks': "(\<lambda>u. sol[v := q] ! u) ` ?V = insert q B"
    using v vl by (auto simp: B_def nth_list_update image_iff split: if_splits)
  have finB: "finite B" by (simp add: B_def)
  have cut: "is_cut hg s' e \<longleftrightarrow> \<not> (\<exists>b. (\<lambda>u. s' ! u) ` ?V \<subseteq> {b})" for s'
    unfolding is_cut_def by (auto simp: image_subset_iff) metis+
  have c1: "is_cut hg sol e \<longleftrightarrow> \<not> B \<subseteq> {?p}" unfolding cut blocks by auto
  have c2: "is_cut hg (sol[v := q]) e \<longleftrightarrow> \<not> B \<subseteq> {q}" unfolding cut blocks' by auto
  have conn: "GetConnectivity ?row = card (insert ?p B)" using connectivity_blocks [OF ok sol e] blocks by simp
  have "{u \<in> ?V. sol ! u = ?p} = insert v {u \<in> ?V - {v}. sol ! u = ?p}" using v by auto
  then have dp: "?row ! ?p = 1 + int (card {u \<in> ?V - {v}. sol ! u = ?p})"
    using degree_card [OF ok e vl(2), of sol] by simp
  have inB: "b \<in> B \<longleftrightarrow> card {u \<in> ?V - {v}. sol ! u = b} \<noteq> 0" for b
  proof -
    have "b \<in> B \<longleftrightarrow> {u \<in> ?V - {v}. sol ! u = b} \<noteq> {}" unfolding B_def by blast
    then show ?thesis by simp
  qed
  have p1: "?row ! ?p > 1 \<longleftrightarrow> ?p \<in> B" "?row ! ?p = 1 \<longleftrightarrow> ?p \<notin> B"
    unfolding dp inB by linarith+
  have "{u \<in> ?V. sol ! u = q} = {u \<in> ?V - {v}. sol ! u = q}" using ne by auto
  then have dq: "?row ! q = int (card {u \<in> ?V - {v}. sol ! u = q})"
    using degree_card [OF ok e q, of sol] by simp
  have q1: "?row ! q > 0 \<longleftrightarrow> q \<in> B" unfolding dq inB by linarith
  have pos: "card (insert ?p B) \<noteq> 0" using finB by auto
  have one: "card (insert ?p B) = 1 \<longleftrightarrow> B \<subseteq> {?p}"
    using finB by (auto simp: card_Suc_eq)
  have two: "card (insert ?p B) = 2 \<and> ?p \<notin> B \<and> q \<in> B \<longleftrightarrow> B = {q}"
  proof
    assume a: "card (insert ?p B) = 2 \<and> ?p \<notin> B \<and> q \<in> B"
    then have "Suc (card B) = 2" using card_insert_disjoint [OF finB, of ?p] by simp
    then have "card B = 1" by simp
    then show "B = {q}" using a by (auto simp: card_Suc_eq)
  next
    assume "B = {q}"
    then show "card (insert ?p B) = 2 \<and> ?p \<notin> B \<and> q \<in> B" using ne by simp
  qed
  have "cut_term ?row ?p q s acc
      = (if B \<subseteq> {?p} \<and> ?p \<in> B then acc - s else if B = {q} then acc + s else acc)"
    using pos one two p1 q1 unfolding cut_term_def Let_def conn by auto
  then show ?thesis unfolding c1 c2 using ne by (auto simp: subset_singleton_iff)
qed

lemma fold_cut_terms:
  fixes cost :: "nat \<Rightarrow> 'f::linordered_idom"
  assumes ok: "hg_ok hg" and sol: "solution_ok ev hg sol" and q: "q < ev_num_parts ev" and ne: "sol ! v \<noteq> q"
    and "\<forall>e \<in> set es. e < hg_num_hyperedges hg \<and> v \<in> set (Vertices hg e)" "distinct es"
  shows "fold (\<lambda>e score. cut_term (GetNetDegrees ev hg sol ! e) (sol ! v) q (cost e) score) es acc
    = acc + (\<Sum>e \<in> set es. (if is_cut hg sol e then cost e else 0) - (if is_cut hg (sol[v := q]) e then cost e else 0))"
  using assms(5,6)
proof (induction es arbitrary: acc)
  case (Cons e es)
  have "cut_term (GetNetDegrees ev hg sol ! e) (sol ! v) q (cost e) acc
      = acc + ((if is_cut hg sol e then cost e else 0) - (if is_cut hg (sol[v := q]) e then cost e else 0))"
    using cut_term_exact [OF ok sol _ _ q ne, of e "cost e" acc] Cons.prems by simp
  then show ?case using Cons by (simp add: add.assoc)
qed simp

lemma is_cut_elsewhere:
  "v \<notin> set (Vertices hg e) \<Longrightarrow> is_cut hg (sol[v := q]) e \<longleftrightarrow> is_cut hg sol e"
  unfolding is_cut_def by (intro bex_cong refl) (metis nth_list_update_neq)

lemma edge_costs_of_move:
  fixes cost :: "nat \<Rightarrow> 'f::linordered_idom"
  assumes ok: "hg_ok hg" and v: "v < hg_num_vertices hg"
  shows "(\<Sum>e \<in> set (Edges hg v). (if is_cut hg sol e then cost e else 0) - (if is_cut hg (sol[v := q]) e then cost e else 0))
    = (\<Sum>e | e < hg_num_hyperedges hg \<and> is_cut hg sol e. cost e)
      - (\<Sum>e | e < hg_num_hyperedges hg \<and> is_cut hg (sol[v := q]) e. cost e)"
proof -
  let ?d = "\<lambda>e. (if is_cut hg sol e then cost e else 0) - (if is_cut hg (sol[v := q]) e then cost e else 0)"
  have eq: "(\<Sum>e | e < hg_num_hyperedges hg \<and> is_cut hg s e. cost e) = (\<Sum>e < hg_num_hyperedges hg. if is_cut hg s e then cost e else 0)" for s
    by (simp add: sum.If_cases Int_def lessThan_def conj_commute)
  have "(\<Sum>e < hg_num_hyperedges hg. ?d e) = (\<Sum>e \<in> set (Edges hg v). ?d e)"
  proof (rule sum.mono_neutral_right)
    show "set (Edges hg v) \<subseteq> {..<hg_num_hyperedges hg}" using Edges_facts(2) [OF ok v] by auto
    show "\<forall>e \<in> {..<hg_num_hyperedges hg} - set (Edges hg v). ?d e = 0"
      using Edges_facts(2) [OF ok v] by (auto simp: is_cut_elsewhere)
  qed simp
  then show ?thesis by (simp add: eq sum_subtractf)
qed

section \<open>Paths\<close>

text \<open>The refiner's factors are those of its evaluator, and the costs of the paths have been set.\<close>

definition refiner_ok :: "'f refiner \<Rightarrow> bool" where
  "refiner_ok rf \<longleftrightarrow> rf_num_parts rf = ev_num_parts (rf_evaluator rf)
    \<and> rf_path_wt_factor rf = ev_path_timing_factor (rf_evaluator rf)
    \<and> rf_snaking_wt_factor rf = ev_path_snaking_factor (rf_evaluator rf)"

definition hg_ready :: "'f hgraph \<Rightarrow> bool" where
  "hg_ready hg \<longleftrightarrow> hg_ok hg \<and> hg_num_paths hg \<le> length (hg_path_cost hg) \<and> (hg_num_paths hg > 0 \<longrightarrow> hg_timing_flag hg)"

lemma hg_readyD: "hg_ready hg \<Longrightarrow> hg_ok hg"
  by (simp add: hg_ready_def)

lemma GetPathsCost_nth:
  assumes "hg_ready hg"
  shows "length (GetPathsCost ev hg sol) = hg_num_paths hg"
    and "p < hg_num_paths hg \<Longrightarrow> GetPathsCost ev hg sol ! p = EvCalculatePathCost ev p hg sol"
  using assms by (auto simp: GetPathsCost_def hg_ready_def)

lemma path_cost_after:
  assumes "hg_ready hg" "refiner_ok rf" "v < length sol"
  shows "CalculatePathCost rf p hg sol (int v) (int q) = EvCalculatePathCost (rf_evaluator rf) p hg (sol[v := q])"
proof -
  have "(\<lambda>u. if int q \<noteq> -1 \<and> int u = int v then nat (int q) else sol ! u) = (\<lambda>u. sol[v := q] ! u)"
    using assms(3) by (auto simp: fun_eq_iff nth_list_update)
  then show ?thesis
    using assms(1,2) by (simp add: CalculatePathCost_def EvCalculatePathCost_def hg_ready_def refiner_ok_def)
qed

lemma path_elsewhere:
  "v \<notin> set (PathVertices hg p) \<Longrightarrow> EvCalculatePathCost ev p hg (sol[v := q]) = EvCalculatePathCost ev p hg sol"
  unfolding EvCalculatePathCost_def by (metis (no_types, lifting) map_cong nth_list_update_neq)

lemma map_assign_append: "\<forall>(k', _) \<in> set m. k' < k \<Longrightarrow> map_assign k x m = m @ [(k, x)]"
  by (induction m) auto

lemma map_assign_again: "\<forall>(k', _) \<in> set m. k' < k \<Longrightarrow> map_assign k x (m @ [(k, y)]) = m @ [(k, x)]"
  by (induction m) auto

text \<open>A path that the vertex is on more than once is scored each time, and recorded once.\<close>

lemma fold_path_repeats:
  fixes cost :: "nat \<Rightarrow> 'f::linordered_idom"
  assumes "\<forall>(k, _) \<in> set m. k < p"
  shows "fold (\<lambda>p (score, delta). (score + (cur ! p - cost p), map_assign p (cost p - cur ! p) delta)) (replicate n p) (score, m)
    = (score + of_nat n * (cur ! p - cost p), if n = 0 then m else m @ [(p, cost p - cur ! p)])"
proof (induction n)
  case (Suc n)
  then show ?case
    using map_assign_append [OF assms] map_assign_again [OF assms]
    by (simp flip: replicate_append_same add: algebra_simps)
qed simp

lemma fold_path_scores:
  fixes cost :: "nat \<Rightarrow> 'f::linordered_idom"
  assumes "sorted_wrt (<) ps" "\<forall>(k, _) \<in> set m. \<forall>p \<in> set ps. k < p"
  shows "fold (\<lambda>p (score, delta). (score + (cur ! p - cost p), map_assign p (cost p - cur ! p) delta))
      (concat (map (\<lambda>p. replicate (n p) p) ps)) (score, m)
    = (score + (\<Sum>p \<leftarrow> ps. of_nat (n p) * (cur ! p - cost p)),
       m @ map (\<lambda>p. (p, cost p - cur ! p)) (filter (\<lambda>p. n p \<noteq> 0) ps))"
  using assms
proof (induction ps arbitrary: score m)
  case (Cons p ps)
  let ?m = "if n p = 0 then m else m @ [(p, cost p - cur ! p)]"
  have "\<forall>(k, _) \<in> set m. k < p" "\<forall>(k, _) \<in> set ?m. \<forall>p \<in> set ps. k < p"
    using Cons.prems by (auto split: if_splits)
  then show ?case
    using Cons.IH [of ?m] Cons.prems(1) by (simp add: fold_path_repeats add.assoc del: fold_replicate)
qed simp

lemma paths_through:
  assumes "hg_ready hg" "v < hg_num_vertices hg" "hg_num_paths hg > 0"
  shows "TimingPathsThrough hg v = concat (map (\<lambda>p. replicate (count_list (PathVertices hg p) v) p) [0..<hg_num_paths hg])"
    and "p \<in> set (TimingPathsThrough hg v) \<longleftrightarrow> p < hg_num_paths hg \<and> v \<in> set (PathVertices hg p)"
  using hg_okD(7) [OF hg_readyD [OF assms(1)] assms(3,2)] by (auto simp: count_list_0_iff intro: ccontr)

text \<open>Adding and subtracting the changes of distinct paths.\<close>

lemma fold_add_nth:
  fixes cur :: "'f::ab_group_add list"
  assumes "distinct (map fst ds)"
  shows "length (fold (\<lambda>(p, d) cur. cur[p := cur ! p + d]) ds cur) = length cur"
    and "i < length cur \<Longrightarrow> fold (\<lambda>(p, d) cur. cur[p := cur ! p + d]) ds cur ! i
      = cur ! i + (case map_of ds i of Some d \<Rightarrow> d | None \<Rightarrow> 0)"
  using assms
proof (induction ds arbitrary: cur)
  case (Cons pd ds)
  obtain p d where pd: "pd = (p, d)" by (cases pd)
  {
    case 1
    then show ?case using Cons.IH(1) [of "cur[p := cur ! p + d]"] by (simp add: pd)
  next
    case 2
    then have "map_of ds p = None" by (simp add: pd map_of_eq_None_iff image_image [symmetric] flip: set_map)
    then show ?case using 2 Cons.IH(2) [of "cur[p := cur ! p + d]"] by (auto simp: pd nth_list_update)
  }
qed simp_all

lemma fold_sub_add:
  fixes cur :: "'f::ab_group_add list"
  shows "fold (\<lambda>(p, d) cur. cur[p := cur ! p - d]) ds cur
    = fold (\<lambda>(p, d) cur. cur[p := cur ! p + d]) (map (\<lambda>(p, d). (p, - d)) ds) cur"
  by (induction ds arbitrary: cur) auto

lemma fold_sub_back:
  fixes cur :: "'f::ab_group_add list"
  assumes "distinct (map fst ds)"
  shows "fold (\<lambda>(p, d) cur. cur[p := cur ! p - d]) ds (fold (\<lambda>(p, d) cur. cur[p := cur ! p + d]) ds cur) = cur"
proof (rule nth_equalityI)
  let ?neg = "map (\<lambda>(p, d). (p, - d)) ds"
  have neg: "map fst ?neg = map fst ds" by (induction ds) auto
  have d: "distinct (map fst ?neg)" unfolding neg by (rule assms)
  show "length (fold (\<lambda>(p, d) cur. cur[p := cur ! p - d]) ds (fold (\<lambda>(p, d) cur. cur[p := cur ! p + d]) ds cur)) = length cur"
    unfolding fold_sub_add by (simp only: fold_add_nth(1) [OF d] fold_add_nth(1) [OF assms])
  fix i assume "i < length (fold (\<lambda>(p, d) cur. cur[p := cur ! p - d]) ds (fold (\<lambda>(p, d) cur. cur[p := cur ! p + d]) ds cur))"
  then have i: "i < length cur"
    unfolding fold_sub_add by (simp only: fold_add_nth(1) [OF d] fold_add_nth(1) [OF assms])
  have "map_of ?neg i = map_option uminus (map_of ds i)" by (induction ds) auto
  then show "fold (\<lambda>(p, d) cur. cur[p := cur ! p - d]) ds (fold (\<lambda>(p, d) cur. cur[p := cur ! p + d]) ds cur) ! i = cur ! i"
    unfolding fold_sub_add using i
    by (simp add: fold_add_nth(2) [OF d] fold_add_nth [OF assms] split: option.splits)
qed

section \<open>The gain of a move, and making it\<close>

text \<open>The state describes its solution.\<close>

definition consistent :: "'f::{zero,one,plus,minus,times} refiner \<Rightarrow> 'f hgraph \<Rightarrow> 'f rstate \<Rightarrow> bool" where
  "consistent rf hg st \<longleftrightarrow> solution_ok (rf_evaluator rf) hg (rs_solution st)
    \<and> rs_degs st = GetNetDegrees (rf_evaluator rf) hg (rs_solution st)
    \<and> rs_balance st = GetBlockBalance (rf_evaluator rf) hg (rs_solution st)
    \<and> rs_paths st = GetPathsCost (rf_evaluator rf) hg (rs_solution st)
    \<and> length (rs_visited st) = hg_num_vertices hg"

text \<open>The cost that the evaluator gives a solution.\<close>

definition solution_cost :: "'f::{zero,one,plus,minus,times} refiner \<Rightarrow> 'f hgraph \<Rightarrow> nat list \<Rightarrow> 'f" where
  "solution_cost rf hg solution = pt_cost (CutEvaluator (rf_evaluator rf) hg solution)"

text \<open>The cell for moving \<open>v\<close> to \<open>q\<close>, as the state is.\<close>

definition cell_for :: "'f::{zero,one,plus,minus,times} refiner \<Rightarrow> 'f hgraph \<Rightarrow> 'f rstate \<Rightarrow> nat \<Rightarrow> nat \<Rightarrow> 'f gain_cell" where
  "cell_for rf hg st v q = CalculateVertexGain rf v (rs_solution st ! v) q hg (rs_solution st) (rs_paths st) (rs_degs st)"

lemma cell_for_fields [simp]:
  "gc_vertex (cell_for rf hg st v q) = int v"
  "gc_src (cell_for rf hg st v q) = int (rs_solution st ! v)"
  "gc_dst (cell_for rf hg st v q) = int q"
  by (simp_all add: cell_for_def CalculateVertexGain_def Let_def split_beta)

text \<open>
  The gain of a cell is the decrease of the cost, with the decrease of a path's cost once more for each
  further time that the vertex is on the path.
\<close>

definition recounted :: "'f::linordered_idom refiner \<Rightarrow> 'f hgraph \<Rightarrow> nat list \<Rightarrow> nat \<Rightarrow> nat \<Rightarrow> 'f" where
  "recounted rf hg sol v q = (\<Sum>p < hg_num_paths hg. of_nat (count_list (PathVertices hg p) v - 1)
    * (EvCalculatePathCost (rf_evaluator rf) p hg sol - EvCalculatePathCost (rf_evaluator rf) p hg (sol[v := q])))"

definition paths_once :: "'f hgraph \<Rightarrow> bool" where
  "paths_once hg \<longleftrightarrow> (\<forall>p < hg_num_paths hg. distinct (PathVertices hg p))"

lemma recounted_once:
  assumes "\<forall>p < hg_num_paths hg. count_list (PathVertices hg p) v \<le> 1"
  shows "recounted rf hg sol v q = 0"
  using assms by (simp add: recounted_def)

lemma distinct_count_le: "distinct xs \<Longrightarrow> count_list xs v \<le> 1"
  by (induction xs) (auto simp: count_list_0_iff)

lemma paths_once_count: "paths_once hg \<Longrightarrow> \<forall>p < hg_num_paths hg. count_list (PathVertices hg p) v \<le> 1"
  by (intro allI impI distinct_count_le) (simp add: paths_once_def)

lemma cell_shape:
  fixes hg :: "'f::linordered_idom hgraph"
  assumes hg: "hg_ready hg" and rf: "refiner_ok rf" and st: "consistent rf hg st"
    and v: "v < hg_num_vertices hg" and q: "q < rf_num_parts rf" and ne: "rs_solution st ! v \<noteq> q"
  defines "sol \<equiv> rs_solution st" and "ev \<equiv> rf_evaluator rf"
  shows "gc_gain (cell_for rf hg st v q)
      = solution_cost rf hg sol - solution_cost rf hg (sol[v := q]) + recounted rf hg sol v q"
    and "gc_paths (cell_for rf hg st v q)
      = map (\<lambda>p. (p, EvCalculatePathCost ev p hg (sol[v := q]) - EvCalculatePathCost ev p hg sol))
          (filter (\<lambda>p. v \<in> set (PathVertices hg p)) [0..<hg_num_paths hg])"
proof -
  note ok = hg_readyD [OF hg]
  have so: "solution_ok ev hg sol" "v < length sol" and qe: "q < ev_num_parts ev"
    using st v q rf by (auto simp: consistent_def sol_def ev_def solution_ok_def refiner_ok_def)
  have D: "rs_degs st = GetNetDegrees ev hg sol" "rs_paths st = GetPathsCost ev hg sol"
    using st by (simp_all add: consistent_def sol_def ev_def)
  let ?E = "\<lambda>s. \<Sum>e | e < hg_num_hyperedges hg \<and> is_cut hg s e. CalculateHyperedgeCost ev e hg"
  let ?P = "\<lambda>s. \<Sum>p < hg_num_paths hg. EvCalculatePathCost ev p hg s"
  let ?c = "\<lambda>p s. EvCalculatePathCost ev p hg s"
  let ?ds = "map (\<lambda>p. (p, ?c p (sol[v := q]) - ?c p sol)) (filter (\<lambda>p. v \<in> set (PathVertices hg p)) [0..<hg_num_paths hg])"
  have cut: "fold (\<lambda>e score. cut_term (rs_degs st ! e) (sol ! v) q (CalculateHyperedgeCost ev e hg) score) (Edges hg v) 0
      = ?E sol - ?E (sol[v := q])"
    using fold_cut_terms [OF ok so(1) qe ne [folded sol_def], of "Edges hg v" "\<lambda>e. CalculateHyperedgeCost ev e hg" 0]
      Edges_facts [OF ok v] edge_costs_of_move [OF ok v, of sol "\<lambda>e. CalculateHyperedgeCost ev e hg" q]
    unfolding D by simp
  have after: "CalculatePathCost rf p hg sol (int v) (int q) = ?c p (sol[v := q])" for p
    using path_cost_after [OF hg rf so(2)] by (simp add: ev_def)
  have paths: "(if hg_num_paths hg > 0
       then fold (\<lambda>path_id (score, delta).
              let cost = CalculatePathCost rf path_id hg sol (int v) (int q)
              in (score + (rs_paths st ! path_id - cost), map_assign path_id (cost - rs_paths st ! path_id) delta))
            (TimingPathsThrough hg v) (0, [])
       else (0, []))
     = (?P sol - ?P (sol[v := q]) + recounted rf hg sol v q, ?ds)"
  proof (cases "hg_num_paths hg = 0")
    case False
    then have np: "hg_num_paths hg > 0" by simp
    note T = paths_through [OF hg v np]
    let ?n = "\<lambda>p. count_list (PathVertices hg p) v"
    have cur: "rs_paths st ! p = ?c p sol" if "p < hg_num_paths hg" for p
      using that GetPathsCost_nth(2) [OF hg] by (simp add: D)
    have once: "of_nat (?n p) * (?c p sol - ?c p (sol[v := q]))
        = (?c p sol - ?c p (sol[v := q])) + of_nat (?n p - 1) * (?c p sol - ?c p (sol[v := q]))" for p
      by (cases "?n p") (simp_all add: path_elsewhere count_list_0_iff distrib_right)
    have "(\<Sum>p \<leftarrow> [0..<hg_num_paths hg]. of_nat (?n p) * (rs_paths st ! p - ?c p (sol[v := q])))
        = (\<Sum>p < hg_num_paths hg. of_nat (?n p) * (?c p sol - ?c p (sol[v := q])))"
      using cur by (simp add: sum_list_distinct_conv_sum_set atLeast0LessThan)
    then have S: "(\<Sum>p \<leftarrow> [0..<hg_num_paths hg]. of_nat (?n p) * (rs_paths st ! p - ?c p (sol[v := q])))
        = ?P sol - ?P (sol[v := q]) + recounted rf hg sol v q"
      unfolding recounted_def ev_def [symmetric] by (simp only: once sum.distrib sum_subtractf)
    have M: "map (\<lambda>p. (p, ?c p (sol[v := q]) - rs_paths st ! p)) (filter (\<lambda>p. ?n p \<noteq> 0) [0..<hg_num_paths hg]) = ?ds"
      using cur by (auto simp: count_list_0_iff cong: filter_cong)
    show ?thesis
      using np S M fold_path_scores [of "[0..<hg_num_paths hg]" "[]" "rs_paths st" "\<lambda>p. ?c p (sol[v := q])" ?n 0]
      by (simp add: after Let_def T(1))
  qed (simp add: recounted_def)
  have C: "cell_for rf hg st v q = \<lparr>gc_vertex = int v, gc_src = int (sol ! v), gc_dst = int q,
      gc_gain = (?E sol - ?E (sol[v := q])) + (?P sol - ?P (sol[v := q]) + recounted rf hg sol v q),
      gc_paths = ?ds\<rparr>"
  proof -
    have "sol ! v \<noteq> q" using ne by (simp add: sol_def)
    then show ?thesis
      unfolding cell_for_def CalculateVertexGain_def sol_def [symmetric] ev_def [symmetric]
      unfolding paths cut by (simp add: Let_def)
  qed
  show "gc_gain (cell_for rf hg st v q) = solution_cost rf hg sol - solution_cost rf hg (sol[v := q]) + recounted rf hg sol v q"
    unfolding C solution_cost_def pt_cost_sums ev_def by simp
  show "gc_paths (cell_for rf hg st v q) = ?ds"
    unfolding C by simp
qed

text \<open>Making the move leaves a consistent state, and taking it back restores the state.\<close>

lemma accept_move:
  fixes hg :: "'f::linordered_idom hgraph"
  assumes hg: "hg_ready hg" and rf: "refiner_ok rf" and st: "consistent rf hg st"
    and v: "v < hg_num_vertices hg" and q: "q < rf_num_parts rf" and ne: "rs_solution st ! v \<noteq> q"
  defines "c \<equiv> cell_for rf hg st v q"
  shows "fst (AcceptVertexGain c hg t st) = t + gc_gain c"
    and "consistent rf hg (snd (AcceptVertexGain c hg t st))"
    and "rs_solution (snd (AcceptVertexGain c hg t st)) = (rs_solution st)[v := q]"
    and "rs_visited (snd (AcceptVertexGain c hg t st)) = (rs_visited st)[v := True]"
    and "RollBackVertexGain c hg (snd (AcceptVertexGain c hg t st)) = st\<lparr>rs_visited := (rs_visited st)[v := False]\<rparr>"
proof -
  note ok = hg_readyD [OF hg]
  let ?ev = "rf_evaluator rf" and ?sol = "rs_solution st"
  let ?sol' = "?sol[v := q]" and ?p = "?sol ! v"
  let ?st' = "snd (AcceptVertexGain c hg t st)"
  have so: "solution_ok ?ev hg ?sol" "v < length ?sol" "?p < ev_num_parts ?ev" and qe: "q < ev_num_parts ?ev"
    using st v q rf by (auto simp: consistent_def solution_ok_def refiner_ok_def)
  have so': "solution_ok ?ev hg ?sol'" using so qe by (simp add: solution_ok_def nth_list_update)
  note cs = cell_shape [OF hg rf st v q ne, folded c_def]
  have F: "gc_vertex c = int v" "gc_src c = int ?p" "gc_dst c = int q" by (simp_all add: c_def)
  show "fst (AcceptVertexGain c hg t st) = t + gc_gain c"
    by (simp add: AcceptVertexGain_def Let_def)
  show sol': "rs_solution ?st' = ?sol'" and vis: "rs_visited ?st' = (rs_visited st)[v := True]"
    by (simp_all add: AcceptVertexGain_def Let_def F)
  have D: "rs_degs st = GetNetDegrees ?ev hg ?sol" "rs_balance st = GetBlockBalance ?ev hg ?sol"
      "rs_paths st = GetPathsCost ?ev hg ?sol" "length (rs_visited st) = hg_num_vertices hg"
    using st by (simp_all add: consistent_def)
  have degs: "rs_degs ?st' = GetNetDegrees ?ev hg ?sol'"
    using degrees_of_move [OF ok so(1) v qe ne] by (simp add: AcceptVertexGain_def Let_def F D)
  have bal: "rs_balance ?st' = GetBlockBalance ?ev hg ?sol'"
    using balance_of_move [OF ok so(1) v qe ne] by (simp add: AcceptVertexGain_def Let_def F D)
  have dist: "distinct (map fst (gc_paths c))"
    by (simp add: cs(2) o_def)
  have paths: "rs_paths ?st' = GetPathsCost ?ev hg ?sol'"
  proof (rule nth_equalityI)
    have P: "rs_paths ?st' = fold (\<lambda>(p, d) cur. cur[p := cur ! p + d]) (gc_paths c) (GetPathsCost ?ev hg ?sol)"
      by (simp add: AcceptVertexGain_def Let_def D)
    show "length (rs_paths ?st') = length (GetPathsCost ?ev hg ?sol')"
      by (simp add: P fold_add_nth(1) [OF dist] GetPathsCost_nth(1) [OF hg])
    fix i assume "i < length (rs_paths ?st')"
    then have i: "i < hg_num_paths hg" by (simp add: P fold_add_nth(1) [OF dist] GetPathsCost_nth(1) [OF hg])
    have "map_of (gc_paths c) i = (if v \<in> set (PathVertices hg i)
        then Some (EvCalculatePathCost ?ev i hg ?sol' - EvCalculatePathCost ?ev i hg ?sol) else None)"
      using i by (auto simp: cs(2) map_of_map_restrict map_of_map_keys restrict_map_def)
    then show "rs_paths ?st' ! i = GetPathsCost ?ev hg ?sol' ! i"
      using i by (auto simp: P fold_add_nth(2) [OF dist] GetPathsCost_nth [OF hg] path_elsewhere)
  qed
  show "consistent rf hg ?st'"
    unfolding consistent_def sol' vis using degs bal paths so' D(4) by simp
  have "rs_degs (RollBackVertexGain c hg ?st') = rs_degs st"
  proof -
    have "\<forall>e \<in> set (Edges hg v). e < length (rs_degs st) \<and> ?p < length (rs_degs st ! e) \<and> q < length (rs_degs st ! e)"
      using Edges_facts(2) [OF ok v] so(3) qe by (auto simp: D GetNetDegrees_nth(1))
    then show ?thesis
      using degs_back [OF Edges_facts(1) [OF ok v], of "rs_degs st" ?p q]
      by (simp add: RollBackVertexGain_def AcceptVertexGain_def Let_def F)
  qed
  moreover have "rs_paths (RollBackVertexGain c hg ?st') = rs_paths st"
    using fold_sub_back [OF dist] by (simp add: RollBackVertexGain_def AcceptVertexGain_def Let_def)
  moreover have "rs_balance (RollBackVertexGain c hg ?st') = rs_balance st"
  proof -
    let ?w = "GetVertexWeights hg v" and ?b = "rs_balance st"
    have "length ?w = hg_vertex_dims hg" using hg_okD(2) [OF ok v] .
    moreover have "?p < length ?b" "q < length ?b" "length (?b ! ?p) = hg_vertex_dims hg" "length (?b ! q) = hg_vertex_dims hg"
      using GetBlockBalance_shape [OF ok, of ?ev ?sol] so(3) qe by (auto simp: D)
    ultimately show ?thesis
      using ne vec_add_sub [of "?b ! ?p" ?w] vec_add_sub [of "?b ! q" ?w]
      by (auto simp: RollBackVertexGain_def AcceptVertexGain_def Let_def F intro!: nth_equalityI simp: nth_list_update)
  qed
  moreover have "rs_solution (RollBackVertexGain c hg ?st') = ?sol" "rs_visited (RollBackVertexGain c hg ?st') = (rs_visited st)[v := False]"
    by (simp_all add: RollBackVertexGain_def AcceptVertexGain_def Let_def F)
  ultimately show "RollBackVertexGain c hg ?st' = st\<lparr>rs_visited := (rs_visited st)[v := False]\<rparr>"
    by simp
qed

section \<open>Which gains a move changes\<close>

definition adjacent :: "'f hgraph \<Rightarrow> nat \<Rightarrow> nat \<Rightarrow> bool" where
  "adjacent hg u v \<longleftrightarrow> (\<exists>e < hg_num_hyperedges hg. u \<in> set (Vertices hg e) \<and> v \<in> set (Vertices hg e))"

text \<open>
  Gains are recomputed for the vertices that share a hyperedge with the vertex moved.  This is enough
  when vertices on one timing path share a hyperedge, in particular when there are no paths.
\<close>

definition paths_local :: "'f hgraph \<Rightarrow> bool" where
  "paths_local hg \<longleftrightarrow> (\<forall>p < hg_num_paths hg. \<forall>u \<in> set (PathVertices hg p). \<forall>v \<in> set (PathVertices hg p). u \<noteq> v \<longrightarrow> adjacent hg u v)"

lemma cell_elsewhere:
  fixes hg :: "'f::linordered_idom hgraph"
  assumes hg: "hg_ready hg" and rf: "refiner_ok rf" and loc: "paths_local hg"
    and st: "consistent rf hg st" and st': "consistent rf hg st'"
    and moved: "rs_solution st' = (rs_solution st)[v := q]" and u: "u < hg_num_vertices hg" "u \<noteq> v" "\<not> adjacent hg u v"
  shows "cell_for rf hg st' u b = cell_for rf hg st u b"
proof -
  note ok = hg_readyD [OF hg]
  let ?ev = "rf_evaluator rf" and ?s = "rs_solution st"
  have len: "length ?s = hg_num_vertices hg" using st by (simp add: consistent_def solution_ok_def)
  have D: "rs_degs s = GetNetDegrees ?ev hg (rs_solution s)" "rs_paths s = GetPathsCost ?ev hg (rs_solution s)"
    if "consistent rf hg s" for s using that by (simp_all add: consistent_def)
  have deg: "rs_degs st' ! e = rs_degs st ! e" if "e \<in> set (Edges hg u)" for e
  proof -
    have e: "e < hg_num_hyperedges hg" "v \<notin> set (Vertices hg e)"
      using that Edges_facts(2) [OF ok u(1)] u(3) by (auto simp: adjacent_def)
    show ?thesis
    proof (rule nth_equalityI)
      show "length (rs_degs st' ! e) = length (rs_degs st ! e)" by (simp add: D st st' GetNetDegrees_nth(1) [OF e(1)])
      fix b assume "b < length (rs_degs st' ! e)"
      then have "b < ev_num_parts ?ev" by (simp add: D st st' GetNetDegrees_nth(1) [OF e(1)])
      then show "rs_degs st' ! e ! b = rs_degs st ! e ! b"
        by (simp add: D st st' GetNetDegrees_nth(2) [OF e(1)] moved filter_change_none [OF e(2)])
    qed
  qed
  have off: "v \<notin> set (PathVertices hg p)" if "p < hg_num_paths hg" "u \<in> set (PathVertices hg p)" for p
    using loc that u(2,3) by (auto simp: paths_local_def)
  have same: "rs_paths st' ! p = rs_paths st ! p"
      "CalculatePathCost rf p hg (rs_solution st') (int u) (int b) = CalculatePathCost rf p hg ?s (int u) (int b)"
    if "p \<in> set (TimingPathsThrough hg u)" "hg_num_paths hg > 0" for p
  proof -
    have p: "p < hg_num_paths hg" "u \<in> set (PathVertices hg p)" using paths_through(2) [OF hg u(1) that(2)] that(1) by auto
    then show "rs_paths st' ! p = rs_paths st ! p"
      by (simp add: D st st' GetPathsCost_nth [OF hg] moved path_elsewhere [OF off])
    have "CalculatePathCost rf p hg (rs_solution st') (int u) (int b) = EvCalculatePathCost ?ev p hg ((?s[u := b])[v := q])"
      using path_cost_after [OF hg rf, of u "rs_solution st'" p b] u len by (simp add: moved list_update_swap)
    then show "CalculatePathCost rf p hg (rs_solution st') (int u) (int b) = CalculatePathCost rf p hg ?s (int u) (int b)"
      using path_cost_after [OF hg rf, of u ?s p b] u len by (simp add: path_elsewhere [OF off [OF p]])
  qed
  have su: "rs_solution st' ! u = ?s ! u" using u(2) by (simp add: moved)
  have "fold (\<lambda>e score. cut_term (rs_degs st' ! e) (?s ! u) b (CalculateHyperedgeCost ?ev e hg) score) (Edges hg u) 0
      = fold (\<lambda>e score. cut_term (rs_degs st ! e) (?s ! u) b (CalculateHyperedgeCost ?ev e hg) score) (Edges hg u) 0"
    by (rule fold_cong) (simp_all add: deg)
  moreover have "fold (\<lambda>path_id (score, delta).
        let cost = CalculatePathCost rf path_id hg (rs_solution st') (int u) (int b)
        in (score + (rs_paths st' ! path_id - cost), map_assign path_id (cost - rs_paths st' ! path_id) delta))
      (TimingPathsThrough hg u) (0, [])
    = fold (\<lambda>path_id (score, delta).
        let cost = CalculatePathCost rf path_id hg ?s (int u) (int b)
        in (score + (rs_paths st ! path_id - cost), map_assign path_id (cost - rs_paths st ! path_id) delta))
      (TimingPathsThrough hg u) (0, [])" if "hg_num_paths hg > 0"
    by (rule fold_cong) (simp_all add: same [OF _ that])
  ultimately show ?thesis
    unfolding cell_for_def CalculateVertexGain_def su by (cases "hg_num_paths hg > 0") (simp_all only: if_True if_False Let_def)
qed

section \<open>Sequences of moves\<close>

text \<open>
  A run makes one move after the other, each of a vertex that is not marked visited, to another
  block, and allowed in the state it is made in.
\<close>

inductive fm_run ::
    "('f::linordered_idom rstate \<Rightarrow> 'f gain_cell \<Rightarrow> bool) \<Rightarrow> 'f refiner \<Rightarrow> 'f hgraph \<Rightarrow> 'f rstate \<Rightarrow> 'f gain_cell list \<Rightarrow> 'f rstate \<Rightarrow> bool"
  for allowed rf hg st0 where
  run_start: "fm_run allowed rf hg st0 [] st0"
| run_move: "\<lbrakk>fm_run allowed rf hg st0 cs st; v < hg_num_vertices hg; \<not> rs_visited st ! v; q < rf_num_parts rf;
     rs_solution st ! v \<noteq> q; c = cell_for rf hg st v q; allowed st c\<rbrakk>
   \<Longrightarrow> fm_run allowed rf hg st0 (cs @ [c]) (snd (AcceptVertexGain c hg t st))"

inductive_cases run_snocE: "fm_run allowed rf hg st0 (cs @ [c]) st"
inductive_cases run_nilE: "fm_run allowed rf hg st0 [] st"

lemma fm_run_consistent:
  fixes hg :: "'f::linordered_idom hgraph"
  assumes "fm_run allowed rf hg st0 cs st" "hg_ready hg" "refiner_ok rf" "consistent rf hg st0"
  shows "consistent rf hg st
    \<and> (\<forall>v < hg_num_vertices hg. rs_visited st ! v \<longleftrightarrow> rs_visited st0 ! v \<or> int v \<in> gc_vertex ` set cs)
    \<and> (\<forall>c \<in> set cs. \<exists>v < hg_num_vertices hg. gc_vertex c = int v \<and> \<not> rs_visited st0 ! v)
    \<and> distinct (map gc_vertex cs)
    \<and> (\<forall>v. int v \<notin> gc_vertex ` set cs \<longrightarrow> rs_solution st ! v = rs_solution st0 ! v)"
  using assms
proof (induction rule: fm_run.induct)
  case run_start
  then show ?case by simp
next
  case (run_move cs st v q c t)
  note IH = run_move.IH [OF run_move.prems]
  note A = accept_move [OF run_move.prems(1,2) _ run_move.hyps(2,4,5), of t, folded run_move.hyps(6)]
  have v: "gc_vertex c = int v" using run_move.hyps(6) by simp
  have len: "length (rs_visited st) = hg_num_vertices hg" using IH by (simp add: consistent_def)
  have new: "int v \<notin> gc_vertex ` set cs" "\<not> rs_visited st0 ! v" using IH run_move.hyps(2,3) by auto
  show ?case
    using IH A(2-4) new v run_move.hyps(2) len by (auto simp: nth_list_update image_iff)
qed

text \<open>The run is determined by its moves, and their gains add up.\<close>

lemma fm_run_det:
  assumes "fm_run allowed rf hg st0 cs st" "fm_run allowed rf hg st0 cs st'"
  shows "st' = st"
proof -
  have same: "snd (AcceptVertexGain c hg t s) = snd (AcceptVertexGain c hg t' s)" for c t t' and s :: "'a rstate"
    by (simp add: AcceptVertexGain_def Let_def)
  show ?thesis
    using assms(1,2)
  proof (induction arbitrary: st' rule: fm_run.induct)
    case run_start
    then show ?case by (auto elim: run_nilE)
  next
    case (run_move cs st v q c t)
    from run_move.prems obtain s t' where "fm_run allowed rf hg st0 cs s" "st' = snd (AcceptVertexGain c hg t' s)"
      by (elim run_snocE) auto
    then show ?case using run_move.IH same by metis
  qed
qed

lemma fm_run_prefix:
  "fm_run allowed rf hg st0 (cs @ ds) st \<Longrightarrow> \<exists>s. fm_run allowed rf hg st0 cs s"
proof (induction ds arbitrary: st rule: rev_induct)
  case (snoc d ds)
  then show ?case by (metis append_assoc run_snocE)
qed auto

section \<open>The refinement loop\<close>

lemma start_consistent:
  fixes hg :: "'f::linordered_idom hgraph"
  assumes "hg_ready hg" "solution_ok (rf_evaluator rf) hg sol" "length vis = hg_num_vertices hg"
  shows "consistent rf hg \<lparr>rs_visited = vis, rs_solution = sol,
      rs_paths = (if hg_timing_flag hg then GetPathsCost (rf_evaluator rf) hg sol else []),
      rs_balance = GetBlockBalance (rf_evaluator rf) hg sol, rs_degs = GetNetDegrees (rf_evaluator rf) hg sol\<rparr>"
  using assms by (auto simp: consistent_def GetPathsCost_def hg_ready_def)

text \<open>A vertex fixed to the block it is in.\<close>

definition fixed_in_place :: "'f hgraph \<Rightarrow> nat list \<Rightarrow> nat \<Rightarrow> bool" where
  "fixed_in_place hg sol v \<longleftrightarrow> v < hg_num_vertices hg \<and> hg_fixed_flag hg \<and> hg_fixed_attr hg ! v = int (sol ! v)"

text \<open>
  The contract of \<open>Pass\<close>, which each kind of refiner overrides: from a state that describes its
  solution, with the fixed vertices marked, it returns such a state, keeps the vertices that are
  fixed in place, and reports the decrease of the cost, which is not negative.  \<open>inv\<close> is what the
  refiner needs of the solution and the weights, and keeps.
\<close>

locale refiner_pass =
  fixes pass :: "'f::linordered_idom rstate \<Rightarrow> ('f \<times> 'f rstate) option" and rf :: "'f refiner" and hg :: "'f hgraph"
    and inv :: "'f list list \<Rightarrow> bool"
  assumes pass: "hg_ready hg \<Longrightarrow> inv (rs_balance st) \<Longrightarrow> consistent rf hg st \<Longrightarrow> rs_visited st = fixed_flags hg \<Longrightarrow>
    \<exists>gain st'. pass st = Some (gain, st') \<and> consistent rf hg st' \<and> inv (rs_balance st')
      \<and> (\<forall>v. fixed_in_place hg (rs_solution st) v \<longrightarrow> rs_solution st' ! v = rs_solution st ! v)
      \<and> 0 \<le> gain \<and> gain = solution_cost rf hg (rs_solution st) - solution_cost rf hg (rs_solution st')"
begin

lemma loop_improves:
  assumes hg: "hg_ready hg" and inv: "inv (rs_balance st)"
    and st: "\<And>vis. length vis = hg_num_vertices hg \<Longrightarrow> consistent rf hg (st\<lparr>rs_visited := vis\<rparr>)"
  shows "\<exists>st'. refine_loop pass hg iters st = Some st' \<and> solution_ok (rf_evaluator rf) hg (rs_solution st')
    \<and> inv (rs_balance st')
    \<and> rs_balance st' = GetBlockBalance (rf_evaluator rf) hg (rs_solution st')
    \<and> solution_cost rf hg (rs_solution st') \<le> solution_cost rf hg (rs_solution st)
    \<and> (\<forall>v. fixed_in_place hg (rs_solution st) v \<longrightarrow> rs_solution st' ! v = rs_solution st ! v)"
  using inv st
proof (induction iters arbitrary: st)
  case 0
  have "consistent rf hg (st\<lparr>rs_visited := replicate (hg_num_vertices hg) False\<rparr>)" using 0(2) by simp
  then show ?case using 0(1) by (auto simp: consistent_def)
next
  case (Suc iters)
  let ?st = "st\<lparr>rs_visited := fixed_flags hg\<rparr>"
  have cons: "consistent rf hg ?st" using Suc.prems(2) by (simp add: fixed_flags_def)
  obtain gain st1 where P: "pass ?st = Some (gain, st1)" "consistent rf hg st1" "inv (rs_balance st1)"
      "\<forall>v. fixed_in_place hg (rs_solution st) v \<longrightarrow> rs_solution st1 ! v = rs_solution st ! v" "0 \<le> gain"
      "gain = solution_cost rf hg (rs_solution st) - solution_cost rf hg (rs_solution st1)"
    using pass [OF hg _ cons] Suc.prems(1) by auto
  have fixed: "fixed_in_place hg (rs_solution st1) v" if "fixed_in_place hg (rs_solution st) v" for v
    using that P(4) by (simp add: fixed_in_place_def)
  show ?case
  proof (cases "gain \<le> 0")
    case True
    then show ?thesis using P by (auto simp: consistent_def)
  next
    case False
    have "consistent rf hg (st1\<lparr>rs_visited := vis\<rparr>)" if "length vis = hg_num_vertices hg" for vis
      using P(2) that by (simp add: consistent_def)
    from Suc.IH [OF P(3) this] obtain st' where "refine_loop pass hg iters st1 = Some st'"
        "solution_ok (rf_evaluator rf) hg (rs_solution st')" "inv (rs_balance st')"
        "rs_balance st' = GetBlockBalance (rf_evaluator rf) hg (rs_solution st')"
        "solution_cost rf hg (rs_solution st') \<le> solution_cost rf hg (rs_solution st1)"
        "\<forall>v. fixed_in_place hg (rs_solution st1) v \<longrightarrow> rs_solution st' ! v = rs_solution st1 ! v"
      by blast
    then show ?thesis using False P fixed by (intro exI [of _ st']) auto
  qed
qed

lemma Refine_improves:
  assumes hg: "hg_ready hg" and inv: "inv (GetBlockBalance (rf_evaluator rf) hg sol)" and sol: "solution_ok (rf_evaluator rf) hg sol"
  shows "\<exists>sol'. Refine pass rf hg sol = Some sol' \<and> solution_ok (rf_evaluator rf) hg sol'
    \<and> inv (GetBlockBalance (rf_evaluator rf) hg sol')
    \<and> solution_cost rf hg sol' \<le> solution_cost rf hg sol
    \<and> (\<forall>v. fixed_in_place hg sol v \<longrightarrow> sol' ! v = sol ! v)"
proof (cases "rf_max_move rf = 0")
  case True
  then show ?thesis using assms by (simp add: Refine_def)
next
  case False
  let ?st = "\<lparr>rs_visited = [], rs_solution = sol,
      rs_paths = (if hg_timing_flag hg then GetPathsCost (rf_evaluator rf) hg sol else []),
      rs_balance = GetBlockBalance (rf_evaluator rf) hg sol, rs_degs = GetNetDegrees (rf_evaluator rf) hg sol\<rparr>"
  have "consistent rf hg (?st\<lparr>rs_visited := vis\<rparr>)" if "length vis = hg_num_vertices hg" for vis
    using start_consistent [OF hg sol that] by simp
  from loop_improves [OF hg _ this, of "rf_refiner_iters rf"] inv obtain st' where
      "refine_loop pass hg (rf_refiner_iters rf) ?st = Some st'" "solution_ok (rf_evaluator rf) hg (rs_solution st')"
      "inv (rs_balance st')" "rs_balance st' = GetBlockBalance (rf_evaluator rf) hg (rs_solution st')"
      "solution_cost rf hg (rs_solution st') \<le> solution_cost rf hg sol"
      "\<forall>v. fixed_in_place hg sol v \<longrightarrow> rs_solution st' ! v = sol ! v"
    by auto
  then show ?thesis using False by (intro exI [of _ "rs_solution st'"]) (auto simp: Refine_def Let_def)
qed

end

section \<open>A small design\<close>

text \<open>
  Four vertices in a ring of four hyperedges, the first vertex fixed to the first block, and a timing
  path over one hyperedge: the theorems about refiners apply to it.
\<close>

definition ring4_with :: "nat list \<Rightarrow> int hgraph" where
  "ring4_with path = SetPathTimingCost (ResetPathTimingCost (SetHyperedgeTimingCost
     (Hypergraph_timed 1 1 0 [[0, 1], [1, 2], [2, 3], [3, 0]] [[1], [1], [1], [1]] [[1], [2], [1], [3]] [0, -1, -1, -1] [] [] []
       [0, 0, 0, 0] [{}, {}, {}, {}] [\<lparr>tp_path = path, tp_arcs = [0], tp_slack = 0\<rparr>]) [0, 0, 0, 0])) 0 5"

definition ring4 :: "int hgraph" where
  "ring4 = ring4_with [0, 1]"

definition ring4_refiner :: "int refiner" where
  "ring4_refiner = \<lparr>rf_num_parts = 2, rf_refiner_iters = 2, rf_path_wt_factor = 1, rf_snaking_wt_factor = 1, rf_max_move = 5,
     rf_refiner_iters_default = 2, rf_max_move_default = 5,
     rf_evaluator = \<lparr>ev_num_parts = 2, ev_e_wt_factors = [1], ev_v_wt_factors = [1], ev_net_timing_factor = 1,
       ev_path_timing_factor = 1, ev_path_snaking_factor = 1\<rparr>\<rparr>"

definition ring4_state_of :: "int hgraph \<Rightarrow> nat list \<Rightarrow> int rstate" where
  "ring4_state_of hg sol = \<lparr>rs_visited = [True, False, False, False], rs_solution = sol,
     rs_paths = GetPathsCost (rf_evaluator ring4_refiner) hg sol,
     rs_balance = GetBlockBalance (rf_evaluator ring4_refiner) hg sol,
     rs_degs = GetNetDegrees (rf_evaluator ring4_refiner) hg sol\<rparr>"

definition ring4_state :: "int rstate" where
  "ring4_state = ring4_state_of ring4 [0, 1, 0, 1]"

lemma hg_ok_costs:
  "hg_ok (SetPathTimingCost hg p x) \<longleftrightarrow> hg_ok hg" "hg_ok (ResetPathTimingCost hg') \<longleftrightarrow> hg_ok hg'"
  "hg_ok (SetHyperedgeTimingCost hg cs) \<longleftrightarrow> hg_ok hg"
  by (simp_all add: hg_ok_def SetPathTimingCost_def ResetPathTimingCost_def SetHyperedgeTimingCost_def Vertices_def Edges_def
      PathVertices_def TimingPathsThrough_def GetVertexWeights_def)

lemma ring4_with_facts:
  assumes "set path \<subseteq> {0, 1}"
  shows "hg_ready (ring4_with path)" "hg_num_paths (ring4_with path) = 1" "PathVertices (ring4_with path) 0 = path"
    "hg_num_vertices (ring4_with path) = 4" "hg_num_hyperedges (ring4_with path) = 4"
    and "\<forall>e < 4. Vertices (ring4_with path) e = [[0, 1], [1, 2], [2, 3], [3, 0]] ! e"
proof -
  have P: "\<forall>v \<in> set path. v < length [[1], [1], [1], [1 :: int]]" using assms by auto
  let ?h = "Hypergraph_timed 1 1 0 [[0, 1], [1, 2], [2, 3], [3, 0]] [[1], [1], [1], [1 :: int]] [[1], [2], [1], [3]] [0, -1, -1, -1] [] [] []
       [0, 0, 0, 0] [{}, {}, {}, {}] [\<lparr>tp_path = path, tp_arcs = [0], tp_slack = 0\<rparr>]"
  have B: "hg_ok ?h \<and> hg_num_paths ?h = 1 \<and> hg_num_hyperedges ?h = 4
    \<and> (\<forall>e < 4. Vertices ?h e = [[0, 1], [1, 2], [2, 3], [3, 0]] ! e)
    \<and> (\<forall>p < 1. PathVertices ?h p = tp_path ([\<lparr>tp_path = path, tp_arcs = [0], tp_slack = 0 :: int\<rparr>] ! p))"
    using hypergraph_built [of "[[1], [2], [1], [3]]" "[[0, 1], [1, 2], [2, 3], [3, 0]]" "[0, 0, 0, 0]" "[{}, {}, {}, {}]"
        "[[1], [1], [1], [1 :: int]]" "[\<lparr>tp_path = path, tp_arcs = [0], tp_slack = 0\<rparr>]" 1 1 0 "[0, -1, -1, -1]" "[]" "[]" "[]"] P
    by simp
  have C: "hg_num_paths (ring4_with path) = 1" "Vertices (ring4_with path) = Vertices ?h"
    "PathVertices (ring4_with path) = PathVertices ?h" "hg_num_hyperedges (ring4_with path) = 4"
    "length (hg_path_cost (ring4_with path)) = 1"
    using B by (auto simp: ring4_with_def SetPathTimingCost_def ResetPathTimingCost_def SetHyperedgeTimingCost_def Vertices_def PathVertices_def fun_eq_iff)
  have "hg_timing_flag (ring4_with path)"
    by (simp add: ring4_with_def SetPathTimingCost_def ResetPathTimingCost_def SetHyperedgeTimingCost_def Hypergraph_timed_def
        Hypergraph_plain_def Let_def)
  then show "hg_ready (ring4_with path)" using B C by (simp add: hg_ready_def ring4_with_def hg_ok_costs)
  show "hg_num_paths (ring4_with path) = 1" "hg_num_hyperedges (ring4_with path) = 4"
    "PathVertices (ring4_with path) 0 = path" "\<forall>e < 4. Vertices (ring4_with path) e = [[0, 1], [1, 2], [2, 3], [3, 0]] ! e"
    using B C by simp_all
  show "hg_num_vertices (ring4_with path) = 4"
    by (simp add: ring4_with_def SetPathTimingCost_def ResetPathTimingCost_def SetHyperedgeTimingCost_def Hypergraph_timed_def
        Hypergraph_plain_def Let_def)
qed

lemma ring4_facts:
  "hg_ready ring4" "refiner_ok ring4_refiner" "paths_local ring4" "hg_num_vertices ring4 = 4" "rf_num_parts ring4_refiner = 2"
  "hg_num_hyperedges ring4 = 4" "hg_fixed_flag ring4" "hg_fixed_attr ring4 = [0, -1, -1, -1]" "hg_vertex_dims ring4 = 1"
  "hg_vertex_weights ring4 = [[1], [1], [1], [1]]"
  "solution_ok (rf_evaluator ring4_refiner) ring4 [0, 1, 0, 1]" "paths_once ring4"
  and ring4_vertices: "\<forall>e < 4. Vertices ring4 e = [[0, 1], [1, 2], [2, 3], [3, 0]] ! e"
proof -
  have W: "hg_ready ring4" "hg_num_paths ring4 = 1" "PathVertices ring4 0 = [0, 1]" "hg_num_vertices ring4 = 4"
    "hg_num_hyperedges ring4 = 4" "\<forall>e < 4. Vertices ring4 e = [[0, 1], [1, 2], [2, 3], [3, 0]] ! e"
    unfolding ring4_def using ring4_with_facts [of "[0, 1]"] by simp_all
  then show "hg_ready ring4" "hg_num_vertices ring4 = 4" "hg_num_hyperedges ring4 = 4"
    "\<forall>e < 4. Vertices ring4 e = [[0, 1], [1, 2], [2, 3], [3, 0]] ! e" by simp_all
  show "paths_once ring4" using W(2,3) by (simp add: paths_once_def)
  show "refiner_ok ring4_refiner" "rf_num_parts ring4_refiner = 2" by (simp_all add: refiner_ok_def ring4_refiner_def)
  show "paths_local ring4" using W by (auto simp: paths_local_def adjacent_def intro!: exI [of _ 0])
  show "hg_fixed_flag ring4" "hg_fixed_attr ring4 = [0, -1, -1, -1]"
    "hg_vertex_dims ring4 = 1" "hg_vertex_weights ring4 = [[1], [1], [1], [1]]"
    by (simp_all add: ring4_def ring4_with_def SetPathTimingCost_def ResetPathTimingCost_def SetHyperedgeTimingCost_def Hypergraph_timed_def
        Hypergraph_plain_def Let_def)
  show "solution_ok (rf_evaluator ring4_refiner) ring4 [0, 1, 0, 1]"
    using W(4) by (auto simp: solution_ok_def ring4_refiner_def less_Suc_eq numeral_eq_Suc)
qed

lemma ring4_consistent: "consistent ring4_refiner ring4 ring4_state"
  using ring4_facts by (simp add: consistent_def ring4_state_def ring4_state_of_def)

lemma ring4_solution:
  "rs_solution (ring4_state_of hg sol) = sol" "rs_visited (ring4_state_of hg sol) = [True, False, False, False]"
  "ring4_state_of hg sol\<lparr>rs_visited := [True, False, False, False]\<rparr> = ring4_state_of hg sol"
  by (simp_all add: ring4_state_of_def)

lemma ring4_with_consistent:
  "set path \<subseteq> {0, 1} \<Longrightarrow> consistent ring4_refiner (ring4_with path) (ring4_state_of (ring4_with path) [0, 1, 0, 1])"
  using ring4_with_facts(4) [of path]
  by (auto simp: consistent_def ring4_state_of_def solution_ok_def ring4_refiner_def less_Suc_eq numeral_eq_Suc)

section \<open>Properties\<close>

text \<open>C3: What a move is reckoned to gain.  From degrees and path costs that are those of the solution, the gain
  computed for moving a vertex to another block, by cases on the number of blocks its hyperedges
  touch and from the changed costs of its timing paths, is the cost that \<open>CutEvaluator\<close> gives the
  solution minus the cost it gives the solution after the move, plus the decrease of the cost of each timing
  path once more for every further time the vertex is on that path.  So it is exactly the decrease of the
  cost for a vertex that is at most once on each timing path; for the others it counts a path again.\<close>

theorem vertex_gain_exact:
  fixes hg :: "'f::linordered_idom hgraph"
  assumes "hg_ready hg" "refiner_ok rf" "consistent rf hg st"
    and "v < hg_num_vertices hg" "q < rf_num_parts rf" "rs_solution st ! v \<noteq> q"
  shows "let ev = rf_evaluator rf; sol = rs_solution st; sol' = sol[v := q];
             gain = gc_gain (CalculateVertexGain rf v (sol ! v) q hg sol (rs_paths st) (rs_degs st));
             decrease = pt_cost (CutEvaluator ev hg sol) - pt_cost (CutEvaluator ev hg sol')
    in gain = decrease + (\<Sum>p < hg_num_paths hg. of_nat (count_list (PathVertices hg p) v - 1)
                * (EvCalculatePathCost ev p hg sol - EvCalculatePathCost ev p hg sol'))
       \<and> ((\<forall>p < hg_num_paths hg. count_list (PathVertices hg p) v \<le> 1) \<longrightarrow> gain = decrease)"
  using cell_shape(1) [OF assms] recounted_once [of hg v rf "rs_solution st" q]
  by (simp add: Let_def cell_for_def solution_cost_def recounted_def)

theorem vertex_gain_exact_witness:
  "(let sol = [0, 1, 0, 1]; st = (\<lambda>hg. ring4_state_of hg sol);
      gain = (\<lambda>hg. gc_gain (CalculateVertexGain ring4_refiner 1 1 0 hg sol (rs_paths (st hg)) (rs_degs (st hg))));
      decrease = (\<lambda>hg. pt_cost (CutEvaluator (rf_evaluator ring4_refiner) hg sol)
        - pt_cost (CutEvaluator (rf_evaluator ring4_refiner) hg [0, 0, 0, 1]))
    in gain (ring4_with [0, 1]) = decrease (ring4_with [0, 1])
      \<and> gain (ring4_with [1, 0, 1]) = decrease (ring4_with [1, 0, 1]) + 11)"
proof -
  have "gc_gain (CalculateVertexGain ring4_refiner 1 1 0 (ring4_with [0, 1]) [0, 1, 0, 1]
      (rs_paths (ring4_state_of (ring4_with [0, 1]) [0, 1, 0, 1])) (rs_degs (ring4_state_of (ring4_with [0, 1]) [0, 1, 0, 1])))
    = pt_cost (CutEvaluator (rf_evaluator ring4_refiner) (ring4_with [0, 1]) [0, 1, 0, 1])
      - pt_cost (CutEvaluator (rf_evaluator ring4_refiner) (ring4_with [0, 1]) [0, 0, 0, 1])"
    using vertex_gain_exact [OF ring4_with_facts(1) ring4_facts(2) ring4_with_consistent, of "[0, 1]" 1 0]
    by (simp add: Let_def ring4_with_facts ring4_facts ring4_solution)
  moreover have "EvCalculatePathCost (rf_evaluator ring4_refiner) 0 (ring4_with [1, 0, 1]) [0, 1, 0, 1]
      - EvCalculatePathCost (rf_evaluator ring4_refiner) 0 (ring4_with [1, 0, 1]) [0, 0, 0, 1] = 11"
    by code_simp
  then have "gc_gain (CalculateVertexGain ring4_refiner 1 1 0 (ring4_with [1, 0, 1]) [0, 1, 0, 1]
      (rs_paths (ring4_state_of (ring4_with [1, 0, 1]) [0, 1, 0, 1])) (rs_degs (ring4_state_of (ring4_with [1, 0, 1]) [0, 1, 0, 1])))
    = pt_cost (CutEvaluator (rf_evaluator ring4_refiner) (ring4_with [1, 0, 1]) [0, 1, 0, 1])
      - pt_cost (CutEvaluator (rf_evaluator ring4_refiner) (ring4_with [1, 0, 1]) [0, 0, 0, 1]) + 11"
    using vertex_gain_exact [OF ring4_with_facts(1) ring4_facts(2) ring4_with_consistent, of "[1, 0, 1]" 1 0]
    by (simp add: Let_def ring4_with_facts ring4_facts ring4_solution)
  ultimately show ?thesis by (simp add: Let_def)
qed

text \<open>C22: Moving a vertex and taking the move back.  After \<open>AcceptVertexGain\<close> the degrees of the hyperedges, the
  weights of the blocks and the costs of the timing paths are those that the evaluator computes from
  the new solution, however often the vertex is on a path, and the total has grown by the decrease of the
  cost, plus the decrease of each timing path once more for every further time the vertex is on it;
  \<open>RollBackVertexGain\<close> then restores all of them, with the vertex not visited.\<close>

theorem move_and_roll_back:
  fixes hg :: "'f::linordered_idom hgraph"
  assumes "hg_ready hg" "refiner_ok rf" "consistent rf hg st"
    and "v < hg_num_vertices hg" "q < rf_num_parts rf" "rs_solution st ! v \<noteq> q"
  shows "let c = CalculateVertexGain rf v (rs_solution st ! v) q hg (rs_solution st) (rs_paths st) (rs_degs st);
             (total', st') = AcceptVertexGain c hg total_gain st; sol' = (rs_solution st)[v := q]; ev = rf_evaluator rf
    in rs_solution st' = sol' \<and> rs_degs st' = GetNetDegrees ev hg sol' \<and> rs_balance st' = GetBlockBalance ev hg sol'
       \<and> rs_paths st' = GetPathsCost ev hg sol'
       \<and> total' = total_gain + (pt_cost (CutEvaluator ev hg (rs_solution st)) - pt_cost (CutEvaluator ev hg sol'))
           + (\<Sum>p < hg_num_paths hg. of_nat (count_list (PathVertices hg p) v - 1)
                * (EvCalculatePathCost ev p hg (rs_solution st) - EvCalculatePathCost ev p hg sol'))
       \<and> RollBackVertexGain c hg st' = st\<lparr>rs_visited := (rs_visited st)[v := False]\<rparr>"
  using accept_move [OF assms, of total_gain] cell_shape(1) [OF assms] unfolding cell_for_def Let_def
  by (simp add: split_beta consistent_def solution_cost_def recounted_def)

theorem move_and_roll_back_witness:
  "(let hg = ring4_with [1, 0, 1]; st = ring4_state_of hg [0, 1, 0, 1];
      c = CalculateVertexGain ring4_refiner 1 1 0 hg [0, 1, 0, 1] (rs_paths st) (rs_degs st);
      st' = snd (AcceptVertexGain c hg 0 st)
    in rs_degs st' = GetNetDegrees (rf_evaluator ring4_refiner) hg [0, 0, 0, 1]
      \<and> rs_paths st' = GetPathsCost (rf_evaluator ring4_refiner) hg [0, 0, 0, 1]
      \<and> RollBackVertexGain c hg st' = st)"
  using move_and_roll_back [OF ring4_with_facts(1) ring4_facts(2) ring4_with_consistent, of "[1, 0, 1]" 1 0 0]
  by (simp add: ring4_with_facts ring4_facts ring4_solution Let_def split_beta)

text \<open>C36: Only the first dimension is checked.  Whatever the weights in the other dimensions, a move that stays
  strictly within the bounds in the first dimension is legal for \<open>CheckVertexMoveLegality\<close>: its \<open><=\<close> on
  vectors is the lexicographic comparison of the standard library.\<close>

theorem legality_first_dimension:
  fixes hg :: "'f::{linorder,plus,minus} hgraph"
  assumes "GetVertexWeights hg v = w # ws" "cur ! to_pid = a # as" "cur ! from_pid = b # bs"
    and "upper ! to_pid = u # us" "lower ! from_pid = l # ls" and "a + w < u" "l < b - w"
  shows "CheckVertexMoveLegality v to_pid from_pid hg cur upper lower"
  using assms by (simp add: CheckVertexMoveLegality_def vec_add_def vec_sub_def vec_le_first)

theorem legality_first_dimension_witness:
  "CheckVertexMoveLegality 0 1 0 (Hypergraph_plain 2 1 0 [] [[1, 100 :: int]] [] [] [] [])
     [[5, 5], [5, 5]] [[9, 9], [9, 9]] [[0, 0], [0, 0]]"
  by (rule legality_first_dimension [where w = 1 and ws = "[100]" and a = 5 and as = "[5]" and b = 5 and bs = "[5]" and u = 9
        and us = "[9]" and l = 0 and ls = "[0]"]) (simp_all add: GetVertexWeights_def Hypergraph_plain_def Let_def)

end
