(* ===== verification/ParFM.thy ===== *)
theory ParFM imports ParMoves begin

text \<open>
  \<open>src/par/src/KWayFMRefine.cpp\<close>: the refinement of Fiduccia and Mattheyses for any number of blocks.
  A pass keeps one bucket for each block with the gains of moving vertices into it, makes the best
  legal move again and again, and in the end goes back to the best solution met.

  The functions that the code runs in one thread per block work each on the bucket of their block and
  read the rest: the buckets are computed one by one here.
\<close>

section \<open>The buckets\<close>

definition InitializeSingleGainBucket ::
    "'f::{linorder,zero,one,plus,minus,times} refiner \<Rightarrow> 'f hgraph \<Rightarrow> nat list \<Rightarrow> 'f rstate \<Rightarrow> nat \<Rightarrow> 'f pqueue \<Rightarrow> 'f pqueue" where
  "InitializeSingleGainBucket rf hg boundary_vertices st to_pid bucket =
    (let q = fold (\<lambda>v q. if rs_solution st ! v = to_pid then q else InsertIntoPQ q (cell_for rf hg st v to_pid))
               boundary_vertices (SetActive bucket)
     in if pq_total q = 0 then SetDeactive q else q)"

definition InitializeGainBucketsKWay ::
    "'f::{linorder,zero,one,plus,minus,times} refiner \<Rightarrow> 'f hgraph \<Rightarrow> nat list \<Rightarrow> 'f rstate \<Rightarrow> 'f pqueue list \<Rightarrow> 'f pqueue list" where
  "InitializeGainBucketsKWay rf hg boundary_vertices st buckets =
    map (\<lambda>to_pid. InitializeSingleGainBucket rf hg boundary_vertices st to_pid (buckets ! to_pid)) [0..<rf_num_parts rf]"

definition UpdateSingleGainBucket ::
    "'f::{linorder,zero,one,plus,minus,times} refiner \<Rightarrow> 'f hgraph \<Rightarrow> nat list \<Rightarrow> 'f rstate \<Rightarrow> nat \<Rightarrow> 'f pqueue \<Rightarrow> 'f pqueue" where
  "UpdateSingleGainBucket rf hg neighbors st part bucket =
    fold (\<lambda>v q. if rs_solution st ! v = part then q
                else if CheckIfVertexExists q v then ChangePriority q v (cell_for rf hg st v part)
                else InsertIntoPQ q (cell_for rf hg st v part)) neighbors bucket"

definition HeapEleDeletion :: "nat \<Rightarrow> 'f::{linorder,plus,one} pqueue \<Rightarrow> 'f pqueue option" where
  "HeapEleDeletion vertex_id bucket = Remove bucket vertex_id"

section \<open>One move\<close>

text \<open>
  The search over the tops of the active buckets keeps the best legal candidate, with the block it
  goes to, and the best top, legal or not.
\<close>

definition PickMoveKWay ::
    "'f::{linorder,zero,one,plus,minus,times} refiner \<Rightarrow> 'f \<Rightarrow> 'f hgraph \<Rightarrow> 'f list list \<Rightarrow> 'f list list \<Rightarrow> 'f list list
     \<Rightarrow> 'f pqueue list \<Rightarrow> 'f gain_cell" where
  "PickMoveKWay rf lowest hg cur upper lower buckets =
    (let (to_pid, candidate, best_to_pid, best_gain) =
       fold (\<lambda>i (to_pid, candidate, best_to_pid, best_gain).
           if \<not> pq_active (buckets ! i) then (to_pid, candidate, best_to_pid, best_gain)
           else let ele = GetMax (buckets ! i);
                    legal = (gc_gain ele > gc_gain candidate
                      \<and> CheckVertexMoveLegality (nat (gc_vertex ele)) i (nat (gc_src ele)) hg cur upper lower);
                    better = (gc_gain ele > best_gain)
                in (if legal then int i else to_pid, if legal then ele else candidate,
                    if better then int i else best_to_pid, if better then gc_gain ele else best_gain))
         [0..<rf_num_parts rf] (-1, dummy_cell lowest, -1, lowest)
     in if to_pid > -1 \<or> best_to_pid = -1 then candidate
        else GetBestCandidate (buckets ! nat best_to_pid) lowest cur upper lower (hg_vertex_weights hg))"

text \<open>
  The move is made and its vertex leaves all buckets.  The code puts the cell itself on the trace, and
  removing the vertex changes the cell's gain there; the gains on the trace are not read again.
\<close>

definition AcceptKWayMove ::
    "'f::{linorder,plus,minus,one} gain_cell \<Rightarrow> 'f hgraph \<Rightarrow> 'f pqueue list \<Rightarrow> 'f gain_cell list \<Rightarrow> 'f \<Rightarrow> 'f rstate
     \<Rightarrow> ('f pqueue list \<times> 'f gain_cell list \<times> 'f \<times> 'f rstate) option" where
  "AcceptKWayMove c hg buckets moves_trace total_delta_gain st =
    (let (gained, st') = AcceptVertexGain c hg total_delta_gain st
     in case those (map (HeapEleDeletion (nat (gc_vertex c))) buckets) of
          None \<Rightarrow> None
        | Some buckets' \<Rightarrow> Some (buckets', moves_trace @ [c], gained, st'))"

section \<open>The pass\<close>

record 'f fm_state =
  fm_buckets :: "'f pqueue list"
  fm_trace :: "'f gain_cell list"
  fm_total :: 'f
  fm_best_gain :: 'f
  fm_best_vertex :: int
  fm_st :: "'f rstate"

text \<open>\<open>neighbours\<close> finds the vertices to update, and \<open>blocks\<close> are the blocks with buckets to update.\<close>

primrec fm_moves ::
    "'f::{linorder,zero,one,plus,minus,times} refiner \<Rightarrow> 'f \<Rightarrow> 'f hgraph \<Rightarrow> 'f list list \<Rightarrow> 'f list list
     \<Rightarrow> (nat \<Rightarrow> 'f rstate \<Rightarrow> nat list) \<Rightarrow> nat set \<Rightarrow> nat \<Rightarrow> 'f fm_state \<Rightarrow> 'f fm_state option" where
  "fm_moves rf lowest hg upper lower neighbours blocks 0 s = Some s"
| "fm_moves rf lowest hg upper lower neighbours blocks (Suc moves) s =
    (let c = PickMoveKWay rf lowest hg (rs_balance (fm_st s)) upper lower (fm_buckets s)
     in if gc_vertex c < 0 then Some s
        else case AcceptKWayMove c hg (fm_buckets s) (fm_trace s) (fm_total s) (fm_st s) of
               None \<Rightarrow> None
             | Some (buckets, trace, gained, st) \<Rightarrow>
                 let buckets' = map (\<lambda>b. if b \<in> blocks
                       then UpdateSingleGainBucket rf hg (neighbours (nat (gc_vertex c)) st) st b (buckets ! b)
                       else buckets ! b) [0..<length buckets];
                     better = (gained \<ge> fm_best_gain s)
                 in fm_moves rf lowest hg upper lower neighbours blocks moves
                      \<lparr>fm_buckets = buckets', fm_trace = trace, fm_total = gained,
                       fm_best_gain = (if better then gained else fm_best_gain s),
                       fm_best_vertex = (if better then gc_vertex c else fm_best_vertex s),
                       fm_st = st\<rparr>)"

text \<open>Going back to the best solution: the trace is walked from its end to the best vertex.\<close>

fun roll_back :: "'f::{plus,minus} hgraph \<Rightarrow> int \<Rightarrow> 'f gain_cell list \<Rightarrow> 'f rstate \<Rightarrow> 'f rstate" where
  "roll_back hg best_vertex_id [] st = st"
| "roll_back hg best_vertex_id (c # trace) st =
    (if gc_vertex c = best_vertex_id then st else roll_back hg best_vertex_id trace (RollBackVertexGain c hg st))"

definition unbalanced :: "nat \<Rightarrow> 'f::linorder list list \<Rightarrow> 'f list list \<Rightarrow> 'f list list \<Rightarrow> bool" where
  "unbalanced num_parts cur upper lower \<longleftrightarrow>
    list_ex (\<lambda>b. vec_less (upper ! b) (cur ! b) \<or> vec_less (cur ! b) (lower ! b)) [0..<num_parts]"

definition KWayFMPass ::
    "'f::{linorder,zero,one,plus,minus,times} refiner \<Rightarrow> nat \<Rightarrow> 'f \<Rightarrow> 'f hgraph \<Rightarrow> 'f list list \<Rightarrow> 'f list list \<Rightarrow> 'f rstate
     \<Rightarrow> ('f \<times> 'f rstate) option" where
  "KWayFMPass rf total_corking_passes lowest hg upper lower st =
    (let buckets = replicate (rf_num_parts rf) (pq_new (hg_num_vertices hg) total_corking_passes (hg_vertex_weights hg));
         boundary = FindBoundaryVertices rf hg (rs_degs st) (rs_visited st)
     in if boundary = [] then Some (0, st)
        else case fm_moves rf lowest hg upper lower (\<lambda>v st. FindNeighbors hg v (rs_visited st)) {0..<rf_num_parts rf} (rf_max_move rf)
                 \<lparr>fm_buckets = InitializeGainBucketsKWay rf hg boundary st buckets, fm_trace = [], fm_total = 0,
                  fm_best_gain = (if unbalanced (rf_num_parts rf) (rs_balance st) upper lower then lowest else 0),
                  fm_best_vertex = -1, fm_st = st\<rparr> of
               None \<Rightarrow> None
             | Some s \<Rightarrow> Some (fm_best_gain s, roll_back hg (fm_best_vertex s) (rev (fm_trace s)) (fm_st s)))"

section \<open>What a bucket holds\<close>

text \<open>Every cell of the bucket of block \<open>b\<close> is the present gain of moving a vertex there that may be moved.\<close>

definition bucket_ok :: "'f::linordered_idom refiner \<Rightarrow> 'f hgraph \<Rightarrow> 'f rstate \<Rightarrow> nat \<Rightarrow> 'f pqueue \<Rightarrow> bool" where
  "bucket_ok rf hg st b q \<longleftrightarrow> heap_ok q \<and> length (pq_map q) = hg_num_vertices hg
    \<and> (pq_active q \<longrightarrow> pq_verts q \<noteq> [])
    \<and> (\<forall>v c. pq_look q v = Some c \<longrightarrow> v < hg_num_vertices hg \<and> \<not> rs_visited st ! v \<and> rs_solution st ! v \<noteq> b
          \<and> c = cell_for rf hg st v b)"

lemma bucket_okD:
  assumes "bucket_ok rf hg st b q"
  shows "heap_ok q" "length (pq_map q) = hg_num_vertices hg" "pq_active q \<Longrightarrow> pq_verts q \<noteq> []"
    and "pq_look q v = Some c \<Longrightarrow> v < hg_num_vertices hg \<and> \<not> rs_visited st ! v \<and> rs_solution st ! v \<noteq> b \<and> c = cell_for rf hg st v b"
  using assms unfolding bucket_ok_def by blast+

text \<open>A cell of the bucket is that of its vertex.\<close>

lemma bucket_cell:
  assumes "bucket_ok rf hg st b q" "c \<in> set (pq_verts q)"
  obtains v where "v < hg_num_vertices hg" "\<not> rs_visited st ! v" "rs_solution st ! v \<noteq> b" "c = cell_for rf hg st v b"
    "pq_look q v = Some c"
proof -
  have P: "placed q {}" using assms(1) by (simp add: bucket_ok_def heap_ok_def)
  then have "gc_vertex c = int (nat (gc_vertex c))"
    using placedD(2) [OF P] assms(2) by (auto simp: in_set_conv_nth)
  then have "pq_look q (nat (gc_vertex c)) = Some c" using pq_look_iff [OF P] assms(2) by auto
  then show thesis using bucket_okD(4) [OF assms(1)] that by blast
qed

lemma nonempty_look:
  assumes "placed q {}"
  shows "pq_verts q = [] \<longleftrightarrow> (\<forall>v. pq_look q v = None)"
  using look_empty [OF assms] by auto

lemma boundary_facts:
  "distinct (boundary_of hg flag visited)" "v \<in> set (boundary_of hg flag visited) \<Longrightarrow> v < hg_num_vertices hg \<and> \<not> visited ! v"
  by (auto simp: boundary_of_def)

lemma neighbors_iff:
  assumes "hg_ok hg" "v < hg_num_vertices hg"
  shows "u \<in> set (FindNeighbors hg v visited) \<longleftrightarrow> adjacent hg u v \<and> \<not> visited ! u"
  using Edges_facts(2) [OF assms] by (auto simp: FindNeighbors_def adjacent_def)

lemma Initialize_filled:
  assumes "\<forall>v \<in> set boundary. v < hg_num_vertices hg \<and> \<not> rs_visited st ! v" "distinct boundary"
    and "heap_ok q" "pq_look q = Map.empty" "length (pq_map q) = hg_num_vertices hg"
  shows "bucket_ok rf hg st b (InitializeSingleGainBucket rf hg boundary st b q)
    \<and> pq_look (InitializeSingleGainBucket rf hg boundary st b q)
      = (\<lambda>v. if v \<in> set boundary \<and> rs_solution st ! v \<noteq> b then Some (cell_for rf hg st v b) else None)"
proof -
  define q1 where "q1 = fold (\<lambda>v q. if rs_solution st ! v = b then q else InsertIntoPQ q (cell_for rf hg st v b)) boundary (SetActive q)"
  have F: "heap_ok q1 \<and> length (pq_map q1) = hg_num_vertices hg \<and> pq_active q1
      \<and> pq_look q1 = (\<lambda>v. if v \<in> set boundary \<and> rs_solution st ! v \<noteq> b then Some (cell_for rf hg st v b) else None)"
    using bucket.fold_insert [of "SetActive q" boundary "\<lambda>v. cell_for rf hg st v b" "\<lambda>v. rs_solution st ! v = b"] assms
    by (simp add: q1_def cong: if_cong)
  have E: "InitializeSingleGainBucket rf hg boundary st b q = (if pq_total q1 = 0 then SetDeactive q1 else q1)"
    by (simp add: InitializeSingleGainBucket_def Let_def q1_def)
  have "bucket_ok rf hg st b (InitializeSingleGainBucket rf hg boundary st b q)"
    unfolding bucket_ok_def E using F heap_ok_total [of q1] assms(1) by (auto split: if_splits)
  moreover have "pq_look (InitializeSingleGainBucket rf hg boundary st b q) = pq_look q1" unfolding E by simp
  ultimately show ?thesis using F by simp
qed

lemmas Initialize_ok = Initialize_filled [THEN conjunct1]
lemmas Initialize_look = Initialize_filled [THEN conjunct2]

text \<open>After a move every bucket is brought up to date.\<close>

lemma Update_ok:
  fixes hg :: "'f::linordered_idom hgraph" and t :: 'f
  assumes hg: "hg_ready hg" and rf: "refiner_ok rf" and loc: "paths_local hg"
    and st: "consistent rf hg st" and v: "v < hg_num_vertices hg" "\<not> rs_visited st ! v" and p: "p < rf_num_parts rf"
    and ne: "rs_solution st ! v \<noteq> p"
    and q: "bucket_ok rf hg st b q"
  defines "st' \<equiv> snd (AcceptVertexGain (cell_for rf hg st v p) hg t st)"
  shows "\<exists>q1. Remove q v = Some q1 \<and>
    bucket_ok rf hg st' b (UpdateSingleGainBucket rf hg (FindNeighbors hg v (rs_visited st')) st' b q1)"
proof -
  note Q = bucket_okD [OF q]
  note A = accept_move [OF hg rf st v(1) p ne, of t, folded st'_def]
  have vis: "rs_visited st' ! u \<longleftrightarrow> rs_visited st ! u \<or> u = v" if "u < hg_num_vertices hg" for u
    using that st by (cases "u = v") (simp_all add: A(4) consistent_def)
  obtain q1 where q1: "Remove q v = Some q1" "heap_ok q1" "pq_look q1 = (pq_look q)(v := None)"
      "length (pq_map q1) = hg_num_vertices hg" "pq_active q1 \<longrightarrow> pq_verts q1 \<noteq> []"
  proof (cases "pq_look q v")
    case None
    then have "(pq_look q)(v := None) = pq_look q" by auto
    then show thesis using that [of q] Remove_absent [OF Q(1) None] Q(1-3) v by simp
  next
    case (Some d)
    obtain q1 where q1: "Remove q v = Some q1" "heap_ok q1" "pq_look q1 = (pq_look q)(v := None)" "same_frame q q1"
        "pq_active q1 \<longleftrightarrow> pq_active q \<and> pq_verts q1 \<noteq> []"
      by (rule Remove_ok [OF Q(1) Some]) simp_all
    show thesis by (rule that [OF q1(1-3)]) (use q1(4,5) Q(2) in \<open>auto simp: same_frame_def\<close>)
  qed
  let ?N = "FindNeighbors hg v (rs_visited st')"
  have N: "u \<in> set ?N \<longleftrightarrow> adjacent hg u v \<and> \<not> rs_visited st' ! u" for u
    by (rule neighbors_iff [OF hg_readyD [OF hg] v(1)])
  have adj: "u < hg_num_vertices hg" if "adjacent hg u v" for u
    using that hg_okD(4) [OF hg_readyD [OF hg]] by (auto simp: adjacent_def)
  define q2 where "q2 = UpdateSingleGainBucket rf hg ?N st' b q1"
  have "heap_ok q2 \<and> length (pq_map q2) = length (pq_map q1) \<and> pq_active q2 = pq_active q1
      \<and> pq_look q2 = (\<lambda>u. if u \<in> set ?N \<and> \<not> rs_solution st' ! u = b then Some (cell_for rf hg st' u b) else pq_look q1 u)"
    using bucket.fold_put [of q1 ?N "\<lambda>u. cell_for rf hg st' u b" "\<lambda>u. rs_solution st' ! u = b"] q1(2,4) adj
    unfolding q2_def UpdateSingleGainBucket_def bucket.put_def by (simp add: N)
  then have q2: "heap_ok q2" "length (pq_map q2) = hg_num_vertices hg" "pq_active q2 = pq_active q1"
      "pq_look q2 u = (if u \<in> set ?N \<and> rs_solution st' ! u \<noteq> b then Some (cell_for rf hg st' u b)
        else if u = v then None else pq_look q u)" for u
    using q1 by auto
  have cells: "u < hg_num_vertices hg \<and> \<not> rs_visited st' ! u \<and> rs_solution st' ! u \<noteq> b \<and> c = cell_for rf hg st' u b"
    if "pq_look q2 u = Some c" for u c
  proof (cases "u \<in> set ?N \<and> rs_solution st' ! u \<noteq> b")
    case True
    then show ?thesis using that q2(4) N adj by auto
  next
    case False
    then have u: "u \<noteq> v" "pq_look q u = Some c" using that q2(4) [of u] by (auto split: if_splits)
    then have old: "u < hg_num_vertices hg" "\<not> rs_visited st ! u" "rs_solution st ! u \<noteq> b" "c = cell_for rf hg st u b"
      using Q(4) by auto
    have s: "rs_solution st' ! u = rs_solution st ! u" using u(1) by (simp add: A(3))
    have "\<not> adjacent hg u v" using False N old vis u(1) s by auto
    then show ?thesis
      using cell_elsewhere [OF hg rf loc st A(2,3) old(1) u(1)] old vis u(1) s by simp
  qed
  have "pq_active q2 \<longrightarrow> pq_verts q2 \<noteq> []"
  proof
    assume "pq_active q2"
    then have "pq_verts q1 \<noteq> []" using q1(5) q2(3) by simp
    then obtain w where w: "pq_look q1 w \<noteq> None" using nonempty_look [of q1] q1(2) by (auto simp: heap_ok_def)
    then have "pq_look q2 w \<noteq> None" using q1(3) q2(4) [of w] by (auto split: if_splits)
    then show "pq_verts q2 \<noteq> []" using nonempty_look [of q2] q2(1) by (auto simp: heap_ok_def)
  qed
  then show ?thesis using q1(1) q2 cells unfolding bucket_ok_def q2_def by blast
qed

section \<open>Picking a move\<close>

text \<open>The move picked passes one of the two checks of the balance.\<close>

definition legal_move :: "'f::{linorder,plus,minus} hgraph \<Rightarrow> 'f list list \<Rightarrow> 'f list list \<Rightarrow> 'f rstate \<Rightarrow> 'f gain_cell \<Rightarrow> bool" where
  "legal_move hg upper lower st c \<longleftrightarrow>
    CheckVertexMoveLegality (nat (gc_vertex c)) (nat (gc_dst c)) (nat (gc_src c)) hg (rs_balance st) upper lower
    \<or> CheckBalance (rs_balance st) upper lower (hg_vertex_weights hg) c"

lemma pick_sound:
  fixes lowest :: "'f::linordered_idom" and upper lower :: "'f list list"
  assumes B: "\<forall>b < rf_num_parts rf. bucket_ok rf hg st b (buckets ! b)"
  defines "c \<equiv> PickMoveKWay rf lowest hg (rs_balance st) upper lower buckets"
  shows "c = dummy_cell lowest
    \<or> (\<exists>b v. b < rf_num_parts rf \<and> v < hg_num_vertices hg \<and> \<not> rs_visited st ! v \<and> rs_solution st ! v \<noteq> b
        \<and> c = cell_for rf hg st v b \<and> legal_move hg upper lower st c)"
proof -
  define good where "good = (\<lambda>c. \<exists>b v. b < rf_num_parts rf \<and> v < hg_num_vertices hg \<and> \<not> rs_visited st ! v \<and> rs_solution st ! v \<noteq> b
        \<and> c = cell_for rf hg st v b \<and> legal_move hg upper lower st c)"
  define step where "step = (\<lambda>i (to_pid, candidate, best_to_pid, best_gain).
           if \<not> pq_active (buckets ! i) then (to_pid, candidate, best_to_pid, best_gain)
           else let ele = GetMax (buckets ! i);
                    legal = (gc_gain ele > gc_gain candidate
                      \<and> CheckVertexMoveLegality (nat (gc_vertex ele)) i (nat (gc_src ele)) hg (rs_balance st) upper lower);
                    better = (gc_gain ele > best_gain)
                in (if legal then int i else to_pid, if legal then ele else candidate,
                    if better then int i else best_to_pid, if better then gc_gain ele else best_gain))"
  have top: "\<exists>v. v < hg_num_vertices hg \<and> \<not> rs_visited st ! v \<and> rs_solution st ! v \<noteq> i \<and> GetMax (buckets ! i) = cell_for rf hg st v i"
    if "i < rf_num_parts rf" "pq_active (buckets ! i)" for i
  proof -
    have b: "bucket_ok rf hg st i (buckets ! i)" using B that(1) by blast
    then have "GetMax (buckets ! i) \<in> set (pq_verts (buckets ! i))"
      using bucket_okD(3) [OF b that(2)] by (simp add: GetMax_def)
    then show ?thesis using bucket_cell [OF b] by metis
  qed
  have step: "(case step i (tp, cd, bp, bg) of (tp', cd', bp', bg') \<Rightarrow>
       (cd' = dummy_cell lowest \<or> good cd') \<and> (bp' = -1 \<or> 0 \<le> bp' \<and> bp' < int (rf_num_parts rf)))"
    if "i < rf_num_parts rf" "cd = dummy_cell lowest \<or> good cd" "bp = -1 \<or> 0 \<le> bp \<and> bp < int (rf_num_parts rf)" for i tp cd bp bg
  proof (cases "pq_active (buckets ! i)")
    case True
    from top [OF that(1) True] obtain v where v: "v < hg_num_vertices hg" "\<not> rs_visited st ! v" "rs_solution st ! v \<noteq> i"
      "GetMax (buckets ! i) = cell_for rf hg st v i" by blast
    define legal where "legal \<longleftrightarrow> gc_gain (GetMax (buckets ! i)) > gc_gain cd
      \<and> CheckVertexMoveLegality (nat (gc_vertex (GetMax (buckets ! i)))) i (nat (gc_src (GetMax (buckets ! i)))) hg (rs_balance st) upper lower"
    define better where "better \<longleftrightarrow> gc_gain (GetMax (buckets ! i)) > bg"
    have g: "good (GetMax (buckets ! i))" if legal
      using that v \<open>i < rf_num_parts rf\<close> unfolding good_def legal_def
      by (intro exI [of _ i] exI [of _ v]) (simp add: legal_move_def)
    have E: "step i (tp, cd, bp, bg) = (if legal then int i else tp, if legal then GetMax (buckets ! i) else cd,
        if better then int i else bp, if better then gc_gain (GetMax (buckets ! i)) else bg)"
      using True by (simp add: step_def Let_def legal_def better_def)
    show ?thesis
      unfolding E prod.case using that g by (cases legal; cases better) simp_all
  qed (use that in \<open>simp add: step_def\<close>)
  have inv: "(case fold step js acc of (tp, cd, bp, bg) \<Rightarrow>
       (cd = dummy_cell lowest \<or> good cd) \<and> (bp = -1 \<or> 0 \<le> bp \<and> bp < int (rf_num_parts rf)))"
    if "set js \<subseteq> {0..<rf_num_parts rf}"
      "case acc of (tp, cd, bp, bg) \<Rightarrow> (cd = dummy_cell lowest \<or> good cd) \<and> (bp = -1 \<or> 0 \<le> bp \<and> bp < int (rf_num_parts rf))"
    for js acc
    using that
  proof (induction js arbitrary: acc)
    case (Cons i js)
    obtain tp cd bp bg where acc: "acc = (tp, cd, bp, bg)" by (cases acc)
    have "case step i acc of (tp, cd, bp, bg) \<Rightarrow> (cd = dummy_cell lowest \<or> good cd) \<and> (bp = -1 \<or> 0 \<le> bp \<and> bp < int (rf_num_parts rf))"
      unfolding acc by (rule step) (use Cons.prems in \<open>simp_all add: acc\<close>)
    from Cons.IH [OF _ this] Cons.prems(1) show ?case by simp
  qed simp
  obtain tp cd bp bg where R: "fold step [0..<rf_num_parts rf] (-1, dummy_cell lowest, -1, lowest) = (tp, cd, bp, bg)"
    by (metis prod.exhaust)
  have "cd = dummy_cell lowest \<or> good cd" and bp: "bp = -1 \<or> 0 \<le> bp \<and> bp < int (rf_num_parts rf)"
    using inv [of "[0..<rf_num_parts rf]" "(-1, dummy_cell lowest, -1, lowest)"] unfolding R by simp_all
  moreover have "c = (if tp > -1 \<or> bp = -1 then cd
      else GetBestCandidate (buckets ! nat bp) lowest (rs_balance st) upper lower (hg_vertex_weights hg))"
    unfolding c_def PickMoveKWay_def step_def [symmetric] R by simp
  moreover have "GetBestCandidate (buckets ! nat bp) lowest (rs_balance st) upper lower (hg_vertex_weights hg) = dummy_cell lowest
      \<or> good (GetBestCandidate (buckets ! nat bp) lowest (rs_balance st) upper lower (hg_vertex_weights hg))" if "bp \<noteq> -1"
  proof -
    have n: "nat bp < rf_num_parts rf" using bp that by auto
    then have b: "bucket_ok rf hg st (nat bp) (buckets ! nat bp)" using B by blast
    show ?thesis
      using GetBestCandidate_sound [OF bucket_okD(1) [OF b], of lowest "rs_balance st" upper lower "hg_vertex_weights hg"]
    proof
      assume a: "GetBestCandidate (buckets ! nat bp) lowest (rs_balance st) upper lower (hg_vertex_weights hg) \<in> set (pq_verts (buckets ! nat bp))
        \<and> CheckBalance (rs_balance st) upper lower (hg_vertex_weights hg)
            (GetBestCandidate (buckets ! nat bp) lowest (rs_balance st) upper lower (hg_vertex_weights hg))"
      then show ?thesis
        using bucket_cell [OF b conjunct1 [OF a]] n unfolding good_def by (metis legal_move_def)
    qed blast
  qed
  ultimately have "c = dummy_cell lowest \<or> good c" by (auto split: if_splits)
  then show ?thesis by (simp add: good_def)
qed

text \<open>A legal top of an active bucket is not passed over for a smaller gain.\<close>

definition legal_top :: "'f::{linorder,zero,one,plus,minus,times} refiner \<Rightarrow> 'f \<Rightarrow> 'f hgraph \<Rightarrow> 'f list list \<Rightarrow> 'f list list \<Rightarrow> 'f list list
     \<Rightarrow> 'f pqueue list \<Rightarrow> nat \<Rightarrow> bool" where
  "legal_top rf lowest hg cur upper lower buckets b \<longleftrightarrow> b < rf_num_parts rf \<and> pq_active (buckets ! b)
    \<and> lowest < gc_gain (GetMax (buckets ! b))
    \<and> CheckVertexMoveLegality (nat (gc_vertex (GetMax (buckets ! b)))) b (nat (gc_src (GetMax (buckets ! b)))) hg cur upper lower"

lemma pick_best:
  fixes lowest :: "'f::linordered_idom"
  assumes "legal_top rf lowest hg cur upper lower buckets b"
  shows "gc_gain (GetMax (buckets ! b)) \<le> gc_gain (PickMoveKWay rf lowest hg cur upper lower buckets)"
proof -
  define step where "step = (\<lambda>i (to_pid :: int, candidate, best_to_pid, best_gain).
           if \<not> pq_active (buckets ! i) then (to_pid, candidate, best_to_pid, best_gain)
           else let ele = GetMax (buckets ! i);
                    legal = (gc_gain ele > gc_gain candidate
                      \<and> CheckVertexMoveLegality (nat (gc_vertex ele)) i (nat (gc_src ele)) hg cur upper lower);
                    better = (gc_gain ele > best_gain)
                in (if legal then int i else to_pid, if legal then ele else candidate,
                    if better then int i else best_to_pid, if better then gc_gain ele else best_gain))"
  define found where "found = (\<lambda>i (tp, cd, bp :: int, bg :: 'f).
      tp > (-1 :: int) \<and> gc_gain (GetMax (buckets ! i)) \<le> gc_gain (cd :: 'f gain_cell))"
  define low where "low = (\<lambda>(tp :: int, cd :: 'f gain_cell, bp :: int, bg :: 'f). -1 \<le> tp \<and> lowest \<le> gc_gain cd \<and> (tp = -1 \<longrightarrow> gc_gain cd = lowest))"
  have low: "low (step i acc)" if "low acc" for i acc
    using that by (cases acc) (auto simp: low_def step_def Let_def)
  have keep: "found j (step i acc)" if "found j acc" for i j acc
    using that by (cases acc) (auto simp: found_def step_def Let_def)
  have hit: "found b (step b acc)" if "low acc" for acc
    using that assms by (cases acc) (auto simp: found_def low_def step_def Let_def legal_top_def not_less)
  have fold_keep: "found b (fold step js acc)" if "found b acc" for js acc
    using that by (induction js arbitrary: acc) (simp_all add: keep)
  have "found b (fold step js acc)" if "low acc" "b \<in> set js" for js acc
    using that
  proof (induction js arbitrary: acc)
    case (Cons j js)
    then show ?case using low [of acc j] fold_keep [OF hit [of acc], of js] by (cases "j = b") auto
  qed simp
  moreover have "low (-1, dummy_cell lowest, -1, lowest)" by (simp add: low_def dummy_cell_def)
  moreover have "b \<in> set [0..<rf_num_parts rf]" using assms by (simp add: legal_top_def)
  ultimately have "found b (fold step [0..<rf_num_parts rf] (-1, dummy_cell lowest, -1, lowest))" by blast
  then show ?thesis unfolding PickMoveKWay_def step_def [symmetric] by (auto simp: found_def split: prod.splits)
qed

lemma pick_none:
  assumes "\<forall>b < rf_num_parts rf. \<not> pq_active (buckets ! b)"
  shows "PickMoveKWay rf lowest hg cur upper lower buckets = dummy_cell lowest"
proof -
  have "fold (\<lambda>i (to_pid, candidate, best_to_pid, best_gain).
         if \<not> pq_active (buckets ! i) then (to_pid, candidate, best_to_pid, best_gain)
         else let ele = GetMax (buckets ! i);
                  legal = (gc_gain ele > gc_gain candidate
                    \<and> CheckVertexMoveLegality (nat (gc_vertex ele)) i (nat (gc_src ele)) hg cur upper lower);
                  better = (gc_gain ele > best_gain)
              in (if legal then int i else to_pid, if legal then ele else candidate,
                  if better then int i else best_to_pid, if better then gc_gain ele else best_gain)) is acc = acc"
    if "set is \<subseteq> {0..<rf_num_parts rf}" for "is" acc
    using that assms by (induction "is" arbitrary: acc) auto
  from this [of "[0..<rf_num_parts rf]"] show ?thesis by (simp add: PickMoveKWay_def)
qed

section \<open>The moves of a pass\<close>

text \<open>Going back along a run to the state after its first moves.\<close>

lemma roll_back_run:
  fixes hg :: "'f::linordered_idom hgraph"
  assumes hg: "hg_ready hg" and rf: "refiner_ok rf" and st0: "consistent rf hg st0"
    and run: "fm_run allowed rf hg st0 (cs @ ds) st" and s: "fm_run allowed rf hg st0 cs s"
    and best: "best = (if cs = [] then -1 else gc_vertex (last cs))"
  shows "roll_back hg best (rev (cs @ ds)) st = s"
  using run
proof (induction ds arbitrary: st rule: rev_induct)
  case Nil
  then have "st = s" using fm_run_det s by auto
  then show ?case
    using best by (cases cs rule: rev_cases) auto
next
  case (snoc d ds)
  obtain prev v q t where d: "fm_run allowed rf hg st0 (cs @ ds) prev" "v < hg_num_vertices hg" "\<not> rs_visited prev ! v"
      "q < rf_num_parts rf" "rs_solution prev ! v \<noteq> q" "d = cell_for rf hg prev v q" "st = snd (AcceptVertexGain d hg t prev)"
    using snoc.prems unfolding append_assoc [symmetric] by (elim run_snocE) auto
  note C = fm_run_consistent [OF snoc.prems hg rf st0]
  have prev: "consistent rf hg prev" using fm_run_consistent [OF d(1) hg rf st0] by blast
  have dn: "distinct (map gc_vertex (cs @ ds @ [d]))" using C by simp
  have "gc_vertex d \<noteq> best"
  proof (cases "cs = []")
    case False
    then have "gc_vertex (last cs) \<in> gc_vertex ` set cs" by simp
    then show ?thesis using dn False by (auto simp: best)
  qed (simp add: best d(6))
  moreover have "(rs_visited prev)[v := False] = rs_visited prev"
    using d(2,3) prev by (simp add: consistent_def list_update_same_conv)
  then have "RollBackVertexGain d hg st = prev"
    using accept_move(5) [OF hg rf prev d(2,4,5), of t] by (simp add: d(6,7))
  ultimately show ?case using snoc.IH [OF d(1)] by simp
qed

text \<open>
  What holds between two moves: the state is reached by the moves on the trace, the buckets are up to
  date, the total is the decrease of the cost, and the best gain is the largest total met after a
  move, with the vertex of that move.
\<close>

definition fm_inv ::
    "'f::linordered_idom refiner \<Rightarrow> 'f hgraph \<Rightarrow> 'f list list \<Rightarrow> 'f list list \<Rightarrow> 'f \<Rightarrow> 'f rstate \<Rightarrow> 'f fm_state \<Rightarrow> bool" where
  "fm_inv rf hg upper lower first st0 s \<longleftrightarrow>
    fm_run (legal_move hg upper lower) rf hg st0 (fm_trace s) (fm_st s)
    \<and> length (fm_buckets s) = rf_num_parts rf \<and> (\<forall>b < rf_num_parts rf. bucket_ok rf hg (fm_st s) b (fm_buckets s ! b))
    \<and> fm_total s = solution_cost rf hg (rs_solution st0) - solution_cost rf hg (rs_solution (fm_st s))
    \<and> first \<le> fm_best_gain s
    \<and> (\<exists>k \<le> length (fm_trace s).
         fm_best_vertex s = (if k = 0 then -1 else gc_vertex (fm_trace s ! (k - 1)))
         \<and> (if k = 0 then fm_best_gain s = first
            else \<forall>sk. fm_run (legal_move hg upper lower) rf hg st0 (take k (fm_trace s)) sk \<longrightarrow>
                   fm_best_gain s = solution_cost rf hg (rs_solution st0) - solution_cost rf hg (rs_solution sk))
         \<and> (\<forall>i sk. k < i \<and> i \<le> length (fm_trace s) \<and> fm_run (legal_move hg upper lower) rf hg st0 (take i (fm_trace s)) sk \<longrightarrow>
               solution_cost rf hg (rs_solution st0) - solution_cost rf hg (rs_solution sk) < fm_best_gain s))
    \<and> (\<forall>i sk. 0 < i \<and> i \<le> length (fm_trace s) \<and> fm_run (legal_move hg upper lower) rf hg st0 (take i (fm_trace s)) sk \<longrightarrow>
         solution_cost rf hg (rs_solution st0) - solution_cost rf hg (rs_solution sk) \<le> fm_best_gain s)"

lemma those_map_Some:
  "(\<forall>x \<in> set xs. f x = Some (g x)) \<Longrightarrow> those (map f xs) = Some (map g xs)"
  by (induction xs) auto

lemma fm_step:
  fixes hg :: "'f::linordered_idom hgraph" and lowest :: 'f
  assumes hg: "hg_ready hg" and rf: "refiner_ok rf" and loc: "paths_local hg" "paths_once hg" and st0: "consistent rf hg st0"
    and inv: "fm_inv rf hg upper lower first st0 s"
    and nb: "\<And>v st. consistent rf hg st \<Longrightarrow> v < hg_num_vertices hg \<Longrightarrow> neighbours v st = FindNeighbors hg v (rs_visited st)"
    and blocks: "{0..<rf_num_parts rf} \<subseteq> blocks"
  defines "c \<equiv> PickMoveKWay rf lowest hg (rs_balance (fm_st s)) upper lower (fm_buckets s)"
  assumes c: "\<not> gc_vertex c < 0"
  shows "\<exists>buckets st. AcceptKWayMove c hg (fm_buckets s) (fm_trace s) (fm_total s) (fm_st s)
      = Some (buckets, fm_trace s @ [c], fm_total s + gc_gain c, st)
    \<and> fm_inv rf hg upper lower first st0
        \<lparr>fm_buckets = map (\<lambda>b. if b \<in> blocks
             then UpdateSingleGainBucket rf hg (neighbours (nat (gc_vertex c)) st) st b (buckets ! b)
             else buckets ! b) [0..<length buckets],
         fm_trace = fm_trace s @ [c], fm_total = fm_total s + gc_gain c,
         fm_best_gain = (if fm_total s + gc_gain c \<ge> fm_best_gain s then fm_total s + gc_gain c else fm_best_gain s),
         fm_best_vertex = (if fm_total s + gc_gain c \<ge> fm_best_gain s then gc_vertex c else fm_best_vertex s),
         fm_st = st\<rparr>"
proof -
  let ?st = "fm_st s" and ?cost = "\<lambda>st. solution_cost rf hg (rs_solution st)" and ?run = "fm_run (legal_move hg upper lower) rf hg st0"
  note I = inv [unfolded fm_inv_def]
  have run: "?run (fm_trace s) ?st" and B: "\<forall>b < rf_num_parts rf. bucket_ok rf hg ?st b (fm_buckets s ! b)"
    and len: "length (fm_buckets s) = rf_num_parts rf" using I by blast+
  have cons: "consistent rf hg ?st" using fm_run_consistent [OF run hg rf st0] by blast
  obtain p v where v: "p < rf_num_parts rf" "v < hg_num_vertices hg" "\<not> rs_visited ?st ! v" "rs_solution ?st ! v \<noteq> p"
      "c = cell_for rf hg ?st v p" "legal_move hg upper lower ?st c"
    using pick_sound [OF B, of lowest upper lower, folded c_def] c by (auto simp: dummy_cell_def)
  have cv: "nat (gc_vertex c) = v" by (simp add: v(5))
  define st where "st = snd (AcceptVertexGain c hg (fm_total s) ?st)"
  note A = accept_move [OF hg rf cons v(2,1,4), of "fm_total s", folded v(5), folded st_def]
  have "\<exists>q1. Remove (fm_buckets s ! b) v = Some q1 \<and>
      bucket_ok rf hg st b (UpdateSingleGainBucket rf hg (FindNeighbors hg v (rs_visited st)) st b q1)"
    if "b < rf_num_parts rf" for b
    using Update_ok [OF hg rf loc(1) cons v(2,3,1,4), of b "fm_buckets s ! b" "fm_total s"] B that
    unfolding st_def v(5) by blast
  then obtain f where f: "Remove (fm_buckets s ! b) v = Some (f b)"
      "bucket_ok rf hg st b (UpdateSingleGainBucket rf hg (FindNeighbors hg v (rs_visited st)) st b (f b))"
    if "b < rf_num_parts rf" for b
    by metis
  define buckets where "buckets = map f [0..<rf_num_parts rf]"
  have "map (HeapEleDeletion v) (fm_buckets s) = map (\<lambda>b. HeapEleDeletion v (fm_buckets s ! b)) [0..<rf_num_parts rf]"
    by (simp add: list_eq_iff_nth_eq len)
  then have del: "those (map (HeapEleDeletion v) (fm_buckets s)) = Some buckets"
    using those_map_Some [of "[0..<rf_num_parts rf]" "\<lambda>b. HeapEleDeletion v (fm_buckets s ! b)" f] f
    by (simp add: buckets_def HeapEleDeletion_def)
  have fst: "fst (AcceptVertexGain c hg (fm_total s) ?st) = fm_total s + gc_gain c"
    by (simp add: AcceptVertexGain_def Let_def)
  have acc: "AcceptKWayMove c hg (fm_buckets s) (fm_trace s) (fm_total s) ?st = Some (buckets, fm_trace s @ [c], fm_total s + gc_gain c, st)"
    using fst del by (simp add: AcceptKWayMove_def cv split_beta st_def)
  have run': "?run (fm_trace s @ [c]) st"
    unfolding st_def by (rule run_move [OF run v(2,3,1,4,5,6)])
  have gained: "fm_total s + gc_gain c = ?cost st0 - ?cost st"
    using cell_shape(1) [OF hg rf cons v(2,1,4)] recounted_once [OF paths_once_count [OF loc(2)]] I by (simp add: v(5) A(3))
  have tk: "take i (fm_trace s @ [c]) = take i (fm_trace s)" if "i \<le> length (fm_trace s)" for i
    using that by simp
  let ?n = "length (fm_trace s)"
  let ?total = "fm_total s + gc_gain c"
  obtain k where k: "k \<le> ?n" "fm_best_vertex s = (if k = 0 then -1 else gc_vertex (fm_trace s ! (k - 1)))"
      "if k = 0 then fm_best_gain s = first
       else \<forall>sk. ?run (take k (fm_trace s)) sk \<longrightarrow> fm_best_gain s = ?cost st0 - ?cost sk"
      "\<forall>i sk. k < i \<and> i \<le> ?n \<and> ?run (take i (fm_trace s)) sk \<longrightarrow> ?cost st0 - ?cost sk < fm_best_gain s"
    using I by blast
  have "fm_inv rf hg upper lower first st0
        \<lparr>fm_buckets = map (\<lambda>b. if b \<in> blocks
             then UpdateSingleGainBucket rf hg (neighbours (nat (gc_vertex c)) st) st b (buckets ! b)
             else buckets ! b) [0..<length buckets],
         fm_trace = fm_trace s @ [c], fm_total = ?total,
         fm_best_gain = (if ?total \<ge> fm_best_gain s then ?total else fm_best_gain s),
         fm_best_vertex = (if ?total \<ge> fm_best_gain s then gc_vertex c else fm_best_vertex s),
         fm_st = st\<rparr>"
    unfolding fm_inv_def fm_state.simps
  proof (intro conjI allI impI)
    show "?run (fm_trace s @ [c]) st" by (rule run')
    show "length (map (\<lambda>b. if b \<in> blocks
             then UpdateSingleGainBucket rf hg (neighbours (nat (gc_vertex c)) st) st b (buckets ! b)
             else buckets ! b) [0..<length buckets]) = rf_num_parts rf" by (simp add: buckets_def)
    show "?total = ?cost st0 - ?cost st" by (rule gained)
    show "first \<le> (if ?total \<ge> fm_best_gain s then ?total else fm_best_gain s)"
      using I by (auto intro: order_trans)
  next
    fix b assume b: "b < rf_num_parts rf"
    then show "bucket_ok rf hg st b (map (\<lambda>b. if b \<in> blocks
             then UpdateSingleGainBucket rf hg (neighbours (nat (gc_vertex c)) st) st b (buckets ! b)
             else buckets ! b) [0..<length buckets] ! b)"
      using f(2) [OF b] blocks b nb [OF A(2) v(2)] by (auto simp: buckets_def cv)
  next
    show "\<exists>k \<le> length (fm_trace s @ [c]).
         (if ?total \<ge> fm_best_gain s then gc_vertex c else fm_best_vertex s)
           = (if k = 0 then -1 else gc_vertex ((fm_trace s @ [c]) ! (k - 1)))
         \<and> (if k = 0 then (if ?total \<ge> fm_best_gain s then ?total else fm_best_gain s) = first
            else \<forall>sk. ?run (take k (fm_trace s @ [c])) sk \<longrightarrow>
                   (if ?total \<ge> fm_best_gain s then ?total else fm_best_gain s) = ?cost st0 - ?cost sk)
         \<and> (\<forall>i sk. k < i \<and> i \<le> length (fm_trace s @ [c]) \<and> ?run (take i (fm_trace s @ [c])) sk \<longrightarrow>
               ?cost st0 - ?cost sk < (if ?total \<ge> fm_best_gain s then ?total else fm_best_gain s))"
    proof (cases "?total \<ge> fm_best_gain s")
      case True
      then show ?thesis
        using fm_run_det [OF run'] gained by (intro exI [of _ "Suc ?n"]) auto
    next
      case False
      have "?cost st0 - ?cost sk < fm_best_gain s"
        if "k < i" "i \<le> length (fm_trace s @ [c])" "?run (take i (fm_trace s @ [c])) sk" for i sk
      proof (cases "i \<le> ?n")
        case True
        then show ?thesis using k(4) that tk by metis
      next
        case i: False
        then have "sk = st" using fm_run_det [OF run'] that by simp
        then show ?thesis using gained False by simp
      qed
      then show ?thesis using k(1-3) False by (intro exI [of _ k]) (auto simp: tk nth_append split: if_splits)
    qed
  next
    fix i sk
    assume i: "0 < i \<and> i \<le> length (fm_trace s @ [c]) \<and> ?run (take i (fm_trace s @ [c])) sk"
    show "?cost st0 - ?cost sk \<le> (if ?total \<ge> fm_best_gain s then ?total else fm_best_gain s)"
    proof (cases "i \<le> ?n")
      case True
      then have "?cost st0 - ?cost sk \<le> fm_best_gain s" using I i tk by metis
      then show ?thesis by (auto intro: order_trans)
    next
      case False
      then have "?run (fm_trace s @ [c]) sk" using i by simp
      then have "sk = st" using fm_run_det [OF run'] by blast
      then show ?thesis using gained by auto
    qed
  qed
  then show ?thesis using acc by blast
qed

lemma fm_moves_ok:
  fixes hg :: "'f::linordered_idom hgraph"
  assumes hg: "hg_ready hg" and rf: "refiner_ok rf" and loc: "paths_local hg" "paths_once hg" and st0: "consistent rf hg st0"
    and nb: "\<And>v st. consistent rf hg st \<Longrightarrow> v < hg_num_vertices hg \<Longrightarrow> neighbours v st = FindNeighbors hg v (rs_visited st)"
    and blocks: "{0..<rf_num_parts rf} \<subseteq> blocks"
    and inv: "fm_inv rf hg upper lower first st0 s"
  shows "\<exists>s'. fm_moves rf lowest hg upper lower neighbours blocks moves s = Some s'
    \<and> fm_inv rf hg upper lower first st0 s' \<and> length (fm_trace s') \<le> length (fm_trace s) + moves"
  using inv
proof (induction moves arbitrary: s)
  case 0
  then show ?case by simp
next
  case (Suc moves)
  define c where "c = PickMoveKWay rf lowest hg (rs_balance (fm_st s)) upper lower (fm_buckets s)"
  show ?case
  proof (cases "gc_vertex c < 0")
    case True
    then have "fm_moves rf lowest hg upper lower neighbours blocks (Suc moves) s = Some s"
      by (simp add: c_def Let_def)
    then show ?thesis using Suc.prems by (intro exI [of _ s]) simp
  next
    case False
    obtain buckets st where A: "AcceptKWayMove c hg (fm_buckets s) (fm_trace s) (fm_total s) (fm_st s)
        = Some (buckets, fm_trace s @ [c], fm_total s + gc_gain c, st)"
      and I: "fm_inv rf hg upper lower first st0
        \<lparr>fm_buckets = map (\<lambda>b. if b \<in> blocks
             then UpdateSingleGainBucket rf hg (neighbours (nat (gc_vertex c)) st) st b (buckets ! b)
             else buckets ! b) [0..<length buckets],
         fm_trace = fm_trace s @ [c], fm_total = fm_total s + gc_gain c,
         fm_best_gain = (if fm_total s + gc_gain c \<ge> fm_best_gain s then fm_total s + gc_gain c else fm_best_gain s),
         fm_best_vertex = (if fm_total s + gc_gain c \<ge> fm_best_gain s then gc_vertex c else fm_best_vertex s),
         fm_st = st\<rparr>"
      using fm_step [OF hg rf loc st0 Suc.prems nb blocks, of lowest, folded c_def] False by blast
    obtain s' where s': "fm_moves rf lowest hg upper lower neighbours blocks moves
        \<lparr>fm_buckets = map (\<lambda>b. if b \<in> blocks
             then UpdateSingleGainBucket rf hg (neighbours (nat (gc_vertex c)) st) st b (buckets ! b)
             else buckets ! b) [0..<length buckets],
         fm_trace = fm_trace s @ [c], fm_total = fm_total s + gc_gain c,
         fm_best_gain = (if fm_total s + gc_gain c \<ge> fm_best_gain s then fm_total s + gc_gain c else fm_best_gain s),
         fm_best_vertex = (if fm_total s + gc_gain c \<ge> fm_best_gain s then gc_vertex c else fm_best_vertex s),
         fm_st = st\<rparr> = Some s'"
      "fm_inv rf hg upper lower first st0 s'" "length (fm_trace s') \<le> length (fm_trace s @ [c]) + moves"
      using Suc.IH [OF I] by auto
    have "fm_moves rf lowest hg upper lower neighbours blocks (Suc moves) s = Some s'"
      using False s'(1) unfolding fm_moves.simps c_def [symmetric] A Let_def by simp
    then show ?thesis using s'(2,3) by auto
  qed
qed

text \<open>The state a pass starts in.\<close>

lemma fm_start:
  fixes hg :: "'f::linordered_idom hgraph" and rf :: "'f refiner"
  defines "boundary \<equiv> \<lambda>st. FindBoundaryVertices rf hg (rs_degs st) (rs_visited st)"
  shows "fm_inv rf hg upper lower first st
    \<lparr>fm_buckets = InitializeGainBucketsKWay rf hg (boundary st) st
        (replicate (rf_num_parts rf) (pq_new (hg_num_vertices hg) corking (hg_vertex_weights hg))),
     fm_trace = [], fm_total = 0, fm_best_gain = first, fm_best_vertex = -1, fm_st = st\<rparr>"
proof -
  have "bucket_ok rf hg st b (InitializeSingleGainBucket rf hg (boundary st) st b (pq_new (hg_num_vertices hg) corking (hg_vertex_weights hg)))" for b
    by (rule Initialize_ok) (auto simp: boundary_def FindBoundaryVertices_def boundary_facts pq_new_ok)
  then show ?thesis by (simp add: fm_inv_def InitializeGainBucketsKWay_def run_start)
qed

text \<open>
  A pass makes moves from a good start and goes back to the best solution, the last of them when there are
  several; this is what both refinements do that work with buckets.
\<close>

definition best_prefix ::
    "('f::linordered_idom rstate \<Rightarrow> 'f gain_cell list \<Rightarrow> 'f rstate \<Rightarrow> bool) \<Rightarrow> ('f rstate \<Rightarrow> 'f) \<Rightarrow> 'f \<Rightarrow> 'f rstate
     \<Rightarrow> 'f gain_cell list \<Rightarrow> nat \<Rightarrow> 'f \<Rightarrow> 'f rstate \<Rightarrow> bool" where
  "best_prefix run cost first st trace k gain st' \<longleftrightarrow>
    k \<le> length trace \<and> run st (take k trace) st' \<and> gain = (if k = 0 then first else cost st - cost st') \<and> first \<le> gain
    \<and> (\<forall>i si. 0 < i \<and> i \<le> length trace \<and> run st (take i trace) si \<longrightarrow>
          cost st - cost si \<le> gain \<and> (k < i \<longrightarrow> cost st - cost si < gain))"

lemma pass_result:
  fixes hg :: "'f::linordered_idom hgraph" and rf :: "'f refiner" and upper lower :: "'f list list"
  assumes hg: "hg_ready hg" and rf: "refiner_ok rf" and loc: "paths_local hg" "paths_once hg" and st: "consistent rf hg st"
    and nb: "\<And>v st. consistent rf hg st \<Longrightarrow> v < hg_num_vertices hg \<Longrightarrow> neighbours v st = FindNeighbors hg v (rs_visited st)"
    and blocks: "{0..<rf_num_parts rf} \<subseteq> blocks"
    and start: "fm_inv rf hg upper lower first st s0" "fm_trace s0 = []"
  shows "\<exists>s k. fm_moves rf lowest hg upper lower neighbours blocks moves s0 = Some s \<and> length (fm_trace s) \<le> moves
    \<and> best_prefix (fm_run (legal_move hg upper lower) rf hg) (\<lambda>st. solution_cost rf hg (rs_solution st)) first st
        (fm_trace s) k (fm_best_gain s) (roll_back hg (fm_best_vertex s) (rev (fm_trace s)) (fm_st s))"
proof -
  define cost :: "'f rstate \<Rightarrow> 'f" where "cost = (\<lambda>st. solution_cost rf hg (rs_solution st))"
  define run where "run = fm_run (legal_move hg upper lower) rf hg"
  obtain s where s: "fm_moves rf lowest hg upper lower neighbours blocks moves s0 = Some s"
      "fm_inv rf hg upper lower first st s" "length (fm_trace s) \<le> moves"
    using fm_moves_ok [OF hg rf loc st nb blocks start(1), of lowest moves] start(2) by auto
  note I = s(2) [unfolded fm_inv_def, folded run_def]
  obtain k where k: "k \<le> length (fm_trace s)" "fm_best_vertex s = (if k = 0 then -1 else gc_vertex (fm_trace s ! (k - 1)))"
      "if k = 0 then fm_best_gain s = first
       else \<forall>sk. run st (take k (fm_trace s)) sk \<longrightarrow> fm_best_gain s = cost st - cost sk"
      "\<forall>i sk. k < i \<and> i \<le> length (fm_trace s) \<and> run st (take i (fm_trace s)) sk \<longrightarrow> cost st - cost sk < fm_best_gain s"
    using I unfolding cost_def by blast
  have r: "run st (take k (fm_trace s) @ drop k (fm_trace s)) (fm_st s)" using I by simp
  then obtain st' where st': "run st (take k (fm_trace s)) st'" using fm_run_prefix unfolding run_def by blast
  have nil: "take k (fm_trace s) = [] \<longleftrightarrow> k = 0" using k(1) by auto
  have best: "fm_best_vertex s = (if take k (fm_trace s) = [] then -1 else gc_vertex (last (take k (fm_trace s))))"
  proof (cases "k = 0")
    case False
    then have ne: "take k (fm_trace s) \<noteq> []" using nil by blast
    have "last (take k (fm_trace s)) = fm_trace s ! (k - 1)"
      unfolding last_conv_nth [OF ne] using False k(1) by (simp add: min_def)
    with ne show ?thesis using False k(2) by simp
  qed (simp add: k(2))
  have undo: "roll_back hg (fm_best_vertex s) (rev (fm_trace s)) (fm_st s) = st'"
    using roll_back_run [OF hg rf st r [unfolded run_def] st' [unfolded run_def] best] by simp
  have gain: "fm_best_gain s = (if k = 0 then first else cost st - cost st')"
    using k(3) st' by (cases "k = 0") auto
  have "first \<le> fm_best_gain s"
    "\<forall>i si. 0 < i \<and> i \<le> length (fm_trace s) \<and> run st (take i (fm_trace s)) si \<longrightarrow> cost st - cost si \<le> fm_best_gain s"
    using I unfolding cost_def by blast+
  then have "best_prefix run cost first st (fm_trace s) k (fm_best_gain s) st'"
    unfolding best_prefix_def using k(1,4) st' gain by blast
  then show ?thesis using s(1,3) undo by (auto simp: run_def cost_def)
qed

text \<open>What the pass has tried after \<open>n\<close> rounds of its loop.\<close>

definition kway_tried ::
    "'f::{linorder,zero,one,plus,minus,times} refiner \<Rightarrow> nat \<Rightarrow> 'f \<Rightarrow> 'f hgraph \<Rightarrow> 'f list list \<Rightarrow> 'f list list \<Rightarrow> 'f rstate
     \<Rightarrow> nat \<Rightarrow> 'f fm_state option" where
  "kway_tried rf total_corking_passes lowest hg upper lower st n =
    fm_moves rf lowest hg upper lower (\<lambda>v st. FindNeighbors hg v (rs_visited st)) {0..<rf_num_parts rf} n
      \<lparr>fm_buckets = InitializeGainBucketsKWay rf hg (FindBoundaryVertices rf hg (rs_degs st) (rs_visited st)) st
         (replicate (rf_num_parts rf) (pq_new (hg_num_vertices hg) total_corking_passes (hg_vertex_weights hg))),
       fm_trace = [], fm_total = 0,
       fm_best_gain = (if unbalanced (rf_num_parts rf) (rs_balance st) upper lower then lowest else 0),
       fm_best_vertex = -1, fm_st = st\<rparr>"

text \<open>The move that the search picks when the pass is at \<open>s\<close>.\<close>

definition fm_pick ::
    "'f::{linorder,zero,one,plus,minus,times} refiner \<Rightarrow> 'f \<Rightarrow> 'f hgraph \<Rightarrow> 'f list list \<Rightarrow> 'f list list \<Rightarrow> 'f fm_state \<Rightarrow> 'f gain_cell" where
  "fm_pick rf lowest hg upper lower s = PickMoveKWay rf lowest hg (rs_balance (fm_st s)) upper lower (fm_buckets s)"

lemma fm_moves_Suc:
  "fm_moves rf lowest hg upper lower neighbours blocks (Suc n) s =
    (case fm_moves rf lowest hg upper lower neighbours blocks n s of
       None \<Rightarrow> None | Some s' \<Rightarrow> fm_moves rf lowest hg upper lower neighbours blocks 1 s')"
proof (induction n arbitrary: s)
  case (Suc n)
  let ?c = "PickMoveKWay rf lowest hg (rs_balance (fm_st s)) upper lower (fm_buckets s)"
  show ?case
  proof (cases "gc_vertex ?c < 0")
    case True
    then show ?thesis by (simp add: Let_def)
  next
    case False
    then show ?thesis
      by (subst (1 2) fm_moves.simps(2)) (simp add: Let_def Suc.IH del: fm_moves.simps(2) split: option.split prod.split)
  qed
qed simp

lemma tried_moves:
  fixes hg :: "'f::linordered_idom hgraph" and rf :: "'f refiner" and upper lower :: "'f list list"
  assumes hg: "hg_ready hg" and rf: "refiner_ok rf" and loc: "paths_local hg" "paths_once hg" and st: "consistent rf hg st"
    and nb: "\<And>v st. consistent rf hg st \<Longrightarrow> v < hg_num_vertices hg \<Longrightarrow> neighbours v st = FindNeighbors hg v (rs_visited st)"
    and blocks: "{0..<rf_num_parts rf} \<subseteq> blocks"
    and start: "fm_inv rf hg upper lower first st s0" "fm_trace s0 = []"
  shows "\<exists>s. fm_moves rf lowest hg upper lower neighbours blocks n s0 = Some s \<and> fm_inv rf hg upper lower first st s
    \<and> (length (fm_trace s) = n \<or> gc_vertex (fm_pick rf lowest hg upper lower s) < 0)
    \<and> (\<forall>i < length (fm_trace s). \<exists>si. fm_moves rf lowest hg upper lower neighbours blocks i s0 = Some si
          \<and> fm_inv rf hg upper lower first st si \<and> fm_trace si = take i (fm_trace s)
          \<and> fm_trace s ! i = fm_pick rf lowest hg upper lower si)"
proof (induction n)
  case 0
  then show ?case using start by simp
next
  case (Suc n)
  let ?moves = "fm_moves rf lowest hg upper lower neighbours blocks"
  let ?pick = "fm_pick rf lowest hg upper lower"
  obtain s where s: "?moves n s0 = Some s" "fm_inv rf hg upper lower first st s"
      "length (fm_trace s) = n \<or> gc_vertex (?pick s) < 0"
      "\<forall>i < length (fm_trace s). \<exists>si. ?moves i s0 = Some si \<and> fm_inv rf hg upper lower first st si
          \<and> fm_trace si = take i (fm_trace s) \<and> fm_trace s ! i = ?pick si"
    using Suc.IH by blast
  have next': "?moves (Suc n) s0 = ?moves 1 s" by (simp only: fm_moves_Suc [of _ _ _ _ _ _ _ n] s(1) option.case)
  show ?case
  proof (cases "gc_vertex (?pick s) < 0")
    case True
    then have "?moves 1 s = Some s" by (simp add: fm_pick_def Let_def)
    then show ?thesis using next' s True by (intro exI [of _ s]) simp
  next
    case False
    obtain s' where s': "?moves 1 s = Some s'" "fm_inv rf hg upper lower first st s'" "fm_trace s' = fm_trace s @ [?pick s]"
      using fm_step [OF hg rf loc st s(2) nb blocks, of lowest] False by (auto simp: fm_pick_def Let_def)
    have n: "length (fm_trace s) = n" using s(3) False by blast
    have "\<exists>si. ?moves i s0 = Some si \<and> fm_inv rf hg upper lower first st si
        \<and> fm_trace si = take i (fm_trace s') \<and> fm_trace s' ! i = ?pick si" if "i < length (fm_trace s')" for i
      using that s n s'(3) by (cases "i = n") (auto simp: nth_append)
    then show ?thesis using next' s' n by (intro exI [of _ s']) simp
  qed
qed

lemma kway_tried_moves:
  fixes hg :: "'f::linordered_idom hgraph" and rf :: "'f refiner" and upper lower :: "'f list list"
  assumes "hg_ready hg" "refiner_ok rf" "paths_local hg" "paths_once hg" "consistent rf hg st"
    and s: "kway_tried rf corking lowest hg upper lower st n = Some s"
  shows "\<exists>init. fm_inv rf hg upper lower init st s
    \<and> (length (fm_trace s) = n \<or> gc_vertex (fm_pick rf lowest hg upper lower s) < 0)
    \<and> (\<forall>i < length (fm_trace s). \<exists>si. kway_tried rf corking lowest hg upper lower st i = Some si
          \<and> fm_inv rf hg upper lower init st si \<and> fm_trace si = take i (fm_trace s)
          \<and> fm_trace s ! i = fm_pick rf lowest hg upper lower si)"
proof -
  let ?init = "if unbalanced (rf_num_parts rf) (rs_balance st) upper lower then lowest else 0"
  have "\<exists>s. kway_tried rf corking lowest hg upper lower st n = Some s \<and> fm_inv rf hg upper lower ?init st s
    \<and> (length (fm_trace s) = n \<or> gc_vertex (fm_pick rf lowest hg upper lower s) < 0)
    \<and> (\<forall>i < length (fm_trace s). \<exists>si. kway_tried rf corking lowest hg upper lower st i = Some si
          \<and> fm_inv rf hg upper lower ?init st si \<and> fm_trace si = take i (fm_trace s)
          \<and> fm_trace s ! i = fm_pick rf lowest hg upper lower si)"
    unfolding kway_tried_def
    by (rule tried_moves [OF assms(1-5) refl order_refl fm_start fm_state.select_convs(2)])
  then show ?thesis unfolding s option.inject by blast
qed

text \<open>
  The pass returns; its state is reached by the first of the moves it tried, and no other number of
  them decreases the cost more.
\<close>

lemma kway_first:
  assumes "FindBoundaryVertices rf hg (rs_degs st) (rs_visited st) = []"
  shows "kway_tried rf corking lowest hg upper lower st n
    = Some \<lparr>fm_buckets = InitializeGainBucketsKWay rf hg [] st
         (replicate (rf_num_parts rf) (pq_new (hg_num_vertices hg) corking (hg_vertex_weights hg))),
       fm_trace = [], fm_total = 0,
       fm_best_gain = (if unbalanced (rf_num_parts rf) (rs_balance st) upper lower then lowest else 0),
       fm_best_vertex = -1, fm_st = st\<rparr>"
proof -
  have "PickMoveKWay rf lowest hg cur upper lower (InitializeGainBucketsKWay rf hg [] st
      (replicate (rf_num_parts rf) (pq_new (hg_num_vertices hg) corking (hg_vertex_weights hg)))) = dummy_cell lowest" for cur
    by (rule pick_none) (simp add: InitializeGainBucketsKWay_def InitializeSingleGainBucket_def Let_def pq_new_def SetActive_def SetDeactive_def)
  then show ?thesis by (cases n) (simp_all add: kway_tried_def assms Let_def dummy_cell_def)
qed

lemma kway_pass_result:
  fixes hg :: "'f::linordered_idom hgraph" and rf :: "'f refiner" and lowest :: 'f and upper lower :: "'f list list"
  assumes hg: "hg_ready hg" and rf: "refiner_ok rf" and loc: "paths_local hg" "paths_once hg" and st: "consistent rf hg st"
  defines "first \<equiv> if unbalanced (rf_num_parts rf) (rs_balance st) upper lower
      \<and> FindBoundaryVertices rf hg (rs_degs st) (rs_visited st) \<noteq> [] then lowest else 0"
  shows "\<exists>gain st' s k. KWayFMPass rf corking lowest hg upper lower st = Some (gain, st')
    \<and> kway_tried rf corking lowest hg upper lower st (rf_max_move rf) = Some s \<and> length (fm_trace s) \<le> rf_max_move rf
    \<and> best_prefix (fm_run (legal_move hg upper lower) rf hg) (\<lambda>st. solution_cost rf hg (rs_solution st)) first st
        (fm_trace s) k gain st'"
proof (cases "FindBoundaryVertices rf hg (rs_degs st) (rs_visited st) = []")
  case True
  have "best_prefix (fm_run (legal_move hg upper lower) rf hg) (\<lambda>st. solution_cost rf hg (rs_solution st)) first st [] 0 0 st"
    unfolding best_prefix_def using True by (simp add: run_start first_def)
  moreover have "KWayFMPass rf corking lowest hg upper lower st = Some (0, st)" using True by (simp add: KWayFMPass_def Let_def)
  moreover obtain s where "kway_tried rf corking lowest hg upper lower st (rf_max_move rf) = Some s" "fm_trace s = []"
    using kway_first [where rf = rf and hg = hg, OF True] by (metis fm_state.select_convs(2))
  ultimately show ?thesis by (metis le0 list.size(3))
next
  case False
  have first: "first = (if unbalanced (rf_num_parts rf) (rs_balance st) upper lower then lowest else 0)"
    using False by (simp add: first_def)
  obtain s k where "kway_tried rf corking lowest hg upper lower st (rf_max_move rf) = Some s" "length (fm_trace s) \<le> rf_max_move rf"
    and B: "best_prefix (fm_run (legal_move hg upper lower) rf hg) (\<lambda>st. solution_cost rf hg (rs_solution st)) first st (fm_trace s) k
        (fm_best_gain s) (roll_back hg (fm_best_vertex s) (rev (fm_trace s)) (fm_st s))"
    using pass_result [OF hg rf loc st refl order_refl fm_start fm_state.select_convs(2)]
    unfolding kway_tried_def first by blast
  then show ?thesis using False by (auto simp: KWayFMPass_def Let_def kway_tried_def)
qed

text \<open>What a best prefix without loss means for the contract of a refiner.\<close>

lemma best_prefix_contract:
  fixes hg :: "'f::linordered_idom hgraph"
  assumes hg: "hg_ready hg" and rf: "refiner_ok rf" and st: "consistent rf hg st" and vis: "rs_visited st = fixed_flags hg"
    and B: "best_prefix (fm_run (legal_move hg upper lower) rf hg) (\<lambda>st. solution_cost rf hg (rs_solution st)) 0 st trace k gain st'"
  shows "\<exists>kept. fm_run (legal_move hg upper lower) rf hg st kept st' \<and> consistent rf hg st'
    \<and> (\<forall>v. fixed_in_place hg (rs_solution st) v \<longrightarrow> rs_solution st' ! v = rs_solution st ! v)
    \<and> 0 \<le> gain \<and> gain = solution_cost rf hg (rs_solution st) - solution_cost rf hg (rs_solution st')"
proof -
  let ?kept = "take k trace"
  have K: "fm_run (legal_move hg upper lower) rf hg st ?kept st'" "0 \<le> gain"
      "gain = (if k = 0 then 0 else solution_cost rf hg (rs_solution st) - solution_cost rf hg (rs_solution st'))"
    using B unfolding best_prefix_def by blast+
  have "k = 0 \<Longrightarrow> st' = st" using K(1) by (auto elim: run_nilE)
  note R = fm_run_consistent [OF K(1) hg rf st]
  have "rs_solution st' ! v = rs_solution st ! v" if "fixed_in_place hg (rs_solution st) v" for v
  proof -
    have "rs_visited st ! v" using that by (simp add: vis fixed_flags_def fixed_in_place_def)
    then have "int v \<notin> gc_vertex ` set ?kept" using R by force
    then show ?thesis using R by blast
  qed
  then show ?thesis using K R \<open>k = 0 \<Longrightarrow> st' = st\<close> by (intro exI [of _ ?kept]) auto
qed

section \<open>Blocks stay within their bounds\<close>

text \<open>With one dimension of nonnegative weights, a legal move keeps every block within its bounds.\<close>

definition one_dim :: "'f::linordered_idom hgraph \<Rightarrow> nat \<Rightarrow> 'f list list \<Rightarrow> 'f list list \<Rightarrow> bool" where
  "one_dim hg k upper lower \<longleftrightarrow> hg_vertex_dims hg = 1 \<and> (\<forall>v < hg_num_vertices hg. 0 \<le> GetVertexWeights hg v ! 0)
    \<and> (\<forall>b < k. length (upper ! b) = 1 \<and> length (lower ! b) = 1)"

definition within :: "nat \<Rightarrow> 'f::linordered_idom list list \<Rightarrow> 'f list list \<Rightarrow> 'f list list \<Rightarrow> bool" where
  "within k upper lower bal \<longleftrightarrow> (\<forall>b < k. lower ! b ! 0 \<le> bal ! b ! 0 \<and> bal ! b ! 0 \<le> upper ! b ! 0)"

lemma within_balanced:
  assumes "one_dim hg k upper lower" "within k upper lower bal" "\<forall>b < k. length (bal ! b) = 1"
  shows "\<not> unbalanced k bal upper lower"
  using assms by (auto simp: unbalanced_def list_ex_iff one_dim_def within_def one_dimension not_less)

lemma legal_within:
  fixes hg :: "'f::linordered_idom hgraph"
  assumes hg: "hg_ready hg" and rf: "refiner_ok rf" and one: "one_dim hg (rf_num_parts rf) upper lower"
    and st: "consistent rf hg st" and v: "v < hg_num_vertices hg" and q: "q < rf_num_parts rf" and ne: "rs_solution st ! v \<noteq> q"
    and legal: "legal_move hg upper lower st (cell_for rf hg st v q)"
    and W: "within (rf_num_parts rf) upper lower (rs_balance st)"
  shows "within (rf_num_parts rf) upper lower (rs_balance (snd (AcceptVertexGain (cell_for rf hg st v q) hg t st)))"
proof -
  let ?p = "rs_solution st ! v" and ?bal = "rs_balance st" and ?w = "GetVertexWeights hg v"
  have p: "?p < rf_num_parts rf"
    using st v rf by (auto simp: consistent_def solution_ok_def refiner_ok_def)
  have L: "length ?bal = rf_num_parts rf" "length (?bal ! b) = 1" if "b < rf_num_parts rf" for b
    using GetBlockBalance_shape [OF hg_readyD [OF hg], of "rf_evaluator rf" "rs_solution st"] st rf one that
    by (auto simp: consistent_def refiner_ok_def one_dim_def)
  have w: "length ?w = 1" "0 \<le> ?w ! 0" using hg_okD(2) [OF hg_readyD [OF hg] v] one v by (auto simp: one_dim_def)
  have u: "length (upper ! q) = 1" "length (lower ! ?p) = 1" using one p q by (auto simp: one_dim_def)
  have wo: "weights_of (hg_vertex_weights hg) (cell_for rf hg st v q) = ?w" by (simp add: weights_of_def GetVertexWeights_def)
  have "?bal ! q ! 0 + ?w ! 0 \<le> upper ! q ! 0 \<and> lower ! ?p ! 0 \<le> ?bal ! ?p ! 0 - ?w ! 0"
    using legal w u L(2) [OF q] L(2) [OF p]
    by (auto simp: legal_move_def CheckVertexMoveLegality_def CheckBalance_def Let_def wo one_dimension)
  moreover have "rs_balance (snd (AcceptVertexGain (cell_for rf hg st v q) hg t st)) ! b ! 0
      = ?bal ! b ! 0 + (if b = q then ?w ! 0 else 0) - (if b = ?p then ?w ! 0 else 0)" if "b < rf_num_parts rf" for b
    using L(1) [OF that] L(2) p q ne w that by (auto simp: AcceptVertexGain_def Let_def nth_list_update)
  ultimately show ?thesis
    using W w(2) ne by (fastforce simp: within_def)
qed

lemma run_within:
  fixes hg :: "'f::linordered_idom hgraph"
  assumes "fm_run (legal_move hg upper lower) rf hg st0 cs st" "hg_ready hg" "refiner_ok rf"
    "one_dim hg (rf_num_parts rf) upper lower" "consistent rf hg st0" "within (rf_num_parts rf) upper lower (rs_balance st0)"
  shows "within (rf_num_parts rf) upper lower (rs_balance st)"
  using assms
proof (induction rule: fm_run.induct)
  case (run_move cs st v q c t)
  then have "consistent rf hg st" using fm_run_consistent by blast
  then show ?case using run_move legal_within by blast
qed simp

section \<open>The pass keeps the contract of a refiner\<close>

definition kway_inv :: "'f::linordered_idom refiner \<Rightarrow> 'f hgraph \<Rightarrow> 'f list list \<Rightarrow> 'f list list \<Rightarrow> 'f list list \<Rightarrow> bool" where
  "kway_inv rf hg upper lower bal \<longleftrightarrow> refiner_ok rf \<and> paths_local hg \<and> paths_once hg \<and> one_dim hg (rf_num_parts rf) upper lower
    \<and> within (rf_num_parts rf) upper lower bal"

interpretation kway: refiner_pass "KWayFMPass rf corking lowest hg upper lower" rf hg "kway_inv rf hg upper lower"
  for rf :: "'f::linordered_idom refiner" and corking lowest hg upper lower
proof
  fix st
  assume hg: "hg_ready hg" and inv: "kway_inv rf hg upper lower (rs_balance st)" and st: "consistent rf hg st"
    and vis: "rs_visited st = fixed_flags hg"
  have rf: "refiner_ok rf" and loc: "paths_local hg" "paths_once hg" and one: "one_dim hg (rf_num_parts rf) upper lower"
    and W: "within (rf_num_parts rf) upper lower (rs_balance st)" using inv by (simp_all add: kway_inv_def)
  have "\<forall>b < rf_num_parts rf. length (rs_balance st ! b) = 1"
    using GetBlockBalance_shape [OF hg_readyD [OF hg], of "rf_evaluator rf" "rs_solution st"] st rf one
    by (auto simp: consistent_def refiner_ok_def one_dim_def)
  then have bal: "\<not> unbalanced (rf_num_parts rf) (rs_balance st) upper lower" using within_balanced [OF one W] by blast
  obtain gain st' trace k where P: "KWayFMPass rf corking lowest hg upper lower st = Some (gain, st')"
      "best_prefix (fm_run (legal_move hg upper lower) rf hg) (\<lambda>st. solution_cost rf hg (rs_solution st)) 0 st trace k gain st'"
    using kway_pass_result [OF hg rf loc st, of corking lowest upper lower] bal by auto
  obtain kept where K: "fm_run (legal_move hg upper lower) rf hg st kept st'" "consistent rf hg st'"
      "\<forall>v. fixed_in_place hg (rs_solution st) v \<longrightarrow> rs_solution st' ! v = rs_solution st ! v"
      "0 \<le> gain" "gain = solution_cost rf hg (rs_solution st) - solution_cost rf hg (rs_solution st')"
    using best_prefix_contract [OF hg rf st vis P(2)] by blast
  have "kway_inv rf hg upper lower (rs_balance st')"
    using run_within [OF K(1) hg rf one st W] rf loc one by (simp add: kway_inv_def)
  then show "\<exists>gain st'. KWayFMPass rf corking lowest hg upper lower st = Some (gain, st') \<and> consistent rf hg st'
      \<and> kway_inv rf hg upper lower (rs_balance st')
      \<and> (\<forall>v. fixed_in_place hg (rs_solution st) v \<longrightarrow> rs_solution st' ! v = rs_solution st ! v)
      \<and> 0 \<le> gain \<and> gain = solution_cost rf hg (rs_solution st) - solution_cost rf hg (rs_solution st')"
    using P(1) K by blast
qed

section \<open>Properties\<close>

text \<open>C2: A pass tries the moves its search picks and goes back to the best solution.  Assumed: no vertex is twice on
  one timing path, and the vertices on a timing path share a hyperedge.  From any state that describes its
  solution, \<open>KWayFMPass\<close> makes the moves that \<open>PickMoveKWay\<close> picks until \<open>max_move\<close> are made or none is
  picked.  Before each, every cell in every bucket is the present gain of an allowed move, and the
  move picked is legal, of a vertex not visited, and gains no less than a legal move at the top of an active
  bucket.  The state returned is the one after the first \<open>k\<close> of these moves, and the gain the decrease of the
  cost by them; no number of the moves tried decreases the cost more, no larger number as much.  With \<open>k = 0\<close>
  the gain is 0, or the lowest number where the blocks were out of bounds; from blocks within bounds it is
  not negative.\<close>

theorem kway_pass_best:
  fixes hg :: "'f::linordered_idom hgraph" and rf :: "'f refiner" and corking :: nat and lowest :: 'f and upper lower :: "'f list list"
  assumes "hg_ready hg" "refiner_ok rf" "paths_local hg" "paths_once hg" "consistent rf hg st"
  defines "cost \<equiv> \<lambda>st. pt_cost (CutEvaluator (rf_evaluator rf) hg (rs_solution st))"
    and "run \<equiv> fm_run (legal_move hg upper lower) rf hg st"
    and "tried \<equiv> kway_tried rf corking lowest hg upper lower st"
    and "pick \<equiv> fm_pick rf lowest hg upper lower"
    and "first \<equiv> if unbalanced (rf_num_parts rf) (rs_balance st) upper lower
          \<and> FindBoundaryVertices rf hg (rs_degs st) (rs_visited st) \<noteq> [] then lowest else 0"
  shows "\<exists>gain st' s k. KWayFMPass rf corking lowest hg upper lower st = Some (gain, st')
    \<and> tried (rf_max_move rf) = Some s \<and> length (fm_trace s) \<le> rf_max_move rf
    \<and> (length (fm_trace s) = rf_max_move rf \<or> gc_vertex (pick s) < 0)
    \<and> (\<forall>i < length (fm_trace s). \<exists>si. tried i = Some si \<and> fm_trace si = take i (fm_trace s) \<and> fm_trace s ! i = pick si
          \<and> run (take i (fm_trace s)) (fm_st si)
          \<and> (\<forall>b < rf_num_parts rf. bucket_ok rf hg (fm_st si) b (fm_buckets si ! b)
               \<and> (legal_top rf lowest hg (rs_balance (fm_st si)) upper lower (fm_buckets si) b \<longrightarrow>
                    gc_gain (GetMax (fm_buckets si ! b)) \<le> gc_gain (pick si))))
    \<and> run (fm_trace s) (fm_st s)
    \<and> k \<le> length (fm_trace s) \<and> run (take k (fm_trace s)) st'
    \<and> gain = (if k = 0 then first else cost st - cost st') \<and> first \<le> gain
    \<and> (\<forall>i si. 0 < i \<and> i \<le> length (fm_trace s) \<and> run (take i (fm_trace s)) si \<longrightarrow>
          cost st - cost si \<le> gain \<and> (k < i \<longrightarrow> cost st - cost si < gain))"
proof -
  obtain gain st' s k where P: "KWayFMPass rf corking lowest hg upper lower st = Some (gain, st')"
      "tried (rf_max_move rf) = Some s" "length (fm_trace s) \<le> rf_max_move rf"
      "best_prefix (fm_run (legal_move hg upper lower) rf hg) (\<lambda>st. solution_cost rf hg (rs_solution st)) first st (fm_trace s) k gain st'"
    using kway_pass_result [OF assms(1-5), of corking lowest upper lower] unfolding tried_def first_def by blast
  obtain init where M: "length (fm_trace s) = rf_max_move rf \<or> gc_vertex (pick s) < 0" "fm_inv rf hg upper lower init st s"
      "\<forall>i < length (fm_trace s). \<exists>si. tried i = Some si \<and> fm_inv rf hg upper lower init st si
          \<and> fm_trace si = take i (fm_trace s) \<and> fm_trace s ! i = pick si"
    using kway_tried_moves [OF assms(1-5) P(2) [unfolded tried_def]] unfolding tried_def pick_def by blast
  have "\<forall>i < length (fm_trace s). \<exists>si. tried i = Some si \<and> fm_trace si = take i (fm_trace s) \<and> fm_trace s ! i = pick si
      \<and> run (take i (fm_trace s)) (fm_st si)
      \<and> (\<forall>b < rf_num_parts rf. bucket_ok rf hg (fm_st si) b (fm_buckets si ! b)
           \<and> (legal_top rf lowest hg (rs_balance (fm_st si)) upper lower (fm_buckets si) b \<longrightarrow>
                gc_gain (GetMax (fm_buckets si ! b)) \<le> gc_gain (pick si)))"
    using M(3) pick_best unfolding fm_inv_def run_def pick_def fm_pick_def by metis
  moreover have "run (fm_trace s) (fm_st s)" using M(2) unfolding fm_inv_def run_def by blast
  moreover have "k \<le> length (fm_trace s)" "run (take k (fm_trace s)) st'" "gain = (if k = 0 then first else cost st - cost st')"
    "first \<le> gain" "\<forall>i si. 0 < i \<and> i \<le> length (fm_trace s) \<and> run (take i (fm_trace s)) si \<longrightarrow>
          cost st - cost si \<le> gain \<and> (k < i \<longrightarrow> cost st - cost si < gain)"
    using P(4) unfolding best_prefix_def cost_def run_def solution_cost_def by blast+
  ultimately show ?thesis
    using P(1-3) M(1) by (intro exI [of _ gain] exI [of _ st'] exI [of _ s] exI [of _ k] conjI)
qed

theorem kway_pass_best_witness:
  "\<exists>gain st' s. KWayFMPass ring4_refiner 25 (-1000) ring4 [[3], [3]] [[1], [1]] ring4_state = Some (gain, st')
    \<and> kway_tried ring4_refiner 25 (-1000) ring4 [[3], [3]] [[1], [1]] ring4_state (rf_max_move ring4_refiner) = Some s
    \<and> (length (fm_trace s) = 5 \<or> gc_vertex (fm_pick ring4_refiner (-1000) ring4 [[3], [3]] [[1], [1]] s) < 0)"
  using kway_pass_best [OF ring4_facts(1,2,3,12) ring4_consistent, of 25 "-1000" "[[3], [3]]" "[[1], [1]]"]
  by (auto simp: ring4_refiner_def)

text \<open>C4: FM refinement improves a balanced solution.  With one dimension of nonnegative weights and blocks
  within their bounds, when no vertex is twice on one timing path and the vertices on a timing path share a
  hyperedge, \<open>Refine\<close> with this pass returns a solution whose cost is not larger, whose blocks
  are within the bounds, and in which every vertex that was in the block it is fixed to still is.  Without the
  conditions on the timing paths the buckets go out of date and the cost may grow.\<close>

theorem kway_refine_improves:
  fixes hg :: "'f::linordered_idom hgraph"
  assumes "hg_ready hg" "refiner_ok rf" "paths_local hg" "paths_once hg" "solution_ok (rf_evaluator rf) hg sol"
    and "one_dim hg (rf_num_parts rf) upper lower"
    and "within (rf_num_parts rf) upper lower (GetBlockBalance (rf_evaluator rf) hg sol)"
  shows "\<exists>sol'. Refine (KWayFMPass rf corking lowest hg upper lower) rf hg sol = Some sol'
    \<and> solution_ok (rf_evaluator rf) hg sol'
    \<and> within (rf_num_parts rf) upper lower (GetBlockBalance (rf_evaluator rf) hg sol')
    \<and> pt_cost (CutEvaluator (rf_evaluator rf) hg sol') \<le> pt_cost (CutEvaluator (rf_evaluator rf) hg sol)
    \<and> (\<forall>v. fixed_in_place hg sol v \<longrightarrow> sol' ! v = sol ! v)"
  using kway.Refine_improves [OF assms(1) _ assms(5), of upper lower corking lowest] assms
  by (auto simp: kway_inv_def solution_cost_def)

lemma ring4_bounds:
  "one_dim ring4 (rf_num_parts ring4_refiner) [[3], [3]] [[1], [1]]"
  "within (rf_num_parts ring4_refiner) [[3], [3]] [[1], [1]] (GetBlockBalance (rf_evaluator ring4_refiner) ring4 [0, 1, 0, 1])"
proof -
  have up: "[0..<4] = [0, 1, 2, 3 :: nat]" by (simp add: upt_conv_Cons)
  show "one_dim ring4 (rf_num_parts ring4_refiner) [[3], [3]] [[1], [1]]"
    by (auto simp: one_dim_def ring4_facts GetVertexWeights_def less_Suc_eq numeral_eq_Suc)
  show "within (rf_num_parts ring4_refiner) [[3], [3]] [[1], [1]] (GetBlockBalance (rf_evaluator ring4_refiner) ring4 [0, 1, 0, 1])"
    by (auto simp: within_def ring4_facts GetBlockBalance_def up vec_add_def GetVertexWeights_def less_Suc_eq numeral_eq_Suc
        ring4_refiner_def)
qed

theorem kway_refine_improves_witness:
  "\<exists>sol'. Refine (KWayFMPass ring4_refiner 25 (-1000) ring4 [[3], [3]] [[1], [1]]) ring4_refiner ring4 [0, 1, 0, 1] = Some sol' \<and> sol' ! 0 = 0"
proof -
  have "fixed_in_place ring4 [0, 1, 0, 1] 0" by (simp add: fixed_in_place_def ring4_facts)
  then show ?thesis
    using kway_refine_improves [OF ring4_facts(1,2,3,12,11) ring4_bounds, of 25 "-1000"] by fastforce
qed

text \<open>C37: A bucket that runs empty is lost.  \<open>Remove\<close> switches a bucket off with its last element, and cells that
  \<open>UpdateSingleGainBucket\<close> inserts afterwards do not switch it on again; \<open>PickMoveKWay\<close> skips buckets that
  are off, and returns no move when all are, whatever they hold.\<close>

theorem emptied_bucket_ignored:
  fixes q :: "'f::linordered_idom pqueue"
  assumes "bucket_reach n q" "pq_look q = [v \<mapsto> c]" "v < n" "\<forall>u \<in> set neighbours. u < n"
  shows "\<exists>q'. Remove q v = Some q' \<and> \<not> pq_active (UpdateSingleGainBucket rf hg neighbours st part q')
    \<and> (\<forall>u \<in> set neighbours. rs_solution st ! u \<noteq> part \<longrightarrow> pq_look (UpdateSingleGainBucket rf hg neighbours st part q') u \<noteq> None)
    \<and> (\<forall>buckets. (\<forall>b < rf_num_parts rf. \<not> pq_active (buckets ! b)) \<longrightarrow>
          PickMoveKWay rf lowest hg cur upper lower buckets = dummy_cell lowest)"
proof -
  have ok: "heap_ok q" "length (pq_map q) = n" using reach_ok [OF assms(1)] by auto
  obtain q' where q': "Remove q v = Some q'" "heap_ok q'" "pq_look q' = (pq_look q)(v := None)"
      "length (pq_map q') = length (pq_map q)" "pq_active q' \<longleftrightarrow> pq_active q \<and> pq_verts q' \<noteq> []"
    by (rule Remove_total [OF ok(1), of v]) (use assms(2,3) ok in auto)
  have "pq_look q' = Map.empty" using q'(3) assms(2) by (auto simp: fun_eq_iff)
  then have off: "\<not> pq_active q'" using q'(5) look_empty [of q'] q'(2) by (simp add: heap_ok_def)
  let ?u = "UpdateSingleGainBucket rf hg neighbours st part q'"
  have U: "pq_active ?u = pq_active q'"
      "pq_look ?u = (\<lambda>u. if u \<in> set neighbours \<and> \<not> rs_solution st ! u = part then Some (cell_for rf hg st u part) else pq_look q' u)"
    using bucket.fold_put [of q' neighbours "\<lambda>u. cell_for rf hg st u part" "\<lambda>u. rs_solution st ! u = part"] q'(2,4) ok assms(4)
    unfolding UpdateSingleGainBucket_def bucket.put_def by simp_all
  show ?thesis using q'(1) U off pick_none [of rf] by (intro exI [of _ q']) simp
qed

theorem emptied_bucket_ignored_witness:
  "\<exists>q'. Remove (InsertIntoPQ (pq_new 4 25 [[1], [1], [1], [1]]) (cell_for ring4_refiner ring4 ring4_state 2 1)) 2 = Some q'
    \<and> \<not> pq_active (UpdateSingleGainBucket ring4_refiner ring4 [1, 3] ring4_state 0 q')"
proof -
  let ?q = "InsertIntoPQ (pq_new 4 25 [[1], [1], [1], [1]]) (cell_for ring4_refiner ring4 ring4_state 2 1)"
  have new: "\<not> CheckIfVertexExists (pq_new 4 25 [[1], [1], [1], [1 :: int]]) 2" by (simp add: CheckIfVertexExists_def pq_new_def)
  have R: "bucket_reach 4 ?q" by (rule reach_insert [OF reach_new _ _ new]) simp_all
  have "pq_look ?q = [2 \<mapsto> cell_for ring4_refiner ring4 ring4_state 2 1]"
    using InsertIntoPQ_ok [of "pq_new 4 25 [[1], [1], [1], [1]]" "cell_for ring4_refiner ring4 ring4_state 2 1"]
    by (simp add: pq_new_ok)
  then have "\<exists>q'. Remove ?q 2 = Some q' \<and> \<not> pq_active (UpdateSingleGainBucket ring4_refiner ring4 [1, 3] ring4_state 0 q')
      \<and> (\<forall>u \<in> set [1, 3]. rs_solution ring4_state ! u \<noteq> 0 \<longrightarrow>
          pq_look (UpdateSingleGainBucket ring4_refiner ring4 [1, 3] ring4_state 0 q') u \<noteq> None)
      \<and> (\<forall>buckets. (\<forall>b < rf_num_parts ring4_refiner. \<not> pq_active (buckets ! b)) \<longrightarrow>
          PickMoveKWay ring4_refiner 0 ring4 [] [] [] buckets = dummy_cell 0)"
    by (rule emptied_bucket_ignored [OF R]) simp_all
  then show ?thesis by blast
qed

end
