(* ===== verification/ParGreedy.thy ===== *)
theory ParGreedy imports ParMoves begin

text \<open>
  \<open>src/par/src/GreedyRefine.cpp\<close>: the greedy refinement, which moves all vertices of a cut hyperedge
  into one block when that does not increase the cost.
\<close>

section \<open>The pass\<close>

definition CompareHyperedgeGain ::
    "'f::{linorder,zero,plus,times} evaluator \<Rightarrow> 'f hgraph \<Rightarrow> 'f hyperedge_gain \<Rightarrow> 'f hyperedge_gain \<Rightarrow> bool" where
  "CompareHyperedgeGain ev hg a b \<longleftrightarrow>
    hy_gain a > hy_gain b
    \<or> hy_gain a = hy_gain b \<and> CalculateHyperedgeVertexWtSum ev (hy_id a) hg < CalculateHyperedgeVertexWtSum ev (hy_id b) hg"

text \<open>The best block for a hyperedge, among those it may be moved to.\<close>

definition best_hyperedge_gain ::
    "'f::{linorder,zero,one,plus,minus,times} refiner \<Rightarrow> 'f hgraph \<Rightarrow> 'f list list \<Rightarrow> 'f list list \<Rightarrow> 'f rstate \<Rightarrow> nat
     \<Rightarrow> 'f hyperedge_gain option" where
  "best_hyperedge_gain rf hg upper lower st e =
    fold (\<lambda>to_pid best.
        if CheckHyperedgeMoveLegality rf e to_pid hg (rs_solution st) (rs_balance st) upper lower
        then let g = CalculateHyperedgeGain rf e to_pid hg (rs_solution st) (rs_paths st) (rs_degs st)
             in case best of None \<Rightarrow> Some g
                | Some b \<Rightarrow> if CompareHyperedgeGain (rf_evaluator rf) hg g b then Some g else best
        else best) [0..<rf_num_parts rf] None"

text \<open>The loop over the hyperedges from \<open>e\<close> on: \<open>num_move\<close> counts the cut ones, and stops the pass.\<close>

primrec greedy_loop ::
    "'f::{linorder,zero,one,plus,minus,times} refiner \<Rightarrow> 'f hgraph \<Rightarrow> 'f list list \<Rightarrow> 'f list list \<Rightarrow> nat list \<Rightarrow> nat \<Rightarrow> 'f
     \<Rightarrow> 'f rstate \<Rightarrow> 'f \<times> 'f rstate" where
  "greedy_loop rf hg upper lower [] num_move total_gain st = (total_gain, st)"
| "greedy_loop rf hg upper lower (e # es) num_move total_gain st =
    (if length (filter (\<lambda>b. rs_degs st ! e ! b > 0) [0..<rf_num_parts rf]) \<le> 1
     then greedy_loop rf hg upper lower es num_move total_gain st
     else if num_move + 1 \<ge> rf_max_move rf then (total_gain, st)
     else case best_hyperedge_gain rf hg upper lower st e of
            Some g \<Rightarrow>
              if hy_dst g > -1 \<and> hy_gain g \<ge> 0
              then let (total', st') = AcceptHyperedgeGain g hg total_gain st
                   in greedy_loop rf hg upper lower es (num_move + 1) total' st'
              else greedy_loop rf hg upper lower es (num_move + 1) total_gain st
          | None \<Rightarrow> greedy_loop rf hg upper lower es (num_move + 1) total_gain st)"

definition GreedyPass ::
    "'f::{linorder,zero,one,plus,minus,times} refiner \<Rightarrow> 'f hgraph \<Rightarrow> 'f list list \<Rightarrow> 'f list list \<Rightarrow> 'f rstate
     \<Rightarrow> ('f \<times> 'f rstate) option" where
  "GreedyPass rf hg upper lower st = Some (greedy_loop rf hg upper lower [0..<hg_num_hyperedges hg] 0 0 st)"

section \<open>Moving the vertices of a hyperedge\<close>

text \<open>The vertices of \<open>vs\<close> that are not in block \<open>q\<close> yet are moved there, one after the other.\<close>

definition move_to :: "nat \<Rightarrow> nat list \<Rightarrow> nat list \<Rightarrow> nat list" where
  "move_to q vs sol = fold (\<lambda>v sol. sol[v := q]) vs sol"

lemma move_to_simps [simp]:
  "move_to q [] sol = sol" "move_to q (v # vs) sol = move_to q vs (sol[v := q])" "length (move_to q vs sol) = length sol"
proof -
  show "length (move_to q vs sol) = length sol" unfolding move_to_def by (induction vs arbitrary: sol) auto
qed (simp_all add: move_to_def)

lemma move_to_nth: "u < length sol \<Longrightarrow> move_to q vs sol ! u = (if u \<in> set vs then q else sol ! u)"
  by (induction vs arbitrary: sol) (auto simp: nth_list_update)

lemma move_to_ok:
  "solution_ok ev hg sol \<Longrightarrow> q < ev_num_parts ev \<Longrightarrow> solution_ok ev hg (move_to q vs sol)"
  by (auto simp: solution_ok_def move_to_nth)

text \<open>The score of the cut hyperedges adds up over the vertices moved.\<close>

lemma edge_score_step:
  fixes cost :: "nat \<Rightarrow> 'f::linordered_idom"
  assumes ok: "hg_ok hg" and sol: "solution_ok ev hg sol" and v: "v < hg_num_vertices hg" and q: "q < ev_num_parts ev"
    and ne: "sol ! v \<noteq> q"
  shows "fold (\<lambda>e (score, degs).
            if GetConnectivity (degs ! e) = 0 then (score, degs)
            else (cut_term (degs ! e) (sol ! v) q (cost e) score, move_degs [e] (sol ! v) q degs))
          (Edges hg v) (acc, GetNetDegrees ev hg sol)
    = (acc + ((\<Sum>e | e < hg_num_hyperedges hg \<and> is_cut hg sol e. cost e)
              - (\<Sum>e | e < hg_num_hyperedges hg \<and> is_cut hg (sol[v := q]) e. cost e)),
       GetNetDegrees ev hg (sol[v := q]))"
proof -
  let ?D = "GetNetDegrees ev hg sol"
  note E = Edges_facts [OF ok v]
  have pos: "GetConnectivity (?D ! e) \<noteq> 0" if "e \<in> set (Edges hg v)" for e
  proof -
    have "e < hg_num_hyperedges hg" "v \<in> set (Vertices hg e)" using that E(2) by auto
    then show ?thesis unfolding connectivity_blocks [OF ok sol \<open>e < hg_num_hyperedges hg\<close>] by auto
  qed
  have "fold (\<lambda>e (score, degs).
            if GetConnectivity (degs ! e) = 0 then (score, degs)
            else (cut_term (degs ! e) (sol ! v) q (cost e) score, move_degs [e] (sol ! v) q degs)) es (acc, degs)
      = (fold (\<lambda>e score. cut_term (?D ! e) (sol ! v) q (cost e) score) es acc, move_degs es (sol ! v) q degs)"
    if "distinct es" "set es \<subseteq> set (Edges hg v)" "\<forall>e \<in> set es. degs ! e = ?D ! e" "length degs = hg_num_hyperedges hg" for es acc degs
    using that
  proof (induction es arbitrary: acc degs)
    case Nil
    then show ?case by (simp add: move_degs_def)
  next
    case (Cons e es)
    have e: "e < length degs" using Cons.prems E(2) by auto
    have "move_degs [e] (sol ! v) q degs ! e' = ?D ! e'" if "e' \<in> set es" for e'
    proof -
      have "e \<noteq> e'" using that Cons.prems(1) by auto
      then show ?thesis using that Cons.prems(3) e by (simp add: move_degs_one)
    qed
    then have "\<forall>e' \<in> set es. move_degs [e] (sol ! v) q degs ! e' = ?D ! e'" by blast
    moreover have "degs ! e = ?D ! e" "GetConnectivity (?D ! e) \<noteq> 0" using Cons.prems pos by auto
    ultimately show ?case
      using Cons by (simp add: move_degs_Cons [of e es])
  qed
  from this [OF E(1) order_refl, of ?D acc] show ?thesis
    using fold_cut_terms [OF ok sol q ne, of "Edges hg v" cost acc] E edge_costs_of_move [OF ok v, of sol cost q]
      degrees_of_move [OF ok sol v q ne] by simp
qed

lemma edge_scores:
  fixes cost :: "nat \<Rightarrow> 'f::linordered_idom"
  assumes ok: "hg_ok hg" and q: "q < ev_num_parts ev"
    and "solution_ok ev hg sol" "distinct vs" "\<forall>v \<in> set vs. v < hg_num_vertices hg \<and> sol ! v \<noteq> q"
  shows "fold (\<lambda>(v, from_pid) acc.
            fold (\<lambda>e (score, degs).
                if GetConnectivity (degs ! e) = 0 then (score, degs)
                else (cut_term (degs ! e) from_pid q (cost e) score, move_degs [e] from_pid q degs))
              (Edges hg v) acc) (map (\<lambda>v. (v, sol ! v)) vs) (acc, GetNetDegrees ev hg sol)
    = (acc + ((\<Sum>e | e < hg_num_hyperedges hg \<and> is_cut hg sol e. cost e)
              - (\<Sum>e | e < hg_num_hyperedges hg \<and> is_cut hg (move_to q vs sol) e. cost e)),
       GetNetDegrees ev hg (move_to q vs sol))"
  using assms(3-5)
proof (induction vs arbitrary: sol acc)
  case (Cons v vs)
  have so: "solution_ok ev hg (sol[v := q])" by (rule solution_ok_update [OF Cons.prems(1) q])
  have "(sol[v := q]) ! u = sol ! u" if "u \<in> set vs" for u
  proof -
    have "v \<noteq> u" using that Cons.prems(2) by auto
    then show ?thesis by simp
  qed
  then have same: "map (\<lambda>u. (u, sol ! u)) vs = map (\<lambda>u. (u, (sol[v := q]) ! u)) vs" by simp
  have "\<forall>u \<in> set vs. u < hg_num_vertices hg \<and> (sol[v := q]) ! u \<noteq> q"
    using Cons.prems \<open>\<And>u. u \<in> set vs \<Longrightarrow> (sol[v := q]) ! u = sol ! u\<close> by simp
  note IH = Cons.IH [OF so _ this]
  have v: "v < hg_num_vertices hg" "sol ! v \<noteq> q" "distinct vs" using Cons.prems by simp_all
  note step = edge_score_step [OF ok Cons.prems(1) v(1) q v(2), of cost acc]
  show ?case
    unfolding list.map fold_simps prod.case step same IH [OF v(3)] by simp
qed simp

text \<open>The score of the paths: every path through a moved vertex counts once.\<close>

lemma keys_map_assign: "fst ` set (map_assign k x m) = insert k (fst ` set m)"
proof (induction m)
  case (Cons a m)
  obtain k' x' where a: "a = (k', x')" by (cases a)
  show ?case using Cons by (simp add: a insert_commute)
qed simp

lemma set_map_assign: "k \<notin> fst ` set m \<Longrightarrow> set (map_assign k x m) = insert (k, x) (set m)"
proof (induction m)
  case (Cons a m)
  obtain k' x' where a: "a = (k', x')" by (cases a)
  show ?case using Cons by (simp add: a insert_commute)
qed simp

lemma distinct_map_assign: "k \<notin> fst ` set m \<Longrightarrow> distinct (map fst m) \<Longrightarrow> distinct (map fst (map_assign k x m))"
proof (induction m)
  case (Cons a m)
  obtain k' x' where a: "a = (k', x')" by (cases a)
  have "fst ` set (map_assign k x m) = insert k (fst ` set m)" by (rule keys_map_assign)
  then show ?case using Cons by (auto simp: a)
qed simp

lemma fold_once:
  fixes cost cur :: "nat \<Rightarrow> 'f::linordered_idom"
  defines "step \<equiv> \<lambda>p (score, delta). if p \<in> fst ` set delta then (score, delta)
      else (score + (cur p - cost p), map_assign p (cost p - cur p) delta)"
  assumes "distinct (map fst delta)" "\<forall>(p, d) \<in> set delta. d = cost p - cur p" "score = (\<Sum>p \<in> fst ` set delta. cur p - cost p)"
  shows "\<exists>delta'. fold step ps (score, delta) = ((\<Sum>p \<in> fst ` set delta \<union> set ps. cur p - cost p), delta')
    \<and> distinct (map fst delta') \<and> (\<forall>(p, d) \<in> set delta'. d = cost p - cur p) \<and> fst ` set delta' = fst ` set delta \<union> set ps"
  using assms(2-)
proof (induction ps arbitrary: score delta)
  case (Cons p ps)
  show ?case
  proof (cases "p \<in> fst ` set delta")
    case True
    then have "step p (score, delta) = (score, delta)" by (simp add: step_def)
    moreover have "fst ` set delta \<union> set (p # ps) = fst ` set delta \<union> set ps" using True by auto
    ultimately show ?thesis using Cons.IH [OF Cons.prems] by simp
  next
    case False
    let ?d = "map_assign p (cost p - cur p) delta"
    have k: "fst ` set ?d = insert p (fst ` set delta)" by (rule keys_map_assign)
    have dist: "distinct (map fst ?d)" by (rule distinct_map_assign [OF False Cons.prems(1)])
    have vals: "\<forall>(p', d) \<in> set ?d. d = cost p' - cur p'"
    proof -
      have "set ?d = insert (p, cost p - cur p) (set delta)"
        using set_map_assign [OF False] .
      then show ?thesis using Cons.prems(2) by auto
    qed
    have sc: "score + (cur p - cost p) = (\<Sum>p \<in> fst ` set ?d. cur p - cost p)"
      using False Cons.prems(3) by (simp add: k)
    have "step p (score, delta) = (score + (cur p - cost p), ?d)" using False by (simp add: step_def)
    then show ?thesis using Cons.IH [OF dist vals sc] by (simp add: k)
  qed
qed auto

section \<open>The gain of a hyperedge\<close>

lemma map_fst_filter: "map fst (map (\<lambda>v. (v, f v)) vs) = vs"
  by (induction vs) auto

lemma fold_moved: "fold (\<lambda>(v, _) sol. sol[v := q]) (map (\<lambda>v. (v, f v)) vs) sol = move_to q vs sol"
  by (induction vs arbitrary: sol) auto

lemma fold_nested:
  "fold (\<lambda>(v, _) acc. fold step (paths v) acc) (map (\<lambda>v. (v, f v)) vs) acc = fold step (concat (map paths vs)) acc"
  by (induction vs arbitrary: acc) auto

lemma path_cost_moved:
  assumes "hg_ready hg" "refiner_ok rf" "v < length sol" "sol ! v = q"
  shows "CalculatePathCost rf p hg sol (int v) (int q) = EvCalculatePathCost (rf_evaluator rf) p hg sol"
proof -
  have "sol[v := q] = sol" using assms(4) by (simp add: list_update_same_conv assms(3))
  then show ?thesis using path_cost_after [OF assms(1-3), of p q] by simp
qed

lemma path_moved_elsewhere:
  assumes "\<forall>v \<in> set vs. v \<notin> set (PathVertices hg p)"
  shows "EvCalculatePathCost ev p hg (move_to q vs sol) = EvCalculatePathCost ev p hg sol"
  using assms by (induction vs arbitrary: sol) (simp_all add: path_elsewhere)

lemma hyperedge_gain:
  fixes hg :: "'f::linordered_idom hgraph"
  assumes hg: "hg_ready hg" and rf: "refiner_ok rf" and st: "consistent rf hg st"
    and e: "e < hg_num_hyperedges hg" and q: "q < rf_num_parts rf"
  defines "sol \<equiv> rs_solution st" and "ev \<equiv> rf_evaluator rf"
  defines "g \<equiv> CalculateHyperedgeGain rf e q hg sol (rs_paths st) (rs_degs st)"
    and "sol' \<equiv> move_to q (Vertices hg e) sol"
  shows "hy_id g = e \<and> hy_dst g = int q \<and> hy_gain g = solution_cost rf hg sol - solution_cost rf hg sol'
    \<and> distinct (map fst (hy_paths g))
    \<and> (\<forall>p < hg_num_paths hg. EvCalculatePathCost ev p hg sol
          + (case map_of (hy_paths g) p of Some d \<Rightarrow> d | None \<Rightarrow> 0) = EvCalculatePathCost ev p hg sol')"
proof -
  note ok = hg_readyD [OF hg]
  have so: "solution_ok ev hg sol" and qe: "q < ev_num_parts ev"
    and D: "rs_degs st = GetNetDegrees ev hg sol" "rs_paths st = GetPathsCost ev hg sol"
    using st q rf by (simp_all add: consistent_def sol_def ev_def refiner_ok_def)
  have len: "length sol = hg_num_vertices hg" using so by (simp add: solution_ok_def)
  define vs where "vs = filter (\<lambda>v. sol ! v \<noteq> q) (Vertices hg e)"
  have vs: "distinct vs" "\<forall>v \<in> set vs. v < hg_num_vertices hg \<and> sol ! v \<noteq> q"
    using hg_okD(3,4) [OF ok e] by (auto simp: vs_def)
  have sol': "sol' = move_to q vs sol"
    using len hg_okD(4) [OF ok e] by (intro nth_equalityI) (auto simp: sol'_def move_to_nth vs_def)
  show ?thesis
  proof (cases "vs = []")
    case True
    then show ?thesis
      by (simp add: g_def CalculateHyperedgeGain_def Let_def vs_def [symmetric] sol')
  next
    case False
    let ?E = "\<lambda>s. \<Sum>e | e < hg_num_hyperedges hg \<and> is_cut hg s e. CalculateHyperedgeCost ev e hg"
    let ?c = "\<lambda>p s. EvCalculatePathCost ev p hg s"
    let ?P = "\<lambda>s. \<Sum>p < hg_num_paths hg. ?c p s"
    note S = edge_scores [OF ok qe so vs, of "\<lambda>e. CalculateHyperedgeCost ev e hg" 0, folded D(1) sol']
    define ps where "ps = (if hg_num_paths hg > 0 then concat (map (TimingPathsThrough hg) vs) else [])"
    have ps: "p \<in> set ps \<longleftrightarrow> p < hg_num_paths hg \<and> (\<exists>v \<in> set vs. v \<in> set (PathVertices hg p))" for p
      using vs(2) paths_through(2) [OF hg] by (auto simp: ps_def)
    have cost: "CalculatePathCost rf p hg sol' (int v) (int q) = ?c p sol'" if "v \<in> set vs" for v p
      using that vs len path_cost_moved [OF hg rf, of v sol' q p] by (simp add: sol' move_to_nth ev_def)
    define step where "step = (\<lambda>p (score, delta). if p \<in> fst ` set delta then (score, delta)
        else (score + (rs_paths st ! p - ?c p sol'), map_assign p (?c p sol' - rs_paths st ! p) delta))"
    have inner: "fold (\<lambda>path_id (score, delta).
                 if path_id \<in> fst ` set delta then (score, delta)
                 else let cost = CalculatePathCost rf path_id hg sol' (int v) (int q)
                      in (score + (rs_paths st ! path_id - cost), map_assign path_id (cost - rs_paths st ! path_id) delta))
               (TimingPathsThrough hg v) acc = fold step (TimingPathsThrough hg v) acc" if "v \<in> set vs" for v acc
      by (rule fold_cong) (simp_all add: cost [OF that] step_def Let_def fun_eq_iff)
    have "fold (\<lambda>(v, _) acc.
             fold (\<lambda>path_id (score, delta).
                 if path_id \<in> fst ` set delta then (score, delta)
                 else let cost = CalculatePathCost rf path_id hg sol' (int v) (int q)
                      in (score + (rs_paths st ! path_id - cost), map_assign path_id (cost - rs_paths st ! path_id) delta))
               (TimingPathsThrough hg v) acc) (map (\<lambda>v. (v, sol ! v)) vs) (0, [])
        = fold (\<lambda>(v, _) acc. fold step (TimingPathsThrough hg v) acc) (map (\<lambda>v. (v, sol ! v)) vs) (0, [])"
      by (rule fold_cong) (auto simp: inner fun_eq_iff)
    then have F: "(if hg_num_paths hg > 0 then
          fold (\<lambda>(v, _) acc.
             fold (\<lambda>path_id (score, delta).
                 if path_id \<in> fst ` set delta then (score, delta)
                 else let cost = CalculatePathCost rf path_id hg sol' (int v) (int q)
                      in (score + (rs_paths st ! path_id - cost), map_assign path_id (cost - rs_paths st ! path_id) delta))
               (TimingPathsThrough hg v) acc) (map (\<lambda>v. (v, sol ! v)) vs) (0, [])
          else (0, [])) = fold step ps (0, [])"
      by (simp add: ps_def fold_nested)
    obtain delta where delta: "fold step ps (0, []) = ((\<Sum>p \<in> set ps. rs_paths st ! p - ?c p sol'), delta)"
        "distinct (map fst delta)" "\<forall>(p, d) \<in> set delta. d = ?c p sol' - rs_paths st ! p" "fst ` set delta = set ps"
      using fold_once [of "[]" "\<lambda>p. ?c p sol'" "\<lambda>p. rs_paths st ! p" 0 ps] by (auto simp: step_def)
    have cur: "rs_paths st ! p = ?c p sol" if "p < hg_num_paths hg" for p
      using GetPathsCost_nth(2) [OF hg that] by (simp add: D)
    have off: "?c p sol' = ?c p sol" if "p \<notin> set ps" "p < hg_num_paths hg" for p
      using that ps path_moved_elsewhere [of vs hg p ev q sol] by (auto simp: sol')
    have "(\<Sum>p < hg_num_paths hg. ?c p sol - ?c p sol') = (\<Sum>p \<in> set ps. ?c p sol - ?c p sol')"
      using ps off by (intro sum.mono_neutral_right) auto
    also have "\<dots> = (\<Sum>p \<in> set ps. rs_paths st ! p - ?c p sol')"
      using ps cur by (intro sum.cong) auto
    finally have P: "(\<Sum>p \<in> set ps. rs_paths st ! p - ?c p sol') = ?P sol - ?P sol'" by (simp add: sum_subtractf)
    have G: "g = \<lparr>hy_id = e, hy_dst = int q, hy_gain = (?E sol - ?E sol') + (?P sol - ?P sol'), hy_paths = delta\<rparr>"
      using False S unfolding g_def CalculateHyperedgeGain_def vs_def [symmetric] ev_def [symmetric] fold_moved sol' [symmetric] Let_def
      by (simp add: F [unfolded Let_def] delta(1) P)
    have "?c p sol + (case map_of delta p of Some d \<Rightarrow> d | None \<Rightarrow> 0) = ?c p sol'" if "p < hg_num_paths hg" for p
    proof (cases "map_of delta p")
      case None
      then have "p \<notin> set ps" using delta(4) by (simp add: map_of_eq_None_iff)
      then show ?thesis using None off that by simp
    next
      case (Some d)
      then have "d = ?c p sol' - rs_paths st ! p" using delta(3) map_of_SomeD by fastforce
      then show ?thesis using Some cur [OF that] by simp
    qed
    then show ?thesis using delta(2) unfolding G solution_cost_def pt_cost_sums ev_def [symmetric] by simp
  qed
qed

section \<open>Accepting a hyperedge\<close>

text \<open>The weights and degrees after moving the vertices are those of the new solution.\<close>

lemma move_vertices:
  fixes hg :: "'f::linordered_idom hgraph"
  assumes ok: "hg_ok hg" and q: "q < ev_num_parts ev" and "\<forall>v \<in> set vs. v < hg_num_vertices hg"
    and "solution_ok ev hg (rs_solution st)" "rs_degs st = GetNetDegrees ev hg (rs_solution st)"
    "rs_balance st = GetBlockBalance ev hg (rs_solution st)"
  defines "step \<equiv> \<lambda>v st.
      let pre = rs_solution st ! v
      in if pre = q then st
         else let bal1 = (rs_balance st)[pre := vec_sub (rs_balance st ! pre) (GetVertexWeights hg v)];
                  bal2 = bal1[q := vec_add (bal1 ! q) (GetVertexWeights hg v)]
              in st\<lparr>rs_solution := (rs_solution st)[v := q], rs_balance := bal2,
                    rs_degs := move_degs (Edges hg v) pre q (rs_degs st)\<rparr>"
  shows "fold step vs st = st\<lparr>rs_solution := move_to q vs (rs_solution st),
      rs_balance := GetBlockBalance ev hg (move_to q vs (rs_solution st)),
      rs_degs := GetNetDegrees ev hg (move_to q vs (rs_solution st))\<rparr>"
  using assms(3-6)
proof (induction vs arbitrary: st)
  case (Cons v vs)
  let ?s = "rs_solution st"
  have v: "v < hg_num_vertices hg" using Cons.prems by simp
  show ?case
  proof (cases "?s ! v = q")
    case True
    then have "?s[v := q] = ?s" by (metis list_update_id)
    moreover have "step v st = st" using True by (simp add: step_def)
    ultimately show ?thesis using Cons.IH [of st] Cons.prems by simp
  next
    case False
    have "step v st = st\<lparr>rs_solution := ?s[v := q], rs_balance := GetBlockBalance ev hg (?s[v := q]),
        rs_degs := GetNetDegrees ev hg (?s[v := q])\<rparr>"
      using False balance_of_move [OF ok Cons.prems(2) v q False] degrees_of_move [OF ok Cons.prems(2) v q False] Cons.prems(3,4)
      by (simp add: step_def Let_def)
    then show ?thesis
      using Cons.IH [of "step v st"] Cons.prems solution_ok_update [OF Cons.prems(2) q] by simp
  qed
qed simp

lemma accept_hyperedge:
  fixes hg :: "'f::linordered_idom hgraph"
  assumes hg: "hg_ready hg" and rf: "refiner_ok rf" and st: "consistent rf hg st"
    and e: "e < hg_num_hyperedges hg" and q: "q < rf_num_parts rf"
  defines "g \<equiv> CalculateHyperedgeGain rf e q hg (rs_solution st) (rs_paths st) (rs_degs st)"
  shows "fst (AcceptHyperedgeGain g hg t st) = t + hy_gain g"
    and "consistent rf hg (snd (AcceptHyperedgeGain g hg t st))"
    and "rs_solution (snd (AcceptHyperedgeGain g hg t st)) = move_to q (Vertices hg e) (rs_solution st)"
    and "hy_gain g = solution_cost rf hg (rs_solution st)
        - solution_cost rf hg (rs_solution (snd (AcceptHyperedgeGain g hg t st)))"
    and "hy_dst g = int q"
proof -
  let ?ev = "rf_evaluator rf" and ?sol = "rs_solution st"
  let ?sol' = "move_to q (Vertices hg e) ?sol" and ?st' = "snd (AcceptHyperedgeGain g hg t st)"
  note ok = hg_readyD [OF hg]
  have qe: "q < ev_num_parts ?ev" using q rf by (simp add: refiner_ok_def)
  have C: "solution_ok ?ev hg ?sol" "rs_degs st = GetNetDegrees ?ev hg ?sol" "rs_balance st = GetBlockBalance ?ev hg ?sol"
    "rs_paths st = GetPathsCost ?ev hg ?sol" "length (rs_visited st) = hg_num_vertices hg"
    using st by (simp_all add: consistent_def)
  have "\<forall>v \<in> set (Vertices hg e). v < hg_num_vertices hg" using hg_okD(4) [OF ok e] by blast
  note M = move_vertices [OF ok qe this]
  have G: "hy_id g = e" "hy_dst g = int q" "hy_gain g = solution_cost rf hg ?sol - solution_cost rf hg ?sol'"
      "distinct (map fst (hy_paths g))"
      "p < hg_num_paths hg \<Longrightarrow> EvCalculatePathCost ?ev p hg ?sol
          + (case map_of (hy_paths g) p of Some d \<Rightarrow> d | None \<Rightarrow> 0) = EvCalculatePathCost ?ev p hg ?sol'" for p
    using hyperedge_gain [OF hg rf st e q, folded g_def] by blast+
  show "hy_dst g = int q" by (rule G(2))
  let ?paths = "fold (\<lambda>(p, d) cur. cur[p := cur ! p + d]) (hy_paths g) (rs_paths st)"
  have A: "AcceptHyperedgeGain g hg t st = (t + hy_gain g, st\<lparr>rs_paths := ?paths, rs_solution := ?sol',
      rs_balance := GetBlockBalance ?ev hg ?sol', rs_degs := GetNetDegrees ?ev hg ?sol'\<rparr>)"
    using M [of "st\<lparr>rs_paths := ?paths\<rparr>"] C by (simp add: AcceptHyperedgeGain_def Let_def G)
  have "?paths = GetPathsCost ?ev hg ?sol'"
  proof (rule nth_equalityI)
    show "length ?paths = length (GetPathsCost ?ev hg ?sol')"
      by (simp add: fold_add_nth(1) [OF G(4)] C(4) GetPathsCost_nth(1) [OF hg])
    fix i assume "i < length ?paths"
    then have "i < hg_num_paths hg" by (simp add: fold_add_nth(1) [OF G(4)] C(4) GetPathsCost_nth(1) [OF hg])
    then show "?paths ! i = GetPathsCost ?ev hg ?sol' ! i"
      using G(5) [of i] by (simp add: fold_add_nth(2) [OF G(4)] C(4) GetPathsCost_nth [OF hg])
  qed
  then show "consistent rf hg ?st'"
    unfolding A consistent_def using move_to_ok [OF C(1) qe] C(5) by simp
  show "fst (AcceptHyperedgeGain g hg t st) = t + hy_gain g" "rs_solution ?st' = ?sol'"
    "hy_gain g = solution_cost rf hg ?sol - solution_cost rf hg (rs_solution ?st')"
    by (simp_all add: A G(3))
qed

section \<open>The pass keeps the contract of a refiner\<close>

lemma best_hyperedge_gain_cases:
  assumes "best_hyperedge_gain rf hg upper lower st e = Some g"
  shows "\<exists>q < rf_num_parts rf. CheckHyperedgeMoveLegality rf e q hg (rs_solution st) (rs_balance st) upper lower
    \<and> g = CalculateHyperedgeGain rf e q hg (rs_solution st) (rs_paths st) (rs_degs st)"
proof -
  let ?good = "\<lambda>g. \<exists>q < rf_num_parts rf. CheckHyperedgeMoveLegality rf e q hg (rs_solution st) (rs_balance st) upper lower
    \<and> g = CalculateHyperedgeGain rf e q hg (rs_solution st) (rs_paths st) (rs_degs st)"
  let ?step = "\<lambda>to_pid best.
        if CheckHyperedgeMoveLegality rf e to_pid hg (rs_solution st) (rs_balance st) upper lower
        then let g = CalculateHyperedgeGain rf e to_pid hg (rs_solution st) (rs_paths st) (rs_degs st)
             in case best of None \<Rightarrow> Some g
                | Some b \<Rightarrow> if CompareHyperedgeGain (rf_evaluator rf) hg g b then Some g else best
        else best"
  have "\<forall>g. fold ?step qs best = Some g \<longrightarrow> ?good g"
    if "set qs \<subseteq> {0..<rf_num_parts rf}" "\<forall>g. best = Some g \<longrightarrow> ?good g" for qs best
    using that
  proof (induction qs arbitrary: best)
    case (Cons p qs)
    have "\<forall>g. ?step p best = Some g \<longrightarrow> ?good g"
      using Cons.prems by (auto simp: Let_def split: option.splits)
    then show ?case using Cons.IH [of "?step p best"] Cons.prems(1) by simp
  qed simp
  from this [of "[0..<rf_num_parts rf]" None] show ?thesis
    using assms by (simp add: best_hyperedge_gain_def)
qed

text \<open>A legal move of a hyperedge takes no vertex away from the block it is fixed to.\<close>

lemma legal_keeps_fixed:
  assumes "CheckHyperedgeMoveLegality rf e q hg sol bal upper lower" "fixed_in_place hg sol v" "v < length sol"
  shows "move_to q (Vertices hg e) sol ! v = sol ! v"
  using assms by (auto simp: CheckHyperedgeMoveLegality_def Let_def list_ex_iff fixed_in_place_def move_to_nth split: if_splits)

lemma greedy_loop_ok:
  fixes hg :: "'f::linordered_idom hgraph"
  assumes hg: "hg_ready hg" and rf: "refiner_ok rf" and "consistent rf hg st" "\<forall>e \<in> set es. e < hg_num_hyperedges hg"
  shows "\<exists>gain st'. greedy_loop rf hg upper lower es n t st = (t + gain, st') \<and> consistent rf hg st'
    \<and> (\<forall>v. fixed_in_place hg (rs_solution st) v \<longrightarrow> rs_solution st' ! v = rs_solution st ! v)
    \<and> 0 \<le> gain \<and> gain = solution_cost rf hg (rs_solution st) - solution_cost rf hg (rs_solution st')"
  using assms(3,4)
proof (induction es arbitrary: n t st)
  case Nil
  then show ?case by (intro exI [of _ 0] exI [of _ st]) simp
next
  case (Cons e es)
  have stay: "greedy_loop rf hg upper lower (e # es) n t st = (t, st)
      \<or> (\<exists>n'. greedy_loop rf hg upper lower (e # es) n t st = greedy_loop rf hg upper lower es n' t st)
      \<or> (\<exists>g. best_hyperedge_gain rf hg upper lower st e = Some g \<and> 0 \<le> hy_gain g
          \<and> greedy_loop rf hg upper lower (e # es) n t st
            = greedy_loop rf hg upper lower es (n + 1) (fst (AcceptHyperedgeGain g hg t st)) (snd (AcceptHyperedgeGain g hg t st)))"
    by (simp add: Let_def split_beta split: option.split) blast
  then show ?case
  proof (elim disjE exE conjE)
    assume "greedy_loop rf hg upper lower (e # es) n t st = (t, st)"
    then show ?thesis using Cons.prems by (intro exI [of _ 0] exI [of _ st]) simp
  next
    fix n' assume "greedy_loop rf hg upper lower (e # es) n t st = greedy_loop rf hg upper lower es n' t st"
    then show ?thesis using Cons.IH [OF Cons.prems(1), of n' t] Cons.prems(2) by simp
  next
    fix g assume g: "best_hyperedge_gain rf hg upper lower st e = Some g" "0 \<le> hy_gain g"
      and L: "greedy_loop rf hg upper lower (e # es) n t st
        = greedy_loop rf hg upper lower es (n + 1) (fst (AcceptHyperedgeGain g hg t st)) (snd (AcceptHyperedgeGain g hg t st))"
    let ?st' = "snd (AcceptHyperedgeGain g hg t st)"
    obtain q where q: "q < rf_num_parts rf" "CheckHyperedgeMoveLegality rf e q hg (rs_solution st) (rs_balance st) upper lower"
        "g = CalculateHyperedgeGain rf e q hg (rs_solution st) (rs_paths st) (rs_degs st)"
      using best_hyperedge_gain_cases [OF g(1)] by blast
    have e: "e < hg_num_hyperedges hg" using Cons.prems(2) by simp
    note A = accept_hyperedge(1-4) [OF hg rf Cons.prems(1) e q(1), folded q(3), of t]
    have len: "length (rs_solution st) = hg_num_vertices hg" using Cons.prems(1) by (simp add: consistent_def solution_ok_def)
    have keep: "rs_solution ?st' ! v = rs_solution st ! v" if "fixed_in_place hg (rs_solution st) v" for v
      using legal_keeps_fixed [OF q(2) that] that len by (simp add: A(3) fixed_in_place_def)
    obtain gain st'' where R: "greedy_loop rf hg upper lower es (n + 1) (t + hy_gain g) ?st' = (t + hy_gain g + gain, st'')"
        "consistent rf hg st''" "\<forall>v. fixed_in_place hg (rs_solution ?st') v \<longrightarrow> rs_solution st'' ! v = rs_solution ?st' ! v"
        "0 \<le> gain" "gain = solution_cost rf hg (rs_solution ?st') - solution_cost rf hg (rs_solution st'')"
      using Cons.IH [OF A(2)] Cons.prems(2) by (metis list.set_intros(2))
    have "fixed_in_place hg (rs_solution ?st') v" if "fixed_in_place hg (rs_solution st) v" for v
      using that keep by (simp add: fixed_in_place_def)
    then show ?thesis
      using R keep g(2) A(1,4) L by (intro exI [of _ "hy_gain g + gain"] exI [of _ st'']) (auto simp: add.assoc)
  qed
qed

interpretation greedy: refiner_pass "GreedyPass rf hg upper lower" rf hg "\<lambda>_. refiner_ok rf"
  for rf :: "'f::linordered_idom refiner" and hg upper lower
proof
  fix st
  assume "hg_ready hg" "refiner_ok rf" "consistent rf hg st"
  from greedy_loop_ok [OF this, where es = "[0..<hg_num_hyperedges hg]" and upper = upper and lower = lower and n = 0 and t = 0]
  show "\<exists>gain st'. GreedyPass rf hg upper lower st = Some (gain, st') \<and> consistent rf hg st' \<and> refiner_ok rf
      \<and> (\<forall>v. fixed_in_place hg (rs_solution st) v \<longrightarrow> rs_solution st' ! v = rs_solution st ! v)
      \<and> 0 \<le> gain \<and> gain = solution_cost rf hg (rs_solution st) - solution_cost rf hg (rs_solution st')"
    using \<open>refiner_ok rf\<close> by (auto simp: GreedyPass_def)
qed

section \<open>Fixed vertices\<close>

text \<open>
  A legal move asks that every vertex of the hyperedge is fixed to the new block.  When the fixed vertices
  are where they belong, all of them are in that block already.
\<close>

lemma legal_all_fixed:
  assumes "hg_fixed_flag hg" "CheckHyperedgeMoveLegality rf e q hg sol cur upper lower"
  shows "\<forall>v \<in> set (Vertices hg e). hg_fixed_attr hg ! v = int q"
  using assms by (auto simp: CheckHyperedgeMoveLegality_def Let_def list_ex_iff split: if_splits)

definition fixed_placed :: "'f hgraph \<Rightarrow> nat list \<Rightarrow> bool" where
  "fixed_placed hg sol \<longleftrightarrow> (\<forall>v < hg_num_vertices hg. 0 \<le> hg_fixed_attr hg ! v \<longrightarrow> hg_fixed_attr hg ! v = int (sol ! v))"

lemma no_cut_move:
  fixes hg :: "'f::linordered_idom hgraph"
  assumes "hg_ready hg" "refiner_ok rf" "hg_fixed_flag hg" "fixed_placed hg (rs_solution st)" "consistent rf hg st"
    and e: "e < hg_num_hyperedges hg"
  shows "best_hyperedge_gain rf hg upper lower st e = None
    \<or> length (filter (\<lambda>b. rs_degs st ! e ! b > 0) [0..<rf_num_parts rf]) \<le> 1"
proof (cases "best_hyperedge_gain rf hg upper lower st e")
  case (Some g)
  obtain q where q: "CheckHyperedgeMoveLegality rf e q hg (rs_solution st) (rs_balance st) upper lower"
    using best_hyperedge_gain_cases [OF Some] by blast
  have in_q: "rs_solution st ! v = q" if "v \<in> set (Vertices hg e)" for v
    using legal_all_fixed [OF assms(3) q] that assms(4) hg_okD(4) [OF hg_readyD [OF assms(1)] e that]
    by (force simp: fixed_placed_def)
  have "b = q" if "b < rf_num_parts rf" "rs_degs st ! e ! b > 0" for b
  proof -
    have "b < ev_num_parts (rf_evaluator rf)" using that(1) assms(2) by (simp add: refiner_ok_def)
    then have "filter (\<lambda>v. rs_solution st ! v = b) (Vertices hg e) \<noteq> []"
      using that(2) assms(5) by (auto simp: consistent_def GetNetDegrees_nth(2) [OF e])
    then show ?thesis using in_q by (auto simp: filter_empty_conv)
  qed
  then have "set (filter (\<lambda>b. rs_degs st ! e ! b > 0) [0..<rf_num_parts rf]) \<subseteq> {q}" by auto
  then have "card (set (filter (\<lambda>b. rs_degs st ! e ! b > 0) [0..<rf_num_parts rf])) \<le> 1"
    using card_mono [of "{q}"] by fastforce
  then show ?thesis by (simp add: distinct_card del: set_filter)
qed simp

lemma greedy_loop_stuck:
  assumes "\<forall>e \<in> set es. best_hyperedge_gain rf hg upper lower st e = None
    \<or> length (filter (\<lambda>b. rs_degs st ! e ! b > 0) [0..<rf_num_parts rf]) \<le> 1"
  shows "greedy_loop rf hg upper lower es n t st = (t, st)"
  using assms by (induction es arbitrary: n) auto

lemma pass_idle:
  fixes hg :: "'f::linordered_idom hgraph"
  assumes "hg_ready hg" "refiner_ok rf" "hg_fixed_flag hg" "fixed_placed hg (rs_solution st)" "consistent rf hg st"
  shows "GreedyPass rf hg upper lower st = Some (0, st)"
  unfolding GreedyPass_def using no_cut_move [OF assms] by (subst greedy_loop_stuck) simp_all

section \<open>Properties\<close>

text \<open>C23: Greedy refinement does not make a solution worse.  From every solution, \<open>Refine\<close> with the greedy pass
  returns a solution whose cost, cut hyperedges and timing paths together, is not larger, and in
  which every vertex that was in the block it is fixed to still is: the gains added up for moving all
  vertices of a hyperedge, computed one vertex after the other on changing degrees, are exact.\<close>

theorem greedy_refine_improves:
  fixes hg :: "'f::linordered_idom hgraph"
  assumes "hg_ready hg" "refiner_ok rf" "solution_ok (rf_evaluator rf) hg sol"
  shows "\<exists>sol'. Refine (GreedyPass rf hg upper lower) rf hg sol = Some sol'
    \<and> solution_ok (rf_evaluator rf) hg sol'
    \<and> pt_cost (CutEvaluator (rf_evaluator rf) hg sol') \<le> pt_cost (CutEvaluator (rf_evaluator rf) hg sol)
    \<and> (\<forall>v. fixed_in_place hg sol v \<longrightarrow> sol' ! v = sol ! v)"
  using greedy.Refine_improves [OF assms, of upper lower] by (auto simp: solution_cost_def)

theorem greedy_refine_improves_witness:
  "\<exists>sol'. Refine (GreedyPass ring4_refiner ring4 [[3], [3]] [[1], [1]]) ring4_refiner ring4 [0, 1, 0, 1] = Some sol'
    \<and> pt_cost (CutEvaluator (rf_evaluator ring4_refiner) ring4 sol') \<le> pt_cost (CutEvaluator (rf_evaluator ring4_refiner) ring4 [0, 1, 0, 1])"
  using greedy_refine_improves [OF ring4_facts(1,2,11), of "[[3], [3]]" "[[1], [1]]"] by blast

text \<open>C38: With fixed vertices, greedy refinement does nothing.  \<open>CheckHyperedgeMoveLegality\<close> allows moving a
  hyperedge to a block only if every one of its vertices is fixed to that block; a vertex that is not fixed
  has the attribute \<open>-1\<close>, the number of no block, and so forbids every block.  When the fixed vertices are in
  the blocks they are fixed to, the hyperedges that may be moved are in one block already: \<open>Refine\<close> with the
  greedy pass returns the solution it was given, whatever the free vertices could gain.\<close>

theorem greedy_idle_with_fixed:
  fixes hg :: "'f::linordered_idom hgraph"
  assumes "hg_ready hg" "refiner_ok rf" "solution_ok (rf_evaluator rf) hg sol"
    and "hg_fixed_flag hg" "fixed_placed hg sol"
  shows "(CheckHyperedgeMoveLegality rf e q hg sol' cur upper' lower' \<longrightarrow>
        (\<forall>v \<in> set (Vertices hg e). hg_fixed_attr hg ! v = int q))
    \<and> Refine (GreedyPass rf hg upper lower) rf hg sol = Some sol"
proof -
  have "map_option rs_solution (refine_loop (GreedyPass rf hg upper lower) hg iters
      \<lparr>rs_visited = [], rs_solution = sol,
       rs_paths = (if hg_timing_flag hg then GetPathsCost (rf_evaluator rf) hg sol else []),
       rs_balance = GetBlockBalance (rf_evaluator rf) hg sol, rs_degs = GetNetDegrees (rf_evaluator rf) hg sol\<rparr>) = Some sol" for iters
    using pass_idle [OF assms(1,2,4) _ start_consistent [OF assms(1,3), of "fixed_flags hg"]] assms(5)
    by (cases iters) (simp_all add: fixed_flags_def)
  then show ?thesis using legal_all_fixed [OF assms(4)] by (auto simp: Refine_def Let_def)
qed

theorem greedy_idle_with_fixed_witness:
  "Refine (GreedyPass ring4_refiner ring4 [[3], [3]] [[1], [1]]) ring4_refiner ring4 [0, 1, 0, 1] = Some [0, 1, 0, 1]
    \<and> solution_cost ring4_refiner ring4 [0, 0, 1, 1] < solution_cost ring4_refiner ring4 [0, 1, 0, 1]"
proof -
  have "fixed_placed ring4 [0, 1, 0, 1]"
    by (auto simp: fixed_placed_def ring4_facts less_Suc_eq numeral_eq_Suc)
  then have "Refine (GreedyPass ring4_refiner ring4 [[3], [3]] [[1], [1]]) ring4_refiner ring4 [0, 1, 0, 1] = Some [0, 1, 0, 1]"
    using greedy_idle_with_fixed [OF ring4_facts(1,2,11,7)] by blast
  moreover have "solution_cost ring4_refiner ring4 [0, 0, 1, 1] < solution_cost ring4_refiner ring4 [0, 1, 0, 1]"
    by code_simp
  ultimately show ?thesis ..
qed

end
