(* ===== verification/ParKPM.thy ===== *)
theory ParKPM imports ParFM begin

text \<open>
  \<open>src/par/src/KWayPMRefine.cpp\<close>: the refinement of pairs of blocks.  A pass matches the blocks by how
  strongly they are connected and refines each pair with the buckets of its two blocks.
\<close>

section \<open>Matching the blocks\<close>

text \<open>
  The scores are sorted in decreasing order.  The order of equal scores is left open by \<open>std::sort\<close>;
  here it is that of the map.
\<close>

fun insert_score :: "((nat \<times> nat) \<times> 'f::linorder) \<Rightarrow> ((nat \<times> nat) \<times> 'f) list \<Rightarrow> ((nat \<times> nat) \<times> 'f) list" where
  "insert_score x [] = [x]"
| "insert_score x (y # ys) = (if snd x > snd y then x # y # ys else y # insert_score x ys)"

definition sort_scores :: "((nat \<times> nat) \<times> 'f::linorder) list \<Rightarrow> ((nat \<times> nat) \<times> 'f) list" where
  "sort_scores scores = fold insert_score scores []"

fun match_blocks :: "nat \<Rightarrow> ((nat \<times> nat) \<times> 'f) list \<Rightarrow> bool list \<Rightarrow> nat \<Rightarrow> (nat \<times> nat) list" where
  "match_blocks num_parts [] match_flag num_match_block = []"
| "match_blocks num_parts (((a, b), _) # scores) match_flag num_match_block =
    (if \<not> match_flag ! a \<and> \<not> match_flag ! b
     then (a, b) # (if num_match_block + 2 \<ge> num_parts - 1 then []
                    else match_blocks num_parts scores (match_flag[a := True, b := True]) (num_match_block + 2))
     else match_blocks num_parts scores match_flag num_match_block)"

definition CalculateMaximumMatch :: "'f refiner \<Rightarrow> ((nat \<times> nat) \<times> 'f::linorder) list \<Rightarrow> (nat \<times> nat) list" where
  "CalculateMaximumMatch rf matching_scores =
    match_blocks (rf_num_parts rf) (sort_scores matching_scores) (replicate (rf_num_parts rf) False) 0"

section \<open>The refinement of a pair\<close>

definition InitializeGainBucketsPM ::
    "'f::{linorder,zero,one,plus,minus,times} refiner \<Rightarrow> 'f hgraph \<Rightarrow> nat list \<Rightarrow> 'f rstate \<Rightarrow> nat \<times> nat \<Rightarrow> 'f pqueue list
     \<Rightarrow> 'f pqueue list" where
  "InitializeGainBucketsPM rf hg boundary_vertices st pair buckets =
    fold (\<lambda>to_pid bs. bs[to_pid := InitializeSingleGainBucket rf hg boundary_vertices st to_pid (bs ! to_pid)])
      [fst pair, snd pair] buckets"

definition clear_pair :: "nat \<times> nat \<Rightarrow> 'f pqueue list \<Rightarrow> 'f pqueue list" where
  "clear_pair pair buckets = fold (\<lambda>b bs. bs[b := Clear (bs ! b)]) [fst pair, snd pair] buckets"

definition PerformPairFM ::
    "'f::{linorder,zero,one,plus,minus,times} refiner \<Rightarrow> 'f \<Rightarrow> 'f hgraph \<Rightarrow> 'f list list \<Rightarrow> 'f list list \<Rightarrow> nat \<times> nat
     \<Rightarrow> 'f pqueue list \<Rightarrow> 'f rstate \<Rightarrow> ('f \<times> 'f pqueue list \<times> 'f rstate) option" where
  "PerformPairFM rf lowest hg upper lower pair buckets st =
    (let boundary = FindBoundaryVerticesPair hg (rs_degs st) (rs_visited st) (rs_solution st) pair
     in case fm_moves rf lowest hg upper lower (\<lambda>v st. FindNeighborsPair hg v (rs_visited st) (rs_solution st) pair)
               {fst pair, snd pair} (rf_max_move rf)
               \<lparr>fm_buckets = InitializeGainBucketsPM rf hg boundary st pair (clear_pair pair buckets), fm_trace = [],
                fm_total = 0, fm_best_gain = 0, fm_best_vertex = -1, fm_st = st\<rparr> of
          None \<Rightarrow> None
        | Some s \<Rightarrow> Some (fm_best_gain s, clear_pair pair (fm_buckets s),
                          roll_back hg (fm_best_vertex s) (rev (fm_trace s)) (fm_st s)))"

primrec refine_pairs ::
    "'f::{linorder,zero,one,plus,minus,times} refiner \<Rightarrow> 'f \<Rightarrow> 'f hgraph \<Rightarrow> 'f list list \<Rightarrow> 'f list list \<Rightarrow> (nat \<times> nat) list
     \<Rightarrow> 'f \<Rightarrow> 'f pqueue list \<Rightarrow> 'f rstate \<Rightarrow> ('f \<times> 'f rstate) option" where
  "refine_pairs rf lowest hg upper lower [] delta_gain buckets st = Some (delta_gain, st)"
| "refine_pairs rf lowest hg upper lower (pair # pairs) delta_gain buckets st =
    (case PerformPairFM rf lowest hg upper lower pair buckets st of
       None \<Rightarrow> None
     | Some (gain, buckets', st') \<Rightarrow> refine_pairs rf lowest hg upper lower pairs (delta_gain + gain) buckets' st')"

definition KWayPMPass ::
    "'f::{linorder,zero,one,plus,minus,times} refiner \<Rightarrow> nat \<Rightarrow> 'f \<Rightarrow> 'f hgraph \<Rightarrow> 'f list list \<Rightarrow> 'f list list \<Rightarrow> 'f rstate
     \<Rightarrow> ('f \<times> 'f rstate) option" where
  "KWayPMPass rf total_corking_passes lowest hg upper lower st =
    (let maximum_matches = CalculateMaximumMatch rf (GetMatchingConnectivity (rf_evaluator rf) hg (rs_solution st));
         buckets = replicate (rf_num_parts rf) (pq_new (hg_num_vertices hg) total_corking_passes (hg_vertex_weights hg))
     in refine_pairs rf lowest hg upper lower maximum_matches 0 buckets st)"

section \<open>The matching\<close>

lemma set_sort_scores: "set (sort_scores scores) = set scores"
proof -
  have ins: "set (insert_score x ys) = insert x (set ys)" for x :: "(nat \<times> nat) \<times> 'a" and ys by (induction ys) auto
  have "set (fold insert_score scores acc) = set scores \<union> set acc" for acc
    by (induction scores arbitrary: acc) (auto simp: ins)
  from this [of "[]"] show ?thesis by (simp add: sort_scores_def)
qed

text \<open>No block is in two pairs.\<close>

lemma match_blocks_matching:
  assumes "\<forall>((a, b), _) \<in> set scores. a < b \<and> b < length match_flag"
  shows "distinct (concat (map (\<lambda>(a, b). [a, b]) (match_blocks k scores match_flag n)))
    \<and> (\<forall>(a, b) \<in> set (match_blocks k scores match_flag n). a < b \<and> b < length match_flag \<and> \<not> match_flag ! a \<and> \<not> match_flag ! b)"
  using assms
proof (induction k scores match_flag n rule: match_blocks.induct)
  case (2 k a b s scores flags n)
  show ?case
  proof (cases "\<not> flags ! a \<and> \<not> flags ! b")
    case True
    have ab: "a < b" "b < length flags" using 2(3) by auto
    show ?thesis
    proof (cases "n + 2 \<ge> k - 1")
      case False
      let ?f = "flags[a := True, b := True]"
      have IH: "distinct (concat (map (\<lambda>(a, b). [a, b]) (match_blocks k scores ?f (n + 2))))"
        "\<forall>(c, d) \<in> set (match_blocks k scores ?f (n + 2)). c < d \<and> d < length flags \<and> \<not> ?f ! c \<and> \<not> ?f ! d"
        using 2(1) [OF True False] 2(3) by auto
      have "\<not> flags ! c \<and> \<not> flags ! d \<and> c \<noteq> a \<and> c \<noteq> b \<and> d \<noteq> a \<and> d \<noteq> b"
        if "(c, d) \<in> set (match_blocks k scores ?f (n + 2))" for c d
      proof -
        have "c < d" "d < length flags" "\<not> ?f ! c" "\<not> ?f ! d" using IH(2) that by auto
        then show ?thesis using ab by (auto simp: nth_list_update split: if_splits)
      qed
      then show ?thesis using True False IH ab by fastforce
    qed (use True ab in auto)
  next
    case False
    then show ?thesis using 2(2) [OF False] 2(3) by auto
  qed
qed simp

lemma matching_keys:
  "((a, b), s) \<in> set (GetMatchingConnectivity ev hg sol) \<Longrightarrow> a < b \<and> b < ev_num_parts ev"
  by (auto simp: GetMatchingConnectivity_def)

lemma maximum_match_matching:
  fixes hg :: "'f::linordered_idom hgraph" and rf :: "'f refiner" and sol :: "nat list"
  assumes "refiner_ok rf"
  defines "matches \<equiv> CalculateMaximumMatch rf (GetMatchingConnectivity (rf_evaluator rf) hg sol)"
  shows "distinct (concat (map (\<lambda>(a, b). [a, b]) matches)) \<and> (\<forall>(a, b) \<in> set matches. a < b \<and> b < rf_num_parts rf)"
proof -
  have "\<forall>((a, b), _) \<in> set (sort_scores (GetMatchingConnectivity (rf_evaluator rf) hg sol)).
      a < b \<and> b < length (replicate (rf_num_parts rf) False)"
    using matching_keys [where ev = "rf_evaluator rf" and hg = hg and sol = sol] assms(1)
    by (auto simp: set_sort_scores refiner_ok_def)
  from match_blocks_matching [OF this, of "rf_num_parts rf" 0] show ?thesis
    by (auto simp: matches_def CalculateMaximumMatch_def)
qed

section \<open>Two blocks\<close>

text \<open>With two blocks there is one pair, and refining it is refining all blocks.\<close>

lemma one_match:
  assumes "rf_num_parts rf = 2" "refiner_ok rf"
  shows "CalculateMaximumMatch rf (GetMatchingConnectivity (rf_evaluator rf) hg sol) = [(0, 1)]"
proof -
  have "ev_num_parts (rf_evaluator rf) = 2" using assms by (simp add: refiner_ok_def)
  then show ?thesis
    using assms(1) by (simp add: CalculateMaximumMatch_def GetMatchingConnectivity_def upt_conv_Cons sort_scores_def numeral_2_eq_2)
qed

lemma pair_start:
  fixes hg :: "'f::linordered_idom hgraph" and rf :: "'f refiner"
  assumes two: "rf_num_parts rf = 2"
  defines "boundary \<equiv> \<lambda>st. FindBoundaryVerticesPair hg (rs_degs st) (rs_visited st) (rs_solution st) (0, 1)"
  shows "fm_inv rf hg upper lower 0 st
    \<lparr>fm_buckets = InitializeGainBucketsPM rf hg (boundary st) st (0, 1)
        (clear_pair (0, 1) (replicate 2 (pq_new (hg_num_vertices hg) corking (hg_vertex_weights hg)))),
     fm_trace = [], fm_total = 0, fm_best_gain = 0, fm_best_vertex = -1, fm_st = st\<rparr>"
proof -
  let ?new = "pq_new (hg_num_vertices hg) corking (hg_vertex_weights hg)"
  have B: "bucket_ok rf hg st b (InitializeSingleGainBucket rf hg (boundary st) st b (Clear ?new))" for b
    by (rule Initialize_ok) (auto simp: boundary_def FindBoundaryVerticesPair_def boundary_facts pq_new_ok Clear_ok)
  have "InitializeGainBucketsPM rf hg (boundary st) st (0, 1) (clear_pair (0, 1) (replicate 2 ?new))
      = [InitializeSingleGainBucket rf hg (boundary st) st 0 (Clear ?new), InitializeSingleGainBucket rf hg (boundary st) st 1 (Clear ?new)]"
    by (simp add: InitializeGainBucketsPM_def clear_pair_def numeral_2_eq_2)
  then show ?thesis using B by (simp add: fm_inv_def run_start two less_2_cases_iff)
qed

lemma pair_neighbours:
  fixes hg :: "'f::linordered_idom hgraph"
  assumes hg: "hg_ready hg" and rf: "refiner_ok rf" "rf_num_parts rf = 2" and st: "consistent rf hg st" and v: "v < hg_num_vertices hg"
  shows "FindNeighborsPair hg v (rs_visited st) (rs_solution st) (0, 1) = FindNeighbors hg v (rs_visited st)"
proof -
  have "rs_solution st ! u = 0 \<or> rs_solution st ! u = 1" if "u < hg_num_vertices hg" for u
    using st that rf by (auto simp: consistent_def solution_ok_def refiner_ok_def less_2_cases_iff)
  moreover have "u < hg_num_vertices hg" if "u \<in> set (concat (map (Vertices hg) (Edges hg v)))" for u
    using that Edges_facts(2) [OF hg_readyD [OF hg] v] hg_okD(4) [OF hg_readyD [OF hg]] by auto
  ultimately have "filter (\<lambda>u. \<not> rs_visited st ! u \<and> (rs_solution st ! u = 0 \<or> rs_solution st ! u = 1)) (concat (map (Vertices hg) (Edges hg v)))
      = filter (\<lambda>u. \<not> rs_visited st ! u) (concat (map (Vertices hg) (Edges hg v)))"
    by (intro filter_cong) auto
  then show ?thesis by (simp add: FindNeighborsPair_def FindNeighbors_def)
qed

lemma two_blocks_pass:
  fixes hg :: "'f::linordered_idom hgraph" and rf :: "'f refiner" and upper lower :: "'f list list"
  assumes hg: "hg_ready hg" and rf: "refiner_ok rf" "rf_num_parts rf = 2" and loc: "paths_local hg" "paths_once hg"
    and st: "consistent rf hg st"
  shows "\<exists>gain st' trace k. KWayPMPass rf corking lowest hg upper lower st = Some (gain, st')
    \<and> best_prefix (fm_run (legal_move hg upper lower) rf hg) (\<lambda>st. solution_cost rf hg (rs_solution st)) 0 st trace k gain st'"
proof -
  let ?nb = "\<lambda>v st. FindNeighborsPair hg v (rs_visited st) (rs_solution st) (0, 1)"
  have blocks: "{0..<rf_num_parts rf} \<subseteq> {0, 1}" using rf(2) by auto
  obtain s k where "fm_moves rf lowest hg upper lower ?nb {0, 1} (rf_max_move rf)
        \<lparr>fm_buckets = InitializeGainBucketsPM rf hg (FindBoundaryVerticesPair hg (rs_degs st) (rs_visited st) (rs_solution st) (0, 1)) st (0, 1)
          (clear_pair (0, 1) (replicate 2 (pq_new (hg_num_vertices hg) corking (hg_vertex_weights hg)))),
         fm_trace = [], fm_total = 0, fm_best_gain = 0, fm_best_vertex = -1, fm_st = st\<rparr> = Some s"
    and B: "best_prefix (fm_run (legal_move hg upper lower) rf hg) (\<lambda>st. solution_cost rf hg (rs_solution st)) 0 st (fm_trace s) k
        (fm_best_gain s) (roll_back hg (fm_best_vertex s) (rev (fm_trace s)) (fm_st s))"
    using pass_result [OF hg rf(1) loc st pair_neighbours [OF hg rf] blocks pair_start [OF rf(2)] fm_state.select_convs(2)] by blast
  then show ?thesis
    using one_match [OF rf(2,1), of hg "rs_solution st"] rf(2)
    by (auto simp: KWayPMPass_def Let_def PerformPairFM_def)
qed

interpretation pairwise: refiner_pass "KWayPMPass rf corking lowest hg upper lower" rf hg
  "\<lambda>bal. rf_num_parts rf = 2 \<and> kway_inv rf hg upper lower bal"
  for rf :: "'f::linordered_idom refiner" and corking lowest hg upper lower
proof
  fix st
  assume hg: "hg_ready hg" and inv: "rf_num_parts rf = 2 \<and> kway_inv rf hg upper lower (rs_balance st)" and st: "consistent rf hg st"
    and vis: "rs_visited st = fixed_flags hg"
  have rf: "refiner_ok rf" and loc: "paths_local hg" "paths_once hg" and one: "one_dim hg (rf_num_parts rf) upper lower"
    and W: "within (rf_num_parts rf) upper lower (rs_balance st)" and two: "rf_num_parts rf = 2"
    using inv unfolding kway_inv_def by blast+
  obtain gain st' trace k where P: "KWayPMPass rf corking lowest hg upper lower st = Some (gain, st')"
      "best_prefix (fm_run (legal_move hg upper lower) rf hg) (\<lambda>st. solution_cost rf hg (rs_solution st)) 0 st trace k gain st'"
    using two_blocks_pass [OF hg rf two loc st] by blast
  obtain kept where K: "fm_run (legal_move hg upper lower) rf hg st kept st'" "consistent rf hg st'"
      "\<forall>v. fixed_in_place hg (rs_solution st) v \<longrightarrow> rs_solution st' ! v = rs_solution st ! v"
      "0 \<le> gain" "gain = solution_cost rf hg (rs_solution st) - solution_cost rf hg (rs_solution st')"
    using best_prefix_contract [OF hg rf st vis P(2)] by blast
  have "kway_inv rf hg upper lower (rs_balance st')"
    using run_within [OF K(1) hg rf one st W] rf loc one by (simp add: kway_inv_def)
  then show "\<exists>gain st'. KWayPMPass rf corking lowest hg upper lower st = Some (gain, st') \<and> consistent rf hg st'
      \<and> (rf_num_parts rf = 2 \<and> kway_inv rf hg upper lower (rs_balance st'))
      \<and> (\<forall>v. fixed_in_place hg (rs_solution st) v \<longrightarrow> rs_solution st' ! v = rs_solution st ! v)
      \<and> 0 \<le> gain \<and> gain = solution_cost rf hg (rs_solution st) - solution_cost rf hg (rs_solution st')"
    using P(1) K two by blast
qed

section \<open>Properties\<close>

text \<open>C24: Pairwise refinement of two blocks improves a balanced solution.  With two blocks \<open>Refine\<close> with the
  pairwise pass returns a solution whose cost is not larger, whose blocks are within their bounds and whose
  fixed vertices stay, under the conditions of FM refinement: one dimension of nonnegative weights, blocks
  within their bounds, no vertex twice on one timing path, and the vertices on a timing path share a hyperedge.\<close>

theorem pairwise_refine_improves:
  fixes hg :: "'f::linordered_idom hgraph"
  assumes "hg_ready hg" "refiner_ok rf" "rf_num_parts rf = 2" "paths_local hg" "paths_once hg" "solution_ok (rf_evaluator rf) hg sol"
    and "one_dim hg 2 upper lower" "within 2 upper lower (GetBlockBalance (rf_evaluator rf) hg sol)"
  shows "\<exists>sol'. Refine (KWayPMPass rf corking lowest hg upper lower) rf hg sol = Some sol'
    \<and> within 2 upper lower (GetBlockBalance (rf_evaluator rf) hg sol')
    \<and> pt_cost (CutEvaluator (rf_evaluator rf) hg sol') \<le> pt_cost (CutEvaluator (rf_evaluator rf) hg sol)
    \<and> (\<forall>v. fixed_in_place hg sol v \<longrightarrow> sol' ! v = sol ! v)"
  using pairwise.Refine_improves [OF assms(1) _ assms(6), of upper lower corking lowest] assms
  by (auto simp: kway_inv_def solution_cost_def)

theorem pairwise_refine_improves_witness:
  "\<exists>sol'. Refine (KWayPMPass ring4_refiner 25 (-1000) ring4 [[3], [3]] [[1], [1]]) ring4_refiner ring4 [0, 1, 0, 1] = Some sol'
    \<and> within 2 [[3], [3]] [[1], [1]] (GetBlockBalance (rf_evaluator ring4_refiner) ring4 sol')"
  using pairwise_refine_improves [OF ring4_facts(1,2,5,3,12,11) ring4_bounds [unfolded ring4_facts(5)], of 25 "-1000"] by blast

text \<open>A pair takes vertices from other blocks.  \<open>FindBoundaryVertices\<close> for a pair is given the solution and does
  not use it: a vertex of a third block on a hyperedge with vertices in both blocks of the pair is in
  the bucket of each of them, and can be moved out of its block.\<close>

theorem pair_takes_third_block:
  fixes hg :: "'f::linordered_idom hgraph" and corking :: nat
  assumes "v < hg_num_vertices hg" "\<not> rs_visited st ! v" "e \<in> set (Edges hg v)" "rs_degs st ! e ! a > 0" "rs_degs st ! e ! b > 0"
    and "a \<noteq> b" "rs_solution st ! v \<noteq> a" "rs_solution st ! v \<noteq> b" "k \<in> {a, b}" "a < n" "b < n"
  defines "boundary \<equiv> FindBoundaryVerticesPair hg (rs_degs st) (rs_visited st) (rs_solution st) (a, b)"
    and "new \<equiv> pq_new (hg_num_vertices hg) corking (hg_vertex_weights hg)"
  shows "pq_look (InitializeGainBucketsPM rf hg boundary st (a, b) (clear_pair (a, b) (replicate n new)) ! k) v
    = Some (CalculateVertexGain rf v (rs_solution st ! v) k hg (rs_solution st) (rs_paths st) (rs_degs st))"
proof -
  have mem: "v \<in> set boundary" using assms(1-5) by (auto simp: boundary_def FindBoundaryVerticesPair_def boundary_of_def list_ex_iff)
  have "pq_look (InitializeSingleGainBucket rf hg boundary st k (Clear new)) v = Some (cell_for rf hg st v k)"
    using mem assms(7,8,9)
    by (subst Initialize_look) (auto simp: new_def boundary_def FindBoundaryVerticesPair_def boundary_facts pq_new_ok Clear_ok)
  moreover have "InitializeGainBucketsPM rf hg boundary st (a, b) (clear_pair (a, b) (replicate n new)) ! k
      = InitializeSingleGainBucket rf hg boundary st k (Clear new)"
    using assms(6,9-11) by (auto simp: InitializeGainBucketsPM_def clear_pair_def nth_list_update)
  ultimately show ?thesis by (simp add: cell_for_def)
qed

text \<open>Three vertices in three blocks on one hyperedge, and the pair of the first two blocks.\<close>

definition tri :: "int hgraph" where
  "tri = Hypergraph_plain 1 1 0 [[0, 1, 2]] [[1], [1], [1]] [[1]] [] [] []"

definition tri_state :: "int rstate" where
  "tri_state = \<lparr>rs_visited = [False, False, False], rs_solution = [0, 1, 2], rs_paths = [], rs_balance = [[1], [1], [1]],
     rs_degs = [[1, 1, 1]]\<rparr>"

lemma tri_facts: "hg_num_vertices tri = 3" "Edges tri 2 = [0]" "rs_solution tri_state = [0, 1, 2]"
    "\<not> rs_visited tri_state ! 2" "rs_degs tri_state ! 0 ! 0 = 1" "rs_degs tri_state ! 0 ! 1 = 1"
  by code_simp+

theorem pair_takes_third_block_witness:
  "pq_look (InitializeGainBucketsPM ring4_refiner tri
        (FindBoundaryVerticesPair tri (rs_degs tri_state) (rs_visited tri_state) (rs_solution tri_state) (0, 1))
        tri_state (0, 1) (clear_pair (0, 1) (replicate 3 (pq_new (hg_num_vertices tri) 25 (hg_vertex_weights tri)))) ! 0) 2
   = Some (CalculateVertexGain ring4_refiner 2 (rs_solution tri_state ! 2) 0 tri (rs_solution tri_state) (rs_paths tri_state)
        (rs_degs tri_state))"
  by (rule pair_takes_third_block [where e = 0]) (simp_all only: tri_facts, simp_all)

end
