(* ===== verification/MplMacro.thy ===== *)
theory MplMacro imports OdbTypes Complex_Main begin

text \<open>
  \<open>src/mpl/src/object.h\<close> and \<open>object.cpp\<close>: what the annealing of the macro placer works on, rectangles
  in microns, the clusters as far as the annealing reads them, and hard macros.
\<close>

section \<open>Rectangles\<close>

record 'f mrect =
  mr_lx :: 'f
  mr_ly :: 'f
  mr_ux :: 'f
  mr_uy :: 'f

definition mr_getWidth :: "'f::linordered_field mrect \<Rightarrow> 'f" where
  "mr_getWidth r = mr_ux r - mr_lx r"

definition mr_getHeight :: "'f::linordered_field mrect \<Rightarrow> 'f" where
  "mr_getHeight r = mr_uy r - mr_ly r"

definition mr_getPerimeter :: "'f::linordered_field mrect \<Rightarrow> 'f" where
  "mr_getPerimeter r = 2 * mr_getWidth r + 2 * mr_getHeight r"

definition mr_getArea :: "'f::linordered_field mrect \<Rightarrow> 'f" where
  "mr_getArea r = mr_getWidth r * mr_getHeight r"

definition moveHor :: "'f::linordered_field \<Rightarrow> 'f mrect \<Rightarrow> 'f mrect" where
  "moveHor d r = r\<lparr>mr_lx := mr_lx r + d, mr_ux := mr_ux r + d\<rparr>"

definition moveVer :: "'f::linordered_field \<Rightarrow> 'f mrect \<Rightarrow> 'f mrect" where
  "moveVer d r = r\<lparr>mr_ly := mr_ly r + d, mr_uy := mr_uy r + d\<rparr>"

definition mr_isValid :: "'f::linordered_field mrect \<Rightarrow> bool" where
  "mr_isValid r \<longleftrightarrow> mr_lx r < mr_ux r \<and> mr_ly r < mr_uy r"

definition relocate :: "'f::linordered_field \<Rightarrow> 'f \<Rightarrow> 'f \<Rightarrow> 'f \<Rightarrow> 'f mrect \<Rightarrow> 'f mrect" where
  "relocate outline_lx outline_ly outline_ux outline_uy r =
    (if \<not> mr_isValid r then r
     else \<lparr>mr_lx = max (mr_lx r) outline_lx - outline_lx, mr_ly = max (mr_ly r) outline_ly - outline_ly,
           mr_ux = min (mr_ux r) outline_ux - outline_lx, mr_uy = min (mr_uy r) outline_uy - outline_ly\<rparr>)"

section \<open>Clusters\<close>

datatype Boundary = Bd_NONE | Bd_B | Bd_L | Bd_T | Bd_R

datatype ClusterType = StdCellCluster | HardMacroCluster | MixedCluster

text \<open>The fields of a cluster that are read while macros are hard_moved.\<close>

record 'f cluster =
  cl_type :: ClusterType
  cl_unplaced_ios :: bool
  cl_io_pad :: bool
  cl_boundary :: Boundary
  cl_num_macro :: nat
  cl_macro_area :: 'f
  cl_area :: 'f

definition isIOCluster :: "'f cluster \<Rightarrow> bool" where
  "isIOCluster c \<longleftrightarrow> cl_unplaced_ios c \<or> cl_io_pad c"

section \<open>Hard macros\<close>

definition flipX :: "dbOrientType \<Rightarrow> dbOrientType" where
  "flipX o' = (case o' of
      OrientType_R0 \<Rightarrow> OrientType_MX | OrientType_R90 \<Rightarrow> OrientType_MYR90
    | OrientType_R180 \<Rightarrow> OrientType_MY | OrientType_R270 \<Rightarrow> OrientType_MXR90
    | OrientType_MY \<Rightarrow> OrientType_R180 | OrientType_MYR90 \<Rightarrow> OrientType_R90
    | OrientType_MX \<Rightarrow> OrientType_R0 | OrientType_MXR90 \<Rightarrow> OrientType_R270)"

definition flipY :: "dbOrientType \<Rightarrow> dbOrientType" where
  "flipY o' = (case o' of
      OrientType_R0 \<Rightarrow> OrientType_MY | OrientType_R90 \<Rightarrow> OrientType_MXR90
    | OrientType_R180 \<Rightarrow> OrientType_MX | OrientType_R270 \<Rightarrow> OrientType_MYR90
    | OrientType_MY \<Rightarrow> OrientType_R0 | OrientType_MYR90 \<Rightarrow> OrientType_R270
    | OrientType_MX \<Rightarrow> OrientType_R180 | OrientType_MXR90 \<Rightarrow> OrientType_R90)"

text \<open>Positions and sizes include the halo.  A macro without area does not move.\<close>

record 'f hard_macro =
  hm_x :: 'f
  hm_y :: 'f
  hm_halo_width :: 'f
  hm_halo_height :: 'f
  hm_width :: 'f
  hm_height :: 'f
  hm_orientation :: dbOrientType
  hm_pin_x :: 'f
  hm_pin_y :: 'f
  hm_cluster :: "'f cluster option"

definition HardMacro_terminal :: "'f::linordered_field \<times> 'f \<Rightarrow> 'f \<Rightarrow> 'f \<Rightarrow> 'f cluster option \<Rightarrow> 'f hard_macro" where
  "HardMacro_terminal location width height cluster =
    \<lparr>hm_x = fst location, hm_y = snd location, hm_halo_width = 0, hm_halo_height = 0, hm_width = width, hm_height = height,
     hm_orientation = OrientType_R0, hm_pin_x = 0, hm_pin_y = 0, hm_cluster = cluster\<rparr>"

definition HardMacro_size :: "'f::linordered_field \<Rightarrow> 'f \<Rightarrow> 'f hard_macro" where
  "HardMacro_size width height =
    \<lparr>hm_x = 0, hm_y = 0, hm_halo_width = 0, hm_halo_height = 0, hm_width = width, hm_height = height,
     hm_orientation = OrientType_R0, hm_pin_x = width / 2, hm_pin_y = height / 2, hm_cluster = None\<rparr>"

definition hm_less :: "'f::linordered_field hard_macro \<Rightarrow> 'f hard_macro \<Rightarrow> bool" where
  "hm_less m macro =
    (if hm_width m * hm_height m \<noteq> hm_width macro * hm_height macro
     then hm_width m * hm_height m < hm_width macro * hm_height macro
     else if hm_width m \<noteq> hm_width macro then hm_width m < hm_width macro
     else hm_height m < hm_height macro)"

definition hm_eq :: "'f::linordered_field hard_macro \<Rightarrow> 'f hard_macro \<Rightarrow> bool" where
  "hm_eq m macro \<longleftrightarrow> hm_width m = hm_width macro \<and> hm_height m = hm_height macro"

definition hm_unplaced_ios :: "'f hard_macro \<Rightarrow> bool" where
  "hm_unplaced_ios m = (case hm_cluster m of None \<Rightarrow> False | Some c \<Rightarrow> cl_unplaced_ios c)"

definition hm_getBBox :: "'f::linordered_field hard_macro \<Rightarrow> 'f mrect" where
  "hm_getBBox m = \<lparr>mr_lx = hm_x m, mr_ly = hm_y m, mr_ux = hm_x m + hm_width m, mr_uy = hm_y m + hm_height m\<rparr>"

definition hm_setLocation :: "'f::linordered_field \<times> 'f \<Rightarrow> 'f hard_macro \<Rightarrow> 'f hard_macro" where
  "hm_setLocation location m =
    (if hm_width m * hm_height m \<le> 0 then m else m\<lparr>hm_x := fst location, hm_y := snd location\<rparr>)"

definition hm_setX :: "'f::linordered_field \<Rightarrow> 'f hard_macro \<Rightarrow> 'f hard_macro" where
  "hm_setX x m = (if hm_width m * hm_height m \<le> 0 then m else m\<lparr>hm_x := x\<rparr>)"

definition hm_setY :: "'f::linordered_field \<Rightarrow> 'f hard_macro \<Rightarrow> 'f hard_macro" where
  "hm_setY y m = (if hm_width m * hm_height m \<le> 0 then m else m\<lparr>hm_y := y\<rparr>)"

definition hm_getPinX :: "'f::linordered_field hard_macro \<Rightarrow> 'f" where
  "hm_getPinX m = hm_x m + hm_pin_x m"

definition hm_getPinY :: "'f::linordered_field hard_macro \<Rightarrow> 'f" where
  "hm_getPinY m = hm_y m + hm_pin_y m"

definition setRealLocation :: "'f::linordered_field \<times> 'f \<Rightarrow> 'f hard_macro \<Rightarrow> 'f hard_macro" where
  "setRealLocation location m =
    (if hm_width m * hm_height m \<le> 0 then m
     else m\<lparr>hm_x := fst location - hm_halo_width m, hm_y := snd location - hm_halo_height m\<rparr>)"

definition setRealX :: "'f::linordered_field \<Rightarrow> 'f hard_macro \<Rightarrow> 'f hard_macro" where
  "setRealX x m = (if hm_width m * hm_height m \<le> 0 then m else m\<lparr>hm_x := x - hm_halo_width m\<rparr>)"

definition setRealY :: "'f::linordered_field \<Rightarrow> 'f hard_macro \<Rightarrow> 'f hard_macro" where
  "setRealY y m = (if hm_width m * hm_height m \<le> 0 then m else m\<lparr>hm_y := y - hm_halo_height m\<rparr>)"

definition getRealLocation :: "'f::linordered_field hard_macro \<Rightarrow> 'f \<times> 'f" where
  "getRealLocation m = (hm_x m + hm_halo_width m, hm_y m + hm_halo_height m)"

definition getRealWidth :: "'f::linordered_field hard_macro \<Rightarrow> 'f" where
  "getRealWidth m = hm_width m - 2 * hm_halo_width m"

definition getRealHeight :: "'f::linordered_field hard_macro \<Rightarrow> 'f" where
  "getRealHeight m = hm_height m - 2 * hm_halo_height m"

definition hm_flip :: "bool \<Rightarrow> 'f::linordered_field hard_macro \<Rightarrow> 'f hard_macro" where
  "hm_flip flip_horizontal m =
    (if flip_horizontal then m\<lparr>hm_orientation := flipX (hm_orientation m), hm_pin_y := hm_height m - hm_pin_y m\<rparr>
     else m\<lparr>hm_orientation := flipY (hm_orientation m), hm_pin_x := hm_width m - hm_pin_x m\<rparr>)"

text \<open>Flipping twice is no change; the real location is the one that was set.\<close>

lemma flip_twice [simp]: "flipX (flipX d) = d" "flipY (flipY d) = d"
  by (cases d; simp add: flipX_def flipY_def)+

lemma hm_flip_twice: "hm_flip h (hm_flip h m) = m"
  by (simp add: hm_flip_def)

lemma hm_flip_keeps [simp]:
  "hm_x (hm_flip h m) = hm_x m" "hm_y (hm_flip h m) = hm_y m" "hm_width (hm_flip h m) = hm_width m"
  "hm_height (hm_flip h m) = hm_height m" "hm_cluster (hm_flip h m) = hm_cluster m"
  by (simp_all add: hm_flip_def)

lemma real_location: "0 < hm_width m * hm_height m \<Longrightarrow> getRealLocation (setRealLocation p m) = p"
  by (simp add: getRealLocation_def setRealLocation_def)

end
