(* ===== verification/MplPack.thy ===== *)
theory MplPack imports MplMacro begin

text \<open>
  The packing of macros from a sequence pair (\<open>packFloorplan\<close> of
  \<open>src/mpl/src/SimulatedAnnealingCore.cpp\<close>).  A sequence pair orders the macros twice: a macro that
  comes before another in both sequences is to its left, one that comes later in the first sequence
  and earlier in the second is below it.
\<close>

section \<open>The packing\<close>

text \<open>
  The class \<open>SimulatedAnnealingCore\<close> is a template over the kind of macro.  What it calls of a macro is
  collected here.
\<close>

record ('m, 'f) macro_class =
  mc_x :: "'m \<Rightarrow> 'f"
  mc_y :: "'m \<Rightarrow> 'f"
  mc_width :: "'m \<Rightarrow> 'f"
  mc_height :: "'m \<Rightarrow> 'f"
  mc_setX :: "'f \<Rightarrow> 'm \<Rightarrow> 'm"
  mc_setY :: "'f \<Rightarrow> 'm \<Rightarrow> 'm"
  mc_pin_x :: "'m \<Rightarrow> 'f"
  mc_pin_y :: "'m \<Rightarrow> 'f"
  mc_cluster :: "'m \<Rightarrow> 'f cluster option"
  mc_unplaced_ios :: "'m \<Rightarrow> bool"

definition hard_class :: "('f::linordered_field hard_macro, 'f) macro_class" where
  "hard_class = \<lparr>mc_x = hm_x, mc_y = hm_y, mc_width = hm_width, mc_height = hm_height, mc_setX = hm_setX, mc_setY = hm_setY,
     mc_pin_x = hm_getPinX, mc_pin_y = hm_getPinY, mc_cluster = hm_cluster,
     mc_unplaced_ios = hm_unplaced_ios\<rparr>"

text \<open>The lengths from the place of the macro on are raised until one is long enough.\<close>

fun raise_lengths :: "'f::linorder \<Rightarrow> 'f list \<Rightarrow> 'f list" where
  "raise_lengths current_length [] = []"
| "raise_lengths current_length (a # accumulated) =
    (if current_length > a then current_length # raise_lengths current_length accumulated else a # accumulated)"

text \<open>Where each macro is in the second sequence (\<open>sequence_pair_pos\<close>; its first half is not read).\<close>

definition neg_positions :: "nat list \<Rightarrow> nat list" where
  "neg_positions neg_seq = fold (\<lambda>i p. p[neg_seq ! i := i]) [0..<length neg_seq] (replicate (length neg_seq) 0)"

text \<open>One direction: the macros in the given order, with the position, its setter and the length.\<close>

definition pack_step ::
    "('m \<Rightarrow> 'f::{linorder,plus}) \<Rightarrow> ('f \<Rightarrow> 'm \<Rightarrow> 'm) \<Rightarrow> ('m \<Rightarrow> 'f) \<Rightarrow> nat list \<Rightarrow> nat \<Rightarrow> 'm list \<times> 'f list \<Rightarrow> 'm list \<times> 'f list" where
  "pack_step get move len neg_pos macro_id state =
    (let (macros, accumulated) = state;
         neg_seq_pos = neg_pos ! macro_id;
         macros' = macros[macro_id := move (accumulated ! neg_seq_pos) (macros ! macro_id)];
         current_length = get (macros' ! macro_id) + len (macros' ! macro_id)
     in (macros', take neg_seq_pos accumulated @ raise_lengths current_length (drop neg_seq_pos accumulated)))"

definition pack_direction ::
    "('m \<Rightarrow> 'f::{linorder,plus,zero}) \<Rightarrow> ('f \<Rightarrow> 'm \<Rightarrow> 'm) \<Rightarrow> ('m \<Rightarrow> 'f) \<Rightarrow> nat list \<Rightarrow> nat list \<Rightarrow> 'm list \<Rightarrow> 'm list \<times> 'f" where
  "pack_direction get move len neg_pos order macros =
    (let (macros', accumulated) =
       fold (pack_step get move len neg_pos) order (macros, replicate (length order) 0)
     in (macros', accumulated ! (length order - 1)))"

definition pack_pair ::
    "('m, 'f::linordered_field) macro_class \<Rightarrow> nat list \<Rightarrow> nat list \<Rightarrow> 'm list \<Rightarrow> 'm list \<times> 'f \<times> 'f" where
  "pack_pair mc pos_seq neg_seq macros =
    (let ms0 = fold (\<lambda>macro_id ms. ms[macro_id := mc_setY mc 0 (mc_setX mc 0 (ms ! macro_id))]) pos_seq macros;
         neg_pos = neg_positions neg_seq;
         (ms1, width) = pack_direction (mc_x mc) (mc_setX mc) (mc_width mc) neg_pos pos_seq ms0;
         (ms2, height) = pack_direction (mc_y mc) (mc_setY mc) (mc_height mc) neg_pos (rev pos_seq) ms1
     in (ms2, width, height))"

section \<open>The accumulated lengths\<close>

lemma raise_lengths_length [simp]: "length (raise_lengths c as) = length as"
  by (induction as) auto

lemma raise_lengths_nth: "sorted as \<Longrightarrow> j < length as \<Longrightarrow> raise_lengths c as ! j = max (as ! j) c"
proof (induction as arbitrary: j)
  case (Cons a as)
  have "\<forall>x \<in> set as. a \<le> x" using Cons.prems(1) by simp
  then show ?case
    using Cons by (cases j) (auto simp: max_def dest!: nth_mem intro: order_trans)
qed simp

lemma raise_from_nth:
  assumes "sorted acc" "p \<le> length acc" "j < length acc"
  shows "(take p acc @ raise_lengths c (drop p acc)) ! j = (if j < p then acc ! j else max (acc ! j) c)"
proof (cases "j < p")
  case False
  have "sorted (drop p acc)" using assms(1) by (simp add: sorted_wrt_drop)
  then show ?thesis using assms False raise_lengths_nth [of "drop p acc" "j - p" c] by (simp add: nth_append)
qed (use assms in \<open>simp add: nth_append\<close>)

lemma raise_from_sorted:
  assumes "sorted acc" "p < length acc" "acc ! p \<le> c"
  shows "sorted (take p acc @ raise_lengths c (drop p acc))"
proof -
  have mono: "acc ! i \<le> acc ! j" if "i \<le> j" "j < length acc" for i j
    using assms(1) that by (rule sorted_nth_mono)
  have "acc ! i \<le> c" if "i \<le> p" for i using mono [OF that assms(2)] assms(3) by simp
  then show ?thesis
    using assms mono by (auto simp: sorted_iff_nth_mono raise_from_nth max_def intro: order_trans)
qed

lemma neg_positions_nth:
  assumes "distinct neg" "set neg = {0..<length neg}" "i < length neg"
  shows "neg_positions neg ! (neg ! i) = i" "length (neg_positions neg) = length neg"
proof -
  have "length (fold (\<lambda>i p. p[neg ! i := i]) [0..<k] (replicate (length neg) 0)) = length neg
      \<and> (\<forall>i < k. fold (\<lambda>i p. p[neg ! i := i]) [0..<k] (replicate (length neg) 0) ! (neg ! i) = i)"
    if "k \<le> length neg" for k
    using that
  proof (induction k)
    case (Suc k)
    have "neg ! k < length neg" using assms(2) Suc.prems nth_mem [of k neg] by auto
    moreover have "neg ! k \<noteq> neg ! i" if "i < k" for i
      using assms(1) Suc.prems that by (simp add: nth_eq_iff_index_eq)
    ultimately show ?case using Suc by (auto simp: less_Suc_eq nth_list_update)
  qed simp
  from this [of "length neg"] assms(3) show "neg_positions neg ! (neg ! i) = i" "length (neg_positions neg) = length neg"
    by (auto simp: neg_positions_def)
qed

section \<open>Orders\<close>

definition precedes :: "nat list \<Rightarrow> nat \<Rightarrow> nat \<Rightarrow> bool" where
  "precedes xs a b \<longleftrightarrow> (\<exists>i j. i < j \<and> j < length xs \<and> xs ! i = a \<and> xs ! j = b)"

lemma precedes_Nil [simp]: "\<not> precedes [] a b"
  by (simp add: precedes_def)

lemma precedes_append [simp]: "precedes (xs @ [x]) a b \<longleftrightarrow> precedes xs a b \<or> a \<in> set xs \<and> b = x"
proof
  assume "precedes (xs @ [x]) a b"
  then obtain i j where ij: "i < j" "j \<le> length xs" "(xs @ [x]) ! i = a" "(xs @ [x]) ! j = b" by (auto simp: precedes_def)
  show "precedes xs a b \<or> a \<in> set xs \<and> b = x"
  proof (cases "j = length xs")
    case True
    then show ?thesis using ij by (auto simp: nth_append)
  next
    case False
    then have "j < length xs" "xs ! i = a" "xs ! j = b" using ij by (auto simp: nth_append)
    then show ?thesis using ij(1) unfolding precedes_def by blast
  qed
next
  assume "precedes xs a b \<or> a \<in> set xs \<and> b = x"
  then show "precedes (xs @ [x]) a b"
  proof (elim disjE conjE)
    assume "precedes xs a b"
    then obtain i j where "i < j" "j < length xs" "xs ! i = a" "xs ! j = b" by (auto simp: precedes_def)
    then show ?thesis unfolding precedes_def by (intro exI [of _ i] exI [of _ j]) (simp add: nth_append)
  next
    assume "a \<in> set xs" "b = x"
    then obtain i where "i < length xs" "xs ! i = a" by (auto simp: in_set_conv_nth)
    then show ?thesis using \<open>b = x\<close> unfolding precedes_def
      by (intro exI [of _ i] exI [of _ "length xs"]) (simp add: nth_append)
  qed
qed

lemma precedes_mem: "precedes xs a b \<Longrightarrow> a \<in> set xs \<and> b \<in> set xs"
  by (auto simp: precedes_def)

lemma precedes_rev: "precedes (rev xs) a b \<longleftrightarrow> precedes xs b a"
proof -
  have "precedes (rev xs) a b \<Longrightarrow> precedes xs b a" for xs a b
  proof -
    assume "precedes (rev xs) a b"
    then obtain i j where "i < j" "j < length xs" "rev xs ! i = a" "rev xs ! j = b" by (auto simp: precedes_def)
    then show "precedes xs b a" unfolding precedes_def
      by (intro exI [of _ "length xs - 1 - j"] exI [of _ "length xs - 1 - i"]) (auto simp: rev_nth)
  qed
  from this [of xs a b] this [of "rev xs" b a] show ?thesis by auto
qed

lemma precedes_total: "a \<in> set xs \<Longrightarrow> b \<in> set xs \<Longrightarrow> a \<noteq> b \<Longrightarrow> precedes xs a b \<or> precedes xs b a"
  by (auto simp: precedes_def in_set_conv_nth) (metis linorder_neqE_nat)

text \<open>A sequence pair of \<open>n\<close> macros.\<close>

definition seq_pair :: "nat list \<Rightarrow> nat list \<Rightarrow> bool" where
  "seq_pair pos neg \<longleftrightarrow> distinct pos \<and> distinct neg \<and> set pos = {0..<length pos} \<and> set neg = {0..<length pos}"

lemma seq_pair_length: "seq_pair pos neg \<Longrightarrow> length neg = length pos"
  unfolding seq_pair_def by (metis distinct_card card_atLeastLessThan diff_zero)

lemma neg_positions_order:
  assumes "seq_pair pos neg" "a < length pos" "b < length pos"
  shows "neg_positions neg ! a < length pos" "neg_positions neg ! a < neg_positions neg ! b \<longleftrightarrow> precedes neg a b"
proof -
  have len: "length neg = length pos" by (rule seq_pair_length [OF assms(1)])
  then have N: "distinct neg" "set neg = {0..<length neg}" using assms(1) by (simp_all add: seq_pair_def)
  obtain i j where ij: "i < length neg" "neg ! i = a" "j < length neg" "neg ! j = b"
    using N(2) assms(2,3) len by (metis atLeastLessThan_iff in_set_conv_nth zero_le)
  have P: "neg_positions neg ! a = i" "neg_positions neg ! b = j" using neg_positions_nth [OF N] ij by auto
  have "i < j \<longleftrightarrow> precedes neg a b"
    unfolding precedes_def using ij N(1) by (metis nth_eq_iff_index_eq less_trans)
  then show "neg_positions neg ! a < length pos" "neg_positions neg ! a < neg_positions neg ! b \<longleftrightarrow> precedes neg a b"
    using P ij(1) len by simp_all
qed

section \<open>One direction\<close>

text \<open>
  The accumulated lengths: at each place the end of the longest row of macros placed so far that are at
  this place or before it.
\<close>

definition frontier :: "('m \<Rightarrow> 'f::linordered_field) \<Rightarrow> ('m \<Rightarrow> 'f) \<Rightarrow> nat list \<Rightarrow> nat set \<Rightarrow> 'm list \<Rightarrow> 'f list \<Rightarrow> bool" where
  "frontier get len neg_pos S ms acc \<longleftrightarrow> sorted acc
    \<and> (\<forall>j < length acc. 0 \<le> acc ! j
         \<and> (\<forall>a \<in> S. neg_pos ! a \<le> j \<longrightarrow> get (ms ! a) + len (ms ! a) \<le> acc ! j)
         \<and> (acc ! j = 0 \<or> (\<exists>a \<in> S. neg_pos ! a \<le> j \<and> acc ! j = get (ms ! a) + len (ms ! a))))"

locale axis =
  fixes get len :: "'m \<Rightarrow> 'f::linordered_field" and move :: "'f \<Rightarrow> 'm \<Rightarrow> 'm" and movable :: "'m \<Rightarrow> bool"
  assumes get_move: "movable m \<Longrightarrow> get (move c m) = c"
    and len_move: "movable m \<Longrightarrow> len (move c m) = len m"
    and len_nonneg: "movable m \<Longrightarrow> 0 \<le> len m"
begin

lemma step_frontier:
  assumes fr: "frontier get len neg_pos S ms acc" and v: "v \<notin> S" "v < length ms" "movable (ms ! v)"
    and p: "neg_pos ! v < length acc"
    and st: "pack_step get move len neg_pos v (ms, acc) = (ms', acc')"
  shows "frontier get len neg_pos (insert v S) ms' acc'" "length acc' = length acc"
    "ms' = ms[v := move (acc ! (neg_pos ! v)) (ms ! v)]" "get (ms' ! v) = acc ! (neg_pos ! v)" "len (ms' ! v) = len (ms ! v)"
proof -
  let ?p = "neg_pos ! v"
  let ?c = "acc ! ?p + len (ms ! v)"
  show ms': "ms' = ms[v := move (acc ! ?p) (ms ! v)]" using st by (auto simp: pack_step_def Let_def)
  show g: "get (ms' ! v) = acc ! ?p" and l: "len (ms' ! v) = len (ms ! v)"
    using v by (simp_all add: ms' get_move len_move)
  have acc': "acc' = take ?p acc @ raise_lengths ?c (drop ?p acc)"
    using st v by (auto simp: pack_step_def Let_def get_move len_move)
  show L: "length acc' = length acc" using p by (simp add: acc')
  have le: "acc ! ?p \<le> ?c" using len_nonneg [OF v(3)] by simp
  have so: "sorted acc" using fr by (simp add: frontier_def)
  have nth: "acc' ! j = (if j < ?p then acc ! j else max (acc ! j) ?c)" if "j < length acc" for j
    using raise_from_nth [OF so _ that, of ?p ?c] p by (simp add: acc')
  have so': "sorted acc'" using raise_from_sorted [OF so p le] by (simp add: acc')
  have same: "ms' ! a = ms ! a" if "a \<in> S" for a
    using that v(1) by (cases "a = v") (simp_all add: ms')
  have "0 \<le> acc' ! j \<and> (\<forall>a \<in> insert v S. neg_pos ! a \<le> j \<longrightarrow> get (ms' ! a) + len (ms' ! a) \<le> acc' ! j)
      \<and> (acc' ! j = 0 \<or> (\<exists>a \<in> insert v S. neg_pos ! a \<le> j \<and> acc' ! j = get (ms' ! a) + len (ms' ! a)))"
    if j: "j < length acc'" for j
  proof -
    have F: "0 \<le> acc ! j" "\<forall>a \<in> S. neg_pos ! a \<le> j \<longrightarrow> get (ms ! a) + len (ms ! a) \<le> acc ! j"
        "acc ! j = 0 \<or> (\<exists>a \<in> S. neg_pos ! a \<le> j \<and> acc ! j = get (ms ! a) + len (ms ! a))"
      using fr j L by (auto simp: frontier_def)
    have N: "acc' ! j = (if j < ?p then acc ! j else max (acc ! j) ?c)" using nth j L by simp
    have G: "acc ! j \<le> acc' ! j" by (simp add: N)
    have "\<forall>a \<in> insert v S. neg_pos ! a \<le> j \<longrightarrow> get (ms' ! a) + len (ms' ! a) \<le> acc' ! j"
      using F(2) G same by (auto simp: g l N intro: order_trans)
    moreover have "acc' ! j = 0 \<or> (\<exists>a \<in> insert v S. neg_pos ! a \<le> j \<and> acc' ! j = get (ms' ! a) + len (ms' ! a))"
    proof (cases "acc' ! j = acc ! j")
      case True
      then show ?thesis using F(3) same by auto
    next
      case False
      then have "?p \<le> j" "acc' ! j = ?c" by (auto simp: N max_def split: if_splits)
      then show ?thesis by (auto simp: g l)
    qed
    ultimately show ?thesis using F(1) G by auto
  qed
  then show "frontier get len neg_pos (insert v S) ms' acc'" using so' by (simp add: frontier_def)
qed

text \<open>What the positions are after the macros of \<open>xs\<close> have been placed.\<close>

lemma pack_fold:
  assumes "distinct xs" "\<forall>a \<in> set xs. a < length ms \<and> movable (ms ! a) \<and> neg_pos ! a < n"
    and F: "fold (pack_step get move len neg_pos) xs (ms, replicate n 0) = (ms', acc')"
  shows "frontier get len neg_pos (set xs) ms' acc' \<and> length acc' = n \<and> length ms' = length ms
    \<and> (\<forall>a. a \<notin> set xs \<longrightarrow> ms' ! a = ms ! a)
    \<and> (\<forall>a \<in> set xs. ms' ! a = move (get (ms' ! a)) (ms ! a) \<and> 0 \<le> get (ms' ! a))
    \<and> (\<forall>a b. precedes xs a b \<and> neg_pos ! a \<le> neg_pos ! b \<longrightarrow> get (ms' ! a) + len (ms ! a) \<le> get (ms' ! b))
    \<and> (\<forall>Y. (\<forall>a \<in> set xs. 0 \<le> Y a)
          \<and> (\<forall>a b. precedes xs a b \<and> neg_pos ! a \<le> neg_pos ! b \<longrightarrow> Y a + len (ms ! a) \<le> Y b)
        \<longrightarrow> (\<forall>a \<in> set xs. get (ms' ! a) \<le> Y a))"
  using assms
proof (induction xs arbitrary: ms' acc' rule: rev_induct)
  case Nil
  then show ?case by (auto simp: frontier_def)
next
  case (snoc v xs)
  obtain ms1 acc1 where F1: "fold (pack_step get move len neg_pos) xs (ms, replicate n 0) = (ms1, acc1)"
    by (cases "fold (pack_step get move len neg_pos) xs (ms, replicate n 0)")
  have IH: "frontier get len neg_pos (set xs) ms1 acc1" "length acc1 = n" "length ms1 = length ms"
      "\<forall>a. a \<notin> set xs \<longrightarrow> ms1 ! a = ms ! a"
      "\<forall>a \<in> set xs. ms1 ! a = move (get (ms1 ! a)) (ms ! a) \<and> 0 \<le> get (ms1 ! a)"
      "\<forall>a b. precedes xs a b \<and> neg_pos ! a \<le> neg_pos ! b \<longrightarrow> get (ms1 ! a) + len (ms ! a) \<le> get (ms1 ! b)"
      "\<forall>Y. (\<forall>a \<in> set xs. 0 \<le> Y a)
          \<and> (\<forall>a b. precedes xs a b \<and> neg_pos ! a \<le> neg_pos ! b \<longrightarrow> Y a + len (ms ! a) \<le> Y b)
        \<longrightarrow> (\<forall>a \<in> set xs. get (ms1 ! a) \<le> Y a)"
    using snoc.IH [OF _ _ F1] snoc.prems(1,2) by auto
  have v: "v \<notin> set xs" "v < length ms1" "movable (ms1 ! v)" "neg_pos ! v < length acc1" "ms1 ! v = ms ! v"
    using snoc.prems(1,2) IH(2-4) by auto
  have st: "pack_step get move len neg_pos v (ms1, acc1) = (ms', acc')" using snoc.prems(3) F1 by simp
  note S = step_frontier [OF IH(1) v(1-4) st]
  have same: "ms' ! a = ms1 ! a" if "a \<noteq> v" for a using that by (simp add: S(3))
  have xs: "a \<noteq> v" if "a \<in> set xs" for a using that v(1) by auto
  have lens: "len (ms1 ! a) = len (ms ! a)" if "a \<in> set xs" for a
    using IH(5) that snoc.prems(2) len_move by (metis Un_iff set_append)
  have fr1: "\<forall>j < n. 0 \<le> acc1 ! j \<and> (\<forall>a \<in> set xs. neg_pos ! a \<le> j \<longrightarrow> get (ms1 ! a) + len (ms1 ! a) \<le> acc1 ! j)
         \<and> (acc1 ! j = 0 \<or> (\<exists>a \<in> set xs. neg_pos ! a \<le> j \<and> acc1 ! j = get (ms1 ! a) + len (ms1 ! a)))"
    using IH(1,2) by (simp add: frontier_def)
  have p: "neg_pos ! v < n" using v(4) IH(2) by simp
  have rows: "get (ms' ! a) + len (ms ! a) \<le> get (ms' ! b)"
    if "precedes (xs @ [v]) a b" "neg_pos ! a \<le> neg_pos ! b" for a b
    using that(1) unfolding precedes_append
  proof (elim disjE conjE)
    assume "precedes xs a b"
    then show ?thesis using IH(6) that(2) precedes_mem [of xs a b] xs same by metis
  next
    assume "a \<in> set xs" "b = v"
    then have "get (ms1 ! a) + len (ms1 ! a) \<le> acc1 ! (neg_pos ! v)" using fr1 p that(2) by blast
    then show ?thesis using \<open>a \<in> set xs\<close> \<open>b = v\<close> lens same xs by (simp add: S(4))
  qed
  have least: "\<forall>a \<in> set (xs @ [v]). get (ms' ! a) \<le> Y a"
    if Y: "\<forall>a \<in> set (xs @ [v]). 0 \<le> Y a"
        "\<forall>a b. precedes (xs @ [v]) a b \<and> neg_pos ! a \<le> neg_pos ! b \<longrightarrow> Y a + len (ms ! a) \<le> Y b" for Y
  proof -
    have old: "\<forall>a \<in> set xs. get (ms1 ! a) \<le> Y a" using IH(7) Y by auto
    have "acc1 ! (neg_pos ! v) \<le> Y v"
    proof -
      consider "acc1 ! (neg_pos ! v) = 0"
        | a where "a \<in> set xs" "neg_pos ! a \<le> neg_pos ! v" "acc1 ! (neg_pos ! v) = get (ms1 ! a) + len (ms1 ! a)"
        using fr1 p by blast
      then show ?thesis
      proof cases
        case (2 a)
        then have "Y a + len (ms ! a) \<le> Y v" using Y(2) by simp
        moreover have "get (ms1 ! a) + len (ms1 ! a) \<le> Y a + len (ms ! a)" using old lens 2(1) by simp
        ultimately show ?thesis using 2(3) by simp
      qed (use Y(1) in simp)
    qed
    then show ?thesis using old same xs S(4) by auto
  qed
  have "ms' ! v = move (get (ms' ! v)) (ms ! v)" using v(2,5) by (simp add: S(3) get_move v(3) [unfolded v(5)])
  moreover have "0 \<le> get (ms' ! v)" using fr1 p by (simp add: S(4))
  moreover have "\<forall>a. a \<notin> set (xs @ [v]) \<longrightarrow> ms' ! a = ms ! a" using IH(4) same by auto
  moreover have "\<forall>a \<in> set xs. ms' ! a = move (get (ms' ! a)) (ms ! a) \<and> 0 \<le> get (ms' ! a)" using IH(5) same xs by metis
  moreover have "length ms' = length ms" "length acc' = n" using S(2,3) IH(2,3) by simp_all
  ultimately show ?case using S(1) rows least by auto
qed

end

section \<open>Both directions\<close>

text \<open>
  A kind of macros can be packed when the macros that are packed keep the positions that are set and
  setting one coordinate changes nothing else of what is read.
\<close>

locale placeable =
  fixes mc :: "('m, 'f::linordered_field) macro_class" and movable :: "'m \<Rightarrow> bool"
  assumes setX: "movable m \<Longrightarrow> mc_x mc (mc_setX mc c m) = c \<and> mc_y mc (mc_setX mc c m) = mc_y mc m
      \<and> mc_width mc (mc_setX mc c m) = mc_width mc m \<and> mc_height mc (mc_setX mc c m) = mc_height mc m
      \<and> movable (mc_setX mc c m)"
    and setY: "movable m \<Longrightarrow> mc_y mc (mc_setY mc c m) = c \<and> mc_x mc (mc_setY mc c m) = mc_x mc m
      \<and> mc_width mc (mc_setY mc c m) = mc_width mc m \<and> mc_height mc (mc_setY mc c m) = mc_height mc m
      \<and> movable (mc_setY mc c m)"
    and sizes: "movable m \<Longrightarrow> 0 \<le> mc_width mc m \<and> 0 \<le> mc_height mc m"

sublocale placeable \<subseteq> xs: axis "mc_x mc" "mc_width mc" "mc_setX mc" movable
  by unfold_locales (simp_all add: setX sizes)

sublocale placeable \<subseteq> ys: axis "mc_y mc" "mc_height mc" "mc_setY mc" movable
  by unfold_locales (simp_all add: setY sizes)

context axis begin

lemma pack_direction_placed:
  assumes n: "order \<noteq> []" "distinct order" "set order = {0..<length order}"
    and ms: "length order \<le> length ms" "\<forall>a < length order. movable (ms ! a) \<and> neg_pos ! a < length order"
    and P: "pack_direction get move len neg_pos order ms = (ms', extent)"
  shows "length ms' = length ms" "\<forall>a \<ge> length order. ms' ! a = ms ! a"
    "\<forall>a < length order. ms' ! a = move (get (ms' ! a)) (ms ! a) \<and> 0 \<le> get (ms' ! a) \<and> get (ms' ! a) + len (ms ! a) \<le> extent"
    "\<forall>a b. precedes order a b \<and> neg_pos ! a \<le> neg_pos ! b \<longrightarrow> get (ms' ! a) + len (ms ! a) \<le> get (ms' ! b)"
    "\<And>Y bound. \<forall>a < length order. 0 \<le> Y a \<and> Y a + len (ms ! a) \<le> bound \<Longrightarrow>
      \<forall>a b. precedes order a b \<and> neg_pos ! a \<le> neg_pos ! b \<longrightarrow> Y a + len (ms ! a) \<le> Y b \<Longrightarrow>
      (\<forall>a < length order. get (ms' ! a) \<le> Y a) \<and> extent \<le> bound"
proof -
  let ?n = "length order"
  obtain acc where F: "fold (pack_step get move len neg_pos) order (ms, replicate ?n 0) = (ms', acc)" and e: "extent = acc ! (?n - 1)"
    using P by (auto simp: pack_direction_def split: prod.splits)
  have pre: "\<forall>a \<in> set order. a < length ms \<and> movable (ms ! a) \<and> neg_pos ! a < ?n" using n(3) ms by auto
  note A = pack_fold [OF n(2) pre F]
  have fr: "frontier get len neg_pos (set order) ms' acc" and la: "length acc = ?n" using A by blast+
  show "length ms' = length ms" "\<forall>a \<ge> ?n. ms' ! a = ms ! a" using A n(3) by auto
  have last: "?n - 1 < ?n" using n(1) by simp
  have same: "len (ms' ! a) = len (ms ! a)" if "a < ?n" for a
    using A that n(3) ms(2) len_move by (metis atLeastLessThan_iff zero_le)
  have ext: "get (ms' ! a) + len (ms ! a) \<le> extent" if "a < ?n" for a
  proof -
    have "neg_pos ! a < ?n" using ms(2) that by blast
    then have "neg_pos ! a \<le> ?n - 1" by simp
    then have "get (ms' ! a) + len (ms' ! a) \<le> acc ! (?n - 1)"
      using fr last la that n(3) by (auto simp: frontier_def)
    then show ?thesis using same [OF that] e by simp
  qed
  show "\<forall>a < ?n. ms' ! a = move (get (ms' ! a)) (ms ! a) \<and> 0 \<le> get (ms' ! a) \<and> get (ms' ! a) + len (ms ! a) \<le> extent"
    using A n(3) ext by auto
  show "\<forall>a b. precedes order a b \<and> neg_pos ! a \<le> neg_pos ! b \<longrightarrow> get (ms' ! a) + len (ms ! a) \<le> get (ms' ! b)"
    using A by blast
  fix Y bound
  assume Y: "\<forall>a < ?n. 0 \<le> Y a \<and> Y a + len (ms ! a) \<le> bound"
    "\<forall>a b. precedes order a b \<and> neg_pos ! a \<le> neg_pos ! b \<longrightarrow> Y a + len (ms ! a) \<le> Y b"
  then have le: "\<forall>a < ?n. get (ms' ! a) \<le> Y a" using A n(3) by simp
  have "0 \<le> bound"
  proof -
    have "0 < ?n" using n(1) by simp
    then show ?thesis using Y(1) len_nonneg ms(2) by (metis add_nonneg_nonneg order_trans)
  qed
  moreover have "acc ! (?n - 1) = 0 \<or> (\<exists>a < ?n. acc ! (?n - 1) = get (ms' ! a) + len (ms ! a))"
  proof -
    have "acc ! (?n - 1) = 0 \<or> (\<exists>a \<in> set order. acc ! (?n - 1) = get (ms' ! a) + len (ms' ! a))"
      using fr last la unfolding frontier_def by metis
    then show ?thesis using same n(3) by (metis atLeastLessThan_iff)
  qed
  moreover have "get (ms' ! a) + len (ms ! a) \<le> bound" if "a < ?n" for a
    using le Y(1) that by (meson add_right_mono order_trans)
  ultimately have "extent \<le> bound" using e by auto
  then show "(\<forall>a < ?n. get (ms' ! a) \<le> Y a) \<and> extent \<le> bound" using le by blast
qed

end

context placeable begin

lemma zeroed:
  assumes "distinct pos" "\<forall>a \<in> set pos. a < length ms \<and> movable (ms ! a)"
  shows "length (fold (\<lambda>a ms. ms[a := mc_setY mc 0 (mc_setX mc 0 (ms ! a))]) pos ms) = length ms
    \<and> (\<forall>a. fold (\<lambda>a ms. ms[a := mc_setY mc 0 (mc_setX mc 0 (ms ! a))]) pos ms ! a
          = (if a \<in> set pos then mc_setY mc 0 (mc_setX mc 0 (ms ! a)) else ms ! a))"
  using assms
proof (induction pos rule: rev_induct)
  case (snoc v pos)
  then show ?case by (auto simp: nth_list_update)
qed simp

text \<open>
  The packing of a sequence pair: every macro of the pair is hard_moved and keeps its size; macros are to
  the left or below as the pair says; they are inside the reported box; and every coordinate and the
  box are the least possible.
\<close>

lemma pack_spec:
  assumes sp: "seq_pair pos neg" "pos \<noteq> []" "length pos \<le> length ms" "\<forall>a < length pos. movable (ms ! a)"
    and P: "pack_pair mc pos neg ms = (ms', w, h)"
  shows "length ms' = length ms" "\<forall>a \<ge> length pos. ms' ! a = ms ! a"
    "\<forall>a < length pos. movable (ms' ! a) \<and> mc_width mc (ms' ! a) = mc_width mc (ms ! a) \<and> mc_height mc (ms' ! a) = mc_height mc (ms ! a)"
    "\<forall>a < length pos. 0 \<le> mc_x mc (ms' ! a) \<and> mc_x mc (ms' ! a) + mc_width mc (ms ! a) \<le> w
        \<and> 0 \<le> mc_y mc (ms' ! a) \<and> mc_y mc (ms' ! a) + mc_height mc (ms ! a) \<le> h"
    "\<forall>a b. precedes pos a b \<and> precedes neg a b \<longrightarrow> mc_x mc (ms' ! a) + mc_width mc (ms ! a) \<le> mc_x mc (ms' ! b)"
    "\<forall>a b. precedes pos b a \<and> precedes neg a b \<longrightarrow> mc_y mc (ms' ! a) + mc_height mc (ms ! a) \<le> mc_y mc (ms' ! b)"
    "\<And>X bound. \<forall>a < length pos. 0 \<le> X a \<and> X a + mc_width mc (ms ! a) \<le> bound \<Longrightarrow>
      \<forall>a b. precedes pos a b \<and> precedes neg a b \<longrightarrow> X a + mc_width mc (ms ! a) \<le> X b \<Longrightarrow>
      (\<forall>a < length pos. mc_x mc (ms' ! a) \<le> X a) \<and> w \<le> bound"
    "\<And>Y bound. \<forall>a < length pos. 0 \<le> Y a \<and> Y a + mc_height mc (ms ! a) \<le> bound \<Longrightarrow>
      \<forall>a b. precedes pos b a \<and> precedes neg a b \<longrightarrow> Y a + mc_height mc (ms ! a) \<le> Y b \<Longrightarrow>
      (\<forall>a < length pos. mc_y mc (ms' ! a) \<le> Y a) \<and> h \<le> bound"
proof -
  let ?n = "length pos" and ?np = "neg_positions neg"
  have pos: "distinct pos" "set pos = {0..<?n}" using sp(1) by (simp_all add: seq_pair_def)
  define ms0 where "ms0 = fold (\<lambda>a ms. ms[a := mc_setY mc 0 (mc_setX mc 0 (ms ! a))]) pos ms"
  obtain ms1 where P1: "pack_direction (mc_x mc) (mc_setX mc) (mc_width mc) ?np pos ms0 = (ms1, w)"
    and P2: "pack_direction (mc_y mc) (mc_setY mc) (mc_height mc) ?np (rev pos) ms1 = (ms', h)"
    using P by (auto simp: pack_pair_def Let_def ms0_def split: prod.splits)
  have Z: "length ms0 = length ms" "\<forall>a. ms0 ! a = (if a < ?n then mc_setY mc 0 (mc_setX mc 0 (ms ! a)) else ms ! a)"
    using zeroed [OF pos(1), of ms] pos(2) sp(3,4) by (auto simp: ms0_def)
  have m0: "movable (ms0 ! a) \<and> mc_width mc (ms0 ! a) = mc_width mc (ms ! a) \<and> mc_height mc (ms0 ! a) = mc_height mc (ms ! a)"
    if "a < ?n" for a
    using Z(2) that sp(4) setX setY by simp
  have np: "?np ! a < ?n" if "a < ?n" for a using neg_positions_order(1) [OF sp(1) that that] .
  have le: "?np ! a \<le> ?np ! b \<longleftrightarrow> precedes neg a b" if "a < ?n" "b < ?n" "a \<noteq> b" for a b
  proof -
    have "a \<in> set neg" "b \<in> set neg" using that(1,2) sp(1) by (simp_all add: seq_pair_def)
    then have "precedes neg a b \<or> precedes neg b a" using precedes_total that(3) by blast
    then have "?np ! a < ?np ! b \<or> ?np ! b < ?np ! a"
      using neg_positions_order(2) [OF sp(1)] that(1,2) by blast
    then have "?np ! a \<le> ?np ! b \<longleftrightarrow> ?np ! a < ?np ! b" by linarith
    then show ?thesis using neg_positions_order(2) [OF sp(1) that(1,2)] by simp
  qed
  have ne: "a \<noteq> b" "a < ?n" "b < ?n" if "precedes pos a b" for a b
    using that pos by (auto simp: precedes_def nth_eq_iff_index_eq dest: nth_mem)
  have rel: "precedes pos a b \<and> ?np ! a \<le> ?np ! b \<longleftrightarrow> precedes pos a b \<and> precedes neg a b" for a b
    using ne [of a b] le [of a b] by blast
  have rel': "precedes (rev pos) a b \<and> ?np ! a \<le> ?np ! b \<longleftrightarrow> precedes pos b a \<and> precedes neg a b" for a b
    unfolding precedes_rev using ne [of b a] le [of a b] by blast
  have n1: "length pos \<le> length ms0" "\<forall>a < ?n. movable (ms0 ! a) \<and> ?np ! a < ?n" using Z(1) sp(3) m0 np by auto
  note X = xs.pack_direction_placed [OF sp(2) pos n1 P1, unfolded rel]
  have m1: "movable (ms1 ! a) \<and> mc_width mc (ms1 ! a) = mc_width mc (ms ! a) \<and> mc_height mc (ms1 ! a) = mc_height mc (ms ! a)"
    if "a < ?n" for a
    using X(3) that m0 setX by metis
  have n2: "length (rev pos) \<le> length ms1" "\<forall>a < length (rev pos). movable (ms1 ! a) \<and> ?np ! a < length (rev pos)"
    using X(1) n1(1) m1 np by auto
  have r: "rev pos \<noteq> []" "distinct (rev pos)" "set (rev pos) = {0..<length (rev pos)}" using sp(2) pos by auto
  note Y = ys.pack_direction_placed [OF r n2 P2, unfolded rel' length_rev]
  have m2: "movable (ms' ! a) \<and> mc_width mc (ms' ! a) = mc_width mc (ms ! a) \<and> mc_height mc (ms' ! a) = mc_height mc (ms ! a)
      \<and> mc_x mc (ms' ! a) = mc_x mc (ms1 ! a)"
    if "a < ?n" for a
    using Y(3) that m1 setY by metis
  show "length ms' = length ms" using X(1) Y(1) Z(1) by simp
  show "\<forall>a \<ge> ?n. ms' ! a = ms ! a" using X(2) Y(2) Z(2) by simp
  show "\<forall>a < ?n. movable (ms' ! a) \<and> mc_width mc (ms' ! a) = mc_width mc (ms ! a) \<and> mc_height mc (ms' ! a) = mc_height mc (ms ! a)"
    using m2 by blast
  show "\<forall>a < ?n. 0 \<le> mc_x mc (ms' ! a) \<and> mc_x mc (ms' ! a) + mc_width mc (ms ! a) \<le> w
        \<and> 0 \<le> mc_y mc (ms' ! a) \<and> mc_y mc (ms' ! a) + mc_height mc (ms ! a) \<le> h"
    using X(3) Y(3) m0 m1 m2 by metis
  show "\<forall>a b. precedes pos a b \<and> precedes neg a b \<longrightarrow> mc_x mc (ms' ! a) + mc_width mc (ms ! a) \<le> mc_x mc (ms' ! b)"
    using X(4) ne m0 m2 by metis
  show "\<forall>a b. precedes pos b a \<and> precedes neg a b \<longrightarrow> mc_y mc (ms' ! a) + mc_height mc (ms ! a) \<le> mc_y mc (ms' ! b)"
    using Y(4) ne m1 by metis
  show "(\<forall>a < ?n. mc_x mc (ms' ! a) \<le> X a) \<and> w \<le> bound"
    if "\<forall>a < ?n. 0 \<le> X a \<and> X a + mc_width mc (ms ! a) \<le> bound"
      "\<forall>a b. precedes pos a b \<and> precedes neg a b \<longrightarrow> X a + mc_width mc (ms ! a) \<le> X b" for X bound
  proof -
    have "\<forall>a b. precedes pos a b \<and> precedes neg a b \<longrightarrow> X a + mc_width mc (ms0 ! a) \<le> X b" using that(2) ne m0 by metis
    then show ?thesis using X(5) [of X bound] that(1) m0 m2 by simp
  qed
  show "(\<forall>a < ?n. mc_y mc (ms' ! a) \<le> Y a) \<and> h \<le> bound"
    if "\<forall>a < ?n. 0 \<le> Y a \<and> Y a + mc_height mc (ms ! a) \<le> bound"
      "\<forall>a b. precedes pos b a \<and> precedes neg a b \<longrightarrow> Y a + mc_height mc (ms ! a) \<le> Y b" for Y bound
  proof -
    have "\<forall>a b. precedes pos b a \<and> precedes neg a b \<longrightarrow> Y a + mc_height mc (ms1 ! a) \<le> Y b" using that(2) ne m1 by metis
    then show ?thesis using Y(5) [of Y bound] that(1) m1 by simp
  qed
qed

text \<open>The result depends on the sizes only.\<close>

lemma pack_unique:
  assumes sp: "seq_pair pos neg" "pos \<noteq> []"
    and ms: "length pos \<le> length ms" "\<forall>a < length pos. movable (ms ! a)"
    and ms2: "length pos \<le> length ms2" "\<forall>a < length pos. movable (ms2 ! a)"
    and same: "\<forall>a < length pos. mc_width mc (ms ! a) = mc_width mc (ms2 ! a) \<and> mc_height mc (ms ! a) = mc_height mc (ms2 ! a)"
    and P: "pack_pair mc pos neg ms = (ms', w, h)" "pack_pair mc pos neg ms2 = (ms2', w2, h2)"
  shows "w = w2" "h = h2" "\<forall>a < length pos. mc_x mc (ms' ! a) = mc_x mc (ms2' ! a) \<and> mc_y mc (ms' ! a) = mc_y mc (ms2' ! a)"
proof -
  note A = pack_spec [OF sp ms P(1)] and C = pack_spec [OF sp ms2 P(2)]
  have ne: "a < length pos" if "precedes pos a b" for a b
    using that sp(1) precedes_mem [OF that] by (simp add: seq_pair_def)
  have ne': "b < length pos" if "precedes pos a b" for a b
    using that sp(1) precedes_mem [OF that] by (simp add: seq_pair_def)
  have X: "\<forall>a < length pos. 0 \<le> mc_x mc (ms2' ! a) \<and> mc_x mc (ms2' ! a) + mc_width mc (ms ! a) \<le> w2"
    "\<forall>a < length pos. 0 \<le> mc_x mc (ms' ! a) \<and> mc_x mc (ms' ! a) + mc_width mc (ms2 ! a) \<le> w"
    "\<forall>a < length pos. 0 \<le> mc_y mc (ms2' ! a) \<and> mc_y mc (ms2' ! a) + mc_height mc (ms ! a) \<le> h2"
    "\<forall>a < length pos. 0 \<le> mc_y mc (ms' ! a) \<and> mc_y mc (ms' ! a) + mc_height mc (ms2 ! a) \<le> h"
    using A(4) C(4) same by simp_all
  have X1: "\<forall>a b. precedes pos a b \<and> precedes neg a b \<longrightarrow> mc_x mc (ms2' ! a) + mc_width mc (ms ! a) \<le> mc_x mc (ms2' ! b)"
    using C(5) same ne by metis
  have X2: "\<forall>a b. precedes pos a b \<and> precedes neg a b \<longrightarrow> mc_x mc (ms' ! a) + mc_width mc (ms2 ! a) \<le> mc_x mc (ms' ! b)"
    using A(5) same ne by metis
  note leX = A(7) [OF X(1) X1] C(7) [OF X(2) X2]
  show "w = w2" using leX by simp
  have Y1: "\<forall>a b. precedes pos b a \<and> precedes neg a b \<longrightarrow> mc_y mc (ms2' ! a) + mc_height mc (ms ! a) \<le> mc_y mc (ms2' ! b)"
    using C(6) same ne' by metis
  have Y2: "\<forall>a b. precedes pos b a \<and> precedes neg a b \<longrightarrow> mc_y mc (ms' ! a) + mc_height mc (ms2 ! a) \<le> mc_y mc (ms' ! b)"
    using A(6) same ne' by metis
  note leY = A(8) [OF X(3) Y1] C(8) [OF X(4) Y2]
  show "h = h2" using leY by simp
  show "\<forall>a < length pos. mc_x mc (ms' ! a) = mc_x mc (ms2' ! a) \<and> mc_y mc (ms' ! a) = mc_y mc (ms2' ! a)"
    using leX leY by (simp add: order_antisym)
qed

end

section \<open>Hard macros can be packed\<close>

definition hm_movable :: "'f::linordered_field hard_macro \<Rightarrow> bool" where
  "hm_movable m \<longleftrightarrow> 0 < hm_width m \<and> 0 < hm_height m"

lemma hm_movable_area: "hm_movable m \<Longrightarrow> \<not> hm_width m * hm_height m \<le> 0"
  by (simp add: hm_movable_def not_le)

interpretation hard: placeable hard_class hm_movable
  by unfold_locales (auto simp: hard_class_def hm_setX_def hm_setY_def hm_movable_area, auto simp: hm_movable_def)

lemma hard_class_simps [simp]:
  "mc_x hard_class = hm_x" "mc_y hard_class = hm_y" "mc_width hard_class = hm_width" "mc_height hard_class = hm_height"
  "mc_setX hard_class = hm_setX" "mc_setY hard_class = hm_setY" "mc_pin_x hard_class = hm_getPinX"
  "mc_pin_y hard_class = hm_getPinY" "mc_cluster hard_class = hm_cluster" "mc_unplaced_ios hard_class = hm_unplaced_ios"
  by (simp_all add: hard_class_def)

end
