(* ===== verification/MplAnneal.thy ===== *)
theory MplAnneal imports MplPack "HOL-Library.Monad_Syntax" begin

text \<open>
  The annealing itself (\<open>src/mpl/src/SimulatedAnnealingCore.cpp\<close>): the state of the annealer, its
  penalties, the moves in the sequence pair and the schedule \<open>fastSA\<close>.  What is drawn at random and
  \<open>exp\<close>, \<open>log\<close> on floats are arguments; the methods that the subclasses override are the record
  \<open>sa_virtual\<close>.
\<close>

section \<open>State\<close>

record 'f sa_weights =
  aw_area :: 'f
  aw_outline :: 'f
  aw_wirelength :: 'f
  aw_guidance :: 'f
  aw_fence :: 'f

record 'f sa_norms =
  nm_area :: 'f
  nm_outline :: 'f
  nm_wirelength :: 'f
  nm_guidance :: 'f
  nm_fence :: 'f

text \<open>What the last packing measured (\<open>width_\<close> to \<open>fence_penalty_\<close>; the same again for \<open>pre_\<close>).\<close>

record 'f sa_metrics =
  me_width :: 'f
  me_height :: 'f
  me_outline_penalty :: 'f
  me_wirelength :: 'f
  me_guidance_penalty :: 'f
  me_fence_penalty :: 'f

record 'f bundled_net =
  bn_source :: nat
  bn_target :: nat
  bn_weight :: 'f

record 'f sa_probs =
  pr_pos_swap :: 'f
  pr_neg_swap :: 'f
  pr_double_swap :: 'f
  pr_exchange :: 'f

text \<open>What does not change while annealing.\<close>

record 'f sa_setup =
  su_outline :: "'f mrect"
  su_die_area :: "'f mrect"
  su_left_is_blocked :: bool
  su_right_is_blocked :: bool
  su_bottom_is_blocked :: bool
  su_top_is_blocked :: bool
  su_macros_to_place :: nat
  su_nets :: "'f bundled_net list"
  su_fences :: "(nat \<times> 'f mrect) list"
  su_guides :: "(nat \<times> 'f mrect) list"
  su_weights :: "'f sa_weights"
  su_probs :: "'f sa_probs"
  su_init_prob :: 'f
  su_max_num_step :: int
  su_num_perturb_per_step :: nat
  su_original_notch_weight :: 'f

record ('m, 'f, 'g) sa_state =
  sa_setup :: "'f sa_setup"
  sa_norms :: "'f sa_norms"
  sa_init_temperature :: 'f
  sa_generator :: 'g
  sa_has_initial_sequence_pair :: bool
  sa_pos_seq :: "nat list"
  sa_neg_seq :: "nat list"
  sa_macros :: "'m list"
  sa_metrics :: "'f sa_metrics"
  sa_pre_pos_seq :: "nat list"
  sa_pre_neg_seq :: "nat list"
  sa_pre_macros :: "'m list"
  sa_pre_metrics :: "'f sa_metrics"
  sa_action_id :: int
  sa_best_pos :: "nat list"
  sa_best_neg :: "nat list"
  sa_notch_weight :: 'f
  sa_cost_list :: "'f list"
  sa_T_list :: "'f list"

text \<open>
  The random numbers: \<open>distribution_(generator_)\<close>, a number of the given range (both ends included),
  and the two functions of the mathematical library.
\<close>

record ('g, 'f) sa_env =
  env_uniform :: "'g \<Rightarrow> 'f \<times> 'g"
  env_index :: "nat \<Rightarrow> 'g \<Rightarrow> nat \<times> 'g"
  env_exp :: "'f \<Rightarrow> 'f"
  env_log :: "'f \<Rightarrow> 'f"

text \<open>
  An operation that draws indices until two differ may not return (\<open>None\<close>) and the logger throws the
  error with the number 18.
\<close>

datatype mpl_error = MPL_0018 nat nat

type_synonym 'a mpl_result = "(mpl_error + 'a) option"

definition mpl_bind :: "'a mpl_result \<Rightarrow> ('a \<Rightarrow> 'b mpl_result) \<Rightarrow> 'b mpl_result" where
  "mpl_bind r f = (case r of None \<Rightarrow> None | Some (Inl e) \<Rightarrow> Some (Inl e) | Some (Inr a) \<Rightarrow> f a)"

lemma mpl_bind_simps [simp]:
  "mpl_bind None f = None" "mpl_bind (Some (Inl e)) f = Some (Inl e)" "mpl_bind (Some (Inr a)) f = f a"
  by (simp_all add: mpl_bind_def)

lemma mpl_bind_Some: "mpl_bind r f = Some q \<longleftrightarrow> (\<exists>e. r = Some (Inl e) \<and> q = Inl e) \<or> (\<exists>a. r = Some (Inr a) \<and> f a = Some q)"
  by (auto simp: mpl_bind_def split: option.splits sum.splits)

section \<open>Construction\<close>

definition setDieArea :: "'f::linordered_field mrect \<Rightarrow> 'f sa_setup \<Rightarrow> 'f sa_setup" where
  "setDieArea die_area s =
    s\<lparr>su_die_area := moveVer (- mr_ly (su_outline s)) (moveHor (- mr_lx (su_outline s)) die_area)\<rparr>"

definition setBlockedBoundariesForIOs :: "Boundary list \<Rightarrow> 'f sa_setup \<Rightarrow> 'f sa_setup" where
  "setBlockedBoundariesForIOs blocked s =
    (let s1 = if Bd_L \<in> set blocked then s\<lparr>su_left_is_blocked := True\<rparr> else s;
         s2 = if Bd_R \<in> set blocked then s1\<lparr>su_right_is_blocked := True\<rparr> else s1;
         s3 = if Bd_B \<in> set blocked then s2\<lparr>su_bottom_is_blocked := True\<rparr> else s2
     in if Bd_T \<in> set blocked then s3\<lparr>su_top_is_blocked := True\<rparr> else s3)"

definition SimulatedAnnealingCore ::
    "'f::linordered_field mrect \<Rightarrow> Boundary list \<Rightarrow> 'f mrect \<Rightarrow> 'm list \<Rightarrow> 'f sa_weights \<Rightarrow> 'f sa_probs \<Rightarrow> 'f \<Rightarrow> int \<Rightarrow> nat \<Rightarrow> 'g
      \<Rightarrow> ('m, 'f, 'g) sa_state" where
  "SimulatedAnnealingCore tree_die_area blocked_boundaries outline macros weights probs init_prob max_num_step
      num_perturb_per_step rand_gen =
    (let zero = \<lparr>mr_lx = 0, mr_ly = 0, mr_ux = 0, mr_uy = 0\<rparr>;
         setup = \<lparr>su_outline = outline, su_die_area = zero, su_left_is_blocked = False, su_right_is_blocked = False,
           su_bottom_is_blocked = False, su_top_is_blocked = False, su_macros_to_place = 0, su_nets = [], su_fences = [],
           su_guides = [], su_weights = weights, su_probs = probs, su_init_prob = init_prob, su_max_num_step = max_num_step,
           su_num_perturb_per_step = num_perturb_per_step, su_original_notch_weight = 0\<rparr>;
         metrics = \<lparr>me_width = 0, me_height = 0, me_outline_penalty = 0, me_wirelength = 0, me_guidance_penalty = 0,
           me_fence_penalty = 0\<rparr>
     in \<lparr>sa_setup = setBlockedBoundariesForIOs blocked_boundaries (setDieArea tree_die_area setup),
         sa_norms = \<lparr>nm_area = 0, nm_outline = 0, nm_wirelength = 0, nm_guidance = 0, nm_fence = 0\<rparr>,
         sa_init_temperature = 1, sa_generator = rand_gen, sa_has_initial_sequence_pair = False,
         sa_pos_seq = [], sa_neg_seq = [], sa_macros = macros, sa_metrics = metrics,
         sa_pre_pos_seq = [], sa_pre_neg_seq = [], sa_pre_macros = [], sa_pre_metrics = metrics, sa_action_id = -1,
         sa_best_pos = [], sa_best_neg = [], sa_notch_weight = 0, sa_cost_list = [], sa_T_list = []\<rparr>)"

definition setNumberOfMacrosToPlace :: "nat \<Rightarrow> ('m, 'f, 'g) sa_state \<Rightarrow> ('m, 'f, 'g) sa_state" where
  "setNumberOfMacrosToPlace macros_to_place s = s\<lparr>sa_setup := (sa_setup s)\<lparr>su_macros_to_place := macros_to_place\<rparr>\<rparr>"

definition setNets :: "'f bundled_net list \<Rightarrow> ('m, 'f, 'g) sa_state \<Rightarrow> ('m, 'f, 'g) sa_state" where
  "setNets nets s = s\<lparr>sa_setup := (sa_setup s)\<lparr>su_nets := nets\<rparr>\<rparr>"

definition setFences :: "(nat \<times> 'f mrect) list \<Rightarrow> ('m, 'f, 'g) sa_state \<Rightarrow> ('m, 'f, 'g) sa_state" where
  "setFences fences s = s\<lparr>sa_setup := (sa_setup s)\<lparr>su_fences := fences\<rparr>\<rparr>"

definition setGuides :: "(nat \<times> 'f mrect) list \<Rightarrow> ('m, 'f, 'g) sa_state \<Rightarrow> ('m, 'f, 'g) sa_state" where
  "setGuides guides s = s\<lparr>sa_setup := (sa_setup s)\<lparr>su_guides := guides\<rparr>\<rparr>"

definition setInitialSequencePair :: "nat list \<Rightarrow> nat list \<Rightarrow> ('m, 'f, 'g) sa_state \<Rightarrow> ('m, 'f, 'g) sa_state" where
  "setInitialSequencePair pos_sequence neg_sequence s =
    (if pos_sequence = [] \<or> neg_sequence = [] then s
     else s\<lparr>sa_pos_seq := pos_sequence, sa_neg_seq := neg_sequence, sa_has_initial_sequence_pair := True\<rparr>)"

definition initSequencePair :: "('m, 'f, 'g) sa_state \<Rightarrow> ('m, 'f, 'g) sa_state" where
  "initSequencePair s =
    (if sa_has_initial_sequence_pair s then s
     else let sequence_pair_size =
            if su_macros_to_place (sa_setup s) \<noteq> 0 then su_macros_to_place (sa_setup s) else length (sa_macros s);
          ids = [0..<sequence_pair_size]
      in s\<lparr>sa_pos_seq := sa_pos_seq s @ ids, sa_neg_seq := sa_neg_seq s @ ids,
           sa_pre_pos_seq := sa_pre_pos_seq s @ ids, sa_pre_neg_seq := sa_pre_neg_seq s @ ids\<rparr>)"

section \<open>Penalties\<close>

definition isValid :: "('m, 'f::floor_ceiling, 'g) sa_state \<Rightarrow> bool" where
  "isValid s \<longleftrightarrow> me_width (sa_metrics s) \<le> of_int \<lceil>mr_getWidth (su_outline (sa_setup s))\<rceil>
     \<and> me_height (sa_metrics s) \<le> of_int \<lceil>mr_getHeight (su_outline (sa_setup s))\<rceil>"

definition getAreaPenalty :: "'f::linordered_field sa_setup \<Rightarrow> 'f sa_metrics \<Rightarrow> 'f" where
  "getAreaPenalty su me =
    (let outline_area = mr_getWidth (su_outline su) * mr_getHeight (su_outline su)
     in me_width me * me_height me / outline_area)"

definition calOutlinePenalty :: "'f::linordered_field sa_setup \<Rightarrow> 'f sa_metrics \<Rightarrow> 'f sa_metrics" where
  "calOutlinePenalty su me =
    (let max_width = max (mr_getWidth (su_outline su)) (me_width me);
         max_height = max (mr_getHeight (su_outline su)) (me_height me);
         outline_area = mr_getWidth (su_outline su) * mr_getHeight (su_outline su)
     in me\<lparr>me_outline_penalty := (max_width * max_height - outline_area) / outline_area\<rparr>)"

definition isOutsideTheOutline :: "('m, 'f::linordered_field) macro_class \<Rightarrow> 'f sa_setup \<Rightarrow> 'm \<Rightarrow> bool" where
  "isOutsideTheOutline mc su macro \<longleftrightarrow>
    mc_pin_x mc macro > mr_getWidth (su_outline su) \<or> mc_pin_y mc macro > mr_getHeight (su_outline su)"

text \<open>
  The distance to the bottom is written over the one to the right, as in the code; the one to the bottom
  stays the largest one.
\<close>

definition addBoundaryDistToWirelength ::
    "('m, 'f::linordered_field) macro_class \<Rightarrow> 'f sa_setup \<Rightarrow> 'm \<Rightarrow> 'm \<Rightarrow> 'f \<Rightarrow> 'f \<Rightarrow> 'f" where
  "addBoundaryDistToWirelength mc su macro unplaced_ios net_weight wirelength =
    (let die_area = su_die_area su;
         max_dist = mr_getPerimeter die_area / 2
     in if isOutsideTheOutline mc su macro then wirelength + net_weight * max_dist
        else let x1 = mc_pin_x mc macro;
                 y1 = mc_pin_y mc macro
             in case cl_boundary (the (mc_cluster mc unplaced_ios)) of
                  Bd_NONE \<Rightarrow>
                    let dist_to_left = if \<not> su_left_is_blocked su then \<bar>x1 - mr_lx die_area\<bar> else max_dist;
                        dist_to_right = if \<not> su_right_is_blocked su then \<bar>x1 - mr_ux die_area\<bar> else max_dist;
                        dist_to_bottom = max_dist;
                        dist_to_right = if \<not> su_bottom_is_blocked su then \<bar>y1 - mr_ly die_area\<bar> else dist_to_right;
                        dist_to_top = if \<not> su_top_is_blocked su then \<bar>y1 - mr_uy die_area\<bar> else max_dist
                    in wirelength + net_weight * min dist_to_left (min dist_to_right (min dist_to_bottom dist_to_top))
                | Bd_L \<Rightarrow> wirelength + net_weight * \<bar>mc_pin_x mc unplaced_ios - x1\<bar>
                | Bd_R \<Rightarrow> wirelength + net_weight * \<bar>mc_pin_x mc unplaced_ios - x1\<bar>
                | Bd_T \<Rightarrow> wirelength + net_weight * \<bar>mc_pin_y mc unplaced_ios - y1\<bar>
                | Bd_B \<Rightarrow> wirelength + net_weight * \<bar>mc_pin_y mc unplaced_ios - y1\<bar>)"

definition net_wirelength ::
    "('m, 'f::linordered_field) macro_class \<Rightarrow> 'f sa_setup \<Rightarrow> 'm list \<Rightarrow> 'f \<Rightarrow> 'f bundled_net \<Rightarrow> 'f" where
  "net_wirelength mc su macros wirelength net =
    (let source = macros ! bn_source net;
         target = macros ! bn_target net
     in if mc_unplaced_ios mc target then addBoundaryDistToWirelength mc su source target (bn_weight net) wirelength
        else wirelength + bn_weight net * (\<bar>mc_pin_x mc target - mc_pin_x mc source\<bar> + \<bar>mc_pin_y mc target - mc_pin_y mc source\<bar>))"

definition calWirelength :: "('m, 'f::linordered_field) macro_class \<Rightarrow> 'f sa_setup \<Rightarrow> 'm list \<Rightarrow> 'f sa_metrics \<Rightarrow> 'f sa_metrics" where
  "calWirelength mc su macros me =
    (if aw_wirelength (su_weights su) \<le> 0 then me\<lparr>me_wirelength := 0\<rparr>
     else let tot_net_weight = foldl (\<lambda>tot net. tot + bn_weight net) 0 (su_nets su)
          in if tot_net_weight \<le> 0 then me\<lparr>me_wirelength := 0\<rparr>
             else me\<lparr>me_wirelength := foldl (net_wirelength mc su macros) 0 (su_nets su) / tot_net_weight
                       / (mr_getHeight (su_outline su) + mr_getWidth (su_outline su))\<rparr>)"

definition fence_violation ::
    "('m, 'f::linordered_field) macro_class \<Rightarrow> 'f sa_setup \<Rightarrow> 'm list \<Rightarrow> 'f \<Rightarrow> nat \<times> 'f mrect \<Rightarrow> 'f" where
  "fence_violation mc su macros penalty fence =
    (let (macro_id, bbox) = fence;
         macro = macros ! macro_id;
         lx = mc_x mc macro;
         ly = mc_y mc macro;
         ux = lx + mc_width mc macro;
         uy = ly + mc_height mc macro
     in if mc_width mc macro * mc_height mc macro \<le> 1 / 10000 then penalty
        else if mc_width mc macro > mr_ux bbox - mr_lx bbox \<or> mc_height mc macro > mr_uy bbox - mr_ly bbox then penalty
        else let max_x_dist = ((mr_ux bbox - mr_lx bbox) - (ux - lx)) / 2;
                 max_y_dist = ((mr_uy bbox - mr_ly bbox) - (uy - ly)) / 2;
                 x_dist = \<bar>(mr_lx bbox + mr_ux bbox) / 2 - (lx + ux) / 2\<bar>;
                 y_dist = \<bar>(mr_ly bbox + mr_uy bbox) / 2 - (ly + uy) / 2\<bar>;
                 width = (if x_dist \<le> max_x_dist then 0 else x_dist - max_x_dist) / mr_getWidth (su_outline su);
                 height = (if y_dist \<le> max_y_dist then 0 else y_dist - max_y_dist) / mr_getHeight (su_outline su)
             in penalty + (width * width + height * height))"

definition calFencePenalty :: "('m, 'f::linordered_field) macro_class \<Rightarrow> 'f sa_setup \<Rightarrow> 'm list \<Rightarrow> 'f sa_metrics \<Rightarrow> 'f sa_metrics" where
  "calFencePenalty mc su macros me =
    (if aw_fence (su_weights su) \<le> 0 \<or> su_fences su = [] then me\<lparr>me_fence_penalty := 0\<rparr>
     else me\<lparr>me_fence_penalty := foldl (fence_violation mc su macros) 0 (su_fences su) / of_nat (length (su_fences su))\<rparr>)"

definition guide_violation :: "('m, 'f::linordered_field) macro_class \<Rightarrow> 'm list \<Rightarrow> 'f \<Rightarrow> nat \<times> 'f mrect \<Rightarrow> 'f" where
  "guide_violation mc macros guidance_penalty guide_of =
    (let (macro_id, guide) = guide_of;
         macro = macros ! macro_id;
         macro_x_min = mc_x mc macro;
         macro_y_min = mc_y mc macro;
         macro_x_max = macro_x_min + mc_width mc macro;
         macro_y_max = macro_y_min + mc_height mc macro;
         overlap_width = min (mr_ux guide) macro_x_max - max (mr_lx guide) macro_x_min;
         overlap_height = min (mr_uy guide) macro_y_max - max (mr_ly guide) macro_y_min;
         penalty = min (mc_width mc macro) (mr_getWidth guide) * min (mc_height mc macro) (mr_getHeight guide)
     in guidance_penalty + (if overlap_width > 0 \<and> overlap_height > 0 then penalty - overlap_width * overlap_height else penalty))"

definition calGuidancePenalty :: "('m, 'f::linordered_field) macro_class \<Rightarrow> 'f sa_setup \<Rightarrow> 'm list \<Rightarrow> 'f sa_metrics \<Rightarrow> 'f sa_metrics" where
  "calGuidancePenalty mc su macros me =
    (if aw_guidance (su_weights su) \<le> 0 \<or> su_guides su = [] then me\<lparr>me_guidance_penalty := 0\<rparr>
     else me\<lparr>me_guidance_penalty := foldl (guide_violation mc macros) 0 (su_guides su) / of_nat (length (su_guides su))\<rparr>)"

section \<open>Moves\<close>

definition packFloorplan :: "('m, 'f::linordered_field) macro_class \<Rightarrow> ('m, 'f, 'g) sa_state \<Rightarrow> ('m, 'f, 'g) sa_state" where
  "packFloorplan mc s =
    (let (macros, width, height) = pack_pair mc (sa_pos_seq s) (sa_neg_seq s) (sa_macros s)
     in s\<lparr>sa_macros := macros, sa_metrics := (sa_metrics s)\<lparr>me_width := width, me_height := height\<rparr>\<rparr>)"

definition swap :: "nat \<Rightarrow> nat \<Rightarrow> 'a list \<Rightarrow> 'a list" where
  "swap i j xs = xs[i := xs ! j, j := xs ! i]"

text \<open>The second index is drawn again until it differs.\<close>

partial_function (option) redraw_index ::
    "('g, 'f) sa_env \<Rightarrow> nat \<Rightarrow> nat \<Rightarrow> nat \<Rightarrow> 'g \<Rightarrow> (nat \<times> 'g) option" where
  "redraw_index env max_index index1 index2 g =
    (if index1 = index2 then (let (index2', g') = env_index env max_index g in redraw_index env max_index index1 index2' g')
     else Some (index2, g))"

definition generateRandomIndices ::
    "('g, 'f) sa_env \<Rightarrow> ('m, 'f, 'g) sa_state \<Rightarrow> (nat \<times> nat \<times> ('m, 'f, 'g) sa_state) option" where
  "generateRandomIndices env s =
    (let max_index = length (sa_pos_seq s) - 1;
         (index1, g1) = env_index env max_index (sa_generator s);
         (index2, g2) = env_index env max_index g1
     in case redraw_index env max_index index1 index2 g2 of
          None \<Rightarrow> None
        | Some (index2', g3) \<Rightarrow> Some (index1, index2', s\<lparr>sa_generator := g3\<rparr>))"

definition singleSeqSwap ::
    "('g, 'f) sa_env \<Rightarrow> bool \<Rightarrow> ('m, 'f, 'g) sa_state \<Rightarrow> ('m, 'f, 'g) sa_state mpl_result" where
  "singleSeqSwap env pos s =
    (if length (sa_pos_seq s) \<le> 1 then Some (Inr s)
     else case generateRandomIndices env s of
       None \<Rightarrow> None
     | Some (index1, index2, s') \<Rightarrow>
         Some (Inr (if pos then s'\<lparr>sa_pos_seq := swap index1 index2 (sa_pos_seq s')\<rparr>
                    else s'\<lparr>sa_neg_seq := swap index1 index2 (sa_neg_seq s')\<rparr>)))"

definition doubleSeqSwap :: "('g, 'f) sa_env \<Rightarrow> ('m, 'f, 'g) sa_state \<Rightarrow> ('m, 'f, 'g) sa_state mpl_result" where
  "doubleSeqSwap env s =
    (if length (sa_pos_seq s) \<le> 1 then Some (Inr s)
     else case generateRandomIndices env s of
       None \<Rightarrow> None
     | Some (index1, index2, s') \<Rightarrow>
         Some (Inr (s'\<lparr>sa_pos_seq := swap index1 index2 (sa_pos_seq s'), sa_neg_seq := swap index1 index2 (sa_neg_seq s')\<rparr>)))"

text \<open>The last place of each of the two macros in the negative sequence.\<close>

definition last_index :: "nat \<Rightarrow> nat list \<Rightarrow> nat \<Rightarrow> nat option" where
  "last_index macro neg_seq len = fold (\<lambda>i found. if macro = neg_seq ! i then Some i else found) [0..<len] None"

definition exchangeMacros :: "('g, 'f) sa_env \<Rightarrow> ('m, 'f, 'g) sa_state \<Rightarrow> ('m, 'f, 'g) sa_state mpl_result" where
  "exchangeMacros env s =
    (if length (sa_pos_seq s) \<le> 1 then Some (Inr s)
     else case generateRandomIndices env s of
       None \<Rightarrow> None
     | Some (index1, index2, s') \<Rightarrow>
         let pos_seq = swap index1 index2 (sa_pos_seq s');
             len = length pos_seq
         in case (last_index (pos_seq ! index1) (sa_neg_seq s') len, last_index (pos_seq ! index2) (sa_neg_seq s') len) of
              (Some neg_index1, Some neg_index2) \<Rightarrow>
                Some (Inr (s'\<lparr>sa_pos_seq := pos_seq, sa_neg_seq := swap neg_index1 neg_index2 (sa_neg_seq s')\<rparr>))
            | _ \<Rightarrow> Some (Inl (MPL_0018 index1 index2)))"

definition calAverage :: "'f::linordered_field list \<Rightarrow> 'f" where
  "calAverage value_list = (if value_list = [] then 0 else foldl (+) 0 value_list / of_nat (length value_list))"

section \<open>The schedule\<close>

record ('m, 'f, 'g) sa_virtual =
  vi_perturb :: "('m, 'f, 'g) sa_state \<Rightarrow> ('m, 'f, 'g) sa_state mpl_result"
  vi_restore :: "('m, 'f, 'g) sa_state \<Rightarrow> ('m, 'f, 'g) sa_state"
  vi_calPenalty :: "('m, 'f, 'g) sa_state \<Rightarrow> ('m, 'f, 'g) sa_state"
  vi_calNormCost :: "('m, 'f, 'g) sa_state \<Rightarrow> 'f"

definition updateBestValidResult :: "('m, 'f, 'g) sa_state \<Rightarrow> ('m, 'f, 'g) sa_state" where
  "updateBestValidResult s = s\<lparr>sa_best_pos := sa_pos_seq s, sa_best_neg := sa_neg_seq s\<rparr>"

definition useBestValidResult ::
    "('m, 'f::linordered_field) macro_class \<Rightarrow> ('m, 'f, 'g) sa_virtual \<Rightarrow> ('m, 'f, 'g) sa_state \<Rightarrow> ('m, 'f, 'g) sa_state" where
  "useBestValidResult mc V s =
    vi_calPenalty V (packFloorplan mc (s\<lparr>sa_pos_seq := sa_best_pos s, sa_neg_seq := sa_best_neg s\<rparr>))"

text \<open>One perturbation, kept or taken back; the second component is \<open>pre_cost\<close>.\<close>

definition try_perturb ::
    "('m, 'f::floor_ceiling, 'g) sa_virtual \<Rightarrow> ('g, 'f) sa_env \<Rightarrow> 'f \<Rightarrow> ('m, 'f, 'g) sa_state \<times> 'f
      \<Rightarrow> (('m, 'f, 'g) sa_state \<times> 'f) mpl_result" where
  "try_perturb V env temperature state =
    (let (s, pre_cost) = state in
     mpl_bind (vi_perturb V s) (\<lambda>s1.
       let cost = vi_calNormCost V s1;
           keep_result = (cost < pre_cost \<or> sa_best_pos s1 = []);
           s2 = if isValid s1 \<and> keep_result then updateBestValidResult s1 else s1;
           delta_cost = cost - pre_cost;
           (num, g) = env_uniform env (sa_generator s2);
           s3 = s2\<lparr>sa_generator := g\<rparr>;
           prob = if delta_cost > 0 then env_exp env (-1 * delta_cost / temperature) else 1
       in Some (Inr (if num < prob then (s3, cost) else (vi_restore V s3, pre_cost)))))"

primrec try_perturbs ::
    "('m, 'f::floor_ceiling, 'g) sa_virtual \<Rightarrow> ('g, 'f) sa_env \<Rightarrow> 'f \<Rightarrow> nat \<Rightarrow> ('m, 'f, 'g) sa_state \<times> 'f
      \<Rightarrow> (('m, 'f, 'g) sa_state \<times> 'f) mpl_result" where
  "try_perturbs V env temperature 0 state = Some (Inr state)"
| "try_perturbs V env temperature (Suc n) state =
    mpl_bind (try_perturb V env temperature state) (try_perturbs V env temperature n)"

text \<open>What follows the perturbations of a step: the schedule, and the packing before the last steps.\<close>

definition end_of_step ::
    "('m, 'f::floor_ceiling) macro_class \<Rightarrow> ('m, 'f, 'g) sa_virtual \<Rightarrow> int \<Rightarrow> 'f \<Rightarrow> ('m, 'f, 'g) sa_state \<times> 'f
      \<Rightarrow> ('m, 'f, 'g) sa_state \<times> 'f" where
  "end_of_step mc V step temperature state =
    (let (s, pre_cost) = state;
         s1 = s\<lparr>sa_cost_list := sa_cost_list s @ [pre_cost], sa_T_list := sa_T_list s @ [temperature]\<rparr>
     in if step = su_max_num_step (sa_setup s1) - int (length (sa_macros s1)) * 2
        then let s2 = vi_calPenalty V (packFloorplan mc (s1\<lparr>sa_notch_weight := su_original_notch_weight (sa_setup s1)\<rparr>))
             in (s2, vi_calNormCost V s2)
        else (s1, pre_cost))"

function anneal_steps ::
    "('m, 'f::floor_ceiling) macro_class \<Rightarrow> ('m, 'f, 'g) sa_virtual \<Rightarrow> ('g, 'f) sa_env \<Rightarrow> int \<Rightarrow> 'f \<Rightarrow> int \<Rightarrow> 'f
      \<Rightarrow> ('m, 'f, 'g) sa_state \<times> 'f \<Rightarrow> ('m, 'f, 'g) sa_state mpl_result" where
  "anneal_steps mc V env max_num_step t_factor step temperature state =
    (if step \<le> max_num_step
     then mpl_bind (try_perturbs V env temperature (su_num_perturb_per_step (sa_setup (fst state))) state) (\<lambda>state'.
            anneal_steps mc V env max_num_step t_factor (step + 1) (temperature * t_factor)
              (end_of_step mc V (step + 1) (temperature * t_factor) state'))
     else Some (Inr (fst state)))"
  by pat_completeness auto
termination by (relation "measure (\<lambda>(mc, V, env, m, t, step, _). nat (m + 1 - step))") auto

declare anneal_steps.simps [simp del]

definition fastSA ::
    "('m, 'f::floor_ceiling) macro_class \<Rightarrow> ('m, 'f, 'g) sa_virtual \<Rightarrow> ('g, 'f) sa_env \<Rightarrow> ('m, 'f, 'g) sa_state
      \<Rightarrow> ('m, 'f, 'g) sa_state mpl_result" where
  "fastSA mc V env s =
    (let cost = vi_calNormCost V s;
         temperature = sa_init_temperature s;
         min_t = 1 / 10000000000;
         max_num_step = su_max_num_step (sa_setup s);
         t_factor = env_exp env (env_log env (min_t / sa_init_temperature s) / of_int max_num_step);
         s0 = s\<lparr>sa_notch_weight := 0\<rparr>;
         s1 = if isValid s0 then updateBestValidResult s0 else s0
     in mpl_bind (anneal_steps mc V env max_num_step t_factor 1 temperature (s1, cost)) (\<lambda>s2.
          let s3 = vi_calPenalty V (packFloorplan mc s2)
          in Some (Inr (if \<not> isValid s3 \<and> sa_best_pos s3 \<noteq> [] then useBestValidResult mc V s3 else s3))))"

section \<open>Sequence pairs under the moves\<close>

lemma swap_length [simp]: "length (swap i j xs) = length xs"
  by (simp add: swap_def)

lemma swap_keeps: "i < length xs \<Longrightarrow> j < length xs \<Longrightarrow> set (swap i j xs) = set xs \<and> (distinct (swap i j xs) \<longleftrightarrow> distinct xs)"
  by (simp add: swap_def set_swap distinct_swap)

lemma seq_pair_swap:
  assumes "seq_pair pos neg" "i < length pos" "j < length pos"
  shows "seq_pair (swap i j pos) neg" "seq_pair pos (swap i j neg)"
  using assms seq_pair_length [OF assms(1)] by (simp_all add: seq_pair_def swap_keeps)

lemma seq_pair_swap2:
  assumes "seq_pair pos neg" "i < length pos" "j < length pos" "i' < length pos" "j' < length pos"
  shows "seq_pair (swap i j pos) (swap i' j' neg)"
  using seq_pair_swap(2) [OF seq_pair_swap(1) [OF assms(1-3)]] assms by simp

lemma seq_pair_upt: "seq_pair [0..<n] [0..<n]"
  by (simp add: seq_pair_def)

lemma last_index_found:
  assumes "macro \<in> set (take n neg_seq)" "n \<le> length neg_seq"
  shows "\<exists>i < n. last_index macro neg_seq n = Some i \<and> neg_seq ! i = macro"
  using assms
proof (induction n)
  case (Suc n)
  show ?case
  proof (cases "macro = neg_seq ! n")
    case False
    then have "macro \<in> set (take n neg_seq)" using Suc.prems by (auto simp: take_Suc_conv_app_nth)
    then show ?thesis using Suc False by (auto simp: last_index_def less_Suc_eq)
  qed (auto simp: last_index_def)
qed simp

section \<open>The random indices\<close>

definition env_ok :: "('g, 'f) sa_env \<Rightarrow> bool" where
  "env_ok env \<longleftrightarrow> (\<forall>k g. fst (env_index env k g) \<le> k)"

text \<open>Of more than one number, not always the same is drawn.\<close>

definition env_fair :: "('g, 'f) sa_env \<Rightarrow> bool" where
  "env_fair env \<longleftrightarrow> (\<forall>k i g. 0 < k \<longrightarrow> (\<exists>m. fst (env_index env k (((\<lambda>g. snd (env_index env k g)) ^^ m) g)) \<noteq> i))"

lemma redraw_index_range:
  assumes "redraw_index env k i j g = Some (j', g')" "env_ok env" "j \<le> k"
  shows "j' \<le> k \<and> i \<noteq> j'"
proof -
  have "redraw_index env k i j g = Some r \<Longrightarrow> env_ok env \<longrightarrow> j \<le> k \<longrightarrow> fst r \<le> k \<and> i \<noteq> fst r" for r
    by (rule redraw_index.raw_induct [of "\<lambda>env k i j g r. env_ok env \<longrightarrow> j \<le> k \<longrightarrow> fst r \<le> k \<and> i \<noteq> fst r"])
      (auto simp: env_ok_def split: if_splits prod.splits, (metis fst_conv)+)
  from this [OF assms(1)] show ?thesis using assms(2,3) by simp
qed

lemma redraw_index_returns:
  assumes "fst (env_index env k (((\<lambda>g. snd (env_index env k g)) ^^ m) g)) \<noteq> i"
  shows "\<exists>r. redraw_index env k i j g = Some r"
  using assms
proof (induction m arbitrary: j g)
  case 0
  have "redraw_index env k i a b = Some (a, b)" if "a \<noteq> i" for a b using that by (subst redraw_index.simps) simp
  then show ?case using 0 by (subst redraw_index.simps) (auto split: prod.splits)
next
  case (Suc m)
  have "fst (env_index env k (((\<lambda>g. snd (env_index env k g)) ^^ m) (snd (env_index env k g)))) \<noteq> i"
    using Suc.prems funpow_swap1 [of "\<lambda>g. snd (env_index env k g)" m g] by simp
  then have "\<exists>r. redraw_index env k i j' (snd (env_index env k g)) = Some r" for j' by (rule Suc.IH)
  then show ?case by (subst redraw_index.simps) (auto split: prod.splits)
qed

lemma generateRandomIndices_spec:
  assumes "generateRandomIndices env s = Some (i, j, s')" "env_ok env" "sa_pos_seq s \<noteq> []"
  shows "i < length (sa_pos_seq s)" "j < length (sa_pos_seq s)" "i \<noteq> j" "\<exists>g. s' = s\<lparr>sa_generator := g\<rparr>"
proof -
  let ?k = "length (sa_pos_seq s) - 1"
  obtain g1 where 1: "env_index env ?k (sa_generator s) = (i, g1)"
    using assms(1) by (auto simp: generateRandomIndices_def Let_def split: prod.splits option.splits)
  obtain j0 g2 where 2: "env_index env ?k g1 = (j0, g2)" by force
  have 3: "\<exists>g3. redraw_index env ?k i j0 g2 = Some (j, g3) \<and> s' = s\<lparr>sa_generator := g3\<rparr>"
    using assms(1) 1 2 by (auto simp: generateRandomIndices_def Let_def split: option.splits)
  have "i \<le> ?k" "j0 \<le> ?k" using assms(2) 1 2 unfolding env_ok_def by (metis fst_conv)+
  moreover from this(2) have "j \<le> ?k \<and> i \<noteq> j" using 3 redraw_index_range [OF _ assms(2)] by blast
  moreover have "0 < length (sa_pos_seq s)" using assms(3) by simp
  ultimately show "i < length (sa_pos_seq s)" "j < length (sa_pos_seq s)" "i \<noteq> j" "\<exists>g. s' = s\<lparr>sa_generator := g\<rparr>"
    using 3 by (linarith, linarith, blast, blast)
qed

lemma generateRandomIndices_returns:
  assumes "env_fair env" "1 < length (sa_pos_seq s)"
  shows "\<exists>r. generateRandomIndices env s = Some r"
proof -
  let ?k = "length (sa_pos_seq s) - 1"
  obtain i g1 where 1: "env_index env ?k (sa_generator s) = (i, g1)" by force
  obtain j g2 where 2: "env_index env ?k g1 = (j, g2)" by force
  have "0 < ?k" using assms(2) by simp
  then obtain r where "redraw_index env ?k i j g2 = Some r"
    using assms(1) redraw_index_returns unfolding env_fair_def by metis
  then show ?thesis using 1 2 by (auto simp: generateRandomIndices_def split: prod.splits)
qed

section \<open>The contract of the annealing\<close>

definition same_size :: "('m, 'f) macro_class \<Rightarrow> 'm list \<Rightarrow> 'm list \<Rightarrow> bool" where
  "same_size mc ms ms' \<longleftrightarrow> length ms' = length ms
    \<and> (\<forall>a < length ms. mc_width mc (ms' ! a) = mc_width mc (ms ! a) \<and> mc_height mc (ms' ! a) = mc_height mc (ms ! a))"

text \<open>The macros are in their box and no two of them overlap.\<close>

definition legal_floorplan :: "('m, 'f::linordered_field) macro_class \<Rightarrow> 'm list \<Rightarrow> 'f \<Rightarrow> 'f \<Rightarrow> bool" where
  "legal_floorplan mc ms w h \<longleftrightarrow>
    (\<forall>a < length ms. 0 \<le> mc_x mc (ms ! a) \<and> mc_x mc (ms ! a) + mc_width mc (ms ! a) \<le> w
       \<and> 0 \<le> mc_y mc (ms ! a) \<and> mc_y mc (ms ! a) + mc_height mc (ms ! a) \<le> h)
    \<and> (\<forall>a < length ms. \<forall>b < length ms. a \<noteq> b \<longrightarrow>
         mc_x mc (ms ! a) + mc_width mc (ms ! a) \<le> mc_x mc (ms ! b) \<or> mc_x mc (ms ! b) + mc_width mc (ms ! b) \<le> mc_x mc (ms ! a)
       \<or> mc_y mc (ms ! a) + mc_height mc (ms ! a) \<le> mc_y mc (ms ! b) \<or> mc_y mc (ms ! b) + mc_height mc (ms ! b) \<le> mc_y mc (ms ! a))"

definition sa_wf :: "('m \<Rightarrow> bool) \<Rightarrow> ('m, 'f, 'g) sa_state \<Rightarrow> bool" where
  "sa_wf movable s \<longleftrightarrow> seq_pair (sa_pos_seq s) (sa_neg_seq s) \<and> sa_pos_seq s \<noteq> []
    \<and> length (sa_pos_seq s) \<le> length (sa_macros s) \<and> (\<forall>a < length (sa_pos_seq s). movable (sa_macros s ! a))"

text \<open>What annealing keeps: the setup, the sizes and everything that is not in the sequence pair.\<close>

definition sa_related :: "('m, 'f) macro_class \<Rightarrow> ('m, 'f, 'g) sa_state \<Rightarrow> ('m, 'f, 'g) sa_state \<Rightarrow> bool" where
  "sa_related mc s s' \<longleftrightarrow> sa_setup s' = sa_setup s \<and> length (sa_pos_seq s') = length (sa_pos_seq s)
    \<and> same_size mc (sa_macros s) (sa_macros s') \<and> (\<forall>a \<ge> length (sa_pos_seq s). sa_macros s' ! a = sa_macros s ! a)"

text \<open>The measured width and height are those of the sequence pair.\<close>

definition sa_packed :: "('m, 'f::linordered_field) macro_class \<Rightarrow> ('m, 'f, 'g) sa_state \<Rightarrow> bool" where
  "sa_packed mc s \<longleftrightarrow>
    snd (pack_pair mc (sa_pos_seq s) (sa_neg_seq s) (sa_macros s)) = (me_width (sa_metrics s), me_height (sa_metrics s))"

definition valid_box :: "'f::floor_ceiling sa_setup \<Rightarrow> 'f \<times> 'f \<Rightarrow> bool" where
  "valid_box su box \<longleftrightarrow> fst box \<le> of_int \<lceil>mr_getWidth (su_outline su)\<rceil> \<and> snd box \<le> of_int \<lceil>mr_getHeight (su_outline su)\<rceil>"

definition best_valid :: "('m, 'f::floor_ceiling) macro_class \<Rightarrow> ('m, 'f, 'g) sa_state \<Rightarrow> bool" where
  "best_valid mc s \<longleftrightarrow> sa_best_pos s = []
    \<or> valid_box (sa_setup s) (snd (pack_pair mc (sa_best_pos s) (sa_best_neg s) (sa_macros s)))"

definition best_wf :: "('m, 'f, 'g) sa_state \<Rightarrow> bool" where
  "best_wf s \<longleftrightarrow> sa_best_pos s = []
    \<or> seq_pair (sa_best_pos s) (sa_best_neg s) \<and> length (sa_best_pos s) = length (sa_pos_seq s)"

lemma isValid_box: "isValid s \<longleftrightarrow> valid_box (sa_setup s) (me_width (sa_metrics s), me_height (sa_metrics s))"
  by (simp add: isValid_def valid_box_def)

lemma same_size_refl [simp]: "same_size mc ms ms"
  by (simp add: same_size_def)

lemma same_size_trans: "same_size mc a b \<Longrightarrow> same_size mc b c \<Longrightarrow> same_size mc a c"
  by (simp add: same_size_def)

lemma sa_related_refl [simp]: "sa_related mc s s"
  by (simp add: sa_related_def)

lemma sa_related_trans: "sa_related mc a b \<Longrightarrow> sa_related mc b c \<Longrightarrow> sa_related mc a c"
  unfolding sa_related_def by (metis same_size_trans)

lemma sa_related_sym: "sa_related mc a b \<Longrightarrow> sa_related mc b a"
  unfolding sa_related_def same_size_def by metis

lemma sa_unread [simp]:
  "sa_wf movable (s\<lparr>sa_generator := g\<rparr>) = sa_wf movable s" "sa_wf movable (s\<lparr>sa_notch_weight := nw\<rparr>) = sa_wf movable s"
  "sa_wf movable (s\<lparr>sa_cost_list := cl, sa_T_list := temps\<rparr>) = sa_wf movable s" "sa_wf movable (s\<lparr>sa_metrics := me\<rparr>) = sa_wf movable s"
  "sa_related mc s0 (s\<lparr>sa_generator := g\<rparr>) = sa_related mc s0 s" "sa_related mc s0 (s\<lparr>sa_notch_weight := nw\<rparr>) = sa_related mc s0 s"
  "sa_related mc s0 (s\<lparr>sa_cost_list := cl, sa_T_list := temps\<rparr>) = sa_related mc s0 s"
  "sa_related mc s0 (s\<lparr>sa_metrics := me\<rparr>) = sa_related mc s0 s"
  by (simp_all add: sa_wf_def sa_related_def)

context placeable begin

text \<open>The box of a sequence pair is the same for macros of the same sizes.\<close>

lemma pack_box:
  assumes "sa_wf movable s" "sa_wf movable s'" "sa_related mc s s'" "seq_pair pos neg" "length pos = length (sa_pos_seq s)"
  shows "snd (pack_pair mc pos neg (sa_macros s')) = snd (pack_pair mc pos neg (sa_macros s))"
    "\<forall>a < length pos. mc_x mc (fst (pack_pair mc pos neg (sa_macros s')) ! a) = mc_x mc (fst (pack_pair mc pos neg (sa_macros s)) ! a)
       \<and> mc_y mc (fst (pack_pair mc pos neg (sa_macros s')) ! a) = mc_y mc (fst (pack_pair mc pos neg (sa_macros s)) ! a)"
proof -
  obtain ms w h where P: "pack_pair mc pos neg (sa_macros s) = (ms, w, h)" by (metis prod_cases3)
  obtain ms' w' h' where P': "pack_pair mc pos neg (sa_macros s') = (ms', w', h')" by (metis prod_cases3)
  have ne: "pos \<noteq> []" using assms(1,5) by (auto simp: sa_wf_def)
  have s: "length pos \<le> length (sa_macros s)" "\<forall>a < length pos. movable (sa_macros s ! a)"
    using assms(1,5) by (simp_all add: sa_wf_def)
  have s': "length pos \<le> length (sa_macros s')" "\<forall>a < length pos. movable (sa_macros s' ! a)"
    using assms(2,3,5) by (simp_all add: sa_wf_def sa_related_def)
  have "\<forall>a < length pos. mc_width mc (sa_macros s ! a) = mc_width mc (sa_macros s' ! a)
      \<and> mc_height mc (sa_macros s ! a) = mc_height mc (sa_macros s' ! a)"
    using assms(3) s(1) by (simp add: sa_related_def same_size_def)
  from pack_unique [OF assms(4) ne s s' this P P']
  show "snd (pack_pair mc pos neg (sa_macros s')) = snd (pack_pair mc pos neg (sa_macros s))"
    "\<forall>a < length pos. mc_x mc (fst (pack_pair mc pos neg (sa_macros s')) ! a) = mc_x mc (fst (pack_pair mc pos neg (sa_macros s)) ! a)
       \<and> mc_y mc (fst (pack_pair mc pos neg (sa_macros s')) ! a) = mc_y mc (fst (pack_pair mc pos neg (sa_macros s)) ! a)"
    by (simp_all add: P P')
qed

lemma pack_legal:
  assumes sp: "seq_pair pos neg" "pos \<noteq> []" "length pos \<le> length ms" "\<forall>a < length pos. movable (ms ! a)"
    and P: "pack_pair mc pos neg ms = (ms', w, h)"
  shows "legal_floorplan mc (take (length pos) ms') w h" "same_size mc ms ms'"
proof -
  note A = pack_spec [OF sp P]
  have "mc_x mc (ms' ! a) + mc_width mc (ms' ! a) \<le> mc_x mc (ms' ! b) \<or> mc_x mc (ms' ! b) + mc_width mc (ms' ! b) \<le> mc_x mc (ms' ! a)
      \<or> mc_y mc (ms' ! a) + mc_height mc (ms' ! a) \<le> mc_y mc (ms' ! b) \<or> mc_y mc (ms' ! b) + mc_height mc (ms' ! b) \<le> mc_y mc (ms' ! a)"
    if ab: "a < length pos" "b < length pos" "a \<noteq> b" for a b
  proof -
    have "a \<in> set pos" "b \<in> set pos" "a \<in> set neg" "b \<in> set neg"
      using sp(1) ab(1,2) by (simp_all add: seq_pair_def)
    then have "precedes pos a b \<or> precedes pos b a" "precedes neg a b \<or> precedes neg b a"
      using precedes_total ab(3) by blast+
    then show ?thesis using A(3,5,6) ab(1,2) by metis
  qed
  then show "legal_floorplan mc (take (length pos) ms') w h" using A(1,3,4) sp(3) by (simp add: legal_floorplan_def)
  show "same_size mc ms ms'" unfolding same_size_def using A(1,2,3) by (metis not_le)
qed

lemma packFloorplan_spec:
  assumes wf: "sa_wf movable s"
  defines "t \<equiv> packFloorplan mc s"
  shows "sa_wf movable t" "sa_related mc s t" "sa_packed mc t" "sa_best_pos t = sa_best_pos s" "sa_best_neg t = sa_best_neg s"
    "sa_pos_seq t = sa_pos_seq s" "sa_neg_seq t = sa_neg_seq s"
    "legal_floorplan mc (take (length (sa_pos_seq t)) (sa_macros t)) (me_width (sa_metrics t)) (me_height (sa_metrics t))"
proof -
  obtain ms w h where P: "pack_pair mc (sa_pos_seq s) (sa_neg_seq s) (sa_macros s) = (ms, w, h)" by (metis prod_cases3)
  have t: "t = s\<lparr>sa_macros := ms, sa_metrics := (sa_metrics s)\<lparr>me_width := w, me_height := h\<rparr>\<rparr>"
    by (simp add: t_def packFloorplan_def P)
  have sp: "seq_pair (sa_pos_seq s) (sa_neg_seq s)" "sa_pos_seq s \<noteq> []" "length (sa_pos_seq s) \<le> length (sa_macros s)"
    "\<forall>a < length (sa_pos_seq s). movable (sa_macros s ! a)"
    using wf by (simp_all add: sa_wf_def)
  note A = pack_spec [OF sp P]
  show wf': "sa_wf movable t" using sp A(1,3) by (simp add: sa_wf_def t)
  have "same_size mc (sa_macros s) ms" by (rule pack_legal(2) [OF sp P])
  then show rel: "sa_related mc s t" using A(1,2) by (simp add: sa_related_def t)
  show "sa_packed mc t"
    using pack_box(1) [OF wf wf' rel sp(1) refl] P by (simp add: sa_packed_def t)
  show "sa_best_pos t = sa_best_pos s" "sa_best_neg t = sa_best_neg s" "sa_pos_seq t = sa_pos_seq s" "sa_neg_seq t = sa_neg_seq s"
    by (simp_all add: t)
  show "legal_floorplan mc (take (length (sa_pos_seq t)) (sa_macros t)) (me_width (sa_metrics t)) (me_height (sa_metrics t))"
    using pack_legal(1) [OF sp P] by (simp add: t)
qed

end

locale annealing = placeable +
  fixes V :: "('g, 'b) sa_env \<Rightarrow> ('a, 'b::floor_ceiling, 'g) sa_virtual"
  assumes perturb_ok: "env_ok env \<Longrightarrow> sa_wf movable s \<Longrightarrow> vi_perturb (V env) s = Some r \<Longrightarrow>
      \<exists>s'. r = Inr s' \<and> sa_wf movable s' \<and> sa_related mc s s' \<and> sa_packed mc s'
        \<and> sa_best_pos s' = sa_best_pos s \<and> sa_best_neg s' = sa_best_neg s"
    and restore_ok: "env_ok env \<Longrightarrow> sa_wf movable s \<Longrightarrow> vi_perturb (V env) s = Some (Inr s') \<Longrightarrow>
      t = vi_restore (V env) (s'\<lparr>sa_best_pos := bp, sa_best_neg := bn, sa_generator := g\<rparr>) \<Longrightarrow>
      sa_wf movable t \<and> sa_related mc s t \<and> sa_pos_seq t = sa_pos_seq s \<and> sa_neg_seq t = sa_neg_seq s
        \<and> sa_metrics t = sa_metrics s \<and> sa_best_pos t = bp \<and> sa_best_neg t = bn"
    and penalty_ok: "\<exists>me. vi_calPenalty (V env) s = s\<lparr>sa_metrics := me\<rparr> \<and> me_width me = me_width (sa_metrics s)
        \<and> me_height me = me_height (sa_metrics s)"
begin

lemma best_valid_related:
  assumes "best_valid mc s" "best_wf s" "sa_wf movable s" "sa_wf movable s'" "sa_related mc s s'"
    "sa_best_pos s' = sa_best_pos s" "sa_best_neg s' = sa_best_neg s"
  shows "best_valid mc s'" "best_wf s'"
  using assms pack_box(1) [OF assms(3,4,5), of "sa_best_pos s" "sa_best_neg s"]
  by (auto simp: best_valid_def best_wf_def sa_related_def)

text \<open>
  What holds at every step from a floorplan \<open>s0\<close> on: the sequence pair and the best valid result are
  sequence pairs of the macros; where the measures of \<open>s0\<close> were those of its sequence pair, the best
  result fits, and where \<open>s0\<close> fits there is one.
\<close>

definition sa_inv :: "('a, 'b, 'g) sa_state \<Rightarrow> ('a, 'b, 'g) sa_state \<Rightarrow> bool" where
  "sa_inv s0 s \<longleftrightarrow> sa_wf movable s \<and> sa_related mc s0 s \<and> best_wf s \<and> (sa_packed mc s0 \<longrightarrow> best_valid mc s)
    \<and> (isValid s0 \<longrightarrow> sa_best_pos s \<noteq> [])"

lemma sa_inv_step:
  assumes "sa_inv s0 s" "sa_wf movable s'" "sa_related mc s s'" "sa_best_pos s' = sa_best_pos s" "sa_best_neg s' = sa_best_neg s"
  shows "sa_inv s0 s'"
  using assms best_valid_related [OF _ _ _ assms(2,3,4,5)] sa_related_trans [OF _ assms(3)] unfolding sa_inv_def
  by (metis best_wf_def sa_related_def)

lemma updateBest_inv:
  assumes "sa_inv s0 s" "sa_packed mc s" "isValid s"
  shows "sa_inv s0 (updateBestValidResult s)"
  using assms
  by (auto simp: sa_inv_def updateBestValidResult_def sa_wf_def best_wf_def best_valid_def sa_packed_def isValid_box sa_related_def)

lemma try_perturb_inv:
  assumes ok: "env_ok env" and inv: "sa_inv s0 s" and T: "try_perturb (V env) env temperature (s, pre_cost) = Some r"
  shows "\<exists>s' cost'. r = Inr (s', cost') \<and> sa_inv s0 s'"
proof -
  have wf: "sa_wf movable s" using inv by (simp add: sa_inv_def)
  obtain q where q: "vi_perturb (V env) s = Some q"
    using T by (cases "vi_perturb (V env) s") (simp_all add: try_perturb_def)
  obtain s1 where s1: "q = Inr s1" "sa_wf movable s1" "sa_related mc s s1" "sa_packed mc s1"
      "sa_best_pos s1 = sa_best_pos s" "sa_best_neg s1 = sa_best_neg s"
    using perturb_ok [OF ok wf q] by blast
  have inv1: "sa_inv s0 s1" by (rule sa_inv_step [OF inv s1(2,3,5,6)])
  define s2 where
    "s2 = (if isValid s1 \<and> (vi_calNormCost (V env) s1 < pre_cost \<or> sa_best_pos s1 = []) then updateBestValidResult s1 else s1)"
  have inv2: "sa_inv s0 s2" using inv1 updateBest_inv [OF inv1 s1(4)] by (simp add: s2_def)
  obtain num g where g: "env_uniform env (sa_generator s2) = (num, g)" by force
  have inv3: "sa_inv s0 (s2\<lparr>sa_generator := g\<rparr>)" by (rule sa_inv_step [OF inv2]) (use inv2 in \<open>simp_all add: sa_inv_def\<close>)
  define t where "t = vi_restore (V env) (s2\<lparr>sa_generator := g\<rparr>)"
  have s2: "s2\<lparr>sa_generator := g\<rparr> = s1\<lparr>sa_best_pos := sa_best_pos s2, sa_best_neg := sa_best_neg s2, sa_generator := g\<rparr>"
    by (simp add: s2_def updateBestValidResult_def)
  have t: "sa_wf movable t \<and> sa_related mc s t \<and> sa_pos_seq t = sa_pos_seq s \<and> sa_neg_seq t = sa_neg_seq s
        \<and> sa_metrics t = sa_metrics s \<and> sa_best_pos t = sa_best_pos s2 \<and> sa_best_neg t = sa_best_neg s2"
    by (rule restore_ok [OF ok wf q [unfolded s1(1)]]) (simp only: t_def s2)
  have rel: "sa_related mc s2 t"
  proof -
    have "sa_related mc s1 s2" by (simp add: s2_def updateBestValidResult_def sa_related_def)
    then show ?thesis using s1(3) t unfolding sa_related_def same_size_def by (metis)
  qed
  have inv4: "sa_inv s0 t" by (rule sa_inv_step [OF inv2 _ rel]) (use t in simp_all)
  have "r = Inr (s2\<lparr>sa_generator := g\<rparr>, vi_calNormCost (V env) s1) \<or> r = Inr (t, pre_cost)"
    using T q s1(1) g by (auto simp: try_perturb_def Let_def s2_def t_def split: if_splits)
  then show ?thesis using inv3 inv4 by auto
qed

lemma try_perturbs_inv:
  assumes "env_ok env"
  shows "sa_inv s0 s \<Longrightarrow> try_perturbs (V env) env temperature n (s, pre_cost) = Some r \<Longrightarrow> \<exists>s' cost'. r = Inr (s', cost') \<and> sa_inv s0 s'"
proof (induction n arbitrary: s pre_cost)
  case (Suc n)
  show ?case using Suc.prems(2) try_perturb_inv [OF assms Suc.prems(1)] Suc.IH by (fastforce simp: mpl_bind_Some)
qed auto

lemma repack_inv:
  fixes env s
  assumes "sa_inv s0 s"
  defines "t \<equiv> vi_calPenalty (V env) (packFloorplan mc s)"
  shows "sa_inv s0 t" "sa_packed mc t" "sa_best_pos t = sa_best_pos s" "sa_best_neg t = sa_best_neg s"
    "sa_pos_seq t = sa_pos_seq s" "sa_neg_seq t = sa_neg_seq s"
    "legal_floorplan mc (take (length (sa_pos_seq t)) (sa_macros t)) (me_width (sa_metrics t)) (me_height (sa_metrics t))"
proof -
  have wf: "sa_wf movable s" using assms(1) by (simp add: sa_inv_def)
  note A = packFloorplan_spec [OF wf]
  obtain me where me: "t = (packFloorplan mc s)\<lparr>sa_metrics := me\<rparr>" "me_width me = me_width (sa_metrics (packFloorplan mc s))"
      "me_height me = me_height (sa_metrics (packFloorplan mc s))"
    using penalty_ok [of env "packFloorplan mc s"] by (auto simp: t_def)
  show "sa_inv s0 t" by (rule sa_inv_step [OF assms(1)]) (use A in \<open>simp_all add: me\<close>)
  show "sa_packed mc t" "sa_best_pos t = sa_best_pos s" "sa_best_neg t = sa_best_neg s"
    "sa_pos_seq t = sa_pos_seq s" "sa_neg_seq t = sa_neg_seq s"
    "legal_floorplan mc (take (length (sa_pos_seq t)) (sa_macros t)) (me_width (sa_metrics t)) (me_height (sa_metrics t))"
    using A me(2,3) by (simp_all add: me(1) sa_packed_def)
qed

lemma end_of_step_inv:
  assumes "sa_inv s0 s"
  shows "\<exists>s' cost'. end_of_step mc (V env) step temperature (s, pre_cost) = (s', cost') \<and> sa_inv s0 s'"
proof -
  let ?s1 = "s\<lparr>sa_cost_list := sa_cost_list s @ [pre_cost], sa_T_list := sa_T_list s @ [temperature]\<rparr>"
  have 1: "sa_inv s0 ?s1" by (rule sa_inv_step [OF assms]) (use assms in \<open>simp_all add: sa_inv_def\<close>)
  have "sa_inv s0 (?s1\<lparr>sa_notch_weight := su_original_notch_weight (sa_setup ?s1)\<rparr>)"
    by (rule sa_inv_step [OF assms]) (use assms in \<open>simp_all add: sa_inv_def\<close>)
  from repack_inv(1) [OF this] 1 show ?thesis by (simp add: end_of_step_def Let_def)
qed

lemma anneal_steps_inv:
  assumes "env_ok env"
  shows "sa_inv s0 (fst state) \<Longrightarrow> anneal_steps mc (V env) env max_num_step t_factor step temperature state = Some r
    \<Longrightarrow> \<exists>s'. r = Inr s' \<and> sa_inv s0 s'"
proof (induction "nat (max_num_step + 1 - step)" arbitrary: step temperature state rule: less_induct)
  case less
  obtain s pre_cost where st: "state = (s, pre_cost)" by force
  show ?case
  proof (cases "step \<le> max_num_step")
    case True
    obtain q where q: "try_perturbs (V env) env temperature (su_num_perturb_per_step (sa_setup s)) (s, pre_cost) = Some q"
      "mpl_bind (Some q) (\<lambda>state'. anneal_steps mc (V env) env max_num_step t_factor (step + 1) (temperature * t_factor)
         (end_of_step mc (V env) (step + 1) (temperature * t_factor) state')) = Some r"
      using less.prems(2) True unfolding anneal_steps.simps [of mc "V env" env max_num_step t_factor step] st
      by (auto simp: mpl_bind_Some)
    obtain s1 cost1 where s1: "q = Inr (s1, cost1)" "sa_inv s0 s1"
      using try_perturbs_inv [OF assms _ q(1), of s0] less.prems(1) st by auto
    obtain s2 cost2 where s2: "end_of_step mc (V env) (step + 1) (temperature * t_factor) (s1, cost1) = (s2, cost2)" "sa_inv s0 s2"
      using end_of_step_inv [OF s1(2)] by blast
    show ?thesis using less.hyps [of "step + 1" "(s2, cost2)"] True q(2) s1(1) s2 by simp
  next
    case False
    then show ?thesis using less.prems unfolding anneal_steps.simps [of mc "V env" env max_num_step t_factor step] by auto
  qed
qed

text \<open>The annealing ends in a legal floorplan, and in one that fits if it starts with one.\<close>

lemma fastSA_legal:
  assumes ok: "env_ok env" and wf: "sa_wf movable s" "best_wf s" and F: "fastSA mc (V env) env s = Some r"
    and best: "sa_packed mc s \<Longrightarrow> best_valid mc s"
  shows "\<exists>s'. r = Inr s' \<and> sa_wf movable s' \<and> sa_related mc s s' \<and> sa_packed mc s'
      \<and> legal_floorplan mc (take (length (sa_pos_seq s')) (sa_macros s')) (me_width (sa_metrics s')) (me_height (sa_metrics s'))
      \<and> (sa_packed mc s \<and> isValid s \<longrightarrow> isValid s')"
proof -
  let ?s0 = "s\<lparr>sa_notch_weight := 0\<rparr>"
  let ?s1 = "if isValid ?s0 then updateBestValidResult ?s0 else ?s0"
  obtain t_factor q where q: "anneal_steps mc (V env) env (su_max_num_step (sa_setup s)) t_factor 1 (sa_init_temperature s)
        (?s1, vi_calNormCost (V env) s) = Some q"
      "mpl_bind (Some q) (\<lambda>s2. let s3 = vi_calPenalty (V env) (packFloorplan mc s2)
          in Some (Inr (if \<not> isValid s3 \<and> sa_best_pos s3 \<noteq> [] then useBestValidResult mc (V env) s3 else s3))) = Some r"
    using F unfolding fastSA_def Let_def by (auto simp: mpl_bind_Some)
  have "sa_inv s ?s1"
    using wf best by (auto simp: sa_inv_def updateBestValidResult_def sa_wf_def best_wf_def best_valid_def sa_packed_def isValid_box sa_related_def)
  then obtain s2 where s2: "q = Inr s2" "sa_inv s s2" using anneal_steps_inv [OF ok _ q(1)] by auto
  define s3 where "s3 = vi_calPenalty (V env) (packFloorplan mc s2)"
  note A = repack_inv [OF s2(2), of env, folded s3_def]
  have r: "r = Inr (if \<not> isValid s3 \<and> sa_best_pos s3 \<noteq> [] then useBestValidResult mc (V env) s3 else s3)"
    using q(2) s2(1) by (auto simp: s3_def Let_def)
  show ?thesis
  proof (cases "\<not> isValid s3 \<and> sa_best_pos s3 \<noteq> []")
    case True
    define s4 where "s4 = s3\<lparr>sa_pos_seq := sa_best_pos s3, sa_neg_seq := sa_best_neg s3\<rparr>"
    have 4: "sa_inv s s4"
      using A(1) True by (auto simp: s4_def sa_inv_def sa_wf_def best_wf_def best_valid_def sa_related_def)
    define s5 where "s5 = useBestValidResult mc (V env) s3"
    have s5: "s5 = vi_calPenalty (V env) (packFloorplan mc s4)" by (simp add: s5_def useBestValidResult_def s4_def)
    note B = repack_inv [OF 4, of env, folded s5]
    have "isValid s5" if "sa_packed mc s"
    proof -
      have "best_valid mc s5" using B(1) that by (simp add: sa_inv_def)
      moreover have "sa_best_pos s5 = sa_pos_seq s5" "sa_best_neg s5 = sa_neg_seq s5" using B(3-6) by (simp_all add: s4_def)
      ultimately show ?thesis using B(2,3) True by (simp add: best_valid_def sa_packed_def isValid_box s4_def)
    qed
    then show ?thesis using r True B(1,2,7) by (simp add: sa_inv_def s5_def)
  next
    case False
    then show ?thesis using r A(1,2,7) by (auto simp: sa_inv_def)
  qed
qed

end

text \<open>Where every perturbation returns, so does the annealing.\<close>

locale returning_annealing = annealing +
  assumes perturb_returns: "env_ok env \<Longrightarrow> env_fair env \<Longrightarrow> sa_wf movable s \<Longrightarrow> \<exists>r. vi_perturb (V env) s = Some r"
begin

lemma try_perturbs_returns:
  assumes "env_ok env" "env_fair env"
  shows "sa_inv s0 s \<Longrightarrow> \<exists>r. try_perturbs (V env) env temperature n (s, pre_cost) = Some r"
proof (induction n arbitrary: s pre_cost)
  case (Suc n)
  obtain q where q: "vi_perturb (V env) s = Some q" using perturb_returns [OF assms] Suc.prems by (auto simp: sa_inv_def)
  then obtain s1 where "q = Inr s1" using perturb_ok [OF assms(1) _ q] Suc.prems by (auto simp: sa_inv_def)
  then have "\<exists>r. try_perturb (V env) env temperature (s, pre_cost) = Some r"
    using q by (simp add: try_perturb_def Let_def split: prod.split)
  then obtain r where r: "try_perturb (V env) env temperature (s, pre_cost) = Some r" ..
  then obtain s' cost' where "r = Inr (s', cost')" "sa_inv s0 s'" using try_perturb_inv [OF assms(1) Suc.prems r] by blast
  then show ?case using r Suc.IH by simp
qed simp

lemma anneal_steps_returns:
  assumes "env_ok env" "env_fair env"
  shows "sa_inv s0 (fst state) \<Longrightarrow> \<exists>r. anneal_steps mc (V env) env max_num_step t_factor step temperature state = Some r"
proof (induction "nat (max_num_step + 1 - step)" arbitrary: step temperature state rule: less_induct)
  case less
  obtain s pre_cost where st: "state = (s, pre_cost)" by force
  obtain q where q: "try_perturbs (V env) env temperature (su_num_perturb_per_step (sa_setup s)) (s, pre_cost) = Some q"
    using try_perturbs_returns [OF assms less.prems] unfolding st fst_conv by blast
  obtain s1 cost1 where s1: "q = Inr (s1, cost1)" "sa_inv s0 s1"
    using try_perturbs_inv [OF assms(1) _ q, of s0] less.prems st by auto
  obtain s2 cost2 where s2: "end_of_step mc (V env) (step + 1) (temperature * t_factor) (s1, cost1) = (s2, cost2)" "sa_inv s0 s2"
    using end_of_step_inv [OF s1(2)] by blast
  show ?case
  proof (cases "step \<le> max_num_step")
    case True
    then have "\<exists>r. anneal_steps mc (V env) env max_num_step t_factor (step + 1) (temperature * t_factor) (s2, cost2) = Some r"
      using less.hyps [of "step + 1" "(s2, cost2)"] s2(2) by simp
    then show ?thesis
      unfolding anneal_steps.simps [of mc "V env" env max_num_step t_factor step] using True q s1(1) s2(1) st by simp
  next
    case False
    then show ?thesis unfolding anneal_steps.simps [of mc "V env" env max_num_step t_factor step] by simp
  qed
qed

lemma fastSA_returns:
  assumes "env_ok env" "env_fair env" "sa_wf movable s" "best_wf s" "sa_packed mc s \<Longrightarrow> best_valid mc s"
  shows "\<exists>s'. fastSA mc (V env) env s = Some (Inr s')"
proof -
  let ?s0 = "s\<lparr>sa_notch_weight := 0\<rparr>"
  let ?s1 = "if isValid ?s0 then updateBestValidResult ?s0 else ?s0"
  have inv: "sa_inv s ?s1"
    using assms(3-5) by (auto simp: sa_inv_def updateBestValidResult_def sa_wf_def best_wf_def best_valid_def sa_packed_def isValid_box sa_related_def)
  have "\<exists>s2. anneal_steps mc (V env) env m t_factor 1 temp (?s1, c) = Some (Inr s2)" for m t_factor temp c
  proof -
    have fs: "sa_inv s (fst (?s1, c))" using inv by simp
    obtain r where r: "anneal_steps mc (V env) env m t_factor 1 temp (?s1, c) = Some r"
      using anneal_steps_returns [OF assms(1,2) fs] by blast
    then show ?thesis using anneal_steps_inv [OF assms(1) fs r] by blast
  qed
  then show ?thesis unfolding fastSA_def Let_def by (metis mpl_bind_simps(3))
qed

end

end
