(* ===== verification/MplHard.thy ===== *)
theory MplHard imports MplAnneal begin

text \<open>
  The annealing of hard macros (\<open>src/mpl/src/SACoreHardMacro.cpp\<close>) and the proof that it ends with a
  legal floorplan.
\<close>

section \<open>The code\<close>

definition calNormCost :: "('m, 'f::linordered_field, 'g) sa_state \<Rightarrow> 'f" where
  "calNormCost s =
    (let me = sa_metrics s;
         nm = sa_norms s;
         aw = su_weights (sa_setup s);
         cost = 0;
         cost = if nm_area nm > 0 then cost + aw_area aw * getAreaPenalty (sa_setup s) me else cost;
         cost = if nm_outline nm > 0 then cost + aw_outline aw * me_outline_penalty me / nm_outline nm else cost;
         cost = if nm_wirelength nm > 0 then cost + aw_wirelength aw * me_wirelength me / nm_wirelength nm else cost;
         cost = if nm_guidance nm > 0 then cost + aw_guidance aw * me_guidance_penalty me / nm_guidance nm else cost
     in if nm_fence nm > 0 then cost + aw_fence aw * me_fence_penalty me / nm_fence nm else cost)"

definition calPenalty ::
    "('m, 'f::linordered_field) macro_class \<Rightarrow> ('m, 'f, 'g) sa_state \<Rightarrow> ('m, 'f, 'g) sa_state" where
  "calPenalty mc s =
    (let su = sa_setup s;
         macros = sa_macros s;
         me1 = calOutlinePenalty su (sa_metrics s);
         me2 = calWirelength mc su macros me1;
         me3 = calGuidancePenalty mc su macros me2
     in s\<lparr>sa_metrics := calFencePenalty mc su macros me3\<rparr>)"

type_synonym ('f, 'g) hard_state = "('f hard_macro, 'f, 'g) sa_state"

definition flipAllMacros :: "('f::linordered_field, 'g) hard_state \<Rightarrow> ('f, 'g) hard_state" where
  "flipAllMacros s =
    s\<lparr>sa_macros := fold (\<lambda>macro_id macros. macros[macro_id := hm_flip False (macros ! macro_id)]) (sa_pos_seq s) (sa_macros s)\<rparr>"

definition back_up :: "('m, 'f, 'g) sa_state \<Rightarrow> ('m, 'f, 'g) sa_state" where
  "back_up s = s\<lparr>sa_pre_pos_seq := sa_pos_seq s, sa_pre_neg_seq := sa_neg_seq s, sa_pre_metrics := sa_metrics s\<rparr>"

definition perturb_action :: "('g, 'f::linordered_field) sa_env \<Rightarrow> ('f, 'g) hard_state \<Rightarrow> ('f, 'g) hard_state mpl_result" where
  "perturb_action env s =
    (let (op, g) = env_uniform env (sa_generator s);
         s = s\<lparr>sa_generator := g\<rparr>;
         pr = su_probs (sa_setup s);
         action_prob_1 = pr_pos_swap pr;
         action_prob_2 = action_prob_1 + pr_neg_swap pr;
         action_prob_3 = action_prob_2 + pr_double_swap pr;
         action_prob_4 = action_prob_3 + pr_exchange pr
     in if op \<le> action_prob_1 then singleSeqSwap env True (s\<lparr>sa_action_id := 1\<rparr>)
        else if op \<le> action_prob_2 then singleSeqSwap env False (s\<lparr>sa_action_id := 2\<rparr>)
        else if op \<le> action_prob_3 then doubleSeqSwap env (s\<lparr>sa_action_id := 3\<rparr>)
        else if op \<le> action_prob_4 then exchangeMacros env (s\<lparr>sa_action_id := 4\<rparr>)
        else Some (Inr (flipAllMacros (s\<lparr>sa_action_id := 5, sa_pre_macros := sa_macros s\<rparr>))))"

definition perturb :: "('g, 'f::linordered_field) sa_env \<Rightarrow> ('f, 'g) hard_state \<Rightarrow> ('f, 'g) hard_state mpl_result" where
  "perturb env s =
    (if sa_macros s = [] then Some (Inr s)
     else mpl_bind (perturb_action env (back_up s)) (\<lambda>s'. Some (Inr (calPenalty hard_class (packFloorplan hard_class s')))))"

definition restore :: "('m, 'f, 'g) sa_state \<Rightarrow> ('m, 'f, 'g) sa_state" where
  "restore s =
    (if sa_macros s = [] then s
     else let s' = (if sa_action_id s = 5 then s\<lparr>sa_macros := sa_pre_macros s\<rparr>
                    else if sa_action_id s = 1 then s\<lparr>sa_pos_seq := sa_pre_pos_seq s\<rparr>
                    else if sa_action_id s = 2 then s\<lparr>sa_neg_seq := sa_pre_neg_seq s\<rparr>
                    else s\<lparr>sa_pos_seq := sa_pre_pos_seq s, sa_neg_seq := sa_pre_neg_seq s\<rparr>)
          in s'\<lparr>sa_metrics := sa_pre_metrics s'\<rparr>)"

text \<open>The perturbations of the setup, each with the metrics it leaves.\<close>

primrec sample_perturbs ::
    "('g, 'f::linordered_field) sa_env \<Rightarrow> nat \<Rightarrow> ('f, 'g) hard_state \<Rightarrow> (('f, 'g) hard_state \<times> 'f sa_metrics list) mpl_result" where
  "sample_perturbs env 0 s = Some (Inr (s, []))"
| "sample_perturbs env (Suc n) s =
    mpl_bind (perturb env s) (\<lambda>s1.
      mpl_bind (sample_perturbs env n s1) (\<lambda>(s2, list). Some (Inr (s2, sa_metrics s1 # list))))"

definition norm_penalty :: "'f::linordered_field list \<Rightarrow> 'f" where
  "norm_penalty penalty_list = (let norm = calAverage penalty_list in if norm \<le> 1 / 10000 then 1 else norm)"

definition delta_costs :: "'f::linordered_field list \<Rightarrow> 'f" where
  "delta_costs cost_list =
    foldl (\<lambda>delta_cost i. delta_cost + \<bar>cost_list ! i - cost_list ! (i - 1)\<bar>) 0 [1..<length cost_list]"

text \<open>The penalties of the last sample are written back last, with the cost of each under way.\<close>

definition sa_initialize :: "('g, 'f::linordered_field) sa_env \<Rightarrow> ('f, 'g) hard_state \<Rightarrow> ('f, 'g) hard_state mpl_result" where
  "sa_initialize env s =
    (let s0 = initSequencePair s
     in mpl_bind (sample_perturbs env (su_num_perturb_per_step (sa_setup s0)) s0) (\<lambda>(s1, samples).
          let norms = \<lparr>nm_area = norm_penalty (map (\<lambda>me. me_width me * me_height me) samples),
                nm_outline = norm_penalty (map me_outline_penalty samples),
                nm_wirelength = norm_penalty (map me_wirelength samples),
                nm_guidance = norm_penalty (map me_guidance_penalty samples),
                nm_fence = norm_penalty (map me_fence_penalty samples)\<rparr>;
              s2 = s1\<lparr>sa_norms := norms\<rparr>;
              (s3, cost_list) = foldl (\<lambda>(s, cost_list) me.
                  let s' = s\<lparr>sa_metrics := me\<rparr> in (s', cost_list @ [calNormCost s'])) (s2, []) samples;
              delta_cost = delta_costs cost_list
          in Some (Inr (s3\<lparr>sa_init_temperature :=
               (if length cost_list > 1 \<and> delta_cost > 0
                then -1 * (delta_cost / of_nat (length cost_list - 1)) / env_log env (su_init_prob (sa_setup s3))
                else 1)\<rparr>))))"

definition hard_virtual :: "('g, 'f::linordered_field) sa_env \<Rightarrow> ('f hard_macro, 'f, 'g) sa_virtual" where
  "hard_virtual env = \<lparr>vi_perturb = perturb env, vi_restore = restore, vi_calPenalty = calPenalty hard_class,
     vi_calNormCost = calNormCost\<rparr>"

definition run :: "('g, 'f::floor_ceiling) sa_env \<Rightarrow> ('f, 'g) hard_state \<Rightarrow> ('f, 'g) hard_state mpl_result" where
  "run env s = fastSA hard_class (hard_virtual env) env s"

definition runSA :: "('g, 'f::floor_ceiling) sa_env \<Rightarrow> ('f, 'g) hard_state \<Rightarrow> ('f, 'g) hard_state mpl_result" where
  "runSA env s = mpl_bind (sa_initialize env s) (run env)"

section \<open>Moves keep the sequence pair\<close>

lemma hard_wf_seq: "sa_wf movable s \<Longrightarrow> seq_pair (sa_pos_seq s) (sa_neg_seq s)"
  by (simp add: sa_wf_def)

text \<open>What an action may change: the sequence pair and, in the fifth, the macros of the sequence pair.\<close>

definition hard_moved :: "('f::linordered_field, 'g) hard_state \<Rightarrow> ('f, 'g) hard_state \<Rightarrow> bool" where
  "hard_moved s s' \<longleftrightarrow> sa_setup s' = sa_setup s \<and> sa_norms s' = sa_norms s \<and> sa_metrics s' = sa_metrics s
    \<and> sa_pre_pos_seq s' = sa_pre_pos_seq s \<and> sa_pre_neg_seq s' = sa_pre_neg_seq s \<and> sa_pre_metrics s' = sa_pre_metrics s
    \<and> sa_best_pos s' = sa_best_pos s \<and> sa_best_neg s' = sa_best_neg s
    \<and> seq_pair (sa_pos_seq s') (sa_neg_seq s') \<and> length (sa_pos_seq s') = length (sa_pos_seq s)
    \<and> (sa_action_id s' = 1 \<and> sa_neg_seq s' = sa_neg_seq s \<and> sa_macros s' = sa_macros s
       \<or> sa_action_id s' = 2 \<and> sa_pos_seq s' = sa_pos_seq s \<and> sa_macros s' = sa_macros s
       \<or> sa_action_id s' \<in> {3, 4} \<and> sa_macros s' = sa_macros s
       \<or> sa_action_id s' = 5 \<and> sa_pos_seq s' = sa_pos_seq s \<and> sa_neg_seq s' = sa_neg_seq s \<and> sa_pre_macros s' = sa_macros s
         \<and> sa_macros s' = sa_macros (flipAllMacros s))"

lemma singleSeqSwap_moved:
  assumes ok: "env_ok env" and sp: "seq_pair (sa_pos_seq s) (sa_neg_seq s)"
    and R: "singleSeqSwap env pos (s\<lparr>sa_generator := g0, sa_action_id := if pos then 1 else 2\<rparr>) = Some r"
  shows "\<exists>s'. r = Inr s' \<and> hard_moved s s'"
proof (cases "length (sa_pos_seq s) \<le> 1")
  case True
  then show ?thesis using R sp by (auto simp: singleSeqSwap_def hard_moved_def)
next
  case False
  let ?t = "s\<lparr>sa_generator := g0, sa_action_id := if pos then 1 else 2\<rparr>"
  obtain i j t' where G: "generateRandomIndices env ?t = Some (i, j, t')"
    using R False by (auto simp: singleSeqSwap_def split: option.splits)
  have ne: "sa_pos_seq ?t \<noteq> []" using False by auto
  obtain g where "t' = ?t\<lparr>sa_generator := g\<rparr>" "i < length (sa_pos_seq s)" "j < length (sa_pos_seq s)"
    using generateRandomIndices_spec [OF G ok ne] by auto
  then show ?thesis using R False G seq_pair_swap [OF sp] by (auto simp: singleSeqSwap_def hard_moved_def)
qed

lemma doubleSeqSwap_moved:
  assumes ok: "env_ok env" and sp: "seq_pair (sa_pos_seq s) (sa_neg_seq s)"
    and R: "doubleSeqSwap env (s\<lparr>sa_generator := g0, sa_action_id := 3\<rparr>) = Some r"
  shows "\<exists>s'. r = Inr s' \<and> hard_moved s s'"
proof (cases "length (sa_pos_seq s) \<le> 1")
  case True
  then show ?thesis using R sp by (auto simp: doubleSeqSwap_def hard_moved_def)
next
  case False
  let ?t = "s\<lparr>sa_generator := g0, sa_action_id := 3\<rparr>"
  obtain i j t' where G: "generateRandomIndices env ?t = Some (i, j, t')"
    using R False by (auto simp: doubleSeqSwap_def split: option.splits)
  have ne: "sa_pos_seq ?t \<noteq> []" using False by auto
  obtain g where "t' = ?t\<lparr>sa_generator := g\<rparr>" "i < length (sa_pos_seq s)" "j < length (sa_pos_seq s)"
    using generateRandomIndices_spec [OF G ok ne] by auto
  then show ?thesis using R False G seq_pair_swap2 [OF sp] by (auto simp: doubleSeqSwap_def hard_moved_def)
qed

text \<open>The two macros are in the negative sequence too, so the error is never raised.\<close>

lemma exchangeMacros_no_error:
  assumes ok: "env_ok env" and sp: "seq_pair (sa_pos_seq s) (sa_neg_seq s)" and R: "exchangeMacros env s = Some r"
  shows "\<exists>s'. r = Inr s' \<and> seq_pair (sa_pos_seq s') (sa_neg_seq s')
    \<and> (\<exists>pos neg g. s' = s\<lparr>sa_generator := g, sa_pos_seq := pos, sa_neg_seq := neg\<rparr> \<and> length pos = length (sa_pos_seq s))"
proof (cases "length (sa_pos_seq s) \<le> 1")
  case True
  then have "r = Inr s" using R by (simp add: exchangeMacros_def)
  moreover have "s = s\<lparr>sa_generator := sa_generator s, sa_pos_seq := sa_pos_seq s, sa_neg_seq := sa_neg_seq s\<rparr>" by simp
  ultimately show ?thesis using sp by blast
next
  case False
  obtain i j t where G: "generateRandomIndices env s = Some (i, j, t)"
    using R False by (auto simp: exchangeMacros_def split: option.splits)
  have ne: "sa_pos_seq s \<noteq> []" using False by auto
  obtain g where t: "t = s\<lparr>sa_generator := g\<rparr>" and ij: "i < length (sa_pos_seq s)" "j < length (sa_pos_seq s)"
    using generateRandomIndices_spec [OF G ok ne] by auto
  let ?pos = "swap i j (sa_pos_seq s)" and ?n = "length (sa_pos_seq s)"
  have sp': "seq_pair ?pos (sa_neg_seq s)" by (rule seq_pair_swap(1) [OF sp ij])
  have "last_index (?pos ! k) (sa_neg_seq s) ?n \<noteq> None \<and> the (last_index (?pos ! k) (sa_neg_seq s) ?n) < ?n" if "k < ?n" for k
  proof -
    have "?pos ! k \<in> set ?pos" using that by simp
    then have "?pos ! k \<in> set (take ?n (sa_neg_seq s))" using sp' seq_pair_length [OF sp'] by (simp add: seq_pair_def)
    from last_index_found [OF this] seq_pair_length [OF sp'] show ?thesis by auto
  qed
  from this [OF ij(1)] this [OF ij(2)] obtain i' j' where
    L: "last_index (?pos ! i) (sa_neg_seq s) ?n = Some i'" "last_index (?pos ! j) (sa_neg_seq s) ?n = Some j'" "i' < ?n" "j' < ?n"
    by auto
  let ?s' = "s\<lparr>sa_generator := g, sa_pos_seq := ?pos, sa_neg_seq := swap i' j' (sa_neg_seq s)\<rparr>"
  have "r = Inr ?s'" using R False G L by (simp add: exchangeMacros_def t Let_def)
  moreover have "seq_pair (sa_pos_seq ?s') (sa_neg_seq ?s')" using seq_pair_swap2 [OF sp ij L(3,4)] by simp
  moreover have "?s' = ?s' \<and> length ?pos = ?n" by simp
  ultimately show ?thesis by blast
qed

lemma flip_fold:
  "length (fold (\<lambda>v ms. ms[v := hm_flip False (ms ! v)]) xs ms) = length ms
    \<and> (\<forall>a. a \<notin> set xs \<longrightarrow> fold (\<lambda>v ms. ms[v := hm_flip False (ms ! v)]) xs ms ! a = ms ! a)
    \<and> (\<forall>a < length ms. hm_width (fold (\<lambda>v ms. ms[v := hm_flip False (ms ! v)]) xs ms ! a) = hm_width (ms ! a)
        \<and> hm_height (fold (\<lambda>v ms. ms[v := hm_flip False (ms ! v)]) xs ms ! a) = hm_height (ms ! a))"
proof (induction xs rule: rev_induct)
  case (snoc v xs)
  then show ?case by (cases "v < length ms") (auto simp: nth_list_update list_update_beyond)
qed simp

lemma perturb_action_moved:
  assumes ok: "env_ok env" and sp: "seq_pair (sa_pos_seq s) (sa_neg_seq s)" and R: "perturb_action env s = Some r"
  shows "\<exists>s'. r = Inr s' \<and> hard_moved s s'"
proof -
  obtain q g where g: "env_uniform env (sa_generator s) = (q, g)" by force
  consider "singleSeqSwap env True (s\<lparr>sa_generator := g, sa_action_id := if True then 1 else 2\<rparr>) = Some r"
    | "singleSeqSwap env False (s\<lparr>sa_generator := g, sa_action_id := if False then 1 else 2\<rparr>) = Some r"
    | "doubleSeqSwap env (s\<lparr>sa_generator := g, sa_action_id := 3\<rparr>) = Some r"
    | "exchangeMacros env (s\<lparr>sa_generator := g, sa_action_id := 4\<rparr>) = Some r"
    | "r = Inr (flipAllMacros (s\<lparr>sa_generator := g, sa_action_id := 5, sa_pre_macros := sa_macros s\<rparr>))"
    using R g by (auto simp: perturb_action_def Let_def split: if_splits)
  then show ?thesis
  proof cases
    case 4
    then show ?thesis using exchangeMacros_no_error [OF ok _ 4] sp by (auto simp: hard_moved_def)
  next
    case 5
    then show ?thesis using sp by (auto simp: hard_moved_def flipAllMacros_def)
  qed (use singleSeqSwap_moved [OF ok sp] doubleSeqSwap_moved [OF ok sp] in blast)+
qed

section \<open>The contract for hard macros\<close>

lemma calPenalty_metrics:
  "\<exists>me. calPenalty mc s = s\<lparr>sa_metrics := me\<rparr> \<and> me_width me = me_width (sa_metrics s) \<and> me_height me = me_height (sa_metrics s)"
  by (intro exI [of _ "sa_metrics (calPenalty mc s)"])
    (simp add: calPenalty_def calOutlinePenalty_def calWirelength_def calGuidancePenalty_def calFencePenalty_def Let_def)

lemma moved_related:
  assumes wf: "sa_wf hm_movable s" and m: "hard_moved s s'"
  shows "sa_wf hm_movable s'" "sa_related hard_class s s'"
proof -
  have pos: "set (sa_pos_seq s) = {0..<length (sa_pos_seq s)}" using wf by (simp add: sa_wf_def seq_pair_def)
  note F = flip_fold [of "sa_pos_seq s" "sa_macros s"]
  have ms: "sa_macros s' = sa_macros s \<or> sa_macros s' = sa_macros (flipAllMacros s)" using m by (auto simp: hard_moved_def)
  have len: "length (sa_macros s') = length (sa_macros s)" using ms F by (auto simp: flipAllMacros_def)
  have sz: "hm_width (sa_macros s' ! a) = hm_width (sa_macros s ! a) \<and> hm_height (sa_macros s' ! a) = hm_height (sa_macros s ! a)"
    if "a < length (sa_macros s)" for a
    using ms F that by (auto simp: flipAllMacros_def)
  have fixed: "sa_macros s' ! a = sa_macros s ! a" if "a \<ge> length (sa_pos_seq s)" for a
    using ms F that pos by (auto simp: flipAllMacros_def)
  show "sa_wf hm_movable s'" using wf m len sz by (auto simp: sa_wf_def hard_moved_def hm_movable_def)
  show "sa_related hard_class s s'" using m len sz fixed by (auto simp: sa_related_def hard_moved_def same_size_def)
qed

lemma perturb_moved:
  assumes ok: "env_ok env" and wf: "sa_wf hm_movable s" and R: "perturb env s = Some r"
  shows "\<exists>s1. perturb_action env (back_up s) = Some (Inr s1) \<and> hard_moved (back_up s) s1
    \<and> r = Inr (calPenalty hard_class (packFloorplan hard_class s1))"
proof -
  have ne: "sa_macros s \<noteq> []" using wf by (auto simp: sa_wf_def)
  have sp: "seq_pair (sa_pos_seq (back_up s)) (sa_neg_seq (back_up s))" using wf by (simp add: sa_wf_def back_up_def)
  obtain q where q: "perturb_action env (back_up s) = Some q" using R ne by (auto simp: perturb_def mpl_bind_Some)
  then obtain s1 where "q = Inr s1" "hard_moved (back_up s) s1" using perturb_action_moved [OF ok sp q] by blast
  then show ?thesis using R ne q by (simp add: perturb_def)
qed

lemma back_up_wf: "sa_wf movable (back_up s) = sa_wf movable s" "sa_related mc (back_up s) t = sa_related mc s t"
  by (simp_all add: sa_wf_def sa_related_def back_up_def)

text \<open>Packing and the penalties touch the macros and the metrics only.\<close>

lemma packed_fields:
  defines "t \<equiv> \<lambda>mc s. calPenalty mc (packFloorplan mc s)"
  shows "sa_setup (t mc s) = sa_setup s" "sa_pos_seq (t mc s) = sa_pos_seq s" "sa_neg_seq (t mc s) = sa_neg_seq s"
    "sa_pre_pos_seq (t mc s) = sa_pre_pos_seq s" "sa_pre_neg_seq (t mc s) = sa_pre_neg_seq s"
    "sa_pre_macros (t mc s) = sa_pre_macros s" "sa_pre_metrics (t mc s) = sa_pre_metrics s"
    "sa_action_id (t mc s) = sa_action_id s" "sa_best_pos (t mc s) = sa_best_pos s" "sa_best_neg (t mc s) = sa_best_neg s"
    "sa_generator (t mc s) = sa_generator s" "sa_norms (t mc s) = sa_norms s"
  by (simp_all add: t_def calPenalty_def packFloorplan_def Let_def split: prod.split)

lemma hard_virtual_simps [simp]:
  "vi_perturb (hard_virtual env) = perturb env" "vi_restore (hard_virtual env) = restore"
  "vi_calPenalty (hard_virtual env) = calPenalty hard_class" "vi_calNormCost (hard_virtual env) = calNormCost"
  by (simp_all add: hard_virtual_def)

lemma perturb_contract:
  assumes "env_ok env" "sa_wf hm_movable s" "perturb env s = Some r"
  shows "\<exists>s'. r = Inr s' \<and> sa_wf hm_movable s' \<and> sa_related hard_class s s' \<and> sa_packed hard_class s'
    \<and> sa_best_pos s' = sa_best_pos s \<and> sa_best_neg s' = sa_best_neg s"
proof -
  obtain s1 where m: "hard_moved (back_up s) s1" and r: "r = Inr (calPenalty hard_class (packFloorplan hard_class s1))"
    using perturb_moved [OF assms] by blast
  have s1: "sa_wf hm_movable s1" "sa_related hard_class s s1"
    using moved_related [OF _ m] assms(2) by (simp_all add: back_up_wf)
  note A = hard.packFloorplan_spec [OF s1(1)]
  obtain me where me: "calPenalty hard_class (packFloorplan hard_class s1) = (packFloorplan hard_class s1)\<lparr>sa_metrics := me\<rparr>"
    "me_width me = me_width (sa_metrics (packFloorplan hard_class s1))"
    "me_height me = me_height (sa_metrics (packFloorplan hard_class s1))"
    using calPenalty_metrics by blast
  have "sa_packed hard_class ((packFloorplan hard_class s1)\<lparr>sa_metrics := me\<rparr>)" using A(3) me(2,3) by (simp add: sa_packed_def)
  then show ?thesis using r A(1,2,4,5) sa_related_trans [OF s1(2) A(2)] m by (simp add: me(1) hard_moved_def back_up_def)
qed

lemma restore_contract:
  assumes ok: "env_ok env" and wf: "sa_wf hm_movable s" and R: "perturb env s = Some (Inr s')"
    and t: "t = restore (s'\<lparr>sa_best_pos := bp, sa_best_neg := bn, sa_generator := g\<rparr>)"
  shows "sa_wf hm_movable t \<and> sa_related hard_class s t \<and> sa_pos_seq t = sa_pos_seq s \<and> sa_neg_seq t = sa_neg_seq s
    \<and> sa_metrics t = sa_metrics s \<and> sa_best_pos t = bp \<and> sa_best_neg t = bn"
proof -
  obtain s1 where m: "hard_moved (back_up s) s1" and s': "s' = calPenalty hard_class (packFloorplan hard_class s1)"
    using perturb_moved [OF ok wf R] by blast
  note P = packed_fields [of hard_class s1, folded s']
  obtain wf': "sa_wf hm_movable s'" and rel: "sa_related hard_class s s'" using perturb_contract [OF ok wf R] by auto
  have ne: "sa_macros s' \<noteq> []" using wf' by (auto simp: sa_wf_def)
  have seq: "sa_pos_seq t = sa_pos_seq s \<and> sa_neg_seq t = sa_neg_seq s \<and> sa_metrics t = sa_metrics s
      \<and> sa_best_pos t = bp \<and> sa_best_neg t = bn \<and> sa_setup t = sa_setup s"
    using m P ne by (auto simp: t restore_def hard_moved_def back_up_def Let_def)
  have macros: "sa_macros t = sa_macros s \<or> sa_macros t = sa_macros s'"
    using m P ne by (auto simp: t restore_def hard_moved_def back_up_def Let_def)
  have len: "length (sa_pos_seq s') = length (sa_pos_seq s)" using rel by (simp add: sa_related_def)
  have "sa_wf hm_movable t" using macros wf wf' seq len by (auto simp: sa_wf_def)
  moreover have "sa_related hard_class s t" using macros rel seq by (auto simp: sa_related_def)
  ultimately show ?thesis using seq by blast
qed

lemma actions_return:
  fixes env :: "('g, 'f::linordered_field) sa_env" and s :: "('f, 'g) hard_state"
  assumes "env_fair env"
  shows "\<exists>r. singleSeqSwap env b s = Some r" "\<exists>r. doubleSeqSwap env s = Some r" "\<exists>r. exchangeMacros env s = Some r"
proof -
  have "\<exists>i j t. generateRandomIndices env s = Some (i, j, t)" if "1 < length (sa_pos_seq s)"
    using generateRandomIndices_returns [OF assms that] by (metis prod_cases3)
  then show "\<exists>r. singleSeqSwap env b s = Some r" "\<exists>r. doubleSeqSwap env s = Some r" "\<exists>r. exchangeMacros env s = Some r"
    by (cases "length (sa_pos_seq s) \<le> 1";
        auto simp: singleSeqSwap_def doubleSeqSwap_def exchangeMacros_def Let_def split: option.split)+
qed

lemma perturb_total:
  fixes env :: "('g, 'f::linordered_field) sa_env" and s :: "('f, 'g) hard_state"
  assumes ok: "env_ok env" "env_fair env" and ne: "sa_pos_seq s \<noteq> []" and sp: "seq_pair (sa_pos_seq s) (sa_neg_seq s)"
  shows "\<exists>r. perturb env s = Some r"
proof -
  have "\<exists>r. perturb_action env (back_up s) = Some r"
  proof -
    obtain q g where g: "env_uniform env (sa_generator (back_up s)) = (q, g)" by force
    have P: "(\<exists>r. (if c then x else y) = Some r) \<longleftrightarrow> (if c then \<exists>r. x = Some r else \<exists>r. y = Some r)"
      for c and x y :: "('f, 'g) hard_state mpl_result" by simp
    show ?thesis unfolding perturb_action_def Let_def g prod.case P using actions_return [OF ok(2)] by simp
  qed
  then obtain q where q: "perturb_action env (back_up s) = Some q" ..
  then obtain s1 where "q = Inr s1" using perturb_action_moved [OF ok(1) _ q] sp by (auto simp: back_up_def)
  then show ?thesis using q by (simp add: perturb_def)
qed

interpretation hard_sa: returning_annealing hard_class hm_movable hard_virtual
proof unfold_locales
qed (unfold hard_virtual_simps, (rule perturb_contract; assumption), (rule restore_contract; assumption),
  (rule calPenalty_metrics), (rule perturb_total; simp add: sa_wf_def))

end
