(* ===== verification/MplLegal.thy ===== *)
theory MplLegal imports MplHard begin

text \<open>
  What the annealing of hard macros promises: the packing is legal and the least one, a move can be
  taken back, the schedule ends in a legal floorplan and one that fits is not lost, and a fence costs
  nothing where its macro is inside.
\<close>

section \<open>From the construction to the result\<close>

lemma sample_perturbs_spec:
  assumes ok: "env_ok env"
  shows "sa_wf hm_movable s \<Longrightarrow> sample_perturbs env n s = Some r \<Longrightarrow>
    \<exists>s' list. r = Inr (s', list) \<and> sa_wf hm_movable s' \<and> sa_related hard_class s s' \<and> sa_best_pos s' = sa_best_pos s
      \<and> sa_best_neg s' = sa_best_neg s \<and> (list \<noteq> [] \<longrightarrow> last list = sa_metrics s' \<and> sa_packed hard_class s') \<and> length list = n"
proof (induction n arbitrary: s r)
  case (Suc n)
  obtain q where q: "perturb env s = Some q" using Suc.prems(2) by (auto simp: mpl_bind_Some)
  obtain s1 where s1: "q = Inr s1" "sa_wf hm_movable s1" "sa_related hard_class s s1" "sa_packed hard_class s1"
      "sa_best_pos s1 = sa_best_pos s" "sa_best_neg s1 = sa_best_neg s"
    using perturb_contract [OF ok Suc.prems(1) q] by blast
  obtain r' where r': "sample_perturbs env n s1 = Some r'" using Suc.prems(2) q s1(1) by (auto simp: mpl_bind_Some)
  obtain s2 list where s2: "r' = Inr (s2, list)" "sa_wf hm_movable s2" "sa_related hard_class s1 s2" "sa_best_pos s2 = sa_best_pos s1"
      "sa_best_neg s2 = sa_best_neg s1" "list \<noteq> [] \<longrightarrow> last list = sa_metrics s2 \<and> sa_packed hard_class s2" "length list = n"
    using Suc.IH [OF s1(2) r'] by blast
  have "n = 0 \<Longrightarrow> s2 = s1" using r' s2(1) by simp
  then show ?case using Suc.prems(2) q s1 r' s2 sa_related_trans [OF s1(3) s2(3)] by auto
qed auto

lemma sample_perturbs_returns:
  assumes "env_ok env" "env_fair env"
  shows "sa_wf hm_movable s \<Longrightarrow> \<exists>r. sample_perturbs env n s = Some r"
proof (induction n arbitrary: s)
  case (Suc n)
  obtain q where q: "perturb env s = Some q" using perturb_total [OF assms, of s] Suc.prems by (auto simp: sa_wf_def)
  obtain s1 where s1: "q = Inr s1" "sa_wf hm_movable s1" using perturb_contract [OF assms(1) Suc.prems q] by blast
  obtain r where r: "sample_perturbs env n s1 = Some r" using Suc.IH [OF s1(2)] by blast
  then obtain s2 list where "r = Inr (s2, list)" using sample_perturbs_spec [OF assms(1) s1(2) r] by blast
  then show ?case using q s1(1) r by simp
qed simp

text \<open>Writing the samples back one after the other leaves the last one.\<close>

lemma costs_of_samples:
  "\<exists>costs. foldl (\<lambda>(s, cost_list) me. let s' = s\<lparr>sa_metrics := me\<rparr> in (s', cost_list @ [calNormCost s'])) (s, c) samples
    = (s\<lparr>sa_metrics := (if samples = [] then sa_metrics s else last samples)\<rparr>, costs)"
proof (induction samples arbitrary: s c)
  case (Cons me samples)
  show ?case
    using Cons.IH [of "s\<lparr>sa_metrics := me\<rparr>" "c @ [calNormCost (s\<lparr>sa_metrics := me\<rparr>)]"] by (auto simp: Let_def)
qed simp

lemma sa_initialize_spec:
  assumes ok: "env_ok env" "env_fair env" and wf: "sa_wf hm_movable (initSequencePair s)"
  shows "\<exists>s'. sa_initialize env s = Some (Inr s') \<and> sa_wf hm_movable s' \<and> sa_related hard_class (initSequencePair s) s'
    \<and> sa_best_pos s' = sa_best_pos s \<and> sa_best_neg s' = sa_best_neg s
    \<and> (0 < su_num_perturb_per_step (sa_setup s) \<longrightarrow> sa_packed hard_class s')"
proof -
  define s0 where "s0 = initSequencePair s"
  have s0: "sa_setup s0 = sa_setup s" "sa_best_pos s0 = sa_best_pos s" "sa_best_neg s0 = sa_best_neg s"
    by (simp_all add: s0_def initSequencePair_def Let_def)
  obtain r where r: "sample_perturbs env (su_num_perturb_per_step (sa_setup s0)) s0 = Some r"
    using sample_perturbs_returns [OF ok wf] s0_def by blast
  obtain s1 list where s1: "r = Inr (s1, list)" "sa_wf hm_movable s1" "sa_related hard_class s0 s1" "sa_best_pos s1 = sa_best_pos s0"
      "sa_best_neg s1 = sa_best_neg s0" "list \<noteq> [] \<longrightarrow> last list = sa_metrics s1 \<and> sa_packed hard_class s1"
      "length list = su_num_perturb_per_step (sa_setup s0)"
    using sample_perturbs_spec [OF ok(1) wf [folded s0_def] r] by blast
  have "\<exists>norms temperature. sa_initialize env s = Some (Inr (s1\<lparr>sa_norms := norms,
      sa_metrics := (if list = [] then sa_metrics s1 else last list), sa_init_temperature := temperature\<rparr>))"
  proof -
    let ?norms = "\<lparr>nm_area = norm_penalty (map (\<lambda>me. me_width me * me_height me) list),
      nm_outline = norm_penalty (map me_outline_penalty list), nm_wirelength = norm_penalty (map me_wirelength list),
      nm_guidance = norm_penalty (map me_guidance_penalty list), nm_fence = norm_penalty (map me_fence_penalty list)\<rparr>"
    obtain costs where c: "foldl (\<lambda>(s, cost_list) me. let s' = s\<lparr>sa_metrics := me\<rparr> in (s', cost_list @ [calNormCost s']))
        (s1\<lparr>sa_norms := ?norms\<rparr>, []) list
      = (s1\<lparr>sa_norms := ?norms, sa_metrics := (if list = [] then sa_metrics s1 else last list)\<rparr>, costs)"
      using costs_of_samples [of "s1\<lparr>sa_norms := ?norms\<rparr>" "[]" list] by auto
    show ?thesis unfolding sa_initialize_def Let_def s0_def [symmetric] r s1(1) mpl_bind_simps prod.case c [unfolded Let_def] by blast
  qed
  then obtain norms temperature where "sa_initialize env s = Some (Inr (s1\<lparr>sa_norms := norms,
      sa_metrics := (if list = [] then sa_metrics s1 else last list), sa_init_temperature := temperature\<rparr>))" by blast
  moreover have "(if list = [] then sa_metrics s1 else last list) = sa_metrics s1" using s1(6) by simp
  ultimately show ?thesis using s1 s0 by (auto simp: sa_wf_def sa_related_def sa_packed_def s0_def)
qed

section \<open>Properties\<close>

text \<open>C7: Packing a sequence pair of hard macros places every macro of the pair inside the reported width
  and height, no two of them overlap, and neither the sizes nor the macros outside the pair change.\<close>

theorem hard_pack_legal:
  assumes "seq_pair pos neg" "pos \<noteq> []" "length pos \<le> length ms" "\<forall>a < length pos. hm_movable (ms ! a)"
    and "pack_pair hard_class pos neg ms = (ms', w, h)"
  shows "legal_floorplan hard_class (take (length pos) ms') w h \<and> same_size hard_class ms ms'
    \<and> drop (length pos) ms' = drop (length pos) ms"
proof -
  note A = hard.pack_spec [OF assms]
  have "drop (length pos) ms' = drop (length pos) ms" using A(1,2) by (auto simp: list_eq_iff_nth_eq)
  then show ?thesis using hard.pack_legal [OF assms] by blast
qed

definition demo_macros :: "rat hard_macro list" where
  "demo_macros = [HardMacro_size 4 2, HardMacro_size 3 5, HardMacro_size 2 2, HardMacro_terminal (7, 7) 0 0 None]"

lemma demo_macros_facts:
  "length demo_macros = 4" "\<forall>a < length [1 :: nat, 0, 2]. hm_movable (demo_macros ! a)" "seq_pair [1, 0, 2] [0, 1, 2]"
  "\<forall>a < 3. hm_movable (demo_macros ! a)"
  by (auto simp: demo_macros_def hm_movable_def HardMacro_size_def seq_pair_def less_Suc_eq numeral_3_eq_3)

lemma demo_pack:
  "pack_pair hard_class [1, 0, 2] [0, 1, 2] demo_macros
    = ([(HardMacro_size 4 2)\<lparr>hm_x := 0, hm_y := 0\<rparr>, (HardMacro_size 3 5)\<lparr>hm_x := 0, hm_y := 2\<rparr>,
        (HardMacro_size 2 2)\<lparr>hm_x := 4, hm_y := 0\<rparr>, HardMacro_terminal (7, 7) 0 0 None], 6, 7)"
  by code_simp

theorem hard_pack_legal_witness:
  "legal_floorplan hard_class
    [(HardMacro_size (4 :: rat) 2)\<lparr>hm_x := 0, hm_y := 0\<rparr>, (HardMacro_size 3 5)\<lparr>hm_x := 0, hm_y := 2\<rparr>,
     (HardMacro_size 2 2)\<lparr>hm_x := 4, hm_y := 0\<rparr>] 6 7"
  using hard_pack_legal [OF demo_macros_facts(3) _ _ demo_macros_facts(2) demo_pack] demo_macros_facts(1) by simp

text \<open>C8: The packing is the least one: in any placement of the macros in which each is to the left of or below
  the ones that the sequence pair says, and which is inside a box at the origin, no macro is further left
  or further down than packed, and the box is at least as wide and as high.\<close>

theorem hard_pack_least:
  assumes "seq_pair pos neg" "pos \<noteq> []" "length pos \<le> length ms" "\<forall>a < length pos. hm_movable (ms ! a)"
    and "pack_pair hard_class pos neg ms = (ms', w, h)"
    and "\<forall>a < length pos. 0 \<le> X a \<and> X a + hm_width (ms ! a) \<le> W \<and> 0 \<le> Y a \<and> Y a + hm_height (ms ! a) \<le> H"
    and "\<forall>a b. precedes pos a b \<and> precedes neg a b \<longrightarrow> X a + hm_width (ms ! a) \<le> X b"
    and "\<forall>a b. precedes pos b a \<and> precedes neg a b \<longrightarrow> Y a + hm_height (ms ! a) \<le> Y b"
  shows "(\<forall>a < length pos. hm_x (ms' ! a) \<le> X a \<and> hm_y (ms' ! a) \<le> Y a) \<and> w \<le> W \<and> h \<le> H"
  using hard.pack_spec(7,8) [OF assms(1-5), unfolded hard_class_simps] assms(6-8) by blast

definition demo_X :: "nat \<Rightarrow> rat" where "demo_X a = [1, 0, 5] ! a"
definition demo_Y :: "nat \<Rightarrow> rat" where "demo_Y a = [0, 3, 1] ! a"

lemma precedes_small:
  "precedes [1, 0, 2] a b \<Longrightarrow> (a, b) \<in> {(1, 0), (1, 2), (0, 2)}" "precedes [0, 1, 2] a b \<Longrightarrow> (a, b) \<in> {(0, 1), (0, 2), (1, 2)}"
  by (auto simp: precedes_def less_Suc_eq numeral_3_eq_3)

lemma All_less_3: "(\<forall>a < Suc (Suc (Suc 0)). P a) \<longleftrightarrow> P 0 \<and> P 1 \<and> P 2"
  by (auto simp: less_Suc_eq numeral_2_eq_2)

theorem hard_pack_least_witness:
  "(case pack_pair hard_class [1, 0, 2] [0, 1, 2] demo_macros of (ms', w, h) \<Rightarrow>
      hm_x (ms' ! 0) \<le> demo_X 0 \<and> hm_y (ms' ! 0) \<le> demo_Y 0 \<and> hm_x (ms' ! 1) \<le> demo_X 1 \<and> hm_y (ms' ! 1) \<le> demo_Y 1
      \<and> hm_x (ms' ! 2) \<le> demo_X 2 \<and> hm_y (ms' ! 2) \<le> demo_Y 2 \<and> w \<le> 7 \<and> h \<le> 8)"
proof -
  have "\<forall>a < length [1 :: nat, 0, 2]. 0 \<le> demo_X a \<and> demo_X a + hm_width (demo_macros ! a) \<le> 7
      \<and> 0 \<le> demo_Y a \<and> demo_Y a + hm_height (demo_macros ! a) \<le> 8"
    by (auto simp: demo_X_def demo_Y_def demo_macros_def HardMacro_size_def less_Suc_eq)
  moreover have "\<forall>a b. precedes [1, 0, 2] a b \<and> precedes [0, 1, 2] a b \<longrightarrow> demo_X a + hm_width (demo_macros ! a) \<le> demo_X b"
    by (intro allI impI, elim conjE, drule precedes_small(1), drule precedes_small(2)) (auto simp: demo_X_def demo_macros_def HardMacro_size_def)
  moreover have "\<forall>a b. precedes [1, 0, 2] b a \<and> precedes [0, 1, 2] a b \<longrightarrow> demo_Y a + hm_height (demo_macros ! a) \<le> demo_Y b"
    by (intro allI impI, elim conjE, drule precedes_small(1), drule precedes_small(2)) (auto simp: demo_Y_def demo_macros_def HardMacro_size_def)
  ultimately show ?thesis
    using hard_pack_least [OF demo_macros_facts(3) _ _ demo_macros_facts(2) demo_pack, of demo_X 7 demo_Y 8] demo_macros_facts(1)
    unfolding demo_pack prod.case by (simp add: All_less_3)
qed

definition demo_env :: "(nat, rat) sa_env" where
  "demo_env = \<lparr>env_uniform = (\<lambda>g. (of_nat (g mod 5) / 5, g + 1)), env_index = (\<lambda>k g. (g mod (k + 1), g + 1)),
     env_exp = (\<lambda>_. 1 / 2), env_log = (\<lambda>_. -1)\<rparr>"

lemma demo_env_ok: "env_ok demo_env"
  by (simp add: env_ok_def demo_env_def less_Suc_eq_le [symmetric])

lemma demo_env_fair: "env_fair demo_env"
  unfolding env_fair_def
proof (intro allI impI)
  fix k i g :: nat assume k: "0 < k"
  have "g mod Suc k \<noteq> i \<or> Suc g mod Suc k \<noteq> i" using k by (auto simp: mod_Suc split: if_splits)
  then show "\<exists>m. fst (env_index demo_env k (((\<lambda>g. snd (env_index demo_env k g)) ^^ m) g)) \<noteq> i"
  proof
    assume "g mod Suc k \<noteq> i"
    then show ?thesis by (intro exI [of _ 0]) (simp add: demo_env_def)
  next
    assume "Suc g mod Suc k \<noteq> i"
    then show ?thesis by (intro exI [of _ 1]) (simp add: demo_env_def)
  qed
qed

definition demo_core :: "(rat, nat) hard_state" where
  "demo_core = setNumberOfMacrosToPlace 3 (SimulatedAnnealingCore \<lparr>mr_lx = 0, mr_ly = 0, mr_ux = 20, mr_uy = 20\<rparr> [Bd_L]
     \<lparr>mr_lx = 0, mr_ly = 0, mr_ux = 9, mr_uy = 6\<rparr> demo_macros
     \<lparr>aw_area = 1, aw_outline = 1, aw_wirelength = 1, aw_guidance = 1, aw_fence = 1\<rparr>
     \<lparr>pr_pos_swap = 1 / 5, pr_neg_swap = 1 / 5, pr_double_swap = 1 / 5, pr_exchange = 1 / 5\<rparr> (1 / 2) 3 2 0)"

definition demo_start :: "(rat, nat) hard_state" where
  "demo_start = packFloorplan hard_class (initSequencePair demo_core)"

lemma upt_3: "[0..<3] = [0, 1, 2 :: nat]"
  by code_simp

lemma demo_start_facts:
  "sa_wf hm_movable demo_start" "sa_pos_seq demo_start = [0, 1, 2]" "sa_neg_seq demo_start = [0, 1, 2]"
  "sa_best_pos demo_start = []" "sa_packed hard_class demo_start" "isValid demo_start"
proof -
  have 0: "sa_wf hm_movable (initSequencePair demo_core)" "sa_pos_seq (initSequencePair demo_core) = [0, 1, 2]"
      "sa_neg_seq (initSequencePair demo_core) = [0, 1, 2]" "sa_best_pos (initSequencePair demo_core) = []"
    using seq_pair_upt [of 3, unfolded upt_3] demo_macros_facts(1,4)
    by (simp_all add: demo_core_def initSequencePair_def SimulatedAnnealingCore_def setNumberOfMacrosToPlace_def sa_wf_def
      setBlockedBoundariesForIOs_def setDieArea_def Let_def upt_3)
  note A = hard.packFloorplan_spec [OF 0(1), folded demo_start_def]
  show "sa_wf hm_movable demo_start" "sa_pos_seq demo_start = [0, 1, 2]" "sa_neg_seq demo_start = [0, 1, 2]"
    "sa_best_pos demo_start = []" "sa_packed hard_class demo_start"
    using A 0 by simp_all
  show "isValid demo_start" by code_simp
qed

text \<open>Where the two sequences of the annealer are a sequence pair, exchanging two macros never ends in the
  error of a divergence of the sequences, and leaves a sequence pair of as many macros.\<close>

theorem exchange_never_diverges:
  assumes "env_ok env" "seq_pair (sa_pos_seq s) (sa_neg_seq s)" "exchangeMacros env s = Some r"
  shows "\<exists>s'. r = Inr s' \<and> seq_pair (sa_pos_seq s') (sa_neg_seq s') \<and> length (sa_pos_seq s') = length (sa_pos_seq s)
    \<and> sa_macros s' = sa_macros s"
  using exchangeMacros_no_error [OF assms] by auto

theorem exchange_never_diverges_witness:
  "\<exists>s'. exchangeMacros demo_env demo_start = Some (Inr s') \<and> seq_pair (sa_pos_seq s') (sa_neg_seq s')"
proof -
  obtain r where r: "exchangeMacros demo_env demo_start = Some r"
    using actions_return(3) [OF demo_env_fair] by blast
  have "seq_pair (sa_pos_seq demo_start) (sa_neg_seq demo_start)" using demo_start_facts(1) by (simp add: sa_wf_def)
  from exchange_never_diverges [OF demo_env_ok this r] show ?thesis using r by auto
qed

text \<open>C9: A perturbation of hard macros can be taken back: restoring gives the sequence pair and all
  measures back, and packing again gives every macro the place that packing before the perturbation gives it.\<close>

theorem restore_takes_back:
  assumes "env_ok env" "sa_wf hm_movable s" "perturb env s = Some (Inr s')"
  shows "sa_pos_seq (restore s') = sa_pos_seq s \<and> sa_neg_seq (restore s') = sa_neg_seq s \<and> sa_metrics (restore s') = sa_metrics s
    \<and> (\<forall>a < length (sa_pos_seq s).
        hm_getBBox (sa_macros (packFloorplan hard_class (restore s')) ! a) = hm_getBBox (sa_macros (packFloorplan hard_class s) ! a))"
proof -
  let ?t = "restore s'"
  have "?t = restore (s'\<lparr>sa_best_pos := sa_best_pos s', sa_best_neg := sa_best_neg s', sa_generator := sa_generator s'\<rparr>)" by simp
  note T = restore_contract [OF assms this]
  have sp: "seq_pair (sa_pos_seq s) (sa_neg_seq s)" using assms(2) by (simp add: sa_wf_def)
  have rel: "sa_related hard_class (packFloorplan hard_class s) (packFloorplan hard_class ?t)"
    by (rule sa_related_trans [OF sa_related_sym [OF hard.packFloorplan_spec(2)] sa_related_trans [OF _ hard.packFloorplan_spec(2)]])
      (use T assms(2) in simp_all)
  have len: "length (sa_pos_seq s) \<le> length (sa_macros (packFloorplan hard_class s))"
    using hard.packFloorplan_spec(1,6) [OF assms(2)] by (simp add: sa_wf_def)
  have "hm_getBBox (sa_macros (packFloorplan hard_class ?t) ! a) = hm_getBBox (sa_macros (packFloorplan hard_class s) ! a)"
    if a: "a < length (sa_pos_seq s)" for a
    using hard.pack_box(2) [OF assms(2) _ _ sp refl, of ?t] T a rel len
    by (auto simp: hm_getBBox_def packFloorplan_def sa_related_def same_size_def split: prod.splits)
  then show ?thesis using T by simp
qed

theorem restore_takes_back_witness:
  "\<exists>s'. perturb demo_env demo_start = Some (Inr s') \<and> sa_pos_seq (restore s') = [0, 1, 2] \<and> sa_neg_seq (restore s') = [0, 1, 2]"
proof -
  have w: "sa_pos_seq demo_start \<noteq> []" "seq_pair (sa_pos_seq demo_start) (sa_neg_seq demo_start)"
    using demo_start_facts(1) by (simp_all add: sa_wf_def)
  obtain r where r: "perturb demo_env demo_start = Some r" using perturb_total [OF demo_env_ok demo_env_fair w] by blast
  obtain s' where s': "r = Inr s'" using perturb_contract [OF demo_env_ok demo_start_facts(1) r] by blast
  from restore_takes_back [OF demo_env_ok demo_start_facts(1) r [unfolded s']] show ?thesis using r s' demo_start_facts(2,3) by simp
qed

text \<open>C5: Annealing hard macros, if it returns, returns without an error a floorplan of the same macros in which
  the macros of the sequence pair do not overlap and are inside the reported width and height; and if it
  starts from a packed floorplan that fits the outline, what it returns fits the outline.\<close>

theorem hard_annealing_legal:
  assumes "env_ok env" "sa_wf hm_movable s" "sa_best_pos s = []" "run env s = Some r"
  shows "\<exists>s'. r = Inr s' \<and> sa_related hard_class s s' \<and> seq_pair (sa_pos_seq s') (sa_neg_seq s')
    \<and> legal_floorplan hard_class (take (length (sa_pos_seq s')) (sa_macros s')) (me_width (sa_metrics s')) (me_height (sa_metrics s'))
    \<and> (sa_packed hard_class s \<and> isValid s \<longrightarrow> isValid s')"
  using hard_sa.fastSA_legal [OF assms(1,2) _ assms(4) [unfolded run_def]] assms(3)
  by (auto simp: best_wf_def best_valid_def sa_wf_def)

theorem hard_annealing_legal_witness:
  "\<exists>s'. run demo_env demo_start = Some (Inr s') \<and> isValid s'
    \<and> legal_floorplan hard_class (take (length (sa_pos_seq s')) (sa_macros s')) (me_width (sa_metrics s')) (me_height (sa_metrics s'))"
proof -
  obtain s' where s': "run demo_env demo_start = Some (Inr s')"
    using hard_sa.fastSA_returns [OF demo_env_ok demo_env_fair demo_start_facts(1)] demo_start_facts(4)
    by (auto simp: run_def best_wf_def best_valid_def)
  from hard_annealing_legal [OF demo_env_ok demo_start_facts(1,4) s'] show ?thesis using s' demo_start_facts(5,6) by auto
qed

text \<open>C6: From the construction on, initialising and annealing the first macros of a list returns, where the
  random numbers are in their ranges and not always the same, and what it returns is a legal floorplan of
  these macros; the other ones are where they were.\<close>

theorem runSA_returns_legal:
  assumes "env_ok env" "env_fair env" "0 < n" "n \<le> length macros" "\<forall>a < n. hm_movable (macros ! a)"
    and s: "s = setGuides guides (setFences fences (setNets nets (setNumberOfMacrosToPlace n
      (SimulatedAnnealingCore die_area blocked outline macros weights probs init_prob max_num_step num_perturb_per_step gen))))"
  shows "\<exists>s'. runSA env s = Some (Inr s') \<and> same_size hard_class macros (sa_macros s') \<and> drop n (sa_macros s') = drop n macros
    \<and> legal_floorplan hard_class (take n (sa_macros s')) (me_width (sa_metrics s')) (me_height (sa_metrics s'))"
proof -
  define s0 where "s0 = initSequencePair s"
  have s0: "sa_pos_seq s0 = [0..<n]" "sa_neg_seq s0 = [0..<n]" "sa_macros s0 = macros" "sa_best_pos s = []"
    using assms(3) by (simp_all add: s0_def s initSequencePair_def setGuides_def setFences_def setNets_def setNumberOfMacrosToPlace_def
      SimulatedAnnealingCore_def Let_def setDieArea_def setBlockedBoundariesForIOs_def)
  have wf: "sa_wf hm_movable s0" using s0 assms(3-5) seq_pair_upt [of n] by (simp add: sa_wf_def)
  obtain s1 where s1: "sa_initialize env s = Some (Inr s1)" "sa_wf hm_movable s1" "sa_related hard_class s0 s1" "sa_best_pos s1 = []"
    using sa_initialize_spec [OF assms(1,2) wf [unfolded s0_def]] s0(4) s0_def by auto
  have b: "best_wf s1" "best_valid hard_class s1" using s1(4) by (simp_all add: best_wf_def best_valid_def)
  obtain s2 where s2: "fastSA hard_class (hard_virtual env) env s1 = Some (Inr s2)"
    using hard_sa.fastSA_returns [OF assms(1,2) s1(2) b] by blast
  have F: "sa_related hard_class s1 s2"
    "legal_floorplan hard_class (take (length (sa_pos_seq s2)) (sa_macros s2)) (me_width (sa_metrics s2)) (me_height (sa_metrics s2))"
    using hard_sa.fastSA_legal [OF assms(1) s1(2) b(1) s2 b(2)] by auto
  have rel: "sa_related hard_class s0 s2" by (rule sa_related_trans [OF s1(3) F(1)])
  then have "length (sa_pos_seq s2) = n" "same_size hard_class macros (sa_macros s2)" "\<forall>a \<ge> n. sa_macros s2 ! a = macros ! a"
    using s0 by (simp_all add: sa_related_def)
  moreover from this have "drop n (sa_macros s2) = drop n macros" by (simp add: list_eq_iff_nth_eq same_size_def)
  ultimately show ?thesis using F(2) s1(1) s2 by (simp add: runSA_def run_def)
qed

theorem runSA_returns_legal_witness:
  "\<exists>s'. runSA demo_env (setGuides [] (setFences [] (setNets [] demo_core))) = Some (Inr s')
    \<and> legal_floorplan hard_class (take 3 (sa_macros s')) (me_width (sa_metrics s')) (me_height (sa_metrics s'))"
proof -
  have "\<exists>s'. runSA demo_env (setGuides [] (setFences [] (setNets [] demo_core))) = Some (Inr s')
      \<and> same_size hard_class demo_macros (sa_macros s') \<and> drop 3 (sa_macros s') = drop 3 demo_macros
      \<and> legal_floorplan hard_class (take 3 (sa_macros s')) (me_width (sa_metrics s')) (me_height (sa_metrics s'))"
    unfolding demo_core_def
    by (rule runSA_returns_legal [OF demo_env_ok demo_env_fair _ _ demo_macros_facts(4) refl]) (simp_all add: demo_macros_facts(1))
  then show ?thesis by blast
qed

section \<open>Fences\<close>

text \<open>A fence counts for a macro that is not tiny and fits into it.\<close>

definition fence_counts :: "('m, 'f::linordered_field) macro_class \<Rightarrow> 'f mrect \<Rightarrow> 'm \<Rightarrow> bool" where
  "fence_counts mc bbox m \<longleftrightarrow> 1 / 10000 < mc_width mc m * mc_height mc m
    \<and> mc_width mc m \<le> mr_ux bbox - mr_lx bbox \<and> mc_height mc m \<le> mr_uy bbox - mr_ly bbox"

definition inside_fence :: "('m, 'f::linordered_field) macro_class \<Rightarrow> 'f mrect \<Rightarrow> 'm \<Rightarrow> bool" where
  "inside_fence mc bbox m \<longleftrightarrow> mr_lx bbox \<le> mc_x mc m \<and> mc_x mc m + mc_width mc m \<le> mr_ux bbox
    \<and> mr_ly bbox \<le> mc_y mc m \<and> mc_y mc m + mc_height mc m \<le> mr_uy bbox"

lemma centre_distance:
  fixes l :: "'f::linordered_field"
  shows "\<bar>(l + u) / 2 - (x + (x + w)) / 2\<bar> \<le> ((u - l) - ((x + w) - x)) / 2 \<longleftrightarrow> l \<le> x \<and> x + w \<le> u"
proof -
  have "(l + u) / 2 - (x + (x + w)) / 2 \<le> ((u - l) - ((x + w) - x)) / 2 \<longleftrightarrow> l \<le> x"
    "- ((l + u) / 2 - (x + (x + w)) / 2) \<le> ((u - l) - ((x + w) - x)) / 2 \<longleftrightarrow> x + w \<le> u"
    by (simp_all add: field_simps) (auto simp: algebra_simps)
  then show ?thesis by (simp only: abs_le_iff)
qed

lemma squares_zero: "0 < a \<Longrightarrow> 0 < b \<Longrightarrow> x / a * (x / a) + y / b * (y / b) = (0 :: 'f::linordered_field) \<longleftrightarrow> x = 0 \<and> y = 0"
  using sum_squares_eq_zero_iff [of "x / a" "y / b"] by simp

lemma fence_violation_spec:
  assumes "0 < mr_getWidth (su_outline su)" "0 < mr_getHeight (su_outline su)"
  shows "\<exists>v \<ge> 0. (\<forall>p. fence_violation mc su ms p (a, bbox) = p + v)
    \<and> (v = 0 \<longleftrightarrow> (fence_counts mc bbox (ms ! a) \<longrightarrow> inside_fence mc bbox (ms ! a)))"
proof (cases "fence_counts mc bbox (ms ! a)")
  case False
  then show ?thesis by (intro exI [of _ 0]) (auto simp: fence_violation_def fence_counts_def Let_def not_le not_less)
next
  case True
  let ?m = "ms ! a"
  define dx where "dx = \<bar>(mr_lx bbox + mr_ux bbox) / 2 - (mc_x mc ?m + (mc_x mc ?m + mc_width mc ?m)) / 2\<bar>"
  define dy where "dy = \<bar>(mr_ly bbox + mr_uy bbox) / 2 - (mc_y mc ?m + (mc_y mc ?m + mc_height mc ?m)) / 2\<bar>"
  define mx where "mx = ((mr_ux bbox - mr_lx bbox) - ((mc_x mc ?m + mc_width mc ?m) - mc_x mc ?m)) / 2"
  define my where "my = ((mr_uy bbox - mr_ly bbox) - ((mc_y mc ?m + mc_height mc ?m) - mc_y mc ?m)) / 2"
  define x where "x = (if dx \<le> mx then 0 else dx - mx)"
  define y where "y = (if dy \<le> my then 0 else dy - my)"
  define v where "v = x / mr_getWidth (su_outline su) * (x / mr_getWidth (su_outline su))
    + y / mr_getHeight (su_outline su) * (y / mr_getHeight (su_outline su))"
  have "x = 0 \<longleftrightarrow> dx \<le> mx" "y = 0 \<longleftrightarrow> dy \<le> my" by (auto simp: x_def y_def)
  moreover have "dx \<le> mx \<longleftrightarrow> mr_lx bbox \<le> mc_x mc ?m \<and> mc_x mc ?m + mc_width mc ?m \<le> mr_ux bbox"
    "dy \<le> my \<longleftrightarrow> mr_ly bbox \<le> mc_y mc ?m \<and> mc_y mc ?m + mc_height mc ?m \<le> mr_uy bbox"
    unfolding dx_def dy_def mx_def my_def by (rule centre_distance)+
  ultimately have "v = 0 \<longleftrightarrow> inside_fence mc bbox ?m" unfolding v_def squares_zero [OF assms] by (auto simp: inside_fence_def)
  moreover have "0 \<le> v" by (simp add: v_def)
  moreover have "fence_violation mc su ms p (a, bbox) = p + v" for p
    using True by (simp add: fence_violation_def fence_counts_def Let_def not_le not_less v_def x_def y_def dx_def dy_def mx_def my_def
      split del: if_split cong: if_cong)
  ultimately show ?thesis using True by blast
qed

lemma fence_violations:
  assumes "0 < mr_getWidth (su_outline su)" "0 < mr_getHeight (su_outline su)"
  shows "0 \<le> p \<Longrightarrow> p \<le> foldl (fence_violation mc su ms) p fences
    \<and> (foldl (fence_violation mc su ms) p fences = 0 \<longleftrightarrow> p = 0 \<and>
        (\<forall>(a, bbox) \<in> set fences. fence_counts mc bbox (ms ! a) \<longrightarrow> inside_fence mc bbox (ms ! a)))"
proof (induction fences arbitrary: p)
  case (Cons f fences)
  obtain a bbox where f: "f = (a, bbox)" by force
  obtain v where v: "0 \<le> v" "fence_violation mc su ms p (a, bbox) = p + v"
      "v = 0 \<longleftrightarrow> (fence_counts mc bbox (ms ! a) \<longrightarrow> inside_fence mc bbox (ms ! a))"
    using fence_violation_spec [OF assms] by blast
  have "p + v = 0 \<longleftrightarrow> p = 0 \<and> v = 0" "p \<le> p + v" using Cons.prems v(1) by (simp_all add: add_nonneg_eq_0_iff)
  moreover have "0 \<le> p + v" using Cons.prems v(1) by simp
  ultimately show ?case using Cons.IH [of "p + v"] v(2,3) by (auto simp: f)
qed auto

text \<open>C10: Where fences have a weight and the outline is not empty, the penalty of the fences is not negative, and
  it is zero exactly if every macro that is not tiny and fits into its fence is inside it.\<close>

theorem fence_penalty_zero:
  fixes su :: "'f::linordered_field sa_setup"
  assumes "0 < mr_getWidth (su_outline su)" "0 < mr_getHeight (su_outline su)" "0 < aw_fence (su_weights su)" "su_fences su \<noteq> []"
  shows "0 \<le> me_fence_penalty (calFencePenalty mc su ms me) \<and> (me_fence_penalty (calFencePenalty mc su ms me) = 0 \<longleftrightarrow>
    (\<forall>(a, bbox) \<in> set (su_fences su). fence_counts mc bbox (ms ! a) \<longrightarrow> inside_fence mc bbox (ms ! a)))"
proof -
  note A = fence_violations [OF assms(1,2), of 0 mc ms "su_fences su"]
  have "(0 :: 'f) < of_nat (length (su_fences su))" using assms(4) by simp
  then show ?thesis using A assms(3,4) by (simp add: calFencePenalty_def)
qed

theorem fence_penalty_zero_witness:
  "me_fence_penalty (calFencePenalty hard_class ((sa_setup demo_core)\<lparr>su_fences := [(0, \<lparr>mr_lx = 0, mr_ly = 0, mr_ux = 5, mr_uy = 5\<rparr>)]\<rparr>)
     demo_macros (sa_metrics demo_core)) = 0"
proof -
  let ?su = "(sa_setup demo_core)\<lparr>su_fences := [(0, \<lparr>mr_lx = 0, mr_ly = 0, mr_ux = 5, mr_uy = 5\<rparr>)]\<rparr>"
  have 1: "0 < mr_getWidth (su_outline ?su)" "0 < mr_getHeight (su_outline ?su)" "0 < aw_fence (su_weights ?su)" "su_fences ?su \<noteq> []"
    by code_simp+
  have 2: "inside_fence hard_class \<lparr>mr_lx = 0, mr_ly = 0, mr_ux = 5, mr_uy = 5\<rparr> (demo_macros ! 0)"
    by code_simp
  from fence_penalty_zero [OF 1, of hard_class demo_macros] 2 show ?thesis by simp
qed

end
