(* ===== verification/DftArchitect.thy ===== *)
theory DftArchitect
  imports OdbGeom "HOL-Library.Word" "HOL-Library.Multiset" "HOL-Library.Char_ord" "HOL-Library.List_Lexorder"
    "HOL-Library.Product_Lexorder"
begin

text \<open>
  The scan architect (\<open>src/dft/src/architect\<close>, \<open>clock_domain\<close>): scan cells are put into buckets by clock
  domain, the number and the length of the scan chains are computed for each domain, and the cells are
  dealt to the chains.
\<close>

unbundle bit_operations_syntax

section \<open>Clock domains and scan cells\<close>

datatype ClockEdge = Rising | Falling

record clock_domain =
  cd_clock_name :: string
  cd_clock_edge :: ClockEdge

definition edge_code :: "ClockEdge \<Rightarrow> nat" where
  "edge_code e = (case e of Rising \<Rightarrow> 0 | Falling \<Rightarrow> 1)"

definition getClockEdgeName :: "clock_domain \<Rightarrow> string" where
  "getClockEdgeName cd = (case cd_clock_edge cd of Rising \<Rightarrow> ''rising'' | Falling \<Rightarrow> ''falling'')"

definition FNV1a :: "nat list \<Rightarrow> 64 word" where
  "FNV1a bytes = foldl (\<lambda>h b. (h XOR word_of_nat b) * 0x00000100000001b3) 0xcbf29ce484222325 bytes"

text \<open>The edge is hashed as the four bytes of an \<open>int\<close>, the lowest first.\<close>

definition getClockDomainId :: "clock_domain \<Rightarrow> 64 word" where
  "getClockDomainId cd = FNV1a (map of_char (cd_clock_name cd)) XOR FNV1a [edge_code (cd_clock_edge cd), 0, 0, 0]"

record scan_cell =
  sc_name :: string
  sc_bits :: nat
  sc_clock_domain :: clock_domain
  sc_origin :: Point
  sc_placed :: bool

datatype ClockMixing = NoMix | ClockMix

record architect_config =
  ac_max_length :: "nat option"
  ac_max_chains :: "nat option"
  ac_clock_mixing :: ClockMixing

definition GetClockDomainHashFn :: "architect_config \<Rightarrow> clock_domain \<Rightarrow> 64 word" where
  "GetClockDomainHashFn config cd = (case ac_clock_mixing config of NoMix \<Rightarrow> getClockDomainId cd | ClockMix \<Rightarrow> 1)"

text \<open>A division by zero, and the error that no neighbour is found.\<close>

datatype dft_error = DivisionByZero | DFT_0010

section \<open>Buckets\<close>

type_synonym buckets = "(64 word \<times> scan_cell list) list"

text \<open>\<open>CompareScanCells\<close> orders the cells by these values; the sort is stable.\<close>

definition cell_key :: "scan_cell \<Rightarrow> nat \<times> string \<times> nat" where
  "cell_key c = (sc_bits c, cd_clock_name (sc_clock_domain c), edge_code (cd_clock_edge (sc_clock_domain c)))"

definition CompareScanCells :: "scan_cell \<Rightarrow> scan_cell \<Rightarrow> bool" where
  "CompareScanCells lhs rhs =
    (if sc_bits lhs = sc_bits rhs
     then let l = sc_clock_domain lhs; r = sc_clock_domain rhs
          in if cd_clock_name l = cd_clock_name r then edge_code (cd_clock_edge l) < edge_code (cd_clock_edge r)
             else cd_clock_name l < cd_clock_name r
     else sc_bits lhs < sc_bits rhs)"

lemma CompareScanCells_key: "CompareScanCells l r \<longleftrightarrow> cell_key l < cell_key r"
  by (auto simp: CompareScanCells_def cell_key_def Let_def)

definition SortScanCells :: "scan_cell list \<Rightarrow> scan_cell list" where
  "SortScanCells cells = sort_key cell_key cells"

fun bucket_add :: "64 word \<Rightarrow> scan_cell \<Rightarrow> buckets \<Rightarrow> buckets" where
  "bucket_add k c [] = [(k, [c])]"
| "bucket_add k c ((k', cs) # bs) = (if k = k' then (k', cs @ [c]) # bs else (k', cs) # bucket_add k c bs)"

definition bucket_init :: "architect_config \<Rightarrow> scan_cell list \<Rightarrow> buckets" where
  "bucket_init config scan_cells =
    map (\<lambda>(k, cs). (k, SortScanCells cs))
      (foldl (\<lambda>bs c. bucket_add (GetClockDomainHashFn config (sc_clock_domain c)) c bs) [] scan_cells)"

definition getTotalBitsPerHashDomain :: "buckets \<Rightarrow> (64 word \<times> nat) list" where
  "getTotalBitsPerHashDomain bs = map (\<lambda>(k, cs). (k, sum_list (map sc_bits cs))) (filter (\<lambda>(k, cs). cs \<noteq> []) bs)"

definition numberOfCells :: "64 word \<Rightarrow> buckets \<Rightarrow> nat" where
  "numberOfCells k bs = length (the (map_of bs k))"

section \<open>Number and length of the chains\<close>

record limits =
  li_chain_count :: nat
  li_max_length :: nat

definition inferLimits :: "nat \<Rightarrow> nat option \<Rightarrow> nat \<Rightarrow> dft_error + limits" where
  "inferLimits max_length max_chains bits =
    (if max_length = 0 then Inl DivisionByZero
     else let count = if bits mod max_length \<noteq> 0 then bits div max_length + 1 else bits div max_length;
              count = (case max_chains of None \<Rightarrow> count | Some m \<Rightarrow> min count m)
          in if count = 0 then Inl DivisionByZero
             else Inr \<lparr>li_chain_count = count,
                       li_max_length = (if bits mod count = 0 then bits div count else bits div count + 1)\<rparr>)"

fun sum_those :: "('e + 'a) list \<Rightarrow> 'e + 'a list" where
  "sum_those [] = Inr []"
| "sum_those (r # rs) = sum_bind r (\<lambda>a. sum_bind (sum_those rs) (\<lambda>as. Inr (a # as)))"

definition inferChainCountFromMaxLength ::
    "(64 word \<times> nat) list \<Rightarrow> nat \<Rightarrow> nat option \<Rightarrow> dft_error + (64 word \<times> limits) list" where
  "inferChainCountFromMaxLength total_bits max_length max_chains =
    sum_bind (sum_those (map (\<lambda>(k, bits). sum_bind (inferLimits max_length max_chains bits) (\<lambda>l. Inr (k, l))) total_bits))
      (\<lambda>ls. Inr (sort_key fst ls))"

definition inferChainCount :: "architect_config \<Rightarrow> buckets \<Rightarrow> dft_error + (64 word \<times> limits) list" where
  "inferChainCount config bs =
    (case ac_max_length config of
       Some max_length \<Rightarrow> inferChainCountFromMaxLength (getTotalBitsPerHashDomain bs) max_length (ac_max_chains config)
     | None \<Rightarrow> inferChainCountFromMaxLength (getTotalBitsPerHashDomain bs) 200 (ac_max_chains config))"

section \<open>Scan chains\<close>

record scan_chain =
  ch_name :: string
  ch_rising :: "scan_cell list"
  ch_falling :: "scan_cell list"
  ch_cells :: "scan_cell list"
  ch_bits :: nat

definition ScanChain :: "string \<Rightarrow> scan_chain" where
  "ScanChain name = \<lparr>ch_name = name, ch_rising = [], ch_falling = [], ch_cells = [], ch_bits = 0\<rparr>"

definition ch_add :: "scan_cell \<Rightarrow> scan_chain \<Rightarrow> scan_chain" where
  "ch_add c chain =
    (let chain' = chain\<lparr>ch_bits := ch_bits chain + sc_bits c\<rparr>
     in case cd_clock_edge (sc_clock_domain c) of
          Rising \<Rightarrow> chain'\<lparr>ch_rising := ch_rising chain' @ [c]\<rparr>
        | Falling \<Rightarrow> chain'\<lparr>ch_falling := ch_falling chain' @ [c]\<rparr>)"

definition sortScanCells ::
    "(scan_cell list \<Rightarrow> scan_cell list \<Rightarrow> dft_error + scan_cell list) \<Rightarrow> scan_chain \<Rightarrow> dft_error + scan_chain" where
  "sortScanCells sort_fn chain =
    sum_bind (sort_fn (ch_falling chain) (ch_rising chain)) (\<lambda>sorted.
      Inr (chain\<lparr>ch_cells := ch_cells chain @ sorted, ch_falling := [], ch_rising := []\<rparr>))"

text \<open>The number in the name, in decimal.\<close>

fun decimal :: "nat \<Rightarrow> string" where
  "decimal n = (if n < 10 then [char_of (48 + n)] else decimal (n div 10) @ [char_of (48 + n mod 10)])"

declare decimal.simps [simp del]

fun createScanChains :: "nat \<Rightarrow> (64 word \<times> limits) list \<Rightarrow> (64 word \<times> limits \<times> scan_chain list) list" where
  "createScanChains chain_number [] = []"
| "createScanChains chain_number ((k, l) # ls) =
    (k, l, map (\<lambda>i. ScanChain (''chain_'' @ decimal (chain_number + i))) [0..<li_chain_count l])
      # createScanChains (chain_number + li_chain_count l) ls"

section \<open>The order of the cells in a chain\<close>

type_synonym entry = "Point \<times> nat"

text \<open>
  \<open>nearest p k entries\<close> stands for the query of the R-tree of boost: what it returns, in its order.  The
  search ends at the first entry that is not the cursor; where there is none \<open>next\<close> is the last one.
\<close>

definition search_next :: "entry \<Rightarrow> entry list \<Rightarrow> entry" where
  "search_next cursor found =
    (case find (\<lambda>e. snd e \<noteq> snd cursor) found of Some e \<Rightarrow> e | None \<Rightarrow> (if found = [] then cursor else last found))"

fun visit_nearest ::
    "(Point \<Rightarrow> nat \<Rightarrow> entry list \<Rightarrow> entry list) \<Rightarrow> nat \<Rightarrow> entry \<Rightarrow> entry list \<Rightarrow> dft_error + nat list" where
  "visit_nearest nearest 0 cursor rtree = Inr [snd cursor]"
| "visit_nearest nearest (Suc n) cursor rtree =
    (let next_entry = search_next cursor (nearest (fst cursor) 10 rtree)
     in if snd next_entry = snd cursor then Inl DFT_0010
        else sum_bind (visit_nearest nearest n next_entry (remove1 cursor rtree)) (\<lambda>visited. Inr (snd cursor # visited)))"

text \<open>The first cell with the least sum of coordinates below the largest 64-bit number.  The code adds them in 32
  bits; a sum outside that range is not modelled.\<close>

definition start_index :: "scan_cell list \<Rightarrow> nat" where
  "start_index cells =
    fst (fold (\<lambda>i (start, lowest). let origin = sc_origin (cells ! i); dist = pt_x origin + pt_y origin
                in if dist < lowest then (i, dist) else (start, lowest)) [0..<length cells] (0, 2 ^ 63 - 1))"

definition OptimizeScanWirelength ::
    "(Point \<Rightarrow> nat \<Rightarrow> entry list \<Rightarrow> entry list) \<Rightarrow> scan_cell list \<Rightarrow> dft_error + scan_cell list" where
  "OptimizeScanWirelength nearest cells =
    (if cells = [] \<or> (\<exists>c \<in> set cells. \<not> sc_placed c) then Inr cells
     else let transformed = map (\<lambda>i. (sc_origin (cells ! i), i)) [0..<length cells]
          in sum_bind (visit_nearest nearest (length cells - 1) (transformed ! start_index cells) transformed)
               (\<lambda>visited. Inr (map (\<lambda>i. cells ! i) visited)))"

section \<open>Dealing the cells\<close>

function fill_chain :: "nat \<Rightarrow> scan_chain \<Rightarrow> scan_cell list \<Rightarrow> scan_chain \<times> scan_cell list" where
  "fill_chain max_length chain bucket =
    (if ch_bits chain < max_length \<and> bucket \<noteq> [] then fill_chain max_length (ch_add (last bucket) chain) (butlast bucket)
     else (chain, bucket))"
  by pat_completeness auto
termination by (relation "measure (\<lambda>(m, chain, bucket). length bucket)") auto

declare fill_chain.simps [simp del]

definition sort_edges ::
    "(Point \<Rightarrow> nat \<Rightarrow> entry list \<Rightarrow> entry list) \<Rightarrow> scan_cell list \<Rightarrow> scan_cell list \<Rightarrow> dft_error + scan_cell list" where
  "sort_edges nearest falling rising =
    sum_bind (OptimizeScanWirelength nearest falling) (\<lambda>f.
      sum_bind (OptimizeScanWirelength nearest rising) (\<lambda>r. Inr (f @ r)))"

fun architect_chains ::
    "(Point \<Rightarrow> nat \<Rightarrow> entry list \<Rightarrow> entry list) \<Rightarrow> nat \<Rightarrow> scan_chain list \<Rightarrow> scan_cell list
      \<Rightarrow> dft_error + (scan_chain list \<times> scan_cell list)" where
  "architect_chains nearest max_length [] bucket = Inr ([], bucket)"
| "architect_chains nearest max_length (chain # chs) bucket =
    (let (chain', bucket') = fill_chain max_length chain bucket
     in sum_bind (sortScanCells (sort_edges nearest) chain') (\<lambda>done_chain.
          sum_bind (architect_chains nearest max_length chs bucket') (\<lambda>(done_chains, rest).
            Inr (done_chain # done_chains, rest))))"

text \<open>Each domain takes from its own bucket only.\<close>

definition architect ::
    "(Point \<Rightarrow> nat \<Rightarrow> entry list \<Rightarrow> entry list) \<Rightarrow> buckets \<Rightarrow> (64 word \<times> limits \<times> scan_chain list) list
      \<Rightarrow> dft_error + (64 word \<times> scan_chain list) list" where
  "architect nearest bs domains =
    sum_those (map (\<lambda>(k, l, chs).
      sum_bind (architect_chains nearest (li_max_length l) chs (the (map_of bs k))) (\<lambda>(chs', rest). Inr (k, chs'))) domains)"

definition getScanChains :: "(64 word \<times> scan_chain list) list \<Rightarrow> scan_chain list" where
  "getScanChains domains = sort_key ch_name (concat (map snd domains))"

definition scanArchitect ::
    "(Point \<Rightarrow> nat \<Rightarrow> entry list \<Rightarrow> entry list) \<Rightarrow> architect_config \<Rightarrow> scan_cell list \<Rightarrow> dft_error + scan_chain list" where
  "scanArchitect nearest config scan_cells =
    (let bs = bucket_init config scan_cells
     in sum_bind (inferChainCount config bs) (\<lambda>ls.
          sum_bind (architect nearest bs (createScanChains 0 ls)) (\<lambda>domains. Inr (getScanChains domains))))"

section \<open>Buckets hold every cell once\<close>

definition hashed :: "architect_config \<Rightarrow> scan_cell \<Rightarrow> 64 word" where
  "hashed config c = GetClockDomainHashFn config (sc_clock_domain c)"

definition buckets_ok :: "(scan_cell \<Rightarrow> 64 word) \<Rightarrow> buckets \<Rightarrow> bool" where
  "buckets_ok hash bs \<longleftrightarrow> distinct (map fst bs) \<and> (\<forall>(k, cs) \<in> set bs. cs \<noteq> [] \<and> (\<forall>c \<in> set cs. hash c = k))"

lemma bucket_add_spec:
  "buckets_ok hash bs \<Longrightarrow> buckets_ok hash (bucket_add (hash c) c bs)
    \<and> mset (concat (map snd (bucket_add (hash c) c bs))) = add_mset c (mset (concat (map snd bs)))
    \<and> set (map fst (bucket_add (hash c) c bs)) = insert (hash c) (set (map fst bs))"
proof (induction bs)
  case (Cons b bs)
  obtain k cs where "b = (k, cs)" by force
  then show ?case using Cons by (cases "hash c = k") (auto simp: buckets_ok_def)
qed (simp add: buckets_ok_def)

lemma buckets_of_cells:
  "buckets_ok hash bs \<Longrightarrow> buckets_ok hash (foldl (\<lambda>bs c. bucket_add (hash c) c bs) bs cells)
    \<and> mset (concat (map snd (foldl (\<lambda>bs c. bucket_add (hash c) c bs) bs cells))) = mset (concat (map snd bs)) + mset cells"
proof (induction cells arbitrary: bs)
  case (Cons c cells)
  then show ?case using bucket_add_spec [OF Cons.prems, of c] by (simp add: union_assoc)
qed simp

lemma mset_concat_map: "mset (concat (map f xs)) = (\<Sum>x \<leftarrow> xs. mset (f x))"
  by (induction xs) simp_all

lemma SortScanCells_facts [simp]:
  "mset (SortScanCells cs) = mset cs" "set (SortScanCells cs) = set cs" "SortScanCells cs = [] \<longleftrightarrow> cs = []"
proof -
  show "mset (SortScanCells cs) = mset cs" "set (SortScanCells cs) = set cs" by (simp_all add: SortScanCells_def)
  then show "SortScanCells cs = [] \<longleftrightarrow> cs = []" by (metis set_empty)
qed

lemma bucket_init_spec:
  "buckets_ok (hashed config) (bucket_init config cells)" "mset (concat (map snd (bucket_init config cells))) = mset cells"
proof -
  let ?bs = "foldl (\<lambda>bs c. bucket_add (hashed config c) c bs) [] cells"
  have B: "buckets_ok (hashed config) ?bs" "mset (concat (map snd ?bs)) = mset cells"
    using buckets_of_cells [of "hashed config" "[]" cells] by (simp_all add: buckets_ok_def)
  have I: "bucket_init config cells = map (\<lambda>(k, cs). (k, SortScanCells cs)) ?bs"
    by (simp add: bucket_init_def hashed_def)
  have "distinct (map fst (map (\<lambda>(k, cs). (k, SortScanCells cs)) ?bs))"
    using B(1) by (simp add: buckets_ok_def case_prod_unfold comp_def)
  then show "buckets_ok (hashed config) (bucket_init config cells)"
    using B(1) unfolding buckets_ok_def I by (auto simp del: map_map)
  show "mset (concat (map snd (bucket_init config cells))) = mset cells"
    unfolding I B(2) [symmetric] by (simp add: mset_concat_map comp_def case_prod_unfold)
qed

section \<open>The limits are enough\<close>

lemma inferLimits_spec:
  assumes "max_length \<noteq> 0" "max_chains \<noteq> Some 0" "0 < bits"
  shows "\<exists>l. inferLimits max_length max_chains bits = Inr l \<and> 0 < li_chain_count l \<and> bits \<le> li_chain_count l * li_max_length l
    \<and> (max_chains = None \<longrightarrow> li_max_length l \<le> max_length \<and> (li_chain_count l - 1) * li_max_length l < bits)
    \<and> (\<forall>m. max_chains = Some m \<longrightarrow> li_chain_count l \<le> m)"
proof -
  let ?up = "\<lambda>b c. if b mod c \<noteq> 0 then b div c + 1 else b div c :: nat"
  have up: "b \<le> c * ?up b c" "(?up b c - 1) * c < b" if "0 < c" "0 < b" for b c :: nat
  proof -
    have e: "b = c * (b div c) + b mod c" by simp
    have "b mod c < c" using that by simp
    then have "b \<le> c * (b div c) + c" using e by linarith
    then show "b \<le> c * ?up b c" using e by (auto simp: algebra_simps)
    show "(?up b c - 1) * c < b"
    proof (cases "b mod c = 0")
      case True
      then have "0 < b div c" using e that(2) by (metis add_cancel_right_left gr0I mult_0_right)
      then obtain q where q: "b div c = Suc q" by (cases "b div c") auto
      then have "b = c * Suc q" using e True by simp
      then have "q * c < b" using that(1) by (simp add: algebra_simps)
      then show ?thesis using True q by simp
    next
      case False
      then have "c * (b div c) < b" using e by linarith
      then show ?thesis using False by (simp add: mult.commute)
    qed
  qed
  define count where "count = ?up bits max_length"
  have c0: "0 < count" using up(1) [of max_length bits] assms by (auto simp: count_def intro!: gr0I)
  define n where "n = (case max_chains of None \<Rightarrow> count | Some m \<Rightarrow> min count m)"
  have n: "0 < n" "n \<le> count" using c0 assms(2) by (auto simp: n_def split: option.splits)
  define l where "l = \<lparr>li_chain_count = n, li_max_length = (if bits mod n = 0 then bits div n else bits div n + 1)\<rparr>"
  have "inferLimits max_length max_chains bits = Inr l"
    unfolding inferLimits_def Let_def count_def [symmetric] n_def [symmetric] l_def using assms(1) n(1) by simp
  moreover have m: "li_max_length l = ?up bits n" by (simp add: l_def)
  moreover have "bits \<le> n * ?up bits n" using up(1) n(1) assms(3) by blast
  moreover have "li_max_length l \<le> max_length \<and> (n - 1) * li_max_length l < bits" if "max_chains = None"
  proof -
    have nc: "n = count" using that by (simp add: n_def)
    have "(?up bits n - 1) * n < bits" using up(2) n(1) assms(3) by blast
    also have "bits \<le> max_length * n" using up(1) [of max_length bits] assms(1,3) by (simp add: nc count_def)
    finally have "(?up bits n - 1) < max_length" by simp
    then have le: "li_max_length l \<le> max_length" unfolding m by linarith
    have "(n - 1) * li_max_length l \<le> (n - 1) * max_length" using le by simp
    also have "\<dots> < bits" using up(2) [of max_length bits] assms(1,3) by (simp add: nc count_def)
    finally show ?thesis using le by blast
  qed
  moreover have "\<forall>m. max_chains = Some m \<longrightarrow> n \<le> m" by (simp add: n_def)
  ultimately show ?thesis using n(1) by (intro exI [of _ l]) (simp add: l_def)
qed

section \<open>A chain takes cells from the end of its bucket\<close>

definition chain_cells :: "scan_chain \<Rightarrow> scan_cell multiset" where
  "chain_cells chain = mset (ch_rising chain) + mset (ch_falling chain) + mset (ch_cells chain)"

definition chain_ok :: "scan_chain \<Rightarrow> bool" where
  "chain_ok chain \<longleftrightarrow> ch_bits chain = sum_mset (image_mset sc_bits (chain_cells chain))
    \<and> (\<forall>c \<in> set (ch_rising chain). cd_clock_edge (sc_clock_domain c) = Rising)
    \<and> (\<forall>c \<in> set (ch_falling chain). cd_clock_edge (sc_clock_domain c) = Falling)"

lemma ScanChain_ok [simp]: "chain_ok (ScanChain name)" "chain_cells (ScanChain name) = {#}" "ch_bits (ScanChain name) = 0"
  "ch_cells (ScanChain name) = []"
  by (simp_all add: chain_ok_def chain_cells_def ScanChain_def)

lemma ch_add_spec:
  "chain_ok chain \<Longrightarrow> chain_ok (ch_add c chain)" "chain_cells (ch_add c chain) = add_mset c (chain_cells chain)"
  "ch_cells (ch_add c chain) = ch_cells chain" "ch_bits (ch_add c chain) = ch_bits chain + sc_bits c" "ch_name (ch_add c chain) = ch_name chain"
  by (auto simp: chain_ok_def chain_cells_def ch_add_def Let_def split: ClockEdge.split)

lemma mset_last: "bucket \<noteq> [] \<Longrightarrow> mset bucket = add_mset (last bucket) (mset (butlast bucket))"
  by (cases bucket rule: rev_cases) auto

lemma fill_chain_keeps:
  assumes "fill_chain m chain bucket = (chain', rest)" "chain_ok chain" "ch_cells chain = []"
  shows "chain_ok chain' \<and> ch_cells chain' = [] \<and> ch_name chain' = ch_name chain
    \<and> chain_cells chain' + mset rest = chain_cells chain + mset bucket \<and> (rest = [] \<or> m \<le> ch_bits chain')"
  using assms
proof (induction m chain bucket rule: fill_chain.induct)
  case (1 m chain bucket)
  show ?case
  proof (cases "ch_bits chain < m \<and> bucket \<noteq> []")
    case True
    have "fill_chain m (ch_add (last bucket) chain) (butlast bucket) = (chain', rest)"
      using "1.prems"(1) True by (simp add: fill_chain.simps [of m chain bucket])
    from "1.IH" [OF True this ch_add_spec(1) [OF "1.prems"(2)]] show ?thesis
      using "1.prems"(3) mset_last [of bucket] True by (simp add: ch_add_spec)
  next
    case False
    then have "chain' = chain" "rest = bucket"
      using "1.prems"(1) unfolding fill_chain.simps [of m chain bucket] by (simp_all only: if_False prod.inject)
    then show ?thesis using "1.prems" False by auto
  qed
qed

text \<open>Every cell but the last one starts below the limit.\<close>

lemma fill_chain_bound:
  assumes "fill_chain m chain bucket = (chain', rest)" "ch_bits chain < m + b" "\<forall>c \<in> set bucket. sc_bits c \<le> b"
  shows "ch_bits chain' < m + b"
  using assms
proof (induction m chain bucket rule: fill_chain.induct)
  case (1 m chain bucket)
  show ?case
  proof (cases "ch_bits chain < m \<and> bucket \<noteq> []")
    case True
    have "fill_chain m (ch_add (last bucket) chain) (butlast bucket) = (chain', rest)"
      using "1.prems"(1) True by (simp add: fill_chain.simps [of m chain bucket])
    moreover have "sc_bits (last bucket) \<le> b" "\<forall>c \<in> set (butlast bucket). sc_bits c \<le> b"
      using "1.prems"(3) True by (simp_all add: in_set_butlastD)
    ultimately show ?thesis using "1.IH" [OF True] True by (simp add: ch_add_spec)
  next
    case False
    then have "chain' = chain" using "1.prems"(1) unfolding fill_chain.simps [of m chain bucket] by (simp only: if_False prod.inject)
    then show ?thesis using "1.prems" by simp
  qed
qed

section \<open>The order of the cells is a permutation\<close>

text \<open>
  What is relied on of the query for the \<open>k\<close> nearest entries of a tree: it returns different entries of the
  tree, \<open>k\<close> of them or all.
\<close>

definition nearest_ok :: "(Point \<Rightarrow> nat \<Rightarrow> entry list \<Rightarrow> entry list) \<Rightarrow> bool" where
  "nearest_ok nearest \<longleftrightarrow> (\<forall>p k es. distinct es \<longrightarrow> distinct (nearest p k es) \<and> set (nearest p k es) \<subseteq> set es
    \<and> length (nearest p k es) = min k (length es))"

lemma search_next_other:
  assumes ok: "nearest_ok nearest" and d: "distinct (map snd rtree)" "cursor \<in> set rtree" "1 < length rtree"
  shows "search_next cursor (nearest (fst cursor) 10 rtree) \<in> set rtree \<and> snd (search_next cursor (nearest (fst cursor) 10 rtree)) \<noteq> snd cursor"
proof -
  let ?ns = "nearest (fst cursor) 10 rtree"
  have D: "distinct rtree" using d(1) by (simp add: distinct_map)
  have N: "distinct ?ns" "set ?ns \<subseteq> set rtree" "length ?ns = min 10 (length rtree)" using ok D by (auto simp: nearest_ok_def)
  have "\<exists>e \<in> set ?ns. e \<noteq> cursor"
  proof (rule ccontr)
    assume "\<not> ?thesis"
    then have "set ?ns \<subseteq> {cursor}" by auto
    then have "card (set ?ns) \<le> 1" using card_mono [of "{cursor}"] by simp
    then show False using N(1,3) d(3) by (simp add: distinct_card)
  qed
  then obtain e where e: "e \<in> set ?ns" "e \<noteq> cursor" by blast
  then have "snd e \<noteq> snd cursor" using d(1,2) N(2) by (metis distinct_map inj_onD subsetD)
  then obtain e' where "find (\<lambda>e. snd e \<noteq> snd cursor) ?ns = Some e'"
    using e(1) by (cases "find (\<lambda>e. snd e \<noteq> snd cursor) ?ns"; cases e) (auto simp: find_None_iff)
  moreover from this have "e' \<in> set ?ns \<and> snd e' \<noteq> snd cursor" by (auto simp: find_Some_iff)
  ultimately show ?thesis using N(2) by (auto simp: search_next_def)
qed

lemma visit_nearest_spec:
  assumes ok: "nearest_ok nearest"
  shows "distinct (map snd rtree) \<Longrightarrow> cursor \<in> set rtree \<Longrightarrow> length rtree = Suc n \<Longrightarrow>
    \<exists>visited. visit_nearest nearest n cursor rtree = Inr visited \<and> mset visited = mset (map snd rtree)"
proof (induction n arbitrary: cursor rtree)
  case 0
  then show ?case by (auto simp: length_Suc_conv)
next
  case (Suc n)
  define e where "e = search_next cursor (nearest (fst cursor) 10 rtree)"
  have e: "e \<in> set rtree" "snd e \<noteq> snd cursor"
    using search_next_other [OF ok Suc.prems(1,2)] Suc.prems(3) by (simp_all add: e_def)
  have m: "mset (map snd rtree) = add_mset (snd cursor) (mset (map snd (remove1 cursor rtree)))"
    using Suc.prems(2) by (simp add: image_mset_Diff)
  have "distinct (map snd (remove1 cursor rtree))" using Suc.prems(1) by (simp add: distinct_map inj_on_def)
  moreover have "e \<in> set (remove1 cursor rtree)" using e by (metis in_set_remove1)
  moreover have "length (remove1 cursor rtree) = Suc n" using Suc.prems(2,3) by (simp add: length_remove1)
  ultimately obtain visited where "visit_nearest nearest n e (remove1 cursor rtree) = Inr visited"
      "mset visited = mset (map snd (remove1 cursor rtree))"
    using Suc.IH by blast
  then show ?case using e(2) m by (simp add: Let_def e_def [symmetric])
qed

lemma start_index_less: "cells \<noteq> [] \<Longrightarrow> start_index cells < length cells"
proof -
  assume ne: "cells \<noteq> []"
  let ?f = "\<lambda>i (start, lowest). let origin = sc_origin (cells ! i); dist = pt_x origin + pt_y origin
    in if dist < lowest then (i, dist) else (start, lowest)"
  have "fst (fold ?f is sl) < length cells" if "fst sl < length cells" "\<forall>i \<in> set is. i < length cells" for "is" sl
    using that by (induction "is" arbitrary: sl) (auto simp: Let_def split: prod.split)
  from this [of "(0, 2 ^ 63 - 1)" "[0..<length cells]"] show ?thesis using ne by (simp add: start_index_def)
qed

text \<open>No error, and every cell once.\<close>

lemma OptimizeScanWirelength_spec:
  assumes "nearest_ok nearest"
  shows "\<exists>cells'. OptimizeScanWirelength nearest cells = Inr cells' \<and> mset cells' = mset cells"
proof (cases "cells = [] \<or> (\<exists>c \<in> set cells. \<not> sc_placed c)")
  case False
  let ?t = "map (\<lambda>i. (sc_origin (cells ! i), i)) [0..<length cells]"
  have s: "start_index cells < length cells" using start_index_less False by blast
  have "map snd ?t = [0..<length cells]" by (simp add: comp_def)
  moreover have "?t ! start_index cells \<in> set ?t" using s by (intro nth_mem) simp
  moreover have "length ?t = Suc (length cells - 1)" using s by simp
  ultimately obtain visited where v: "visit_nearest nearest (length cells - 1) (?t ! start_index cells) ?t = Inr visited"
      "mset visited = mset [0..<length cells]"
    using visit_nearest_spec [OF assms, of ?t "?t ! start_index cells" "length cells - 1"] by auto
  have "mset (map ((!) cells) visited) = mset (map ((!) cells) [0..<length cells])" unfolding mset_map v(2) ..
  then have "mset (map ((!) cells) visited) = mset cells" by (simp add: map_nth)
  then show ?thesis using v(1) False by (simp add: OptimizeScanWirelength_def Let_def)
qed (auto simp: OptimizeScanWirelength_def)

section \<open>The chains of a domain\<close>

lemma sum_bind_Inr: "sum_bind r f = Inr b \<longleftrightarrow> (\<exists>a. r = Inr a \<and> f a = Inr b)"
  by (cases r) auto

lemma sum_bits: "sum_mset (image_mset f (mset xs)) = sum_list (map f xs)"
  by (induction xs) simp_all

text \<open>A finished chain: the falling cells first.\<close>

definition chain_done :: "scan_chain \<Rightarrow> bool" where
  "chain_done chain \<longleftrightarrow> ch_rising chain = [] \<and> ch_falling chain = []
    \<and> ch_bits chain = sum_list (map sc_bits (ch_cells chain))
    \<and> (\<exists>falling rising. ch_cells chain = falling @ rising \<and> (\<forall>c \<in> set falling. cd_clock_edge (sc_clock_domain c) = Falling)
        \<and> (\<forall>c \<in> set rising. cd_clock_edge (sc_clock_domain c) = Rising))"

lemma sortScanCells_spec:
  assumes "nearest_ok nearest" "chain_ok chain" "ch_cells chain = []"
  shows "\<exists>chain'. sortScanCells (sort_edges nearest) chain = Inr chain' \<and> chain_done chain' \<and> ch_name chain' = ch_name chain
    \<and> mset (ch_cells chain') = chain_cells chain \<and> ch_bits chain' = ch_bits chain"
proof -
  obtain f where f: "OptimizeScanWirelength nearest (ch_falling chain) = Inr f" "mset f = mset (ch_falling chain)"
    using OptimizeScanWirelength_spec [OF assms(1)] by blast
  obtain r where r: "OptimizeScanWirelength nearest (ch_rising chain) = Inr r" "mset r = mset (ch_rising chain)"
    using OptimizeScanWirelength_spec [OF assms(1)] by blast
  let ?c = "chain\<lparr>ch_cells := f @ r, ch_falling := [], ch_rising := []\<rparr>"
  have R: "sortScanCells (sort_edges nearest) chain = Inr ?c"
    using f(1) r(1) assms(3) by (simp add: sortScanCells_def sort_edges_def)
  have m: "mset (f @ r) = chain_cells chain" using f(2) r(2) assms(3) by (simp add: chain_cells_def union_commute)
  have "ch_bits chain = sum_list (map sc_bits (f @ r))" using assms(2) unfolding chain_ok_def m [symmetric] sum_bits by simp
  moreover have "set f = set (ch_falling chain)" "set r = set (ch_rising chain)" using f(2) r(2) by (metis set_mset_mset)+
  ultimately have "chain_done ?c" using assms(2) unfolding chain_done_def chain_ok_def
    by (intro conjI exI [of _ f] exI [of _ r]) simp_all
  then show ?thesis using R m by (intro exI [of _ ?c]) simp
qed

definition chains_cells :: "scan_chain list \<Rightarrow> scan_cell multiset" where
  "chains_cells chs = mset (concat (map ch_cells chs))"

lemma architect_chains_spec:
  assumes ok: "nearest_ok nearest"
  shows "\<forall>chain \<in> set chs. \<exists>name. chain = ScanChain name \<Longrightarrow>
    \<exists>chs' rest. architect_chains nearest m chs bucket = Inr (chs', rest) \<and> map ch_name chs' = map ch_name chs
      \<and> chains_cells chs' + mset rest = mset bucket \<and> (\<forall>chain \<in> set chs'. chain_done chain)
      \<and> (rest = [] \<or> (\<forall>chain \<in> set chs'. m \<le> ch_bits chain))
      \<and> (0 < m \<longrightarrow> (\<forall>b. (\<forall>c \<in> set bucket. sc_bits c \<le> b) \<longrightarrow> (\<forall>chain \<in> set chs'. ch_bits chain < m + b)))"
proof (induction chs arbitrary: bucket)
  case Nil
  then show ?case by (simp add: chains_cells_def)
next
  case (Cons chain chs)
  obtain name where c: "chain = ScanChain name" using Cons.prems by auto
  obtain chain1 bucket1 where F: "fill_chain m chain bucket = (chain1, bucket1)" by force
  have K: "chain_ok chain1" "ch_cells chain1 = []" "ch_name chain1 = ch_name chain"
      "chain_cells chain1 + mset bucket1 = mset bucket" "bucket1 = [] \<or> m \<le> ch_bits chain1"
    using fill_chain_keeps [OF F] by (simp_all add: c)
  obtain chain2 where S: "sortScanCells (sort_edges nearest) chain1 = Inr chain2" "chain_done chain2" "ch_name chain2 = ch_name chain1"
      "mset (ch_cells chain2) = chain_cells chain1" "ch_bits chain2 = ch_bits chain1"
    using sortScanCells_spec [OF ok K(1,2)] by blast
  obtain chs' rest where A: "architect_chains nearest m chs bucket1 = Inr (chs', rest)" "map ch_name chs' = map ch_name chs"
      "chains_cells chs' + mset rest = mset bucket1" "\<forall>chain \<in> set chs'. chain_done chain"
      "rest = [] \<or> (\<forall>chain \<in> set chs'. m \<le> ch_bits chain)"
      "0 < m \<longrightarrow> (\<forall>b. (\<forall>c \<in> set bucket1. sc_bits c \<le> b) \<longrightarrow> (\<forall>chain \<in> set chs'. ch_bits chain < m + b))"
    using Cons.IH [of bucket1] Cons.prems by auto
  have sub: "set bucket1 \<subseteq> set bucket" using K(4) by (metis mset_subset_eq_add_right set_mset_mono set_mset_mset)
  have "rest = [] \<or> m \<le> ch_bits chain2" using K(5) A(3) S(5) by auto
  moreover have "ch_bits chain2 < m + b" if "0 < m" "\<forall>c \<in> set bucket. sc_bits c \<le> b" for b
    using fill_chain_bound [OF F] that S(5) by (simp add: c)
  moreover have "chains_cells (chain2 # chs') + mset rest = mset bucket"
    using A(3) K(4) S(4) by (simp add: chains_cells_def union_assoc)
  ultimately show ?case using F S(1,2,3) A K(3) sub by (auto simp: subset_iff)
qed

lemma sum_list_at_least: "\<forall>x \<in> set xs. m \<le> f x \<Longrightarrow> length xs * m \<le> (\<Sum>x \<leftarrow> xs. f x :: nat)"
  by (induction xs) simp_all

lemma sum_list_at_most: "\<forall>x \<in> set xs. f x \<le> m \<Longrightarrow> (\<Sum>x \<leftarrow> xs. f x :: nat) \<le> length xs * m"
  by (induction xs) simp_all

text \<open>Where the limits are enough and no cell is empty, nothing is left.\<close>

lemma architect_chains_all:
  assumes "nearest_ok nearest" "\<forall>chain \<in> set chs. \<exists>name. chain = ScanChain name"
    and "sum_list (map sc_bits bucket) \<le> length chs * m" "\<forall>c \<in> set bucket. 0 < sc_bits c"
  shows "\<exists>chs'. architect_chains nearest m chs bucket = Inr (chs', []) \<and> map ch_name chs' = map ch_name chs
      \<and> chains_cells chs' = mset bucket \<and> (\<forall>chain \<in> set chs'. chain_done chain)
      \<and> (0 < m \<longrightarrow> (\<forall>b. (\<forall>c \<in> set bucket. sc_bits c \<le> b) \<longrightarrow> (\<forall>chain \<in> set chs'. ch_bits chain < m + b)))"
proof -
  obtain chs' rest where A: "architect_chains nearest m chs bucket = Inr (chs', rest)" "map ch_name chs' = map ch_name chs"
      "chains_cells chs' + mset rest = mset bucket" "\<forall>chain \<in> set chs'. chain_done chain"
      "rest = [] \<or> (\<forall>chain \<in> set chs'. m \<le> ch_bits chain)"
      "0 < m \<longrightarrow> (\<forall>b. (\<forall>c \<in> set bucket. sc_bits c \<le> b) \<longrightarrow> (\<forall>chain \<in> set chs'. ch_bits chain < m + b))"
    using architect_chains_spec [OF assms(1,2), of m bucket] by (elim exE conjE) (rule that; assumption)
  have "rest = []"
  proof (rule ccontr)
    assume ne: "rest \<noteq> []"
    have bits: "sum_mset (image_mset sc_bits (chains_cells chs')) = (\<Sum>chain \<leftarrow> chs'. ch_bits chain)"
      using A(4) unfolding chains_cells_def sum_bits by (induction chs') (simp_all add: chain_done_def)
    have "sum_list (map sc_bits bucket) = sum_mset (image_mset sc_bits (mset bucket))" by (simp only: sum_bits)
    also have "\<dots> = (\<Sum>chain \<leftarrow> chs'. ch_bits chain) + sum_list (map sc_bits rest)"
      unfolding A(3) [symmetric] image_mset_union sum_mset.union bits sum_bits ..
    finally have "(\<Sum>chain \<leftarrow> chs'. ch_bits chain) + sum_list (map sc_bits rest) \<le> length chs * m" using assms(3) by simp
    moreover have "length chs * m \<le> (\<Sum>chain \<leftarrow> chs'. ch_bits chain)"
      using sum_list_at_least [of chs' m ch_bits] A(2,5) ne by (metis length_map)
    moreover have "0 < sum_list (map sc_bits rest)"
    proof -
      have "hd rest \<in> set bucket" using ne A(3) by (metis hd_in_set mset_subset_eq_add_right set_mset_mono set_mset_mset subsetD)
      then have "0 < sc_bits (hd rest)" using assms(4) by blast
      then show ?thesis using ne by (cases rest) simp_all
    qed
    ultimately show False by linarith
  qed
  then show ?thesis using A by auto
qed

section \<open>All domains\<close>

lemma sum_those_map: "\<forall>x \<in> set xs. f x = Inr (g x) \<Longrightarrow> sum_those (map f xs) = Inr (map g xs)"
  by (induction xs) simp_all

lemma sum_those_all2: "\<forall>x \<in> set xs. \<exists>y. f x = Inr y \<and> P x y \<Longrightarrow> \<exists>ys. sum_those (map f xs) = Inr ys \<and> list_all2 P xs ys"
  by (induction xs) force+

lemma createScanChains_spec:
  "map (\<lambda>(k, l, chs). (k, l)) (createScanChains n ls) = ls"
  "\<forall>(k, l, chs) \<in> set (createScanChains n ls). length chs = li_chain_count l \<and> (\<forall>chain \<in> set chs. \<exists>name. chain = ScanChain name)"
  by (induction n ls rule: createScanChains.induct) auto

definition limit_length :: "architect_config \<Rightarrow> nat" where
  "limit_length config = (case ac_max_length config of Some max_length \<Rightarrow> max_length | None \<Rightarrow> 200)"

text \<open>What the architect makes of one bucket.\<close>

definition domain_done :: "architect_config \<Rightarrow> buckets \<Rightarrow> 64 word \<times> scan_chain list \<Rightarrow> bool" where
  "domain_done config bs d \<longleftrightarrow> (\<exists>cs l. (fst d, cs) \<in> set bs
    \<and> inferLimits (limit_length config) (ac_max_chains config) (sum_list (map sc_bits cs)) = Inr l
    \<and> chains_cells (snd d) = mset cs \<and> length (snd d) = li_chain_count l \<and> (\<forall>chain \<in> set (snd d). chain_done chain)
    \<and> (\<forall>b. (\<forall>c \<in> set cs. sc_bits c \<le> b) \<longrightarrow> (\<forall>chain \<in> set (snd d). ch_bits chain < li_max_length l + b)))"

definition config_ok :: "architect_config \<Rightarrow> bool" where
  "config_ok config \<longleftrightarrow> ac_max_length config \<noteq> Some 0 \<and> ac_max_chains config \<noteq> Some 0"

lemma inferChainCount_spec:
  assumes ok: "config_ok config" "buckets_ok hash bs" "\<forall>(k, cs) \<in> set bs. \<forall>c \<in> set cs. 0 < sc_bits c"
  shows "\<exists>ls. inferChainCount config bs = Inr ls \<and> mset (map fst ls) = mset (map fst bs)
    \<and> (\<forall>(k, l) \<in> set ls. \<exists>cs. (k, cs) \<in> set bs \<and> 0 < sum_list (map sc_bits cs)
         \<and> inferLimits (limit_length config) (ac_max_chains config) (sum_list (map sc_bits cs)) = Inr l)"
proof -
  let ?L = "inferLimits (limit_length config) (ac_max_chains config)"
  let ?bits = "\<lambda>cs. sum_list (map sc_bits cs)"
  have pos: "0 < ?bits cs" if "(k, cs) \<in> set bs" for k cs
  proof -
    have "cs \<noteq> []" using ok(2) that by (auto simp: buckets_ok_def)
    moreover have "\<forall>c \<in> set cs. 0 < sc_bits c" using ok(3) that by auto
    ultimately show ?thesis by (cases cs) simp_all
  qed
  have L: "?L (?bits cs) = Inr (projr (?L (?bits cs)))" if "(k, cs) \<in> set bs" for k cs
  proof -
    have "limit_length config \<noteq> 0" "ac_max_chains config \<noteq> Some 0"
      using ok(1) by (auto simp: config_ok_def limit_length_def split: option.splits)
    from inferLimits_spec [OF this pos [OF that]] show ?thesis by auto
  qed
  have T: "getTotalBitsPerHashDomain bs = map (\<lambda>(k, cs). (k, ?bits cs)) bs"
    using ok(2) by (auto simp: getTotalBitsPerHashDomain_def buckets_ok_def intro!: arg_cong [of _ _ "map _"] filter_True)
  let ?ls = "map (\<lambda>(k, cs). (k, projr (?L (?bits cs)))) bs"
  have "sum_those (map (\<lambda>(k, bits). sum_bind (?L bits) (\<lambda>l. Inr (k, l))) (getTotalBitsPerHashDomain bs)) = Inr ?ls"
    unfolding T map_map
  proof (rule sum_those_map, rule ballI)
    fix x assume "x \<in> set bs"
    moreover obtain k cs where x: "x = (k, cs)" by force
    ultimately obtain l where "?L (?bits cs) = Inr l" using L by blast
    then show "((\<lambda>(k, bits). sum_bind (?L bits) (\<lambda>l. Inr (k, l))) \<circ> (\<lambda>(k, cs). (k, ?bits cs))) x
        = Inr (case x of (k, cs) \<Rightarrow> (k, projr (?L (?bits cs))))" by (simp add: x)
  qed
  then have "inferChainCount config bs = Inr (sort_key fst ?ls)"
    by (simp add: inferChainCount_def inferChainCountFromMaxLength_def limit_length_def split: option.splits)
  moreover have "mset (map fst (sort_key fst ?ls)) = mset (map fst bs)"
    by (simp add: image_mset.compositionality comp_def case_prod_unfold)
  moreover have "\<forall>(k, l) \<in> set (sort_key fst ?ls). \<exists>cs. (k, cs) \<in> set bs \<and> 0 < ?bits cs \<and> ?L (?bits cs) = Inr l"
    using L pos by auto
  ultimately show ?thesis by blast
qed

lemma architect_spec:
  assumes near: "nearest_ok nearest" and ok: "config_ok config" "buckets_ok hash bs" "\<forall>(k, cs) \<in> set bs. \<forall>c \<in> set cs. 0 < sc_bits c"
  shows "\<exists>ls domains. inferChainCount config bs = Inr ls \<and> architect nearest bs (createScanChains 0 ls) = Inr domains
    \<and> mset (map fst domains) = mset (map fst bs) \<and> (\<forall>d \<in> set domains. domain_done config bs d)"
proof -
  obtain ls where ls: "inferChainCount config bs = Inr ls" "mset (map fst ls) = mset (map fst bs)"
    "\<forall>(k, l) \<in> set ls. \<exists>cs. (k, cs) \<in> set bs \<and> 0 < sum_list (map sc_bits cs)
         \<and> inferLimits (limit_length config) (ac_max_chains config) (sum_list (map sc_bits cs)) = Inr l"
    using inferChainCount_spec [OF ok] by blast
  let ?f = "\<lambda>(k, l, chs). sum_bind (architect_chains nearest (li_max_length l) chs (the (map_of bs k))) (\<lambda>(chs', rest). Inr (k, chs'))"
  let ?P = "\<lambda>(k, l, chs) d. fst d = k \<and> domain_done config bs d"
  have "\<exists>y. ?f x = Inr y \<and> ?P x y" if x: "x \<in> set (createScanChains 0 ls)" for x
  proof -
    obtain k l chs where kl: "x = (k, l, chs)" by (metis prod_cases3)
    have "(k, l) \<in> set (map (\<lambda>(k, l, chs). (k, l)) (createScanChains 0 ls))" using x kl by force
    then have "(k, l) \<in> set ls" unfolding createScanChains_spec(1) .
    then obtain cs where cs: "(k, cs) \<in> set bs" "0 < sum_list (map sc_bits cs)"
      "inferLimits (limit_length config) (ac_max_chains config) (sum_list (map sc_bits cs)) = Inr l"
      using ls(3) by auto
    have m: "map_of bs k = Some cs" using cs(1) ok(2) by (simp add: buckets_ok_def)
    have n: "length chs = li_chain_count l" "\<forall>chain \<in> set chs. \<exists>name. chain = ScanChain name"
      using createScanChains_spec(2) [of 0 ls] x kl by auto
    have lim: "limit_length config \<noteq> 0" "ac_max_chains config \<noteq> Some 0"
      using ok(1) by (auto simp: config_ok_def limit_length_def split: option.splits)
    have enough: "sum_list (map sc_bits cs) \<le> length chs * li_max_length l"
      using inferLimits_spec [OF lim cs(2)] cs(3) n(1) by auto
    have "0 < li_max_length l"
    proof (rule gr0I)
      assume "li_max_length l = 0"
      then have "length chs * li_max_length l = 0" by simp
      then show False using enough cs(2) by linarith
    qed
    moreover have "\<forall>c \<in> set cs. 0 < sc_bits c" using ok(3) cs(1) by blast
    ultimately obtain chs' where c: "architect_chains nearest (li_max_length l) chs cs = Inr (chs', [])"
      "map ch_name chs' = map ch_name chs" "chains_cells chs' = mset cs" "\<forall>chain \<in> set chs'. chain_done chain"
      "\<forall>b. (\<forall>c \<in> set cs. sc_bits c \<le> b) \<longrightarrow> (\<forall>chain \<in> set chs'. ch_bits chain < li_max_length l + b)"
      using architect_chains_all [OF near n(2) enough] by blast
    have "length chs' = li_chain_count l" using c(2) n(1) by (metis length_map)
    then have "domain_done config bs (k, chs')" unfolding domain_done_def using cs(1,3) c(3-5) by auto
    then show ?thesis using c(1) m kl by simp
  qed
  then obtain domains where d: "architect nearest bs (createScanChains 0 ls) = Inr domains"
    "list_all2 ?P (createScanChains 0 ls) domains"
    using sum_those_all2 [of "createScanChains 0 ls" ?f ?P] unfolding architect_def by blast
  have "map fst domains = map fst (map (\<lambda>(k, l, chs). (k, l)) (createScanChains 0 ls))"
    using d(2) by (induction rule: list_all2_induct) auto
  then have "mset (map fst domains) = mset (map fst bs)" using ls(2) unfolding createScanChains_spec(1) by simp
  moreover have "\<forall>y \<in> set domains. domain_done config bs y"
    using d(2) by (induction rule: list_all2_induct) auto
  ultimately show ?thesis using ls(1) d(1) by blast
qed

lemma chains_cells_sum: "chains_cells chs = (\<Sum>chain \<in># mset chs. mset (ch_cells chain))"
  by (induction chs) (simp_all add: chains_cells_def)

lemma chains_of_domains:
  assumes ok: "buckets_ok hash bs" and "mset (map fst domains) = mset (map fst bs)" "\<forall>d \<in> set domains. domain_done config bs d"
  shows "chains_cells (getScanChains domains) = mset (concat (map snd bs))"
proof -
  let ?g = "\<lambda>k. mset (the (map_of bs k))"
  have "chains_cells (snd d) = ?g (fst d)" if "d \<in> set domains" for d
    using assms(3) that ok by (auto simp: domain_done_def buckets_ok_def)
  then have "(\<Sum>d \<leftarrow> domains. chains_cells (snd d)) = (\<Sum>k \<leftarrow> map fst domains. ?g k)"
    unfolding map_map comp_def by (metis (no_types, lifting) map_eq_conv)
  also have "\<dots> = sum_mset (image_mset ?g (mset (map fst domains)))" by (simp only: sum_mset_sum_list mset_map [symmetric])
  also have "\<dots> = (\<Sum>k \<leftarrow> map fst bs. ?g k)" unfolding assms(2) by (simp only: sum_mset_sum_list mset_map [symmetric])
  also have "\<dots> = (\<Sum>b \<leftarrow> bs. mset (snd b))"
  proof -
    have "?g (fst b) = mset (snd b)" if "b \<in> set bs" for b using ok that by (cases b) (simp add: buckets_ok_def)
    then show ?thesis unfolding map_map comp_def by (metis (no_types, lifting) map_eq_conv)
  qed
  finally have "(\<Sum>d \<leftarrow> domains. chains_cells (snd d)) = mset (concat (map snd bs))" by (simp add: mset_concat_map)
  moreover have "chains_cells (concat (map snd ds)) = (\<Sum>d \<leftarrow> ds. chains_cells (snd d))" for ds :: "(64 word \<times> scan_chain list) list"
    by (induction ds) (simp_all add: chains_cells_def)
  moreover have "chains_cells (getScanChains domains) = chains_cells (concat (map snd domains))"
    by (simp add: chains_cells_sum getScanChains_def)
  ultimately show ?thesis by simp
qed

section \<open>How many chains get cells\<close>

definition ceil_div :: "nat \<Rightarrow> nat \<Rightarrow> nat" where
  "ceil_div b c = (if b mod c = 0 then b div c else b div c + 1)"

lemma ceil_div_step: "0 < m \<Longrightarrow> 0 < n \<Longrightarrow> ceil_div n m = Suc (ceil_div (n - m) m)"
  by (cases "n < m") (auto simp: ceil_div_def le_div_geq le_mod_geq)

lemma ceil_div_0 [simp]: "ceil_div 0 m = 0"
  by (simp add: ceil_div_def)

text \<open>One-bit cells fill a chain up to the limit exactly.\<close>

lemma fill_chain_one:
  assumes "fill_chain m chain bucket = (chain', rest)" "\<forall>c \<in> set bucket. sc_bits c = 1"
  shows "length rest = length bucket - (m - ch_bits chain) \<and> set rest \<subseteq> set bucket"
  using assms
proof (induction m chain bucket rule: fill_chain.induct)
  case (1 m chain bucket)
  show ?case
  proof (cases "ch_bits chain < m \<and> bucket \<noteq> []")
    case True
    have "fill_chain m (ch_add (last bucket) chain) (butlast bucket) = (chain', rest)"
      using "1.prems"(1) True by (simp add: fill_chain.simps [of m chain bucket])
    moreover have "\<forall>c \<in> set (butlast bucket). sc_bits c = 1" "sc_bits (last bucket) = 1"
      using "1.prems"(2) True by (simp_all add: in_set_butlastD)
    ultimately have "length rest = length (butlast bucket) - (m - (ch_bits chain + 1)) \<and> set rest \<subseteq> set (butlast bucket)"
      using "1.IH" [OF True] by (simp add: ch_add_spec)
    then show ?thesis using True by (auto dest: in_set_butlastD)
  next
    case False
    then have "rest = bucket" using "1.prems"(1) unfolding fill_chain.simps [of m chain bucket] by (simp only: if_False prod.inject)
    then show ?thesis using False by auto
  qed
qed

lemma chains_with_cells:
  assumes ok: "nearest_ok nearest" and m: "0 < m"
  shows "\<forall>chain \<in> set chs. \<exists>name. chain = ScanChain name \<Longrightarrow> \<forall>c \<in> set bucket. sc_bits c = 1 \<Longrightarrow>
    architect_chains nearest m chs bucket = Inr (chs', rest) \<Longrightarrow>
    length chs' = length chs \<and> length (filter (\<lambda>chain. ch_cells chain \<noteq> []) chs') = min (length chs) (ceil_div (length bucket) m)"
proof (induction chs arbitrary: bucket chs' rest)
  case (Cons chain chs)
  obtain name where c: "chain = ScanChain name" using Cons.prems by auto
  obtain chain1 bucket1 where F: "fill_chain m chain bucket = (chain1, bucket1)" by force
  have K: "chain_ok chain1" "ch_cells chain1 = []" "chain_cells chain1 + mset bucket1 = mset bucket"
    using fill_chain_keeps [OF F] by (simp_all add: c)
  have B: "length bucket1 = length bucket - m" "set bucket1 \<subseteq> set bucket"
    using fill_chain_one [OF F Cons.prems(2)] by (simp_all add: c)
  obtain chain2 where S: "sortScanCells (sort_edges nearest) chain1 = Inr chain2" "mset (ch_cells chain2) = chain_cells chain1"
    using sortScanCells_spec [OF ok K(1,2)] by blast
  from Cons.prems(3) obtain chs2 where A: "architect_chains nearest m chs bucket1 = Inr (chs2, rest)" "chs' = chain2 # chs2"
    by (auto simp: F S(1) sum_bind_Inr split: prod.splits)
  have "length chs2 = length chs \<and>
      length (filter (\<lambda>chain. ch_cells chain \<noteq> []) chs2) = min (length chs) (ceil_div (length bucket1) m)"
    using Cons.IH [OF _ _ A(1)] Cons.prems(1,2) B(2) by auto
  moreover have "length (ch_cells chain2) + length bucket1 = length bucket"
    using arg_cong [OF K(3), of size] S(2) by (metis size_mset size_union)
  then have "ch_cells chain2 \<noteq> [] \<longleftrightarrow> bucket \<noteq> []" using B(1) m by (cases bucket) auto
  ultimately show ?case
    using ceil_div_step [OF m, of "length bucket"] B(1) A(2) by (cases bucket) auto
qed simp

lemma one_bucket:
  assumes "cells \<noteq> []" "\<forall>c \<in> set cells. hashed config c = k"
  obtains cs where "bucket_init config cells = [(k, cs)]" "mset cs = mset cells"
proof -
  note B = bucket_init_spec [of config cells]
  have all_cells: "set (concat (map snd (bucket_init config cells))) = set cells" using B(2) by (metis set_mset_mset)
  have keys: "fst b = k" if "b \<in> set (bucket_init config cells)" for b
  proof -
    have "snd b \<noteq> []" "\<forall>c \<in> set (snd b). hashed config c = fst b" using B(1) that by (auto simp: buckets_ok_def)
    moreover from this have "hd (snd b) \<in> set cells" using that all_cells by (force simp: hd_in_set)
    ultimately show ?thesis using assms(2) hd_in_set by metis
  qed
  have "set (map fst (bucket_init config cells)) \<subseteq> {k}" using keys by auto
  then have "card (set (map fst (bucket_init config cells))) \<le> 1" using card_mono [of "{k}"] by fastforce
  moreover have "distinct (map fst (bucket_init config cells))" using B(1) by (simp add: buckets_ok_def)
  ultimately have "length (bucket_init config cells) \<le> 1" using distinct_card by fastforce
  moreover have "bucket_init config cells \<noteq> []" using B(2) assms(1) by auto
  ultimately obtain b where b: "bucket_init config cells = [b]" by (cases "bucket_init config cells"; cases "tl (bucket_init config cells)") auto
  show thesis
    by (rule that [of "snd b"]) (use b keys [of b] B(2) in \<open>auto simp: prod_eq_iff\<close>)
qed

section \<open>Properties\<close>

lemma scanArchitect_domains:
  assumes "nearest_ok nearest" "config_ok config" "\<forall>c \<in> set cells. 0 < sc_bits c"
  shows "\<exists>domains. scanArchitect nearest config cells = Inr (getScanChains domains)
    \<and> chains_cells (getScanChains domains) = mset cells
    \<and> (\<forall>d \<in> set domains. domain_done config (bucket_init config cells) d)"
proof -
  note B = bucket_init_spec [of config cells]
  have pos: "\<forall>(k, cs) \<in> set (bucket_init config cells). \<forall>c \<in> set cs. 0 < sc_bits c"
  proof safe
    fix k cs c assume "(k, cs) \<in> set (bucket_init config cells)" "c \<in> set cs"
    then have "c \<in> set (concat (map snd (bucket_init config cells)))" by force
    then show "0 < sc_bits c" using assms(3) B(2) by (metis set_mset_mset)
  qed
  obtain ls domains where D: "inferChainCount config (bucket_init config cells) = Inr ls"
    "architect nearest (bucket_init config cells) (createScanChains 0 ls) = Inr domains"
    "mset (map fst domains) = mset (map fst (bucket_init config cells))"
    "\<forall>d \<in> set domains. domain_done config (bucket_init config cells) d"
    using architect_spec [OF assms(1,2) B(1) pos] by blast
  have "chains_cells (getScanChains domains) = mset cells" using chains_of_domains [OF B(1) D(3,4)] B(2) by simp
  then show ?thesis using D(1,2,4) by (auto simp: scanArchitect_def Let_def)
qed

text \<open>C25: The scan architect returns, and puts every scan cell into exactly one chain: the cells of all chains are
  the given ones.  A chain counts its bits, has its falling cells before its rising ones, and all its cells
  are of one clock domain (as far as the hash of clock domains separates them).  Assumed: the limits given are
  not zero, and every cell has at least one bit.\<close>

theorem scan_architect_partition:
  assumes "nearest_ok nearest" "config_ok config" "\<forall>c \<in> set cells. 0 < sc_bits c"
  shows "\<exists>chs. scanArchitect nearest config cells = Inr chs \<and> mset (concat (map ch_cells chs)) = mset cells
    \<and> (\<forall>chain \<in> set chs. chain_done chain \<and> (\<exists>k. \<forall>c \<in> set (ch_cells chain). hashed config c = k))"
proof -
  obtain domains where D: "scanArchitect nearest config cells = Inr (getScanChains domains)"
    "chains_cells (getScanChains domains) = mset cells" "\<forall>d \<in> set domains. domain_done config (bucket_init config cells) d"
    using scanArchitect_domains [OF assms] by blast
  have "chain_done chain \<and> (\<exists>k. \<forall>c \<in> set (ch_cells chain). hashed config c = k)" if ch: "chain \<in> set (getScanChains domains)" for chain
  proof -
    obtain d where d: "d \<in> set domains" "chain \<in> set (snd d)" using ch unfolding getScanChains_def set_sort set_concat set_map by blast
    obtain cs where cs: "(fst d, cs) \<in> set (bucket_init config cells)" "chains_cells (snd d) = mset cs" "chain_done chain"
      using D(3) d unfolding domain_done_def by blast
    have "set (ch_cells chain) \<subseteq> set (concat (map ch_cells (snd d)))" using d(2) by auto
    also have "\<dots> = set cs" using cs(2) unfolding chains_cells_def by (metis set_mset_mset)
    finally show ?thesis using cs(1,3) bucket_init_spec(1) [of config cells] unfolding buckets_ok_def by blast
  qed
  then show ?thesis using D(1,2) by (auto simp: chains_cells_def)
qed

text \<open>C26: Where no number of chains is given and all cells have one bit, no chain is longer than the maximum
  length (200 where none is given, and not zero), and no chain is empty.\<close>

theorem scan_chain_lengths:
  assumes "nearest_ok nearest" "config_ok config" "\<forall>c \<in> set cells. sc_bits c = 1" "ac_max_chains config = None"
  shows "\<exists>chs. scanArchitect nearest config cells = Inr chs
    \<and> (\<forall>chain \<in> set chs. 0 < length (ch_cells chain) \<and> length (ch_cells chain) \<le> limit_length config)"
proof -
  obtain domains where D: "scanArchitect nearest config cells = Inr (getScanChains domains)"
    "chains_cells (getScanChains domains) = mset cells" "\<forall>d \<in> set domains. domain_done config (bucket_init config cells) d"
    using scanArchitect_domains [OF assms(1,2), of cells] assms(3) by (metis zero_less_one)
  have one: "\<forall>c \<in> set cs. sc_bits c = 1" if "(k, cs) \<in> set (bucket_init config cells)" for k cs
  proof
    fix c assume "c \<in> set cs"
    then have "c \<in> set (concat (map snd (bucket_init config cells)))" using that by force
    then show "sc_bits c = 1" using assms(3) bucket_init_spec(2) by (metis set_mset_mset)
  qed
  have bits: "sum_list (map sc_bits cs) = length cs" if "\<forall>c \<in> set cs. sc_bits c = 1" for cs
    using that by (induction cs) simp_all
  have "0 < length (ch_cells chain) \<and> length (ch_cells chain) \<le> limit_length config" if ch: "chain \<in> set (getScanChains domains)" for chain
  proof -
    obtain d where d: "d \<in> set domains" "chain \<in> set (snd d)" using ch unfolding getScanChains_def set_sort set_concat set_map by blast
    obtain cs l where cs: "(fst d, cs) \<in> set (bucket_init config cells)"
      "inferLimits (limit_length config) None (length cs) = Inr l" "chains_cells (snd d) = mset cs" "length (snd d) = li_chain_count l"
      "\<forall>chain \<in> set (snd d). chain_done chain" "\<forall>chain \<in> set (snd d). ch_bits chain < li_max_length l + 1"
      using D(3) d(1) assms(4) bits one unfolding domain_done_def by (metis le_refl)
    have len: "ch_bits ch = length (ch_cells ch)" if "ch \<in> set (snd d)" for ch
    proof -
      have "set (ch_cells ch) \<subseteq> set cs"
        using that cs(3) unfolding chains_cells_def by (metis (no_types, lifting) UN_upper set_concat set_map set_mset_mset image_image)
      then show ?thesis using cs(5) that one [OF cs(1)] bits by (metis chain_done_def subsetD)
    qed
    have "cs \<noteq> []" using bucket_init_spec(1) [of config cells] cs(1) by (auto simp: buckets_ok_def)
    then have l: "li_max_length l \<le> limit_length config" "(li_chain_count l - 1) * li_max_length l < length cs"
      using inferLimits_spec [of "limit_length config" None "length cs"] assms(2) cs(2)
      by (auto simp: config_ok_def limit_length_def split: option.splits)
    have short: "\<forall>ch \<in> set (snd d). length (ch_cells ch) \<le> li_max_length l"
    proof
      fix ch assume "ch \<in> set (snd d)"
      then show "length (ch_cells ch) \<le> li_max_length l" using cs(6) len [of ch] by fastforce
    qed
    obtain before after where ba: "snd d = before @ chain # after" using d(2) by (metis split_list)
    have "length cs = (\<Sum>ch \<leftarrow> snd d. length (ch_cells ch))"
      using arg_cong [OF cs(3), of size] by (simp add: chains_cells_def length_concat comp_def)
    also have "\<dots> = length (ch_cells chain) + (\<Sum>ch \<leftarrow> before @ after. length (ch_cells ch))" by (simp add: ba)
    also have "(\<Sum>ch \<leftarrow> before @ after. length (ch_cells ch)) \<le> length (before @ after) * li_max_length l"
    proof -
      have "\<forall>ch \<in> set (before @ after). length (ch_cells ch) \<le> li_max_length l" using short by (simp add: ba)
      then show ?thesis by (rule sum_list_at_most)
    qed
    finally have "length cs \<le> length (ch_cells chain) + length (before @ after) * li_max_length l" by simp
    moreover have "li_chain_count l = Suc (length (before @ after))" using cs(4) by (simp add: ba)
    ultimately have "length cs \<le> length (ch_cells chain) + (li_chain_count l - 1) * li_max_length l" by simp
    then have "0 < length (ch_cells chain)" using l(2) by linarith
    moreover have "length (ch_cells chain) \<le> li_max_length l" using short d(2) by blast
    ultimately show ?thesis using l(1) by linarith
  qed
  then show ?thesis using D(1) by blast
qed

definition take_nearest :: "Point \<Rightarrow> nat \<Rightarrow> entry list \<Rightarrow> entry list" where
  "take_nearest p k entries = take k entries"

lemma take_nearest_ok: "nearest_ok take_nearest"
  by (auto simp: nearest_ok_def take_nearest_def dest: in_set_takeD)

definition demo_cell :: "string \<Rightarrow> ClockEdge \<Rightarrow> Point \<Rightarrow> scan_cell" where
  "demo_cell name edge origin = \<lparr>sc_name = name, sc_bits = 1,
     sc_clock_domain = \<lparr>cd_clock_name = ''clk'', cd_clock_edge = edge\<rparr>, sc_origin = origin, sc_placed = True\<rparr>"

definition demo_cells :: "scan_cell list" where
  "demo_cells = [demo_cell ''a'' Rising (Point 0 0), demo_cell ''b'' Falling (Point 3 1), demo_cell ''c'' Rising (Point 2 2),
     demo_cell ''d'' Falling (Point 9 9)]"

definition demo_config :: "nat option \<Rightarrow> architect_config" where
  "demo_config max_chains = \<lparr>ac_max_length = Some 1, ac_max_chains = max_chains, ac_clock_mixing = ClockMix\<rparr>"

lemma demo_facts:
  "config_ok (demo_config None)" "config_ok (demo_config (Some 3))" "\<forall>c \<in> set demo_cells. 0 < sc_bits c" "\<forall>c \<in> set demo_cells. sc_bits c = 1"
  "ac_max_chains (demo_config None) = None" "limit_length (demo_config None) = 1"
  by (simp_all add: config_ok_def demo_config_def demo_cells_def demo_cell_def limit_length_def)

theorem scan_architect_partition_witness:
  "\<exists>chs. scanArchitect take_nearest (demo_config (Some 3)) demo_cells = Inr chs \<and> mset (concat (map ch_cells chs)) = mset demo_cells"
  using scan_architect_partition [OF take_nearest_ok demo_facts(2,3)] by blast

theorem scan_chain_lengths_witness:
  "\<exists>chs. scanArchitect take_nearest (demo_config None) demo_cells = Inr chs \<and> filter (\<lambda>chain. length (ch_cells chain) \<noteq> 1) chs = []"
proof -
  obtain chs where chs: "scanArchitect take_nearest (demo_config None) demo_cells = Inr chs"
      "\<forall>chain \<in> set chs. 0 < length (ch_cells chain) \<and> length (ch_cells chain) \<le> 1"
    using scan_chain_lengths [OF take_nearest_ok demo_facts(1,4,5)] unfolding demo_facts(6) by blast
  have "length (ch_cells chain) = 1" if "chain \<in> set chs" for chain using bspec [OF chs(2) that] by linarith
  then have "filter (\<lambda>chain. length (ch_cells chain) \<noteq> 1) chs = []" by (simp add: filter_empty_conv)
  then show ?thesis using chs(1) by blast
qed

text \<open>C40: How many chains stay empty.  Take \<open>n\<close> scan cells of one bit and of one clock domain (or any with the clocks
  mixed).  The architect makes as many chains as the maximum length asks for, or as many as are allowed where
  that is fewer, and then spreads the cells evenly, rounding the length of a chain up: it fills that many
  cells into one chain after the other, so that only as many chains get cells as the rounded length needs,
  and the others are made and stay empty.\<close>

theorem scan_chains_may_be_empty:
  assumes "nearest_ok nearest" "config_ok config" "\<forall>c \<in> set cells. sc_bits c = 1" "cells \<noteq> []"
    and "\<forall>c \<in> set cells. hashed config c = k"
  shows "\<exists>chs. scanArchitect nearest config cells = Inr chs
    \<and> (let n = length cells; asked = ceil_div n (limit_length config);
           count = (case ac_max_chains config of None \<Rightarrow> asked | Some m \<Rightarrow> min asked m)
       in length chs = count
         \<and> length (filter (\<lambda>chain. ch_cells chain = []) chs) = count - ceil_div n (ceil_div n count))"
proof -
  define n where "n = length cells"
  define count where "count = (case ac_max_chains config of None \<Rightarrow> ceil_div n (limit_length config)
    | Some m \<Rightarrow> min (ceil_div n (limit_length config)) m)"
  obtain cs where cs: "bucket_init config cells = [(k, cs)]" "mset cs = mset cells" by (rule one_bucket [OF assms(4,5)])
  have len: "length cs = n" "0 < n" and one: "\<forall>c \<in> set cs. sc_bits c = 1"
    using cs(2) assms(3,4) by (auto simp: n_def dest: mset_eq_length mset_eq_setD)
  have bits: "sum_list (map sc_bits cs) = n" using one len(1) by (metis map_eq_conv sum_list_triv mult.right_neutral length_map of_nat_id map_replicate_const sum_list_replicate)
  have lim: "limit_length config \<noteq> 0" "ac_max_chains config \<noteq> Some 0"
    using assms(2) by (auto simp: config_ok_def limit_length_def split: option.splits)
  let ?l = "\<lparr>li_chain_count = count, li_max_length = ceil_div n count\<rparr>"
  have "inferLimits (limit_length config) (ac_max_chains config) n = Inr ?l" and c0: "0 < count" and m0: "0 < ceil_div n count"
  proof -
    obtain l where l: "inferLimits (limit_length config) (ac_max_chains config) n = Inr l" "0 < li_chain_count l"
        "n \<le> li_chain_count l * li_max_length l"
      using inferLimits_spec [OF lim len(2)] by blast
    have "l = ?l" using l(1) by (auto simp: inferLimits_def Let_def count_def ceil_div_def split: if_splits option.splits)
    moreover from this have "0 < ceil_div n count" using l(3) len(2) by (cases "ceil_div n count") auto
    ultimately show "inferLimits (limit_length config) (ac_max_chains config) n = Inr ?l" "0 < count" "0 < ceil_div n count"
      using l by simp_all
  qed
  then have I: "inferChainCount config (bucket_init config cells) = Inr [(k, ?l)]"
    using len bits by (auto simp: inferChainCount_def inferChainCountFromMaxLength_def getTotalBitsPerHashDomain_def cs(1)
        limit_length_def split: option.splits)
  define chs0 where "chs0 = map (\<lambda>i. ScanChain (''chain_'' @ decimal i)) [0..<count]"
  have fresh: "\<forall>chain \<in> set chs0. \<exists>name. chain = ScanChain name" and n0: "length chs0 = count" by (auto simp: chs0_def)
  obtain chs rest where A: "architect_chains nearest (ceil_div n count) chs0 cs = Inr (chs, rest)"
    using architect_chains_spec [OF assms(1) fresh] by blast
  have R: "length chs = count" "length (filter (\<lambda>chain. ch_cells chain \<noteq> []) chs) = min count (ceil_div n (ceil_div n count))"
    using chains_with_cells [OF assms(1) m0 fresh one A] n0 len(1) by simp_all
  have "scanArchitect nearest config cells = Inr (sort_key ch_name chs)"
    using I A by (simp add: scanArchitect_def Let_def architect_def cs(1) chs0_def getScanChains_def)
  moreover have "length (filter (\<lambda>chain. ch_cells chain = []) (sort_key ch_name chs)) = count - ceil_div n (ceil_div n count)"
  proof -
    have "length (filter (\<lambda>chain. ch_cells chain = []) (sort_key ch_name chs)) = length (filter (\<lambda>chain. ch_cells chain = []) chs)"
      by (metis mset_filter mset_sort size_mset)
    then show ?thesis using R sum_length_filter_compl [of "\<lambda>chain. ch_cells chain = []" chs] by simp
  qed
  moreover have "length (sort_key ch_name chs) = count" using R(1) by simp
  ultimately show ?thesis unfolding Let_def n_def [symmetric] count_def [symmetric] by blast
qed

theorem scan_chains_may_be_empty_witness:
  "\<exists>chs. scanArchitect take_nearest (demo_config (Some 3)) demo_cells = Inr chs \<and> length chs = 3
    \<and> length (filter (\<lambda>chain. ch_cells chain = []) chs) = 1"
proof -
  have "\<forall>c \<in> set demo_cells. hashed (demo_config (Some 3)) c = 1"
    by (simp add: hashed_def GetClockDomainHashFn_def demo_config_def)
  moreover have "demo_cells \<noteq> []" "length demo_cells = 4" "ac_max_chains (demo_config (Some 3)) = Some 3"
      "limit_length (demo_config (Some 3)) = 1" "ceil_div 4 1 = 4" "ceil_div 4 3 = 2" "ceil_div 4 2 = 2"
    by (simp_all add: demo_cells_def demo_config_def limit_length_def ceil_div_def)
  ultimately show ?thesis
    using scan_chains_may_be_empty [OF take_nearest_ok demo_facts(2,4), of 1] by (simp add: Let_def)
qed

end
