(* ===== verification/DftStitch.thy ===== *)
theory DftStitch
  imports DftArchitect OdbTypes
begin

text \<open>
  Stitching (\<open>src/dft/src/stitch/ScanStitch.cpp\<close>, \<open>cells/ScanCell.hh\<close>): the cells of a chain are connected one
  to the next, with ports of the block or pins of instances at both ends.
\<close>

section \<open>Terminals and nets\<close>

datatype scan_term = BTerm string | ITerm string string

datatype stitch_error =
    EmptyChain
  | DFT_0018 string | DFT_0030 string | DFT_0031 string
  | DFT_0034 string | DFT_0035 string string | DFT_0036 string string dbIoType
  | DFT_0037 string | DFT_0038 string string | DFT_0039 string string dbIoType | DFT_0040 string

text \<open>Of the block: instances with the directions of their pins, ports, names of nets, and the net of each terminal.\<close>

record scan_block =
  bk_insts :: "string \<Rightarrow> (string \<Rightarrow> dbIoType option) option"
  bk_bterms :: "string \<Rightarrow> dbIoType option"
  bk_nets :: "string list"
  bk_net :: "scan_term \<Rightarrow> string option"

definition term_name :: "scan_term \<Rightarrow> string" where
  "term_name t = (case t of BTerm n \<Rightarrow> n | ITerm i p \<Rightarrow> i @ ''/'' @ p)"

definition connect_term :: "scan_term \<Rightarrow> string \<Rightarrow> scan_block \<Rightarrow> scan_block" where
  "connect_term t net b = b\<lparr>bk_net := (bk_net b)(t := Some net)\<rparr>"

definition net_create :: "string \<Rightarrow> scan_block \<Rightarrow> scan_block option" where
  "net_create name b = (if name \<in> set (bk_nets b) then None else Some (b\<lparr>bk_nets := name # bk_nets b\<rparr>))"

definition Connect :: "scan_term \<Rightarrow> scan_term \<Rightarrow> bool \<Rightarrow> scan_block \<Rightarrow> stitch_error + scan_block" where
  "Connect load driver preserve b =
    (case (preserve, bk_net b driver, bk_net b load) of
       (True, Some driver_net, _) \<Rightarrow> Inr (connect_term load driver_net b)
     | (True, None, Some load_net) \<Rightarrow> Inr (connect_term driver load_net b)
     | _ \<Rightarrow>
         (case bk_net b driver of
            Some driver_net \<Rightarrow> Inr (connect_term load driver_net b)
          | None \<Rightarrow>
              (case net_create (term_name driver) b of
                 None \<Rightarrow> Inl (DFT_0030 (term_name driver))
               | Some b' \<Rightarrow> Inr (connect_term load (term_name driver) (connect_term driver (term_name driver) b')))))"

section \<open>Ports\<close>

text \<open>An escaped slash does not separate.\<close>

function split_at :: "string \<Rightarrow> nat \<Rightarrow> string \<times> string option" where
  "split_at input tracker =
    (case find (\<lambda>i. input ! i = CHR ''/'') [tracker..<length input] of
       None \<Rightarrow> (input, None)
     | Some slash_position \<Rightarrow>
         if slash_position \<noteq> 0 \<and> input ! (slash_position - 1) = CHR 0x5C then split_at input (slash_position + 1)
         else (take slash_position input, Some (drop (slash_position + 1) input)))"
  by pat_completeness auto
termination
  by (relation "measure (\<lambda>(input, tracker). length input - tracker)") (auto simp: find_Some_iff)

declare split_at.simps [simp del]

definition SplitTermIdentifier :: "string \<Rightarrow> string \<times> string option" where
  "SplitTermIdentifier input = split_at input 0"

definition CreateNewPort :: "dbIoType \<Rightarrow> string \<Rightarrow> scan_block \<Rightarrow> stitch_error + scan_term \<times> scan_block" where
  "CreateNewPort io port_name b =
    (case net_create port_name b of
       None \<Rightarrow> Inl (DFT_0031 port_name)
     | Some b' \<Rightarrow>
         if bk_bterms b' port_name \<noteq> None then Inl (DFT_0018 port_name)
         else Inr (BTerm port_name,
                connect_term (BTerm port_name) port_name (b'\<lparr>bk_bterms := (bk_bterms b')(port_name := Some io)\<rparr>)))"

definition FindOrCreateDriver :: "string \<Rightarrow> scan_block \<Rightarrow> stitch_error + scan_term \<times> scan_block" where
  "FindOrCreateDriver with_name b =
    (case SplitTermIdentifier with_name of
       (inst_name, Some pin) \<Rightarrow>
         (case bk_insts b inst_name of
            None \<Rightarrow> Inl (DFT_0034 inst_name)
          | Some inst \<Rightarrow>
              (case inst pin of
                 None \<Rightarrow> Inl (DFT_0035 inst_name pin)
               | Some io \<Rightarrow> if io \<noteq> IoType_OUTPUT then Inl (DFT_0036 inst_name pin io) else Inr (ITerm inst_name pin, b)))
     | (_, None) \<Rightarrow>
         if bk_bterms b with_name \<noteq> None then Inr (BTerm with_name, b) else CreateNewPort IoType_INPUT with_name b)"

text \<open>A port of the net of the last cell that is an output is used again; \<open>ports\<close> are the names of the ports, in
  the order of the net.\<close>

definition FindOrCreateScanOut ::
    "string list \<Rightarrow> scan_term \<Rightarrow> string \<Rightarrow> scan_block \<Rightarrow> stitch_error + scan_term \<times> scan_block" where
  "FindOrCreateScanOut ports cell_scan_out with_name b =
    (case SplitTermIdentifier with_name of
       (inst_name, Some pin) \<Rightarrow>
         (case bk_insts b inst_name of
            None \<Rightarrow> Inl (DFT_0037 inst_name)
          | Some inst \<Rightarrow>
              (case inst pin of
                 None \<Rightarrow> Inl (DFT_0038 inst_name pin)
               | Some io \<Rightarrow> if io \<noteq> IoType_INPUT then Inl (DFT_0039 inst_name pin io) else Inr (ITerm inst_name pin, b)))
     | (_, None) \<Rightarrow>
         (case bk_bterms b with_name of
            Some io \<Rightarrow> if io \<noteq> IoType_OUTPUT then Inl (DFT_0040 with_name) else Inr (BTerm with_name, b)
          | None \<Rightarrow>
              (case bk_net b cell_scan_out of
                 None \<Rightarrow> CreateNewPort IoType_OUTPUT with_name b
               | Some net \<Rightarrow>
                   (case find (\<lambda>p. bk_net b (BTerm p) = Some net \<and> bk_bterms b p = Some IoType_OUTPUT) ports of
                      Some p \<Rightarrow> Inr (BTerm p, b)
                    | None \<Rightarrow> CreateNewPort IoType_OUTPUT with_name b))))"

section \<open>Stitching a chain\<close>

text \<open>The terminals of a cell; which they are, the Liberty library says. The first two are loads, the last one drives.\<close>

record scan_pins =
  sp_enable :: scan_term
  sp_in :: scan_term
  sp_out :: scan_term

fun connect_pairs :: "(scan_term \<times> scan_term) list \<Rightarrow> scan_block \<Rightarrow> stitch_error + scan_block" where
  "connect_pairs [] b = Inr b"
| "connect_pairs ((load, driver) # ps) b = sum_bind (Connect load driver False b) (connect_pairs ps)"

text \<open>
  The cells between the first and the last, each with the next one; the next one of the last of them is
  read behind the end of the sequence: it is the argument \<open>past_end\<close>.
\<close>

definition middle_pairs :: "scan_pins list \<Rightarrow> scan_pins \<Rightarrow> (scan_term \<times> scan_term) list" where
  "middle_pairs middle past_end =
    map (\<lambda>i. (sp_in (if i + 1 < length middle then middle ! (i + 1) else past_end), sp_out (middle ! i))) [0..<length middle]"

definition stitch_cells ::
    "scan_term \<Rightarrow> scan_term \<Rightarrow> scan_pins list \<Rightarrow> scan_pins \<Rightarrow> scan_block \<Rightarrow> stitch_error + scan_block" where
  "stitch_cells scan_enable scan_in cells past_end b =
    (if cells = [] then Inl EmptyChain
     else let first_cell = hd cells;
              last_cell = last cells;
              popped = tl cells;
              middle = (if popped \<noteq> [] then butlast popped else popped)
          in sum_bind (connect_pairs (map (\<lambda>c. (sp_enable c, scan_enable)) cells) b) (\<lambda>b.
             sum_bind (connect_pairs (middle_pairs middle past_end) b) (\<lambda>b.
             sum_bind (connect_pairs [(sp_enable first_cell, scan_enable), (sp_in first_cell, scan_in)] b) (\<lambda>b.
               if middle \<noteq> [] then Connect (sp_in (hd middle)) (sp_out first_cell) False b
               else if length cells \<noteq> 1 then Connect (sp_in last_cell) (sp_out first_cell) False b
               else Inr b))))"

definition Stitch ::
    "string list \<Rightarrow> string \<Rightarrow> string \<Rightarrow> string \<Rightarrow> scan_pins list \<Rightarrow> scan_pins \<Rightarrow> scan_block
      \<Rightarrow> stitch_error + (scan_term \<times> scan_term \<times> scan_term) \<times> scan_block" where
  "Stitch ports enable_name in_name out_name cells past_end b =
    sum_bind (FindOrCreateDriver enable_name b) (\<lambda>(scan_enable, b).
    sum_bind (FindOrCreateDriver in_name b) (\<lambda>(scan_in, b).
    sum_bind (stitch_cells scan_enable scan_in cells past_end b) (\<lambda>b.
    sum_bind (FindOrCreateScanOut ports (sp_out (last cells)) out_name b) (\<lambda>(scan_out, b).
    sum_bind (Connect scan_out (sp_out (last cells)) True b) (\<lambda>b.
      Inr ((scan_enable, scan_in, scan_out), b))))))"

section \<open>Splitting identifiers\<close>

lemma split_at_spec:
  "split_at input tracker = (a, Some b) \<Longrightarrow> input = a @ ''/'' @ b"
  "split_at input tracker = (a, None) \<Longrightarrow> a = input"
proof (induction input tracker arbitrary: a b rule: split_at.induct)
  case (1 input tracker)
  {
    case 1
    show ?case
    proof (cases "find (\<lambda>i. input ! i = CHR ''/'') [tracker..<length input]")
      case None
      then show ?thesis using 1 by (simp add: split_at.simps [of input tracker])
    next
      case (Some p)
      then have p: "p < length input" "input ! p = CHR ''/''" by (auto simp: find_Some_iff)
      show ?thesis
      proof (cases "p \<noteq> 0 \<and> input ! (p - 1) = CHR 0x5C")
        case True
        then show ?thesis using 1 "1.IH"(1) [OF Some True] by (simp add: split_at.simps [of input tracker] Some)
      next
        case False
        then have "a = take p input" "b = drop (p + 1) input" using 1 by (auto simp: split_at.simps [of input tracker] Some)
        then show ?thesis using id_take_nth_drop [OF p(1)] p(2) by simp
      qed
    qed
  next
    case 2
    then show ?case using "1.IH"(2)
      by (auto simp: split_at.simps [of input tracker] split: option.splits if_splits)
  }
qed

section \<open>Connecting\<close>

definition wired :: "scan_block \<Rightarrow> scan_term \<Rightarrow> scan_term \<Rightarrow> bool" where
  "wired b t u \<longleftrightarrow> bk_net b t \<noteq> None \<and> bk_net b t = bk_net b u"

lemma Connect_spec:
  assumes "Connect load driver False b = Inr b'"
  shows "wired b' load driver" "t \<noteq> load \<Longrightarrow> bk_net b t \<noteq> None \<Longrightarrow> bk_net b' t = bk_net b t"
    "t \<noteq> load \<Longrightarrow> t \<noteq> driver \<Longrightarrow> bk_net b' t = bk_net b t"
  using assms by (auto simp: Connect_def wired_def connect_term_def net_create_def split: option.splits if_splits)

lemma Connect_preserve: "Connect load driver True b = Inr b' \<Longrightarrow> wired b' load driver"
  by (auto simp: Connect_def wired_def connect_term_def net_create_def split: option.splits if_splits)

lemma Connect_keeps_wired: "Connect load driver False b = Inr b' \<Longrightarrow> wired b t u \<Longrightarrow> load \<noteq> t \<Longrightarrow> load \<noteq> u \<Longrightarrow> wired b' t u"
  using Connect_spec(2) [of load driver b b'] by (metis wired_def)

lemma connect_pairs_keeps:
  "connect_pairs ps b = Inr b' \<Longrightarrow> wired b t u \<Longrightarrow> t \<notin> fst ` set ps \<Longrightarrow> u \<notin> fst ` set ps \<Longrightarrow> wired b' t u"
  by (induction ps b rule: connect_pairs.induct) (auto simp: sum_bind_Inr dest: Connect_keeps_wired)

lemma connect_pairs_untouched:
  "connect_pairs ps b = Inr b' \<Longrightarrow> t \<notin> fst ` set ps \<Longrightarrow> t \<notin> snd ` set ps \<Longrightarrow> bk_net b' t = bk_net b t"
  by (induction ps b rule: connect_pairs.induct) (auto simp: sum_bind_Inr Connect_spec(3))

text \<open>Where a load has one driver, and no load is a driver, all pairs are wired in the end.\<close>

definition pairs_ok :: "(scan_term \<times> scan_term) list \<Rightarrow> bool" where
  "pairs_ok ps \<longleftrightarrow> (\<forall>t u u'. (t, u) \<in> set ps \<and> (t, u') \<in> set ps \<longrightarrow> u = u') \<and> fst ` set ps \<inter> snd ` set ps = {}"

lemma pairs_ok_Cons: "pairs_ok (p # ps) \<Longrightarrow> pairs_ok ps"
  unfolding pairs_ok_def by auto

lemma connect_pairs_wires: "connect_pairs ps b = Inr b' \<Longrightarrow> pairs_ok ps \<Longrightarrow> (t, u) \<in> set ps \<Longrightarrow> wired b' t u"
proof (induction ps b arbitrary: t u rule: connect_pairs.induct)
  case (2 load driver ps b)
  obtain b1 where b1: "Connect load driver False b = Inr b1" "connect_pairs ps b1 = Inr b'"
    using "2.prems"(1) by (auto simp: sum_bind_Inr)
  have all: "wired b' t u" if "(t, u) \<in> set ps" for t u
    using "2.IH" [OF b1 pairs_ok_Cons [OF "2.prems"(2)] that] .
  have "wired b' load driver"
  proof (cases "load \<in> fst ` set ps")
    case True
    then obtain u where u: "(load, u) \<in> set ps" by auto
    then have "u = driver" using "2.prems"(2) unfolding pairs_ok_def by (meson list.set_intros)
    then show ?thesis using all u by blast
  next
    case False
    have "driver \<in> snd ` set ((load, driver) # ps)" by simp
    then have "driver \<notin> fst ` set ((load, driver) # ps)" using "2.prems"(2) unfolding pairs_ok_def by blast
    then have "driver \<notin> fst ` set ps" by simp
    then show ?thesis using connect_pairs_keeps [OF b1(2) Connect_spec(1) [OF b1(1)] False] by blast
  qed
  then show ?case using all "2.prems"(3) by auto
qed simp

lemma connect_pairs_append: "connect_pairs (ps @ qs) b = sum_bind (connect_pairs ps b) (connect_pairs qs)"
proof (induction ps b rule: connect_pairs.induct)
  case (2 load driver ps b)
  then show ?case by (cases "Connect load driver False b") simp_all
qed simp

section \<open>The connections of a chain\<close>

definition next_pairs :: "scan_pins list \<Rightarrow> (scan_term \<times> scan_term) list" where
  "next_pairs cells = map (\<lambda>i. (sp_in (cells ! Suc i), sp_out (cells ! i))) [0..<length cells - 1]"

lemma middle_pairs_next: "middle_pairs middle past_end = next_pairs (middle @ [past_end])"
  by (auto simp: middle_pairs_def next_pairs_def nth_append intro!: map_cong)

lemma next_pairs_Cons: "cells \<noteq> [] \<Longrightarrow> next_pairs (a # cells) = (sp_in (hd cells), sp_out a) # next_pairs cells"
proof (cases cells)
  case (Cons b bs)
  have "[0..<Suc n] = 0 # map Suc [0..<n]" for n by (simp add: map_Suc_upt upt_conv_Cons del: upt_Suc)
  from this [of "length bs"] show ?thesis using Cons by (simp add: next_pairs_def comp_def del: upt_Suc)
qed simp

definition stitch_pairs :: "scan_term \<Rightarrow> scan_term \<Rightarrow> scan_pins list \<Rightarrow> scan_pins \<Rightarrow> (scan_term \<times> scan_term) list" where
  "stitch_pairs scan_enable scan_in cells past_end =
    map (\<lambda>c. (sp_enable c, scan_enable)) cells @ next_pairs (butlast (tl cells) @ (if butlast (tl cells) = [] then [] else [past_end]))
    @ [(sp_enable (hd cells), scan_enable), (sp_in (hd cells), scan_in)]
    @ (if length cells = 1 then [] else [(sp_in (hd (tl cells)), sp_out (hd cells))])"

lemma stitch_cells_pairs:
  assumes "cells \<noteq> []"
  shows "stitch_cells scan_enable scan_in cells past_end b = connect_pairs (stitch_pairs scan_enable scan_in cells past_end) b"
proof -
  have one: "connect_pairs [(l, d)] b = Connect l d False b" for l d b by (cases "Connect l d False b") simp_all
  have mid: "middle_pairs (butlast (tl cells)) past_end
      = next_pairs (butlast (tl cells) @ (if butlast (tl cells) = [] then [] else [past_end]))"
    by (simp add: middle_pairs_next) (simp add: next_pairs_def)
  have hds: "hd (butlast (tl cells)) = hd (tl cells)" if "butlast (tl cells) \<noteq> []"
    using that by (cases "tl cells") (auto split: if_splits)
  have last: "last cells = hd (tl cells)" if "butlast (tl cells) = []" "length cells \<noteq> 1"
    using that assms by (cases cells; cases "tl cells") (auto split: if_splits)
  have popped: "(if tl cells \<noteq> [] then butlast (tl cells) else tl cells) = butlast (tl cells)" by (cases "tl cells") auto
  have len: "length cells \<noteq> 1" if "butlast (tl cells) \<noteq> []" using that by (cases cells; cases "tl cells") auto
  show ?thesis
    unfolding stitch_cells_def stitch_pairs_def connect_pairs_append Let_def popped mid using assms hds last len
    by (auto simp: one sum_bind_def fun_eq_iff simp del: connect_pairs.simps(2) split: sum.splits)
qed

definition terms_ok :: "scan_term \<Rightarrow> scan_term \<Rightarrow> scan_pins list \<Rightarrow> bool" where
  "terms_ok scan_enable scan_in cells \<longleftrightarrow> distinct (map sp_in cells) \<and> sp_in ` set cells \<inter> sp_enable ` set cells = {}
    \<and> (sp_in ` set cells \<union> sp_enable ` set cells) \<inter> (sp_out ` set cells \<union> {scan_enable, scan_in}) = {}"

lemma stitch_pairs_set:
  assumes "cells \<noteq> []"
  shows "set (stitch_pairs scan_enable scan_in cells (last cells))
    = (\<lambda>c. (sp_enable c, scan_enable)) ` set cells \<union> {(sp_in (hd cells), scan_in)} \<union> set (next_pairs cells)"
proof -
  consider a where "cells = [a]" | a z where "cells = [a, z]" | a mid z where "cells = a # mid @ [z]" "mid \<noteq> []"
    using assms by (metis append_Nil list.exhaust rev_exhaust)
  then show ?thesis
  proof cases
    case 3
    then have "next_pairs cells = (sp_in (hd mid), sp_out a) # next_pairs (mid @ [z])" by (simp add: next_pairs_Cons)
    then show ?thesis using 3 by (auto simp: stitch_pairs_def butlast_append)
  qed (auto simp: stitch_pairs_def next_pairs_def)
qed

lemma next_pairs_mem: "p \<in> set (next_pairs cells) \<longleftrightarrow> (\<exists>i. Suc i < length cells \<and> p = (sp_in (cells ! Suc i), sp_out (cells ! i)))"
proof -
  have "i < length cells - 1 \<longleftrightarrow> Suc i < length cells" for i by linarith
  then show ?thesis by (auto simp: next_pairs_def image_iff Bex_def)
qed

lemma stitch_pairs_ok:
  assumes "cells \<noteq> []" "terms_ok scan_enable scan_in cells"
  shows "pairs_ok (stitch_pairs scan_enable scan_in cells (last cells))"
proof -
  have hd: "hd cells \<in> set cells" "hd cells = cells ! 0" using assms(1) by (simp_all add: hd_conv_nth)
  have ne: "sp_in (cells ! i) = sp_in (cells ! j) \<longleftrightarrow> i = j" if "i < length cells" "j < length cells" for i j
    using assms(2) that nth_eq_iff_index_eq [of "map sp_in cells" i j] by (simp add: terms_ok_def)
  have mem: "cells ! i \<in> set cells" if "i < length cells" for i using that by simp
  have in_en: "sp_in c \<noteq> sp_enable d" if "c \<in> set cells" "d \<in> set cells" for c d
    using assms(2) that unfolding terms_ok_def by blast
  define drv where "drv t = (if t \<in> sp_enable ` set cells then scan_enable
    else let i = THE i. i < length cells \<and> sp_in (cells ! i) = t in if i = 0 then scan_in else sp_out (cells ! (i - 1)))" for t
  have d: "drv (sp_in (cells ! i)) = (if i = 0 then scan_in else sp_out (cells ! (i - 1)))" if i: "i < length cells" for i
  proof -
    have "(THE j. j < length cells \<and> sp_in (cells ! j) = sp_in (cells ! i)) = i" by (rule the_equality) (use ne i in auto)
    moreover have "sp_in (cells ! i) \<notin> sp_enable ` set cells" using in_en mem [OF i] by blast
    ultimately show ?thesis by (simp add: drv_def)
  qed
  have "u = drv t" if tu: "(t, u) \<in> set (stitch_pairs scan_enable scan_in cells (last cells))" for t u
  proof -
    consider c where "c \<in> set cells" "t = sp_enable c" "u = scan_enable" | "t = sp_in (hd cells)" "u = scan_in"
      | i where "Suc i < length cells" "t = sp_in (cells ! Suc i)" "u = sp_out (cells ! i)"
      using tu unfolding stitch_pairs_set [OF assms(1)] Un_iff next_pairs_mem by blast
    then show ?thesis
    proof cases
      case 1
      then show ?thesis by (simp add: drv_def)
    next
      case 2
      then show ?thesis using d [of 0] hd(2) assms(1) by simp
    next
      case 3
      then show ?thesis using d [of "Suc i"] by simp
    qed
  qed
  note drv = this
  have "u = u'" if "(t, u) \<in> set (stitch_pairs scan_enable scan_in cells (last cells))"
      "(t, u') \<in> set (stitch_pairs scan_enable scan_in cells (last cells))" for t u u'
    using drv [OF that(1)] drv [OF that(2)] by simp
  moreover have "fst ` set (stitch_pairs scan_enable scan_in cells (last cells)) \<subseteq> sp_in ` set cells \<union> sp_enable ` set cells"
    "snd ` set (stitch_pairs scan_enable scan_in cells (last cells)) \<subseteq> sp_out ` set cells \<union> {scan_enable, scan_in}"
    unfolding stitch_pairs_set [OF assms(1)] using hd(1) by (auto simp: next_pairs_mem)
  moreover have "(sp_in ` set cells \<union> sp_enable ` set cells) \<inter> (sp_out ` set cells \<union> {scan_enable, scan_in}) = {}"
    using assms(2) by (simp only: terms_ok_def)
  ultimately show ?thesis unfolding pairs_ok_def by (metis (no_types, lifting) Int_mono subset_empty)
qed

section \<open>Properties\<close>

text \<open>An identifier with a slash that is not escaped is split at it: joined by the slash, the parts are the
  identifier; one that is not split is returned.\<close>

theorem split_identifier:
  "case SplitTermIdentifier input of (a, Some b) \<Rightarrow> input = a @ ''/'' @ b | (a, None) \<Rightarrow> a = input"
  using split_at_spec [of input 0] by (auto simp: SplitTermIdentifier_def split: option.split)

text \<open>C27: Where what is read behind the end of the sequence of cells is the last cell, which has just been taken
  from it, stitching connects the scan input of the first cell to the driver of the chain, that of every
  other cell to the output of the one before it, and all enable pins to their driver.\<close>

theorem stitch_connects_chain:
  assumes "cells \<noteq> []" "terms_ok scan_enable scan_in cells"
    and "stitch_cells scan_enable scan_in cells (last cells) b = Inr b'"
  shows "wired b' (sp_in (hd cells)) scan_in \<and> (\<forall>c \<in> set cells. wired b' (sp_enable c) scan_enable)
    \<and> (\<forall>i < length cells - 1. wired b' (sp_in (cells ! Suc i)) (sp_out (cells ! i)))"
proof -
  have C: "connect_pairs (stitch_pairs scan_enable scan_in cells (last cells)) b = Inr b'"
    using assms(3) stitch_cells_pairs [OF assms(1)] by simp
  note W = connect_pairs_wires [OF C stitch_pairs_ok [OF assms(1,2)], unfolded stitch_pairs_set [OF assms(1)]]
  show ?thesis
  proof (intro conjI ballI allI impI)
    show "wired b' (sp_in (hd cells)) scan_in" by (rule W) simp
    show "wired b' (sp_enable c) scan_enable" if "c \<in> set cells" for c by (rule W) (use that in simp)
    show "wired b' (sp_in (cells ! Suc i)) (sp_out (cells ! i))" if "i < length cells - 1" for i
      by (rule W) (use that in \<open>simp add: next_pairs_def\<close>)
  qed
qed

text \<open>C39: A chain of three cells or more depends on that read: where it gives anything but the last cell, the scan
  input of the last cell stays as it was.  (The element behind the end is not the program's to read.)\<close>

theorem stitch_reads_past_end:
  assumes "3 \<le> length cells" "terms_ok scan_enable scan_in cells" "sp_in past_end \<noteq> sp_in (last cells)"
    and "stitch_cells scan_enable scan_in cells past_end b = Inr b'"
  shows "bk_net b' (sp_in (last cells)) = bk_net b (sp_in (last cells))"
proof -
  obtain a xs where a: "cells = a # xs" using assms(1) by (cases cells) auto
  moreover from this obtain mid z where m: "xs = mid @ [z]" using assms(1) by (cases xs rule: rev_cases) auto
  ultimately have cells: "cells = a # mid @ [z]" "mid \<noteq> []" using assms(1) by auto
  have P: "set (stitch_pairs scan_enable scan_in cells past_end)
    = (\<lambda>c. (sp_enable c, scan_enable)) ` set cells \<union> {(sp_in a, scan_in), (sp_in (hd mid), sp_out a)} \<union> set (next_pairs (mid @ [past_end]))"
    using cells by (auto simp: stitch_pairs_def butlast_append)
  have z: "z \<in> set cells" "hd mid \<in> set mid" using cells by simp_all
  have ins: "sp_in z \<noteq> sp_in a" "sp_in z \<notin> sp_in ` set mid" using assms(2) cells by (auto simp: terms_ok_def)
  have np: "t \<in> sp_in ` set mid \<union> {sp_in past_end} \<and> u \<in> sp_out ` set mid" if "(t, u) \<in> set (next_pairs (mid @ [past_end]))" for t u
    using that by (auto simp: next_pairs_mem nth_append less_Suc_eq split: if_splits)
  have "sp_in z \<notin> fst ` set (stitch_pairs scan_enable scan_in cells past_end)"
    unfolding P using np ins z assms(2,3) cells by (fastforce simp: terms_ok_def)
  moreover have "sp_in z \<notin> snd ` set (stitch_pairs scan_enable scan_in cells past_end)"
    unfolding P using np z assms(2) cells by (fastforce simp: terms_ok_def)
  moreover have "connect_pairs (stitch_pairs scan_enable scan_in cells past_end) b = Inr b'"
    using assms(4) stitch_cells_pairs [of cells] cells by simp
  ultimately show ?thesis using connect_pairs_untouched cells(1) by simp
qed

definition demo_pins :: "string \<Rightarrow> scan_pins" where
  "demo_pins inst = \<lparr>sp_enable = ITerm inst ''SE'', sp_in = ITerm inst ''SI'', sp_out = ITerm inst ''Q''\<rparr>"

definition demo_chain :: "scan_pins list" where
  "demo_chain = [demo_pins ''a'', demo_pins ''b'', demo_pins ''c'']"

definition demo_scan_block :: scan_block where
  "demo_scan_block = \<lparr>bk_insts = (\<lambda>_. None), bk_bterms = (\<lambda>_. None), bk_nets = [], bk_net = (\<lambda>_. None)\<rparr>"

lemma demo_chain_ok: "demo_chain \<noteq> []" "3 \<le> length demo_chain" "terms_ok (BTerm ''en'') (BTerm ''si'') demo_chain"
  "last demo_chain = demo_pins ''c''" "sp_in (demo_pins ''b'') \<noteq> sp_in (last demo_chain)"
  by (auto simp: demo_chain_def terms_ok_def demo_pins_def)

lemma demo_stitched:
  "\<exists>b'. stitch_cells (BTerm ''en'') (BTerm ''si'') demo_chain past_end demo_scan_block = Inr b'" if "past_end \<in> {demo_pins ''b'', demo_pins ''c''}"
  using that
  by (auto simp: demo_chain_def stitch_cells_def Connect_def net_create_def connect_term_def demo_pins_def demo_scan_block_def
    middle_pairs_def term_name_def)

theorem stitch_connects_chain_witness:
  "\<exists>b'. stitch_cells (BTerm ''en'') (BTerm ''si'') demo_chain (demo_pins ''c'') demo_scan_block = Inr b'
    \<and> wired b' (ITerm ''a'' ''SI'') (BTerm ''si'')"
proof -
  obtain b' where b': "stitch_cells (BTerm ''en'') (BTerm ''si'') demo_chain (demo_pins ''c'') demo_scan_block = Inr b'"
    using demo_stitched by blast
  from stitch_connects_chain [OF demo_chain_ok(1,3) b' [folded demo_chain_ok(4)]] show ?thesis
    using b' by (simp add: demo_chain_def demo_pins_def)
qed

theorem stitch_reads_past_end_witness:
  "\<exists>b'. stitch_cells (BTerm ''en'') (BTerm ''si'') demo_chain (demo_pins ''b'') demo_scan_block = Inr b'
    \<and> bk_net b' (ITerm ''c'' ''SI'') = None"
proof -
  obtain b' where b': "stitch_cells (BTerm ''en'') (BTerm ''si'') demo_chain (demo_pins ''b'') demo_scan_block = Inr b'"
    using demo_stitched by blast
  from stitch_reads_past_end [OF demo_chain_ok(2,3,5) b'] show ?thesis
    using b' by (simp add: demo_chain_def demo_pins_def demo_scan_block_def)
qed

end
