(* ===== verification/Spec2Isabelle.thy ===== *)
theory Spec2Isabelle
  imports OdbPrelude OdbGeom OdbTypes OdbTransform OdbWireCodec OdbWireJunction OdbPagedVector OdbTable OdbHash
    OdbJournalLog OdbJournal OdbInst OdbMembership OdbNetlist OdbConnections OdbNetlistEco
    ParVector ParHeap ParHypergraph ParEvaluator ParRefiner ParMoves ParFM ParGreedy ParKPM
    MplMacro MplPack MplAnneal MplHard MplLegal
    DftArchitect DftStitch
begin

text \<open>
  OpenROAD is a chip layout application: a set of tools that read, place, route and write a
  design.  All of them work on one database, OpenDB (\<open>src/odb\<close>), and each tool is a library of
  its own under \<open>src/\<close>.  This development models the core of the database: the containers its
  objects live in, the geometry and placement of instances, the encoding of routed wires, the
  connections of terminals and nets, and the journal that undoes and redoes changes; and, of the
  tools, the refinement of partitions (\<open>src/par\<close>), the annealing of hard macros (\<open>src/mpl\<close>) and the scan
  chains of the design for test (\<open>src/dft\<close>).

  \<^bold>\<open>How the parts interact.\<close>  Every object of the database is a slot of a table (\<open>dbTable\<close>) and is
  named by its id; ids are reused through a free list.  Names are found through hash tables over
  the same slots (\<open>dbHashTable\<close>), long sequences are kept in paged vectors (\<open>dbPagedVector\<close>).  A
  block owns instances (\<open>dbInst\<close>), whose bounding boxes come from the master's box through a
  transform (\<open>dbTransform\<close>, \<open>geom.h\<close>), and nets, whose terminals form doubly linked lists threaded
  through the terminal objects (\<open>dbITerm\<close>, \<open>dbBTerm\<close>, \<open>dbModNet\<close>).  A net's wire is one pair of
  arrays written by \<open>dbWireEncoder\<close> and read by \<open>dbWireDecoder\<close>.  Between \<open>beginEco\<close> and \<open>endEco\<close>
  every setter pushes an action onto a byte log (\<open>dbJournalLog\<close>) which the two loops of
  \<open>dbJournal\<close> replay, forwards for \<open>commitEco\<close> and backwards for \<open>undoEco\<close>.

  The partitioner keeps a netlist as a hypergraph of its own (\<open>Hypergraph\<close>).  An evaluator gives a
  solution, which assigns a block to every vertex, its cost; a refiner improves a solution by moving
  vertices or hyperedges, picks the moves from one priority queue of gains per block, and keeps the
  degrees of the hyperedges, the weights of the blocks and the costs of the timing paths up to date
  instead of computing them again.

  The macro placer anneals: a sequence pair, two orders of the macros, stands for a placement; a move
  changes the orders or flips the macros, packing gives the placement, its penalties give a cost, and
  the schedule keeps the move or takes it back.  The best result that fits is kept aside.

  The scan architect groups the scan cells by clock domain, computes for each domain how many chains there are
  and how long they may be, deals the cells to the chains and orders the cells of a chain from neighbour to
  neighbour.  The stitcher then finds or creates the ports of a chain and connects each cell to the next.

  \<^bold>\<open>Theories of the database.\<close>  File names are relative to \<open>src/odb\<close>: headers under \<open>include/odb\<close> and \<open>src/db\<close>,
  sources under \<open>src/db\<close>.

  \<^item> \<open>OdbPrelude\<close>: machine ranges of the C types, error results, and the lemmas on lists, options
    and words that the components share.
  \<^item> \<open>OdbGeom\<close>, from \<open>geom.h\<close> and \<open>isotropy.h\<close>: directions, orientations, \<open>Point\<close>, \<open>Rect\<close>, \<open>Oct\<close>,
    \<open>Line\<close>, and the enclosing box of a polygon.  Coordinates are integers; the lemmas that
    depend on the 32-bit range say so, and the wrap-around of \<open>squaredDistance\<close> and of a polygon's
    box outside it is written out.
  \<^item> \<open>OdbTypes\<close>, from \<open>dbTypes.h\<close> and \<open>dbTypes.cpp\<close>: the enumerations with their name tables.
  \<^item> \<open>OdbTransform\<close>, from \<open>dbTransform.h\<close>, \<open>dbTransform.cpp\<close>, \<open>dbHierInstShapeItr.cpp\<close>: transforms,
    their composition, inversion and image of rectangles, and the transforms along a hierarchy.
  \<^item> \<open>OdbWire\<close>, \<open>OdbWireEncoder\<close>, \<open>OdbWireDecoder\<close>, \<open>OdbWireCodec\<close>, \<open>OdbWireJunction\<close>, from
    \<open>dbWireOpcode.h\<close> and \<open>dbWireCodec.cpp\<close>: opcodes with their flag bits, the encoder's and the
    decoder's fields as records with one definition per operation, the relation between an
    encoder and a decoder that reads what it wrote, and the meaning of junction ids.
  \<^item> \<open>OdbTable\<close>, from \<open>dbTable.h\<close> and \<open>dbTable.hpp\<close>: pages, the free list, creation, release, the
    bounds of the valid ids, iteration, comparison and streams.
  \<^item> \<open>OdbHash\<close>, from \<open>dbHashTable.hpp\<close>, \<open>dbIntHashTable.hpp\<close>, \<open>dbNameCache.cpp\<close>: chained hash tables
    with growing and shrinking, and the reference counted cache of names over them.
  \<^item> \<open>OdbPagedVector\<close>, from \<open>dbPagedVector.h\<close>: \<open>push_back\<close>, access, copying, comparison, streams.
  \<^item> \<open>OdbJournalLog\<close>, from \<open>dbJournalLog.cpp\<close>: typed pushes and pops over a list of bytes, with
    the type tags of debug mode.
  \<^item> \<open>OdbJournal\<close>, from \<open>dbJournal.cpp\<close>: recording of actions and the undo and redo loops, over
    any switch on actions that keeps the contract of the locales of that theory.
  \<^item> \<open>OdbInst\<close>, from \<open>dbInst.cpp\<close>, \<open>dbBlock.cpp\<close> and the ECO functions of \<open>dbDatabase.cpp\<close>: the
    placement fields and bit flags of an instance, its bounding box and the block's, the field
    cases of the journal's switches.
  \<^item> \<open>OdbMembership\<close>, \<open>OdbNetlist\<close>, \<open>OdbConnections\<close>, from \<open>dbITerm.cpp\<close>, \<open>dbBTerm.cpp\<close>,
    \<open>dbNet.cpp\<close>, \<open>dbModNet.cpp\<close>, \<open>dbModITerm.cpp\<close>, \<open>dbModBTerm.cpp\<close> and the six list iterators: one
    generic doubly linked list, the netlist's record with one definition per operation, and
    the operations in any order.
  \<^item> \<open>OdbNetlistEco\<close>, from \<open>dbJournal.cpp\<close> and \<open>dbDatabase.cpp\<close>: undo and redo of connections.

  \<^bold>\<open>Theories of the partitioner.\<close>  File names are relative to \<open>src/par/src\<close>.

  \<^item> \<open>ParVector\<close>, from \<open>Utilities.cpp\<close>: sums of weight vectors, and the two comparisons that the
    operators on them mean, by components where the file defines one and lexicographic elsewhere.
  \<^item> \<open>ParHeap\<close>, from \<open>PriorityQueue.cpp\<close>: the max heap of gains with the place of every vertex.
  \<^item> \<open>ParHypergraph\<close>, from \<open>Hypergraph.cpp\<close>: the arrays of vertices, hyperedges and timing paths.
  \<^item> \<open>ParEvaluator\<close>, from \<open>Evaluator.cpp\<close>: degrees, block weights, path costs, cost and constraints.
  \<^item> \<open>ParRefiner\<close>, from \<open>Refiner.cpp\<close>: gains of moves, making and undoing them, their legality, and
    the loop \<open>Refine\<close> around the virtual function \<open>Pass\<close>.
  \<^item> \<open>ParMoves\<close>: what a move does to degrees, weights and costs, runs of moves, and the contract of \<open>Pass\<close>.
  \<^item> \<open>ParFM\<close>, \<open>ParGreedy\<close>, \<open>ParKPM\<close>, from \<open>KWayFMRefine.cpp\<close>, \<open>GreedyRefine.cpp\<close>,
    \<open>KWayPMRefine.cpp\<close>: the three refinements.

  \<^bold>\<open>Theories of the macro placer.\<close>  File names are relative to \<open>src/mpl/src\<close>.

  \<^item> \<open>MplMacro\<close>, from \<open>object.h\<close> and \<open>object.cpp\<close>: rectangles in microns and hard macros.
  \<^item> \<open>MplPack\<close>, from \<open>SimulatedAnnealingCore.cpp\<close>: \<open>packFloorplan\<close>, for any class of macros.
  \<^item> \<open>MplAnneal\<close>, from the same file: the fields of the annealer, its penalties and moves, and \<open>fastSA\<close>
    over the methods that a subclass overrides.
  \<^item> \<open>MplHard\<close>, from \<open>SACoreHardMacro.cpp\<close>: the subclass for hard macros, and \<open>runSA\<close>.
  \<^item> \<open>MplLegal\<close>: the theorems about annealing hard macros.

  \<^bold>\<open>Theories of the scan chains.\<close>  File names are relative to \<open>src/dft/src\<close>.

  \<^item> \<open>DftArchitect\<close>, from \<open>clock_domain\<close> and \<open>architect\<close>: the hash of clock domains, the buckets, the limits of
    the chains, \<open>OptimizeScanWirelength\<close>, and \<open>scanArchitect\<close>, which runs them all.
  \<^item> \<open>DftStitch\<close>, from \<open>ScanStitch.cpp\<close> and \<open>ScanCell.hh\<close>: splitting of port names, finding and creating ports,
    connecting two terminals, and \<open>Stitch\<close> for one chain.

  \<^bold>\<open>What the lemmas show.\<close>
  Codec: whatever commands an encoder accepts, the decoder returns the elements they stand for,
  every junction id resolves to the point it named, the decoder's walk ends, and \<open>peek\<close> announces
  what \<open>next\<close> returns.  Transforms: the eight orientations and an offset form a group acting on
  points, rectangles map exactly, and the shape iterator composes them in the other order.
  Tables: the free list and the counters always describe the slots, creating and destroying
  refine insertion and removal of a set of ids, iteration meets every valid id once and ends, a
  stream restores the table.  Hash tables: look-up, insertion and removal refine a finite map from
  keys to stacks of objects across growing and shrinking; the cache interns names and counts
  references.  Paged vector: a vector, below the largest 32-bit size.  Log: what is pushed is
  popped, and a reader out of step is detected in debug mode.  Instances: undoing an ECO restores
  the placement whatever the setters did, committing it on the old state reapplies it, and
  \<open>setLocation\<close> moves the box where it should.  Connections: all six iterators agree with the
  fields of the terminals after any operations but calls of three kinds (\<open>net_cmd_ok\<close> excludes
  them: \<open>dbITerm::connect\<close> of a \<open>dbModNet\<close> on an instance that must not be touched, and \<open>connect\<close>
  of a \<open>dbModITerm\<close> or \<open>dbModBTerm\<close> that is on a list already); with the same exceptions each
  operation refines its effect on the lists.  An operation that raises changes nothing, the first of
  the three excepted.  Merging two nets ends with all terminals on one, and
  the ECO properties hold for connections too.  The remaining theorems state where the code does
  not do this: the lists after a call of the three kinds, on any netlist, connections that undo does
  not bring back, boxes that undo leaves stale.
  Partitioner: the heap refines a finite map from vertices to gains and its top is the largest; the
  gain of a move, computed from the degrees by cases, is the decrease of the cost when the vertex is
  at most once on each timing path, and counts a path once more for every further time that the
  vertex is on it; making and taking
  back a move restores the state; a pass of FM ends in the last of the best solutions that its tried
  moves met; refining a
  balanced solution keeps the bounds and the fixed vertices and never makes the cost worse.  For FM and
  the pairwise refinement the last two are proved for hypergraphs where no vertex is twice on a timing path
  (\<open>paths_once\<close>) and all vertices of a path are neighbours (\<open>paths_local\<close>); the program ensures neither of
  them, and the greedy refinement needs neither.  Again
  some theorems state what the code does and surely does not mean: weights beyond the first
  dimension that are not checked, buckets that stay switched off, a greedy refinement that does nothing
  when some vertices are fixed and in place.
  Macro placer: packing a sequence pair gives a placement without overlaps, the least one that the pair
  allows; a perturbation can be taken back; annealing returns, without the error of sequences that
  diverge, such a placement of the same macros, and does not lose one that fits; the penalty of the fences is
  zero exactly if the macros are inside.
  Scan chains: the architect returns, without the error that no neighbour is found; every scan cell is in
  one chain, a chain has cells of one hash of clock domains, the falling ones first, and with cells of one bit
  no chain is empty or too long, if no number of chains is configured; for cells of one clock domain
  a theorem says, with such a number too, how many chains there are and how many stay empty.  Stitching connects every cell to the one before, if the element that
  it reads behind the end of a sequence is the one that has just been removed; another theorem
  states what happens otherwise.

  \<^bold>\<open>Errors, loops and bounds.\<close>  \<open>ZALLOCATED\<close>, \<open>ZASSERT\<close> and \<open>logger->error\<close> are values of a result type,
  so every guard is a branch.  A loop over a list, a page table or a chain that the source ends
  by a null id is a recursion over fuel: the fuel is the number of slots, and the invariants show
  that a chain has no repeated id, so that the fuel is enough; the theorems that a loop
  returns are stated as such.  Ids, page numbers, sizes of vectors and hashes are words or
  naturals below \<open>2 ^ 32\<close>, as in the source, with the bound among the hypotheses where the code
  depends on it.
  The partitioner computes with \<open>float\<close>; its definitions take any type with the operations they use,
  and the theorems are about ordered rings, where sums are exact: rounding, overflow and NaN are
  outside the model, and the constant \<open>-FLT_MAX\<close> is the argument \<open>lowest\<close>.  The functions it runs in
  threads, one for each block, touch one bucket each and are run one after the other.
  The macro placer computes with \<open>float\<close> too, here a value of an ordered field with a ceiling.  Its random
  numbers, \<open>exp\<close> and \<open>log\<close> are an argument; drawing an index again until it differs is a partial function,
  and the theorem that annealing returns assumes that not always the same number is drawn
  (\<open>env_fair\<close>), and, as all theorems about moves, that numbers are in their range (\<open>env_ok\<close>).
  The scan architect asks an R-tree of boost for the nearest points.  The query is the argument \<open>nearest\<close>, and
  \<open>nearest_ok\<close> says that it gives as many different points of the tree as it is asked for, or all.
  Numbers of bits and chains are naturals; divisions by zero, which a limit of zero leads to, are errors.

  \<^bold>\<open>Locales.\<close>  \<open>object_store\<close> is what the hash tables need of the tables that hold their objects;
  \<open>sequence\<close> what makes a paged vector a vector; \<open>point_action\<close> a group of maps on points;
  \<open>term_list\<close> the doubly linked list of a net, with four kinds of terminals and three kinds of
  links; \<open>journal_switch\<close> what the undo and redo loops need of the switch on actions; \<open>gain_bucket\<close> what a pass needs of the priority queue;
  \<open>refiner_pass\<close> what \<open>Refine\<close> needs of a pass, met by all three refinements; \<open>axis\<close> and \<open>placeable\<close> what packing
  needs of macros in one direction and in both; \<open>annealing\<close> what \<open>fastSA\<close> needs of the methods it calls, and
  \<open>returning_annealing\<close> what makes it return.  Each is
  interpreted on the definitions of the model, in the theory that provides them.

  \<^bold>\<open>Not modelled.\<close>  The other object classes of \<open>db.h\<close> (getters and setters over the schema, partly
  generated), creation and destruction of instances and nets, the \<open>PropertyList\<close>, memory statistics,
  printing, and callbacks beyond the fact that they are called.  The readers and writers of LEF,
  DEF and GDS are vendored parsers and I/O.  Of the macro placer, clustering, soft macros and their annealing,
  and the flow over the hierarchy are left out; of the design for test, the replacement
  and recognition of scan cells, which ask OpenSTA, and the writing of the chains to the database.  The cell placers, routers, extraction, clock trees, power
  grids and sizing rest on floating-point heuristics, on boost geometry, or on the timing engine
  OpenSTA, which is a submodule and not in the repository.  Of the partitioner, coarsening and initial
  solutions use random choices, divisions and an ILP solver, and the rest is input and output.
\<close>

end
